(* ===== verification/Prelude.thy ===== *)
theory Prelude
  imports Main "HOL-Library.Word"
begin

text \<open>
  The shared vocabulary of the development.

  \<^item> Rust panics are values: \<open>'a res\<close> is \<open>panic + 'a\<close>, \<open>Inl\<close> the
    panic that stops the kernel, \<open>Inr\<close> the value the code goes on with.
    \<open>bind_res\<close> sequences two steps, \<open>unwrap\<close>, \<open>assert_res\<close>,
    \<open>nth_res\<close> and \<open>update_res\<close> are the operations of Rust that may panic.
  \<^item> Machine integers are words: \<open>usize\<close> and \<open>isize\<close> are both 64 bits wide,
    an \<open>as\<close> cast between them is the identity, and signed comparisons read the word
    with \<open>sint\<close>.
  \<^item> \<open>find_index\<close> and \<open>remove_at\<close> are the iterator idiom
    \<open>iter().enumerate().find(..)\<close> followed by \<open>Vec::remove\<close>.
  \<^item> \<open>slice\<close> and \<open>overwrite\<close> are byte ranges of a block, \<open>le_bytes\<close>
    and \<open>of_le_bytes\<close> the little-endian layout of an integer in it.
\<close>

named_theorems res_simps \<open>evaluation of steps that may panic\<close>
named_theorems wf_intros \<open>preservation of well-formedness\<close>

unbundle bit_operations_syntax

section \<open>Machine integers\<close>

type_synonym u8 = "8 word"
type_synonym i32 = "32 word"
type_synonym u32 = "32 word"
type_synonym u64 = "64 word"
type_synonym usize = "64 word"
type_synonym isize = "64 word"

abbreviation usize_max :: usize where
  "usize_max \<equiv> - 1"

text \<open>Positions of a ring of \<open>n\<close> slots.\<close>

lemma shifted_mod_le: "(h + j) mod n = (h + k) mod n \<Longrightarrow> j \<le> k \<Longrightarrow> k < n \<Longrightarrow> j = (k :: nat)"
  using mod_eq_dvd_iff_nat[of "h + j" "h + k" n] dvd_imp_le[of n "k - j"] by fastforce

lemma shifted_mod_inj: "(h + j) mod n = (h + k) mod n \<Longrightarrow> j < n \<Longrightarrow> k < n \<Longrightarrow> j = (k :: nat)"
  using shifted_mod_le[of h j n k] shifted_mod_le[of h k n j] by (metis nat_le_linear)

section \<open>Panics\<close>

datatype panic =
    UnwrapNone
  | UnwrapErr
  | IndexOutOfBounds
  | AssertFailed
  | ArithOverflow
  | AlreadyBorrowed
  | OutOfBlockCache
  | NotImplemented
  | Unreachable
  | OutOfMemory
  | Deadlock
  | ExplicitPanic

type_synonym 'a res = "panic + 'a"

definition bind_res :: "'a res \<Rightarrow> ('a \<Rightarrow> 'b res) \<Rightarrow> 'b res" where
  "bind_res m f = (case m of Inl e \<Rightarrow> Inl e | Inr x \<Rightarrow> f x)"

definition unwrap :: "'a option \<Rightarrow> 'a res" where
  "unwrap v = (case v of None \<Rightarrow> Inl UnwrapNone | Some x \<Rightarrow> Inr x)"

definition assert_res :: "bool \<Rightarrow> unit res" where
  "assert_res b = (if b then Inr () else Inl AssertFailed)"

definition nth_res :: "'a list \<Rightarrow> nat \<Rightarrow> 'a res" where
  "nth_res xs i = (if i < length xs then Inr (xs ! i) else Inl IndexOutOfBounds)"

definition update_res :: "'a list \<Rightarrow> nat \<Rightarrow> 'a \<Rightarrow> 'a list res" where
  "update_res xs i v = (if i < length xs then Inr (xs[i := v]) else Inl IndexOutOfBounds)"

lemma bind_res_Inl [simp, res_simps]: "bind_res (Inl e) f = Inl e"
  by (simp add: bind_res_def)

lemma bind_res_Inr [simp, res_simps]: "bind_res (Inr x) f = f x"
  by (simp add: bind_res_def)

lemma bind_res_eq_Inr:
  "bind_res m f = Inr y \<longleftrightarrow> (\<exists>x. m = Inr x \<and> f x = Inr y)"
  by (cases m) auto

lemma bind_res_eq_Inl:
  "bind_res m f = Inl e \<longleftrightarrow> m = Inl e \<or> (\<exists>x. m = Inr x \<and> f x = Inl e)"
  by (cases m) auto

lemma bind_res_InrE:
  assumes "bind_res m f = Inr y"
  obtains x where "m = Inr x" "f x = Inr y"
  using assms by (auto simp: bind_res_eq_Inr)

lemma bind_res_assoc: "bind_res (bind_res m f) g = bind_res m (\<lambda>x. bind_res (f x) g)"
  by (cases m) auto

lemma bind_res_cong [fundef_cong]:
  "m = m' \<Longrightarrow> (\<And>x. m' = Inr x \<Longrightarrow> f x = f' x) \<Longrightarrow> bind_res m f = bind_res m' f'"
  by (cases m') auto

lemma unwrap_simps [simp, res_simps]:
  "unwrap None = Inl UnwrapNone" "unwrap (Some x) = Inr x"
  by (simp_all add: unwrap_def)

lemma unwrap_eq_Inr [simp]: "unwrap v = Inr x \<longleftrightarrow> v = Some x"
  by (cases v) auto

lemma assert_res_simps [simp, res_simps]:
  "assert_res True = Inr ()" "assert_res False = Inl AssertFailed"
  by (simp_all add: assert_res_def)

lemma assert_res_eq_Inr [simp]: "assert_res b = Inr u \<longleftrightarrow> b"
  by (cases b) auto

lemma nth_res_in [simp, res_simps]: "i < length xs \<Longrightarrow> nth_res xs i = Inr (xs ! i)"
  by (simp add: nth_res_def)

lemma nth_res_out [simp, res_simps]:
  "length xs \<le> i \<Longrightarrow> nth_res xs i = Inl IndexOutOfBounds"
  by (simp add: nth_res_def)

lemma nth_res_eq_Inr: "nth_res xs i = Inr x \<longleftrightarrow> i < length xs \<and> xs ! i = x"
  by (auto simp: nth_res_def)

lemma update_res_in [simp, res_simps]: "i < length xs \<Longrightarrow> update_res xs i v = Inr (xs[i := v])"
  by (simp add: update_res_def)

lemma update_res_out [simp, res_simps]:
  "length xs \<le> i \<Longrightarrow> update_res xs i v = Inl IndexOutOfBounds"
  by (simp add: update_res_def)

lemma update_res_eq_Inr: "update_res xs i v = Inr ys \<longleftrightarrow> i < length xs \<and> ys = xs[i := v]"
  by (auto simp: update_res_def)

section \<open>Searching and removing in a vector\<close>

fun find_index :: "('a \<Rightarrow> bool) \<Rightarrow> 'a list \<Rightarrow> nat option" where
  "find_index P [] = None"
| "find_index P (x # xs) = (if P x then Some 0 else map_option Suc (find_index P xs))"

definition remove_at :: "nat \<Rightarrow> 'a list \<Rightarrow> 'a list" where
  "remove_at i xs = take i xs @ drop (Suc i) xs"

lemma find_index_None_iff: "find_index P xs = None \<longleftrightarrow> (\<forall>x \<in> set xs. \<not> P x)"
  by (induction xs) auto

lemma find_index_SomeD:
  "find_index P xs = Some i \<Longrightarrow> i < length xs \<and> P (xs ! i) \<and> (\<forall>j < i. \<not> P (xs ! j))"
  by (induction xs arbitrary: i) (auto simp: less_Suc_eq_0_disj nth_Cons' split: if_splits)

lemma find_index_SomeI:
  "i < length xs \<Longrightarrow> P (xs ! i) \<Longrightarrow> (\<And>j. j < i \<Longrightarrow> \<not> P (xs ! j)) \<Longrightarrow> find_index P xs = Some i"
proof (induction xs arbitrary: i)
  case (Cons x xs)
  show ?case
  proof (cases i)
    case (Suc k)
    have nx: "\<not> P x" using Cons.prems(3)[of 0] Suc by simp
    have "\<not> P (xs ! j)" if "j < k" for j
      using Cons.prems(3)[of "Suc j"] that Suc by simp
    then have "find_index P xs = Some k"
      using Cons.prems(1,2) Suc by (intro Cons.IH) auto
    with nx Suc show ?thesis by simp
  qed (use Cons.prems in simp)
qed simp

lemma find_index_append:
  "find_index P (xs @ ys) =
     (case find_index P xs of Some i \<Rightarrow> Some i
      | None \<Rightarrow> map_option ((+) (length xs)) (find_index P ys))"
proof (induction xs)
  case Nil
  have "((+) (0 :: nat)) = (\<lambda>k. k)" by (simp add: fun_eq_iff)
  then show ?case by (simp add: option.map_ident)
next
  case (Cons x xs)
  have "Suc \<circ> ((+) (length xs)) = (+) (length (x # xs))" by (simp add: fun_eq_iff)
  with Cons show ?case by (auto split: option.splits simp: option.map_comp)
qed

lemma find_index_eq_None_iff: "find_index (\<lambda>y. y = x) xs = None \<longleftrightarrow> x \<notin> set xs"
  by (auto simp: find_index_None_iff)

lemma remove_at_Cons_simps [simp]:
  "remove_at 0 (x # xs) = xs" "remove_at (Suc i) (x # xs) = x # remove_at i xs"
  by (simp_all add: remove_at_def)

lemma remove_at_find_index:
  "find_index (\<lambda>y. y = x) xs = Some i \<Longrightarrow> remove_at i xs = remove1 x xs"
  by (induction xs arbitrary: i) (auto split: if_splits)

lemma length_remove_at: "i < length xs \<Longrightarrow> length (remove_at i xs) = length xs - 1"
  by (simp add: remove_at_def)

lemma set_remove_at_distinct:
  "distinct xs \<Longrightarrow> i < length xs \<Longrightarrow> set (remove_at i xs) = set xs - {xs ! i}"
proof (induction xs arbitrary: i)
  case (Cons x xs)
  then show ?case by (cases i) (auto dest: nth_mem)
qed simp

lemma distinct_remove_at: "distinct xs \<Longrightarrow> distinct (remove_at i xs)"
  by (auto simp: remove_at_def dest: set_take_disj_set_drop_if_distinct[of _ i "Suc i"])

lemma set_remove_at_subset: "set (remove_at i xs) \<subseteq> set xs"
  by (auto simp: remove_at_def dest: in_set_takeD in_set_dropD)

lemma map_remove_at: "map f (remove_at i xs) = remove_at i (map f xs)"
  by (simp add: remove_at_def take_map drop_map)

section \<open>Byte ranges of a block\<close>

definition slice :: "nat \<Rightarrow> nat \<Rightarrow> 'a list \<Rightarrow> 'a list" where
  "slice off n xs = take n (drop off xs)"

definition overwrite :: "nat \<Rightarrow> 'a list \<Rightarrow> 'a list \<Rightarrow> 'a list" where
  "overwrite off ys xs = take off xs @ ys @ drop (off + length ys) xs"

lemma length_slice [simp]: "off + n \<le> length xs \<Longrightarrow> length (slice off n xs) = n"
  by (simp add: slice_def)

lemma slice_zero_length [simp]: "slice off 0 xs = []"
  by (simp add: slice_def)

lemma overwrite_empty [simp]: "overwrite off [] xs = xs"
  by (simp add: overwrite_def)

lemma nth_slice: "i < n \<Longrightarrow> off + n \<le> length xs \<Longrightarrow> slice off n xs ! i = xs ! (off + i)"
  by (simp add: slice_def)

lemma length_overwrite [simp]:
  "off + length ys \<le> length xs \<Longrightarrow> length (overwrite off ys xs) = length xs"
  by (simp add: overwrite_def)

lemma nth_overwrite:
  assumes "off + length ys \<le> length xs" and "i < length xs"
  shows "overwrite off ys xs ! i =
           (if off \<le> i \<and> i < off + length ys then ys ! (i - off) else xs ! i)"
  using assms by (auto simp: overwrite_def nth_append min_def)

lemma slice_overwrite_same:
  "off + length ys \<le> length xs \<Longrightarrow> slice off (length ys) (overwrite off ys xs) = ys"
  by (simp add: slice_def overwrite_def)

lemma slice_overwrite_disjoint:
  assumes "off + length ys \<le> length xs" and "o2 + n \<le> length xs"
    and "o2 + n \<le> off \<or> off + length ys \<le> o2"
  shows "slice o2 n (overwrite off ys xs) = slice o2 n xs"
proof (rule nth_equalityI)
  show "length (slice o2 n (overwrite off ys xs)) = length (slice o2 n xs)"
    using assms by simp
  fix i assume "i < length (slice o2 n (overwrite off ys xs))"
  then have i: "i < n" using assms by simp
  with assms show "slice o2 n (overwrite off ys xs) ! i = slice o2 n xs ! i"
    by (auto simp: nth_slice nth_overwrite)
qed

lemma slice_append_split:
  "off + (a + b) \<le> length xs \<Longrightarrow> slice off (a + b) xs = slice off a xs @ slice (off + a) b xs"
  by (simp add: slice_def take_add add.commute)

lemma overwrite_slice_id: "off + n \<le> length xs \<Longrightarrow> overwrite off (slice off n xs) xs = xs"
  by (rule nth_equalityI) (auto simp: nth_overwrite nth_slice)

section \<open>Little-endian integers\<close>

fun le_bytes :: "nat \<Rightarrow> nat \<Rightarrow> u8 list" where
  "le_bytes 0 v = []"
| "le_bytes (Suc n) v = of_nat v # le_bytes n (v div 256)"

fun of_le_bytes :: "u8 list \<Rightarrow> nat" where
  "of_le_bytes [] = 0"
| "of_le_bytes (b # bs) = unat b + 256 * of_le_bytes bs"

lemma length_le_bytes [simp]: "length (le_bytes n v) = n"
  by (induction n arbitrary: v) auto

lemma unat_u8_less [simp]: "unat (b :: u8) < 256"
  using unsigned_less[of b, where ?'a = nat] by simp

lemma of_le_bytes_bound: "of_le_bytes bs < 256 ^ length bs"
proof (induction bs)
  case (Cons b bs)
  have "unat b < 256" by (rule unat_u8_less)
  moreover have "256 * of_le_bytes bs + 256 \<le> 256 * 256 ^ length bs"
    using Cons.IH by simp
  ultimately show ?case by (simp only: of_le_bytes.simps length_Cons power_Suc)
qed simp

lemma of_le_bytes_le_bytes: "of_le_bytes (le_bytes n v) = v mod 256 ^ n"
proof (induction n arbitrary: v)
  case (Suc n)
  have "v mod 256 + 256 * (v div 256 mod 256 ^ n) = v mod (256 * 256 ^ n)"
    by (simp add: mod_mult2_eq)
  with Suc show ?case by (simp add: unat_of_nat)
qed simp

lemma le_bytes_of_le_bytes: "le_bytes (length bs) (of_le_bytes bs) = bs"
proof (induction bs)
  case (Cons b bs)
  have b: "unat b < 256" by (rule unat_u8_less)
  have "(unat b + 256 * of_le_bytes bs) div 256 = of_le_bytes bs"
    using b by simp
  moreover have "(of_nat (unat b + 256 * of_le_bytes bs) :: u8) = b"
  proof -
    have "(256 :: u8) = 0" by simp
    then show ?thesis by (simp only: of_nat_add of_nat_mult of_nat_numeral) simp
  qed
  ultimately show ?case using Cons.IH by (simp only: length_Cons le_bytes.simps of_le_bytes.simps)
qed simp

lemma of_le_bytes_inject:
  "length as = length bs \<Longrightarrow> of_le_bytes as = of_le_bytes bs \<Longrightarrow> as = bs"
  by (metis le_bytes_of_le_bytes)

lemma of_le_bytes_replicate_zero [simp]: "of_le_bytes (replicate n 0) = 0"
  by (induction n) auto

section \<open>Bits\<close>

definition trailing_zeros :: "64 word \<Rightarrow> nat" where
  "trailing_zeros w = length (takeWhile (\<lambda>i. \<not> bit w i) [0..<64])"

definition trailing_ones :: "64 word \<Rightarrow> nat" where
  "trailing_ones w = length (takeWhile (\<lambda>i. bit w i) [0..<64])"

lemma length_takeWhile_upt:
  fixes P :: "nat \<Rightarrow> bool" and n :: nat
  defines "k \<equiv> length (takeWhile P [0..<n])"
  shows "k \<le> n" and "i < k \<Longrightarrow> P i" and "k < n \<Longrightarrow> \<not> P k"
proof -
  show "k \<le> n"
    using length_takeWhile_le[of P "[0..<n]"] by (simp add: k_def)
  show "P i" if "i < k"
  proof -
    have "takeWhile P [0..<n] ! i = [0..<n] ! i"
      using that by (simp add: k_def takeWhile_nth)
    with that \<open>k \<le> n\<close> have "takeWhile P [0..<n] ! i = i" by simp
    moreover have "takeWhile P [0..<n] ! i \<in> set (takeWhile P [0..<n])"
      using that by (simp add: k_def)
    ultimately show ?thesis by (auto dest: set_takeWhileD)
  qed
  show "\<not> P k" if "k < n"
    using that nth_length_takeWhile[of P "[0..<n]"] by (simp add: k_def)
qed

lemma trailing_zeros_le: "trailing_zeros w \<le> 64"
  by (simp add: trailing_zeros_def length_takeWhile_upt(1))

lemma trailing_zeros_below: "i < trailing_zeros w \<Longrightarrow> \<not> bit w i"
  unfolding trailing_zeros_def by (rule length_takeWhile_upt(2))

lemma trailing_zeros_at: "trailing_zeros w < 64 \<Longrightarrow> bit w (trailing_zeros w)"
  using length_takeWhile_upt(3)[of "\<lambda>i. \<not> bit w i" 64] by (simp add: trailing_zeros_def)

lemma trailing_zeros_64_iff: "trailing_zeros w = 64 \<longleftrightarrow> w = 0"
proof
  assume "trailing_zeros w = 64"
  then have "\<not> bit w i" if "i < 64" for i using trailing_zeros_below[of i w] that by simp
  then show "w = 0" by (intro bit_word_eqI) auto
next
  assume "w = 0"
  moreover have "takeWhile (\<lambda>i. True) [0..<64 :: nat] = [0..<64]"
    by (rule takeWhile_eq_all_conv[THEN iffD2]) simp
  ultimately show "trailing_zeros w = 64"
    by (simp only: trailing_zeros_def bit_0_eq bot_apply bot_bool_def not_False_eq_True) simp
qed

lemma trailing_ones_le: "trailing_ones w \<le> 64"
  by (simp add: trailing_ones_def length_takeWhile_upt(1))

lemma trailing_ones_below: "i < trailing_ones w \<Longrightarrow> bit w i"
  unfolding trailing_ones_def by (rule length_takeWhile_upt(2))

lemma trailing_ones_at: "trailing_ones w < 64 \<Longrightarrow> \<not> bit w (trailing_ones w)"
  using length_takeWhile_upt(3)[of "\<lambda>i. bit w i" 64] by (simp add: trailing_ones_def)

lemma trailing_ones_64_iff: "trailing_ones w = 64 \<longleftrightarrow> w = - 1"
proof
  assume "trailing_ones w = 64"
  then have "bit w i" if "i < 64" for i using trailing_ones_below[of i w] that by simp
  then show "w = - 1" by (intro bit_word_eqI) auto
next
  assume "w = - 1"
  moreover have "takeWhile (\<lambda>i. i < (64 :: nat)) [0..<64] = [0..<64]"
    by (rule takeWhile_eq_all_conv[THEN iffD2]) simp
  moreover have "(\<lambda>i. bit (- 1 :: 64 word) i) = (\<lambda>i. i < 64)"
    by (simp add: fun_eq_iff)
  ultimately show "trailing_ones w = 64"
    by (simp only: trailing_ones_def) simp
qed


lemma bit_single: "k < 64 \<Longrightarrow> bit (push_bit k 1 :: 64 word) j \<longleftrightarrow> j = k"
  by (auto simp: bit_push_bit_iff bit_1_iff simp del: push_bit_of_1)

definition shl_one :: "nat \<Rightarrow> usize res" where
  "shl_one k = (if k < 64 then Inr (push_bit k 1) else Inl ArithOverflow)"

definition shr_usize :: "usize \<Rightarrow> nat \<Rightarrow> usize res" where
  "shr_usize w k = (if k < 64 then Inr (drop_bit k w) else Inl ArithOverflow)"

lemma shl_one_eq [simp]: "k < 64 \<Longrightarrow> shl_one k = Inr (push_bit k 1)"
  by (simp add: shl_one_def)

text \<open>Checked addition, subtraction and multiplication of a debug build.\<close>

definition plus_usize :: "usize \<Rightarrow> usize \<Rightarrow> usize res" where
  "plus_usize a b = (if unat a + unat b < 2 ^ 64 then Inr (a + b) else Inl ArithOverflow)"

definition minus_usize :: "usize \<Rightarrow> usize \<Rightarrow> usize res" where
  "minus_usize a b = (if b \<le> a then Inr (a - b) else Inl ArithOverflow)"

definition times_usize :: "usize \<Rightarrow> usize \<Rightarrow> usize res" where
  "times_usize a b = (if unat a * unat b < 2 ^ 64 then Inr (a * b) else Inl ArithOverflow)"

lemma plus_usize_eq_Inr: "plus_usize a b = Inr c \<longleftrightarrow> unat a + unat b < 2 ^ 64 \<and> c = a + b"
  by (auto simp: plus_usize_def)

lemma plus_usize_unat: "plus_usize a b = Inr c \<Longrightarrow> unat c = unat a + unat b"
  by (auto simp: plus_usize_eq_Inr unat_add_lem[THEN iffD1])

lemma times_usize_unat: "times_usize a b = Inr c \<Longrightarrow> unat c = unat a * unat b"
  by (auto simp: times_usize_def unat_mult_lem[THEN iffD1] split: if_splits)

lemma minus_usize_unat: "minus_usize a b = Inr c \<Longrightarrow> unat b \<le> unat a \<and> unat c = unat a - unat b"
  by (auto simp: minus_usize_def word_le_nat_alt unat_sub split: if_splits)

end
