(* ===== verification/Task_Rel.thy ===== *)
theory Task_Rel
  imports Prelude "HOL-Library.Multiset"
begin

text \<open>
  Identifiers and family relations of \<open>tg-rcore-tutorial-task-manage\<close>:
  \<open>id.rs\<close> (the three monotone counters), \<open>proc_rel.rs\<close> (parent, live and dead
  children of a process) and \<open>proc_thread_rel.rs\<close> (the same with the threads of the
  process). The two structures of the source share their first three fields and four of
  their operations word for word, so the second record extends the first and its child
  operations are the first record's at the extended type.

  The contract of the family operations is the locale \<open>reap_registry\<close>: every member is
  absent, running or exited with a code, an exit is recorded once, and a wait hands out an
  exit code exactly once. It is interpreted for children and for threads.
\<close>

section \<open>Identifiers (id.rs)\<close>

datatype proc_id = ProcId (pid_get_usize: usize)

datatype thread_id = ThreadId (tid_get_usize: usize)

datatype coro_id = CoroId (cid_get_usize: usize)

record id_counters =
  pid_counter :: usize
  tid_counter :: usize
  cid_counter :: usize

definition id_counters_init :: id_counters where
  "id_counters_init = \<lparr>pid_counter = 0, tid_counter = 0, cid_counter = 0\<rparr>"

definition proc_id_new :: "id_counters \<Rightarrow> proc_id \<times> id_counters" where
  "proc_id_new c = (ProcId (pid_counter c), c\<lparr>pid_counter := pid_counter c + 1\<rparr>)"

definition thread_id_new :: "id_counters \<Rightarrow> thread_id \<times> id_counters" where
  "thread_id_new c = (ThreadId (tid_counter c), c\<lparr>tid_counter := tid_counter c + 1\<rparr>)"

definition coro_id_new :: "id_counters \<Rightarrow> coro_id \<times> id_counters" where
  "coro_id_new c = (CoroId (cid_counter c), c\<lparr>cid_counter := cid_counter c + 1\<rparr>)"

text \<open>The order the source derives on identifiers, used by the ordered maps keyed by them.\<close>

instantiation proc_id :: linorder
begin

definition less_eq_proc_id :: "proc_id \<Rightarrow> proc_id \<Rightarrow> bool" where
  "less_eq_proc_id a b \<longleftrightarrow> pid_get_usize a \<le> pid_get_usize b"

definition less_proc_id :: "proc_id \<Rightarrow> proc_id \<Rightarrow> bool" where
  "less_proc_id a b \<longleftrightarrow> pid_get_usize a < pid_get_usize b"

instance
  by standard (auto simp: less_eq_proc_id_def less_proc_id_def proc_id.expand)

end

instantiation thread_id :: linorder
begin

definition less_eq_thread_id :: "thread_id \<Rightarrow> thread_id \<Rightarrow> bool" where
  "less_eq_thread_id a b \<longleftrightarrow> tid_get_usize a \<le> tid_get_usize b"

definition less_thread_id :: "thread_id \<Rightarrow> thread_id \<Rightarrow> bool" where
  "less_thread_id a b \<longleftrightarrow> tid_get_usize a < tid_get_usize b"

instance
  by standard (auto simp: less_eq_thread_id_def less_thread_id_def thread_id.expand)

end

text \<open>A run of allocations: the counter hands out consecutive numbers.\<close>

fun proc_ids :: "nat \<Rightarrow> id_counters \<Rightarrow> proc_id list" where
  "proc_ids 0 c = []"
| "proc_ids (Suc n) c = (case proc_id_new c of (i, c') \<Rightarrow> i # proc_ids n c')"

lemma length_proc_ids [simp]: "length (proc_ids n c) = n"
  by (induction n arbitrary: c) (auto simp: proc_id_new_def)

lemma proc_ids_nth:
  "k < n \<Longrightarrow> proc_ids n c ! k = ProcId (pid_counter c + of_nat k)"
  by (induction n arbitrary: c k)
    (auto simp: proc_id_new_def nth_Cons' algebra_simps of_nat_diff)

lemma of_nat_usize_inj:
  assumes "i < 2 ^ 64" "j < 2 ^ 64" "(of_nat i :: usize) = of_nat j"
  shows "i = j"
proof -
  have "unat (of_nat i :: usize) = i" "unat (of_nat j :: usize) = j"
    using assms(1,2) by (simp_all add: unat_of_nat take_bit_eq_mod)
  with assms(3) show ?thesis by metis
qed

lemma proc_ids_distinct: "n \<le> 2 ^ 64 \<Longrightarrow> distinct (proc_ids n c)"
  by (auto simp: distinct_conv_nth proc_ids_nth dest!: of_nat_usize_inj[rotated 2])

section \<open>Processes and their children (proc_rel.rs)\<close>

record proc_rel =
  parent :: proc_id
  children :: "proc_id list"
  dead_children :: "(proc_id \<times> isize) list"

definition proc_rel_new :: "proc_id \<Rightarrow> proc_rel" where
  "proc_rel_new parent_pid = \<lparr>parent = parent_pid, children = [], dead_children = []\<rparr>"

definition add_child :: "proc_id \<Rightarrow> 'z proc_rel_scheme \<Rightarrow> 'z proc_rel_scheme" where
  "add_child child_pid r = r\<lparr>children := children r @ [child_pid]\<rparr>"

definition del_child :: "proc_id \<Rightarrow> isize \<Rightarrow> 'z proc_rel_scheme \<Rightarrow> 'z proc_rel_scheme" where
  "del_child child_pid exit_code r =
     (case find_index (\<lambda>i. i = child_pid) (children r) of
        Some idx \<Rightarrow>
          let dead_child = children r ! idx
          in r\<lparr>children := remove_at idx (children r),
               dead_children := dead_children r @ [(dead_child, exit_code)]\<rparr>
      | None \<Rightarrow> r)"

text \<open>The pair the code returns for a child that is still running: \<open>(-2, -1)\<close>.\<close>

definition still_running :: "proc_id \<times> isize" where
  "still_running = (ProcId (- 2), - 1)"

definition wait_any_child ::
  "'z proc_rel_scheme \<Rightarrow> (proc_id \<times> isize) option \<times> 'z proc_rel_scheme" where
  "wait_any_child r =
     (if dead_children r = [] then
        (if children r = [] then (None, r) else (Some still_running, r))
      else (Some (last (dead_children r)),
            r\<lparr>dead_children := butlast (dead_children r)\<rparr>))"

definition wait_child ::
  "proc_id \<Rightarrow> 'z proc_rel_scheme \<Rightarrow> (proc_id \<times> isize) option \<times> 'z proc_rel_scheme" where
  "wait_child child_pid r =
     (case find_index (\<lambda>(i, _). i = child_pid) (dead_children r) of
        Some idx \<Rightarrow>
          (Some (dead_children r ! idx),
           r\<lparr>dead_children := remove_at idx (dead_children r)\<rparr>)
      | None \<Rightarrow>
          (case find_index (\<lambda>i. i = child_pid) (children r) of
             Some _ \<Rightarrow> (Some still_running, r)
           | None \<Rightarrow> (None, r)))"

section \<open>Processes and their threads (proc\_thread\_rel.rs)\<close>

record proc_thread_rel = proc_rel +
  threads :: "thread_id list"
  dead_threads :: "(thread_id \<times> isize) list"

definition proc_thread_rel_new :: "proc_id \<Rightarrow> proc_thread_rel" where
  "proc_thread_rel_new parent_pid =
     \<lparr>parent = parent_pid, children = [], dead_children = [], threads = [], dead_threads = []\<rparr>"

definition pt_add_child :: "proc_id \<Rightarrow> proc_thread_rel \<Rightarrow> proc_thread_rel" where
  "pt_add_child = add_child"

definition pt_del_child :: "proc_id \<Rightarrow> isize \<Rightarrow> proc_thread_rel \<Rightarrow> proc_thread_rel" where
  "pt_del_child = del_child"

definition pt_wait_any_child ::
  "proc_thread_rel \<Rightarrow> (proc_id \<times> isize) option \<times> proc_thread_rel" where
  "pt_wait_any_child = wait_any_child"

definition pt_wait_child ::
  "proc_id \<Rightarrow> proc_thread_rel \<Rightarrow> (proc_id \<times> isize) option \<times> proc_thread_rel" where
  "pt_wait_child = wait_child"

definition add_thread :: "thread_id \<Rightarrow> proc_thread_rel \<Rightarrow> proc_thread_rel" where
  "add_thread tid r = r\<lparr>threads := threads r @ [tid]\<rparr>"

definition del_thread :: "thread_id \<Rightarrow> isize \<Rightarrow> proc_thread_rel \<Rightarrow> proc_thread_rel" where
  "del_thread tid exit_code r =
     (case find_index (\<lambda>i. i = tid) (threads r) of
        Some idx \<Rightarrow>
          let dead_thread = threads r ! idx
          in r\<lparr>threads := remove_at idx (threads r),
               dead_threads := dead_threads r @ [(dead_thread, exit_code)]\<rparr>
      | None \<Rightarrow> r)"

definition wait_thread ::
  "thread_id \<Rightarrow> proc_thread_rel \<Rightarrow> isize option \<times> proc_thread_rel" where
  "wait_thread thread_tid r =
     (case find_index (\<lambda>(i, _). i = thread_tid) (dead_threads r) of
        Some idx \<Rightarrow>
          (Some (snd (dead_threads r ! idx)),
           r\<lparr>dead_threads := remove_at idx (dead_threads r)\<rparr>)
      | None \<Rightarrow>
          (case find_index (\<lambda>i. i = thread_tid) (threads r) of
             Some _ \<Rightarrow> (Some (- 2), r)
           | None \<Rightarrow> (None, r)))"

section \<open>Live lists and dead association lists\<close>

datatype status = Running | Exited isize

definition status_of :: "'i list \<Rightarrow> ('i \<times> isize) list \<Rightarrow> 'i \<Rightarrow> status option" where
  "status_of live dead i =
     (case map_of dead i of Some c \<Rightarrow> Some (Exited c)
      | None \<Rightarrow> if i \<in> set live then Some Running else None)"

definition family_wf :: "'i list \<Rightarrow> ('i \<times> isize) list \<Rightarrow> bool" where
  "family_wf live dead \<longleftrightarrow> distinct (live @ map fst dead)"

lemma map_of_key_in: "map_of dead i = Some c \<Longrightarrow> i \<in> fst ` set dead"
  by (force dest: map_of_SomeD)

lemma status_of_None_iff: "status_of live dead i = None \<longleftrightarrow> i \<notin> set live \<and> i \<notin> fst ` set dead"
  by (auto simp: status_of_def map_of_eq_None_iff dest: map_of_key_in split: option.splits)

lemma status_of_Running_iff:
  "family_wf live dead \<Longrightarrow> status_of live dead i = Some Running \<longleftrightarrow> i \<in> set live"
proof (cases "map_of dead i")
  case (Some c)
  assume "family_wf live dead"
  with map_of_key_in[OF Some] have "i \<notin> set live" by (auto simp: family_wf_def)
  with Some show ?thesis by (simp add: status_of_def)
qed (simp add: status_of_def)

lemma status_of_Exited_iff:
  "status_of live dead i = Some (Exited c) \<longleftrightarrow> map_of dead i = Some c"
  by (auto simp: status_of_def split: option.splits if_splits)

lemma status_of_append_live:
  "status_of live dead i = None \<Longrightarrow>
     status_of (live @ [i]) dead = (status_of live dead)(i \<mapsto> Running)"
  by (auto simp: status_of_def fun_eq_iff split: option.splits)

lemma family_wf_append_live:
  "family_wf live dead \<Longrightarrow> status_of live dead i = None \<Longrightarrow> family_wf (live @ [i]) dead"
  by (auto simp: family_wf_def status_of_None_iff)

lemma status_of_move:
  assumes "family_wf live dead" and k: "find_index (\<lambda>j. j = i) live = Some k"
  shows "family_wf (remove_at k live) (dead @ [(live ! k, c)])"
    and "status_of (remove_at k live) (dead @ [(live ! k, c)]) =
           (status_of live dead)(i \<mapsto> Exited c)"
proof -
  from find_index_SomeD[OF k] have kl: "k < length live" and ki: "live ! k = i" by auto
  have i: "i \<in> set live" using kl ki nth_mem by blast
  have rm: "remove_at k live = remove1 i live" by (rule remove_at_find_index[OF k])
  show "family_wf (remove_at k live) (dead @ [(live ! k, c)])"
    using assms(1) i by (auto simp: family_wf_def rm ki)
  have dl: "distinct live" and new: "map_of dead i = None"
    using assms(1) i by (auto simp: family_wf_def map_of_eq_None_iff)
  have "map_of (dead @ [(i, c)]) = (map_of dead)(i \<mapsto> c)"
    using new by (auto simp: fun_eq_iff map_add_def split: option.splits)
  with dl show "status_of (remove_at k live) (dead @ [(live ! k, c)]) =
           (status_of live dead)(i \<mapsto> Exited c)"
    by (auto simp: status_of_def fun_eq_iff rm ki)
qed

lemma dead_lookup:
  assumes "find_index (\<lambda>(j, _). j = i) dead = Some k"
  shows "k < length dead" and "map_of dead i = Some (snd (dead ! k))" and "fst (dead ! k) = i"
  using assms
  by (induction dead arbitrary: k) (force split: if_splits prod.splits)+

lemma dead_lookup_pair:
  "find_index (\<lambda>(j, _). j = i) dead = Some k \<Longrightarrow> map_of dead i = Some c \<Longrightarrow> dead ! k = (i, c)"
  using dead_lookup(2,3)[of i dead k] by (cases "dead ! k") auto

lemma dead_lookup_None: "find_index (\<lambda>(j, _). j = i) dead = None \<longleftrightarrow> map_of dead i = None"
  by (induction dead) (auto split: if_splits)

lemma status_of_reap:
  assumes wf: "family_wf live dead" and k: "find_index (\<lambda>(j, _). j = i) dead = Some k"
  shows "family_wf live (remove_at k dead)"
    and "status_of live (remove_at k dead) = (status_of live dead)(i := None)"
proof -
  note kk = dead_lookup[OF k]
  have d: "distinct (map fst dead)" using wf by (simp add: family_wf_def)
  have keys: "set (map fst (remove_at k dead)) = fst ` set dead - {i}"
    using set_remove_at_distinct[OF d, of k] kk(1,3) by (simp add: map_remove_at)
  have dist: "distinct (map fst (remove_at k dead))"
    using d by (simp add: map_remove_at distinct_remove_at)
  show "family_wf live (remove_at k dead)"
    using wf keys dist unfolding family_wf_def by (auto simp: image_iff)
  have "map_of (remove_at k dead) j = map_of dead j" if "j \<noteq> i" for j
  proof (cases "map_of dead j")
    case None
    then have "j \<notin> set (map fst (remove_at k dead))"
      by (simp only: keys) (auto simp: map_of_eq_None_iff)
    then have "map_of (remove_at k dead) j = None" by (simp add: map_of_eq_None_iff)
    with None show ?thesis by simp
  next
    case (Some c)
    then have jc: "(j, c) \<in> set dead" by (rule map_of_SomeD)
    have "(j, c) \<in> set (remove_at k dead)"
    proof -
      have "j \<in> set (map fst (remove_at k dead))" using keys jc that by force
      then obtain c' where c': "(j, c') \<in> set (remove_at k dead)" by auto
      then have "(j, c') \<in> set dead" using set_remove_at_subset by fastforce
      with d jc have "c' = c" by (auto dest: eq_key_imp_eq_value)
      with c' show ?thesis by simp
    qed
    with dist Some show ?thesis by (simp add: map_of_is_SomeI)
  qed
  moreover have "i \<notin> set (map fst (remove_at k dead))" by (simp only: keys) simp
  then have "map_of (remove_at k dead) i = None" by (simp add: map_of_eq_None_iff)
  moreover have "i \<in> fst ` set dead" using kk(2) by (rule map_of_key_in)
  then have "i \<notin> set live" using wf by (auto simp: family_wf_def)
  ultimately show "status_of live (remove_at k dead) = (status_of live dead)(i := None)"
    by (auto simp: status_of_def fun_eq_iff)
qed

section \<open>The contract of a family: exits are recorded once and reaped once\<close>

text \<open>
  The interface the process manager relies on. \<open>status\<close> abstracts the two lists of the
  structure into one map; \<open>running\<close> and \<open>reaped\<close> are the answers of a wait.
\<close>

locale reap_registry =
  fixes enrol :: "'i \<Rightarrow> 's \<Rightarrow> 's"
    and exit :: "'i \<Rightarrow> isize \<Rightarrow> 's \<Rightarrow> 's"
    and await :: "'i \<Rightarrow> 's \<Rightarrow> 'r option \<times> 's"
    and running :: 'r
    and reaped :: "'i \<Rightarrow> isize \<Rightarrow> 'r"
    and status :: "'s \<Rightarrow> 'i \<Rightarrow> status option"
    and wf :: "'s \<Rightarrow> bool"
  assumes wf_enrol: "wf s \<Longrightarrow> status s i = None \<Longrightarrow> wf (enrol i s)"
    and status_enrol: "wf s \<Longrightarrow> status s i = None \<Longrightarrow> status (enrol i s) = (status s)(i \<mapsto> Running)"
    and wf_exit: "wf s \<Longrightarrow> wf (exit i c s)"
    and status_exit: "wf s \<Longrightarrow> status (exit i c s) =
          (if status s i = Some Running then (status s)(i \<mapsto> Exited c) else status s)"
    and await_absent: "wf s \<Longrightarrow> status s i = None \<Longrightarrow> await i s = (None, s)"
    and await_running: "wf s \<Longrightarrow> status s i = Some Running \<Longrightarrow> await i s = (Some running, s)"
    and await_exited: "wf s \<Longrightarrow> status s i = Some (Exited c) \<Longrightarrow> fst (await i s) = Some (reaped i c)"
    and wf_await: "wf s \<Longrightarrow> wf (snd (await i s))"
    and status_await: "wf s \<Longrightarrow> status s i = Some (Exited c) \<Longrightarrow>
          status (snd (await i s)) = (status s)(i := None)"
begin

lemma await_after_exit:
  assumes "wf s" "status s i = Some Running"
  shows "fst (await i (exit i c s)) = Some (reaped i c)"
    and "await i (snd (await i (exit i c s))) = (None, snd (await i (exit i c s)))"
    and "status (snd (await i (exit i c s))) = (status s)(i := None)"
proof -
  have w: "wf (exit i c s)" using assms(1) by (rule wf_exit)
  have st: "status (exit i c s) i = Some (Exited c)"
    using assms by (simp add: status_exit)
  show "fst (await i (exit i c s)) = Some (reaped i c)" by (rule await_exited[OF w st])
  show "status (snd (await i (exit i c s))) = (status s)(i := None)"
    using status_await[OF w st] assms by (simp add: status_exit)
  then have "status (snd (await i (exit i c s))) i = None" by simp
  then show "await i (snd (await i (exit i c s))) = (None, snd (await i (exit i c s)))"
    by (rule await_absent[OF wf_await[OF w]])
qed

lemma enrol_exit_await:
  assumes "wf s" "status s i = None"
  shows "fst (await i (exit i c (enrol i s))) = Some (reaped i c)"
    and "status (snd (await i (exit i c (enrol i s)))) = status s"
proof -
  have w: "wf (enrol i s)" using assms by (rule wf_enrol)
  have st: "status (enrol i s) i = Some Running" using assms by (simp add: status_enrol)
  show "fst (await i (exit i c (enrol i s))) = Some (reaped i c)"
    by (rule await_after_exit(1)[OF w st])
  show "status (snd (await i (exit i c (enrol i s)))) = status s"
    using await_after_exit(3)[OF w st, of c] assms by (simp add: status_enrol fun_upd_idem)
qed

lemma second_exit_ignored:
  assumes "wf s" "status s i = Some Running"
  shows "status (exit i c' (exit i c s)) = status (exit i c s)"
  using assms wf_exit[OF assms(1)] by (simp add: status_exit)

end

definition child_status :: "'z proc_rel_scheme \<Rightarrow> proc_id \<Rightarrow> status option" where
  "child_status r = status_of (children r) (dead_children r)"

definition children_wf :: "'z proc_rel_scheme \<Rightarrow> bool" where
  "children_wf r \<longleftrightarrow> family_wf (children r) (dead_children r)"

definition thread_status :: "proc_thread_rel \<Rightarrow> thread_id \<Rightarrow> status option" where
  "thread_status r = status_of (threads r) (dead_threads r)"

definition threads_wf :: "proc_thread_rel \<Rightarrow> bool" where
  "threads_wf r \<longleftrightarrow> family_wf (threads r) (dead_threads r)"

lemma find_live_None:
  "family_wf live dead \<Longrightarrow> status_of live dead i \<noteq> Some Running \<longleftrightarrow> find_index (\<lambda>j. j = i) live = None"
  by (simp add: status_of_Running_iff find_index_eq_None_iff)

lemma find_live_Some:
  "family_wf live dead \<Longrightarrow> status_of live dead i = Some Running \<longleftrightarrow>
     (\<exists>k. find_index (\<lambda>j. j = i) live = Some k)"
  by (simp add: status_of_Running_iff find_index_eq_None_iff not_None_eq[symmetric] del: not_None_eq)

lemma find_dead_None:
  "(\<nexists>c. status_of live dead i = Some (Exited c)) \<longleftrightarrow>
     find_index (\<lambda>(j, _). j = i) dead = None"
  by (simp add: status_of_Exited_iff dead_lookup_None)

interpretation kids: reap_registry add_child del_child wait_child still_running Pair
  child_status children_wf
proof (unfold_locales, goal_cases)
  case (1 s i)
  then show ?case
    by (simp add: children_wf_def child_status_def add_child_def family_wf_append_live)
next
  case (2 s i)
  then show ?case
    by (simp add: child_status_def add_child_def status_of_append_live)
next
  case (3 s i c)
  then show ?case
    by (auto simp: children_wf_def del_child_def Let_def status_of_move split: option.splits)
next
  case (4 s i c)
  then show ?case
    by (auto simp: children_wf_def child_status_def del_child_def Let_def status_of_move
        find_live_Some find_live_None split: option.splits)
next
  case (5 s i)
  then show ?case
    using find_live_None[of "children s" "dead_children s" i]
      find_dead_None[of "children s" "dead_children s" i]
    by (auto simp: children_wf_def child_status_def wait_child_def split: option.splits)
next
  case (6 s i)
  then show ?case
    using find_live_Some[of "children s" "dead_children s" i]
      find_dead_None[of "children s" "dead_children s" i]
    by (auto simp: children_wf_def child_status_def wait_child_def split: option.splits)
next
  case (7 s i c)
  then have "map_of (dead_children s) i = Some c"
    by (simp add: child_status_def status_of_Exited_iff)
  then show ?case
    by (auto simp: wait_child_def dead_lookup_None dest: dead_lookup_pair split: option.splits)
next
  case (8 s i)
  then show ?case
    by (auto simp: children_wf_def wait_child_def status_of_reap split: option.splits)
next
  case (9 s i c)
  then have "map_of (dead_children s) i = Some c"
    by (simp add: child_status_def status_of_Exited_iff)
  with 9 show ?case
    by (auto simp: children_wf_def child_status_def wait_child_def dead_lookup_None status_of_reap
        split: option.splits)
qed

interpretation pthreads: reap_registry add_thread del_thread wait_thread "- 2" "\<lambda>_ c. c"
  thread_status threads_wf
proof (unfold_locales, goal_cases)
  case (1 s i)
  then show ?case
    by (simp add: threads_wf_def thread_status_def add_thread_def family_wf_append_live)
next
  case (2 s i)
  then show ?case
    by (simp add: thread_status_def add_thread_def status_of_append_live)
next
  case (3 s i c)
  then show ?case
    by (auto simp: threads_wf_def del_thread_def Let_def status_of_move split: option.splits)
next
  case (4 s i c)
  then show ?case
    by (auto simp: threads_wf_def thread_status_def del_thread_def Let_def status_of_move
        find_live_Some find_live_None split: option.splits)
next
  case (5 s i)
  then show ?case
    using find_live_None[of "threads s" "dead_threads s" i]
      find_dead_None[of "threads s" "dead_threads s" i]
    by (auto simp: threads_wf_def thread_status_def wait_thread_def split: option.splits)
next
  case (6 s i)
  then show ?case
    using find_live_Some[of "threads s" "dead_threads s" i]
      find_dead_None[of "threads s" "dead_threads s" i]
    by (auto simp: threads_wf_def thread_status_def wait_thread_def split: option.splits)
next
  case (7 s i c)
  then have "map_of (dead_threads s) i = Some c"
    by (simp add: thread_status_def status_of_Exited_iff)
  then show ?case
    by (auto simp: wait_thread_def dead_lookup_None dest: dead_lookup(2) split: option.splits)
next
  case (8 s i)
  then show ?case
    by (auto simp: threads_wf_def wait_thread_def status_of_reap split: option.splits)
next
  case (9 s i c)
  then have "map_of (dead_threads s) i = Some c"
    by (simp add: thread_status_def status_of_Exited_iff)
  with 9 show ?case
    by (auto simp: threads_wf_def thread_status_def wait_thread_def dead_lookup_None status_of_reap
        split: option.splits)
qed

section \<open>Properties\<close>

text \<open>process ids are never handed out twice: any run of at most \<open>2 ^ 64\<close>
  allocations from the counter yields distinct ids.\<close>

theorem process_ids_unique: "n \<le> 2 ^ 64 \<Longrightarrow> distinct (proc_ids n c)"
  by (rule proc_ids_distinct)

theorem process_ids_unique_witness:
  "(3 :: nat) \<le> 2 ^ 64 \<and> distinct (proc_ids 3 \<lparr>pid_counter = - 1, tid_counter = 0, cid_counter = 0\<rparr>)"
  using process_ids_unique[of 3 "\<lparr>pid_counter = - 1, tid_counter = 0, cid_counter = 0\<rparr>"] by simp

end
