(* ===== verification/Family.thy ===== *)
theory Family
  imports Task_Rel
begin

text \<open>
  The family tree of processes, as both process managers of
  \<open>tg-rcore-tutorial-task-manage\<close> keep it in \<open>rel_map\<close>: a map from process ids to
  relations. \<open>leave_family\<close> is what \<open>PManager::make_current_exited\<close> and
  \<open>PThreadManager::del_proc\<close> do to it when a process ends: drop the entry, tell the
  parent, and hand the orphans to process 0. It is polymorphic in the relation, so the two
  managers share it.

  \<open>family_ok\<close> is the invariant of the tree. The lemmas give the exact result of the
  adoption loop, show that joining and leaving keep the invariant, and say exactly when
  leaving panics.
\<close>

section \<open>Joining and leaving\<close>

text \<open>\<open>join_family\<close>: the parent, when it has an entry, gains a child, and the new
  process gets a fresh relation \<open>r\<close> whose parent is \<open>p\<close>.\<close>

definition join_family ::
  "proc_id \<Rightarrow> proc_id \<Rightarrow> 'z proc_rel_scheme \<Rightarrow> (proc_id \<rightharpoonup> 'z proc_rel_scheme)
     \<Rightarrow> (proc_id \<rightharpoonup> 'z proc_rel_scheme)" where
  "join_family i p r m =
     (case m p of
        Some parent_rel \<Rightarrow> m(p \<mapsto> add_child i parent_rel)
      | None \<Rightarrow> m)(i \<mapsto> r)"

fun reparent ::
  "proc_id list \<Rightarrow> (proc_id \<rightharpoonup> 'z proc_rel_scheme) \<Rightarrow> (proc_id \<rightharpoonup> 'z proc_rel_scheme) res" where
  "reparent [] m = Inr m"
| "reparent (i # is) m =
     bind_res (unwrap (m i)) (\<lambda>r.
       let m1 = m(i \<mapsto> r\<lparr>parent := ProcId 0\<rparr>)
       in bind_res (unwrap (m1 (ProcId 0))) (\<lambda>r0.
            reparent is (m1(ProcId 0 \<mapsto> add_child i r0))))"

definition leave_family ::
  "proc_id \<Rightarrow> isize \<Rightarrow> (proc_id \<rightharpoonup> 'z proc_rel_scheme) \<Rightarrow> (proc_id \<rightharpoonup> 'z proc_rel_scheme) res" where
  "leave_family i exit_code m =
     bind_res (unwrap (m i)) (\<lambda>current_rel.
       let m1 = m(i := None);
           m2 = (case m1 (parent current_rel) of
                   Some parent_rel \<Rightarrow> m1(parent current_rel \<mapsto> del_child i exit_code parent_rel)
                 | None \<Rightarrow> m1)
       in reparent (children current_rel) m2)"

section \<open>The invariant of the tree\<close>

definition family_ok :: "(proc_id \<rightharpoonup> 'z proc_rel_scheme) \<Rightarrow> bool" where
  "family_ok m \<longleftrightarrow>
     (\<forall>p r. m p = Some r \<longrightarrow>
        children_wf r \<and> parent r \<noteq> p \<and>
        (\<forall>c \<in> set (children r). \<exists>rc. m c = Some rc \<and> parent rc = p) \<and>
        (\<forall>c \<in> fst ` set (dead_children r). m c = None) \<and>
        (\<forall>pr. m (parent r) = Some pr \<longrightarrow> p \<in> set (children pr))) \<and>
     (\<forall>r. m (ProcId 0) = Some r \<longrightarrow> m (parent r) = None)"

definition fresh_pid :: "proc_id \<Rightarrow> (proc_id \<rightharpoonup> 'z proc_rel_scheme) \<Rightarrow> bool" where
  "fresh_pid i m \<longleftrightarrow>
     m i = None \<and> (\<forall>p r. m p = Some r \<longrightarrow> parent r \<noteq> i \<and> child_status r i = None)"

lemma family_okD:
  assumes "family_ok m" "m p = Some r"
  shows "children_wf r" and "parent r \<noteq> p"
    and "c \<in> set (children r) \<Longrightarrow> \<exists>rc. m c = Some rc \<and> parent rc = p"
    and "c \<in> fst ` set (dead_children r) \<Longrightarrow> m c = None"
    and "m (parent r) = Some pr \<Longrightarrow> p \<in> set (children pr)"
  using assms by (auto simp: family_ok_def)

lemma family_ok_root: "family_ok m \<Longrightarrow> m (ProcId 0) = Some r \<Longrightarrow> m (parent r) = None"
  by (auto simp: family_ok_def)

lemma family_ok_empty [simp]: "family_ok Map.empty"
  by (simp add: family_ok_def)

lemma add_child_simps [simp]:
  "children (add_child c r) = children r @ [c]"
  "dead_children (add_child c r) = dead_children r"
  "parent (add_child c r) = parent r"
  "threads (add_child c q) = threads q"
  "dead_threads (add_child c q) = dead_threads q"
  by (simp_all add: add_child_def)

lemma del_child_parent [simp]: "parent (del_child c e r) = parent r"
  by (simp add: del_child_def Let_def split: option.splits)

lemma del_child_threads [simp]:
  "threads (del_child c e r) = threads r" "dead_threads (del_child c e r) = dead_threads r"
  by (simp_all add: del_child_def Let_def split: option.splits)

lemma del_child_children:
  "children_wf r \<Longrightarrow> set (children (del_child c e r)) = set (children r) - {c}"
  using kids.status_exit[of r c e] kids.wf_exit[of r c e]
  by (auto simp: child_status_def children_wf_def status_of_Running_iff[symmetric]
      split: if_splits)

lemma del_child_dead:
  "fst ` set (dead_children (del_child c e r)) \<subseteq> insert c (fst ` set (dead_children r))"
  by (auto simp: del_child_def Let_def dest: find_index_SomeD split: option.splits)

lemma children_wf_add_child:
  "children_wf r \<Longrightarrow> i \<notin> set (children r) \<Longrightarrow> i \<notin> fst ` set (dead_children r) \<Longrightarrow>
     children_wf (add_child i r)"
  by (rule kids.wf_enrol) (simp_all add: child_status_def status_of_None_iff)

section \<open>Joining keeps the tree\<close>

lemma family_ok_join [wf_intros]:
  assumes ok: "family_ok m" and fresh: "fresh_pid i m" and pi: "p \<noteq> i"
    and r: "parent r = p" "children r = []" "dead_children r = []"
    and root: "i = ProcId 0 \<Longrightarrow> m p = None"
  shows "family_ok (join_family i p r m)"
proof -
  have fi: "m i = None" "\<And>q s. m q = Some s \<Longrightarrow> parent s \<noteq> i"
    "\<And>q s. m q = Some s \<Longrightarrow> i \<notin> set (children s) \<and> i \<notin> fst ` set (dead_children s)"
    using fresh by (auto simp: fresh_pid_def child_status_def status_of_None_iff)
  have look: "join_family i p r m q =
      (if q = i then Some r else if q = p then map_option (add_child i) (m p) else m q)" for q
    using pi by (simp add: join_family_def split: option.splits)
  have node: "children_wf s \<and> parent s \<noteq> q \<and>
       (\<forall>c \<in> set (children s). \<exists>rc. join_family i p r m c = Some rc \<and> parent rc = q) \<and>
       (\<forall>c \<in> fst ` set (dead_children s). join_family i p r m c = None) \<and>
       (\<forall>pr. join_family i p r m (parent s) = Some pr \<longrightarrow> q \<in> set (children pr))"
    if s: "join_family i p r m q = Some s" for q s
    proof (cases "q = i")
      case True
      with s have "s = r" by (simp add: look)
      with True r pi show ?thesis
        unfolding look by (auto simp: children_wf_def family_wf_def)
    next
      case False
      then obtain s0 where s0: "m q = Some s0" and s0': "s = (if q = p then add_child i s0 else s0)"
        using s by (auto simp: look split: if_splits)
      note D = family_okD[OF ok s0]
      have par: "parent s = parent s0" using s0' by simp
      have cw: "children_wf s"
        using D(1) fi(3)[OF s0] s0' by (auto intro: children_wf_add_child)
      have kids: "\<exists>rc. join_family i p r m c = Some rc \<and> parent rc = q"
        if "c \<in> set (children s)" for c
      proof (cases "c = i")
        case True
        then have "q = p" using that fi(3)[OF s0] s0' by (auto split: if_splits)
        with True r show ?thesis by (simp add: look)
      next
        case ci: False
        then have "c \<in> set (children s0)" using that s0' by (auto split: if_splits)
        from D(3)[OF this] ci show ?thesis by (auto simp: look)
      qed
      have dead: "join_family i p r m c = None" if "c \<in> fst ` set (dead_children s)" for c
      proof -
        from that s0' have c: "c \<in> fst ` set (dead_children s0)" by (auto split: if_splits)
        then have "c \<noteq> i" using fi(3)[OF s0] by auto
        with D(4)[OF c] show ?thesis by (auto simp: look)
      qed
      have up: "q \<in> set (children pr)" if "join_family i p r m (parent s) = Some pr" for pr
        using that D(5) fi(2)[OF s0] par by (auto simp: look split: if_splits)
      from cw D(2) par kids dead up show ?thesis by simp
    qed
  have top: "join_family i p r m (parent s) = None" if s: "join_family i p r m (ProcId 0) = Some s" for s
    proof (cases "i = ProcId 0")
      case True
      then have "s = r" using s look[of "ProcId 0"] by simp
      with True r root pi look[of "parent s"] show ?thesis by simp
    next
      case False
      then obtain s0 where "m (ProcId 0) = Some s0" "parent s = parent s0"
        using s by (auto simp: look split: if_splits)
      with family_ok_root[OF ok this(1)] fi(2)[OF this(1)] show ?thesis by (auto simp: look)
    qed
  show ?thesis
    unfolding family_ok_def using node top by blast
qed

section \<open>The adoption loop\<close>

lemma reparent_eq:
  assumes "distinct is" "ProcId 0 \<notin> set is" "\<And>i. i \<in> set is \<Longrightarrow> m i \<noteq> None"
    and "m (ProcId 0) = Some r0"
  shows "reparent is m = Inr (\<lambda>p.
           if p = ProcId 0 then Some (r0\<lparr>children := children r0 @ is\<rparr>)
           else if p \<in> set is then map_option (\<lambda>r. r\<lparr>parent := ProcId 0\<rparr>) (m p)
           else m p)"
  using assms
proof (induction "is" arbitrary: m r0)
  case Nil
  then show ?case by (auto simp: fun_eq_iff)
next
  case (Cons i rest)
  obtain r where r: "m i = Some r" using Cons.prems(3)[of i] by auto
  have i0: "i \<noteq> ProcId 0" using Cons.prems(2) by auto
  let ?m = "m(i \<mapsto> r\<lparr>parent := ProcId 0\<rparr>, ProcId 0 \<mapsto> add_child i r0)"
  have step: "reparent (i # rest) m = reparent rest ?m"
    using r i0 Cons.prems(4) by (simp add: Let_def)
  have "reparent rest ?m = Inr (\<lambda>p.
           if p = ProcId 0 then Some ((add_child i r0)\<lparr>children := children (add_child i r0) @ rest\<rparr>)
           else if p \<in> set rest then map_option (\<lambda>r. r\<lparr>parent := ProcId 0\<rparr>) (?m p)
           else ?m p)"
    by (rule Cons.IH) (use Cons.prems in auto)
  then show ?case
    unfolding step using r i0 Cons.prems(1)
    by (auto simp: fun_eq_iff add_child_def)
qed

lemma reparent_no_init:
  assumes "is \<noteq> []" "m (ProcId 0) = None"
  shows "reparent is m = Inl UnwrapNone"
  using assms by (cases "is") (auto simp: Let_def bind_res_def unwrap_def split: option.splits sum.splits)

section \<open>Leaving the tree\<close>

text \<open>
  Under the invariant, the entry of a process that leaves can be removed without a panic
  exactly when it has no children or process 0 is there to adopt them.
\<close>

definition can_leave :: "proc_id \<Rightarrow> (proc_id \<rightharpoonup> 'z proc_rel_scheme) \<Rightarrow> bool" where
  "can_leave i m \<longleftrightarrow>
     (case m i of None \<Rightarrow> False
      | Some r \<Rightarrow> children r = [] \<or> (i \<noteq> ProcId 0 \<and> m (ProcId 0) \<noteq> None))"

definition told_parent ::
  "proc_id \<Rightarrow> isize \<Rightarrow> proc_id \<Rightarrow> (proc_id \<rightharpoonup> 'z proc_rel_scheme) \<Rightarrow> (proc_id \<rightharpoonup> 'z proc_rel_scheme)" where
  "told_parent i e p m = (\<lambda>q.
     if q = i then None else if q = p then map_option (del_child i e) (m q) else m q)"

lemma leave_family_told:
  assumes "m i = Some cur" "parent cur \<noteq> i"
  shows "leave_family i e m = reparent (children cur) (told_parent i e (parent cur) m)"
proof -
  have "(case (m(i := None)) (parent cur) of
           Some parent_rel \<Rightarrow> (m(i := None))(parent cur \<mapsto> del_child i e parent_rel)
         | None \<Rightarrow> m(i := None)) = told_parent i e (parent cur) m"
    using assms(2) by (auto simp: told_parent_def fun_eq_iff split: option.splits)
  with assms(1) show ?thesis by (simp add: leave_family_def Let_def)
qed

lemma leave_family_eq:
  assumes ok: "family_ok m" and cur: "m i = Some cur" and can: "can_leave i m"
  shows "leave_family i e m = Inr (\<lambda>p.
           if p = ProcId 0 then map_option (\<lambda>r. r\<lparr>children := children r @ children cur\<rparr>)
                                  (told_parent i e (parent cur) m p)
           else if p \<in> set (children cur)
                then map_option (\<lambda>r. r\<lparr>parent := ProcId 0\<rparr>) (told_parent i e (parent cur) m p)
           else told_parent i e (parent cur) m p)"
proof (cases "children cur = []")
  case True
  with leave_family_told[where m = m and i = i and cur = cur and e = e, OF cur family_okD(2)[OF ok cur]] show ?thesis
    by (auto simp: fun_eq_iff option.map_ident)
next
  case False
  with can cur have i0: "i \<noteq> ProcId 0" "m (ProcId 0) \<noteq> None"
    by (auto simp: can_leave_def)
  note D = family_okD[OF ok cur]
  have dist: "distinct (children cur)"
    using D(1) by (simp add: children_wf_def family_wf_def)
  have no0: "ProcId 0 \<notin> set (children cur)"
    using D(3)[of "ProcId 0"] family_ok_root[OF ok] cur by auto
  have ni: "i \<notin> set (children cur)" using D(2) D(3)[of i] cur by auto
  have live: "told_parent i e (parent cur) m c \<noteq> None" if "c \<in> set (children cur)" for c
    using that ni D(3)[OF that] by (auto simp: told_parent_def)
  have "told_parent i e (parent cur) m (ProcId 0) \<noteq> None"
    using i0 by (auto simp: told_parent_def)
  then obtain r0 where r0: "told_parent i e (parent cur) m (ProcId 0) = Some r0" by blast
  show ?thesis
    using leave_family_told[where m = m and i = i and cur = cur and e = e, OF cur D(2)]
      reparent_eq[where m = "told_parent i e (parent cur) m", OF dist no0 live r0] r0
    by (auto simp: fun_eq_iff)
qed

lemma leave_family_panics:
  assumes ok: "family_ok m" and "\<not> can_leave i m"
  shows "leave_family i e m = Inl UnwrapNone"
proof (cases "m i")
  case None
  then show ?thesis by (simp add: leave_family_def)
next
  case (Some cur)
  with assms(2) have ne: "children cur \<noteq> []" and gone: "i = ProcId 0 \<or> m (ProcId 0) = None"
    by (auto simp: can_leave_def)
  have "told_parent i e (parent cur) m (ProcId 0) = None"
    using gone by (auto simp: told_parent_def)
  with leave_family_told[where m = m and i = i and cur = cur and e = e, OF Some family_okD(2)[OF ok Some]] show ?thesis
    by (simp add: reparent_no_init[OF ne])
qed

lemma leave_family_iff:
  assumes ok: "family_ok m"
  shows "(\<exists>m'. leave_family i e m = Inr m') \<longleftrightarrow> can_leave i m"
proof
  assume "\<exists>m'. leave_family i e m = Inr m'"
  then show "can_leave i m"
    using leave_family_panics[of m i e, OF ok] by (cases "can_leave i m") auto
next
  assume can: "can_leave i m"
  then obtain cur where "m i = Some cur" by (auto simp: can_leave_def split: option.splits)
  from leave_family_eq[where e = e, OF ok this can] show "\<exists>m'. leave_family i e m = Inr m'"
    by blast
qed

text \<open>What leaving does to every other entry, in the vocabulary of the tree.\<close>

lemma leave_family_entry:
  assumes ok: "family_ok m" and cur: "m i = Some cur" and lv: "leave_family i e m = Inr m'"
  shows "m' i = None"
    and "p \<noteq> i \<Longrightarrow> m p = Some r \<Longrightarrow>
      \<exists>r'. m' p = Some r' \<and>
        parent r' = (if p \<in> set (children cur) then ProcId 0 else parent r) \<and>
        children r' = filter (\<lambda>c. c \<noteq> i \<or> p \<noteq> parent cur) (children r) @
                      (if p = ProcId 0 then children cur else []) \<and>
        dead_children r' = dead_children r @ (if p = parent cur then [(i, e)] else [])"
    and "p \<noteq> i \<Longrightarrow> m p = None \<Longrightarrow> m' p = None"
proof -
  have can: "can_leave i m" using leave_family_iff[OF ok] lv by blast
  note D = family_okD[OF ok cur]
  have m': "m' = (\<lambda>p.
           if p = ProcId 0 then map_option (\<lambda>r. r\<lparr>children := children r @ children cur\<rparr>)
                                  (told_parent i e (parent cur) m p)
           else if p \<in> set (children cur)
                then map_option (\<lambda>r. r\<lparr>parent := ProcId 0\<rparr>) (told_parent i e (parent cur) m p)
           else told_parent i e (parent cur) m p)"
    using leave_family_eq[where e = e, OF ok cur can] lv by simp
  have ni: "i \<notin> set (children cur)" using D(2) D(3)[of i] cur by auto
  have no0: "ProcId 0 \<notin> set (children cur)"
    using D(3)[of "ProcId 0"] family_ok_root[OF ok] cur by auto
  show "m' i = None" by (auto simp: m' told_parent_def)
  show "p \<noteq> i \<Longrightarrow> m p = None \<Longrightarrow> m' p = None" by (auto simp: m' told_parent_def)
  assume pi: "p \<noteq> i" and r: "m p = Some r"
  have del: "children (del_child i e r) = filter (\<lambda>c. c \<noteq> i) (children r)"
    "dead_children (del_child i e r) = dead_children r @ [(i, e)]" if "p = parent cur"
  proof -
    have "i \<in> set (children r)" using D(5) r that by simp
    then obtain k where k: "find_index (\<lambda>j. j = i) (children r) = Some k"
      by (metis find_index_eq_None_iff not_None_eq)
    have "distinct (children r)"
      using family_okD(1)[OF ok r] by (simp add: children_wf_def family_wf_def)
    then have "remove1 i (children r) = filter (\<lambda>c. c \<noteq> i) (children r)"
      by (simp add: distinct_remove1_removeAll removeAll_filter_not_eq eq_commute)
    moreover have "del_child i e r = r\<lparr>children := remove1 i (children r),
        dead_children := dead_children r @ [(i, e)]\<rparr>"
      using find_index_SomeD[OF k] by (simp add: del_child_def k remove_at_find_index[OF k])
    ultimately show "children (del_child i e r) = filter (\<lambda>c. c \<noteq> i) (children r)"
      and "dead_children (del_child i e r) = dead_children r @ [(i, e)]" by simp_all
  qed
  have idf: "filter (\<lambda>c. c \<noteq> i \<or> p \<noteq> parent cur) (children r) =
      (if p = parent cur then filter (\<lambda>c. c \<noteq> i) (children r) else children r)"
    by simp
  show "\<exists>r'. m' p = Some r' \<and>
        parent r' = (if p \<in> set (children cur) then ProcId 0 else parent r) \<and>
        children r' = filter (\<lambda>c. c \<noteq> i \<or> p \<noteq> parent cur) (children r) @
                      (if p = ProcId 0 then children cur else []) \<and>
        dead_children r' = dead_children r @ (if p = parent cur then [(i, e)] else [])"
    unfolding idf using pi r no0 del
    by (cases "p = parent cur"; cases "p = ProcId 0") (auto simp: m' told_parent_def)
qed


lemma family_ok_leave [wf_intros]:
  assumes ok: "family_ok m" and lv: "leave_family i e m = Inr m'"
  shows "family_ok m'"
proof -
  have can: "can_leave i m" using leave_family_iff[OF ok] lv by blast
  then obtain cur where cur: "m i = Some cur" by (auto simp: can_leave_def split: option.splits)
  note D = family_okD[OF ok cur]
  note gone = leave_family_entry(1)[OF ok cur lv]
  note "entry" = leave_family_entry(2)[OF ok cur lv]
  note absent = leave_family_entry(3)[OF ok cur lv]
  have heir: "m (ProcId 0) \<noteq> None \<and> i \<noteq> ProcId 0" if "c \<in> set (children cur)" for c
    using can cur that by (auto simp: can_leave_def)
  have no0: "ProcId 0 \<notin> set (children cur)"
    using D(3)[of "ProcId 0"] family_ok_root[OF ok] cur by auto
  have before: "\<exists>r. m p = Some r \<and> p \<noteq> i" if "m' p = Some r'" for p r'
    using that gone absent[of p] by (cases "m p"; cases "p = i") auto
  have up: "p \<in> set (children cur) \<longleftrightarrow> parent r = i" if "m p = Some r" for p r
    using D(3)[of p] family_okD(5)[OF ok that, of cur] cur that by auto
  have distk: "distinct (children cur)" using D(1) by (simp add: children_wf_def family_wf_def)
  have node: "children_wf r' \<and> parent r' \<noteq> p \<and>
      (\<forall>c \<in> set (children r'). \<exists>rc. m' c = Some rc \<and> parent rc = p) \<and>
      (\<forall>c \<in> fst ` set (dead_children r'). m' c = None) \<and>
      (\<forall>pr. m' (parent r') = Some pr \<longrightarrow> p \<in> set (children pr))"
    if s: "m' p = Some r'" for p r'
  proof -
    obtain r where r: "m p = Some r" and pi: "p \<noteq> i" using before[OF s] by blast
    note E = family_okD[OF ok r]
    obtain r2 where "m' p = Some r2" and
      par: "parent r2 = (if p \<in> set (children cur) then ProcId 0 else parent r)" and
      ch: "children r2 = filter (\<lambda>c. c \<noteq> i \<or> p \<noteq> parent cur) (children r) @
                      (if p = ProcId 0 then children cur else [])" and
      dd: "dead_children r2 = dead_children r @ (if p = parent cur then [(i, e)] else [])"
      using entry[OF pi r] by blast
    with s have "r2 = r'" by simp
    note par = par[unfolded this] and ch = ch[unfolded this] and dd = dd[unfolded this]
    have disj: "c \<notin> set (children r)" if "c \<in> set (children cur)" for c
      using D(3)[OF that] E(3)[of c] pi by auto
    have ideadr: "i \<notin> fst ` set (dead_children r)" using E(4)[of i] cur by auto
    have cdead: "c \<notin> fst ` set (dead_children r)" if "c \<in> set (children cur)" for c
      using D(3)[OF that] E(4)[of c] by (metis option.distinct(1))
    have ni: "i \<notin> set (children cur)" using D(2) D(3)[of i] cur by auto
    have iin: "i \<in> set (children r) \<Longrightarrow> p = parent cur" using E(3)[of i] cur by auto
    have wf: "children_wf r'"
      using E(1) distk disj ideadr cdead ni iin
      unfolding children_wf_def family_wf_def ch dd by (auto simp: image_iff)
    have pp: "parent r' \<noteq> p"
      using E(2) par no0 by (auto split: if_splits)
    have kids_ok: "\<exists>rc. m' c = Some rc \<and> parent rc = p" if "c \<in> set (children r')" for c
    proof (cases "c \<in> set (children cur)")
      case True
      then have p0: "p = ProcId 0"
        using that ch disj by (auto split: if_splits)
      have "c \<noteq> i" using True ni by auto
      with D(3)[OF True] entry[of c] True p0 show ?thesis by auto
    next
      case False
      then have "c \<in> set (children r)" "c \<noteq> i"
        using that ch iin by (auto split: if_splits)
      with E(3)[of c] entry[of c] False show ?thesis by auto
    qed
    have dead_ok: "m' c = None" if "c \<in> fst ` set (dead_children r')" for c
    proof (cases "c = i")
      case False
      then have "c \<in> fst ` set (dead_children r)" using that dd by (auto split: if_splits)
      with E(4) absent False show ?thesis by auto
    qed (simp add: gone)
    have up_ok: "p \<in> set (children pr)" if q: "m' (parent r') = Some pr" for pr
    proof -
      obtain r0 where r0: "m (parent r') = Some r0" and qi: "parent r' \<noteq> i"
        using before[OF q] by blast
      have "children pr = filter (\<lambda>c. c \<noteq> i \<or> parent r' \<noteq> parent cur) (children r0) @
                      (if parent r' = ProcId 0 then children cur else [])"
        using entry[OF qi r0] q by auto
      moreover have "p \<in> set (children r0)" if "p \<notin> set (children cur)"
        using par that E(5) r0 by simp
      ultimately show ?thesis using par pi by (auto split: if_splits)
    qed
    show ?thesis by (intro conjI ballI allI impI wf pp kids_ok dead_ok up_ok)
  qed
  have top: "m' (parent s) = None" if s: "m' (ProcId 0) = Some s" for s
  proof -
    obtain r where r: "m (ProcId 0) = Some r" and i0: "ProcId 0 \<noteq> i" using before[OF s] by blast
    have "parent s = parent r" using entry[OF i0 r] s no0 by auto
    then show ?thesis
      using family_ok_root[OF ok r] gone absent[of "parent r"] by (cases "parent r = i") auto
  qed
  show ?thesis
    unfolding family_ok_def using node top by blast
qed

end
