(* ===== verification/Task_Manager.thy ===== *)
theory Task_Manager
  imports Task_Rel
begin

text \<open>
  The containers the two managers are generic in: the trait \<open>Manage\<close> (a table of task
  objects), the trait \<open>Schedule\<close> (the ready queue), and the kernel's implementations
  \<open>ThreadManager\<close> and \<open>ProcManager\<close> of \<open>tg-rcore-tutorial-ch8/src/processor.rs\<close>.

  The traits are locales. What the scheduler promises, first in first out and round robin,
  is proved inside them and holds for the kernel's containers through the interpretations.
\<close>

section \<open>The kernel's containers\<close>

record ('i, 't) task_manager =
  tasks :: "'i \<rightharpoonup> 't"
  ready_queue :: "'i list"

definition task_manager_new :: "('i, 't) task_manager" where
  "task_manager_new = \<lparr>tasks = Map.empty, ready_queue = []\<rparr>"

definition insert_task :: "'i \<Rightarrow> 't \<Rightarrow> ('i, 't) task_manager \<Rightarrow> ('i, 't) task_manager" where
  "insert_task i task m = m\<lparr>tasks := (tasks m)(i \<mapsto> task)\<rparr>"

definition get_task :: "'i \<Rightarrow> ('i, 't) task_manager \<Rightarrow> 't option" where
  "get_task i m = tasks m i"

definition delete_task :: "'i \<Rightarrow> ('i, 't) task_manager \<Rightarrow> ('i, 't) task_manager" where
  "delete_task i m = m\<lparr>tasks := (tasks m)(i := None)\<rparr>"

definition add_ready :: "'i \<Rightarrow> ('i, 't) task_manager \<Rightarrow> ('i, 't) task_manager" where
  "add_ready i m = m\<lparr>ready_queue := ready_queue m @ [i]\<rparr>"

definition fetch_ready :: "('i, 't) task_manager \<Rightarrow> 'i option \<times> ('i, 't) task_manager" where
  "fetch_ready m =
     (case ready_queue m of
        [] \<Rightarrow> (None, m)
      | i # is \<Rightarrow> (Some i, m\<lparr>ready_queue := is\<rparr>))"

record 'p proc_table =
  procs :: "proc_id \<rightharpoonup> 'p"

definition proc_table_new :: "'p proc_table" where
  "proc_table_new = \<lparr>procs = Map.empty\<rparr>"

definition insert_proc :: "proc_id \<Rightarrow> 'p \<Rightarrow> 'p proc_table \<Rightarrow> 'p proc_table" where
  "insert_proc i item m = m\<lparr>procs := (procs m)(i \<mapsto> item)\<rparr>"

definition get_proc_entry :: "proc_id \<Rightarrow> 'p proc_table \<Rightarrow> 'p option" where
  "get_proc_entry i m = procs m i"

definition delete_proc :: "proc_id \<Rightarrow> 'p proc_table \<Rightarrow> 'p proc_table" where
  "delete_proc i m = m\<lparr>procs := (procs m)(i := None)\<rparr>"

section \<open>The trait Manage\<close>

locale manage =
  fixes ins :: "'i \<Rightarrow> 't \<Rightarrow> 's \<Rightarrow> 's"
    and del :: "'i \<Rightarrow> 's \<Rightarrow> 's"
    and get :: "'i \<Rightarrow> 's \<Rightarrow> 't option"
  assumes get_ins: "get j (ins i t s) = (if j = i then Some t else get j s)"
    and get_del: "get j (del i s) = (if j = i then None else get j s)"
begin

lemma get_ins_del: "get j (del i (ins i t s)) = get j (del i s)"
  by (simp add: get_ins get_del)

lemma last_insert_wins: "get j (ins i t' (ins i t s)) = get j (ins i t' s)"
  by (simp add: get_ins)

end

section \<open>The trait Schedule\<close>

text \<open>
  \<open>queue\<close> abstracts the scheduler to the sequence of ids it will hand out. \<open>turns n\<close>
  runs the scheduler for \<open>n\<close> time slices in which every fetched task is suspended and
  queued again, the cycle of a kernel whose tasks never block.
\<close>

locale schedule =
  fixes add :: "'i \<Rightarrow> 's \<Rightarrow> 's"
    and fetch :: "'s \<Rightarrow> 'i option \<times> 's"
    and queue :: "'s \<Rightarrow> 'i list"
  assumes queue_add: "queue (add i s) = queue s @ [i]"
    and fetch_empty: "queue s = [] \<Longrightarrow> fetch s = (None, s)"
    and fetch_head: "queue s = i # is \<Longrightarrow> fst (fetch s) = Some i"
    and queue_fetch: "queue (snd (fetch s)) = tl (queue s)"
begin

primrec turns :: "nat \<Rightarrow> 's \<Rightarrow> 'i list \<times> 's" where
  "turns 0 s = ([], s)"
| "turns (Suc n) s =
     (case fetch s of
        (None, s') \<Rightarrow> ([], s')
      | (Some i, s') \<Rightarrow> (let (is, s'') = turns n (add i s') in (i # is, s'')))"

primrec drain :: "nat \<Rightarrow> 's \<Rightarrow> 'i list \<times> 's" where
  "drain 0 s = ([], s)"
| "drain (Suc n) s =
     (case fetch s of
        (None, s') \<Rightarrow> ([], s')
      | (Some i, s') \<Rightarrow> (let (is, s'') = drain n s' in (i # is, s'')))"

lemma fetch_None_iff: "fst (fetch s) = None \<longleftrightarrow> queue s = []"
  by (cases "queue s") (auto simp: fetch_empty dest: fetch_head)

lemma fetch_cases:
  obtains "queue s = []" "fetch s = (None, s)"
  | i s' where "fetch s = (Some i, s')" "queue s = i # queue s'"
proof (cases "queue s")
  case Nil
  with that(1) fetch_empty show ?thesis by blast
next
  case (Cons i "is")
  obtain a s' where f: "fetch s = (a, s')" by (cases "fetch s")
  with Cons queue_fetch[of s] fetch_head[OF Cons] that(2)[of i s'] show ?thesis by simp
qed

lemma drain_fifo: "fst (drain n s) = take n (queue s) \<and> queue (snd (drain n s)) = drop n (queue s)"
proof (induction n arbitrary: s)
  case (Suc n)
  show ?case
  proof (cases s rule: fetch_cases)
    case (2 i s')
    with Suc[of s'] show ?thesis by (simp add: case_prod_beta Let_def)
  qed (simp add: fetch_empty)
qed simp

lemma turns_round_robin:
  "n \<le> length (queue s) \<Longrightarrow>
     fst (turns n s) = take n (queue s) \<and> queue (snd (turns n s)) = rotate n (queue s)"
proof (induction n arbitrary: s)
  case (Suc n)
  show ?case
  proof (cases s rule: fetch_cases)
    case 1
    with Suc.prems show ?thesis by simp
  next
    case (2 i s')
    have "n \<le> length (queue (add i s'))" using Suc.prems 2 by (simp add: queue_add)
    note IH = Suc.IH[OF this]
    have "rotate n (queue s' @ [i]) = rotate (Suc n) (queue s)"
      using 2 by (simp add: rotate1_rotate_swap)
    moreover have "take n (queue s' @ [i]) = take n (queue s')"
      using Suc.prems 2 by simp
    ultimately show ?thesis
      using IH 2 by (simp add: case_prod_beta Let_def queue_add)
  qed
qed simp

lemma full_round:
  "fst (turns (length (queue s)) s) = queue s \<and> queue (snd (turns (length (queue s)) s)) = queue s"
  using turns_round_robin[of "length (queue s)" s] by simp

lemma waits_at_most_the_queue:
  assumes "i \<in> set (queue s)"
  obtains n where "n < length (queue s)" "fst (fetch (snd (turns n s))) = Some i"
proof -
  obtain n where n: "n < length (queue s)" "queue s ! n = i"
    using assms by (auto simp: in_set_conv_nth)
  have q: "queue (snd (turns n s)) = rotate n (queue s)"
    using turns_round_robin[of n s] n by simp
  have "rotate n (queue s) = drop n (queue s) @ take n (queue s)"
    using n by (simp add: rotate_drop_take)
  with q n have "queue (snd (turns n s)) = i # (drop (Suc n) (queue s) @ take n (queue s))"
    by (simp add: Cons_nth_drop_Suc[symmetric])
  with n fetch_head that show ?thesis by blast
qed

end

section \<open>A task container that is both\<close>

locale task_store = manage ins del get + schedule add fetch queue
  for ins :: "'i \<Rightarrow> 't \<Rightarrow> 's \<Rightarrow> 's" and del :: "'i \<Rightarrow> 's \<Rightarrow> 's" and get :: "'i \<Rightarrow> 's \<Rightarrow> 't option"
    and add :: "'i \<Rightarrow> 's \<Rightarrow> 's" and fetch :: "'s \<Rightarrow> 'i option \<times> 's" and queue :: "'s \<Rightarrow> 'i list" +
  assumes get_add: "get i (add j s) = get i s"
    and get_fetch: "get i (snd (fetch s)) = get i s"
    and queue_ins: "queue (ins i t s) = queue s"
    and queue_del: "queue (del i s) = queue s"
begin

lemma get_turns: "get i (snd (turns n s)) = get i s"
proof (induction n arbitrary: s)
  case (Suc n)
  then show ?case
    using get_fetch[of i s]
    by (auto simp: case_prod_beta Let_def get_add split: prod.splits option.splits)
qed simp

lemma every_ready_task_is_handed_out:
  assumes "i \<in> set (queue s)" and "get i s = Some t"
  obtains n where "n < length (queue s)" "fst (fetch (snd (turns n s))) = Some i"
    "get i (snd (turns n s)) = Some t"
  using waits_at_most_the_queue[OF assms(1)] assms(2) get_turns by metis

end

section \<open>The kernel's containers keep the contracts\<close>

interpretation tm: task_store insert_task delete_task get_task add_ready fetch_ready ready_queue
  by unfold_locales
    (auto simp: insert_task_def delete_task_def get_task_def add_ready_def fetch_ready_def
      split: list.splits)

interpretation pt: manage insert_proc delete_proc get_proc_entry
  by unfold_locales (auto simp: insert_proc_def delete_proc_def get_proc_entry_def)

lemmas container_defs =
  insert_task_def delete_task_def get_task_def add_ready_def
  insert_proc_def delete_proc_def get_proc_entry_def

section \<open>Properties\<close>

text \<open>C27: the ready queue of the kernel is served round robin. A task that is ready is handed
  out after fewer time slices than there are ready tasks, and its table entry is still the
  same then, when every task that ran before was suspended and queued again.\<close>

theorem ready_task_runs_within_a_round:
  assumes "i \<in> set (ready_queue m)" and "get_task i m = Some t"
  shows "\<exists>n < length (ready_queue m).
    fst (fetch_ready (snd (tm.turns n m))) = Some i \<and> get_task i (snd (tm.turns n m)) = Some t"
  by (rule tm.every_ready_task_is_handed_out[OF assms]) blast

theorem ready_task_runs_within_a_round_witness:
  "\<exists>n < length (ready_queue \<lparr>tasks = [1 \<mapsto> True, 2 \<mapsto> False], ready_queue = [1, 2 :: nat]\<rparr>).
     fst (fetch_ready (snd (tm.turns n \<lparr>tasks = [1 \<mapsto> True, 2 \<mapsto> False], ready_queue = [1, 2 :: nat]\<rparr>))) = Some 2 \<and>
     get_task 2 (snd (tm.turns n \<lparr>tasks = [1 \<mapsto> True, 2 \<mapsto> False], ready_queue = [1, 2 :: nat]\<rparr>)) = Some False"
  by (rule ready_task_runs_within_a_round) (simp_all add: get_task_def)

end
