(* ===== verification/Thread_Manager.thy ===== *)
theory Thread_Manager
  imports Family Task_Manager
begin

text \<open>
  \<open>PThreadManager\<close> of \<open>tg-rcore-tutorial-task-manage/src/thread_manager.rs\<close> on the
  kernel's containers: the two-level manager of the chapter 8 kernel, in which processes
  own threads and threads are scheduled.

  Every operation is a function on the state, with the panics of the source as \<open>Inl\<close>.
  A returned \<open>&mut\<close> is the value it points to, and \<open>pt_put_task\<close> and \<open>pt_put_proc\<close>
  write through it.

  \<open>pt_ok\<close> is the invariant of the two-level manager: it holds whatever thread ids are put
  into the ready queue, since \<open>re_enque\<close> checks nothing. \<open>queue_ok\<close>, the invariant of the
  queue itself, holds while only waiting live threads are queued again. The lemmas show that
  every operation keeps them, give the exact condition under which a thread's exit panics,
  and follow an exit code from the exit to the wait of the parent.
\<close>

section \<open>PThreadManager (thread\_manager.rs)\<close>

record ('p, 't) pt_manager =
  rel_map :: "proc_id \<rightharpoonup> proc_thread_rel"
  proc_manager :: "'p proc_table option"
  tid2pid :: "thread_id \<rightharpoonup> proc_id"
  manager :: "(thread_id, 't) task_manager option"
  current :: "thread_id option"

definition pt_new :: "('p, 't) pt_manager" where
  "pt_new = \<lparr>rel_map = Map.empty, proc_manager = None, tid2pid = Map.empty,
             manager = None, current = None\<rparr>"

definition pt_set_manager ::
  "(thread_id, 't) task_manager \<Rightarrow> ('p, 't) pt_manager \<Rightarrow> ('p, 't) pt_manager" where
  "pt_set_manager m s = s\<lparr>manager := Some m\<rparr>"

definition pt_set_proc_manager ::
  "'p proc_table \<Rightarrow> ('p, 't) pt_manager \<Rightarrow> ('p, 't) pt_manager" where
  "pt_set_proc_manager pm s = s\<lparr>proc_manager := Some pm\<rparr>"

definition pt_find_next :: "('p, 't) pt_manager \<Rightarrow> ('t option \<times> ('p, 't) pt_manager) res" where
  "pt_find_next s =
     bind_res (unwrap (manager s)) (\<lambda>m.
       case fetch_ready m of
         (Some i, m1) \<Rightarrow>
           (case get_task i m1 of
              Some task \<Rightarrow> Inr (Some task, s\<lparr>manager := Some m1, current := Some i\<rparr>)
            | None \<Rightarrow> Inr (None, s\<lparr>manager := Some m1\<rparr>))
       | (None, m1) \<Rightarrow> Inr (None, s\<lparr>manager := Some m1\<rparr>))"

definition pt_make_current_suspend :: "('p, 't) pt_manager \<Rightarrow> ('p, 't) pt_manager res" where
  "pt_make_current_suspend s =
     (case current s of
        Some i \<Rightarrow>
          bind_res (unwrap (manager s)) (\<lambda>m.
            Inr (s\<lparr>manager := Some (add_ready i m), current := None\<rparr>))
      | None \<Rightarrow> Inr s)"

definition pt_del_proc :: "proc_id \<Rightarrow> isize \<Rightarrow> ('p, 't) pt_manager \<Rightarrow> ('p, 't) pt_manager res" where
  "pt_del_proc i exit_code s =
     bind_res (unwrap (proc_manager s)) (\<lambda>pm.
       bind_res (leave_family i exit_code (rel_map s)) (\<lambda>rm.
         Inr (s\<lparr>proc_manager := Some (delete_proc i pm), rel_map := rm\<rparr>)))"

definition pt_make_current_exited :: "isize \<Rightarrow> ('p, 't) pt_manager \<Rightarrow> ('p, 't) pt_manager res" where
  "pt_make_current_exited exit_code s =
     (case current s of
        Some i \<Rightarrow>
          bind_res (unwrap (manager s)) (\<lambda>m.
            let s1 = s\<lparr>manager := Some (delete_task i m)\<rparr> in
            bind_res (unwrap (tid2pid s1 i)) (\<lambda>pid.
              let s2 = s1\<lparr>tid2pid := (tid2pid s1)(i := None)\<rparr>;
                  (flag, s3) =
                    (case rel_map s2 pid of
                       Some current_rel \<Rightarrow>
                         let current_rel' = del_thread i exit_code current_rel in
                         (threads current_rel' = [],
                          s2\<lparr>rel_map := (rel_map s2)(pid \<mapsto> current_rel')\<rparr>)
                     | None \<Rightarrow> (False, s2))
              in bind_res (if flag then pt_del_proc pid exit_code s3 else Inr s3)
                   (\<lambda>s4. Inr (s4\<lparr>current := None\<rparr>))))
      | None \<Rightarrow> Inr s)"

definition pt_make_current_blocked :: "('p, 't) pt_manager \<Rightarrow> ('p, 't) pt_manager" where
  "pt_make_current_blocked s = (case current s of Some _ \<Rightarrow> s\<lparr>current := None\<rparr> | None \<Rightarrow> s)"

definition pt_re_enque :: "thread_id \<Rightarrow> ('p, 't) pt_manager \<Rightarrow> ('p, 't) pt_manager res" where
  "pt_re_enque i s =
     bind_res (unwrap (manager s)) (\<lambda>m. Inr (s\<lparr>manager := Some (add_ready i m)\<rparr>))"

definition pt_add ::
  "thread_id \<Rightarrow> 't \<Rightarrow> proc_id \<Rightarrow> ('p, 't) pt_manager \<Rightarrow> ('p, 't) pt_manager res" where
  "pt_add i task pid s =
     bind_res (unwrap (manager s)) (\<lambda>m.
       let s1 = s\<lparr>manager := Some (add_ready i (insert_task i task m))\<rparr> in
       Inr (case rel_map s1 pid of
              Some parent_rel \<Rightarrow>
                s1\<lparr>rel_map := (rel_map s1)(pid \<mapsto> add_thread i parent_rel),
                   tid2pid := (tid2pid s1)(i \<mapsto> pid)\<rparr>
            | None \<Rightarrow> s1))"

definition pt_current :: "('p, 't) pt_manager \<Rightarrow> 't option res" where
  "pt_current s =
     bind_res (unwrap (current s)) (\<lambda>i.
       bind_res (unwrap (manager s)) (\<lambda>m. Inr (get_task i m)))"

definition pt_get_task :: "thread_id \<Rightarrow> ('p, 't) pt_manager \<Rightarrow> 't option res" where
  "pt_get_task i s = bind_res (unwrap (manager s)) (\<lambda>m. Inr (get_task i m))"

definition pt_add_proc ::
  "proc_id \<Rightarrow> 'p \<Rightarrow> proc_id \<Rightarrow> ('p, 't) pt_manager \<Rightarrow> ('p, 't) pt_manager res" where
  "pt_add_proc i proc parent_pid s =
     bind_res (unwrap (proc_manager s)) (\<lambda>pm.
       Inr (s\<lparr>proc_manager := Some (insert_proc i proc pm),
              rel_map := join_family i parent_pid (proc_thread_rel_new parent_pid) (rel_map s)\<rparr>))"

definition pt_get_proc :: "proc_id \<Rightarrow> ('p, 't) pt_manager \<Rightarrow> 'p option res" where
  "pt_get_proc i s = bind_res (unwrap (proc_manager s)) (\<lambda>pm. Inr (get_proc_entry i pm))"

definition pt_wait ::
  "proc_id \<Rightarrow> ('p, 't) pt_manager \<Rightarrow> ((proc_id \<times> isize) option \<times> ('p, 't) pt_manager) res" where
  "pt_wait child_pid s =
     bind_res (unwrap (current s)) (\<lambda>i.
       bind_res (unwrap (tid2pid s i)) (\<lambda>pid.
         bind_res (unwrap (rel_map s pid)) (\<lambda>current_rel.
           let (answer, current_rel') =
                 (if pid_get_usize child_pid = usize_max then pt_wait_any_child current_rel
                  else pt_wait_child child_pid current_rel)
           in Inr (answer, s\<lparr>rel_map := (rel_map s)(pid \<mapsto> current_rel')\<rparr>))))"

definition pt_waittid ::
  "thread_id \<Rightarrow> ('p, 't) pt_manager \<Rightarrow> (isize option \<times> ('p, 't) pt_manager) res" where
  "pt_waittid thread_tid s =
     bind_res (unwrap (current s)) (\<lambda>i.
       bind_res (unwrap (tid2pid s i)) (\<lambda>pid.
         bind_res (unwrap (rel_map s pid)) (\<lambda>current_rel.
           let (answer, current_rel') = wait_thread thread_tid current_rel
           in Inr (answer, s\<lparr>rel_map := (rel_map s)(pid \<mapsto> current_rel')\<rparr>))))"

definition pt_thread_count :: "proc_id \<Rightarrow> ('p, 't) pt_manager \<Rightarrow> nat res" where
  "pt_thread_count i s = bind_res (unwrap (rel_map s i)) (\<lambda>r. Inr (length (threads r)))"

definition pt_get_thread :: "proc_id \<Rightarrow> ('p, 't) pt_manager \<Rightarrow> thread_id list option" where
  "pt_get_thread i s = map_option threads (rel_map s i)"

definition pt_current_pid :: "('p, 't) pt_manager \<Rightarrow> proc_id option res" where
  "pt_current_pid s =
     (case current s of
        Some i \<Rightarrow> bind_res (unwrap (tid2pid s i)) (\<lambda>pid. Inr (Some pid))
      | None \<Rightarrow> Inr None)"

definition pt_get_current_proc :: "('p, 't) pt_manager \<Rightarrow> 'p option res" where
  "pt_get_current_proc s =
     bind_res (pt_current_pid s) (\<lambda>p.
       case p of
         Some pid \<Rightarrow> bind_res (unwrap (proc_manager s)) (\<lambda>pm. Inr (get_proc_entry pid pm))
       | None \<Rightarrow> Inr None)"

text \<open>Writing through the mutable references that \<open>get_task\<close> and \<open>get_proc\<close> return.\<close>

definition pt_put_task :: "thread_id \<Rightarrow> 't \<Rightarrow> ('p, 't) pt_manager \<Rightarrow> ('p, 't) pt_manager" where
  "pt_put_task i task s = s\<lparr>manager := map_option (insert_task i task) (manager s)\<rparr>"

definition pt_put_proc :: "proc_id \<Rightarrow> 'p \<Rightarrow> ('p, 't) pt_manager \<Rightarrow> ('p, 't) pt_manager" where
  "pt_put_proc i proc s = s\<lparr>proc_manager := map_option (insert_proc i proc) (proc_manager s)\<rparr>"

section \<open>The invariant\<close>

definition threads_ok ::
  "(proc_id \<rightharpoonup> proc_thread_rel) \<Rightarrow> (thread_id \<rightharpoonup> proc_id) \<Rightarrow> bool" where
  "threads_ok rm t2p \<longleftrightarrow>
     (\<forall>p r. rm p = Some r \<longrightarrow>
        threads_wf r \<and> (\<forall>t \<in> set (threads r). t2p t = Some p) \<and>
        (\<forall>t \<in> fst ` set (dead_threads r). t2p t = None)) \<and>
     (\<forall>t p. t2p t = Some p \<longrightarrow> (\<exists>r. rm p = Some r \<and> t \<in> set (threads r)))"

definition sched_ok ::
  "('i, 't) task_manager \<Rightarrow> ('i \<rightharpoonup> 'x) \<Rightarrow> 'i option \<Rightarrow> bool" where
  "sched_ok m t2p cur \<longleftrightarrow>
     dom (tasks m) = dom t2p \<and> distinct (ready_queue m) \<and> set (ready_queue m) \<subseteq> dom t2p \<and>
     (\<forall>t. cur = Some t \<longrightarrow> t \<in> dom t2p \<and> t \<notin> set (ready_queue m))"

text \<open>
  \<open>tasks_ok\<close> is what survives any use of the ready queue: the entities are those of the live
  threads and the running thread is alive. \<open>sched_ok\<close> adds that the ready queue holds live
  threads, each once, and never the running one.
\<close>

definition tasks_ok ::
  "('i, 't) task_manager \<Rightarrow> ('i \<rightharpoonup> 'x) \<Rightarrow> 'i option \<Rightarrow> bool" where
  "tasks_ok m t2p cur \<longleftrightarrow> dom (tasks m) = dom t2p \<and> (\<forall>t. cur = Some t \<longrightarrow> t \<in> dom t2p)"

definition pt_ok :: "('p, 't) pt_manager \<Rightarrow> bool" where
  "pt_ok s \<longleftrightarrow>
     family_ok (rel_map s) \<and> threads_ok (rel_map s) (tid2pid s) \<and>
     (\<exists>pm. proc_manager s = Some pm \<and> dom (procs pm) = dom (rel_map s)) \<and>
     (\<exists>m. manager s = Some m \<and> tasks_ok m (tid2pid s) (current s))"

definition queue_ok :: "('p, 't) pt_manager \<Rightarrow> bool" where
  "queue_ok s \<longleftrightarrow> (\<exists>m. manager s = Some m \<and> sched_ok m (tid2pid s) (current s))"

definition fresh_tid :: "thread_id \<Rightarrow> (proc_id \<rightharpoonup> proc_thread_rel) \<Rightarrow> (thread_id \<rightharpoonup> proc_id) \<Rightarrow> bool" where
  "fresh_tid t rm t2p \<longleftrightarrow> t2p t = None \<and> (\<forall>p r. rm p = Some r \<longrightarrow> thread_status r t = None)"


lemma pt_okE:
  assumes "pt_ok s"
  obtains pm m where "family_ok (rel_map s)" "threads_ok (rel_map s) (tid2pid s)"
    "proc_manager s = Some pm" "dom (procs pm) = dom (rel_map s)"
    "manager s = Some m" "tasks_ok m (tid2pid s) (current s)"
  using assms by (auto simp: pt_ok_def)

lemma threads_okD:
  assumes "threads_ok rm t2p"
  shows "rm p = Some r \<Longrightarrow> threads_wf r"
    and "rm p = Some r \<Longrightarrow> t \<in> set (threads r) \<Longrightarrow> t2p t = Some p"
    and "rm p = Some r \<Longrightarrow> t \<in> fst ` set (dead_threads r) \<Longrightarrow> t2p t = None"
    and "t2p t = Some p \<Longrightarrow> \<exists>r. rm p = Some r \<and> t \<in> set (threads r)"
  using assms by (auto simp: threads_ok_def)

lemma pt_ok_new: "pt_ok (pt_set_proc_manager proc_table_new (pt_set_manager task_manager_new pt_new))"
  by (simp add: pt_ok_def pt_new_def pt_set_manager_def pt_set_proc_manager_def threads_ok_def
      tasks_ok_def task_manager_new_def proc_table_new_def)

section \<open>Local changes of a relation\<close>

lemma family_ok_upd:
  assumes ok: "family_ok m" and p: "m p = Some r"
    and core: "parent r' = parent r" "children r' = children r"
    and dead: "fst ` set (dead_children r') \<subseteq> fst ` set (dead_children r)"
    and wf: "children_wf r'"
  shows "family_ok (m(p \<mapsto> r'))"
proof -
  have node: "children_wf s \<and> parent s \<noteq> q \<and>
      (\<forall>c \<in> set (children s). \<exists>rc. (m(p \<mapsto> r')) c = Some rc \<and> parent rc = q) \<and>
      (\<forall>c \<in> fst ` set (dead_children s). (m(p \<mapsto> r')) c = None) \<and>
      (\<forall>pr. (m(p \<mapsto> r')) (parent s) = Some pr \<longrightarrow> q \<in> set (children pr))"
    if s: "(m(p \<mapsto> r')) q = Some s" for q s
  proof -
    obtain s0 where s0: "m q = Some s0" and same: "parent s = parent s0" "children s = children s0"
      and ds: "fst ` set (dead_children s) \<subseteq> fst ` set (dead_children s0)" and cw: "children_wf s"
      using s p core dead wf family_okD(1)[OF ok] by (auto split: if_splits)
    note D = family_okD[OF ok s0]
    have "\<exists>rc. (m(p \<mapsto> r')) c = Some rc \<and> parent rc = q" if "c \<in> set (children s)" for c
      using D(3)[of c] that same p core by auto
    moreover have "(m(p \<mapsto> r')) c = None" if "c \<in> fst ` set (dead_children s)" for c
    proof -
      have "c \<in> fst ` set (dead_children s0)" using that ds by blast
      then have "m c = None" by (rule D(4))
      with p show ?thesis by auto
    qed
    moreover have "q \<in> set (children pr)" if "(m(p \<mapsto> r')) (parent s) = Some pr" for pr
      using that D(5) same p core by (auto split: if_splits)
    ultimately show ?thesis using cw same D(2) by metis
  qed
  have top: "(m(p \<mapsto> r')) (parent s) = None" if s: "(m(p \<mapsto> r')) (ProcId 0) = Some s" for s
  proof -
    obtain s0 where s0: "m (ProcId 0) = Some s0" "parent s = parent s0"
      using s p core by (auto split: if_splits)
    with family_ok_root[OF ok s0(1)] p show ?thesis by auto
  qed
  show ?thesis unfolding family_ok_def using node top by blast
qed

lemma threads_ok_upd:
  assumes ok: "threads_ok rm t2p" and p: "rm p = Some r"
    and same: "threads r' = threads r"
    and dead: "fst ` set (dead_threads r') \<subseteq> fst ` set (dead_threads r)" and wf: "threads_wf r'"
  shows "threads_ok (rm(p \<mapsto> r')) t2p"
proof -
  note T = threads_okD[OF ok]
  have node: "threads_wf s \<and> (\<forall>t \<in> set (threads s). t2p t = Some q) \<and>
      (\<forall>t \<in> fst ` set (dead_threads s). t2p t = None)" if s: "(rm(p \<mapsto> r')) q = Some s" for q s
  proof (cases "q = p")
    case True
    with s have sr: "s = r'" by simp
    have "t2p t = None" if "t \<in> fst ` set (dead_threads r')" for t
      using subsetD[OF dead that] by (rule T(3)[OF p])
    with wf T(2)[OF p] show ?thesis by (simp add: sr True same)
  next
    case False
    with s have "rm q = Some s" by simp
    from T(1)[OF this] T(2)[OF this] T(3)[OF this] show ?thesis by simp
  qed
  have up: "\<exists>r. (rm(p \<mapsto> r')) q = Some r \<and> t \<in> set (threads r)" if "t2p t = Some q" for t q
    using T(4)[OF that] p same by auto
  show ?thesis
    unfolding threads_ok_def by (intro conjI allI impI node up)
qed

lemma threads_core [simp]:
  "parent (add_thread t r) = parent r" "children (add_thread t r) = children r"
  "dead_children (add_thread t r) = dead_children r"
  "parent (del_thread t e r) = parent r" "children (del_thread t e r) = children r"
  "dead_children (del_thread t e r) = dead_children r"
  by (simp_all add: add_thread_def del_thread_def Let_def split: option.splits)

lemma wait_core [simp]:
  "parent (snd (wait_thread t r)) = parent r" "children (snd (wait_thread t r)) = children r"
  "dead_children (snd (wait_thread t r)) = dead_children r"
  "threads (snd (wait_thread t r)) = threads r"
  "parent (snd (wait_child c q)) = parent q" "children (snd (wait_child c q)) = children q"
  "parent (snd (wait_any_child q)) = parent q" "children (snd (wait_any_child q)) = children q"
  by (simp_all add: wait_thread_def wait_child_def wait_any_child_def split: option.splits)

lemma wait_child_threads [simp]:
  "threads (snd (wait_child c r)) = threads r" "dead_threads (snd (wait_child c r)) = dead_threads r"
  "threads (snd (wait_any_child r)) = threads r"
  "dead_threads (snd (wait_any_child r)) = dead_threads r"
  by (simp_all add: wait_child_def wait_any_child_def split: option.splits)

lemma fst_remove_at: "fst ` set (remove_at k xs) \<subseteq> fst ` set xs"
  by (rule image_mono[OF set_remove_at_subset])

lemma fst_butlast: "fst ` set (butlast xs) \<subseteq> fst ` set xs"
  by (rule image_mono) (auto dest: in_set_butlastD)

lemma wait_dead_subset:
  "fst ` set (dead_children (snd (wait_child c q))) \<subseteq> fst ` set (dead_children q)"
  "fst ` set (dead_children (snd (wait_any_child q))) \<subseteq> fst ` set (dead_children q)"
  "fst ` set (dead_threads (snd (wait_thread t r))) \<subseteq> fst ` set (dead_threads r)"
  by (simp_all add: wait_child_def wait_any_child_def wait_thread_def fst_remove_at fst_butlast
      split: option.splits)

lemma children_wf_wait_any: "children_wf r \<Longrightarrow> children_wf (snd (wait_any_child r))"
  by (auto simp: children_wf_def family_wf_def wait_any_child_def map_butlast distinct_butlast
      dest: in_set_butlastD)

lemma children_wf_core_cong:
  "children r = children q \<Longrightarrow> dead_children r = dead_children q \<Longrightarrow>
     children_wf r \<longleftrightarrow> children_wf q"
  by (simp add: children_wf_def)

lemma threads_wf_core_cong:
  "threads r = threads q \<Longrightarrow> dead_threads r = dead_threads q \<Longrightarrow> threads_wf r \<longleftrightarrow> threads_wf q"
  by (simp add: threads_wf_def)

lemma del_thread_threads:
  "threads_wf r \<Longrightarrow> t \<in> set (threads r) \<Longrightarrow>
     threads (del_thread t e r) = remove1 t (threads r) \<and>
     dead_threads (del_thread t e r) = dead_threads r @ [(t, e)]"
proof -
  assume "t \<in> set (threads r)"
  then obtain k where k: "find_index (\<lambda>j. j = t) (threads r) = Some k"
    by (metis find_index_eq_None_iff not_None_eq)
  show ?thesis
    using find_index_SomeD[OF k] by (simp add: del_thread_def k remove_at_find_index[OF k])
qed

lemma leave_family_threads:
  fixes m :: "proc_id \<rightharpoonup> proc_thread_rel"
  assumes ok: "family_ok m" and cur: "m i = Some cur" and lv: "leave_family i e m = Inr m'"
  shows "p \<noteq> i \<Longrightarrow> m p = Some r \<Longrightarrow>
    \<exists>r'. m' p = Some r' \<and> threads r' = threads r \<and> dead_threads r' = dead_threads r"
proof -
  assume "p \<noteq> i" "m p = Some r"
  moreover have "can_leave i m" using leave_family_iff[OF ok] lv by blast
  ultimately show ?thesis
    using leave_family_eq[where m = m and i = i and cur = cur and e = e, OF ok cur] lv
    by (auto simp: told_parent_def)
qed

section \<open>Scheduling keeps the invariant\<close>

lemma fetch_ready_cases:
  obtains "ready_queue m = []" "fetch_ready m = (None, m)"
  | i "is" where "ready_queue m = i # is" "fetch_ready m = (Some i, m\<lparr>ready_queue := is\<rparr>)"
  by (cases "ready_queue m") (auto simp: fetch_ready_def)

lemma tasks_ok_queue [simp]:
  "tasks_ok (add_ready i m) t2p cur \<longleftrightarrow> tasks_ok m t2p cur"
  "tasks_ok (m\<lparr>ready_queue := is\<rparr>) t2p cur \<longleftrightarrow> tasks_ok m t2p cur"
  by (simp_all add: tasks_ok_def add_ready_def)

lemma tasks_ok_none: "tasks_ok m t2p cur \<Longrightarrow> tasks_ok m t2p None"
  by (simp add: tasks_ok_def)

lemma tasks_ok_run: "tasks_ok m t2p cur \<Longrightarrow> tasks m i = Some x \<Longrightarrow> tasks_ok m t2p (Some i)"
  by (auto simp: tasks_ok_def)

text \<open>
  The head of the ready queue is taken; it runs when it has an entity, and otherwise nothing
  runs and the rest of the queue stays.
\<close>

lemma pt_find_next_cases:
  assumes "pt_find_next s = Inr (t, s')" "manager s = Some m"
  obtains (idle) "ready_queue m = []" "t = None" "s' = s"
  | (stale) i "is" where "ready_queue m = i # is" "tasks m i = None" "t = None"
      "s' = s\<lparr>manager := Some (m\<lparr>ready_queue := is\<rparr>)\<rparr>"
  | (run) i "is" x where "ready_queue m = i # is" "tasks m i = Some x" "t = Some x"
      "s' = s\<lparr>manager := Some (m\<lparr>ready_queue := is\<rparr>), current := Some i\<rparr>"
proof (cases m rule: fetch_ready_cases)
  case 1
  have "s\<lparr>manager := Some m\<rparr> = s" using assms(2) by simp
  with 1 assms idle show ?thesis by (simp add: pt_find_next_def)
next
  case (2 i "is")
  show ?thesis
  proof (cases "tasks m i")
    case None
    with 2 assms stale show ?thesis by (simp add: pt_find_next_def get_task_def)
  next
    case (Some x)
    with 2 assms have "t = Some x" "s' = s\<lparr>manager := Some (m\<lparr>ready_queue := is\<rparr>), current := Some i\<rparr>"
      by (auto simp: pt_find_next_def get_task_def)
    with 2 Some show ?thesis by (intro run)
  qed
qed

lemma sched_ok_next:
  "sched_ok m t2p cur \<Longrightarrow> ready_queue m = i # is \<Longrightarrow> sched_ok (m\<lparr>ready_queue := is\<rparr>) t2p (Some i)"
  by (auto simp: sched_ok_def)

lemma sched_ok_none: "sched_ok m t2p cur \<Longrightarrow> sched_ok m t2p None"
  by (simp add: sched_ok_def)

lemma sched_ok_ready:
  "sched_ok m t2p cur \<Longrightarrow> i \<in> dom t2p \<Longrightarrow> i \<notin> set (ready_queue m) \<Longrightarrow> cur' = cur \<or> cur' = None \<Longrightarrow>
     cur' \<noteq> Some i \<Longrightarrow> sched_ok (add_ready i m) t2p cur'"
  by (auto simp: sched_ok_def add_ready_def)

lemma sched_ok_head: "sched_ok m t2p cur \<Longrightarrow> ready_queue m = i # is \<Longrightarrow> tasks m i \<noteq> None"
  by (auto simp: sched_ok_def)

lemma pt_find_next_ok:
  assumes "pt_ok s" "pt_find_next s = Inr (t, s')"
  shows "pt_ok s'" and "queue_ok s \<Longrightarrow> queue_ok s'"
proof -
  obtain m where m: "manager s = Some m" "tasks_ok m (tid2pid s) (current s)"
    using assms(1) by (auto simp: pt_ok_def)
  show "pt_ok s'"
    using assms(2) m(1) by (cases rule: pt_find_next_cases)
      (use assms(1) m in \<open>auto simp: pt_ok_def intro: tasks_ok_run\<close>)
  assume "queue_ok s"
  with m have q: "sched_ok m (tid2pid s) (current s)" by (simp add: queue_ok_def)
  show "queue_ok s'"
    using assms(2) m(1)
  proof (cases rule: pt_find_next_cases)
    case (stale i "is")
    with sched_ok_head[OF q] show ?thesis by simp
  qed (use q m in \<open>auto simp: queue_ok_def intro: sched_ok_next\<close>)
qed

lemma pt_suspend_ok:
  assumes "pt_ok s" "pt_make_current_suspend s = Inr s'"
  shows "pt_ok s'" and "queue_ok s \<Longrightarrow> queue_ok s'"
proof -
  show "pt_ok s'"
    using assms by (auto simp: pt_ok_def pt_make_current_suspend_def intro: tasks_ok_none split: option.splits)
  assume "queue_ok s"
  then obtain m where m: "manager s = Some m" "sched_ok m (tid2pid s) (current s)"
    by (auto simp: queue_ok_def)
  have "sched_ok (add_ready i m) (tid2pid s) None" if "current s = Some i" for i
    using that by (intro sched_ok_ready[OF m(2)]) (use m(2) in \<open>auto simp: sched_ok_def\<close>)
  with assms(2) m show "queue_ok s'"
    by (auto simp: queue_ok_def pt_make_current_suspend_def split: option.splits)
qed

lemma pt_blocked_ok:
  "pt_ok s \<Longrightarrow> pt_ok (pt_make_current_blocked s)"
  "queue_ok s \<Longrightarrow> queue_ok (pt_make_current_blocked s)"
  by (auto simp: pt_ok_def queue_ok_def pt_make_current_blocked_def
      intro: tasks_ok_none sched_ok_none split: option.splits)

text \<open>A thread that waits: alive, neither running nor ready.\<close>

definition parked :: "thread_id \<Rightarrow> ('p, 't) pt_manager \<Rightarrow> bool" where
  "parked t s \<longleftrightarrow> t \<in> dom (tid2pid s) \<and> current s \<noteq> Some t \<and>
     (\<forall>m. manager s = Some m \<longrightarrow> t \<notin> set (ready_queue m))"

lemma pt_re_enque_ok:
  assumes "pt_re_enque t s = Inr s'"
  shows "pt_ok s \<Longrightarrow> pt_ok s'" and "queue_ok s \<Longrightarrow> parked t s \<Longrightarrow> queue_ok s'"
proof -
  show "pt_ok s \<Longrightarrow> pt_ok s'" using assms by (auto simp: pt_ok_def pt_re_enque_def)
  assume "queue_ok s" and parked: "parked t s"
  then obtain m where m: "manager s = Some m" "sched_ok m (tid2pid s) (current s)"
    by (auto simp: queue_ok_def)
  have "sched_ok (add_ready t m) (tid2pid s) (current s)"
    using parked m(1) by (intro sched_ok_ready[OF m(2)]) (auto simp: parked_def)
  with assms m show "queue_ok s'" by (auto simp: queue_ok_def pt_re_enque_def)
qed

section \<open>Creating processes and threads keeps the invariant\<close>

lemma pt_add_ok:
  assumes ok: "pt_ok s" and fresh: "fresh_tid t (rel_map s) (tid2pid s)"
    and p: "rel_map s p = Some r" and s': "pt_add t task p s = Inr s'"
  shows "pt_ok s'"
proof -
  obtain pm m where st: "family_ok (rel_map s)" "threads_ok (rel_map s) (tid2pid s)"
    "proc_manager s = Some pm" "dom (procs pm) = dom (rel_map s)"
    "manager s = Some m" "tasks_ok m (tid2pid s) (current s)"
    using ok by (rule pt_okE)
  have t: "tid2pid s t = None" "\<And>q r. rel_map s q = Some r \<Longrightarrow> thread_status r t = None"
    using fresh by (auto simp: fresh_tid_def)
  then have new: "t \<notin> set (threads r)" "t \<notin> fst ` set (dead_threads r)" if "rel_map s q = Some r" for q r
    using that by (auto simp: thread_status_def status_of_None_iff)
  have s'_eq: "s' = s\<lparr>manager := Some (add_ready t (insert_task t task m)),
      rel_map := (rel_map s)(p \<mapsto> add_thread t r), tid2pid := (tid2pid s)(t \<mapsto> p)\<rparr>"
    using s' st p by (simp add: pt_add_def Let_def)
  have fam: "family_ok ((rel_map s)(p \<mapsto> add_thread t r))"
    using family_okD(1)[OF st(1) p]
    by (intro family_ok_upd[OF st(1) p]) (auto simp: children_wf_def)
  have thr: "threads_ok ((rel_map s)(p \<mapsto> add_thread t r)) ((tid2pid s)(t \<mapsto> p))"
    unfolding threads_ok_def
  proof (intro conjI allI impI)
    fix q u assume u: "((rel_map s)(p \<mapsto> add_thread t r)) q = Some u"
    show "threads_wf u"
      using u threads_okD(1)[OF st(2)] p pthreads.wf_enrol t(2)[OF p] by (auto split: if_splits)
    show "\<forall>x \<in> set (threads u). ((tid2pid s)(t \<mapsto> p)) x = Some q"
      using u threads_okD(2)[OF st(2)] p new[of q] by (auto simp: add_thread_def split: if_splits)
    show "\<forall>x \<in> fst ` set (dead_threads u). ((tid2pid s)(t \<mapsto> p)) x = None"
    proof
      fix x assume x: "x \<in> fst ` set (dead_threads u)"
      obtain u0 where u0: "rel_map s q = Some u0" "dead_threads u = dead_threads u0"
        using u p by (auto simp: add_thread_def split: if_splits)
      with x have xd: "x \<in> fst ` set (dead_threads u0)" by simp
      then have "x \<noteq> t" using new(2)[OF u0(1)] by blast
      with threads_okD(3)[OF st(2) u0(1) xd] show "((tid2pid s)(t \<mapsto> p)) x = None" by simp
    qed
  next
    fix x q assume "((tid2pid s)(t \<mapsto> p)) x = Some q"
    then show "\<exists>u. ((rel_map s)(p \<mapsto> add_thread t r)) q = Some u \<and> x \<in> set (threads u)"
      using threads_okD(4)[OF st(2), of x q] p by (auto simp: add_thread_def split: if_splits)
  qed
  have "tasks_ok (add_ready t (insert_task t task m)) ((tid2pid s)(t \<mapsto> p)) (current s)"
    using st(6) by (auto simp: tasks_ok_def add_ready_def insert_task_def)
  with fam thr st p show ?thesis
    by (auto simp: pt_ok_def s'_eq)
qed

lemma pt_add_proc_ok:
  assumes ok: "pt_ok s" and fresh: "fresh_pid i (rel_map s)" and pi: "p \<noteq> i"
    and root: "i = ProcId 0 \<Longrightarrow> rel_map s p = None" and s': "pt_add_proc i proc p s = Inr s'"
  shows "pt_ok s'"
proof -
  obtain pm m where st: "family_ok (rel_map s)" "threads_ok (rel_map s) (tid2pid s)"
    "proc_manager s = Some pm" "dom (procs pm) = dom (rel_map s)"
    "manager s = Some m" "tasks_ok m (tid2pid s) (current s)"
    using ok by (rule pt_okE)
  let ?rm = "join_family i p (proc_thread_rel_new p) (rel_map s)"
  have new: "rel_map s i = None" using fresh by (simp add: fresh_pid_def)
  have look: "?rm q = (if q = i then Some (proc_thread_rel_new p)
      else if q = p then map_option (add_child i) (rel_map s p) else rel_map s q)" for q
    using pi by (simp add: join_family_def split: option.splits)
  have rel_i: "?rm i = Some (proc_thread_rel_new p)" by (simp add: look)
  have fam: "family_ok ?rm"
    by (rule family_ok_join[OF st(1) fresh pi]) (simp_all add: proc_thread_rel_new_def root)
  have old: "\<exists>r. rel_map s q = Some r \<and> threads u = threads r \<and> dead_threads u = dead_threads r"
    if "?rm q = Some u" "q \<noteq> i" for q u
    using that by (auto simp: look split: if_splits)
  have thr: "threads_ok ?rm (tid2pid s)"
    unfolding threads_ok_def
  proof (intro conjI allI impI)
    fix q u assume u: "?rm q = Some u"
    show "threads_wf u"
    proof (cases "q = i")
      case False
      with old[OF u] threads_okD(1)[OF st(2)] show ?thesis by (metis threads_wf_core_cong)
    qed (use u rel_i in \<open>auto simp: proc_thread_rel_new_def threads_wf_def family_wf_def\<close>)
    show "\<forall>x \<in> set (threads u). tid2pid s x = Some q"
    proof (cases "q = i")
      case True
      with u rel_i have "u = proc_thread_rel_new p" by simp
      then show ?thesis by (simp add: proc_thread_rel_new_def)
    next
      case False
      with old[OF u] threads_okD(2)[OF st(2), of q] show ?thesis by auto
    qed
    show "\<forall>x \<in> fst ` set (dead_threads u). tid2pid s x = None"
    proof
      fix x assume x: "x \<in> fst ` set (dead_threads u)"
      have "q \<noteq> i"
      proof
        assume "q = i"
        with u rel_i have "u = proc_thread_rel_new p" by simp
        with x show False by (simp add: proc_thread_rel_new_def)
      qed
      with old[OF u] obtain r where "rel_map s q = Some r" "dead_threads u = dead_threads r" by blast
      with x threads_okD(3)[OF st(2)] show "tid2pid s x = None" by simp
    qed
  next
    fix x q assume "tid2pid s x = Some q"
    from threads_okD(4)[OF st(2) this] obtain r where r: "rel_map s q = Some r" "x \<in> set (threads r)"
      by blast
    then show "\<exists>u. ?rm q = Some u \<and> x \<in> set (threads u)" using new by (auto simp: look)
  qed
  have "dom (procs (insert_proc i proc pm)) = dom ?rm"
    using st(4) by (auto simp: insert_proc_def look dom_def)
  with fam thr st s' show ?thesis
    by (auto simp: pt_ok_def pt_add_proc_def)
qed

section \<open>Waiting keeps the invariant\<close>

lemma pt_ok_rel_upd:
  assumes ok: "pt_ok s" and p: "rel_map s p = Some r"
    and core: "parent r' = parent r" "children r' = children r" "threads r' = threads r"
    and dead: "fst ` set (dead_children r') \<subseteq> fst ` set (dead_children r)"
      "fst ` set (dead_threads r') \<subseteq> fst ` set (dead_threads r)"
    and wf: "children_wf r'" "threads_wf r'"
  shows "pt_ok (s\<lparr>rel_map := (rel_map s)(p \<mapsto> r')\<rparr>)"
proof -
  obtain pm m where st: "family_ok (rel_map s)" "threads_ok (rel_map s) (tid2pid s)"
    "proc_manager s = Some pm" "dom (procs pm) = dom (rel_map s)"
    "manager s = Some m" "tasks_ok m (tid2pid s) (current s)"
    using ok by (rule pt_okE)
  have "family_ok ((rel_map s)(p \<mapsto> r'))"
    by (rule family_ok_upd[OF st(1) p core(1,2) dead(1) wf(1)])
  moreover have "threads_ok ((rel_map s)(p \<mapsto> r')) (tid2pid s)"
    by (rule threads_ok_upd[OF st(2) p core(3) dead(2) wf(2)])
  ultimately show ?thesis using st p by (auto simp: pt_ok_def)
qed

lemma pt_current_rel:
  assumes "pt_ok s" "current s = Some t"
  obtains p r where "tid2pid s t = Some p" "rel_map s p = Some r" "t \<in> set (threads r)"
    "children_wf r" "threads_wf r"
proof -
  have "t \<in> dom (tid2pid s)" using assms by (auto simp: pt_ok_def tasks_ok_def)
  then obtain p where p: "tid2pid s t = Some p" by blast
  have T: "threads_ok (rel_map s) (tid2pid s)" and F: "family_ok (rel_map s)"
    using assms(1) by (auto simp: pt_ok_def)
  from threads_okD(4)[OF T p] obtain r where r: "rel_map s p = Some r" "t \<in> set (threads r)"
    by blast
  from that[OF p r] threads_okD(1)[OF T r(1)] family_okD(1)[OF F r(1)] show ?thesis by blast
qed

lemma pt_wait_eq:
  assumes "current s = Some t" "tid2pid s t = Some p" "rel_map s p = Some r"
  shows "pt_wait c s =
     (let w = (if pid_get_usize c = usize_max then wait_any_child r else wait_child c r)
      in Inr (fst w, s\<lparr>rel_map := (rel_map s)(p \<mapsto> snd w)\<rparr>))"
  using assms by (simp add: pt_wait_def pt_wait_any_child_def pt_wait_child_def Let_def case_prod_beta)

lemma pt_waittid_eq:
  assumes "current s = Some t" "tid2pid s t = Some p" "rel_map s p = Some r"
  shows "pt_waittid u s =
     Inr (fst (wait_thread u r), s\<lparr>rel_map := (rel_map s)(p \<mapsto> snd (wait_thread u r))\<rparr>)"
  using assms by (simp add: pt_waittid_def Let_def case_prod_beta)

lemma pt_wait_ok:
  assumes ok: "pt_ok s" and cur: "current s = Some t"
  shows "\<exists>a s'. pt_wait c s = Inr (a, s') \<and> pt_ok s'"
proof -
  obtain p r where R: "tid2pid s t = Some p" "rel_map s p = Some r" "t \<in> set (threads r)"
    "children_wf r" "threads_wf r"
    by (rule pt_current_rel[OF ok cur])
  let ?w = "if pid_get_usize c = usize_max then wait_any_child r else wait_child c r"
  have "threads_wf (snd ?w)" "children_wf (snd ?w)"
    using R(4,5) kids.wf_await[OF R(4), of c] children_wf_wait_any[OF R(4)]
    by (auto simp: threads_wf_def)
  then have "pt_ok (s\<lparr>rel_map := (rel_map s)(p \<mapsto> snd ?w)\<rparr>)"
    using wait_dead_subset(1)[of c r] wait_dead_subset(2)[of r]
    by (intro pt_ok_rel_upd[OF ok R(2)]) (auto split: if_splits)
  then show ?thesis
    unfolding pt_wait_eq[OF cur R(1,2)] Let_def by blast
qed

lemma pt_waittid_ok:
  assumes ok: "pt_ok s" and cur: "current s = Some t"
  shows "\<exists>a s'. pt_waittid u s = Inr (a, s') \<and> pt_ok s'"
proof -
  obtain p r where R: "tid2pid s t = Some p" "rel_map s p = Some r" "t \<in> set (threads r)"
    "children_wf r" "threads_wf r"
    by (rule pt_current_rel[OF ok cur])
  have "pt_ok (s\<lparr>rel_map := (rel_map s)(p \<mapsto> snd (wait_thread u r))\<rparr>)"
    using R(4) pthreads.wf_await[OF R(5), of u] wait_dead_subset(3)[of u r]
    by (intro pt_ok_rel_upd[OF ok R(2)]) (auto simp: children_wf_def)
  then show ?thesis unfolding pt_waittid_eq[OF cur R(1,2)] by blast
qed

section \<open>Exit\<close>

text \<open>
  A thread's exit is one of two things: the process keeps other threads and only records
  the exit code, or it was the last one and the process leaves the family tree. The exit
  panics exactly when the last thread exits and nobody can adopt the children.
\<close>

definition exit_rel :: "thread_id \<Rightarrow> isize \<Rightarrow> proc_id \<Rightarrow> (proc_id \<rightharpoonup> proc_thread_rel) \<Rightarrow> (proc_id \<rightharpoonup> proc_thread_rel)" where
  "exit_rel t e p rm = (case rm p of Some r \<Rightarrow> rm(p \<mapsto> del_thread t e r) | None \<Rightarrow> rm)"

lemma pt_exit_eq:
  assumes ok: "pt_ok s" and cur: "current s = Some t"
    and p: "tid2pid s t = Some p" and r: "rel_map s p = Some r"
    and pm: "proc_manager s = Some pm" and m: "manager s = Some m"
  shows "pt_make_current_exited e s =
    (if threads r = [t] then
       bind_res (leave_family p e (exit_rel t e p (rel_map s))) (\<lambda>rm.
         Inr (s\<lparr>proc_manager := Some (delete_proc p pm), rel_map := rm,
                manager := Some (delete_task t m), tid2pid := (tid2pid s)(t := None), current := None\<rparr>))
     else Inr (s\<lparr>rel_map := exit_rel t e p (rel_map s), manager := Some (delete_task t m),
                tid2pid := (tid2pid s)(t := None), current := None\<rparr>))"
proof -
  have T: "threads_ok (rel_map s) (tid2pid s)" using ok by (simp add: pt_ok_def)
  have mem: "t \<in> set (threads r)" and wf: "threads_wf r"
    using threads_okD(4)[OF T p] threads_okD(1)[OF T r] r by auto
  have dist: "distinct (threads r)" using wf by (simp add: threads_wf_def family_wf_def)
  have "threads (del_thread t e r) = [] \<longleftrightarrow> threads r = [t]"
    using del_thread_threads[OF wf mem, of e] dist mem
    by (cases "threads r") (auto simp: remove1_idem)
  then show ?thesis
    using cur p r pm m
    by (auto simp: pt_make_current_exited_def Let_def exit_rel_def pt_del_proc_def
        bind_res_assoc intro!: bind_res_cong)
qed

lemma exit_rel_core:
  assumes "rm p = Some r"
  shows "family_ok rm \<Longrightarrow> family_ok (exit_rel t e p rm)"
    and "can_leave i (exit_rel t e p rm) \<longleftrightarrow> can_leave i rm"
proof -
  show "can_leave i (exit_rel t e p rm) \<longleftrightarrow> can_leave i rm"
    using assms by (auto simp: exit_rel_def can_leave_def split: option.splits)
  assume ok: "family_ok rm"
  show "family_ok (exit_rel t e p rm)"
    using family_okD(1)[OF ok assms] assms
    by (auto simp: exit_rel_def children_wf_def intro!: family_ok_upd[OF ok assms])
qed

lemma threads_ok_exit:
  assumes ok: "threads_ok rm t2p" and p: "t2p t = Some p" and r: "rm p = Some r"
  shows "threads_ok (exit_rel t e p rm) (t2p(t := None))"
proof -
  note T = threads_okD[OF ok]
  have wf: "threads_wf r" and mem: "t \<in> set (threads r)" using T(1)[OF r] T(4)[OF p] r by auto
  have dist: "distinct (threads r)" using wf by (simp add: threads_wf_def family_wf_def)
  have th: "set (threads (del_thread t e r)) = set (threads r) - {t}"
    and dd: "fst ` set (dead_threads (del_thread t e r)) = insert t (fst ` set (dead_threads r))"
    using del_thread_threads[OF wf mem, of e] dist by (auto simp: set_remove1_eq)
  have look: "exit_rel t e p rm q = (if q = p then Some (del_thread t e r) else rm q)" for q
    using r by (simp add: exit_rel_def)
  show ?thesis
    unfolding threads_ok_def
  proof (intro conjI allI impI)
    fix q u assume u: "exit_rel t e p rm q = Some u"
    show "threads_wf u"
      using u T(1) pthreads.wf_exit[OF wf, of t e] by (auto simp: look split: if_splits)
    show "\<forall>x \<in> set (threads u). (t2p(t := None)) x = Some q"
    proof
      fix x assume x: "x \<in> set (threads u)"
      show "(t2p(t := None)) x = Some q"
      proof (cases "q = p")
        case True
        with u x th have "x \<in> set (threads r)" "x \<noteq> t" by (auto simp: look)
        with T(2)[OF r] True show ?thesis by simp
      next
        case False
        with u x have "t2p x = Some q" by (auto simp: look intro: T(2))
        with False p show ?thesis by auto
      qed
    qed
    show "\<forall>x \<in> fst ` set (dead_threads u). (t2p(t := None)) x = None"
    proof
      fix x assume x: "x \<in> fst ` set (dead_threads u)"
      show "(t2p(t := None)) x = None"
      proof (cases "q = p")
        case True
        with u have "u = del_thread t e r" by (simp add: look)
        with x dd have "x = t \<or> x \<in> fst ` set (dead_threads r)" by simp
        with T(3)[OF r] show ?thesis by auto
      next
        case False
        with u have "rm q = Some u" by (simp add: look)
        with T(3)[OF this x] show ?thesis by simp
      qed
    qed
  next
    fix x q assume "(t2p(t := None)) x = Some q"
    then have x: "x \<noteq> t" "t2p x = Some q" by (auto split: if_splits)
    from T(4)[OF x(2)] obtain u where u: "rm q = Some u" "x \<in> set (threads u)" by blast
    show "\<exists>u. exit_rel t e p rm q = Some u \<and> x \<in> set (threads u)"
    proof (cases "q = p")
      case True
      with u r x(1) th have "x \<in> set (threads (del_thread t e r))" by simp
      with True show ?thesis by (simp add: look)
    next
      case False
      with u show ?thesis by (simp add: look)
    qed
  qed
qed

lemma threads_ok_leave:
  assumes fam: "family_ok rm" and ok: "threads_ok rm t2p" and r: "rm p = Some r"
    and none: "threads r = []" and lv: "leave_family p e rm = Inr rm'"
  shows "threads_ok rm' t2p"
proof -
  note T = threads_okD[OF ok]
  note gone = leave_family_entry(1)[OF fam r lv]
  have from_old: "\<exists>v. rm q = Some v \<and> threads u = threads v \<and> dead_threads u = dead_threads v"
    if u: "rm' q = Some u" for q u
  proof -
    have q: "q \<noteq> p" using u gone by auto
    then have "rm q \<noteq> None"
      using leave_family_entry(3)[OF fam r lv q] u by auto
    then obtain v where v: "rm q = Some v" by blast
    with leave_family_threads[OF fam r lv q v] u show ?thesis by auto
  qed
  show ?thesis
    unfolding threads_ok_def
  proof (intro conjI allI impI)
    fix q u assume "rm' q = Some u"
    then obtain v where v: "rm q = Some v" and eq: "threads u = threads v" "dead_threads u = dead_threads v"
      using from_old by blast
    show "threads_wf u" using T(1)[OF v] eq by (simp add: threads_wf_def)
    show "\<forall>x \<in> set (threads u). t2p x = Some q" using T(2)[OF v] eq by simp
    show "\<forall>x \<in> fst ` set (dead_threads u). t2p x = None" using T(3)[OF v] eq by simp
  next
    fix x q assume "t2p x = Some q"
    from T(4)[OF this] obtain u where u: "rm q = Some u" "x \<in> set (threads u)" by blast
    then have q: "q \<noteq> p" using r none by auto
    from leave_family_threads[OF fam r lv q u(1)] u(2)
    show "\<exists>u. rm' q = Some u \<and> x \<in> set (threads u)" by auto
  qed
qed

lemma sched_ok_exit:
  "sched_ok m t2p (Some t) \<Longrightarrow> sched_ok (delete_task t m) (t2p(t := None)) None"
  by (auto simp: sched_ok_def delete_task_def)

definition exit_possible :: "('p, 't) pt_manager \<Rightarrow> bool" where
  "exit_possible s \<longleftrightarrow>
     (\<forall>t p r. current s = Some t \<longrightarrow> tid2pid s t = Some p \<longrightarrow> rel_map s p = Some r \<longrightarrow>
        threads r = [t] \<longrightarrow> can_leave p (rel_map s))"

lemma pt_exit_ok:
  assumes ok: "pt_ok s" and ex: "pt_make_current_exited e s = Inr s'"
  shows "pt_ok s'"
proof (cases "current s")
  case None
  with ok ex show ?thesis by (simp add: pt_make_current_exited_def)
next
  case cur: (Some t)
  obtain pm m where st: "family_ok (rel_map s)" "threads_ok (rel_map s) (tid2pid s)"
    "proc_manager s = Some pm" "dom (procs pm) = dom (rel_map s)"
    "manager s = Some m" "tasks_ok m (tid2pid s) (current s)"
    using ok by (rule pt_okE)
  obtain p r where R: "tid2pid s t = Some p" "rel_map s p = Some r" "t \<in> set (threads r)"
    "children_wf r" "threads_wf r"
    by (rule pt_current_rel[OF ok cur])
  let ?x = "exit_rel t e p (rel_map s)"
  note eq = pt_exit_eq[OF ok cur R(1,2) st(3,5), of e]
  have fam: "family_ok ?x" by (rule exit_rel_core(1)[OF R(2) st(1)])
  have thr: "threads_ok ?x ((tid2pid s)(t := None))"
    by (rule threads_ok_exit[OF st(2) R(1,2)])
  have sch: "tasks_ok (delete_task t m) ((tid2pid s)(t := None)) None"
    using st(6) by (auto simp: tasks_ok_def delete_task_def)
  have domx: "dom ?x = dom (rel_map s)" using R(2) by (auto simp: exit_rel_def)
  show ?thesis
  proof (cases "threads r = [t]")
    case False
    then have "s' = s\<lparr>rel_map := ?x, manager := Some (delete_task t m),
        tid2pid := (tid2pid s)(t := None), current := None\<rparr>"
      using ex eq by simp
    with fam thr sch st(3,4) domx show ?thesis by (simp add: pt_ok_def)
  next
    case True
    then obtain rm where lv: "leave_family p e ?x = Inr rm" and
      s': "s' = s\<lparr>proc_manager := Some (delete_proc p pm), rel_map := rm,
        manager := Some (delete_task t m), tid2pid := (tid2pid s)(t := None), current := None\<rparr>"
      using ex eq by (auto simp: bind_res_eq_Inr)
    have xp: "?x p = Some (del_thread t e r)" using R(2) by (simp add: exit_rel_def)
    have none: "threads (del_thread t e r) = []"
      using del_thread_threads[OF R(5,3), of e] True by simp
    have f2: "family_ok rm" by (rule family_ok_leave[OF fam lv])
    have t2: "threads_ok rm ((tid2pid s)(t := None))"
      by (rule threads_ok_leave[OF fam thr xp none lv])
    have "q \<in> dom rm \<longleftrightarrow> q \<in> dom ?x - {p}" for q
      using leave_family_entry(1)[OF fam xp lv] leave_family_entry(2)[OF fam xp lv, of q]
        leave_family_entry(3)[OF fam xp lv, of q]
      by (cases "q = p"; cases "?x q") auto
    then have "dom (procs (delete_proc p pm)) = dom rm"
      using st(4) domx by (auto simp: delete_proc_def)
    with f2 t2 sch show ?thesis by (simp add: pt_ok_def s')
  qed
qed

lemma pt_exit_panics_iff:
  assumes ok: "pt_ok s"
  shows "(\<exists>x. pt_make_current_exited e s = Inl x) \<longleftrightarrow> \<not> exit_possible s"
    and "pt_make_current_exited e s = Inl x \<Longrightarrow> x = UnwrapNone"
proof -
  have "(\<exists>s'. pt_make_current_exited e s = Inr s') \<and> exit_possible s \<or>
        pt_make_current_exited e s = Inl UnwrapNone \<and> \<not> exit_possible s"
  proof (cases "current s")
    case None
    then show ?thesis by (simp add: pt_make_current_exited_def exit_possible_def)
  next
    case cur: (Some t)
    obtain pm m where st: "family_ok (rel_map s)" "threads_ok (rel_map s) (tid2pid s)"
      "proc_manager s = Some pm" "dom (procs pm) = dom (rel_map s)"
      "manager s = Some m" "tasks_ok m (tid2pid s) (current s)"
      using ok by (rule pt_okE)
    obtain p r where R: "tid2pid s t = Some p" "rel_map s p = Some r" "t \<in> set (threads r)"
      "children_wf r" "threads_wf r"
      by (rule pt_current_rel[OF ok cur])
    let ?x = "exit_rel t e p (rel_map s)"
    note eq = pt_exit_eq[OF ok cur R(1,2) st(3,5), of e]
    have fam: "family_ok ?x" by (rule exit_rel_core(1)[OF R(2) st(1)])
    have can: "can_leave p ?x \<longleftrightarrow> can_leave p (rel_map s)"
      by (rule exit_rel_core(2)) (rule R(2))
    have poss: "exit_possible s \<longleftrightarrow> (threads r = [t] \<longrightarrow> can_leave p (rel_map s))"
      using cur R(1,2) by (auto simp: exit_possible_def)
    show ?thesis
    proof (cases "threads r = [t] \<and> \<not> can_leave p (rel_map s)")
      case True
      with leave_family_panics[OF fam, of p e] can eq poss show ?thesis by simp
    next
      case False
      then have e2: "exit_possible s" using poss by blast
      have "\<exists>s'. pt_make_current_exited e s = Inr s'"
        using False leave_family_iff[OF fam, of p e] can unfolding eq by auto
      with e2 show ?thesis by blast
    qed
  qed
  then show "(\<exists>x. pt_make_current_exited e s = Inl x) \<longleftrightarrow> \<not> exit_possible s"
    and "pt_make_current_exited e s = Inl x \<Longrightarrow> x = UnwrapNone" by auto
qed

section \<open>From an exit to the wait\<close>

lemma leave_family_status:
  assumes ok: "family_ok m" and cur: "m i = Some cur" and pr: "m (parent cur) = Some pr"
    and lv: "leave_family i e m = Inr m'"
  obtains pr' where "m' (parent cur) = Some pr'" "children_wf pr'"
    "child_status pr' i = Some (Exited e)" "dead_children pr' = dead_children pr @ [(i, e)]"
proof -
  have pi: "parent cur \<noteq> i" by (rule family_okD(2)[OF ok cur])
  obtain pr' where pr': "m' (parent cur) = Some pr'"
    and dead: "dead_children pr' = dead_children pr @ [(i, e)]"
    using leave_family_entry(2)[OF ok cur lv pi pr] by auto
  have wf: "children_wf pr'" by (rule family_okD(1)[OF family_ok_leave[OF ok lv] pr'])
  have "i \<notin> fst ` set (dead_children pr)"
    using family_okD(4)[OF ok pr, of i] cur by auto
  then have "map_of (dead_children pr) i = None" by (simp add: map_of_eq_None_iff)
  then have "child_status pr' i = Some (Exited e)"
    by (simp add: child_status_def status_of_Exited_iff dead map_add_def)
  with that[OF pr' wf] dead show ?thesis by blast
qed

lemma pt_wait_of_status:
  assumes cur: "current s = Some u" "tid2pid s u = Some q" "rel_map s q = Some r"
    and wf: "children_wf r" and st: "child_status r c = Some (Exited e)"
    and c: "c \<noteq> ProcId usize_max"
  shows "\<exists>s'. pt_wait c s = Inr (Some (c, e), s') \<and> pt_wait c s' = Inr (None, s')"
proof -
  let ?r' = "snd (wait_child c r)"
  let ?s' = "s\<lparr>rel_map := (rel_map s)(q \<mapsto> ?r')\<rparr>"
  have nc: "pid_get_usize c \<noteq> usize_max" using c by (cases c) auto
  have first: "pt_wait c s = Inr (Some (c, e), ?s')"
    using nc kids.await_exited[OF wf st] by (simp add: pt_wait_eq[OF cur] Let_def)
  have "child_status ?r' c = None" using kids.status_await[OF wf st] by simp
  from kids.await_absent[OF kids.wf_await[OF wf] this]
  have none: "wait_child c ?r' = (None, ?r')" .
  have cur': "current ?s' = Some u" "tid2pid ?s' u = Some q" "rel_map ?s' q = Some ?r'"
    using cur by simp_all
  have "pt_wait c ?s' = Inr (None, ?s')"
    using nc by (simp add: pt_wait_eq[OF cur'] none)
  with first show ?thesis by blast
qed

lemma pt_exit_tells_parent:
  assumes ok: "pt_ok s" and cur: "current s = Some t" "tid2pid s t = Some p" "rel_map s p = Some r"
    and last: "threads r = [t]" and par: "rel_map s (parent r) = Some pr"
    and ex: "pt_make_current_exited e s = Inr s'"
  obtains pr' where "rel_map s' (parent r) = Some pr'" "children_wf pr'"
    "child_status pr' p = Some (Exited e)" "dead_children pr' = dead_children pr @ [(p, e)]"
    "rel_map s' p = None" "pt_get_proc p s' = Inr None"
proof -
  obtain pm m where st: "family_ok (rel_map s)" "proc_manager s = Some pm" "manager s = Some m"
    using ok by (rule pt_okE)
  let ?x = "exit_rel t e p (rel_map s)"
  have fam: "family_ok ?x" by (rule exit_rel_core(1)[OF cur(3) st(1)])
  have pp: "parent r \<noteq> p" by (rule family_okD(2)[OF st(1) cur(3)])
  have xp: "?x p = Some (del_thread t e r)" and xq: "?x (parent (del_thread t e r)) = Some pr"
    using cur(3) par pp by (auto simp: exit_rel_def)
  obtain rm where lv: "leave_family p e ?x = Inr rm" and
      s': "s' = s\<lparr>proc_manager := Some (delete_proc p pm), rel_map := rm,
        manager := Some (delete_task t m), tid2pid := (tid2pid s)(t := None), current := None\<rparr>"
    using ex pt_exit_eq[OF ok cur st(2,3), of e] last by (auto simp: bind_res_eq_Inr)
  obtain pr' where pr': "rm (parent (del_thread t e r)) = Some pr'" "children_wf pr'"
    "child_status pr' p = Some (Exited e)" "dead_children pr' = dead_children pr @ [(p, e)]"
    by (rule leave_family_status[OF fam xp xq lv])
  have "rm p = None" by (rule leave_family_entry(1)[OF fam xp lv])
  with pr' that show ?thesis
    by (simp add: s' pt_get_proc_def get_proc_entry_def delete_proc_def)
qed

lemma pt_waittid_of_status:
  assumes cur: "current s = Some u" "tid2pid s u = Some q" "rel_map s q = Some r"
    and wf: "threads_wf r" and st: "thread_status r t = Some (Exited e)"
  shows "\<exists>s'. pt_waittid t s = Inr (Some e, s') \<and> pt_waittid t s' = Inr (None, s')"
proof -
  let ?r' = "snd (wait_thread t r)"
  let ?s' = "s\<lparr>rel_map := (rel_map s)(q \<mapsto> ?r')\<rparr>"
  have first: "pt_waittid t s = Inr (Some e, ?s')"
    using pthreads.await_exited[OF wf st] by (simp add: pt_waittid_eq[OF cur])
  have "thread_status ?r' t = None" using pthreads.status_await[OF wf st] by simp
  from pthreads.await_absent[OF pthreads.wf_await[OF wf] this]
  have none: "wait_thread t ?r' = (None, ?r')" .
  have cur': "current ?s' = Some u" "tid2pid ?s' u = Some q" "rel_map ?s' q = Some ?r'"
    using cur by simp_all
  have "pt_waittid t ?s' = Inr (None, ?s')"
    by (simp add: pt_waittid_eq[OF cur'] none)
  with first show ?thesis by blast
qed

lemma pt_exit_keeps_process:
  assumes ok: "pt_ok s" and cur: "current s = Some t" "tid2pid s t = Some p" "rel_map s p = Some r"
    and more: "threads r \<noteq> [t]"
  obtains s' where "pt_make_current_exited e s = Inr s'" "rel_map s' p = Some (del_thread t e r)"
    "tid2pid s' = (tid2pid s)(t := None)" "threads_wf (del_thread t e r)"
    "thread_status (del_thread t e r) t = Some (Exited e)"
proof -
  obtain pm m where st: "threads_ok (rel_map s) (tid2pid s)" "proc_manager s = Some pm" "manager s = Some m"
    using ok by (rule pt_okE)
  have wf: "threads_wf r" and mem: "t \<in> set (threads r)"
    using threads_okD(1)[OF st(1) cur(3)] threads_okD(4)[OF st(1) cur(2)] cur(3) by auto
  have "thread_status r t = Some Running"
    using wf mem by (simp add: thread_status_def threads_wf_def status_of_Running_iff)
  then have "thread_status (del_thread t e r) t = Some (Exited e)"
    using pthreads.status_exit[OF wf, of t e] by simp
  with that pt_exit_eq[OF ok cur st(2,3), of e] more pthreads.wf_exit[OF wf] cur(3)
  show ?thesis by (simp add: exit_rel_def)
qed

section \<open>The ready queue\<close>

lemma queue_ok_cong:
  "manager s' = manager s \<Longrightarrow> tid2pid s' = tid2pid s \<Longrightarrow> current s' = current s \<Longrightarrow>
     queue_ok s' \<longleftrightarrow> queue_ok s"
  by (simp add: queue_ok_def)

lemma pt_add_keeps_queue:
  assumes "queue_ok s" "tid2pid s t = None" "rel_map s p = Some r" "pt_add t task p s = Inr s'"
  shows "queue_ok s'"
proof -
  obtain m where m: "manager s = Some m" "sched_ok m (tid2pid s) (current s)"
    using assms(1) by (auto simp: queue_ok_def)
  then have "sched_ok (add_ready t (insert_task t task m)) ((tid2pid s)(t \<mapsto> p)) (current s)"
    using assms(2) by (auto simp: sched_ok_def add_ready_def insert_task_def)
  with assms(3,4) m(1) show ?thesis by (auto simp: pt_add_def Let_def queue_ok_def)
qed

lemma pt_add_proc_queue: "pt_add_proc i proc p s = Inr s' \<Longrightarrow> queue_ok s \<Longrightarrow> queue_ok s'"
  by (auto simp: pt_add_proc_def bind_res_eq_Inr queue_ok_def)

lemma pt_wait_queue:
  "pt_wait c s = Inr (a, s') \<Longrightarrow> queue_ok s \<Longrightarrow> queue_ok s'"
  "pt_waittid u s = Inr (b, s') \<Longrightarrow> queue_ok s \<Longrightarrow> queue_ok s'"
  by (auto simp: pt_wait_def pt_waittid_def bind_res_eq_Inr queue_ok_def Let_def case_prod_beta)

lemma pt_exit_queue:
  assumes "queue_ok s" "pt_make_current_exited e s = Inr s'"
  shows "queue_ok s'"
proof (cases "current s")
  case None
  with assms show ?thesis by (simp add: pt_make_current_exited_def)
next
  case (Some t)
  obtain m where m: "manager s = Some m" "sched_ok m (tid2pid s) (Some t)"
    using assms(1) Some by (auto simp: queue_ok_def)
  have "manager s' = Some (delete_task t m) \<and> tid2pid s' = (tid2pid s)(t := None) \<and> current s' = None"
    using assms(2) Some m(1)
    by (auto simp: pt_make_current_exited_def Let_def pt_del_proc_def bind_res_eq_Inr
        split: option.splits if_splits)
  with sched_ok_exit[OF m(2)] show ?thesis by (simp add: queue_ok_def)
qed

section \<open>Reachable states\<close>

lemma put_task_ok:
  assumes "t \<in> dom (tid2pid s)"
  shows "pt_ok s \<Longrightarrow> pt_ok (pt_put_task t task s)" and "queue_ok s \<Longrightarrow> queue_ok (pt_put_task t task s)"
  using assms
  by (auto simp: pt_ok_def queue_ok_def pt_put_task_def tasks_ok_def sched_ok_def insert_task_def)

lemma put_proc_ok:
  assumes "p \<in> dom (rel_map s)"
  shows "pt_ok s \<Longrightarrow> pt_ok (pt_put_proc p proc s)" and "queue_ok s \<Longrightarrow> queue_ok (pt_put_proc p proc s)"
proof -
  show "queue_ok s \<Longrightarrow> queue_ok (pt_put_proc p proc s)" by (simp add: queue_ok_def pt_put_proc_def)
  assume ok: "pt_ok s"
  then obtain pm where pm: "proc_manager s = Some pm" "dom (procs pm) = dom (rel_map s)"
    by (auto simp: pt_ok_def)
  then have "dom (procs (insert_proc p proc pm)) = dom (rel_map s)"
    using assms by (auto simp: insert_proc_def)
  with ok pm show "pt_ok (pt_put_proc p proc s)" by (auto simp: pt_ok_def pt_put_proc_def)
qed

text \<open>
  The operations of the manager. \<open>re_enque\<close> is admitted for every id, as the source does:
  live, dead, ready, running or never added. The operations that create are called the way
  every kernel of the repository calls them: the id that \<open>add\<close> and \<open>add_proc\<close> bring is fresh
  (the kernels draw it from a counter), \<open>add\<close> names a process that exists, a process is not
  its own parent, and process 0 when it is added has no parent. \<open>del_proc\<close> is run by the exit
  of a last thread, its only caller. The entities behind the references that \<open>get_task\<close>,
  \<open>current\<close> and \<open>get_proc\<close> return are overwritten in place. \<open>pt_own_step\<close> are the operations
  other than \<open>re_enque\<close>.
\<close>

inductive pt_own_step :: "('p, 't) pt_manager \<Rightarrow> ('p, 't) pt_manager \<Rightarrow> bool" where
  find_next: "pt_find_next s = Inr (t, s') \<Longrightarrow> pt_own_step s s'"
| suspend: "pt_make_current_suspend s = Inr s' \<Longrightarrow> pt_own_step s s'"
| exit: "pt_make_current_exited e s = Inr s' \<Longrightarrow> pt_own_step s s'"
| block: "pt_own_step s (pt_make_current_blocked s)"
| spawn: "fresh_tid t (rel_map s) (tid2pid s) \<Longrightarrow> rel_map s p = Some r \<Longrightarrow>
    pt_add t task p s = Inr s' \<Longrightarrow> pt_own_step s s'"
| fork: "fresh_pid i (rel_map s) \<Longrightarrow> p \<noteq> i \<Longrightarrow> (i = ProcId 0 \<Longrightarrow> rel_map s p = None) \<Longrightarrow>
    pt_add_proc i proc p s = Inr s' \<Longrightarrow> pt_own_step s s'"
| wait_child: "pt_wait c s = Inr (a, s') \<Longrightarrow> pt_own_step s s'"
| wait_thread: "pt_waittid u s = Inr (b, s') \<Longrightarrow> pt_own_step s s'"
| write_task: "t \<in> dom (tid2pid s) \<Longrightarrow> pt_own_step s (pt_put_task t task s)"
| write_proc: "p \<in> dom (rel_map s) \<Longrightarrow> pt_own_step s (pt_put_proc p proc s)"

inductive pt_step :: "('p, 't) pt_manager \<Rightarrow> ('p, 't) pt_manager \<Rightarrow> bool" where
  own: "pt_own_step s s' \<Longrightarrow> pt_step s s'"
| wake: "pt_re_enque t s = Inr s' \<Longrightarrow> pt_step s s'"

inductive pt_reachable :: "('p, 't) pt_manager \<Rightarrow> bool" where
  boot: "pt_reachable (pt_set_proc_manager proc_table_new (pt_set_manager task_manager_new pt_new))"
| step: "pt_reachable s \<Longrightarrow> pt_step s s' \<Longrightarrow> pt_reachable s'"

text \<open>The runs in which \<open>re_enque\<close> was only ever called for a waiting live thread.\<close>

inductive pt_orderly :: "('p, 't) pt_manager \<Rightarrow> bool" where
  boot: "pt_orderly (pt_set_proc_manager proc_table_new (pt_set_manager task_manager_new pt_new))"
| own: "pt_orderly s \<Longrightarrow> pt_own_step s s' \<Longrightarrow> pt_orderly s'"
| wake: "pt_orderly s \<Longrightarrow> parked t s \<Longrightarrow> pt_re_enque t s = Inr s' \<Longrightarrow> pt_orderly s'"

lemma pt_orderly_reachable: "pt_orderly s \<Longrightarrow> pt_reachable s"
  by (induction rule: pt_orderly.induct)
    (blast intro: pt_reachable.intros pt_step.intros)+

lemma pt_wait_current:
  "pt_wait c s = Inr (a, s') \<Longrightarrow> \<exists>t. current s = Some t"
  "pt_waittid u s = Inr (b, s') \<Longrightarrow> \<exists>t. current s = Some t"
  by (auto simp: pt_wait_def pt_waittid_def bind_res_eq_Inr)

lemma pt_own_step_ok: "pt_own_step s s' \<Longrightarrow> pt_ok s \<Longrightarrow> pt_ok s'"
proof (induction rule: pt_own_step.induct)
  case (wait_child c s a s')
  with pt_wait_current(1) pt_wait_ok[of s _ c] show ?case by fastforce
next
  case (wait_thread u s b s')
  with pt_wait_current(2) pt_waittid_ok[of s _ u] show ?case by fastforce
qed (auto intro: pt_find_next_ok pt_suspend_ok pt_exit_ok pt_blocked_ok pt_add_ok
      pt_add_proc_ok put_task_ok put_proc_ok)

lemma pt_own_step_queue: "pt_own_step s s' \<Longrightarrow> pt_ok s \<Longrightarrow> queue_ok s \<Longrightarrow> queue_ok s'"
  by (induction rule: pt_own_step.induct)
    (auto simp: fresh_tid_def intro: pt_find_next_ok pt_suspend_ok pt_exit_queue pt_blocked_ok
      pt_add_keeps_queue pt_add_proc_queue pt_wait_queue put_task_ok put_proc_ok)

lemma pt_step_ok: "pt_step s s' \<Longrightarrow> pt_ok s \<Longrightarrow> pt_ok s'"
  by (induction rule: pt_step.induct) (auto intro: pt_own_step_ok pt_re_enque_ok)

lemma pt_reachable_ok: "pt_reachable s \<Longrightarrow> pt_ok s"
  by (induction rule: pt_reachable.induct) (auto simp: pt_ok_new intro: pt_step_ok)

lemma queue_ok_new: "queue_ok (pt_set_proc_manager proc_table_new (pt_set_manager task_manager_new pt_new))"
  by (simp add: queue_ok_def pt_new_def pt_set_manager_def pt_set_proc_manager_def sched_ok_def
      task_manager_new_def)

lemma pt_orderly_queue: "pt_orderly s \<Longrightarrow> queue_ok s"
  by (induction rule: pt_orderly.induct)
    (auto simp: queue_ok_new
      intro: pt_own_step_queue pt_re_enque_ok pt_reachable_ok[OF pt_orderly_reachable])

lemma queue_ok_find_next:
  assumes "queue_ok s" "pt_find_next s = Inr (None, s')"
  shows "s' = s" and "map_option ready_queue (manager s) = Some []"
proof -
  obtain m where m: "manager s = Some m" "sched_ok m (tid2pid s) (current s)"
    using assms(1) by (auto simp: queue_ok_def)
  from assms(2) m(1) have "s' = s \<and> ready_queue m = []"
  proof (cases rule: pt_find_next_cases)
    case (stale i "is")
    with sched_ok_head[OF m(2)] show ?thesis by simp
  qed auto
  with m(1) show "s' = s" "map_option ready_queue (manager s) = Some []" by simp_all
qed

text \<open>A small reachable state: process 1 with thread 1 running, forked child 2 with thread 2.\<close>

definition boot_state :: "(unit, unit) pt_manager" where
  "boot_state = pt_set_proc_manager proc_table_new (pt_set_manager task_manager_new pt_new)"

lemmas boot_simps =
  boot_state_def pt_set_proc_manager_def pt_set_manager_def pt_new_def
  proc_table_new_def task_manager_new_def pt_add_proc_def join_family_def proc_thread_rel_new_def
  insert_proc_def pt_add_def add_ready_def insert_task_def add_thread_def add_child_def
  pt_find_next_def fetch_ready_def get_task_def pt_make_current_suspend_def

definition mk_state ::
  "(proc_id \<rightharpoonup> proc_thread_rel) \<Rightarrow> (thread_id \<rightharpoonup> proc_id) \<Rightarrow> thread_id list \<Rightarrow> thread_id option \<Rightarrow>
     (unit, unit) pt_manager" where
  "mk_state rm t2p rq cur =
     \<lparr>rel_map = rm, proc_manager = Some \<lparr>procs = (\<lambda>p. map_option (\<lambda>_. ()) (rm p))\<rparr>, tid2pid = t2p,
      manager = Some \<lparr>tasks = (\<lambda>t. map_option (\<lambda>_. ()) (t2p t)), ready_queue = rq\<rparr>, current = cur\<rparr>"

definition rel_of :: "proc_id \<Rightarrow> proc_id list \<Rightarrow> thread_id list \<Rightarrow> proc_thread_rel" where
  "rel_of p cs ts = \<lparr>parent = p, children = cs, dead_children = [], threads = ts, dead_threads = []\<rparr>"

definition two_procs :: "(unit, unit) pt_manager" where
  "two_procs = mk_state
     [ProcId 1 \<mapsto> rel_of (ProcId usize_max) [ProcId 2] [ThreadId 1],
      ProcId 2 \<mapsto> rel_of (ProcId 1) [] [ThreadId 2]]
     [ThreadId 1 \<mapsto> ProcId 1, ThreadId 2 \<mapsto> ProcId 2] [ThreadId 1] (Some (ThreadId 2))"

lemma two_procs_orderly: "pt_orderly two_procs"
proof -
  note defs = boot_simps mk_state_def rel_of_def
  let ?r1 = "rel_of (ProcId usize_max)" and ?u = "\<lambda>_. ()"
  let ?s1 = "mk_state [ProcId 1 \<mapsto> ?r1 [] []] Map.empty [] None"
  have "pt_orderly boot_state" unfolding boot_state_def by (rule pt_orderly.boot)
  then have 1: "pt_orderly ?s1"
    by (rule pt_orderly.own, intro pt_own_step.fork[where i = "ProcId 1" and p = "ProcId usize_max" and proc = "()"])
      (auto simp: defs fresh_pid_def fun_eq_iff)
  let ?s2 = "mk_state [ProcId 1 \<mapsto> ?r1 [] [ThreadId 1]] [ThreadId 1 \<mapsto> ProcId 1] [ThreadId 1] None"
  have 2: "pt_orderly ?s2"
    by (rule pt_orderly.own[OF 1],
        intro pt_own_step.spawn[where t = "ThreadId 1" and p = "ProcId 1" and task = "()" and r = "?r1 [] []"])
      (auto simp: defs fresh_tid_def thread_status_def status_of_def fun_eq_iff split: if_splits)
  let ?s3 = "mk_state [ProcId 1 \<mapsto> ?r1 [ProcId 2] [ThreadId 1], ProcId 2 \<mapsto> rel_of (ProcId 1) [] []]
      [ThreadId 1 \<mapsto> ProcId 1] [ThreadId 1] None"
  have 3: "pt_orderly ?s3"
    by (rule pt_orderly.own[OF 2],
        intro pt_own_step.fork[where i = "ProcId 2" and p = "ProcId 1" and proc = "()"])
      (auto simp: defs fresh_pid_def child_status_def status_of_def fun_eq_iff split: if_splits)
  let ?rm = "[ProcId 1 \<mapsto> ?r1 [ProcId 2] [ThreadId 1], ProcId 2 \<mapsto> rel_of (ProcId 1) [] [ThreadId 2]]"
    and ?t2p = "[ThreadId 1 \<mapsto> ProcId 1, ThreadId 2 \<mapsto> ProcId 2]"
  have 4: "pt_orderly (mk_state ?rm ?t2p [ThreadId 1, ThreadId 2] None)"
    by (rule pt_orderly.own[OF 3],
        intro pt_own_step.spawn[where t = "ThreadId 2" and p = "ProcId 2" and task = "()" and r = "rel_of (ProcId 1) [] []"])
      (auto simp: defs fresh_tid_def thread_status_def status_of_def fun_eq_iff split: if_splits)
  have 5: "pt_orderly (mk_state ?rm ?t2p [ThreadId 2] (Some (ThreadId 1)))"
    by (rule pt_orderly.own[OF 4], rule pt_own_step.find_next[where t = "Some ()"]) (simp add: defs)
  have 6: "pt_orderly (mk_state ?rm ?t2p [ThreadId 2, ThreadId 1] None)"
    by (rule pt_orderly.own[OF 5], rule pt_own_step.suspend) (simp add: defs)
  show ?thesis
    unfolding two_procs_def
    by (rule pt_orderly.own[OF 6], rule pt_own_step.find_next[where t = "Some ()"]) (simp add: defs)
qed

lemmas two_procs_reachable = pt_orderly_reachable[OF two_procs_orderly]

section \<open>Properties\<close>

text \<open>C1: the bookkeeping of processes and threads is consistent in every state that the
  operations of the manager reach from boot, \<open>re_enque\<close> included for any id whatever. The family
  tree is closed and acyclic at the root, live and dead lists are disjoint and without
  repetitions, every thread belongs to the process that lists it and has an entity, and the
  running thread is alive, so that looking up the current process never fails. The ready
  queue is only as good as the calls of \<open>re_enque\<close>, which checks nothing: when each was for a
  waiting live thread, every ready thread is alive and queued once, the running one is not
  queued, and \<open>find_next\<close> answers nothing only when no thread is ready. The runs are those in
  which the ids that are added are fresh, a thread is added to a process that exists, no
  process is its own parent, process 0 is added without a parent, and a process is deleted by
  the exit of its last thread.\<close>

theorem reachable_states_are_consistent:
  assumes "pt_reachable s"
  shows "pt_ok s \<and> (\<forall>t. current s = Some t \<longrightarrow> (\<exists>p. pt_get_current_proc s = Inr (Some p))) \<and>
    (pt_orderly s \<longrightarrow> queue_ok s \<and>
      (\<forall>s'. pt_find_next s = Inr (None, s') \<longrightarrow> map_option ready_queue (manager s) = Some []))"
proof (intro conjI allI impI)
  show ok: "pt_ok s" by (rule pt_reachable_ok[OF assms])
  show "\<exists>p. pt_get_current_proc s = Inr (Some p)" if cur: "current s = Some t" for t
  proof -
    obtain p r where R: "tid2pid s t = Some p" "rel_map s p = Some r"
      by (rule pt_current_rel[OF ok cur])
    obtain pm where pm: "proc_manager s = Some pm" "dom (procs pm) = dom (rel_map s)"
      using ok by (auto simp: pt_ok_def)
    with R show ?thesis
      by (auto simp: pt_get_current_proc_def pt_current_pid_def get_proc_entry_def cur)
  qed
  show "queue_ok s" if "pt_orderly s" using that by (rule pt_orderly_queue)
  show "map_option ready_queue (manager s) = Some []"
    if "pt_orderly s" "pt_find_next s = Inr (None, s')" for s'
    by (rule queue_ok_find_next(2)[OF pt_orderly_queue[OF that(1)] that(2)])
qed

theorem reachable_states_are_consistent_witness:
  "pt_ok two_procs \<and> (\<exists>p. pt_get_current_proc two_procs = Inr (Some p)) \<and> queue_ok two_procs"
  using reachable_states_are_consistent[OF two_procs_reachable] two_procs_orderly
  by (simp add: two_procs_def mk_state_def)

text \<open>C3: when the exit of the running thread panics. In a reachable state the exit succeeds,
  into a reachable state, unless the thread is the last of a process that still has children
  and the process is process 0 or process 0 is gone; then the kernel panics on \<open>unwrap\<close>.\<close>

theorem thread_exit_panics_exactly:
  assumes "pt_reachable s"
  shows "if exit_possible s then \<exists>s'. pt_make_current_exited e s = Inr s' \<and> pt_reachable s'
         else pt_make_current_exited e s = Inl UnwrapNone"
  using pt_exit_panics_iff[OF pt_reachable_ok[OF assms], of e]
    pt_reachable.step[OF assms pt_step.own[OF pt_own_step.exit], of e]
  by (cases "pt_make_current_exited e s") auto

theorem thread_exit_panics_exactly_witness:
  "if exit_possible two_procs
   then \<exists>s'. pt_make_current_exited 7 two_procs = Inr s' \<and> pt_reachable s'
   else pt_make_current_exited 7 two_procs = Inl UnwrapNone"
  by (rule thread_exit_panics_exactly[OF two_procs_reachable])

text \<open>C2: an exit code reaches the parent exactly once. When the last thread of a process
  exits with code \<open>e\<close> and the parent is alive, the process is gone from the process table, and
  whenever a thread of the parent next runs, its \<open>wait\<close> for that child returns the pair of
  the child and \<open>e\<close>, and a second \<open>wait\<close> returns nothing.\<close>

theorem exit_code_reaches_wait_once:
  assumes "pt_reachable s" and "current s = Some t" and "tid2pid s t = Some p"
    and "rel_map s p = Some r" and "threads r = [t]" and "rel_map s (parent r) \<noteq> None"
    and "p \<noteq> ProcId usize_max" and "pt_make_current_exited e s = Inr s1"
    and "tid2pid s1 u = Some (parent r)"
  shows "pt_get_proc p s1 = Inr None \<and>
    (\<exists>s2. pt_wait p (s1\<lparr>current := Some u\<rparr>) = Inr (Some (p, e), s2) \<and> pt_wait p s2 = Inr (None, s2))"
proof -
  obtain pr where pr: "rel_map s (parent r) = Some pr" using assms(6) by auto
  obtain pr' where P: "rel_map s1 (parent r) = Some pr'" "children_wf pr'"
    "child_status pr' p = Some (Exited e)" "pt_get_proc p s1 = Inr None"
    by (rule pt_exit_tells_parent[OF pt_reachable_ok[OF assms(1)] assms(2-5) pr assms(8)])
  have "\<exists>s2. pt_wait p (s1\<lparr>current := Some u\<rparr>) = Inr (Some (p, e), s2) \<and> pt_wait p s2 = Inr (None, s2)"
    by (rule pt_wait_of_status[where u = u and q = "parent r", OF _ _ _ P(2,3) assms(7)]) (simp_all add: assms(9) P(1))
  with P(4) show ?thesis by blast
qed

definition after_exit :: "(unit, unit) pt_manager" where
  "after_exit = (case pt_make_current_exited 7 two_procs of Inr s \<Rightarrow> s | Inl _ \<Rightarrow> two_procs)"

lemma after_exit_eq:
  "pt_make_current_exited 7 two_procs = Inr after_exit" "tid2pid after_exit (ThreadId 1) = Some (ProcId 1)"
  by (simp_all add: after_exit_def two_procs_def mk_state_def rel_of_def pt_make_current_exited_def
      Let_def delete_task_def del_thread_def remove_at_def pt_del_proc_def leave_family_def
      del_child_def delete_proc_def)

theorem exit_code_reaches_wait_once_witness:
  "pt_get_proc (ProcId 2) after_exit = Inr None \<and>
   (\<exists>s2. pt_wait (ProcId 2) (after_exit\<lparr>current := Some (ThreadId 1)\<rparr>) = Inr (Some (ProcId 2, 7), s2) \<and>
     pt_wait (ProcId 2) s2 = Inr (None, s2))"
  by (rule exit_code_reaches_wait_once[OF two_procs_reachable, where t = "ThreadId 2"
        and r = "rel_of (ProcId 1) [] [ThreadId 2]"])
    (simp_all add: after_exit_eq, simp_all add: two_procs_def mk_state_def rel_of_def)

text \<open>C4: joining a thread. When a thread exits with code \<open>e\<close> and its process has other
  threads, the process stays, and \<open>waittid\<close> from another thread of the process returns
  \<open>e\<close> and, asked again, nothing.\<close>

theorem exited_thread_is_joined_once:
  assumes "pt_reachable s" and "current s = Some t" and "tid2pid s t = Some p"
    and "rel_map s p = Some r" and "threads r \<noteq> [t]" and "u \<noteq> t" and "tid2pid s u = Some p"
  shows "\<exists>s1. pt_make_current_exited e s = Inr s1 \<and> rel_map s1 p \<noteq> None \<and>
    (\<exists>s2. pt_waittid t (s1\<lparr>current := Some u\<rparr>) = Inr (Some e, s2) \<and> pt_waittid t s2 = Inr (None, s2))"
proof -
  obtain s1 where E: "pt_make_current_exited e s = Inr s1" "rel_map s1 p = Some (del_thread t e r)"
    "tid2pid s1 = (tid2pid s)(t := None)" "threads_wf (del_thread t e r)"
    "thread_status (del_thread t e r) t = Some (Exited e)"
    by (rule pt_exit_keeps_process[OF pt_reachable_ok[OF assms(1)] assms(2-5)])
  have "\<exists>s2. pt_waittid t (s1\<lparr>current := Some u\<rparr>) = Inr (Some e, s2) \<and> pt_waittid t s2 = Inr (None, s2)"
    by (rule pt_waittid_of_status[where u = u and q = p, OF _ _ _ E(4,5)]) (simp_all add: assms(6,7) E(2,3))
  with E(1,2) show ?thesis by auto
qed

definition two_threads :: "(unit, unit) pt_manager" where
  "two_threads = mk_state [ProcId 1 \<mapsto> rel_of (ProcId usize_max) [] [ThreadId 1, ThreadId 2]]
     [ThreadId 1 \<mapsto> ProcId 1, ThreadId 2 \<mapsto> ProcId 1] [ThreadId 2] (Some (ThreadId 1))"

lemma two_threads_orderly: "pt_orderly two_threads"
proof -
  note defs = boot_simps mk_state_def rel_of_def
  let ?r1 = "rel_of (ProcId usize_max) []"
  have "pt_orderly boot_state" unfolding boot_state_def by (rule pt_orderly.boot)
  then have 1: "pt_orderly (mk_state [ProcId 1 \<mapsto> ?r1 []] Map.empty [] None)"
    by (rule pt_orderly.own, intro pt_own_step.fork[where i = "ProcId 1" and p = "ProcId usize_max" and proc = "()"])
      (auto simp: defs fresh_pid_def fun_eq_iff)
  have 2: "pt_orderly (mk_state [ProcId 1 \<mapsto> ?r1 [ThreadId 1]] [ThreadId 1 \<mapsto> ProcId 1] [ThreadId 1] None)"
    by (rule pt_orderly.own[OF 1],
        intro pt_own_step.spawn[where t = "ThreadId 1" and p = "ProcId 1" and task = "()" and r = "?r1 []"])
      (auto simp: defs fresh_tid_def thread_status_def status_of_def fun_eq_iff split: if_splits)
  have 3: "pt_orderly (mk_state [ProcId 1 \<mapsto> ?r1 [ThreadId 1, ThreadId 2]]
      [ThreadId 1 \<mapsto> ProcId 1, ThreadId 2 \<mapsto> ProcId 1] [ThreadId 1, ThreadId 2] None)"
    by (rule pt_orderly.own[OF 2],
        intro pt_own_step.spawn[where t = "ThreadId 2" and p = "ProcId 1" and task = "()" and r = "?r1 [ThreadId 1]"])
      (auto simp: defs fresh_tid_def thread_status_def status_of_def fun_eq_iff split: if_splits)
  show ?thesis
    unfolding two_threads_def
    by (rule pt_orderly.own[OF 3], rule pt_own_step.find_next[where t = "Some ()"]) (simp add: defs)
qed

lemmas two_threads_reachable = pt_orderly_reachable[OF two_threads_orderly]

theorem exited_thread_is_joined_once_witness:
  "\<exists>s1. pt_make_current_exited 3 two_threads = Inr s1 \<and> rel_map s1 (ProcId 1) \<noteq> None \<and>
    (\<exists>s2. pt_waittid (ThreadId 1) (s1\<lparr>current := Some (ThreadId 2)\<rparr>) = Inr (Some 3, s2) \<and>
      pt_waittid (ThreadId 1) s2 = Inr (None, s2))"
  by (rule exited_thread_is_joined_once[OF two_threads_reachable,
        where r = "rel_of (ProcId usize_max) [] [ThreadId 1, ThreadId 2]"])
    (simp_all add: two_threads_def mk_state_def rel_of_def)

end
