(* ===== verification/Proc_Manager.thy ===== *)
theory Proc_Manager
  imports Thread_Manager
begin

text \<open>
  \<open>PManager\<close> of \<open>tg-rcore-tutorial-task-manage/src/proc_manage.rs\<close>: the one-level
  manager, in which processes themselves are scheduled. It shares the family tree
  (theory \<open>Family\<close>) and the containers with the two-level manager; its invariant
  \<open>pm_ok\<close> is kept by every operation, and an exit code reaches the parent's wait.
\<close>

record 'p p_manager =
  prel_map :: "proc_id \<rightharpoonup> proc_rel"
  pmanager :: "(proc_id, 'p) task_manager option"
  pcurrent :: "proc_id option"

definition pm_new :: "'p p_manager" where
  "pm_new = \<lparr>prel_map = Map.empty, pmanager = None, pcurrent = None\<rparr>"

definition pm_find_next :: "'p p_manager \<Rightarrow> ('p option \<times> 'p p_manager) res" where
  "pm_find_next s =
     bind_res (unwrap (pmanager s)) (\<lambda>m.
       case fetch_ready m of
         (Some i, m1) \<Rightarrow>
           (case get_task i m1 of
              Some task \<Rightarrow> Inr (Some task, s\<lparr>pmanager := Some m1, pcurrent := Some i\<rparr>)
            | None \<Rightarrow> Inr (None, s\<lparr>pmanager := Some m1\<rparr>))
       | (None, m1) \<Rightarrow> Inr (None, s\<lparr>pmanager := Some m1\<rparr>))"

definition pm_set_manager :: "(proc_id, 'p) task_manager \<Rightarrow> 'p p_manager \<Rightarrow> 'p p_manager" where
  "pm_set_manager m s = s\<lparr>pmanager := Some m\<rparr>"

definition pm_make_current_suspend :: "'p p_manager \<Rightarrow> 'p p_manager res" where
  "pm_make_current_suspend s =
     bind_res (unwrap (pcurrent s)) (\<lambda>i.
       bind_res (unwrap (pmanager s)) (\<lambda>m.
         Inr (s\<lparr>pmanager := Some (add_ready i m), pcurrent := None\<rparr>)))"

definition pm_make_current_exited :: "isize \<Rightarrow> 'p p_manager \<Rightarrow> 'p p_manager res" where
  "pm_make_current_exited exit_code s =
     bind_res (unwrap (pcurrent s)) (\<lambda>i.
       bind_res (unwrap (pmanager s)) (\<lambda>m.
         bind_res (leave_family i exit_code (prel_map s)) (\<lambda>rm.
           Inr (s\<lparr>pmanager := Some (delete_task i m), prel_map := rm, pcurrent := None\<rparr>))))"

definition pm_add :: "proc_id \<Rightarrow> 'p \<Rightarrow> proc_id \<Rightarrow> 'p p_manager \<Rightarrow> 'p p_manager res" where
  "pm_add i task parent_pid s =
     bind_res (unwrap (pmanager s)) (\<lambda>m.
       bind_res
         (if pid_get_usize parent_pid \<noteq> usize_max then
            bind_res (unwrap (prel_map s parent_pid)) (\<lambda>parent_relation.
              Inr ((prel_map s)(parent_pid \<mapsto> add_child i parent_relation)))
          else Inr (prel_map s))
         (\<lambda>rm.
           Inr (s\<lparr>pmanager := Some (add_ready i (insert_task i task m)),
                  prel_map := rm(i \<mapsto> proc_rel_new parent_pid)\<rparr>)))"

definition pm_current :: "'p p_manager \<Rightarrow> 'p option res" where
  "pm_current s =
     bind_res (unwrap (pcurrent s)) (\<lambda>i. bind_res (unwrap (pmanager s)) (\<lambda>m. Inr (get_task i m)))"

definition pm_get_task :: "proc_id \<Rightarrow> 'p p_manager \<Rightarrow> 'p option res" where
  "pm_get_task i s = bind_res (unwrap (pmanager s)) (\<lambda>m. Inr (get_task i m))"

definition pm_wait ::
  "proc_id \<Rightarrow> 'p p_manager \<Rightarrow> ((proc_id \<times> isize) option \<times> 'p p_manager) res" where
  "pm_wait child_pid s =
     bind_res (unwrap (pcurrent s)) (\<lambda>i.
       bind_res (unwrap (prel_map s i)) (\<lambda>current_rel.
         let (answer, current_rel') =
               (if pid_get_usize child_pid = usize_max then wait_any_child current_rel
                else wait_child child_pid current_rel)
         in Inr (answer, s\<lparr>prel_map := (prel_map s)(i \<mapsto> current_rel')\<rparr>)))"

section \<open>The invariant\<close>

definition pm_ok :: "'p p_manager \<Rightarrow> bool" where
  "pm_ok s \<longleftrightarrow>
     family_ok (prel_map s) \<and> prel_map s (ProcId usize_max) = None \<and>
     (\<exists>m. pmanager s = Some m \<and> sched_ok m (prel_map s) (pcurrent s))"

lemma pm_okE:
  assumes "pm_ok s"
  obtains m where "family_ok (prel_map s)" "prel_map s (ProcId usize_max) = None"
    "pmanager s = Some m" "sched_ok m (prel_map s) (pcurrent s)"
  using assms by (auto simp: pm_ok_def)

lemma pm_ok_new: "pm_ok (pm_set_manager task_manager_new pm_new)"
  by (simp add: pm_ok_def pm_new_def pm_set_manager_def sched_ok_def task_manager_new_def)

lemma sched_ok_dom: "sched_ok m t2p cur \<Longrightarrow> dom t2p = dom t2p' \<Longrightarrow> sched_ok m t2p' cur"
  by (simp add: sched_ok_def)

lemma pm_find_next_ok:
  assumes "pm_ok s" "pm_find_next s = Inr (t, s')"
  shows "pm_ok s'"
proof -
  obtain m where st: "family_ok (prel_map s)" "prel_map s (ProcId usize_max) = None"
    "pmanager s = Some m" "sched_ok m (prel_map s) (pcurrent s)"
    using assms(1) by (rule pm_okE)
  show ?thesis
  proof (cases m rule: fetch_ready_cases)
    case 1
    have "s\<lparr>pmanager := Some m\<rparr> = s" using st(3) by simp
    with 1 st assms show ?thesis by (simp add: pm_find_next_def)
  next
    case (2 i "is")
    have "i \<in> dom (tasks m)" using st(4) 2 by (simp add: sched_ok_def)
    with 2 st assms(2) sched_ok_next[OF st(4) 2(1)] show ?thesis
      by (auto simp: pm_find_next_def get_task_def pm_ok_def)
  qed
qed

lemma pm_suspend_ok:
  assumes "pm_ok s" "pm_make_current_suspend s = Inr s'"
  shows "pm_ok s'"
proof -
  obtain m where st: "family_ok (prel_map s)" "prel_map s (ProcId usize_max) = None"
    "pmanager s = Some m" "sched_ok m (prel_map s) (pcurrent s)"
    using assms(1) by (rule pm_okE)
  from assms(2) st obtain i where i: "pcurrent s = Some i"
    "s' = s\<lparr>pmanager := Some (add_ready i m), pcurrent := None\<rparr>"
    by (auto simp: pm_make_current_suspend_def bind_res_eq_Inr)
  have "sched_ok (add_ready i m) (prel_map s) None"
    using st(4) i(1) by (intro sched_ok_ready[OF st(4)]) (auto simp: sched_ok_def)
  with st i(2) show ?thesis by (simp add: pm_ok_def)
qed

lemma dom_leave_family:
  assumes ok: "family_ok m" and lv: "leave_family i e m = Inr m'"
  shows "dom m' = dom m - {i}"
proof -
  have "can_leave i m" using leave_family_iff[OF ok] lv by blast
  then obtain cur where cur: "m i = Some cur" by (auto simp: can_leave_def split: option.splits)
  have "q \<in> dom m' \<longleftrightarrow> q \<in> dom m - {i}" for q
    using leave_family_entry(1)[OF ok cur lv] leave_family_entry(2)[OF ok cur lv, of q]
      leave_family_entry(3)[OF ok cur lv, of q]
    by (cases "q = i"; cases "m q") auto
  then show ?thesis by blast
qed

lemma pm_exit_ok:
  assumes ok: "pm_ok s" and ex: "pm_make_current_exited e s = Inr s'"
  shows "pm_ok s'"
proof -
  obtain m where st: "family_ok (prel_map s)" "prel_map s (ProcId usize_max) = None"
    "pmanager s = Some m" "sched_ok m (prel_map s) (pcurrent s)"
    using ok by (rule pm_okE)
  from ex st(3) obtain i rm where i: "pcurrent s = Some i" and
    lv: "leave_family i e (prel_map s) = Inr rm" and
    s': "s' = s\<lparr>pmanager := Some (delete_task i m), prel_map := rm, pcurrent := None\<rparr>"
    by (auto simp: pm_make_current_exited_def bind_res_eq_Inr)
  have d: "dom rm = dom (prel_map s) - {i}" by (rule dom_leave_family[OF st(1) lv])
  have "sched_ok (delete_task i m) ((prel_map s)(i := None)) None"
    using st(4) i by (auto intro: sched_ok_exit)
  then have "sched_ok (delete_task i m) rm None" by (rule sched_ok_dom) (simp add: d)
  moreover have "rm (ProcId usize_max) = None"
    using d st(2) by (metis DiffD1 domIff)
  ultimately show ?thesis
    using family_ok_leave[OF st(1) lv] by (simp add: pm_ok_def s')
qed

lemma pm_add_ok:
  assumes ok: "pm_ok s" and fresh: "fresh_pid i (prel_map s)" and pi: "p \<noteq> i"
    and i: "i \<noteq> ProcId usize_max" and root: "i = ProcId 0 \<Longrightarrow> prel_map s p = None"
    and s': "pm_add i task p s = Inr s'"
  shows "pm_ok s'"
proof -
  obtain m where st: "family_ok (prel_map s)" "prel_map s (ProcId usize_max) = None"
    "pmanager s = Some m" "sched_ok m (prel_map s) (pcurrent s)"
    using ok by (rule pm_okE)
  let ?rm = "join_family i p (proc_rel_new p) (prel_map s)"
  have s'_eq: "s' = s\<lparr>pmanager := Some (add_ready i (insert_task i task m)), prel_map := ?rm\<rparr>"
  proof (cases "p = ProcId usize_max")
    case True
    with s' st show ?thesis by (auto simp: pm_add_def join_family_def)
  next
    case False
    then have "pid_get_usize p \<noteq> usize_max" by (cases p) auto
    with s' st show ?thesis
      by (auto simp: pm_add_def join_family_def bind_res_eq_Inr)
  qed
  have new: "prel_map s i = None" using fresh by (simp add: fresh_pid_def)
  have look: "?rm q = (if q = i then Some (proc_rel_new p)
      else if q = p then map_option (add_child i) (prel_map s p) else prel_map s q)" for q
    using pi by (simp add: join_family_def split: option.splits)
  have "family_ok ?rm"
    by (rule family_ok_join[OF st(1) fresh pi]) (simp_all add: proc_rel_new_def root)
  moreover have "?rm (ProcId usize_max) = None" using i st(2) by (auto simp: look)
  moreover have "dom ?rm = insert i (dom (prel_map s))"
    by (auto simp: look dom_def)
  then have "sched_ok (add_ready i (insert_task i task m)) ?rm (pcurrent s)"
    using st(4) new by (auto simp: sched_ok_def add_ready_def insert_task_def)
  ultimately show ?thesis by (simp add: pm_ok_def s'_eq)
qed

lemma pm_wait_ok:
  assumes ok: "pm_ok s" and cur: "pcurrent s = Some i"
  shows "\<exists>a s'. pm_wait c s = Inr (a, s') \<and> pm_ok s'"
proof -
  obtain m where st: "family_ok (prel_map s)" "prel_map s (ProcId usize_max) = None"
    "pmanager s = Some m" "sched_ok m (prel_map s) (pcurrent s)"
    using ok by (rule pm_okE)
  obtain r where r: "prel_map s i = Some r" using st(4) cur by (auto simp: sched_ok_def)
  have wf: "children_wf r" by (rule family_okD(1)[OF st(1) r])
  let ?w = "if pid_get_usize c = usize_max then wait_any_child r else wait_child c r"
  have "children_wf (snd ?w)"
    using kids.wf_await[OF wf, of c] children_wf_wait_any[OF wf] by auto
  then have fam: "family_ok ((prel_map s)(i \<mapsto> snd ?w))"
    using wait_dead_subset(1)[of c r] wait_dead_subset(2)[of r]
    by (intro family_ok_upd[OF st(1) r]) (auto split: if_splits)
  have "dom (prel_map s) = dom ((prel_map s)(i \<mapsto> snd ?w))" using r by auto
  from sched_ok_dom[OF st(4) this]
  have sch: "sched_ok m ((prel_map s)(i \<mapsto> snd ?w)) (pcurrent s)" .
  have "i \<noteq> ProcId usize_max" using r st(2) by auto
  with fam sch st have "pm_ok (s\<lparr>prel_map := (prel_map s)(i \<mapsto> snd ?w)\<rparr>)"
    by (simp add: pm_ok_def)
  moreover have "pm_wait c s = Inr (fst ?w, s\<lparr>prel_map := (prel_map s)(i \<mapsto> snd ?w)\<rparr>)"
    using cur r by (simp add: pm_wait_def case_prod_beta Let_def)
  ultimately show ?thesis by blast
qed

lemma pm_exit_panics_iff:
  assumes "pm_ok s" "pcurrent s = Some i"
  shows "(\<exists>x. pm_make_current_exited e s = Inl x) \<longleftrightarrow> \<not> can_leave i (prel_map s)"
proof -
  obtain m where st: "family_ok (prel_map s)" "pmanager s = Some m"
    using assms(1) by (rule pm_okE)
  show ?thesis
    using leave_family_iff[OF st(1), of i e] leave_family_panics[OF st(1), of i e] assms(2) st(2)
    by (cases "leave_family i e (prel_map s)") (auto simp: pm_make_current_exited_def)
qed

end
