(* ===== verification/Sync.thy ===== *)
theory Sync
  imports Intr_Cell Task_Manager
begin

text \<open>
  The synchronisation objects of \<open>tg-rcore-tutorial-sync\<close>: \<open>mutex.rs\<close>,
  \<open>semaphore.rs\<close> and \<open>condvar.rs\<close>. Each object is its inner state with a FIFO queue
  of thread ids; an operation takes the state under the interrupt-masking guard of
  \<open>Intr_Cell\<close>. The \<open>_inner\<close> functions are the bodies under the guard.

  The trait \<open>Mutex\<close> is the locale \<open>handoff_lock\<close>: a lock that, released with waiters,
  passes to the first of them without becoming free. Mutual exclusion and first come first
  served are proved inside it. The semaphore's counting law and the behaviour of the
  condition variable follow.
\<close>

section \<open>Mutex (mutex.rs)\<close>

record mutex_inner =
  locked :: bool
  wait_queue :: "thread_id list"

definition mutex_new :: "mutex_inner up_cell" where
  "mutex_new = up_cell_new \<lparr>locked = False, wait_queue = []\<rparr>"

definition lock_inner :: "thread_id \<Rightarrow> mutex_inner \<Rightarrow> bool \<times> mutex_inner" where
  "lock_inner tid m =
     (if locked m then (False, m\<lparr>wait_queue := wait_queue m @ [tid]\<rparr>)
      else (True, m\<lparr>locked := True\<rparr>))"

definition unlock_inner :: "mutex_inner \<Rightarrow> (thread_id option \<times> mutex_inner) res" where
  "unlock_inner m =
     bind_res (assert_res (locked m)) (\<lambda>_.
       case wait_queue m of
         waking_task # rest \<Rightarrow> Inr (Some waking_task, m\<lparr>wait_queue := rest\<rparr>)
       | [] \<Rightarrow> Inr (None, m\<lparr>locked := False\<rparr>))"

definition mutex_lock ::
  "thread_id \<Rightarrow> mutex_inner up_cell \<Rightarrow> hart \<Rightarrow> (bool \<times> mutex_inner up_cell \<times> hart) res" where
  "mutex_lock tid = exclusive_session (lock_inner tid)"

definition mutex_unlock ::
  "mutex_inner up_cell \<Rightarrow> hart \<Rightarrow> (thread_id option \<times> mutex_inner up_cell \<times> hart) res" where
  "mutex_unlock = guarded unlock_inner"

section \<open>Semaphore (semaphore.rs)\<close>

record semaphore_inner =
  sem_count :: isize
  sem_queue :: "thread_id list"

definition isize_max :: isize where
  "isize_max = push_bit 63 1 - 1"

definition isize_min :: isize where
  "isize_min = push_bit 63 1"

definition isize_inc :: "isize \<Rightarrow> isize res" where
  "isize_inc c = (if c = isize_max then Inl ArithOverflow else Inr (c + 1))"

definition isize_dec :: "isize \<Rightarrow> isize res" where
  "isize_dec c = (if c = isize_min then Inl ArithOverflow else Inr (c - 1))"

definition semaphore_new :: "usize \<Rightarrow> semaphore_inner up_cell" where
  "semaphore_new res_count = up_cell_new \<lparr>sem_count = res_count, sem_queue = []\<rparr>"

definition up_inner :: "semaphore_inner \<Rightarrow> (thread_id option \<times> semaphore_inner) res" where
  "up_inner s =
     bind_res (isize_inc (sem_count s)) (\<lambda>c.
       let s1 = s\<lparr>sem_count := c\<rparr> in
       case sem_queue s1 of
         t # rest \<Rightarrow> Inr (Some t, s1\<lparr>sem_queue := rest\<rparr>)
       | [] \<Rightarrow> Inr (None, s1))"

definition down_inner :: "thread_id \<Rightarrow> semaphore_inner \<Rightarrow> (bool \<times> semaphore_inner) res" where
  "down_inner tid s =
     bind_res (isize_dec (sem_count s)) (\<lambda>c.
       let s1 = s\<lparr>sem_count := c\<rparr> in
       if sint (sem_count s1) < 0 then Inr (False, s1\<lparr>sem_queue := sem_queue s1 @ [tid]\<rparr>)
       else Inr (True, s1))"

definition semaphore_up ::
  "semaphore_inner up_cell \<Rightarrow> hart \<Rightarrow> (thread_id option \<times> semaphore_inner up_cell \<times> hart) res" where
  "semaphore_up = guarded up_inner"

definition semaphore_down ::
  "thread_id \<Rightarrow> semaphore_inner up_cell \<Rightarrow> hart \<Rightarrow> (bool \<times> semaphore_inner up_cell \<times> hart) res" where
  "semaphore_down tid = guarded (down_inner tid)"

section \<open>Condition variable (condvar.rs)\<close>

record condvar_inner =
  cv_queue :: "thread_id list"

definition condvar_new :: "condvar_inner up_cell" where
  "condvar_new = up_cell_new \<lparr>cv_queue = []\<rparr>"

definition signal_inner :: "condvar_inner \<Rightarrow> thread_id option \<times> condvar_inner" where
  "signal_inner c =
     (case cv_queue c of
        t # rest \<Rightarrow> (Some t, c\<lparr>cv_queue := rest\<rparr>)
      | [] \<Rightarrow> (None, c))"

definition park_inner :: "thread_id \<Rightarrow> condvar_inner \<Rightarrow> condvar_inner" where
  "park_inner tid c = c\<lparr>cv_queue := cv_queue c @ [tid]\<rparr>"

definition condvar_signal ::
  "condvar_inner up_cell \<Rightarrow> hart \<Rightarrow> (thread_id option \<times> condvar_inner up_cell \<times> hart) res" where
  "condvar_signal = exclusive_session signal_inner"

definition condvar_wait_no_sched ::
  "thread_id \<Rightarrow> condvar_inner up_cell \<Rightarrow> hart \<Rightarrow> (bool \<times> condvar_inner up_cell \<times> hart) res" where
  "condvar_wait_no_sched tid c h =
     bind_res (exclusive_session (\<lambda>x. ((), park_inner tid x)) c h) (\<lambda>(_, c1, h1).
       Inr (False, c1, h1))"

definition condvar_wait_with_mutex ::
  "thread_id \<Rightarrow> mutex_inner up_cell \<Rightarrow> hart \<Rightarrow>
     ((bool \<times> thread_id option) \<times> mutex_inner up_cell \<times> hart) res" where
  "condvar_wait_with_mutex tid mutex h =
     bind_res (mutex_unlock mutex h) (\<lambda>(woken, mutex1, h1).
       bind_res (unwrap woken) (\<lambda>waking_tid.
         bind_res (mutex_lock tid mutex1 h1) (\<lambda>(b, mutex2, h2).
           Inr ((b, Some waking_tid), mutex2, h2))))"

section \<open>A lock that is handed over\<close>

text \<open>
  The interface of the trait \<open>Mutex\<close>. \<open>held\<close> and \<open>waiters\<close> abstract the lock.
  An event of a run is a thread asking for the lock or the holder giving it up.
\<close>

datatype lock_event = Ask thread_id | Give

locale handoff_lock =
  fixes lock :: "thread_id \<Rightarrow> 'm \<Rightarrow> bool \<times> 'm"
    and unlock :: "'m \<Rightarrow> (thread_id option \<times> 'm) res"
    and held :: "'m \<Rightarrow> bool"
    and waiters :: "'m \<Rightarrow> thread_id list"
  assumes lock_free: "\<not> held m \<Longrightarrow> fst (lock t m) \<and> held (snd (lock t m)) \<and>
        waiters (snd (lock t m)) = waiters m"
    and lock_held: "held m \<Longrightarrow> \<not> fst (lock t m) \<and> held (snd (lock t m)) \<and>
        waiters (snd (lock t m)) = waiters m @ [t]"
    and unlock_free: "\<not> held m \<Longrightarrow> unlock m = Inl AssertFailed"
    and unlock_last: "held m \<Longrightarrow> waiters m = [] \<Longrightarrow>
        \<exists>m'. unlock m = Inr (None, m') \<and> \<not> held m' \<and> waiters m' = []"
    and unlock_pass: "held m \<Longrightarrow> waiters m = t # ts \<Longrightarrow>
        \<exists>m'. unlock m = Inr (Some t, m') \<and> held m' \<and> waiters m' = ts"
begin

text \<open>
  \<open>inside\<close> is the set of threads that were granted the lock and have not released it:
  a successful ask adds the asker, a give removes the giver and adds the thread woken up.
\<close>

inductive run :: "'m \<times> thread_id set \<Rightarrow> 'm \<times> thread_id set \<Rightarrow> bool" where
  start: "run s s"
| granted: "run s (m, inside) \<Longrightarrow> lock t m = (True, m') \<Longrightarrow> run s (m', insert t inside)"
| parked: "run s (m, inside) \<Longrightarrow> lock t m = (False, m') \<Longrightarrow> run s (m', inside)"
| released: "run s (m, inside) \<Longrightarrow> t \<in> inside \<Longrightarrow> unlock m = Inr (None, m') \<Longrightarrow>
    run s (m', inside - {t})"
| handed: "run s (m, inside) \<Longrightarrow> t \<in> inside \<Longrightarrow> unlock m = Inr (Some u, m') \<Longrightarrow>
    run s (m', insert u (inside - {t}))"

definition exclusive :: "'m \<times> thread_id set \<Rightarrow> bool" where
  "exclusive s \<longleftrightarrow> (if held (fst s) then \<exists>t. snd s = {t} else snd s = {} \<and> waiters (fst s) = [])"

lemma exclusive_lock:
  "exclusive (m, inside) \<Longrightarrow> lock t m = (b, m') \<Longrightarrow>
     exclusive (m', if b then insert t inside else inside)"
  using lock_free[of m t] lock_held[of m t] by (auto simp: exclusive_def split: if_splits)

lemma exclusive_unlock:
  assumes ex: "exclusive (m, inside)" and t: "t \<in> inside" and un: "unlock m = Inr (w, m')"
  shows "exclusive (m', case w of None \<Rightarrow> inside - {t} | Some u \<Rightarrow> insert u (inside - {t}))"
proof -
  have h: "held m" and one: "inside = {t}"
    using ex t by (auto simp: exclusive_def split: if_splits)
  show ?thesis
    using unlock_last[OF h] unlock_pass[OF h] un one
    by (cases "waiters m") (auto simp: exclusive_def)
qed

theorem mutual_exclusion: "run s s' \<Longrightarrow> exclusive s \<Longrightarrow> exclusive s'"
proof (induction rule: run.induct)
  case (granted s m inside t m')
  then show ?case using exclusive_lock[of m inside t True m'] by simp
next
  case (parked s m inside t m')
  then show ?case using exclusive_lock[of m inside t False m'] by simp
next
  case (released s m inside t m')
  then show ?case using exclusive_unlock[of m inside t None m'] by simp
next
  case (handed s m inside t u m')
  then show ?case using exclusive_unlock[of m inside t "Some u" m'] by simp
qed simp

lemma one_thread_inside:
  "run s s' \<Longrightarrow> exclusive s \<Longrightarrow> t \<in> snd s' \<Longrightarrow> u \<in> snd s' \<Longrightarrow> t = u"
  using mutual_exclusion[of s s'] by (auto simp: exclusive_def split: if_splits)

lemma no_lost_wakeup:
  "run s s' \<Longrightarrow> exclusive s \<Longrightarrow> waiters (fst s') \<noteq> [] \<Longrightarrow> \<exists>t. snd s' = {t}"
  using mutual_exclusion[of s s'] by (auto simp: exclusive_def split: if_splits)

text \<open>First come, first served: the grants of a run of events that keeps the lock held.\<close>

fun exec :: "lock_event list \<Rightarrow> 'm \<Rightarrow> (thread_id list \<times> 'm) res" where
  "exec [] m = Inr ([], m)"
| "exec (Ask t # es) m = exec es (snd (lock t m))"
| "exec (Give # es) m =
     bind_res (unlock m) (\<lambda>(w, m').
       bind_res (exec es m') (\<lambda>(ws, m'').
         Inr ((case w of None \<Rightarrow> ws | Some t \<Rightarrow> t # ws), m'')))"

fun asked :: "lock_event list \<Rightarrow> thread_id list" where
  "asked [] = []"
| "asked (Ask t # es) = t # asked es"
| "asked (Give # es) = asked es"

fun gives :: "lock_event list \<Rightarrow> nat" where
  "gives [] = 0"
| "gives (Ask t # es) = gives es"
| "gives (Give # es) = Suc (gives es)"

lemma first_come_first_served:
  "held m \<Longrightarrow> gives es \<le> length (waiters m) \<Longrightarrow>
     \<exists>m'. exec es m = Inr (take (gives es) (waiters m), m') \<and> held m' \<and>
       waiters m' = drop (gives es) (waiters m @ asked es)"
proof (induction es m rule: exec.induct)
  case (2 t es m)
  from "2.prems"(1) have L: "held (snd (lock t m))" "waiters (snd (lock t m)) = waiters m @ [t]"
    using lock_held by auto
  with "2.prems"(2) have "gives es \<le> length (waiters (snd (lock t m)))" by simp
  from "2.IH"[OF L(1) this] show ?case using L(2) "2.prems"(2) by simp
next
  case (3 es m)
  then obtain w ws where w: "waiters m = w # ws" by (cases "waiters m") auto
  obtain m' where m': "unlock m = Inr (Some w, m')" "held m'" "waiters m' = ws"
    using unlock_pass[OF "3.prems"(1) w] by blast
  have "gives es \<le> length (waiters m')" using "3.prems"(2) w m'(3) by simp
  from "3.IH"[OF m'(1) refl m'(2) this] w m' show ?case by auto
qed simp

end

interpretation mx: handoff_lock lock_inner unlock_inner locked wait_queue
  by unfold_locales (auto simp: lock_inner_def unlock_inner_def)

interpretation cv: schedule park_inner signal_inner cv_queue
  by unfold_locales (auto simp: park_inner_def signal_inner_def split: list.splits)

section \<open>Lock and unlock under the guard\<close>

lemma mutex_lock_eq:
  assumes "hart_ok h" "nested_level h \<noteq> usize_max" "\<not> borrowed c"
  shows "\<exists>h'. mutex_lock t c h =
      Inr (fst (lock_inner t (content c)), c\<lparr>content := snd (lock_inner t (content c))\<rparr>, h') \<and>
      same_masking h h' \<and> hart_ok h'"
  using guarded_eq[OF assms, of "\<lambda>x. Inr (lock_inner t x)"]
  by (simp add: mutex_lock_def exclusive_session_def)

lemma mutex_unlock_eq:
  assumes "hart_ok h" "nested_level h \<noteq> usize_max" "\<not> borrowed c"
    and "unlock_inner (content c) = Inr (w, m)"
  shows "\<exists>h'. mutex_unlock c h = Inr (w, c\<lparr>content := m\<rparr>, h') \<and> same_masking h h' \<and> hart_ok h'"
  using guarded_eq[where f = unlock_inner, OF assms] by (simp add: mutex_unlock_def)

lemma unlock_inner_iff: "(\<exists>x. unlock_inner m = Inr x) \<longleftrightarrow> locked m"
  by (auto simp: unlock_inner_def bind_res_def assert_res_def split: list.splits)

lemma condvar_wait_with_mutex_eq:
  assumes ok: "hart_ok h" "nested_level h \<noteq> usize_max" "\<not> borrowed c"
    and m: "locked (content c)" "wait_queue (content c) = u # rest"
  shows "\<exists>h'. condvar_wait_with_mutex t c h =
      Inr ((False, Some u), c\<lparr>content := (content c)\<lparr>wait_queue := rest @ [t]\<rparr>\<rparr>, h') \<and>
      same_masking h h' \<and> hart_ok h'"
proof -
  have "unlock_inner (content c) = Inr (Some u, (content c)\<lparr>wait_queue := rest\<rparr>)"
    using m by (simp add: unlock_inner_def)
  from mutex_unlock_eq[OF ok this] obtain h1 where h1:
    "mutex_unlock c h = Inr (Some u, c\<lparr>content := (content c)\<lparr>wait_queue := rest\<rparr>\<rparr>, h1)"
    "same_masking h h1" "hart_ok h1" by blast
  let ?c1 = "c\<lparr>content := (content c)\<lparr>wait_queue := rest\<rparr>\<rparr>"
  have "nested_level h1 \<noteq> usize_max" "\<not> borrowed ?c1"
    using h1(2) ok by (auto simp: same_masking_def)
  from mutex_lock_eq[OF h1(3) this, of t] obtain h2 where h2:
    "mutex_lock t ?c1 h1 = Inr (False, c\<lparr>content := (content c)\<lparr>wait_queue := rest @ [t]\<rparr>\<rparr>, h2)"
    "same_masking h1 h2" "hart_ok h2"
    using m by (auto simp: lock_inner_def)
  show ?thesis
    using h1 h2 by (auto simp: condvar_wait_with_mutex_def intro: same_masking_trans)
qed

lemma condvar_wait_without_waiters:
  assumes ok: "hart_ok h" "nested_level h \<noteq> usize_max" "\<not> borrowed c"
    and m: "locked (content c)" "wait_queue (content c) = []"
  shows "condvar_wait_with_mutex t c h = Inl UnwrapNone"
proof -
  have "unlock_inner (content c) = Inr (None, (content c)\<lparr>locked := False\<rparr>)"
    using m by (simp add: unlock_inner_def)
  from mutex_unlock_eq[OF ok this] show ?thesis by (auto simp: condvar_wait_with_mutex_def)
qed

section \<open>The counting law of the semaphore\<close>

text \<open>
  \<open>sem_ok\<close> is the meaning the source gives to the count: non-negative, it is the number
  of free resources; negative, its absolute value is the number of waiting threads.
\<close>

definition sem_ok :: "semaphore_inner \<Rightarrow> bool" where
  "sem_ok s \<longleftrightarrow> int (length (sem_queue s)) = max 0 (- sint (sem_count s))"

lemma isize_range: "- (2 ^ 63) \<le> sint (c :: isize)" "sint c < 2 ^ 63"
  using sint_ge[of c] sint_lt[of c] by simp_all

lemma sint_isize_max: "sint isize_max = 2 ^ 63 - 1"
  by (simp add: isize_max_def)

lemma sint_isize_min: "sint isize_min = - (2 ^ 63)"
  by (simp add: isize_min_def)

lemma sint_eqI: "sint (a :: isize) = sint b \<Longrightarrow> a = b"
  by (rule signed_word_eqI)

lemma sint_isize_of_int:
  "- (2 ^ 63) \<le> k \<Longrightarrow> k < 2 ^ 63 \<Longrightarrow> sint (word_of_int k :: isize) = k"
  by (simp add: sint_sbintrunc' signed_take_bit_int_eq_self)

lemma isize_inc_eq:
  "isize_inc c = (if sint c = 2 ^ 63 - 1 then Inl ArithOverflow else Inr (word_of_int (sint c + 1)))"
  using sint_isize_max by (auto simp: isize_inc_def intro: sint_eqI)

lemma isize_dec_eq:
  "isize_dec c = (if sint c = - (2 ^ 63) then Inl ArithOverflow else Inr (word_of_int (sint c - 1)))"
  using sint_isize_min by (auto simp: isize_dec_def intro: sint_eqI)

lemma isize_inc_InrE:
  assumes "isize_inc c = Inr d"
  shows "sint d = sint c + 1"
proof -
  have "sint c \<noteq> 2 ^ 63 - 1" and d: "d = word_of_int (sint c + 1)"
    using assms by (auto simp: isize_inc_eq split: if_splits)
  then show ?thesis
    using isize_range[of c] by (subst d, intro sint_isize_of_int) auto
qed

lemma isize_dec_InrE:
  assumes "isize_dec c = Inr d"
  shows "sint d = sint c - 1"
proof -
  have "sint c \<noteq> - (2 ^ 63)" and d: "d = word_of_int (sint c - 1)"
    using assms by (auto simp: isize_dec_eq split: if_splits)
  then show ?thesis
    using isize_range[of c] by (subst d, intro sint_isize_of_int) auto
qed

lemma down_inner_ok:
  assumes ok: "sem_ok s" and d: "down_inner t s = Inr (b, s')"
  shows "sem_ok s'" and "b \<longleftrightarrow> 0 < sint (sem_count s)"
    and "sint (sem_count s') = sint (sem_count s) - 1"
    and "sem_queue s' = (if b then sem_queue s else sem_queue s @ [t])"
proof -
  obtain c where c: "isize_dec (sem_count s) = Inr c" and
    r: "(b, s') = (if sint c < 0 then (False, s\<lparr>sem_count := c, sem_queue := sem_queue s @ [t]\<rparr>)
                   else (True, s\<lparr>sem_count := c\<rparr>))"
    using d by (auto simp: down_inner_def bind_res_eq_Inr Let_def split: if_splits)
  have sc: "sint c = sint (sem_count s) - 1" by (rule isize_dec_InrE[OF c])
  from r sc ok show "sem_ok s'" "b \<longleftrightarrow> 0 < sint (sem_count s)"
    "sint (sem_count s') = sint (sem_count s) - 1"
    "sem_queue s' = (if b then sem_queue s else sem_queue s @ [t])"
    by (auto simp: sem_ok_def max_def split: if_splits)
qed

lemma up_inner_ok:
  assumes ok: "sem_ok s" and u: "up_inner s = Inr (w, s')"
  shows "sem_ok s'" and "w = (case sem_queue s of [] \<Rightarrow> None | t # _ \<Rightarrow> Some t)"
    and "w = None \<longleftrightarrow> 0 \<le> sint (sem_count s)"
    and "sint (sem_count s') = sint (sem_count s) + 1" and "sem_queue s' = tl (sem_queue s)"
proof -
  obtain c where c: "isize_inc (sem_count s) = Inr c" and
    r: "(w, s') = (case sem_queue s of t # rest \<Rightarrow> (Some t, s\<lparr>sem_count := c, sem_queue := rest\<rparr>)
                   | [] \<Rightarrow> (None, s\<lparr>sem_count := c\<rparr>))"
    using u by (cases "sem_queue s") (auto simp: up_inner_def bind_res_eq_Inr Let_def)
  have sc: "sint c = sint (sem_count s) + 1" by (rule isize_inc_InrE[OF c])
  from r sc ok show "sem_ok s'" "w = (case sem_queue s of [] \<Rightarrow> None | t # _ \<Rightarrow> Some t)"
    "w = None \<longleftrightarrow> 0 \<le> sint (sem_count s)"
    "sint (sem_count s') = sint (sem_count s) + 1" "sem_queue s' = tl (sem_queue s)"
    by (auto simp: sem_ok_def max_def split: if_splits list.splits)
qed

text \<open>
  A run of a semaphore. Every down either is granted at once or parks the thread until an
  up wakes it; \<open>grants\<close> counts both ways of getting a resource.
\<close>

datatype sem_event = Down thread_id | Up

fun sem_run :: "sem_event list \<Rightarrow> semaphore_inner \<Rightarrow> (nat \<times> semaphore_inner) res" where
  "sem_run [] s = Inr (0, s)"
| "sem_run (Down t # es) s =
     bind_res (down_inner t s) (\<lambda>(b, s').
       bind_res (sem_run es s') (\<lambda>(n, s''). Inr (of_bool b + n, s'')))"
| "sem_run (Up # es) s =
     bind_res (up_inner s) (\<lambda>(w, s').
       bind_res (sem_run es s') (\<lambda>(n, s''). Inr (of_bool (w \<noteq> None) + n, s'')))"

definition ups :: "sem_event list \<Rightarrow> nat" where
  "ups es = length (filter (\<lambda>e. e = Up) es)"

lemma ups_simps [simp]: "ups [] = 0" "ups (Down t # es) = ups es" "ups (Up # es) = Suc (ups es)"
  by (simp_all add: ups_def)

lemma sem_run_law:
  "sem_ok s \<Longrightarrow> sem_run es s = Inr (n, s') \<Longrightarrow>
     sem_ok s' \<and>
     sint (sem_count s') = sint (sem_count s) + 2 * int (ups es) - int (length es) \<and>
     int n + max 0 (sint (sem_count s')) = int (ups es) + max 0 (sint (sem_count s))"
proof (induction es s arbitrary: n s' rule: sem_run.induct)
  case (2 t es s)
  then obtain b s1 k where d: "down_inner t s = Inr (b, s1)" and k: "sem_run es s1 = Inr (k, s')"
    and n: "n = of_bool b + k" by (auto simp: bind_res_eq_Inr)
  note D = down_inner_ok[OF "2.prems"(1) d]
  from "2.IH"[OF d refl D(1) k] D(2,3) n show ?case by auto
next
  case (3 es s)
  then obtain w s1 k where u: "up_inner s = Inr (w, s1)" and k: "sem_run es s1 = Inr (k, s')"
    and n: "n = of_bool (w \<noteq> None) + k" by (auto simp: bind_res_eq_Inr)
  note U = up_inner_ok[OF "3.prems"(1) u]
  from "3.IH"[OF u refl U(1) k] U(3,4) n show ?case by (auto split: if_splits)
qed simp

lemma sem_run_total:
  "\<bar>sint (sem_count s)\<bar> + int (length es) < 2 ^ 63 \<Longrightarrow> \<exists>n s'. sem_run es s = Inr (n, s')"
proof (induction es s rule: sem_run.induct)
  case (2 t es s)
  have "sint (sem_count s) \<noteq> - (2 ^ 63)" using "2.prems" by auto
  then obtain c where c: "isize_dec (sem_count s) = Inr c" by (simp add: isize_dec_eq)
  obtain b s1 where d: "down_inner t s = Inr (b, s1)" "sem_count s1 = c"
    using c by (cases "sint c < 0") (auto simp: down_inner_def Let_def)
  have "\<bar>sint (sem_count s1)\<bar> + int (length es) < 2 ^ 63"
    using "2.prems" isize_dec_InrE[OF c] d(2) by auto
  from "2.IH"[OF d(1) refl this] d show ?case by auto
next
  case (3 es s)
  have "sint (sem_count s) \<noteq> 2 ^ 63 - 1" using "3.prems" by auto
  then obtain c where c: "isize_inc (sem_count s) = Inr c" by (simp add: isize_inc_eq)
  obtain w s1 where u: "up_inner s = Inr (w, s1)" "sem_count s1 = c"
    using c by (cases "sem_queue s") (auto simp: up_inner_def Let_def)
  have "\<bar>sint (sem_count s1)\<bar> + int (length es) < 2 ^ 63"
    using "3.prems" isize_inc_InrE[OF c] u(2) by auto
  from "3.IH"[OF u(1) refl this] u show ?case by auto
qed simp

section \<open>Properties\<close>

text \<open>C24: mutual exclusion of the blocking mutex. In every state reached from a new mutex by
  asks of any threads and releases by a thread that was granted the lock, at most one thread
  holds the lock, the lock is marked as held exactly then, and a thread waits only while
  another one holds the lock.\<close>

theorem mutex_mutual_exclusion:
  assumes "mx.run (content mutex_new, {}) (m, inside)"
  shows "(\<forall>t u. t \<in> inside \<and> u \<in> inside \<longrightarrow> t = u) \<and> (locked m \<longleftrightarrow> inside \<noteq> {}) \<and>
    (wait_queue m \<noteq> [] \<longrightarrow> inside \<noteq> {})"
proof -
  have "mx.exclusive (content mutex_new, {})"
    by (simp add: mx.exclusive_def mutex_new_def up_cell_new_def)
  from mx.mutual_exclusion[OF assms this] show ?thesis
    by (auto simp: mx.exclusive_def split: if_splits)
qed

theorem mutex_mutual_exclusion_witness:
  "locked \<lparr>locked = True, wait_queue = []\<rparr> \<longleftrightarrow> {ThreadId 2} \<noteq> {}"
proof (rule mutex_mutual_exclusion[THEN conjunct2, THEN conjunct1])
  let ?m0 = "content mutex_new"
  have a: "mx.run (?m0, {}) (\<lparr>locked = True, wait_queue = []\<rparr>, insert (ThreadId 1) {})"
    by (rule mx.granted[OF mx.start, where t = "ThreadId 1"])
      (simp add: lock_inner_def mutex_new_def up_cell_new_def)
  have b: "mx.run (?m0, {}) (\<lparr>locked = True, wait_queue = [ThreadId 2]\<rparr>, insert (ThreadId 1) {})"
    by (rule mx.parked[OF a, where t = "ThreadId 2"]) (simp add: lock_inner_def)
  have "mx.run (?m0, {})
      (\<lparr>locked = True, wait_queue = []\<rparr>, insert (ThreadId 2) (insert (ThreadId 1) {} - {ThreadId 1}))"
    by (rule mx.handed[OF b, where t = "ThreadId 1"]) (simp_all add: unlock_inner_def)
  then show "mx.run (?m0, {}) (\<lparr>locked = True, wait_queue = []\<rparr>, {ThreadId 2})" by simp
qed

text \<open>the mutex is first come, first served. Of the threads that wait when a run of events
  starts, and those that ask during it, each release wakes the one that has waited longest;
  no ask in between overtakes.\<close>

theorem mutex_first_come_first_served:
  assumes "locked m" and "mx.gives es \<le> length (wait_queue m)"
  shows "\<exists>m'. mx.exec es m = Inr (take (mx.gives es) (wait_queue m), m') \<and> locked m' \<and>
    wait_queue m' = drop (mx.gives es) (wait_queue m @ mx.asked es)"
  by (rule mx.first_come_first_served[OF assms])

theorem mutex_first_come_first_served_witness:
  "\<exists>m'. mx.exec [Ask (ThreadId 5), Give] \<lparr>locked = True, wait_queue = [ThreadId 3]\<rparr> =
      Inr (take (mx.gives [Ask (ThreadId 5), Give]) (wait_queue \<lparr>locked = True, wait_queue = [ThreadId 3]\<rparr>), m') \<and>
    locked m' \<and> wait_queue m' = drop (mx.gives [Ask (ThreadId 5), Give])
      (wait_queue \<lparr>locked = True, wait_queue = [ThreadId 3]\<rparr> @ mx.asked [Ask (ThreadId 5), Give])"
  by (rule mutex_first_come_first_served) simp_all

text \<open>C25: the counting law of the semaphore. From a semaphore with \<open>n\<close> resources, any run of
  downs and ups shorter than the range of the counter succeeds. The count moves by one per
  operation, the queue holds exactly as many threads as the count is below zero, and the downs
  granted, at once or by a wakeup, are the ups plus the drop in free resources: never more
  than \<open>n\<close> plus the ups.\<close>

theorem semaphore_counting_law:
  assumes "sem_ok s" and "\<bar>sint (sem_count s)\<bar> + int (length es) < 2 ^ 63"
  shows "\<exists>n s'. sem_run es s = Inr (n, s') \<and>
    sint (sem_count s') = sint (sem_count s) + 2 * int (ups es) - int (length es) \<and>
    int (length (sem_queue s')) = max 0 (- sint (sem_count s')) \<and>
    int n = int (ups es) + max 0 (sint (sem_count s)) - max 0 (sint (sem_count s'))"
proof -
  obtain n s' where r: "sem_run es s = Inr (n, s')" using sem_run_total[OF assms(2)] by blast
  from sem_run_law[OF assms(1) r] r show ?thesis by (auto simp: sem_ok_def)
qed

theorem semaphore_counting_law_witness:
  "\<exists>n s'. sem_run [Down (ThreadId 1), Down (ThreadId 2), Up] (content (semaphore_new 1)) = Inr (n, s') \<and>
    sint (sem_count s') = sint (sem_count (content (semaphore_new 1))) +
      2 * int (ups [Down (ThreadId 1), Down (ThreadId 2), Up]) -
      int (length [Down (ThreadId 1), Down (ThreadId 2), Up]) \<and>
    int (length (sem_queue s')) = max 0 (- sint (sem_count s')) \<and>
    int n = int (ups [Down (ThreadId 1), Down (ThreadId 2), Up]) +
      max 0 (sint (sem_count (content (semaphore_new 1)))) - max 0 (sint (sem_count s'))"
  by (rule semaphore_counting_law)
    (simp_all add: semaphore_new_def up_cell_new_def sem_ok_def)

text \<open>C26: waiting on a condition variable with the mutex held hands the mutex to the first
  thread waiting for it and puts the caller behind the others in the queue of the mutex, never
  of the condition variable; when nobody waits for the mutex the call panics. Interrupts and
  the borrow state are restored.\<close>

theorem condvar_wait_outcome:
  assumes "hart_ok h" and "nested_level h \<noteq> usize_max" and "\<not> borrowed c" and "locked (content c)"
  shows "if wait_queue (content c) = [] then condvar_wait_with_mutex t c h = Inl UnwrapNone
    else \<exists>h'. condvar_wait_with_mutex t c h =
      Inr ((False, Some (hd (wait_queue (content c)))),
           c\<lparr>content := (content c)\<lparr>wait_queue := tl (wait_queue (content c)) @ [t]\<rparr>\<rparr>, h') \<and>
      sie h' = sie h \<and> nested_level h' = nested_level h"
proof (cases "wait_queue (content c)")
  case Nil
  with condvar_wait_without_waiters[OF assms] show ?thesis by simp
next
  case (Cons u rest)
  with condvar_wait_with_mutex_eq[OF assms, of u rest t] show ?thesis
    by (auto simp: same_masking_def)
qed

theorem condvar_wait_outcome_witness:
  "if wait_queue (content (up_cell_new \<lparr>locked = True, wait_queue = [ThreadId 7]\<rparr>)) = []
   then condvar_wait_with_mutex (ThreadId 1) (up_cell_new \<lparr>locked = True, wait_queue = [ThreadId 7]\<rparr>)
          (intr_masking_new True) = Inl UnwrapNone
   else \<exists>h'. condvar_wait_with_mutex (ThreadId 1)
        (up_cell_new \<lparr>locked = True, wait_queue = [ThreadId 7]\<rparr>) (intr_masking_new True) =
      Inr ((False, Some (hd (wait_queue (content (up_cell_new \<lparr>locked = True, wait_queue = [ThreadId 7]\<rparr>))))),
           (up_cell_new \<lparr>locked = True, wait_queue = [ThreadId 7]\<rparr>)\<lparr>content :=
             (content (up_cell_new \<lparr>locked = True, wait_queue = [ThreadId 7]\<rparr>))\<lparr>wait_queue :=
               tl (wait_queue (content (up_cell_new \<lparr>locked = True, wait_queue = [ThreadId 7]\<rparr>))) @ [ThreadId 1]\<rparr>\<rparr>, h') \<and>
      sie h' = sie (intr_masking_new True) \<and> nested_level h' = nested_level (intr_masking_new True)"
  by (rule condvar_wait_outcome) (simp_all add: hart_ok_def intr_masking_new_def up_cell_new_def)

end
