(* ===== verification/Signal_Defs.thy ===== *)
theory Signal_Defs
  imports Prelude
begin

text \<open>
  \<open>tg-rcore-tutorial-signal-defs/src/lib.rs\<close>: the 64 signal numbers with their codes, the
  conversion from an integer, and the handler record shared by kernel and user.
\<close>

section \<open>Signal numbers (tg-rcore-tutorial-signal-defs)\<close>

datatype (plugins only: size code) signal_no =
    ERR | SIGHUP | SIGINT | SIGQUIT | SIGILL | SIGTRAP | SIGABRT | SIGBUS
  | SIGFPE | SIGKILL | SIGUSR1 | SIGSEGV | SIGUSR2 | SIGPIPE | SIGALRM | SIGTERM
  | SIGSTKFLT | SIGCHLD | SIGCONT | SIGSTOP | SIGTSTP | SIGTTIN | SIGTTOU | SIGURG
  | SIGXCPU | SIGXFSZ | SIGVTALRM | SIGPROF | SIGWINCH | SIGIO | SIGPWR | SIGSYS
  | SIGRTMIN | SIGRT1 | SIGRT2 | SIGRT3 | SIGRT4 | SIGRT5 | SIGRT6 | SIGRT7
  | SIGRT8 | SIGRT9 | SIGRT10 | SIGRT11 | SIGRT12 | SIGRT13 | SIGRT14 | SIGRT15
  | SIGRT16 | SIGRT17 | SIGRT18 | SIGRT19 | SIGRT20 | SIGRT21 | SIGRT22 | SIGRT23
  | SIGRT24 | SIGRT25 | SIGRT26 | SIGRT27 | SIGRT28 | SIGRT29 | SIGRT30 | SIGRT31

text \<open>The discriminants are consecutive: a signal's number is its place in this list.\<close>

definition signal_list :: "signal_no list" where
  "signal_list =
     [ERR, SIGHUP, SIGINT, SIGQUIT, SIGILL, SIGTRAP, SIGABRT, SIGBUS,
      SIGFPE, SIGKILL, SIGUSR1, SIGSEGV, SIGUSR2, SIGPIPE, SIGALRM, SIGTERM,
      SIGSTKFLT, SIGCHLD, SIGCONT, SIGSTOP, SIGTSTP, SIGTTIN, SIGTTOU, SIGURG,
      SIGXCPU, SIGXFSZ, SIGVTALRM, SIGPROF, SIGWINCH, SIGIO, SIGPWR, SIGSYS,
      SIGRTMIN, SIGRT1, SIGRT2, SIGRT3, SIGRT4, SIGRT5, SIGRT6, SIGRT7,
      SIGRT8, SIGRT9, SIGRT10, SIGRT11, SIGRT12, SIGRT13, SIGRT14, SIGRT15,
      SIGRT16, SIGRT17, SIGRT18, SIGRT19, SIGRT20, SIGRT21, SIGRT22, SIGRT23,
      SIGRT24, SIGRT25, SIGRT26, SIGRT27, SIGRT28, SIGRT29, SIGRT30, SIGRT31]"

definition signal_code :: "signal_no \<Rightarrow> nat" where
  "signal_code s = length (takeWhile (\<lambda>u. u \<noteq> s) signal_list)"

definition signal_try_from :: "u8 \<Rightarrow> signal_no option" where
  "signal_try_from n = (if unat n < 64 then Some (signal_list ! unat n) else None)"

definition signal_from_usize :: "usize \<Rightarrow> signal_no" where
  "signal_from_usize num =
     (case signal_try_from (ucast num) of Some s \<Rightarrow> s | None \<Rightarrow> ERR)"

definition max_sig :: nat where
  "max_sig = 31"

record signal_action =
  handler :: usize
  action_mask :: usize

definition signal_action_default :: signal_action where
  "signal_action_default = \<lparr>handler = 0, action_mask = 0\<rparr>"

lemma signal_list_facts: "length signal_list = 64" "distinct signal_list"
  by (simp_all add: signal_list_def)

lemma signal_list_all: "s \<in> set signal_list"
  by (cases s; simp add: signal_list_def)

lemma takeWhile_neq_nth:
  "distinct ys \<Longrightarrow> k < length ys \<Longrightarrow> length (takeWhile (\<lambda>u. u \<noteq> ys ! k) ys) = k"
proof (induction ys arbitrary: k)
  case (Cons y ys)
  then show ?case by (cases k) (auto simp: nth_eq_iff_index_eq)
qed simp

lemma signal_code_nth: "k < 64 \<Longrightarrow> signal_code (signal_list ! k) = k"
  unfolding signal_code_def by (rule takeWhile_neq_nth) (simp_all add: signal_list_facts)

lemma signal_code_cases:
  obtains k where "k < 64" "s = signal_list ! k" "signal_code s = k"
proof -
  obtain k where "k < length signal_list" "signal_list ! k = s"
    using signal_list_all[of s] by (auto simp: in_set_conv_nth)
  with signal_code_nth[of k] that[of k] show ?thesis by (simp add: signal_list_facts)
qed

lemma signal_code_less [simp]: "signal_code s < 64"
  by (rule signal_code_cases[of s]) simp

lemma signal_code_inj: "signal_code s = signal_code t \<longleftrightarrow> s = t"
  by (metis signal_code_cases)

lemma signal_from_code: "signal_from_usize (of_nat (signal_code s)) = s"
proof -
  have "unat (ucast (of_nat k :: usize) :: u8) = k" if "k < 64" for k
    using that by (simp add: unsigned_ucast_eq unat_of_nat take_bit_eq_mod)
  then have "unat (ucast (of_nat (signal_code s) :: usize) :: u8) = signal_code s" by simp
  moreover have "signal_list ! signal_code s = s" by (metis signal_code_cases)
  ultimately show ?thesis by (simp add: signal_from_usize_def signal_try_from_def)
qed

lemma signal_codes:
  "signal_code SIGKILL = 9" "signal_code SIGSTOP = 19" "signal_code SIGCONT = 18"
  "signal_code SIGCHLD = 17" "signal_code SIGURG = 23" "signal_code ERR = 0"
  "signal_code SIGSYS = 31" "signal_code SIGRTMIN = 32" "signal_code SIGUSR1 = 10"
  by (simp_all add: signal_code_def signal_list_def)

end
