(* ===== verification/Context.thy ===== *)
theory Context
  imports Prelude
begin

text \<open>
  \<open>LocalContext\<close> of \<open>tg-rcore-tutorial-kernel-context/src/lib.rs\<close>: the saved
  registers of a thread. \<open>xs\<close> is the array \<open>x: [usize; 31]\<close>, whose entry \<open>n - 1\<close>
  holds register \<open>x_n\<close>. Reading or writing a register outside 1..31 panics as in the source.
\<close>

record local_context =
  sctx :: usize
  xs :: "usize list"
  sepc :: usize
  supervisor :: bool
  interrupt :: bool

definition ctx_empty :: local_context where
  "ctx_empty = \<lparr>sctx = 0, xs = replicate 31 0, sepc = 0, supervisor = False, interrupt = False\<rparr>"

definition ctx_user :: "usize \<Rightarrow> local_context" where
  "ctx_user pc = \<lparr>sctx = 0, xs = replicate 31 0, sepc = pc, supervisor = False, interrupt = True\<rparr>"

definition ctx_thread :: "usize \<Rightarrow> bool \<Rightarrow> local_context" where
  "ctx_thread pc intr =
     \<lparr>sctx = 0, xs = replicate 31 0, sepc = pc, supervisor = True, interrupt = intr\<rparr>"

definition ctx_x :: "nat \<Rightarrow> local_context \<Rightarrow> usize res" where
  "ctx_x n c = (if n = 0 then Inl ArithOverflow else nth_res (xs c) (n - 1))"

definition ctx_set_x :: "nat \<Rightarrow> usize \<Rightarrow> local_context \<Rightarrow> local_context res" where
  "ctx_set_x n v c =
     (if n = 0 then Inl ArithOverflow
      else bind_res (update_res (xs c) (n - 1) v) (\<lambda>ys. Inr (c\<lparr>xs := ys\<rparr>)))"

definition ctx_a :: "nat \<Rightarrow> local_context \<Rightarrow> usize res" where
  "ctx_a n c = ctx_x (n + 10) c"

definition ctx_set_a :: "nat \<Rightarrow> usize \<Rightarrow> local_context \<Rightarrow> local_context res" where
  "ctx_set_a n v c = ctx_set_x (n + 10) v c"

definition ctx_ra :: "local_context \<Rightarrow> usize res" where
  "ctx_ra c = ctx_x 1 c"

definition ctx_sp :: "local_context \<Rightarrow> usize res" where
  "ctx_sp c = ctx_x 2 c"

definition ctx_set_sp :: "usize \<Rightarrow> local_context \<Rightarrow> local_context res" where
  "ctx_set_sp v c = ctx_set_x 2 v c"

definition ctx_pc :: "local_context \<Rightarrow> usize" where
  "ctx_pc c = sepc c"

definition ctx_set_pc :: "usize \<Rightarrow> local_context \<Rightarrow> local_context" where
  "ctx_set_pc v c = c\<lparr>sepc := v\<rparr>"

definition ctx_move_next :: "local_context \<Rightarrow> local_context" where
  "ctx_move_next c = c\<lparr>sepc := sepc c + 4\<rparr>"

text \<open>The array of the source has 31 entries; every operation keeps it.\<close>

definition ctx_ok :: "local_context \<Rightarrow> bool" where
  "ctx_ok c \<longleftrightarrow> length (xs c) = 31"

lemma ctx_ok_new [simp]: "ctx_ok ctx_empty" "ctx_ok (ctx_user pc)" "ctx_ok (ctx_thread pc i)"
  by (simp_all add: ctx_ok_def ctx_empty_def ctx_user_def ctx_thread_def)

lemma ctx_set_x_eq:
  "ctx_ok c \<Longrightarrow> 0 < n \<Longrightarrow> n \<le> 31 \<Longrightarrow> ctx_set_x n v c = Inr (c\<lparr>xs := (xs c)[n - 1 := v]\<rparr>)"
  by (simp add: ctx_set_x_def ctx_ok_def)

lemma ctx_x_eq: "ctx_ok c \<Longrightarrow> 0 < n \<Longrightarrow> n \<le> 31 \<Longrightarrow> ctx_x n c = Inr (xs c ! (n - 1))"
  by (simp add: ctx_x_def ctx_ok_def)

lemma ctx_set_a_eq:
  "ctx_ok c \<Longrightarrow> n \<le> 7 \<Longrightarrow> ctx_set_a n v c = Inr (c\<lparr>xs := (xs c)[n + 9 := v]\<rparr>)"
  by (simp add: ctx_set_a_def ctx_set_x_eq add.commute)

lemma ctx_a_eq: "ctx_ok c \<Longrightarrow> n \<le> 7 \<Longrightarrow> ctx_a n c = Inr (xs c ! (n + 9))"
  by (simp add: ctx_a_def ctx_x_eq add.commute)

lemma ctx_ok_set_x [wf_intros]: "ctx_ok c \<Longrightarrow> ctx_set_x n v c = Inr c' \<Longrightarrow> ctx_ok c'"
  by (auto simp: ctx_set_x_def ctx_ok_def bind_res_eq_Inr update_res_eq_Inr split: if_splits)

lemma ctx_ok_set_a [wf_intros]: "ctx_ok c \<Longrightarrow> ctx_set_a n v c = Inr c' \<Longrightarrow> ctx_ok c'"
  by (auto simp: ctx_set_a_def intro: ctx_ok_set_x)

lemma ctx_ok_set_pc [simp]: "ctx_ok (ctx_set_pc v c) = ctx_ok c"
  "ctx_ok (ctx_move_next c) = ctx_ok c"
  by (simp_all add: ctx_ok_def ctx_set_pc_def ctx_move_next_def)

lemma ctx_x_set_x:
  assumes "ctx_ok c" "ctx_set_x n v c = Inr c'"
  shows "ctx_x m c' = (if m = n then Inr v else ctx_x m c)"
proof -
  have n: "n \<noteq> 0" "n - 1 < length (xs c)" and c': "c' = c\<lparr>xs := (xs c)[n - 1 := v]\<rparr>"
    using assms(2) by (auto simp: ctx_set_x_def bind_res_eq_Inr update_res_eq_Inr split: if_splits)
  show ?thesis
  proof (cases "m = 0")
    case True
    with n show ?thesis by (simp add: ctx_x_def)
  next
    case False
    then have "m - 1 = n - 1 \<longleftrightarrow> m = n" using n by auto
    with n False show ?thesis by (auto simp: ctx_x_def c' nth_res_def)
  qed
qed

text \<open>A thread of another address space (\<open>foreign/mod.rs\<close>).\<close>

record foreign_context =
  local_ctx :: local_context
  satp :: usize

end
