(* ===== verification/Signals.thy ===== *)
theory Signals
  imports Signal_Defs Context
begin

text \<open>
  Signals of a process: \<open>tg-rcore-tutorial-signal/src/signal_result.rs\<close> gives the results,
  and \<open>tg-rcore-tutorial-signal-impl\<close> the state machine: \<open>signal_set.rs\<close>,
  \<open>default_action.rs\<close> and \<open>lib.rs\<close>.

  The machine is compared with an abstract one over sets of signals: \<open>spec_handle\<close> takes
  the least pending signal that is not masked. The lemmas give the answer of the code on
  every branch, the round trip through a user handler, and the exact panic condition.
\<close>

section \<open>Sets of signals (signal\_set.rs)\<close>

type_synonym signal_set = usize

definition set_empty :: signal_set where
  "set_empty = 0"

definition set_clear :: "signal_set \<Rightarrow> signal_set" where
  "set_clear s = 0"

definition contain_bit :: "nat \<Rightarrow> signal_set \<Rightarrow> bool res" where
  "contain_bit k s = bind_res (shr_usize s k) (\<lambda>w. Inr (w AND 1 > 0))"

definition add_bit :: "nat \<Rightarrow> signal_set \<Rightarrow> signal_set res" where
  "add_bit k s = bind_res (shl_one k) (\<lambda>b. Inr (s OR b))"

definition remove_bit :: "nat \<Rightarrow> signal_set \<Rightarrow> signal_set res" where
  "remove_bit k s = bind_res (shl_one k) (\<lambda>b. Inr (s AND NOT b))"

definition get_union :: "signal_set \<Rightarrow> signal_set \<Rightarrow> signal_set" where
  "get_union other s = s OR other"

definition get_difference :: "signal_set \<Rightarrow> signal_set \<Rightarrow> signal_set" where
  "get_difference other s = s AND NOT other"

definition set_new :: "signal_set \<Rightarrow> signal_set \<Rightarrow> usize \<times> signal_set" where
  "set_new new s = (s, new)"

definition get_trailing_zeros :: "signal_set \<Rightarrow> nat" where
  "get_trailing_zeros s = trailing_zeros s"

definition find_first_one :: "signal_set \<Rightarrow> signal_set \<Rightarrow> nat option" where
  "find_first_one masked s =
     (let ans = trailing_zeros (s AND NOT masked) in if ans = 64 then None else Some ans)"

text \<open>The set of signal numbers a word stands for.\<close>

definition members :: "signal_set \<Rightarrow> nat set" where
  "members s = {k. bit s k}"

lemma bit_below_64: "bit (s :: usize) k \<Longrightarrow> k < 64"
  using bit_imp_le_length[of s k] by simp

lemma finite_members [simp]: "finite (members s)"
  by (rule finite_subset[of _ "{..<64}"]) (auto simp: members_def dest: bit_below_64)

lemma contain_bit_eq: "k < 64 \<Longrightarrow> contain_bit k s = Inr (k \<in> members s)"
proof -
  have "drop_bit k s AND 1 > 0 \<longleftrightarrow> bit s k"
    by (simp add: word_greater_zero_iff and_one_eq odd_iff_mod_2_eq_one[symmetric] bit_iff_odd_drop_bit
        flip: even_iff_mod_2_eq_zero)
  then show "k < 64 \<Longrightarrow> contain_bit k s = Inr (k \<in> members s)"
    by (simp add: contain_bit_def shr_usize_def members_def)
qed

lemma add_bit_eq:
  "k < 64 \<Longrightarrow> \<exists>s'. add_bit k s = Inr s' \<and> members s' = insert k (members s)"
  by (auto simp: add_bit_def shl_one_def members_def bit_or_iff bit_single simp del: push_bit_of_1)

lemma remove_bit_eq:
  "k < 64 \<Longrightarrow> \<exists>s'. remove_bit k s = Inr s' \<and> members s' = members s - {k}"
  by (auto simp: remove_bit_def shl_one_def members_def bit_and_iff bit_not_iff bit_single
      simp del: push_bit_of_1 dest: bit_below_64)

lemma members_union [simp]: "members (get_union t s) = members s \<union> members t"
  by (auto simp: members_def get_union_def bit_or_iff)

lemma members_difference [simp]: "members (get_difference t s) = members s - members t"
  by (auto simp: members_def get_difference_def bit_and_iff bit_not_iff dest: bit_below_64)

lemma members_empty [simp]: "members set_empty = {}"
  by (simp add: members_def set_empty_def)

lemma find_first_one_eq:
  "find_first_one masked s =
     (if members s - members masked = {} then None else Some (Min (members s - members masked)))"
proof -
  let ?w = "s AND NOT masked"
  have m: "members ?w = members s - members masked"
    using members_difference[of masked s] by (simp add: get_difference_def)
  have fin: "finite (members ?w)" by simp
  show ?thesis
  proof (cases "trailing_zeros ?w = 64")
    case True
    then have "?w = 0" by (simp add: trailing_zeros_64_iff)
    then have "members ?w = {}" by (simp add: members_def)
    with True m show ?thesis by (simp add: find_first_one_def)
  next
    case False
    then have lt: "trailing_zeros ?w < 64" using trailing_zeros_le[of ?w] by simp
    have mem: "trailing_zeros ?w \<in> members ?w"
      using trailing_zeros_at[OF lt] by (simp add: members_def)
    have "Min (members ?w) = trailing_zeros ?w"
      by (rule Min_eqI[OF fin _ mem])
        (metis linorder_not_le mem_Collect_eq members_def trailing_zeros_below)
    with False mem show ?thesis unfolding m[symmetric] by (auto simp: find_first_one_def)
  qed
qed

section \<open>Results and default actions\<close>

datatype signal_result =
    NoSignal
  | IsHandlingSignal
  | Ignored
  | Handled
  | ProcessKilled i32
  | ProcessSuspended

datatype default_action = Terminate i32 | Ignore

definition default_action_from :: "signal_no \<Rightarrow> default_action" where
  "default_action_from s =
     (if s = SIGCHLD \<or> s = SIGURG then Ignore else Terminate (- of_nat (signal_code s)))"

definition default_action_into :: "default_action \<Rightarrow> signal_result" where
  "default_action_into a =
     (case a of Terminate exit_code \<Rightarrow> ProcessKilled exit_code | Ignore \<Rightarrow> Ignored)"

section \<open>SignalImpl (tg-rcore-tutorial-signal-impl/src/lib.rs)\<close>

datatype handling_signal = Frozen | UserSignal local_context

record signal_impl =
  received :: signal_set
  mask :: signal_set
  handling :: "handling_signal option"
  actions :: "signal_action option list"

definition signal_impl_new :: signal_impl where
  "signal_impl_new =
     \<lparr>received = set_empty, mask = set_empty, handling = None,
      actions = replicate (max_sig + 1) None\<rparr>"

definition fetch_signal :: "signal_impl \<Rightarrow> (signal_no option \<times> signal_impl) res" where
  "fetch_signal s =
     (case find_first_one (mask s) (received s) of
        Some num \<Rightarrow>
          bind_res (remove_bit num (received s)) (\<lambda>r.
            Inr (Some (signal_from_usize (of_nat num)), s\<lparr>received := r\<rparr>))
      | None \<Rightarrow> Inr (None, s))"

definition fetch_and_remove :: "signal_no \<Rightarrow> signal_impl \<Rightarrow> (bool \<times> signal_impl) res" where
  "fetch_and_remove signal_no s =
     bind_res (contain_bit (signal_code signal_no) (received s)) (\<lambda>pending.
       bind_res (if pending then contain_bit (signal_code signal_no) (mask s) else Inr False) (\<lambda>masked.
         if pending \<and> \<not> masked then
           bind_res (remove_bit (signal_code signal_no) (received s)) (\<lambda>r.
             Inr (True, s\<lparr>received := r\<rparr>))
         else Inr (False, s)))"

definition from_fork :: "signal_impl \<Rightarrow> signal_impl" where
  "from_fork s = \<lparr>received = set_empty, mask = mask s, handling = None, actions = actions s\<rparr>"

definition clear_actions :: "signal_impl \<Rightarrow> signal_impl" where
  "clear_actions s = s\<lparr>actions := map (\<lambda>_. None) (actions s)\<rparr>"

definition add_signal :: "signal_no \<Rightarrow> signal_impl \<Rightarrow> signal_impl res" where
  "add_signal signal s =
     bind_res (add_bit (signal_code signal) (received s)) (\<lambda>r. Inr (s\<lparr>received := r\<rparr>))"

definition is_handling_signal :: "signal_impl \<Rightarrow> bool" where
  "is_handling_signal s \<longleftrightarrow> handling s \<noteq> None"

definition set_action :: "signal_no \<Rightarrow> signal_action \<Rightarrow> signal_impl \<Rightarrow> (bool \<times> signal_impl) res" where
  "set_action signum action s =
     (if signum = SIGKILL \<or> signum = SIGSTOP then Inr (False, s)
      else bind_res (update_res (actions s) (signal_code signum) (Some action)) (\<lambda>as.
             Inr (True, s\<lparr>actions := as\<rparr>)))"

definition get_action_ref :: "signal_no \<Rightarrow> signal_impl \<Rightarrow> signal_action option res" where
  "get_action_ref signum s =
     (if signum = SIGKILL \<or> signum = SIGSTOP then Inr None
      else bind_res (nth_res (actions s) (signal_code signum)) (\<lambda>a.
             Inr (Some (case a of Some act \<Rightarrow> act | None \<Rightarrow> signal_action_default))))"

definition update_mask :: "usize \<Rightarrow> signal_impl \<Rightarrow> usize \<times> signal_impl" where
  "update_mask m s = (case set_new m (mask s) of (old, new) \<Rightarrow> (old, s\<lparr>mask := new\<rparr>))"

definition handle_signals ::
  "local_context \<Rightarrow> signal_impl \<Rightarrow> (signal_result \<times> local_context \<times> signal_impl) res" where
  "handle_signals ctx s =
     (if is_handling_signal s then
        bind_res (unwrap (handling s)) (\<lambda>h.
          case h of
            Frozen \<Rightarrow>
              bind_res (fetch_and_remove SIGCONT s) (\<lambda>(found, s1).
                if found then Inr (Handled, ctx, s1\<lparr>handling := None\<rparr>)
                else Inr (ProcessSuspended, ctx, s1))
          | UserSignal _ \<Rightarrow> Inr (IsHandlingSignal, ctx, s))
      else
        bind_res (fetch_signal s) (\<lambda>(fetched, s1).
          case fetched of
            None \<Rightarrow> Inr (NoSignal, ctx, s1)
          | Some signal \<Rightarrow>
              if signal = SIGKILL then
                Inr (ProcessKilled (- of_nat (signal_code signal)), ctx, s1)
              else if signal = SIGSTOP then
                Inr (ProcessSuspended, ctx, s1\<lparr>handling := Some Frozen\<rparr>)
              else
                bind_res (nth_res (actions s1) (signal_code signal)) (\<lambda>a.
                  case a of
                    Some action \<Rightarrow>
                      bind_res (ctx_set_a 0 (of_nat (signal_code signal))
                                 (ctx_set_pc (handler action) ctx)) (\<lambda>ctx'.
                        Inr (Handled, ctx', s1\<lparr>handling := Some (UserSignal ctx)\<rparr>))
                  | None \<Rightarrow>
                      Inr (default_action_into (default_action_from signal), ctx, s1))))"

definition sig_return :: "local_context \<Rightarrow> signal_impl \<Rightarrow> bool \<times> local_context \<times> signal_impl" where
  "sig_return ctx s =
     (case handling s of
        Some (UserSignal old_ctx) \<Rightarrow> (True, old_ctx, s\<lparr>handling := None\<rparr>)
      | _ \<Rightarrow> (False, ctx, s))"

section \<open>The invariant\<close>

definition signals_ok :: "signal_impl \<Rightarrow> bool" where
  "signals_ok s \<longleftrightarrow> length (actions s) = 32"

lemma signals_ok_new [simp]: "signals_ok signal_impl_new"
  by (simp add: signals_ok_def signal_impl_new_def max_sig_def)

lemma signals_ok_simps [simp]:
  "signals_ok (s\<lparr>received := r\<rparr>) = signals_ok s" "signals_ok (s\<lparr>mask := m\<rparr>) = signals_ok s"
  "signals_ok (s\<lparr>handling := h\<rparr>) = signals_ok s" "signals_ok (from_fork s) = signals_ok s"
  "signals_ok (clear_actions s) = signals_ok s"
  by (simp_all add: signals_ok_def from_fork_def clear_actions_def)

section \<open>The abstract machine\<close>

record abs_signals =
  pending :: "nat set"
  blocked :: "nat set"
  phase :: "handling_signal option"
  table :: "nat \<Rightarrow> signal_action option"

definition entry_at :: "'a option list \<Rightarrow> nat \<Rightarrow> 'a option" where
  "entry_at ys k = (if k < length ys then ys ! k else None)"

definition abs_signals :: "signal_impl \<Rightarrow> abs_signals" where
  "abs_signals s =
     \<lparr>pending = members (received s), blocked = members (mask s), phase = handling s,
      table = entry_at (actions s)\<rparr>"

definition spec_deliver ::
  "nat \<Rightarrow> local_context \<Rightarrow> abs_signals \<Rightarrow> (signal_result \<times> local_context \<times> abs_signals) res" where
  "spec_deliver k ctx a =
     (if k = 9 then Inr (ProcessKilled (- 9), ctx, a)
      else if k = 19 then Inr (ProcessSuspended, ctx, a\<lparr>phase := Some Frozen\<rparr>)
      else if 31 < k then Inl IndexOutOfBounds
      else (case table a k of
              Some act \<Rightarrow>
                Inr (Handled, ctx\<lparr>sepc := handler act, xs := (xs ctx)[9 := of_nat k]\<rparr>,
                     a\<lparr>phase := Some (UserSignal ctx)\<rparr>)
            | None \<Rightarrow>
                Inr (if k = 17 \<or> k = 23 then Ignored else ProcessKilled (- of_nat k), ctx, a)))"

definition spec_handle ::
  "local_context \<Rightarrow> abs_signals \<Rightarrow> (signal_result \<times> local_context \<times> abs_signals) res" where
  "spec_handle ctx a =
     (case phase a of
        Some Frozen \<Rightarrow>
          if 18 \<in> pending a - blocked a
          then Inr (Handled, ctx, a\<lparr>pending := pending a - {18}, phase := None\<rparr>)
          else Inr (ProcessSuspended, ctx, a)
      | Some (UserSignal _) \<Rightarrow> Inr (IsHandlingSignal, ctx, a)
      | None \<Rightarrow>
          if pending a - blocked a = {} then Inr (NoSignal, ctx, a)
          else let k = Min (pending a - blocked a)
               in spec_deliver k ctx (a\<lparr>pending := pending a - {k}\<rparr>))"

definition abs_answer ::
  "signal_result \<times> local_context \<times> signal_impl \<Rightarrow> signal_result \<times> local_context \<times> abs_signals" where
  "abs_answer = (\<lambda>(r, ctx, s). (r, ctx, abs_signals s))"

lemma abs_signals_simps [simp]:
  "pending (abs_signals s) = members (received s)" "blocked (abs_signals s) = members (mask s)"
  "phase (abs_signals s) = handling s"
  "table (abs_signals s) = entry_at (actions s)"
  by (simp_all add: abs_signals_def)

lemma abs_signals_upd:
  "abs_signals (s\<lparr>handling := h\<rparr>) = abs_signals s\<lparr>phase := h\<rparr>"
  "members r = P \<Longrightarrow> abs_signals (s\<lparr>received := r\<rparr>) = abs_signals s\<lparr>pending := P\<rparr>"
  "members r = P \<Longrightarrow>
     abs_signals (s\<lparr>received := r, handling := h\<rparr>) = abs_signals s\<lparr>pending := P, phase := h\<rparr>"
  by (simp_all add: abs_signals_def)

lemma fetch_signal_eq:
  shows "members (received s) - members (mask s) = {} \<Longrightarrow> fetch_signal s = Inr (None, s)"
    and "members (received s) - members (mask s) \<noteq> {} \<Longrightarrow>
      \<exists>r k. k = Min (members (received s) - members (mask s)) \<and> k < 64 \<and>
        fetch_signal s = Inr (Some (signal_from_usize (of_nat k)), s\<lparr>received := r\<rparr>) \<and>
        members r = members (received s) - {k}"
proof -
  let ?d = "members (received s) - members (mask s)"
  show "?d = {} \<Longrightarrow> fetch_signal s = Inr (None, s)"
    by (simp add: fetch_signal_def find_first_one_eq)
  assume ne: "?d \<noteq> {}"
  then have "Min ?d \<in> ?d" by (intro Min_in) auto
  then have k: "Min ?d < 64" by (auto simp: members_def dest: bit_below_64)
  obtain r where "remove_bit (Min ?d) (received s) = Inr r" "members r = members (received s) - {Min ?d}"
    using remove_bit_eq[OF k] by blast
  with ne k show "\<exists>r k. k = Min ?d \<and> k < 64 \<and>
        fetch_signal s = Inr (Some (signal_from_usize (of_nat k)), s\<lparr>received := r\<rparr>) \<and>
        members r = members (received s) - {k}"
    by (auto simp: fetch_signal_def find_first_one_eq)
qed

lemma fetch_and_remove_eq:
  "\<exists>r. fetch_and_remove sg s =
     Inr (signal_code sg \<in> members (received s) - members (mask s), s\<lparr>received := r\<rparr>) \<and>
     members r = (if signal_code sg \<in> members (received s) - members (mask s)
                  then members (received s) - {signal_code sg} else members (received s))"
proof (cases "signal_code sg \<in> members (received s) - members (mask s)")
  case True
  obtain r where "remove_bit (signal_code sg) (received s) = Inr r"
    "members r = members (received s) - {signal_code sg}"
    using remove_bit_eq[of "signal_code sg"] by auto
  with True show ?thesis by (auto simp: fetch_and_remove_def contain_bit_eq)
next
  case False
  then have "fetch_and_remove sg s = Inr (False, s)"
    by (auto simp: fetch_and_remove_def contain_bit_eq)
  with False show ?thesis by (intro exI[of _ "received s"]) auto
qed

lemma signal_of_nat: "k < 64 \<Longrightarrow> signal_code (signal_from_usize (of_nat k)) = k"
  by (metis signal_code_nth signal_from_code)

lemma default_action_code:
  "default_action_into (default_action_from s) =
     (if signal_code s = 17 \<or> signal_code s = 23 then Ignored
      else ProcessKilled (- of_nat (signal_code s)))"
proof -
  have "s = SIGCHLD \<longleftrightarrow> signal_code s = 17" "s = SIGURG \<longleftrightarrow> signal_code s = 23"
    using signal_code_inj[of s SIGCHLD] signal_code_inj[of s SIGURG] by (auto simp: signal_codes)
  then show ?thesis by (simp add: default_action_from_def default_action_into_def)
qed

lemma signal_eq_code:
  "s = SIGKILL \<longleftrightarrow> signal_code s = 9" "s = SIGSTOP \<longleftrightarrow> signal_code s = 19"
  using signal_code_inj[of s SIGKILL] signal_code_inj[of s SIGSTOP] by (auto simp: signal_codes)

lemma ctx_enter_handler:
  "ctx_ok ctx \<Longrightarrow>
     ctx_set_a 0 v (ctx_set_pc p ctx) = Inr (ctx\<lparr>sepc := p, xs := (xs ctx)[9 := v]\<rparr>)"
  by (simp add: ctx_set_a_eq) (simp add: ctx_set_pc_def)

lemma handle_refines_spec:
  assumes ok: "signals_ok s" and ctx: "ctx_ok ctx"
  shows "bind_res (handle_signals ctx s) (\<lambda>x. Inr (abs_answer x)) = spec_handle ctx (abs_signals s)"
proof (cases "handling s")
  case (Some h)
  show ?thesis
  proof (cases h)
    case Frozen
    obtain r where r: "fetch_and_remove SIGCONT s =
        Inr (18 \<in> members (received s) - members (mask s), s\<lparr>received := r\<rparr>)"
      "members r = (if 18 \<in> members (received s) - members (mask s)
                    then members (received s) - {18} else members (received s))"
      using fetch_and_remove_eq[of SIGCONT s] by (auto simp: signal_codes)
    show ?thesis
    proof (cases "18 \<in> members (received s) - members (mask s)")
      case True
      with Some Frozen r show ?thesis
        by (simp add: handle_signals_def is_handling_signal_def spec_handle_def abs_answer_def
            abs_signals_upd)
    next
      case False
      have "abs_signals (s\<lparr>received := r\<rparr>) = abs_signals s"
        using False r by (auto simp: abs_signals_def)
      with False Some Frozen r show ?thesis
        by (simp add: handle_signals_def is_handling_signal_def spec_handle_def abs_answer_def)
    qed
  next
    case (UserSignal c)
    with Some show ?thesis
      by (simp add: handle_signals_def is_handling_signal_def spec_handle_def abs_answer_def)
  qed
next
  case None
  let ?d = "members (received s) - members (mask s)"
  show ?thesis
  proof (cases "?d = {}")
    case True
    with None fetch_signal_eq(1)[OF True] show ?thesis
      by (simp add: handle_signals_def is_handling_signal_def spec_handle_def abs_answer_def)
  next
    case False
    obtain r k where k: "k = Min ?d" "k < 64" and
      f0: "fetch_signal s = Inr (Some (signal_from_usize (of_nat k)), s\<lparr>received := r\<rparr>)" and
      r: "members r = members (received s) - {k}"
      using fetch_signal_eq(2)[OF False] by blast
    obtain sg where f: "fetch_signal s = Inr (Some sg, s\<lparr>received := r\<rparr>)" and code: "signal_code sg = k"
      using f0 signal_of_nat[OF k(2)] by blast
    have spec: "spec_handle ctx (abs_signals s) =
        spec_deliver k ctx ((abs_signals s)\<lparr>pending := members (received s) - {k}\<rparr>)"
      using None False k(1) by (simp add: spec_handle_def Let_def)
    note a0 = ctx_enter_handler[OF ctx]
    note simps = handle_signals_def is_handling_signal_def spec_deliver_def abs_answer_def
      signal_eq_code code default_action_code abs_signals_upd(2)[OF r] abs_signals_upd(3)[OF r] r
    have len: "length (actions s) = 32" using ok by (simp add: signals_ok_def)
    show ?thesis
      unfolding spec using None f len
      by (cases "k = 9"; cases "k = 19"; cases "31 < k"; cases "actions s ! k")
        (simp_all add: simps a0 abs_signals_upd entry_at_def)
  qed
qed

section \<open>Runs\<close>

text \<open>What the kernel does to the signals of a process, in any order.\<close>

datatype sig_op =
    Raise signal_no
  | SetMask usize
  | SetAction signal_no signal_action
  | Deliver
  | Return

datatype sig_answer = Done | OldMask usize | Accepted bool | Result signal_result

definition sig_step ::
  "sig_op \<Rightarrow> local_context \<times> signal_impl \<Rightarrow> (sig_answer \<times> local_context \<times> signal_impl) res" where
  "sig_step p = (\<lambda>(ctx, s).
     case p of
       Raise sg \<Rightarrow> bind_res (add_signal sg s) (\<lambda>s'. Inr (Done, ctx, s'))
     | SetMask m \<Rightarrow> (case update_mask m s of (old, s') \<Rightarrow> Inr (OldMask old, ctx, s'))
     | SetAction sg act \<Rightarrow> bind_res (set_action sg act s) (\<lambda>(b, s'). Inr (Accepted b, ctx, s'))
     | Deliver \<Rightarrow> bind_res (handle_signals ctx s) (\<lambda>(r, ctx', s'). Inr (Result r, ctx', s'))
     | Return \<Rightarrow> (case sig_return ctx s of (b, ctx', s') \<Rightarrow> Inr (Accepted b, ctx', s')))"

fun sig_run ::
  "sig_op list \<Rightarrow> local_context \<times> signal_impl \<Rightarrow> (sig_answer list \<times> local_context \<times> signal_impl) res" where
  "sig_run [] st = Inr ([], st)"
| "sig_run (p # ps) st =
     bind_res (sig_step p st) (\<lambda>(a, st').
       bind_res (sig_run ps st') (\<lambda>(as, st''). Inr (a # as, st'')))"

definition word_of_members :: "nat set \<Rightarrow> usize" where
  "word_of_members M = horner_sum of_bool 2 (map (\<lambda>k. k \<in> M) [0..<64])"

definition spec_step ::
  "sig_op \<Rightarrow> local_context \<times> abs_signals \<Rightarrow> (sig_answer \<times> local_context \<times> abs_signals) res" where
  "spec_step p = (\<lambda>(ctx, a).
     case p of
       Raise sg \<Rightarrow> Inr (Done, ctx, a\<lparr>pending := insert (signal_code sg) (pending a)\<rparr>)
     | SetMask m \<Rightarrow> Inr (OldMask (word_of_members (blocked a)), ctx, a\<lparr>blocked := members m\<rparr>)
     | SetAction sg act \<Rightarrow>
         if signal_code sg = 9 \<or> signal_code sg = 19 then Inr (Accepted False, ctx, a)
         else if 31 < signal_code sg then Inl IndexOutOfBounds
         else Inr (Accepted True, ctx, a\<lparr>table := (table a)(signal_code sg := Some act)\<rparr>)
     | Deliver \<Rightarrow> bind_res (spec_handle ctx a) (\<lambda>(r, ctx', a'). Inr (Result r, ctx', a'))
     | Return \<Rightarrow>
         Inr (case phase a of
                Some (UserSignal old) \<Rightarrow> (Accepted True, old, a\<lparr>phase := None\<rparr>)
              | _ \<Rightarrow> (Accepted False, ctx, a)))"

fun spec_run ::
  "sig_op list \<Rightarrow> local_context \<times> abs_signals \<Rightarrow> (sig_answer list \<times> local_context \<times> abs_signals) res" where
  "spec_run [] st = Inr ([], st)"
| "spec_run (p # ps) st =
     bind_res (spec_step p st) (\<lambda>(a, st').
       bind_res (spec_run ps st') (\<lambda>(as, st''). Inr (a # as, st'')))"

lemma word_of_members_members: "word_of_members (members w) = w"
  by (rule bit_word_eqI) (simp add: word_of_members_def bit_horner_sum_bit_word_iff members_def)

definition run_ok :: "local_context \<times> signal_impl \<Rightarrow> bool" where
  "run_ok st \<longleftrightarrow> ctx_ok (fst st) \<and> signals_ok (snd st) \<and>
     (\<forall>c. handling (snd st) = Some (UserSignal c) \<longrightarrow> ctx_ok c)"

definition abs_st :: "'x \<times> local_context \<times> signal_impl \<Rightarrow> 'x \<times> local_context \<times> abs_signals" where
  "abs_st = (\<lambda>(x, ctx, s). (x, ctx, abs_signals s))"

lemma entry_at_update:
  "k < length as \<Longrightarrow> entry_at (as[k := v]) = (entry_at as)(k := v)"
  by (auto simp: entry_at_def fun_eq_iff nth_list_update)

lemma sig_step_refines:
  assumes "run_ok st"
  shows "bind_res (sig_step p st) (\<lambda>x. Inr (abs_st x)) = spec_step p (fst st, abs_signals (snd st))"
proof -
  obtain ctx s where st: "st = (ctx, s)" by (cases st)
  have len: "length (actions s) = 32" and ctx: "ctx_ok ctx" "signals_ok s"
    using assms by (auto simp: run_ok_def st signals_ok_def)
  show ?thesis
  proof (cases p)
    case (Raise sg)
    obtain r where "add_bit (signal_code sg) (received s) = Inr r"
      "members r = insert (signal_code sg) (members (received s))"
      using add_bit_eq[of "signal_code sg" "received s"] by auto
    with Raise show ?thesis
      by (simp add: sig_step_def spec_step_def st add_signal_def abs_st_def abs_signals_upd)
  next
    case (SetMask m)
    then show ?thesis
      by (simp add: sig_step_def spec_step_def st update_mask_def set_new_def abs_st_def
          word_of_members_members abs_signals_def)
  next
    case (SetAction sg act)
    then show ?thesis
      using len
      by (cases "signal_code sg = 9"; cases "signal_code sg = 19"; cases "31 < signal_code sg")
        (simp_all add: sig_step_def spec_step_def st set_action_def abs_st_def signal_eq_code
          abs_signals_def entry_at_update)
  next
    case Deliver
    have "sig_step p st = bind_res (handle_signals ctx s) (\<lambda>x. Inr (map_prod Result id x))"
      using Deliver by (auto simp: sig_step_def st intro!: bind_res_cong)
    then have "bind_res (sig_step p st) (\<lambda>x. Inr (abs_st x)) =
        bind_res (bind_res (handle_signals ctx s) (\<lambda>x. Inr (abs_answer x)))
          (\<lambda>x. Inr (map_prod Result id x))"
      by (auto simp: bind_res_assoc abs_st_def abs_answer_def intro!: bind_res_cong)
    also have "\<dots> = spec_step p (fst st, abs_signals (snd st))"
      using Deliver handle_refines_spec[OF ctx(2,1)]
      by (auto simp: spec_step_def st intro!: bind_res_cong)
    finally show ?thesis .
  next
    case Return
    then show ?thesis
      by (auto simp: sig_step_def spec_step_def st sig_return_def abs_st_def abs_signals_upd
          split: option.splits handling_signal.splits)
  qed
qed

lemma fetch_signal_keeps:
  "fetch_signal s = Inr (f, s') \<Longrightarrow> actions s' = actions s \<and> handling s' = handling s \<and> mask s' = mask s"
  by (auto simp: fetch_signal_def bind_res_eq_Inr split: option.splits)

lemma handle_signals_run_ok:
  assumes ok: "run_ok (ctx, s)" and h: "handle_signals ctx s = Inr (r, ctx', s')"
  shows "run_ok (ctx', s')"
proof -
  have c: "ctx_ok ctx" "length (actions s) = 32"
    "\<And>old. handling s = Some (UserSignal old) \<Longrightarrow> ctx_ok old"
    using ok by (auto simp: run_ok_def signals_ok_def)
  show ?thesis
  proof (cases "handling s")
    case (Some hs)
    obtain b s1 where fr: "fetch_and_remove SIGCONT s = Inr (b, s1)"
      "actions s1 = actions s" "handling s1 = handling s"
      using fetch_and_remove_eq[of SIGCONT s] by force
    show ?thesis
      using h Some c fr
      by (cases hs; cases b)
        (auto simp: handle_signals_def is_handling_signal_def run_ok_def signals_ok_def)
  next
    case None
    then obtain f s1 where f: "fetch_signal s = Inr (f, s1)"
      using h by (auto simp: handle_signals_def is_handling_signal_def bind_res_eq_Inr)
    note keep = fetch_signal_keeps[OF f]
    have user: "ctx_ok ctx'" if "ctx_set_a 0 v (ctx_set_pc p ctx) = Inr ctx'" for v p
      using ctx_ok_set_a[OF _ that] c(1) by simp
    show ?thesis
      using h None f keep c user
      by (auto simp: handle_signals_def is_handling_signal_def run_ok_def signals_ok_def
          bind_res_eq_Inr nth_res_eq_Inr split: option.splits if_splits)
  qed
qed

lemma sig_step_ok:
  assumes "run_ok st" "sig_step p st = Inr (a, st')"
  shows "run_ok st'"
proof -
  obtain ctx s where st: "st = (ctx, s)" by (cases st)
  show ?thesis
  proof (cases p)
    case Deliver
    then show ?thesis
      using assms handle_signals_run_ok[of ctx s] by (auto simp: sig_step_def st bind_res_eq_Inr)
  next
    case Return
    then show ?thesis
      using assms
      by (auto simp: sig_step_def st sig_return_def run_ok_def split: option.splits handling_signal.splits)
  qed (use assms in \<open>auto simp: sig_step_def st run_ok_def signals_ok_def add_signal_def update_mask_def
        set_new_def set_action_def bind_res_eq_Inr update_res_eq_Inr split: if_splits\<close>)
qed

lemma sig_run_refines:
  "run_ok st \<Longrightarrow>
     bind_res (sig_run ps st) (\<lambda>x. Inr (abs_st x)) = spec_run ps (fst st, abs_signals (snd st))"
proof (induction ps arbitrary: st)
  case Nil
  then show ?case by (simp add: abs_st_def case_prod_beta)
next
  case (Cons p ps)
  note step = sig_step_refines[OF Cons.prems, of p, symmetric]
  show ?case
  proof (cases "sig_step p st")
    case (Inl e)
    with step show ?thesis by simp
  next
    case (Inr x)
    obtain a ctx s where x: "x = (a, ctx, s)" by (cases x)
    have "run_ok (ctx, s)" using sig_step_ok[OF Cons.prems] Inr x by simp
    from Cons.IH[OF this, symmetric] step Inr x show ?thesis
      by (auto simp: abs_st_def bind_res_assoc case_prod_beta)
  qed
qed

section \<open>Properties\<close>

text \<open>C13: the signal machine implements its abstract specification. For any sequence of
  raising signals, setting the mask, installing actions, delivering and returning, from a
  well-formed state, the code answers what the machine over sets of signals answers, panics
  exactly when it does, and ends in the state it abstracts to; delivery takes the least pending
  signal that is not masked.\<close>

theorem signal_runs_refine_spec:
  assumes "run_ok (ctx, s)"
  shows "bind_res (sig_run ps (ctx, s)) (\<lambda>x. Inr (abs_st x)) = spec_run ps (ctx, abs_signals s)"
  using sig_run_refines[OF assms, of ps] by simp

theorem signal_runs_refine_spec_witness:
  "bind_res (sig_run [Raise SIGUSR1, SetAction SIGUSR1 \<lparr>handler = 64, action_mask = 0\<rparr>, Deliver, Return]
      (ctx_user 16, signal_impl_new)) (\<lambda>x. Inr (abs_st x)) =
   spec_run [Raise SIGUSR1, SetAction SIGUSR1 \<lparr>handler = 64, action_mask = 0\<rparr>, Deliver, Return]
      (ctx_user 16, abs_signals signal_impl_new)"
  by (rule signal_runs_refine_spec) (simp add: run_ok_def, simp add: signal_impl_new_def)

text \<open>C14: a user handler is transparent. When delivery enters a handler, the program counter
  is the handler's address and register a0 the signal number; whatever the handler does to its
  context, and whatever signals, masks and actions change meanwhile, \<open>sig_return\<close> restores
  exactly the context that was interrupted, and no other signal was delivered in between.\<close>

theorem handler_round_trip:
  assumes "ctx_ok ctx" and "\<not> is_handling_signal s"
    and "handle_signals ctx s = Inr (Handled, ctx', s')" and "handling s'' = handling s'"
  shows "(\<exists>sg (act :: signal_action). sepc ctx' = handler act \<and> xs ctx' ! 9 = of_nat (signal_code sg) \<and>
        signal_code sg \<in> members (received s) - members (mask s)) \<and>
    handle_signals c'' s'' = Inr (IsHandlingSignal, c'', s'') \<and>
    sig_return c'' s'' = (True, ctx, s''\<lparr>handling := None\<rparr>)"
proof -
  let ?d = "members (received s) - members (mask s)"
  have ne: "?d \<noteq> {}"
  proof
    assume "?d = {}"
    from fetch_signal_eq(1)[OF this] assms(2,3) show False
      by (simp add: handle_signals_def is_handling_signal_def)
  qed
  obtain r k where k: "k = Min ?d" "k < 64" and
    f: "fetch_signal s = Inr (Some (signal_from_usize (of_nat k)), s\<lparr>received := r\<rparr>)"
    using fetch_signal_eq(2)[OF ne] by blast
  obtain sg where sg: "sg = signal_from_usize (of_nat k)" "signal_code sg = k"
    using signal_of_nat[OF k(2)] by blast
  have mem: "signal_code sg \<in> ?d" unfolding sg(2) k(1) using ne by (intro Min_in) auto
  have len: "length (xs ctx) = 31" using assms(1) by (simp add: ctx_ok_def)
  have "\<exists>act :: signal_action. actions s ! signal_code sg = Some act \<and>
      ctx' = ctx\<lparr>sepc := handler act, xs := (xs ctx)[9 := of_nat (signal_code sg)]\<rparr> \<and>
      s' = s\<lparr>received := r, handling := Some (UserSignal ctx)\<rparr>"
    using assms f sg(1)
    by (auto simp: handle_signals_def is_handling_signal_def bind_res_eq_Inr nth_res_eq_Inr
        ctx_enter_handler default_action_from_def default_action_into_def split: if_splits option.splits)
  then obtain act :: signal_action where act: "ctx' = ctx\<lparr>sepc := handler act, xs := (xs ctx)[9 := of_nat (signal_code sg)]\<rparr>"
    "s' = s\<lparr>received := r, handling := Some (UserSignal ctx)\<rparr>" by blast
  with mem len have "\<exists>sg (act :: signal_action). sepc ctx' = handler act \<and> xs ctx' ! 9 = of_nat (signal_code sg) \<and>
        signal_code sg \<in> ?d" by auto
  moreover have "handling s'' = Some (UserSignal ctx)" using assms(4) act(2) by simp
  ultimately show ?thesis
    by (simp add: sig_return_def handle_signals_def is_handling_signal_def)
qed

definition raised_usr1 :: signal_impl where
  "raised_usr1 = signal_impl_new\<lparr>received := 1024,
     actions := (replicate 32 None)[10 := Some \<lparr>handler = 64, action_mask = 0\<rparr>]\<rparr>"

lemma members_1024: "members 1024 = {10}"
proof -
  have "members (push_bit 10 1) = {10}"
    by (auto simp: members_def bit_single simp del: push_bit_of_1)
  then show ?thesis by simp
qed

lemma raised_usr1_handled:
  "\<exists>ctx' s'. handle_signals (ctx_user 16) raised_usr1 = Inr (Handled, ctx', s') \<and>
     handling s' = Some (UserSignal (ctx_user 16))"
proof -
  have d: "members (received raised_usr1) - members (mask raised_usr1) = {10}"
    by (simp add: raised_usr1_def signal_impl_new_def members_1024)
  then obtain r where f: "fetch_signal raised_usr1 =
      Inr (Some (signal_from_usize (of_nat 10)), raised_usr1\<lparr>received := r\<rparr>)"
    using fetch_signal_eq(2)[of raised_usr1] by auto
  have "signal_from_usize (of_nat 10) = SIGUSR1"
    using signal_from_code[of SIGUSR1] by (simp add: signal_codes)
  with f show ?thesis
    by (simp add: handle_signals_def is_handling_signal_def raised_usr1_def signal_impl_new_def
        signal_codes ctx_set_a_eq)
qed

theorem handler_round_trip_witness:
  "\<exists>(ctx' :: local_context) s'. (\<exists>sg (act :: signal_action). sepc ctx' = handler act \<and> xs ctx' ! 9 = of_nat (signal_code sg) \<and>
        signal_code sg \<in> members (received raised_usr1) - members (mask raised_usr1)) \<and>
    handle_signals ctx_empty s' = Inr (IsHandlingSignal, ctx_empty, s') \<and>
    sig_return ctx_empty s' = (True, ctx_user 16, s'\<lparr>handling := None\<rparr>)"
proof -
  obtain ctx' s' where h: "handle_signals (ctx_user 16) raised_usr1 = Inr (Handled, ctx', s')"
    using raised_usr1_handled by blast
  have "\<not> is_handling_signal raised_usr1"
    by (simp add: is_handling_signal_def raised_usr1_def signal_impl_new_def)
  from handler_round_trip[OF ctx_ok_new(2) this h refl, of ctx_empty] show ?thesis by blast
qed

text \<open>what a process inherits and what it may change. A fork starts with no pending
  signal, outside any handler, with the parent's mask and actions; an exec forgets every action
  and keeps pending signals and mask; the actions of SIGKILL and SIGSTOP can be neither set nor
  read, but the mask may contain them, and then a pending SIGKILL is not delivered.\<close>

theorem signal_inheritance_and_limits:
  "received (from_fork s) = 0 \<and> handling (from_fork s) = None \<and> mask (from_fork s) = mask s \<and>
   actions (from_fork s) = actions s \<and>
   set (actions (clear_actions s)) \<subseteq> {None} \<and> received (clear_actions s) = received s \<and>
   mask (clear_actions s) = mask s \<and>
   set_action SIGKILL act s = Inr (False, s) \<and> set_action SIGSTOP act s = Inr (False, s) \<and>
   get_action_ref SIGKILL s = Inr None \<and> get_action_ref SIGSTOP s = Inr None \<and>
   handle_signals ctx (snd (update_mask (- 1) (s\<lparr>received := push_bit 9 1, handling := None\<rparr>))) =
     Inr (NoSignal, ctx, snd (update_mask (- 1) (s\<lparr>received := push_bit 9 1, handling := None\<rparr>)))"
proof -
  let ?s = "snd (update_mask (- 1) (s\<lparr>received := push_bit 9 1, handling := None\<rparr>))"
  have "members (received ?s) - members (mask ?s) = {}"
    by (auto simp: update_mask_def set_new_def members_def dest: bit_below_64)
  from fetch_signal_eq(1)[OF this]
  have "handle_signals ctx ?s = Inr (NoSignal, ctx, ?s)"
    by (simp add: handle_signals_def is_handling_signal_def update_mask_def set_new_def)
  then show ?thesis
    by (auto simp: from_fork_def set_empty_def clear_actions_def set_action_def get_action_ref_def)
qed

end
