(* ===== verification/Block_Store.thy ===== *)
theory Block_Store
  imports Prelude
begin

text \<open>
  The blocks of the disk as the upper layers of \<open>tg-rcore-tutorial-easy-fs\<close> see them. Every
  access of the source has the form
  \<open>get_block_cache(id, dev).lock().read(off, f)\<close> or \<open>.modify(off, f)\<close>; the lock is held while
  the closure runs, and the closure may access other blocks. A \<open>store\<close> is the content of
  every block together with the set of blocks whose lock is held; asking for a lock that is
  held never returns, the panic \<open>Deadlock\<close> of the model.

  Theory \<open>Block_Cache\<close> shows that the write-back cache implements this store.

  The second half is the layout of integers in a block: \<open>get_u32\<close>, \<open>put_u32\<close>,
  \<open>get_u64\<close> and \<open>put_u64\<close> index a block as the arrays \<open>[u32; 128]\<close> and \<open>[u64; 64]\<close>.
\<close>

abbreviation block_sz :: nat where
  "block_sz \<equiv> 512"

type_synonym block = "u8 list"

record store =
  blocks :: "nat \<Rightarrow> block"
  held :: "nat set"

definition lock_block :: "nat \<Rightarrow> store \<Rightarrow> store res" where
  "lock_block i s = (if i \<in> held s then Inl Deadlock else Inr (s\<lparr>held := insert i (held s)\<rparr>))"

definition unlock_block :: "nat \<Rightarrow> store \<Rightarrow> store" where
  "unlock_block i s = s\<lparr>held := held s - {i}\<rparr>"

definition read_block :: "nat \<Rightarrow> (block \<Rightarrow> 'v res) \<Rightarrow> store \<Rightarrow> 'v res" where
  "read_block i f s = bind_res (lock_block i s) (\<lambda>s1. f (blocks s1 i))"

text \<open>A closure that runs while the lock is held and may use the rest of the store.\<close>

definition with_block ::
  "nat \<Rightarrow> (block \<Rightarrow> store \<Rightarrow> ('v \<times> block \<times> store) res) \<Rightarrow> store \<Rightarrow> ('v \<times> store) res" where
  "with_block i f s =
     bind_res (lock_block i s) (\<lambda>s1.
       bind_res (f (blocks s1 i) s1) (\<lambda>(v, b, s2).
         Inr (v, unlock_block i (s2\<lparr>blocks := (blocks s2)(i := b)\<rparr>))))"

definition modify_block ::
  "nat \<Rightarrow> (block \<Rightarrow> ('v \<times> block) res) \<Rightarrow> store \<Rightarrow> ('v \<times> store) res" where
  "modify_block i f = with_block i (\<lambda>b s. bind_res (f b) (\<lambda>(v, b'). Inr (v, b', s)))"

text \<open>\<open>block_cache_sync_all\<close> takes the lock of every cached block, so of every held one.\<close>

definition sync_all :: "store \<Rightarrow> store res" where
  "sync_all s = (if held s = {} then Inr s else Inl Deadlock)"

text \<open>All blocks are 512 bytes long.\<close>

definition store_ok :: "store \<Rightarrow> bool" where
  "store_ok s \<longleftrightarrow> (\<forall>i. length (blocks s i) = block_sz)"

definition put_block :: "nat \<Rightarrow> block \<Rightarrow> store \<Rightarrow> store" where
  "put_block i b s = s\<lparr>blocks := (blocks s)(i := b)\<rparr>"

lemma put_block_simps [simp]:
  "blocks (put_block i b s) = (blocks s)(i := b)" "held (put_block i b s) = held s"
  by (simp_all add: put_block_def)

lemma store_ok_put [simp]:
  "store_ok s \<Longrightarrow> length b = block_sz \<Longrightarrow> store_ok (put_block i b s)"
  by (simp add: store_ok_def)

lemma store_okD: "store_ok s \<Longrightarrow> length (blocks s i) = 512"
  by (simp add: store_ok_def)

lemma read_block_free [simp]: "i \<notin> held s \<Longrightarrow> read_block i f s = f (blocks s i)"
  by (simp add: read_block_def lock_block_def)

lemma read_block_held: "i \<in> held s \<Longrightarrow> read_block i f s = Inl Deadlock"
  by (simp add: read_block_def lock_block_def)

lemma modify_block_free:
  "i \<notin> held s \<Longrightarrow> modify_block i f s =
     bind_res (f (blocks s i)) (\<lambda>(v, b). Inr (v, put_block i b s))"
  by (cases "f (blocks s i)")
    (auto simp: modify_block_def with_block_def lock_block_def unlock_block_def put_block_def
      split: prod.splits)

lemma with_block_free:
  "i \<notin> held s \<Longrightarrow> with_block i f s =
     bind_res (f (blocks s i) (s\<lparr>held := insert i (held s)\<rparr>)) (\<lambda>(v, b, s2).
         Inr (v, unlock_block i (put_block i b s2)))"
  by (simp add: with_block_def lock_block_def put_block_def)

lemma store_eqI: "blocks s = blocks t \<Longrightarrow> held s = held t \<Longrightarrow> s = (t :: store)"
  by (cases s; cases t) simp

section \<open>Arrays of integers in a block\<close>

definition u32_at :: "nat \<Rightarrow> block \<Rightarrow> u32" where
  "u32_at k b = of_nat (of_le_bytes (slice (4 * k) 4 b))"

definition set_u32_at :: "nat \<Rightarrow> u32 \<Rightarrow> block \<Rightarrow> block" where
  "set_u32_at k v b = overwrite (4 * k) (le_bytes 4 (unat v)) b"

definition get_u32 :: "nat \<Rightarrow> block \<Rightarrow> u32 res" where
  "get_u32 k b = (if k < 128 then Inr (u32_at k b) else Inl IndexOutOfBounds)"

definition put_u32 :: "nat \<Rightarrow> u32 \<Rightarrow> block \<Rightarrow> block res" where
  "put_u32 k v b = (if k < 128 then Inr (set_u32_at k v b) else Inl IndexOutOfBounds)"

definition u64_at :: "nat \<Rightarrow> block \<Rightarrow> u64" where
  "u64_at k b = of_nat (of_le_bytes (slice (8 * k) 8 b))"

definition set_u64_at :: "nat \<Rightarrow> u64 \<Rightarrow> block \<Rightarrow> block" where
  "set_u64_at k v b = overwrite (8 * k) (le_bytes 8 (unat v)) b"

lemma unat_u32_less: "unat (v :: u32) < 256 ^ 4"
  using unsigned_less[of v, where ?'a = nat] by simp

lemma unat_u64_less: "unat (v :: u64) < 256 ^ 8"
  using unsigned_less[of v, where ?'a = nat] by simp

lemma u32_of_le_bytes: "of_nat (of_le_bytes (le_bytes 4 (unat v))) = (v :: u32)"
  using unat_u32_less[of v] by (simp only: of_le_bytes_le_bytes mod_less) simp

lemma u64_of_le_bytes: "of_nat (of_le_bytes (le_bytes 8 (unat v))) = (v :: u64)"
  using unat_u64_less[of v] by (simp only: of_le_bytes_le_bytes mod_less) simp

lemma length_set_u32_at [simp]: "length b = 512 \<Longrightarrow> k < 128 \<Longrightarrow> length (set_u32_at k v b) = 512"
  by (simp add: set_u32_at_def)

lemma length_set_u64_at [simp]: "length b = 512 \<Longrightarrow> k < 64 \<Longrightarrow> length (set_u64_at k v b) = 512"
  by (simp add: set_u64_at_def)

lemma u32_at_set:
  assumes "length b = 512" "k < 128" "j < 128"
  shows "u32_at j (set_u32_at k v b) = (if j = k then v else u32_at j b)"
proof (cases "j = k")
  case True
  have "slice (4 * k) 4 (overwrite (4 * k) (le_bytes 4 (unat v)) b) = le_bytes 4 (unat v)"
    using slice_overwrite_same[of "4 * k" "le_bytes 4 (unat v)" b] assms by simp
  with True show ?thesis by (simp only: u32_at_def set_u32_at_def u32_of_le_bytes simp_thms if_True)
next
  case False
  then have "4 * j + 4 \<le> 4 * k \<or> 4 * k + 4 \<le> 4 * j" by auto
  then have "slice (4 * j) 4 (overwrite (4 * k) (le_bytes 4 (unat v)) b) = slice (4 * j) 4 b"
    using assms by (intro slice_overwrite_disjoint) auto
  with False show ?thesis by (simp add: u32_at_def set_u32_at_def)
qed

lemma u64_at_set:
  assumes "length b = 512" "k < 64" "j < 64"
  shows "u64_at j (set_u64_at k v b) = (if j = k then v else u64_at j b)"
proof (cases "j = k")
  case True
  have "slice (8 * k) 8 (overwrite (8 * k) (le_bytes 8 (unat v)) b) = le_bytes 8 (unat v)"
    using slice_overwrite_same[of "8 * k" "le_bytes 8 (unat v)" b] assms by simp
  with True show ?thesis by (simp only: u64_at_def set_u64_at_def u64_of_le_bytes simp_thms if_True)
next
  case False
  then have "8 * j + 8 \<le> 8 * k \<or> 8 * k + 8 \<le> 8 * j" by auto
  then have "slice (8 * j) 8 (overwrite (8 * k) (le_bytes 8 (unat v)) b) = slice (8 * j) 8 b"
    using assms by (intro slice_overwrite_disjoint) auto
  with False show ?thesis by (simp add: u64_at_def set_u64_at_def)
qed

lemma slice_replicate: "off + n \<le> m \<Longrightarrow> slice off n (replicate m x) = replicate n x"
  by (simp add: slice_def)

lemma u32_at_zero [simp]: "k < 128 \<Longrightarrow> u32_at k (replicate 512 0) = 0"
  by (simp add: u32_at_def slice_replicate)

lemma u64_at_zero [simp]: "k < 64 \<Longrightarrow> u64_at k (replicate 512 0) = 0"
  by (simp add: u64_at_def slice_replicate)

end
