(* ===== verification/Bitmap.thy ===== *)
theory Bitmap
  imports Block_Store
begin

text \<open>
  \<open>tg-rcore-tutorial-easy-fs/src/bitmap.rs\<close>: allocation of inodes and data blocks by
  bitmaps of 4096 bits per block. \<open>bitmap_used\<close> is the set of allocated numbers.

  The contract of an allocator is the locale \<open>allocator\<close>: it hands out the least free
  number, reports when there is none, and a number that is not allocated cannot be freed.
  The bitmap keeps it.
\<close>

record bitmap =
  start_block_id :: nat
  bitmap_blocks :: nat

definition block_bits :: nat where
  "block_bits = block_sz * 8"

definition bitmap_new :: "nat \<Rightarrow> nat \<Rightarrow> bitmap" where
  "bitmap_new start n = \<lparr>start_block_id = start, bitmap_blocks = n\<rparr>"

definition decomposition :: "nat \<Rightarrow> nat \<times> nat \<times> nat" where
  "decomposition k =
     (let block_pos = k div block_bits; k' = k mod block_bits in (block_pos, k' div 64, k' mod 64))"

definition alloc_in_block :: "nat \<Rightarrow> block \<Rightarrow> (nat option \<times> block) res" where
  "alloc_in_block block_id b =
     (case find_index (\<lambda>bits64. bits64 \<noteq> - 1) (map (\<lambda>k. u64_at k b) [0..<64]) of
        Some bits64_pos \<Rightarrow>
          let inner_pos = trailing_ones (u64_at bits64_pos b) in
          bind_res (shl_one inner_pos) (\<lambda>m.
            Inr (Some (block_id * block_bits + bits64_pos * 64 + inner_pos),
                 set_u64_at bits64_pos (u64_at bits64_pos b OR m) b))
      | None \<Rightarrow> Inr (None, b))"

primrec alloc_loop :: "nat \<Rightarrow> nat \<Rightarrow> bitmap \<Rightarrow> store \<Rightarrow> (nat option \<times> store) res" where
  "alloc_loop 0 block_id bm s = Inr (None, s)"
| "alloc_loop (Suc n) block_id bm s =
     bind_res (modify_block (block_id + start_block_id bm) (alloc_in_block block_id) s) (\<lambda>(pos, s1).
       if pos \<noteq> None then Inr (pos, s1) else alloc_loop n (Suc block_id) bm s1)"

definition bitmap_alloc :: "bitmap \<Rightarrow> store \<Rightarrow> (nat option \<times> store) res" where
  "bitmap_alloc bm = alloc_loop (bitmap_blocks bm) 0 bm"

definition dealloc_in_block :: "nat \<Rightarrow> nat \<Rightarrow> block \<Rightarrow> (unit \<times> block) res" where
  "dealloc_in_block bits64_pos inner_pos b =
     bind_res (shl_one inner_pos) (\<lambda>m.
       bind_res (assert_res (u64_at bits64_pos b AND m > 0)) (\<lambda>_.
         Inr ((), set_u64_at bits64_pos (u64_at bits64_pos b - m) b)))"

definition bitmap_dealloc :: "bitmap \<Rightarrow> nat \<Rightarrow> store \<Rightarrow> store res" where
  "bitmap_dealloc bm k s =
     (case decomposition k of
        (block_pos, bits64_pos, inner_pos) \<Rightarrow>
          bind_res (modify_block (block_pos + start_block_id bm) (dealloc_in_block bits64_pos inner_pos) s)
            (\<lambda>(_, s1). Inr s1))"

definition bitmap_maximum :: "bitmap \<Rightarrow> nat" where
  "bitmap_maximum bm = bitmap_blocks bm * block_bits"

section \<open>The contract of an allocator\<close>

locale allocator =
  fixes alloc :: "'s \<Rightarrow> (nat option \<times> 's) res"
    and dealloc :: "nat \<Rightarrow> 's \<Rightarrow> 's res"
    and used :: "'s \<Rightarrow> nat set"
    and capacity :: nat
    and wf :: "'s \<Rightarrow> bool"
  assumes used_bound: "used s \<subseteq> {..<capacity}"
    and alloc_some: "wf s \<Longrightarrow> used s \<noteq> {..<capacity} \<Longrightarrow>
          \<exists>s'. alloc s = Inr (Some (LEAST i. i \<notin> used s), s') \<and> wf s' \<and>
            used s' = insert (LEAST i. i \<notin> used s) (used s)"
    and alloc_none: "wf s \<Longrightarrow> used s = {..<capacity} \<Longrightarrow> alloc s = Inr (None, s)"
    and dealloc_used: "wf s \<Longrightarrow> i \<in> used s \<Longrightarrow>
          \<exists>s'. dealloc i s = Inr s' \<and> wf s' \<and> used s' = used s - {i}"
    and dealloc_free: "wf s \<Longrightarrow> i < capacity \<Longrightarrow> i \<notin> used s \<Longrightarrow> dealloc i s = Inl AssertFailed"
begin

lemma finite_used: "finite (used s)"
  using used_bound by (rule finite_subset) simp

lemma least_free:
  assumes "used s \<noteq> {..<capacity}"
  shows "(LEAST i. i \<notin> used s) < capacity" and "(LEAST i. i \<notin> used s) \<notin> used s"
proof -
  have "used s \<subset> {..<capacity}" using assms used_bound[of s] by (simp add: psubset_eq)
  from psubset_imp_ex_mem[OF this] obtain j where "j \<in> {..<capacity} - used s" by blast
  then have j: "j < capacity" "j \<notin> used s" by simp_all
  show "(LEAST i. i \<notin> used s) \<notin> used s" by (rule LeastI[of "\<lambda>i. i \<notin> used s", OF j(2)])
  show "(LEAST i. i \<notin> used s) < capacity"
    using Least_le[of "\<lambda>i. i \<notin> used s", OF j(2)] j(1) by simp
qed

primrec alloc_many :: "nat \<Rightarrow> 's \<Rightarrow> (nat list \<times> 's) res" where
  "alloc_many 0 s = Inr ([], s)"
| "alloc_many (Suc n) s =
     bind_res (alloc s) (\<lambda>(found, s1).
       bind_res (unwrap found) (\<lambda>i.
         bind_res (alloc_many n s1) (\<lambda>(is, s2). Inr (i # is, s2))))"

fun dealloc_many :: "nat list \<Rightarrow> 's \<Rightarrow> 's res" where
  "dealloc_many [] s = Inr s"
| "dealloc_many (i # is) s = bind_res (dealloc i s) (dealloc_many is)"

lemma alloc_many_ok:
  "wf s \<Longrightarrow> card (used s) + n \<le> capacity \<Longrightarrow>
     \<exists>is s'. alloc_many n s = Inr (is, s') \<and> wf s' \<and> length is = n \<and> distinct is \<and>
       set is \<inter> used s = {} \<and> used s' = used s \<union> set is"
proof (induction n arbitrary: s)
  case (Suc n)
  have ne: "used s \<noteq> {..<capacity}"
  proof
    assume "used s = {..<capacity}"
    with Suc.prems(2) show False by simp
  qed
  let ?i = "LEAST i. i \<notin> used s"
  obtain s1 where s1: "alloc s = Inr (Some ?i, s1)" "wf s1" "used s1 = insert ?i (used s)"
    using alloc_some[OF Suc.prems(1) ne] by blast
  have "card (used s1) + n \<le> capacity"
    using s1(3) least_free(2)[OF ne] finite_used[of s] Suc.prems(2) by simp
  from Suc.IH[OF s1(2) this] obtain "is" s2 where
    "alloc_many n s1 = Inr (is, s2)" "wf s2" "length is = n" "distinct is"
    "set is \<inter> used s1 = {}" "used s2 = used s1 \<union> set is" by blast
  with s1 least_free(2)[OF ne] show ?case by auto
qed simp

lemma alloc_many_exhausted:
  "wf s \<Longrightarrow> capacity < card (used s) + n \<Longrightarrow> alloc_many n s = Inl UnwrapNone"
proof (induction n arbitrary: s)
  case 0
  then show ?case using card_mono[OF _ used_bound[of s]] by simp
next
  case (Suc n)
  show ?case
  proof (cases "used s = {..<capacity}")
    case True
    with alloc_none[OF Suc.prems(1)] show ?thesis by simp
  next
    case False
    let ?i = "LEAST i. i \<notin> used s"
    obtain s1 where s1: "alloc s = Inr (Some ?i, s1)" "wf s1" "used s1 = insert ?i (used s)"
      using alloc_some[OF Suc.prems(1) False] by blast
    have "capacity < card (used s1) + n"
      using s1(3) least_free(2)[OF False] finite_used[of s] Suc.prems(2) by simp
    from Suc.IH[OF s1(2) this] s1 show ?thesis by simp
  qed
qed

lemma dealloc_many_ok:
  "wf s \<Longrightarrow> distinct is \<Longrightarrow> set is \<subseteq> used s \<Longrightarrow>
     \<exists>s'. dealloc_many is s = Inr s' \<and> wf s' \<and> used s' = used s - set is"
proof (induction "is" arbitrary: s)
  case (Cons i "is")
  then obtain s1 where s1: "dealloc i s = Inr s1" "wf s1" "used s1 = used s - {i}"
    using dealloc_used[of s i] by auto
  have "set is \<subseteq> used s1" using Cons.prems s1(3) by auto
  from Cons.IH[OF s1(2) _ this] Cons.prems s1 show ?case by auto
qed simp

lemma alloc_dealloc_round_trip:
  assumes "wf s" "card (used s) + n \<le> capacity"
  shows "\<exists>is s1 s2. alloc_many n s = Inr (is, s1) \<and> dealloc_many is s1 = Inr s2 \<and> used s2 = used s"
proof -
  obtain "is" s1 where a: "alloc_many n s = Inr (is, s1)" "wf s1" "distinct is"
    "set is \<inter> used s = {}" "used s1 = used s \<union> set is"
    using alloc_many_ok[OF assms] by blast
  moreover have "\<exists>s2. dealloc_many is s1 = Inr s2 \<and> used s2 = used s1 - set is"
    using dealloc_many_ok[OF a(2,3)] a(5) by auto
  moreover have "(used s \<union> set is) - set is = used s" using a(4) by blast
  ultimately show ?thesis by auto
qed

end

section \<open>One bitmap block\<close>

definition blk_bit :: "block \<Rightarrow> nat \<Rightarrow> bool" where
  "blk_bit b j = bit (u64_at (j div 64) b) (j mod 64)"

lemma div64_less: "j < 4096 \<Longrightarrow> j div 64 < (64 :: nat)"
  by (simp add: div_less_iff_less_mult)

lemma word_full_iff: "u64_at p b = - 1 \<longleftrightarrow> (\<forall>q < 64. blk_bit b (p * 64 + q))"
proof
  assume "u64_at p b = - 1"
  then show "\<forall>q < 64. blk_bit b (p * 64 + q)" by (simp add: blk_bit_def)
next
  assume "\<forall>q < 64. blk_bit b (p * 64 + q)"
  then show "u64_at p b = - 1" by (intro bit_word_eqI) (auto simp: blk_bit_def)
qed

lemma blk_bit_set:
  assumes "length b = 512" "p < 64" "i < 4096"
  shows "blk_bit (set_u64_at p w b) i = (if i div 64 = p then bit w (i mod 64) else blk_bit b i)"
  using u64_at_set[OF assms(1,2) div64_less[OF assms(3)], of w] by (simp add: blk_bit_def)

lemma split64: "i = p * 64 + q \<longleftrightarrow> i div 64 = p \<and> i mod 64 = q" if "q < 64" for i p q :: nat
  using that by auto

lemma alloc_in_block_none:
  assumes "\<And>j. j < 4096 \<Longrightarrow> blk_bit b j"
  shows "alloc_in_block n b = Inr (None, b)"
proof -
  have "u64_at p b = - 1" if "p < 64" for p
    unfolding word_full_iff using that by (auto intro!: assms)
  then have "find_index (\<lambda>w. w \<noteq> - 1) (map (\<lambda>k. u64_at k b) [0..<64]) = None"
    by (auto simp: find_index_None_iff)
  then show ?thesis by (simp add: alloc_in_block_def)
qed

lemma alloc_in_block_some:
  assumes len: "length b = 512" and free: "j0 < 4096" "\<not> blk_bit b j0"
  obtains j b' where "alloc_in_block n b = Inr (Some (n * 4096 + j), b')" "j < 4096" "length b' = 512"
    "\<not> blk_bit b j" "\<And>i. i < j \<Longrightarrow> blk_bit b i"
    "\<And>i. i < 4096 \<Longrightarrow> blk_bit b' i \<longleftrightarrow> blk_bit b i \<or> i = j"
proof -
  let ?ws = "map (\<lambda>k. u64_at k b) [0..<64]"
  have "j0 div 64 * 64 + j0 mod 64 = j0" by simp
  with free(2) have "u64_at (j0 div 64) b \<noteq> - 1"
    unfolding word_full_iff by (metis mod_less_divisor zero_less_numeral)
  moreover have "u64_at (j0 div 64) b \<in> set ?ws"
    using div64_less[OF free(1)] by auto
  ultimately have "find_index (\<lambda>w. w \<noteq> - 1) ?ws \<noteq> None" by (auto simp: find_index_None_iff)
  then obtain p where p: "find_index (\<lambda>w. w \<noteq> - 1) ?ws = Some p" by blast
  from find_index_SomeD[OF p] have pl: "p < 64" and pne: "u64_at p b \<noteq> - 1"
    and pfirst: "\<And>k. k < p \<Longrightarrow> u64_at k b = - 1" by auto
  let ?w = "u64_at p b"
  let ?q = "trailing_ones ?w"
  have q: "?q < 64" using pne trailing_ones_le[of ?w] trailing_ones_64_iff[of ?w] by linarith
  have qb: "\<not> bit ?w ?q" by (rule trailing_ones_at[OF q])
  have qbelow: "bit ?w i" if "i < ?q" for i using that by (rule trailing_ones_below)
  let ?b' = "set_u64_at p (?w OR push_bit ?q 1) b"
  have 1: "alloc_in_block n b = Inr (Some (n * 4096 + (p * 64 + ?q)), ?b')"
    using p q by (simp add: alloc_in_block_def Let_def block_bits_def del: push_bit_of_1)
  have 2: "p * 64 + ?q < 4096" using pl q by simp
  have 3: "length ?b' = 512" using len pl by simp
  have 4: "\<not> blk_bit b (p * 64 + ?q)" using q qb by (simp add: blk_bit_def)
  have 5: "blk_bit b i" if "i < p * 64 + ?q" for i
  proof (cases "i div 64 = p")
    case True
    then have "i mod 64 < ?q" using that by (metis add_less_cancel_left div_mult_mod_eq)
    with True qbelow show ?thesis by (simp add: blk_bit_def)
  next
    case False
    then have "i div 64 < p" using that q by (simp add: div_less_iff_less_mult)
    with pfirst show ?thesis by (simp add: blk_bit_def)
  qed
  have 6: "blk_bit ?b' i \<longleftrightarrow> blk_bit b i \<or> i = p * 64 + ?q" if "i < 4096" for i
    unfolding blk_bit_set[OF len pl that] split64[OF q]
    using q by (auto simp: blk_bit_def bit_or_iff bit_single simp del: push_bit_of_1)
  from that[OF 1 2 3 4 5 6] show ?thesis by blast
qed

lemma word_and_single_pos: "q < 64 \<Longrightarrow> (w AND push_bit q 1 > (0 :: u64)) \<longleftrightarrow> bit w q"
proof -
  assume q: "q < 64"
  have "w AND push_bit q 1 = (if bit w q then push_bit q 1 else 0 :: u64)"
    using q by (intro bit_word_eqI) (auto simp: bit_and_iff bit_single simp del: push_bit_of_1)
  moreover have "push_bit q 1 \<noteq> (0 :: u64)"
    using bit_single[OF q, of q] by (auto simp del: push_bit_of_1)
  ultimately show ?thesis by (simp add: word_greater_zero_iff del: push_bit_of_1)
qed

lemma word_minus_single: "q < 64 \<Longrightarrow> bit w q \<Longrightarrow> w - push_bit q 1 = w AND NOT (push_bit q (1 :: u64))"
proof -
  assume q: "q < 64" and b: "bit w q"
  have "w AND push_bit q 1 = (push_bit q 1 :: u64)"
    using q b by (intro bit_word_eqI) (auto simp: bit_and_iff bit_single simp del: push_bit_of_1)
  moreover have "w = (w AND NOT (push_bit q 1)) + (w AND push_bit q (1 :: u64))"
    by (subst disjunctive_add)
      (auto simp: bit_and_iff bit_or_iff bit_not_iff intro!: bit_word_eqI simp del: push_bit_of_1)
  ultimately show ?thesis by (metis add_diff_cancel_right')
qed

lemma dealloc_in_block_eq:
  assumes len: "length b = 512" and j: "j < 4096"
  shows "blk_bit b j \<Longrightarrow> \<exists>b'. dealloc_in_block (j div 64) (j mod 64) b = Inr ((), b') \<and> length b' = 512 \<and>
      (\<forall>i < 4096. blk_bit b' i \<longleftrightarrow> blk_bit b i \<and> i \<noteq> j)"
    and "\<not> blk_bit b j \<Longrightarrow> dealloc_in_block (j div 64) (j mod 64) b = Inl AssertFailed"
proof -
  let ?p = "j div 64" and ?q = "j mod 64"
  have p: "?p < 64" using j by (rule div64_less)
  have q: "?q < 64" by simp
  show "\<not> blk_bit b j \<Longrightarrow> dealloc_in_block ?p ?q b = Inl AssertFailed"
    by (simp add: dealloc_in_block_def word_and_single_pos blk_bit_def del: push_bit_of_1)
  assume bj: "blk_bit b j"
  let ?b' = "set_u64_at ?p (u64_at ?p b - push_bit ?q 1) b"
  have "dealloc_in_block ?p ?q b = Inr ((), ?b')"
    using bj by (simp add: dealloc_in_block_def word_and_single_pos blk_bit_def del: push_bit_of_1)
  moreover have "blk_bit ?b' i \<longleftrightarrow> blk_bit b i \<and> i \<noteq> j" if "i < 4096" for i
  proof -
    have "i = j \<longleftrightarrow> i div 64 = ?p \<and> i mod 64 = ?q"
      using split64[OF q, of i ?p] by simp
    then show ?thesis
      unfolding blk_bit_set[OF len p that]
      using bj word_minus_single[OF q, of "u64_at ?p b"]
      by (auto simp: blk_bit_def bit_and_iff bit_not_iff bit_single simp del: push_bit_of_1)
  qed
  ultimately show "\<exists>b'. dealloc_in_block ?p ?q b = Inr ((), b') \<and> length b' = 512 \<and>
      (\<forall>i < 4096. blk_bit b' i \<longleftrightarrow> blk_bit b i \<and> i \<noteq> j)"
    using len p by auto
qed

section \<open>The bitmap keeps the contract\<close>

definition bitmap_bit :: "bitmap \<Rightarrow> store \<Rightarrow> nat \<Rightarrow> bool" where
  "bitmap_bit bm s k = blk_bit (blocks s (k div 4096 + start_block_id bm)) (k mod 4096)"

definition bitmap_used :: "bitmap \<Rightarrow> store \<Rightarrow> nat set" where
  "bitmap_used bm s = {k. k < bitmap_maximum bm \<and> bitmap_bit bm s k}"

definition bitmap_region :: "bitmap \<Rightarrow> nat set" where
  "bitmap_region bm = {start_block_id bm ..< start_block_id bm + bitmap_blocks bm}"

definition bitmap_wf :: "bitmap \<Rightarrow> store \<Rightarrow> bool" where
  "bitmap_wf bm s \<longleftrightarrow> store_ok s \<and> held s \<inter> bitmap_region bm = {}"

lemma bitmap_maximum_eq: "bitmap_maximum bm = bitmap_blocks bm * 4096"
  by (simp add: bitmap_maximum_def block_bits_def)

lemma split4096: "k < n * 4096 \<Longrightarrow> k div 4096 < (n :: nat)"
  by (simp add: div_less_iff_less_mult)

lemma put_block_same: "put_block i (blocks s i) s = s"
  by (simp add: put_block_def)

lemma bitmap_bit_put:
  assumes "blk < bitmap_blocks bm" "k < bitmap_maximum bm"
  shows "bitmap_bit bm (put_block (blk + start_block_id bm) b s) k =
    (if k div 4096 = blk then blk_bit b (k mod 4096) else bitmap_bit bm s k)"
  by (simp add: bitmap_bit_def)

lemma alloc_loop_full:
  "store_ok s \<Longrightarrow> (\<And>i. i < n \<Longrightarrow> blk + i + start_block_id bm \<notin> held s) \<Longrightarrow>
     (\<And>i j. i < n \<Longrightarrow> j < 4096 \<Longrightarrow> blk_bit (blocks s (blk + i + start_block_id bm)) j) \<Longrightarrow>
     alloc_loop n blk bm s = Inr (None, s)"
proof (induction n arbitrary: blk)
  case (Suc n)
  have "alloc_in_block blk (blocks s (blk + start_block_id bm)) = Inr (None, blocks s (blk + start_block_id bm))"
    by (rule alloc_in_block_none) (use Suc.prems(3)[of 0] in simp)
  moreover have "blk + start_block_id bm \<notin> held s" using Suc.prems(2)[of 0] by simp
  moreover have "alloc_loop n (Suc blk) bm s = Inr (None, s)"
    by (rule Suc.IH) (use Suc.prems(1) Suc.prems(2,3)[of "Suc _"] in auto)
  ultimately show ?case by (simp add: modify_block_free put_block_same)
qed simp

lemma alloc_loop_some:
  "store_ok s \<Longrightarrow> (\<And>i. i < n \<Longrightarrow> blk + i + start_block_id bm \<notin> held s) \<Longrightarrow>
     i0 < n \<Longrightarrow> j0 < 4096 \<Longrightarrow> \<not> blk_bit (blocks s (blk + i0 + start_block_id bm)) j0 \<Longrightarrow>
     \<exists>i j b. i < n \<and> j < 4096 \<and> length b = 512 \<and>
       alloc_loop n blk bm s =
         Inr (Some ((blk + i) * 4096 + j), put_block (blk + i + start_block_id bm) b s) \<and>
       \<not> blk_bit (blocks s (blk + i + start_block_id bm)) j \<and>
       (\<forall>i' < i. \<forall>j' < 4096. blk_bit (blocks s (blk + i' + start_block_id bm)) j') \<and>
       (\<forall>j' < j. blk_bit (blocks s (blk + i + start_block_id bm)) j') \<and>
       (\<forall>j' < 4096. blk_bit b j' \<longleftrightarrow> blk_bit (blocks s (blk + i + start_block_id bm)) j' \<or> j' = j)"
proof (induction n arbitrary: blk i0)
  case (Suc n)
  let ?B = "blocks s (blk + start_block_id bm)"
  have free: "blk + start_block_id bm \<notin> held s" using Suc.prems(2)[of 0] by simp
  show ?case
  proof (cases "\<exists>j < 4096. \<not> blk_bit ?B j")
    case True
    then obtain j1 where j1: "j1 < 4096" "\<not> blk_bit ?B j1" by blast
    have "length ?B = 512" by (rule store_okD[OF Suc.prems(1)])
    from alloc_in_block_some[OF this j1, of blk] obtain j b where
      A: "alloc_in_block blk ?B = Inr (Some (blk * 4096 + j), b)" "j < 4096" "length b = 512"
      "\<not> blk_bit ?B j" "\<And>i. i < j \<Longrightarrow> blk_bit ?B i"
      "\<And>i. i < 4096 \<Longrightarrow> blk_bit b i \<longleftrightarrow> blk_bit ?B i \<or> i = j" by blast
    from A(1) have "alloc_loop (Suc n) blk bm s =
        Inr (Some ((blk + 0) * 4096 + j), put_block (blk + 0 + start_block_id bm) b s)"
      by (simp add: modify_block_free[OF free])
    with A show ?thesis by (intro exI[of _ 0] exI[of _ j] exI[of _ b]) auto
  next
    case False
    then have "i0 \<noteq> 0" using Suc.prems(4,5) by (cases "i0 = 0") auto
    then obtain i1 where i1: "i0 = Suc i1" by (cases i0) auto
    have none: "alloc_in_block blk ?B = Inr (None, ?B)"
      by (rule alloc_in_block_none) (use False in blast)
    then have step: "alloc_loop (Suc n) blk bm s = alloc_loop n (Suc blk) bm s"
      by (simp add: modify_block_free[OF free] put_block_same)
    have IH: "\<exists>i j b. i < n \<and> j < 4096 \<and> length b = 512 \<and>
       alloc_loop n (Suc blk) bm s =
         Inr (Some ((Suc blk + i) * 4096 + j), put_block (Suc blk + i + start_block_id bm) b s) \<and>
       \<not> blk_bit (blocks s (Suc blk + i + start_block_id bm)) j \<and>
       (\<forall>i' < i. \<forall>j' < 4096. blk_bit (blocks s (Suc blk + i' + start_block_id bm)) j') \<and>
       (\<forall>j' < j. blk_bit (blocks s (Suc blk + i + start_block_id bm)) j') \<and>
       (\<forall>j' < 4096. blk_bit b j' \<longleftrightarrow> blk_bit (blocks s (Suc blk + i + start_block_id bm)) j' \<or> j' = j)"
      by (rule Suc.IH[OF Suc.prems(1), of "Suc blk" i1])
        (use Suc.prems(2)[of "Suc _"] Suc.prems(3,4,5) i1 in auto)
    then obtain i j b where I: "i < n" "j < 4096" "length b = 512"
       "alloc_loop n (Suc blk) bm s =
         Inr (Some ((Suc blk + i) * 4096 + j), put_block (Suc blk + i + start_block_id bm) b s)"
       "\<not> blk_bit (blocks s (Suc blk + i + start_block_id bm)) j"
       "\<And>i' j'. i' < i \<Longrightarrow> j' < 4096 \<Longrightarrow> blk_bit (blocks s (Suc blk + i' + start_block_id bm)) j'"
       "\<And>j'. j' < j \<Longrightarrow> blk_bit (blocks s (Suc blk + i + start_block_id bm)) j'"
       "\<And>j'. j' < 4096 \<Longrightarrow> blk_bit b j' \<longleftrightarrow> blk_bit (blocks s (Suc blk + i + start_block_id bm)) j' \<or> j' = j"
      by blast
    have "blk_bit (blocks s (blk + i' + start_block_id bm)) j'" if "i' < Suc i" "j' < 4096" for i' j'
      using that False I(6)[of "i' - 1" j'] by (cases i') auto
    with I step show ?thesis
      by (intro exI[of _ "Suc i"] exI[of _ j] exI[of _ b]) auto
  qed
qed simp

interpretation bma: allocator "bitmap_alloc bm" "bitmap_dealloc bm" "bitmap_used bm" "bitmap_maximum bm"
  "bitmap_wf bm" for bm
proof (unfold_locales, goal_cases)
  case (1 s)
  then show ?case by (auto simp: bitmap_used_def)
next
  case (2 s)
  have ok: "store_ok s" and nh: "\<And>i. i < bitmap_blocks bm \<Longrightarrow> 0 + i + start_block_id bm \<notin> held s"
    using 2(1) by (auto simp: bitmap_wf_def bitmap_region_def)
  obtain k where k: "k < bitmap_blocks bm * 4096" "\<not> bitmap_bit bm s k"
    using 2(2) by (auto simp: bitmap_used_def bitmap_maximum_eq)
  have "\<not> blk_bit (blocks s (0 + k div 4096 + start_block_id bm)) (k mod 4096)"
    using k(2) by (simp add: bitmap_bit_def)
  from alloc_loop_some[OF ok nh split4096[OF k(1)] _ this] obtain i j b where
    A: "i < bitmap_blocks bm" "j < 4096" "length b = 512"
      "bitmap_alloc bm s = Inr (Some (i * 4096 + j), put_block (i + start_block_id bm) b s)"
      "\<not> blk_bit (blocks s (i + start_block_id bm)) j"
      "\<And>i' j'. i' < i \<Longrightarrow> j' < 4096 \<Longrightarrow> blk_bit (blocks s (i' + start_block_id bm)) j'"
      "\<And>j'. j' < j \<Longrightarrow> blk_bit (blocks s (i + start_block_id bm)) j'"
      "\<And>j'. j' < 4096 \<Longrightarrow> blk_bit b j' \<longleftrightarrow> blk_bit (blocks s (i + start_block_id bm)) j' \<or> j' = j"
    by (auto simp: bitmap_alloc_def)
  let ?n = "i * 4096 + j"
  have n: "?n < bitmap_maximum bm" "?n div 4096 = i" "?n mod 4096 = j"
    using A(1,2) by (simp_all add: bitmap_maximum_eq)
  have nfree: "?n \<notin> bitmap_used bm s" using A(5) n by (simp add: bitmap_used_def bitmap_bit_def)
  have below: "k \<in> bitmap_used bm s" if "k < ?n" for k
  proof -
    have kb: "k < bitmap_maximum bm" using that n(1) by simp
    have "blk_bit (blocks s (k div 4096 + start_block_id bm)) (k mod 4096)"
    proof (cases "k div 4096 = i")
      case True
      then have "k mod 4096 < j" using that by (metis add_less_cancel_left div_mult_mod_eq)
      with A(7) True show ?thesis by simp
    next
      case False
      then have "k div 4096 < i" using that A(2) by (simp add: div_less_iff_less_mult)
      with A(6) show ?thesis by simp
    qed
    with kb show ?thesis by (simp add: bitmap_used_def bitmap_bit_def)
  qed
  have least: "(LEAST i. i \<notin> bitmap_used bm s) = ?n"
    by (rule Least_equality) (use nfree below in \<open>auto simp: not_less[symmetric]\<close>)
  have "bitmap_used bm (put_block (i + start_block_id bm) b s) = insert ?n (bitmap_used bm s)"
  proof (rule set_eqI)
    fix m
    have "m = ?n \<longleftrightarrow> m div 4096 = i \<and> m mod 4096 = j" using n(2,3) by (metis div_mult_mod_eq)
    then show "m \<in> bitmap_used bm (put_block (i + start_block_id bm) b s) \<longleftrightarrow>
        m \<in> insert ?n (bitmap_used bm s)"
      using A(8)[of "m mod 4096"] n(1) bitmap_bit_put[OF A(1), of m b s]
      by (auto simp: bitmap_used_def bitmap_bit_def)
  qed
  moreover have "bitmap_wf bm (put_block (i + start_block_id bm) b s)"
    using 2(1) A(3) by (simp add: bitmap_wf_def)
  ultimately show ?case unfolding least using A(4) by auto
next
  case (3 s)
  have ok: "store_ok s" and nh: "\<And>i. i < bitmap_blocks bm \<Longrightarrow> 0 + i + start_block_id bm \<notin> held s"
    using 3(1) by (auto simp: bitmap_wf_def bitmap_region_def)
  have "blk_bit (blocks s (0 + i + start_block_id bm)) j" if "i < bitmap_blocks bm" "j < 4096" for i j
  proof -
    have "i * 4096 + j \<in> bitmap_used bm s"
      using 3(2) that by (simp add: bitmap_maximum_eq)
    with that show ?thesis by (simp add: bitmap_used_def bitmap_bit_def)
  qed
  from alloc_loop_full[OF ok nh this] show ?case by (simp add: bitmap_alloc_def)
next
  case (4 s k)
  then have k: "k < bitmap_blocks bm * 4096" "bitmap_bit bm s k"
    by (auto simp: bitmap_used_def bitmap_maximum_eq)
  let ?i = "k div 4096"
  let ?B = "blocks s (?i + start_block_id bm)"
  have i: "?i < bitmap_blocks bm" by (rule split4096[OF k(1)])
  have len: "length ?B = 512" using 4(1) by (simp add: bitmap_wf_def store_okD)
  have nh: "?i + start_block_id bm \<notin> held s"
    using 4(1) i by (auto simp: bitmap_wf_def bitmap_region_def)
  obtain b where b: "dealloc_in_block (k mod 4096 div 64) (k mod 4096 mod 64) ?B = Inr ((), b)" "length b = 512"
    "\<And>j. j < 4096 \<Longrightarrow> blk_bit b j \<longleftrightarrow> blk_bit ?B j \<and> j \<noteq> k mod 4096"
    using dealloc_in_block_eq(1)[OF len, of "k mod 4096"] k(2) by (auto simp: bitmap_bit_def)
  let ?s = "put_block (?i + start_block_id bm) b s"
  have "bitmap_dealloc bm k s = Inr ?s"
    using b(1) by (simp add: bitmap_dealloc_def decomposition_def block_bits_def Let_def
        modify_block_free[OF nh])
  moreover have "bitmap_used bm ?s = bitmap_used bm s - {k}"
  proof (rule set_eqI)
    fix m
    have "m = k \<longleftrightarrow> m div 4096 = ?i \<and> m mod 4096 = k mod 4096" by (metis div_mult_mod_eq)
    then show "m \<in> bitmap_used bm ?s \<longleftrightarrow> m \<in> bitmap_used bm s - {k}"
      using b(3)[of "m mod 4096"] bitmap_bit_put[OF i, of m b s]
      by (auto simp: bitmap_used_def bitmap_bit_def)
  qed
  moreover have "bitmap_wf bm ?s" using 4(1) b(2) by (simp add: bitmap_wf_def)
  ultimately show ?case by blast
next
  case (5 s k)
  then have k: "k < bitmap_blocks bm * 4096" "\<not> bitmap_bit bm s k"
    by (auto simp: bitmap_used_def bitmap_maximum_eq)
  let ?i = "k div 4096"
  let ?B = "blocks s (?i + start_block_id bm)"
  have i: "?i < bitmap_blocks bm" by (rule split4096[OF k(1)])
  have len: "length ?B = 512" using 5(1) by (simp add: bitmap_wf_def store_okD)
  have nh: "?i + start_block_id bm \<notin> held s"
    using 5(1) i by (auto simp: bitmap_wf_def bitmap_region_def)
  have "dealloc_in_block (k mod 4096 div 64) (k mod 4096 mod 64) ?B = Inl AssertFailed"
    using dealloc_in_block_eq(2)[OF len, of "k mod 4096"] k(2) by (simp add: bitmap_bit_def)
  then show ?case
    by (simp add: bitmap_dealloc_def decomposition_def block_bits_def Let_def modify_block_free[OF nh])
qed

section \<open>Only the bitmap is touched\<close>

lemma modify_block_InrE:
  assumes "modify_block i f s = Inr (v, s')"
  obtains b where "i \<notin> held s" "f (blocks s i) = Inr (v, b)" "s' = put_block i b s"
proof -
  have nh: "i \<notin> held s"
    using assms by (auto simp: modify_block_def with_block_def lock_block_def split: if_splits)
  with assms show thesis by (auto simp: modify_block_free bind_res_eq_Inr intro: that)
qed

lemma alloc_loop_frame:
  "alloc_loop n blk bm s = Inr (r, s') \<Longrightarrow>
     held s' = held s \<and>
     (\<forall>i. i \<notin> {blk + start_block_id bm ..< blk + n + start_block_id bm} \<longrightarrow> blocks s' i = blocks s i)"
proof (induction n arbitrary: blk s)
  case (Suc n)
  then obtain pos s1 where m: "modify_block (blk + start_block_id bm) (alloc_in_block blk) s = Inr (pos, s1)"
    and r: "(if pos \<noteq> None then Inr (pos, s1) else alloc_loop n (Suc blk) bm s1) = Inr (r, s')"
    by (auto simp: bind_res_eq_Inr)
  from m obtain b where s1: "s1 = put_block (blk + start_block_id bm) b s" by (rule modify_block_InrE)
  show ?case
  proof (cases "pos = None")
    case False
    then show ?thesis using r s1 by auto
  next
    case True
    then have "alloc_loop n (Suc blk) bm s1 = Inr (r, s')" using r by simp
    from Suc.IH[OF this] s1 show ?thesis by auto
  qed
qed simp

lemma bitmap_alloc_frame:
  assumes "bitmap_alloc bm s = Inr (r, s')"
  shows "held s' = held s" and "i \<notin> bitmap_region bm \<Longrightarrow> blocks s' i = blocks s i"
  using alloc_loop_frame[OF assms[unfolded bitmap_alloc_def]]
  by (auto simp: bitmap_region_def add.commute)

lemma bitmap_dealloc_frame:
  assumes "bitmap_dealloc bm k s = Inr s'" "k < bitmap_maximum bm"
  shows "held s' = held s" and "i \<notin> bitmap_region bm \<Longrightarrow> blocks s' i = blocks s i"
proof -
  obtain u where "modify_block (k div 4096 + start_block_id bm)
      (dealloc_in_block (k mod 4096 div 64) (k mod 4096 mod 64)) s = Inr (u, s')"
    using assms(1) by (auto simp: bitmap_dealloc_def decomposition_def block_bits_def Let_def bind_res_eq_Inr)
  then obtain b where s': "s' = put_block (k div 4096 + start_block_id bm) b s" by (rule modify_block_InrE)
  have "k div 4096 < bitmap_blocks bm" using assms(2) by (simp add: bitmap_maximum_eq split4096)
  then show "i \<notin> bitmap_region bm \<Longrightarrow> blocks s' i = blocks s i" "held s' = held s"
    by (auto simp: s' bitmap_region_def)
qed

lemma bitmap_used_frame:
  "(\<And>i. i \<in> bitmap_region bm \<Longrightarrow> blocks s' i = blocks s i) \<Longrightarrow> bitmap_used bm s' = bitmap_used bm s"
proof -
  assume eq: "\<And>i. i \<in> bitmap_region bm \<Longrightarrow> blocks s' i = blocks s i"
  have "bitmap_bit bm s' k = bitmap_bit bm s k" if "k < bitmap_maximum bm" for k
    using that by (simp add: bitmap_bit_def eq bitmap_region_def bitmap_maximum_eq split4096)
  then show ?thesis by (auto simp: bitmap_used_def)
qed

text \<open>The bitmap allocator hands out the least free number and marks exactly it, without
  touching a block outside the bitmap; freeing that number again restores the set of used
  numbers; when every number is in use it answers \<open>None\<close> and changes nothing; and freeing a
  number that is not in use panics at the assertion.\<close>

theorem bitmap_allocates_exactly:
  assumes "bitmap_wf bm s"
  shows "(if bitmap_used bm s = {..<bitmap_maximum bm} then bitmap_alloc bm s = Inr (None, s)
          else \<exists>i s1 s2. bitmap_alloc bm s = Inr (Some i, s1) \<and> i < bitmap_maximum bm \<and>
                 i = (LEAST i. i \<notin> bitmap_used bm s) \<and> i \<notin> bitmap_used bm s \<and>
                 bitmap_used bm s1 = insert i (bitmap_used bm s) \<and> bitmap_wf bm s1 \<and>
                 {b. blocks s1 b \<noteq> blocks s b} \<subseteq> bitmap_region bm \<and>
                 bitmap_dealloc bm i s1 = Inr s2 \<and> bitmap_used bm s2 = bitmap_used bm s) \<and>
         (if k < bitmap_maximum bm \<and> k \<notin> bitmap_used bm s
          then bitmap_dealloc bm k s = Inl AssertFailed else True)"
proof (intro conjI)
  show "if k < bitmap_maximum bm \<and> k \<notin> bitmap_used bm s
          then bitmap_dealloc bm k s = Inl AssertFailed else True"
    using bma.dealloc_free[OF assms] by simp
  show "if bitmap_used bm s = {..<bitmap_maximum bm} then bitmap_alloc bm s = Inr (None, s)
          else \<exists>i s1 s2. bitmap_alloc bm s = Inr (Some i, s1) \<and> i < bitmap_maximum bm \<and>
                 i = (LEAST i. i \<notin> bitmap_used bm s) \<and> i \<notin> bitmap_used bm s \<and>
                 bitmap_used bm s1 = insert i (bitmap_used bm s) \<and> bitmap_wf bm s1 \<and>
                 {b. blocks s1 b \<noteq> blocks s b} \<subseteq> bitmap_region bm \<and>
                 bitmap_dealloc bm i s1 = Inr s2 \<and> bitmap_used bm s2 = bitmap_used bm s"
  proof (cases "bitmap_used bm s = {..<bitmap_maximum bm}")
    case True
    then show ?thesis using bma.alloc_none[OF assms] by simp
  next
    case False
    define i where "i = (LEAST i. i \<notin> bitmap_used bm s)"
    note free = bma.least_free[OF False, folded i_def]
    obtain s1 where s1: "bitmap_alloc bm s = Inr (Some i, s1)" "bitmap_wf bm s1"
        "bitmap_used bm s1 = insert i (bitmap_used bm s)"
      using bma.alloc_some[OF assms False] by (auto simp: i_def)
    obtain s2 where s2: "bitmap_dealloc bm i s1 = Inr s2" "bitmap_used bm s2 = bitmap_used bm s1 - {i}"
      using bma.dealloc_used[OF s1(2), of i] s1(3) by auto
    have "bitmap_used bm s2 = bitmap_used bm s" using s2(2) s1(3) free(2) by blast
    moreover have "{b. blocks s1 b \<noteq> blocks s b} \<subseteq> bitmap_region bm"
      using bitmap_alloc_frame(2)[OF s1(1)] by blast
    ultimately show ?thesis using False s1 s2(1) free i_def by auto
  qed
qed

lemma bitmap_allocates_exactly_witness:
  "bitmap_alloc (bitmap_new 3 0) \<lparr>blocks = \<lambda>_. replicate 512 0, held = {}\<rparr> =
     Inr (None, \<lparr>blocks = \<lambda>_. replicate 512 0, held = {}\<rparr>) \<and>
   (\<exists>i s1. bitmap_alloc (bitmap_new 3 1) \<lparr>blocks = \<lambda>_. replicate 512 0, held = {}\<rparr> = Inr (Some i, s1) \<and>
      bitmap_used (bitmap_new 3 1) s1 = {i})"
proof -
  let ?s = "\<lparr>blocks = \<lambda>_. replicate 512 0, held = {}\<rparr> :: store"
  have wf: "bitmap_wf bm ?s" for bm by (simp add: bitmap_wf_def store_ok_def)
  have e: "bitmap_used (bitmap_new 3 n) ?s = {}" for n
    by (auto simp: bitmap_used_def bitmap_bit_def blk_bit_def bitmap_new_def bitmap_maximum_eq div64_less)
  have m: "bitmap_maximum (bitmap_new 3 0) = 0" "bitmap_maximum (bitmap_new 3 1) = 4096"
    by (simp_all add: bitmap_maximum_eq bitmap_new_def)
  have ne: "{} \<noteq> {..<4096 :: nat}" by (metis lessThan_eq_iff lessThan_0 zero_neq_numeral)
  show ?thesis
  proof
    show "bitmap_alloc (bitmap_new 3 0) ?s = Inr (None, ?s)"
      using bitmap_allocates_exactly[OF wf, of "bitmap_new 3 0" 0] unfolding e m by simp
    show "\<exists>i s1. bitmap_alloc (bitmap_new 3 1) ?s = Inr (Some i, s1) \<and>
        bitmap_used (bitmap_new 3 1) s1 = {i}"
      using conjunct1[OF bitmap_allocates_exactly[OF wf, of "bitmap_new 3 1" 0]]
      unfolding e m if_not_P[OF ne] by blast
  qed
qed

end
