(* ===== verification/Disk_Layout.thy ===== *)
theory Disk_Layout
  imports Block_Store
begin

text \<open>
  The on-disk structures of \<open>tg-rcore-tutorial-easy-fs/src/layout.rs\<close>: super block, inode
  and directory entry, with their byte layout (\<open>repr(C)\<close>), and the operations of a disk
  inode: which block holds a part of the file, growing, clearing, reading and writing.

  Numbers of blocks and byte offsets (\<open>u32\<close> and \<open>usize\<close> locals of the source, bounded by
  the file size) are natural numbers; stored fields are \<open>u32\<close> words.
\<close>

section \<open>Constants\<close>

definition efs_magic :: u32 where
  "efs_magic = 0x3b800001"

definition inode_direct_count :: nat where
  "inode_direct_count = 28"

definition name_length_limit :: nat where
  "name_length_limit = 27"

definition inode_indirect1_count :: nat where
  "inode_indirect1_count = block_sz div 4"

definition inode_indirect2_count :: nat where
  "inode_indirect2_count = inode_indirect1_count * inode_indirect1_count"

definition indirect1_bound :: nat where
  "indirect1_bound = inode_direct_count + inode_indirect1_count"

lemmas layout_consts =
  inode_direct_count_def inode_indirect1_count_def inode_indirect2_count_def indirect1_bound_def
  name_length_limit_def

definition div_ceil :: "nat \<Rightarrow> nat \<Rightarrow> nat" where
  "div_ceil a b = (if a mod b = 0 then a div b else a div b + 1)"

definition usize_add :: "nat \<Rightarrow> nat \<Rightarrow> nat res" where
  "usize_add a b = (if a + b < 2 ^ 64 then Inr (a + b) else Inl ArithOverflow)"

section \<open>Super block\<close>

record super_block =
  magic :: u32
  sb_total_blocks :: u32
  sb_inode_bitmap_blocks :: u32
  sb_inode_area_blocks :: u32
  sb_data_bitmap_blocks :: u32
  sb_data_area_blocks :: u32

definition super_block_initialize :: "u32 \<Rightarrow> u32 \<Rightarrow> u32 \<Rightarrow> u32 \<Rightarrow> u32 \<Rightarrow> super_block" where
  "super_block_initialize tot ibm iarea dbm darea =
     \<lparr>magic = efs_magic, sb_total_blocks = tot, sb_inode_bitmap_blocks = ibm,
      sb_inode_area_blocks = iarea, sb_data_bitmap_blocks = dbm, sb_data_area_blocks = darea\<rparr>"

definition super_block_is_valid :: "super_block \<Rightarrow> bool" where
  "super_block_is_valid sb \<longleftrightarrow> magic sb = efs_magic"

definition decode_super_block :: "block \<Rightarrow> super_block" where
  "decode_super_block b =
     \<lparr>magic = u32_at 0 b, sb_total_blocks = u32_at 1 b, sb_inode_bitmap_blocks = u32_at 2 b,
      sb_inode_area_blocks = u32_at 3 b, sb_data_bitmap_blocks = u32_at 4 b,
      sb_data_area_blocks = u32_at 5 b\<rparr>"

definition encode_super_block :: "super_block \<Rightarrow> block \<Rightarrow> block" where
  "encode_super_block sb b =
     set_u32_at 5 (sb_data_area_blocks sb) (set_u32_at 4 (sb_data_bitmap_blocks sb)
       (set_u32_at 3 (sb_inode_area_blocks sb) (set_u32_at 2 (sb_inode_bitmap_blocks sb)
         (set_u32_at 1 (sb_total_blocks sb) (set_u32_at 0 (magic sb) b)))))"

section \<open>Disk inode\<close>

datatype disk_inode_type = FileType | DirectoryType

record disk_inode =
  fsize :: u32
  direct :: "u32 list"
  indirect1 :: u32
  indirect2 :: u32
  itype :: disk_inode_type

definition disk_inode_sz :: nat where
  "disk_inode_sz = 128"

text \<open>
  The record at byte offset \<open>off\<close> of a block: size at 0, 28 direct pointers at 4, the two
  indirect pointers at 116 and 120, the type byte at 124, three bytes of padding.
\<close>

definition le_u32_at :: "nat \<Rightarrow> block \<Rightarrow> u32" where
  "le_u32_at off b = of_nat (of_le_bytes (slice off 4 b))"

definition decode_type :: "u8 \<Rightarrow> disk_inode_type" where
  "decode_type v = (if v = 0 then FileType else DirectoryType)"

definition encode_type :: "disk_inode_type \<Rightarrow> u8" where
  "encode_type t = (case t of FileType \<Rightarrow> 0 | DirectoryType \<Rightarrow> 1)"

definition decode_inode :: "nat \<Rightarrow> block \<Rightarrow> disk_inode" where
  "decode_inode off b =
     \<lparr>fsize = le_u32_at off b,
      direct = map (\<lambda>k. le_u32_at (off + 4 + 4 * k) b) [0..<inode_direct_count],
      indirect1 = le_u32_at (off + 116) b,
      indirect2 = le_u32_at (off + 120) b,
      itype = decode_type (b ! (off + 124))\<rparr>"

definition inode_bytes :: "disk_inode \<Rightarrow> u8 list" where
  "inode_bytes ino =
     le_bytes 4 (unat (fsize ino)) @ concat (map (\<lambda>v. le_bytes 4 (unat v)) (direct ino)) @
     le_bytes 4 (unat (indirect1 ino)) @ le_bytes 4 (unat (indirect2 ino)) @ [encode_type (itype ino)]"

definition encode_inode :: "nat \<Rightarrow> disk_inode \<Rightarrow> block \<Rightarrow> block" where
  "encode_inode off ino b = overwrite off (inode_bytes ino) b"

definition inode_initialize :: "disk_inode_type \<Rightarrow> disk_inode" where
  "inode_initialize t =
     \<lparr>fsize = 0, direct = replicate inode_direct_count 0, indirect1 = 0, indirect2 = 0, itype = t\<rparr>"

definition is_dir :: "disk_inode \<Rightarrow> bool" where
  "is_dir ino \<longleftrightarrow> itype ino = DirectoryType"

definition is_file :: "disk_inode \<Rightarrow> bool" where
  "is_file ino \<longleftrightarrow> itype ino = FileType"

definition data_blocks_of :: "u32 \<Rightarrow> nat" where
  "data_blocks_of sz = div_ceil (unat sz) block_sz"

definition data_blocks :: "disk_inode \<Rightarrow> nat" where
  "data_blocks ino = data_blocks_of (fsize ino)"

definition total_blocks :: "u32 \<Rightarrow> nat" where
  "total_blocks sz =
     (let n = data_blocks_of sz;
          t1 = n;
          t2 = (if inode_direct_count < n then t1 + 1 else t1);
          t3 = (if indirect1_bound < n
                then t2 + 1 + div_ceil (n - indirect1_bound) inode_indirect1_count else t2)
      in t3)"

definition blocks_num_needed :: "u32 \<Rightarrow> disk_inode \<Rightarrow> nat res" where
  "blocks_num_needed new_size ino =
     bind_res (assert_res (fsize ino \<le> new_size)) (\<lambda>_.
       if total_blocks (fsize ino) \<le> total_blocks new_size
       then Inr (total_blocks new_size - total_blocks (fsize ino)) else Inl ArithOverflow)"

definition get_block_id :: "nat \<Rightarrow> disk_inode \<Rightarrow> store \<Rightarrow> u32 res" where
  "get_block_id inner_id ino s =
     (if inner_id < inode_direct_count then nth_res (direct ino) inner_id
      else if inner_id < indirect1_bound then
        read_block (unat (indirect1 ino)) (get_u32 (inner_id - inode_direct_count)) s
      else
        let last = inner_id - indirect1_bound in
        bind_res (read_block (unat (indirect2 ino)) (get_u32 (last div inode_indirect1_count)) s) (\<lambda>i1.
          read_block (unat i1) (get_u32 (last mod inode_indirect1_count)) s))"

section \<open>Growing an inode\<close>

text \<open>\<open>new_blocks.next().unwrap()\<close>.\<close>

definition next_block :: "u32 list \<Rightarrow> (u32 \<times> u32 list) res" where
  "next_block v = (case v of [] \<Rightarrow> Inl UnwrapNone | x # v' \<Rightarrow> Inr (x, v'))"

text \<open>The two loops that fill consecutive entries \<open>cur\<close> to \<open>lim - 1\<close>.\<close>

function fill_direct :: "nat \<Rightarrow> nat \<Rightarrow> u32 list \<Rightarrow> u32 list \<Rightarrow> (u32 list \<times> u32 list) res" where
  "fill_direct cur lim v d =
     (if cur < lim then
        bind_res (next_block v) (\<lambda>(x, v').
          bind_res (update_res d cur x) (\<lambda>d'. fill_direct (cur + 1) lim v' d'))
      else Inr (v, d))"
  by auto
termination by (relation "measure (\<lambda>(cur, lim, _, _). lim - cur)") auto

function fill_indirect :: "nat \<Rightarrow> nat \<Rightarrow> u32 list \<Rightarrow> block \<Rightarrow> (u32 list \<times> block) res" where
  "fill_indirect cur lim v b =
     (if cur < lim then
        bind_res (next_block v) (\<lambda>(x, v').
          bind_res (put_u32 cur x b) (\<lambda>b'. fill_indirect (cur + 1) lim v' b'))
      else Inr (v, b))"
  by auto
termination by (relation "measure (\<lambda>(cur, lim, _, _). lim - cur)") auto

declare fill_direct.simps [simp del] fill_indirect.simps [simp del]

text \<open>
  The loop over the second level, from entry \<open>(a0, b0)\<close> to \<open>(a1, b1)\<close>; \<open>i2\<close> is the block of
  \<open>indirect2\<close>, whose lock is held. A column beyond 128 would be out of bounds; it does not occur.
\<close>

function fill_indirect2 ::
  "nat \<Rightarrow> nat \<Rightarrow> nat \<Rightarrow> nat \<Rightarrow> u32 list \<Rightarrow> block \<Rightarrow> store \<Rightarrow> (u32 list \<times> block \<times> store) res" where
  "fill_indirect2 a0 b0 a1 b1 v i2 s =
     (if inode_indirect1_count \<le> b0 then Inl IndexOutOfBounds
      else if a0 < a1 \<or> (a0 = a1 \<and> b0 < b1) then
        bind_res
          (if b0 = 0 then
             bind_res (next_block v) (\<lambda>(x, v').
               bind_res (put_u32 a0 x i2) (\<lambda>i2'. Inr (v', i2')))
           else Inr (v, i2))
          (\<lambda>(v1, i2a).
            bind_res (get_u32 a0 i2a) (\<lambda>i1.
              bind_res
                (modify_block (unat i1) (\<lambda>b.
                   bind_res (next_block v1) (\<lambda>(x, v').
                     bind_res (put_u32 b0 x b) (\<lambda>b'. Inr (v', b')))) s)
                (\<lambda>(v2, s').
                  if b0 + 1 = inode_indirect1_count
                  then fill_indirect2 (a0 + 1) 0 a1 b1 v2 i2a s'
                  else fill_indirect2 a0 (b0 + 1) a1 b1 v2 i2a s')))
      else Inr (v, i2, s))"
  by auto
termination
  by (relation "measures [\<lambda>(a0, _, a1, _). Suc a1 - a0, \<lambda>(_, b0, _). inode_indirect1_count - b0]") auto

declare fill_indirect2.simps [simp del]

definition increase_size :: "u32 \<Rightarrow> u32 list \<Rightarrow> disk_inode \<Rightarrow> store \<Rightarrow> (disk_inode \<times> store) res" where
  "increase_size new_size new_blocks ino s =
     (let current = data_blocks ino;
          ino1 = ino\<lparr>fsize := new_size\<rparr>;
          total = data_blocks ino1 in
      bind_res (fill_direct current (min total inode_direct_count) new_blocks (direct ino1)) (\<lambda>(v1, d).
        let ino2 = ino1\<lparr>direct := d\<rparr>;
            current1 = max current (min total inode_direct_count) in
        if total \<le> inode_direct_count then Inr (ino2, s)
        else
          bind_res
            (if current1 = inode_direct_count then
               bind_res (next_block v1) (\<lambda>(x, v'). Inr (v', ino2\<lparr>indirect1 := x\<rparr>))
             else Inr (v1, ino2))
            (\<lambda>(v2, ino3).
              let current2 = current1 - inode_direct_count;
                  total2 = total - inode_direct_count;
                  lim2 = min total2 inode_indirect1_count in
              bind_res (modify_block (unat (indirect1 ino3)) (fill_indirect current2 lim2 v2) s) (\<lambda>(v3, s1).
                let current3 = max current2 lim2 in
                if total2 \<le> inode_indirect1_count then Inr (ino3, s1)
                else
                  bind_res
                    (if current3 = inode_indirect1_count then
                       bind_res (next_block v3) (\<lambda>(x, v'). Inr (v', ino3\<lparr>indirect2 := x\<rparr>))
                     else Inr (v3, ino3))
                    (\<lambda>(v4, ino4).
                      let current4 = current3 - inode_indirect1_count;
                          total4 = total2 - inode_indirect1_count in
                      bind_res
                        (with_block (unat (indirect2 ino4))
                          (fill_indirect2 (current4 div inode_indirect1_count) (current4 mod inode_indirect1_count)
                             (total4 div inode_indirect1_count) (total4 mod inode_indirect1_count) v4) s1)
                        (\<lambda>(_, s2). Inr (ino4, s2)))))))"

section \<open>Clearing an inode\<close>

text \<open>The blocks of the first level listed in the entries \<open>ks\<close> of the second level.\<close>

fun collect_full :: "nat list \<Rightarrow> block \<Rightarrow> u32 list \<Rightarrow> store \<Rightarrow> (u32 list \<times> store) res" where
  "collect_full [] i2 v s = Inr (v, s)"
| "collect_full (k # ks) i2 v s =
     (let e = u32_at k i2 in
      bind_res
        (modify_block (unat e) (\<lambda>b.
           Inr ((v @ [e]) @ map (\<lambda>j. u32_at j b) [0..<inode_indirect1_count], b)) s)
        (\<lambda>(v', s'). collect_full ks i2 v' s'))"

definition clear_size :: "disk_inode \<Rightarrow> store \<Rightarrow> (u32 list \<times> disk_inode \<times> store) res" where
  "clear_size ino s =
     (let n = data_blocks ino;
          ino1 = ino\<lparr>fsize := 0\<rparr>;
          k = min n inode_direct_count;
          v1 = take k (direct ino1);
          ino2 = ino1\<lparr>direct := replicate k 0 @ drop k (direct ino1)\<rparr> in
      if n \<le> inode_direct_count then Inr (v1, ino2, s)
      else
        let v2 = v1 @ [indirect1 ino2];
            n2 = n - inode_direct_count in
        bind_res
          (modify_block (unat (indirect1 ino2)) (\<lambda>b.
             Inr (v2 @ map (\<lambda>j. u32_at j b) [0..<min n2 inode_indirect1_count], b)) s)
          (\<lambda>(v3, s1).
            let ino3 = ino2\<lparr>indirect1 := 0\<rparr> in
            if n2 \<le> inode_indirect1_count then Inr (v3, ino3, s1)
            else
              let v4 = v3 @ [indirect2 ino3];
                  n3 = n2 - inode_indirect1_count in
              bind_res (assert_res (n3 \<le> inode_indirect2_count)) (\<lambda>_.
                let a1 = n3 div inode_indirect1_count;
                    b1 = n3 mod inode_indirect1_count in
                bind_res
                  (with_block (unat (indirect2 ino3)) (\<lambda>i2 s2.
                     bind_res (collect_full (take a1 [0..<inode_indirect1_count]) i2 v4 s2) (\<lambda>(v5, s3).
                       if 0 < b1 then
                         bind_res (get_u32 a1 i2) (\<lambda>e.
                           bind_res (modify_block (unat e) (\<lambda>b.
                             Inr ((v5 @ [e]) @ map (\<lambda>j. u32_at j b) [0..<b1], b)) s3) (\<lambda>(v6, s4).
                             Inr (v6, i2, s4)))
                       else Inr (v5, i2, s3))) s1)
                  (\<lambda>(v7, s5). Inr (v7, ino3\<lparr>indirect2 := 0\<rparr>, s5)))))"

section \<open>Reading and writing\<close>

text \<open>The end of the part of the file that lies in the same block as \<open>start\<close>.\<close>

definition block_end :: "nat \<Rightarrow> nat \<Rightarrow> nat" where
  "block_end start fin = min ((start div block_sz + 1) * block_sz) fin"

lemma block_end_progress:
  "block_end start fin \<noteq> fin \<Longrightarrow> start < block_end start fin \<and> block_end start fin < fin"
proof -
  have "start = start div 512 * 512 + start mod 512" by simp
  then have "start < (start div 512 + 1) * 512" by (metis add.commute mod_less_divisor
      add_less_cancel_left distrib_right mult.left_neutral zero_less_numeral)
  then show "block_end start fin \<noteq> fin \<Longrightarrow> ?thesis" by (auto simp: block_end_def min_def split: if_splits)
qed

definition sub_slice :: "nat \<Rightarrow> nat \<Rightarrow> u8 list \<Rightarrow> u8 list res" where
  "sub_slice off n b = (if off + n \<le> length b then Inr (slice off n b) else Inl IndexOutOfBounds)"

definition write_slice :: "nat \<Rightarrow> u8 list \<Rightarrow> u8 list \<Rightarrow> u8 list res" where
  "write_slice off x b =
     (if off + length x \<le> length b then Inr (overwrite off x b) else Inl IndexOutOfBounds)"

function read_loop ::
  "nat \<Rightarrow> nat \<Rightarrow> nat \<Rightarrow> nat \<Rightarrow> u8 list \<Rightarrow> disk_inode \<Rightarrow> store \<Rightarrow> (nat \<times> u8 list) res" where
  "read_loop start fin start_block read_size buf ino s =
     (let end_current_block = block_end start fin;
          block_read_size = end_current_block - start in
      bind_res (get_block_id start_block ino s) (\<lambda>i.
        bind_res (read_block (unat i) (sub_slice (start mod block_sz) block_read_size) s) (\<lambda>src.
          bind_res (write_slice read_size src buf) (\<lambda>buf'.
            if end_current_block = fin then Inr (read_size + block_read_size, buf')
            else read_loop end_current_block fin (start_block + 1) (read_size + block_read_size) buf' ino s))))"
  by auto
termination
  by (relation "measure (\<lambda>(start, fin, _). fin - start)") (auto dest: block_end_progress)

definition read_at :: "nat \<Rightarrow> u8 list \<Rightarrow> disk_inode \<Rightarrow> store \<Rightarrow> (nat \<times> u8 list) res" where
  "read_at offset buf ino s =
     bind_res (usize_add offset (length buf)) (\<lambda>e.
       let start = offset; fin = min e (unat (fsize ino)) in
       if fin \<le> start then Inr (0, buf)
       else read_loop start fin (start div block_sz) 0 buf ino s)"

function write_loop ::
  "nat \<Rightarrow> nat \<Rightarrow> nat \<Rightarrow> nat \<Rightarrow> u8 list \<Rightarrow> disk_inode \<Rightarrow> store \<Rightarrow> (nat \<times> store) res" where
  "write_loop start fin start_block write_size buf ino s =
     (let end_current_block = block_end start fin;
          block_write_size = end_current_block - start in
      bind_res (get_block_id start_block ino s) (\<lambda>i.
        bind_res
          (modify_block (unat i) (\<lambda>b.
             bind_res (sub_slice write_size block_write_size buf) (\<lambda>src.
               bind_res (write_slice (start mod block_sz) src b) (\<lambda>b'. Inr ((), b')))) s)
          (\<lambda>(_, s').
            if end_current_block = fin then Inr (write_size + block_write_size, s')
            else write_loop end_current_block fin (start_block + 1) (write_size + block_write_size) buf ino s')))"
  by auto
termination
  by (relation "measure (\<lambda>(start, fin, _). fin - start)") (auto dest: block_end_progress)

declare read_loop.simps [simp del] write_loop.simps [simp del]

definition write_at :: "nat \<Rightarrow> u8 list \<Rightarrow> disk_inode \<Rightarrow> store \<Rightarrow> (nat \<times> store) res" where
  "write_at offset buf ino s =
     bind_res (usize_add offset (length buf)) (\<lambda>e.
       let start = offset; fin = min e (unat (fsize ino)) in
       bind_res (assert_res (start \<le> fin)) (\<lambda>_.
         write_loop start fin (start div block_sz) 0 buf ino s))"

section \<open>Directory entries\<close>

record dir_entry =
  entry_name :: "u8 list"
  inode_number :: u32

definition dirent_sz :: nat where
  "dirent_sz = 32"

definition dir_entry_empty :: dir_entry where
  "dir_entry_empty = \<lparr>entry_name = replicate (name_length_limit + 1) 0, inode_number = 0\<rparr>"

text \<open>A Rust string is its UTF-8 bytes.\<close>

definition dir_entry_new :: "u8 list \<Rightarrow> u32 \<Rightarrow> dir_entry res" where
  "dir_entry_new name n =
     bind_res (write_slice 0 name (replicate (name_length_limit + 1) 0)) (\<lambda>bytes.
       Inr \<lparr>entry_name = bytes, inode_number = n\<rparr>)"

definition as_bytes :: "dir_entry \<Rightarrow> u8 list" where
  "as_bytes e = entry_name e @ le_bytes 4 (unat (inode_number e))"

definition from_bytes :: "u8 list \<Rightarrow> dir_entry" where
  "from_bytes b = \<lparr>entry_name = slice 0 28 b, inode_number = le_u32_at 28 b\<rparr>"

definition in_range :: "u8 \<Rightarrow> u8 \<Rightarrow> u8 \<Rightarrow> bool" where
  "in_range lo hi x \<longleftrightarrow> lo \<le> x \<and> x \<le> hi"

fun utf8_valid :: "u8 list \<Rightarrow> bool" where
  "utf8_valid [] = True"
| "utf8_valid (a # rest) =
     (if a < 0x80 then utf8_valid rest
      else case rest of
        [] \<Rightarrow> False
      | b # rest2 \<Rightarrow>
          if in_range 0xC2 0xDF a then in_range 0x80 0xBF b \<and> utf8_valid rest2
          else case rest2 of
            [] \<Rightarrow> False
          | c # rest3 \<Rightarrow>
              if in_range 0xE0 0xEF a then
                in_range (if a = 0xE0 then 0xA0 else 0x80) (if a = 0xED then 0x9F else 0xBF) b \<and>
                in_range 0x80 0xBF c \<and> utf8_valid rest3
              else case rest3 of
                [] \<Rightarrow> False
              | d # rest4 \<Rightarrow>
                  in_range 0xF0 0xF4 a \<and>
                  in_range (if a = 0xF0 then 0x90 else 0x80) (if a = 0xF4 then 0x8F else 0xBF) b \<and>
                  in_range 0x80 0xBF c \<and> in_range 0x80 0xBF d \<and> utf8_valid rest4)"

definition from_utf8 :: "u8 list \<Rightarrow> u8 list res" where
  "from_utf8 b = (if utf8_valid b then Inr b else Inl UnwrapErr)"

definition dir_entry_name :: "dir_entry \<Rightarrow> u8 list res" where
  "dir_entry_name e =
     (case find_index (\<lambda>x. x = 0) (entry_name e) of
        Some n \<Rightarrow> from_utf8 (take n (entry_name e))
      | None \<Rightarrow> Inl IndexOutOfBounds)"

end
