(* ===== verification/Disk_Codec.thy ===== *)
theory Disk_Codec
  imports Disk_Layout
begin

text \<open>
  The byte layouts of \<open>layout.rs\<close> read back what was written: super block, inode (also beside
  other inodes in the same block) and directory entry. The last section gives what
  \<open>DirEntry::name\<close> returns, and the lengths of names for which it panics.
\<close>

section \<open>Super block and inode\<close>

lemma super_block_round_trip:
  "length b = 512 \<Longrightarrow> decode_super_block (encode_super_block sb b) = sb"
  by (cases sb) (simp add: decode_super_block_def encode_super_block_def u32_at_set)

lemma slice_in_overwrite:
  "c + n \<le> length ys \<Longrightarrow> off + length ys \<le> length xs \<Longrightarrow>
     slice (off + c) n (overwrite off ys xs) = slice c n ys"
  by (rule nth_equalityI) (simp_all add: nth_slice nth_overwrite)

lemma slice_skip: "slice (length xs + c) n (xs @ ys) = slice c n ys"
  by (simp add: slice_def)

lemma slice_first: "length xs = n \<Longrightarrow> slice 0 n (xs @ ys) = xs"
  by (simp add: slice_def)

lemma length_direct_bytes [simp]:
  "length (concat (map (\<lambda>v. le_bytes 4 (unat (v :: u32))) vs)) = 4 * length vs"
  by (induction vs) simp_all

lemma slice_direct_bytes:
  "k < length vs \<Longrightarrow> slice (4 * k) 4 (concat (map (\<lambda>v. le_bytes 4 (unat v)) vs) @ ys) = le_bytes 4 (unat (vs ! k))"
proof (induction vs arbitrary: k)
  case (Cons v vs)
  show ?case
  proof (cases k)
    case 0
    then show ?thesis by (simp add: slice_def)
  next
    case (Suc j)
    then have "slice (4 * j) 4 (concat (map (\<lambda>v. le_bytes 4 (unat v)) vs) @ ys) = le_bytes 4 (unat (vs ! j))"
      using Cons by simp
    then show ?thesis
      using Suc slice_skip[of "le_bytes 4 (unat v)" "4 * j" 4 "concat (map (\<lambda>v. le_bytes 4 (unat v)) vs) @ ys"]
      by simp
  qed
qed simp

lemma length_inode_bytes [simp]: "length (direct ino) = 28 \<Longrightarrow> length (inode_bytes ino) = 125"
  by (simp add: inode_bytes_def)

lemma slice_inode_bytes:
  assumes "length (direct ino) = 28"
  shows "slice 0 4 (inode_bytes ino) = le_bytes 4 (unat (fsize ino))"
    and "k < 28 \<Longrightarrow> slice (4 + 4 * k) 4 (inode_bytes ino) = le_bytes 4 (unat (direct ino ! k))"
    and "slice 116 4 (inode_bytes ino) = le_bytes 4 (unat (indirect1 ino))"
    and "slice 120 4 (inode_bytes ino) = le_bytes 4 (unat (indirect2 ino))"
    and "inode_bytes ino ! 124 = encode_type (itype ino)"
proof -
  let ?d = "concat (map (\<lambda>v. le_bytes 4 (unat v)) (direct ino))"
  have ld: "length ?d = 112" using assms by simp
  show "slice 0 4 (inode_bytes ino) = le_bytes 4 (unat (fsize ino))"
    unfolding inode_bytes_def by (rule slice_first) simp
  show "slice (4 + 4 * k) 4 (inode_bytes ino) = le_bytes 4 (unat (direct ino ! k))" if "k < 28"
    using slice_skip[of "le_bytes 4 (unat (fsize ino))" "4 * k" 4] that assms
    by (simp add: inode_bytes_def slice_direct_bytes)
  define pre where "pre = le_bytes 4 (unat (fsize ino)) @ ?d"
  have pre: "length pre = 116" "inode_bytes ino = pre @ le_bytes 4 (unat (indirect1 ino)) @
      le_bytes 4 (unat (indirect2 ino)) @ [encode_type (itype ino)]"
    using ld by (simp_all add: pre_def inode_bytes_def)
  show "slice 116 4 (inode_bytes ino) = le_bytes 4 (unat (indirect1 ino))"
    using slice_skip[of pre 0 4] pre by (simp add: slice_first)
  show "slice 120 4 (inode_bytes ino) = le_bytes 4 (unat (indirect2 ino))"
    using slice_skip[of "pre @ le_bytes 4 (unat (indirect1 ino))" 0 4] pre by (simp add: slice_first)
  show "inode_bytes ino ! 124 = encode_type (itype ino)"
    by (simp add: pre nth_append)
qed

lemma decode_encode_type [simp]: "decode_type (encode_type t) = t"
  by (cases t) (simp_all add: decode_type_def encode_type_def)

lemma inode_round_trip:
  assumes "length (direct ino) = 28" "off + 128 \<le> length b"
  shows "decode_inode off (encode_inode off ino b) = ino"
proof -
  have fit: "off + length (inode_bytes ino) \<le> length b" using assms by simp
  have sl: "slice (off + c) 4 (encode_inode off ino b) = slice c 4 (inode_bytes ino)" if "c + 4 \<le> 125" for c
    unfolding encode_inode_def using that assms fit by (intro slice_in_overwrite) simp_all
  have "map (\<lambda>k. le_u32_at (off + 4 + 4 * k) (encode_inode off ino b)) [0..<28] = direct ino"
  proof (rule nth_equalityI)
    fix k assume "k < length (map (\<lambda>k. le_u32_at (off + 4 + 4 * k) (encode_inode off ino b)) [0..<28])"
    then have "k < 28" by simp
    then show "map (\<lambda>k. le_u32_at (off + 4 + 4 * k) (encode_inode off ino b)) [0..<28] ! k = direct ino ! k"
      using sl[of "4 + 4 * k"] slice_inode_bytes(2)[OF assms(1), of k]
      by (simp add: le_u32_at_def u32_of_le_bytes add.assoc)
  qed (simp add: assms)
  moreover have "encode_inode off ino b ! (off + 124) = encode_type (itype ino)"
    unfolding encode_inode_def using assms fit slice_inode_bytes(5)[OF assms(1)]
    by (subst nth_overwrite) simp_all
  ultimately show ?thesis
    using sl[of 0] sl[of 116] sl[of 120] slice_inode_bytes(1,3,4)[OF assms(1)]
    by (simp add: decode_inode_def le_u32_at_def u32_of_le_bytes inode_direct_count_def)
qed

lemma inode_slots_disjoint:
  assumes "length (direct ino) = 28" "off + 128 \<le> length b" "off' + 128 \<le> length b"
    and "off + 128 \<le> off' \<or> off' + 128 \<le> off"
  shows "decode_inode off' (encode_inode off ino b) = decode_inode off' b"
proof -
  have sl: "slice (off' + c) 4 (encode_inode off ino b) = slice (off' + c) 4 b" if "c + 4 \<le> 128" for c
    unfolding encode_inode_def using that assms by (intro slice_overwrite_disjoint) auto
  have "encode_inode off ino b ! (off' + 124) = b ! (off' + 124)"
    unfolding encode_inode_def using assms by (subst nth_overwrite) auto
  moreover have "le_u32_at (off' + 4 + 4 * k) (encode_inode off ino b) = le_u32_at (off' + 4 + 4 * k) b" if "k < 28" for k
    using sl[of "4 + 4 * k"] that by (simp add: le_u32_at_def add.assoc)
  ultimately show ?thesis
    using sl[of 0] sl[of 116] sl[of 120]
    by (simp add: decode_inode_def le_u32_at_def inode_direct_count_def)
qed

lemma length_decode_direct [simp]: "length (direct (decode_inode off b)) = 28"
  by (simp add: decode_inode_def inode_direct_count_def)

lemma length_encode_inode [simp]:
  "length (direct ino) = 28 \<Longrightarrow> off + 128 \<le> length b \<Longrightarrow> length (encode_inode off ino b) = length b"
  by (simp add: encode_inode_def)

section \<open>Directory entries\<close>

lemma dir_entry_round_trip: "length (entry_name e) = 28 \<Longrightarrow> from_bytes (as_bytes e) = e"
  using slice_skip[of "entry_name e" 0 4 "le_bytes 4 (unat (inode_number e))"]
  by (cases e) (simp add: from_bytes_def as_bytes_def slice_first le_u32_at_def u32_of_le_bytes, simp add: slice_def u32_of_le_bytes)

lemma length_as_bytes [simp]: "length (entry_name e) = 28 \<Longrightarrow> length (as_bytes e) = 32"
  by (simp add: as_bytes_def)

lemma length_from_bytes [simp]: "length b = 32 \<Longrightarrow> length (entry_name (from_bytes b)) = 28"
  by (simp add: from_bytes_def)

lemma dir_entry_new_eq:
  "dir_entry_new name n =
     (if length name \<le> 28 then Inr \<lparr>entry_name = name @ replicate (28 - length name) 0, inode_number = n\<rparr>
      else Inl IndexOutOfBounds)"
  by (simp add: dir_entry_new_def write_slice_def name_length_limit_def overwrite_def drop_replicate)

lemma find_zero_padded:
  "0 \<notin> set name \<Longrightarrow> find_index (\<lambda>x. x = 0) (name @ replicate k (0 :: u8)) =
     (if k = 0 then None else Some (length name))"
proof (induction name)
  case Nil
  then show ?case by (cases k) simp_all
qed (auto split: if_splits)

lemma utf8_valid_ascii: "\<forall>x \<in> set xs. x < 0x80 \<Longrightarrow> utf8_valid xs"
  by (induction xs) simp_all

lemma dir_entry_name_eq:
  assumes "0 \<notin> set name" "length name \<le> 28" "utf8_valid name"
  shows "dir_entry_name \<lparr>entry_name = name @ replicate (28 - length name) 0, inode_number = n\<rparr> =
           (if length name = 28 then Inl IndexOutOfBounds else Inr name)"
  using assms by (simp add: dir_entry_name_def find_zero_padded from_utf8_def)

text \<open>For a valid UTF-8 name without NUL bytes, \<open>DirEntry::new\<close> succeeds exactly up to 28
  bytes; the entry survives its 32-byte encoding; and \<open>name\<close> gives the name back exactly up to
  27 bytes: for a 28-byte name, which \<open>new\<close> accepts, \<open>name\<close> runs out of bounds and panics.\<close>

theorem dir_entry_holds_name:
  assumes "utf8_valid name" "0 \<notin> set name"
  shows "(if 28 < length name then dir_entry_new name n = Inl IndexOutOfBounds
          else \<exists>e. dir_entry_new name n = Inr e \<and> inode_number e = n \<and>
                 length (as_bytes e) = dirent_sz \<and> from_bytes (as_bytes e) = e \<and>
                 dir_entry_name e = (if length name \<le> name_length_limit then Inr name
                                     else Inl IndexOutOfBounds))"
proof (cases "28 < length name")
  case False
  let ?e = "\<lparr>entry_name = name @ replicate (28 - length name) 0, inode_number = n\<rparr>"
  have l: "length (entry_name ?e) = 28" using False by simp
  have "dir_entry_name ?e = (if length name \<le> name_length_limit then Inr name else Inl IndexOutOfBounds)"
    using dir_entry_name_eq[OF assms(2) _ assms(1), of n] False by (auto simp: name_length_limit_def)
  then show ?thesis
    using False dir_entry_round_trip[OF l] length_as_bytes[OF l]
    by (simp add: dir_entry_new_eq dirent_sz_def)
qed (simp add: dir_entry_new_eq)

lemma dir_entry_holds_name_witness:
  "(\<exists>e. dir_entry_new [0x61, 0xC3, 0xA9] 7 = Inr e \<and> dir_entry_name e = Inr [0x61, 0xC3, 0xA9]) \<and>
   (\<exists>e. dir_entry_new (replicate 28 0x61) 7 = Inr e \<and> dir_entry_name e = Inl IndexOutOfBounds)"
proof
  have v: "utf8_valid [0x61, 0xC3, 0xA9]" by (simp add: in_range_def)
  show "\<exists>e. dir_entry_new [0x61, 0xC3, 0xA9] 7 = Inr e \<and> dir_entry_name e = Inr [0x61, 0xC3, 0xA9]"
    using dir_entry_holds_name[OF v, of 7] by (auto simp: name_length_limit_def)
  have v: "utf8_valid (replicate 28 0x61)" by (rule utf8_valid_ascii) simp
  show "\<exists>e. dir_entry_new (replicate 28 0x61) 7 = Inr e \<and> dir_entry_name e = Inl IndexOutOfBounds"
    using dir_entry_holds_name[OF v, of 7] by (auto simp: name_length_limit_def)
qed

end
