(* ===== verification/Efs.thy ===== *)
theory Efs
  imports Bitmap Disk_Codec
begin

text \<open>
  \<open>tg-rcore-tutorial-easy-fs/src/efs.rs\<close>: the layout of the file system on the device (super
  block, inode bitmap, inode area, data bitmap, data area), its creation and opening, and the
  allocation of inodes and data blocks. The device is the \<open>store\<close> of theory \<open>Block_Store\<close>.

  The mutex around the file system is held for the whole of each operation of \<open>vfs.rs\<close> and
  never asked for inside one; the fields of the record never change after creation.
\<close>

section \<open>Checked 32-bit arithmetic\<close>

definition u32_add :: "u32 \<Rightarrow> u32 \<Rightarrow> u32 res" where
  "u32_add a b = (if unat a + unat b < 2 ^ 32 then Inr (a + b) else Inl ArithOverflow)"

definition u32_sub :: "u32 \<Rightarrow> u32 \<Rightarrow> u32 res" where
  "u32_sub a b = (if b \<le> a then Inr (a - b) else Inl ArithOverflow)"

lemma u32_add_eq_Inr: "u32_add a b = Inr c \<longleftrightarrow> unat a + unat b < 2 ^ 32 \<and> c = a + b"
  by (auto simp: u32_add_def)

lemma u32_sub_eq_Inr: "u32_sub a b = Inr c \<longleftrightarrow> b \<le> a \<and> c = a - b"
  by (auto simp: u32_sub_def)

lemma unat_u32_add: "unat a + unat b < 2 ^ 32 \<Longrightarrow> unat (a + b) = unat a + unat (b :: u32)"
  by (simp add: unat_word_ariths)

lemma unat_of_nat_u32: "n < 2 ^ 32 \<Longrightarrow> unat (of_nat n :: u32) = n"
  by (simp add: unat_of_nat)

section \<open>The file system\<close>

record efs =
  inode_bitmap :: bitmap
  data_bitmap :: bitmap
  inode_area_start_block :: u32
  data_area_start_block :: u32

definition get_disk_inode_pos :: "efs \<Rightarrow> u32 \<Rightarrow> (u32 \<times> nat) res" where
  "get_disk_inode_pos fs inode_id =
     (let inodes_per_block = of_nat (block_sz div disk_inode_sz) in
      bind_res (u32_add (inode_area_start_block fs) (inode_id div inodes_per_block)) (\<lambda>block_id.
        Inr (block_id, unat (inode_id mod inodes_per_block) * disk_inode_sz)))"

definition get_data_block_id :: "efs \<Rightarrow> u32 \<Rightarrow> u32 res" where
  "get_data_block_id fs data_block_id = u32_add (data_area_start_block fs) data_block_id"

definition alloc_inode :: "efs \<Rightarrow> store \<Rightarrow> (u32 \<times> store) res" where
  "alloc_inode fs s =
     bind_res (bitmap_alloc (inode_bitmap fs) s) (\<lambda>(found, s1).
       bind_res (unwrap found) (\<lambda>i. Inr (of_nat i, s1)))"

definition alloc_data :: "efs \<Rightarrow> store \<Rightarrow> (u32 \<times> store) res" where
  "alloc_data fs s =
     bind_res (bitmap_alloc (data_bitmap fs) s) (\<lambda>(found, s1).
       bind_res (unwrap found) (\<lambda>i.
         bind_res (u32_add (of_nat i) (data_area_start_block fs)) (\<lambda>id. Inr (id, s1))))"

definition dealloc_data :: "efs \<Rightarrow> u32 \<Rightarrow> store \<Rightarrow> store res" where
  "dealloc_data fs block_id s =
     bind_res (modify_block (unat block_id) (\<lambda>_. Inr ((), replicate block_sz 0)) s) (\<lambda>(_, s1).
       bind_res (u32_sub block_id (data_area_start_block fs)) (\<lambda>k.
         bitmap_dealloc (data_bitmap fs) (unat k) s1))"

section \<open>Creating and opening\<close>

primrec zero_blocks :: "nat \<Rightarrow> nat \<Rightarrow> store \<Rightarrow> store res" where
  "zero_blocks 0 i s = Inr s"
| "zero_blocks (Suc n) i s =
     bind_res (modify_block i (\<lambda>_. Inr ((), replicate block_sz 0)) s) (\<lambda>(_, s1). zero_blocks n (Suc i) s1)"

text \<open>The areas computed from the size of the device.\<close>

definition efs_layout :: "u32 \<Rightarrow> u32 \<Rightarrow> (efs \<times> super_block) res" where
  "efs_layout tot inode_bitmap_blocks =
     (let inode_bm = bitmap_new 1 (unat inode_bitmap_blocks);
          inode_num = bitmap_maximum inode_bm;
          inode_area_blocks = of_nat (div_ceil (inode_num * disk_inode_sz) block_sz) in
      bind_res (u32_add inode_bitmap_blocks inode_area_blocks) (\<lambda>inode_total_blocks.
      bind_res (u32_sub tot 1) (\<lambda>t1.
      bind_res (u32_sub t1 inode_total_blocks) (\<lambda>data_total_blocks.
        let data_bitmap_blocks = of_nat (div_ceil (unat data_total_blocks) 4097) in
      bind_res (u32_sub data_total_blocks data_bitmap_blocks) (\<lambda>data_area_blocks.
      bind_res (u32_add 1 inode_bitmap_blocks) (\<lambda>inode_area_start.
      bind_res (u32_add inode_area_start inode_area_blocks) (\<lambda>data_bitmap_start.
      bind_res (u32_add 1 inode_total_blocks) (\<lambda>a.
      bind_res (u32_add a data_bitmap_blocks) (\<lambda>data_area_start.
        Inr (\<lparr>inode_bitmap = inode_bm,
              data_bitmap = bitmap_new (unat data_bitmap_start) (unat data_bitmap_blocks),
              inode_area_start_block = inode_area_start,
              data_area_start_block = data_area_start\<rparr>,
             super_block_initialize tot inode_bitmap_blocks inode_area_blocks
               data_bitmap_blocks data_area_blocks))))))))))"

definition efs_create :: "u32 \<Rightarrow> u32 \<Rightarrow> store \<Rightarrow> (efs \<times> store) res" where
  "efs_create tot inode_bitmap_blocks s =
     bind_res (efs_layout tot inode_bitmap_blocks) (\<lambda>(fs, sb).
     bind_res (zero_blocks (unat tot) 0 s) (\<lambda>s1.
     bind_res (modify_block 0 (\<lambda>b. Inr ((), encode_super_block sb b)) s1) (\<lambda>(_, s2).
     bind_res (alloc_inode fs s2) (\<lambda>(root, s3).
     bind_res (assert_res (root = 0)) (\<lambda>_.
     bind_res (get_disk_inode_pos fs 0) (\<lambda>(blk, off).
     bind_res (modify_block (unat blk)
                (\<lambda>b. Inr ((), encode_inode off (inode_initialize DirectoryType) b)) s3) (\<lambda>(_, s4).
     bind_res (sync_all s4) (\<lambda>s5. Inr (fs, s5)))))))))"

definition efs_open :: "store \<Rightarrow> efs res" where
  "efs_open s =
     read_block 0 (\<lambda>b.
       let sb = decode_super_block b in
       bind_res (assert_res (super_block_is_valid sb)) (\<lambda>_.
       bind_res (u32_add (sb_inode_bitmap_blocks sb) (sb_inode_area_blocks sb)) (\<lambda>inode_total_blocks.
       bind_res (u32_add 1 inode_total_blocks) (\<lambda>data_bitmap_start.
       bind_res (u32_add 1 (sb_inode_bitmap_blocks sb)) (\<lambda>inode_area_start.
       bind_res (u32_add data_bitmap_start (sb_data_bitmap_blocks sb)) (\<lambda>data_area_start.
         Inr \<lparr>inode_bitmap = bitmap_new 1 (unat (sb_inode_bitmap_blocks sb)),
              data_bitmap = bitmap_new (unat data_bitmap_start) (unat (sb_data_bitmap_blocks sb)),
              inode_area_start_block = inode_area_start,
              data_area_start_block = data_area_start\<rparr>)))))) s"

section \<open>The areas are disjoint\<close>

definition layout_ok :: "efs \<Rightarrow> bool" where
  "layout_ok fs \<longleftrightarrow>
     start_block_id (inode_bitmap fs) = 1 \<and> 0 < bitmap_blocks (inode_bitmap fs) \<and>
     unat (inode_area_start_block fs) = 1 + bitmap_blocks (inode_bitmap fs) \<and>
     start_block_id (data_bitmap fs) =
       unat (inode_area_start_block fs) + 1024 * bitmap_blocks (inode_bitmap fs) \<and>
     unat (data_area_start_block fs) = start_block_id (data_bitmap fs) + bitmap_blocks (data_bitmap fs)"

lemma efs_layout_ok:
  assumes l: "efs_layout n ibm = Inr (fs, sb)" and ibm: "ibm \<noteq> 0" "unat ibm < 2 ^ 22"
  shows "layout_ok fs" and "unat (data_area_start_block fs) \<le> unat n"
    and "sb = super_block_initialize n ibm (of_nat (1024 * unat ibm))
           (of_nat (bitmap_blocks (data_bitmap fs))) (n - data_area_start_block fs)"
    and "inode_bitmap fs = bitmap_new 1 (unat ibm)"
    and "unat n - unat (data_area_start_block fs) \<le> 4096 * bitmap_blocks (data_bitmap fs)"
proof -
  define ia :: u32 where "ia = of_nat (1024 * unat ibm)"
  have num: "div_ceil (bitmap_maximum (bitmap_new 1 (unat ibm)) * disk_inode_sz) block_sz = 1024 * unat ibm"
    by (simp add: bitmap_maximum_eq bitmap_new_def disk_inode_sz_def div_ceil_def)
  have "1024 * unat ibm < 2 ^ 32" using ibm(2) by simp
  then have ia: "unat ia = 1024 * unat ibm" unfolding ia_def by (rule unat_of_nat_u32)
  obtain t1 dt db da where e:
      "unat ibm + unat ia < 2 ^ 32" "1 \<le> n" "t1 = n - 1" "ibm + ia \<le> t1" "dt = t1 - (ibm + ia)"
      "db = of_nat (div_ceil (unat dt) 4097)" "db \<le> dt" "da = dt - db" "1 + unat ibm < 2 ^ 32"
      "unat (1 + ibm) + unat ia < 2 ^ 32" "1 + unat (ibm + ia) < 2 ^ 32"
      "unat (1 + (ibm + ia)) + unat db < 2 ^ 32"
      "fs = \<lparr>inode_bitmap = bitmap_new 1 (unat ibm),
              data_bitmap = bitmap_new (unat (1 + ibm + ia)) (unat db),
              inode_area_start_block = 1 + ibm, data_area_start_block = 1 + (ibm + ia) + db\<rparr>"
      "sb = super_block_initialize n ibm ia db da"
    using l unfolding efs_layout_def Let_def num ia_def[symmetric]
    by (auto simp: bind_res_eq_Inr u32_add_eq_Inr u32_sub_eq_Inr)
  have u1: "unat (ibm + ia) = unat ibm + unat ia" using e(1) by (rule unat_u32_add)
  have u2: "unat (1 + ibm) = 1 + unat ibm" using e(9) unat_u32_add[of 1 ibm] by simp
  have u3: "unat (1 + ibm + ia) = 1 + unat ibm + unat ia" using e(10) u2 unat_u32_add[of "1 + ibm" ia] by simp
  have u4: "unat (1 + (ibm + ia)) = 1 + unat ibm + unat ia" using e(11) u1 unat_u32_add[of 1 "ibm + ia"] by simp
  have u5: "unat (1 + (ibm + ia) + db) = 1 + unat ibm + unat ia + unat db"
    using e(12) u4 unat_u32_add[of "1 + (ibm + ia)" db] by simp
  have m1: "unat t1 = unat n - 1" using e(2,3) by (simp add: unat_sub)
  have m2: "unat dt = unat n - 1 - (unat ibm + unat ia)" using e(4,5) m1 u1 by (simp add: unat_sub)
  have le: "unat ibm + unat ia \<le> unat n - 1" using e(4) m1 u1 by (simp add: word_le_nat_alt)
  have n1: "1 \<le> unat n" using e(2) by (simp add: word_le_nat_alt)
  have dble: "unat db \<le> unat dt" using e(7) by (simp add: word_le_nat_alt)
  show "layout_ok fs"
    using ia ibm(1) u2 u3 u5 by (simp add: layout_ok_def e(13) bitmap_new_def unat_gt_0)
  have das: "unat (data_area_start_block fs) = 1 + unat ibm + unat ia + unat db" using u5 by (simp add: e(13))
  show lim: "unat (data_area_start_block fs) \<le> unat n" using das dble m2 le n1 by linarith
  have "unat da = unat dt - unat db" using e(7,8) by (simp add: unat_sub)
  moreover have "unat (n - data_area_start_block fs) = unat n - unat (data_area_start_block fs)"
    using lim by (simp add: unat_sub word_le_nat_alt)
  ultimately have "da = n - data_area_start_block fs"
    using das m2 by (simp add: word_unat_eq_iff)
  then show "sb = super_block_initialize n ibm (of_nat (1024 * unat ibm))
           (of_nat (bitmap_blocks (data_bitmap fs))) (n - data_area_start_block fs)"
    by (simp add: e(13,14) ia_def bitmap_new_def)
  show "inode_bitmap fs = bitmap_new 1 (unat ibm)" by (simp add: e(13))
  have dc: "4097 * div_ceil m 4097 \<ge> m" for m
  proof (cases "m mod 4097 = 0")
    case True
    then have "4097 * (m div 4097) = m" by (metis add.right_neutral mult_div_mod_eq)
    then show ?thesis by (simp add: div_ceil_def True)
  next
    case False
    have "m < 4097 * (m div 4097) + 4097"
      using mult_div_mod_eq[of 4097 m] mod_less_divisor[of 4097 m] by linarith
    then show ?thesis by (simp add: div_ceil_def False)
  qed
  have "div_ceil (unat dt) 4097 \<le> unat dt"
    using div_less_dividend[of 4097 "unat dt"]
    by (cases "unat dt = 0") (auto simp: div_ceil_def Suc_leI)
  then have "unat db = div_ceil (unat dt) 4097"
    unfolding e(6) using unsigned_less[of dt, where ?'a = nat] by (simp add: unat_of_nat_u32)
  then have "unat dt \<le> 4097 * unat db" using dc by simp
  then show "unat n - unat (data_area_start_block fs) \<le> 4096 * bitmap_blocks (data_bitmap fs)"
    using das m2 by (simp add: e(13) bitmap_new_def)
qed

lemma zero_blocks_eq:
  "held s = {} \<Longrightarrow> store_ok s \<Longrightarrow>
     \<exists>s'. zero_blocks n i s = Inr s' \<and> held s' = {} \<and> store_ok s' \<and>
       (\<forall>k. blocks s' k = (if i \<le> k \<and> k < i + n then replicate block_sz 0 else blocks s k))"
proof (induction n arbitrary: i s)
  case (Suc n)
  let ?s = "put_block i (replicate block_sz 0) s"
  have "held ?s = {}" "store_ok ?s" using Suc.prems by simp_all
  from Suc.IH[OF this, of "Suc i"] obtain s' where s': "zero_blocks n (Suc i) ?s = Inr s'" "held s' = {}"
      "store_ok s'"
      "\<And>k. blocks s' k = (if Suc i \<le> k \<and> k < Suc i + n then replicate block_sz 0 else blocks ?s k)"
    by blast
  have "zero_blocks (Suc n) i s = Inr s'"
    using s'(1) Suc.prems by (simp add: modify_block_free)
  moreover have "blocks s' k = (if i \<le> k \<and> k < i + Suc n then replicate block_sz 0 else blocks s k)" for k
    unfolding s'(4) by auto
  ultimately show ?case using s'(2,3) by blast
qed auto

lemma zero_bitmap_unused:
  "(\<And>i. i \<in> bitmap_region bm \<Longrightarrow> blocks s i = replicate 512 0) \<Longrightarrow> bitmap_used bm s = {}"
proof -
  assume z: "\<And>i. i \<in> bitmap_region bm \<Longrightarrow> blocks s i = replicate 512 0"
  have "\<not> bitmap_bit bm s k" if "k < bitmap_maximum bm" for k
  proof -
    have "k div 4096 + start_block_id bm \<in> bitmap_region bm"
      using that by (simp add: bitmap_region_def bitmap_maximum_eq split4096)
    then show ?thesis by (simp add: bitmap_bit_def z blk_bit_def div64_less)
  qed
  then show ?thesis by (auto simp: bitmap_used_def)
qed

lemma efs_create_ok:
  assumes l: "efs_layout n ibm = Inr (fs, sb)" and ibm: "ibm \<noteq> 0" "unat ibm < 2 ^ 22"
    and s: "held s = {}" "store_ok s"
  shows "\<exists>s' blk off. efs_create n ibm s = Inr (fs, s') \<and> efs_open s' = Inr fs \<and>
           held s' = {} \<and> store_ok s' \<and>
           get_disk_inode_pos fs 0 = Inr (blk, off) \<and>
           decode_inode off (blocks s' (unat blk)) = inode_initialize DirectoryType \<and>
           bitmap_used (inode_bitmap fs) s' = {0} \<and> bitmap_used (data_bitmap fs) s' = {}"
proof -
  note lo = efs_layout_ok[OF l ibm]
  note lay = lo(1)[unfolded layout_ok_def]
  have ib: "start_block_id (inode_bitmap fs) = 1" "bitmap_blocks (inode_bitmap fs) = unat ibm"
    by (simp_all add: lo(4) bitmap_new_def)
  have ne: "unat ibm \<noteq> 0" using ibm(1) by (simp add: unat_eq_0)
  obtain s1 where s1: "zero_blocks (unat n) 0 s = Inr s1" "held s1 = {}" "store_ok s1"
      "\<And>k. k < unat n \<Longrightarrow> blocks s1 k = replicate block_sz 0"
    using zero_blocks_eq[OF s, of "unat n" 0] by auto
  define s2 where "s2 = put_block 0 (encode_super_block sb (blocks s1 0)) s1"
  have lsb: "length (encode_super_block sb (blocks s1 0)) = 512"
    using store_okD[OF s1(3), of 0] by (simp add: encode_super_block_def)
  have s2: "modify_block 0 (\<lambda>b. Inr ((), encode_super_block sb b)) s1 = Inr ((), s2)"
      "held s2 = {}" "store_ok s2"
    using s1(2,3) lsb by (simp_all add: modify_block_free s2_def)
  have z2: "blocks s2 k = replicate 512 0" if "0 < k" "k < unat n" for k
    using s1(4) that by (simp add: s2_def)
  have un: "bitmap_used (inode_bitmap fs) s2 = {}"
    using lay lo(2) by (intro zero_bitmap_unused z2) (auto simp: bitmap_region_def)
  have dn: "bitmap_used (data_bitmap fs) s2 = {}"
    using lay lo(2) by (intro zero_bitmap_unused z2) (auto simp: bitmap_region_def)
  have wf2: "bitmap_wf (inode_bitmap fs) s2" using s2 by (simp add: bitmap_wf_def)
  have "bitmap_used (inode_bitmap fs) s2 \<noteq> {..<bitmap_maximum (inode_bitmap fs)}"
    unfolding un bitmap_maximum_eq ib(2) using ne by (metis lessThan_empty_iff mult_is_0 zero_neq_numeral)
  from bma.alloc_some[OF wf2 this] obtain s3 where s3: "bitmap_alloc (inode_bitmap fs) s2 = Inr (Some 0, s3)"
      "bitmap_wf (inode_bitmap fs) s3" "bitmap_used (inode_bitmap fs) s3 = {0}"
    unfolding un by auto
  note fr3 = bitmap_alloc_frame[OF s3(1)]
  have h3: "held s3 = {}" "store_ok s3" using fr3(1) s2 s3(2) by (simp_all add: bitmap_wf_def)
  let ?blk = "inode_area_start_block fs"
  have pos: "get_disk_inode_pos fs 0 = Inr (?blk, 0)"
    using unsigned_less[of ?blk, where ?'a = nat]
    by (simp add: get_disk_inode_pos_def u32_add_def disk_inode_sz_def Let_def)
  define b where "b = encode_inode 0 (inode_initialize DirectoryType) (blocks s3 (unat ?blk))"
  define s4 where "s4 = put_block (unat ?blk) b s3"
  have ini: "length (direct (inode_initialize DirectoryType)) = 28" by (simp add: inode_initialize_def inode_direct_count_def)
  have b: "length b = 512" using store_okD[OF h3(2)] ini by (simp add: b_def)
  have h4: "held s4 = {}" "store_ok s4" using h3 b by (simp_all add: s4_def)
  have "efs_create n ibm s = Inr (fs, s4)"
    using l s1(1) s2(1) s3(1) h3(1) h4(1)
    by (simp add: efs_create_def alloc_inode_def pos modify_block_free sync_all_def s4_def b_def)
  moreover have "efs_open s4 = Inr fs"
  proof -
    have "blocks s4 0 = encode_super_block sb (blocks s1 0)"
      using lay fr3(2)[of 0] by (auto simp: s4_def s2_def bitmap_region_def)
    then have d: "decode_super_block (blocks s4 0) = sb"
      using super_block_round_trip[OF store_okD[OF s1(3)]] by simp
    show ?thesis
      using l h4(1) lo(3)
      unfolding efs_open_def efs_layout_def super_block_is_valid_def
      by (auto simp: d bind_res_eq_Inr u32_add_eq_Inr super_block_initialize_def Let_def bitmap_new_def add.assoc)
  qed
  moreover have "decode_inode 0 (blocks s4 (unat ?blk)) = inode_initialize DirectoryType"
    using inode_round_trip[OF ini, of 0] store_okD[OF h3(2)] by (simp add: s4_def b_def)
  moreover have "bitmap_used (inode_bitmap fs) s4 = {0}"
    using lay bitmap_used_frame[of "inode_bitmap fs" s4 s3] s3(3) by (auto simp: s4_def bitmap_region_def)
  moreover have "bitmap_used (data_bitmap fs) s4 = {}"
    using lay fr3(2) bitmap_used_frame[of "data_bitmap fs" s4 s2] dn by (auto simp: s4_def bitmap_region_def)
  ultimately show ?thesis using h4 pos by blast
qed

text \<open>Creating a file system on any device whose size leaves room for the layout writes a
  super block from which \<open>open\<close> computes the same file system; afterwards inode 0 is an empty
  directory and the only used inode, and no data block is in use.\<close>

theorem created_file_system_opens:
  assumes l: "efs_layout n ibm = Inr (fs, sb)" and ibm: "ibm \<noteq> 0" "unat ibm < 2 ^ 22"
    and s: "held s = {}" "store_ok s"
  shows "\<exists>s' blk off. efs_create n ibm s = Inr (fs, s') \<and> efs_open s' = Inr fs \<and>
           held s' = {} \<and> store_ok s' \<and>
           get_disk_inode_pos fs 0 = Inr (blk, off) \<and>
           decode_inode off (blocks s' (unat blk)) = inode_initialize DirectoryType \<and>
           bitmap_used (inode_bitmap fs) s' = {0} \<and> bitmap_used (data_bitmap fs) s' = {}"
  using efs_create_ok[OF assms] .

lemma created_file_system_opens_witness:
  "\<exists>fs s'. efs_create 64000 1 \<lparr>blocks = \<lambda>_. replicate 512 0, held = {}\<rparr> = Inr (fs, s') \<and>
     efs_open s' = Inr fs \<and> unat (data_area_start_block fs) = 1042"
proof -
  let ?s = "\<lparr>blocks = \<lambda>_. replicate 512 0, held = {}\<rparr> :: store"
  obtain fs sb where l: "efs_layout 64000 1 = Inr (fs, sb)" "unat (data_area_start_block fs) = 1042"
    by (simp add: efs_layout_def u32_add_def u32_sub_def bitmap_maximum_eq bitmap_new_def disk_inode_sz_def
        div_ceil_def Let_def)
  have "held ?s = {}" "store_ok ?s" by (simp_all add: store_ok_def)
  from created_file_system_opens[OF l(1) _ _ this] l(2) show ?thesis by auto
qed

section \<open>Data blocks in use\<close>

text \<open>\<open>data_used\<close> is the set of the block numbers that the data bitmap marks as used.\<close>

definition data_used :: "efs \<Rightarrow> store \<Rightarrow> nat set" where
  "data_used fs s = (+) (unat (data_area_start_block fs)) ` bitmap_used (data_bitmap fs) s"

text \<open>The bitmap region, the inode area before it and the data area after it are disjoint, and
  every block number the data bitmap can give fits in 32 bits.\<close>

definition numbers_fit :: "efs \<Rightarrow> bool" where
  "numbers_fit fs \<longleftrightarrow> unat (data_area_start_block fs) + bitmap_maximum (data_bitmap fs) \<le> 2 ^ 32"

lemma data_used_bounds:
  "layout_ok fs \<Longrightarrow> i \<in> data_used fs s \<Longrightarrow> i \<notin> bitmap_region (data_bitmap fs)"
  "i \<in> data_used fs s \<Longrightarrow> unat (data_area_start_block fs) \<le> i"
  by (auto simp: layout_ok_def data_used_def bitmap_region_def)

lemma alloc_data_ok:
  assumes lay: "numbers_fit fs" and wf: "bitmap_wf (data_bitmap fs) s"
    and ne: "bitmap_used (data_bitmap fs) s \<noteq> {..<bitmap_maximum (data_bitmap fs)}"
  shows "\<exists>e s'. alloc_data fs s = Inr (e, s') \<and>
           unat e = unat (data_area_start_block fs) + (LEAST i. i \<notin> bitmap_used (data_bitmap fs) s) \<and>
           unat e \<notin> data_used fs s \<and> data_used fs s' = insert (unat e) (data_used fs s) \<and>
           bitmap_used (data_bitmap fs) s' =
             insert (LEAST i. i \<notin> bitmap_used (data_bitmap fs) s) (bitmap_used (data_bitmap fs) s) \<and>
           bitmap_wf (data_bitmap fs) s' \<and> held s' = held s \<and>
           (\<forall>i. i \<notin> bitmap_region (data_bitmap fs) \<longrightarrow> blocks s' i = blocks s i)"
proof -
  let ?bm = "data_bitmap fs" and ?d = "unat (data_area_start_block fs)"
  define i where "i = (LEAST i. i \<notin> bitmap_used ?bm s)"
  obtain s' where s': "bitmap_alloc ?bm s = Inr (Some i, s')" "bitmap_wf ?bm s'"
      "bitmap_used ?bm s' = insert i (bitmap_used ?bm s)"
    using bma.alloc_some[OF wf ne] by (auto simp: i_def)
  have i: "i < bitmap_maximum ?bm" "i \<notin> bitmap_used ?bm s" using bma.least_free[OF ne] by (simp_all add: i_def)
  have fit: "?d + i < 2 ^ 32" using lay i(1) by (simp add: numbers_fit_def)
  have ui: "unat (of_nat i :: u32) = i" using fit by (intro unat_of_nat_u32) simp
  have e: "unat (of_nat i + data_area_start_block fs) = ?d + i"
    using fit ui unat_u32_add[of "of_nat i" "data_area_start_block fs"] by simp
  have "alloc_data fs s = Inr (of_nat i + data_area_start_block fs, s')"
    using s'(1) fit ui by (simp add: alloc_data_def u32_add_def)
  moreover have "?d + i \<notin> data_used fs s" using i(2) by (auto simp: data_used_def)
  moreover have "data_used fs s' = insert (?d + i) (data_used fs s)"
    by (simp add: data_used_def s'(3))
  ultimately show ?thesis using e s' bitmap_alloc_frame[OF s'(1)] unfolding i_def[symmetric]
    by (intro exI[of _ "of_nat i + data_area_start_block fs"] exI[of _ s']) simp
qed

lemma dealloc_data_ok:
  assumes lay: "layout_ok fs" and wf: "bitmap_wf (data_bitmap fs) s"
    and e: "unat e \<in> data_used fs s" "unat e \<notin> held s"
  shows "\<exists>s'. dealloc_data fs e s = Inr s' \<and> data_used fs s' = data_used fs s - {unat e} \<and>
           bitmap_wf (data_bitmap fs) s' \<and> held s' = held s \<and> blocks s' (unat e) = replicate 512 0 \<and>
           (\<forall>i. i \<notin> insert (unat e) (bitmap_region (data_bitmap fs)) \<longrightarrow> blocks s' i = blocks s i)"
proof -
  let ?bm = "data_bitmap fs" and ?d = "unat (data_area_start_block fs)"
  obtain k where k: "unat e = ?d + k" "k \<in> bitmap_used ?bm s" using e(1) by (auto simp: data_used_def)
  have kb: "k < bitmap_maximum ?bm" using k(2) bma.used_bound by blast
  define s1 where "s1 = put_block (unat e) (replicate block_sz 0) s"
  have er: "unat e \<notin> bitmap_region ?bm" using data_used_bounds(1)[OF lay e(1)] .
  have wf1: "bitmap_wf ?bm s1" using wf by (simp add: bitmap_wf_def s1_def)
  have u1: "bitmap_used ?bm s1 = bitmap_used ?bm s"
    using er by (intro bitmap_used_frame) (auto simp: s1_def)
  obtain s' where s': "bitmap_dealloc ?bm k s1 = Inr s'" "bitmap_wf ?bm s'"
      "bitmap_used ?bm s' = bitmap_used ?bm s - {k}"
    using bma.dealloc_used[OF wf1, of k] k(2) u1 by auto
  note fr = bitmap_dealloc_frame[OF s'(1) kb]
  have le: "data_area_start_block fs \<le> e" using k(1) by (simp add: word_le_nat_alt)
  have "unat (e - data_area_start_block fs) = k" using k(1) le by (simp add: unat_sub)
  then have "dealloc_data fs e s = Inr s'"
    using s'(1) e(2) le by (simp add: dealloc_data_def modify_block_free s1_def u32_sub_def)
  moreover have "data_used fs s' = data_used fs s - {unat e}"
    using k(1) by (auto simp: data_used_def s'(3))
  moreover have "blocks s' (unat e) = replicate 512 0" using fr(2)[OF er] by (simp add: s1_def)
  moreover have "blocks s' i = blocks s i" if "i \<notin> insert (unat e) (bitmap_region ?bm)" for i
    using fr(2)[of i] that by (simp add: s1_def)
  ultimately show ?thesis using s'(2) fr(1) by (auto simp: s1_def)
qed

text \<open>C23: The allocator of data blocks knows the size of its bitmap, not that of the data area:
  on a file system laid out for \<open>n\<close> blocks whose data area does not fill its bitmap, allocating
  when every block of the area is in use does not fail: it hands out block \<open>n\<close>, the first one
  past the end of the device.\<close>

theorem full_area_allocates_past_the_end:
  assumes l: "efs_layout n ibm = Inr (fs, sb)" and ibm: "ibm \<noteq> 0" "unat ibm < 2 ^ 22"
    and wf: "bitmap_wf (data_bitmap fs) s"
    and full: "bitmap_used (data_bitmap fs) s = {..<unat n - unat (data_area_start_block fs)}"
    and slack: "unat n - unat (data_area_start_block fs) < bitmap_maximum (data_bitmap fs)"
  shows "\<exists>s'. alloc_data fs s = Inr (n, s') \<and> bitmap_wf (data_bitmap fs) s'"
proof -
  let ?bm = "data_bitmap fs" and ?d = "unat (data_area_start_block fs)"
  let ?k = "unat n - ?d"
  have d: "?d \<le> unat n" by (rule efs_layout_ok(2)[OF l ibm])
  have ne: "bitmap_used ?bm s \<noteq> {..<bitmap_maximum ?bm}" using slack full by simp
  have least: "(LEAST i. i \<notin> bitmap_used ?bm s) = ?k"
    unfolding full by (rule Least_equality) auto
  obtain s' where s': "bitmap_alloc ?bm s = Inr (Some ?k, s')" "bitmap_wf ?bm s'"
    using bma.alloc_some[OF wf ne] unfolding least by blast
  have "?k < 2 ^ 32" using unsigned_less[of n, where ?'a = nat] by simp
  then have u: "unat (of_nat ?k :: u32) = ?k" by (rule unat_of_nat_u32)
  have lt: "?k + ?d < 2 ^ 32" using d unsigned_less[of n, where ?'a = nat] by simp
  then have "unat (of_nat ?k + data_area_start_block fs) = unat n"
    using d u unat_u32_add[of "of_nat ?k" "data_area_start_block fs"] by simp
  then have "of_nat ?k + data_area_start_block fs = n" by (simp add: word_unat_eq_iff)
  then have "alloc_data fs s = Inr (n, s')"
    using s'(1) u lt by (simp add: alloc_data_def u32_add_def)
  then show ?thesis using s'(2) by blast
qed

lemma first_bit_set:
  "length b = 512 \<Longrightarrow> k < 4096 \<Longrightarrow>
     blk_bit (set_u64_at 0 1 b) k \<longleftrightarrow> (if k div 64 = 0 then k mod 64 = 0 else blk_bit b k)"
  by (simp add: blk_bit_set bit_1_iff)

lemma full_area_allocates_past_the_end_witness:
  "\<exists>fs sb s'. efs_layout 1028 1 = Inr (fs, sb) \<and>
     alloc_data fs \<lparr>blocks = (\<lambda>i. if i = 1026 then set_u64_at 0 1 (replicate 512 0) else replicate 512 0),
                    held = {}\<rparr> = Inr (1028, s')"
proof -
  let ?s = "\<lparr>blocks = (\<lambda>i. if i = 1026 then set_u64_at 0 1 (replicate 512 0) else replicate 512 0),
             held = {}\<rparr> :: store"
  obtain fs sb where l: "efs_layout 1028 1 = Inr (fs, sb)" "data_bitmap fs = bitmap_new 1026 1"
      "unat (data_area_start_block fs) = 1027"
    by (simp add: efs_layout_def u32_add_def u32_sub_def bitmap_maximum_eq bitmap_new_def disk_inode_sz_def
        div_ceil_def Let_def)
  have wf: "bitmap_wf (data_bitmap fs) ?s" by (simp add: bitmap_wf_def store_ok_def)
  have bit: "blk_bit (set_u64_at 0 1 (replicate 512 0)) k \<longleftrightarrow> k = 0" if "k < 4096" for k
  proof -
    have len: "length (replicate 512 0 :: block) = 512" by simp
    have z: "\<not> blk_bit (replicate 512 0) k" using that by (simp add: blk_bit_def div64_less)
    have "k = 0" if "k div 64 = 0" "k mod 64 = 0" using that by (metis add_0 div_mult_mod_eq mult_0)
    then show ?thesis using z first_bit_set[OF len that] by (cases "k div 64 = 0") (simp_all only: if_True if_False, metis mod_0, metis div_0)
  qed
  have "bitmap_used (data_bitmap fs) ?s = {..<unat (1028 :: u32) - unat (data_area_start_block fs)}"
    using bit by (auto simp: l bitmap_used_def bitmap_maximum_eq bitmap_new_def bitmap_bit_def)
  moreover have "unat (1028 :: u32) - unat (data_area_start_block fs) < bitmap_maximum (data_bitmap fs)"
    by (simp add: l bitmap_maximum_eq bitmap_new_def)
  ultimately show ?thesis using full_area_allocates_past_the_end[OF l(1) _ _ wf] l(1) by auto
qed

end
