(* ===== verification/Inode_Blocks.thy ===== *)
theory Inode_Blocks
  imports Disk_Layout
begin

text \<open>
  The blocks of an inode. \<open>all_blocks ino B n\<close> lists the blocks that an inode of \<open>n\<close> data
  blocks uses, data and index blocks alike, in the order in which growing block by block takes
  them: the direct blocks, the first indirect block and what it lists, the second indirect
  block and then each of its index blocks followed by what that lists.

  Growing an inode appends exactly the given blocks to this list and clearing it returns
  exactly this list; \<open>total_blocks\<close> is its length.
\<close>

section \<open>The list of blocks\<close>

definition entry :: "block \<Rightarrow> (nat \<Rightarrow> block) \<Rightarrow> nat \<Rightarrow> u32" where
  "entry i2 B j = u32_at (j mod 128) (B (unat (u32_at (j div 128) i2)))"

definition piece :: "block \<Rightarrow> (nat \<Rightarrow> block) \<Rightarrow> nat \<Rightarrow> u32 list" where
  "piece i2 B j = (if j mod 128 = 0 then [u32_at (j div 128) i2] else []) @ [entry i2 B j]"

definition listing :: "block \<Rightarrow> (nat \<Rightarrow> block) \<Rightarrow> nat \<Rightarrow> u32 list" where
  "listing i2 B n = concat (map (piece i2 B) [0..<n])"

definition subs :: "block \<Rightarrow> nat \<Rightarrow> u32 list" where
  "subs i2 n = map (\<lambda>a. u32_at a i2) [0..<(n + 127) div 128]"

definition level1 :: "disk_inode \<Rightarrow> (nat \<Rightarrow> block) \<Rightarrow> nat \<Rightarrow> u32 list" where
  "level1 ino B n =
     (if n \<le> 28 then []
      else indirect1 ino # map (\<lambda>j. u32_at j (B (unat (indirect1 ino)))) [0..<min (n - 28) 128])"

definition level2 :: "disk_inode \<Rightarrow> (nat \<Rightarrow> block) \<Rightarrow> nat \<Rightarrow> u32 list" where
  "level2 ino B n =
     (if n \<le> 156 then [] else indirect2 ino # listing (B (unat (indirect2 ino))) B (n - 156))"

definition all_blocks :: "disk_inode \<Rightarrow> (nat \<Rightarrow> block) \<Rightarrow> nat \<Rightarrow> u32 list" where
  "all_blocks ino B n = take n (direct ino) @ level1 ino B n @ level2 ino B n"

definition max_blocks :: nat where
  "max_blocks = 28 + 128 + 128 * 128"

definition inode_ok :: "disk_inode \<Rightarrow> bool" where
  "inode_ok ino \<longleftrightarrow> length (direct ino) = 28"

lemma layout_vals [simp]:
  "inode_direct_count = 28" "inode_indirect1_count = 128" "inode_indirect2_count = 16384"
  "indirect1_bound = 156" "name_length_limit = 27"
  by (simp_all add: layout_consts)

lemma listing_Suc: "listing i2 B (Suc n) = listing i2 B n @ piece i2 B n"
  by (simp add: listing_def)

lemma listing_0 [simp]: "listing i2 B 0 = []"
  by (simp add: listing_def)

lemma ceil128_zero: "n mod 128 = 0 \<Longrightarrow> (n + 127) div 128 = (n :: nat) div 128"
proof -
  assume "n mod 128 = 0"
  then obtain k where "n = 128 * k" by (auto elim: dvdE simp: mod_eq_0_iff_dvd)
  then show ?thesis by simp
qed

lemma ceil128_pos: "n mod 128 \<noteq> 0 \<Longrightarrow> (n + 127) div 128 = Suc ((n :: nat) div 128)"
proof -
  assume nz: "n mod 128 \<noteq> 0"
  define q r where "q = n div 128" and "r = n mod 128"
  have r: "r < 128" "0 < r" using nz by (auto simp: r_def)
  have n: "n = 128 * q + r" by (simp add: q_def r_def)
  have "n + 127 = 128 * (q + 1) + (r - 1)" using r n by simp
  then have "(n + 127) div 128 = (q + 1) + (r - 1) div 128" by (simp only: div_mult_self2 div_mult_self4)
  then show ?thesis using r by (simp add: q_def)
qed

lemma ceil128_Suc:
  "(Suc n + 127) div 128 = (n + 127) div 128 + (if n mod 128 = 0 then 1 else 0)"
proof (cases "n mod 128 = 0")
  case True
  then have "(n + 127) div 128 = n div 128" by (rule ceil128_zero)
  moreover have "(Suc n + 127) div 128 = Suc (n div 128)" by simp
  ultimately show ?thesis using True by simp
next
  case False
  then have "(n + 127) div 128 = Suc (n div 128)" by (rule ceil128_pos)
  moreover have "(Suc n + 127) div 128 = Suc (n div 128)" by simp
  ultimately show ?thesis using False by simp
qed

lemma length_listing: "length (listing i2 B n) = n + (n + 127) div 128"
  by (induction n) (simp_all only: listing_0 listing_Suc length_append ceil128_Suc, simp_all add: piece_def)

lemma div_ceil_128: "div_ceil n 128 = (n + 127) div 128"
  using ceil128_zero[of n] ceil128_pos[of n] by (auto simp: div_ceil_def)

lemma length_all_blocks:
  assumes "inode_ok ino" and "n = data_blocks_of sz"
  shows "length (all_blocks ino B n) = total_blocks sz"
  using assms
  by (auto simp: all_blocks_def level1_def level2_def length_listing total_blocks_def inode_ok_def
      div_ceil_128 Let_def)

lemma subs_Suc:
  "subs i2 (Suc n) = subs i2 n @ (if n mod 128 = 0 then [u32_at (n div 128) i2] else [])"
  unfolding subs_def ceil128_Suc using ceil128_zero[of n] by auto

lemma length_subs [simp]: "length (subs i2 n) = (n + 127) div 128"
  by (simp add: subs_def)

lemma nth_subs: "k < (n + 127) div 128 \<Longrightarrow> subs i2 n ! k = u32_at k i2"
  by (simp add: subs_def)

lemma subs_in_listing: "set (subs i2 n) \<subseteq> set (listing i2 B n)"
  by (induction n) (auto simp: subs_Suc listing_Suc piece_def, simp_all add: subs_def)

lemma distinct_subs: "distinct (listing i2 B n) \<Longrightarrow> distinct (subs i2 n)"
proof (induction n)
  case (Suc n)
  have "u32_at (n div 128) i2 \<notin> set (subs i2 n)" if "n mod 128 = 0"
    using Suc.prems that subs_in_listing[of i2 n B] by (auto simp: listing_Suc piece_def)
  then show ?case using Suc by (auto simp: subs_Suc listing_Suc)
qed (simp add: subs_def)

lemma listing_cong:
  "(\<And>j. j < n \<Longrightarrow> u32_at (j div 128) i2 = u32_at (j div 128) i2') \<Longrightarrow>
   (\<And>j. j < n \<Longrightarrow> entry i2 B j = entry i2' B' j) \<Longrightarrow> listing i2 B n = listing i2' B' n"
  unfolding listing_def by (intro arg_cong[where f = concat] map_cong) (auto simp: piece_def)

section \<open>The loops over consecutive entries\<close>

lemma fill_direct_none: "lim \<le> cur \<Longrightarrow> fill_direct cur lim v d = Inr (v, d)"
  by (simp add: fill_direct.simps)

lemma fill_direct_eq:
  "cur \<le> lim \<Longrightarrow> lim \<le> length d \<Longrightarrow> lim - cur \<le> length v \<Longrightarrow>
     fill_direct cur lim v d =
       Inr (drop (lim - cur) v, take cur d @ take (lim - cur) v @ drop lim d)"
proof (induction cur lim v d rule: fill_direct.induct)
  case (1 cur lim v d)
  show ?case
  proof (cases "cur < lim")
    case False
    with "1.prems" show ?thesis by (simp add: fill_direct_none)
  next
    case True
    then obtain x v' where v: "v = x # v'" using "1.prems" by (cases v) auto
    have c: "cur < length d" using True "1.prems" by simp
    have "fill_direct (cur + 1) lim v' (d[cur := x]) =
        Inr (drop (lim - (cur + 1)) v', take (cur + 1) (d[cur := x]) @ take (lim - (cur + 1)) v' @ drop lim (d[cur := x]))"
      by (rule "1.IH"[OF True]) (use True "1.prems" v c in \<open>auto simp: next_block_def\<close>)
    moreover have "take (cur + 1) (d[cur := x]) = take cur d @ [x]"
      using c by (simp add: take_Suc_conv_app_nth)
    moreover have "lim - cur = Suc (lim - (cur + 1))" using True by simp
    ultimately show ?thesis
      using True v c by (simp add: fill_direct.simps[of cur] next_block_def)
  qed
qed

lemma fill_indirect_none: "lim \<le> cur \<Longrightarrow> fill_indirect cur lim v b = Inr (v, b)"
  by (simp add: fill_indirect.simps)

lemma fill_indirect_eq:
  "cur \<le> lim \<Longrightarrow> lim \<le> 128 \<Longrightarrow> lim - cur \<le> length v \<Longrightarrow> length b = 512 \<Longrightarrow>
     \<exists>b'. fill_indirect cur lim v b = Inr (drop (lim - cur) v, b') \<and> length b' = 512 \<and>
       (\<forall>j < 128. u32_at j b' = (if cur \<le> j \<and> j < lim then v ! (j - cur) else u32_at j b))"
proof (induction cur lim v b rule: fill_indirect.induct)
  case (1 cur lim v b)
  show ?case
  proof (cases "cur < lim")
    case False
    with "1.prems" show ?thesis by (auto simp: fill_indirect_none)
  next
    case True
    then obtain x v' where v: "v = x # v'" using "1.prems" by (cases v) auto
    have c: "cur < 128" using True "1.prems" by simp
    let ?b = "set_u32_at cur x b"
    have "\<exists>b'. fill_indirect (cur + 1) lim v' ?b = Inr (drop (lim - (cur + 1)) v', b') \<and> length b' = 512 \<and>
       (\<forall>j < 128. u32_at j b' = (if cur + 1 \<le> j \<and> j < lim then v' ! (j - (cur + 1)) else u32_at j ?b))"
      by (rule "1.IH"[OF True]) (use True "1.prems" v c in \<open>auto simp: next_block_def put_u32_def\<close>)
    then obtain b' where b': "fill_indirect (cur + 1) lim v' ?b = Inr (drop (lim - (cur + 1)) v', b')"
      "length b' = 512"
      "\<And>j. j < 128 \<Longrightarrow> u32_at j b' = (if cur + 1 \<le> j \<and> j < lim then v' ! (j - (cur + 1)) else u32_at j ?b)"
      by blast
    have "lim - cur = Suc (lim - (cur + 1))" using True by simp
    then have "fill_indirect cur lim v b = Inr (drop (lim - cur) v, b')"
      using True v c b'(1) by (simp add: fill_indirect.simps[of cur] next_block_def put_u32_def)
    moreover have "u32_at j b' = (if cur \<le> j \<and> j < lim then v ! (j - cur) else u32_at j b)" if "j < 128" for j
    proof (cases "j = cur")
      case True
      with b'(3)[OF that] show ?thesis
        using \<open>cur < lim\<close> v u32_at_set[OF "1.prems"(4) c that, of x] by simp
    next
      case False
      then have "j - cur = Suc (j - (cur + 1))" if "cur \<le> j" using that by simp
      with False b'(3)[OF that] show ?thesis
        using v u32_at_set[OF "1.prems"(4) c that, of x] by auto
    qed
    ultimately show ?thesis using b'(2) by blast
  qed
qed

section \<open>The loop over the second level\<close>

lemma div_less_in_upt: "j < p \<Longrightarrow> j div 128 < (p + 127) div 128" for j p :: nat
  using div_le_mono[of "j + 128" "p + 127" 128] by simp

lemma sub_mem: "j < p \<Longrightarrow> u32_at (j div 128) i2 \<in> set (subs i2 p)"
  unfolding subs_def using div_less_in_upt by auto

lemma entry_mem: "j < p \<Longrightarrow> entry i2 B j \<in> set (listing i2 B p)"
  by (force simp: listing_def piece_def)

lemma div_less_128: "p < 16384 \<Longrightarrow> p div 128 < 128" for p :: nat
  by (simp add: less_mult_imp_div_less)

lemma less_same_div: "j < p \<Longrightarrow> j div 128 = p div 128 \<Longrightarrow> j mod 128 < p mod 128" for j p :: nat
  using mult_div_mod_eq[of 128 j] mult_div_mod_eq[of 128 p] by linarith

lemma less_diff_div: "j < p \<Longrightarrow> p mod 128 = 0 \<Longrightarrow> j div 128 < p div 128" for j p :: nat
  using mult_div_mod_eq[of 128 j] mult_div_mod_eq[of 128 p] less_same_div[of j p]
  by (metis div_le_mono le_neq_implies_less less_imp_le not_less_zero)

text \<open>One iteration appends one piece to the listing.\<close>

lemma listing_step:
  fixes p :: nat
  defines "a \<equiv> p div 128" and "b \<equiv> p mod 128"
  defines "new \<equiv> \<lambda>x y. if b = 0 then [x, y] else [y]"
    and "i2a \<equiv> \<lambda>x i2. if b = 0 then set_u32_at a x i2 else i2"
    and "i1 \<equiv> \<lambda>x i2. if b = 0 then x else u32_at a i2"
  assumes p: "p < 16384" and len: "length i2 = 512" "\<And>i. length (B i) = 512"
    and dist: "distinct (listing i2 B p @ new x y)"
  shows "listing (i2a x i2) (B(unat (i1 x i2) := set_u32_at b y (B (unat (i1 x i2))))) (Suc p) =
           listing i2 B p @ new x y" (is "listing ?i2 ?B _ = _")
    and "u32_at a (i2a x i2) = i1 x i2"
    and "set (subs i2 p) \<subseteq> set (subs (i2a x i2) (Suc p))"
    and "i1 x i2 \<in> set (subs (i2a x i2) (Suc p))"
proof -
  have a: "a < 128" using p by (simp add: a_def div_less_128)
  have b: "b < 128" by (simp add: b_def)
  show i1: "u32_at a (i2a x i2) = i1 x i2"
    using a len by (simp add: i2a_def i1_def u32_at_set)
  have old: "u32_at (j div 128) ?i2 = u32_at (j div 128) i2" if "j < p" for j
  proof (cases "b = 0")
    case True
    then have "j div 128 \<noteq> a" using less_diff_div[OF that] by (simp add: a_def b_def)
    moreover have "j div 128 < 128" using p that by (simp add: div_less_128)
    ultimately show ?thesis using a len by (simp add: i2a_def u32_at_set)
  qed (simp add: i2a_def)
  have old_entry: "entry i2 B j = entry ?i2 ?B j" if j: "j < p" for j
  proof (cases "u32_at (j div 128) i2 = i1 x i2")
    case False
    then have "unat (u32_at (j div 128) i2) \<noteq> unat (i1 x i2)" by (simp only: word_unat_eq_iff[symmetric] not_False_eq_True)
    then show ?thesis using old[OF j] by (simp add: entry_def)
  next
    case True
    have m: "u32_at (j div 128) i2 \<in> set (listing i2 B p)"
      using sub_mem[OF j] subs_in_listing by blast
    have nb: "b \<noteq> 0" using dist m True by (auto simp: new_def i1_def)
    have "j div 128 = a"
    proof (rule ccontr)
      assume "j div 128 \<noteq> a"
      then have "j div 128 < a" using j by (simp add: a_def div_le_mono le_neq_implies_less less_imp_le)
      moreover have "distinct (subs i2 p)" using dist by (auto intro: distinct_subs)
      moreover have "a < (p + 127) div 128" using nb ceil128_pos[of p] by (simp add: a_def b_def)
      ultimately have "subs i2 p ! (j div 128) \<noteq> subs i2 p ! a"
        by (simp add: nth_eq_iff_index_eq length_subs)
      then show False
        using True nb nth_subs[OF \<open>a < (p + 127) div 128\<close>] nth_subs[OF less_trans[OF \<open>j div 128 < a\<close> \<open>a < (p + 127) div 128\<close>]]
        by (simp add: i1_def)
    qed
    then have "j mod 128 < b" using less_same_div[OF j] by (simp add: a_def b_def)
    then show ?thesis using True old[OF j] b len by (simp add: entry_def u32_at_set)
  qed
  have "listing ?i2 ?B p = listing i2 B p"
    using old old_entry by (intro listing_cong) auto
  moreover have "piece ?i2 ?B p = new x y"
    using i1 b len by (auto simp: piece_def entry_def new_def a_def[symmetric] b_def[symmetric] u32_at_set i1_def)
  ultimately show "listing ?i2 ?B (Suc p) = listing i2 B p @ new x y"
    by (simp add: listing_Suc)
  have "u32_at k ?i2 = u32_at k i2" if "k < (p + 127) div 128" for k
  proof -
    have "128 * k < p" using that by (simp add: less_eq_div_iff_mult_less_eq Suc_le_eq[symmetric])
    from old[OF this] show ?thesis by simp
  qed
  then have eq: "subs ?i2 p = subs i2 p" by (simp add: subs_def)
  show "set (subs i2 p) \<subseteq> set (subs (i2a x i2) (Suc p))"
    unfolding subs_Suc eq set_append by (rule Un_upper1)
  have "u32_at (p div 128) ?i2 \<in> set (subs ?i2 (Suc p))" by (rule sub_mem) simp
  then show "i1 x i2 \<in> set (subs (i2a x i2) (Suc p))" using i1 by (simp add: a_def)
qed

definition listing_growth :: "nat \<Rightarrow> nat \<Rightarrow> nat" where
  "listing_growth p q = (q + (q + 127) div 128) - (p + (p + 127) div 128)"

lemma listing_growth_Suc:
  "p < q \<Longrightarrow> listing_growth p q = (if p mod 128 = 0 then 2 else 1) + listing_growth (Suc p) q"
  unfolding listing_growth_def ceil128_Suc[of p]
  using div_le_mono[of "Suc p + 127" "q + 127" 128] ceil128_Suc[of p] by (auto split: if_splits)

lemma listing_growth_same [simp]: "listing_growth p p = 0"
  by (simp add: listing_growth_def)

lemma fill_indirect2_stop: "fill_indirect2 (p div 128) (p mod 128) (p div 128) (p mod 128) v i2 s = Inr (v, i2, s)"
  by (subst fill_indirect2.simps) simp

lemma lex_less: "p < q \<longleftrightarrow> p div 128 < q div 128 \<or> (p div 128 = q div 128 \<and> p mod 128 < q mod 128)"
  for p q :: nat
proof -
  have e: "p = 128 * (p div 128) + p mod 128" "q = 128 * (q div 128) + q mod 128"
    and l: "p mod 128 < 128" "q mod 128 < 128" by simp_all
  show ?thesis
  proof (cases "p div 128" "q div 128" rule: linorder_cases)
    case less
    then have "128 * (p div 128) + 128 \<le> 128 * (q div 128)" by linarith
    with less e l show ?thesis by linarith
  next
    case greater
    then have "128 * (q div 128) + 128 \<le> 128 * (p div 128)" by linarith
    with greater e l show ?thesis by linarith
  qed (use e in linarith)
qed

lemma next_position:
  "fill_indirect2 (Suc p div 128) (Suc p mod 128) a1 b1 v i2 s =
     (if p mod 128 + 1 = 128 then fill_indirect2 (p div 128 + 1) 0 a1 b1 v i2 s
      else fill_indirect2 (p div 128) (p mod 128 + 1) a1 b1 v i2 s)"
  by (auto simp: mod_Suc div_Suc)

lemma fill_indirect2_step:
  assumes "p < q" and q: "q \<le> 16384" and len: "length i2 = 512"
    and nh: "unat (if p mod 128 = 0 then x else u32_at (p div 128) i2) \<notin> held s"
  defines "i2a \<equiv> if p mod 128 = 0 then set_u32_at (p div 128) x i2 else i2"
    and "e \<equiv> unat (if p mod 128 = 0 then x else u32_at (p div 128) i2)"
  shows "fill_indirect2 (p div 128) (p mod 128) (q div 128) (q mod 128)
           (if p mod 128 = 0 then x # y # v else y # v) i2 s =
         fill_indirect2 (Suc p div 128) (Suc p mod 128) (q div 128) (q mod 128) v i2a
           (put_block e (set_u32_at (p mod 128) y (blocks s e)) s)"
proof -
  have a: "p div 128 < 128" using assms by (simp add: div_less_128)
  have b: "p mod 128 < 128" by simp
  have "u32_at (p div 128) i2a = (if p mod 128 = 0 then x else u32_at (p div 128) i2)"
    using a len by (simp add: i2a_def u32_at_set)
  moreover have c: "p div 128 < q div 128 \<or> (p div 128 = q div 128 \<and> p mod 128 < q mod 128)"
    using \<open>p < q\<close> by (simp only: lex_less[symmetric])
  moreover have nb: "\<not> 128 \<le> p mod 128" using b by (simp only: not_le)
  ultimately show ?thesis
    unfolding next_position
    using a b nh
    by (subst fill_indirect2.simps, cases "p mod 128 = 0")
      (simp_all only: layout_vals if_True if_False simp_thms next_block_def put_u32_def get_u32_def
        list.case bind_res_Inr prod.case i2a_def e_def modify_block_free zero_less_numeral)
qed

lemma fill_indirect2_eq:
  assumes "p \<le> q" "q \<le> 16384" "length i2 = 512" "store_ok s" "listing_growth p q \<le> length v"
    and "distinct (listing i2 (blocks s) p @ v)"
    and "\<forall>e \<in> set (listing i2 (blocks s) p @ v). unat e \<notin> held s"
  shows "\<exists>i2' s'. fill_indirect2 (p div 128) (p mod 128) (q div 128) (q mod 128) v i2 s =
             Inr (drop (listing_growth p q) v, i2', s') \<and> length i2' = 512 \<and> store_ok s' \<and>
           held s' = held s \<and>
           listing i2' (blocks s') q = listing i2 (blocks s) p @ take (listing_growth p q) v \<and>
           set (subs i2 p) \<subseteq> set (subs i2' q) \<and>
           (\<forall>i. i \<notin> unat ` set (subs i2' q) \<longrightarrow> blocks s' i = blocks s i)"
  using assms
proof (induction "q - p" arbitrary: p i2 s v)
  case 0
  then show ?case by (simp add: fill_indirect2_stop)
next
  case (Suc k)
  then have pq: "p < q" by simp
  let ?z = "p mod 128 = 0"
  obtain x y v' where v: "v = (if ?z then x # y # v' else y # v')"
    using Suc.prems(5) pq
    by (auto simp: listing_growth_Suc split: if_splits) (metis Suc_le_length_iff)+
  define e where "e = (if ?z then x else u32_at (p div 128) i2)"
  define i2a where "i2a = (if ?z then set_u32_at (p div 128) x i2 else i2)"
  define s1 where "s1 = put_block (unat e) (set_u32_at (p mod 128) y (blocks s (unat e))) s"
  let ?new = "if ?z then [x, y] else [y]"
  have p: "p < 16384" using pq Suc.prems by simp
  have B: "length (blocks s i) = 512" for i using Suc.prems(4) by (rule store_okD)
  have vn: "v = ?new @ v'" by (simp add: v)
  have d: "distinct (listing i2 (blocks s) p @ ?new)" using Suc.prems(6) vn by auto
  note step = listing_step[where B = "blocks s", OF p Suc.prems(3) B d]
  have l1: "listing i2a (blocks s1) (Suc p) = listing i2 (blocks s) p @ ?new"
    using step(1) by (simp add: i2a_def s1_def e_def)
  have sub1: "set (subs i2 p) \<subseteq> set (subs i2a (Suc p))" and e1: "e \<in> set (subs i2a (Suc p))"
    using step(3,4) by (simp_all add: i2a_def e_def)
  have "e \<in> set (listing i2a (blocks s1) (Suc p))" using e1 subs_in_listing by blast
  then have "e \<in> set (listing i2 (blocks s) p @ v)" using l1 vn by auto
  then have nh: "unat e \<notin> held s" using Suc.prems(7) by blast
  have go: "fill_indirect2 (p div 128) (p mod 128) (q div 128) (q mod 128) v i2 s =
      fill_indirect2 (Suc p div 128) (Suc p mod 128) (q div 128) (q mod 128) v' i2a s1"
    using fill_indirect2_step[OF pq Suc.prems(2,3), of x s y v'] nh
    by (simp add: v i2a_def s1_def e_def)
  have len: "length i2a = 512" using p Suc.prems(3) by (simp add: i2a_def div_less_128)
  have gr: "listing_growth p q = length ?new + listing_growth (Suc p) q"
    using pq by (simp add: listing_growth_Suc)
  have eq: "listing i2a (blocks s1) (Suc p) @ v' = listing i2 (blocks s) p @ v"
    using l1 vn by simp
  have "k = q - Suc p" "Suc p \<le> q" "store_ok s1" "held s1 = held s"
    using Suc.hyps(2) pq Suc.prems(4) B by (auto simp: s1_def)
  from Suc.hyps(1)[OF this(1,2) Suc.prems(2) len this(3), of v'] obtain i2' s' where
    r: "fill_indirect2 (Suc p div 128) (Suc p mod 128) (q div 128) (q mod 128) v' i2a s1 =
        Inr (drop (listing_growth (Suc p) q) v', i2', s')" "length i2' = 512" "store_ok s'"
      "held s' = held s1"
      "listing i2' (blocks s') q = listing i2a (blocks s1) (Suc p) @ take (listing_growth (Suc p) q) v'"
      "set (subs i2a (Suc p)) \<subseteq> set (subs i2' q)"
      "\<And>i. i \<notin> unat ` set (subs i2' q) \<Longrightarrow> blocks s' i = blocks s1 i"
    using Suc.prems(5,6,7) gr vn eq \<open>held s1 = held s\<close> by auto
  have "blocks s' i = blocks s i" if "i \<notin> unat ` set (subs i2' q)" for i
    using r(6) r(7)[OF that] that e1 by (auto simp: s1_def)
  then show ?case
    using r go gr l1 vn sub1 \<open>held s1 = held s\<close> by auto
qed

section \<open>Growing\<close>

definition blocks_upto :: "nat \<Rightarrow> nat" where
  "blocks_upto n =
     n + (if 28 < n then 1 else 0) + (if 156 < n then 1 + (n - 156 + 127) div 128 else 0)"

lemma total_blocks_upto: "total_blocks sz = blocks_upto (data_blocks_of sz)"
  by (simp add: total_blocks_def blocks_upto_def div_ceil_128 Let_def)

lemma length_all_blocks_upto: "inode_ok ino \<Longrightarrow> length (all_blocks ino B n) = blocks_upto n"
  by (auto simp: all_blocks_def level1_def level2_def length_listing blocks_upto_def inode_ok_def)

lemma blocks_upto_mono: "m \<le> n \<Longrightarrow> blocks_upto m \<le> blocks_upto n"
  unfolding blocks_upto_def using div_le_mono[of "m - 156 + 127" "n - 156 + 127" 128] by auto

lemma blocks_upto_direct: "n \<le> 28 \<Longrightarrow> blocks_upto n = n"
  by (simp add: blocks_upto_def)

lemma blocks_upto_level1: "28 < n \<Longrightarrow> n \<le> 156 \<Longrightarrow> blocks_upto n = n + 1"
  by (simp add: blocks_upto_def)

lemma blocks_upto_level2:
  "156 \<le> m \<Longrightarrow> m \<le> n \<Longrightarrow> 156 < n \<Longrightarrow>
     blocks_upto n - blocks_upto m = (if m = 156 then 1 else 0) + listing_growth (m - 156) (n - 156)"
  unfolding blocks_upto_def listing_growth_def
  using div_le_mono[of "m - 156 + 127" "n - 156 + 127" 128] by auto

lemma map_filled:
  assumes "\<And>j. j < 128 \<Longrightarrow> u32_at j b' = (if k \<le> j \<and> j < lim then v ! (j - k) else u32_at j b)"
    and "k \<le> lim" "lim \<le> 128" "lim - k \<le> length v"
  shows "map (\<lambda>j. u32_at j b') [0..<lim] = map (\<lambda>j. u32_at j b) [0..<k] @ take (lim - k) v"
  by (rule nth_equalityI) (use assms in \<open>auto simp: nth_append\<close>)

lemma grow_direct:
  assumes "inode_ok ino" "c \<le> tot" "blocks_upto tot \<le> blocks_upto c + length v"
  shows "\<exists>d v1. fill_direct c (min tot 28) v (direct ino) = Inr (v1, d) \<and> length d = 28 \<and>
           all_blocks (ino\<lparr>direct := d\<rparr>) B (max c (min tot 28)) @ v1 = all_blocks ino B c @ v"
proof (cases "c < min tot 28")
  case False
  then show ?thesis using assms by (auto simp: fill_direct_none inode_ok_def max_def)
next
  case True
  have len: "min tot 28 - c \<le> length v"
    using assms(3) True blocks_upto_mono[of "min tot 28" tot] by (simp add: blocks_upto_direct)
  have "fill_direct c (min tot 28) v (direct ino) = Inr (drop (min tot 28 - c) v,
      take c (direct ino) @ take (min tot 28 - c) v @ drop (min tot 28) (direct ino))"
    by (rule fill_direct_eq) (use assms True len in \<open>auto simp: inode_ok_def\<close>)
  moreover have "take (min tot 28) (take c (direct ino) @ take (min tot 28 - c) v @ drop (min tot 28) (direct ino)) =
      take c (direct ino) @ take (min tot 28 - c) v"
    using assms True len by (simp add: inode_ok_def)
  ultimately show ?thesis
    using assms True len
    by (auto simp: all_blocks_def level1_def level2_def inode_ok_def max_def)
qed

lemma grow_level1:
  assumes ok: "inode_ok ino" "store_ok s" and c: "28 \<le> c" "c \<le> tot" "28 < tot"
    and len: "blocks_upto tot \<le> blocks_upto c + length v"
    and nh: "\<forall>e \<in> set (all_blocks ino (blocks s) c @ v). unat e \<notin> held s"
  shows "\<exists>ino' v1 v2 s'.
           (if c = 28 then bind_res (next_block v) (\<lambda>(x, v'). Inr (v', ino\<lparr>indirect1 := x\<rparr>))
            else Inr (v, ino)) = Inr (v1, ino') \<and>
           modify_block (unat (indirect1 ino')) (fill_indirect (c - 28) (min (tot - 28) 128) v1) s =
             Inr (v2, s') \<and>
           all_blocks ino' (blocks s') (max c (min tot 156)) @ v2 = all_blocks ino (blocks s) c @ v \<and>
           (\<exists>x. ino' = ino\<lparr>indirect1 := x\<rparr>) \<and> store_ok s' \<and> held s' = held s \<and>
           (\<forall>i. i \<noteq> unat (indirect1 ino') \<longrightarrow> blocks s' i = blocks s i)"
proof -
  define v1 where "v1 = (if c = 28 then tl v else v)"
  define ino' where "ino' = (if c = 28 then ino\<lparr>indirect1 := hd v\<rparr> else ino)"
  define b where "b = blocks s (unat (indirect1 ino'))"
  have b: "length b = 512" using ok(2) by (simp add: b_def store_okD)
  have ne: "v \<noteq> []" if "c = 28"
    using len that c(3) blocks_upto_mono[of 29 tot] by (auto simp: blocks_upto_def)
  have first: "(if c = 28 then bind_res (next_block v) (\<lambda>(x, v'). Inr (v', ino\<lparr>indirect1 := x\<rparr>))
            else Inr (v, ino)) = Inr (v1, ino')"
    using ne by (cases v) (auto simp: v1_def ino'_def next_block_def)
  have upd: "\<exists>x. ino' = ino\<lparr>indirect1 := x\<rparr>"
    unfolding ino'_def by (rule exI[of _ "if c = 28 then hd v else indirect1 ino"]) simp
  have "indirect1 ino' \<in> set (all_blocks ino (blocks s) c @ v)"
    using ne c by (auto simp: ino'_def all_blocks_def level1_def)
  then have nh1: "unat (indirect1 ino') \<notin> held s" using nh by blast
  show ?thesis
  proof (cases "c < min tot 156")
    case False
    then have "min (tot - 28) 128 \<le> c - 28" using c by auto
    then have "fill_indirect (c - 28) (min (tot - 28) 128) v1 b = Inr (v1, b)"
      by (rule fill_indirect_none)
    then have "modify_block (unat (indirect1 ino')) (fill_indirect (c - 28) (min (tot - 28) 128) v1) s = Inr (v1, s)"
      using nh1 by (simp add: modify_block_free b_def put_block_def)
    moreover have "all_blocks ino' (blocks s) (max c (min tot 156)) @ v1 = all_blocks ino (blocks s) c @ v"
      using False c by (auto simp: ino'_def v1_def max_def)
    ultimately show ?thesis using first upd ok(2) by blast
  next
    case True
    define lim where "lim = min (tot - 28) 128"
    have lim: "c - 28 \<le> lim" "lim \<le> 128" "0 < lim" "28 + lim = max c (min tot 156)" "28 + lim \<le> 156"
      using True c by (auto simp: lim_def)
    have "28 + lim \<le> tot" using c by (simp add: lim_def)
    then have "blocks_upto (28 + lim) \<le> blocks_upto c + length v"
      using len blocks_upto_mono by (meson le_trans)
    then have lv: "lim - (c - 28) \<le> length v1"
      using True c lim by (auto simp: v1_def blocks_upto_def)
    obtain b' where b': "fill_indirect (c - 28) lim v1 b = Inr (drop (lim - (c - 28)) v1, b')" "length b' = 512"
        "\<forall>j < 128. u32_at j b' = (if c - 28 \<le> j \<and> j < lim then v1 ! (j - (c - 28)) else u32_at j b)"
      using fill_indirect_eq[OF lim(1,2) lv b] by blast
    define s' where "s' = put_block (unat (indirect1 ino')) b' s"
    have mb: "modify_block (unat (indirect1 ino')) (fill_indirect (c - 28) lim v1) s =
        Inr (drop (lim - (c - 28)) v1, s')"
      using nh1 b'(1) by (simp add: modify_block_free b_def s'_def)
    have "map (\<lambda>j. u32_at j b') [0..<lim] =
        map (\<lambda>j. u32_at j b) [0..<c - 28] @ take (lim - (c - 28)) v1"
      using b'(3) lim lv by (intro map_filled) auto
    then have "level1 ino' (blocks s') (28 + lim) @ drop (lim - (c - 28)) v1 = level1 ino (blocks s) c @ v"
      using lim True c ne
      by (cases v) (auto simp: level1_def s'_def ino'_def v1_def b_def min_def)
    then have "all_blocks ino' (blocks s') (28 + lim) @ drop (lim - (c - 28)) v1 = all_blocks ino (blocks s) c @ v"
      using lim True c ok by (auto simp: all_blocks_def level2_def inode_ok_def ino'_def)
    then show ?thesis
      using first upd mb ok(2) b'(2) lim(4) unfolding lim_def[symmetric]
      by (intro exI[of _ ino'] exI[of _ v1] exI[of _ "drop (lim - (c - 28)) v1"] exI[of _ s'])
        (simp add: s'_def)
  qed
qed

text \<open>The index blocks among the blocks of an inode.\<close>

definition index_blocks :: "disk_inode \<Rightarrow> (nat \<Rightarrow> block) \<Rightarrow> nat \<Rightarrow> u32 set" where
  "index_blocks ino B n =
     (if 28 < n then {indirect1 ino} else {}) \<union>
     (if 156 < n then insert (indirect2 ino) (set (subs (B (unat (indirect2 ino))) (n - 156))) else {})"

lemma unat_inj_image: "unat x \<in> unat ` S \<longleftrightarrow> x \<in> S" for x :: "'a :: len word"
  by (auto simp: word_unat_eq_iff[symmetric])

lemma listing_put_other:
  assumes "u \<notin> set (listing i2 B n)"
  shows "listing i2 (B(unat u := b)) n = listing i2 B n"
proof (rule listing_cong)
  fix j assume j: "j < n"
  have "u32_at (j div 128) i2 \<in> set (listing i2 B n)"
    using sub_mem[OF j] subs_in_listing by blast
  then have "unat (u32_at (j div 128) i2) \<noteq> unat u" using assms by (auto simp: word_unat_eq_iff[symmetric])
  then show "entry i2 (B(unat u := b)) j = entry i2 B j"
    by (simp add: entry_def)
qed simp

lemma grow_level2:
  assumes ok: "inode_ok ino" "store_ok s" and c: "156 \<le> c" "c \<le> tot" "156 < tot" "tot \<le> 16540"
    and len: "blocks_upto tot \<le> blocks_upto c + length v"
    and dist: "distinct (all_blocks ino (blocks s) c @ v)"
    and nh: "\<forall>e \<in> set (all_blocks ino (blocks s) c @ v). unat e \<notin> held s"
  shows "\<exists>ino' v1 v2 s'.
           (if c - 28 = 128 then bind_res (next_block v) (\<lambda>(x, v'). Inr (v', ino\<lparr>indirect2 := x\<rparr>))
            else Inr (v, ino)) = Inr (v1, ino') \<and>
           with_block (unat (indirect2 ino'))
             (fill_indirect2 ((c - 156) div 128) ((c - 156) mod 128)
                ((tot - 156) div 128) ((tot - 156) mod 128) v1) s = Inr (v2, s') \<and>
           all_blocks ino' (blocks s') tot @ v2 = all_blocks ino (blocks s) c @ v \<and>
           (\<exists>x. ino' = ino\<lparr>indirect2 := x\<rparr>) \<and> store_ok s' \<and> held s' = held s \<and>
           (\<forall>i. i \<notin> unat ` index_blocks ino' (blocks s') tot \<longrightarrow> blocks s' i = blocks s i)"
proof -
  define p q where "p = c - 156" and "q = tot - 156"
  define v1 where "v1 = (if c = 156 then tl v else v)"
  define ino' where "ino' = (if c = 156 then ino\<lparr>indirect2 := hd v\<rparr> else ino)"
  define u where "u = indirect2 ino'"
  define i2 where "i2 = blocks s (unat u)"
  define s0 where "s0 = s\<lparr>held := insert (unat u) (held s)\<rparr>"
  define g where "g = listing_growth p q"
  have g: "(if c = 156 then 1 else 0) + g \<le> length v"
    using len c blocks_upto_level2[of c tot] by (simp add: g_def p_def q_def)
  have ne: "v \<noteq> []" if "c = 156" using g that by auto
  have first: "(if c - 28 = 128 then bind_res (next_block v) (\<lambda>(x, v'). Inr (v', ino\<lparr>indirect2 := x\<rparr>))
            else Inr (v, ino)) = Inr (v1, ino')"
    using ne c by (cases v) (auto simp: v1_def ino'_def next_block_def)
  have upd: "\<exists>x. ino' = ino\<lparr>indirect2 := x\<rparr>"
    unfolding ino'_def by (rule exI[of _ "if c = 156 then hd v else indirect2 ino"]) simp
  define pre where "pre = direct ino @ level1 ino (blocks s) 156"
  have pre: "pre = direct ino @ indirect1 ino # map (\<lambda>j. u32_at j (blocks s (unat (indirect1 ino)))) [0..<128]"
    by (simp add: pre_def level1_def)
  have l1: "level1 ino B n = level1 ino B 156" if "156 \<le> n" for B n
    using that by (simp add: level1_def min_absorb2)
  have whole: "all_blocks ino (blocks s) c @ v = pre @ u # listing i2 (blocks s) p @ v1"
    using ok(1) c ne l1[of c]
    by (cases v) (auto simp: all_blocks_def level2_def inode_ok_def pre_def p_def u_def i2_def ino'_def v1_def)
  have nhu: "unat u \<notin> held s" using nh unfolding whole by simp
  have un: "u \<notin> set (listing i2 (blocks s) p @ v1)" using dist unfolding whole by auto
  have fill_ok: "p \<le> q" "q \<le> 16384" "length i2 = 512" "store_ok s0" "g \<le> length v1"
    using c g ok(2) by (auto simp: p_def q_def i2_def s0_def v1_def store_ok_def)
  have fd: "distinct (listing i2 (blocks s0) p @ v1)"
    using dist unfolding whole by (simp add: s0_def)
  have fh: "\<forall>e \<in> set (listing i2 (blocks s0) p @ v1). unat e \<notin> held s0"
    using nh un unfolding whole by (auto simp: s0_def word_unat_eq_iff[symmetric])
  obtain i2' s1 where r: "fill_indirect2 (p div 128) (p mod 128) (q div 128) (q mod 128) v1 i2 s0 =
        Inr (drop g v1, i2', s1)" "length i2' = 512" "store_ok s1" "held s1 = held s0"
      "listing i2' (blocks s1) q = listing i2 (blocks s) p @ take g v1"
      "\<And>i. i \<notin> unat ` set (subs i2' q) \<Longrightarrow> blocks s1 i = blocks s i"
    using fill_indirect2_eq[OF fill_ok(1-4) fill_ok(5)[unfolded g_def] fd fh]
    unfolding g_def[symmetric] by (auto simp: s0_def)
  define s' where "s' = unlock_block (unat u) (put_block (unat u) i2' s1)"
  have wb: "with_block (unat u) (fill_indirect2 (p div 128) (p mod 128) (q div 128) (q mod 128) v1) s =
      Inr (drop g v1, s')"
    using nhu r(1) by (simp add: with_block_free i2_def s0_def s'_def)
  have bl: "blocks s' = (blocks s1)(unat u := i2')" by (simp add: s'_def unlock_block_def)
  have un': "u \<notin> set (listing i2' (blocks s1) q)"
    using un unfolding r(5) by (auto dest: in_set_takeD)
  have ls: "listing i2' (blocks s') q = listing i2' (blocks s1) q"
    unfolding bl using un' by (rule listing_put_other)
  have subs_q: "set (subs i2' q) \<subseteq> set (listing i2 (blocks s) p @ v1)"
    using subs_in_listing[of i2' q "blocks s1"] unfolding r(5) by (auto dest: in_set_takeD)
  have ind1: "indirect1 ino \<noteq> u" "indirect1 ino \<notin> set (subs i2' q)"
    using dist subs_q unfolding whole pre by auto
  have "blocks s' (unat (indirect1 ino)) = blocks s (unat (indirect1 ino))"
    using ind1 r(6)[of "unat (indirect1 ino)"] by (simp add: bl unat_inj_image word_unat_eq_iff[symmetric])
  then have "level1 ino' (blocks s') 156 = level1 ino (blocks s) 156"
    by (simp add: level1_def ino'_def)
  moreover have "level1 ino' (blocks s') tot = level1 ino' (blocks s') 156"
    using c by (simp add: level1_def min_absorb2)
  ultimately have "all_blocks ino' (blocks s') tot = pre @ u # listing i2' (blocks s') q"
    using c ok(1)
    by (simp add: all_blocks_def level2_def inode_ok_def pre_def q_def u_def[symmetric] bl) (simp add: ino'_def)
  then have all: "all_blocks ino' (blocks s') tot @ drop g v1 = all_blocks ino (blocks s) c @ v"
    unfolding whole ls r(5) by simp
  have "held s' = held s" using r(4) nhu by (simp add: s'_def unlock_block_def s0_def)
  moreover have "store_ok s'" using r(2,3) by (simp add: store_ok_def bl)
  moreover have "blocks s' i = blocks s i" if "i \<notin> unat ` index_blocks ino' (blocks s') tot" for i
  proof -
    have "index_blocks ino' (blocks s') tot \<supseteq> insert u (set (subs i2' q))"
      using c by (auto simp: index_blocks_def u_def[symmetric] bl q_def)
    then have "i \<noteq> unat u" "i \<notin> unat ` set (subs i2' q)" using that by auto
    then show ?thesis using r(6) by (simp add: bl)
  qed
  ultimately show ?thesis
    using first upd wb all unfolding u_def p_def q_def
    by (intro exI[of _ ino'] exI[of _ v1] exI[of _ "drop g v1"] exI[of _ s']) simp
qed

theorem increase_size_appends:
  assumes ok: "inode_ok ino" "store_ok s"
    and tot: "data_blocks ino \<le> data_blocks_of sz" "data_blocks_of sz \<le> max_blocks"
    and len: "total_blocks sz = total_blocks (fsize ino) + length v"
    and dist: "distinct (all_blocks ino (blocks s) (data_blocks ino) @ v)"
    and nh: "\<forall>e \<in> set (all_blocks ino (blocks s) (data_blocks ino) @ v). unat e \<notin> held s"
  shows "\<exists>ino' s'. increase_size sz v ino s = Inr (ino', s') \<and>
           fsize ino' = sz \<and> itype ino' = itype ino \<and> inode_ok ino' \<and> store_ok s' \<and> held s' = held s \<and>
           all_blocks ino' (blocks s') (data_blocks_of sz) =
             all_blocks ino (blocks s) (data_blocks ino) @ v \<and>
           (\<forall>i. i \<notin> unat ` index_blocks ino' (blocks s') (data_blocks_of sz) \<longrightarrow>
                blocks s' i = blocks s i)"
proof -
  define c t where "c = data_blocks ino" and "t = data_blocks_of sz"
  define ino1 where "ino1 = ino\<lparr>fsize := sz\<rparr>"
  have ct: "c \<le> t" "t \<le> 16540" using tot by (auto simp: c_def t_def max_blocks_def)
  have dt: "data_blocks ino1 = t" by (simp add: data_blocks_def ino1_def t_def)
  have ok1: "inode_ok ino1" using ok by (simp add: inode_ok_def ino1_def)
  have len: "blocks_upto t = blocks_upto c + length v"
    using len by (simp add: total_blocks_upto t_def c_def data_blocks_def)
  have all1: "all_blocks ino1 B n = all_blocks ino B n" for B n
    by (simp add: all_blocks_def level1_def level2_def ino1_def)
  define L where "L = all_blocks ino (blocks s) c @ v"
  have dL: "distinct L" and hL: "\<forall>e \<in> set L. unat e \<notin> held s"
    using dist nh by (simp_all add: L_def c_def)
  have lenL: "length L = blocks_upto t"
    using length_all_blocks_upto[OF ok(1)] len by (simp add: L_def)
  have lenof: "blocks_upto n + length w = blocks_upto t" if "all_blocks i B n @ w = L" "inode_ok i" for i B n w
    using arg_cong[OF that(1), of length] length_all_blocks_upto[OF that(2)] lenL by simp
  define c1 where "c1 = max c (min t 28)"
  obtain d v1 where d: "fill_direct c (min t 28) v (direct ino1) = Inr (v1, d)" "length d = 28"
      "all_blocks (ino1\<lparr>direct := d\<rparr>) (blocks s) c1 @ v1 = L"
    using grow_direct[OF ok1 ct(1), of v "blocks s"] len unfolding c1_def L_def all1 by auto
  define ino2 where "ino2 = ino1\<lparr>direct := d\<rparr>"
  have ok2: "inode_ok ino2" using d(2) by (simp add: inode_ok_def ino2_def)
  have f2: "fsize ino2 = sz" "itype ino2 = itype ino" by (simp_all add: ino2_def ino1_def)
  note start = d(1)[unfolded ino1_def, simplified]
  show ?thesis
  proof (cases "t \<le> 28")
    case True
    then have "c1 = t" using ct by (simp add: c1_def)
    then have "v1 = []" using lenof[OF d(3)] ok2 by (simp add: ino2_def)
    then have "all_blocks ino2 (blocks s) t = L" using d(3) \<open>c1 = t\<close> by (simp add: ino2_def)
    moreover have "increase_size sz v ino s = Inr (ino2, s)"
      using True d(1) by (simp add: increase_size_def Let_def dt[unfolded ino1_def] c_def[symmetric] ino2_def ino1_def)
    ultimately show ?thesis
      using ok2 f2 ok by (auto simp: t_def[symmetric] L_def c_def)
  next
    case False
    have c1: "28 \<le> c1" "c1 \<le> t" "28 < t" using False ct by (auto simp: c1_def)
    define c2 where "c2 = max c1 (min t 156)"
    have d3: "all_blocks ino2 (blocks s) c1 @ v1 = L" using d(3) by (simp add: ino2_def)
    obtain ino3 v2 v3 s1 x where e:
      "(if c1 = 28 then bind_res (next_block v1) (\<lambda>(x, v'). Inr (v', ino2\<lparr>indirect1 := x\<rparr>))
            else Inr (v1, ino2)) = Inr (v2, ino3)"
      "modify_block (unat (indirect1 ino3)) (fill_indirect (c1 - 28) (min (t - 28) 128) v2) s = Inr (v3, s1)"
      "all_blocks ino3 (blocks s1) c2 @ v3 = L"
      "ino3 = ino2\<lparr>indirect1 := x\<rparr>" "store_ok s1" "held s1 = held s"
      "\<And>i. i \<noteq> unat (indirect1 ino3) \<Longrightarrow> blocks s1 i = blocks s i"
      using grow_level1[OF ok2 ok(2) c1, of v1] lenof[OF d3 ok2] hL unfolding d3 c2_def by auto
    have ok3: "inode_ok ino3" using ok2 e(4) by (simp add: inode_ok_def)
    have expand: "increase_size sz v ino s =
       (if t - 28 \<le> 128 then Inr (ino3, s1)
        else bind_res
          (if max (c1 - 28) (min (t - 28) 128) = 128
           then bind_res (next_block v3) (\<lambda>(x, v'). Inr (v', ino3\<lparr>indirect2 := x\<rparr>)) else Inr (v3, ino3))
          (\<lambda>(v4, ino4). bind_res (with_block (unat (indirect2 ino4))
             (fill_indirect2 ((max (c1 - 28) (min (t - 28) 128) - 128) div 128)
                ((max (c1 - 28) (min (t - 28) 128) - 128) mod 128)
                ((t - 28 - 128) div 128) ((t - 28 - 128) mod 128) v4) s1) (\<lambda>(_, s2). Inr (ino4, s2))))"
      unfolding increase_size_def Let_def
      by (simp only: layout_vals c_def[symmetric] dt[unfolded ino1_def] d(1)[unfolded ino1_def] False if_False
          bind_res_Inr prod.case c1_def[symmetric] e(1,2)[unfolded ino2_def ino1_def])
    show ?thesis
    proof (cases "t \<le> 156")
      case True
      then have "c2 = t" using c1 by (simp add: c2_def)
      then have "v3 = []" using lenof[OF e(3) ok3] by simp
      moreover have "increase_size sz v ino s = Inr (ino3, s1)"
        unfolding expand using le_diff_conv[of t 28 128] True by simp
      ultimately show ?thesis
        using ok3 f2 e \<open>c2 = t\<close> False
        by (auto simp: t_def[symmetric] L_def c_def index_blocks_def)
    next
      case False2: False
      have c2: "156 \<le> c2" "c2 \<le> t" "156 < t" "t \<le> 16540" using False2 ct c1 by (auto simp: c2_def)
      have L3: "blocks_upto t \<le> blocks_upto c2 + length v3" using lenof[OF e(3) ok3] by simp
      obtain ino4 v4 v5 s2 y where h:
        "(if c2 - 28 = 128 then bind_res (next_block v3) (\<lambda>(x, v'). Inr (v', ino3\<lparr>indirect2 := x\<rparr>))
            else Inr (v3, ino3)) = Inr (v4, ino4)"
        "with_block (unat (indirect2 ino4))
             (fill_indirect2 ((c2 - 156) div 128) ((c2 - 156) mod 128)
                ((t - 156) div 128) ((t - 156) mod 128) v4) s1 = Inr (v5, s2)"
        "all_blocks ino4 (blocks s2) t @ v5 = L"
        "ino4 = ino3\<lparr>indirect2 := y\<rparr>" "store_ok s2" "held s2 = held s1"
        "\<And>i. i \<notin> unat ` index_blocks ino4 (blocks s2) t \<Longrightarrow> blocks s2 i = blocks s1 i"
        using grow_level2[OF ok3 e(5) c2 L3] dL hL e(6) unfolding e(3) by auto
      have ok4: "inode_ok ino4" using ok3 h(4) by (simp add: inode_ok_def)
      have v5: "v5 = []" using lenof[OF h(3) ok4] by simp
      have m1: "max (c1 - 28) (min (t - 28) 128) = c2 - 28" using c1 by (auto simp: c2_def max_def min_def)
      have m2: "c2 - 28 - 128 = c2 - 156" "t - 28 - 128 = t - 156" by simp_all
      have "increase_size sz v ino s = Inr (ino4, s2)"
        unfolding expand m1 m2 using le_diff_conv[of t 28 128] False2 h(1,2) by simp
      moreover have "blocks s2 i = blocks s i" if i: "i \<notin> unat ` index_blocks ino4 (blocks s2) t" for i
      proof -
        have "i \<noteq> unat (indirect1 ino3)" using i c2 h(4) by (auto simp: index_blocks_def)
        then show ?thesis using h(7)[OF i] e(7) by simp
      qed
      ultimately show ?thesis
        using ok4 f2 e h v5 by (auto simp: t_def[symmetric] L_def c_def)
    qed
  qed
qed

text \<open>
  A size beyond what the inode can address panics: the second level is full when its 128
  entries are used.
\<close>

lemma fill_indirect2_bound:
  "fill_indirect2 a0 b0 a1 b1 v i2 s = Inr r \<Longrightarrow> a0 < 128 \<or> a0 = 128 \<and> b0 = 0 \<Longrightarrow> b1 < 128 \<Longrightarrow>
     128 * a1 + b1 \<le> 16384"
proof (induction a0 b0 a1 b1 v i2 s arbitrary: r rule: fill_indirect2.induct)
  case (1 a0 b0 a1 b1 v i2 s)
  note run = trans[OF fill_indirect2.simps[symmetric] 1(3)]
  have b0: "b0 < 128" using run by (auto split: if_splits)
  show ?case
  proof (cases "a0 < a1 \<or> a0 = a1 \<and> b0 < b1")
    case False
    then have "128 * a1 + b1 \<le> 128 * a0 + b0"
    proof (cases "a0 = a1")
      case True
      with False show ?thesis by simp
    next
      case ne: False
      with False have "a1 + 1 \<le> a0" by simp
      then have "128 * (a1 + 1) \<le> 128 * a0" by (rule mult_le_mono2)
      then show ?thesis using 1(5) by simp
    qed
    then show ?thesis using 1(4) b0 by auto
  next
    case more: True
    have a0: "a0 < 128"
    proof (rule ccontr)
      assume "\<not> a0 < 128"
      then have "a0 = 128" "b0 = 0" using 1(4) by auto
      then show False using run more by (auto simp: bind_res_eq_Inr put_u32_def)
    qed
    have guard: "\<not> inode_indirect1_count \<le> b0" using b0 by simp
    obtain v1 i2a i1 v2 s1 where e: "(if b0 = 0 then bind_res (next_block v) (\<lambda>(x, v').
          bind_res (put_u32 a0 x i2) (\<lambda>i2'. Inr (v', i2'))) else Inr (v, i2)) = Inr (v1, i2a)"
        "get_u32 a0 i2a = Inr i1"
        "modify_block (unat i1) (\<lambda>b. bind_res (next_block v1) (\<lambda>(x, v').
           bind_res (put_u32 b0 x b) (\<lambda>b'. Inr (v', b')))) s = Inr (v2, s1)"
        "(if b0 + 1 = inode_indirect1_count then fill_indirect2 (a0 + 1) 0 a1 b1 v2 i2a s1
          else fill_indirect2 a0 (b0 + 1) a1 b1 v2 i2a s1) = Inr r"
      using run more guard by (auto simp: bind_res_eq_Inr simp del: layout_vals)
    show ?thesis
    proof (cases "b0 + 1 = inode_indirect1_count")
      case True
      show ?thesis
        by (rule 1(1)[OF guard more e(1) refl e(2,3) refl True]) (use e(4) True a0 1(5) in auto)
    next
      case False
      show ?thesis
        by (rule 1(2)[OF guard more e(1) refl e(2,3) refl False]) (use e(4) False a0 1(5) in auto)
    qed
  qed
qed

lemma increase_size_bound:
  assumes run: "increase_size sz v ino s = Inr x" and old: "data_blocks ino \<le> max_blocks"
  shows "data_blocks_of sz \<le> max_blocks"
proof (cases "data_blocks_of sz \<le> 156")
  case True
  then show ?thesis by (simp add: max_blocks_def)
next
  case False
  let ?c = "data_blocks ino" and ?t = "data_blocks_of sz"
  let ?c4 = "max (max ?c (min ?t 28) - 28) (min (?t - 28) 128) - 128" and ?t4 = "?t - 28 - 128"
  have t: "data_blocks (ino\<lparr>fsize := sz\<rparr>) = ?t" by (simp add: data_blocks_def)
  have n: "\<not> ?t \<le> 28" "\<not> ?t - 28 \<le> 128" using False by auto
  have last_row: "c div 128 < 128 \<or> c div 128 = 128 \<and> c mod 128 = 0" if "c \<le> 16384" for c :: nat
    using div_le_mono[OF that, of 128] mult_div_mod_eq[of 128 c] that by linarith
  obtain v4 b s1 r where "with_block b (fill_indirect2 (?c4 div 128) (?c4 mod 128) (?t4 div 128) (?t4 mod 128) v4) s1 = Inr r"
    using run unfolding increase_size_def Let_def t layout_vals if_not_P[OF n(1)] if_not_P[OF n(2)] case_prod_beta
    by (elim bind_res_InrE) (rule that)
  then obtain i2 s2 r where "fill_indirect2 (?c4 div 128) (?c4 mod 128) (?t4 div 128) (?t4 mod 128) v4 i2 s2 = Inr r"
    unfolding with_block_def by (elim bind_res_InrE) (rule that)
  moreover have "?c4 \<le> 16384" using old by (auto simp: max_blocks_def)
  then have "?c4 div 128 < 128 \<or> ?c4 div 128 = 128 \<and> ?c4 mod 128 = 0" by (rule last_row)
  moreover have "?t4 mod 128 < 128" by simp
  ultimately have "128 * (?t4 div 128) + ?t4 mod 128 \<le> 16384" by (rule fill_indirect2_bound)
  then show ?thesis by (simp add: max_blocks_def)
qed

section \<open>Clearing\<close>

definition sub_group :: "block \<Rightarrow> (nat \<Rightarrow> block) \<Rightarrow> nat \<Rightarrow> nat \<Rightarrow> u32 list" where
  "sub_group i2 B a n = u32_at a i2 # map (\<lambda>j. u32_at j (B (unat (u32_at a i2)))) [0..<n]"

lemma listing_part:
  "b \<le> 128 \<Longrightarrow> listing i2 B (128 * a + b) =
     listing i2 B (128 * a) @ (if b = 0 then [] else sub_group i2 B a b)"
proof (induction b)
  case (Suc b)
  have "(128 * a + b) div 128 = a" "(128 * a + b) mod 128 = b" using Suc.prems by simp_all
  then show ?case using Suc
    by (cases "b = 0") (simp_all add: listing_Suc piece_def entry_def sub_group_def)
qed simp

lemma listing_full: "listing i2 B (128 * a) = concat (map (\<lambda>k. sub_group i2 B k 128) [0..<a])"
proof (induction a)
  case (Suc a)
  have "listing i2 B (128 * Suc a) = listing i2 B (128 * a + 128)" by (simp add: add.commute)
  with Suc show ?case by (simp only: listing_part) simp
qed simp

lemma listing_split:
  "listing i2 B n = concat (map (\<lambda>k. sub_group i2 B k 128) [0..<n div 128]) @
     (if n mod 128 = 0 then [] else sub_group i2 B (n div 128) (n mod 128))"
  using listing_part[of "n mod 128" i2 B "n div 128"] by (simp add: listing_full)

lemma put_same [simp]: "put_block i (blocks s i) s = s"
  by (simp add: put_block_def)

lemma modify_same: "i \<notin> held s \<Longrightarrow> modify_block i (\<lambda>b. Inr (f b, b)) s = Inr (f (blocks s i), s)"
  by (simp add: modify_block_free)

lemma collect_full_eq:
  "\<forall>k \<in> set ks. unat (u32_at k i2) \<notin> held s \<Longrightarrow>
     collect_full ks i2 v s = Inr (v @ concat (map (\<lambda>k. sub_group i2 (blocks s) k 128) ks), s)"
proof (induction ks arbitrary: v)
  case (Cons k ks)
  have nh: "unat (u32_at k i2) \<notin> held s" using Cons.prems by simp
  show ?case
    using Cons by (simp add: Let_def modify_same[OF nh] sub_group_def)
qed simp

theorem clear_size_returns_all:
  assumes ok: "inode_ok ino" and n: "data_blocks ino \<le> max_blocks"
    and dist: "distinct (all_blocks ino (blocks s) (data_blocks ino))"
    and nh: "\<forall>e \<in> set (all_blocks ino (blocks s) (data_blocks ino)). unat e \<notin> held s"
  shows "\<exists>ino'. clear_size ino s = Inr (all_blocks ino (blocks s) (data_blocks ino), ino', s) \<and>
           fsize ino' = 0 \<and> itype ino' = itype ino \<and> inode_ok ino' \<and>
           length (all_blocks ino (blocks s) (data_blocks ino)) = total_blocks (fsize ino)"
proof -
  define n where "n = data_blocks ino"
  define ino2 where "ino2 = ino\<lparr>fsize := 0, direct := replicate (min n 28) 0 @ drop (min n 28) (direct ino)\<rparr>"
  have ok2: "inode_ok ino2" using ok by (simp add: inode_ok_def ino2_def)
  have lt: "length (all_blocks ino (blocks s) n) = total_blocks (fsize ino)"
    using length_all_blocks_upto[OF ok] by (simp add: total_blocks_upto n_def data_blocks_def)
  have tk: "take (min n 28) (direct ino) = take n (direct ino)"
    using ok by (simp add: inode_ok_def min_def)
  show ?thesis
  proof (cases "n \<le> 28")
    case True
    then have "clear_size ino s = Inr (all_blocks ino (blocks s) n, ino2, s)"
      by (simp add: clear_size_def Let_def n_def[symmetric] all_blocks_def level1_def level2_def ino2_def)
    then show ?thesis using ok2 lt by (simp add: n_def ino2_def)
  next
    case False
    let ?i1 = "indirect1 ino"
    have nh1: "unat ?i1 \<notin> held s" using nh False by (simp add: n_def[symmetric] all_blocks_def level1_def)
    define v3 where "v3 = (take (min n 28) (direct ino) @ [?i1]) @ map (\<lambda>j. u32_at j (blocks s (unat ?i1))) [0..<min (n - 28) 128]"
    have whole: "all_blocks ino (blocks s) n = v3 @ level2 ino (blocks s) n"
      using False tk by (simp add: all_blocks_def level1_def v3_def)
    show ?thesis
    proof (cases "n \<le> 156")
      case True
      then have "clear_size ino s = Inr (v3, ino2\<lparr>indirect1 := 0\<rparr>, s)"
        using False le_diff_conv[of n 28 128] tk
        by (simp add: clear_size_def Let_def n_def[symmetric] modify_same[OF nh1] ino2_def v3_def)
      moreover have "all_blocks ino (blocks s) n = v3" using True by (simp add: whole level2_def)
      ultimately show ?thesis using ok2 lt by (simp add: n_def ino2_def inode_ok_def)
    next
      case False2: False
      define i2 q where "i2 = blocks s (unat (indirect2 ino))" and "q = n - 156"
      define s0 where "s0 = s\<lparr>held := insert (unat (indirect2 ino)) (held s)\<rparr>"
      have l2: "level2 ino (blocks s) n = indirect2 ino # listing i2 (blocks s) q"
        using False2 by (simp add: level2_def i2_def q_def)
      have nh2: "unat (indirect2 ino) \<notin> held s" using nh unfolding n_def[symmetric] whole l2 by simp
      have q: "q \<le> 16384" using n by (simp add: q_def n_def max_blocks_def)
      have sub: "unat (u32_at k i2) \<notin> held s0" if "k < (q + 127) div 128" for k
      proof -
        have "u32_at k i2 \<in> set (subs i2 q)" using that by (auto simp: subs_def)
        then have "u32_at k i2 \<in> set (listing i2 (blocks s) q)" using subs_in_listing by blast
        then show ?thesis using nh dist unfolding n_def[symmetric] whole l2
          by (auto simp: s0_def word_unat_eq_iff[symmetric])
      qed
      have a: "q div 128 \<le> 128" using div_le_mono[OF q, of 128] by simp
      then have tk2: "take (q div 128) [0..<128] = [0..<q div 128]" by (simp add: min_def)
      have cf: "collect_full [0..<q div 128] i2 v s0 =
          Inr (v @ concat (map (\<lambda>k. sub_group i2 (blocks s) k 128) [0..<q div 128]), s0)" for v
      proof -
        have "q div 128 \<le> (q + 127) div 128" by (rule div_le_mono) simp
        then have "\<forall>k \<in> set [0..<q div 128]. unat (u32_at k i2) \<notin> held s0" using sub by simp
        from collect_full_eq[OF this] show ?thesis by (simp add: s0_def)
      qed
      have last: "(if 0 < q mod 128 then bind_res (get_u32 (q div 128) i2) (\<lambda>e.
                bind_res (modify_block (unat e) (\<lambda>b.
                   Inr ((v @ [e]) @ map (\<lambda>j. u32_at j b) [0..<q mod 128], b)) s0) (\<lambda>(v6, s4).
                   Inr (v6, i2, s4)))
             else Inr (v, i2, s0)) =
          Inr (v @ (if q mod 128 = 0 then [] else sub_group i2 (blocks s) (q div 128) (q mod 128)), i2, s0)" for v
      proof (cases "q mod 128 = 0")
        case False
        have lt: "q div 128 < 128" using False q by (cases "q = 16384") (auto simp: div_less_128)
        have "q div 128 < (q + 127) div 128" using ceil128_pos[OF False] by simp
        note m = modify_same[OF sub[OF this]]
        have "blocks s0 = blocks s" by (simp add: s0_def)
        then show ?thesis
          using False lt by (simp add: get_u32_def sub_group_def m)
      qed simp
      have ul: "unlock_block (unat (indirect2 ino)) (put_block (unat (indirect2 ino)) i2 s0) = s"
        using nh2 by (simp add: s0_def unlock_block_def i2_def put_block_def)
      have "with_block (unat (indirect2 ino)) (\<lambda>i2 s2.
                     bind_res (collect_full (take (q div 128) [0..<128]) i2 (v3 @ [indirect2 ino]) s2) (\<lambda>(v5, s3).
                       if 0 < q mod 128 then
                         bind_res (get_u32 (q div 128) i2) (\<lambda>e.
                           bind_res (modify_block (unat e) (\<lambda>b.
                             Inr ((v5 @ [e]) @ map (\<lambda>j. u32_at j b) [0..<q mod 128], b)) s3) (\<lambda>(v6, s4).
                             Inr (v6, i2, s4)))
                       else Inr (v5, i2, s3))) s =
            Inr (v3 @ level2 ino (blocks s) n, s)"
        unfolding with_block_free[OF nh2] i2_def[symmetric] s0_def[symmetric] tk2 cf bind_res_Inr prod.case last
        unfolding l2 listing_split[of i2 "blocks s" q] ul by simp
      moreover have i1: "indirect1 (ino\<lparr>fsize := 0, direct := d\<rparr>) = ?i1"
        and i2f: "indirect2 (ino\<lparr>fsize := 0, direct := d, indirect1 := x\<rparr>) = indirect2 ino"
        and dd: "direct (ino\<lparr>fsize := 0\<rparr>) = direct ino" for d x by simp_all
      have over: "\<not> n - 28 \<le> 128" and dq: "n - 28 - 128 = q" using False2 by (auto simp: q_def)
      ultimately have "clear_size ino s = Inr (v3 @ level2 ino (blocks s) n, ino2\<lparr>indirect1 := 0, indirect2 := 0\<rparr>, s)"
        unfolding clear_size_def Let_def
        by (simp only: layout_vals n_def[symmetric] False over if_False i1 i2f dd bind_res_Inr prod.case
            modify_same[OF nh1] v3_def[symmetric] dq q assert_res_simps ino2_def)
      then show ?thesis using ok2 lt by (simp add: n_def[symmetric] whole ino2_def inode_ok_def)
    qed
  qed
qed

end
