(* ===== verification/Inode_Data.thy ===== *)
theory Inode_Data
  imports Inode_Blocks "HOL-Library.Multiset"
begin

text \<open>
  The content of a file: \<open>file_bytes ino B\<close> is the sequence of its bytes, found through
  \<open>get_block_id\<close>. Reading returns a range of it, writing replaces a range of it and touches
  no block but the data blocks of the file, growing keeps it.
\<close>

section \<open>Data blocks and index blocks\<close>

definition data_id :: "disk_inode \<Rightarrow> (nat \<Rightarrow> block) \<Rightarrow> nat \<Rightarrow> u32" where
  "data_id ino B j =
     (if j < 28 then direct ino ! j
      else if j < 156 then u32_at (j - 28) (B (unat (indirect1 ino)))
      else entry (B (unat (indirect2 ino))) B (j - 156))"

definition index_list :: "disk_inode \<Rightarrow> (nat \<Rightarrow> block) \<Rightarrow> nat \<Rightarrow> u32 list" where
  "index_list ino B n =
     (if 28 < n then [indirect1 ino] else []) @
     (if 156 < n then indirect2 ino # subs (B (unat (indirect2 ino))) (n - 156) else [])"

lemma set_index_list: "set (index_list ino B n) = index_blocks ino B n"
  by (auto simp: index_list_def index_blocks_def)

lemma mset_listing: "mset (listing i2 B n) = mset (map (entry i2 B) [0..<n]) + mset (subs i2 n)"
proof (induction n)
  case (Suc n)
  then show ?case by (auto simp: listing_Suc subs_Suc piece_def)
qed (simp add: subs_def)

lemma data_ids_split:
  assumes "inode_ok ino"
  shows "map (data_id ino B) [0..<n] = take n (direct ino) @
     map (\<lambda>j. u32_at j (B (unat (indirect1 ino)))) [0..<min (n - 28) 128] @
     map (entry (B (unat (indirect2 ino))) B) [0..<n - 156]"
  by (rule nth_equalityI)
    (use assms in \<open>auto simp: inode_ok_def data_id_def nth_append min_def\<close>)

lemma mset_all_blocks:
  "inode_ok ino \<Longrightarrow>
     mset (all_blocks ino B n) = mset (map (data_id ino B) [0..<n] @ index_list ino B n)"
  by (simp add: data_ids_split all_blocks_def level1_def level2_def index_list_def mset_listing
      del: mset_map)

lemma distinct_data_index:
  "inode_ok ino \<Longrightarrow> distinct (all_blocks ino B n) \<Longrightarrow>
     distinct (map (data_id ino B) [0..<n] @ index_list ino B n)"
  using mset_eq_imp_distinct_iff[OF mset_all_blocks] by blast

lemma set_all_blocks:
  "inode_ok ino \<Longrightarrow> set (all_blocks ino B n) = data_id ino B ` {..<n} \<union> index_blocks ino B n"
  using arg_cong[OF mset_all_blocks, of ino set_mset B n] by (auto simp: set_index_list)

text \<open>Only the index blocks matter for where the data is.\<close>

lemma listing_frame:
  assumes "\<And>e. e \<in> set (subs i2 n) \<Longrightarrow> B' (unat e) = B (unat e)"
  shows "listing i2 B' n = listing i2 B n"
proof (rule listing_cong)
  show "entry i2 B' j = entry i2 B j" if "j < n" for j
    using assms[OF sub_mem[OF that]] by (simp add: entry_def)
qed simp

lemma blocks_frame:
  assumes agree: "\<And>e. e \<in> index_blocks ino B n \<Longrightarrow> B' (unat e) = B (unat e)"
  shows "all_blocks ino B' n = all_blocks ino B n"
    and "j < n \<Longrightarrow> data_id ino B' j = data_id ino B j"
    and "index_list ino B' n = index_list ino B n"
proof -
  have i1: "28 < n \<Longrightarrow> B' (unat (indirect1 ino)) = B (unat (indirect1 ino))"
    and i2: "156 < n \<Longrightarrow> B' (unat (indirect2 ino)) = B (unat (indirect2 ino))"
    and sb: "156 < n \<Longrightarrow> e \<in> set (subs (B (unat (indirect2 ino))) (n - 156)) \<Longrightarrow> B' (unat e) = B (unat e)" for e
    by (rule agree; simp add: index_blocks_def)+
  show "all_blocks ino B' n = all_blocks ino B n"
    unfolding all_blocks_def level1_def level2_def
    using i1 i2 listing_frame[of "B (unat (indirect2 ino))" "n - 156" B' B] sb by simp
  show "index_list ino B' n = index_list ino B n"
    unfolding index_list_def using i2 by simp
  assume j: "j < n"
  show "data_id ino B' j = data_id ino B j"
  proof (cases "j < 156")
    case False
    then have "u32_at ((j - 156) div 128) (B (unat (indirect2 ino))) \<in> set (subs (B (unat (indirect2 ino))) (n - 156))"
      using j by (intro sub_mem) simp
    then show ?thesis using False j i2 sb by (simp add: data_id_def entry_def)
  qed (use i1 j in \<open>simp add: data_id_def\<close>)
qed

section \<open>Well-formed inodes\<close>

definition inode_wf :: "disk_inode \<Rightarrow> store \<Rightarrow> bool" where
  "inode_wf ino s \<longleftrightarrow>
     inode_ok ino \<and> store_ok s \<and> data_blocks ino \<le> max_blocks \<and>
     distinct (all_blocks ino (blocks s) (data_blocks ino)) \<and>
     (\<forall>e \<in> set (all_blocks ino (blocks s) (data_blocks ino)). unat e \<notin> held s)"

lemma inode_wfD:
  assumes "inode_wf ino s"
  shows "inode_ok ino" "store_ok s" "data_blocks ino \<le> max_blocks"
    and "distinct (all_blocks ino (blocks s) (data_blocks ino))"
    and "\<And>e. e \<in> set (all_blocks ino (blocks s) (data_blocks ino)) \<Longrightarrow> unat e \<notin> held s"
  using assms by (auto simp: inode_wf_def)

lemma inode_wf_free:
  assumes "inode_wf ino s"
  shows "e \<in> index_blocks ino (blocks s) (data_blocks ino) \<Longrightarrow> unat e \<notin> held s"
    and "j < data_blocks ino \<Longrightarrow> unat (data_id ino (blocks s) j) \<notin> held s"
  using inode_wfD(5)[OF assms] unfolding set_all_blocks[OF inode_wfD(1)[OF assms]] by auto

lemma get_block_id_eq:
  assumes wf: "inode_wf ino s" and j: "j < data_blocks ino"
  shows "get_block_id j ino s = Inr (data_id ino (blocks s) j)"
proof -
  let ?n = "data_blocks ino"
  have free: "e \<in> index_blocks ino (blocks s) ?n \<Longrightarrow> unat e \<notin> held s" for e
    using inode_wf_free(1)[OF wf] .
  consider "j < 28" | "28 \<le> j" "j < 156" | "156 \<le> j" by linarith
  then show ?thesis
  proof cases
    case 1
    then show ?thesis using inode_wfD(1)[OF wf] by (simp add: get_block_id_def data_id_def inode_ok_def)
  next
    case 2
    have "unat (indirect1 ino) \<notin> held s" using 2 j by (intro free) (simp add: index_blocks_def)
    then show ?thesis using 2 by (simp add: get_block_id_def data_id_def get_u32_def)
  next
    case 3
    let ?i2 = "blocks s (unat (indirect2 ino))"
    have k: "(j - 156) div 128 < 128"
      using inode_wfD(3)[OF wf] j by (intro div_less_128) (simp add: max_blocks_def)
    have "unat (indirect2 ino) \<notin> held s" using 3 j by (intro free) (simp add: index_blocks_def)
    moreover have "unat (u32_at ((j - 156) div 128) ?i2) \<notin> held s"
    proof (rule free)
      have "u32_at ((j - 156) div 128) ?i2 \<in> set (subs ?i2 (?n - 156))"
        using 3 j by (intro sub_mem) simp
      then show "u32_at ((j - 156) div 128) ?i2 \<in> index_blocks ino (blocks s) ?n"
        using 3 j by (simp add: index_blocks_def)
    qed
    ultimately show ?thesis using 3 k by (simp add: get_block_id_def data_id_def get_u32_def entry_def Let_def)
  qed
qed

lemma data_id_inj:
  assumes "inode_wf ino s" "i < data_blocks ino" "j < data_blocks ino"
    "data_id ino (blocks s) i = data_id ino (blocks s) j"
  shows "i = j"
proof -
  have "distinct (map (data_id ino (blocks s)) [0..<data_blocks ino])"
    using distinct_data_index[OF inode_wfD(1,4)[OF assms(1)]] by simp
  then show ?thesis using assms by (auto simp: distinct_map inj_on_def)
qed

lemma data_id_not_index:
  assumes "inode_wf ino s" "j < data_blocks ino"
  shows "data_id ino (blocks s) j \<notin> index_blocks ino (blocks s) (data_blocks ino)"
  using distinct_data_index[OF inode_wfD(1,4)[OF assms(1)]] assms(2)
  unfolding set_index_list[symmetric] distinct_append by force

lemma blocks_put_data:
  assumes wf: "inode_wf ino s" and j: "j < data_blocks ino" and b: "length b = 512"
  defines "s' \<equiv> put_block (unat (data_id ino (blocks s) j)) b s"
  shows "inode_wf ino s'"
    and "k < data_blocks ino \<Longrightarrow> data_id ino (blocks s') k = data_id ino (blocks s) k"
    and "all_blocks ino (blocks s') (data_blocks ino) = all_blocks ino (blocks s) (data_blocks ino)"
proof -
  have agree: "blocks s' (unat e) = blocks s (unat e)"
    if "e \<in> index_blocks ino (blocks s) (data_blocks ino)" for e
    using data_id_not_index[OF wf j] that by (auto simp: s'_def word_unat_eq_iff[symmetric])
  note fr = blocks_frame[where B' = "blocks s'", OF agree]
  show "all_blocks ino (blocks s') (data_blocks ino) = all_blocks ino (blocks s) (data_blocks ino)"
    by (rule fr(1))
  then show "inode_wf ino s'" using wf b by (simp add: inode_wf_def s'_def)
  show "data_id ino (blocks s') k = data_id ino (blocks s) k" if k: "k < data_blocks ino"
    using fr(2)[where j = k, OF _ k] by simp
qed

section \<open>The bytes of a file\<close>

definition byte_at :: "disk_inode \<Rightarrow> (nat \<Rightarrow> block) \<Rightarrow> nat \<Rightarrow> u8" where
  "byte_at ino B k = B (unat (data_id ino B (k div 512))) ! (k mod 512)"

definition file_bytes :: "disk_inode \<Rightarrow> store \<Rightarrow> u8 list" where
  "file_bytes ino s = map (byte_at ino (blocks s)) [0..<unat (fsize ino)]"

lemma length_file_bytes [simp]: "length (file_bytes ino s) = unat (fsize ino)"
  by (simp add: file_bytes_def)

lemma nth_file_bytes [simp]: "k < unat (fsize ino) \<Longrightarrow> file_bytes ino s ! k = byte_at ino (blocks s) k"
  by (simp add: file_bytes_def)

lemma le_div_ceil: "m \<le> 512 * div_ceil m 512"
proof (cases "m mod 512 = 0")
  case True
  then have "512 * (m div 512) = m" by (metis add.right_neutral mult_div_mod_eq)
  then show ?thesis by (simp add: div_ceil_def True)
next
  case False
  have "m < 512 * (m div 512) + 512"
    using mult_div_mod_eq[of 512 m] mod_less_divisor[of 512 m] by linarith
  then show ?thesis by (simp add: div_ceil_def False)
qed

lemma div_ceil_mono: "m \<le> n \<Longrightarrow> div_ceil m 512 \<le> div_ceil n 512"
proof -
  assume le: "m \<le> n"
  have "n \<le> 512 * div_ceil n 512" by (rule le_div_ceil)
  moreover have "512 * div_ceil m 512 < m + 512"
  proof (cases "m mod 512 = 0")
    case True
    then have "512 * (m div 512) = m" by (metis add.right_neutral mult_div_mod_eq)
    then show ?thesis by (simp add: div_ceil_def True)
  next
    case False
    then have "512 * (m div 512) < m" using mult_div_mod_eq[of 512 m] by linarith
    then show ?thesis using False by (simp add: div_ceil_def)
  qed
  ultimately have "512 * div_ceil m 512 < 512 * div_ceil n 512 + 512" using le by linarith
  then show ?thesis by linarith
qed

lemma div_data_blocks: "k < unat (fsize ino) \<Longrightarrow> k div 512 < data_blocks ino"
  using le_div_ceil[of "unat (fsize ino)"]
  by (simp add: data_blocks_def data_blocks_of_def div_less_iff_less_mult)

lemma block_end_facts:
  assumes "start < fin"
  defines "e \<equiv> block_end start fin"
  shows "start < e" "e \<le> fin" "e - start \<le> 512 - start mod 512"
    and "e \<noteq> fin \<Longrightarrow> e div 512 = start div 512 + 1"
    and "\<And>k. start \<le> k \<Longrightarrow> k < e \<Longrightarrow> k div 512 = start div 512"
    and "\<And>k. start \<le> k \<Longrightarrow> k < e \<Longrightarrow> k mod 512 = start mod 512 + (k - start)"
proof -
  have s: "start = 512 * (start div 512) + start mod 512" by simp
  have m: "start mod 512 < 512" by simp
  have e: "e = min (512 * (start div 512) + 512) fin" by (simp add: e_def block_end_def)
  show "start < e" "e \<le> fin" "e - start \<le> 512 - start mod 512"
    using assms(1) s m unfolding e by linarith+
  show "e div 512 = start div 512 + 1" if "e \<noteq> fin"
  proof -
    have "e = 512 * (start div 512 + 1)" using that unfolding e by (simp add: min_def split: if_splits)
    then show ?thesis by simp
  qed
  fix k assume k: "start \<le> k" "k < e"
  have "k = 512 * (start div 512) + (start mod 512 + (k - start))" "start mod 512 + (k - start) < 512"
    using k s m unfolding e by linarith+
  then show "k div 512 = start div 512" "k mod 512 = start mod 512 + (k - start)"
    by (metis div_mult_self4 div_less add_0_right zero_neq_numeral mod_mult_self4 mod_less)+
qed

lemma overwrite_overwrite:
  "rs + length xs + length ys \<le> length buf \<Longrightarrow>
     overwrite (rs + length xs) ys (overwrite rs xs buf) = overwrite rs (xs @ ys) buf"
  by (simp add: overwrite_def ac_simps)

lemma slice_block:
  assumes "inode_wf ino s" "start < fin" "fin \<le> unat (fsize ino)"
  defines "e \<equiv> block_end start fin"
  shows "slice (start mod 512) (e - start) (blocks s (unat (data_id ino (blocks s) (start div 512)))) =
           slice start (e - start) (file_bytes ino s)"
proof -
  note be = block_end_facts[OF assms(2), folded e_def]
  have len: "length (blocks s i) = 512" for i using inode_wfD(2)[OF assms(1)] by (rule store_okD)
  have m: "start mod 512 + (e - start) \<le> 512" using be(3) mod_less_divisor[of 512 start] by linarith
  show ?thesis
  proof (rule nth_equalityI)
    show "length (slice (start mod 512) (e - start) (blocks s (unat (data_id ino (blocks s) (start div 512))))) =
        length (slice start (e - start) (file_bytes ino s))"
      using be(1,2) m assms(3) len by simp
    fix i assume "i < length (slice (start mod 512) (e - start) (blocks s (unat (data_id ino (blocks s) (start div 512)))))"
    then have i: "i < e - start" using m len by simp
    have "(start + i) div 512 = start div 512" "(start + i) mod 512 = start mod 512 + i"
      using be(5)[of "start + i"] be(6)[of "start + i"] i by auto
    then show "slice (start mod 512) (e - start) (blocks s (unat (data_id ino (blocks s) (start div 512)))) ! i =
        slice start (e - start) (file_bytes ino s) ! i"
      using i m len be(1,2) assms(3) by (simp add: nth_slice byte_at_def)
  qed
qed

lemma read_step:
  assumes wf: "inode_wf ino s" and se: "start < fin" "fin \<le> unat (fsize ino)"
    and len: "rs + (fin - start) \<le> length buf"
  defines "e \<equiv> block_end start fin"
  defines "buf' \<equiv> overwrite rs (slice start (e - start) (file_bytes ino s)) buf"
  shows "read_loop start fin (start div 512) rs buf ino s =
     (if e = fin then Inr (rs + (e - start), buf')
      else read_loop e fin (e div 512) (rs + (e - start)) buf' ino s)"
proof -
  note be = block_end_facts[OF se(1), folded e_def]
  have j: "start div 512 < data_blocks ino" using se by (intro div_data_blocks) simp
  have l: "length (blocks s i) = 512" for i using inode_wfD(2)[OF wf] by (rule store_okD)
  have m: "start mod 512 + (e - start) \<le> 512" using be(3) mod_less_divisor[of 512 start] by linarith
  have "sub_slice (start mod 512) (e - start) (blocks s (unat (data_id ino (blocks s) (start div 512)))) =
      Inr (slice start (e - start) (file_bytes ino s))"
    using m l slice_block[OF wf se] by (simp add: sub_slice_def e_def)
  moreover have "write_slice rs (slice start (e - start) (file_bytes ino s)) buf = Inr buf'"
    using be(1,2) len se by (simp add: write_slice_def buf'_def)
  ultimately show ?thesis
    using be(4) inode_wf_free(2)[OF wf j]
    by (subst read_loop.simps) (simp add: e_def[symmetric] get_block_id_eq[OF wf j] Let_def)
qed

lemma read_loop_eq:
  "inode_wf ino s \<Longrightarrow> start < fin \<Longrightarrow> fin \<le> unat (fsize ino) \<Longrightarrow> rs + (fin - start) \<le> length buf \<Longrightarrow>
     read_loop start fin (start div 512) rs buf ino s =
       Inr (rs + (fin - start), overwrite rs (slice start (fin - start) (file_bytes ino s)) buf)"
proof (induction "fin - start" arbitrary: start rs buf rule: less_induct)
  case less
  define e where "e = block_end start fin"
  define buf' where "buf' = overwrite rs (slice start (e - start) (file_bytes ino s)) buf"
  note be = block_end_facts[OF less.prems(2), folded e_def]
  note step = read_step[OF less.prems, folded e_def buf'_def[unfolded e_def[symmetric]], folded buf'_def]
  show ?case
  proof (cases "e = fin")
    case True
    then show ?thesis using step by (simp add: buf'_def)
  next
    case False
    have sl: "length (slice start (e - start) (file_bytes ino s)) = e - start"
      using be(1,2) less.prems(3) by simp
    have "length buf' = length buf" using be(1,2) less.prems sl by (simp add: buf'_def)
    then have "read_loop e fin (e div 512) (rs + (e - start)) buf' ino s =
        Inr (rs + (e - start) + (fin - e),
             overwrite (rs + (e - start)) (slice e (fin - e) (file_bytes ino s)) buf')"
      using be(1,2) False less.prems(3,4)
      by (intro less.hyps[OF _ less.prems(1)]) linarith+
    moreover have "overwrite (rs + (e - start)) (slice e (fin - e) (file_bytes ino s)) buf' =
        overwrite rs (slice start (fin - start) (file_bytes ino s)) buf"
    proof -
      have "slice start ((e - start) + (fin - e)) (file_bytes ino s) =
          slice start (e - start) (file_bytes ino s) @ slice (start + (e - start)) (fin - e) (file_bytes ino s)"
        using be(1,2) less.prems by (intro slice_append_split) simp
      moreover have "start + (e - start) = e" "(e - start) + (fin - e) = fin - start" using be(1,2) by auto
      ultimately show ?thesis
        using overwrite_overwrite[of rs "slice start (e - start) (file_bytes ino s)"
            "slice e (fin - e) (file_bytes ino s)" buf] sl be(1,2) less.prems
        by (simp add: buf'_def)
    qed
    ultimately show ?thesis using step False be(1,2) by simp
  qed
qed

lemma min_minus_le: "min (a + b) c - a \<le> (b :: nat)"
  by simp

lemma read_at_eq:
  assumes "inode_wf ino s" "off + length buf < 2 ^ 64"
  defines "n \<equiv> min (off + length buf) (unat (fsize ino)) - off"
  shows "read_at off buf ino s = Inr (n, overwrite 0 (slice off n (file_bytes ino s)) buf)"
proof (cases "n = 0")
  case True
  then show ?thesis using assms by (simp add: read_at_def usize_add_def n_def)
next
  case False
  then have "buf \<noteq> []" by (auto simp: n_def)
  with False show ?thesis
    using assms(2) read_loop_eq[OF assms(1), of off "min (off + length buf) (unat (fsize ino))" 0 buf]
      min_minus_le[of off "length buf" "unat (fsize ino)"]
    unfolding n_def by (simp add: read_at_def usize_add_def Let_def)
qed

section \<open>Writing\<close>

text \<open>\<open>s'\<close> is \<open>s\<close> with the bytes \<open>lo\<close> to \<open>hi - 1\<close> of the file replaced by \<open>f\<close>.\<close>

definition written :: "disk_inode \<Rightarrow> nat \<Rightarrow> nat \<Rightarrow> (nat \<Rightarrow> u8) \<Rightarrow> store \<Rightarrow> store \<Rightarrow> bool" where
  "written ino lo hi f s s' \<longleftrightarrow>
     inode_wf ino s' \<and> held s' = held s \<and>
     (\<forall>j < data_blocks ino. data_id ino (blocks s') j = data_id ino (blocks s) j) \<and>
     all_blocks ino (blocks s') (data_blocks ino) = all_blocks ino (blocks s) (data_blocks ino) \<and>
     (\<forall>k. k div 512 < data_blocks ino \<longrightarrow>
        byte_at ino (blocks s') k = (if lo \<le> k \<and> k < hi then f k else byte_at ino (blocks s) k)) \<and>
     (\<forall>i. i \<notin> unat ` data_id ino (blocks s) ` {..<data_blocks ino} \<longrightarrow> blocks s' i = blocks s i)"

lemma written_trans:
  assumes "written ino lo mid f s s1" "written ino mid hi f s1 s2" "lo \<le> mid" "mid \<le> hi"
  shows "written ino lo hi f s s2"
proof -
  have im: "data_id ino (blocks s1) ` {..<data_blocks ino} = data_id ino (blocks s) ` {..<data_blocks ino}"
    using assms(1) by (intro image_cong) (auto simp: written_def)
  show ?thesis
    using assms unfolding written_def im by auto
qed

lemma write_step:
  assumes wf: "inode_wf ino s" and se: "start < fin" "fin \<le> unat (fsize ino)"
    and len: "ws + (fin - start) \<le> length buf"
  defines "e \<equiv> block_end start fin"
  shows "\<exists>s1. write_loop start fin (start div 512) ws buf ino s =
     (if e = fin then Inr (ws + (e - start), s1)
      else write_loop e fin (e div 512) (ws + (e - start)) buf ino s1) \<and>
     written ino start e (\<lambda>k. buf ! (ws + (k - start))) s s1"
proof -
  define j where "j = start div 512"
  define i where "i = unat (data_id ino (blocks s) j)"
  define x where "x = slice ws (e - start) buf"
  define b where "b = overwrite (start mod 512) x (blocks s i)"
  define s1 where "s1 = put_block i b s"
  note be = block_end_facts[OF se(1), folded e_def]
  have j: "j < data_blocks ino" using se unfolding j_def by (intro div_data_blocks) simp
  have l: "length (blocks s i) = 512" for i using inode_wfD(2)[OF wf] by (rule store_okD)
  have m: "start mod 512 + (e - start) \<le> 512" using be(3) mod_less_divisor[of 512 start] by linarith
  have lx: "length x = e - start" using be(1,2) len by (simp add: x_def)
  have b: "length b = 512" using m l lx by (simp add: b_def)
  have "sub_slice ws (e - start) buf = Inr x"
    using be(1,2) len by (simp add: sub_slice_def x_def)
  moreover have "write_slice (start mod 512) x (blocks s i) = Inr b"
    using m l lx by (simp add: write_slice_def b_def)
  ultimately have eq: "write_loop start fin (start div 512) ws buf ino s =
     (if e = fin then Inr (ws + (e - start), s1)
      else write_loop e fin (e div 512) (ws + (e - start)) buf ino s1)"
    using be(4) inode_wf_free(2)[OF wf j]
    by (subst write_loop.simps)
      (simp add: e_def[symmetric] get_block_id_eq[OF wf j] j_def[symmetric] i_def[symmetric] Let_def
        modify_block_free s1_def)
  note put = blocks_put_data[OF wf j b, folded i_def s1_def]
  have bytes: "byte_at ino (blocks s1) k =
      (if start \<le> k \<and> k < e then buf ! (ws + (k - start)) else byte_at ino (blocks s) k)"
    if k: "k div 512 < data_blocks ino" for k
  proof (cases "k div 512 = j")
    case False
    then have "unat (data_id ino (blocks s) (k div 512)) \<noteq> i"
      using data_id_inj[OF wf k j] by (auto simp: i_def word_unat_eq_iff[symmetric])
    moreover have "\<not> (start \<le> k \<and> k < e)" using False be(5) by (auto simp: j_def)
    ultimately show ?thesis using put(2)[OF k] by (auto simp: byte_at_def s1_def)
  next
    case True
    have "b ! (k mod 512) = (if start mod 512 \<le> k mod 512 \<and> k mod 512 < start mod 512 + (e - start)
        then x ! (k mod 512 - start mod 512) else blocks s i ! (k mod 512))"
      unfolding b_def using m l lx by (subst nth_overwrite) simp_all
    moreover have kk: "k = 512 * j + k mod 512" "start = 512 * j + start mod 512"
      using True mult_div_mod_eq[of 512 k] mult_div_mod_eq[of 512 start] by (simp_all add: j_def)
    have "start mod 512 \<le> k mod 512 \<and> k mod 512 < start mod 512 + (e - start) \<longleftrightarrow> start \<le> k \<and> k < e"
      using kk be(1) by linarith
    moreover have "x ! (k mod 512 - start mod 512) = buf ! (ws + (k - start))" if "start \<le> k" "k < e"
    proof -
      have "k mod 512 - start mod 512 = k - start" using kk that by linarith
      then show ?thesis using that lx be(1,2) len by (simp add: x_def nth_slice)
    qed
    ultimately show ?thesis
      using put(2)[OF k] True by (simp add: byte_at_def s1_def i_def[symmetric])
  qed
  have "written ino start e (\<lambda>k. buf ! (ws + (k - start))) s s1"
    unfolding written_def using put bytes j by (auto simp: s1_def i_def)
  with eq show ?thesis by blast
qed

lemma write_loop_eq:
  "inode_wf ino s \<Longrightarrow> start < fin \<Longrightarrow> fin \<le> unat (fsize ino) \<Longrightarrow> ws + (fin - start) \<le> length buf \<Longrightarrow>
     \<exists>s'. write_loop start fin (start div 512) ws buf ino s = Inr (ws + (fin - start), s') \<and>
       written ino start fin (\<lambda>k. buf ! (ws + (k - start))) s s'"
proof (induction "fin - start" arbitrary: start ws s rule: less_induct)
  case less
  define e where "e = block_end start fin"
  note be = block_end_facts[OF less.prems(2), folded e_def]
  obtain s1 where s1: "write_loop start fin (start div 512) ws buf ino s =
     (if e = fin then Inr (ws + (e - start), s1)
      else write_loop e fin (e div 512) (ws + (e - start)) buf ino s1)"
     "written ino start e (\<lambda>k. buf ! (ws + (k - start))) s s1"
    using write_step[OF less.prems, folded e_def] by blast
  show ?case
  proof (cases "e = fin")
    case True
    then show ?thesis using s1 by auto
  next
    case False
    have "inode_wf ino s1" using s1(2) by (simp add: written_def)
    then have "\<exists>s'. write_loop e fin (e div 512) (ws + (e - start)) buf ino s1 =
          Inr (ws + (e - start) + (fin - e), s') \<and>
        written ino e fin (\<lambda>k. buf ! (ws + (e - start) + (k - e))) s1 s'"
      using be(1,2) False less.prems(3,4) by (intro less.hyps) linarith+
    then obtain s' where s': "write_loop e fin (e div 512) (ws + (e - start)) buf ino s1 =
          Inr (ws + (e - start) + (fin - e), s')"
        "written ino e fin (\<lambda>k. buf ! (ws + (e - start) + (k - e))) s1 s'" by blast
    have "ws + (e - start) + (k - e) = ws + (k - start)" if "e \<le> k" for k
      using that be(1) by linarith
    then have "written ino e fin (\<lambda>k. buf ! (ws + (k - start))) s1 s'"
      using s'(2) by (simp add: written_def cong: if_cong conj_cong)
    from written_trans[OF s1(2) this] show ?thesis
      using s1(1) s'(1) False be(1,2) by auto
  qed
qed

lemma file_bytes_written:
  assumes "written ino off (off + n) (\<lambda>k. buf ! (k - off)) s s'"
    and "off + n \<le> unat (fsize ino)" "n \<le> length buf"
  shows "file_bytes ino s' = overwrite off (take n buf) (file_bytes ino s)"
proof (rule nth_equalityI)
  show "length (file_bytes ino s') = length (overwrite off (take n buf) (file_bytes ino s))"
    using assms by simp
  fix k assume "k < length (file_bytes ino s')"
  then have k: "k < unat (fsize ino)" by simp
  then show "file_bytes ino s' ! k = overwrite off (take n buf) (file_bytes ino s) ! k"
    using assms div_data_blocks[OF k] by (auto simp: nth_overwrite written_def)
qed

lemma write_at_eq:
  assumes "inode_wf ino s" "off + length buf < 2 ^ 64" "off < unat (fsize ino)" "buf \<noteq> []"
  defines "n \<equiv> min (off + length buf) (unat (fsize ino)) - off"
  shows "\<exists>s'. write_at off buf ino s = Inr (n, s') \<and>
           file_bytes ino s' = overwrite off (take n buf) (file_bytes ino s) \<and>
           written ino off (off + n) (\<lambda>k. buf ! (k - off)) s s'"
proof -
  let ?fin = "min (off + length buf) (unat (fsize ino))"
  have le: "off < ?fin" "?fin \<le> unat (fsize ino)" "0 + (?fin - off) \<le> length buf" "off + n = ?fin"
    using assms(3,4) by (auto simp: n_def)
  obtain s' where s': "write_loop off ?fin (off div 512) 0 buf ino s = Inr (n, s')"
      "written ino off (off + n) (\<lambda>k. buf ! (k - off)) s s'"
    using write_loop_eq[OF assms(1) le(1-3)] le(4) unfolding n_def by auto
  have "write_at off buf ino s = Inr (n, s')"
    using s'(1) assms(2) less_imp_le[OF le(1)]
    by (simp add: write_at_def usize_add_def Let_def del: min_less_iff_conj min.bounded_iff)
  then show ?thesis using s'(2) file_bytes_written[OF s'(2)] le n_def by auto
qed

text \<open>A write that returns has moved exactly the bytes up to its end; an empty one changes nothing.\<close>

lemma write_loop_count:
  "write_loop start fin sb ws buf ino s = Inr (n, s') \<Longrightarrow> start \<le> fin \<Longrightarrow> n = ws + (fin - start)"
proof (induction start fin sb ws buf ino s arbitrary: n s' rule: write_loop.induct)
  case (1 start fin sb ws buf ino s)
  let ?e = "block_end start fin"
  have e: "start \<le> ?e" "?e \<le> fin" using 1(3) by (auto simp: block_end_def intro: less_imp_le[OF dividend_less_div_times])
  note run = trans[OF write_loop.simps[symmetric] 1(2), unfolded Let_def]
  obtain i s1 where r: "get_block_id sb ino s = Inr i"
      "modify_block (unat i) (\<lambda>b. bind_res (sub_slice ws (?e - start) buf) (\<lambda>src.
               bind_res (write_slice (start mod block_sz) src b) (\<lambda>b'. Inr ((), b')))) s = Inr ((), s1)"
      "(if ?e = fin then Inr (ws + (?e - start), s1)
        else write_loop ?e fin (sb + 1) (ws + (?e - start)) buf ino s1) = Inr (n, s')"
    using run by (auto simp: bind_res_eq_Inr)
  show ?case
  proof (cases "?e = fin")
    case True
    with r(3) show ?thesis by simp
  next
    case False
    with r(3) have "write_loop ?e fin (sb + 1) (ws + (?e - start)) buf ino s1 = Inr (n, s')" by simp
    from 1(1)[OF refl refl r(1,2) refl False this e(2)] show ?thesis using e by simp
  qed
qed

lemma write_at_count:
  assumes "write_at off buf ino s = Inr (length buf, s')"
  shows "off + length buf \<le> unat (fsize ino)"
proof -
  let ?fin = "min (off + length buf) (unat (fsize ino))"
  have r: "off \<le> ?fin" "write_loop off ?fin (off div block_sz) 0 buf ino s = Inr (length buf, s')"
    using assms by (auto simp: write_at_def usize_add_def bind_res_eq_Inr Let_def split: if_splits)
  then have "length buf = ?fin - off" using write_loop_count[OF r(2,1)] by simp
  then have "off + length buf = ?fin" using r(1) by simp
  also have "?fin \<le> unat (fsize ino)" by simp
  finally show ?thesis .
qed

lemma write_nothing:
  assumes run: "write_at off [] ino s = Inr (n, s')"
  shows "n = 0" and "store_ok s \<Longrightarrow> s' = s"
proof -
  let ?fin = "min off (unat (fsize ino))"
  have r: "off \<le> ?fin" "write_loop off ?fin (off div block_sz) 0 [] ino s = Inr (n, s')"
    using run by (auto simp: write_at_def usize_add_def bind_res_eq_Inr Let_def split: if_splits)
  then have fin: "?fin = off" by simp
  have e: "block_end off off = off" by (simp add: block_end_def)
  have "\<exists>i :: u32. modify_block (unat i) (\<lambda>b. bind_res (sub_slice 0 0 []) (\<lambda>src.
       bind_res (write_slice (off mod block_sz) src b) (\<lambda>b'. Inr ((), b')))) s = Inr ((), s') \<and> n = 0"
    using trans[OF write_loop.simps[symmetric] r(2)[unfolded fin]] by (auto simp: Let_def e bind_res_eq_Inr)
  then obtain i :: u32 where i: "modify_block (unat i) (\<lambda>b. bind_res (sub_slice 0 0 []) (\<lambda>src.
       bind_res (write_slice (off mod block_sz) src b) (\<lambda>b'. Inr ((), b')))) s = Inr ((), s')" "n = 0" by blast
  have free: "unat i \<notin> held s"
    using i(1) by (auto simp: modify_block_def with_block_def lock_block_def split: if_splits)
  show "n = 0" by (rule i(2))
  assume "store_ok s"
  then have "write_slice (off mod 512) [] (blocks s (unat i)) = Inr (blocks s (unat i))"
    using store_okD[of s "unat i"] by (simp add: write_slice_def overwrite_def less_imp_le)
  then show "s' = s" using i free by (simp add: modify_block_free sub_slice_def slice_def put_block_def)
qed

section \<open>Growing keeps the data\<close>

definition data_pos :: "nat \<Rightarrow> nat" where
  "data_pos j =
     (if j < 28 then j else if j < 156 then j + 1 else j + 2 + ((j - 156) div 128 + 1))"

lemma nth_listing: "j < n \<Longrightarrow> listing i2 B n ! (j + (j div 128 + 1)) = entry i2 B j"
proof (induction n)
  case (Suc n)
  show ?case
  proof (cases "j < n")
    case True
    then have "j + (j div 128 + 1) < length (listing i2 B n)"
      using div_less_in_upt[OF True] by (simp add: length_listing)
    with True Suc.IH show ?thesis by (simp add: listing_Suc nth_append)
  next
    case False
    then have j: "j = n" using Suc.prems by simp
    show ?thesis
    proof (cases "n mod 128 = 0")
      case True
      with j show ?thesis
        by (simp add: listing_Suc nth_append length_listing ceil128_zero piece_def)
    next
      case False
      with j show ?thesis
        by (simp add: listing_Suc nth_append length_listing ceil128_pos piece_def)
    qed
  qed
qed simp

lemma data_id_nth:
  assumes ok: "inode_ok ino" and j: "j < n"
  shows "data_id ino B j = all_blocks ino B n ! data_pos j"
proof -
  consider "j < 28" | "28 \<le> j" "j < 156" | "156 \<le> j" by linarith
  then show ?thesis
  proof cases
    case 3
    have "listing (B (unat (indirect2 ino))) B (n - 156) ! (j - 156 + ((j - 156) div 128 + 1)) =
        entry (B (unat (indirect2 ino))) B (j - 156)"
      using 3 j by (intro nth_listing) simp
    moreover define pre where "pre = direct ino @ level1 ino B n"
    have "length pre = 157" using 3 j ok by (simp add: pre_def level1_def inode_ok_def min_absorb2)
    then have "data_pos j = length pre + Suc (j - 156 + ((j - 156) div 128 + 1))"
      using 3 by (simp add: data_pos_def)
    moreover have "all_blocks ino B n = pre @ indirect2 ino # listing (B (unat (indirect2 ino))) B (n - 156)"
      using 3 j ok by (simp add: all_blocks_def level2_def pre_def inode_ok_def)
    ultimately show ?thesis
      using 3 by (simp add: data_id_def del: add_Suc_right)
  qed (use ok j in \<open>auto simp: data_id_def data_pos_def all_blocks_def level1_def inode_ok_def nth_append min_def\<close>)
qed

lemma data_pos_bound: "j < n \<Longrightarrow> data_pos j < blocks_upto n"
  unfolding data_pos_def blocks_upto_def
  using div_less_in_upt[of "j - 156" "n - 156"] by auto

lemma increase_size_wf:
  assumes wf: "inode_wf ino s" and sz: "fsize ino \<le> sz" and max: "data_blocks_of sz \<le> max_blocks"
    and len: "total_blocks sz = total_blocks (fsize ino) + length v"
    and dist: "distinct (all_blocks ino (blocks s) (data_blocks ino) @ v)"
    and nh: "\<forall>e \<in> set v. unat e \<notin> held s"
  shows "\<exists>ino' s'. increase_size sz v ino s = Inr (ino', s') \<and> inode_wf ino' s' \<and> held s' = held s \<and>
           fsize ino' = sz \<and> itype ino' = itype ino \<and>
           all_blocks ino' (blocks s') (data_blocks ino') =
             all_blocks ino (blocks s) (data_blocks ino) @ v \<and>
           take (unat (fsize ino)) (file_bytes ino' s') = file_bytes ino s \<and>
           (\<forall>i. i \<notin> unat ` index_blocks ino' (blocks s') (data_blocks ino') \<longrightarrow> blocks s' i = blocks s i)"
proof -
  have le: "data_blocks ino \<le> data_blocks_of sz"
    using sz by (auto simp: data_blocks_def data_blocks_of_def word_le_nat_alt intro: div_ceil_mono)
  obtain ino' s' where r: "increase_size sz v ino s = Inr (ino', s')" "fsize ino' = sz" "itype ino' = itype ino"
      "inode_ok ino'" "store_ok s'" "held s' = held s"
      "all_blocks ino' (blocks s') (data_blocks_of sz) = all_blocks ino (blocks s) (data_blocks ino) @ v"
      "\<And>i. i \<notin> unat ` index_blocks ino' (blocks s') (data_blocks_of sz) \<Longrightarrow> blocks s' i = blocks s i"
    using increase_size_appends[OF inode_wfD(1,2)[OF wf] le max len dist] inode_wfD(5)[OF wf] nh by auto
  have n': "data_blocks ino' = data_blocks_of sz" using r(2) by (simp add: data_blocks_def)
  have wf': "inode_wf ino' s'"
    using r(4,5,6,7) max dist inode_wfD(5)[OF wf] nh by (auto simp: inode_wf_def n')
  have same: "data_id ino' (blocks s') j = data_id ino (blocks s) j"
    and kept: "blocks s' (unat (data_id ino (blocks s) j)) = blocks s (unat (data_id ino (blocks s) j))"
    if j: "j < data_blocks ino" for j
  proof -
    have "data_id ino' (blocks s') j = (all_blocks ino (blocks s) (data_blocks ino) @ v) ! data_pos j"
      using data_id_nth[OF r(4), of j "data_blocks_of sz" "blocks s'"] j le unfolding r(7) by simp
    then show e: "data_id ino' (blocks s') j = data_id ino (blocks s) j"
      using data_id_nth[OF inode_wfD(1)[OF wf] j] data_pos_bound[OF j]
      by (simp add: nth_append length_all_blocks_upto[OF inode_wfD(1)[OF wf]])
    have "j < data_blocks ino'" using j le n' by simp
    from data_id_not_index[OF wf' this] show
      "blocks s' (unat (data_id ino (blocks s) j)) = blocks s (unat (data_id ino (blocks s) j))"
      by (intro r(8)) (simp add: e n' unat_inj_image)
  qed
  have "take (unat (fsize ino)) (file_bytes ino' s') = file_bytes ino s"
  proof (rule nth_equalityI)
    have "unat (fsize ino) \<le> unat sz" using sz by (simp add: word_le_nat_alt)
    then show "length (take (unat (fsize ino)) (file_bytes ino' s')) = length (file_bytes ino s)"
      using r(2) by simp
    fix k assume "k < length (take (unat (fsize ino)) (file_bytes ino' s'))"
    then have k: "k < unat (fsize ino)" "k < unat (fsize ino')" by simp_all
    then show "take (unat (fsize ino)) (file_bytes ino' s') ! k = file_bytes ino s ! k"
      using same[OF div_data_blocks[OF k(1)]] kept[OF div_data_blocks[OF k(1)]]
      by (simp add: byte_at_def)
  qed
  with r wf' show ?thesis unfolding n'[symmetric] by blast
qed

end
