(* ===== verification/Vfs.thy ===== *)
theory Vfs
  imports Efs Inode_Data
begin

text \<open>
  \<open>tg-rcore-tutorial-easy-fs/src/vfs.rs\<close>: files and the directory, through the handle of an
  inode (the block that holds it and its offset there). While an operation works on a disk
  inode the lock of its block is held, as in the source; the operations on the other blocks of
  the file run inside.
\<close>

record vinode =
  block_id :: nat
  block_offset :: nat

definition vinode_new :: "u32 \<Rightarrow> nat \<Rightarrow> vinode" where
  "vinode_new blk off = \<lparr>block_id = unat blk, block_offset = off\<rparr>"

definition root_inode :: "efs \<Rightarrow> vinode res" where
  "root_inode fs = bind_res (get_disk_inode_pos fs 0) (\<lambda>(blk, off). Inr (vinode_new blk off))"

definition read_disk_inode :: "vinode \<Rightarrow> (disk_inode \<Rightarrow> store \<Rightarrow> 'v res) \<Rightarrow> store \<Rightarrow> 'v res" where
  "read_disk_inode vi f s =
     bind_res (lock_block (block_id vi) s) (\<lambda>s1.
       f (decode_inode (block_offset vi) (blocks s1 (block_id vi))) s1)"

definition modify_disk_inode ::
  "vinode \<Rightarrow> (disk_inode \<Rightarrow> store \<Rightarrow> ('v \<times> disk_inode \<times> store) res) \<Rightarrow> store \<Rightarrow> ('v \<times> store) res" where
  "modify_disk_inode vi f =
     with_block (block_id vi) (\<lambda>b s1.
       bind_res (f (decode_inode (block_offset vi) b) s1) (\<lambda>(v, ino, s2).
         Inr (v, encode_inode (block_offset vi) ino b, s2)))"

text \<open>Entry \<open>i\<close> of a directory, read into the buffer of \<open>dirent\<close>.\<close>

definition read_dirent :: "nat \<Rightarrow> dir_entry \<Rightarrow> disk_inode \<Rightarrow> store \<Rightarrow> dir_entry res" where
  "read_dirent i dirent ino s =
     bind_res (read_at (dirent_sz * i) (as_bytes dirent) ino s) (\<lambda>(n, bytes).
       bind_res (assert_res (n = dirent_sz)) (\<lambda>_. Inr (from_bytes bytes)))"

primrec find_loop :: "nat \<Rightarrow> nat \<Rightarrow> dir_entry \<Rightarrow> u8 list \<Rightarrow> disk_inode \<Rightarrow> store \<Rightarrow> u32 option res" where
  "find_loop 0 i dirent name ino s = Inr None"
| "find_loop (Suc n) i dirent name ino s =
     bind_res (read_dirent i dirent ino s) (\<lambda>d.
       bind_res (dir_entry_name d) (\<lambda>nm.
         if nm = name then Inr (Some (inode_number d))
         else find_loop n (Suc i) d name ino s))"

definition file_count :: "disk_inode \<Rightarrow> nat" where
  "file_count ino = unat (fsize ino) div dirent_sz"

definition find_inode_id :: "u8 list \<Rightarrow> disk_inode \<Rightarrow> store \<Rightarrow> u32 option res" where
  "find_inode_id name ino s =
     bind_res (assert_res (is_dir ino)) (\<lambda>_.
       find_loop (file_count ino) 0 dir_entry_empty name ino s)"

definition vfs_find :: "efs \<Rightarrow> vinode \<Rightarrow> u8 list \<Rightarrow> store \<Rightarrow> vinode option res" where
  "vfs_find fs vi name =
     read_disk_inode vi (\<lambda>ino s.
       bind_res (find_inode_id name ino s) (\<lambda>found.
         case found of
           None \<Rightarrow> Inr None
         | Some inode_id \<Rightarrow>
             bind_res (get_disk_inode_pos fs inode_id) (\<lambda>(blk, off). Inr (Some (vinode_new blk off)))))"

primrec alloc_data_many :: "nat \<Rightarrow> efs \<Rightarrow> store \<Rightarrow> (u32 list \<times> store) res" where
  "alloc_data_many 0 fs s = Inr ([], s)"
| "alloc_data_many (Suc n) fs s =
     bind_res (alloc_data fs s) (\<lambda>(id, s1).
       bind_res (alloc_data_many n fs s1) (\<lambda>(ids, s2). Inr (id # ids, s2)))"

definition vfs_increase_size :: "efs \<Rightarrow> u32 \<Rightarrow> disk_inode \<Rightarrow> store \<Rightarrow> (disk_inode \<times> store) res" where
  "vfs_increase_size fs new_size ino s =
     (if new_size < fsize ino then Inr (ino, s)
      else
        bind_res (blocks_num_needed new_size ino) (\<lambda>blocks_needed.
          bind_res (alloc_data_many blocks_needed fs s) (\<lambda>(v, s1).
            increase_size new_size v ino s1)))"

definition append_dirent :: "efs \<Rightarrow> u8 list \<Rightarrow> u32 \<Rightarrow> disk_inode \<Rightarrow> store \<Rightarrow> (unit \<times> disk_inode \<times> store) res" where
  "append_dirent fs name inode_id ino s =
     (let n = file_count ino;
          new_size = (n + 1) * dirent_sz in
      bind_res (vfs_increase_size fs (of_nat new_size) ino s) (\<lambda>(ino1, s1).
        bind_res (dir_entry_new name inode_id) (\<lambda>dirent.
          bind_res (write_at (n * dirent_sz) (as_bytes dirent) ino1 s1) (\<lambda>(_, s2).
            Inr ((), ino1, s2)))))"

definition vfs_create :: "efs \<Rightarrow> vinode \<Rightarrow> u8 list \<Rightarrow> store \<Rightarrow> (vinode option \<times> store) res" where
  "vfs_create fs vi name s =
     bind_res (alloc_inode fs s) (\<lambda>(new_id, s1).
     bind_res (get_disk_inode_pos fs new_id) (\<lambda>(blk, off).
     bind_res (modify_block (unat blk)
                (\<lambda>b. Inr ((), encode_inode off (inode_initialize FileType) b)) s1) (\<lambda>(_, s2).
     bind_res (modify_disk_inode vi (append_dirent fs name new_id) s2) (\<lambda>(_, s3).
     bind_res (get_disk_inode_pos fs new_id) (\<lambda>(blk, off).
     bind_res (sync_all s3) (\<lambda>s4. Inr (Some (vinode_new blk off), s4)))))))"

primrec readdir_loop :: "nat \<Rightarrow> nat \<Rightarrow> u8 list list \<Rightarrow> disk_inode \<Rightarrow> store \<Rightarrow> u8 list list res" where
  "readdir_loop 0 i v ino s = Inr v"
| "readdir_loop (Suc n) i v ino s =
     bind_res (read_dirent i dir_entry_empty ino s) (\<lambda>d.
       bind_res (dir_entry_name d) (\<lambda>nm. readdir_loop n (Suc i) (v @ [nm]) ino s))"

definition vfs_readdir :: "vinode \<Rightarrow> store \<Rightarrow> u8 list list res" where
  "vfs_readdir vi = read_disk_inode vi (\<lambda>ino s. readdir_loop (file_count ino) 0 [] ino s)"

definition vfs_read_at :: "vinode \<Rightarrow> nat \<Rightarrow> u8 list \<Rightarrow> store \<Rightarrow> (nat \<times> u8 list) res" where
  "vfs_read_at vi offset buf = read_disk_inode vi (read_at offset buf)"

definition vfs_write_at :: "efs \<Rightarrow> vinode \<Rightarrow> nat \<Rightarrow> u8 list \<Rightarrow> store \<Rightarrow> (nat \<times> store) res" where
  "vfs_write_at fs vi offset buf s =
     bind_res
       (modify_disk_inode vi (\<lambda>ino s.
          bind_res (usize_add offset (length buf)) (\<lambda>e.
          bind_res (vfs_increase_size fs (of_nat e) ino s) (\<lambda>(ino1, s1).
          bind_res (write_at offset buf ino1 s1) (\<lambda>(n, s2). Inr (n, ino1, s2))))) s)
       (\<lambda>(n, s1). bind_res (sync_all s1) (\<lambda>s2. Inr (n, s2)))"

primrec dealloc_data_many :: "efs \<Rightarrow> u32 list \<Rightarrow> store \<Rightarrow> store res" where
  "dealloc_data_many fs [] s = Inr s"
| "dealloc_data_many fs (e # es) s = bind_res (dealloc_data fs e s) (dealloc_data_many fs es)"

definition vfs_clear :: "efs \<Rightarrow> vinode \<Rightarrow> store \<Rightarrow> store res" where
  "vfs_clear fs vi s =
     bind_res
       (modify_disk_inode vi (\<lambda>ino s.
          bind_res (clear_size ino s) (\<lambda>(v, ino1, s1).
          bind_res (assert_res (length v = total_blocks (fsize ino))) (\<lambda>_.
          bind_res (dealloc_data_many fs v s1) (\<lambda>s2. Inr ((), ino1, s2))))) s)
       (\<lambda>(_, s1). sync_all s1)"

end
