(* ===== verification/Vfs_Files.thy ===== *)
theory Vfs_Files
  imports Vfs
begin

text \<open>
  What the operations of \<open>vfs.rs\<close> do to the content of files. \<open>content vi s\<close> is the sequence
  of bytes of the file behind a handle; \<open>file_wf\<close> is the well-formedness of the handle's inode
  on the device: its blocks are distinct and marked as used.
\<close>

section \<open>Batches of data blocks\<close>

lemma alloc_data_many_ok:
  "layout_ok fs \<Longrightarrow> numbers_fit fs \<Longrightarrow> bitmap_wf (data_bitmap fs) s \<Longrightarrow>
     card (bitmap_used (data_bitmap fs) s) + n \<le> bitmap_maximum (data_bitmap fs) \<Longrightarrow>
     \<exists>v s'. alloc_data_many n fs s = Inr (v, s') \<and> length v = n \<and> distinct v \<and>
       unat ` set v \<inter> data_used fs s = {} \<and> data_used fs s' = data_used fs s \<union> unat ` set v \<and>
       bitmap_wf (data_bitmap fs) s' \<and> held s' = held s \<and>
       (\<forall>i. i \<notin> bitmap_region (data_bitmap fs) \<longrightarrow> blocks s' i = blocks s i)"
proof (induction n arbitrary: s)
  case (Suc n)
  let ?bm = "data_bitmap fs"
  have ne: "bitmap_used ?bm s \<noteq> {..<bitmap_maximum ?bm}"
  proof
    assume "bitmap_used ?bm s = {..<bitmap_maximum ?bm}"
    with Suc.prems(4) show False by simp
  qed
  obtain e s1 where e: "alloc_data fs s = Inr (e, s1)" "unat e \<notin> data_used fs s"
      "data_used fs s1 = insert (unat e) (data_used fs s)"
      "bitmap_used ?bm s1 = insert (LEAST i. i \<notin> bitmap_used ?bm s) (bitmap_used ?bm s)"
      "bitmap_wf ?bm s1" "held s1 = held s"
      "\<And>i. i \<notin> bitmap_region ?bm \<Longrightarrow> blocks s1 i = blocks s i"
    using alloc_data_ok[OF Suc.prems(2,3) ne] by blast
  have "card (bitmap_used ?bm s1) + n \<le> bitmap_maximum ?bm"
    using Suc.prems(4) bma.least_free(2)[OF ne] bma.finite_used[of ?bm s] by (simp add: e(4))
  from Suc.IH[OF Suc.prems(1,2) e(5) this] obtain v s' where v:
      "alloc_data_many n fs s1 = Inr (v, s')" "length v = n" "distinct v"
      "unat ` set v \<inter> data_used fs s1 = {}" "data_used fs s' = data_used fs s1 \<union> unat ` set v"
      "bitmap_wf ?bm s'" "held s' = held s1"
      "\<And>i. i \<notin> bitmap_region ?bm \<Longrightarrow> blocks s' i = blocks s1 i" by blast
  have "e \<notin> set v" using v(4) e(3) by auto
  then show ?case
    using e v by (intro exI[of _ "e # v"] exI[of _ s']) auto
qed simp

lemma dealloc_data_many_ok:
  "layout_ok fs \<Longrightarrow> bitmap_wf (data_bitmap fs) s \<Longrightarrow> distinct v \<Longrightarrow>
     unat ` set v \<subseteq> data_used fs s \<Longrightarrow> unat ` set v \<inter> held s = {} \<Longrightarrow>
     \<exists>s'. dealloc_data_many fs v s = Inr s' \<and> data_used fs s' = data_used fs s - unat ` set v \<and>
       bitmap_wf (data_bitmap fs) s' \<and> held s' = held s \<and>
       (\<forall>i. i \<in> unat ` set v \<longrightarrow> blocks s' i = replicate 512 0) \<and>
       (\<forall>i. i \<notin> unat ` set v \<union> bitmap_region (data_bitmap fs) \<longrightarrow> blocks s' i = blocks s i)"
proof (induction v arbitrary: s)
  case (Cons e v)
  have e: "unat e \<in> data_used fs s" "unat e \<notin> held s" using Cons.prems by auto
  obtain s1 where s1: "dealloc_data fs e s = Inr s1" "data_used fs s1 = data_used fs s - {unat e}"
      "bitmap_wf (data_bitmap fs) s1" "held s1 = held s" "blocks s1 (unat e) = replicate 512 0"
      "\<And>i. i \<notin> insert (unat e) (bitmap_region (data_bitmap fs)) \<Longrightarrow> blocks s1 i = blocks s i"
    using dealloc_data_ok[OF Cons.prems(1,2) e] by blast
  have ne: "unat e \<notin> unat ` set v" using Cons.prems(3) by (simp add: unat_inj_image)
  have "distinct v" "unat ` set v \<subseteq> data_used fs s1" "unat ` set v \<inter> held s1 = {}"
    using Cons.prems(3-5) ne by (simp_all add: s1(2,4) subset_Diff_insert)
  from Cons.IH[OF Cons.prems(1) s1(3) this] obtain s' where s':
      "dealloc_data_many fs v s1 = Inr s'" "data_used fs s' = data_used fs s1 - unat ` set v"
      "bitmap_wf (data_bitmap fs) s'" "held s' = held s1"
      "\<And>i. i \<in> unat ` set v \<Longrightarrow> blocks s' i = replicate 512 0"
      "\<And>i. i \<notin> unat ` set v \<union> bitmap_region (data_bitmap fs) \<Longrightarrow> blocks s' i = blocks s1 i" by blast
  have "unat e \<notin> bitmap_region (data_bitmap fs)" using data_used_bounds(1)[OF Cons.prems(1) e(1)] .
  then have "blocks s' (unat e) = replicate 512 0" using s'(6)[of "unat e"] ne s1(5) by simp
  then show ?case
    using s1 s' by (intro exI[of _ s']) auto
qed simp

section \<open>Files on the device\<close>

definition the_inode :: "vinode \<Rightarrow> store \<Rightarrow> disk_inode" where
  "the_inode vi s = decode_inode (block_offset vi) (blocks s (block_id vi))"

definition locked :: "vinode \<Rightarrow> store \<Rightarrow> store" where
  "locked vi s = s\<lparr>held := {block_id vi}\<rparr>"

definition content :: "vinode \<Rightarrow> store \<Rightarrow> u8 list" where
  "content vi s = file_bytes (the_inode vi s) s"

definition file_blocks :: "vinode \<Rightarrow> store \<Rightarrow> nat set" where
  "file_blocks vi s = unat ` set (all_blocks (the_inode vi s) (blocks s) (data_blocks (the_inode vi s)))"

definition fs_ok :: "efs \<Rightarrow> store \<Rightarrow> bool" where
  "fs_ok fs s \<longleftrightarrow> layout_ok fs \<and> numbers_fit fs \<and> store_ok s \<and> held s = {}"

definition in_inode_area :: "efs \<Rightarrow> vinode \<Rightarrow> bool" where
  "in_inode_area fs vi \<longleftrightarrow>
     unat (inode_area_start_block fs) \<le> block_id vi \<and> block_id vi < start_block_id (data_bitmap fs) \<and>
     block_offset vi + 128 \<le> 512"

definition file_wf :: "efs \<Rightarrow> vinode \<Rightarrow> store \<Rightarrow> bool" where
  "file_wf fs vi s \<longleftrightarrow>
     fs_ok fs s \<and> in_inode_area fs vi \<and> inode_wf (the_inode vi s) (locked vi s) \<and>
     file_blocks vi s \<subseteq> data_used fs s"

lemma length_content: "length (content vi s) = unat (fsize (the_inode vi s))"
  by (simp add: content_def)

lemma locked_simps [simp]: "blocks (locked vi s) = blocks s" "held (locked vi s) = {block_id vi}"
  by (simp_all add: locked_def)

lemma area_not_data:
  assumes "layout_ok fs" "in_inode_area fs vi"
  shows "block_id vi \<notin> bitmap_region (data_bitmap fs)" "block_id vi \<notin> data_used fs s"
    "block_id vi < unat (data_area_start_block fs)"
  using assms data_used_bounds(2)[of "block_id vi" fs s]
  by (auto simp: layout_ok_def in_inode_area_def bitmap_region_def)

lemma wf_bitmap:
  "layout_ok fs \<Longrightarrow> in_inode_area fs vi \<Longrightarrow> store_ok s \<Longrightarrow> held s \<subseteq> {block_id vi} \<Longrightarrow>
     bitmap_wf (data_bitmap fs) s"
  using area_not_data(1)[of fs vi] by (auto simp: bitmap_wf_def)

text \<open>What an operation on another file leaves alone.\<close>

lemma inode_frame:
  assumes "\<And>i. i \<in> unat ` set (all_blocks ino (blocks s) (data_blocks ino)) \<Longrightarrow> blocks s' i = blocks s i"
    and wf: "inode_wf ino s" and s': "store_ok s'" "held s' = held s"
  shows "inode_wf ino s'" "all_blocks ino (blocks s') (data_blocks ino) = all_blocks ino (blocks s) (data_blocks ino)"
    "file_bytes ino s' = file_bytes ino s"
proof -
  let ?n = "data_blocks ino"
  have eq: "blocks s' (unat e) = blocks s (unat e)" if "e \<in> set (all_blocks ino (blocks s) ?n)" for e
    using assms(1) that by blast
  note ok = inode_wfD(1)[OF wf]
  have ix: "blocks s' (unat e) = blocks s (unat e)" if "e \<in> index_blocks ino (blocks s) ?n" for e
    using that set_all_blocks[OF ok, of "blocks s" ?n] by (intro eq) auto
  note fr = blocks_frame[where B' = "blocks s'", OF ix]
  show all: "all_blocks ino (blocks s') ?n = all_blocks ino (blocks s) ?n" by (rule fr(1))
  then show "inode_wf ino s'" using wf s' by (simp add: inode_wf_def)
  have "byte_at ino (blocks s') k = byte_at ino (blocks s) k" if "k < unat (fsize ino)" for k
  proof -
    note j = div_data_blocks[OF that]
    have "data_id ino (blocks s) (k div 512) \<in> set (all_blocks ino (blocks s) ?n)"
      using j set_all_blocks[OF ok, of "blocks s" ?n] by auto
    then show ?thesis using fr(2)[where j = "k div 512", OF _ j] eq by (simp add: byte_at_def)
  qed
  then show "file_bytes ino s' = file_bytes ino s" by (simp add: file_bytes_def)
qed

definition same_slot :: "vinode \<Rightarrow> store \<Rightarrow> store \<Rightarrow> bool" where
  "same_slot vj s s' \<longleftrightarrow>
     decode_inode (block_offset vj) (blocks s' (block_id vj)) =
     decode_inode (block_offset vj) (blocks s (block_id vj))"

lemma other_file_frame:
  assumes wf: "file_wf fs vj s" and ok: "fs_ok fs s'" and slot: "same_slot vj s s'"
    and eq: "\<And>i. i \<in> file_blocks vj s \<Longrightarrow> blocks s' i = blocks s i"
    and used: "file_blocks vj s \<subseteq> data_used fs s'"
  shows "file_wf fs vj s'" "content vj s' = content vj s" "file_blocks vj s' = file_blocks vj s"
proof -
  have ino: "the_inode vj s' = the_inode vj s" using slot by (simp add: the_inode_def same_slot_def)
  have so: "store_ok (locked vj s')" using ok by (simp add: fs_ok_def store_ok_def)
  have w: "inode_wf (the_inode vj s) (locked vj s)" using wf by (simp add: file_wf_def)
  have "blocks (locked vj s') i = blocks (locked vj s) i"
    if "i \<in> unat ` set (all_blocks (the_inode vj s) (blocks (locked vj s)) (data_blocks (the_inode vj s)))" for i
    using eq that by (simp add: file_blocks_def)
  note fr = inode_frame[OF this w so]
  show fb: "file_blocks vj s' = file_blocks vj s" using fr(2) by (simp add: file_blocks_def ino)
  show "file_wf fs vj s'" using wf ok fr(1) used fb by (simp add: file_wf_def ino)
  show "content vj s' = content vj s" using fr(3) by (simp add: content_def ino file_bytes_def)
qed

section \<open>Growing a file\<close>

lemma total_blocks_mono: "a \<le> b \<Longrightarrow> total_blocks a \<le> total_blocks b"
  unfolding total_blocks_upto data_blocks_of_def
  by (intro blocks_upto_mono div_ceil_mono) (simp add: word_le_nat_alt)

lemma vfs_increase_size_ok:
  fixes vi s
  defines "ino \<equiv> the_inode vi s"
  assumes wf: "file_wf fs vi s" and max: "data_blocks_of sz \<le> max_blocks"
    and room: "card (bitmap_used (data_bitmap fs) s) + (total_blocks sz - total_blocks (fsize ino)) \<le>
                 bitmap_maximum (data_bitmap fs)"
  shows "\<exists>ino1 s1 new. vfs_increase_size fs sz ino (locked vi s) = Inr (ino1, s1) \<and>
           inode_wf ino1 s1 \<and> held s1 = {block_id vi} \<and> bitmap_wf (data_bitmap fs) s1 \<and>
           itype ino1 = itype ino \<and> fsize ino1 = max (fsize ino) sz \<and>
           unat ` set (all_blocks ino1 (blocks s1) (data_blocks ino1)) = file_blocks vi s \<union> new \<and>
           new \<inter> data_used fs s = {} \<and> data_used fs s1 = data_used fs s \<union> new \<and>
           take (unat (fsize ino)) (file_bytes ino1 s1) = content vi s \<and>
           (\<forall>i. i \<notin> bitmap_region (data_bitmap fs) \<union> file_blocks vi s \<union> new \<longrightarrow> blocks s1 i = blocks s i)"
proof -
  let ?l = "locked vi s" and ?bm = "data_bitmap fs"
  have lay: "layout_ok fs" "numbers_fit fs" "store_ok s" "in_inode_area fs vi" "inode_wf ino ?l"
      "file_blocks vi s \<subseteq> data_used fs s"
    using wf by (simp_all add: file_wf_def fs_ok_def ino_def)
  have du: "data_used fs ?l = data_used fs s" "bitmap_used ?bm ?l = bitmap_used ?bm s"
    by (simp_all add: data_used_def bitmap_used_def bitmap_bit_def cong: conj_cong)
  have bwf: "bitmap_wf ?bm ?l"
    using lay by (intro wf_bitmap) (auto simp: store_ok_def)
  have fb: "file_bytes ino ?l = content vi s" by (simp add: content_def ino_def file_bytes_def)
  show ?thesis
  proof (cases "sz < fsize ino")
    case True
    then have "vfs_increase_size fs sz ino ?l = Inr (ino, ?l)" by (simp add: vfs_increase_size_def)
    moreover have "take (unat (fsize ino)) (file_bytes ino ?l) = content vi s"
      using fb[symmetric] by simp
    ultimately show ?thesis
      using True lay bwf du(1) fb
      by (intro exI[of _ ino] exI[of _ ?l] exI[of _ "{}"])
        (auto simp: file_blocks_def ino_def max_def length_content)
  next
    case False
    then have le: "fsize ino \<le> sz" by simp
    define n where "n = total_blocks sz - total_blocks (fsize ino)"
    have need: "blocks_num_needed sz ino = Inr n"
      using le total_blocks_mono[OF le] by (simp add: blocks_num_needed_def n_def)
    obtain v s1 where v: "alloc_data_many n fs ?l = Inr (v, s1)" "length v = n" "distinct v"
        "unat ` set v \<inter> data_used fs s = {}" "data_used fs s1 = data_used fs s \<union> unat ` set v"
        "bitmap_wf ?bm s1" "held s1 = {block_id vi}"
        "\<And>i. i \<notin> bitmap_region ?bm \<Longrightarrow> blocks s1 i = blocks s i"
      using alloc_data_many_ok[OF lay(1,2) bwf, of n] room by (auto simp: du n_def)
    let ?A = "all_blocks ino (blocks s) (data_blocks ino)"
    have A: "unat ` set ?A = file_blocks vi s" by (simp add: file_blocks_def ino_def)
    have notreg: "i \<notin> bitmap_region ?bm" if "i \<in> unat ` set ?A" for i
      using that lay(6) data_used_bounds(1)[OF lay(1)] A by blast
    have so1: "store_ok s1" using v(6) by (simp add: bitmap_wf_def)
    have "inode_wf ino s1" and A1: "all_blocks ino (blocks s1) (data_blocks ino) = ?A"
      and fb1: "file_bytes ino s1 = content vi s"
      using inode_frame[OF _ lay(5) so1] v(7,8) notreg fb by auto
    note wf1 = \<open>inode_wf ino s1\<close>
    have "e \<notin> set ?A" if "e \<in> set v" for e
      using that v(4) A lay(6) by blast
    then have dist: "distinct (all_blocks ino (blocks s1) (data_blocks ino) @ v)"
      using v(3) inode_wfD(4)[OF wf1] by (auto simp: A1)
    have nh: "\<forall>e \<in> set v. unat e \<notin> held s1"
    proof
      fix e assume "e \<in> set v"
      then have "unat e \<in> data_used fs s1" using v(5) by simp
      then show "unat e \<notin> held s1" using area_not_data(2)[OF lay(1,4), of s1] v(7) by auto
    qed
    have len: "total_blocks sz = total_blocks (fsize ino) + length v"
      using v(2) total_blocks_mono[OF le] by (simp add: n_def)
    obtain ino1 s2 where r: "increase_size sz v ino s1 = Inr (ino1, s2)" "inode_wf ino1 s2" "held s2 = held s1"
        "fsize ino1 = sz" "itype ino1 = itype ino"
        "all_blocks ino1 (blocks s2) (data_blocks ino1) = ?A @ v"
        "take (unat (fsize ino)) (file_bytes ino1 s2) = content vi s"
        "\<And>i. i \<notin> unat ` index_blocks ino1 (blocks s2) (data_blocks ino1) \<Longrightarrow> blocks s2 i = blocks s1 i"
      using increase_size_wf[OF wf1 le max len dist nh] unfolding A1 fb1 by blast
    have ix: "unat ` index_blocks ino1 (blocks s2) (data_blocks ino1) \<subseteq> file_blocks vi s \<union> unat ` set v"
      using set_all_blocks[OF inode_wfD(1)[OF r(2)], of "blocks s2" "data_blocks ino1"] r(6) A by auto
    have reg: "blocks s2 i = blocks s1 i" if "i \<in> bitmap_region ?bm" for i
    proof -
      have "i \<notin> data_used fs s1" using that data_used_bounds(1)[OF lay(1)] by blast
      then show ?thesis using r(8) ix v(5) lay(6) by blast
    qed
    have "data_used fs s2 = data_used fs s1"
      unfolding data_used_def using bitmap_used_frame[of ?bm s2 s1] reg by simp
    then have f1: "data_used fs s2 = data_used fs s \<union> unat ` set v" by (simp only: v(5))
    have f2: "bitmap_wf ?bm s2" using v(6,7) r(2,3) by (simp add: bitmap_wf_def inode_wf_def)
    have f3: "blocks s2 i = blocks s i" if "i \<notin> bitmap_region ?bm \<union> file_blocks vi s \<union> unat ` set v" for i
    proof -
      have "i \<notin> unat ` index_blocks ino1 (blocks s2) (data_blocks ino1)" using that ix by blast
      then show ?thesis using r(8) v(8) that by simp
    qed
    have f4: "vfs_increase_size fs sz ino ?l = Inr (ino1, s2)"
      using False need v(1) r(1) by (simp add: vfs_increase_size_def)
    have f5: "unat ` set (all_blocks ino1 (blocks s2) (data_blocks ino1)) = file_blocks vi s \<union> unat ` set v"
      unfolding r(6) using A by auto
    have f6: "fsize ino1 = max (fsize ino) sz" using r(4) le by (simp add: max_def)
    have f7: "unat ` set v \<inter> data_used fs s = {}" by (rule v(4))
    have f8: "held s2 = {block_id vi}" using r(3) v(7) by simp
    show ?thesis
      by (intro exI[of _ ino1] exI[of _ s2] exI[of _ "unat ` set v"] conjI allI impI)
        (fact f4 r(2) f8 f2 r(5) f6 f5 f7 f1 r(7) f3)+
  qed
qed

section \<open>Reading and writing\<close>

lemma vfs_read_at_eq:
  assumes wf: "file_wf fs vi s" and off: "off + length buf < 2 ^ 64"
  shows "vfs_read_at vi off buf s =
           Inr (min (off + length buf) (length (content vi s)) - off,
                overwrite 0 (slice off (min (off + length buf) (length (content vi s)) - off) (content vi s)) buf)"
proof -
  have w: "inode_wf (the_inode vi s) (locked vi s)" using wf by (simp add: file_wf_def)
  have "held s = {}" using wf by (simp add: file_wf_def fs_ok_def)
  then have "vfs_read_at vi off buf s = read_at off buf (the_inode vi s) (locked vi s)"
    by (simp add: vfs_read_at_def read_disk_inode_def lock_block_def the_inode_def locked_def)
  moreover have "file_bytes (the_inode vi s) (locked vi s) = content vi s"
    by (simp add: content_def file_bytes_def)
  ultimately show ?thesis using read_at_eq[OF w off] by (metis length_file_bytes)
qed

text \<open>The new content after \<open>buf\<close> is written at \<open>off\<close>.\<close>

definition spliced :: "nat \<Rightarrow> u8 list \<Rightarrow> u8 list \<Rightarrow> u8 list \<Rightarrow> bool" where
  "spliced off buf old new \<longleftrightarrow>
     length new = max (length old) (off + length buf) \<and> slice off (length buf) new = buf \<and>
     (\<forall>k < length old. \<not> (off \<le> k \<and> k < off + length buf) \<longrightarrow> new ! k = old ! k)"

definition separate :: "vinode \<Rightarrow> vinode \<Rightarrow> store \<Rightarrow> bool" where
  "separate vi vj s \<longleftrightarrow>
     (block_id vi \<noteq> block_id vj \<or> block_offset vi + 128 \<le> block_offset vj \<or>
      block_offset vj + 128 \<le> block_offset vi) \<and>
     file_blocks vi s \<inter> file_blocks vj s = {}"

text \<open>After an operation on the inode of \<open>vi\<close> that leaves the locked block alone, the new inode
  is stored and the lock released.\<close>

lemma store_inode:
  fixes vi ino1 s1 b
  defines "s2 \<equiv> unlock_block (block_id vi) (put_block (block_id vi) (encode_inode (block_offset vi) ino1 b) s1)"
  assumes wf: "inode_wf ino1 s1" "held s1 = {block_id vi}" "block_offset vi + 128 \<le> 512" "length b = 512"
    and blks: "block_id vi \<notin> unat ` set (all_blocks ino1 (blocks s1) (data_blocks ino1))"
  shows "the_inode vi s2 = ino1" "inode_wf ino1 (locked vi s2)" "content vi s2 = file_bytes ino1 s1"
    "file_blocks vi s2 = unat ` set (all_blocks ino1 (blocks s1) (data_blocks ino1))"
    "held s2 = {}" "store_ok s2"
proof -
  have len: "length (direct ino1) = 28" using wf(1) by (simp add: inode_wf_def inode_ok_def)
  have bl: "blocks s2 = (blocks s1)(block_id vi := encode_inode (block_offset vi) ino1 b)"
    by (simp add: s2_def unlock_block_def)
  show ino: "the_inode vi s2 = ino1"
    using inode_round_trip[OF len, of "block_offset vi" b] wf(3,4) by (simp add: the_inode_def bl)
  show h: "held s2 = {}" using wf(2) by (simp add: s2_def unlock_block_def)
  show so: "store_ok s2" using inode_wfD(2)[OF wf(1)] len wf(3,4) by (auto simp: store_ok_def bl)
  have "store_ok (locked vi s2)" "held (locked vi s2) = held s1" using so wf(2) by (simp_all add: store_ok_def)
  moreover have "blocks (locked vi s2) i = blocks s1 i"
    if "i \<in> unat ` set (all_blocks ino1 (blocks s1) (data_blocks ino1))" for i
  proof -
    have "i \<noteq> block_id vi" using blks that by blast
    then show ?thesis by (simp add: bl)
  qed
  ultimately have fr: "inode_wf ino1 (locked vi s2)"
      "all_blocks ino1 (blocks s2) (data_blocks ino1) = all_blocks ino1 (blocks s1) (data_blocks ino1)"
      "file_bytes ino1 (locked vi s2) = file_bytes ino1 s1"
    using inode_frame[OF _ wf(1), of "locked vi s2"] by auto
  show "inode_wf ino1 (locked vi s2)" by (rule fr(1))
  show "file_blocks vi s2 = unat ` set (all_blocks ino1 (blocks s1) (data_blocks ino1))"
    by (simp add: file_blocks_def ino fr(2))
  show "content vi s2 = file_bytes ino1 s1" using fr(3) by (simp add: content_def ino file_bytes_def)
qed

lemma slot_frame:
  assumes "block_id vi \<noteq> block_id vj \<or> block_offset vi + 128 \<le> block_offset vj \<or>
      block_offset vj + 128 \<le> block_offset vi"
    and "length (direct ino1) = 28" "block_offset vi + 128 \<le> 512" "block_offset vj + 128 \<le> 512" "length b = 512"
  shows "decode_inode (block_offset vj)
           ((B(block_id vi := encode_inode (block_offset vi) ino1 b)) (block_id vj)) =
         decode_inode (block_offset vj) ((B(block_id vi := b)) (block_id vj))"
  using assms inode_slots_disjoint[of ino1 "block_offset vi" b "block_offset vj"] by auto

text \<open>What an operation leaves of a file it does not touch: all of it.\<close>

definition kept :: "efs \<Rightarrow> vinode \<Rightarrow> store \<Rightarrow> store \<Rightarrow> bool" where
  "kept fs vj s s' \<longleftrightarrow>
     file_wf fs vj s' \<and> content vj s' = content vj s \<and> the_inode vj s' = the_inode vj s \<and>
     file_blocks vj s' = file_blocks vj s"

lemma spliced_overwrite:
  assumes "length old' = max (length old) (off + length buf)" "take (length old) old' = old"
  shows "spliced off buf old (overwrite off buf old')"
proof -
  have "overwrite off buf old' ! k = old ! k" if "k < length old" "\<not> (off \<le> k \<and> k < off + length buf)" for k
  proof -
    have "overwrite off buf old' ! k = old' ! k" using that assms(1) by (subst nth_overwrite) auto
    then show ?thesis using that(1) assms(2) nth_take[of k "length old" old'] by simp
  qed
  then show ?thesis using assms slice_overwrite_same[of off buf old'] by (simp add: spliced_def)
qed

text \<open>A call of \<open>write_at\<close>, given what its write to the grown inode does.\<close>

lemma vfs_write_at_run:
  assumes wf: "file_wf fs vi s"
    and lim: "off + length buf < 2 ^ 32"
    and max: "data_blocks_of (of_nat (off + length buf)) \<le> max_blocks"
    and room: "card (bitmap_used (data_bitmap fs) s) +
        (total_blocks (of_nat (off + length buf)) - total_blocks (fsize (the_inode vi s))) \<le>
        bitmap_maximum (data_bitmap fs)"
    and bytes: "\<And>ino1 s1. vfs_increase_size fs (of_nat (off + length buf)) (the_inode vi s) (locked vi s) = Inr (ino1, s1) \<Longrightarrow>
        inode_wf ino1 s1 \<Longrightarrow> off + length buf \<le> unat (fsize ino1) \<Longrightarrow>
        \<exists>s2. write_at off buf ino1 s1 = Inr (length buf, s2) \<and>
          file_bytes ino1 s2 = overwrite off buf (file_bytes ino1 s1) \<and>
          written ino1 off (off + length buf) (\<lambda>k. buf ! (k - off)) s1 s2"
  shows "\<exists>s'. vfs_write_at fs vi off buf s = Inr (length buf, s') \<and> file_wf fs vi s' \<and>
           spliced off buf (content vi s) (content vi s') \<and>
           itype (the_inode vi s') = itype (the_inode vi s) \<and>
           vfs_read_at vi off (replicate (length buf) 0) s' = Inr (length buf, buf) \<and>
           (\<forall>vj. file_wf fs vj s \<and> separate vi vj s \<longrightarrow> kept fs vj s s' \<and> separate vi vj s') \<and>
           data_used fs s' = data_used fs s \<union> file_blocks vi s' \<and>
           file_blocks vi s' \<inter> data_used fs s = file_blocks vi s \<and>
           (\<forall>i < unat (inode_area_start_block fs). blocks s' i = blocks s i)"
proof -
  let ?l = "locked vi s" and ?bm = "data_bitmap fs" and ?sz = "of_nat (off + length buf) :: u32"
  define ino where "ino = the_inode vi s"
  define b where "b = blocks s (block_id vi)"
  have lay: "layout_ok fs" "numbers_fit fs" "store_ok s" "in_inode_area fs vi" "held s = {}"
      "file_blocks vi s \<subseteq> data_used fs s"
    using wf by (simp_all add: file_wf_def fs_ok_def)
  have usz: "unat ?sz = off + length buf" using lim by (rule unat_of_nat_u32)
  obtain ino1 s1 new where g: "vfs_increase_size fs ?sz ino ?l = Inr (ino1, s1)"
      "inode_wf ino1 s1" "held s1 = {block_id vi}" "bitmap_wf ?bm s1" "itype ino1 = itype ino"
      "fsize ino1 = max (fsize ino) ?sz"
      "unat ` set (all_blocks ino1 (blocks s1) (data_blocks ino1)) = file_blocks vi s \<union> new"
      "new \<inter> data_used fs s = {}" "data_used fs s1 = data_used fs s \<union> new"
      "take (unat (fsize ino)) (file_bytes ino1 s1) = content vi s"
      "\<And>i. i \<notin> bitmap_region ?bm \<union> file_blocks vi s \<union> new \<Longrightarrow> blocks s1 i = blocks s i"
    using vfs_increase_size_ok[OF wf max room] unfolding ino_def by blast
  have fs1: "unat (fsize ino1) = max (unat (fsize ino)) (off + length buf)"
    using usz by (simp add: g(6) max_def word_le_nat_alt)
  obtain s2 where w: "write_at off buf ino1 s1 = Inr (length buf, s2)"
      "file_bytes ino1 s2 = overwrite off buf (file_bytes ino1 s1)"
      "written ino1 off (off + length buf) (\<lambda>k. buf ! (k - off)) s1 s2"
    using bytes[OF g(1)[unfolded ino_def] g(2)] fs1 by auto
  have w2: "inode_wf ino1 s2" "held s2 = {block_id vi}"
      "all_blocks ino1 (blocks s2) (data_blocks ino1) = all_blocks ino1 (blocks s1) (data_blocks ino1)"
    using w(3) g(3) by (simp_all add: written_def)
  have w3: "blocks s2 i = blocks s1 i" if "i \<notin> file_blocks vi s \<union> new" for i
    using w(3) that g(7) set_all_blocks[OF inode_wfD(1)[OF g(2)], of "blocks s1" "data_blocks ino1"]
    unfolding written_def by blast
  define s3 where "s3 = unlock_block (block_id vi)
      (put_block (block_id vi) (encode_inode (block_offset vi) ino1 b) s2)"
  have nf: "block_id vi \<notin> file_blocks vi s \<union> new"
    using area_not_data(2)[OF lay(1,4), of s1] g(9) lay(6) by auto
  have off: "block_offset vi + 128 \<le> 512" using lay(4) by (simp add: in_inode_area_def)
  have lb: "length b = 512" using lay(3) by (simp add: b_def store_okD)
  note si = store_inode[OF w2(1,2) off lb, folded s3_def, unfolded w2(3) g(7), OF nf]
  have call: "vfs_write_at fs vi off buf s = Inr (length buf, s3)"
    using lay(5) lim g(1) w(1) si(5)
    by (simp add: vfs_write_at_def modify_disk_inode_def with_block_free usize_add_def ino_def the_inode_def
        locked_def b_def s3_def sync_all_def)
  have bl3: "blocks s3 i = blocks s i" if "i \<notin> bitmap_region ?bm \<union> file_blocks vi s \<union> new \<union> {block_id vi}" for i
    using that w3 g(11) by (simp add: s3_def unlock_block_def)
  have reg: "blocks s3 i = blocks s1 i" if "i \<in> bitmap_region ?bm" for i
  proof -
    have "i \<noteq> block_id vi" using that area_not_data(1)[OF lay(1,4)] by blast
    moreover have "i \<notin> file_blocks vi s \<union> new"
      using that data_used_bounds(1)[OF lay(1)] g(9) lay(6) by blast
    ultimately show ?thesis using w3 by (simp add: s3_def unlock_block_def)
  qed
  have "data_used fs s3 = data_used fs s1"
    unfolding data_used_def using bitmap_used_frame[of ?bm s3 s1] reg by simp
  then have used: "data_used fs s3 = data_used fs s \<union> new" by (simp only: g(9))
  have ok3: "fs_ok fs s3" using lay si(5,6) by (simp add: fs_ok_def)
  have wf3: "file_wf fs vi s3"
    using ok3 lay(4,6) si(1,2,4) used by (auto simp: file_wf_def)
  have len_old: "length (content vi s) = unat (fsize ino)" by (simp add: length_content ino_def)
  have sp: "spliced off buf (content vi s) (content vi s3)"
    unfolding si(3) w(2) by (rule spliced_overwrite) (use fs1 g(10) len_old in simp_all)
  have len3: "off + length buf \<le> length (content vi s3)" using sp by (simp add: spliced_def)
  have rd: "vfs_read_at vi off (replicate (length buf) 0) s3 = Inr (length buf, buf)"
    using vfs_read_at_eq[OF wf3, of off "replicate (length buf) 0"] len3 lim sp
    by (simp add: spliced_def overwrite_def)
  have others: "kept fs vj s s3 \<and> separate vi vj s3"
    if vj: "file_wf fs vj s" "separate vi vj s" for vj
  proof -
    have fj: "in_inode_area fs vj" "file_blocks vj s \<subseteq> data_used fs s" using vj(1) by (simp_all add: file_wf_def)
    have dj: "file_blocks vj s \<inter> (bitmap_region ?bm \<union> file_blocks vi s \<union> new \<union> {block_id vi}) = {}"
      using fj(2) vj(2) g(8) data_used_bounds(1)[OF lay(1)] area_not_data(2)[OF lay(1,4), of s]
      unfolding separate_def by blast
    have nj: "block_id vj \<notin> bitmap_region ?bm \<union> file_blocks vi s \<union> new"
      using area_not_data(1)[OF lay(1) fj(1)] area_not_data(2)[OF lay(1) fj(1), of s1] g(9) lay(6) by blast
    have "blocks s2 (block_id vj) = blocks s (block_id vj)" using nj w3 g(11) by simp
    then have "decode_inode (block_offset vj) (((blocks s2)(block_id vi := b)) (block_id vj)) =
        decode_inode (block_offset vj) (blocks s (block_id vj))" by (simp add: b_def)
    moreover have "length (direct ino1) = 28" using g(2) by (simp add: inode_wf_def inode_ok_def)
    ultimately have "same_slot vj s s3"
      using slot_frame[of vi vj ino1 b "blocks s2"] vj(2) off fj(1) lb
      by (simp add: same_slot_def separate_def in_inode_area_def s3_def unlock_block_def)
    note fr = other_file_frame[OF vj(1) ok3 this]
    have eq: "blocks s3 i = blocks s i" if "i \<in> file_blocks vj s" for i
      using that dj by (intro bl3) blast
    have us: "file_blocks vj s \<subseteq> data_used fs s3" using used fj(2) by blast
    show ?thesis
      using fr[OF eq us] vj(2) dj si(4) \<open>same_slot vj s s3\<close>
      by (auto simp: separate_def kept_def the_inode_def same_slot_def)
  qed
  have low: "blocks s3 i = blocks s i" if i: "i < unat (inode_area_start_block fs)" for i
  proof (rule bl3)
    have "i < unat (data_area_start_block fs)" "i \<noteq> block_id vi" "i \<notin> bitmap_region ?bm"
      using i lay(1,4) by (auto simp: layout_ok_def in_inode_area_def bitmap_region_def)
    moreover have "i \<notin> file_blocks vi s \<union> new"
      using \<open>i < unat (data_area_start_block fs)\<close> data_used_bounds(2)[of i fs s1] g(9) lay(6) by auto
    ultimately show "i \<notin> bitmap_region ?bm \<union> file_blocks vi s \<union> new \<union> {block_id vi}" by simp
  qed
  have du: "data_used fs s3 = data_used fs s \<union> file_blocks vi s3"
    "file_blocks vi s3 \<inter> data_used fs s = file_blocks vi s"
    using used si(4) g(8) lay(6) by auto
  show ?thesis
    using call wf3 sp rd others low si(1) g(5) du by (intro exI[of _ s3]) (simp add: ino_def)
qed

lemma vfs_write_at_ok:
  assumes wf: "file_wf fs vi s"
    and buf: "buf \<noteq> []" "off + length buf < 2 ^ 32"
    and max: "data_blocks_of (of_nat (off + length buf)) \<le> max_blocks"
    and room: "card (bitmap_used (data_bitmap fs) s) +
        (total_blocks (of_nat (off + length buf)) - total_blocks (fsize (the_inode vi s))) \<le>
        bitmap_maximum (data_bitmap fs)"
  shows "\<exists>s'. vfs_write_at fs vi off buf s = Inr (length buf, s') \<and> file_wf fs vi s' \<and>
           spliced off buf (content vi s) (content vi s') \<and>
           itype (the_inode vi s') = itype (the_inode vi s) \<and>
           vfs_read_at vi off (replicate (length buf) 0) s' = Inr (length buf, buf) \<and>
           (\<forall>vj. file_wf fs vj s \<and> separate vi vj s \<longrightarrow> kept fs vj s s' \<and> separate vi vj s') \<and>
           data_used fs s' = data_used fs s \<union> file_blocks vi s' \<and>
           file_blocks vi s' \<inter> data_used fs s = file_blocks vi s \<and>
           (\<forall>i < unat (inode_area_start_block fs). blocks s' i = blocks s i)"
proof (rule vfs_write_at_run[OF wf buf(2) max room])
  fix ino1 s1
  assume ino: "inode_wf ino1 s1" and fit: "off + length buf \<le> unat (fsize ino1)"
  have lt: "off < unat (fsize ino1)" using fit buf(1) by (cases buf) auto
  have n: "min (off + length buf) (unat (fsize ino1)) - off = length buf" using fit by simp
  show "\<exists>s2. write_at off buf ino1 s1 = Inr (length buf, s2) \<and>
      file_bytes ino1 s2 = overwrite off buf (file_bytes ino1 s1) \<and>
      written ino1 off (off + length buf) (\<lambda>k. buf ! (k - off)) s1 s2"
    using write_at_eq[OF ino _ lt buf(1)] buf(2) unfolding n by auto
qed

text \<open>A call that returned and wrote its whole buffer, which may be empty, within the limits of a file.\<close>

lemma vfs_write_at_limits:
  assumes wf: "file_wf fs vi s" and run: "vfs_write_at fs vi off buf s = Inr (length buf, s')"
  shows "off + length buf < 2 ^ 32" "data_blocks_of (of_nat (off + length buf)) \<le> max_blocks"
proof -
  let ?sz = "of_nat (off + length buf) :: u32"
  have h: "held s = {}" "inode_wf (the_inode vi s) (locked vi s)" using wf by (simp_all add: file_wf_def fs_ok_def)
  obtain ino1 s1 s2 where g: "vfs_increase_size fs ?sz (the_inode vi s) (locked vi s) = Inr (ino1, s1)"
      "write_at off buf ino1 s1 = Inr (length buf, s2)"
    using run unfolding vfs_write_at_def modify_disk_inode_def
    by (auto simp: h(1) with_block_free bind_res_eq_Inr usize_add_def the_inode_def[symmetric] locked_def
        simp del: of_nat_add split: if_splits)
  note fit = write_at_count[OF g(2)]
  then show lt: "off + length buf < 2 ^ 32" using unsigned_less[of "fsize ino1", where ?'a = nat] by simp
  have usz: "unat ?sz = off + length buf" using lt by (rule unat_of_nat_u32)
  show "data_blocks_of ?sz \<le> max_blocks"
  proof (cases "?sz < fsize (the_inode vi s)")
    case True
    then have "data_blocks_of ?sz \<le> data_blocks_of (fsize (the_inode vi s))"
      unfolding data_blocks_of_def by (intro div_ceil_mono) (simp add: word_less_nat_alt less_imp_le del: of_nat_add)
    also have "\<dots> \<le> max_blocks" using inode_wfD(3)[OF h(2)] by (simp add: data_blocks_def)
    finally show ?thesis .
  next
    case False
    then obtain v s0 where "increase_size ?sz v (the_inode vi s) s0 = Inr (ino1, s1)"
      using g(1) by (auto simp: vfs_increase_size_def bind_res_eq_Inr simp del: of_nat_add)
    then show ?thesis by (rule increase_size_bound) (rule inode_wfD(3)[OF h(2)])
  qed
qed

lemma vfs_write_nothing:
  assumes wf: "file_wf fs vi s" and run: "vfs_write_at fs vi off [] s = Inr (n, s')"
    and room: "card (bitmap_used (data_bitmap fs) s) +
        (total_blocks (of_nat off) - total_blocks (fsize (the_inode vi s))) \<le> bitmap_maximum (data_bitmap fs)"
  shows "n = 0 \<and> file_wf fs vi s' \<and> spliced off [] (content vi s) (content vi s') \<and>
           itype (the_inode vi s') = itype (the_inode vi s) \<and>
           (\<forall>vj. file_wf fs vj s \<and> separate vi vj s \<longrightarrow> kept fs vj s s' \<and> separate vi vj s') \<and>
           data_used fs s' = data_used fs s \<union> file_blocks vi s' \<and>
           file_blocks vi s' \<inter> data_used fs s = file_blocks vi s \<and>
           (\<forall>i < unat (inode_area_start_block fs). blocks s' i = blocks s i)"
proof -
  have h: "held s = {}" "store_ok s" using wf by (simp_all add: file_wf_def fs_ok_def)
  obtain ino1 s1 s2 where g: "vfs_increase_size fs (of_nat off) (the_inode vi s) (locked vi s) = Inr (ino1, s1)"
      "write_at off [] ino1 s1 = Inr (n, s2)"
    using run unfolding vfs_write_at_def modify_disk_inode_def
    by (auto simp: h(1) with_block_free bind_res_eq_Inr usize_add_def the_inode_def[symmetric] locked_def split: if_splits)
  have n: "n = 0" by (rule write_nothing(1)[OF g(2)])
  have run': "vfs_write_at fs vi off [] s = Inr (length ([] :: u8 list), s')" using run n by simp
  have "\<exists>s'. vfs_write_at fs vi off [] s = Inr (length ([] :: u8 list), s') \<and> file_wf fs vi s' \<and>
           spliced off [] (content vi s) (content vi s') \<and>
           itype (the_inode vi s') = itype (the_inode vi s) \<and>
           vfs_read_at vi off (replicate (length ([] :: u8 list)) 0) s' = Inr (length ([] :: u8 list), []) \<and>
           (\<forall>vj. file_wf fs vj s \<and> separate vi vj s \<longrightarrow> kept fs vj s s' \<and> separate vi vj s') \<and>
           data_used fs s' = data_used fs s \<union> file_blocks vi s' \<and>
           file_blocks vi s' \<inter> data_used fs s = file_blocks vi s \<and>
           (\<forall>i < unat (inode_area_start_block fs). blocks s' i = blocks s i)"
  proof (rule vfs_write_at_run[OF wf vfs_write_at_limits[OF wf run']])
    fix ino2 t1
    assume i: "vfs_increase_size fs (of_nat (off + length ([] :: u8 list))) (the_inode vi s) (locked vi s) = Inr (ino2, t1)"
      "inode_wf ino2 t1" and fit: "off + length ([] :: u8 list) \<le> unat (fsize ino2)"
    have e: "ino2 = ino1" "t1 = s1" using i(1) g(1) by simp_all
    have "s2 = s1" by (rule write_nothing(2)[OF g(2)]) (use i(2) e in \<open>simp add: inode_wf_def\<close>)
    then show "\<exists>t2. write_at off [] ino2 t1 = Inr (length ([] :: u8 list), t2) \<and>
        file_bytes ino2 t2 = overwrite off [] (file_bytes ino2 t1) \<and>
        written ino2 off (off + length ([] :: u8 list)) (\<lambda>k. [] ! (k - off)) t1 t2"
      using g(2) i(2) n by (auto simp: e overwrite_def written_def)
  qed (use room in simp)
  with run' n show ?thesis by auto
qed

text \<open>C15: Writing a non-empty buffer to a well-formed file, with room on the device: the call
  returns the length of the buffer; the content is the old content with the buffer at its
  place, extended when it does not fit; reading the range back gives the buffer; the file stays
  well-formed; and every other file of the device keeps its content and its blocks.\<close>

theorem write_then_read:
  assumes wf: "file_wf fs vi s"
    and buf: "buf \<noteq> []" "off + length buf < 2 ^ 32"
    and max: "data_blocks_of (of_nat (off + length buf)) \<le> max_blocks"
    and room: "card (bitmap_used (data_bitmap fs) s) +
        (total_blocks (of_nat (off + length buf)) - total_blocks (fsize (the_inode vi s))) \<le>
        bitmap_maximum (data_bitmap fs)"
  shows "\<exists>s'. vfs_write_at fs vi off buf s = Inr (length buf, s') \<and> file_wf fs vi s' \<and>
           spliced off buf (content vi s) (content vi s') \<and>
           itype (the_inode vi s') = itype (the_inode vi s) \<and>
           vfs_read_at vi off (replicate (length buf) 0) s' = Inr (length buf, buf) \<and>
           (\<forall>vj. file_wf fs vj s \<and> separate vi vj s \<longrightarrow>
              file_wf fs vj s' \<and> content vj s' = content vj s \<and> separate vi vj s')"
  by (rule ex_forward[OF vfs_write_at_ok[OF assms]]) (simp add: kept_def)

definition demo_fs :: efs where
  "demo_fs = \<lparr>inode_bitmap = bitmap_new 1 1, data_bitmap = bitmap_new 1026 1,
              inode_area_start_block = 2, data_area_start_block = 1027\<rparr>"

definition demo_store :: store where
  "demo_store = \<lparr>blocks = (\<lambda>_. replicate 512 0), held = {}\<rparr>"

definition demo_file :: vinode where
  "demo_file = \<lparr>block_id = 2, block_offset = 128\<rparr>"

lemma demo_inode: "the_inode demo_file demo_store = inode_initialize FileType"
proof -
  have "map (\<lambda>k. le_u32_at (132 + 4 * k) (replicate 512 0)) [0..<28] = replicate 28 0"
    by (rule nth_equalityI) (simp_all add: le_u32_at_def slice_replicate)
  then show ?thesis
    by (simp add: the_inode_def demo_file_def demo_store_def decode_inode_def le_u32_at_def slice_replicate
        decode_type_def inode_initialize_def inode_direct_count_def)
qed

lemma demo_empty:
  "data_blocks (inode_initialize t) = 0" "all_blocks ino B 0 = []"
  "bitmap_used (data_bitmap demo_fs) demo_store = {}"
  by (simp_all add: data_blocks_def data_blocks_of_def div_ceil_def inode_initialize_def
      all_blocks_def level1_def level2_def)
    (auto simp: bitmap_used_def bitmap_bit_def blk_bit_def demo_fs_def demo_store_def bitmap_new_def
      bitmap_maximum_eq div64_less)

lemma demo_wf: "file_wf demo_fs demo_file demo_store"
proof -
  have "inode_ok (inode_initialize FileType)" by (simp add: inode_ok_def inode_initialize_def inode_direct_count_def)
  moreover have "store_ok demo_store" "held demo_store = {}" by (simp_all add: store_ok_def demo_store_def)
  moreover have "store_ok (locked demo_file demo_store)" by (simp add: store_ok_def demo_store_def)
  moreover have "layout_ok demo_fs" "numbers_fit demo_fs" "in_inode_area demo_fs demo_file"
    by (simp_all add: layout_ok_def numbers_fit_def in_inode_area_def demo_fs_def demo_file_def bitmap_new_def
        bitmap_maximum_eq)
  ultimately show ?thesis
    by (simp add: file_wf_def fs_ok_def file_blocks_def inode_wf_def demo_inode demo_empty)
qed

lemma demo_size: "content demo_file demo_store = []" "fsize (the_inode demo_file demo_store) = 0"
  by (simp_all add: content_def file_bytes_def demo_inode inode_initialize_def)

lemma write_then_read_witness:
  "\<exists>s'. vfs_write_at demo_fs demo_file 0 [1, 2, 3] demo_store = Inr (3, s') \<and>
     content demo_file s' = [1, 2, 3] \<and> file_wf demo_fs demo_file s' \<and>
     vfs_read_at demo_file 0 [0, 0, 0] s' = Inr (3, [1, 2, 3])"
proof -
  have t: "total_blocks 3 = 1" "total_blocks 0 = 0" "data_blocks_of 3 = 1"
    by (simp_all add: total_blocks_def data_blocks_of_def div_ceil_def layout_consts)
  have max: "data_blocks_of (of_nat (0 + length [1 :: u8, 2, 3])) \<le> max_blocks"
    by (simp add: t max_blocks_def)
  have room: "card (bitmap_used (data_bitmap demo_fs) demo_store) +
        (total_blocks (of_nat (0 + length [1 :: u8, 2, 3])) - total_blocks (fsize (the_inode demo_file demo_store))) \<le>
        bitmap_maximum (data_bitmap demo_fs)"
    unfolding demo_empty(3) by (simp add: demo_size t demo_fs_def bitmap_new_def bitmap_maximum_eq)
  obtain s' where s': "vfs_write_at demo_fs demo_file 0 [1, 2, 3] demo_store = Inr (length [1 :: u8, 2, 3], s')"
      "file_wf demo_fs demo_file s'" "spliced 0 [1, 2, 3] (content demo_file demo_store) (content demo_file s')"
      "vfs_read_at demo_file 0 (replicate (length [1 :: u8, 2, 3]) 0) s' = Inr (length [1 :: u8, 2, 3], [1, 2, 3])"
    using write_then_read[OF demo_wf _ _ max room] by auto
  have "content demo_file s' = [1, 2, 3]"
    using s'(3) by (simp add: spliced_def demo_size slice_def) (metis order_refl take_all)
  with s' show ?thesis by (simp add: numeral_3_eq_3)
qed

section \<open>Clearing\<close>

lemma vfs_clear_ok:
  assumes wf: "file_wf fs vi s"
  shows "\<exists>s'. vfs_clear fs vi s = Inr s' \<and> file_wf fs vi s' \<and> content vi s' = [] \<and>
           itype (the_inode vi s') = itype (the_inode vi s) \<and> file_blocks vi s' = {} \<and>
           data_used fs s' = data_used fs s - file_blocks vi s \<and>
           card (data_used fs s) = card (data_used fs s') + total_blocks (fsize (the_inode vi s)) \<and>
           (\<forall>i \<in> file_blocks vi s. blocks s' i = replicate 512 0) \<and>
           (\<forall>vj. file_wf fs vj s \<and> separate vi vj s \<longrightarrow> kept fs vj s s' \<and> separate vi vj s') \<and>
           (\<forall>i < unat (inode_area_start_block fs). blocks s' i = blocks s i)"
proof -
  let ?l = "locked vi s" and ?bm = "data_bitmap fs"
  define ino where "ino = the_inode vi s"
  define b where "b = blocks s (block_id vi)"
  let ?A = "all_blocks ino (blocks s) (data_blocks ino)"
  have lay: "layout_ok fs" "numbers_fit fs" "store_ok s" "in_inode_area fs vi" "held s = {}"
      "file_blocks vi s \<subseteq> data_used fs s" "inode_wf ino ?l"
    using wf by (simp_all add: file_wf_def fs_ok_def ino_def)
  note iw = inode_wfD[OF lay(7), unfolded locked_simps]
  have A: "unat ` set ?A = file_blocks vi s" by (simp add: file_blocks_def ino_def)
  have du: "data_used fs ?l = data_used fs s"
    by (simp add: data_used_def bitmap_used_def bitmap_bit_def cong: conj_cong)
  have bwf: "bitmap_wf ?bm ?l" using lay by (intro wf_bitmap) (auto simp: store_ok_def)
  have dd: "distinct (all_blocks ino (blocks ?l) (data_blocks ino))"
    and nh: "\<forall>e \<in> set (all_blocks ino (blocks ?l) (data_blocks ino)). unat e \<notin> held ?l"
    using iw(4,5) by auto
  obtain ino1 where c: "clear_size ino ?l = Inr (?A, ino1, ?l)" "fsize ino1 = 0" "itype ino1 = itype ino"
      "inode_ok ino1" "length ?A = total_blocks (fsize ino)"
    using clear_size_returns_all[OF iw(1,3) dd nh] by auto
  have nf: "block_id vi \<notin> file_blocks vi s"
  proof
    assume "block_id vi \<in> file_blocks vi s"
    then obtain e where e: "e \<in> set ?A" "unat e = block_id vi" unfolding A[symmetric] by auto
    from iw(5)[OF e(1)] e(2) show False by simp
  qed
  have hd: "unat ` set ?A \<inter> held ?l = {}" using nf by (simp add: A)
  obtain s1 where d: "dealloc_data_many fs ?A ?l = Inr s1" "data_used fs s1 = data_used fs s - file_blocks vi s"
      "bitmap_wf ?bm s1" "held s1 = {block_id vi}"
      "\<And>i. i \<in> file_blocks vi s \<Longrightarrow> blocks s1 i = replicate 512 0"
      "\<And>i. i \<notin> file_blocks vi s \<union> bitmap_region ?bm \<Longrightarrow> blocks s1 i = blocks s i"
    using dealloc_data_many_ok[OF lay(1) bwf iw(4) _ hd] lay(6) unfolding A du by auto
  have e1: "data_blocks ino1 = 0" by (simp add: data_blocks_def data_blocks_of_def c(2) div_ceil_def)
  have a1: "all_blocks ino1 B (data_blocks ino1) = []" for B by (simp add: e1 demo_empty(2))
  have w1: "inode_wf ino1 s1"
    using c(4) d(3) by (simp add: inode_wf_def a1 bitmap_wf_def) (simp add: e1)
  define s2 where "s2 = unlock_block (block_id vi)
      (put_block (block_id vi) (encode_inode (block_offset vi) ino1 b) s1)"
  have off: "block_offset vi + 128 \<le> 512" using lay(4) by (simp add: in_inode_area_def)
  have lb: "length b = 512" using lay(3) by (simp add: b_def store_okD)
  note si = store_inode[OF w1 d(4) off lb, folded s2_def, unfolded a1, simplified]
  have call: "vfs_clear fs vi s = Inr s2"
    using lay(5) c(1,5) d(1) si(5)
    by (simp add: vfs_clear_def modify_disk_inode_def with_block_free ino_def the_inode_def
        locked_def b_def s2_def sync_all_def)
  have bl2: "blocks s2 i = blocks s1 i" if "i \<noteq> block_id vi" for i
    using that by (simp add: s2_def unlock_block_def)
  have reg: "blocks s2 i = blocks s1 i" if "i \<in> bitmap_region ?bm" for i
    using that area_not_data(1)[OF lay(1,4)] by (intro bl2) blast
  have "data_used fs s2 = data_used fs s1"
    unfolding data_used_def using bitmap_used_frame[of ?bm s2 s1] reg by simp
  then have used: "data_used fs s2 = data_used fs s - file_blocks vi s" by (simp only: d(2))
  have ok2: "fs_ok fs s2" using lay si(5,6) by (simp add: fs_ok_def)
  have wf2: "file_wf fs vi s2"
    using ok2 lay(4) si(1,2,4) by (simp add: file_wf_def)
  have zero: "blocks s2 i = replicate 512 0" if "i \<in> file_blocks vi s" for i
    using that nf d(5) bl2 by metis
  have card: "card (data_used fs s) = card (data_used fs s2) + total_blocks (fsize ino)"
  proof -
    have "card (file_blocks vi s) = card (set ?A)"
      unfolding A[symmetric] by (rule card_image) (auto simp: inj_on_def word_unat_eq_iff)
    moreover have "card (set ?A) = length ?A" using iw(4) by (rule distinct_card)
    moreover have "finite (data_used fs s)" by (simp add: data_used_def bma.finite_used)
    ultimately show ?thesis
      using lay(6) c(5) card_mono[of "data_used fs s" "file_blocks vi s"]
      by (simp add: used card_Diff_subset finite_subset[OF lay(6)])
  qed
  have others: "kept fs vj s s2 \<and> separate vi vj s2"
    if vj: "file_wf fs vj s" "separate vi vj s" for vj
  proof -
    have fj: "in_inode_area fs vj" "file_blocks vj s \<subseteq> data_used fs s" using vj(1) by (simp_all add: file_wf_def)
    have dj: "file_blocks vj s \<inter> (bitmap_region ?bm \<union> file_blocks vi s \<union> {block_id vi}) = {}"
      using fj(2) vj(2) data_used_bounds(1)[OF lay(1)] area_not_data(2)[OF lay(1,4), of s]
      unfolding separate_def by blast
    have nj: "block_id vj \<notin> bitmap_region ?bm \<union> file_blocks vi s"
      using area_not_data(1)[OF lay(1) fj(1)] area_not_data(2)[OF lay(1) fj(1), of s] lay(6) by blast
    have "blocks s1 (block_id vj) = blocks s (block_id vj)" using nj by (intro d(6)) blast
    then have "decode_inode (block_offset vj) (((blocks s1)(block_id vi := b)) (block_id vj)) =
        decode_inode (block_offset vj) (blocks s (block_id vj))" by (simp add: b_def)
    moreover have "length (direct ino1) = 28" using c(4) by (simp add: inode_ok_def)
    ultimately have "same_slot vj s s2"
      using slot_frame[of vi vj ino1 b "blocks s1"] vj(2) off fj(1) lb
      by (simp add: same_slot_def separate_def in_inode_area_def s2_def unlock_block_def)
    note fr = other_file_frame[OF vj(1) ok2 this]
    have eq: "blocks s2 i = blocks s i" if "i \<in> file_blocks vj s" for i
    proof -
      have "i \<noteq> block_id vi" "i \<notin> file_blocks vi s \<union> bitmap_region ?bm" using that dj by auto
      then show ?thesis using bl2 d(6) by simp
    qed
    have us: "file_blocks vj s \<subseteq> data_used fs s2" using used fj(2) vj(2) by (auto simp: separate_def)
    show ?thesis
      using fr[OF eq us] vj(2) si(4) \<open>same_slot vj s s2\<close>
      by (auto simp: separate_def kept_def the_inode_def same_slot_def)
  qed
  have low: "blocks s2 i = blocks s i" if i: "i < unat (inode_area_start_block fs)" for i
  proof -
    have "i < unat (data_area_start_block fs)" "i \<noteq> block_id vi" "i \<notin> bitmap_region ?bm"
      using i lay(1,4) by (auto simp: layout_ok_def in_inode_area_def bitmap_region_def)
    moreover have "i \<notin> file_blocks vi s"
      using \<open>i < unat (data_area_start_block fs)\<close> data_used_bounds(2)[of i fs s] lay(6) by auto
    ultimately show ?thesis using bl2 d(6) by simp
  qed
  have "content vi s2 = []" by (simp add: si(3) file_bytes_def c(2))
  then show ?thesis
    using call wf2 zero card used others low si(1,4) c(3) by (intro exI[of _ s2]) (simp add: ino_def)
qed

text \<open>C16: Clearing a well-formed file empties it, frees exactly its blocks (data and index
  blocks) and fills them with zeros; the length assertion of the code holds; every other file
  keeps its content and its blocks.\<close>

theorem clear_frees_the_file:
  assumes wf: "file_wf fs vi s"
  shows "\<exists>s'. vfs_clear fs vi s = Inr s' \<and> file_wf fs vi s' \<and> content vi s' = [] \<and>
           itype (the_inode vi s') = itype (the_inode vi s) \<and> file_blocks vi s' = {} \<and>
           data_used fs s' = data_used fs s - file_blocks vi s \<and>
           card (data_used fs s) = card (data_used fs s') + total_blocks (fsize (the_inode vi s)) \<and>
           (\<forall>i \<in> file_blocks vi s. blocks s' i = replicate 512 0) \<and>
           (\<forall>vj. file_wf fs vj s \<and> separate vi vj s \<longrightarrow>
              file_wf fs vj s' \<and> content vj s' = content vj s \<and> separate vi vj s')"
  by (rule ex_forward[OF vfs_clear_ok[OF wf]]) (simp add: kept_def)

lemma clear_frees_the_file_witness:
  "\<exists>s'. vfs_clear demo_fs demo_file demo_store = Inr s' \<and> content demo_file s' = [] \<and>
     file_wf demo_fs demo_file s'"
  using clear_frees_the_file[OF demo_wf] by blast

end
