(* ===== verification/Directory.thy ===== *)
theory Directory
  imports Vfs_Files
begin

text \<open>
  The directory: \<open>dir_list\<close> is the list of the names and inode numbers in the content of a
  directory file. \<open>find\<close> looks a name up in it, \<open>readdir\<close> lists the names and \<open>create\<close>
  appends one with a fresh, empty inode.
\<close>

section \<open>The entries of a directory\<close>

definition dirent_at :: "u8 list \<Rightarrow> nat \<Rightarrow> dir_entry" where
  "dirent_at bytes i = from_bytes (slice (32 * i) 32 bytes)"

definition dirents :: "u8 list \<Rightarrow> dir_entry list" where
  "dirents bytes = map (dirent_at bytes) [0..<length bytes div 32]"

definition name_of :: "dir_entry \<Rightarrow> u8 list" where
  "name_of e = (case dir_entry_name e of Inr nm \<Rightarrow> nm | Inl _ \<Rightarrow> [])"

definition dir_list :: "vinode \<Rightarrow> store \<Rightarrow> (u8 list \<times> u32) list" where
  "dir_list vi s = map (\<lambda>e. (name_of e, inode_number e)) (dirents (content vi s))"

text \<open>What an operation on the directory needs is \<open>dir_ok\<close>; a well-formed directory is one whose names can
also be read back, which a name of 28 bytes, accepted by \<open>create\<close>, cannot.\<close>

definition dir_ok :: "efs \<Rightarrow> vinode \<Rightarrow> store \<Rightarrow> bool" where
  "dir_ok fs vi s \<longleftrightarrow> file_wf fs vi s \<and> is_dir (the_inode vi s) \<and> 32 dvd length (content vi s)"

definition dir_wf :: "efs \<Rightarrow> vinode \<Rightarrow> store \<Rightarrow> bool" where
  "dir_wf fs vi s \<longleftrightarrow>
     file_wf fs vi s \<and> is_dir (the_inode vi s) \<and> 32 dvd length (content vi s) \<and>
     (\<forall>e \<in> set (dirents (content vi s)). dir_entry_name e = Inr (name_of e))"

lemma dir_wf_iff:
  "dir_wf fs vi s \<longleftrightarrow> dir_ok fs vi s \<and> (\<forall>e \<in> set (dirents (content vi s)). dir_entry_name e = Inr (name_of e))"
  by (simp add: dir_wf_def dir_ok_def)

lemma dirent_at_append:
  "32 * i + 32 \<le> length bytes \<Longrightarrow> dirent_at (bytes @ extra) i = dirent_at bytes i"
  by (simp add: dirent_at_def slice_def)

lemma dirents_append:
  assumes "32 dvd length bytes" "length extra = 32"
  shows "dirents (bytes @ extra) = dirents bytes @ [from_bytes extra]"
proof -
  obtain n where n: "length bytes = 32 * n" using assms(1) by (rule dvdE)
  have "dirent_at (bytes @ extra) i = dirent_at bytes i" if "i < n" for i
    using that n by (intro dirent_at_append) simp
  moreover have "dirent_at (bytes @ extra) n = from_bytes extra"
    using n assms(2) by (simp add: dirent_at_def slice_def)
  ultimately show ?thesis using n assms(2) by (simp add: dirents_def cong: map_cong)
qed

section \<open>Looking up and listing\<close>

lemma read_dirent_eq:
  assumes wf: "inode_wf ino s" and i: "32 * i + 32 \<le> unat (fsize ino)" and d: "length (entry_name d) = 28"
  shows "read_dirent i d ino s = Inr (dirent_at (file_bytes ino s) i)"
proof -
  have l: "length (as_bytes d) = 32" using d by simp
  have "unat (fsize ino) < 2 ^ 32" using unsigned_less[of "fsize ino", where ?'a = nat] by simp
  then have b: "32 * i + length (as_bytes d) < 2 ^ 64" using i by (simp add: l)
  have n: "min (32 * i + length (as_bytes d)) (unat (fsize ino)) - 32 * i = 32" using i by (simp add: l)
  have "overwrite 0 (slice (32 * i) 32 (file_bytes ino s)) (as_bytes d) = slice (32 * i) 32 (file_bytes ino s)"
    using i l by (simp add: overwrite_def)
  then show ?thesis
    using read_at_eq[OF wf b] unfolding n by (simp add: read_dirent_def dirent_sz_def dirent_at_def)
qed

lemma length_dirent_at:
  "32 * i + 32 \<le> length bytes \<Longrightarrow> length (entry_name (dirent_at bytes i)) = 28"
  unfolding dirent_at_def by (rule length_from_bytes) simp

lemma find_loop_eq:
  assumes wf: "inode_wf ino s" and ok: "\<And>j. j < n + i \<Longrightarrow> dir_entry_name (dirent_at bytes j) = Inr (name_of (dirent_at bytes j))"
    and bytes: "bytes = file_bytes ino s" "32 * (n + i) \<le> length bytes" and d: "length (entry_name d) = 28"
  shows "find_loop n i d name ino s =
           Inr (map_of (map (\<lambda>j. (name_of (dirent_at bytes j), inode_number (dirent_at bytes j))) [i..<n + i]) name)"
  using ok bytes(2) d
proof (induction n arbitrary: i d)
  case (Suc n)
  let ?e = "dirent_at bytes i"
  have fit: "32 * i + 32 \<le> length bytes" using Suc.prems(2) by simp
  then have "read_dirent i d ino s = Inr ?e"
    using read_dirent_eq[OF wf _ Suc.prems(3), of i] bytes(1) by simp
  moreover have "dir_entry_name ?e = Inr (name_of ?e)" using Suc.prems(1)[of i] by simp
  moreover have "find_loop n (Suc i) ?e name ino s =
      Inr (map_of (map (\<lambda>j. (name_of (dirent_at bytes j), inode_number (dirent_at bytes j))) [Suc i..<n + Suc i]) name)"
    using Suc.prems(1,2) length_dirent_at[OF fit] by (intro Suc.IH) auto
  moreover have "[i..<Suc n + i] = i # [Suc i..<n + Suc i]" by (simp add: upt_rec)
  ultimately show ?case by simp
qed simp

text \<open>A lookup walks the entries in order: what it returns is the number of an entry, and it panics at the
first name it cannot read.\<close>

lemma find_loop_steps:
  assumes wf: "inode_wf ino s" and bytes: "bytes = file_bytes ino s" and fit: "32 * Suc (n + i) \<le> length bytes"
    and d: "length (entry_name d) = 28"
  shows "find_loop (Suc n) i d name ino s =
           bind_res (dir_entry_name (dirent_at bytes i)) (\<lambda>nm.
             if nm = name then Inr (Some (inode_number (dirent_at bytes i)))
             else find_loop n (Suc i) (dirent_at bytes i) name ino s)"
    "length (entry_name (dirent_at bytes i)) = 28"
proof -
  have b: "32 * i + 32 \<le> length bytes" using fit by simp
  then show "length (entry_name (dirent_at bytes i)) = 28" by (rule length_dirent_at)
  have "read_dirent i d ino s = Inr (dirent_at bytes i)"
    using b read_dirent_eq[OF wf _ d, of i] bytes by simp
  then show "find_loop (Suc n) i d name ino s =
           bind_res (dir_entry_name (dirent_at bytes i)) (\<lambda>nm.
             if nm = name then Inr (Some (inode_number (dirent_at bytes i)))
             else find_loop n (Suc i) (dirent_at bytes i) name ino s)"
    by simp
qed

lemma find_loop_number:
  assumes wf: "inode_wf ino s" and bytes: "bytes = file_bytes ino s"
  shows "find_loop n i d name ino s = Inr (Some k) \<Longrightarrow> 32 * (n + i) \<le> length bytes \<Longrightarrow> length (entry_name d) = 28 \<Longrightarrow>
    k \<in> (\<lambda>j. inode_number (dirent_at bytes j)) ` {i..<n + i}"
proof (induction n arbitrary: i d)
  case (Suc n)
  have fit: "32 * Suc (n + i) \<le> length bytes" using Suc.prems(2) by simp
  note step = find_loop_steps[OF wf bytes fit Suc.prems(3)]
  from Suc.prems(1)[unfolded step(1)] consider "k = inode_number (dirent_at bytes i)"
    | "find_loop n (Suc i) (dirent_at bytes i) name ino s = Inr (Some k)"
    by (auto simp: bind_res_eq_Inr split: if_splits)
  then show ?case
  proof cases
    case 2
    have "k \<in> (\<lambda>j. inode_number (dirent_at bytes j)) ` {Suc i..<n + Suc i}"
      using Suc.IH[OF 2 _ step(2)] fit by simp
    then show ?thesis by auto
  qed (auto intro!: image_eqI[of _ _ i])
qed simp

lemma find_loop_panics:
  assumes wf: "inode_wf ino s" and bytes: "bytes = file_bytes ino s"
  shows "dir_entry_name (dirent_at bytes j) = Inl err \<Longrightarrow> i \<le> j \<Longrightarrow> j < n + i \<Longrightarrow>
    (\<And>j. j < n + i \<Longrightarrow> dir_entry_name (dirent_at bytes j) \<noteq> Inr name) \<Longrightarrow> 32 * (n + i) \<le> length bytes \<Longrightarrow> length (entry_name d) = 28 \<Longrightarrow>
    \<exists>e. find_loop n i d name ino s = Inl e"
proof (induction n arbitrary: i d)
  case (Suc n)
  have fit: "32 * Suc (n + i) \<le> length bytes" using Suc.prems(5) by simp
  note step = find_loop_steps[OF wf bytes fit Suc.prems(6)]
  show ?case
  proof (cases "dir_entry_name (dirent_at bytes i)")
    case (Inr nm)
    have ij: "j \<noteq> i" using Inr Suc.prems(1) by auto
    have "nm \<noteq> name" using Suc.prems(4)[of i] Inr by simp
    moreover have "\<exists>e. find_loop n (Suc i) (dirent_at bytes i) name ino s = Inl e"
      by (rule Suc.IH[OF Suc.prems(1) _ _ _ _ step(2)]) (use ij Suc.prems(2-4) fit in simp_all)
    ultimately show ?thesis unfolding step(1) by (simp add: Inr)
  qed (simp add: step(1) del: find_loop.simps)
qed simp

lemma readdir_loop_eq:
  assumes wf: "inode_wf ino s" and ok: "\<And>j. j < n + i \<Longrightarrow> dir_entry_name (dirent_at bytes j) = Inr (name_of (dirent_at bytes j))"
    and bytes: "bytes = file_bytes ino s" "32 * (n + i) \<le> length bytes"
  shows "readdir_loop n i v ino s = Inr (v @ map (\<lambda>j. name_of (dirent_at bytes j)) [i..<n + i])"
  using ok bytes(2)
proof (induction n arbitrary: i v)
  case (Suc n)
  let ?e = "dirent_at bytes i"
  have "32 * i + 32 \<le> length bytes" using Suc.prems(2) by simp
  then have "read_dirent i dir_entry_empty ino s = Inr ?e"
    using read_dirent_eq[OF wf _ , of i dir_entry_empty] bytes(1)
    by (simp add: dir_entry_empty_def name_length_limit_def)
  moreover have "dir_entry_name ?e = Inr (name_of ?e)" using Suc.prems(1)[of i] by simp
  moreover have "readdir_loop n (Suc i) (v @ [name_of ?e]) ino s =
      Inr ((v @ [name_of ?e]) @ map (\<lambda>j. name_of (dirent_at bytes j)) [Suc i..<n + Suc i])"
    using Suc.prems(1,2) by (intro Suc.IH) auto
  moreover have "[i..<Suc n + i] = i # [Suc i..<n + Suc i]" by (simp add: upt_rec)
  ultimately show ?case by simp
qed simp

text \<open>The handle of an inode number.\<close>

definition inode_pos :: "efs \<Rightarrow> nat \<Rightarrow> vinode" where
  "inode_pos fs k =
     \<lparr>block_id = unat (inode_area_start_block fs) + k div 4, block_offset = (k mod 4) * 128\<rparr>"

definition inode_used :: "efs \<Rightarrow> store \<Rightarrow> nat set" where
  "inode_used fs s = bitmap_used (inode_bitmap fs) s"

lemma read_disk_inode_free:
  "held s = {} \<Longrightarrow> read_disk_inode vi f s = f (the_inode vi s) (locked vi s)"
  by (simp add: read_disk_inode_def lock_block_def the_inode_def locked_def)

lemma dir_facts:
  assumes "dir_wf fs vi s"
  shows "held s = {}" "inode_wf (the_inode vi s) (locked vi s)"
    "file_bytes (the_inode vi s) (locked vi s) = content vi s"
    "file_count (the_inode vi s) = length (content vi s) div 32"
    "\<And>j. j < length (content vi s) div 32 \<Longrightarrow>
       dir_entry_name (dirent_at (content vi s) j) = Inr (name_of (dirent_at (content vi s) j))"
  using assms
  by (auto simp: dir_wf_def file_wf_def fs_ok_def content_def file_bytes_def file_count_def dirent_sz_def dirents_def)

lemma find_inode_id_eq:
  assumes "dir_wf fs vi s"
  shows "find_inode_id name (the_inode vi s) (locked vi s) = Inr (map_of (dir_list vi s) name)"
proof -
  note f = dir_facts[OF assms]
  have "is_dir (the_inode vi s)" using assms by (simp add: dir_wf_def)
  moreover have "find_loop (file_count (the_inode vi s)) 0 dir_entry_empty name (the_inode vi s) (locked vi s) =
      Inr (map_of (map (\<lambda>j. (name_of (dirent_at (content vi s) j), inode_number (dirent_at (content vi s) j)))
        [0..<file_count (the_inode vi s) + 0]) name)"
    using f(4,5) by (intro find_loop_eq[OF f(2) _ f(3)[symmetric]])
      (auto simp: dir_entry_empty_def name_length_limit_def mult.commute)
  ultimately show ?thesis
    by (simp add: find_inode_id_def dir_list_def dirents_def f(4) comp_def)
qed

lemma find_number:
  assumes dir: "dir_ok fs vi s" and r: "vfs_find fs vi name s = Inr (Some v)"
  shows "\<exists>k \<in> snd ` set (dir_list vi s). \<exists>blk off. get_disk_inode_pos fs k = Inr (blk, off) \<and> v = vinode_new blk off"
proof -
  have f: "held s = {}" "inode_wf (the_inode vi s) (locked vi s)"
      "content vi s = file_bytes (the_inode vi s) (locked vi s)"
      "file_count (the_inode vi s) = length (content vi s) div 32"
    using dir by (auto simp: dir_ok_def file_wf_def fs_ok_def content_def file_bytes_def file_count_def dirent_sz_def)
  obtain k where k: "find_loop (file_count (the_inode vi s)) 0 dir_entry_empty name (the_inode vi s) (locked vi s) = Inr (Some k)"
      "\<exists>blk off. get_disk_inode_pos fs k = Inr (blk, off) \<and> v = vinode_new blk off"
    using r by (fastforce simp: vfs_find_def read_disk_inode_free[OF f(1)] find_inode_id_def bind_res_eq_Inr
        split: option.splits)
  have "k \<in> (\<lambda>j. inode_number (dirent_at (content vi s) j)) ` {0..<file_count (the_inode vi s) + 0}"
    using find_loop_number[OF f(2,3) k(1)] f(4) by (simp add: dir_entry_empty_def name_length_limit_def)
  then have "k \<in> snd ` set (dir_list vi s)" by (simp add: dir_list_def dirents_def f(4) image_image)
  then show ?thesis using k(2) by blast
qed

lemma find_panics:
  assumes dir: "dir_ok fs vi s" and e: "e \<in> set (dirents (content vi s))" "dir_entry_name e = Inl err"
    and new: "\<forall>e \<in> set (dirents (content vi s)). dir_entry_name e \<noteq> Inr name"
  shows "\<exists>x. vfs_find fs vi name s = Inl x"
proof -
  have f: "held s = {}" "inode_wf (the_inode vi s) (locked vi s)" "is_dir (the_inode vi s)"
      "content vi s = file_bytes (the_inode vi s) (locked vi s)"
      "file_count (the_inode vi s) = length (content vi s) div 32"
    using dir by (auto simp: dir_ok_def file_wf_def fs_ok_def content_def file_bytes_def file_count_def dirent_sz_def)
  obtain j where j: "j < file_count (the_inode vi s)" "e = dirent_at (content vi s) j"
    using e(1) by (auto simp: dirents_def f(5))
  have "\<exists>x. find_loop (file_count (the_inode vi s)) 0 dir_entry_empty name (the_inode vi s) (locked vi s) = Inl x"
    by (rule find_loop_panics[OF f(2,4) e(2)[unfolded j(2)]])
      (use j(1) new f(5) in \<open>auto simp: dirents_def dir_entry_empty_def name_length_limit_def\<close>)
  then show ?thesis by (auto simp: vfs_find_def read_disk_inode_free[OF f(1)] find_inode_id_def f(3))
qed

lemma vfs_readdir_eq:
  assumes "dir_wf fs vi s"
  shows "vfs_readdir vi s = Inr (map fst (dir_list vi s))"
proof -
  note f = dir_facts[OF assms]
  have "readdir_loop (file_count (the_inode vi s)) 0 [] (the_inode vi s) (locked vi s) =
      Inr ([] @ map (\<lambda>j. name_of (dirent_at (content vi s) j)) [0..<file_count (the_inode vi s) + 0])"
    using f(4,5) by (intro readdir_loop_eq[OF f(2) _ f(3)[symmetric]]) (auto simp: mult.commute)
  then show ?thesis
    by (simp add: vfs_readdir_def read_disk_inode_free[OF f(1)] dir_list_def dirents_def f(4) comp_def)
qed

lemma get_disk_inode_pos_eq:
  assumes "layout_ok fs" "numbers_fit fs" "unat k < bitmap_maximum (inode_bitmap fs)"
  shows "\<exists>blk off. get_disk_inode_pos fs k = Inr (blk, off) \<and> vinode_new blk off = inode_pos fs (unat k) \<and>
           unat blk = block_id (inode_pos fs (unat k)) \<and> off = block_offset (inode_pos fs (unat k))"
proof -
  have q: "unat (k div 4) = unat k div 4" "unat (k mod 4) = unat k mod 4"
    by (simp_all add: unat_div unat_mod)
  have "unat k div 4 < 1024 * bitmap_blocks (inode_bitmap fs)"
    using assms(3) by (simp add: bitmap_maximum_eq div_less_iff_less_mult)
  then have "unat (inode_area_start_block fs) + unat (k div 4) < 2 ^ 32"
    using assms(1,2) q by (simp add: layout_ok_def numbers_fit_def)
  then show ?thesis
    using q unat_u32_add[of "inode_area_start_block fs" "k div 4"]
    by (simp add: get_disk_inode_pos_def u32_add_def disk_inode_sz_def vinode_new_def inode_pos_def Let_def)
qed

lemma inode_pos_area:
  assumes "layout_ok fs" "k < bitmap_maximum (inode_bitmap fs)"
  shows "in_inode_area fs (inode_pos fs k)"
proof -
  have "k div 4 < 1024 * bitmap_blocks (inode_bitmap fs)"
    using assms(2) by (simp add: bitmap_maximum_eq div_less_iff_less_mult)
  moreover have "k mod 4 \<le> 3" using mod_less_divisor[of 4 k] by linarith
  ultimately show ?thesis using assms(1) by (simp add: layout_ok_def in_inode_area_def inode_pos_def)
qed

lemma inode_pos_separate:
  assumes "j \<noteq> k"
  shows "block_id (inode_pos fs j) \<noteq> block_id (inode_pos fs k) \<or>
    block_offset (inode_pos fs j) + 128 \<le> block_offset (inode_pos fs k) \<or>
    block_offset (inode_pos fs k) + 128 \<le> block_offset (inode_pos fs j)"
proof (cases "j div 4 = k div 4")
  case True
  then have "j mod 4 \<noteq> k mod 4" using assms by (metis div_mult_mod_eq)
  then have "j mod 4 + 1 \<le> k mod 4 \<or> k mod 4 + 1 \<le> j mod 4" by linarith
  then have "(j mod 4 + 1) * 128 \<le> k mod 4 * 128 \<or> (k mod 4 + 1) * 128 \<le> j mod 4 * 128"
    using mult_le_mono1 by blast
  then show ?thesis by (simp add: inode_pos_def add.commute)
qed (simp add: inode_pos_def)

section \<open>Creating a file\<close>

lemma append_is_write:
  assumes h: "held s = {}" and e: "dir_entry_new name k = Inr e" and l: "length (entry_name e) = 28"
    and d: "32 dvd length (content vi s)" "length (content vi s) + 32 < 2 ^ 32"
    and w: "vfs_write_at fs vi (length (content vi s)) (as_bytes e) s = Inr (r, s')"
  shows "modify_disk_inode vi (append_dirent fs name k) s = Inr ((), s')"
proof -
  let ?ino = "decode_inode (block_offset vi) (blocks s (block_id vi))"
  define n where "n = file_count ?ino"
  have len: "length (content vi s) = 32 * n"
    using d(1) by (auto simp: n_def file_count_def length_content the_inode_def dirent_sz_def)
  have la: "length (as_bytes e) = 32" using l by simp
  have nb: "32 * n + 32 < 2 ^ 64" using d(2) len by simp
  have sz: "(n + 1) * dirent_sz = 32 * n + 32" by (simp add: dirent_sz_def)
  have off: "n * dirent_sz = 32 * n" by (simp add: dirent_sz_def)
  have nh: "block_id vi \<notin> held s" using h by simp
  show ?thesis
    using w h e nb
    unfolding append_dirent_def Let_def vfs_write_at_def modify_disk_inode_def with_block_free[OF nh] n_def[symmetric]
      sz off len la
    by (auto simp: usize_add_def bind_res_eq_Inr sync_all_def n_def[symmetric] sz off
        simp del: of_nat_add of_nat_mult split: if_splits)
qed

definition valid_name :: "u8 list \<Rightarrow> bool" where
  "valid_name name \<longleftrightarrow> utf8_valid name \<and> 0 \<notin> set name \<and> length name \<le> 27"

lemma valid_name_entry:
  assumes "valid_name name"
  shows "\<exists>e. dir_entry_new name k = Inr e \<and> length (entry_name e) = 28 \<and> inode_number e = k \<and>
           dir_entry_name e = Inr name"
  using assms dir_entry_name_eq[of name k] by (auto simp: dir_entry_new_eq valid_name_def)

lemma spliced_append:
  assumes "spliced (length old) buf old new"
  shows "new = old @ buf"
proof (rule nth_equalityI)
  show "length new = length (old @ buf)" using assms by (simp add: spliced_def)
  fix k assume k: "k < length new"
  show "new ! k = (old @ buf) ! k"
  proof (cases "k < length old")
    case False
    then have "slice (length old) (length buf) new ! (k - length old) = new ! (length old + (k - length old))"
      using k assms by (intro nth_slice) (auto simp: spliced_def)
    then have "slice (length old) (length buf) new ! (k - length old) = new ! k" using False by simp
    then show ?thesis using False assms by (simp add: spliced_def nth_append)
  qed (use assms in \<open>auto simp: spliced_def nth_append\<close>)
qed

text \<open>Taking a fresh inode and initialising it leaves every other file alone.\<close>

lemma fresh_inode:
  assumes ok: "fs_ok fs s" and fit: "bitmap_maximum (inode_bitmap fs) < 2 ^ 32"
    and ne: "inode_used fs s \<noteq> {..<bitmap_maximum (inode_bitmap fs)}"
  shows "\<exists>k s1 s2 blk off. alloc_inode fs s = Inr (of_nat k, s1) \<and>
           get_disk_inode_pos fs (of_nat k) = Inr (blk, off) \<and> vinode_new blk off = inode_pos fs k \<and>
           modify_block (unat blk) (\<lambda>b. Inr ((), encode_inode off (inode_initialize FileType) b)) s1 =
             Inr ((), s2) \<and>
           k < bitmap_maximum (inode_bitmap fs) \<and> k \<notin> inode_used fs s \<and>
           inode_used fs s2 = insert k (inode_used fs s) \<and> fs_ok fs s2 \<and>
           bitmap_used (data_bitmap fs) s2 = bitmap_used (data_bitmap fs) s \<and>
           file_wf fs (inode_pos fs k) s2 \<and> the_inode (inode_pos fs k) s2 = inode_initialize FileType \<and>
           blocks s2 0 = blocks s 0 \<and>
           (\<forall>j. j < bitmap_maximum (inode_bitmap fs) \<and> j \<noteq> k \<and> file_wf fs (inode_pos fs j) s \<longrightarrow>
              file_wf fs (inode_pos fs j) s2 \<and> content (inode_pos fs j) s2 = content (inode_pos fs j) s \<and>
              the_inode (inode_pos fs j) s2 = the_inode (inode_pos fs j) s \<and>
              file_blocks (inode_pos fs j) s2 = file_blocks (inode_pos fs j) s)"
proof -
  let ?ib = "inode_bitmap fs" and ?db = "data_bitmap fs" and ?ini = "inode_initialize FileType"
  have lay: "layout_ok fs" "numbers_fit fs" "store_ok s" "held s = {}" using ok by (simp_all add: fs_ok_def)
  have wf: "bitmap_wf ?ib s" using lay by (simp add: bitmap_wf_def)
  obtain k s1 where a: "bitmap_alloc ?ib s = Inr (Some k, s1)" "bitmap_wf ?ib s1"
      "bitmap_used ?ib s1 = insert k (bitmap_used ?ib s)" "k < bitmap_maximum ?ib" "k \<notin> bitmap_used ?ib s"
    using bma.alloc_some[OF wf ne[unfolded inode_used_def]] bma.least_free[OF ne[unfolded inode_used_def]] by blast
  note fr1 = bitmap_alloc_frame[OF a(1)]
  have uk: "unat (of_nat k :: u32) = k" using a(4) fit by (intro unat_of_nat_u32) simp
  obtain blk off where p: "get_disk_inode_pos fs (of_nat k) = Inr (blk, off)" "vinode_new blk off = inode_pos fs k"
      "unat blk = block_id (inode_pos fs k)" "off = block_offset (inode_pos fs k)"
    using get_disk_inode_pos_eq[OF lay(1,2), of "of_nat k"] a(4) uk by auto
  note area = inode_pos_area[OF lay(1) a(4)]
  have so1: "store_ok s1" "held s1 = {}" using a(2) fr1(1) lay(4) by (simp_all add: bitmap_wf_def)
  define s2 where "s2 = put_block (unat blk) (encode_inode off ?ini (blocks s1 (unat blk))) s1"
  have ini: "length (direct ?ini) = 28" by (simp add: inode_initialize_def inode_direct_count_def)
  have off: "off + 128 \<le> 512" using area p(4) by (simp add: in_inode_area_def)
  have l1: "length (blocks s1 i) = 512" for i using so1(1) by (rule store_okD)
  have mb: "modify_block (unat blk) (\<lambda>b. Inr ((), encode_inode off ?ini b)) s1 = Inr ((), s2)"
    using so1(2) by (simp add: modify_block_free s2_def)
  have so2: "store_ok s2" "held s2 = {}" using so1 l1 ini off by (simp_all add: s2_def)
  have ok2: "fs_ok fs s2" using lay so2 by (simp add: fs_ok_def)
  have blkreg: "unat blk \<notin> bitmap_region ?ib" "unat blk \<notin> bitmap_region ?db"
    using area lay(1) p(3) by (auto simp: in_inode_area_def layout_ok_def bitmap_region_def)
  have "bitmap_used ?ib s2 = bitmap_used ?ib s1"
    using blkreg(1) by (intro bitmap_used_frame) (auto simp: s2_def)
  then have iu: "inode_used fs s2 = insert k (inode_used fs s)" by (simp add: inode_used_def a(3))
  have disj: "i \<notin> bitmap_region ?ib" if "i \<in> bitmap_region ?db" for i
    using that lay(1) by (auto simp: layout_ok_def bitmap_region_def)
  have du: "bitmap_used ?db s2 = bitmap_used ?db s"
    using blkreg(2) disj fr1(2) by (intro bitmap_used_frame) (auto simp: s2_def)
  have ino: "the_inode (inode_pos fs k) s2 = ?ini"
    using inode_round_trip[OF ini off[folded l1[of "unat blk"]]] p(3,4) by (simp add: the_inode_def s2_def)
  have wf2: "file_wf fs (inode_pos fs k) s2"
    using ok2 area ini so2(1)
    by (simp add: file_wf_def ino inode_wf_def inode_ok_def demo_empty(1,2) file_blocks_def store_ok_def)
  have others: "file_wf fs (inode_pos fs j) s2 \<and> content (inode_pos fs j) s2 = content (inode_pos fs j) s \<and>
      the_inode (inode_pos fs j) s2 = the_inode (inode_pos fs j) s \<and>
      file_blocks (inode_pos fs j) s2 = file_blocks (inode_pos fs j) s"
    if j: "j < bitmap_maximum ?ib" "j \<noteq> k" "file_wf fs (inode_pos fs j) s" for j
  proof -
    let ?vj = "inode_pos fs j"
    note aj = inode_pos_area[OF lay(1) j(1)]
    have nj: "block_id ?vj \<notin> bitmap_region ?ib"
      using aj lay(1) by (auto simp: in_inode_area_def layout_ok_def bitmap_region_def)
    have b1: "blocks s1 (block_id ?vj) = blocks s (block_id ?vj)" using nj by (rule fr1(2))
    have "decode_inode (block_offset ?vj)
        (((blocks s1)(unat blk := encode_inode off ?ini (blocks s1 (unat blk)))) (block_id ?vj)) =
        decode_inode (block_offset ?vj) (((blocks s1)(unat blk := blocks s1 (unat blk))) (block_id ?vj))"
      using slot_frame[of "inode_pos fs k" ?vj ?ini "blocks s1 (unat blk)" "blocks s1"]
        inode_pos_separate[of k j fs] j(2) ini off aj l1 p(3,4) by (simp add: in_inode_area_def)
    then have slot: "same_slot ?vj s s2" by (simp add: same_slot_def s2_def b1)
    note fr = other_file_frame[OF j(3) ok2 slot]
    have fj: "file_blocks ?vj s \<subseteq> data_used fs s" using j(3) by (simp add: file_wf_def)
    have "i \<noteq> unat blk \<and> i \<notin> bitmap_region ?ib" if "i \<in> file_blocks ?vj s" for i
    proof -
      have "i \<in> data_used fs s" using that fj by blast
      then have ge: "unat (data_area_start_block fs) \<le> i" by (rule data_used_bounds(2))
      then show ?thesis
        using area_not_data(3)[OF lay(1) area] p(3) lay(1) by (auto simp: bitmap_region_def layout_ok_def)
    qed
    then have eq: "blocks s2 i = blocks s i" if "i \<in> file_blocks ?vj s" for i
      using that fr1(2) by (simp add: s2_def)
    have us: "file_blocks ?vj s \<subseteq> data_used fs s2" using fj du by (simp add: data_used_def)
    show ?thesis using fr[OF eq us] slot by (simp add: same_slot_def the_inode_def)
  qed
  have "unat blk \<noteq> 0" "0 \<notin> bitmap_region ?ib"
    using area lay(1) p(3) by (auto simp: in_inode_area_def layout_ok_def bitmap_region_def)
  then have sb: "blocks s2 0 = blocks s 0" using fr1(2)[of 0] by (simp add: s2_def)
  have "alloc_inode fs s = Inr (of_nat k, s1)" using a(1) by (simp add: alloc_inode_def)
  then show ?thesis
    using p(1,2) mb a(4,5) iu ok2 du wf2 ino others sb
    by (intro exI[of _ k] exI[of _ s1] exI[of _ s2] exI[of _ blk] exI[of _ off]) (simp add: inode_used_def)
qed

text \<open>Any name \<open>DirEntry::new\<close> accepts, that is of at most 28 bytes, makes an entry.\<close>

lemma vfs_create_entry:
  fixes fs d s
  defines "vi \<equiv> inode_pos fs d" and "size' \<equiv> length (content (inode_pos fs d) s) + 32"
  assumes dir: "dir_ok fs vi s" and d: "d \<in> inode_used fs s" and name: "length name \<le> 28"
    and fit: "bitmap_maximum (inode_bitmap fs) < 2 ^ 32" "size' < 2 ^ 32" "data_blocks_of (of_nat size') \<le> max_blocks"
    and free: "inode_used fs s \<noteq> {..<bitmap_maximum (inode_bitmap fs)}"
    and room: "card (bitmap_used (data_bitmap fs) s) +
        (total_blocks (of_nat size') - total_blocks (fsize (the_inode vi s))) \<le> bitmap_maximum (data_bitmap fs)"
  shows "\<exists>k s' e. dir_entry_new name (of_nat k) = Inr e \<and> vfs_create fs vi name s = Inr (Some (inode_pos fs k), s') \<and>
           k \<notin> inode_used fs s \<and> inode_used fs s' = insert k (inode_used fs s) \<and>
           dir_ok fs vi s' \<and> dirents (content vi s') = dirents (content vi s) @ [e] \<and> inode_number e = of_nat k \<and>
           unat (of_nat k :: u32) = k \<and>
           (\<exists>blk off. get_disk_inode_pos fs (of_nat k) = Inr (blk, off) \<and> vinode_new blk off = inode_pos fs k) \<and>
           file_wf fs (inode_pos fs k) s' \<and> content (inode_pos fs k) s' = [] \<and>
           (\<forall>j. j \<in> inode_used fs s \<and> j \<noteq> d \<and> file_wf fs (inode_pos fs j) s \<and> separate vi (inode_pos fs j) s \<longrightarrow>
              kept fs (inode_pos fs j) s s') \<and>
           file_blocks (inode_pos fs k) s' = {} \<and> k < bitmap_maximum (inode_bitmap fs) \<and>
           the_inode (inode_pos fs k) s' = inode_initialize FileType \<and>
           data_used fs s' = data_used fs s \<union> file_blocks vi s' \<and>
           file_blocks vi s' \<inter> data_used fs s = file_blocks vi s \<and> blocks s' 0 = blocks s 0"
proof -
  have fw: "file_wf fs vi s" "is_dir (the_inode vi s)" "32 dvd length (content vi s)"
    using dir by (simp_all add: dir_ok_def)
  have ok: "fs_ok fs s" using fw(1) by (simp add: file_wf_def)
  have dm: "j < bitmap_maximum (inode_bitmap fs)" if "j \<in> inode_used fs s" for j
    using that bma.used_bound by (auto simp: inode_used_def)
  obtain k s1 s2 blk off where f: "alloc_inode fs s = Inr (of_nat k, s1)"
      "get_disk_inode_pos fs (of_nat k) = Inr (blk, off)" "vinode_new blk off = inode_pos fs k"
      "modify_block (unat blk) (\<lambda>b. Inr ((), encode_inode off (inode_initialize FileType) b)) s1 = Inr ((), s2)"
      "k < bitmap_maximum (inode_bitmap fs)" "k \<notin> inode_used fs s"
      "inode_used fs s2 = insert k (inode_used fs s)" "fs_ok fs s2"
      "bitmap_used (data_bitmap fs) s2 = bitmap_used (data_bitmap fs) s"
      "file_wf fs (inode_pos fs k) s2" "the_inode (inode_pos fs k) s2 = inode_initialize FileType"
      "\<And>j. j < bitmap_maximum (inode_bitmap fs) \<Longrightarrow> j \<noteq> k \<Longrightarrow> file_wf fs (inode_pos fs j) s \<Longrightarrow>
         file_wf fs (inode_pos fs j) s2 \<and> content (inode_pos fs j) s2 = content (inode_pos fs j) s \<and>
         the_inode (inode_pos fs j) s2 = the_inode (inode_pos fs j) s \<and>
         file_blocks (inode_pos fs j) s2 = file_blocks (inode_pos fs j) s"
      "blocks s2 0 = blocks s 0"
    using fresh_inode[OF ok fit(1) free] by blast
  have dk: "d \<noteq> k" using d f(6) by blast
  have v2: "file_wf fs vi s2" "content vi s2 = content vi s" "the_inode vi s2 = the_inode vi s"
      "file_blocks vi s2 = file_blocks vi s"
    using f(12)[OF dm[OF d] dk] fw(1) by (simp_all add: vi_def)
  obtain e where e: "dir_entry_new name (of_nat k) = Inr e" "length (entry_name e) = 28"
      "inode_number e = of_nat k"
    using name by (auto simp: dir_entry_new_eq)
  have la: "length (as_bytes e) = 32" using e(2) by simp
  have sz: "length (content vi s2) + length (as_bytes e) = size'" by (simp add: la v2(2)[unfolded vi_def] vi_def size'_def)
  have ne: "as_bytes e \<noteq> []" using la by auto
  obtain s3 where w: "vfs_write_at fs vi (length (content vi s2)) (as_bytes e) s2 = Inr (length (as_bytes e), s3)"
      "file_wf fs vi s3" "spliced (length (content vi s2)) (as_bytes e) (content vi s2) (content vi s3)"
      "itype (the_inode vi s3) = itype (the_inode vi s2)"
      "\<And>vj. file_wf fs vj s2 \<Longrightarrow> separate vi vj s2 \<Longrightarrow> kept fs vj s2 s3"
      "\<And>i. i < unat (inode_area_start_block fs) \<Longrightarrow> blocks s3 i = blocks s2 i"
      "data_used fs s3 = data_used fs s2 \<union> file_blocks vi s3"
      "file_blocks vi s3 \<inter> data_used fs s2 = file_blocks vi s2"
    using vfs_write_at_ok[OF v2(1) ne, of "length (content vi s2)"] fit(2,3) room unfolding sz f(9) v2(3) by blast
  have c3: "content vi s3 = content vi s @ as_bytes e" using spliced_append[OF w(3)] by (simp add: v2(2))
  have ds: "dirents (content vi s3) = dirents (content vi s) @ [e]"
    unfolding c3 dirents_append[OF fw(3) la] using dir_entry_round_trip[OF e(2)] by simp
  have ap: "modify_disk_inode vi (append_dirent fs name (of_nat k)) s2 = Inr ((), s3)"
    using append_is_write[OF _ e(1,2) _ _ w(1)] f(8) fw(3) fit(2) v2(2)
    by (simp add: fs_ok_def size'_def vi_def[symmetric])
  have h3: "held s3 = {}" using w(2) by (simp add: file_wf_def fs_ok_def)
  have call: "vfs_create fs vi name s = Inr (Some (inode_pos fs k), s3)"
    using f(1-4) ap h3 by (simp add: vfs_create_def sync_all_def)
  have dw: "dir_ok fs vi s3"
  proof -
    have "32 dvd length (content vi s3)" using fw(3) by (simp add: c3 la)
    moreover have "is_dir (the_inode vi s3)" using w(4) fw(2) by (simp add: is_dir_def v2(3))
    ultimately show ?thesis using w(2) by (simp add: dir_ok_def)
  qed
  have uk: "unat (of_nat k :: u32) = k" using f(5) fit(1) by (intro unat_of_nat_u32) simp
  have iu: "inode_used fs s3 = insert k (inode_used fs s)"
  proof -
    have "blocks s3 i = blocks s2 i" if "i \<in> bitmap_region (inode_bitmap fs)" for i
      using that ok by (intro w(6)) (auto simp: fs_ok_def layout_ok_def bitmap_region_def)
    then show ?thesis using bitmap_used_frame[of "inode_bitmap fs" s3 s2] f(7) by (simp add: inode_used_def)
  qed
  have sep: "separate vi (inode_pos fs k) s2"
    using inode_pos_separate[OF dk] f(11)
    by (simp add: separate_def vi_def file_blocks_def demo_empty(1,2))
  have "file_blocks (inode_pos fs k) s2 = {}" by (simp add: file_blocks_def f(11) demo_empty(1,2))
  moreover have "content (inode_pos fs k) s2 = []" by (simp add: content_def file_bytes_def f(11) inode_initialize_def)
  ultimately have kk: "file_wf fs (inode_pos fs k) s3" "content (inode_pos fs k) s3 = []"
      "file_blocks (inode_pos fs k) s3 = {}" "the_inode (inode_pos fs k) s3 = inode_initialize FileType"
    using w(5)[OF f(10) sep] f(11) by (simp_all add: kept_def)
  have du: "data_used fs s3 = data_used fs s \<union> file_blocks vi s3"
      "file_blocks vi s3 \<inter> data_used fs s = file_blocks vi s"
    using w(7,8) f(9) v2(4) by (simp_all add: data_used_def)
  have "0 < unat (inode_area_start_block fs)" using ok by (simp add: fs_ok_def layout_ok_def)
  from w(6)[OF this] have sb: "blocks s3 0 = blocks s 0" using f(13) by simp
  have others: "kept fs (inode_pos fs j) s s3"
    if j: "j \<in> inode_used fs s" "j \<noteq> d" "file_wf fs (inode_pos fs j) s" "separate vi (inode_pos fs j) s" for j
  proof -
    have "j \<noteq> k" using j(1) f(6) by blast
    note g = f(12)[OF dm[OF j(1)] this j(3)]
    have "separate vi (inode_pos fs j) s2" using j(4) g v2(4) by (simp add: separate_def)
    then show ?thesis using w(5)[of "inode_pos fs j"] g by (simp add: kept_def)
  qed
  show ?thesis
    using call f(2,3,5,6) iu dw ds e(1,3) uk kk others du sb
    by (intro exI[of _ k] exI[of _ s3] exI[of _ e]) simp
qed

lemma vfs_create_ok:
  fixes fs d s
  defines "vi \<equiv> inode_pos fs d" and "size' \<equiv> length (content (inode_pos fs d) s) + 32"
  assumes dir: "dir_wf fs vi s" and d: "d \<in> inode_used fs s" and name: "valid_name name"
    and fit: "bitmap_maximum (inode_bitmap fs) < 2 ^ 32" "size' < 2 ^ 32" "data_blocks_of (of_nat size') \<le> max_blocks"
    and free: "inode_used fs s \<noteq> {..<bitmap_maximum (inode_bitmap fs)}"
    and room: "card (bitmap_used (data_bitmap fs) s) +
        (total_blocks (of_nat size') - total_blocks (fsize (the_inode vi s))) \<le> bitmap_maximum (data_bitmap fs)"
  shows "\<exists>k s'. vfs_create fs vi name s = Inr (Some (inode_pos fs k), s') \<and>
           k \<notin> inode_used fs s \<and> inode_used fs s' = insert k (inode_used fs s) \<and>
           dir_wf fs vi s' \<and> dir_list vi s' = dir_list vi s @ [(name, of_nat k)] \<and>
           vfs_readdir vi s' = Inr (map fst (dir_list vi s) @ [name]) \<and>
           (if map_of (dir_list vi s) name = None
            then vfs_find fs vi name s' = Inr (Some (inode_pos fs k)) else True) \<and>
           file_wf fs (inode_pos fs k) s' \<and> content (inode_pos fs k) s' = [] \<and>
           (\<forall>j. j \<in> inode_used fs s \<and> j \<noteq> d \<and> file_wf fs (inode_pos fs j) s \<and> separate vi (inode_pos fs j) s \<longrightarrow>
              kept fs (inode_pos fs j) s s') \<and>
           file_blocks (inode_pos fs k) s' = {} \<and> k < bitmap_maximum (inode_bitmap fs) \<and>
           the_inode (inode_pos fs k) s' = inode_initialize FileType \<and>
           data_used fs s' = data_used fs s \<union> file_blocks vi s' \<and>
           file_blocks vi s' \<inter> data_used fs s = file_blocks vi s \<and> blocks s' 0 = blocks s 0"
proof -
  have ok: "dir_ok fs vi s" and names: "\<forall>e \<in> set (dirents (content vi s)). dir_entry_name e = Inr (name_of e)"
    using dir by (simp_all add: dir_wf_iff)
  have len: "length name \<le> 28" using name by (simp add: valid_name_def)
  obtain k s' e where r: "dir_entry_new name (of_nat k) = Inr e"
      "vfs_create fs vi name s = Inr (Some (inode_pos fs k), s')" "k \<notin> inode_used fs s"
      "inode_used fs s' = insert k (inode_used fs s)" "dir_ok fs vi s'"
      "dirents (content vi s') = dirents (content vi s) @ [e]" "inode_number e = of_nat k"
      "\<exists>blk off. get_disk_inode_pos fs (of_nat k) = Inr (blk, off) \<and> vinode_new blk off = inode_pos fs k"
      "file_wf fs (inode_pos fs k) s'" "content (inode_pos fs k) s' = []"
      "\<forall>j. j \<in> inode_used fs s \<and> j \<noteq> d \<and> file_wf fs (inode_pos fs j) s \<and> separate vi (inode_pos fs j) s \<longrightarrow>
              kept fs (inode_pos fs j) s s'"
      "file_blocks (inode_pos fs k) s' = {}" "k < bitmap_maximum (inode_bitmap fs)"
      "the_inode (inode_pos fs k) s' = inode_initialize FileType"
      "data_used fs s' = data_used fs s \<union> file_blocks vi s'"
      "file_blocks vi s' \<inter> data_used fs s = file_blocks vi s" "blocks s' 0 = blocks s 0"
    using vfs_create_entry[OF ok[unfolded vi_def] d len fit[unfolded size'_def] free room[unfolded vi_def size'_def]]
    unfolding vi_def by blast
  have e: "dir_entry_name e = Inr name" using valid_name_entry[OF name, of "of_nat k"] r(1) by auto
  have dw: "dir_wf fs vi s'" using r(5) names e by (simp add: dir_wf_iff r(6) name_of_def)
  have dl: "dir_list vi s' = dir_list vi s @ [(name, of_nat k)]"
    by (simp add: dir_list_def r(6,7) e name_of_def)
  have fd: "vfs_find fs vi name s' = Inr (Some (inode_pos fs k))" if "map_of (dir_list vi s) name = None"
  proof -
    have "map_of (dir_list vi s') name = Some (of_nat k)" using that by (simp add: dl map_add_def)
    moreover have "held s' = {}" using r(9) by (simp add: file_wf_def fs_ok_def)
    ultimately show ?thesis
      using find_inode_id_eq[OF dw] r(8) by (auto simp: vfs_find_def read_disk_inode_free)
  qed
  show ?thesis
    using r(2-4,9-17) dw dl vfs_readdir_eq[OF dw] fd
    by (intro exI[of _ k] exI[of _ s']) simp
qed

text \<open>C17: Creating a file in a well-formed directory, with room on the device, under a \<open>valid_name\<close>
  (at most 27 bytes, UTF-8 without a zero byte): the call returns the handle of an inode that was free and now holds an empty file; the directory lists one
  more name, after the old ones, with that inode; \<open>readdir\<close> returns the names; a name that was
  not there, which \<open>create\<close> leaves to the caller to look up first, is found again with exactly that handle; and every other file keeps its content.\<close>

theorem create_then_find:
  fixes fs d s
  defines "vi \<equiv> inode_pos fs d" and "size' \<equiv> length (content (inode_pos fs d) s) + 32"
  assumes dir: "dir_wf fs vi s" and d: "d \<in> inode_used fs s" and name: "valid_name name"
    and fit: "bitmap_maximum (inode_bitmap fs) < 2 ^ 32" "size' < 2 ^ 32" "data_blocks_of (of_nat size') \<le> max_blocks"
    and free: "inode_used fs s \<noteq> {..<bitmap_maximum (inode_bitmap fs)}"
    and room: "card (bitmap_used (data_bitmap fs) s) +
        (total_blocks (of_nat size') - total_blocks (fsize (the_inode vi s))) \<le> bitmap_maximum (data_bitmap fs)"
  shows "\<exists>k s'. vfs_create fs vi name s = Inr (Some (inode_pos fs k), s') \<and>
           k \<notin> inode_used fs s \<and> inode_used fs s' = insert k (inode_used fs s) \<and>
           dir_wf fs vi s' \<and> dir_list vi s' = dir_list vi s @ [(name, of_nat k)] \<and>
           vfs_readdir vi s' = Inr (map fst (dir_list vi s) @ [name]) \<and>
           (if map_of (dir_list vi s) name = None
            then vfs_find fs vi name s' = Inr (Some (inode_pos fs k)) else True) \<and>
           file_wf fs (inode_pos fs k) s' \<and> content (inode_pos fs k) s' = [] \<and>
           (\<forall>j. j \<in> inode_used fs s \<and> j \<noteq> d \<and> file_wf fs (inode_pos fs j) s \<and> separate vi (inode_pos fs j) s \<longrightarrow>
              file_wf fs (inode_pos fs j) s' \<and> content (inode_pos fs j) s' = content (inode_pos fs j) s)"
  unfolding vi_def
  by (rule ex_forward[OF vfs_create_ok[OF assms(3-10)[unfolded vi_def size'_def]]], erule ex_forward)
    (simp add: kept_def)

text \<open>An empty directory in inode 0, as \<open>efs_create\<close> leaves it, receives a first file.\<close>

definition root_store :: store where
  "root_store =
     \<lparr>blocks = (\<lambda>i. if i = 1 then set_u64_at 0 1 (replicate 512 0)
               else if i = 2 then encode_inode 0 (inode_initialize DirectoryType) (replicate 512 0)
               else replicate 512 0), held = {}\<rparr>"

lemma root_facts:
  "the_inode (inode_pos demo_fs 0) root_store = inode_initialize DirectoryType"
  "fs_ok demo_fs root_store" "bitmap_used (data_bitmap demo_fs) root_store = {}"
  "content (inode_pos demo_fs 0) root_store = []"
proof -
  have l: "length (direct (inode_initialize DirectoryType)) = 28"
    by (simp add: inode_initialize_def inode_direct_count_def)
  show ino: "the_inode (inode_pos demo_fs 0) root_store = inode_initialize DirectoryType"
    using inode_round_trip[OF l, of 0 "replicate 512 0"]
    by (simp add: the_inode_def inode_pos_def demo_fs_def root_store_def)
  show "content (inode_pos demo_fs 0) root_store = []"
    by (simp add: content_def file_bytes_def ino inode_initialize_def)
  show "fs_ok demo_fs root_store"
    using l by (simp add: fs_ok_def layout_ok_def numbers_fit_def demo_fs_def bitmap_new_def
        bitmap_maximum_eq store_ok_def root_store_def)
  show "bitmap_used (data_bitmap demo_fs) root_store = {}"
    by (intro zero_bitmap_unused) (auto simp: bitmap_region_def demo_fs_def bitmap_new_def root_store_def)
qed

lemma create_then_find_witness:
  "\<exists>k s'. vfs_create demo_fs (inode_pos demo_fs 0) [0x61] root_store = Inr (Some (inode_pos demo_fs k), s') \<and>
     vfs_find demo_fs (inode_pos demo_fs 0) [0x61] s' = Inr (Some (inode_pos demo_fs k))"
proof -
  let ?vi = "inode_pos demo_fs 0"
  have m: "bitmap_maximum (inode_bitmap demo_fs) = 4096" "bitmap_maximum (data_bitmap demo_fs) = 4096"
    by (simp_all add: demo_fs_def bitmap_new_def bitmap_maximum_eq)
  have iu: "0 \<in> inode_used demo_fs root_store" "1 \<notin> inode_used demo_fs root_store"
  proof -
    define Z :: block where "Z = replicate 512 0"
    have len: "length Z = 512" by (simp add: Z_def)
    have b: "blk_bit (set_u64_at 0 1 Z) 0" "\<not> blk_bit (set_u64_at 0 1 Z) 1"
      by (subst first_bit_set[OF len]; simp)+
    have "blocks root_store 1 = set_u64_at 0 1 Z" by (simp only: root_store_def Z_def store.select_convs if_True refl)
    moreover have "start_block_id (inode_bitmap demo_fs) = 1" by (simp add: demo_fs_def bitmap_new_def)
    ultimately have "bitmap_bit (inode_bitmap demo_fs) root_store 0" "\<not> bitmap_bit (inode_bitmap demo_fs) root_store 1"
      using b by (simp_all only: bitmap_bit_def div_0 mod_0 add_0) simp_all
    then show "0 \<in> inode_used demo_fs root_store" "1 \<notin> inode_used demo_fs root_store"
      by (simp_all add: inode_used_def bitmap_used_def m)
  qed
  have full: "inode_used demo_fs root_store \<noteq> {..<bitmap_maximum (inode_bitmap demo_fs)}"
  proof
    assume e: "inode_used demo_fs root_store = {..<bitmap_maximum (inode_bitmap demo_fs)}"
    have "1 \<in> {..<bitmap_maximum (inode_bitmap demo_fs)}" unfolding m by simp
    then show False unfolding e[symmetric] using iu(2) by contradiction
  qed
  have "inode_ok (inode_initialize DirectoryType)"
    by (simp add: inode_ok_def inode_initialize_def inode_direct_count_def)
  moreover have "in_inode_area demo_fs ?vi"
    by (simp add: in_inode_area_def inode_pos_def demo_fs_def bitmap_new_def)
  moreover have "store_ok (locked ?vi root_store)" using root_facts(2) by (simp add: fs_ok_def store_ok_def)
  moreover have "is_dir (inode_initialize DirectoryType)" by (simp add: is_dir_def inode_initialize_def)
  ultimately have dir: "dir_wf demo_fs ?vi root_store"
    using root_facts
    by (simp add: dir_wf_def file_wf_def inode_wf_def demo_empty(1,2) file_blocks_def dirents_def)
  have t: "total_blocks 32 = 1" "total_blocks 0 = 0" "data_blocks_of 32 = 1"
    by (simp_all add: total_blocks_def data_blocks_of_def div_ceil_def layout_consts)
  have name: "valid_name [0x61]" by (simp add: valid_name_def)
  have h: "length (content ?vi root_store) + 32 = 32" by (simp add: root_facts(4))
  have f1: "bitmap_maximum (inode_bitmap demo_fs) < 2 ^ 32" unfolding m by simp
  have f2: "data_blocks_of (of_nat (32 :: nat)) \<le> max_blocks" by (simp add: t max_blocks_def)
  have f3: "card (bitmap_used (data_bitmap demo_fs) root_store) +
      (total_blocks (of_nat (32 :: nat)) - total_blocks (fsize (the_inode ?vi root_store))) \<le>
      bitmap_maximum (data_bitmap demo_fs)"
    unfolding root_facts(1,3) m by (simp add: t inode_initialize_def)
  have e: "dir_list ?vi root_store = []" by (simp add: dir_list_def root_facts(4) dirents_def)
  obtain k s' where "vfs_create demo_fs ?vi [0x61] root_store = Inr (Some (inode_pos demo_fs k), s')"
      "if map_of (dir_list ?vi root_store) [0x61] = None
       then vfs_find demo_fs ?vi [0x61] s' = Inr (Some (inode_pos demo_fs k)) else True"
    using create_then_find[OF dir iu(1) name f1, unfolded h, OF _ f2 full f3] by auto
  then show ?thesis unfolding e by auto
qed

end
