(* ===== verification/Block_Cache.thy ===== *)
theory Block_Cache
  imports Block_Store
begin

text \<open>
  \<open>tg-rcore-tutorial-easy-fs/src/block_cache.rs\<close>: the cache of 16 blocks with write back.
  The block device is external; the model's device is the function from block ids to the 512
  bytes that \<open>read_block\<close> returns, updated by \<open>write_block\<close> (\<open>block_dev.rs\<close>).

  A queue entry is an \<open>Arc<Mutex<BlockCache>>\<close>: the cached block, the number of handles
  beside the queue's own (the strong count minus one), and whether the lock is taken.

  The locale \<open>block_provider\<close> states what the file system needs of such a cache; inside it,
  an access is shown to simulate the access to the plain store of \<open>Block_Store\<close>. The
  interpretation shows that the cache provides it, as long as fewer than 16 blocks are in
  use at once: hits, loads and evictions never change the content the file system sees, and
  after a sync the device holds all of it.
\<close>

section \<open>One cached block\<close>

record block_cache =
  cache :: block
  block_id :: nat
  modified :: bool

type_synonym device = "nat \<Rightarrow> block"

definition block_cache_new :: "nat \<Rightarrow> device \<Rightarrow> block_cache" where
  "block_cache_new i dev = \<lparr>cache = dev i, block_id = i, modified = False\<rparr>"

definition addr_of_offset :: "nat \<Rightarrow> block_cache \<Rightarrow> nat res" where
  "addr_of_offset off c = (if off < length (cache c) then Inr off else Inl IndexOutOfBounds)"

definition get_ref :: "nat \<Rightarrow> nat \<Rightarrow> block_cache \<Rightarrow> u8 list res" where
  "get_ref type_size off c =
     bind_res (assert_res (off + type_size \<le> block_sz)) (\<lambda>_.
       bind_res (addr_of_offset off c) (\<lambda>addr. Inr (slice addr type_size (cache c))))"

definition get_mut :: "nat \<Rightarrow> nat \<Rightarrow> block_cache \<Rightarrow> (u8 list \<times> block_cache) res" where
  "get_mut type_size off c =
     bind_res (assert_res (off + type_size \<le> block_sz)) (\<lambda>_.
       let c1 = c\<lparr>modified := True\<rparr> in
       bind_res (addr_of_offset off c1) (\<lambda>addr. Inr (slice addr type_size (cache c1), c1)))"

definition cache_read :: "nat \<Rightarrow> nat \<Rightarrow> (u8 list \<Rightarrow> 'v) \<Rightarrow> block_cache \<Rightarrow> 'v res" where
  "cache_read type_size off f c = bind_res (get_ref type_size off c) (\<lambda>x. Inr (f x))"

text \<open>The closure of \<open>modify\<close> writes through the reference: its result replaces the bytes.\<close>

definition cache_modify ::
  "nat \<Rightarrow> nat \<Rightarrow> (u8 list \<Rightarrow> 'v \<times> u8 list) \<Rightarrow> block_cache \<Rightarrow> ('v \<times> block_cache) res" where
  "cache_modify type_size off f c =
     bind_res (get_mut type_size off c) (\<lambda>(x, c1).
       case f x of (v, y) \<Rightarrow> Inr (v, c1\<lparr>cache := overwrite off y (cache c1)\<rparr>))"

definition cache_sync :: "block_cache \<Rightarrow> device \<Rightarrow> block_cache \<times> device" where
  "cache_sync c dev =
     (if modified c then (c\<lparr>modified := False\<rparr>, dev(block_id c := cache c)) else (c, dev))"

definition cache_drop :: "block_cache \<Rightarrow> device \<Rightarrow> device" where
  "cache_drop c dev = snd (cache_sync c dev)"

section \<open>The manager\<close>

definition block_cache_size :: nat where
  "block_cache_size = 16"

record cache_cell =
  cell :: block_cache
  handles :: nat
  locked :: bool

record cache_manager =
  device :: device
  queue :: "(nat \<times> cache_cell) list"

definition cache_manager_new :: "device \<Rightarrow> cache_manager" where
  "cache_manager_new dev = \<lparr>device = dev, queue = []\<rparr>"

text \<open>Removing an entry drops the last handle of its block, which writes it back.\<close>

definition evict :: "nat \<Rightarrow> cache_manager \<Rightarrow> cache_manager" where
  "evict idx m =
     m\<lparr>device := cache_drop (cell (snd (queue m ! idx))) (device m),
       queue := remove_at idx (queue m)\<rparr>"

definition get_block_cache :: "nat \<Rightarrow> cache_manager \<Rightarrow> cache_manager res" where
  "get_block_cache i m =
     (case find_index (\<lambda>(k, _). k = i) (queue m) of
        Some idx \<Rightarrow>
          let c = snd (queue m ! idx)
          in Inr (m\<lparr>queue := (queue m)[idx := (i, c\<lparr>handles := handles c + 1\<rparr>)]\<rparr>)
      | None \<Rightarrow>
          bind_res
            (if length (queue m) = block_cache_size then
               (case find_index (\<lambda>(_, c). handles c = 0) (queue m) of
                  Some idx \<Rightarrow> Inr (evict idx m)
                | None \<Rightarrow> Inl OutOfBlockCache)
             else Inr m)
            (\<lambda>m1.
              let c = \<lparr>cell = block_cache_new i (device m1), handles = 1, locked = False\<rparr>
              in Inr (m1\<lparr>queue := queue m1 @ [(i, c)]\<rparr>)))"

definition block_cache_sync_all :: "cache_manager \<Rightarrow> cache_manager res" where
  "block_cache_sync_all m =
     (if \<exists>(k, c) \<in> set (queue m). locked c then Inl Deadlock
      else Inr (m\<lparr>device := fold (\<lambda>(k, c) dev. snd (cache_sync (cell c) dev)) (queue m) (device m),
                  queue := map (\<lambda>(k, c). (k, c\<lparr>cell := fst (cache_sync (cell c) (device m))\<rparr>)) (queue m)\<rparr>))"

section \<open>Using an entry\<close>

text \<open>\<open>lookup\<close> and \<open>update_cell\<close> reach an entry by its block id.\<close>

definition lookup :: "nat \<Rightarrow> cache_manager \<Rightarrow> cache_cell option" where
  "lookup i m = map_of (queue m) i"

definition update_cell :: "nat \<Rightarrow> (cache_cell \<Rightarrow> cache_cell) \<Rightarrow> cache_manager \<Rightarrow> cache_manager" where
  "update_cell i f m = m\<lparr>queue := map (\<lambda>(k, c). (k, if k = i then f c else c)) (queue m)\<rparr>"

text \<open>\<open>get_block_cache(i).lock()\<close>, and the end of the statement that did it.\<close>

definition cm_acquire :: "nat \<Rightarrow> cache_manager \<Rightarrow> cache_manager res" where
  "cm_acquire i m =
     bind_res (get_block_cache i m) (\<lambda>m1.
       case lookup i m1 of
         None \<Rightarrow> Inl UnwrapNone
       | Some c \<Rightarrow> if locked c then Inl Deadlock
                   else Inr (update_cell i (\<lambda>c. c\<lparr>locked := True\<rparr>) m1))"

definition cm_release :: "nat \<Rightarrow> cache_manager \<Rightarrow> cache_manager" where
  "cm_release i = update_cell i (\<lambda>c. c\<lparr>locked := False, handles := handles c - 1\<rparr>)"

definition cm_poke :: "nat \<Rightarrow> block \<Rightarrow> cache_manager \<Rightarrow> cache_manager" where
  "cm_poke i b =
     update_cell i (\<lambda>c. c\<lparr>cell := (cell c)\<lparr>cache := b, modified := True\<rparr>\<rparr>)"

text \<open>What the file system sees of a block: the cached copy, when there is one.\<close>

definition cm_peek :: "cache_manager \<Rightarrow> nat \<Rightarrow> block" where
  "cm_peek m i = (case lookup i m of Some c \<Rightarrow> cache (cell c) | None \<Rightarrow> device m i)"

definition cm_locks :: "cache_manager \<Rightarrow> nat set" where
  "cm_locks m = {i. \<exists>c. lookup i m = Some c \<and> locked c}"

section \<open>What the file system needs of a cache\<close>

locale block_provider =
  fixes acquire :: "nat \<Rightarrow> 's \<Rightarrow> 's res"
    and release :: "nat \<Rightarrow> 's \<Rightarrow> 's"
    and poke :: "nat \<Rightarrow> block \<Rightarrow> 's \<Rightarrow> 's"
    and peek :: "'s \<Rightarrow> nat \<Rightarrow> block"
    and locks :: "'s \<Rightarrow> nat set"
    and ok :: "'s \<Rightarrow> bool"
    and capacity :: nat
  assumes acquire_free: "ok s \<Longrightarrow> i \<notin> locks s \<Longrightarrow> card (locks s) < capacity \<Longrightarrow>
        \<exists>s'. acquire i s = Inr s' \<and> ok s' \<and> peek s' = peek s \<and> locks s' = insert i (locks s)"
    and acquire_held: "ok s \<Longrightarrow> i \<in> locks s \<Longrightarrow> acquire i s = Inl Deadlock"
    and poke_held: "ok s \<Longrightarrow> i \<in> locks s \<Longrightarrow> length b = block_sz \<Longrightarrow>
        ok (poke i b s) \<and> peek (poke i b s) = (peek s)(i := b) \<and> locks (poke i b s) = locks s"
    and release_held: "ok s \<Longrightarrow> i \<in> locks s \<Longrightarrow>
        ok (release i s) \<and> peek (release i s) = peek s \<and> locks (release i s) = locks s - {i}"
begin

definition view :: "'s \<Rightarrow> store" where
  "view s = \<lparr>blocks = peek s, held = locks s\<rparr>"

definition read_with :: "nat \<Rightarrow> (block \<Rightarrow> 'v res) \<Rightarrow> 's \<Rightarrow> ('v \<times> 's) res" where
  "read_with i f s =
     bind_res (acquire i s) (\<lambda>s1. bind_res (f (peek s1 i)) (\<lambda>v. Inr (v, release i s1)))"

definition modify_with ::
  "nat \<Rightarrow> (block \<Rightarrow> 's \<Rightarrow> ('v \<times> block \<times> 's) res) \<Rightarrow> 's \<Rightarrow> ('v \<times> 's) res" where
  "modify_with i f s =
     bind_res (acquire i s) (\<lambda>s1.
       bind_res (f (peek s1 i) s1) (\<lambda>(v, b, s2). Inr (v, release i (poke i b s2))))"

text \<open>Two runs match: the same panic, or the same value in states with the same view.\<close>

definition matches :: "('v \<times> 's) res \<Rightarrow> ('v \<times> store) res \<Rightarrow> bool" where
  "matches r t \<longleftrightarrow>
     (case r of
        Inl e \<Rightarrow> t = Inl e
      | Inr (v, s) \<Rightarrow> ok s \<and> t = Inr (v, view s))"

definition body_matches ::
  "nat set \<Rightarrow> ('v \<times> block \<times> 's) res \<Rightarrow> ('v \<times> block \<times> store) res \<Rightarrow> bool" where
  "body_matches L r t \<longleftrightarrow>
     (case r of
        Inl e \<Rightarrow> t = Inl e
      | Inr (v, b, s) \<Rightarrow> ok s \<and> locks s = L \<and> length b = block_sz \<and> t = Inr (v, b, view s))"

lemma view_simps [simp]: "blocks (view s) = peek s" "held (view s) = locks s"
  by (simp_all add: view_def)

lemma read_with_matches:
  assumes ok: "ok s" and room: "card (locks s) < capacity"
  shows "matches (read_with i f s) (bind_res (read_block i f (view s)) (\<lambda>v. Inr (v, view s)))"
proof (cases "i \<in> locks s")
  case True
  with acquire_held[OF ok] show ?thesis
    by (simp add: matches_def read_with_def read_block_held)
next
  case False
  obtain s' where s': "acquire i s = Inr s'" "ok s'" "peek s' = peek s" "locks s' = insert i (locks s)"
    using acquire_free[OF ok False room] by blast
  have rel: "ok (release i s')" "view (release i s') = view s"
    using release_held[OF s'(2), of i] s' False by (auto simp: view_def)
  show ?thesis
    using s' rel False
    by (cases "f (peek s i)") (auto simp: matches_def read_with_def)
qed

lemma modify_with_matches:
  assumes ok: "ok s" and room: "card (locks s) < capacity"
    and body: "\<And>b s1. ok s1 \<Longrightarrow> locks s1 = insert i (locks s) \<Longrightarrow>
      body_matches (insert i (locks s)) (f b s1) (g b (view s1))"
  shows "matches (modify_with i f s) (with_block i g (view s))"
proof (cases "i \<in> locks s")
  case True
  with acquire_held[OF ok] show ?thesis
    by (simp add: matches_def modify_with_def with_block_def lock_block_def)
next
  case False
  obtain s1 where s1: "acquire i s = Inr s1" "ok s1" "peek s1 = peek s" "locks s1 = insert i (locks s)"
    using acquire_free[OF ok False room] by blast
  have v1: "view s1 = (view s)\<lparr>held := insert i (locks s)\<rparr>" using s1 by (simp add: view_def)
  have R: "modify_with i f s = bind_res (f (peek s i) s1) (\<lambda>(v, b, s2). Inr (v, release i (poke i b s2)))"
    using s1 by (simp add: modify_with_def)
  have S: "with_block i g (view s) = bind_res (g (peek s i) (view s1)) (\<lambda>(v, b, s2).
         Inr (v, unlock_block i (put_block i b s2)))"
    using False by (simp add: with_block_free v1)
  note bm = body[OF s1(2,4), of "peek s i"]
  show ?thesis
  proof (cases "f (peek s i) s1")
    case (Inl e)
    with bm show ?thesis unfolding R S by (simp add: matches_def body_matches_def)
  next
    case (Inr x)
    obtain v b s2 where x: "x = (v, b, s2)" by (cases x)
    from bm Inr x have s2: "ok s2" "locks s2 = insert i (locks s)" "length b = block_sz"
      and g: "g (peek s i) (view s1) = Inr (v, b, view s2)"
      by (auto simp: body_matches_def)
    have p: "ok (poke i b s2)" "peek (poke i b s2) = (peek s2)(i := b)" "locks (poke i b s2) = locks s2"
      using poke_held[OF s2(1) _ s2(3), of i] s2(2) by auto
    have "ok (release i (poke i b s2))"
      "view (release i (poke i b s2)) = unlock_block i (put_block i b (view s2))"
      using release_held[OF p(1), of i] p s2(2) by (auto simp: view_def unlock_block_def put_block_def)
    with g Inr x show ?thesis unfolding R S by (simp add: matches_def)
  qed
qed

end

section \<open>The invariant of the cache\<close>

definition cell_ok :: "device \<Rightarrow> nat \<Rightarrow> cache_cell \<Rightarrow> bool" where
  "cell_ok dev k c \<longleftrightarrow>
     block_id (cell c) = k \<and> length (cache (cell c)) = block_sz \<and>
     (\<not> modified (cell c) \<longrightarrow> cache (cell c) = dev k) \<and> handles c = of_bool (locked c)"

definition cm_ok :: "cache_manager \<Rightarrow> bool" where
  "cm_ok m \<longleftrightarrow>
     distinct (map fst (queue m)) \<and> length (queue m) \<le> block_cache_size \<and>
     (\<forall>i. length (device m i) = block_sz) \<and>
     (\<forall>i c. lookup i m = Some c \<longrightarrow> cell_ok (device m) i c)"

lemma lookup_update_cell:
  "lookup i (update_cell j f m) = (if i = j then map_option f (lookup i m) else lookup i m)"
proof -
  have "map_of (map (\<lambda>(k, c). (k, if k = j then f c else c)) q) i =
      (if i = j then map_option f (map_of q i) else map_of q i)" for q
    by (induction q) auto
  then show ?thesis by (simp add: lookup_def update_cell_def)
qed

lemma update_cell_simps [simp]:
  "device (update_cell i f m) = device m" "length (queue (update_cell i f m)) = length (queue m)"
  "map fst (queue (update_cell i f m)) = map fst (queue m)"
  by (simp_all add: update_cell_def comp_def case_prod_beta)

lemma find_key_None: "find_index (\<lambda>(k, _). k = i) q = None \<longleftrightarrow> map_of q i = None"
  by (induction q) (auto split: if_splits)

lemma find_key_Some:
  "find_index (\<lambda>(k, _). k = i) q = Some idx \<Longrightarrow>
     idx < length q \<and> fst (q ! idx) = i \<and> map_of q i = Some (snd (q ! idx))"
  by (induction q arbitrary: idx) (force split: if_splits)+

lemma update_at_key:
  assumes d: "distinct (map fst q)" and k: "find_index (\<lambda>(k, _). k = i) q = Some idx"
  shows "q[idx := (i, f (snd (q ! idx)))] = map (\<lambda>(k, c). (k, if k = i then f c else c)) q"
proof (rule nth_equalityI)
  show "length (q[idx := (i, f (snd (q ! idx)))]) = length (map (\<lambda>(k, c). (k, if k = i then f c else c)) q)"
    by simp
  fix j assume "j < length (q[idx := (i, f (snd (q ! idx)))])"
  then have j: "j < length q" by simp
  note K = find_key_Some[OF k]
  have "j = idx \<longleftrightarrow> fst (q ! j) = i"
    using nth_eq_iff_index_eq[OF d, of j idx] j K by auto
  with j K show "q[idx := (i, f (snd (q ! idx)))] ! j = map (\<lambda>(k, c). (k, if k = i then f c else c)) q ! j"
    by (auto simp: case_prod_beta nth_list_update prod_eq_iff)
qed

lemma get_block_cache_hit:
  assumes "distinct (map fst (queue m))" "lookup i m = Some c"
  shows "get_block_cache i m = Inr (update_cell i (\<lambda>c. c\<lparr>handles := handles c + 1\<rparr>) m)"
proof -
  obtain idx where k: "find_index (\<lambda>(k, _). k = i) (queue m) = Some idx"
    using find_key_None[of i "queue m"] assms(2) by (cases "find_index (\<lambda>(k, _). k = i) (queue m)") (auto simp: lookup_def)
  from update_at_key[OF assms(1) k, of "\<lambda>c. c\<lparr>handles := handles c + 1\<rparr>"] k
  show ?thesis by (simp add: get_block_cache_def update_cell_def Let_def cong: if_cong)
qed

lemma map_of_remove_at:
  "distinct (map fst q) \<Longrightarrow> idx < length q \<Longrightarrow>
     map_of (remove_at idx q) = (map_of q)(fst (q ! idx) := None)"
proof (induction q arbitrary: idx)
  case (Cons x q)
  show ?case
  proof (cases idx)
    case 0
    have "map_of q (fst x) = None" using Cons.prems(1) by (simp add: map_of_eq_None_iff)
    with 0 show ?thesis by (cases x) (auto simp: fun_eq_iff)
  next
    case (Suc k)
    have "k < length q" using Cons.prems(2) Suc by simp
    then have "fst (q ! k) \<in> fst ` set q" by simp
    moreover have "fst x \<notin> fst ` set q" using Cons.prems(1) by simp
    ultimately have "fst (q ! k) \<noteq> fst x" by metis
    with Cons Suc show ?thesis by (cases x) (auto simp: fun_eq_iff)
  qed
qed simp

text \<open>An eviction changes neither the content seen nor the invariant.\<close>

lemma evict_ok:
  assumes ok: "cm_ok m" and idx: "idx < length (queue m)" and free: "handles (snd (queue m ! idx)) = 0"
  shows "cm_ok (evict idx m)" and "cm_peek (evict idx m) = cm_peek m"
    and "cm_locks (evict idx m) = cm_locks m" and "length (queue (evict idx m)) = length (queue m) - 1"
    and "lookup i m = None \<Longrightarrow> lookup i (evict idx m) = None"
proof -
  let ?k = "fst (queue m ! idx)" and ?c = "snd (queue m ! idx)"
  have d: "distinct (map fst (queue m))" using ok by (simp add: cm_ok_def)
  have look: "lookup j (evict idx m) = (if j = ?k then None else lookup j m)" for j
    using map_of_remove_at[OF d idx] by (simp add: lookup_def evict_def)
  have k: "lookup ?k m = Some ?c"
    using idx d by (simp add: lookup_def)
  then have c: "cell_ok (device m) ?k ?c" using ok by (simp add: cm_ok_def)
  have dev: "device (evict idx m) = (device m)(?k := cache (cell ?c))"
    using c by (auto simp: evict_def cache_drop_def cache_sync_def cell_ok_def)
  show "lookup i m = None \<Longrightarrow> lookup i (evict idx m) = None" by (simp add: look)
  show len: "length (queue (evict idx m)) = length (queue m) - 1"
    using idx by (simp add: evict_def length_remove_at)
  show "cm_locks (evict idx m) = cm_locks m"
    using look k c free by (auto simp: cm_locks_def cell_ok_def)
  show "cm_peek (evict idx m) = cm_peek m"
    using look k by (auto simp: cm_peek_def dev fun_eq_iff split: option.splits)
  have dd: "distinct (map fst (queue (evict idx m)))"
    using distinct_remove_at[OF d, of idx] by (simp add: evict_def map_remove_at)
  have "\<forall>i. length (device (evict idx m) i) = block_sz"
    using ok c by (simp add: dev cm_ok_def cell_ok_def)
  moreover have "\<forall>i c. lookup i (evict idx m) = Some c \<longrightarrow> cell_ok (device (evict idx m)) i c"
    using ok by (auto simp: look dev cm_ok_def cell_ok_def)
  moreover have "length (queue m) - 1 \<le> block_cache_size" using ok by (auto simp: cm_ok_def)
  ultimately show "cm_ok (evict idx m)"
    using dd len by (simp add: cm_ok_def)
qed

lemma locks_in_queue: "cm_locks m \<subseteq> set (map fst (queue m))"
  by (force simp: cm_locks_def lookup_def dest: map_of_SomeD)

lemma finite_cm_locks [simp]: "finite (cm_locks m)"
  by (rule finite_subset[OF locks_in_queue]) simp

lemma all_busy_locks:
  assumes ok: "cm_ok m" and busy: "find_index (\<lambda>(_, c). handles c = 0) (queue m) = None"
  shows "card (cm_locks m) = length (queue m)"
proof -
  have d: "distinct (map fst (queue m))" using ok by (simp add: cm_ok_def)
  have "set (map fst (queue m)) \<subseteq> cm_locks m"
  proof
    fix i assume "i \<in> set (map fst (queue m))"
    then obtain c where c: "lookup i m = Some c" by (cases "lookup i m") (auto simp: lookup_def map_of_eq_None_iff)
    then have "(i, c) \<in> set (queue m)" by (auto simp: lookup_def dest: map_of_SomeD)
    with busy have "handles c \<noteq> 0" by (auto simp: find_index_None_iff)
    with ok c show "i \<in> cm_locks m" by (auto simp: cm_ok_def cell_ok_def cm_locks_def)
  qed
  with locks_in_queue have "cm_locks m = set (map fst (queue m))" by blast
  with distinct_card[OF d] show ?thesis by simp
qed

text \<open>A miss loads the block from the device, after making room when the cache is full.\<close>

lemma load_ok:
  assumes ok: "cm_ok m" and miss: "lookup i m = None" and room: "length (queue m) < block_cache_size"
  defines "c \<equiv> \<lparr>cell = block_cache_new i (device m), handles = 1, locked = True\<rparr>"
  defines "m' \<equiv> m\<lparr>queue := queue m @ [(i, c)]\<rparr>"
  shows "cm_ok m'" and "cm_peek m' = cm_peek m" and "cm_locks m' = insert i (cm_locks m)"
proof -
  have look: "lookup j m' = (if j = i then Some c else lookup j m)" for j
    using miss by (auto simp: lookup_def m'_def map_add_def split: option.splits)
  have ck: "cell_ok (device m) i c"
    using ok by (simp add: c_def cell_ok_def block_cache_new_def cm_ok_def)
  have "distinct (map fst (queue m'))"
    using ok miss by (auto simp: m'_def cm_ok_def lookup_def map_of_eq_None_iff)
  with ok room ck show "cm_ok m'"
    by (auto simp: cm_ok_def look) (auto simp: m'_def)
  show "cm_peek m' = cm_peek m"
    using miss
    by (auto simp: cm_peek_def look fun_eq_iff split: option.splits)
      (auto simp: c_def m'_def block_cache_new_def)
  show "cm_locks m' = insert i (cm_locks m)"
    using miss by (auto simp: cm_locks_def look c_def)
qed

lemma acquire_free_ok:
  assumes ok: "cm_ok m" and nl: "i \<notin> cm_locks m" and room: "card (cm_locks m) < 16"
  shows "\<exists>m'. cm_acquire i m = Inr m' \<and> cm_ok m' \<and> cm_peek m' = cm_peek m \<and>
    cm_locks m' = insert i (cm_locks m)"
proof (cases "lookup i m")
  case (Some c)
  have d: "distinct (map fst (queue m))" using ok by (simp add: cm_ok_def)
  have c: "cell_ok (device m) i c" "\<not> locked c" using ok Some nl by (auto simp: cm_ok_def cm_locks_def)
  let ?m = "update_cell i (\<lambda>c. c\<lparr>locked := True\<rparr>) (update_cell i (\<lambda>c. c\<lparr>handles := handles c + 1\<rparr>) m)"
  have "cm_acquire i m = Inr ?m"
    using get_block_cache_hit[OF d Some] c(2)
    by (simp add: cm_acquire_def lookup_update_cell Some)
  moreover have "cm_ok ?m"
    using ok c Some by (auto simp: cm_ok_def lookup_update_cell cell_ok_def)
  moreover have "cm_peek ?m = cm_peek m"
    by (auto simp: cm_peek_def lookup_update_cell fun_eq_iff split: option.splits)
  moreover have "cm_locks ?m = insert i (cm_locks m)"
    using Some by (auto simp: cm_locks_def lookup_update_cell)
  ultimately show ?thesis by blast
next
  case None
  have miss: "find_index (\<lambda>(k, _). k = i) (queue m) = None"
    using None by (simp add: find_key_None lookup_def)
  obtain m1 where m1: "(if length (queue m) = block_cache_size then
               (case find_index (\<lambda>(_, c). handles c = 0) (queue m) of
                  Some idx \<Rightarrow> Inr (evict idx m)
                | None \<Rightarrow> Inl OutOfBlockCache)
             else Inr m) = Inr m1"
    and ok1: "cm_ok m1" "cm_peek m1 = cm_peek m" "cm_locks m1 = cm_locks m" "lookup i m1 = None"
    and room1: "length (queue m1) < block_cache_size"
  proof (cases "length (queue m) = block_cache_size")
    case False
    then have "length (queue m) < block_cache_size" using ok by (simp add: cm_ok_def)
    with that[of m] False ok None show ?thesis by simp
  next
    case True
    then have "find_index (\<lambda>(_, c). handles c = 0) (queue m) \<noteq> None"
      using all_busy_locks[OF ok] room by (auto simp: block_cache_size_def)
    then obtain idx where idx: "find_index (\<lambda>(_, c). handles c = 0) (queue m) = Some idx" by blast
    from find_index_SomeD[OF this] have il: "idx < length (queue m)" and ih: "handles (snd (queue m ! idx)) = 0"
      by (auto simp: case_prod_beta)
    note ev = evict_ok[OF ok il ih]
    have "length (queue (evict idx m)) < block_cache_size"
      using ev(4) True by (simp add: block_cache_size_def)
    with that[of "evict idx m"] ev None True idx show ?thesis by simp
  qed
  let ?c = "\<lparr>cell = block_cache_new i (device m1), handles = 1, locked = False\<rparr>"
  let ?m2 = "m1\<lparr>queue := queue m1 @ [(i, ?c)]\<rparr>"
  have g: "get_block_cache i m = Inr ?m2"
    unfolding get_block_cache_def miss by (simp only: option.case m1 bind_res_Inr Let_def)
  have look2: "lookup i ?m2 = Some ?c"
    using ok1(4) by (auto simp: lookup_def map_add_def)
  have "\<forall>x \<in> set (queue m1). fst x \<noteq> i"
    using ok1(4) by (force simp: lookup_def map_of_eq_None_iff)
  then have "map (\<lambda>(k, c). (k, if k = i then c\<lparr>locked := True\<rparr> else c)) (queue m1) = queue m1"
    by (intro map_idI) (auto simp: case_prod_beta)
  then have upd: "update_cell i (\<lambda>c. c\<lparr>locked := True\<rparr>) ?m2 =
      m1\<lparr>queue := queue m1 @ [(i, \<lparr>cell = block_cache_new i (device m1), handles = 1, locked = True\<rparr>)]\<rparr>"
    by (simp add: update_cell_def)
  have "cm_acquire i m = Inr (m1\<lparr>queue := queue m1 @
      [(i, \<lparr>cell = block_cache_new i (device m1), handles = 1, locked = True\<rparr>)]\<rparr>)"
    using g look2 upd by (simp add: cm_acquire_def)
  with load_ok[OF ok1(1,4) room1] ok1(2,3) show ?thesis by auto
qed

interpretation bcm: block_provider cm_acquire cm_release cm_poke cm_peek cm_locks cm_ok 16
proof (unfold_locales, goal_cases)
  case (1 s i)
  then show ?case by (rule acquire_free_ok)
next
  case (2 s i)
  then obtain c where c: "lookup i s = Some c" "locked c" by (auto simp: cm_locks_def)
  have d: "distinct (map fst (queue s))" using 2(1) by (simp add: cm_ok_def)
  show ?case
    using get_block_cache_hit[OF d c(1)] c by (simp add: cm_acquire_def lookup_update_cell)
next
  case (3 s i b)
  then obtain c where c: "lookup i s = Some c" "locked c" by (auto simp: cm_locks_def)
  with 3 have "cm_ok (cm_poke i b s)"
    by (auto simp: cm_ok_def cm_poke_def lookup_update_cell cell_ok_def)
  moreover have "cm_peek (cm_poke i b s) = (cm_peek s)(i := b)"
    using c by (auto simp: cm_peek_def cm_poke_def lookup_update_cell fun_eq_iff split: option.splits)
  moreover have "cm_locks (cm_poke i b s) = cm_locks s"
    using c by (auto simp: cm_locks_def cm_poke_def lookup_update_cell)
  ultimately show ?case by blast
next
  case (4 s i)
  then obtain c where c: "lookup i s = Some c" "locked c" by (auto simp: cm_locks_def)
  with 4 have "cm_ok (cm_release i s)"
    by (auto simp: cm_ok_def cm_release_def lookup_update_cell cell_ok_def)
  moreover have "cm_peek (cm_release i s) = cm_peek s"
    using c by (auto simp: cm_peek_def cm_release_def lookup_update_cell fun_eq_iff split: option.splits)
  moreover have "cm_locks (cm_release i s) = cm_locks s - {i}"
    using c by (auto simp: cm_locks_def cm_release_def lookup_update_cell)
  ultimately show ?case by blast
qed

section \<open>Durability\<close>

lemma fold_sync:
  "distinct (map fst q) \<Longrightarrow> (\<And>k c. (k, c) \<in> set q \<Longrightarrow> cell_ok dev k c) \<Longrightarrow>
     fold (\<lambda>(k, c) dev. snd (cache_sync (cell c) dev)) q dev i =
       (case map_of q i of Some c \<Rightarrow> cache (cell c) | None \<Rightarrow> dev i)"
proof (induction q arbitrary: dev)
  case (Cons x q)
  obtain k c where x: "x = (k, c)" by (cases x)
  let ?dev = "snd (cache_sync (cell c) dev)"
  have ck: "cell_ok dev k c" using Cons.prems(2) x by simp
  then have dev: "?dev = dev(k := cache (cell c))"
    by (auto simp: cache_sync_def cell_ok_def fun_eq_iff)
  have kq: "map_of q k = None" using Cons.prems(1) x by (simp add: map_of_eq_None_iff)
  have "cell_ok ?dev k' c'" if "(k', c') \<in> set q" for k' c'
  proof -
    have "k' \<noteq> k" using that Cons.prems(1) x by force
    with Cons.prems(2)[of k' c'] that show ?thesis by (simp add: dev cell_ok_def)
  qed
  with Cons.IH[of ?dev] Cons.prems(1) x have
    "fold (\<lambda>(k, c) dev. snd (cache_sync (cell c) dev)) q ?dev i =
       (case map_of q i of Some c \<Rightarrow> cache (cell c) | None \<Rightarrow> ?dev i)" by simp
  then show ?case using kq by (auto simp: x dev split: option.splits)
qed simp

lemma sync_all_ok:
  assumes ok: "cm_ok m" and idle: "cm_locks m = {}"
  shows "\<exists>m'. block_cache_sync_all m = Inr m' \<and> cm_ok m' \<and> cm_peek m' = cm_peek m \<and>
    device m' = cm_peek m \<and> cm_locks m' = {}"
proof -
  have d: "distinct (map fst (queue m))" using ok by (simp add: cm_ok_def)
  have inq: "lookup k m = Some c" if "(k, c) \<in> set (queue m)" for k c
    using d that by (simp add: lookup_def)
  have nolock: "\<not> (\<exists>(k, c) \<in> set (queue m). locked c)"
    using inq idle by (force simp: cm_locks_def)
  define m' where "m' = m\<lparr>device := fold (\<lambda>(k, c) dev. snd (cache_sync (cell c) dev)) (queue m) (device m),
                  queue := map (\<lambda>(k, c). (k, c\<lparr>cell := fst (cache_sync (cell c) (device m))\<rparr>)) (queue m)\<rparr>"
  have run: "block_cache_sync_all m = Inr m'" using nolock by (simp add: block_cache_sync_all_def m'_def)
  have "cell_ok (device m) k c" if "(k, c) \<in> set (queue m)" for k c
    using inq[OF that] ok by (simp add: cm_ok_def)
  from fold_sync[OF d this] have dev: "device m' = cm_peek m"
    by (auto simp: m'_def fun_eq_iff cm_peek_def lookup_def)
  have look: "lookup i m' = map_option (\<lambda>c. c\<lparr>cell := fst (cache_sync (cell c) (device m))\<rparr>) (lookup i m)" for i
  proof -
    have "map_of (map (\<lambda>(k, c). (k, f c)) q) i = map_option f (map_of q i)" for f :: "cache_cell \<Rightarrow> cache_cell" and q
      by (induction q) auto
    then show ?thesis by (simp add: lookup_def m'_def)
  qed
  have keep: "cache (fst (cache_sync c dv)) = cache c" "block_id (fst (cache_sync c dv)) = block_id c" for c dv
    by (simp_all add: cache_sync_def)
  have peek: "cm_peek m' = cm_peek m"
    unfolding fun_eq_iff
  proof
    fix i show "cm_peek m' i = cm_peek m i"
      by (cases "lookup i m") (simp_all add: cm_peek_def look keep, simp add: dev cm_peek_def)
  qed
  have len: "length (cm_peek m i) = block_sz" for i
    using ok by (auto simp: cm_peek_def cm_ok_def cell_ok_def split: option.splits)
  have keys: "map fst (queue m') = map fst (queue m)"
    by (simp add: m'_def comp_def case_prod_beta)
  have "cell_ok (device m') i c" if "lookup i m' = Some c" for i c
    using that ok idle
    by (auto simp: look dev cell_ok_def keep cm_ok_def cm_locks_def) (simp_all add: cm_peek_def)
  then have "cm_ok m'"
    using ok len keys by (auto simp: cm_ok_def dev) (simp add: m'_def)
  moreover have "cm_locks m' = {}" using idle by (auto simp: cm_locks_def look)
  ultimately show ?thesis using run peek dev by blast
qed

text \<open>
  A statement \<open>get_block_cache(i).lock().modify(off, ...)\<close> that overwrites a range of the block,
  and a sequence of them. \<open>written_through\<close> is what they do to the blocks themselves.
\<close>

definition write_cached :: "nat \<Rightarrow> nat \<Rightarrow> u8 list \<Rightarrow> cache_manager \<Rightarrow> cache_manager res" where
  "write_cached i off bytes m =
     bind_res (cm_acquire i m) (\<lambda>m1.
       case lookup i m1 of
         None \<Rightarrow> Inl UnwrapNone
       | Some c \<Rightarrow>
           bind_res (cache_modify (length bytes) off (\<lambda>_. ((), bytes)) (cell c)) (\<lambda>(_, c').
             Inr (cm_release i (update_cell i (\<lambda>c. c\<lparr>cell := c'\<rparr>) m1))))"

primrec cache_writes :: "(nat \<times> nat \<times> u8 list) list \<Rightarrow> cache_manager \<Rightarrow> cache_manager res" where
  "cache_writes [] m = Inr m"
| "cache_writes (w # ws) m =
     (case w of (i, off, bytes) \<Rightarrow> bind_res (write_cached i off bytes m) (cache_writes ws))"

definition written_through :: "(nat \<times> nat \<times> u8 list) list \<Rightarrow> device \<Rightarrow> device" where
  "written_through ws = fold (\<lambda>(i, off, bytes) B. B(i := overwrite off bytes (B i))) ws"

lemma write_cached_ok:
  assumes ok: "cm_ok m" "cm_locks m = {}" and w: "off + length bytes \<le> 512" "bytes \<noteq> []"
  shows "\<exists>m'. write_cached i off bytes m = Inr m' \<and> cm_ok m' \<and> cm_locks m' = {} \<and>
    cm_peek m' = (cm_peek m)(i := overwrite off bytes (cm_peek m i))"
proof -
  obtain m1 where m1: "cm_acquire i m = Inr m1" "cm_ok m1" "cm_peek m1 = cm_peek m" "cm_locks m1 = {i}"
    using bcm.acquire_free[OF ok(1), of i] ok(2) by auto
  then obtain c where c: "lookup i m1 = Some c" by (auto simp: cm_locks_def)
  have peek: "cm_peek m i = cache (cell c)" using m1(3) c by (metis cm_peek_def option.simps(5))
  have len: "length (cache (cell c)) = 512" using m1(2) c by (simp add: cm_ok_def cell_ok_def)
  let ?b = "overwrite off bytes (cache (cell c))"
  have off: "off < 512" using w by (cases bytes) auto
  have cm: "cache_modify (length bytes) off (\<lambda>_. ((), bytes)) (cell c) =
      Inr ((), (cell c)\<lparr>modified := True, cache := ?b\<rparr>)"
    using w off len by (simp add: cache_modify_def get_mut_def addr_of_offset_def Let_def)
  have d: "distinct (map fst (queue m1))" using m1(2) by (simp add: cm_ok_def)
  have "map (\<lambda>(k, x). (k, if k = i then x\<lparr>cell := (cell c)\<lparr>modified := True, cache := ?b\<rparr>\<rparr> else x)) (queue m1) =
      map (\<lambda>(k, x). (k, if k = i then x\<lparr>cell := (cell x)\<lparr>cache := ?b, modified := True\<rparr>\<rparr> else x)) (queue m1)"
  proof (intro map_cong refl)
    fix p assume p: "p \<in> set (queue m1)"
    have "x = c" if "p = (i, x)" for x
      using map_of_is_SomeI[OF d, of i x] c p that by (simp add: lookup_def)
    then show "(case p of (k, x) \<Rightarrow> (k, if k = i then x\<lparr>cell := (cell c)\<lparr>modified := True, cache := ?b\<rparr>\<rparr> else x)) =
        (case p of (k, x) \<Rightarrow> (k, if k = i then x\<lparr>cell := (cell x)\<lparr>cache := ?b, modified := True\<rparr>\<rparr> else x))"
      by (cases p) auto
  qed
  then have up: "update_cell i (\<lambda>x. x\<lparr>cell := (cell c)\<lparr>modified := True, cache := ?b\<rparr>\<rparr>) m1 = cm_poke i ?b m1"
    by (simp add: update_cell_def cm_poke_def)
  have run: "write_cached i off bytes m = Inr (cm_release i (cm_poke i ?b m1))"
    by (simp add: write_cached_def m1(1) c cm up)
  have lb: "length ?b = block_sz" using w len by simp
  have p: "cm_ok (cm_poke i ?b m1)" "cm_peek (cm_poke i ?b m1) = (cm_peek m1)(i := ?b)"
      "cm_locks (cm_poke i ?b m1) = {i}"
    using bcm.poke_held[OF m1(2) _ lb, of i] m1(4) by auto
  have r: "cm_ok (cm_release i (cm_poke i ?b m1))"
      "cm_peek (cm_release i (cm_poke i ?b m1)) = (cm_peek m1)(i := ?b)"
      "cm_locks (cm_release i (cm_poke i ?b m1)) = {}"
    using bcm.release_held[OF p(1), of i] p(2,3) by auto
  show ?thesis using run r m1(3) peek by simp
qed

lemma cache_writes_ok:
  "cm_ok m \<Longrightarrow> cm_locks m = {} \<Longrightarrow> (\<And>i off bytes. (i, off, bytes) \<in> set ws \<Longrightarrow> off + length bytes \<le> 512 \<and> bytes \<noteq> []) \<Longrightarrow>
     \<exists>m'. cache_writes ws m = Inr m' \<and> cm_ok m' \<and> cm_locks m' = {} \<and> cm_peek m' = written_through ws (cm_peek m)"
proof (induction ws arbitrary: m)
  case (Cons w ws)
  obtain i off bytes where w: "w = (i, off, bytes)" by (cases w)
  obtain m1 where m1: "write_cached i off bytes m = Inr m1" "cm_ok m1" "cm_locks m1 = {}"
      "cm_peek m1 = (cm_peek m)(i := overwrite off bytes (cm_peek m i))"
    using write_cached_ok[OF Cons.prems(1,2), of off bytes i] Cons.prems(3)[of i off bytes] w by auto
  obtain m' where "cache_writes ws m1 = Inr m'" "cm_ok m'" "cm_locks m' = {}"
      "cm_peek m' = written_through ws (cm_peek m1)"
    using Cons.IH[OF m1(2,3)] Cons.prems(3) by (metis list.set_intros(2))
  then show ?case using m1 by (simp add: w written_through_def)
qed (simp add: written_through_def)

lemma cache_new_ok:
  assumes "\<forall>i. length (dev i) = block_sz"
  shows "cm_ok (cache_manager_new dev)" "cm_locks (cache_manager_new dev) = {}" "cm_peek (cache_manager_new dev) = dev"
  using assms by (auto simp: cm_ok_def cache_manager_new_def cm_locks_def lookup_def cm_peek_def fun_eq_iff block_cache_size_def)

text \<open>C18: The write-back cache is transparent and durable: after any sequence of writes through
  the cache, started empty on a device, the blocks seen through it are those that writing
  directly would give, however many blocks were evicted in between; it never holds more than 16
  blocks; and after \<open>block_cache_sync_all\<close> the device itself holds exactly those blocks.\<close>

theorem writes_reach_the_device:
  assumes "\<forall>i. length (dev i) = block_sz"
    and "list_all (\<lambda>(i, off, bytes). off + length bytes \<le> block_sz \<and> bytes \<noteq> []) ws"
  shows "\<exists>m m'. cache_writes ws (cache_manager_new dev) = Inr m \<and> cm_peek m = written_through ws dev \<and>
    length (queue m) \<le> block_cache_size \<and>
    block_cache_sync_all m = Inr m' \<and> device m' = written_through ws dev \<and> cm_peek m' = cm_peek m"
proof -
  obtain m where m: "cache_writes ws (cache_manager_new dev) = Inr m" "cm_ok m" "cm_locks m = {}"
      "cm_peek m = written_through ws dev"
    using cache_writes_ok[OF cache_new_ok(1,2)[OF assms(1)], of ws] assms(2) cache_new_ok(3)[OF assms(1)]
    by (force simp: list_all_iff)
  obtain m' where m': "block_cache_sync_all m = Inr m'" "cm_peek m' = cm_peek m" "device m' = cm_peek m"
    using sync_all_ok[OF m(2,3)] by blast
  have "length (queue m) \<le> block_cache_size" using m(2) by (simp add: cm_ok_def)
  then show ?thesis using m m' by auto
qed

lemma writes_reach_the_device_witness:
  "\<exists>m m'. cache_writes (map (\<lambda>i. (i, 3, [7])) [0..<20]) (cache_manager_new (\<lambda>_. replicate 512 0)) = Inr m \<and>
     length (queue m) \<le> 16 \<and> block_cache_sync_all m = Inr m' \<and> device m' = cm_peek m"
proof -
  let ?ws = "map (\<lambda>i. (i, 3, [7])) [0..<20] :: (nat \<times> nat \<times> u8 list) list"
  have d: "\<forall>i :: nat. length ((\<lambda>_. replicate 512 0 :: block) i) = block_sz" by simp
  have w: "list_all (\<lambda>(i, off, bytes). off + length bytes \<le> block_sz \<and> bytes \<noteq> []) ?ws"
    by (simp add: list_all_iff)
  obtain m m' where "cache_writes ?ws (cache_manager_new (\<lambda>_. replicate 512 0)) = Inr m"
      "cm_peek m = written_through ?ws (\<lambda>_. replicate 512 0)" "length (queue m) \<le> block_cache_size"
      "block_cache_sync_all m = Inr m'" "device m' = written_through ?ws (\<lambda>_. replicate 512 0)"
    using writes_reach_the_device[OF d, of ?ws, OF w] by blast
  then show ?thesis by (intro exI[of _ m] exI[of _ m']) (simp add: block_cache_size_def)
qed

end
