(* ===== verification/Address_Space.thy ===== *)
theory Address_Space
  imports Prelude
begin

text \<open>
  Address spaces: \<open>tg-rcore-tutorial-kernel-vm/src/space/mod.rs\<close> with its \<open>visitor.rs\<close> and
  \<open>mapper.rs\<close>, and the kernel's page manager \<open>Sv39Manager\<close> of
  \<open>tg-rcore-tutorial-ch8/src/main.rs\<close>.

  The crates \<open>page-table\<close>, \<open>customizable-buddy\<close> and \<open>xmas-elf\<close> are not part of the repository:
  what the code uses of them is the record \<open>platform\<close>, an argument of every definition that
  needs it. A page table is a value of the type parameter \<open>'pt\<close>.

  \<^item> \<open>walk_to pt vpn\<close> is the entry that \<open>walk(Pos::new(vpn, 0), _)\<close> hands to
    \<open>arrive\<close>, \<open>None\<close> when it stops at a table that is not there;
  \<^item> \<open>make_tables pt vpn\<close> are the tables after \<open>walk_mut\<close> has gone down to \<open>vpn\<close>, calling
    \<open>block\<close> for every missing table, \<open>None\<close> when \<open>meet\<close> refuses a table that is not owned;
    \<open>put_entry\<close> is the write of \<open>arrive\<close> there;
  \<^item> \<open>page_alloc k n\<close> is the answer of the heap to the \<open>k\<close>-th request for \<open>n\<close> pages:
    the number of the first page, or \<open>None\<close> when the heap is exhausted. Pages are never given
    back (\<open>deallocate\<close> and \<open>drop_root\<close> of the source are \<open>todo!\<close>);
  \<^item> \<open>addr_floor\<close>, \<open>addr_ceil\<close>, \<open>addr_offset\<close>, \<open>page_base\<close> and \<open>root_index\<close> take virtual addresses
    and page numbers apart, \<open>vm_flags\<close> builds flags from their letters.

  Physical memory is a byte for every address; the kernel maps it identically, so a page
  number is turned into a pointer by multiplying it by the page size.
\<close>

record pte =
  pte_ppn :: nat
  pte_flags :: u64

record elf_segment =
  seg_load :: bool
  seg_offset :: u64
  seg_file_size :: u64
  seg_vaddr :: u64
  seg_mem_size :: u64
  seg_execute :: bool
  seg_write :: bool
  seg_read :: bool

record elf_file =
  elf_executable :: bool
  elf_entry :: u64
  elf_segments :: "elf_segment list"
  elf_input :: "u8 list"

record 'pt platform =
  walk_to :: "'pt \<Rightarrow> nat \<Rightarrow> pte option"
  make_tables :: "'pt \<Rightarrow> nat \<Rightarrow> 'pt option"
  put_entry :: "'pt \<Rightarrow> nat \<Rightarrow> pte \<Rightarrow> 'pt"
  empty_table :: 'pt
  root_entry_valid :: "'pt \<Rightarrow> nat \<Rightarrow> bool"
  share_portal :: "'pt \<Rightarrow> 'pt"
  page_alloc :: "nat \<Rightarrow> nat \<Rightarrow> nat option"
  addr_floor :: "usize \<Rightarrow> nat"
  addr_ceil :: "usize \<Rightarrow> nat"
  addr_offset :: "usize \<Rightarrow> nat"
  page_base :: "nat \<Rightarrow> usize"
  root_index :: "nat \<Rightarrow> nat"
  vm_flags :: "string \<Rightarrow> u64"
  parse_elf :: "u8 list \<Rightarrow> elf_file option"

section \<open>Physical memory\<close>

record memory =
  phys :: "nat \<Rightarrow> u8"
  requests :: nat

abbreviation page_size :: nat where
  "page_size \<equiv> 4096"

definition mem_read :: "nat \<Rightarrow> nat \<Rightarrow> memory \<Rightarrow> u8 list" where
  "mem_read p n m = map (\<lambda>i. phys m (p + i)) [0..<n]"

definition mem_write :: "nat \<Rightarrow> u8 list \<Rightarrow> memory \<Rightarrow> memory" where
  "mem_write p bs m =
     m\<lparr>phys := (\<lambda>a. if p \<le> a \<and> a < p + length bs then bs ! (a - p) else phys m a)\<rparr>"

definition mem_zero :: "nat \<Rightarrow> nat \<Rightarrow> memory \<Rightarrow> memory" where
  "mem_zero p n m = m\<lparr>phys := (\<lambda>a. if p \<le> a \<and> a < p + n then 0 else phys m a)\<rparr>"

lemma length_mem_read [simp]: "length (mem_read p n m) = n"
  by (simp add: mem_read_def)

lemma nth_mem_read: "i < n \<Longrightarrow> mem_read p n m ! i = phys m (p + i)"
  by (simp add: mem_read_def)

lemma mem_read_write_same: "mem_read p (length bs) (mem_write p bs m) = bs"
  by (intro nth_equalityI) (simp_all add: mem_read_def mem_write_def)

lemma mem_read_write_apart:
  "p + n \<le> q \<or> q + length bs \<le> p \<Longrightarrow> mem_read p n (mem_write q bs m) = mem_read p n m"
  by (intro nth_equalityI) (auto simp: mem_read_def mem_write_def)

section \<open>The page manager of the kernel (Sv39Manager)\<close>

definition owned :: u64 where
  "owned = push_bit 8 1"

text \<open>\<open>alloc_zeroed\<close>: the heap panics when it is exhausted.\<close>

definition alloc_pages :: "'pt platform \<Rightarrow> nat \<Rightarrow> memory \<Rightarrow> (nat \<times> memory) res" where
  "alloc_pages pf n m =
     (case page_alloc pf (requests m) n of
        None \<Rightarrow> Inl OutOfMemory
      | Some p \<Rightarrow> Inr (p, mem_zero (p * page_size) (n * page_size) (m\<lparr>requests := requests m + 1\<rparr>)))"

definition manager_allocate :: "'pt platform \<Rightarrow> nat \<Rightarrow> u64 \<Rightarrow> memory \<Rightarrow> ((nat \<times> u64) \<times> memory) res" where
  "manager_allocate pf len flags m =
     bind_res (alloc_pages pf len m) (\<lambda>(p, m1). Inr ((p, flags OR owned), m1))"

definition check_owned :: "pte \<Rightarrow> bool" where
  "check_owned e \<longleftrightarrow> pte_flags e AND owned = owned"

definition p_to_v :: "nat \<Rightarrow> nat" where
  "p_to_v p = p * page_size"

definition v_to_p :: "nat \<Rightarrow> nat" where
  "v_to_p ptr = ptr div page_size"

section \<open>Address spaces\<close>

record 'pt address_space =
  areas :: "(nat \<times> nat) list"
  page_table :: 'pt
  root_ppn :: nat

definition space_new :: "'pt platform \<Rightarrow> memory \<Rightarrow> ('pt address_space \<times> memory) res" where
  "space_new pf m =
     bind_res (alloc_pages pf 1 m) (\<lambda>(root, m1).
       Inr (\<lparr>areas = [], page_table = empty_table pf, root_ppn = root\<rparr>, m1))"

definition pte_valid :: "pte \<Rightarrow> bool" where
  "pte_valid e \<longleftrightarrow> bit (pte_flags e) 0"

definition flags_include :: "u64 \<Rightarrow> u64 \<Rightarrow> bool" where
  "flags_include fl want \<longleftrightarrow> fl AND want = want"

text \<open>The visitor keeps the entry it arrives at when it is valid.\<close>

definition visit :: "'pt platform \<Rightarrow> 'pt \<Rightarrow> nat \<Rightarrow> pte option" where
  "visit pf pt vpn =
     (case walk_to pf pt vpn of
        None \<Rightarrow> None
      | Some e \<Rightarrow> if pte_valid e then Some e else None)"

text \<open>The mapper writes one entry; the entry must not be in use.\<close>

definition map_page :: "'pt platform \<Rightarrow> nat \<Rightarrow> nat \<Rightarrow> u64 \<Rightarrow> 'pt \<Rightarrow> 'pt res" where
  "map_page pf vpn p flags pt =
     (case make_tables pf pt vpn of
        None \<Rightarrow> Inl NotImplemented
      | Some pt1 \<Rightarrow>
          bind_res (assert_res (visit pf pt1 vpn = None)) (\<lambda>_.
            Inr (put_entry pf pt1 vpn \<lparr>pte_ppn = p, pte_flags = flags\<rparr>)))"

primrec map_pages :: "nat \<Rightarrow> 'pt platform \<Rightarrow> nat \<Rightarrow> nat \<Rightarrow> u64 \<Rightarrow> 'pt \<Rightarrow> 'pt res" where
  "map_pages 0 pf vpn p flags pt = Inr pt"
| "map_pages (Suc n) pf vpn p flags pt =
     bind_res (map_page pf vpn p flags pt) (\<lambda>pt1. map_pages n pf (vpn + 1) (p + 1) flags pt1)"

text \<open>
  For an empty range the mapper never reaches its end: it maps page after page until an
  entry is in use, which fails its assertion.
\<close>

definition map_extern ::
  "'pt platform \<Rightarrow> nat \<times> nat \<Rightarrow> nat \<Rightarrow> u64 \<Rightarrow> 'pt address_space \<Rightarrow> 'pt address_space res" where
  "map_extern pf rg pbase flags as =
     (let as1 = as\<lparr>areas := areas as @ [rg]\<rparr> in
      if snd rg < fst rg then Inl ArithOverflow
      else if snd rg = fst rg then Inl AssertFailed
      else
        bind_res (map_pages (snd rg - fst rg) pf (fst rg) pbase flags (page_table as1)) (\<lambda>pt.
          Inr (as1\<lparr>page_table := pt\<rparr>)))"

definition space_map ::
  "'pt platform \<Rightarrow> nat \<times> nat \<Rightarrow> u8 list \<Rightarrow> nat \<Rightarrow> u64 \<Rightarrow> 'pt address_space \<Rightarrow> memory \<Rightarrow>
     ('pt address_space \<times> memory) res" where
  "space_map pf rg data offset flags as m =
     (if snd rg < fst rg then Inl ArithOverflow
      else
        let count = snd rg - fst rg; size = count * page_size in
        bind_res (assert_res (length data + offset \<le> size)) (\<lambda>_.
        bind_res (manager_allocate pf count flags m) (\<lambda>((p, flags1), m1).
          let page = p_to_v p;
              m2 = mem_zero page offset m1;
              m3 = mem_write (page + offset) data m2;
              m4 = mem_zero (page + offset + length data) (size - (offset + length data)) m3 in
          bind_res (map_extern pf rg (v_to_p page) flags1 as) (\<lambda>as1. Inr (as1, m4)))))"

text \<open>The areas after \<open>unmap\<close>: what overlaps the range is cut.\<close>

fun unmap_areas :: "nat \<times> nat \<Rightarrow> (nat \<times> nat) list \<Rightarrow> (nat \<times> nat) list" where
  "unmap_areas rg [] = []"
| "unmap_areas rg (area # rest) =
     (if snd area \<le> fst rg \<or> snd rg \<le> fst area then area # unmap_areas rg rest
      else
        (if fst area < fst rg then [(fst area, fst rg)] else []) @
        (if snd rg < snd area then [(snd rg, snd area)] else []) @ unmap_areas rg rest)"

primrec clear_pages :: "nat \<Rightarrow> 'pt platform \<Rightarrow> nat \<Rightarrow> 'pt \<Rightarrow> 'pt" where
  "clear_pages 0 pf vpn pt = pt"
| "clear_pages (Suc n) pf vpn pt =
     clear_pages n pf (vpn + 1)
       (case walk_to pf pt vpn of
          None \<Rightarrow> pt
        | Some _ \<Rightarrow> put_entry pf pt vpn \<lparr>pte_ppn = 0, pte_flags = 0\<rparr>)"

definition unmap :: "'pt platform \<Rightarrow> nat \<times> nat \<Rightarrow> 'pt address_space \<Rightarrow> 'pt address_space" where
  "unmap pf rg as =
     as\<lparr>areas := unmap_areas rg (areas as),
        page_table := clear_pages (snd rg - fst rg) pf (fst rg) (page_table as)\<rparr>"

definition translate :: "'pt platform \<Rightarrow> 'pt address_space \<Rightarrow> usize \<Rightarrow> u64 \<Rightarrow> nat option" where
  "translate pf as addr flags =
     (case visit pf (page_table as) (addr_floor pf addr) of
        None \<Rightarrow> None
      | Some e \<Rightarrow>
          if flags_include (pte_flags e) flags then Some (p_to_v (pte_ppn e) + addr_offset pf addr)
          else None)"

text \<open>One area of the deep copy.\<close>

definition clone_area ::
  "'pt platform \<Rightarrow> 'pt address_space \<Rightarrow> nat \<times> nat \<Rightarrow> 'pt address_space \<Rightarrow> memory \<Rightarrow>
     ('pt address_space \<times> memory) res" where
  "clone_area pf src rg as m =
     bind_res (unwrap (visit pf (page_table src) (fst rg))) (\<lambda>e.
       if snd rg < fst rg then Inl ArithOverflow
       else
         let count = snd rg - fst rg; size = count * page_size in
         bind_res (manager_allocate pf count (pte_flags e) m) (\<lambda>((p, flags1), m1).
           let m2 = mem_write (p_to_v p) (mem_read (p_to_v (pte_ppn e)) size m1) m1 in
           bind_res (map_extern pf rg p flags1 as) (\<lambda>as1. Inr (as1, m2))))"

fun clone_areas ::
  "'pt platform \<Rightarrow> 'pt address_space \<Rightarrow> (nat \<times> nat) list \<Rightarrow> 'pt address_space \<Rightarrow> memory \<Rightarrow>
     ('pt address_space \<times> memory) res" where
  "clone_areas pf src [] as m = Inr (as, m)"
| "clone_areas pf src (rg # rest) as m =
     bind_res (clone_area pf src rg as m) (\<lambda>(as1, m1). clone_areas pf src rest as1 m1)"

definition cloneself ::
  "'pt platform \<Rightarrow> 'pt address_space \<Rightarrow> 'pt address_space \<Rightarrow> memory \<Rightarrow> ('pt address_space \<times> memory) res" where
  "cloneself pf src new_addrspace m = clone_areas pf src (areas src) new_addrspace m"

text \<open>\<open>map_portal\<close> of \<open>main.rs\<close> copies one entry of the raw root table; \<open>share_portal\<close> is that copy.\<close>

definition map_portal :: "'pt platform \<Rightarrow> 'pt address_space \<Rightarrow> 'pt address_space" where
  "map_portal pf as = as\<lparr>page_table := share_portal pf (page_table as)\<rparr>"

text \<open>\<open>(8 << 60) | root_ppn\<close>.\<close>

definition satp_of :: "'pt address_space \<Rightarrow> usize" where
  "satp_of as = push_bit 60 8 OR of_nat (root_ppn as)"

end
