(* ===== verification/File.thy ===== *)
theory File
  imports Vfs
begin

text \<open>
  \<open>tg-rcore-tutorial-easy-fs/src/file.rs\<close>: user buffers made of segments, the iterator over
  their bytes, open flags and file handles.

  The segments are slices of user memory; here each is the list of its bytes, and reading into
  a buffer returns the new bytes of the segments.
\<close>

section \<open>User buffers\<close>

type_synonym user_buffer = "u8 list list"

definition ub_len :: "user_buffer \<Rightarrow> nat" where
  "ub_len bufs = sum_list (map length bufs)"

definition ub_is_empty :: "user_buffer \<Rightarrow> bool" where
  "ub_is_empty bufs \<longleftrightarrow> bufs = []"

text \<open>
  The iterator is a position; \<open>next\<close> yields the segment and the index of the byte it points
  to. Indexing an empty segment panics.
\<close>

record ub_iter =
  current_buffer :: nat
  current_idx :: nat

definition ub_into_iter :: ub_iter where
  "ub_into_iter = \<lparr>current_buffer = 0, current_idx = 0\<rparr>"

definition ub_next :: "user_buffer \<Rightarrow> ub_iter \<Rightarrow> ((nat \<times> nat) option \<times> ub_iter) res" where
  "ub_next bufs it =
     (if length bufs \<le> current_buffer it then Inr (None, it)
      else
        bind_res (nth_res (bufs ! current_buffer it) (current_idx it)) (\<lambda>_.
          let r = (current_buffer it, current_idx it) in
          if current_idx it + 1 = length (bufs ! current_buffer it)
          then Inr (Some r, it\<lparr>current_idx := 0, current_buffer := current_buffer it + 1\<rparr>)
          else Inr (Some r, it\<lparr>current_idx := current_idx it + 1\<rparr>)))"

definition ub_get :: "user_buffer \<Rightarrow> nat \<times> nat \<Rightarrow> u8" where
  "ub_get bufs p = bufs ! fst p ! snd p"

definition ub_put :: "nat \<times> nat \<Rightarrow> u8 \<Rightarrow> user_buffer \<Rightarrow> user_buffer" where
  "ub_put p x bufs = bufs[fst p := (bufs ! fst p)[snd p := x]]"

text \<open>Without empty segments the iterator runs through the bytes in order.\<close>

definition ub_ok :: "user_buffer \<Rightarrow> bool" where
  "ub_ok bufs \<longleftrightarrow> (\<forall>b \<in> set bufs. b \<noteq> [])"

text \<open>The bytes from the position on, and before it.\<close>

definition ub_rest :: "user_buffer \<Rightarrow> ub_iter \<Rightarrow> u8 list" where
  "ub_rest bufs it =
     (if length bufs \<le> current_buffer it then []
      else drop (current_idx it) (bufs ! current_buffer it) @ concat (drop (current_buffer it + 1) bufs))"

definition ub_done :: "user_buffer \<Rightarrow> ub_iter \<Rightarrow> u8 list" where
  "ub_done bufs it =
     (if length bufs \<le> current_buffer it then concat bufs
      else concat (take (current_buffer it) bufs) @ take (current_idx it) (bufs ! current_buffer it))"

definition ub_at :: "user_buffer \<Rightarrow> ub_iter \<Rightarrow> bool" where
  "ub_at bufs it \<longleftrightarrow>
     (if length bufs \<le> current_buffer it then current_idx it = 0
      else current_idx it < length (bufs ! current_buffer it))"

lemma ub_len_concat: "ub_len bufs = length (concat bufs)"
  by (simp add: ub_len_def length_concat)

lemma ub_start:
  "ub_ok bufs \<Longrightarrow> ub_at bufs ub_into_iter"
  "ub_rest bufs ub_into_iter = concat bufs" "ub_done bufs ub_into_iter = []"
  by (cases bufs; auto simp: ub_at_def ub_into_iter_def ub_rest_def ub_done_def ub_ok_def)+

lemma ub_done_rest: "ub_done bufs it @ ub_rest bufs it = concat bufs"
proof (cases "length bufs \<le> current_buffer it")
  case False
  then have "concat bufs = concat (take (current_buffer it) bufs) @ concat (drop (current_buffer it) bufs)"
    by (metis append_take_drop_id concat_append)
  moreover have "drop (current_buffer it) bufs = bufs ! current_buffer it # drop (current_buffer it + 1) bufs"
    using False by (simp add: Cons_nth_drop_Suc)
  ultimately show ?thesis using False by (simp add: ub_done_def ub_rest_def)
qed (simp add: ub_done_def ub_rest_def)

lemma ub_next_end: "ub_at bufs it \<Longrightarrow> ub_rest bufs it = [] \<Longrightarrow> ub_next bufs it = Inr (None, it)"
  by (auto simp: ub_at_def ub_rest_def ub_next_def split: if_splits)

lemma ub_next_step:
  assumes ok: "ub_ok bufs" and pos: "ub_at bufs it" and rest: "ub_rest bufs it = x # xs"
  shows "\<exists>p it'. ub_next bufs it = Inr (Some p, it') \<and> ub_get bufs p = x \<and> ub_at bufs it' \<and>
    ub_rest bufs it' = xs \<and> ub_done bufs it' = ub_done bufs it @ [x] \<and>
    fst p < length bufs \<and> snd p < length (bufs ! fst p) \<and>
    (\<forall>y. ub_ok (ub_put p y bufs) \<and> map length (ub_put p y bufs) = map length bufs \<and>
         ub_at (ub_put p y bufs) it' \<and> ub_rest (ub_put p y bufs) it' = xs \<and>
         ub_done (ub_put p y bufs) it' = ub_done bufs it @ [y])"
proof -
  define i j where "i = current_buffer it" and "j = current_idx it"
  have i: "i < length bufs" using rest by (auto simp: ub_rest_def i_def split: if_splits)
  then have j: "j < length (bufs ! i)" using pos by (auto simp: ub_at_def i_def j_def)
  have dj: "drop j (bufs ! i) = bufs ! i ! j # drop (j + 1) (bufs ! i)" using j by (simp add: Cons_nth_drop_Suc)
  have x: "x = bufs ! i ! j" "xs = drop (j + 1) (bufs ! i) @ concat (drop (i + 1) bufs)"
    using rest i dj by (simp_all add: ub_rest_def i_def[symmetric] j_def[symmetric])
  have d: "ub_done bufs it = concat (take i bufs) @ take j (bufs ! i)"
    using i by (simp add: ub_done_def i_def[symmetric] j_def[symmetric])
  have nonempty: "bufs ! k \<noteq> []" if "k < length bufs" for k using ok that by (auto simp: ub_ok_def)
  let ?p = "(i, j)"
  have put: "ub_put ?p y bufs = bufs[i := (bufs ! i)[j := y]]" for y by (simp add: ub_put_def)
  have okp: "ub_ok (ub_put ?p y bufs)" for y
    using nonempty i by (auto simp: ub_ok_def put in_set_conv_nth nth_list_update split: if_splits)
  have lens: "map length (ub_put ?p y bufs) = map length bufs" for y
    using i by (intro nth_equalityI) (auto simp: put nth_list_update)
  show ?thesis
  proof (cases "j + 1 = length (bufs ! i)")
    case True
    let ?it = "it\<lparr>current_idx := 0, current_buffer := i + 1\<rparr>"
    have n: "ub_next bufs it = Inr (Some ?p, ?it)"
      using i j True by (simp add: ub_next_def i_def[symmetric] j_def[symmetric] Let_def)
    have full: "take (j + 1) b = b" if "length b = length (bufs ! i)" for b :: "u8 list"
      using that True by simp
    have at: "ub_at bs ?it" if "length bs = length bufs" "\<And>k. k < length bufs \<Longrightarrow> bs ! k \<noteq> []" for bs
      using that by (auto simp: ub_at_def)
    have rst: "ub_rest bs ?it = concat (drop (i + 1) bs)" for bs
      by (auto simp: ub_rest_def Cons_nth_drop_Suc[symmetric] not_le)
    have dn: "ub_done bs ?it = concat (take (i + 1) bs)" if "length bs = length bufs" for bs
      using that i by (auto simp: ub_done_def)
    have tk: "take (i + 1) bufs = take i bufs @ [bufs ! i]" using i by (simp add: take_Suc_conv_app_nth)
    have tkp: "take (i + 1) (ub_put ?p y bufs) = take i bufs @ [(bufs ! i)[j := y]]" for y
      using i by (simp add: put take_Suc_conv_app_nth)
    have b1: "bufs ! i = take j (bufs ! i) @ [bufs ! i ! j]"
      using True j by (metis Suc_eq_plus1 order_refl take_Suc_conv_app_nth take_all)
    have b2: "(bufs ! i)[j := y] = take j (bufs ! i) @ [y]" for y
      using True j by (subst b1, subst list_update_append) simp
    have "ub_put ?p y bufs ! k \<noteq> []" if "k < length bufs" for k y
      using nonempty[OF that] i that by (simp add: put nth_list_update)
    then show ?thesis
      using n x i j d tk tkp b1 b2 rst dn at nonempty okp lens True
      by (intro exI[of _ ?p] exI[of _ ?it]) (simp add: ub_get_def put del: take_Suc)
  next
    case False
    let ?it = "it\<lparr>current_idx := j + 1\<rparr>"
    have n: "ub_next bufs it = Inr (Some ?p, ?it)"
      using i j False by (simp add: ub_next_def i_def[symmetric] j_def[symmetric] Let_def)
    have tj: "take (j + 1) (bufs ! i) = take j (bufs ! i) @ [bufs ! i ! j]"
      using j by (simp add: take_Suc_conv_app_nth)
    have tjp: "take (j + 1) ((bufs ! i)[j := y]) = take j (bufs ! i) @ [y]" for y
      using j by (simp add: take_Suc_conv_app_nth)
    show ?thesis
      using n x i j d tj tjp okp lens False
      by (intro exI[of _ ?p] exI[of _ ?it])
        (simp add: ub_get_def put ub_at_def ub_rest_def ub_done_def i_def[symmetric])
  qed
qed

text \<open>An empty segment makes the iterator panic when it gets there.\<close>

lemma ub_next_empty_segment:
  "current_buffer it < length bufs \<Longrightarrow> bufs ! current_buffer it = [] \<Longrightarrow>
     ub_next bufs it = Inl IndexOutOfBounds"
  by (simp add: ub_next_def)

section \<open>Open flags\<close>

text \<open>The flags are the bits of a \<open>u32\<close>: \<open>WRONLY\<close> 0, \<open>RDWR\<close> 1, \<open>CREATE\<close> 9, \<open>TRUNC\<close> 10.
  \<open>from_bits\<close> refuses other bits.\<close>

type_synonym open_flags = u32

definition RDONLY :: open_flags where "RDONLY = 0"
definition WRONLY :: open_flags where "WRONLY = 1"
definition RDWR :: open_flags where "RDWR = 2"
definition CREATE :: open_flags where "CREATE = 512"
definition TRUNC :: open_flags where "TRUNC = 1024"

definition flags_contain :: "open_flags \<Rightarrow> open_flags \<Rightarrow> bool" where
  "flags_contain fl x \<longleftrightarrow> fl AND x = x"

definition flags_from_bits :: "u32 \<Rightarrow> open_flags option" where
  "flags_from_bits b =
     (if b AND NOT (RDONLY OR WRONLY OR RDWR OR CREATE OR TRUNC) = 0 then Some b else None)"

definition flags_read_write :: "open_flags \<Rightarrow> bool \<times> bool" where
  "flags_read_write fl =
     (if fl = 0 then (True, False)
      else if flags_contain fl WRONLY then (False, True)
      else (True, True))"

section \<open>File handles\<close>

record file_handle =
  fh_inode :: "vinode option"
  fh_read :: bool
  fh_write :: bool
  fh_offset :: nat

definition file_handle_new :: "bool \<Rightarrow> bool \<Rightarrow> vinode \<Rightarrow> file_handle" where
  "file_handle_new r w vi = \<lparr>fh_inode = Some vi, fh_read = r, fh_write = w, fh_offset = 0\<rparr>"

definition file_handle_empty :: "bool \<Rightarrow> bool \<Rightarrow> file_handle" where
  "file_handle_empty r w = \<lparr>fh_inode = None, fh_read = r, fh_write = w, fh_offset = 0\<rparr>"

definition readable :: "file_handle \<Rightarrow> bool" where
  "readable h = fh_read h"

definition writable :: "file_handle \<Rightarrow> bool" where
  "writable h = fh_write h"

text \<open>The loops over the segments. The first list of buffers is done, the second to do.\<close>

fun fh_read_loop ::
  "vinode \<Rightarrow> nat \<Rightarrow> nat \<Rightarrow> user_buffer \<Rightarrow> user_buffer \<Rightarrow> store \<Rightarrow> (nat \<times> nat \<times> user_buffer) res" where
  "fh_read_loop vi off tot done_b [] s = Inr (tot, off, done_b)"
| "fh_read_loop vi off tot done_b (b # bs) s =
     bind_res (vfs_read_at vi off b s) (\<lambda>(n, b').
       if n = 0 then Inr (tot, off, done_b @ b' # bs)
       else fh_read_loop vi (off + n) (tot + n) (done_b @ [b']) bs s)"

definition fh_read_file ::
  "file_handle \<Rightarrow> user_buffer \<Rightarrow> store \<Rightarrow> (isize \<times> file_handle \<times> user_buffer) res" where
  "fh_read_file h bufs s =
     (case fh_inode h of
        None \<Rightarrow> Inr (- 1, h, bufs)
      | Some vi \<Rightarrow>
          bind_res (fh_read_loop vi (fh_offset h) 0 [] bufs s) (\<lambda>(tot, off, bufs').
            Inr (of_nat tot, h\<lparr>fh_offset := off\<rparr>, bufs')))"

fun fh_write_loop ::
  "efs \<Rightarrow> vinode \<Rightarrow> nat \<Rightarrow> nat \<Rightarrow> user_buffer \<Rightarrow> store \<Rightarrow> (nat \<times> nat \<times> store) res" where
  "fh_write_loop fs vi off tot [] s = Inr (tot, off, s)"
| "fh_write_loop fs vi off tot (b # bs) s =
     bind_res (vfs_write_at fs vi off b s) (\<lambda>(n, s1).
       bind_res (assert_res (n = length b)) (\<lambda>_.
         fh_write_loop fs vi (off + n) (tot + n) bs s1))"

definition fh_write_file ::
  "efs \<Rightarrow> file_handle \<Rightarrow> user_buffer \<Rightarrow> store \<Rightarrow> (isize \<times> file_handle \<times> store) res" where
  "fh_write_file fs h bufs s =
     (case fh_inode h of
        None \<Rightarrow> Inr (- 1, h, s)
      | Some vi \<Rightarrow>
          bind_res (fh_write_loop fs vi (fh_offset h) 0 bufs s) (\<lambda>(tot, off, s').
            Inr (of_nat tot, h\<lparr>fh_offset := off\<rparr>, s')))"

end
