(* ===== verification/Pipe.thy ===== *)
theory Pipe
  imports File
begin

text \<open>
  \<open>tg-rcore-tutorial-easy-fs/src/pipe.rs\<close>: the ring buffer of 32 bytes behind a pipe, its
  reader and its writer. The writer is shared (\<open>Arc<PipeWriter>\<close>); \<open>writers\<close> counts its
  strong references, so that the weak reference of the buffer upgrades while it is positive.

  The abstract pipe is a queue of at most 32 bytes: \<open>pipe_bytes\<close> reads it off the ring.
\<close>

definition ring_buffer_size :: nat where
  "ring_buffer_size = 32"

datatype ring_buffer_status = Full | Empty | Normal

record pipe_ring_buffer =
  arr :: "u8 list"
  head :: nat
  tail :: nat
  status :: ring_buffer_status
  write_end :: bool

text \<open>\<open>write_end\<close> tells whether the weak reference has been set.\<close>

definition ring_new :: pipe_ring_buffer where
  "ring_new = \<lparr>arr = replicate ring_buffer_size 0, head = 0, tail = 0, status = Empty, write_end = False\<rparr>"

definition set_write_end :: "pipe_ring_buffer \<Rightarrow> pipe_ring_buffer" where
  "set_write_end r = r\<lparr>write_end := True\<rparr>"

definition write_byte :: "u8 \<Rightarrow> pipe_ring_buffer \<Rightarrow> pipe_ring_buffer res" where
  "write_byte byte r =
     (let r1 = r\<lparr>status := Normal\<rparr> in
      bind_res (update_res (arr r1) (tail r1) byte) (\<lambda>a.
        let r2 = r1\<lparr>arr := a, tail := (tail r1 + 1) mod ring_buffer_size\<rparr> in
        Inr (if tail r2 = head r2 then r2\<lparr>status := Full\<rparr> else r2)))"

definition read_byte :: "pipe_ring_buffer \<Rightarrow> (u8 \<times> pipe_ring_buffer) res" where
  "read_byte r =
     (let r1 = r\<lparr>status := Normal\<rparr> in
      bind_res (nth_res (arr r1) (head r1)) (\<lambda>c.
        let r2 = r1\<lparr>head := (head r1 + 1) mod ring_buffer_size\<rparr> in
        Inr (c, if head r2 = tail r2 then r2\<lparr>status := Empty\<rparr> else r2)))"

definition available_read :: "pipe_ring_buffer \<Rightarrow> nat" where
  "available_read r =
     (if status r = Empty then 0
      else if head r < tail r then tail r - head r
      else tail r + ring_buffer_size - head r)"

definition available_write :: "pipe_ring_buffer \<Rightarrow> nat" where
  "available_write r = (if status r = Full then 0 else ring_buffer_size - available_read r)"

record pipe =
  ring :: pipe_ring_buffer
  writers :: nat

definition all_write_ends_closed :: "pipe \<Rightarrow> bool res" where
  "all_write_ends_closed p =
     bind_res (unwrap (if write_end (ring p) then Some (0 < writers p) else None)) (\<lambda>alive. Inr (\<not> alive))"

definition make_pipe :: pipe where
  "make_pipe = \<lparr>ring = set_write_end ring_new, writers = 1\<rparr>"

text \<open>The loops of \<open>read\<close> and \<open>write\<close>; \<open>n\<close> iterations are left.\<close>

primrec pipe_read_loop ::
  "nat \<Rightarrow> nat \<Rightarrow> nat \<Rightarrow> ub_iter \<Rightarrow> user_buffer \<Rightarrow> pipe_ring_buffer \<Rightarrow>
   (nat \<times> user_buffer \<times> pipe_ring_buffer) res" where
  "pipe_read_loop 0 want already it bufs r = Inr (already, bufs, r)"
| "pipe_read_loop (Suc n) want already it bufs r =
     bind_res (ub_next bufs it) (\<lambda>(ref, it1).
       case ref of
         None \<Rightarrow> Inr (already, bufs, r)
       | Some p \<Rightarrow>
           bind_res (read_byte r) (\<lambda>(c, r1).
             let bufs1 = ub_put p c bufs; already1 = already + 1 in
             if already1 = want then Inr (want, bufs1, r1)
             else pipe_read_loop n want already1 it1 bufs1 r1))"

definition pipe_read :: "user_buffer \<Rightarrow> pipe \<Rightarrow> (isize \<times> user_buffer \<times> pipe) res" where
  "pipe_read bufs p =
     (let want_to_read = ub_len bufs;
          loop_read = available_read (ring p) in
      if loop_read = 0 then
        bind_res (all_write_ends_closed p) (\<lambda>closed.
          Inr (if closed then 0 else - 2, bufs, p))
      else
        bind_res (pipe_read_loop loop_read want_to_read 0 ub_into_iter bufs (ring p)) (\<lambda>(n, bufs', r).
          Inr (of_nat n, bufs', p\<lparr>ring := r\<rparr>)))"

primrec pipe_write_loop ::
  "nat \<Rightarrow> nat \<Rightarrow> nat \<Rightarrow> ub_iter \<Rightarrow> user_buffer \<Rightarrow> pipe_ring_buffer \<Rightarrow> (nat \<times> pipe_ring_buffer) res" where
  "pipe_write_loop 0 want already it bufs r = Inr (already, r)"
| "pipe_write_loop (Suc n) want already it bufs r =
     bind_res (ub_next bufs it) (\<lambda>(ref, it1).
       case ref of
         None \<Rightarrow> Inr (already, r)
       | Some p \<Rightarrow>
           bind_res (write_byte (ub_get bufs p) r) (\<lambda>r1.
             let already1 = already + 1 in
             if already1 = want then Inr (want, r1)
             else pipe_write_loop n want already1 it1 bufs r1))"

definition pipe_write :: "user_buffer \<Rightarrow> pipe \<Rightarrow> (isize \<times> pipe) res" where
  "pipe_write bufs p =
     (let want_to_write = ub_len bufs;
          loop_write = available_write (ring p) in
      if loop_write = 0 then Inr (- 2, p)
      else
        bind_res (pipe_write_loop loop_write want_to_write 0 ub_into_iter bufs (ring p)) (\<lambda>(n, r).
          Inr (of_nat n, p\<lparr>ring := r\<rparr>)))"

section \<open>The ring as a queue\<close>

definition ring_ok :: "pipe_ring_buffer \<Rightarrow> bool" where
  "ring_ok r \<longleftrightarrow>
     length (arr r) = 32 \<and> head r < 32 \<and> tail r < 32 \<and>
     (head r = tail r \<longleftrightarrow> status r \<noteq> Normal)"

definition pipe_bytes :: "pipe_ring_buffer \<Rightarrow> u8 list" where
  "pipe_bytes r = map (\<lambda>k. arr r ! ((head r + k) mod 32)) [0..<available_read r]"

lemma available_sum: "ring_ok r \<Longrightarrow> available_read r + available_write r = 32"
  by (cases "status r") (auto simp: ring_ok_def available_read_def available_write_def ring_buffer_size_def)

lemma length_pipe_bytes [simp]: "length (pipe_bytes r) = available_read r"
  by (simp add: pipe_bytes_def)

lemma available_bound: "ring_ok r \<Longrightarrow> available_read r \<le> 32"
  using available_sum[of r] by simp

lemma available_zero_iff: "ring_ok r \<Longrightarrow> available_read r = 0 \<longleftrightarrow> status r = Empty"
  "ring_ok r \<Longrightarrow> available_write r = 0 \<longleftrightarrow> status r = Full"
  by (cases "status r"; auto simp: ring_ok_def available_read_def available_write_def ring_buffer_size_def)+

lemma tail_position: "ring_ok r \<Longrightarrow> (head r + available_read r) mod 32 = tail r"
  by (cases "status r") (auto simp: ring_ok_def available_read_def ring_buffer_size_def mod_if)

lemma write_byte_eq:
  assumes ok: "ring_ok r" and room: "0 < available_write r"
  shows "\<exists>r'. write_byte x r = Inr r' \<and> ring_ok r' \<and> pipe_bytes r' = pipe_bytes r @ [x] \<and>
    write_end r' = write_end r"
proof -
  define r' where "r' = (let r2 = r\<lparr>status := Normal, arr := (arr r)[tail r := x], tail := (tail r + 1) mod 32\<rparr> in
      if (tail r + 1) mod 32 = head r then r2\<lparr>status := Full\<rparr> else r2)"
  have run: "write_byte x r = Inr r'"
    using ok by (simp add: write_byte_def ring_ok_def r'_def Let_def ring_buffer_size_def)
  have n: "available_read r < 32" using available_sum[OF ok] room by simp
  have ok': "ring_ok r'"
    using ok by (auto simp: ring_ok_def r'_def Let_def)
  have len: "available_read r' = available_read r + 1"
    using ok n unfolding ring_ok_def r'_def Let_def available_read_def ring_buffer_size_def
    by (auto simp: mod_if split: if_splits)
  have "pipe_bytes r' ! k = (pipe_bytes r @ [x]) ! k" if k: "k < available_read r + 1" for k
  proof -
    have e: "pipe_bytes r' ! k = (arr r)[tail r := x] ! ((head r + k) mod 32)"
      using k len by (simp add: pipe_bytes_def r'_def Let_def nth_append split: if_splits del: upt_Suc)
    show ?thesis
    proof (cases "k = available_read r")
      case True
      then have "(head r + k) mod 32 = tail r" using tail_position[OF ok] by simp
      then show ?thesis using e ok True by (simp add: ring_ok_def nth_append)
    next
      case False
      then have k': "k < available_read r" using k by simp
      have "(head r + k) mod 32 \<noteq> tail r"
        using shifted_mod_inj[of "head r" k 32 "available_read r"] tail_position[OF ok] k' n by auto
      then show ?thesis using e k' by (simp add: nth_append pipe_bytes_def)
    qed
  qed
  then have "pipe_bytes r' = pipe_bytes r @ [x]" by (intro nth_equalityI) (simp_all add: len)
  moreover have "write_end r' = write_end r" by (simp add: r'_def Let_def)
  ultimately show ?thesis using run ok' by blast
qed

lemma read_byte_eq:
  assumes ok: "ring_ok r" and some: "0 < available_read r"
  shows "\<exists>r'. read_byte r = Inr (hd (pipe_bytes r), r') \<and> ring_ok r' \<and> pipe_bytes r' = tl (pipe_bytes r) \<and>
    write_end r' = write_end r"
proof -
  define r' where "r' = (let r2 = r\<lparr>status := Normal, head := (head r + 1) mod 32\<rparr> in
      if (head r + 1) mod 32 = tail r then r2\<lparr>status := Empty\<rparr> else r2)"
  have ne: "pipe_bytes r \<noteq> []" using some by (metis length_greater_0_conv length_pipe_bytes)
  have "hd (pipe_bytes r) = arr r ! head r"
    using some ok ne by (simp add: hd_conv_nth pipe_bytes_def ring_ok_def)
  then have run: "read_byte r = Inr (hd (pipe_bytes r), r')"
    using ok by (simp add: read_byte_def ring_ok_def r'_def Let_def ring_buffer_size_def)
  have ok': "ring_ok r'" using ok by (auto simp: ring_ok_def r'_def Let_def)
  have len: "available_read r' = available_read r - 1"
    using ok some unfolding ring_ok_def r'_def Let_def available_read_def ring_buffer_size_def
    by (auto simp: mod_if split: if_splits)
  have "pipe_bytes r' = tl (pipe_bytes r)"
  proof (rule nth_equalityI)
    fix k assume "k < length (pipe_bytes r')"
    then have k: "k < available_read r - 1" by (simp add: len)
    have "pipe_bytes r' ! k = arr r ! (((head r + 1) mod 32 + k) mod 32)"
      using k len by (simp add: pipe_bytes_def r'_def Let_def)
    also have "((head r + 1) mod 32 + k) mod 32 = (head r + (k + 1)) mod 32" by (simp add: mod_simps add.assoc)
    finally show "pipe_bytes r' ! k = tl (pipe_bytes r) ! k"
      using k by (simp add: nth_tl pipe_bytes_def less_diff_conv)
  qed (simp add: len)
  moreover have "write_end r' = write_end r" by (simp add: r'_def Let_def)
  ultimately show ?thesis using run ok' by blast
qed


section \<open>Reading and writing\<close>

text \<open>
  A buffer is its leading nonempty segments and, when it has an empty segment, the rest from
  the first empty one on. The iterator walks the leading segments; asked for one byte more, it
  indexes the empty segment and panics. The loops ask for it unless they have moved as many
  bytes as the buffer holds, or as many as the pipe offers.
\<close>

definition ub_lead :: "user_buffer \<Rightarrow> user_buffer" where
  "ub_lead bufs = takeWhile (\<lambda>b. b \<noteq> []) bufs"

definition ub_panics :: "nat \<Rightarrow> user_buffer \<Rightarrow> bool" where
  "ub_panics n bufs \<longleftrightarrow>
     (let l = length (concat (ub_lead bufs)) in
      ub_lead bufs \<noteq> bufs \<and> l < n \<and> (l = 0 \<or> l < length (concat bufs)))"

lemma ub_lead_split:
  obtains bs where "bufs = ub_lead bufs @ bs" "ub_ok (ub_lead bufs)" "bs \<noteq> [] \<Longrightarrow> hd bs = []"
    "ub_lead bufs = bufs \<longleftrightarrow> bs = []"
proof (rule that[of "dropWhile (\<lambda>b. b \<noteq> []) bufs"])
  show split: "bufs = ub_lead bufs @ dropWhile (\<lambda>b. b \<noteq> []) bufs" by (simp add: ub_lead_def)
  then show "ub_lead bufs = bufs \<longleftrightarrow> dropWhile (\<lambda>b. b \<noteq> []) bufs = []"
    by (metis append_Nil2 append_self_conv)
  show "hd (dropWhile (\<lambda>b. b \<noteq> []) bufs) = []" if "dropWhile (\<lambda>b. b \<noteq> []) bufs \<noteq> []"
    using hd_dropWhile[OF that] by simp
qed (auto simp: ub_ok_def ub_lead_def dest: set_takeWhileD)

lemma ub_lead_ok: "ub_ok bufs \<Longrightarrow> ub_lead bufs = bufs"
  by (simp add: ub_ok_def ub_lead_def takeWhile_eq_all_conv)

lemma ub_panics_ok [simp]: "ub_ok bufs \<Longrightarrow> \<not> ub_panics n bufs"
  by (simp add: ub_panics_def ub_lead_ok)

lemma ub_panics_0 [simp]: "\<not> ub_panics 0 bufs"
  by (simp add: ub_panics_def Let_def)

text \<open>What is moved when the iterator does not panic.\<close>

lemma ub_lead_moves:
  assumes "\<not> ub_panics n bufs"
  shows "min n (length (concat (ub_lead bufs))) = min n (length (concat bufs))"
    and "take n (concat (ub_lead bufs)) = take n (concat bufs)"
proof -
  obtain bs where b: "bufs = ub_lead bufs @ bs" "ub_lead bufs = bufs \<longleftrightarrow> bs = []"
    by (rule ub_lead_split)
  have c: "concat bufs = concat (ub_lead bufs) @ concat bs" by (subst b(1)) simp
  have "length (concat bs) = 0 \<or> n \<le> length (concat (ub_lead bufs))"
    using assms b(2) unfolding ub_panics_def Let_def c by auto
  then have d: "concat bufs = concat (ub_lead bufs) \<or> n \<le> length (concat (ub_lead bufs))"
    unfolding length_0_conv by (metis c append_Nil2)
  from d show "min n (length (concat (ub_lead bufs))) = min n (length (concat bufs))"
    and "take n (concat (ub_lead bufs)) = take n (concat bufs)"
    by (elim disjE, simp_all only:, simp_all add: c)+
qed

lemma ub_rest_within: "ub_rest as it \<noteq> [] \<Longrightarrow> current_buffer it < length as"
  by (auto simp: ub_rest_def split: if_splits)

lemma ub_next_within:
  "current_buffer it < length as \<Longrightarrow> ub_next (as @ bs) it = ub_next as it"
  "ub_next as it = Inr (Some p, it') \<Longrightarrow> current_buffer it' \<le> length as"
  by (auto simp: ub_next_def nth_append bind_res_eq_Inr Let_def split: if_splits)

lemma ub_next_past:
  assumes "ub_at as it" "ub_rest as it = []" "current_buffer it \<le> length as" "bs \<noteq> []" "hd bs = []"
  shows "ub_next (as @ bs) it = Inl IndexOutOfBounds"
proof -
  have "current_buffer it = length as"
    using assms(1-3) by (auto simp: ub_at_def ub_rest_def split: if_splits)
  with assms(4,5) show ?thesis
    by (intro ub_next_empty_segment) (auto simp: nth_append hd_conv_nth)
qed

lemma ub_segment_within:
  "fst p < length as \<Longrightarrow> ub_get (as @ bs) p = ub_get as p"
  "fst p < length as \<Longrightarrow> ub_put p x (as @ bs) = ub_put p x as @ bs"
  by (simp_all add: ub_get_def ub_put_def nth_append list_update_append)

text \<open>The loops on a buffer \<open>as @ bs\<close> with the iterator still in the leading part.\<close>

lemma pipe_write_loop_eq:
  assumes "ring_ok r" "ub_ok as" "ub_at as it" "current_buffer it \<le> length as" "n \<le> available_write r"
    and seg: "bs \<noteq> [] \<Longrightarrow> hd bs = []"
    and want: "length (concat as) \<le> want" "bs = [] \<Longrightarrow> want = length (concat as)"
  shows "if bs \<noteq> [] \<and> length (ub_rest as it) < n \<and> (ub_rest as it = [] \<or> length (concat as) < want)
    then pipe_write_loop n want (length (ub_done as it)) it (as @ bs) r = Inl IndexOutOfBounds
    else \<exists>r'. pipe_write_loop n want (length (ub_done as it)) it (as @ bs) r =
        Inr (length (ub_done as it) + min n (length (ub_rest as it)), r') \<and>
      ring_ok r' \<and> pipe_bytes r' = pipe_bytes r @ take n (ub_rest as it) \<and> write_end r' = write_end r"
  using assms(1-5)
proof (induction n arbitrary: it r)
  case (Suc n)
  note ok = Suc.prems
  show ?case
  proof (cases "ub_rest as it")
    case Nil
    show ?thesis
    proof (cases "bs = []")
      case True
      then show ?thesis using ub_next_end[OF ok(3) Nil] ok(1) Nil by simp
    next
      case False
      then show ?thesis using ub_next_past[OF ok(3) Nil ok(4) False seg] Nil by simp
    qed
  next
    case (Cons x xs)
    obtain p it' where nx: "ub_next as it = Inr (Some p, it')" "ub_get as p = x" "ub_at as it'"
      "ub_rest as it' = xs" "ub_done as it' = ub_done as it @ [x]" "fst p < length as"
      using ub_next_step[OF ok(2,3) Cons] by blast
    have nx': "ub_next (as @ bs) it = Inr (Some p, it')" "current_buffer it' \<le> length as"
      using ub_next_within(1)[of it as bs] ub_next_within(2)[of as it] ub_rest_within[of as it] Cons nx(1)
      by auto
    obtain r1 where w: "write_byte x r = Inr r1" "ring_ok r1" "pipe_bytes r1 = pipe_bytes r @ [x]"
      "write_end r1 = write_end r"
      using write_byte_eq[OF ok(1), of x] ok(5) by auto
    have "available_read r1 = available_read r + 1" using arg_cong[OF w(3), of length] by simp
    then have room: "n \<le> available_write r1"
      using available_sum[OF ok(1)] available_sum[OF w(2)] ok(5) by linarith
    have total: "length (concat as) = length (ub_done as it) + 1 + length xs"
      using arg_cong[OF ub_done_rest[of as it], of length] Cons by simp
    have get: "ub_get (as @ bs) p = x" by (simp add: ub_segment_within nx)
    show ?thesis
    proof (cases "length (ub_done as it) + 1 = want")
      case True
      then have "xs = []" "length (concat as) = want" using total want(1) by auto
      then show ?thesis using True nx'(1) w Cons get by (simp add: Let_def)
    next
      case False
      then have step: "pipe_write_loop (Suc n) want (length (ub_done as it)) it (as @ bs) r =
          pipe_write_loop n want (length (ub_done as it')) it' (as @ bs) r1"
        using nx'(1) w(1) get nx(5) by (simp add: Let_def)
      have more: "xs = [] \<Longrightarrow> length (concat as) < want" using False total want(1) by simp
      show ?thesis
        using Suc.IH[OF w(2) ok(2) nx(3) nx'(2) room] more w(3,4) nx(4,5) Cons unfolding step
        by (auto split: if_splits)
    qed
  qed
qed simp

lemma pipe_read_loop_eq:
  assumes "ring_ok r" "ub_ok as" "ub_at as it" "current_buffer it \<le> length as" "n \<le> available_read r"
    and seg: "bs \<noteq> [] \<Longrightarrow> hd bs = []"
    and want: "length (concat as) \<le> want" "bs = [] \<Longrightarrow> want = length (concat as)"
  shows "if bs \<noteq> [] \<and> length (ub_rest as it) < n \<and> (ub_rest as it = [] \<or> length (concat as) < want)
    then pipe_read_loop n want (length (ub_done as it)) it (as @ bs) r = Inl IndexOutOfBounds
    else \<exists>as' r'. pipe_read_loop n want (length (ub_done as it)) it (as @ bs) r =
        Inr (length (ub_done as it) + min n (length (ub_rest as it)), as' @ bs, r') \<and>
      ring_ok r' \<and> pipe_bytes r' = drop (min n (length (ub_rest as it))) (pipe_bytes r) \<and>
      write_end r' = write_end r \<and> map length as' = map length as \<and>
      concat as' = ub_done as it @ take (min n (length (ub_rest as it))) (pipe_bytes r) @
        drop (min n (length (ub_rest as it))) (ub_rest as it)"
  using assms
proof (induction n arbitrary: it r as)
  case 0
  then show ?case using ub_done_rest[of as it] by auto
next
  case (Suc n)
  note ok = Suc.prems(1-5) and seg = Suc.prems(6) and want = Suc.prems(7,8)
  show ?case
  proof (cases "ub_rest as it")
    case Nil
    show ?thesis
    proof (cases "bs = []")
      case True
      then show ?thesis using ub_next_end[OF ok(3) Nil] ok(1) Nil ub_done_rest[of as it] by auto
    next
      case False
      then show ?thesis using ub_next_past[OF ok(3) Nil ok(4) False seg] Nil by simp
    qed
  next
    case (Cons x xs)
    have some: "0 < available_read r" using ok(5) by simp
    obtain r1 where w: "read_byte r = Inr (hd (pipe_bytes r), r1)" "ring_ok r1" "pipe_bytes r1 = tl (pipe_bytes r)"
      "write_end r1 = write_end r"
      using read_byte_eq[OF ok(1) some] by auto
    define c where "c = hd (pipe_bytes r)"
    have bytes: "pipe_bytes r = c # pipe_bytes r1"
      using some w(3) c_def by (metis length_greater_0_conv length_pipe_bytes list.collapse)
    obtain p it' where nx: "ub_next as it = Inr (Some p, it')" "fst p < length as"
      and put: "ub_ok (ub_put p c as)" "map length (ub_put p c as) = map length as"
        "ub_at (ub_put p c as) it'" "ub_rest (ub_put p c as) it' = xs"
        "ub_done (ub_put p c as) it' = ub_done as it @ [c]"
      using ub_next_step[OF ok(2,3) Cons] by blast
    have len: "length (ub_put p c as) = length as" "length (concat (ub_put p c as)) = length (concat as)"
      using map_eq_imp_length_eq[OF put(2)] arg_cong[OF put(2), of sum_list] by (simp_all add: length_concat)
    have nx': "ub_next (as @ bs) it = Inr (Some p, it')" "current_buffer it' \<le> length (ub_put p c as)"
      using ub_next_within(1)[of it as bs] ub_next_within(2)[of as it] ub_rest_within[of as it] Cons nx(1) len
      by auto
    have left: "n \<le> available_read r1" using arg_cong[OF bytes, of length] ok(5) by simp
    have total: "length (concat as) = length (ub_done as it) + 1 + length xs"
      using arg_cong[OF ub_done_rest[of as it], of length] Cons by simp
    note IH = Suc.IH[OF w(2) put(1,3) nx'(2) left seg, unfolded len(2), OF _ want]
    show ?thesis
    proof (cases "length (ub_done as it) + 1 = want")
      case True
      then have l: "xs = []" "length (concat as) = want" using total want(1) by auto
      have "concat (ub_put p c as) = ub_done as it @ [c]"
        using ub_done_rest[of "ub_put p c as" it'] l(1) by (simp add: put)
      moreover have "pipe_read_loop (Suc n) want (length (ub_done as it)) it (as @ bs) r =
          Inr (length (ub_done as it) + 1, ub_put p c as @ bs, r1)"
        using True nx'(1) w(1) nx(2) by (simp add: Let_def c_def ub_segment_within)
      ultimately show ?thesis using w(2,4) put(2) l unfolding Cons bytes
        by (auto intro!: exI[of _ "ub_put p c as"])
    next
      case False
      then have step: "pipe_read_loop (Suc n) want (length (ub_done as it)) it (as @ bs) r =
          pipe_read_loop n want (length (ub_done (ub_put p c as) it')) it' (ub_put p c as @ bs) r1"
        using nx'(1) w(1) nx(2) by (simp add: Let_def c_def put(5)[unfolded c_def] ub_segment_within)
      have more: "xs = [] \<Longrightarrow> length (concat as) < want" using False total want(1) by simp
      show ?thesis
        using IH more w(4) put(2,4,5) unfolding step bytes Cons
        by (auto split: if_splits)
    qed
  qed
qed

text \<open>A call moves as much as fits, unless it panics on an empty segment.\<close>

lemma ub_start_lead:
  assumes "ub_ok as"
  shows "ub_at as ub_into_iter" "current_buffer ub_into_iter \<le> length as"
    "ub_rest as ub_into_iter = concat as" "ub_done as ub_into_iter = []"
  using ub_start[of as] assms by (simp_all add: ub_into_iter_def)

lemma pipe_write_result:
  assumes ok: "ring_ok (ring p)"
  shows "if ub_panics (32 - length (pipe_bytes (ring p))) bufs then pipe_write bufs p = Inl IndexOutOfBounds
    else \<exists>r'. pipe_write bufs p =
      Inr (if length (pipe_bytes (ring p)) = 32 then - 2
           else of_nat (min (32 - length (pipe_bytes (ring p))) (length (concat bufs))), p\<lparr>ring := r'\<rparr>) \<and>
    ring_ok r' \<and> write_end r' = write_end (ring p) \<and>
    pipe_bytes r' = pipe_bytes (ring p) @ take (32 - length (pipe_bytes (ring p))) (concat bufs)"
proof -
  have room: "available_write (ring p) = 32 - length (pipe_bytes (ring p))"
    using available_sum[OF ok] by simp
  show ?thesis
  proof (cases "available_write (ring p) = 0")
    case True
    then show ?thesis using room ok available_bound[OF ok]
      by (auto simp: pipe_write_def intro: exI[of _ "ring p"])
  next
    case False
    obtain bs where b: "bufs = ub_lead bufs @ bs" "ub_ok (ub_lead bufs)" "bs \<noteq> [] \<Longrightarrow> hd bs = []"
      "ub_lead bufs = bufs \<longleftrightarrow> bs = []"
      by (rule ub_lead_split[of bufs]) blast
    have len: "length (concat (ub_lead bufs)) \<le> ub_len bufs" "bs = [] \<Longrightarrow> ub_len bufs = length (concat (ub_lead bufs))"
      by (subst (2) b(1), simp add: ub_len_concat) (use b(4) in \<open>simp add: ub_len_concat\<close>)
    note run = pipe_write_loop_eq[OF ok b(2) ub_start_lead(1,2)[OF b(2)] order_refl b(3) len,
        unfolded ub_start_lead(3,4)[OF b(2)] b(1)[symmetric]]
    show ?thesis
    proof (cases "ub_panics (available_write (ring p)) bufs")
      case True
      then have "pipe_write_loop (available_write (ring p)) (ub_len bufs) 0 ub_into_iter bufs (ring p) =
          Inl IndexOutOfBounds"
        using run b(4) by (auto simp: ub_panics_def Let_def ub_len_concat)
      then show ?thesis using True False room by (simp add: pipe_write_def Let_def)
    next
      case quiet: False
      then have nc: "\<not> (bs \<noteq> [] \<and> length (concat (ub_lead bufs)) < available_write (ring p) \<and>
          (concat (ub_lead bufs) = [] \<or> length (concat (ub_lead bufs)) < ub_len bufs))"
        using b(4) by (auto simp: ub_panics_def Let_def ub_len_concat)
      obtain r' where r': "pipe_write_loop (available_write (ring p)) (ub_len bufs) 0 ub_into_iter bufs (ring p) =
          Inr (min (available_write (ring p)) (length (concat bufs)), r')" "ring_ok r'"
        "write_end r' = write_end (ring p)"
        "pipe_bytes r' = pipe_bytes (ring p) @ take (available_write (ring p)) (concat bufs)"
        using run unfolding if_not_P[OF nc] ub_lead_moves[OF quiet] by auto
      moreover have "pipe_write bufs p =
          Inr (of_nat (min (available_write (ring p)) (length (concat bufs))), p\<lparr>ring := r'\<rparr>)"
        using False r'(1) by (simp add: pipe_write_def Let_def)
      ultimately show ?thesis using quiet False unfolding room by (simp del: length_pipe_bytes) blast
    qed
  qed
qed

lemma pipe_read_result:
  assumes ok: "ring_ok (ring p)" and set: "write_end (ring p)"
  shows "if ub_panics (length (pipe_bytes (ring p))) bufs then pipe_read bufs p = Inl IndexOutOfBounds
    else \<exists>bufs' r'. pipe_read bufs p =
      Inr (if pipe_bytes (ring p) = [] then if writers p = 0 then 0 else - 2
           else of_nat (min (length (pipe_bytes (ring p))) (length (concat bufs))), bufs', p\<lparr>ring := r'\<rparr>) \<and>
    ring_ok r' \<and> write_end r' \<and> map length bufs' = map length bufs \<and>
    concat bufs' = take (length (concat bufs)) (pipe_bytes (ring p)) @
      drop (length (pipe_bytes (ring p))) (concat bufs) \<and>
    pipe_bytes r' = drop (length (concat bufs)) (pipe_bytes (ring p))"
proof (cases "available_read (ring p) = 0")
  case True
  then have "pipe_bytes (ring p) = []" by (metis length_0_conv length_pipe_bytes)
  then show ?thesis using ok set True
    by (auto simp: pipe_read_def all_write_ends_closed_def Let_def intro!: exI[of _ bufs] exI[of _ "ring p"])
next
  case False
  then have ne: "pipe_bytes (ring p) \<noteq> []" by (metis length_0_conv length_pipe_bytes)
  let ?n = "available_read (ring p)"
  obtain bs where b: "bufs = ub_lead bufs @ bs" "ub_ok (ub_lead bufs)" "bs \<noteq> [] \<Longrightarrow> hd bs = []"
    "ub_lead bufs = bufs \<longleftrightarrow> bs = []"
    by (rule ub_lead_split[of bufs]) blast
  have c: "concat bufs = concat (ub_lead bufs) @ concat bs" by (subst b(1)) simp
  have len: "length (concat (ub_lead bufs)) \<le> ub_len bufs" "bs = [] \<Longrightarrow> ub_len bufs = length (concat (ub_lead bufs))"
    by (subst (2) b(1), simp add: ub_len_concat) (use b(4) in \<open>simp add: ub_len_concat\<close>)
  note run = pipe_read_loop_eq[OF ok b(2) ub_start_lead(1,2)[OF b(2)] order_refl b(3) len,
      unfolded ub_start_lead(3,4)[OF b(2)] b(1)[symmetric]]
  show ?thesis
  proof (cases "ub_panics ?n bufs")
    case True
    then have "pipe_read_loop ?n (ub_len bufs) 0 ub_into_iter bufs (ring p) = Inl IndexOutOfBounds"
      using run b(4) by (auto simp: ub_panics_def Let_def ub_len_concat)
    then show ?thesis using True False by (simp add: pipe_read_def Let_def)
  next
    case quiet: False
    then have nc: "\<not> (bs \<noteq> [] \<and> length (concat (ub_lead bufs)) < ?n \<and>
        (concat (ub_lead bufs) = [] \<or> length (concat (ub_lead bufs)) < ub_len bufs))"
      using b(4) by (auto simp: ub_panics_def Let_def ub_len_concat)
    obtain as' r' where r: "pipe_read_loop ?n (ub_len bufs) 0 ub_into_iter bufs (ring p) =
        Inr (min ?n (length (concat (ub_lead bufs))), as' @ bs, r')"
      and r': "ring_ok r'" "write_end r'" "map length as' = map length (ub_lead bufs)"
        "pipe_bytes r' = drop (min ?n (length (concat (ub_lead bufs)))) (pipe_bytes (ring p))"
        "concat as' = take (min ?n (length (concat (ub_lead bufs)))) (pipe_bytes (ring p)) @
          drop (min ?n (length (concat (ub_lead bufs)))) (concat (ub_lead bufs))"
      using run set unfolding if_not_P[OF nc] by auto
    have "map length (as' @ bs) = map length bufs"
      by (subst b(1)) (simp add: r'(3))
    moreover have "concat (as' @ bs) = take (min ?n (length (concat bufs))) (pipe_bytes (ring p)) @
        drop (min ?n (length (concat bufs))) (concat bufs)"
      using r'(5) ub_lead_moves(1)[OF quiet] unfolding c by auto
    ultimately show ?thesis
      using r r'(1,2,4) False ne quiet unfolding ub_lead_moves(1)[OF quiet]
      by (auto simp: pipe_read_def Let_def min_def intro!: exI[of _ "as' @ bs"])
  qed
qed

text \<open>Buffers without empty segments.\<close>

lemma pipe_write_eq:
  assumes ok: "ring_ok (ring p)" and bufs: "ub_ok bufs"
  shows "\<exists>r'. pipe_write bufs p =
      Inr (if length (pipe_bytes (ring p)) = 32 then - 2
           else of_nat (min (32 - length (pipe_bytes (ring p))) (length (concat bufs))), p\<lparr>ring := r'\<rparr>) \<and>
    ring_ok r' \<and> write_end r' = write_end (ring p) \<and>
    pipe_bytes r' = pipe_bytes (ring p) @ take (32 - length (pipe_bytes (ring p))) (concat bufs)"
  using pipe_write_result[OF ok, of bufs] bufs by simp

lemma pipe_read_eq:
  assumes ok: "ring_ok (ring p)" and bufs: "ub_ok bufs" and set: "write_end (ring p)"
  shows "\<exists>bufs' r'. pipe_read bufs p =
      Inr (if pipe_bytes (ring p) = [] then if writers p = 0 then 0 else - 2
           else of_nat (min (length (pipe_bytes (ring p))) (length (concat bufs))), bufs', p\<lparr>ring := r'\<rparr>) \<and>
    ring_ok r' \<and> write_end r' \<and> map length bufs' = map length bufs \<and>
    concat bufs' = take (length (concat bufs)) (pipe_bytes (ring p)) @
      drop (length (pipe_bytes (ring p))) (concat bufs) \<and>
    pipe_bytes r' = drop (length (concat bufs)) (pipe_bytes (ring p))"
  using pipe_read_result[OF ok set, of bufs] bufs by simp

section \<open>Runs of calls\<close>

text \<open>
  A run of writes, reads and drops of writers, against a bounded queue of 32 bytes. A read that
  has nothing to take leaves the buffer alone; the bytes of the caller's buffer after a read
  are part of the reply. A call whose iterator runs into an empty segment panics.
\<close>

datatype pipe_call = Pipe_write user_buffer | Pipe_read user_buffer | Drop_writer

fun pipe_run :: "pipe_call list \<Rightarrow> pipe \<Rightarrow> ((isize \<times> u8 list) list \<times> pipe) res" where
  "pipe_run [] p = Inr ([], p)"
| "pipe_run (Pipe_write bufs # cs) p =
     bind_res (pipe_write bufs p) (\<lambda>(n, p1).
       bind_res (pipe_run cs p1) (\<lambda>(rs, p2). Inr ((n, concat bufs) # rs, p2)))"
| "pipe_run (Pipe_read bufs # cs) p =
     bind_res (pipe_read bufs p) (\<lambda>(n, bufs', p1).
       bind_res (pipe_run cs p1) (\<lambda>(rs, p2). Inr ((n, concat bufs') # rs, p2)))"
| "pipe_run (Drop_writer # cs) p = pipe_run cs (p\<lparr>writers := writers p - 1\<rparr>)"

fun fifo_run ::
  "pipe_call list \<Rightarrow> u8 list \<Rightarrow> nat \<Rightarrow> ((isize \<times> u8 list) list \<times> u8 list \<times> nat) res" where
  "fifo_run [] q w = Inr ([], q, w)"
| "fifo_run (Pipe_write bufs # cs) q w =
     (let n = if length q = 32 then - 2 else of_nat (min (32 - length q) (length (concat bufs))) in
      if ub_panics (32 - length q) bufs then Inl IndexOutOfBounds
      else bind_res (fifo_run cs (q @ take (32 - length q) (concat bufs)) w) (\<lambda>(rs, q', w').
        Inr ((n, concat bufs) # rs, q', w')))"
| "fifo_run (Pipe_read bufs # cs) q w =
     (let n = if q = [] then if w = 0 then 0 else - 2 else of_nat (min (length q) (length (concat bufs))) in
      if ub_panics (length q) bufs then Inl IndexOutOfBounds
      else bind_res (fifo_run cs (drop (length (concat bufs)) q) w) (\<lambda>(rs, q', w').
        Inr ((n, take (length (concat bufs)) q @ drop (length q) (concat bufs)) # rs, q', w')))"
| "fifo_run (Drop_writer # cs) q w = fifo_run cs q (w - 1)"

lemma pipe_run_simulates:
  "ring_ok (ring p) \<Longrightarrow> write_end (ring p) \<Longrightarrow>
   case fifo_run cs (pipe_bytes (ring p)) (writers p) of
     Inl e \<Rightarrow> pipe_run cs p = Inl e
   | Inr (rs, q, w) \<Rightarrow> \<exists>p'. pipe_run cs p = Inr (rs, p') \<and> ring_ok (ring p') \<and>
       pipe_bytes (ring p') = q \<and> writers p' = w"
proof (induction cs arbitrary: p)
  case (Cons c cs)
  note ok = Cons.prems
  show ?case
  proof (cases c)
    case (Pipe_write bufs)
    show ?thesis
    proof (cases "ub_panics (32 - length (pipe_bytes (ring p))) bufs")
      case True
      then show ?thesis using pipe_write_result[OF ok(1), of bufs] by (simp add: Pipe_write Let_def)
    next
      case False
      then obtain r' where w: "pipe_write bufs p =
          Inr (if length (pipe_bytes (ring p)) = 32 then - 2
             else of_nat (min (32 - length (pipe_bytes (ring p))) (length (concat bufs))), p\<lparr>ring := r'\<rparr>)"
        and r': "ring_ok r'" "write_end r'"
          "pipe_bytes r' = pipe_bytes (ring p) @ take (32 - length (pipe_bytes (ring p))) (concat bufs)"
        using pipe_write_result[OF ok(1), of bufs] ok(2) by auto
      show ?thesis using Cons.IH[of "p\<lparr>ring := r'\<rparr>"] w r' False unfolding Pipe_write
        by (auto simp: Let_def split: sum.splits prod.splits)
    qed
  next
    case (Pipe_read bufs)
    show ?thesis
    proof (cases "ub_panics (length (pipe_bytes (ring p))) bufs")
      case True
      then show ?thesis using pipe_read_result[OF ok, of bufs] by (simp add: Pipe_read Let_def)
    next
      case False
      define n :: isize where "n = (if pipe_bytes (ring p) = [] then if writers p = 0 then 0 else - 2
          else of_nat (min (length (pipe_bytes (ring p))) (length (concat bufs))))"
      obtain bufs' r' where w: "pipe_read bufs p = Inr (n, bufs', p\<lparr>ring := r'\<rparr>)"
        and r': "ring_ok r'" "write_end r'"
          "concat bufs' = take (length (concat bufs)) (pipe_bytes (ring p)) @
            drop (length (pipe_bytes (ring p))) (concat bufs)"
          "pipe_bytes r' = drop (length (concat bufs)) (pipe_bytes (ring p))"
        using pipe_read_result[OF ok, of bufs] False unfolding n_def by auto
      have "fifo_run (c # cs) (pipe_bytes (ring p)) (writers p) =
          bind_res (fifo_run cs (pipe_bytes r') (writers p)) (\<lambda>(rs, q', w').
            Inr ((n, concat bufs') # rs, q', w'))"
        unfolding Pipe_read fifo_run.simps Let_def r'(3,4) n_def using False by simp
      moreover have "pipe_run (c # cs) p = bind_res (pipe_run cs (p\<lparr>ring := r'\<rparr>)) (\<lambda>(rs, p2).
          Inr ((n, concat bufs') # rs, p2))"
        by (simp add: Pipe_read w)
      ultimately show ?thesis using Cons.IH[of "p\<lparr>ring := r'\<rparr>"] r'(1,2)
        by (auto split: sum.splits prod.splits)
    qed
  next
    case Drop_writer
    then show ?thesis using Cons.IH[of "p\<lparr>writers := writers p - 1\<rparr>"] ok
      unfolding Drop_writer fifo_run.simps pipe_run.simps by simp
  qed
qed simp

lemma make_pipe_ok: "ring_ok (ring make_pipe)" "write_end (ring make_pipe)" "pipe_bytes (ring make_pipe) = []"
    "writers make_pipe = 1"
  by (simp_all add: make_pipe_def set_write_end_def ring_new_def ring_ok_def pipe_bytes_def available_read_def
      ring_buffer_size_def)

lemma fifo_run_bound: "fifo_run cs q w = Inr (rs, q', w') \<Longrightarrow> length q \<le> 32 \<Longrightarrow> length q' \<le> 32"
proof (induction cs q w arbitrary: rs rule: fifo_run.induct)
  case (2 bufs cs q w)
  then show ?case by (auto simp: bind_res_eq_Inr Let_def split: if_splits)
next
  case (3 bufs cs q w)
  then show ?case by (auto simp: bind_res_eq_Inr Let_def split: if_splits)
qed auto

text \<open>C19: a pipe is a first-in first-out queue of at most 32 bytes. Any run of writes, reads and
  drops of writers on a new pipe, with any buffers, gives the replies of the queue: a write
  stores as many leading bytes as there is room and returns their number, or -2 when the
  queue is full; a read delivers the oldest bytes in order into the caller's buffer and
  leaves its remaining bytes alone, and on an empty queue returns -2, or 0 once every writer
  is gone. The run panics exactly at the first call whose iterator indexes an empty segment:
  the buffer has one, the nonempty segments before it hold fewer bytes than the pipe has room
  for (a write) or has ready (a read), and they are not already all the bytes of a buffer
  that has some. So a write of an empty slice panics unless the pipe is full.\<close>
theorem pipe_is_a_bounded_queue:
  "case fifo_run cs [] 1 of
     Inl e \<Rightarrow> pipe_run cs make_pipe = Inl e
   | Inr (rs, q, w) \<Rightarrow> length q \<le> 32 \<and>
       (\<exists>p'. pipe_run cs make_pipe = Inr (rs, p') \<and> pipe_bytes (ring p') = q \<and> writers p' = w)"
  using pipe_run_simulates[OF make_pipe_ok(1,2), of cs] fifo_run_bound[of cs "[]" 1]
  unfolding make_pipe_ok(3,4) by (auto split: sum.splits)

theorem pipe_is_a_bounded_queue_witness:
  "(\<exists>p'. pipe_run [Pipe_write [[1, 2], [3]], Pipe_read [[0, 0]], Drop_writer, Pipe_read [[7, 7]], Pipe_read [[9]]] make_pipe =
     Inr ([(3, [1, 2, 3]), (2, [1, 2]), (1, [3, 7]), (0, [9])], p')) \<and>
   pipe_run [Pipe_write [[1]], Pipe_write [[2], [], [3]]] make_pipe = Inl IndexOutOfBounds"
  using pipe_is_a_bounded_queue[of "[Pipe_write [[1, 2], [3]], Pipe_read [[0, 0]], Drop_writer, Pipe_read [[7, 7]], Pipe_read [[9]]]"]
    pipe_is_a_bounded_queue[of "[Pipe_write [[1]], Pipe_write [[2], [], [3]]]"]
  by (auto simp: ub_panics_def ub_lead_def Let_def)

end
