(* ===== verification/Kernel_Files.thy ===== *)
theory Kernel_Files
  imports File Pipe
begin

text \<open>
  \<open>tg-rcore-tutorial-ch8/src/fs.rs\<close>: the file system of the kernel and the descriptors of a
  process.

  A file handle is a value; cloning it (opening, forking) copies its offset. The two ends of a
  pipe share one ring buffer, so a descriptor holds the number of the pipe in the list of all
  pipes, and the pipe counts its write ends: the strong count of the source's
  \<open>Arc<PipeWriter>\<close>. \<open>fd_clone\<close> and \<open>fd_drop\<close> are what cloning and dropping a descriptor do to
  that count.
\<close>

section \<open>The file system\<close>

record file_system =
  fs_efs :: efs
  fs_root :: vinode

text \<open>The global instance, made on first use from the device.\<close>

definition fs_init :: "store \<Rightarrow> file_system res" where
  "fs_init s =
     bind_res (efs_open s) (\<lambda>fs.
       bind_res (root_inode fs) (\<lambda>root. Inr \<lparr>fs_efs = fs, fs_root = root\<rparr>))"

definition fs_find :: "file_system \<Rightarrow> u8 list \<Rightarrow> store \<Rightarrow> vinode option res" where
  "fs_find fs path = vfs_find (fs_efs fs) (fs_root fs) path"

definition fs_open ::
  "file_system \<Rightarrow> u8 list \<Rightarrow> open_flags \<Rightarrow> store \<Rightarrow> (file_handle option \<times> store) res" where
  "fs_open fs path flags s =
     (case flags_read_write flags of
        (r, w) \<Rightarrow>
          bind_res
            (if flags_contain flags CREATE then
               bind_res (fs_find fs path s) (\<lambda>found.
                 case found of
                   Some inode \<Rightarrow> bind_res (vfs_clear (fs_efs fs) inode s) (\<lambda>s1. Inr (Some inode, s1))
                 | None \<Rightarrow> vfs_create (fs_efs fs) (fs_root fs) path s)
             else
               bind_res (fs_find fs path s) (\<lambda>found.
                 case found of
                   None \<Rightarrow> Inr (None, s)
                 | Some inode \<Rightarrow>
                     bind_res (if flags_contain flags TRUNC then vfs_clear (fs_efs fs) inode s else Inr s)
                       (\<lambda>s1. Inr (Some inode, s1))))
            (\<lambda>(inode, s1). Inr (map_option (file_handle_new r w) inode, s1)))"

definition fs_readdir :: "file_system \<Rightarrow> store \<Rightarrow> u8 list list option res" where
  "fs_readdir fs s = bind_res (vfs_readdir (fs_root fs) s) (\<lambda>names. Inr (Some names))"

section \<open>Reading a whole file\<close>

text \<open>A read that returns a positive count started before the end of the file.\<close>

definition disk_size :: "vinode \<Rightarrow> store \<Rightarrow> nat" where
  "disk_size vi s = unat (fsize (decode_inode (Vfs.block_offset vi) (blocks s (Vfs.block_id vi))))"

lemma vfs_read_at_before_end:
  assumes "vfs_read_at vi off buf s = Inr (n, buf')" "n \<noteq> 0"
  shows "off < disk_size vi s"
proof (rule ccontr)
  assume "\<not> off < disk_size vi s"
  then have "n = 0"
    using assms(1)
    by (auto simp: vfs_read_at_def read_disk_inode_def lock_block_def read_at_def disk_size_def Let_def
        bind_res_eq_Inr min_le_iff_disj split: if_splits)
  with assms(2) show False by simp
qed

text \<open>The loop: \<open>buffer\<close> keeps the bytes of the last read beyond what the next one fills.\<close>

function read_all_loop :: "vinode \<Rightarrow> nat \<Rightarrow> u8 list \<Rightarrow> u8 list \<Rightarrow> store \<Rightarrow> u8 list res" where
  "read_all_loop vi offset buffer v s =
     (case vfs_read_at vi offset buffer s of
        Inl e \<Rightarrow> Inl e
      | Inr (n, buffer1) \<Rightarrow>
          if n = 0 then Inr v
          else read_all_loop vi (offset + n) buffer1 (v @ take n buffer1) s)"
  by auto
termination
  by (relation "measure (\<lambda>(vi, offset, _, _, s). disk_size vi s - offset)")
    (auto dest!: vfs_read_at_before_end)

declare read_all_loop.simps [simp del]

definition read_all :: "file_handle \<Rightarrow> store \<Rightarrow> u8 list res" where
  "read_all fd s =
     (case fh_inode fd of
        None \<Rightarrow> Inr []
      | Some inode \<Rightarrow> read_all_loop inode 0 (replicate block_sz 0) [] s)"

section \<open>Descriptors\<close>

datatype fd =
    File file_handle
  | PipeRead nat
  | PipeWrite nat
  | EmptyFd bool bool

fun fd_readable :: "fd \<Rightarrow> bool" where
  "fd_readable (File f) = readable f"
| "fd_readable (PipeRead _) = True"
| "fd_readable (PipeWrite _) = False"
| "fd_readable (EmptyFd r w) = r"

fun fd_writable :: "fd \<Rightarrow> bool" where
  "fd_writable (File f) = writable f"
| "fd_writable (PipeRead _) = False"
| "fd_writable (PipeWrite _) = True"
| "fd_writable (EmptyFd r w) = w"

text \<open>
  Reading and writing return the descriptor with its new offset, and what becomes of the
  buffers, the pipes and the disk.
\<close>

fun fd_read ::
  "fd \<Rightarrow> user_buffer \<Rightarrow> pipe list \<Rightarrow> store \<Rightarrow> (isize \<times> fd \<times> user_buffer \<times> pipe list) res" where
  "fd_read (File f) buf ps s =
     bind_res (fh_read_file f buf s) (\<lambda>(n, f1, buf1). Inr (n, File f1, buf1, ps))"
| "fd_read (PipeRead i) buf ps s =
     bind_res (nth_res ps i) (\<lambda>p.
       bind_res (pipe_read buf p) (\<lambda>(n, buf1, p1). Inr (n, PipeRead i, buf1, ps[i := p1])))"
| "fd_read (PipeWrite i) buf ps s = Inr (- 1, PipeWrite i, buf, ps)"
| "fd_read (EmptyFd r w) buf ps s = Inr (- 1, EmptyFd r w, buf, ps)"

fun fd_write ::
  "efs \<Rightarrow> fd \<Rightarrow> user_buffer \<Rightarrow> pipe list \<Rightarrow> store \<Rightarrow> (isize \<times> fd \<times> pipe list \<times> store) res" where
  "fd_write fs (File f) buf ps s =
     bind_res (fh_write_file fs f buf s) (\<lambda>(n, f1, s1). Inr (n, File f1, ps, s1))"
| "fd_write fs (PipeWrite i) buf ps s =
     bind_res (nth_res ps i) (\<lambda>p.
       bind_res (pipe_write buf p) (\<lambda>(n, p1). Inr (n, PipeWrite i, ps[i := p1], s)))"
| "fd_write fs (PipeRead i) buf ps s = Inr (- 1, PipeRead i, ps, s)"
| "fd_write fs (EmptyFd r w) buf ps s = Inr (- 1, EmptyFd r w, ps, s)"

text \<open>The number of write ends of pipe \<open>i\<close> among descriptors.\<close>

fun is_write_end :: "nat \<Rightarrow> fd option \<Rightarrow> bool" where
  "is_write_end i (Some (PipeWrite j)) = (j = i)"
| "is_write_end i _ = False"

definition write_ends :: "nat \<Rightarrow> fd option list \<Rightarrow> nat" where
  "write_ends i tab = length (filter (is_write_end i) tab)"

text \<open>Cloning and dropping a table of descriptors adds and removes its write ends.\<close>

definition clone_fds :: "fd option list \<Rightarrow> pipe list \<Rightarrow> pipe list" where
  "clone_fds tab ps = map (\<lambda>(i, p). p\<lparr>writers := writers p + write_ends i tab\<rparr>) (enumerate 0 ps)"

definition drop_fds :: "fd option list \<Rightarrow> pipe list \<Rightarrow> pipe list" where
  "drop_fds tab ps = map (\<lambda>(i, p). p\<lparr>writers := writers p - write_ends i tab\<rparr>) (enumerate 0 ps)"

end
