(* ===== verification/Process.thy ===== *)
theory Process
  imports Address_Space Kernel_Files Thread_Manager Signals Sync
begin

text \<open>
  Processes and threads of the kernel: \<open>tg-rcore-tutorial-ch8/src/process.rs\<close>, and the state
  of the kernel its system calls work on.

  A process is the container of what its threads share. Its semaphores, mutexes and condition
  variables are reached through \<open>Arc\<close>s that no other process has (\<open>fork\<close> starts with empty
  lists), so the process holds them by value. \<open>kernel\<close> gathers the globals of the source:
  the processor (\<open>PROCESSOR\<close>), the id counters, the interrupt state of the hart, physical
  memory, the pipes that are alive, the disk behind the block cache, the console, and the
  cycle counter that \<open>clock_gettime\<close> reads.
\<close>

record thread =
  tid :: thread_id
  task_context :: foreign_context

definition thread_new :: "usize \<Rightarrow> local_context \<Rightarrow> id_counters \<Rightarrow> thread \<times> id_counters" where
  "thread_new stp ctx c =
     (case thread_id_new c of (i, c1) \<Rightarrow> (\<lparr>tid = i, task_context = \<lparr>local_ctx = ctx, satp = stp\<rparr>\<rparr>, c1))"

record 'pt process =
  pid :: proc_id
  address_space :: "'pt address_space"
  fd_table :: "fd option list"
  signal :: signal_impl
  semaphore_list :: "semaphore_inner up_cell option list"
  mutex_list :: "mutex_inner up_cell option list"
  condvar_list :: "condvar_inner up_cell option list"
  deadlock_detect_enabled :: bool
  mutex_owners :: "thread_id option list"

record 'pt kernel =
  processor :: "('pt process, thread) pt_manager"
  counters :: id_counters
  hart_state :: hart
  memory :: memory
  pipes :: "pipe list"
  disk :: store
  file_sys :: file_system
  console_out :: "u8 list"
  console_in :: "u8 list"
  cycles :: usize

section \<open>Loading a program\<close>

definition flag_letter :: "bool \<Rightarrow> char \<Rightarrow> char" where
  "flag_letter b c = (if b then c else CHR ''_'')"

definition segment_flags :: "elf_segment \<Rightarrow> string" where
  "segment_flags g =
     [CHR ''U'', flag_letter (seg_execute g) (CHR ''X''), flag_letter (seg_write g) (CHR ''W''),
      flag_letter (seg_read g) (CHR ''R''), CHR ''V'']"

definition page_mask :: usize where
  "page_mask = 4095"

definition load_segment ::
  "'pt platform \<Rightarrow> u8 list \<Rightarrow> elf_segment \<Rightarrow> 'pt address_space \<Rightarrow> memory \<Rightarrow> ('pt address_space \<times> memory) res" where
  "load_segment pf input g as m =
     (if \<not> seg_load g then Inr (as, m)
      else
        let off_file = seg_offset g; len_file = seg_file_size g; off_mem = seg_vaddr g in
        bind_res (plus_usize off_mem (seg_mem_size g)) (\<lambda>end_mem.
        bind_res (assert_res (off_file AND page_mask = off_mem AND page_mask)) (\<lambda>_.
        bind_res (if unat off_file + unat len_file \<le> length input
                  then Inr (slice (unat off_file) (unat len_file) input) else Inl IndexOutOfBounds) (\<lambda>data.
          space_map pf (addr_floor pf off_mem, addr_ceil pf end_mem) data
            (unat (off_mem AND page_mask)) (vm_flags pf (segment_flags g)) as m))))"

fun load_segments ::
  "'pt platform \<Rightarrow> u8 list \<Rightarrow> elf_segment list \<Rightarrow> 'pt address_space \<Rightarrow> memory \<Rightarrow> ('pt address_space \<times> memory) res" where
  "load_segments pf input [] as m = Inr (as, m)"
| "load_segments pf input (g # gs) as m =
     bind_res (load_segment pf input g as m) (\<lambda>(as1, m1). load_segments pf input gs as1 m1)"

definition user_stack_top :: nat where
  "user_stack_top = 2 ^ 26"

definition initial_fds :: "fd option list" where
  "initial_fds = [Some (EmptyFd True False), Some (EmptyFd False True), Some (EmptyFd False True)]"

text \<open>A process that starts with these parts; the synchronisation lists are empty.\<close>

definition process_init :: "proc_id \<Rightarrow> 'pt address_space \<Rightarrow> fd option list \<Rightarrow> signal_impl \<Rightarrow> 'pt process" where
  "process_init i as fds sg =
     \<lparr>pid = i, address_space = as, fd_table = fds, signal = sg, semaphore_list = [], mutex_list = [],
      condvar_list = [], deadlock_detect_enabled = False, mutex_owners = []\<rparr>"

definition from_elf ::
  "'pt platform \<Rightarrow> elf_file \<Rightarrow> id_counters \<Rightarrow> memory \<Rightarrow>
     (('pt process \<times> thread) option \<times> id_counters \<times> memory) res" where
  "from_elf pf elf c m =
     (if \<not> elf_executable elf then Inr (None, c, m)
      else
        bind_res (space_new pf m) (\<lambda>(as, m1).
        bind_res (load_segments pf (elf_input elf) (elf_segments elf) as m1) (\<lambda>(as1, m2).
        bind_res (alloc_pages pf 2 m2) (\<lambda>(stack, m3).
        bind_res (map_extern pf (user_stack_top - 2, user_stack_top) stack (vm_flags pf ''U_WRV'') as1) (\<lambda>as2.
          let as3 = map_portal pf as2 in
          bind_res (ctx_set_sp (push_bit 38 1) (ctx_user (elf_entry elf))) (\<lambda>ctx.
            case thread_new (satp_of as3) ctx c of
              (th, c1) \<Rightarrow>
                (case proc_id_new c1 of
                   (i, c2) \<Rightarrow> Inr (Some (process_init i as3 initial_fds signal_impl_new, th), c2, m3))))))))"

section \<open>exec and fork\<close>

text \<open>The main thread of a process is the first of its threads.\<close>

definition main_thread :: "proc_id \<Rightarrow> ('pt process, thread) pt_manager \<Rightarrow> (thread_id \<times> thread) res" where
  "main_thread i pr =
     bind_res (unwrap (pt_get_thread i pr)) (\<lambda>pthreads.
       bind_res (nth_res pthreads 0) (\<lambda>t.
         bind_res (pt_get_task t pr) (\<lambda>found.
           bind_res (unwrap found) (\<lambda>th. Inr (t, th)))))"

definition process_exec :: "'pt platform \<Rightarrow> proc_id \<Rightarrow> elf_file \<Rightarrow> 'pt kernel \<Rightarrow> 'pt kernel res" where
  "process_exec pf i elf k =
     bind_res (from_elf pf elf (counters k) (memory k)) (\<lambda>(made, c, m).
     bind_res (unwrap made) (\<lambda>(proc, th).
     bind_res (pt_get_proc i (processor k)) (\<lambda>found.
     bind_res (unwrap found) (\<lambda>self.
       let pr1 = pt_put_proc i (self\<lparr>address_space := address_space proc\<rparr>) (processor k) in
       bind_res (main_thread (pid self) pr1) (\<lambda>(t, old).
         Inr (k\<lparr>counters := c, memory := m,
                processor := pt_put_task t (old\<lparr>task_context := task_context th\<rparr>) pr1\<rparr>))))))"

definition process_fork ::
  "'pt platform \<Rightarrow> 'pt process \<Rightarrow> 'pt kernel \<Rightarrow> (('pt process \<times> thread) option \<times> 'pt kernel) res" where
  "process_fork pf self k =
     (case proc_id_new (counters k) of
        (i, c1) \<Rightarrow>
          bind_res (space_new pf (memory k)) (\<lambda>(as, m1).
          bind_res (cloneself pf (address_space self) as m1) (\<lambda>(as1, m2).
            let as2 = map_portal pf as1 in
            bind_res (main_thread (pid self) (processor k)) (\<lambda>(_, main).
              case thread_new (satp_of as2) (local_ctx (task_context main)) c1 of
                (th, c2) \<Rightarrow>
                  Inr (Some (process_init i as2 (fd_table self) (from_fork (signal self)), th),
                       k\<lparr>counters := c2, memory := m2, pipes := clone_fds (fd_table self) (pipes k)\<rparr>)))))"

end
