(* ===== verification/Time_Spec.thy ===== *)
theory Time_Spec
  imports Prelude
begin

text \<open>
  \<open>tg-rcore-tutorial-syscall/src/time.rs\<close>: clock identifiers and times of seconds and
  nanoseconds, shared by the kernel and its user programs. Additions overflow as they do in
  a debug build. The derived order compares seconds first.
\<close>

type_synonym clock_id = usize

definition clock_realtime :: clock_id where "clock_realtime = 0"
definition clock_monotonic :: clock_id where "clock_monotonic = 1"

record time_spec =
  tv_sec :: usize
  tv_nsec :: usize

definition time_zero :: time_spec where "time_zero = \<lparr>tv_sec = 0, tv_nsec = 0\<rparr>"
definition time_second :: time_spec where "time_second = \<lparr>tv_sec = 1, tv_nsec = 0\<rparr>"
definition time_millsecond :: time_spec where "time_millsecond = \<lparr>tv_sec = 0, tv_nsec = 1000000\<rparr>"
definition time_microsecond :: time_spec where "time_microsecond = \<lparr>tv_sec = 0, tv_nsec = 1000\<rparr>"
definition time_nanosecond :: time_spec where "time_nanosecond = \<lparr>tv_sec = 0, tv_nsec = 1\<rparr>"

definition from_millsecond :: "usize \<Rightarrow> time_spec" where
  "from_millsecond ms = \<lparr>tv_sec = ms div 1000, tv_nsec = ms mod 1000 * 1000000\<rparr>"

definition time_add :: "time_spec \<Rightarrow> time_spec \<Rightarrow> time_spec res" where
  "time_add a b =
     bind_res (plus_usize (tv_sec a) (tv_sec b)) (\<lambda>s.
     bind_res (plus_usize (tv_nsec a) (tv_nsec b)) (\<lambda>n.
       if n > 1000000000 then
         bind_res (plus_usize s 1) (\<lambda>s1. Inr \<lparr>tv_sec = s1, tv_nsec = n - 1000000000\<rparr>)
       else Inr \<lparr>tv_sec = s, tv_nsec = n\<rparr>))"

definition time_less :: "time_spec \<Rightarrow> time_spec \<Rightarrow> bool" where
  "time_less a b \<longleftrightarrow> tv_sec a < tv_sec b \<or> tv_sec a = tv_sec b \<and> tv_nsec a < tv_nsec b"

section \<open>As a number of nanoseconds\<close>

definition nanos :: "time_spec \<Rightarrow> nat" where
  "nanos t = unat (tv_sec t) * 10 ^ 9 + unat (tv_nsec t)"

definition normalised :: "time_spec \<Rightarrow> bool" where
  "normalised t \<longleftrightarrow> unat (tv_nsec t) < 10 ^ 9"

lemma nanos_from_millsecond: "nanos (from_millsecond ms) = unat ms * 10 ^ 6" "normalised (from_millsecond ms)"
proof -
  have m: "unat (ms mod 1000) < 1000" by (simp add: unat_mod)
  then have "unat (ms mod 1000 * 1000000) = unat (ms mod 1000) * 1000000"
    by (subst unat_mult_lem[THEN iffD1]) simp_all
  then have n: "unat (tv_nsec (from_millsecond ms)) = unat ms mod 1000 * 1000000"
    by (simp add: from_millsecond_def unat_mod)
  show "normalised (from_millsecond ms)" using m by (simp add: normalised_def n unat_mod)
  have "\<And>d m :: nat. d * 1000000000 + m * 1000000 = (d * 1000 + m) * 1000000" by simp
  then have eq: "unat ms div 1000 * 1000000000 + unat ms mod 1000 * 1000000 = unat ms * 1000000"
    by (simp only: div_mult_mod_eq)
  show "nanos (from_millsecond ms) = unat ms * 10 ^ 6"
    using eq by (simp add: nanos_def n) (simp add: from_millsecond_def unat_div)
qed

lemma time_add_result:
  assumes "normalised a" "normalised b" "time_add a b = Inr c"
  shows "nanos c = nanos a + nanos b \<and> unat (tv_nsec c) \<le> 10 ^ 9 \<and>
    (normalised c \<longleftrightarrow> unat (tv_nsec a) + unat (tv_nsec b) \<noteq> 10 ^ 9)"
proof -
  obtain s n where s: "plus_usize (tv_sec a) (tv_sec b) = Inr s" and n: "plus_usize (tv_nsec a) (tv_nsec b) = Inr n"
    and c: "(if n > 1000000000 then bind_res (plus_usize s 1) (\<lambda>s1. Inr \<lparr>tv_sec = s1, tv_nsec = n - 1000000000\<rparr>)
       else Inr \<lparr>tv_sec = s, tv_nsec = n\<rparr>) = Inr c"
    using assms(3) by (auto simp: time_add_def bind_res_eq_Inr)
  note us = plus_usize_unat[OF s] and un = plus_usize_unat[OF n]
  have bound: "unat n < 2 * 10 ^ 9" using assms(1,2) un by (simp add: normalised_def)
  show ?thesis
  proof (cases "n > 1000000000")
    case True
    then have gt: "unat n > 1000000000" by (simp add: word_less_nat_alt)
    obtain s1 where s1: "plus_usize s 1 = Inr s1" "c = \<lparr>tv_sec = s1, tv_nsec = n - 1000000000\<rparr>"
      using c True by (auto simp: bind_res_eq_Inr)
    have "unat (n - 1000000000) = unat n - 1000000000"
      using gt by (subst unat_sub) (simp_all add: word_le_nat_alt)
    then show ?thesis
      using plus_usize_unat[OF s1(1)] us un gt bound by (simp add: s1(2) nanos_def normalised_def) linarith
  next
    case False
    then have "unat n \<le> 1000000000" by (simp add: word_less_nat_alt)
    then show ?thesis using c False us un by (auto simp: nanos_def normalised_def)
  qed
qed

lemma time_add_defined:
  assumes "normalised a" "normalised b" "unat (tv_sec a) + unat (tv_sec b) + 1 < 2 ^ 64"
  shows "\<exists>c. time_add a b = Inr c"
proof -
  have "unat (tv_nsec a) + unat (tv_nsec b) < 2 ^ 64" using assms(1,2) by (simp add: normalised_def)
  moreover have "unat (tv_sec a + tv_sec b) = unat (tv_sec a) + unat (tv_sec b)"
    using assms(3) by (simp add: unat_add_lem[THEN iffD1])
  ultimately show ?thesis using assms(3) by (simp add: time_add_def plus_usize_def)
qed

lemma time_less_nanos:
  assumes "time_less d t" "unat (tv_nsec d) \<le> 10 ^ 9"
  shows "nanos d \<le> nanos t"
  using assms by (auto simp: time_less_def nanos_def word_less_nat_alt)

lemma not_time_less_nanos:
  assumes "\<not> time_less d t" "normalised t"
  shows "nanos t \<le> nanos d"
proof -
  have "unat (tv_sec t) < unat (tv_sec d) \<or> unat (tv_sec t) = unat (tv_sec d) \<and> unat (tv_nsec t) \<le> unat (tv_nsec d)"
    using assms(1) by (auto simp: time_less_def word_less_nat_alt word_unat_eq_iff)
  then show ?thesis using assms(2) by (auto simp: nanos_def normalised_def)
qed

text \<open>Adding two normalised times adds their nanoseconds exactly. The result is normalised again except in one
case, which the comparison \<open>>\<close> of the code misses: nanoseconds that add up to exactly one second stay
\<open>1000000000\<close> (and such a time is then less than its normalised equal).\<close>

theorem time_add_adds_nanoseconds:
  assumes "normalised a" "normalised b" "time_add a b = Inr c"
  shows "nanos c = nanos a + nanos b \<and>
    (normalised c \<longleftrightarrow> unat (tv_nsec a) + unat (tv_nsec b) \<noteq> 10 ^ 9)"
  using time_add_result[OF assms] by blast

theorem time_add_adds_nanoseconds_witness:
  "time_add (from_millsecond 1500) (from_millsecond 2500) = Inr \<lparr>tv_sec = 3, tv_nsec = 1000000000\<rparr> \<and>
   nanos \<lparr>tv_sec = 3, tv_nsec = 1000000000\<rparr> = 4 * 10 ^ 9 \<and> \<not> normalised \<lparr>tv_sec = 3, tv_nsec = 1000000000\<rparr>"
proof -
  have run: "time_add (from_millsecond 1500) (from_millsecond 2500) = Inr \<lparr>tv_sec = 3, tv_nsec = 1000000000\<rparr>"
    by (simp add: time_add_def from_millsecond_def plus_usize_def)
  show ?thesis
    using time_add_adds_nanoseconds[OF nanos_from_millsecond(2) nanos_from_millsecond(2) run] run
    by (simp add: nanos_from_millsecond(1)) (simp add: from_millsecond_def)
qed

end
