(* ===== verification/Syscalls.thy ===== *)
theory Syscalls
  imports Process Time_Spec
begin

text \<open>
  The system calls of the kernel: the trait implementations of \<open>mod impls\<close> in
  \<open>tg-rcore-tutorial-ch8/src/main.rs\<close>. A call is a step on the kernel state that answers an
  \<open>isize\<close> or panics. \<open>current_process\<close> is \<open>get_current_proc().unwrap()\<close>, \<open>put_process\<close> what is
  written through the reference it returns. Lines the logger prints are not part of
  \<open>console_out\<close>; what \<open>print!\<close> prints is.
\<close>

section \<open>Steps on the kernel state\<close>

type_synonym ('s, 'a) kstep = "'s \<Rightarrow> ('a \<times> 's) res"

definition k_ret :: "'a \<Rightarrow> ('s, 'a) kstep" where
  "k_ret a s = Inr (a, s)"

definition k_bind :: "('s, 'a) kstep \<Rightarrow> ('a \<Rightarrow> ('s, 'b) kstep) \<Rightarrow> ('s, 'b) kstep" where
  "k_bind m f s = bind_res (m s) (\<lambda>(a, s'). f a s')"

definition k_read :: "('s \<Rightarrow> 'a res) \<Rightarrow> ('s, 'a) kstep" where
  "k_read f s = bind_res (f s) (\<lambda>a. Inr (a, s))"

definition k_update :: "('s \<Rightarrow> 's res) \<Rightarrow> ('s, unit) kstep" where
  "k_update f s = bind_res (f s) (\<lambda>s'. Inr ((), s'))"

definition k_lift :: "'a res \<Rightarrow> ('s, 'a) kstep" where
  "k_lift r = k_read (\<lambda>_. r)"

definition current_process :: "('pt kernel, 'pt process) kstep" where
  "current_process = k_read (\<lambda>k. bind_res (pt_get_current_proc (processor k)) unwrap)"

definition current_thread :: "('pt kernel, thread) kstep" where
  "current_thread = k_read (\<lambda>k. bind_res (pt_current (processor k)) unwrap)"

definition put_process :: "'pt process \<Rightarrow> ('pt kernel, unit) kstep" where
  "put_process p =
     k_update (\<lambda>k. bind_res (pt_current_pid (processor k)) (\<lambda>i.
       Inr (case i of
              None \<Rightarrow> k
            | Some i \<Rightarrow> k\<lparr>processor := pt_put_proc i p (processor k)\<rparr>)))"

definition put_thread :: "thread \<Rightarrow> ('pt kernel, unit) kstep" where
  "put_thread th =
     k_update (\<lambda>k. Inr (case current (processor k) of
              None \<Rightarrow> k
            | Some t \<Rightarrow> k\<lparr>processor := pt_put_task t th (processor k)\<rparr>))"

definition on_processor ::
  "(('pt process, thread) pt_manager \<Rightarrow> ('a \<times> ('pt process, thread) pt_manager) res) \<Rightarrow> ('pt kernel, 'a) kstep" where
  "on_processor f k = bind_res (f (processor k)) (\<lambda>(a, pr). Inr (a, k\<lparr>processor := pr\<rparr>))"

definition update_processor ::
  "(('pt process, thread) pt_manager \<Rightarrow> ('pt process, thread) pt_manager res) \<Rightarrow> ('pt kernel, unit) kstep" where
  "update_processor f = on_processor (\<lambda>pr. bind_res (f pr) (\<lambda>pr'. Inr ((), pr')))"

definition write_memory :: "nat \<Rightarrow> u8 list \<Rightarrow> ('pt kernel, unit) kstep" where
  "write_memory ptr bs = k_update (\<lambda>k. Inr (k\<lparr>memory := mem_write ptr bs (memory k)\<rparr>))"

definition read_memory :: "nat \<Rightarrow> nat \<Rightarrow> ('pt kernel, u8 list) kstep" where
  "read_memory ptr n = k_read (\<lambda>k. Inr (mem_read ptr n (memory k)))"

definition print_bytes :: "u8 list \<Rightarrow> ('pt kernel, unit) kstep" where
  "print_bytes bs = k_update (\<lambda>k. Inr (k\<lparr>console_out := console_out k @ bs\<rparr>))"

section \<open>Constants\<close>

definition stdin :: usize where "stdin = 0"
definition stdout :: usize where "stdout = 1"
definition stddebug :: usize where "stddebug = 2"

definition readable_flags :: "'pt platform \<Rightarrow> u64" where
  "readable_flags pf = vm_flags pf ''RV''"

definition writeable_flags :: "'pt platform \<Rightarrow> u64" where
  "writeable_flags pf = vm_flags pf ''W_V''"

section \<open>Input and output\<close>

text \<open>A descriptor of the table, and the table with it changed.\<close>

definition fd_at :: "usize \<Rightarrow> 'pt process \<Rightarrow> fd option res" where
  "fd_at i p = nth_res (fd_table p) (unat i)"

definition set_fd :: "usize \<Rightarrow> fd option \<Rightarrow> 'pt process \<Rightarrow> 'pt process" where
  "set_fd i f p = p\<lparr>fd_table := (fd_table p)[unat i := f]\<rparr>"

definition file_write :: "fd \<Rightarrow> user_buffer \<Rightarrow> ('pt kernel, isize \<times> fd) kstep" where
  "file_write f buf k =
     bind_res (fd_write (fs_efs (file_sys k)) f buf (pipes k) (disk k)) (\<lambda>(n, f1, ps, s).
       Inr ((n, f1), k\<lparr>pipes := ps, disk := s\<rparr>))"

definition file_read :: "fd \<Rightarrow> user_buffer \<Rightarrow> ('pt kernel, isize \<times> fd \<times> user_buffer) kstep" where
  "file_read f buf k =
     bind_res (fd_read f buf (pipes k) (disk k)) (\<lambda>(n, f1, buf1, ps).
       Inr ((n, f1, buf1), k\<lparr>pipes := ps\<rparr>))"

definition sys_write :: "'pt platform \<Rightarrow> usize \<Rightarrow> usize \<Rightarrow> usize \<Rightarrow> ('pt kernel, isize) kstep" where
  "sys_write pf fd buf cnt =
     k_bind current_process (\<lambda>p.
       case translate pf (address_space p) buf (readable_flags pf) of
         None \<Rightarrow> k_ret (- 1)
       | Some ptr \<Rightarrow>
           if fd = stdout \<or> fd = stddebug then
             k_bind (read_memory ptr (unat cnt)) (\<lambda>bs. k_bind (print_bytes bs) (\<lambda>_. k_ret cnt))
           else
             k_bind (k_lift (fd_at fd p)) (\<lambda>entry.
               case entry of
                 None \<Rightarrow> k_ret (- 1)
               | Some file \<Rightarrow>
                   if fd_writable file then
                     k_bind (read_memory ptr (unat cnt)) (\<lambda>bs.
                     k_bind (file_write file [bs]) (\<lambda>(n, file1).
                     k_bind (put_process (set_fd fd (Some file1) p)) (\<lambda>_. k_ret n)))
                   else k_ret (- 1)))"

text \<open>
  \<open>console_getchar\<close> of the firmware built into the kernel (theory Firmware) polls until there is
  input; while there is none it does not return.
\<close>

definition getchar :: "u8 list \<Rightarrow> (u8 \<times> u8 list) res" where
  "getchar ins = (case ins of [] \<Rightarrow> Inl Deadlock | c # cs \<Rightarrow> Inr (c, cs))"

primrec read_console :: "nat \<Rightarrow> nat \<Rightarrow> ('pt kernel, unit) kstep" where
  "read_console 0 ptr = k_ret ()"
| "read_console (Suc n) ptr =
     k_bind (\<lambda>k. bind_res (getchar (console_in k)) (\<lambda>(c, cs). Inr (c, k\<lparr>console_in := cs\<rparr>))) (\<lambda>c.
       k_bind (write_memory ptr [c]) (\<lambda>_. read_console n (ptr + 1)))"

definition sys_read :: "'pt platform \<Rightarrow> usize \<Rightarrow> usize \<Rightarrow> usize \<Rightarrow> ('pt kernel, isize) kstep" where
  "sys_read pf fd buf cnt =
     k_bind current_process (\<lambda>p.
       case translate pf (address_space p) buf (writeable_flags pf) of
         None \<Rightarrow> k_ret (- 1)
       | Some ptr \<Rightarrow>
           if fd = stdin then k_bind (read_console (unat cnt) ptr) (\<lambda>_. k_ret cnt)
           else
             k_bind (k_lift (fd_at fd p)) (\<lambda>entry.
               case entry of
                 None \<Rightarrow> k_ret (- 1)
               | Some file \<Rightarrow>
                   if fd_readable file then
                     k_bind (read_memory ptr (unat cnt)) (\<lambda>bs.
                     k_bind (file_read file [bs]) (\<lambda>(n, file1, buf1).
                     k_bind (write_memory ptr (concat buf1)) (\<lambda>_.
                     k_bind (put_process (set_fd fd (Some file1) p)) (\<lambda>_. k_ret n))))
                   else k_ret (- 1)))"

text \<open>
  A path: the bytes up to the first zero, each pushed as the character of that code. The
  address of the next byte overflows at the end of the address space.
\<close>

definition char_utf8 :: "u8 \<Rightarrow> u8 list" where
  "char_utf8 c = (if c < 128 then [c] else [192 OR drop_bit 6 c, 128 OR (c AND 63)])"

function c_string :: "nat \<Rightarrow> memory \<Rightarrow> u8 list res" where
  "c_string ptr m =
     (if phys m ptr = 0 then Inr []
      else if ptr + 1 < 2 ^ 64 then bind_res (c_string (ptr + 1) m) (\<lambda>cs. Inr (char_utf8 (phys m ptr) @ cs))
      else Inl ArithOverflow)"
  by auto
termination by (relation "measure (\<lambda>(ptr, m). 2 ^ 64 - ptr)") auto

declare c_string.simps [simp del]

definition file_open :: "u8 list \<Rightarrow> open_flags \<Rightarrow> ('pt kernel, file_handle option) kstep" where
  "file_open path flags k =
     bind_res (fs_open (file_sys k) path flags (disk k)) (\<lambda>(h, s). Inr (h, k\<lparr>disk := s\<rparr>))"

definition push_fd :: "fd option \<Rightarrow> 'pt process \<Rightarrow> 'pt process" where
  "push_fd f p = p\<lparr>fd_table := fd_table p @ [f]\<rparr>"

definition sys_open :: "'pt platform \<Rightarrow> usize \<Rightarrow> usize \<Rightarrow> ('pt kernel, isize) kstep" where
  "sys_open pf path flags =
     k_bind current_process (\<lambda>p.
       case translate pf (address_space p) path (readable_flags pf) of
         None \<Rightarrow> k_ret (- 1)
       | Some ptr \<Rightarrow>
           k_bind (k_read (\<lambda>k. c_string ptr (memory k))) (\<lambda>name.
           k_bind (k_lift (unwrap (flags_from_bits (ucast flags)))) (\<lambda>fl.
           k_bind (file_open name fl) (\<lambda>handle.
             case handle of
               None \<Rightarrow> k_ret (- 1)
             | Some h \<Rightarrow>
                 k_bind (put_process (push_fd (Some (File h)) p)) (\<lambda>_.
                   k_ret (of_nat (length (fd_table p))))))))"

definition sys_close :: "usize \<Rightarrow> ('pt kernel, isize) kstep" where
  "sys_close fd =
     k_bind current_process (\<lambda>p.
       if length (fd_table p) \<le> unat fd then k_ret (- 1)
       else
         k_bind (k_lift (fd_at fd p)) (\<lambda>entry.
           if entry = None then k_ret (- 1)
           else
             k_bind (put_process (set_fd fd None p)) (\<lambda>_.
             k_bind (k_update (\<lambda>k. Inr (k\<lparr>pipes := drop_fds [entry] (pipes k)\<rparr>))) (\<lambda>_.
               k_ret 0))))"

definition sys_pipe :: "'pt platform \<Rightarrow> usize \<Rightarrow> ('pt kernel, isize) kstep" where
  "sys_pipe pf addr =
     k_bind current_process (\<lambda>p.
       let read_fd = length (fd_table p); write_fd = read_fd + 1 in
       case translate pf (address_space p) addr (writeable_flags pf) of
         None \<Rightarrow> k_ret (- 1)
       | Some ptr \<Rightarrow>
           k_bind (write_memory ptr (le_bytes 8 read_fd)) (\<lambda>_.
           k_bind (k_lift (plus_usize addr 8)) (\<lambda>addr2.
             case translate pf (address_space p) addr2 (writeable_flags pf) of
               None \<Rightarrow> k_ret (- 1)
             | Some ptr2 \<Rightarrow>
                 k_bind (write_memory ptr2 (le_bytes 8 write_fd)) (\<lambda>_.
                 k_bind (k_read (\<lambda>k. Inr (length (pipes k)))) (\<lambda>i.
                 k_bind (k_update (\<lambda>k. Inr (k\<lparr>pipes := pipes k @ [make_pipe]\<rparr>))) (\<lambda>_.
                 k_bind (put_process (push_fd (Some (PipeWrite i)) (push_fd (Some (PipeRead i)) p))) (\<lambda>_.
                   k_ret 0)))))))"

section \<open>Processes\<close>

definition sys_exit :: "usize \<Rightarrow> ('pt kernel, isize) kstep" where
  "sys_exit exit_code = k_ret exit_code"

definition sys_fork :: "'pt platform \<Rightarrow> ('pt kernel, isize) kstep" where
  "sys_fork pf =
     k_bind current_process (\<lambda>p.
     k_bind (process_fork pf p) (\<lambda>made.
     k_bind (k_lift (unwrap made)) (\<lambda>(proc, th).
     k_bind (k_lift (ctx_set_a 0 0 (local_ctx (task_context th)))) (\<lambda>ctx.
       let th1 = th\<lparr>task_context := (task_context th)\<lparr>local_ctx := ctx\<rparr>\<rparr> in
       k_bind (update_processor (pt_add_proc (pid proc) proc (pid p))) (\<lambda>_.
       k_bind (update_processor (pt_add (tid th1) th1 (pid proc))) (\<lambda>_.
         k_ret (pid_get_usize (pid proc))))))))"

definition newline :: u8 where "newline = 10"

definition print_apps :: "('pt kernel, unit) kstep" where
  "print_apps =
     k_bind (k_read (\<lambda>k. fs_readdir (file_sys k) (disk k))) (\<lambda>found.
     k_bind (k_lift (unwrap found)) (\<lambda>names.
       print_bytes (concat (map (\<lambda>nm. nm @ [newline]) names) @ [newline])))"

definition current_id :: "('pt kernel, proc_id) kstep" where
  "current_id = k_read (\<lambda>k. bind_res (pt_current_pid (processor k)) unwrap)"

definition exec_file :: "'pt platform \<Rightarrow> file_handle \<Rightarrow> ('pt kernel, unit) kstep" where
  "exec_file pf h =
     k_bind (k_read (\<lambda>k. read_all h (disk k))) (\<lambda>bs.
     k_bind (k_lift (case parse_elf pf bs of None \<Rightarrow> Inl UnwrapErr | Some elf \<Rightarrow> Inr elf)) (\<lambda>elf.
     k_bind current_id (\<lambda>i. k_update (process_exec pf i elf))))"

definition sys_exec :: "'pt platform \<Rightarrow> usize \<Rightarrow> usize \<Rightarrow> ('pt kernel, isize) kstep" where
  "sys_exec pf path cnt =
     k_bind current_process (\<lambda>p.
     k_bind
       (case translate pf (address_space p) path (readable_flags pf) of
          None \<Rightarrow> k_ret None
        | Some ptr \<Rightarrow> k_bind (read_memory ptr (unat cnt)) (\<lambda>name. file_open name RDONLY))
       (\<lambda>found.
          case found of
            None \<Rightarrow> k_bind print_apps (\<lambda>_. k_ret (- 1))
          | Some h \<Rightarrow> k_bind (exec_file pf h) (\<lambda>_. k_ret 0)))"

definition sys_wait :: "'pt platform \<Rightarrow> isize \<Rightarrow> usize \<Rightarrow> ('pt kernel, isize) kstep" where
  "sys_wait pf child exit_code_ptr =
     k_bind current_process (\<lambda>p.
     k_bind (on_processor (pt_wait (ProcId child))) (\<lambda>answer.
       case answer of
         None \<Rightarrow> k_ret (- 1)
       | Some (dead_pid, exit_code) \<Rightarrow>
           k_bind
             (case translate pf (address_space p) exit_code_ptr (writeable_flags pf) of
                None \<Rightarrow> k_ret ()
              | Some ptr \<Rightarrow> write_memory ptr (le_bytes 4 (unat (ucast exit_code :: i32))))
             (\<lambda>_. k_ret (pid_get_usize dead_pid))))"

definition sys_getpid :: "('pt kernel, isize) kstep" where
  "sys_getpid = k_bind current_process (\<lambda>p. k_ret (pid_get_usize (pid p)))"

definition sys_sched_yield :: "('pt kernel, isize) kstep" where
  "sys_sched_yield = k_ret 0"

definition clock_time :: "usize \<Rightarrow> time_spec res" where
  "clock_time cycle_count =
     bind_res (times_usize cycle_count 10000) (\<lambda>t.
       let time = t div 125 in Inr \<lparr>tv_sec = time div 1000000000, tv_nsec = time mod 1000000000\<rparr>)"

definition time_bytes :: "time_spec \<Rightarrow> u8 list" where
  "time_bytes t = le_bytes 8 (unat (tv_sec t)) @ le_bytes 8 (unat (tv_nsec t))"

definition sys_clock_gettime :: "'pt platform \<Rightarrow> usize \<Rightarrow> usize \<Rightarrow> ('pt kernel, isize) kstep" where
  "sys_clock_gettime pf clock tp =
     (if clock = clock_monotonic then
        k_bind current_process (\<lambda>p.
          case translate pf (address_space p) tp (writeable_flags pf) of
            None \<Rightarrow> k_ret (- 1)
          | Some ptr \<Rightarrow>
              k_bind (k_read (\<lambda>k. clock_time (cycles k))) (\<lambda>t.
              k_bind (write_memory ptr (time_bytes t)) (\<lambda>_. k_ret 0)))
      else k_ret (- 1))"

section \<open>Signals\<close>

definition sys_kill :: "isize \<Rightarrow> u8 \<Rightarrow> ('pt kernel, isize) kstep" where
  "sys_kill target signum =
     k_bind (k_read (\<lambda>k. pt_get_proc (ProcId target) (processor k))) (\<lambda>found.
       case found of
         None \<Rightarrow> k_ret (- 1)
       | Some p \<Rightarrow>
           (case signal_try_from signum of
              None \<Rightarrow> k_ret (- 1)
            | Some signal_no \<Rightarrow>
                if signal_no \<noteq> ERR then
                  k_bind (k_lift (add_signal signal_no (signal p))) (\<lambda>sg.
                  k_bind (k_update (\<lambda>k. Inr (k\<lparr>processor :=
                      pt_put_proc (ProcId target) (p\<lparr>signal := sg\<rparr>) (processor k)\<rparr>))) (\<lambda>_. k_ret 0))
                else k_ret (- 1)))"

text \<open>A \<open>SignalAction\<close> in user memory: the handler, then the mask.\<close>

definition action_bytes :: "signal_action \<Rightarrow> u8 list" where
  "action_bytes a = le_bytes 8 (unat (handler a)) @ le_bytes 8 (unat (action_mask a))"

definition action_of_bytes :: "u8 list \<Rightarrow> signal_action" where
  "action_of_bytes bs =
     \<lparr>handler = of_nat (of_le_bytes (take 8 bs)), action_mask = of_nat (of_le_bytes (drop 8 bs))\<rparr>"

text \<open>The two halves of \<open>sigaction\<close> answer whether the call goes on.\<close>

definition store_old_action ::
  "'pt platform \<Rightarrow> 'pt process \<Rightarrow> signal_no \<Rightarrow> usize \<Rightarrow> ('pt kernel, bool) kstep" where
  "store_old_action pf p signal_no old_action =
     (if old_action = 0 then k_ret True
      else
        case translate pf (address_space p) old_action (writeable_flags pf) of
          None \<Rightarrow> k_ret False
        | Some ptr \<Rightarrow>
            k_bind (k_lift (get_action_ref signal_no (signal p))) (\<lambda>found.
              case found of
                None \<Rightarrow> k_ret False
              | Some a \<Rightarrow> k_bind (write_memory ptr (action_bytes a)) (\<lambda>_. k_ret True)))"

definition load_new_action ::
  "'pt platform \<Rightarrow> 'pt process \<Rightarrow> signal_no \<Rightarrow> usize \<Rightarrow> ('pt kernel, bool) kstep" where
  "load_new_action pf p signal_no action =
     (if action = 0 then k_ret True
      else
        case translate pf (address_space p) action (readable_flags pf) of
          None \<Rightarrow> k_ret False
        | Some ptr \<Rightarrow>
            k_bind (read_memory ptr 16) (\<lambda>bs.
            k_bind (k_lift (set_action signal_no (action_of_bytes bs) (signal p))) (\<lambda>(ok, sg).
            k_bind (put_process (p\<lparr>signal := sg\<rparr>)) (\<lambda>_. k_ret ok))))"

definition sys_sigaction :: "'pt platform \<Rightarrow> u8 \<Rightarrow> usize \<Rightarrow> usize \<Rightarrow> ('pt kernel, isize) kstep" where
  "sys_sigaction pf signum action old_action =
     (if max_sig < unat signum then k_ret (- 1)
      else
        k_bind current_process (\<lambda>p.
          case signal_try_from signum of
            None \<Rightarrow> k_ret (- 1)
          | Some signal_no \<Rightarrow>
              if signal_no = ERR then k_ret (- 1)
              else
                k_bind (store_old_action pf p signal_no old_action) (\<lambda>ok1.
                  if \<not> ok1 then k_ret (- 1)
                  else k_bind (load_new_action pf p signal_no action) (\<lambda>ok2.
                    k_ret (if ok2 then 0 else - 1)))))"

definition sys_sigprocmask :: "usize \<Rightarrow> ('pt kernel, isize) kstep" where
  "sys_sigprocmask m =
     k_bind current_process (\<lambda>p.
       case update_mask m (signal p) of
         (old, sg) \<Rightarrow> k_bind (put_process (p\<lparr>signal := sg\<rparr>)) (\<lambda>_. k_ret old))"

definition sys_sigreturn :: "('pt kernel, isize) kstep" where
  "sys_sigreturn =
     k_bind current_process (\<lambda>p.
     k_bind current_thread (\<lambda>th.
       case sig_return (local_ctx (task_context th)) (signal p) of
         (ok, ctx, sg) \<Rightarrow>
           k_bind (put_process (p\<lparr>signal := sg\<rparr>)) (\<lambda>_.
           k_bind (put_thread (th\<lparr>task_context := (task_context th)\<lparr>local_ctx := ctx\<rparr>\<rparr>)) (\<lambda>_.
             k_ret (if ok then 0 else - 1)))))"

section \<open>Threads\<close>

text \<open>
  The search for a user stack goes down by three pages until the entry of the root table is
  free; below page 3 the subtraction overflows.
\<close>

function find_stack :: "'pt platform \<Rightarrow> 'pt \<Rightarrow> nat \<Rightarrow> nat res" where
  "find_stack pf pt vpn =
     (if \<not> root_entry_valid pf pt (root_index pf vpn) then Inr vpn
      else if vpn < 3 then Inl ArithOverflow
      else find_stack pf pt (vpn - 3))"
  by auto
termination by (relation "measure (\<lambda>(_, _, vpn). vpn)") auto

declare find_stack.simps [simp del]

definition sys_thread_create :: "'pt platform \<Rightarrow> usize \<Rightarrow> usize \<Rightarrow> ('pt kernel, isize) kstep" where
  "sys_thread_create pf start arg =
     k_bind current_process (\<lambda>p.
     k_bind (k_lift (find_stack pf (page_table (address_space p)) (user_stack_top - 2))) (\<lambda>vpn.
     k_bind (\<lambda>k. bind_res (alloc_pages pf 2 (memory k)) (\<lambda>(stack, m). Inr (stack, k\<lparr>memory := m\<rparr>))) (\<lambda>stack.
     k_bind (k_lift (map_extern pf (vpn, vpn + 2) stack (vm_flags pf ''U_WRV'') (address_space p))) (\<lambda>as.
     k_bind (put_process (p\<lparr>address_space := as\<rparr>)) (\<lambda>_.
     k_bind (k_lift (bind_res (ctx_set_sp (page_base pf (vpn + 2)) (ctx_user start)) (ctx_set_a 0 arg))) (\<lambda>ctx.
     k_bind (\<lambda>k. case thread_new (satp_of as) ctx (counters k) of (th, c) \<Rightarrow> Inr (th, k\<lparr>counters := c\<rparr>)) (\<lambda>th.
     k_bind (update_processor (pt_add (tid th) th (pid p))) (\<lambda>_.
       k_ret (tid_get_usize (tid th))))))))))"

definition sys_gettid :: "('pt kernel, isize) kstep" where
  "sys_gettid = k_bind current_thread (\<lambda>th. k_ret (tid_get_usize (tid th)))"

definition sys_waittid :: "usize \<Rightarrow> ('pt kernel, isize) kstep" where
  "sys_waittid t =
     k_bind current_thread (\<lambda>th.
       if t = tid_get_usize (tid th) then k_ret (- 1)
       else
         k_bind (on_processor (pt_waittid (ThreadId t))) (\<lambda>answer.
           k_ret (case answer of Some exit_code \<Rightarrow> exit_code | None \<Rightarrow> - 1)))"

section \<open>Synchronisation\<close>

text \<open>
  A new object takes the first free place of its list, or a place at the end.
\<close>

definition free_slot :: "'a option list \<Rightarrow> nat option" where
  "free_slot objs = find_index (\<lambda>x. x = None) objs"

definition place_object :: "'a option \<Rightarrow> 'a option list \<Rightarrow> nat \<times> 'a option list" where
  "place_object x objs =
     (case free_slot objs of
        Some i \<Rightarrow> (i, objs[i := x])
      | None \<Rightarrow> (length (objs @ [x]) - 1, objs @ [x]))"

text \<open>\<open>list[id].as_ref().unwrap()\<close>.\<close>

definition object_at :: "'a option list \<Rightarrow> usize \<Rightarrow> 'a res" where
  "object_at objs i = bind_res (nth_res objs (unat i)) unwrap"

text \<open>An operation of \<open>tg-sync\<close> on the hart.\<close>

definition on_hart :: "(hart \<Rightarrow> ('a \<times> 'c \<times> hart) res) \<Rightarrow> ('pt kernel, 'a \<times> 'c) kstep" where
  "on_hart f k = bind_res (f (hart_state k)) (\<lambda>(a, c, h). Inr ((a, c), k\<lparr>hart_state := h\<rparr>))"

definition wake :: "thread_id option \<Rightarrow> ('pt kernel, unit) kstep" where
  "wake woken = (case woken of None \<Rightarrow> k_ret () | Some t \<Rightarrow> update_processor (pt_re_enque t))"

definition sys_semaphore_create :: "usize \<Rightarrow> ('pt kernel, isize) kstep" where
  "sys_semaphore_create res_count =
     k_bind current_process (\<lambda>p.
       case place_object (Some (semaphore_new res_count)) (semaphore_list p) of
         (i, l) \<Rightarrow> k_bind (put_process (p\<lparr>semaphore_list := l\<rparr>)) (\<lambda>_. k_ret (of_nat i)))"

definition sys_semaphore_up :: "usize \<Rightarrow> ('pt kernel, isize) kstep" where
  "sys_semaphore_up sem_id =
     k_bind current_process (\<lambda>p.
     k_bind (k_lift (object_at (semaphore_list p) sem_id)) (\<lambda>sem.
     k_bind (on_hart (semaphore_up sem)) (\<lambda>(woken, sem1).
     k_bind (put_process (p\<lparr>semaphore_list := (semaphore_list p)[unat sem_id := Some sem1]\<rparr>)) (\<lambda>_.
     k_bind (wake woken) (\<lambda>_. k_ret 0)))))"

definition sys_semaphore_down :: "usize \<Rightarrow> ('pt kernel, isize) kstep" where
  "sys_semaphore_down sem_id =
     k_bind current_thread (\<lambda>th.
     k_bind current_process (\<lambda>p.
     k_bind (k_lift (object_at (semaphore_list p) sem_id)) (\<lambda>sem.
     k_bind (on_hart (semaphore_down (tid th) sem)) (\<lambda>(got, sem1).
     k_bind (put_process (p\<lparr>semaphore_list := (semaphore_list p)[unat sem_id := Some sem1]\<rparr>)) (\<lambda>_.
       k_ret (if got then 0 else - 1))))))"

text \<open>Only the blocking mutex exists: another kind leaves its place empty.\<close>

definition sys_mutex_create :: "bool \<Rightarrow> ('pt kernel, isize) kstep" where
  "sys_mutex_create blocking =
     (let new_mutex = (if blocking then Some mutex_new else None) in
      k_bind current_process (\<lambda>p.
        case free_slot (mutex_list p) of
          Some i \<Rightarrow>
            k_bind (k_lift (update_res (mutex_owners p) i None)) (\<lambda>owners.
            k_bind (put_process (p\<lparr>mutex_list := (mutex_list p)[i := new_mutex], mutex_owners := owners\<rparr>)) (\<lambda>_.
              k_ret (of_nat i)))
        | None \<Rightarrow>
            k_bind (put_process (p\<lparr>mutex_list := mutex_list p @ [new_mutex],
                                   mutex_owners := mutex_owners p @ [None]\<rparr>)) (\<lambda>_.
              k_ret (of_nat (length (mutex_list p))))))"

definition sys_mutex_unlock :: "usize \<Rightarrow> ('pt kernel, isize) kstep" where
  "sys_mutex_unlock mutex_id =
     k_bind current_process (\<lambda>p.
     k_bind (k_lift (object_at (mutex_list p) mutex_id)) (\<lambda>mutex.
     k_bind (on_hart (mutex_unlock mutex)) (\<lambda>(woken, mutex1).
     k_bind (k_lift (update_res (mutex_owners p) (unat mutex_id) woken)) (\<lambda>owners.
     k_bind (put_process (p\<lparr>mutex_list := (mutex_list p)[unat mutex_id := Some mutex1],
                            mutex_owners := owners\<rparr>)) (\<lambda>_.
     k_bind (wake woken) (\<lambda>_. k_ret 0))))))"

definition deadlock_code :: isize where
  "deadlock_code = - 57005"

text \<open>The test that answers \<open>-0xDEAD\<close>: detection is on and the caller owns the mutex.\<close>

definition relocks :: "thread_id \<Rightarrow> usize \<Rightarrow> 'pt process \<Rightarrow> bool res" where
  "relocks t mutex_id p =
     (if deadlock_detect_enabled p then
        bind_res (nth_res (mutex_owners p) (unat mutex_id)) (\<lambda>owner. Inr (owner = Some t))
      else Inr False)"

definition sys_mutex_lock :: "usize \<Rightarrow> ('pt kernel, isize) kstep" where
  "sys_mutex_lock mutex_id =
     k_bind current_thread (\<lambda>th.
     k_bind current_process (\<lambda>p.
     k_bind (k_lift (relocks (tid th) mutex_id p)) (\<lambda>again.
       if again then k_ret deadlock_code
       else
         k_bind (k_lift (object_at (mutex_list p) mutex_id)) (\<lambda>mutex.
         k_bind (on_hart (mutex_lock (tid th) mutex)) (\<lambda>(got, mutex1).
           let p1 = p\<lparr>mutex_list := (mutex_list p)[unat mutex_id := Some mutex1]\<rparr> in
           if got then
             k_bind (k_lift (update_res (mutex_owners p1) (unat mutex_id) (Some (tid th)))) (\<lambda>owners.
             k_bind (put_process (p1\<lparr>mutex_owners := owners\<rparr>)) (\<lambda>_. k_ret 0))
           else k_bind (put_process p1) (\<lambda>_. k_ret (- 1)))))))"

definition sys_condvar_create :: "('pt kernel, isize) kstep" where
  "sys_condvar_create =
     k_bind current_process (\<lambda>p.
       case place_object (Some condvar_new) (condvar_list p) of
         (i, l) \<Rightarrow> k_bind (put_process (p\<lparr>condvar_list := l\<rparr>)) (\<lambda>_. k_ret (of_nat i)))"

definition sys_condvar_signal :: "usize \<Rightarrow> ('pt kernel, isize) kstep" where
  "sys_condvar_signal condvar_id =
     k_bind current_process (\<lambda>p.
     k_bind (k_lift (object_at (condvar_list p) condvar_id)) (\<lambda>condvar.
     k_bind (on_hart (condvar_signal condvar)) (\<lambda>(woken, condvar1).
     k_bind (put_process (p\<lparr>condvar_list := (condvar_list p)[unat condvar_id := Some condvar1]\<rparr>)) (\<lambda>_.
     k_bind (wake woken) (\<lambda>_. k_ret 0)))))"

definition sys_condvar_wait :: "usize \<Rightarrow> usize \<Rightarrow> ('pt kernel, isize) kstep" where
  "sys_condvar_wait condvar_id mutex_id =
     k_bind current_thread (\<lambda>th.
     k_bind current_process (\<lambda>p.
     k_bind (k_lift (object_at (condvar_list p) condvar_id)) (\<lambda>condvar.
     k_bind (k_lift (object_at (mutex_list p) mutex_id)) (\<lambda>mutex.
     k_bind (on_hart (condvar_wait_with_mutex (tid th) mutex)) (\<lambda>((flag, woken), mutex1).
     k_bind (put_process (p\<lparr>mutex_list := (mutex_list p)[unat mutex_id := Some mutex1]\<rparr>)) (\<lambda>_.
     k_bind (wake woken) (\<lambda>_. k_ret (if flag then 0 else - 1))))))))"

definition sys_enable_deadlock_detect :: "i32 \<Rightarrow> ('pt kernel, isize) kstep" where
  "sys_enable_deadlock_detect is_enable =
     k_bind current_process (\<lambda>p.
       if is_enable = 1 then k_bind (put_process (p\<lparr>deadlock_detect_enabled := True\<rparr>)) (\<lambda>_. k_ret 0)
       else if is_enable = 0 then k_bind (put_process (p\<lparr>deadlock_detect_enabled := False\<rparr>)) (\<lambda>_. k_ret 0)
       else k_ret (- 1))"

end
