(* ===== verification/Dispatch.thy ===== *)
theory Dispatch
  imports Syscalls
begin

text \<open>
  System call numbers and their dispatch: \<open>tg-rcore-tutorial-syscall/src/kernel/mod.rs\<close>, with
  the numbers the build script takes from \<open>src/syscall.h.in\<close>.

  A subsystem answers when it has been initialised; the chapter 8 kernel initialises all but
  \<open>MEMORY\<close> and \<open>TRACE\<close>. Methods its implementation leaves out keep the default of the trait,
  which is a panic.
\<close>

section \<open>Numbers\<close>

type_synonym syscall_id = usize

definition id_unlinkat :: syscall_id where "id_unlinkat = 35"
definition id_linkat :: syscall_id where "id_linkat = 37"
definition id_openat :: syscall_id where "id_openat = 56"
definition id_close :: syscall_id where "id_close = 57"
definition id_pipe2 :: syscall_id where "id_pipe2 = 59"
definition id_read :: syscall_id where "id_read = 63"
definition id_write :: syscall_id where "id_write = 64"
definition id_fstat :: syscall_id where "id_fstat = 80"
definition id_exit :: syscall_id where "id_exit = 93"
definition id_waitid :: syscall_id where "id_waitid = 95"
definition id_clock_gettime :: syscall_id where "id_clock_gettime = 113"
definition id_sched_yield :: syscall_id where "id_sched_yield = 124"
definition id_kill :: syscall_id where "id_kill = 129"
definition id_rt_sigaction :: syscall_id where "id_rt_sigaction = 134"
definition id_rt_sigprocmask :: syscall_id where "id_rt_sigprocmask = 135"
definition id_rt_sigreturn :: syscall_id where "id_rt_sigreturn = 139"
definition id_setpriority :: syscall_id where "id_setpriority = 140"
definition id_getpid :: syscall_id where "id_getpid = 172"
definition id_gettid :: syscall_id where "id_gettid = 178"
definition id_brk :: syscall_id where "id_brk = 214"
definition id_munmap :: syscall_id where "id_munmap = 215"
definition id_clone :: syscall_id where "id_clone = 220"
definition id_execve :: syscall_id where "id_execve = 221"
definition id_mmap :: syscall_id where "id_mmap = 222"
definition id_wait4 :: syscall_id where "id_wait4 = 260"
definition id_spawn :: syscall_id where "id_spawn = 400"
definition id_trace :: syscall_id where "id_trace = 410"
definition id_enable_deadlock_detect :: syscall_id where "id_enable_deadlock_detect = 469"
definition id_thread_create :: syscall_id where "id_thread_create = 1000"
definition id_mutex_create :: syscall_id where "id_mutex_create = 1010"
definition id_mutex_lock :: syscall_id where "id_mutex_lock = 1011"
definition id_mutex_unlock :: syscall_id where "id_mutex_unlock = 1012"
definition id_semaphore_create :: syscall_id where "id_semaphore_create = 1020"
definition id_semaphore_up :: syscall_id where "id_semaphore_up = 1021"
definition id_semaphore_down :: syscall_id where "id_semaphore_down = 1022"
definition id_condvar_create :: syscall_id where "id_condvar_create = 1030"
definition id_condvar_signal :: syscall_id where "id_condvar_signal = 1031"
definition id_condvar_wait :: syscall_id where "id_condvar_wait = 1032"

lemmas syscall_ids =
  id_unlinkat_def id_linkat_def id_openat_def id_close_def id_pipe2_def id_read_def id_write_def
  id_fstat_def id_exit_def id_waitid_def id_clock_gettime_def id_sched_yield_def id_kill_def
  id_rt_sigaction_def id_rt_sigprocmask_def id_rt_sigreturn_def id_setpriority_def id_getpid_def
  id_gettid_def id_brk_def id_munmap_def id_clone_def id_execve_def id_mmap_def id_wait4_def
  id_spawn_def id_trace_def id_enable_deadlock_detect_def id_thread_create_def id_mutex_create_def
  id_mutex_lock_def id_mutex_unlock_def id_semaphore_create_def id_semaphore_up_def
  id_semaphore_down_def id_condvar_create_def id_condvar_signal_def id_condvar_wait_def

section \<open>Subsystems\<close>

datatype subsystem =
    PROCESS | IO | MEMORY | SCHEDULING | CLOCK | SIGNAL | THREAD | SYNC_MUTEX | TRACE

text \<open>\<open>rust_main\<close> initialises these.\<close>

definition initialised :: "subsystem \<Rightarrow> bool" where
  "initialised c \<longleftrightarrow> c \<in> {IO, PROCESS, SCHEDULING, CLOCK, SIGNAL, THREAD, SYNC_MUTEX}"

datatype syscall_result = Done isize | Unsupported syscall_id

definition container_call ::
  "subsystem \<Rightarrow> syscall_id \<Rightarrow> ('s, isize) kstep \<Rightarrow> ('s, syscall_result) kstep" where
  "container_call c i f =
     (if initialised c then k_bind f (\<lambda>r. k_ret (Done r)) else k_ret (Unsupported i))"

definition unimplemented :: "('s, isize) kstep" where
  "unimplemented = k_lift (Inl NotImplemented)"

text \<open>The dispatch. The arguments are the six argument registers.\<close>

record args =
  arg0 :: usize
  arg1 :: usize
  arg2 :: usize
  arg3 :: usize
  arg4 :: usize
  arg5 :: usize

definition io_calls :: "'pt platform \<Rightarrow> args \<Rightarrow> (syscall_id \<times> ('pt kernel, isize) kstep) list" where
  "io_calls pf a =
     [(id_write, sys_write pf (arg0 a) (arg1 a) (arg2 a)),
      (id_read, sys_read pf (arg0 a) (arg1 a) (arg2 a)),
      (id_openat, sys_open pf (arg0 a) (arg1 a)),
      (id_close, sys_close (arg0 a)),
      (id_linkat, unimplemented),
      (id_unlinkat, unimplemented),
      (id_fstat, unimplemented),
      (id_pipe2, sys_pipe pf (arg0 a))]"

definition process_calls :: "'pt platform \<Rightarrow> args \<Rightarrow> (syscall_id \<times> ('pt kernel, isize) kstep) list" where
  "process_calls pf a =
     [(id_exit, sys_exit (arg0 a)),
      (id_clone, sys_fork pf),
      (id_execve, sys_exec pf (arg0 a) (arg1 a)),
      (id_wait4, sys_wait pf (arg0 a) (arg1 a)),
      (id_getpid, sys_getpid),
      (id_spawn, unimplemented),
      (id_brk, unimplemented)]"

definition signal_calls :: "'pt platform \<Rightarrow> args \<Rightarrow> (syscall_id \<times> ('pt kernel, isize) kstep) list" where
  "signal_calls pf a =
     [(id_kill, sys_kill (arg0 a) (ucast (arg1 a))),
      (id_rt_sigaction, sys_sigaction pf (ucast (arg0 a)) (arg1 a) (arg2 a)),
      (id_rt_sigprocmask, sys_sigprocmask (arg0 a)),
      (id_rt_sigreturn, sys_sigreturn)]"

definition thread_calls :: "'pt platform \<Rightarrow> args \<Rightarrow> (syscall_id \<times> ('pt kernel, isize) kstep) list" where
  "thread_calls pf a =
     [(id_waitid, sys_waittid (arg0 a)),
      (id_gettid, sys_gettid),
      (id_thread_create, sys_thread_create pf (arg0 a) (arg1 a))]"

definition sync_calls :: "args \<Rightarrow> (syscall_id \<times> ('pt kernel, isize) kstep) list" where
  "sync_calls a =
     [(id_semaphore_create, sys_semaphore_create (arg0 a)),
      (id_semaphore_up, sys_semaphore_up (arg0 a)),
      (id_semaphore_down, sys_semaphore_down (arg0 a)),
      (id_mutex_create, sys_mutex_create (arg0 a \<noteq> 0)),
      (id_mutex_lock, sys_mutex_lock (arg0 a)),
      (id_mutex_unlock, sys_mutex_unlock (arg0 a)),
      (id_condvar_create, sys_condvar_create),
      (id_condvar_signal, sys_condvar_signal (arg0 a)),
      (id_condvar_wait, sys_condvar_wait (arg0 a) (arg1 a)),
      (id_enable_deadlock_detect, sys_enable_deadlock_detect (ucast (arg0 a)))]"

definition call_table :: "'pt platform \<Rightarrow> args \<Rightarrow> (subsystem \<times> (syscall_id \<times> ('pt kernel, isize) kstep) list) list" where
  "call_table pf a =
     [(IO, io_calls pf a),
      (PROCESS, process_calls pf a),
      (CLOCK, [(id_clock_gettime, sys_clock_gettime pf (arg0 a) (arg1 a))]),
      (SCHEDULING, [(id_sched_yield, sys_sched_yield), (id_setpriority, unimplemented)]),
      (MEMORY, [(id_munmap, unimplemented), (id_mmap, unimplemented)]),
      (SIGNAL, signal_calls pf a),
      (THREAD, thread_calls pf a),
      (SYNC_MUTEX, sync_calls a),
      (TRACE, [(id_trace, unimplemented)])]"

fun dispatch ::
  "(subsystem \<times> (syscall_id \<times> ('s, isize) kstep) list) list \<Rightarrow> syscall_id \<Rightarrow> ('s, syscall_result) kstep" where
  "dispatch [] i = k_ret (Unsupported i)"
| "dispatch ((c, calls) # rest) i =
     (case map_of calls i of
        Some f \<Rightarrow> container_call c i f
      | None \<Rightarrow> dispatch rest i)"

definition handle :: "'pt platform \<Rightarrow> syscall_id \<Rightarrow> args \<Rightarrow> ('pt kernel, syscall_result) kstep" where
  "handle pf i a = dispatch (call_table pf a) i"

end
