(* ===== verification/Kernel_Loop.thy ===== *)
theory Kernel_Loop
  imports Dispatch
begin

text \<open>
  The scheduling loop of the kernel: \<open>rust_main\<close> of \<open>tg-rcore-tutorial-ch8/src/main.rs\<close>, from
  loading the first program on.

  One turn of the loop takes the next ready thread, lets it run in user mode until a trap,
  and handles the trap. What user code does is a parameter: \<open>user\<close> maps the registers and
  the memory at the start of the run to the trap and to the registers and the memory when it
  occurs.

  The source keeps the reference \<open>task\<close> into the thread table during the whole turn; the
  model reaches the same thread by its id, as \<open>current\<close>.
\<close>

datatype trap = UserEnvCall | OtherTrap

type_synonym user_code = "local_context \<Rightarrow> memory \<Rightarrow> trap \<times> local_context \<times> memory"

definition set_context :: "local_context \<Rightarrow> thread \<Rightarrow> thread" where
  "set_context ctx th = th\<lparr>task_context := (task_context th)\<lparr>local_ctx := ctx\<rparr>\<rparr>"

section \<open>The end of a thread\<close>

text \<open>
  When the last thread of a process leaves, its entry is dropped with the descriptors in it.
\<close>

definition exit_current :: "isize \<Rightarrow> ('pt kernel, unit) kstep" where
  "exit_current exit_code k =
     bind_res (pt_current_pid (processor k)) (\<lambda>i.
     bind_res (pt_get_current_proc (processor k)) (\<lambda>old.
     bind_res (pt_make_current_exited exit_code (processor k)) (\<lambda>pr.
       let k1 = k\<lparr>processor := pr\<rparr> in
       case (i, old) of
         (Some i, Some p) \<Rightarrow>
           bind_res (pt_get_proc i pr) (\<lambda>still.
             Inr ((), if still = None then k1\<lparr>pipes := drop_fds (fd_table p) (pipes k1)\<rparr> else k1))
       | _ \<Rightarrow> Inr ((), k1))))"

definition suspend_current :: "('pt kernel, unit) kstep" where
  "suspend_current = update_processor pt_make_current_suspend"

definition block_current :: "('pt kernel, unit) kstep" where
  "block_current = update_processor (\<lambda>pr. Inr (pt_make_current_blocked pr))"

section \<open>System calls and signals\<close>

definition set_return :: "isize \<Rightarrow> ('pt kernel, unit) kstep" where
  "set_return r =
     k_bind current_thread (\<lambda>th.
     k_bind (k_lift (ctx_set_a 0 r (local_ctx (task_context th)))) (\<lambda>ctx.
       put_thread (set_context ctx th)))"

definition may_block :: "syscall_id \<Rightarrow> bool" where
  "may_block i \<longleftrightarrow> i = id_semaphore_down \<or> i = id_mutex_lock \<or> i = id_condvar_wait"

text \<open>What the loop does with the answer of a call.\<close>

definition finish_call :: "syscall_id \<Rightarrow> syscall_result \<Rightarrow> ('pt kernel, unit) kstep" where
  "finish_call i answer =
     (case answer of
        Done r \<Rightarrow>
          if i = id_exit then exit_current r
          else
            k_bind (set_return r) (\<lambda>_.
              if may_block i \<and> r = - 1 then block_current else suspend_current)
      | Unsupported _ \<Rightarrow> exit_current (- 2))"

definition deliver_signals :: "('pt kernel, signal_result) kstep" where
  "deliver_signals =
     k_bind current_process (\<lambda>p.
     k_bind current_thread (\<lambda>th.
     k_bind (k_lift (handle_signals (local_ctx (task_context th)) (signal p))) (\<lambda>(r, ctx, sg).
     k_bind (put_process (p\<lparr>signal := sg\<rparr>)) (\<lambda>_.
     k_bind (put_thread (set_context ctx th)) (\<lambda>_. k_ret r)))))"

definition call_args :: "local_context \<Rightarrow> (syscall_id \<times> args) res" where
  "call_args ctx =
     bind_res (ctx_a 7 ctx) (\<lambda>i.
     bind_res (ctx_a 0 ctx) (\<lambda>a0. bind_res (ctx_a 1 ctx) (\<lambda>a1. bind_res (ctx_a 2 ctx) (\<lambda>a2.
     bind_res (ctx_a 3 ctx) (\<lambda>a3. bind_res (ctx_a 4 ctx) (\<lambda>a4. bind_res (ctx_a 5 ctx) (\<lambda>a5.
       Inr (i, \<lparr>arg0 = a0, arg1 = a1, arg2 = a2, arg3 = a3, arg4 = a4, arg5 = a5\<rparr>))))))))"

definition system_call :: "'pt platform \<Rightarrow> ('pt kernel, unit) kstep" where
  "system_call pf =
     k_bind current_thread (\<lambda>th.
       let ctx = ctx_move_next (local_ctx (task_context th)) in
       k_bind (put_thread (set_context ctx th)) (\<lambda>_.
       k_bind (k_lift (call_args ctx)) (\<lambda>(i, a).
       k_bind (handle pf i a) (\<lambda>answer.
       k_bind deliver_signals (\<lambda>r.
         case r of
           ProcessKilled exit_code \<Rightarrow> exit_current (scast exit_code)
         | _ \<Rightarrow> finish_call i answer)))))"

definition handle_trap :: "'pt platform \<Rightarrow> trap \<Rightarrow> ('pt kernel, unit) kstep" where
  "handle_trap pf t =
     (case t of
        UserEnvCall \<Rightarrow> system_call pf
      | OtherTrap \<Rightarrow> exit_current (- 3))"

section \<open>The loop\<close>

definition run_user :: "user_code \<Rightarrow> thread \<Rightarrow> ('pt kernel, trap) kstep" where
  "run_user user th k =
     (case user (local_ctx (task_context th)) (memory k) of
        (t, ctx, m) \<Rightarrow>
          k_bind (put_thread (set_context ctx th)) (\<lambda>_. k_ret t) (k\<lparr>memory := m\<rparr>))"

text \<open>One turn; it answers whether there was a thread to run.\<close>

definition turn :: "'pt platform \<Rightarrow> user_code \<Rightarrow> ('pt kernel, bool) kstep" where
  "turn pf user =
     k_bind (on_processor pt_find_next) (\<lambda>task.
       case task of
         None \<Rightarrow> k_ret False
       | Some th \<Rightarrow>
           k_bind (run_user user th) (\<lambda>t. k_bind (handle_trap pf t) (\<lambda>_. k_ret True)))"

text \<open>The loop over the runs of user code \<open>users\<close>; it answers whether the machine still runs.\<close>

fun main_loop :: "'pt platform \<Rightarrow> user_code list \<Rightarrow> ('pt kernel, bool) kstep" where
  "main_loop pf [] = k_ret True"
| "main_loop pf (user # users) =
     k_bind (turn pf user) (\<lambda>more. if more then main_loop pf users else k_ret False)"

section \<open>Starting the first program\<close>

definition init_name :: "u8 list" where
  "init_name = [99, 104, 56, 95, 117, 115, 101, 114, 116, 101, 115, 116]"

definition load_init :: "'pt platform \<Rightarrow> ('pt kernel, unit) kstep" where
  "load_init pf =
     k_bind (file_open init_name RDONLY) (\<lambda>found.
     k_bind (k_lift (unwrap found)) (\<lambda>h.
     k_bind (k_read (\<lambda>k. read_all h (disk k))) (\<lambda>bs.
     k_bind (k_lift (case parse_elf pf bs of None \<Rightarrow> Inl UnwrapErr | Some elf \<Rightarrow> Inr elf)) (\<lambda>elf.
     k_bind (\<lambda>k. bind_res (from_elf pf elf (counters k) (memory k)) (\<lambda>(made, c, m).
               Inr (made, k\<lparr>counters := c, memory := m\<rparr>))) (\<lambda>made.
       case made of
         None \<Rightarrow> k_ret ()
       | Some (proc, th) \<Rightarrow>
           k_bind (update_processor (\<lambda>pr. Inr (pt_set_proc_manager proc_table_new pr))) (\<lambda>_.
           k_bind (update_processor (\<lambda>pr. Inr (pt_set_manager task_manager_new pr))) (\<lambda>_.
           k_bind (update_processor (pt_add_proc (pid proc) proc (ProcId usize_max))) (\<lambda>_.
             update_processor (pt_add (tid th) th (pid proc))))))))))"

end
