(* ===== verification/Kernel_Invariant.thy ===== *)
theory Kernel_Invariant
  imports Kernel_Loop
begin

text \<open>
  An invariant of the whole kernel, kept by every turn of the scheduling loop whatever user
  code does:

  \<^item> a process is found under its own id, a thread under its own id, and the ids of processes
    are below the counter that hands out the next one;
  \<^item> the register file of every thread and the signal table of every process have their size,
    and a process has an owner entry for each of its mutexes;
  \<^item> no synchronisation object is borrowed and no interrupt is masked between two turns;
  \<^item> every pipe is a well-formed ring, and its writer count is the number of write ends in the
    descriptor tables of the processes that are alive.

  The proof is compositional: \<open>triple P m Q\<close> says that from a state with \<open>P\<close> the step \<open>m\<close>,
  when it does not panic, ends with \<open>Q\<close>.
\<close>

section \<open>Triples\<close>

definition triple :: "('s \<Rightarrow> bool) \<Rightarrow> ('s, 'a) kstep \<Rightarrow> ('a \<Rightarrow> 's \<Rightarrow> bool) \<Rightarrow> bool" where
  "triple P m Q \<longleftrightarrow> (\<forall>s a s'. P s \<longrightarrow> m s = Inr (a, s') \<longrightarrow> Q a s')"

named_theorems triples \<open>triples of the kernel's steps\<close>

lemma tripleI: "(\<And>s a s'. P s \<Longrightarrow> m s = Inr (a, s') \<Longrightarrow> Q a s') \<Longrightarrow> triple P m Q"
  by (simp add: triple_def)

lemma tripleD: "triple P m Q \<Longrightarrow> P s \<Longrightarrow> m s = Inr (a, s') \<Longrightarrow> Q a s'"
  by (simp add: triple_def)

lemma triple_bind:
  "triple P m R \<Longrightarrow> (\<And>a. triple (R a) (f a) Q) \<Longrightarrow> triple P (k_bind m f) Q"
  by (fastforce simp: triple_def k_bind_def bind_res_eq_Inr)

lemma triple_ret: "(\<And>s. P s \<Longrightarrow> Q a s) \<Longrightarrow> triple P (k_ret a) Q"
  by (simp add: triple_def k_ret_def)

lemma triple_weaken: "triple P m Q \<Longrightarrow> (\<And>s. P' s \<Longrightarrow> P s) \<Longrightarrow> (\<And>a s. Q a s \<Longrightarrow> Q' a s) \<Longrightarrow> triple P' m Q'"
  unfolding triple_def by blast

lemma triple_read: "triple P (k_read f) (\<lambda>a s. P s \<and> f s = Inr a)"
  by (auto simp: triple_def k_read_def bind_res_eq_Inr)

lemma triple_lift: "triple P (k_lift r) (\<lambda>a s. P s \<and> r = Inr a)"
  unfolding k_lift_def by (rule triple_read)

lemma triple_pure: "(b \<Longrightarrow> triple P m Q) \<Longrightarrow> triple (\<lambda>s. P s \<and> b) m Q"
  by (auto simp: triple_def)

lemma triple_if: "(b \<Longrightarrow> triple P m Q) \<Longrightarrow> (\<not> b \<Longrightarrow> triple P n Q) \<Longrightarrow> triple P (if b then m else n) Q"
  by simp

lemma triple_update: "(\<And>s s'. P s \<Longrightarrow> f s = Inr s' \<Longrightarrow> Q () s') \<Longrightarrow> triple P (k_update f) Q"
  by (auto simp: triple_def k_update_def bind_res_eq_Inr)

section \<open>The invariant\<close>

definition cells_free :: "'a up_cell option list \<Rightarrow> bool" where
  "cells_free cells \<longleftrightarrow> (\<forall>c. Some c \<in> set cells \<longrightarrow> \<not> borrowed c)"

fun fd_in_range :: "nat \<Rightarrow> fd option \<Rightarrow> bool" where
  "fd_in_range n (Some (PipeRead i)) = (i < n)"
| "fd_in_range n (Some (PipeWrite i)) = (i < n)"
| "fd_in_range n _ = True"

definition process_ok :: "nat \<Rightarrow> 'pt process \<Rightarrow> bool" where
  "process_ok n p \<longleftrightarrow>
     signals_ok (signal p) \<and> (\<forall>ctx. handling (signal p) = Some (UserSignal ctx) \<longrightarrow> ctx_ok ctx) \<and>
     length (mutex_owners p) = length (mutex_list p) \<and>
     cells_free (semaphore_list p) \<and> cells_free (mutex_list p) \<and> cells_free (condvar_list p) \<and>
     list_all (fd_in_range n) (fd_table p)"

definition thread_ok :: "thread_id \<Rightarrow> thread \<Rightarrow> bool" where
  "thread_ok t th \<longleftrightarrow> tid th = t \<and> ctx_ok (local_ctx (task_context th))"

definition processes :: "'pt kernel \<Rightarrow> proc_id \<rightharpoonup> 'pt process" where
  "processes k = (case proc_manager (processor k) of None \<Rightarrow> Map.empty | Some pm \<Rightarrow> procs pm)"

definition all_threads :: "'pt kernel \<Rightarrow> thread_id \<rightharpoonup> thread" where
  "all_threads k = (case manager (processor k) of None \<Rightarrow> Map.empty | Some m \<Rightarrow> tasks m)"

definition open_writers :: "nat \<Rightarrow> (proc_id \<rightharpoonup> 'pt process) \<Rightarrow> nat" where
  "open_writers i ps = (\<Sum>p \<in> dom ps. write_ends i (fd_table (the (ps p))))"

definition pipes_ok :: "'pt kernel \<Rightarrow> bool" where
  "pipes_ok k \<longleftrightarrow>
     (\<forall>i < length (pipes k). ring_ok (ring (pipes k ! i)) \<and> write_end (ring (pipes k ! i)) \<and>
        writers (pipes k ! i) = open_writers i (processes k))"

definition ids_below :: "'pt kernel \<Rightarrow> bool" where
  "ids_below k \<longleftrightarrow> (\<forall>i \<in> dom (processes k). pid_get_usize i < pid_counter (counters k))"

definition hart_idle :: "hart \<Rightarrow> bool" where
  "hart_idle h \<longleftrightarrow> hart_ok h \<and> nested_level h = 0"

definition kernel_ok :: "'pt kernel \<Rightarrow> bool" where
  "kernel_ok k \<longleftrightarrow>
     finite (dom (processes k)) \<and>
     (\<forall>i p. processes k i = Some p \<longrightarrow> pid p = i \<and> process_ok (length (pipes k)) p) \<and>
     (\<forall>t th. all_threads k t = Some th \<longrightarrow> thread_ok t th) \<and>
     hart_idle (hart_state k) \<and> pipes_ok k \<and> ids_below k"

text \<open>The invariant, with the entry of the current process known.\<close>

definition ok_at :: "'pt process \<Rightarrow> 'pt kernel \<Rightarrow> bool" where
  "ok_at p k \<longleftrightarrow> kernel_ok k \<and> pt_get_current_proc (processor k) = Inr (Some p)"

text \<open>Parts of the state the invariant does not look at.\<close>

lemma kernel_ok_simps [simp]:
  "kernel_ok (k\<lparr>memory := m\<rparr>) = kernel_ok k" "kernel_ok (k\<lparr>console_out := b\<rparr>) = kernel_ok k"
  "kernel_ok (k\<lparr>console_in := b\<rparr>) = kernel_ok k" "kernel_ok (k\<lparr>disk := s\<rparr>) = kernel_ok k"
  "processes (k\<lparr>memory := m\<rparr>) = processes k" "processes (k\<lparr>disk := s\<rparr>) = processes k"
  "processes (k\<lparr>console_out := b\<rparr>) = processes k" "processes (k\<lparr>console_in := b\<rparr>) = processes k"
  "processes (k\<lparr>pipes := q\<rparr>) = processes k" "all_threads (k\<lparr>pipes := q\<rparr>) = all_threads k"
  "processes (k\<lparr>hart_state := h\<rparr>) = processes k" "all_threads (k\<lparr>hart_state := h\<rparr>) = all_threads k"
  "processes (k\<lparr>counters := c\<rparr>) = processes k" "all_threads (k\<lparr>counters := c\<rparr>) = all_threads k"
  by (simp_all add: kernel_ok_def processes_def all_threads_def pipes_ok_def ids_below_def)

lemma ok_at_simps [simp]:
  "ok_at p (k\<lparr>memory := m\<rparr>) = ok_at p k" "ok_at p (k\<lparr>console_out := b\<rparr>) = ok_at p k"
  "ok_at p (k\<lparr>console_in := b\<rparr>) = ok_at p k" "ok_at p (k\<lparr>disk := s\<rparr>) = ok_at p k"
  by (simp_all add: ok_at_def)

lemma kernel_okD:
  assumes "kernel_ok k"
  shows "finite (dom (processes k))" "processes k i = Some p \<Longrightarrow> pid p = i"
    "processes k i = Some p \<Longrightarrow> process_ok (length (pipes k)) p"
    "all_threads k t = Some th \<Longrightarrow> thread_ok t th" "hart_idle (hart_state k)" "pipes_ok k" "ids_below k"
  using assms by (auto simp: kernel_ok_def)

lemma current_entry:
  assumes "pt_get_current_proc (processor k) = Inr (Some p)"
  obtains i t pm where "pt_current_pid (processor k) = Inr (Some i)" "processes k i = Some p"
    "proc_manager (processor k) = Some pm" "procs pm i = Some p"
    "current (processor k) = Some t" "tid2pid (processor k) t = Some i"
  using assms
  by (auto simp: pt_get_current_proc_def pt_current_pid_def bind_res_eq_Inr processes_def get_proc_entry_def
      split: option.splits)

lemma triple_current_process [triples]: "triple kernel_ok current_process ok_at"
  by (auto simp: triple_def current_process_def k_read_def bind_res_eq_Inr ok_at_def)

lemma triple_current_thread [triples]:
  "triple P current_thread (\<lambda>th k. P k \<and> (\<exists>t. current (processor k) = Some t \<and> all_threads k t = Some th))"
  by (auto simp: triple_def current_thread_def k_read_def bind_res_eq_Inr pt_current_def all_threads_def
      get_task_def)

lemma triple_memory [triples]:
  "triple (ok_at p) (write_memory ptr bs) (\<lambda>_. ok_at p)"
  "triple (ok_at p) (read_memory ptr n) (\<lambda>_. ok_at p)"
  "triple (ok_at p) (print_bytes bs) (\<lambda>_. ok_at p)"
  by (auto simp: triple_def write_memory_def read_memory_def print_bytes_def k_update_def k_read_def)

section \<open>Updating the processor\<close>

lemma write_ends_simps [simp]:
  "write_ends i [] = 0" "write_ends i (f # tab) = (if is_write_end i f then 1 else 0) + write_ends i tab"
  "write_ends i (tab @ tab') = write_ends i tab + write_ends i tab'"
  by (simp_all add: write_ends_def)

lemma open_writers_put:
  assumes "finite (dom ps)"
  shows "open_writers j (ps(i \<mapsto> p')) + (case ps i of Some p \<Rightarrow> write_ends j (fd_table p) | None \<Rightarrow> 0) =
    open_writers j ps + write_ends j (fd_table p')"
proof -
  have rest: "(\<Sum>q \<in> dom ps - {i}. write_ends j (fd_table (the ((ps(i \<mapsto> p')) q)))) =
      (\<Sum>q \<in> dom ps - {i}. write_ends j (fd_table (the (ps q))))"
    by (rule sum.cong) auto
  have new: "open_writers j (ps(i \<mapsto> p')) =
      write_ends j (fd_table p') + (\<Sum>q \<in> dom ps - {i}. write_ends j (fd_table (the (ps q))))"
    using assms rest sum.insert_remove[of "dom ps" "\<lambda>q. write_ends j (fd_table (the ((ps(i \<mapsto> p')) q)))" i]
    by (simp add: open_writers_def)
  show ?thesis
  proof (cases "ps i")
    case None
    then show ?thesis using new by (simp add: open_writers_def domIff)
  next
    case (Some p)
    then have "open_writers j ps =
        write_ends j (fd_table p) + (\<Sum>q \<in> dom ps - {i}. write_ends j (fd_table (the (ps q))))"
      using assms sum.remove[of "dom ps" i "\<lambda>q. write_ends j (fd_table (the (ps q)))"]
      by (simp add: open_writers_def domIff)
    then show ?thesis using new Some by simp
  qed
qed

lemma open_writers_same:
  "finite (dom ps) \<Longrightarrow> ps i = Some p \<Longrightarrow> write_ends j (fd_table p') = write_ends j (fd_table p) \<Longrightarrow>
     open_writers j (ps(i \<mapsto> p')) = open_writers j ps"
  using open_writers_put[of ps j i p'] by simp

lemma open_writers_delete:
  assumes "finite (dom ps)" "ps i = Some p"
  shows "open_writers j ps = open_writers j (ps(i := None)) + write_ends j (fd_table p)"
  using open_writers_put[of "ps(i := None)" j i p] assms by (simp add: fun_upd_idem)

text \<open>The tables of a processor: what the invariant sees of it.\<close>

definition same_tables :: "('p, 't) pt_manager \<Rightarrow> ('p, 't) pt_manager \<Rightarrow> bool" where
  "same_tables s s' \<longleftrightarrow> proc_manager s' = proc_manager s \<and> map_option tasks (manager s') = map_option tasks (manager s)"

lemma same_tables_kernel:
  assumes "same_tables (processor k) pr"
  shows "processes (k\<lparr>processor := pr\<rparr>) = processes k" "all_threads (k\<lparr>processor := pr\<rparr>) = all_threads k"
    "kernel_ok (k\<lparr>processor := pr\<rparr>) = kernel_ok k"
proof -
  show a: "processes (k\<lparr>processor := pr\<rparr>) = processes k" "all_threads (k\<lparr>processor := pr\<rparr>) = all_threads k"
    using assms by (auto simp: same_tables_def processes_def all_threads_def split: option.splits)
  show "kernel_ok (k\<lparr>processor := pr\<rparr>) = kernel_ok k"
    using a by (simp add: kernel_ok_def pipes_ok_def ids_below_def)
qed

lemma same_tables_ops:
  "pt_re_enque t s = Inr s' \<Longrightarrow> same_tables s s' \<and> current s' = current s \<and> tid2pid s' = tid2pid s"
  "pt_wait c s = Inr (a, s') \<Longrightarrow> same_tables s s' \<and> current s' = current s \<and> tid2pid s' = tid2pid s"
  "pt_waittid t s = Inr (b, s') \<Longrightarrow> same_tables s s' \<and> current s' = current s \<and> tid2pid s' = tid2pid s"
  "pt_make_current_suspend s = Inr s' \<Longrightarrow> same_tables s s'"
  by (auto simp: same_tables_def pt_re_enque_def pt_wait_def pt_waittid_def pt_make_current_suspend_def
      bind_res_eq_Inr Let_def add_ready_def case_prod_beta split: option.splits)

lemma pt_find_next_same:
  assumes "pt_find_next s = Inr (f, s')"
  shows "same_tables s s'"
    "f = Some task \<Longrightarrow> \<exists>t m. current s' = Some t \<and> manager s' = Some m \<and> tasks m t = Some task"
proof -
  obtain m where m: "manager s = Some m" using assms by (auto simp: pt_find_next_def bind_res_eq_Inr)
  show "same_tables s s'"
    using assms m by (cases "ready_queue m")
      (auto simp: same_tables_def pt_find_next_def fetch_ready_def split: option.splits)
  show "\<exists>t m. current s' = Some t \<and> manager s' = Some m \<and> tasks m t = Some task" if "f = Some task"
    using assms m that by (cases "ready_queue m")
      (auto simp: pt_find_next_def fetch_ready_def get_task_def split: option.splits)
qed

lemma same_tables_block: "same_tables s (pt_make_current_blocked s)"
  by (auto simp: same_tables_def pt_make_current_blocked_def split: option.splits)

lemma current_proc_same:
  "same_tables s s' \<Longrightarrow> current s' = current s \<Longrightarrow> tid2pid s' = tid2pid s \<Longrightarrow>
     pt_get_current_proc s' = pt_get_current_proc s"
  by (simp add: same_tables_def pt_get_current_proc_def pt_current_pid_def cong: option.case_cong)

lemma ok_at_same:
  "same_tables (processor k) pr \<Longrightarrow> current pr = current (processor k) \<Longrightarrow> tid2pid pr = tid2pid (processor k) \<Longrightarrow>
     ok_at p (k\<lparr>processor := pr\<rparr>) = ok_at p k"
  by (simp add: ok_at_def same_tables_kernel current_proc_same)

lemma triple_wake [triples]: "triple (ok_at p) (wake woken) (\<lambda>_. ok_at p)"
  using same_tables_ops(1) ok_at_same
  by (fastforce simp: triple_def wake_def update_processor_def on_processor_def k_ret_def bind_res_eq_Inr split: option.splits)

text \<open>Writing the entry of the current process.\<close>

definition compatible :: "nat \<Rightarrow> 'pt process \<Rightarrow> 'pt process \<Rightarrow> bool" where
  "compatible n p p' \<longleftrightarrow>
     pid p' = pid p \<and> process_ok n p' \<and> (\<forall>j. write_ends j (fd_table p') = write_ends j (fd_table p))"

lemma processes_put:
  "proc_manager (processor k) = Some pm \<Longrightarrow>
     processes (k\<lparr>processor := pt_put_proc i p (processor k)\<rparr>) = (processes k)(i \<mapsto> p)"
  "all_threads (k\<lparr>processor := pt_put_proc i p (processor k)\<rparr>) = all_threads k"
  by (simp_all add: processes_def all_threads_def pt_put_proc_def insert_proc_def)

lemma threads_put:
  "manager (processor k) = Some m \<Longrightarrow>
     all_threads (k\<lparr>processor := pt_put_task t th (processor k)\<rparr>) = (all_threads k)(t \<mapsto> th)"
  "processes (k\<lparr>processor := pt_put_task t th (processor k)\<rparr>) = processes k"
  by (simp_all add: processes_def all_threads_def pt_put_task_def insert_task_def)

lemma kernel_ok_put_proc:
  assumes ok: "kernel_ok k" and p: "processes k i = Some p" and c: "compatible (length (pipes k)) p p'"
  shows "kernel_ok (k\<lparr>processor := pt_put_proc i p' (processor k)\<rparr>)"
proof -
  obtain pm where pm: "proc_manager (processor k) = Some pm" "procs pm i = Some p"
    using p by (auto simp: processes_def split: option.splits)
  note K = kernel_okD[OF ok]
  have dom: "dom ((processes k)(i \<mapsto> p')) = dom (processes k)" using p by auto
  have "open_writers j ((processes k)(i \<mapsto> p')) = open_writers j (processes k)" for j
    using open_writers_same[OF K(1) p] c by (simp add: compatible_def)
  then show ?thesis
    using ok c K(2)[OF p] dom by (auto simp: kernel_ok_def processes_put(1)[OF pm(1)] processes_put(2) pipes_ok_def ids_below_def compatible_def)
qed

lemma put_process_eq:
  assumes "pt_get_current_proc (processor k) = Inr (Some p)" "put_process p' k = Inr (u, k')"
  obtains i where "processes k i = Some p" "k' = k\<lparr>processor := pt_put_proc i p' (processor k)\<rparr>"
    "pt_get_current_proc (processor k') = Inr (Some p')"
proof -
  obtain i t pm where c: "pt_current_pid (processor k) = Inr (Some i)" "processes k i = Some p"
    "proc_manager (processor k) = Some pm" "current (processor k) = Some t" "tid2pid (processor k) t = Some i"
    using current_entry[OF assms(1)] by metis
  have k': "k' = k\<lparr>processor := pt_put_proc i p' (processor k)\<rparr>"
    using assms(2) c by (simp add: put_process_def k_update_def)
  then have "pt_get_current_proc (processor k') = Inr (Some p')"
    using c by (simp add: pt_get_current_proc_def pt_current_pid_def pt_put_proc_def insert_proc_def get_proc_entry_def)
  then show ?thesis using that c(2) k' by blast
qed

lemma triple_put_process [triples]:
  "triple (\<lambda>k. ok_at p k \<and> compatible (length (pipes k)) p p') (put_process p') (\<lambda>_. ok_at p')"
proof (rule tripleI)
  fix k u k' assume a: "ok_at p k \<and> compatible (length (pipes k)) p p'" "put_process p' k = Inr (u, k')"
  then obtain i where "processes k i = Some p" "k' = k\<lparr>processor := pt_put_proc i p' (processor k)\<rparr>"
    "pt_get_current_proc (processor k') = Inr (Some p')"
    using put_process_eq[of k p p' u k'] by (auto simp: ok_at_def)
  then show "ok_at p' k'" using a(1) kernel_ok_put_proc[of k i p p'] by (simp add: ok_at_def)
qed

lemma kernel_ok_put_task:
  assumes ok: "kernel_ok k" and th: "all_threads k t = Some old" "thread_ok t th"
  shows "kernel_ok (k\<lparr>processor := pt_put_task t th (processor k)\<rparr>)"
proof -
  obtain m where m: "manager (processor k) = Some m" using th(1) by (auto simp: all_threads_def split: option.splits)
  have "dom ((all_threads k)(t \<mapsto> th)) = dom (all_threads k)" using th(1) by auto
  then show ?thesis
    using ok th(2) by (auto simp: kernel_ok_def threads_put(1)[OF m] threads_put(2) pipes_ok_def ids_below_def)
qed

lemma current_proc_put_task [simp]: "pt_get_current_proc (pt_put_task t th s) = pt_get_current_proc s"
  by (simp add: pt_put_task_def pt_get_current_proc_def pt_current_pid_def cong: option.case_cong)

lemma triple_put_thread [triples]:
  "triple (\<lambda>k. ok_at p k \<and> (\<exists>t old. current (processor k) = Some t \<and> all_threads k t = Some old \<and> thread_ok t th))
     (put_thread th) (\<lambda>_. ok_at p)"
  using kernel_ok_put_task by (auto simp: triple_def put_thread_def k_update_def ok_at_def)

end
