(* ===== verification/Kernel_Calls.thy ===== *)
theory Kernel_Calls
  imports Kernel_Invariant
begin

text \<open>
  Every system call keeps the invariant of \<open>Kernel_Invariant\<close>. One rule per kind of step takes
  a triple apart from its first step on; the calls are then verified by applying the rules.
\<close>

section \<open>Rules\<close>

named_theorems triple_rules \<open>rules that take a triple apart\<close>

lemma ok_at_process: "ok_at p k \<Longrightarrow> process_ok (length (pipes k)) p"
  by (auto simp: ok_at_def elim!: current_entry dest: kernel_okD(3))

lemma rule_current [triple_rules]:
  "(\<And>p. triple (ok_at p) (f p) Q) \<Longrightarrow> triple kernel_ok (k_bind current_process f) Q"
  using triple_current_process by (rule triple_bind)

lemma rule_ret [triple_rules]: "triple (ok_at p) (k_ret a) (\<lambda>_. kernel_ok)"
  by (rule triple_ret) (simp add: ok_at_def)

lemma rule_ret_ok [triple_rules]: "triple kernel_ok (k_ret a) (\<lambda>_. kernel_ok)"
  by (rule triple_ret)

lemma rule_ret_at [triple_rules]: "triple (ok_at p) (k_ret a) (\<lambda>_. ok_at p)"
  by (rule triple_ret)

lemma rule_option [triple_rules]:
  "(x = None \<Longrightarrow> triple P m Q) \<Longrightarrow> (\<And>y. x = Some y \<Longrightarrow> triple P (f y) Q) \<Longrightarrow>
     triple P (case x of None \<Rightarrow> m | Some y \<Rightarrow> f y) Q"
  by (cases x) auto

lemma rule_if [triple_rules]:
  "(b \<Longrightarrow> triple P m Q) \<Longrightarrow> (\<not> b \<Longrightarrow> triple P n Q) \<Longrightarrow> triple P (if b then m else n) Q"
  by simp

lemma rule_prod [triple_rules]:
  "(\<And>a b. x = (a, b) \<Longrightarrow> triple P (f a b) Q) \<Longrightarrow> triple P (case x of (a, b) \<Rightarrow> f a b) Q"
  by (cases x) auto

lemma rule_prod_arg [triple_rules]:
  "(\<And>a b. x = (a, b) \<Longrightarrow> triple P (f a b c) Q) \<Longrightarrow> triple P ((case x of (a, b) \<Rightarrow> f a b) c) Q"
  by (cases x) auto

lemma rule_let [triple_rules]: "(\<And>y. y = x \<Longrightarrow> triple P (f y) Q) \<Longrightarrow> triple P (Let x f) Q"
  by simp

lemma rule_lift [triple_rules]:
  "(\<And>a. r = Inr a \<Longrightarrow> triple P (f a) Q) \<Longrightarrow> triple P (k_bind (k_lift r) f) Q"
  by (rule triple_bind[OF triple_lift]) (auto simp: triple_def)

lemma rule_read [triple_rules]:
  "(\<And>a. triple P (f a) Q) \<Longrightarrow> triple P (k_bind (k_read g) f) Q"
  by (rule triple_bind[OF triple_read]) (auto simp: triple_def)

lemma rule_memory [triple_rules]:
  "(\<And>bs. triple (ok_at p) (f bs) Q) \<Longrightarrow> triple (ok_at p) (k_bind (read_memory ptr n) f) Q"
  "(\<And>u. triple (ok_at p) (g u) Q) \<Longrightarrow> triple (ok_at p) (k_bind (write_memory ptr bs) g) Q"
  "(\<And>u. triple (ok_at p) (g u) Q) \<Longrightarrow> triple (ok_at p) (k_bind (print_bytes bs) g) Q"
  by (rule triple_bind, rule triples, assumption)+

lemma rule_wake [triple_rules]:
  "(\<And>u. triple (ok_at p) (g u) Q) \<Longrightarrow> triple (ok_at p) (k_bind (wake woken) g) Q"
  by (rule triple_bind, rule triples, assumption)

lemma rule_put [triple_rules]:
  assumes "\<And>n. process_ok n p \<Longrightarrow> compatible n p p'" "\<And>u. triple (ok_at p') (g u) Q"
  shows "triple (ok_at p) (k_bind (put_process p') g) Q"
proof (rule triple_bind)
  show "triple (ok_at p) (put_process p') (\<lambda>_. ok_at p')"
    using assms(1) ok_at_process by (rule_tac triple_weaken[OF triple_put_process]) blast+
qed (rule assms(2))

lemma rule_thread [triple_rules]:
  assumes "\<And>th. ctx_ok (local_ctx (task_context th)) \<Longrightarrow> triple (ok_at p) (f th) Q"
  shows "triple (ok_at p) (k_bind current_thread f) Q"
proof (rule triple_bind[OF triple_current_thread])
  show "triple (\<lambda>k. ok_at p k \<and> (\<exists>t. current (processor k) = Some t \<and> all_threads k t = Some th)) (f th) Q" for th
    using assms[of th] by (fastforce simp: triple_def ok_at_def thread_ok_def dest: kernel_okD(4))
qed

lemma rule_thread_ok [triple_rules]:
  assumes "\<And>th. ctx_ok (local_ctx (task_context th)) \<Longrightarrow> triple kernel_ok (f th) Q"
  shows "triple kernel_ok (k_bind current_thread f) Q"
proof (rule triple_bind[OF triple_current_thread])
  show "triple (\<lambda>k. kernel_ok k \<and> (\<exists>t. current (processor k) = Some t \<and> all_threads k t = Some th)) (f th) Q" for th
    using assms[of th] by (fastforce simp: triple_def thread_ok_def dest: kernel_okD(4))
qed

text \<open>Changes of a process that its descriptors do not see.\<close>

lemma compatible_same_fds:
  "process_ok n p \<Longrightarrow> fd_table p' = fd_table p \<Longrightarrow> pid p' = pid p \<Longrightarrow>
     signals_ok (signal p') \<and> (\<forall>ctx. handling (signal p') = Some (UserSignal ctx) \<longrightarrow> ctx_ok ctx) \<and>
     length (mutex_owners p') = length (mutex_list p') \<and>
     cells_free (semaphore_list p') \<and> cells_free (mutex_list p') \<and> cells_free (condvar_list p') \<Longrightarrow>
     compatible n p p'"
  by (simp add: compatible_def process_ok_def)

lemma process_okD:
  assumes "process_ok n p"
  shows "signals_ok (signal p)" "handling (signal p) = Some (UserSignal ctx) \<Longrightarrow> ctx_ok ctx"
    "length (mutex_owners p) = length (mutex_list p)" "cells_free (semaphore_list p)"
    "cells_free (mutex_list p)" "cells_free (condvar_list p)" "list_all (fd_in_range n) (fd_table p)"
  using assms by (auto simp: process_ok_def)

section \<open>Calls that do not touch the descriptors\<close>

lemma cells_free_simps [simp]:
  "cells_free []" "cells_free (c # cs) \<longleftrightarrow> (\<forall>x. c = Some x \<longrightarrow> \<not> borrowed x) \<and> cells_free cs"
  "cells_free (cs @ ds) \<longleftrightarrow> cells_free cs \<and> cells_free ds"
  by (auto simp: cells_free_def)

lemma cells_free_update:
  "cells_free cs \<Longrightarrow> (\<And>x. c = Some x \<Longrightarrow> \<not> borrowed x) \<Longrightarrow> cells_free (cs[i := c])"
  by (auto simp: cells_free_def dest!: set_update_subset_insert[THEN subsetD])

lemma object_free: "cells_free cs \<Longrightarrow> object_at cs i = Inr c \<Longrightarrow> \<not> borrowed c"
  unfolding object_at_def cells_free_def
  by (simp add: bind_res_eq_Inr nth_res_eq_Inr) (metis nth_mem)

lemma object_in_range: "object_at cs i = Inr c \<Longrightarrow> unat i < length cs"
  by (auto simp: object_at_def bind_res_eq_Inr nth_res_eq_Inr)

text \<open>A session on a free cell of an idle hart leaves both so.\<close>

definition idle_session :: "(hart \<Rightarrow> ('a \<times> 'c up_cell \<times> hart) res) \<Rightarrow> bool" where
  "idle_session f \<longleftrightarrow>
     (\<forall>h a c h'. hart_idle h \<longrightarrow> f h = Inr (a, c, h') \<longrightarrow> hart_idle h' \<and> \<not> borrowed c)"

lemma idle_guarded: "idle_session (guarded f c)"
  by (auto simp: idle_session_def guarded_def exclusive_access_def drop_guard_def intr_enter_def intr_exit_def
      usize_inc_def usize_dec_def hart_idle_def hart_ok_def Let_def bind_res_eq_Inr split: if_splits prod.splits)

lemma idle_objects:
  "idle_session (semaphore_up s)" "idle_session (semaphore_down t s)" "idle_session (mutex_lock t m)"
  "idle_session (mutex_unlock m)" "idle_session (condvar_signal c)"
  by (simp_all add: semaphore_up_def semaphore_down_def mutex_lock_def mutex_unlock_def condvar_signal_def
      exclusive_session_def idle_guarded)

lemma idle_sessionD:
  "idle_session f \<Longrightarrow> hart_idle h \<Longrightarrow> f h = Inr (a, c, h') \<Longrightarrow> hart_idle h' \<and> \<not> borrowed c"
  unfolding idle_session_def by blast

lemma idle_wait: "idle_session (condvar_wait_with_mutex t m)"
  unfolding idle_session_def
proof (intro allI impI)
  fix h a c h' assume h: "hart_idle h" and run: "condvar_wait_with_mutex t m h = Inr (a, c, h')"
  then obtain w m1 h1 b where 1: "mutex_unlock m h = Inr (w, m1, h1)" and 2: "mutex_lock t m1 h1 = Inr (b, c, h')"
    by (auto simp: condvar_wait_with_mutex_def bind_res_eq_Inr)
  from idle_sessionD[OF idle_objects(4) h 1] have "hart_idle h1" by simp
  from idle_sessionD[OF idle_objects(3) this 2] show "hart_idle h' \<and> \<not> borrowed c" .
qed

lemma kernel_ok_hart: "kernel_ok k \<Longrightarrow> hart_idle h \<Longrightarrow> kernel_ok (k\<lparr>hart_state := h\<rparr>)"
  by (simp add: kernel_ok_def pipes_ok_def ids_below_def)

lemma rule_on_hart:
  assumes "idle_session f" "\<And>a c. \<not> borrowed c \<Longrightarrow> triple (ok_at p) (g (a, c)) Q"
  shows "triple (ok_at p) (k_bind (on_hart f) g) Q"
proof (rule triple_bind)
  show "triple (ok_at p) (on_hart f) (\<lambda>x k. ok_at p k \<and> \<not> borrowed (snd x))"
    using assms(1) kernel_ok_hart kernel_okD(5)
    by (fastforce simp: triple_def on_hart_def bind_res_eq_Inr ok_at_def idle_session_def)
  show "triple (\<lambda>k. ok_at p k \<and> \<not> borrowed (snd x)) (g x) Q" for x
    using assms(2)[of "snd x" "fst x"] by (auto simp: triple_def)
qed

lemmas hart_rules =
  rule_on_hart[OF idle_objects(1)] rule_on_hart[OF idle_objects(2)] rule_on_hart[OF idle_objects(3)]
  rule_on_hart[OF idle_objects(4)] rule_on_hart[OF idle_objects(5)] rule_on_hart[OF idle_wait]

lemma new_cells_free [simp]: "\<not> borrowed (semaphore_new n)" "\<not> borrowed mutex_new" "\<not> borrowed condvar_new"
  by (simp_all add: semaphore_new_def mutex_new_def condvar_new_def up_cell_new_def)

lemma place_object_free:
  "place_object (Some c) cs = (i, l) \<Longrightarrow> cells_free cs \<Longrightarrow> \<not> borrowed c \<Longrightarrow> cells_free l"
  by (auto simp: place_object_def intro: cells_free_update split: option.splits)

lemma place_ok:
  "place_object (Some c) (semaphore_list p) = (i, l) \<Longrightarrow> process_ok n p \<Longrightarrow> \<not> borrowed c \<Longrightarrow> cells_free l"
  "place_object (Some d) (condvar_list p) = (j, l') \<Longrightarrow> process_ok n p \<Longrightarrow> \<not> borrowed d \<Longrightarrow> cells_free l'"
  using place_object_free process_okD(4,6) by blast+

lemma sys_semaphores_ok [triples]:
  "triple kernel_ok (sys_semaphore_create n) (\<lambda>_. kernel_ok)"
  "triple kernel_ok (sys_semaphore_up i) (\<lambda>_. kernel_ok)"
  "triple kernel_ok (sys_semaphore_down i) (\<lambda>_. kernel_ok)"
proof -
  show "triple kernel_ok (sys_semaphore_create n) (\<lambda>_. kernel_ok)"
    unfolding sys_semaphore_create_def
    by (intro triple_rules) (auto intro!: compatible_same_fds dest: process_okD place_ok(1))
  show "triple kernel_ok (sys_semaphore_up i) (\<lambda>_. kernel_ok)"
    unfolding sys_semaphore_up_def
    by (intro triple_rules hart_rules) (auto intro!: compatible_same_fds cells_free_update dest: process_okD)
  show "triple kernel_ok (sys_semaphore_down i) (\<lambda>_. kernel_ok)"
    unfolding sys_semaphore_down_def
    by (intro triple_rules hart_rules) (auto intro!: compatible_same_fds cells_free_update dest: process_okD)
qed

lemma sys_condvars_ok [triples]:
  "triple kernel_ok (sys_condvar_create) (\<lambda>_. kernel_ok)"
  "triple kernel_ok (sys_condvar_signal i) (\<lambda>_. kernel_ok)"
  "triple kernel_ok (sys_condvar_wait i j) (\<lambda>_. kernel_ok)"
proof -
  show "triple kernel_ok (sys_condvar_create) (\<lambda>_. kernel_ok)"
    unfolding sys_condvar_create_def
    by (intro triple_rules) (auto intro!: compatible_same_fds dest: process_okD place_ok(2))
  show "triple kernel_ok (sys_condvar_signal i) (\<lambda>_. kernel_ok)"
    unfolding sys_condvar_signal_def
    by (intro triple_rules hart_rules) (auto intro!: compatible_same_fds cells_free_update dest: process_okD)
  show "triple kernel_ok (sys_condvar_wait i j) (\<lambda>_. kernel_ok)"
    unfolding sys_condvar_wait_def
    by (intro triple_rules hart_rules) (auto intro!: compatible_same_fds cells_free_update dest: process_okD)
qed

lemma sys_mutexes_ok [triples]:
  "triple kernel_ok (sys_mutex_create b) (\<lambda>_. kernel_ok)"
  "triple kernel_ok (sys_mutex_unlock i) (\<lambda>_. kernel_ok)"
  "triple kernel_ok (sys_mutex_lock i) (\<lambda>_. kernel_ok)"
  "triple kernel_ok (sys_enable_deadlock_detect e) (\<lambda>_. kernel_ok)"
proof -
  show "triple kernel_ok (sys_mutex_create b) (\<lambda>_. kernel_ok)"
    unfolding sys_mutex_create_def
    by (intro triple_rules) (auto intro!: compatible_same_fds cells_free_update dest: process_okD simp: update_res_eq_Inr)
  show "triple kernel_ok (sys_mutex_unlock i) (\<lambda>_. kernel_ok)"
    unfolding sys_mutex_unlock_def
    by (intro triple_rules hart_rules)
      (auto intro!: compatible_same_fds cells_free_update dest: process_okD simp: update_res_eq_Inr)
  show "triple kernel_ok (sys_mutex_lock i) (\<lambda>_. kernel_ok)"
    unfolding sys_mutex_lock_def
    by (intro triple_rules hart_rules)
      (auto intro!: compatible_same_fds cells_free_update dest: process_okD simp: update_res_eq_Inr)
  show "triple kernel_ok (sys_enable_deadlock_detect e) (\<lambda>_. kernel_ok)"
    unfolding sys_enable_deadlock_detect_def
    by (intro triple_rules) (auto intro!: compatible_same_fds dest: process_okD)
qed

section \<open>Processes, signals, time\<close>

lemma rule_wait [triple_rules]:
  "(\<And>a. triple (ok_at p) (g a) Q) \<Longrightarrow> triple (ok_at p) (k_bind (on_processor (pt_wait c)) g) Q"
proof (rule triple_bind)
  show "triple (ok_at p) (on_processor (pt_wait c)) (\<lambda>_. ok_at p)"
    using same_tables_ops(2) ok_at_same by (fastforce simp: triple_def on_processor_def bind_res_eq_Inr)
qed

lemma rule_waittid [triple_rules]:
  "(\<And>a. triple kernel_ok (g a) Q) \<Longrightarrow> triple kernel_ok (k_bind (on_processor (pt_waittid t)) g) Q"
proof (rule triple_bind)
  show "triple kernel_ok (on_processor (pt_waittid t)) (\<lambda>_. kernel_ok)"
    using same_tables_ops(3) same_tables_kernel(3)
    by (fastforce simp: triple_def on_processor_def bind_res_eq_Inr)
qed

lemma rule_write_last [triple_rules]:
  "triple (ok_at p) (write_memory ptr bs) (\<lambda>_. ok_at p)"
  by (rule triples)

lemma sys_simple_ok [triples]:
  "triple kernel_ok (sys_exit e) (\<lambda>_. kernel_ok)"
  "triple kernel_ok sys_getpid (\<lambda>_. kernel_ok)"
  "triple kernel_ok sys_sched_yield (\<lambda>_. kernel_ok)"
  "triple kernel_ok sys_gettid (\<lambda>_. kernel_ok)"
  "triple kernel_ok (sys_waittid t) (\<lambda>_. kernel_ok)"
  "triple kernel_ok (sys_clock_gettime pf c tp) (\<lambda>_. kernel_ok)"
  unfolding sys_exit_def sys_getpid_def sys_sched_yield_def sys_gettid_def sys_waittid_def sys_clock_gettime_def
  by (intro triple_rules)+

lemma sys_wait_ok [triples]: "triple kernel_ok (sys_wait pf c ptr) (\<lambda>_. kernel_ok)"
proof -
  have "triple (ok_at p)
      (case translate pf (address_space p) ptr (writeable_flags pf) of None \<Rightarrow> k_ret () | Some a \<Rightarrow> write_memory a bs)
      (\<lambda>_. ok_at p)" for p bs
    by (intro triple_rules)
  note step = triple_bind[OF this]
  show ?thesis unfolding sys_wait_def by (intro triple_rules step)
qed

lemma add_signal_ok:
  "add_signal sg s = Inr s' \<Longrightarrow> (signals_ok s' \<longleftrightarrow> signals_ok s) \<and> handling s' = handling s"
  by (auto simp: add_signal_def bind_res_eq_Inr)

lemma set_action_ok:
  "set_action sg a s = Inr (b, s') \<Longrightarrow> (signals_ok s' \<longleftrightarrow> signals_ok s) \<and> handling s' = handling s"
  by (auto simp: set_action_def bind_res_eq_Inr update_res_eq_Inr signals_ok_def split: if_splits)

lemma update_mask_ok:
  "update_mask m s = (b, s') \<Longrightarrow> (signals_ok s' \<longleftrightarrow> signals_ok s) \<and> handling s' = handling s"
  by (auto simp: update_mask_def set_new_def)

lemma compatible_signal:
  "process_ok n p \<Longrightarrow> (signals_ok sg \<longleftrightarrow> signals_ok (signal p)) \<and> handling sg = handling (signal p) \<Longrightarrow>
     compatible n p (p\<lparr>signal := sg\<rparr>)"
  by (auto simp: compatible_def process_ok_def)

lemma sys_kill_ok [triples]: "triple kernel_ok (sys_kill t n) (\<lambda>_. kernel_ok)"
proof (rule tripleI)
  fix k a k' assume ok: "kernel_ok k" and run: "sys_kill t n k = Inr (a, k')"
  show "kernel_ok k'"
  proof (cases "k' = k")
    case False
    then obtain p sno sg where p: "pt_get_proc (ProcId t) (processor k) = Inr (Some p)" "add_signal sno (signal p) = Inr sg"
      and k': "k' = k\<lparr>processor := pt_put_proc (ProcId t) (p\<lparr>signal := sg\<rparr>) (processor k)\<rparr>"
      using run unfolding sys_kill_def k_bind_def k_read_def k_lift_def k_update_def k_ret_def
      by (cases "pt_get_proc (ProcId t) (processor k)"; cases "signal_try_from n")
        (auto simp: bind_res_eq_Inr split: option.splits if_splits)
    then have e: "processes k (ProcId t) = Some p"
      by (auto simp: pt_get_proc_def processes_def get_proc_entry_def bind_res_eq_Inr)
    show ?thesis unfolding k'
      by (rule kernel_ok_put_proc[OF ok e], rule compatible_signal[OF kernel_okD(3)[OF ok e] add_signal_ok[OF p(2)]])
  qed (use ok in simp)
qed


lemma sys_sigaction_ok [triples]: "triple kernel_ok (sys_sigaction pf n a old) (\<lambda>_. kernel_ok)"
proof -
  have 1: "triple (ok_at p) (store_old_action pf p sg old) (\<lambda>_. ok_at p)" for p sg
    unfolding store_old_action_def by (intro triple_rules)
  have 2: "triple (ok_at p) (load_new_action pf p sg a) (\<lambda>_. kernel_ok)" for p sg
    unfolding load_new_action_def
    by (intro triple_rules) (auto intro!: compatible_signal dest: set_action_ok)
  show ?thesis
    unfolding sys_sigaction_def
    by (intro triple_rules triple_bind[OF 1] triple_bind[OF 2])
qed

lemma sys_sigprocmask_ok [triples]: "triple kernel_ok (sys_sigprocmask m) (\<lambda>_. kernel_ok)"
  unfolding sys_sigprocmask_def
  by (intro triple_rules) (auto intro!: compatible_signal dest: update_mask_ok)

end
