(* ===== verification/Kernel_Calls_Threads.thy ===== *)
theory Kernel_Calls_Threads
  imports Kernel_Calls
begin

text \<open>
  The system calls that change threads, descriptors or the set of processes keep the invariant
  of \<open>Kernel_Invariant\<close>.
\<close>

section \<open>The current thread\<close>

definition at_both :: "'pt process \<Rightarrow> thread \<Rightarrow> 'pt kernel \<Rightarrow> bool" where
  "at_both p th k \<longleftrightarrow> ok_at p k \<and> (\<exists>t. current (processor k) = Some t \<and> all_threads k t = Some th)"

lemma at_both_thread: "at_both p th k \<Longrightarrow> ctx_ok (local_ctx (task_context th))"
  by (auto simp: at_both_def ok_at_def thread_ok_def dest: kernel_okD(4))

lemma rule_thread_both:
  assumes "\<And>th n. ctx_ok (local_ctx (task_context th)) \<Longrightarrow> process_ok n p \<Longrightarrow> triple (at_both p th) (f th) Q"
  shows "triple (ok_at p) (k_bind current_thread f) Q"
proof (rule triple_bind[OF triple_current_thread])
  fix th
  have "triple (at_both p th) (f th) Q" if "at_both p th k" for k
    using assms[OF at_both_thread[OF that]] ok_at_process that unfolding at_both_def by blast
  then show "triple (\<lambda>k. ok_at p k \<and> (\<exists>t. current (processor k) = Some t \<and> all_threads k t = Some th)) (f th) Q"
    unfolding at_both_def triple_def by blast
qed

lemma rule_put_both:
  assumes "\<And>n. process_ok n p \<Longrightarrow> compatible n p p'" "\<And>u. triple (at_both p' th) (g u) Q"
  shows "triple (at_both p th) (k_bind (put_process p') g) Q"
proof (rule triple_bind)
  show "triple (at_both p th) (put_process p') (\<lambda>_. at_both p' th)"
  proof (rule tripleI)
    fix k u k' assume a: "at_both p th k" and run: "put_process p' k = Inr (u, k')"
    then have ok: "ok_at p k" by (simp add: at_both_def)
    then have "ok_at p' k'"
      using tripleD[OF triple_put_process, of p k p' u k'] assms(1) ok_at_process[OF ok] run by blast
    moreover obtain i where "k' = k\<lparr>processor := pt_put_proc i p' (processor k)\<rparr>"
      using put_process_eq[OF _ run] ok by (auto simp: ok_at_def)
    ultimately show "at_both p' th k'" using a by (auto simp: at_both_def processes_put(2)) (simp_all add: pt_put_proc_def)
  qed
qed (rule assms(2))

lemma triple_set_context:
  assumes "ctx_ok ctx"
  shows "triple (at_both p th) (put_thread (set_context ctx th)) (\<lambda>_. at_both p (set_context ctx th))"
proof (rule tripleI)
  fix k u k' assume a: "at_both p th k" and run: "put_thread (set_context ctx th) k = Inr (u, k')"
  then obtain t where t: "current (processor k) = Some t" "all_threads k t = Some th" "ok_at p k"
    by (auto simp: at_both_def)
  then have new: "thread_ok t (set_context ctx th)"
    using assms by (auto simp: ok_at_def thread_ok_def set_context_def dest: kernel_okD(4))
  have k': "k' = k\<lparr>processor := pt_put_task t (set_context ctx th) (processor k)\<rparr>"
    using run t(1) by (simp add: put_thread_def k_update_def)
  obtain m where m: "manager (processor k) = Some m" using t(2) by (auto simp: all_threads_def split: option.splits)
  have "ok_at p k'"
    using kernel_ok_put_task[OF _ t(2) new] t(3) unfolding k' by (simp add: ok_at_def)
  moreover have "current (processor k') = Some t" using t(1) by (simp add: k' pt_put_task_def)
  moreover have "all_threads k' t = Some (set_context ctx th)" unfolding k' threads_put(1)[OF m] by simp
  ultimately show "at_both p (set_context ctx th) k'" by (simp add: at_both_def)
qed

lemma rule_set_context:
  "ctx_ok ctx \<Longrightarrow> (\<And>u. triple (at_both p (set_context ctx th)) (g u) Q) \<Longrightarrow>
     triple (at_both p th) (k_bind (put_thread (set_context ctx th)) g) Q"
  using triple_set_context by (rule triple_bind)

lemma rule_ret_both: "triple (at_both p th) (k_ret a) (\<lambda>_. kernel_ok)"
  by (rule triple_ret) (simp add: at_both_def ok_at_def)

lemmas both_rules = rule_current rule_thread_both rule_put_both rule_set_context rule_ret_both rule_lift rule_prod

text \<open>What is needed of a signal state and of the registers, together.\<close>

definition signal_part_ok :: "signal_impl \<Rightarrow> bool" where
  "signal_part_ok s \<longleftrightarrow> signals_ok s \<and> (\<forall>ctx. handling s = Some (UserSignal ctx) \<longrightarrow> ctx_ok ctx)"

lemma compatible_signal_part:
  "process_ok n p \<Longrightarrow> signal_part_ok s \<Longrightarrow> compatible n p (p\<lparr>signal := s\<rparr>)"
  by (auto simp: compatible_def process_ok_def signal_part_ok_def)

lemma process_signal_part: "process_ok n p \<Longrightarrow> signal_part_ok (signal p)"
  by (simp add: process_ok_def signal_part_ok_def)

lemma fetch_part:
  "fetch_signal s = Inr (f, s') \<Longrightarrow> signals_ok s' = signals_ok s \<and> handling s' = handling s"
  by (auto simp: fetch_signal_def bind_res_eq_Inr split: option.splits)

lemma fetch_remove_part:
  "fetch_and_remove sg s = Inr (f, s') \<Longrightarrow> signals_ok s' = signals_ok s \<and> handling s' = handling s"
  by (auto simp: fetch_and_remove_def bind_res_eq_Inr split: if_splits)

lemma enter_handler_ok: "ctx_set_a n v (ctx_set_pc h ctx) = Inr ctx' \<Longrightarrow> ctx_ok ctx \<Longrightarrow> ctx_ok ctx'"
  using ctx_ok_set_a[of "ctx_set_pc h ctx"] by simp

lemma handle_signals_part:
  assumes run: "handle_signals ctx s = Inr (r, ctx', s')" and s: "signal_part_ok s" and ctx: "ctx_ok ctx"
  shows "signal_part_ok s' \<and> ctx_ok ctx'"
proof (cases "handling s")
  case None
  then obtain f s1 where f: "fetch_signal s = Inr (f, s1)"
    using run by (auto simp: handle_signals_def is_handling_signal_def bind_res_eq_Inr)
  have s1: "signals_ok s1" "handling s1 = None" using fetch_part[OF f] s None by (auto simp: signal_part_ok_def)
  show ?thesis
    using run None f s1 ctx
    by (auto simp: handle_signals_def is_handling_signal_def signal_part_ok_def bind_res_eq_Inr
        intro: enter_handler_ok split: option.splits if_splits)
next
  case (Some h)
  then show ?thesis
    using run s ctx
    by (cases h) (auto simp: handle_signals_def is_handling_signal_def signal_part_ok_def bind_res_eq_Inr
        dest: fetch_remove_part split: if_splits prod.splits)
qed

lemma sig_return_part:
  "sig_return ctx s = (b, ctx', s') \<Longrightarrow> ctx_ok ctx \<Longrightarrow> signal_part_ok s \<Longrightarrow> signal_part_ok s' \<and> ctx_ok ctx'"
  by (auto simp: sig_return_def signal_part_ok_def split: option.splits handling_signal.splits)

lemma put_context_eq: "th\<lparr>task_context := task_context th\<lparr>local_ctx := ctx\<rparr>\<rparr> = set_context ctx th"
  by (simp add: set_context_def)

lemma sys_sigreturn_ok [triples]: "triple kernel_ok sys_sigreturn (\<lambda>_. kernel_ok)"
  unfolding sys_sigreturn_def put_context_eq
  by (intro both_rules)
    (auto intro!: compatible_signal_part dest: sig_return_part process_signal_part)

lemma deliver_signals_ok: "triple kernel_ok deliver_signals (\<lambda>_. kernel_ok)"
  unfolding deliver_signals_def
  by (intro both_rules)
    (auto intro!: compatible_signal_part dest: handle_signals_part process_signal_part)

section \<open>Creating threads\<close>

lemma rule_alloc_pages:
  "(\<And>a. triple (ok_at p) (g a) Q) \<Longrightarrow>
     triple (ok_at p) (k_bind (\<lambda>k. bind_res (alloc_pages pf n (memory k)) (\<lambda>(stack, m). Inr (stack, k\<lparr>memory := m\<rparr>))) g) Q"
  by (rule triple_bind[where R = "\<lambda>_. ok_at p"]) (auto simp: triple_def bind_res_eq_Inr)

lemma kernel_ok_counters:
  "kernel_ok k \<Longrightarrow> pid_counter c = pid_counter (counters k) \<Longrightarrow> kernel_ok (k\<lparr>counters := c\<rparr>)"
  by (simp add: kernel_ok_def pipes_ok_def ids_below_def)

lemma rule_thread_new:
  assumes "\<And>th. thread_ok (tid th) th \<Longrightarrow> triple (ok_at p) (g th) Q" "ctx_ok ctx"
  shows "triple (ok_at p) (k_bind (\<lambda>k. case thread_new stp ctx (counters k) of (th, c) \<Rightarrow> Inr (th, k\<lparr>counters := c\<rparr>)) g) Q"
proof (rule triple_bind)
  show "triple (ok_at p) (\<lambda>k. case thread_new stp ctx (counters k) of (th, c) \<Rightarrow> Inr (th, k\<lparr>counters := c\<rparr>))
      (\<lambda>th k. ok_at p k \<and> thread_ok (tid th) th)"
    using assms(2)
    by (auto simp: triple_def thread_new_def thread_id_new_def thread_ok_def ok_at_def intro: kernel_ok_counters)
  show "triple (\<lambda>k. ok_at p k \<and> thread_ok (tid th) th) (g th) Q" for th
    using assms(1)[of th] by (auto simp: triple_def)
qed

lemma pt_add_tables:
  assumes "pt_add t th i s = Inr s'"
  shows "proc_manager s' = proc_manager s"
    "\<exists>m m'. manager s = Some m \<and> manager s' = Some m' \<and> tasks m' = (tasks m)(t \<mapsto> th)"
  using assms by (auto simp: pt_add_def bind_res_eq_Inr Let_def add_ready_def insert_task_def split: option.splits)

lemma kernel_ok_add_thread:
  assumes ok: "kernel_ok k" and th: "thread_ok t th" and add: "pt_add t th i (processor k) = Inr pr"
  shows "kernel_ok (k\<lparr>processor := pr\<rparr>)"
proof -
  obtain m m' where m: "manager (processor k) = Some m" "manager pr = Some m'" "tasks m' = (tasks m)(t \<mapsto> th)"
    using pt_add_tables(2)[OF add] by blast
  then have "all_threads (k\<lparr>processor := pr\<rparr>) = (all_threads k)(t \<mapsto> th)" by (simp add: all_threads_def)
  moreover have "processes (k\<lparr>processor := pr\<rparr>) = processes k"
    using pt_add_tables(1)[OF add] by (simp add: processes_def)
  ultimately show ?thesis using ok th by (simp add: kernel_ok_def pipes_ok_def ids_below_def)
qed

lemma rule_add_thread:
  assumes "thread_ok t th" "\<And>u. triple kernel_ok (g u) Q"
  shows "triple (ok_at p) (k_bind (update_processor (pt_add t th i)) g) Q"
proof (rule triple_bind)
  show "triple (ok_at p) (update_processor (pt_add t th i)) (\<lambda>_. kernel_ok)"
    using assms(1) kernel_ok_add_thread
    by (auto simp: triple_def update_processor_def on_processor_def bind_res_eq_Inr ok_at_def)
qed (rule assms(2))

lemma sys_thread_create_ok [triples]: "triple kernel_ok (sys_thread_create pf e a) (\<lambda>_. kernel_ok)"
proof -
  have ctx: "ctx_ok c" if run: "bind_res (ctx_set_sp v (ctx_user e)) (ctx_set_a 0 a) = Inr c" for v c
  proof -
    obtain c1 where "ctx_set_sp v (ctx_user e) = Inr c1" "ctx_set_a 0 a c1 = Inr c"
      using run by (auto simp: bind_res_eq_Inr)
    then show ?thesis using ctx_ok_set_x[of "ctx_user e"] ctx_ok_set_a[of c1] by (simp add: ctx_set_sp_def)
  qed
  show ?thesis
    unfolding sys_thread_create_def
    by (intro rule_current rule_lift rule_alloc_pages rule_put rule_thread_new rule_add_thread rule_ret_ok ctx)
      (auto intro!: compatible_same_fds dest: process_okD)
qed

end
