(* ===== verification/Kernel_Calls_Files.thy ===== *)
theory Kernel_Calls_Files
  imports Kernel_Calls_Threads
begin

text \<open>
  The system calls on descriptors, and those that make or replace processes, keep the invariant
  of \<open>Kernel_Invariant\<close>; so does the end of a thread. The point is the writer count of pipes: it
  is changed together with the tables that hold the write ends.
\<close>

section \<open>Pipes under reads and writes\<close>

lemma pipe_write_loop_keeps:
  "pipe_write_loop n want c it bufs r = Inr (c', r') \<Longrightarrow> ring_ok r \<Longrightarrow> n \<le> available_write r \<Longrightarrow>
     ring_ok r' \<and> write_end r' = write_end r"
proof (induction n arbitrary: c it r)
  case (Suc n)
  obtain ref it1 where nx: "ub_next bufs it = Inr (ref, it1)" using Suc.prems(1) by (auto simp: bind_res_eq_Inr)
  show ?case
  proof (cases ref)
    case (Some p)
    obtain r1 where w: "write_byte (ub_get bufs p) r = Inr r1" "ring_ok r1"
      "pipe_bytes r1 = pipe_bytes r @ [ub_get bufs p]" "write_end r1 = write_end r"
      using write_byte_eq[OF Suc.prems(2), of "ub_get bufs p"] Suc.prems(3) by auto
    have "available_read r1 = available_read r + 1" using arg_cong[OF w(3), of length] by simp
    then have "n \<le> available_write r1"
      using available_sum[OF Suc.prems(2)] available_sum[OF w(2)] Suc.prems(3) by linarith
    then show ?thesis
      using Suc.prems(1) Suc.IH[of "c + 1" it1 r1] nx Some w by (auto simp: Let_def split: if_splits)
  qed (use Suc.prems nx in simp)
qed simp

lemma pipe_read_loop_keeps:
  "pipe_read_loop n want c it bufs r = Inr (c', bufs', r') \<Longrightarrow> ring_ok r \<Longrightarrow> n \<le> available_read r \<Longrightarrow>
     ring_ok r' \<and> write_end r' = write_end r"
proof (induction n arbitrary: c it bufs r)
  case (Suc n)
  obtain ref it1 where nx: "ub_next bufs it = Inr (ref, it1)" using Suc.prems(1) by (auto simp: bind_res_eq_Inr)
  show ?case
  proof (cases ref)
    case (Some p)
    obtain r1 where w: "read_byte r = Inr (hd (pipe_bytes r), r1)" "ring_ok r1"
      "pipe_bytes r1 = tl (pipe_bytes r)" "write_end r1 = write_end r"
      using read_byte_eq[OF Suc.prems(2)] Suc.prems(3) by auto
    have "available_read r1 = available_read r - 1" using arg_cong[OF w(3), of length] by simp
    then have "n \<le> available_read r1" using Suc.prems(3) by simp
    then show ?thesis
      using Suc.prems(1) Suc.IH[of "c + 1" it1 "ub_put p (hd (pipe_bytes r)) bufs" r1] nx Some w
      by (auto simp: Let_def split: if_splits)
  qed (use Suc.prems nx in simp)
qed simp

lemma pipe_write_keeps:
  "pipe_write bufs p = Inr (n, p') \<Longrightarrow> ring_ok (ring p) \<Longrightarrow>
     ring_ok (ring p') \<and> write_end (ring p') = write_end (ring p) \<and> writers p' = writers p"
  by (auto simp: pipe_write_def Let_def bind_res_eq_Inr dest: pipe_write_loop_keeps split: if_splits prod.splits)

lemma pipe_read_keeps:
  "pipe_read bufs p = Inr (n, bufs', p') \<Longrightarrow> ring_ok (ring p) \<Longrightarrow>
     ring_ok (ring p') \<and> write_end (ring p') = write_end (ring p) \<and> writers p' = writers p"
  by (auto simp: pipe_read_def Let_def bind_res_eq_Inr dest: pipe_read_loop_keeps split: if_splits prod.splits)

text \<open>Pipes that differ in the bytes they hold only.\<close>

definition same_ends :: "pipe list \<Rightarrow> pipe list \<Rightarrow> bool" where
  "same_ends ps ps' \<longleftrightarrow> length ps' = length ps \<and>
     (\<forall>i < length ps. ring_ok (ring (ps ! i)) \<and> write_end (ring (ps ! i)) \<longrightarrow>
        ring_ok (ring (ps' ! i)) \<and> write_end (ring (ps' ! i)) \<and> writers (ps' ! i) = writers (ps ! i))"

lemma same_ends_update:
  "i < length ps \<Longrightarrow> (ring_ok (ring (ps ! i)) \<Longrightarrow>
     ring_ok (ring p') \<and> write_end (ring p') = write_end (ring (ps ! i)) \<and> writers p' = writers (ps ! i)) \<Longrightarrow>
   same_ends ps (ps[i := p'])"
  by (auto simp: same_ends_def nth_list_update)

definition same_kind :: "fd \<Rightarrow> fd \<Rightarrow> bool" where
  "same_kind f f' \<longleftrightarrow> (\<forall>j. is_write_end j (Some f') = is_write_end j (Some f)) \<and>
     (\<forall>n. fd_in_range n (Some f') = fd_in_range n (Some f))"

lemma fd_write_keeps:
  "fd_write fs f buf ps s = Inr (n, f', ps', s') \<Longrightarrow> same_kind f f' \<and> same_ends ps ps'"
  by (cases f) (auto simp: bind_res_eq_Inr nth_res_eq_Inr same_kind_def pipe_write_keeps
      intro!: same_ends_update[OF _ pipe_write_keeps] split: prod.splits, auto simp: same_ends_def)

lemma fd_read_keeps:
  "fd_read f buf ps s = Inr (n, f', buf', ps') \<Longrightarrow> same_kind f f' \<and> same_ends ps ps'"
  by (cases f) (auto simp: bind_res_eq_Inr nth_res_eq_Inr same_kind_def
      intro!: same_ends_update[OF _ pipe_read_keeps] split: prod.splits, auto simp: same_ends_def)

lemma kernel_ok_same_ends:
  "kernel_ok k \<Longrightarrow> same_ends (pipes k) ps \<Longrightarrow> kernel_ok (k\<lparr>pipes := ps\<rparr>)"
  by (auto simp: kernel_ok_def pipes_ok_def ids_below_def same_ends_def)

lemma rule_file_write:
  assumes "\<And>n f1. same_kind f f1 \<Longrightarrow> triple (ok_at p) (g (n, f1)) Q"
  shows "triple (ok_at p) (k_bind (file_write f buf) g) Q"
proof (rule triple_bind)
  show "triple (ok_at p) (file_write f buf) (\<lambda>x k. ok_at p k \<and> same_kind f (snd x))"
    by (auto simp: triple_def file_write_def bind_res_eq_Inr ok_at_def
        dest!: fd_write_keeps intro: kernel_ok_same_ends)
  show "triple (\<lambda>k. ok_at p k \<and> same_kind f (snd x)) (g x) Q" for x
    using assms[of "snd x" "fst x"] by (auto simp: triple_def)
qed

lemma rule_file_read:
  assumes "\<And>n f1 b. same_kind f f1 \<Longrightarrow> triple (ok_at p) (g (n, f1, b)) Q"
  shows "triple (ok_at p) (k_bind (file_read f buf) g) Q"
proof (rule triple_bind)
  show "triple (ok_at p) (file_read f buf) (\<lambda>x k. ok_at p k \<and> same_kind f (fst (snd x)))"
    by (auto simp: triple_def file_read_def bind_res_eq_Inr ok_at_def
        dest!: fd_read_keeps intro: kernel_ok_same_ends)
  show "triple (\<lambda>k. ok_at p k \<and> same_kind f (fst (snd x))) (g x) Q" for x
    using assms[of "fst (snd x)" "fst x" "snd (snd x)"] by (auto simp: triple_def)
qed

section \<open>Tables of descriptors\<close>

lemma write_ends_update:
  "i < length tab \<Longrightarrow> write_ends j (tab[i := f]) + (if is_write_end j (tab ! i) then 1 else 0) =
     write_ends j tab + (if is_write_end j f then 1 else 0)"
proof (induction tab arbitrary: i)
  case (Cons a tab)
  then show ?case by (cases i) auto
qed simp

lemma in_range_no_ends: "list_all (fd_in_range n) tab \<Longrightarrow> n \<le> j \<Longrightarrow> write_ends j tab = 0"
proof (induction tab)
  case (Cons a tab)
  then show ?case by (cases "(n, a)" rule: fd_in_range.cases) auto
qed simp

lemma fd_in_range_mono: "fd_in_range n f \<Longrightarrow> n \<le> m \<Longrightarrow> fd_in_range m f"
  by (cases "(n, f)" rule: fd_in_range.cases) auto

lemma list_all_in_range_mono: "list_all (fd_in_range n) tab \<Longrightarrow> n \<le> m \<Longrightarrow> list_all (fd_in_range m) tab"
  by (auto simp: list_all_iff intro: fd_in_range_mono)

lemma process_ok_mono: "process_ok n p \<Longrightarrow> n \<le> m \<Longrightarrow> process_ok m p"
  by (auto simp: process_ok_def intro: list_all_in_range_mono)

lemma compatible_set_fd:
  assumes ok: "process_ok n p" and f: "fd_at i p = Inr (Some f)" and same: "same_kind f f1"
  shows "compatible n p (set_fd i (Some f1) p)"
proof -
  have i: "unat i < length (fd_table p)" "fd_table p ! unat i = Some f"
    using f by (auto simp: fd_at_def nth_res_eq_Inr)
  have "write_ends j ((fd_table p)[unat i := Some f1]) = write_ends j (fd_table p)" for j
    using write_ends_update[OF i(1), of j "Some f1"] same i(2) by (simp add: same_kind_def)
  moreover have "fd_in_range n (Some f1)"
    using process_okD(7)[OF ok] i same by (metis list_all_length same_kind_def)
  then have "list_all (fd_in_range n) ((fd_table p)[unat i := Some f1])"
    using process_okD(7)[OF ok] by (auto simp: list_all_iff dest!: set_update_subset_insert[THEN subsetD])
  ultimately show ?thesis using ok by (simp add: compatible_def process_ok_def set_fd_def)
qed

lemma read_console_ok: "triple (ok_at p) (read_console n ptr) (\<lambda>_. ok_at p)"
proof (induction n arbitrary: ptr)
  case 0
  then show ?case by (simp add: rule_ret_at)
next
  case (Suc n)
  have "triple (ok_at p) (\<lambda>k. bind_res (getchar (console_in k)) (\<lambda>(c, cs). Inr (c, k\<lparr>console_in := cs\<rparr>))) (\<lambda>_. ok_at p)"
    by (auto simp: triple_def bind_res_eq_Inr)
  then show ?case unfolding read_console.simps by (rule triple_bind) (intro rule_memory Suc.IH)
qed

lemmas file_rules = triple_rules rule_file_write rule_file_read triple_bind[OF read_console_ok]

lemma sys_write_ok [triples]: "triple kernel_ok (sys_write pf i b c) (\<lambda>_. kernel_ok)"
  unfolding sys_write_def by (intro file_rules) (auto intro: compatible_set_fd)

lemma sys_read_ok [triples]: "triple kernel_ok (sys_read pf i b c) (\<lambda>_. kernel_ok)"
  unfolding sys_read_def by (intro file_rules) (auto intro: compatible_set_fd)

lemma rule_file_open:
  "(\<And>h. triple (ok_at p) (g h) Q) \<Longrightarrow> triple (ok_at p) (k_bind (file_open nm fl) g) Q"
  by (rule triple_bind[where R = "\<lambda>_. ok_at p"]) (auto simp: triple_def file_open_def bind_res_eq_Inr)

lemma sys_open_ok [triples]: "triple kernel_ok (sys_open pf path fl) (\<lambda>_. kernel_ok)"
  unfolding sys_open_def
  by (intro file_rules rule_file_open) (auto simp: compatible_def process_ok_def push_fd_def)

section \<open>Changing a table and the writer counts together\<close>

lemma kernel_ok_put_pipes:
  assumes ok: "kernel_ok k" and p: "processes k i = Some p" and p': "pid p' = i" "process_ok (length ps) p'"
    and len: "length (pipes k) \<le> length ps"
    and ps: "\<And>j. j < length ps \<Longrightarrow> ring_ok (ring (ps ! j)) \<and> write_end (ring (ps ! j)) \<and>
      writers (ps ! j) + write_ends j (fd_table p) =
        (if j < length (pipes k) then writers (pipes k ! j) else 0) + write_ends j (fd_table p')"
  shows "kernel_ok (k\<lparr>processor := pt_put_proc i p' (processor k), pipes := ps\<rparr>)"
proof -
  obtain pm where pm: "proc_manager (processor k) = Some pm" "procs pm i = Some p"
    using p by (auto simp: processes_def split: option.splits)
  note K = kernel_okD[OF ok]
  have dom: "dom ((processes k)(i \<mapsto> p')) = dom (processes k)" using p by auto
  have beyond: "open_writers j (processes k) = 0" if "length (pipes k) \<le> j" for j
    unfolding open_writers_def
  proof (rule sum.neutral, rule ballI)
    fix q assume "q \<in> dom (processes k)"
    then obtain r where r: "processes k q = Some r" by auto
    show "write_ends j (fd_table (the (processes k q))) = 0"
      using in_range_no_ends[OF process_okD(7)[OF K(3)[OF r]] that] r by simp
  qed
  have count: "writers (ps ! j) = open_writers j ((processes k)(i \<mapsto> p'))" if j: "j < length ps" for j
  proof -
    have "open_writers j ((processes k)(i \<mapsto> p')) + write_ends j (fd_table p) =
        open_writers j (processes k) + write_ends j (fd_table p')"
      using open_writers_put[OF K(1), of j i p'] p by simp
    moreover have "open_writers j (processes k) = (if j < length (pipes k) then writers (pipes k ! j) else 0)"
      using K(6) beyond by (simp add: pipes_ok_def)
    ultimately show ?thesis using ps[OF j] by simp
  qed
  note proc = processes_put(1)[OF pm(1)] processes_put(2)
  have mono: "process_ok (length ps) q" if "processes k x = Some q" for x q
    using process_ok_mono[OF K(3)[OF that] len] .
  show ?thesis
    using ok dom p' ps count mono
    by (auto simp: kernel_ok_def proc pipes_ok_def ids_below_def)
qed

lemma sys_close_ok [triples]: "triple kernel_ok (sys_close i) (\<lambda>_. kernel_ok)"
proof (rule tripleI)
  fix k a k' assume ok: "kernel_ok k" and run: "sys_close i k = Inr (a, k')"
  obtain p where cur: "pt_get_current_proc (processor k) = Inr (Some p)"
    using run by (auto simp: sys_close_def k_bind_def current_process_def k_read_def bind_res_eq_Inr)
  show "kernel_ok k'"
  proof (cases "k' = k")
    case False
    then obtain f u k1 where f: "fd_at i p = Inr (Some f)" and put: "put_process (set_fd i None p) k = Inr (u, k1)"
      and k': "k' = k1\<lparr>pipes := drop_fds [Some f] (pipes k1)\<rparr>"
      using run cur by (auto simp: sys_close_def k_bind_def current_process_def k_read_def k_lift_def k_ret_def
          k_update_def bind_res_eq_Inr split: if_splits)
    obtain q where q: "processes k q = Some p" "k1 = k\<lparr>processor := pt_put_proc q (set_fd i None p) (processor k)\<rparr>"
      using put_process_eq[OF cur put] by metis
    have i: "unat i < length (fd_table p)" "fd_table p ! unat i = Some f"
      using f by (auto simp: fd_at_def nth_res_eq_Inr)
    note P = kernel_okD(3)[OF ok q(1)]
    let ?ps = "drop_fds [Some f] (pipes k)"
    have nth: "?ps ! j = (pipes k ! j)\<lparr>writers := writers (pipes k ! j) - write_ends j [Some f]\<rparr>"
      "length ?ps = length (pipes k)" if "j < length (pipes k)" for j
      using that by (simp_all add: drop_fds_def nth_enumerate_eq)
    have enough: "write_ends j [Some f] \<le> writers (pipes k ! j)" if j: "j < length (pipes k)" for j
    proof -
      have "write_ends j [Some f] \<le> write_ends j (fd_table p)"
        using write_ends_update[OF i(1), of j None] i(2) by simp
      also have "\<dots> \<le> open_writers j (processes k)"
        using open_writers_delete[OF kernel_okD(1)[OF ok] q(1), of j] by simp
      finally show ?thesis using kernel_okD(6)[OF ok] j by (simp add: pipes_ok_def)
    qed
    have len: "length ?ps = length (pipes k)" by (simp add: drop_fds_def)
    have "kernel_ok (k\<lparr>processor := pt_put_proc q (set_fd i None p) (processor k), pipes := ?ps\<rparr>)"
    proof (rule kernel_ok_put_pipes[OF ok q(1)])
      show "pid (set_fd i None p) = q" using kernel_okD(2)[OF ok q(1)] by (simp add: set_fd_def)
      show "process_ok (length ?ps) (set_fd i None p)"
        using P by (auto simp: process_ok_def set_fd_def len list_all_iff dest!: set_update_subset_insert[THEN subsetD])
      show "length (pipes k) \<le> length ?ps" by (simp add: len)
      fix j assume "j < length ?ps"
      then have j: "j < length (pipes k)" by (simp add: len)
      have "write_ends j ((fd_table p)[unat i := None]) + write_ends j [Some f] = write_ends j (fd_table p)"
        using write_ends_update[OF i(1), of j None] i(2) by simp
      then show "ring_ok (ring (?ps ! j)) \<and> write_end (ring (?ps ! j)) \<and>
          writers (?ps ! j) + write_ends j (fd_table p) =
            (if j < length (pipes k) then writers (pipes k ! j) else 0) + write_ends j (fd_table (set_fd i None p))"
        using kernel_okD(6)[OF ok] nth(1)[OF j] enough[OF j] j by (simp add: pipes_ok_def set_fd_def)
    qed
    then show ?thesis by (simp add: k' q(2))
  qed (use ok in simp)
qed

lemma kernel_upd_swap:
  "k\<lparr>pipes := q, processor := pr\<rparr> = k\<lparr>processor := pr, pipes := q\<rparr>"
  "k\<lparr>counters := c, memory := m, pipes := q, processor := pr\<rparr> =
     k\<lparr>processor := pr, counters := c, pipes := q\<rparr>\<lparr>memory := m\<rparr>"
  by (cases k, simp)+

lemma new_pipe_ok:
  "triple (ok_at p)
     (k_bind (k_read (\<lambda>k. Inr (length (pipes k)))) (\<lambda>i.
      k_bind (k_update (\<lambda>k. Inr (k\<lparr>pipes := pipes k @ [make_pipe]\<rparr>))) (\<lambda>_.
      k_bind (put_process (push_fd (Some (PipeWrite i)) (push_fd (Some (PipeRead i)) p))) (\<lambda>_. k_ret a))))
     (\<lambda>_. kernel_ok)"
proof (rule tripleI)
  fix k b k' assume at: "ok_at p k" and run: "k_bind (k_read (\<lambda>k. Inr (length (pipes k)))) (\<lambda>i.
      k_bind (k_update (\<lambda>k. Inr (k\<lparr>pipes := pipes k @ [make_pipe]\<rparr>))) (\<lambda>_.
      k_bind (put_process (push_fd (Some (PipeWrite i)) (push_fd (Some (PipeRead i)) p))) (\<lambda>_. k_ret a))) k = Inr (b, k')"
  let ?n = "length (pipes k)" and ?ps = "pipes k @ [make_pipe]"
  let ?p = "push_fd (Some (PipeWrite ?n)) (push_fd (Some (PipeRead ?n)) p)"
  have ok: "kernel_ok k" and cur: "pt_get_current_proc (processor (k\<lparr>pipes := ?ps\<rparr>)) = Inr (Some p)"
    using at by (simp_all add: ok_at_def)
  obtain u where put: "put_process ?p (k\<lparr>pipes := ?ps\<rparr>) = Inr (u, k')"
    using run by (auto simp: k_bind_def k_read_def k_update_def k_ret_def bind_res_eq_Inr)
  obtain q where q: "processes k q = Some p" "k' = k\<lparr>processor := pt_put_proc q ?p (processor k), pipes := ?ps\<rparr>"
  proof -
    obtain q where a: "processes (k\<lparr>pipes := ?ps\<rparr>) q = Some p"
      "k' = k\<lparr>pipes := ?ps\<rparr>\<lparr>processor := pt_put_proc q ?p (processor (k\<lparr>pipes := ?ps\<rparr>))\<rparr>"
      using put_process_eq[OF cur put] by metis
    then show ?thesis using that[of q] by (simp add: kernel_upd_swap(1))
  qed
  note P = kernel_okD(3)[OF ok q(1)]
  have fds: "list_all (fd_in_range (Suc ?n)) (fd_table p)"
    using list_all_in_range_mono[OF process_okD(7)[OF P]] by simp
  have none: "write_ends ?n (fd_table p) = 0" using in_range_no_ends[OF process_okD(7)[OF P]] by simp
  show "kernel_ok k'" unfolding q(2)
  proof (rule kernel_ok_put_pipes[OF ok q(1)])
    show "pid ?p = q" using kernel_okD(2)[OF ok q(1)] by (simp add: push_fd_def)
    show "process_ok (length ?ps) ?p" using P fds by (simp add: process_ok_def push_fd_def)
    fix j assume "j < length ?ps"
    then show "ring_ok (ring (?ps ! j)) \<and> write_end (ring (?ps ! j)) \<and>
        writers (?ps ! j) + write_ends j (fd_table p) =
          (if j < length (pipes k) then writers (pipes k ! j) else 0) + write_ends j (fd_table ?p)"
      using kernel_okD(6)[OF ok] make_pipe_ok none
      by (cases "j = ?n") (auto simp: pipes_ok_def push_fd_def nth_append)
  qed simp
qed

lemma sys_pipe_ok [triples]: "triple kernel_ok (sys_pipe pf addr) (\<lambda>_. kernel_ok)"
  unfolding sys_pipe_def Let_def
  by (intro rule_current rule_option rule_ret rule_memory rule_lift new_pipe_ok)

section \<open>New processes\<close>

lemma pt_add_proc_tables:
  assumes "pt_add_proc i p par s = Inr s'"
  shows "\<exists>pm pm'. proc_manager s = Some pm \<and> proc_manager s' = Some pm' \<and> procs pm' = (procs pm)(i \<mapsto> p)"
    "manager s' = manager s"
  using assms by (auto simp: pt_add_proc_def bind_res_eq_Inr insert_proc_def)

lemma from_fork_part: "signal_part_ok s \<Longrightarrow> signal_part_ok (from_fork s)"
  by (simp add: signal_part_ok_def) (simp add: from_fork_def)

lemma process_init_ok:
  "signal_part_ok sg \<Longrightarrow> list_all (fd_in_range n) fds \<Longrightarrow> process_ok n (process_init i as fds sg)"
  by (simp add: process_ok_def process_init_def signal_part_ok_def)

lemma less_plus_1:
  fixes x :: usize
  assumes "x \<noteq> usize_max"
  shows "x < x + 1"
proof -
  have "unat x \<noteq> unat usize_max" using assms by (simp only: word_unat_eq_iff not_False_eq_True)
  moreover have "unat usize_max = 2 ^ 64 - 1" by (simp add: unsigned_minus_1_eq_mask mask_eq_exp_minus_1)
  moreover have "unat x < 2 ^ 64" using unsigned_less[of x, where ?'a = nat] by simp
  ultimately have "unat x + unat (1 :: usize) < 2 ^ LENGTH(64)" by simp
  then have "unat (x + 1) = unat x + 1" by (simp add: unat_add_lem[THEN iffD1])
  then show ?thesis by (simp add: word_less_nat_alt)
qed

lemma kernel_ok_add_process:
  assumes ok: "kernel_ok k" and add: "pt_add_proc i p par (processor k) = Inr pr"
    and i: "i = ProcId (pid_counter (counters k))" "pid_counter (counters k) \<noteq> usize_max" "pid p = i"
    and p: "process_ok (length (pipes k)) p" and c: "pid_counter c = pid_counter (counters k) + 1"
  shows "kernel_ok (k\<lparr>processor := pr, counters := c, pipes := clone_fds (fd_table p) (pipes k)\<rparr>)"
proof -
  note K = kernel_okD[OF ok]
  have fresh: "processes k i = None"
  proof (rule ccontr)
    assume "processes k i \<noteq> None"
    then have "pid_get_usize i < pid_counter (counters k)" using K(7) by (auto simp: ids_below_def)
    then show False by (simp add: i(1))
  qed
  obtain pm pm' where pm: "proc_manager (processor k) = Some pm" "proc_manager pr = Some pm'" "procs pm' = (procs pm)(i \<mapsto> p)"
    using pt_add_proc_tables(1)[OF add] by blast
  have new: "processes (k\<lparr>processor := pr\<rparr>) = (processes k)(i \<mapsto> p)" "all_threads (k\<lparr>processor := pr\<rparr>) = all_threads k"
    using pm pt_add_proc_tables(2)[OF add] by (simp_all add: processes_def all_threads_def)
  have count: "open_writers j ((processes k)(i \<mapsto> p)) = open_writers j (processes k) + write_ends j (fd_table p)" for j
    using open_writers_put[OF K(1), of j i p] fresh by simp
  have nth: "clone_fds (fd_table p) (pipes k) ! j =
      (pipes k ! j)\<lparr>writers := writers (pipes k ! j) + write_ends j (fd_table p)\<rparr>" if "j < length (pipes k)" for j
    using that by (simp add: clone_fds_def nth_enumerate_eq)
  have len: "length (clone_fds (fd_table p) (pipes k)) = length (pipes k)" by (simp add: clone_fds_def)
  have self: "pid_counter (counters k) < pid_counter (counters k) + 1"
    using i(2) by (rule less_plus_1)
  have less: "n < pid_counter (counters k) \<Longrightarrow> n < pid_counter (counters k) + 1" for n
    using self order_less_trans by blast
  have "kernel_ok (k\<lparr>processor := pr, counters := c, pipes := clone_fds (fd_table p) (pipes k)\<rparr>) \<longleftrightarrow>
      finite (dom ((processes k)(i \<mapsto> p))) \<and>
      (\<forall>q r. ((processes k)(i \<mapsto> p)) q = Some r \<longrightarrow> pid r = q \<and> process_ok (length (pipes k)) r) \<and>
      (\<forall>t th. all_threads k t = Some th \<longrightarrow> thread_ok t th) \<and> hart_idle (hart_state k) \<and>
      (\<forall>j < length (pipes k). ring_ok (ring (pipes k ! j)) \<and> write_end (ring (pipes k ! j)) \<and>
         writers (pipes k ! j) + write_ends j (fd_table p) = open_writers j ((processes k)(i \<mapsto> p))) \<and>
      (\<forall>q \<in> dom ((processes k)(i \<mapsto> p)). pid_get_usize q < pid_counter (counters k) + 1)"
    by (simp add: kernel_ok_def new pipes_ok_def ids_below_def len nth c cong: conj_cong)
  also have "\<dots>"
    using K i(3) p less self i(1)[THEN arg_cong[of _ _ pid_get_usize]] by (auto simp: pipes_ok_def ids_below_def count)
  finally show ?thesis by blast
qed

text \<open>The invariant, with an id left for a new process.\<close>

definition ok_room :: "'pt kernel \<Rightarrow> bool" where
  "ok_room k \<longleftrightarrow> kernel_ok k \<and> pid_counter (counters k) \<noteq> usize_max"

lemma main_thread_in: "main_thread i pr = Inr (t, th) \<Longrightarrow> \<exists>m. manager pr = Some m \<and> tasks m t = Some th"
  by (auto simp: main_thread_def bind_res_eq_Inr pt_get_task_def get_task_def)

lemma sys_fork_ok: "triple ok_room (sys_fork pf) (\<lambda>_. kernel_ok)"
proof (rule tripleI)
  fix k a k' assume room: "ok_room k" and run: "sys_fork pf k = Inr (a, k')"
  then have ok: "kernel_ok k" and max: "pid_counter (counters k) \<noteq> usize_max" by (simp_all add: ok_room_def)
  obtain p made k1 where cur: "pt_get_current_proc (processor k) = Inr (Some p)"
    and fork: "process_fork pf p k = Inr (made, k1)"
    using run by (auto simp: sys_fork_def k_bind_def current_process_def k_read_def bind_res_eq_Inr)
  define i where "i = ProcId (pid_counter (counters k))"
  obtain as c m th t main where made: "made = Some (process_init i as (fd_table p) (from_fork (signal p)), th)"
    and k1: "k1 = k\<lparr>counters := c, memory := m, pipes := clone_fds (fd_table p) (pipes k)\<rparr>"
    and c: "pid_counter c = pid_counter (counters k) + 1"
    and main: "main_thread (pid p) (processor k) = Inr (t, main)"
    and th: "local_ctx (task_context th) = local_ctx (task_context main)"
    using fork by (auto simp: process_fork_def bind_res_eq_Inr proc_id_new_def thread_new_def thread_id_new_def
        Let_def i_def)
  define q where "q = process_init i as (fd_table p) (from_fork (signal p))"
  have mainok: "ctx_ok (local_ctx (task_context main))"
  proof -
    have "all_threads k t = Some main" using main_thread_in[OF main] by (auto simp: all_threads_def)
    then show ?thesis using kernel_okD(4)[OF ok] by (auto simp: thread_ok_def)
  qed
  obtain ctx pr1 pr2 where steps: "ctx_set_a 0 0 (local_ctx (task_context th)) = Inr ctx"
      "pt_add_proc (pid q) q (pid p) (processor k) = Inr pr1"
      "pt_add (tid th) (set_context ctx th) (pid q) pr1 = Inr pr2"
    and k': "k' = k1\<lparr>processor := pr2\<rparr>"
    using run cur fork made
    by (auto simp: sys_fork_def k_bind_def current_process_def k_read_def k_lift_def k_ret_def update_processor_def
        on_processor_def bind_res_eq_Inr Let_def k1 q_def put_context_eq) (auto simp: set_context_def)
  have q: "pid q = i" "fd_table q = fd_table p" by (simp_all add: q_def process_init_def)
  obtain j where j: "processes k j = Some p" using current_entry[OF cur] by metis
  have qok: "process_ok (length (pipes k)) q"
    unfolding q_def
    by (intro process_init_ok from_fork_part process_signal_part process_okD(7)) (rule kernel_okD(3)[OF ok j])+
  have 1: "kernel_ok (k\<lparr>processor := pr1, counters := c, pipes := clone_fds (fd_table q) (pipes k)\<rparr>)"
    by (rule kernel_ok_add_process[OF ok _ i_def max q(1) qok c]) (use steps(2) q(1) in simp)
  have "ctx_ok ctx" using ctx_ok_set_a[OF _ steps(1)] mainok th by simp
  then have "thread_ok (tid th) (set_context ctx th)" by (simp add: thread_ok_def set_context_def)
  from kernel_ok_add_thread[OF 1 this, of "pid q" pr2] steps(3)
  have "kernel_ok (k\<lparr>processor := pr1, counters := c, pipes := clone_fds (fd_table q) (pipes k)\<rparr>\<lparr>processor := pr2\<rparr>)"
    by simp
  also have "k\<lparr>processor := pr1, counters := c, pipes := clone_fds (fd_table q) (pipes k)\<rparr>\<lparr>processor := pr2\<rparr> =
      k\<lparr>processor := pr2, counters := c, pipes := clone_fds (fd_table q) (pipes k)\<rparr>" by (cases k) simp
  finally have "kernel_ok (k\<lparr>processor := pr2, counters := c, pipes := clone_fds (fd_table p) (pipes k)\<rparr>)"
    by (simp add: q(2))
  moreover have "k' = (k\<lparr>processor := pr2, counters := c, pipes := clone_fds (fd_table p) (pipes k)\<rparr>)\<lparr>memory := m\<rparr>"
    unfolding k' k1 by (rule kernel_upd_swap(2))
  ultimately show "kernel_ok k'" by simp
qed

end
