(* ===== verification/Kernel_Safety.thy ===== *)
theory Kernel_Safety
  imports Kernel_Calls_Files
begin

text \<open>
  The invariant of \<open>Kernel_Invariant\<close> over whole turns of the scheduling loop: \<open>exec\<close>, the end
  of threads and processes, the dispatch of a call and what follows it. What user code may do is
  bounded by one hypothesis, that it leaves the number of registers as it is.
\<close>

section \<open>exec\<close>

lemma main_thread_put_proc [simp]: "main_thread i (pt_put_proc j p s) = main_thread i s"
  by (simp add: main_thread_def pt_put_proc_def pt_get_thread_def pt_get_task_def)

lemma from_elf_made:
  assumes "from_elf pf elf c m = Inr (Some (p, th), c', m')"
  shows "pid_counter c' = pid_counter c + 1" "thread_ok (tid th) th"
    "pid p = ProcId (pid_counter c)" "process_ok n p" "fd_table p = initial_fds"
proof -
  obtain ctx v e as where ctx: "ctx_set_sp v (ctx_user e) = Inr ctx" "local_ctx (task_context th) = ctx"
    and p: "p = process_init (ProcId (pid_counter c)) as initial_fds signal_impl_new"
    and c: "pid_counter c' = pid_counter c + 1"
    using assms
    by (auto simp: from_elf_def bind_res_eq_Inr thread_new_def thread_id_new_def proc_id_new_def Let_def
        split: if_splits)
  show "pid_counter c' = pid_counter c + 1" by (rule c)
  show "thread_ok (tid th) th"
    using ctx ctx_ok_set_x[of "ctx_user e"] by (simp add: ctx_set_sp_def thread_ok_def)
  show "pid p = ProcId (pid_counter c)" "process_ok n p" "fd_table p = initial_fds"
    by (simp_all add: p process_init_def process_ok_def initial_fds_def signal_impl_new_def signals_ok_def max_sig_def)
qed

lemma kernel_ok_more_ids:
  assumes room: "ok_room k" and c: "pid_counter c = pid_counter (counters k) + 1"
  shows "kernel_ok (k\<lparr>counters := c\<rparr>)"
proof -
  have "pid_counter (counters k) < pid_counter c"
    using room less_plus_1 by (simp add: c ok_room_def)
  then have "x < pid_counter (counters k) \<Longrightarrow> x < pid_counter c" for x
    using order_less_trans by blast
  then show ?thesis using room by (auto simp: ok_room_def kernel_ok_def pipes_ok_def ids_below_def)
qed

lemma process_exec_ok:
  assumes room: "ok_room k" and run: "process_exec pf i elf k = Inr k'"
  shows "kernel_ok k'"
proof -
  obtain p th c m self t old where elf: "from_elf pf elf (counters k) (memory k) = Inr (Some (p, th), c, m)"
    and self: "pt_get_proc i (processor k) = Inr (Some self)"
    and main: "main_thread (pid self) (processor k) = Inr (t, old)"
    and k': "k' = k\<lparr>counters := c, memory := m, processor := pt_put_task t (old\<lparr>task_context := task_context th\<rparr>)
      (pt_put_proc i (self\<lparr>address_space := address_space p\<rparr>) (processor k))\<rparr>"
    using run by (auto simp: process_exec_def bind_res_eq_Inr Let_def)
  note made = from_elf_made[OF elf]
  define k1 where "k1 = k\<lparr>counters := c, memory := m\<rparr>"
  have 1: "kernel_ok k1"
    using kernel_ok_more_ids[OF room made(1)] by (simp add: k1_def)
  have entry: "processes k1 i = Some self"
    using self by (auto simp: k1_def pt_get_proc_def processes_def get_proc_entry_def bind_res_eq_Inr)
  let ?self = "self\<lparr>address_space := address_space p\<rparr>"
  have comp: "compatible (length (pipes k1)) self ?self"
    using kernel_okD(3)[OF 1 entry] by (simp add: compatible_def process_ok_def)
  let ?k2 = "k1\<lparr>processor := pt_put_proc i ?self (processor k1)\<rparr>"
  have 2: "kernel_ok ?k2" by (rule kernel_ok_put_proc[OF 1 entry comp])
  have old: "all_threads ?k2 t = Some old"
    using main_thread_in[OF main] by (auto simp: pt_put_proc_def all_threads_def k1_def)
  have "thread_ok t (old\<lparr>task_context := task_context th\<rparr>)"
    using kernel_okD(4)[OF 2 old] made(2) by (simp add: thread_ok_def)
  from kernel_ok_put_task[OF 2 old this] show ?thesis by (simp add: k' k1_def)
qed

lemma ok_room_disk [simp]: "ok_room (k\<lparr>disk := s\<rparr>) = ok_room k"
  by (simp add: ok_room_def)

lemma ok_room_ok: "ok_room k \<Longrightarrow> kernel_ok k"
  by (simp add: ok_room_def)

lemma exec_file_ok: "triple ok_room (exec_file pf h) (\<lambda>_. kernel_ok)"
  unfolding exec_file_def current_id_def
  by (intro rule_read rule_lift triple_update) (rule process_exec_ok)

lemma print_apps_ok: "triple ok_room print_apps (\<lambda>_. kernel_ok)"
  unfolding print_apps_def
  by (intro rule_read rule_lift) (auto simp: triple_def print_bytes_def k_update_def ok_room_ok)

lemma sys_exec_ok: "triple ok_room (sys_exec pf path n) (\<lambda>_. kernel_ok)"
proof -
  have open_ok: "triple ok_room (file_open nm fl) (\<lambda>_. ok_room)" for nm fl
    by (auto simp: triple_def file_open_def bind_res_eq_Inr)
  have find: "triple ok_room
      (case translate pf (address_space p) path (readable_flags pf) of
         None \<Rightarrow> k_ret None
       | Some ptr \<Rightarrow> k_bind (read_memory ptr (unat n)) (\<lambda>nm. file_open nm RDONLY)) (\<lambda>_. ok_room)" for p
    unfolding read_memory_def by (intro rule_option rule_read open_ok triple_ret)
  have last: "triple ok_room (k_bind m (\<lambda>_. k_ret a)) (\<lambda>_. kernel_ok)"
    if "triple ok_room m (\<lambda>_. kernel_ok)" for m and a :: isize
    by (rule triple_bind[OF that]) (rule triple_ret)
  show ?thesis
    unfolding sys_exec_def current_process_def
    by (intro rule_read triple_bind[OF find] rule_option last print_apps_ok exec_file_ok)
qed

section \<open>The end of a thread\<close>

lemma pt_exit_tables:
  assumes run: "pt_make_current_exited e s = Inr s'" and at: "current s = Some t" "tid2pid s t = Some i"
  shows "\<exists>m m'. manager s = Some m \<and> manager s' = Some m' \<and> tasks m' = (tasks m)(t := None)"
    "proc_manager s' = proc_manager s \<or>
     (\<exists>pm pm'. proc_manager s = Some pm \<and> proc_manager s' = Some pm' \<and> procs pm' = (procs pm)(i := None))"
proof -
  have rest: "manager s4 = manager s3 \<and> (proc_manager s4 = proc_manager s3 \<or>
      (\<exists>pm pm'. proc_manager s3 = Some pm \<and> proc_manager s4 = Some pm' \<and> procs pm' = (procs pm)(i := None)))"
    if "(if b then pt_del_proc i e s3 else Inr s3) = Inr s4" for b s3 s4
    using that by (auto simp: pt_del_proc_def delete_proc_def bind_res_eq_Inr split: if_splits)
  obtain m where m: "manager s = Some m" using run at by (auto simp: pt_make_current_exited_def bind_res_eq_Inr)
  obtain b s3 s4 where 4: "(if b then pt_del_proc i e s3 else Inr s3) = Inr s4" "s' = s4\<lparr>current := None\<rparr>"
    and 3: "manager s3 = Some (delete_task t m)" "proc_manager s3 = proc_manager s"
  proof (cases "rel_map s i")
    case None
    then show ?thesis
      using run at m that[of False "s\<lparr>manager := Some (delete_task t m), tid2pid := (tid2pid s)(t := None)\<rparr>"]
      by (auto simp: pt_make_current_exited_def)
  next
    case (Some r)
    then show ?thesis
      using run at m that by (auto simp: pt_make_current_exited_def bind_res_eq_Inr Let_def simp del: if_split)
  qed
  show "\<exists>m m'. manager s = Some m \<and> manager s' = Some m' \<and> tasks m' = (tasks m)(t := None)"
    using rest[OF 4(1)] 3 4(2) m by (simp add: delete_task_def)
  show "proc_manager s' = proc_manager s \<or>
     (\<exists>pm pm'. proc_manager s = Some pm \<and> proc_manager s' = Some pm' \<and> procs pm' = (procs pm)(i := None))"
    using rest[OF 4(1)] 3 4(2) by simp
qed

lemma drop_fds_nth:
  "j < length ps \<Longrightarrow> drop_fds tab ps ! j = (ps ! j)\<lparr>writers := writers (ps ! j) - write_ends j tab\<rparr>"
  "length (drop_fds tab ps) = length ps"
  by (simp_all add: drop_fds_def nth_enumerate_eq)

text \<open>Fewer threads, and one process less with its descriptors dropped.\<close>

lemma kernel_ok_fewer_threads:
  assumes "kernel_ok k" "processes (k\<lparr>processor := pr\<rparr>) = processes k"
    "all_threads (k\<lparr>processor := pr\<rparr>) = (all_threads k)(t := None)"
  shows "kernel_ok (k\<lparr>processor := pr\<rparr>)"
  using assms by (auto simp: kernel_ok_def pipes_ok_def ids_below_def)

lemma kernel_ok_drop_process:
  assumes ok: "kernel_ok k" and p: "processes k i = Some p"
    and pr: "processes (k\<lparr>processor := pr\<rparr>) = (processes k)(i := None)"
      "all_threads (k\<lparr>processor := pr\<rparr>) = (all_threads k)(t := None)"
  shows "kernel_ok (k\<lparr>processor := pr, pipes := drop_fds (fd_table p) (pipes k)\<rparr>)"
proof -
  note K = kernel_okD[OF ok]
  have count: "open_writers j (processes k) = open_writers j ((processes k)(i := None)) + write_ends j (fd_table p)" for j
    by (rule open_writers_delete[OF K(1) p])
  show ?thesis
    using K count
    by (auto simp: kernel_ok_def pipes_ok_def ids_below_def pr drop_fds_nth)
qed

lemma exit_current_ok: "triple kernel_ok (exit_current e) (\<lambda>_. kernel_ok)"
proof (rule tripleI)
  fix k u k' assume ok: "kernel_ok k" and run: "exit_current e k = Inr (u, k')"
  show "kernel_ok k'"
  proof (cases "current (processor k)")
    case None
    then show ?thesis
      using run ok by (auto simp: exit_current_def pt_current_pid_def pt_get_current_proc_def pt_make_current_exited_def
          bind_res_eq_Inr Let_def)
  next
    case (Some t)
    obtain i pm pr where i: "tid2pid (processor k) t = Some i" and pm: "proc_manager (processor k) = Some pm"
      and pr: "pt_make_current_exited e (processor k) = Inr pr"
      using run Some by (auto simp: exit_current_def pt_current_pid_def pt_get_current_proc_def bind_res_eq_Inr)
    let ?k = "k\<lparr>processor := pr\<rparr>"
    obtain pm' where pm': "proc_manager pr = Some pm'" "procs pm' = procs pm \<or> procs pm' = (procs pm)(i := None)"
      using pt_exit_tables(2)[OF pr Some i] pm by fastforce
    have threads: "all_threads ?k = (all_threads k)(t := None)"
      using pt_exit_tables(1)[OF pr Some i] by (auto simp: all_threads_def)
    have procs: "processes k = procs pm" "processes ?k = procs pm'" using pm pm' by (simp_all add: processes_def)
    have k': "k' = (case procs pm i of
        Some p \<Rightarrow> if procs pm' i = None then ?k\<lparr>pipes := drop_fds (fd_table p) (pipes k)\<rparr> else ?k | None \<Rightarrow> ?k)"
      using run Some i pm pr pm'(1)
      by (auto simp: exit_current_def pt_current_pid_def pt_get_current_proc_def pt_get_proc_def get_proc_entry_def
          Let_def split: option.splits)
    show ?thesis
    proof (cases "procs pm i")
      case None
      then have "procs pm' = procs pm" using pm'(2) by auto
      then show ?thesis using k' None procs threads kernel_ok_fewer_threads[OF ok] by simp
    next
      case (Some p)
      show ?thesis
      proof (cases "procs pm' i = None")
        case True
        then have "procs pm' = (procs pm)(i := None)" using pm'(2) Some by auto
        then show ?thesis
          using k' Some True procs threads kernel_ok_drop_process[OF ok, of i p pr t] by simp
      next
        case False
        then have "procs pm' = procs pm" using pm'(2) by auto
        then show ?thesis using k' False Some procs threads kernel_ok_fewer_threads[OF ok] by simp
      qed
    qed
  qed
qed

section \<open>One trap\<close>

text \<open>The thread \<open>th\<close> is the running one.\<close>

definition running :: "thread \<Rightarrow> 'pt kernel \<Rightarrow> bool" where
  "running th k \<longleftrightarrow> (\<exists>t. current (processor k) = Some t \<and> all_threads k t = Some th)"

lemma running_ctx: "kernel_ok k \<Longrightarrow> running th k \<Longrightarrow> ctx_ok (local_ctx (task_context th))"
  by (auto simp: running_def thread_ok_def dest: kernel_okD(4))

lemma put_running:
  assumes ok: "kernel_ok k" and at: "running th k" and ctx: "ctx_ok ctx"
    and run: "put_thread (set_context ctx th) k = Inr (u, k')"
  shows "kernel_ok k'" "counters k' = counters k" "running (set_context ctx th) k'"
proof -
  obtain t where t: "current (processor k) = Some t" "all_threads k t = Some th" using at by (auto simp: running_def)
  then have new: "thread_ok t (set_context ctx th)"
    using ctx kernel_okD(4)[OF ok] by (auto simp: thread_ok_def set_context_def)
  have k': "k' = k\<lparr>processor := pt_put_task t (set_context ctx th) (processor k)\<rparr>"
    using run t(1) by (simp add: put_thread_def k_update_def)
  obtain m where m: "manager (processor k) = Some m" using t(2) by (auto simp: all_threads_def split: option.splits)
  show "kernel_ok k'" using kernel_ok_put_task[OF ok t(2) new] by (simp add: k')
  show "counters k' = counters k" by (simp add: k')
  have "current (processor k') = Some t" using t(1) by (simp add: k' pt_put_task_def)
  moreover have "all_threads k' t = Some (set_context ctx th)" unfolding k' threads_put(1)[OF m] by simp
  ultimately show "running (set_context ctx th) k'" by (simp add: running_def)
qed

lemma rule_running:
  assumes "\<And>th. triple (\<lambda>k. P k \<and> running th k) (f th) Q"
  shows "triple P (k_bind current_thread f) Q"
  by (rule triple_bind[OF triple_current_thread]) (use assms in \<open>simp add: running_def\<close>)

lemma triple_put_running:
  assumes "ctx_ok (local_ctx (task_context th)) \<Longrightarrow> ctx_ok ctx"
  shows "triple (\<lambda>k. kernel_ok k \<and> running th k) (put_thread (set_context ctx th)) (\<lambda>_. kernel_ok)"
    "triple (\<lambda>k. ok_room k \<and> running th k) (put_thread (set_context ctx th)) (\<lambda>_. ok_room)"
  unfolding triple_def ok_room_def
  using put_running[of _ th ctx] running_ctx[of _ th] assms by metis+

lemma set_return_ok: "triple kernel_ok (set_return r) (\<lambda>_. kernel_ok)"
  unfolding set_return_def
  by (intro rule_running rule_lift triple_put_running(1)) (auto intro: ctx_ok_set_a)

lemma suspend_current_ok: "triple kernel_ok suspend_current (\<lambda>_. kernel_ok)"
  using same_tables_ops(4) same_tables_kernel(3)
  by (fastforce simp: triple_def suspend_current_def update_processor_def on_processor_def bind_res_eq_Inr)

lemma block_current_ok: "triple kernel_ok block_current (\<lambda>_. kernel_ok)"
  using same_tables_block same_tables_kernel(3)
  by (auto simp: triple_def block_current_def update_processor_def on_processor_def bind_res_eq_Inr)

lemma finish_call_ok: "triple kernel_ok (finish_call i answer) (\<lambda>_. kernel_ok)"
proof (cases answer)
  case (Done r)
  show ?thesis unfolding finish_call_def Done syscall_result.case
    by (intro rule_if exit_current_ok triple_bind[OF set_return_ok] block_current_ok suspend_current_ok)
qed (simp add: finish_call_def exit_current_ok)

section \<open>Dispatch\<close>

lemma dispatch_ok:
  assumes "\<And>s. P s \<Longrightarrow> Q s"
    and "\<And>c calls i f. (c, calls) \<in> set tab \<Longrightarrow> (i, f) \<in> set calls \<Longrightarrow> triple P f (\<lambda>_. Q)"
  shows "triple P (dispatch tab i) (\<lambda>_. Q)"
  using assms(2)
proof (induction tab)
  case Nil
  then show ?case using assms(1) by (simp add: triple_ret)
next
  case (Cons entry tab)
  obtain c calls where e: "entry = (c, calls)" by (cases entry)
  show ?case
  proof (cases "map_of calls i")
    case None
    then show ?thesis using Cons by (auto simp: e)
  next
    case (Some f)
    then have "triple P f (\<lambda>_. Q)" using Cons.prems[of c calls i f] map_of_SomeD[OF Some] by (simp add: e)
    then show ?thesis
      using Some assms(1) by (auto simp: e container_call_def intro: triple_ret triple_bind)
  qed
qed

lemma unimplemented_ok: "triple P unimplemented Q"
  by (simp add: triple_def unimplemented_def k_lift_def k_read_def)

lemma with_room: "triple kernel_ok m Q \<Longrightarrow> triple ok_room m Q"
  unfolding triple_def ok_room_def by blast

lemmas calls_ok =
  sys_write_ok sys_read_ok sys_open_ok sys_close_ok sys_pipe_ok sys_simple_ok sys_wait_ok sys_kill_ok
  sys_sigaction_ok sys_sigprocmask_ok sys_sigreturn_ok sys_thread_create_ok sys_semaphores_ok
  sys_mutexes_ok sys_condvars_ok

lemmas all_calls_ok = sys_fork_ok sys_exec_ok unimplemented_ok calls_ok[THEN with_room]

lemma handle_ok: "triple ok_room (handle pf i a) (\<lambda>_. kernel_ok)"
  unfolding handle_def
proof (rule dispatch_ok)
  fix c calls j f assume "(c, calls) \<in> set (call_table pf a)" "(j, f) \<in> set calls"
  then show "triple ok_room f (\<lambda>_. kernel_ok)"
    by (auto simp: call_table_def io_calls_def process_calls_def signal_calls_def thread_calls_def sync_calls_def
        intro: all_calls_ok)
qed (rule ok_room_ok)

lemma system_call_ok: "triple ok_room (system_call pf) (\<lambda>_. kernel_ok)"
proof -
  have last: "triple kernel_ok
      (case r of ProcessKilled e \<Rightarrow> exit_current (scast e) | _ \<Rightarrow> finish_call i answer) (\<lambda>_. kernel_ok)" for r i answer
    by (cases r) (simp_all add: exit_current_ok finish_call_ok)
  show ?thesis
    unfolding system_call_def Let_def
    by (intro rule_running triple_bind[OF triple_put_running(2)] rule_lift rule_prod triple_bind[OF handle_ok]
        triple_bind[OF deliver_signals_ok] last) simp
qed

section \<open>Turns of the loop\<close>

text \<open>User code leaves the registers 31 in number; it may do anything else to them and to memory.\<close>

definition user_ok :: "user_code \<Rightarrow> bool" where
  "user_ok user \<longleftrightarrow> (\<forall>ctx m. ctx_ok ctx \<longrightarrow> ctx_ok (fst (snd (user ctx m))))"

lemma run_user_ok:
  assumes "user_ok user"
  shows "triple (\<lambda>k. ok_room k \<and> running th k) (run_user user th) (\<lambda>_. ok_room)"
proof (rule tripleI)
  fix k t k' assume k: "ok_room k \<and> running th k" and run: "run_user user th k = Inr (t, k')"
  obtain t' ctx m where u: "user (local_ctx (task_context th)) (memory k) = (t', ctx, m)" by (metis prod_cases3)
  have ok: "kernel_ok (k\<lparr>memory := m\<rparr>)" "running th (k\<lparr>memory := m\<rparr>)"
    using k by (simp_all add: ok_room_def running_def all_threads_def)
  have ctx: "ctx_ok ctx"
    using assms u running_ctx[of k th] k unfolding user_ok_def ok_room_def by (metis fst_conv snd_conv)
  obtain v where "put_thread (set_context ctx th) (k\<lparr>memory := m\<rparr>) = Inr (v, k')"
    using run u by (auto simp: run_user_def k_bind_def k_ret_def bind_res_eq_Inr)
  from put_running[OF ok ctx this] show "ok_room k'" using k by (simp add: ok_room_def)
qed

lemma turn_keeps_ok:
  assumes "user_ok user"
  shows "triple ok_room (turn pf user) (\<lambda>_. kernel_ok)"
proof -
  have find: "triple ok_room (on_processor pt_find_next)
      (\<lambda>f k. ok_room k \<and> (\<forall>th. f = Some th \<longrightarrow> running th k))"
  proof (rule tripleI)
    fix k f k' assume k: "ok_room k" and run: "on_processor pt_find_next k = Inr (f, k')"
    then obtain pr where pr: "pt_find_next (processor k) = Inr (f, pr)" "k' = k\<lparr>processor := pr\<rparr>"
      by (auto simp: on_processor_def bind_res_eq_Inr)
    show "ok_room k' \<and> (\<forall>th. f = Some th \<longrightarrow> running th k')"
      using k same_tables_kernel(3)[OF pt_find_next_same(1)[OF pr(1)]] pt_find_next_same(2)[OF pr(1)]
      by (fastforce simp: ok_room_def pr(2) running_def all_threads_def)
  qed
  have one: "triple ok_room (handle_trap pf t) (\<lambda>_. kernel_ok)" for t
    by (cases t) (simp_all add: handle_trap_def system_call_ok with_room[OF exit_current_ok])
  show ?thesis
    unfolding turn_def
  proof (rule triple_bind[OF find], rule rule_option)
    show "triple (\<lambda>k. ok_room k \<and> (\<forall>th. f = Some th \<longrightarrow> running th k)) (k_ret False) (\<lambda>_. kernel_ok)" for f :: "thread option"
      by (rule triple_ret) (simp add: ok_room_ok)
    fix f and th :: thread assume f: "f = Some th"
    show "triple (\<lambda>k. ok_room k \<and> (\<forall>th. f = Some th \<longrightarrow> running th k))
        (k_bind (run_user user th) (\<lambda>t. k_bind (handle_trap pf t) (\<lambda>_. k_ret True))) (\<lambda>_. kernel_ok)"
      unfolding f
      by (rule triple_weaken[OF triple_bind[OF run_user_ok[OF assms] triple_bind[OF one triple_ret]]]) auto
  qed
qed

end
