(* ===== verification/Sample_Platform.thy ===== *)
theory Sample_Platform
  imports Address_Space
begin

text \<open>
  A platform on which theorems about address spaces and about the kernel are applied: page
  tables are association lists, the allocator never gives a page twice, flags are those of Sv39.
\<close>

definition sample_vm_flags :: "string \<Rightarrow> u64" where
  "sample_vm_flags s =
     (if CHR ''V'' \<in> set s then 1 else 0) + (if CHR ''R'' \<in> set s then 2 else 0) +
     (if CHR ''W'' \<in> set s then 4 else 0) + (if CHR ''X'' \<in> set s then 8 else 0) +
     (if CHR ''U'' \<in> set s then 16 else 0)"

definition sample_platform :: "(nat \<times> pte) list platform" where
  "sample_platform =
     \<lparr>walk_to = (\<lambda>pt v. Some (case map_of pt v of None \<Rightarrow> \<lparr>pte_ppn = 0, pte_flags = 0\<rparr> | Some e \<Rightarrow> e)),
      make_tables = (\<lambda>pt _. Some pt), put_entry = (\<lambda>pt v e. (v, e) # pt), empty_table = [],
      root_entry_valid = (\<lambda>pt i. list_ex (\<lambda>(v, _). v div 2 ^ 18 mod 512 = i) pt),
      share_portal = (\<lambda>pt. pt), page_alloc = (\<lambda>k n. if n \<le> 16 then Some (100 + 16 * k) else None),
      addr_floor = (\<lambda>a. unat a div 4096), addr_ceil = (\<lambda>a. (unat a + 4095) div 4096),
      addr_offset = (\<lambda>a. unat a mod 4096), page_base = (\<lambda>v. of_nat (v * 4096)),
      root_index = (\<lambda>v. v div 2 ^ 18 mod 512), vm_flags = sample_vm_flags, parse_elf = (\<lambda>_. None)\<rparr>"

end
