(* ===== verification/Kernel_Example.thy ===== *)
theory Kernel_Example
  imports Kernel_Safety Sample_Platform
begin

text \<open>
  A small machine on which the theorems about the kernel are applied: page tables as
  association lists, an allocator that never gives a page twice, and kernels with one process.
\<close>

section \<open>Kernels\<close>

definition sample_thread :: "usize \<Rightarrow> thread" where
  "sample_thread i = \<lparr>tid = ThreadId i, task_context = \<lparr>local_ctx = ctx_user 0, satp = 0\<rparr>\<rparr>"

definition sample_process :: "(nat \<times> pte) list process" where
  "sample_process = process_init (ProcId 0) \<lparr>areas = [], page_table = [], root_ppn = 1\<rparr> initial_fds signal_impl_new"

text \<open>A kernel with the process \<open>p\<close> and its threads 0 and 1, both ready; \<open>ps\<close> are the pipes.\<close>

definition sample_kernel :: "'pt process \<Rightarrow> pipe list \<Rightarrow> 'pt kernel" where
  "sample_kernel p ps =
     \<lparr>processor = \<lparr>rel_map = [ProcId 0 \<mapsto> \<lparr>parent = ProcId (- 1), children = [], dead_children = [],
                                     threads = [ThreadId 0, ThreadId 1], dead_threads = []\<rparr>],
                   proc_manager = Some \<lparr>procs = [ProcId 0 \<mapsto> p]\<rparr>,
                   tid2pid = [ThreadId 0 \<mapsto> ProcId 0, ThreadId 1 \<mapsto> ProcId 0],
                   manager = Some \<lparr>tasks = [ThreadId 0 \<mapsto> sample_thread 0, ThreadId 1 \<mapsto> sample_thread 1],
                                  ready_queue = [ThreadId 0, ThreadId 1]\<rparr>,
                   current = None\<rparr>,
      counters = \<lparr>pid_counter = 1, tid_counter = 2, cid_counter = 0\<rparr>,
      hart_state = intr_masking_new True,
      memory = \<lparr>phys = (\<lambda>_. 0), requests = 0\<rparr>,
      pipes = ps, disk = \<lparr>blocks = (\<lambda>_. []), held = {}\<rparr>,
      file_sys = \<lparr>fs_efs = \<lparr>inode_bitmap = \<lparr>start_block_id = 1, bitmap_blocks = 1\<rparr>,
                           data_bitmap = \<lparr>start_block_id = 3, bitmap_blocks = 1\<rparr>,
                           inode_area_start_block = 2, data_area_start_block = 4\<rparr>,
                  fs_root = \<lparr>block_id = 2, block_offset = 0\<rparr>\<rparr>,
      console_out = [], console_in = [], cycles = 0\<rparr>"

text \<open>User code that makes one call with these arguments and touches nothing else.\<close>

definition calling :: "syscall_id \<Rightarrow> usize \<Rightarrow> usize \<Rightarrow> user_code" where
  "calling i a b ctx m =
     (UserEnvCall, ctx\<lparr>xs := (((xs ctx)[16 := i])[9 := a])[10 := b]\<rparr>, m)"

lemma calling_ok: "user_ok (calling i a b)"
  by (simp add: user_ok_def calling_def ctx_ok_def)

lemma sample_process_ok: "process_ok n sample_process"
  by (simp add: sample_process_def initial_fds_def process_init_def process_ok_def signal_impl_new_def signals_ok_def max_sig_def)

lemma sample_kernel_ok:
  assumes "pid p = ProcId 0" "process_ok (length ps) p"
    "\<And>i. i < length ps \<Longrightarrow> ring_ok (ring (ps ! i)) \<and> write_end (ring (ps ! i)) \<and>
       writers (ps ! i) = write_ends i (fd_table p)"
  shows "ok_room (sample_kernel p ps)"
  using assms
  by (auto simp: sample_kernel_def ok_room_def kernel_ok_def processes_def all_threads_def pipes_ok_def ids_below_def
      hart_idle_def hart_ok_def intr_masking_new_def thread_ok_def sample_thread_def open_writers_def
      split: if_splits)

section \<open>Evaluating a turn\<close>

text \<open>The equations that run a turn on a concrete kernel.\<close>

lemmas turn_eval =
  turn_def on_processor_def pt_find_next_def fetch_ready_def get_task_def run_user_def put_thread_def k_update_def
  current_thread_def current_process_def k_read_def k_lift_def k_ret_def k_bind_def handle_trap_def system_call_def
  deliver_signals_def finish_call_def set_return_def suspend_current_def update_processor_def pt_make_current_suspend_def
  pt_put_task_def pt_current_def pt_get_current_proc_def pt_current_pid_def get_proc_entry_def insert_task_def
  insert_proc_def pt_put_proc_def put_process_def set_context_def add_ready_def block_current_def
  pt_make_current_blocked_def call_args_def ctx_a_def ctx_x_def ctx_set_a_def ctx_set_x_def ctx_move_next_def
  nth_res_def update_res_def ctx_user_def Let_def may_block_def

lemmas dispatch_eval =
  handle_def call_table_def io_calls_def process_calls_def signal_calls_def thread_calls_def sync_calls_def
  container_call_def initialised_def syscall_ids

lemmas sample_eval = sample_kernel_def sample_thread_def sample_process_def process_init_def calling_def

lemma no_signal_pending:
  "handle_signals ctx signal_impl_new = Inr (NoSignal, ctx, signal_impl_new)"
  by (simp add: handle_signals_def is_handling_signal_def signal_impl_new_def fetch_signal_def find_first_one_eq
      members_def set_empty_def)

text \<open>A kernel in the middle of a turn of thread 0.\<close>

definition running_kernel :: "'pt process \<Rightarrow> 'pt kernel" where
  "running_kernel p =
     (let k = sample_kernel p [] in k\<lparr>processor := (processor k)\<lparr>current := Some (ThreadId 0)\<rparr>\<rparr>)"

lemma running_kernel_current:
  "current (processor (running_kernel p)) = Some (ThreadId 0)"
  "all_threads (running_kernel p) (ThreadId 0) = Some (sample_thread 0)"
  "pt_get_current_proc (processor (running_kernel p)) = Inr (Some p)"
  by (simp_all add: running_kernel_def sample_kernel_def all_threads_def pt_get_current_proc_def pt_current_pid_def
      get_proc_entry_def Let_def)

lemma running_kernel_ok: "pid p = ProcId 0 \<Longrightarrow> process_ok 0 p \<Longrightarrow> ok_room (running_kernel p)"
proof -
  assume p: "pid p = ProcId 0" "process_ok 0 p"
  then have "ok_room (sample_kernel p [])" by (intro sample_kernel_ok) simp_all
  then show ?thesis
    by (simp add: ok_room_def running_kernel_def Let_def kernel_ok_def processes_def all_threads_def pipes_ok_def ids_below_def
        cong: option.case_cong)
qed

end
