(* ===== verification/Kernel_Properties.thy ===== *)
theory Kernel_Properties
  imports Kernel_Example
begin

text \<open>
  What the kernel as a whole guarantees, stated over its turns and its system calls.
\<close>

section \<open>Starting\<close>

text \<open>The kernel before it has loaded a program; loading the first one establishes the invariant.\<close>

definition booting :: "'pt kernel \<Rightarrow> bool" where
  "booting k \<longleftrightarrow> processor k = pt_new \<and> counters k = id_counters_init \<and> hart_idle (hart_state k) \<and> pipes k = []"

lemma booting_ok:
  "booting k \<Longrightarrow> kernel_ok k"
  "booting k \<Longrightarrow> kernel_ok (k\<lparr>counters := c\<rparr>)"
  by (simp_all add: booting_def kernel_ok_def processes_def all_threads_def pt_new_def pipes_ok_def ids_below_def)

lemma first_process_ok:
  assumes k: "booting k" and elf: "from_elf pf elf (counters k) (memory k) = Inr (Some (p, th), c, m)"
    and run: "k_bind (update_processor (\<lambda>pr. Inr (pt_set_proc_manager proc_table_new pr))) (\<lambda>_.
         k_bind (update_processor (\<lambda>pr. Inr (pt_set_manager task_manager_new pr))) (\<lambda>_.
         k_bind (update_processor (pt_add_proc (pid p) p (ProcId usize_max))) (\<lambda>_.
           update_processor (pt_add (tid th) th (pid p))))) (k\<lparr>counters := c, memory := m\<rparr>) = Inr (u, k')"
  shows "kernel_ok k'"
proof -
  note made = from_elf_made[OF elf]
  obtain pr where k': "k' = k\<lparr>counters := c, memory := m, processor := pr\<rparr>"
    and pr: "map_option procs (proc_manager pr) = Some [pid p \<mapsto> p]" "map_option tasks (manager pr) = Some [tid th \<mapsto> th]"
    using run k
    by (auto simp: k_bind_def update_processor_def on_processor_def bind_res_eq_Inr booting_def pt_new_def
        pt_set_proc_manager_def pt_set_manager_def pt_add_proc_def pt_add_def insert_proc_def insert_task_def
        proc_table_new_def task_manager_new_def add_ready_def Let_def split: option.splits)
  have new: "processes k' = [pid p \<mapsto> p]" "all_threads k' = [tid th \<mapsto> th]"
    using pr by (auto simp: k' processes_def all_threads_def)
  show ?thesis
    using k made by (simp add: kernel_ok_def new pipes_ok_def ids_below_def) (simp add: k' booting_def id_counters_init_def)
qed

lemma load_init_ok: "triple booting (load_init pf) (\<lambda>_. kernel_ok)"
proof -
  have open_ok: "triple booting (file_open nm fl) (\<lambda>_. booting)" for nm fl
    by (auto simp: triple_def file_open_def booting_def bind_res_eq_Inr)
  have elf: "triple booting
      (k_bind (\<lambda>k. bind_res (from_elf pf elf (counters k) (memory k)) (\<lambda>(made, c, m).
               Inr (made, k\<lparr>counters := c, memory := m\<rparr>))) (\<lambda>made.
       case made of
         None \<Rightarrow> k_ret ()
       | Some (proc, th) \<Rightarrow>
           k_bind (update_processor (\<lambda>pr. Inr (pt_set_proc_manager proc_table_new pr))) (\<lambda>_.
           k_bind (update_processor (\<lambda>pr. Inr (pt_set_manager task_manager_new pr))) (\<lambda>_.
           k_bind (update_processor (pt_add_proc (pid proc) proc (ProcId usize_max))) (\<lambda>_.
             update_processor (pt_add (tid th) th (pid proc))))))) (\<lambda>_. kernel_ok)" for elf
  proof (rule tripleI, subst (asm) k_bind_def)
    fix k u k' assume k: "booting k"
      and "bind_res (bind_res (from_elf pf elf (counters k) (memory k)) (\<lambda>(made, c, m).
               Inr (made, k\<lparr>counters := c, memory := m\<rparr>))) (\<lambda>(made, k1). (case made of
         None \<Rightarrow> k_ret ()
       | Some (proc, th) \<Rightarrow>
           k_bind (update_processor (\<lambda>pr. Inr (pt_set_proc_manager proc_table_new pr))) (\<lambda>_.
           k_bind (update_processor (\<lambda>pr. Inr (pt_set_manager task_manager_new pr))) (\<lambda>_.
           k_bind (update_processor (pt_add_proc (pid proc) proc (ProcId usize_max))) (\<lambda>_.
             update_processor (pt_add (tid th) th (pid proc)))))) k1) = Inr (u, k')"
    then show "kernel_ok k'"
      using first_process_ok[OF k] booting_ok(2)[OF k]
      by (auto simp: bind_res_eq_Inr k_ret_def split: option.splits)
  qed
  show ?thesis
    unfolding load_init_def by (intro triple_bind[OF open_ok] rule_lift rule_read elf)
qed

section \<open>States the loop reaches\<close>

inductive reaches :: "'pt platform \<Rightarrow> 'pt kernel \<Rightarrow> 'pt kernel \<Rightarrow> bool" for pf where
  reaches_start: "reaches pf k k"
| reaches_turn:
    "reaches pf k k1 \<Longrightarrow> pid_counter (counters k1) \<noteq> usize_max \<Longrightarrow> user_ok user \<Longrightarrow>
     turn pf user k1 = Inr (b, k2) \<Longrightarrow> reaches pf k k2"

lemma reaches_ok: "reaches pf k k' \<Longrightarrow> kernel_ok k \<Longrightarrow> kernel_ok k'"
proof (induction rule: reaches.induct)
  case (reaches_turn k k1 user b k2)
  then have "ok_room k1" by (simp add: ok_room_def)
  from tripleD[OF turn_keeps_ok[OF reaches_turn.hyps(3)] this reaches_turn.hyps(4)] show ?case .
qed simp

section \<open>The invariant\<close>

text \<open>C5: Whatever user programs do, short of running out of process ids, the kernel stays consistent:
every turn of the scheduling loop (choosing a thread, its run in user mode, the trap, the system
call, signal delivery, the end of threads and processes) keeps the tables keyed by the ids of
their entries, descriptors within the pipes there are, no object borrowed, interrupts unmasked,
and the writer count of each pipe equal to the write ends in the tables of live processes.\<close>

theorem kernel_stays_consistent:
  assumes "kernel_ok k" "reaches pf k k'"
  shows "kernel_ok k'"
  using reaches_ok[OF assms(2,1)] .

theorem kernel_stays_consistent_witness:
  "\<exists>k' :: (nat \<times> pte) list kernel. kernel_ok k' \<and> map_option ready_queue (manager (processor k')) = Some [ThreadId 1, ThreadId 0]"
proof -
  let ?k = "sample_kernel sample_process []"
  have room: "ok_room ?k"
    by (rule sample_kernel_ok) (simp_all add: sample_process_ok, simp_all add: sample_process_def process_init_def)
  obtain k' where run: "turn sample_platform (calling id_sched_yield 0 0) ?k = Inr (True, k')"
    and q: "map_option ready_queue (manager (processor k')) = Some [ThreadId 1, ThreadId 0]"
    by (simp add: turn_eval dispatch_eval sample_eval no_signal_pending sys_sched_yield_def)
  have "reaches sample_platform ?k k'"
    using reaches_turn[OF reaches_start _ calling_ok run] room by (simp add: ok_room_def)
  from kernel_stays_consistent[OF _ this] room q show ?thesis by (auto simp: ok_room_def)
qed

text \<open>C6: In every state the loop reaches, a read of an empty pipe answers end of file (0) exactly when
no live process has a write end of it, and asks to wait (-2) otherwise; it never panics.\<close>

theorem end_of_file_iff_no_writer:
  assumes "kernel_ok k" "reaches pf k k'" "i < length (pipes k')" "pipe_bytes (ring (pipes k' ! i)) = []"
  shows "pipe_read bufs (pipes k' ! i) =
    Inr (if \<exists>q p. processes k' q = Some p \<and> Some (PipeWrite i) \<in> set (fd_table p) then - 2 else 0, bufs, pipes k' ! i)"
proof -
  have ok: "kernel_ok k'" by (rule reaches_ok[OF assms(2,1)])
  note K = kernel_okD[OF ok]
  have some: "write_ends i tab \<noteq> 0 \<longleftrightarrow> Some (PipeWrite i) \<in> set tab" for tab
  proof (induction tab)
    case (Cons f tab)
    then show ?case by (cases "(i, f)" rule: is_write_end.cases) auto
  qed simp
  have "writers (pipes k' ! i) = 0 \<longleftrightarrow> (\<forall>q \<in> dom (processes k'). write_ends i (fd_table (the (processes k' q))) = 0)"
    using K(1,6) assms(3) by (simp add: pipes_ok_def open_writers_def)
  also have "\<dots> \<longleftrightarrow> \<not> (\<exists>q p. processes k' q = Some p \<and> Some (PipeWrite i) \<in> set (fd_table p))"
    unfolding some[symmetric] by (auto simp: domIff) force
  finally show ?thesis
    using K(6) assms(3,4)
    by (auto simp: pipe_read_def all_write_ends_closed_def pipes_ok_def length_pipe_bytes[symmetric])
qed

theorem end_of_file_iff_no_writer_witness:
  "pipe_read [[0]] make_pipe = Inr (- 2, [[0]], make_pipe)"
proof -
  let ?p = "push_fd (Some (PipeWrite 0)) sample_process" and ?ps = "[make_pipe]"
  let ?k = "sample_kernel ?p ?ps"
  have P: "process_ok (length ?ps) ?p" "pid ?p = ProcId 0"
    using sample_process_ok[of 1] by (simp_all add: process_ok_def push_fd_def) (simp_all add: sample_process_def process_init_def)
  have ends: "write_ends 0 (fd_table ?p) = 1" by (simp add: push_fd_def sample_process_def process_init_def initial_fds_def)
  have ok: "kernel_ok ?k"
    by (rule ok_room_ok, rule sample_kernel_ok[OF P(2,1)]) (simp add: make_pipe_ok ends)
  have k: "pipes ?k = ?ps" "processes ?k (ProcId 0) = Some ?p" by (simp_all add: sample_kernel_def processes_def)
  have "pipe_bytes (ring (pipes ?k ! 0)) = []" by (simp add: k make_pipe_ok)
  note eof = end_of_file_iff_no_writer[OF ok reaches_start[of sample_platform] _ this, of "[[0]]"]
  have "Some (PipeWrite 0) \<in> set (fd_table ?p)" by (simp add: push_fd_def)
  then have "\<exists>q p. processes ?k q = Some p \<and> Some (PipeWrite 0) \<in> set (fd_table p)" using k(2) by blast
  then show ?thesis using eof by (simp add: k(1))
qed

section \<open>Calls that are not there\<close>

text \<open>The calls of the table whose subsystem is initialised, with and without an implementation.\<close>

definition panicking_calls :: "syscall_id list" where
  "panicking_calls = [id_linkat, id_unlinkat, id_fstat, id_spawn, id_brk, id_setpriority]"

definition served_calls :: "syscall_id list" where
  "served_calls =
     [id_write, id_read, id_openat, id_close, id_pipe2, id_exit, id_clone, id_execve, id_wait4, id_getpid,
      id_clock_gettime, id_sched_yield, id_kill, id_rt_sigaction, id_rt_sigprocmask, id_rt_sigreturn,
      id_waitid, id_gettid, id_thread_create, id_semaphore_create, id_semaphore_up, id_semaphore_down,
      id_mutex_create, id_mutex_lock, id_mutex_unlock, id_condvar_create, id_condvar_signal, id_condvar_wait,
      id_enable_deadlock_detect]"

text \<open>Six numbers the kernel knows but does not implement panic it, from any program: linkat, unlinkat,
fstat, spawn, brk and setpriority. Every other number outside the 29 it serves, mmap, munmap and
trace among them, is answered \<open>Unsupported\<close> without touching the state.\<close>

theorem calls_not_there:
  "(handle pf i a k = Inr (Unsupported j, k') \<longleftrightarrow> i \<notin> set (panicking_calls @ served_calls) \<and> j = i \<and> k' = k) \<and>
   list_all (\<lambda>c. handle pf c a k = Inl NotImplemented) panicking_calls"
proof -
  have served: "handle pf i a k \<noteq> Inr (Unsupported j, k')" if "i \<in> set (panicking_calls @ served_calls)"
    using that
    by (auto simp: panicking_calls_def served_calls_def dispatch_eval unimplemented_def k_bind_def k_lift_def k_read_def
        k_ret_def bind_res_eq_Inr)
  have other: "handle pf i a k = Inr (Unsupported i, k)" if "i \<notin> set (panicking_calls @ served_calls)"
    using that by (simp add: panicking_calls_def served_calls_def dispatch_eval k_ret_def)
  have "handle pf i a k = Inr (Unsupported j, k') \<longleftrightarrow> i \<notin> set (panicking_calls @ served_calls) \<and> j = i \<and> k' = k"
    using served other by (cases "i \<in> set (panicking_calls @ served_calls)") auto
  moreover have "list_all (\<lambda>c. handle pf c a k = Inl NotImplemented) panicking_calls"
    by (simp add: panicking_calls_def dispatch_eval unimplemented_def k_bind_def k_lift_def k_read_def)
  ultimately show ?thesis by blast
qed

section \<open>Relocking a mutex\<close>

text \<open>With deadlock detection on, locking a mutex the caller is recorded to own answers -0xDEAD and
changes nothing; the caller does not join the queue.\<close>

theorem relock_is_refused:
  assumes "current (processor k) = Some t" "all_threads k t = Some th"
    and "pt_get_current_proc (processor k) = Inr (Some p)"
    and "deadlock_detect_enabled p" "unat i < length (mutex_owners p)" "mutex_owners p ! unat i = Some (tid th)"
  shows "sys_mutex_lock i k = Inr (deadlock_code, k) \<and> sint deadlock_code = - 0xDEAD"
proof -
  have "sys_mutex_lock i k = Inr (deadlock_code, k)"
    using assms
    by (auto simp: sys_mutex_lock_def relocks_def k_bind_def k_lift_def k_read_def k_ret_def current_thread_def
        current_process_def pt_current_def all_threads_def get_task_def nth_res_def split: option.splits)
  moreover have "sint deadlock_code = - 0xDEAD" by (simp add: deadlock_code_def)
  ultimately show ?thesis by blast
qed

text \<open>Owner of mutex 0 is thread 0, which runs.\<close>

definition relock_process :: "(nat \<times> pte) list process" where
  "relock_process = sample_process\<lparr>mutex_list := [Some mutex_new], mutex_owners := [Some (ThreadId 0)],
                                  deadlock_detect_enabled := True\<rparr>"

theorem relock_is_refused_witness:
  "sys_mutex_lock 0 (running_kernel relock_process) = Inr (deadlock_code, running_kernel relock_process)"
  by (rule relock_is_refused[OF running_kernel_current, THEN conjunct1]) (simp_all add: relock_process_def sample_thread_def)

section \<open>The clock\<close>

text \<open>\<open>clock_gettime\<close> of the monotonic clock stores seconds and nanoseconds that add up to exactly 80 ns per
cycle (10000 / 125), the nanoseconds below one second, as long as the product fits 64 bits.\<close>

theorem clock_gettime_is_exact:
  assumes "pt_get_current_proc (processor k) = Inr (Some p)"
    and "translate pf (address_space p) tp (writeable_flags pf) = Some ptr"
    and "unat (cycles k) * 10000 < 2 ^ 64"
  shows "\<exists>k'. sys_clock_gettime pf clock_monotonic tp k = Inr (0, k') \<and>
    of_le_bytes (mem_read ptr 8 (memory k')) * 10 ^ 9 + of_le_bytes (mem_read (ptr + 8) 8 (memory k')) =
      unat (cycles k) * 80 \<and>
    of_le_bytes (mem_read (ptr + 8) 8 (memory k')) < 10 ^ 9"
proof -
  define t where "t = (cycles k * 10000) div 125"
  let ?s = "unat (t div 1000000000)" and ?n = "unat (t mod 1000000000)"
  let ?bs = "le_bytes 8 ?s @ le_bytes 8 ?n"
  define k' where "k' = k\<lparr>memory := mem_write ptr ?bs (memory k)\<rparr>"
  have run: "sys_clock_gettime pf clock_monotonic tp k = Inr (0, k')"
    using assms
    by (simp add: sys_clock_gettime_def k_bind_def current_process_def k_read_def clock_time_def time_bytes_def times_usize_def Let_def t_def k'_def
        write_memory_def k_update_def k_ret_def)
  have parts: "mem_read ptr 8 (memory k') = le_bytes 8 ?s" "mem_read (ptr + 8) 8 (memory k') = le_bytes 8 ?n"
    by (rule nth_equalityI; simp add: mem_read_def mem_write_def k'_def nth_append)+
  have t: "unat t = unat (cycles k) * 80"
  proof -
    have "unat (cycles k * 10000) = unat (cycles k) * 10000"
      using assms(3) by (simp add: unat_mult_lem[THEN iffD1])
    then show ?thesis by (simp add: t_def unat_div)
  qed
  have s: "?s = unat t div 10 ^ 9" "?n = unat t mod 10 ^ 9" by (simp_all add: unat_div unat_mod)
  have "of_le_bytes (le_bytes 8 ?s) = ?s" "of_le_bytes (le_bytes 8 ?n) = ?n"
    using unat_u64_less[of "t div 1000000000"] unat_u64_less[of "t mod 1000000000"]
    by (simp_all only: of_le_bytes_le_bytes) (simp_all add: mod_less)
  then have "of_le_bytes (mem_read ptr 8 (memory k')) = unat t div 10 ^ 9"
    "of_le_bytes (mem_read (ptr + 8) 8 (memory k')) = unat t mod 10 ^ 9"
    by (simp_all only: parts s)
  then have "of_le_bytes (mem_read ptr 8 (memory k')) * 10 ^ 9 + of_le_bytes (mem_read (ptr + 8) 8 (memory k')) =
      unat (cycles k) * 80" "of_le_bytes (mem_read (ptr + 8) 8 (memory k')) < 10 ^ 9"
    using t by (simp_all only: div_mult_mod_eq) simp
  with run show ?thesis by blast
qed

theorem clock_gettime_is_exact_witness:
  "\<exists>k' :: (nat \<times> pte) list kernel. of_le_bytes (mem_read (100 * 4096) 8 (memory k')) * 10 ^ 9 + of_le_bytes (mem_read (100 * 4096 + 8) 8 (memory k')) =
     (123456789012 * 80 :: nat)"
proof -
  let ?p = "sample_process\<lparr>address_space := \<lparr>areas = [], page_table = [(5, \<lparr>pte_ppn = 100, pte_flags = 7\<rparr>)], root_ppn = 1\<rparr>\<rparr>"
  let ?k = "(running_kernel ?p)\<lparr>cycles := 123456789012\<rparr>"
  have "pt_get_current_proc (processor ?k) = Inr (Some ?p)" using running_kernel_current(3)[of ?p] by simp
  moreover have "translate sample_platform (address_space ?p) (5 * 4096) (writeable_flags sample_platform) = Some (100 * 4096)"
    by (simp add: translate_def sample_platform_def writeable_flags_def sample_vm_flags_def visit_def pte_valid_def
        flags_include_def p_to_v_def)
  moreover have "unat (cycles ?k) * 10000 < 2 ^ 64" by simp
  ultimately show ?thesis
    using clock_gettime_is_exact[of ?k ?p sample_platform "5 * 4096" "100 * 4096"] by auto
qed

end
