(* ===== verification/Killed_Waiter.thy ===== *)
theory Killed_Waiter
  imports Kernel_Example
begin

text \<open>
  What becomes of a thread that a signal kills while it waits for a semaphore. The loop of
  \<open>tg-rcore-tutorial-ch8/src/main.rs\<close> handles signals after the call and before it looks at
  its answer, so a thread that \<open>semaphore_down\<close> has queued can be killed in the same turn. The
  turns are run symbolically, on any kernel, with any user code and any platform.
\<close>

section \<open>A kernel with its manager in view\<close>

definition with_manager ::
  "'pt kernel \<Rightarrow> (proc_id \<rightharpoonup> proc_thread_rel) \<Rightarrow> (proc_id \<rightharpoonup> 'pt process) \<Rightarrow> (thread_id \<rightharpoonup> proc_id) \<Rightarrow>
     (thread_id \<rightharpoonup> thread) \<Rightarrow> thread_id list \<Rightarrow> thread_id option \<Rightarrow> 'pt kernel" where
  "with_manager k rm ps t2p ts rq cur =
     k\<lparr>processor := \<lparr>rel_map = rm, proc_manager = Some \<lparr>procs = ps\<rparr>, tid2pid = t2p,
        manager = Some \<lparr>tasks = ts, ready_queue = rq\<rparr>, current = cur\<rparr>\<rparr>"

lemma with_manager_simps [simp]:
  "processes (with_manager k rm ps t2p ts rq cur) = ps"
  "all_threads (with_manager k rm ps t2p ts rq cur) = ts"
  "hart_state (with_manager k rm ps t2p ts rq cur) = hart_state k"
  "memory (with_manager k rm ps t2p ts rq cur) = memory k"
  "map_option ready_queue (manager (processor (with_manager k rm ps t2p ts rq cur))) = Some rq"
  by (simp_all add: with_manager_def processes_def all_threads_def)

lemma in_view:
  assumes "pt_ok (processor k)" "map_option ready_queue (manager (processor k)) = Some rq"
  shows "k = with_manager k (rel_map (processor k)) (processes k) (tid2pid (processor k)) (all_threads k) rq
    (current (processor k))"
proof -
  obtain pm m where p: "proc_manager (processor k) = Some pm" "manager (processor k) = Some m" "ready_queue m = rq"
    using assms by (auto simp: pt_ok_def)
  then have "processor k = \<lparr>rel_map = rel_map (processor k), proc_manager = Some \<lparr>procs = procs pm\<rparr>,
      tid2pid = tid2pid (processor k), manager = Some \<lparr>tasks = tasks m, ready_queue = rq\<rparr>,
      current = current (processor k)\<rparr>"
    by (cases "processor k"; cases pm; cases m) simp
  then show ?thesis
    using p by (cases k) (simp add: with_manager_def processes_def all_threads_def)
qed

section \<open>Pieces of a turn\<close>

lemma handle_signals_ctx:
  assumes run: "handle_signals c s = Inr (r, c', s')" and c: "ctx_ok c"
  shows "ctx_ok c'"
proof -
  have "ctx_ok d" if "ctx_set_a 0 v (ctx_set_pc w c) = Inr d" for v w d
    using ctx_ok_set_a[OF _ that] c by simp
  note set = this
  show ?thesis
  proof (cases "is_handling_signal s")
    case True
    then obtain h where "handling s = Some h" using run by (auto simp: handle_signals_def bind_res_eq_Inr)
    with True run c show ?thesis
      by (cases h) (auto simp: handle_signals_def bind_res_eq_Inr split: if_splits)
  next
    case False
    then obtain fetched s1 where "fetch_signal s = Inr (fetched, s1)"
      using run by (auto simp: handle_signals_def bind_res_eq_Inr)
    with False run c set show ?thesis
      by (cases fetched) (auto simp: handle_signals_def bind_res_eq_Inr split: if_splits option.split_asm)
  qed
qed

lemma call_args_eq:
  assumes "ctx_ok c"
  shows "call_args (ctx_move_next c) = Inr (xs c ! 16,
    \<lparr>arg0 = xs c ! 9, arg1 = xs c ! 10, arg2 = xs c ! 11, arg3 = xs c ! 12, arg4 = xs c ! 13, arg5 = xs c ! 14\<rparr>)"
  using assms by (simp add: call_args_def ctx_a_eq) (simp add: ctx_move_next_def)

lemma handle_semaphore:
  "handle pf id_semaphore_up a = k_bind (sys_semaphore_up (arg0 a)) (\<lambda>r. k_ret (Done r))"
  "handle pf id_semaphore_down a = k_bind (sys_semaphore_down (arg0 a)) (\<lambda>r. k_ret (Done r))"
  by (simp_all add: dispatch_eval)

lemma idle_guarded_eq:
  assumes "hart_idle h" "\<not> borrowed c" "f (content c) = Inr (v, x)"
  shows "\<exists>h'. guarded f c h = Inr (v, c\<lparr>content := x\<rparr>, h') \<and> hart_idle h'"
proof -
  have "hart_ok h" "nested_level h \<noteq> usize_max" using assms(1) by (auto simp: hart_idle_def)
  from guarded_eq[where f = f, OF this assms(2,3)] assms(1) show ?thesis
    by (auto simp: hart_idle_def same_masking_def)
qed

text \<open>A thread without an entity at the head of the ready queue ends the loop.\<close>

lemma dead_head_stops:
  assumes "ts t = None"
  shows "main_loop pf (user # users) (with_manager k rm ps t2p ts (t # rq) cur) =
    Inr (False, with_manager k rm ps t2p ts rq cur)"
  using assms
  by (simp add: with_manager_def turn_def on_processor_def pt_find_next_def fetch_ready_def get_task_def
      k_bind_def k_ret_def)

section \<open>The two turns\<close>

lemmas turn_steps =
  turn_def on_processor_def pt_find_next_def fetch_ready_def get_task_def run_user_def k_bind_def k_ret_def
  with_manager_def put_thread_def k_update_def pt_put_task_def insert_task_def handle_trap_def system_call_def
  current_thread_def k_read_def pt_current_def k_lift_def Let_def set_context_def handle_semaphore
  sys_semaphore_up_def sys_semaphore_down_def current_process_def pt_get_current_proc_def pt_current_pid_def
  get_proc_entry_def object_at_def nth_res_def on_hart_def put_process_def pt_put_proc_def insert_proc_def
  wake_def update_processor_def pt_re_enque_def add_ready_def deliver_signals_def

lemma not_killed:
  "(\<And>e. r \<noteq> ProcessKilled e) \<Longrightarrow> (case r of ProcessKilled e \<Rightarrow> f e | _ \<Rightarrow> g) = g"
  by (cases r) auto

text \<open>A thread that raises a semaphore puts the first of its queue, dead or alive, before itself.\<close>

lemma raising_turn:
  assumes th: "t2p u = Some q" "ps q = Some p" "ts u = Some th" and hart: "hart_idle (hart_state k)"
    and sem: "unat i < length (semaphore_list p)" "semaphore_list p ! unat i = Some c" "\<not> borrowed c"
      "sem_queue (content c) = t # ws" "sem_count (content c) \<noteq> isize_max"
    and user: "user (local_ctx (task_context th)) (memory k) = (UserEnvCall, ctx, m)" "ctx_ok ctx"
      "xs ctx ! 16 = id_semaphore_up" "xs ctx ! 9 = i"
    and sig: "handle_signals (ctx_move_next ctx) (signal p) = Inr (r, ctx', sg)" "\<And>e. r \<noteq> ProcessKilled e"
  shows "\<exists>k2 ps' th'. turn pf user (with_manager k rm ps t2p ts (u # rs) cur) =
    Inr (True, with_manager k2 rm ps' t2p (ts(u \<mapsto> th')) (rs @ [t, u]) None)"
proof -
  obtain x where x: "up_inner (content c) = Inr (Some t, x)"
    using sem(4,5) by (simp add: up_inner_def isize_inc_def)
  obtain h' where h: "semaphore_up c (hart_state k) = Inr (Some t, c\<lparr>content := x\<rparr>, h')"
    using idle_guarded_eq[where f = up_inner, OF hart sem(3) x] by (auto simp: semaphore_up_def)
  have ctx': "ctx_ok ctx'" using handle_signals_ctx[OF sig(1)] user(2) by simp
  have set: "ctx_set_a 0 0 ctx' = Inr (ctx'\<lparr>xs := (xs ctx')[9 := 0]\<rparr>)"
    using ctx_set_a_eq[OF ctx', of 0 0] by simp
  have nb: "\<not> may_block id_semaphore_up" "id_semaphore_up \<noteq> id_exit"
    by (simp_all add: may_block_def syscall_ids)
  let ?p = "p\<lparr>semaphore_list := (semaphore_list p)[unat i := Some (c\<lparr>content := x\<rparr>)], signal := sg\<rparr>"
    and ?th = "set_context (ctx'\<lparr>xs := (xs ctx')[9 := 0]\<rparr>) th"
  have "turn pf user (with_manager k rm ps t2p ts (u # rs) cur) =
    Inr (True, with_manager (k\<lparr>memory := m, hart_state := h'\<rparr>) rm (ps(q \<mapsto> ?p)) t2p (ts(u \<mapsto> ?th)) (rs @ [t, u]) None)"
    by (simp add: turn_steps th user(1) call_args_eq[OF user(2)] user(3,4) sem(1,2) h sig(1) not_killed[OF sig(2)]
        finish_call_def set_return_def set nb suspend_current_def pt_make_current_suspend_def)
  then show ?thesis by blast
qed

text \<open>
  A thread that a signal kills in the turn in which \<open>semaphore_down\<close> has queued it leaves the
  manager, and stays in the queue of the semaphore.
\<close>

lemma down_inner_blocks:
  assumes "sint (sem_count s) \<le> 0" "sem_count s \<noteq> isize_min"
  shows "down_inner t s = Inr (False, s\<lparr>sem_count := sem_count s - 1, sem_queue := sem_queue s @ [t]\<rparr>)"
proof -
  have ne: "sint (sem_count s) \<noteq> - (2 ^ 63)"
    using assms(2) sint_isize_min by (auto intro: sint_eqI)
  have "sint (sem_count s - 1) = sint (sem_count s) - 1"
    using ne assms(1) isize_range[of "sem_count s"] sint_isize_of_int[of "sint (sem_count s) - 1"] by simp
  with assms show ?thesis by (simp add: down_inner_def isize_dec_def Let_def)
qed

lemma killing_turn:
  assumes th: "t2p t = Some q" "ps q = Some p" "ts t = Some th" "tid th = t"
    and rel: "rm q = Some rl" "threads (del_thread t (scast e) rl) \<noteq> []" and hart: "hart_idle (hart_state k)"
    and sem: "unat i < length (semaphore_list p)" "semaphore_list p ! unat i = Some c" "\<not> borrowed c"
      "sint (sem_count (content c)) \<le> 0" "sem_count (content c) \<noteq> isize_min"
    and user: "user (local_ctx (task_context th)) (memory k) = (UserEnvCall, ctx, m)" "ctx_ok ctx"
      "xs ctx ! 16 = id_semaphore_down" "xs ctx ! 9 = i"
    and sig: "handle_signals (ctx_move_next ctx) (signal p) = Inr (ProcessKilled e, ctx', sg)"
  shows "\<exists>h'. hart_idle h' \<and> turn pf user (with_manager k rm ps t2p ts (t # rs) cur) =
    Inr (True, with_manager (k\<lparr>memory := m, hart_state := h'\<rparr>) (rm(q \<mapsto> del_thread t (scast e) rl))
      (ps(q \<mapsto> p\<lparr>semaphore_list := (semaphore_list p)[unat i := Some (c\<lparr>content :=
         (content c)\<lparr>sem_count := sem_count (content c) - 1, sem_queue := sem_queue (content c) @ [t]\<rparr>\<rparr>)],
         signal := sg\<rparr>)) (t2p(t := None)) (ts(t := None)) rs None)"
proof -
  let ?x = "(content c)\<lparr>sem_count := sem_count (content c) - 1, sem_queue := sem_queue (content c) @ [t]\<rparr>"
  obtain h' where h: "semaphore_down t c (hart_state k) = Inr (False, c\<lparr>content := ?x\<rparr>, h')" "hart_idle h'"
    using idle_guarded_eq[where f = "down_inner t", OF hart sem(3) down_inner_blocks[OF sem(4,5)]]
    by (auto simp: semaphore_down_def)
  show ?thesis
    by (rule exI[of _ h']) (simp add: turn_steps th user(1) call_args_eq[OF user(2)] user(3,4) sem(1,2) h sig
        exit_current_def pt_make_current_exited_def delete_task_def rel pt_get_proc_def)
qed

section \<open>The machine stops\<close>

lemma more_threads:
  assumes ok: "pt_ok pr" and t: "tid2pid pr t = Some q" and u: "tid2pid pr u = Some q" "u \<noteq> t"
  obtains rl where "rel_map pr q = Some rl" "threads (del_thread t e rl) \<noteq> []"
proof -
  have T: "threads_ok (rel_map pr) (tid2pid pr)" using ok by (simp add: pt_ok_def)
  obtain rl where rl: "rel_map pr q = Some rl" "t \<in> set (threads rl)" using threads_okD(4)[OF T t] by blast
  have "u \<in> set (threads rl)" using threads_okD(4)[OF T u(1)] rl(1) by auto
  then have "u \<in> set (threads (del_thread t e rl))"
    using del_thread_threads[OF threads_okD(1)[OF T rl(1)] rl(2), of e] u(2) by (simp add: in_set_remove1)
  with that rl(1) show ?thesis by fastforce
qed

lemma count_below:
  assumes "sint n \<le> 0" "n \<noteq> isize_min"
  shows "n - 1 \<noteq> isize_max"
proof
  assume "n - 1 = isize_max"
  then have "n = isize_max + 1" by (simp add: diff_eq_eq)
  also have "\<dots> = isize_min" by (simp add: isize_max_def isize_min_def)
  finally show False using assms(2) by simp
qed

text \<open>C12: a signal that kills a thread in the turn in which \<open>semaphore_down\<close> has queued it removes the
  thread but leaves its id in the queue of the semaphore, and the next \<open>semaphore_up\<close> puts the
  dead id back into the ready queue, before the thread that raised. When its turn comes the
  scheduler finds no task and the main loop ends, although other threads are ready: the
  machine shuts down. This is shown for every kernel in a consistent state whose next two
  threads \<open>t\<close> and \<open>u\<close> belong to one process with a semaphore at or below zero nobody waits for,
  every platform, and all user code in which \<open>t\<close> calls \<open>semaphore_down\<close> and is killed there
  and \<open>u\<close> calls \<open>semaphore_up\<close> and is not.\<close>

theorem killed_waiter_stops_the_machine:
  assumes "kernel_ok k" and "pt_ok (processor k)"
    and "map_option ready_queue (manager (processor k)) = Some (t # u # rs)" and "u \<noteq> t"
    and "all_threads k t = Some th" and "all_threads k u = Some thu"
    and "tid2pid (processor k) t = Some q" and "tid2pid (processor k) u = Some q" and "processes k q = Some p"
    and "object_at (semaphore_list p) i = Inr c" and "sem_queue (content c) = []"
    and "sint (sem_count (content c)) \<le> 0" and "sem_count (content c) \<noteq> isize_min"
    and "user1 (local_ctx (task_context th)) (memory k) = (UserEnvCall, ctx1, m1)" and "ctx_ok ctx1"
    and "xs ctx1 ! 16 = id_semaphore_down" and "xs ctx1 ! 9 = i"
    and "handle_signals (ctx_move_next ctx1) (signal p) = Inr (ProcessKilled e, ctx1', sg1)"
    and "user2 (local_ctx (task_context thu)) m1 = (UserEnvCall, ctx2, m2)" and "ctx_ok ctx2"
    and "xs ctx2 ! 16 = id_semaphore_up" and "xs ctx2 ! 9 = i"
    and "handle_signals (ctx_move_next ctx2) sg1 = Inr (r, ctx2', sg2)" and "\<And>e. r \<noteq> ProcessKilled e"
  shows "(\<exists>k2. main_loop pf [user1, user2] k = Inr (True, k2) \<and>
      map_option ready_queue (manager (processor k2)) = Some (rs @ [t, u]) \<and>
      all_threads k2 t = None \<and> all_threads k2 u \<noteq> None) \<and>
    (rs = [] \<longrightarrow> (\<exists>k3. main_loop pf (user1 # user2 # user3 # users) k = Inr (False, k3) \<and>
      map_option ready_queue (manager (processor k3)) = Some [u] \<and> all_threads k3 u \<noteq> None))"
proof -
  let ?x = "(content c)\<lparr>sem_count := sem_count (content c) - 1, sem_queue := [t]\<rparr>"
  let ?p = "p\<lparr>semaphore_list := (semaphore_list p)[unat i := Some (c\<lparr>content := ?x\<rparr>)], signal := sg1\<rparr>"
  have c: "unat i < length (semaphore_list p)" "semaphore_list p ! unat i = Some c"
    using assms(10) by (auto simp: object_at_def bind_res_eq_Inr nth_res_eq_Inr)
  have free: "\<not> borrowed c"
    using object_free[OF _ assms(10)] kernel_okD(3)[OF assms(1,9)] by (simp add: process_ok_def)
  have tid: "tid th = t" using kernel_okD(4)[OF assms(1,5)] by (simp add: thread_ok_def)
  obtain rl where rl: "rel_map (processor k) q = Some rl" "threads (del_thread t (scast e) rl) \<noteq> []"
    by (rule more_threads[OF assms(2,7,8,4)])
  note view = in_view[OF assms(2,3)]
  obtain h' where h: "hart_idle h'" and run1: "turn pf user1 k = Inr (True, with_manager (k\<lparr>memory := m1, hart_state := h'\<rparr>)
      ((rel_map (processor k))(q \<mapsto> del_thread t (scast e) rl)) ((processes k)(q \<mapsto> ?p))
      ((tid2pid (processor k))(t := None)) ((all_threads k)(t := None)) (u # rs) None)"
    using killing_turn[where k = k and rs = "u # rs" and pf = pf and t = t and user = user1 and cur = "current (processor k)"
        and rm = "rel_map (processor k)" and ps = "processes k" and t2p = "tid2pid (processor k)" and ts = "all_threads k", OF assms(7,9,5) tid rl kernel_okD(5)[OF assms(1)] c free
        assms(12-18)] unfolding view[symmetric] assms(11) append_Nil by blast
  obtain k2 ps' th' where run2: "turn pf user2 (with_manager (k\<lparr>memory := m1, hart_state := h'\<rparr>)
      ((rel_map (processor k))(q \<mapsto> del_thread t (scast e) rl)) ((processes k)(q \<mapsto> ?p))
      ((tid2pid (processor k))(t := None)) ((all_threads k)(t := None)) (u # rs) None) =
      Inr (True, with_manager k2 ((rel_map (processor k))(q \<mapsto> del_thread t (scast e) rl)) ps'
        ((tid2pid (processor k))(t := None)) ((all_threads k)(t := None, u \<mapsto> th')) (rs @ [t, u]) None)"
    using raising_turn[where user = user2 and u = u and q = q and p = ?p and th = thu and c = "c\<lparr>content := ?x\<rparr>" and t = t
        and i = i and ws = "[]" and ctx = ctx2 and m = m2 and r = r and ctx' = ctx2' and sg = sg2 and rs = rs and pf = pf
        and k = "k\<lparr>memory := m1, hart_state := h'\<rparr>" and ps = "(processes k)(q \<mapsto> ?p)"
        and t2p = "(tid2pid (processor k))(t := None)" and ts = "(all_threads k)(t := None)" and cur = None
        and rm = "(rel_map (processor k))(q \<mapsto> del_thread t (scast e) rl)"]
      assms(4,6,8,19-24) c free h count_below[OF assms(12,13)] by auto
  define ts where "ts = (all_threads k)(t := None, u \<mapsto> th')"
  have ts: "ts t = None" "ts u \<noteq> None" using assms(4) by (simp_all add: ts_def)
  have loop: "main_loop pf (user1 # user2 # us) k = main_loop pf us (with_manager k2
      ((rel_map (processor k))(q \<mapsto> del_thread t (scast e) rl)) ps' ((tid2pid (processor k))(t := None)) ts (rs @ [t, u]) None)" for us
    by (simp add: k_bind_def run1 run2 ts_def)
  have stop: "main_loop pf (user3 # users) (with_manager k2 rm ps' t2p ts [t, u] None) =
      Inr (False, with_manager k2 rm ps' t2p ts [u] None)" for rm t2p
    by (rule dead_head_stops) (rule ts(1))
  show ?thesis
    unfolding loop using ts stop by (auto simp: k_ret_def simp del: map_option_eq_Some main_loop.simps(2))
qed

text \<open>A process whose thread 0 is about to block on semaphore 0, with SIGKILL pending.\<close>

definition doomed_process :: "(nat \<times> pte) list process" where
  "doomed_process = sample_process\<lparr>semaphore_list := [Some (semaphore_new 0)],
     signal := signal_impl_new\<lparr>received := 512\<rparr>\<rparr>"

lemma kill_pending:
  "handle_signals ctx (signal_impl_new\<lparr>received := 512\<rparr>) = Inr (ProcessKilled (- 9), ctx, signal_impl_new)"
proof -
  have "members (2 ^ 9) = {9}"
    unfolding members_def bit_exp_iff possible_bit_def by auto
  then have m: "members 512 = {9}" by simp
  have "remove_bit 9 512 = Inr set_empty" by (simp add: remove_bit_def set_empty_def)
  moreover have "signal_from_usize 9 = SIGKILL" using signal_from_code[of SIGKILL] by (simp add: signal_code_def signal_list_def)
  moreover have "members set_empty = {}" by (simp add: members_def set_empty_def)
  ultimately show ?thesis
    by (simp add: handle_signals_def is_handling_signal_def signal_impl_new_def fetch_signal_def find_first_one_eq m
        signal_code_def signal_list_def)
qed

lemma sample_manager_ok: "pt_ok (processor (sample_kernel p ps))"
proof -
  have "(- 1 :: usize) \<noteq> 0" by simp
  then show ?thesis
    by (auto simp: sample_kernel_def pt_ok_def family_ok_def threads_ok_def threads_wf_def children_wf_def
        family_wf_def tasks_ok_def split: if_splits)
qed

theorem killed_waiter_stops_the_machine_witness:
  "\<exists>k3. main_loop sample_platform [calling id_semaphore_down 0 0, calling id_semaphore_up 0 0, calling id_sched_yield 0 0]
         (sample_kernel doomed_process []) = Inr (False, k3) \<and>
     map_option ready_queue (manager (processor k3)) = Some [ThreadId 1] \<and> all_threads k3 (ThreadId 1) \<noteq> None"
proof -
  let ?k = "sample_kernel doomed_process []" and ?c = "semaphore_new 0"
    and ?call = "\<lambda>i. (ctx_user 0)\<lparr>xs := (((xs (ctx_user 0))[16 := i])[9 := 0])[10 := 0]\<rparr>"
  have "ok_room ?k"
    by (rule sample_kernel_ok) (use sample_process_ok[of 0] in \<open>simp_all add: doomed_process_def process_ok_def
        sample_process_def process_init_def cells_free_def semaphore_new_def up_cell_new_def signals_ok_def
        signal_impl_new_def\<close>)
  then have ok: "kernel_ok ?k" by (simp add: ok_room_def)
  have threads: "all_threads ?k (ThreadId 0) = Some (sample_thread 0)" "all_threads ?k (ThreadId 1) = Some (sample_thread 1)"
    "tid2pid (processor ?k) (ThreadId 0) = Some (ProcId 0)" "tid2pid (processor ?k) (ThreadId 1) = Some (ProcId 0)"
    "processes ?k (ProcId 0) = Some doomed_process"
    "map_option ready_queue (manager (processor ?k)) = Some [ThreadId 0, ThreadId 1]"
    by (simp_all add: sample_kernel_def all_threads_def processes_def)
  have sem: "object_at (semaphore_list doomed_process) 0 = Inr ?c" "sem_queue (content ?c) = []"
    "sint (sem_count (content ?c)) \<le> 0" "sem_count (content ?c) \<noteq> isize_min"
    by (simp_all add: doomed_process_def object_at_def nth_res_def semaphore_new_def up_cell_new_def isize_min_def)
  have ctx: "calling n 0 0 (local_ctx (task_context (sample_thread j))) m = (UserEnvCall, ?call n, m)" "ctx_ok (?call n)"
    "xs (?call n) ! 16 = n" "xs (?call n) ! 9 = 0" for n j m
    by (simp_all add: calling_def sample_thread_def ctx_ok_def ctx_user_def)
  have kill: "handle_signals ctx (signal doomed_process) = Inr (ProcessKilled (- 9), ctx, signal_impl_new)" for ctx
    by (simp add: doomed_process_def kill_pending)
  show ?thesis
    using killed_waiter_stops_the_machine[where ?user1.0 = "calling id_semaphore_down 0 0"
        and ?user2.0 = "calling id_semaphore_up 0 0", OF ok sample_manager_ok threads(6) _ threads(1,2,3,4,5) sem ctx(1,2,3,4) kill
        ctx(1,2,3,4) no_signal_pending, where pf = sample_platform and ?user3.0 = "calling id_sched_yield 0 0" and users = "[]"]
    by (simp del: main_loop.simps map_option_eq_Some)
qed

end
