(* ===== verification/Call_Properties.thy ===== *)
theory Call_Properties
  imports Kernel_Example
begin

text \<open>
  What single system calls do: \<open>fork\<close>, the search for a thread's stack, the ids of new
  synchronisation objects, paths read from user memory.
\<close>

section \<open>fork\<close>

lemma pt_add_queue:
  assumes "pt_add t th i s = Inr s'"
  shows "map_option ready_queue (manager s') = map_option (\<lambda>m. ready_queue m @ [t]) (manager s)"
  using assms by (auto simp: pt_add_def bind_res_eq_Inr Let_def add_ready_def insert_task_def split: option.splits)

lemma fork_facts:
  assumes "ok_room k" and cur: "pt_get_current_proc (processor k) = Inr (Some p)"
    and main: "main_thread (pid p) (processor k) = Inr (t0, main)"
    and run: "sys_fork pf k = Inr (r, k')"
  shows "r = pid_counter (counters k)" "processes k (ProcId r) = None"
    "\<exists>child. processes k' = (processes k)(ProcId r \<mapsto> child) \<and> pid child = ProcId r \<and> fd_table child = fd_table p \<and>
       signal child = (signal p)\<lparr>received := set_empty, handling := None\<rparr> \<and>
       semaphore_list child = [] \<and> mutex_list child = [] \<and> condvar_list child = []"
    "\<exists>th ctx. all_threads k' = (all_threads k)(ThreadId (tid_counter (counters k)) \<mapsto> th) \<and>
       tid th = ThreadId (tid_counter (counters k)) \<and> local_ctx (task_context th) = ctx \<and>
       ctx = (local_ctx (task_context main))\<lparr>xs := (xs (local_ctx (task_context main)))[9 := 0]\<rparr>"
    "map_option ready_queue (manager (processor k')) =
       map_option (\<lambda>m. ready_queue m @ [ThreadId (tid_counter (counters k))]) (manager (processor k))"
    "map writers (pipes k') = map (\<lambda>i. writers (pipes k ! i) + write_ends i (fd_table p)) [0..<length (pipes k)]"
proof -
  define i where "i = ProcId (pid_counter (counters k))"
  define t where "t = ThreadId (tid_counter (counters k))"
  obtain made k1 where fork: "process_fork pf p k = Inr (made, k1)"
    using run cur by (auto simp: sys_fork_def k_bind_def current_process_def k_read_def bind_res_eq_Inr)
  obtain as c m th where made: "made = Some (process_init i as (fd_table p) (from_fork (signal p)), th)"
    and k1: "k1 = k\<lparr>counters := c, memory := m, pipes := clone_fds (fd_table p) (pipes k)\<rparr>"
    and th: "tid th = t" "local_ctx (task_context th) = local_ctx (task_context main)"
    using fork main by (auto simp: process_fork_def bind_res_eq_Inr proc_id_new_def thread_new_def thread_id_new_def
        Let_def i_def t_def)
  define q where "q = process_init i as (fd_table p) (from_fork (signal p))"
  obtain ctx pr1 pr2 where ctx: "ctx_set_a 0 0 (local_ctx (task_context th)) = Inr ctx"
    and add: "pt_add_proc (pid q) q (pid p) (processor k) = Inr pr1"
      "pt_add (tid th) (set_context ctx th) (pid q) pr1 = Inr pr2"
    and k': "k' = k1\<lparr>processor := pr2\<rparr>" and r: "r = pid_get_usize (pid q)"
    using run cur fork made
    by (auto simp: sys_fork_def k_bind_def current_process_def k_read_def k_lift_def k_ret_def update_processor_def
        on_processor_def bind_res_eq_Inr Let_def k1 q_def put_context_eq) (auto simp: set_context_def)
  have pidq: "pid q = i" by (simp add: q_def process_init_def)
  show "r = pid_counter (counters k)" by (simp add: r pidq i_def)
  then have i: "ProcId r = i" by (simp add: i_def)
  show "processes k (ProcId r) = None"
  proof (rule ccontr)
    assume "processes k (ProcId r) \<noteq> None"
    then have "i \<in> dom (processes k)" by (auto simp: i)
    then have "pid_get_usize i < pid_counter (counters k)"
      using kernel_okD(7)[OF ok_room_ok[OF assms(1)]] by (auto simp: ids_below_def)
    then show False by (simp add: i_def)
  qed
  obtain pm pm' where pm: "proc_manager (processor k) = Some pm" "proc_manager pr1 = Some pm'" "procs pm' = (procs pm)(i \<mapsto> q)"
    using pt_add_proc_tables(1)[OF add(1)] pidq by auto
  have procs: "processes k' = (processes k)(i \<mapsto> q)"
    using pm pt_add_tables(1)[OF add(2)] by (simp add: k' processes_def)
  show "\<exists>child. processes k' = (processes k)(ProcId r \<mapsto> child) \<and> pid child = ProcId r \<and> fd_table child = fd_table p \<and>
       signal child = (signal p)\<lparr>received := set_empty, handling := None\<rparr> \<and>
       semaphore_list child = [] \<and> mutex_list child = [] \<and> condvar_list child = []"
    using procs i by (intro exI[of _ q]) (simp add: q_def process_init_def from_fork_def)
  have new_ctx: "ctx = (local_ctx (task_context main))\<lparr>xs := (xs (local_ctx (task_context main)))[9 := 0]\<rparr>"
    using ctx th(2) by (auto simp: ctx_set_a_def ctx_set_x_def update_res_eq_Inr bind_res_eq_Inr)
  show "\<exists>th ctx. all_threads k' = (all_threads k)(ThreadId (tid_counter (counters k)) \<mapsto> th) \<and>
       tid th = ThreadId (tid_counter (counters k)) \<and> local_ctx (task_context th) = ctx \<and>
       ctx = (local_ctx (task_context main))\<lparr>xs := (xs (local_ctx (task_context main)))[9 := 0]\<rparr>"
    using pt_add_tables(2)[OF add(2)] pt_add_proc_tables(2)[OF add(1)] th(1) new_ctx
    by (intro exI[of _ "set_context ctx th"]) (auto simp: all_threads_def k' t_def set_context_def)
  show "map_option ready_queue (manager (processor k')) =
       map_option (\<lambda>m. ready_queue m @ [ThreadId (tid_counter (counters k))]) (manager (processor k))"
    using pt_add_queue[OF add(2)] pt_add_proc_tables(2)[OF add(1)] th(1) by (simp add: k' t_def)
  show "map writers (pipes k') = map (\<lambda>i. writers (pipes k ! i) + write_ends i (fd_table p)) [0..<length (pipes k)]"
    by (rule nth_equalityI) (simp_all add: k' k1 clone_fds_def nth_enumerate_eq)
qed

text \<open>C11: A \<open>fork\<close> that returns answers the id of one new process: it has its parent's descriptors, signal mask
and actions, no pending signal and no synchronisation objects. Its only thread is new, has the
registers of the parent's main thread except for \<open>a0 = 0\<close>, and is queued. No other process or
thread changes, and each pipe counts the copied write ends.\<close>

theorem fork_makes_a_child:
  assumes "ok_room k" "pt_get_current_proc (processor k) = Inr (Some p)"
    and "main_thread (pid p) (processor k) = Inr (t0, main)" "sys_fork pf k = Inr (r, k')"
  shows "r = pid_counter (counters k) \<and> processes k (ProcId r) = None \<and>
    (\<exists>child. processes k' = (processes k)(ProcId r \<mapsto> child) \<and> pid child = ProcId r \<and> fd_table child = fd_table p \<and>
       signal child = (signal p)\<lparr>received := set_empty, handling := None\<rparr> \<and>
       semaphore_list child = [] \<and> mutex_list child = [] \<and> condvar_list child = []) \<and>
    (\<exists>th ctx. all_threads k' = (all_threads k)(ThreadId (tid_counter (counters k)) \<mapsto> th) \<and>
       tid th = ThreadId (tid_counter (counters k)) \<and> local_ctx (task_context th) = ctx \<and>
       ctx = (local_ctx (task_context main))\<lparr>xs := (xs (local_ctx (task_context main)))[9 := 0]\<rparr>) \<and>
    map_option ready_queue (manager (processor k')) =
       map_option (\<lambda>m. ready_queue m @ [ThreadId (tid_counter (counters k))]) (manager (processor k)) \<and>
    map writers (pipes k') = map (\<lambda>i. writers (pipes k ! i) + write_ends i (fd_table p)) [0..<length (pipes k)]"
  by (intro conjI) (rule fork_facts[OF assms])+

theorem fork_makes_a_child_witness:
  "\<exists>k' child. sys_fork sample_platform (running_kernel sample_process) = Inr (1, k') \<and>
     processes k' (ProcId 1) = Some child \<and> fd_table child = initial_fds \<and>
     map_option ready_queue (manager (processor k')) = Some [ThreadId 0, ThreadId 1, ThreadId 2]"
proof -
  let ?k = "running_kernel sample_process"
  have room: "ok_room ?k" by (rule running_kernel_ok) (simp_all add: sample_process_ok, simp_all add: sample_eval)
  have main: "main_thread (pid sample_process) (processor ?k) = Inr (ThreadId 0, sample_thread 0)"
    by (simp add: main_thread_def running_kernel_def sample_kernel_def sample_process_def process_init_def pt_get_thread_def
        pt_get_task_def get_task_def nth_res_def Let_def)
  obtain r k' where run: "sys_fork sample_platform ?k = Inr (r, k')"
    by (simp add: sys_fork_def process_fork_def main_thread_def pt_get_thread_def pt_get_task_def running_kernel_def
        sample_eval turn_eval proc_id_new_def thread_new_def thread_id_new_def space_new_def alloc_pages_def
        sample_platform_def cloneself_def map_portal_def pt_add_proc_def pt_add_def)
  note F = fork_makes_a_child[OF room running_kernel_current(3) main run]
  show ?thesis
    using F run by (auto simp: running_kernel_def sample_eval Let_def)
qed

section \<open>Stacks of threads\<close>

lemma find_map: "find P (map f ys) = map_option f (find (P \<circ> f) ys)"
  by (induction ys) simp_all

lemma find_upt_Suc: "find P [0..<Suc n] = (if P 0 then Some 0 else map_option Suc (find (P \<circ> Suc) [0..<n]))"
proof -
  have "[0..<Suc n] = 0 # map Suc [0..<n]" by (simp add: map_Suc_upt upt_conv_Cons del: upt_Suc)
  then show ?thesis by (simp add: find_map del: upt_Suc)
qed

text \<open>The search for the stack of a new thread always ends: it answers the first of the candidates
\<open>start\<close>, \<open>start - 3\<close>, \<open>start - 6\<close>, ... whose root entry is free, and panics with an overflow only when
every candidate is taken.\<close>

theorem find_stack_first_free:
  "find_stack pf pt start =
     (case find (\<lambda>j. \<not> root_entry_valid pf pt (root_index pf (start - 3 * j))) [0..<Suc (start div 3)] of
        Some j \<Rightarrow> Inr (start - 3 * j)
      | None \<Rightarrow> Inl ArithOverflow)"
proof (induction start rule: less_induct)
  case (less start)
  let ?taken = "root_entry_valid pf pt (root_index pf start)"
  show ?case
  proof (cases "?taken \<and> 3 \<le> start")
    case True
    then have "find_stack pf pt start = find_stack pf pt (start - 3)" by (subst find_stack.simps) simp
    moreover have "start div 3 = Suc ((start - 3) div 3)" using True by linarith
    ultimately show ?thesis
      using True less[of "start - 3"]
      by (simp add: find_upt_Suc[of _ "Suc ((start - 3) div 3)"] comp_def del: upt_Suc split: option.splits)
  next
    case False
    then show ?thesis by (subst find_stack.simps) (auto simp: find_upt_Suc simp del: upt_Suc)
  qed
qed

section \<open>Ids of synchronisation objects\<close>

lemma place_object_eq:
  assumes "place_object (Some c) objs = (i, objs')"
  shows "i \<le> length objs" "objs' = (if i < length objs then objs[i := Some c] else objs @ [Some c])"
    "None \<notin> set (take i objs)" "i < length objs \<Longrightarrow> objs ! i = None"
proof -
  have all: "i \<le> length objs \<and> objs' = (if i < length objs then objs[i := Some c] else objs @ [Some c]) \<and>
      None \<notin> set (take i objs) \<and> (i < length objs \<longrightarrow> objs ! i = None)"
  proof (cases "free_slot objs")
    case None
    then have "None \<notin> set objs" by (auto simp: free_slot_def find_index_None_iff)
    then show ?thesis using assms None by (auto simp: place_object_def)
  next
    case (Some j)
    note j = find_index_SomeD[OF Some[unfolded free_slot_def]]
    then show ?thesis using assms Some by (auto simp: place_object_def in_set_conv_nth)
  qed
  then show "i \<le> length objs" "objs' = (if i < length objs then objs[i := Some c] else objs @ [Some c])"
    "None \<notin> set (take i objs)" "i < length objs \<Longrightarrow> objs ! i = None" by simp_all
qed

text \<open>\<open>semaphore_create\<close> answers the lowest id without a semaphore, extending the list when there is none,
and puts a semaphore with the given count there; all other semaphores stay in place.\<close>

theorem semaphore_create_takes_lowest_slot:
  assumes cur: "pt_get_current_proc (processor k) = Inr (Some p)"
  shows "\<exists>i k'. sys_semaphore_create n k = Inr (of_nat i, k') \<and>
    None \<notin> set (take i (semaphore_list p)) \<and>
    (i = length (semaphore_list p) \<or> i < length (semaphore_list p) \<and> semaphore_list p ! i = None) \<and>
    pt_get_current_proc (processor k') = Inr (Some (p\<lparr>semaphore_list :=
      take i (semaphore_list p) @ [Some (semaphore_new n)] @ drop (Suc i) (semaphore_list p)\<rparr>))"
proof -
  obtain i l where place: "place_object (Some (semaphore_new n)) (semaphore_list p) = (i, l)" by fastforce
  note P = place_object_eq[OF place]
  have l: "l = take i (semaphore_list p) @ [Some (semaphore_new n)] @ drop (Suc i) (semaphore_list p)"
    using P(1,2) by (auto simp: upd_conv_take_nth_drop)
  obtain j t pm where c: "pt_current_pid (processor k) = Inr (Some j)" "proc_manager (processor k) = Some pm"
    "current (processor k) = Some t" "tid2pid (processor k) t = Some j"
    using current_entry[OF cur] by metis
  obtain k' where put: "put_process (p\<lparr>semaphore_list := l\<rparr>) k = Inr ((), k')"
    using c by (simp add: put_process_def k_update_def)
  obtain j' where "pt_get_current_proc (processor k') = Inr (Some (p\<lparr>semaphore_list := l\<rparr>))"
    using put_process_eq[OF cur put] by metis
  moreover have "sys_semaphore_create n k = Inr (of_nat i, k')"
    using cur put by (simp add: sys_semaphore_create_def k_bind_def current_process_def k_read_def place k_ret_def)
  ultimately show ?thesis using P l by (intro exI[of _ i] exI[of _ k']) auto
qed

theorem semaphore_create_takes_lowest_slot_witness:
  "\<exists>k' p'. sys_semaphore_create 5 (running_kernel (sample_process\<lparr>semaphore_list := [Some (semaphore_new 1), None, None]\<rparr>)) =
       Inr (1, k') \<and>
     pt_get_current_proc (processor k') = Inr (Some p') \<and>
     semaphore_list p' = [Some (semaphore_new 1), Some (semaphore_new 5), None]"
proof -
  let ?p = "sample_process\<lparr>semaphore_list := [Some (semaphore_new 1), None, None]\<rparr>"
  obtain i k' where i: "sys_semaphore_create 5 (running_kernel ?p) = Inr (of_nat i, k')"
    "None \<notin> set (take i (semaphore_list ?p))"
    "i = length (semaphore_list ?p) \<or> i < length (semaphore_list ?p) \<and> semaphore_list ?p ! i = None"
    and k': "pt_get_current_proc (processor k') = Inr (Some (?p\<lparr>semaphore_list :=
      take i (semaphore_list ?p) @ [Some (semaphore_new 5)] @ drop (Suc i) (semaphore_list ?p)\<rparr>))"
    using semaphore_create_takes_lowest_slot[OF running_kernel_current(3)[of ?p], of 5] by blast
  have "i = 1"
  proof -
    have "i = 0 \<or> i = 1 \<or> i = 2 \<or> i = 3" using i(3) by auto
    then show ?thesis using i(2,3) by (auto simp: numeral_2_eq_2 numeral_3_eq_3)
  qed
  then show ?thesis using i(1) k' by auto
qed

section \<open>Paths in user memory\<close>

text \<open>\<open>open\<close> reads its path as a string: valid UTF-8 without a zero byte, of any length.\<close>

lemma continuation_byte: "in_range 0x80 0xBF (128 OR (c AND 63))"
proof -
  have "128 AND (c AND 63) = (128 AND 63) AND c" by (simp only: ac_simps)
  then have "128 AND (c AND 63) = 0" by simp
  then have e: "128 OR (c AND 63) = 128 + (c AND 63)" using word_plus_and_or[of 128 "c AND 63"] by simp
  have le: "unat (c AND 63) \<le> 63" using word_and_le1[of c 63] by (simp add: word_le_nat_alt)
  then have "unat (128 + (c AND 63)) = 128 + unat (c AND 63)" by (subst unat_add_lem[THEN iffD1]) simp_all
  then show ?thesis using le unfolding e by (simp add: in_range_def word_le_nat_alt)
qed

lemma char_utf8_valid:
  assumes "c \<noteq> 0"
  shows "utf8_valid (char_utf8 c @ cs) = utf8_valid cs \<and> 0 \<notin> set (char_utf8 c)"
proof (cases "c < 128")
  case True
  then show ?thesis using assms by (simp add: char_utf8_def)
next
  case False
  let ?a = "192 OR drop_bit 6 c" and ?b = "128 OR (c AND 63)"
  have "unat (drop_bit 6 c) = unat c div 64" by (simp add: unat_drop_bit_eq drop_bit_eq_div unat_div)
  moreover have "128 \<le> unat c" "unat c < 256"
    using False unsigned_less[of c, where ?'a = nat] by (simp_all add: word_less_nat_alt)
  then have "unat c div 64 = 2 \<or> unat c div 64 = 3" by linarith
  ultimately have "drop_bit 6 c = 2 \<or> drop_bit 6 c = 3" by (auto simp: word_unat_eq_iff)
  then have a: "in_range 0xC2 0xDF ?a \<and> \<not> ?a < 0x80 \<and> ?a \<noteq> 0" by (auto simp: in_range_def)
  have b: "?b \<noteq> 0" using continuation_byte[of c] by (auto simp: in_range_def)
  show ?thesis using False a b continuation_byte[of c] by (simp add: char_utf8_def)
qed

lemma path_is_text:
  "c_string ptr m = Inr cs \<Longrightarrow> utf8_valid cs \<and> 0 \<notin> set cs"
proof (induction ptr m arbitrary: cs rule: c_string.induct)
  case (1 ptr m)
  from "1.prems" show ?case
    using "1.IH" char_utf8_valid[of "phys m ptr"] 
    by (subst (asm) c_string.simps) (auto simp: bind_res_eq_Inr split: if_splits)
qed
lemma mem_read_Suc: "mem_read ptr (Suc n) m = phys m ptr # mem_read (ptr + 1) n m"
  by (simp add: mem_read_def upt_conv_Cons map_Suc_upt[symmetric] comp_def del: upt_Suc)

lemma c_string_eq:
  "mem_read ptr (length bs + 1) m = bs @ [0] \<Longrightarrow> 0 \<notin> set bs \<Longrightarrow> ptr + length bs < 2 ^ 64 \<Longrightarrow>
     c_string ptr m = Inr (concat (map char_utf8 bs))"
proof (induction bs arbitrary: ptr)
  case Nil
  then show ?case by (subst c_string.simps) (simp add: mem_read_def)
next
  case (Cons b bs)
  have "phys m ptr = b" "mem_read (ptr + 1) (length bs + 1) m = bs @ [0]"
    using Cons.prems(1) by (simp_all add: mem_read_Suc)
  then show ?case
    using Cons.IH[of "ptr + 1"] Cons.prems by (subst c_string.simps) auto
qed

text \<open>A path that \<open>open\<close> reads from user memory is the bytes up to the first zero; the loop ends there. Bytes
below 128 are taken as they are (others become two-byte characters).\<close>

theorem path_is_read_to_its_zero:
  assumes "mem_read ptr (length bs + 1) m = bs @ [0]" "list_all (\<lambda>b. 0 < b \<and> b < 128) bs"
    and "ptr + length bs < 2 ^ 64"
  shows "c_string ptr m = Inr bs"
proof -
  have "concat (map char_utf8 bs) = bs" using assms(2) by (induction bs) (simp_all add: char_utf8_def)
  moreover have "0 \<notin> set bs" using assms(2) by (auto simp: list_all_iff)
  ultimately show ?thesis using c_string_eq[OF assms(1) _ assms(3)] by simp
qed

theorem path_is_read_to_its_zero_witness:
  "c_string 4096 (mem_write 4096 (init_name @ [0]) \<lparr>phys = (\<lambda>_. 255), requests = 0\<rparr>) = Inr init_name"
proof (rule path_is_read_to_its_zero)
  show "mem_read 4096 (length init_name + 1) (mem_write 4096 (init_name @ [0]) \<lparr>phys = (\<lambda>_. 255), requests = 0\<rparr>) = init_name @ [0]"
    using mem_read_write_same[of 4096 "init_name @ [0]"] by simp
qed (simp_all add: init_name_def)

end
