(* ===== verification/File_Properties.thy ===== *)
theory File_Properties
  imports Kernel_Files Vfs_Files
begin

text \<open>
  Files as the kernel sees them: reading a whole file (\<open>read_all\<close>, which \<open>exec\<close> uses to load
  programs), and reading through a handle with an offset.
\<close>

lemma overwrite_prefix: "length cs \<le> length b \<Longrightarrow> overwrite 0 cs b = cs @ drop (length cs) b"
  by (simp add: overwrite_def)

lemma wf_content_short: "length (content vi s) < 2 ^ 32"
  using unsigned_less[of "fsize (the_inode vi s)", where ?'a = nat] by (simp add: length_content)

text \<open>A read of a well-formed file, on the bytes.\<close>

lemma vfs_read_at_bytes:
  assumes "file_wf fs vi s" "off + length buf < 2 ^ 64"
  defines "n \<equiv> min (length buf) (length (content vi s) - off)"
  shows "vfs_read_at vi off buf s = Inr (n, take n (drop off (content vi s)) @ drop n buf)"
proof -
  have n: "min (off + length buf) (length (content vi s)) - off = n" by (auto simp: n_def)
  have "length (take n (drop off (content vi s))) = n" by (auto simp: n_def)
  moreover have "n \<le> length buf" by (simp add: n_def)
  ultimately show ?thesis
    using vfs_read_at_eq[OF assms(1,2)] unfolding n by (simp add: slice_def overwrite_prefix)
qed

section \<open>Reading it all\<close>

lemma read_all_loop_eq:
  assumes "file_wf fs vi s" "length buffer = 512"
  shows "off \<le> length (content vi s) \<Longrightarrow> read_all_loop vi off buffer v s = Inr (v @ drop off (content vi s))"
  using assms(2)
proof (induction "length (content vi s) - off" arbitrary: off buffer v rule: less_induct)
  case less
  let ?n = "min 512 (length (content vi s) - off)"
  have "off + length buffer < 2 ^ 64" using less.prems wf_content_short[of vi s] by simp
  from vfs_read_at_bytes[OF assms(1) this] less.prems(2)
  have rd: "vfs_read_at vi off buffer s = Inr (?n, take ?n (drop off (content vi s)) @ drop ?n buffer)" by simp
  show ?case
  proof (cases "?n = 0")
    case True
    then show ?thesis by (subst read_all_loop.simps) (simp add: rd)
  next
    case False
    let ?b = "take ?n (drop off (content vi s)) @ drop ?n buffer"
    have "read_all_loop vi (off + ?n) ?b (v @ take ?n ?b) s = Inr ((v @ take ?n ?b) @ drop (off + ?n) (content vi s))"
      using False less.prems by (intro less.hyps) auto
    moreover have "take ?n ?b @ drop (off + ?n) (content vi s) = drop off (content vi s)"
      by (simp add: min_def add.commute[of off] drop_drop[symmetric] del: drop_drop)
    ultimately show ?thesis using False by (subst read_all_loop.simps) (simp add: rd)
  qed
qed

text \<open>C22: \<open>read_all\<close> returns, and what it returns is the content of the file, whatever its size; the loop over
512-byte reads neither loses nor repeats a byte.\<close>

theorem read_all_returns_the_file:
  assumes "file_wf fs vi s" "fh_inode h = Some vi"
  shows "read_all h s = Inr (content vi s)"
  using assms read_all_loop_eq[OF assms(1), of "replicate block_sz 0" 0 "[]"]
  by (simp add: read_all_def)

text \<open>The demonstration file with three bytes written.\<close>

lemma demo_written:
  obtains s' where "file_wf demo_fs demo_file s'" "content demo_file s' = [1, 2, 3]"
proof -
  have t: "total_blocks 3 = 1" "total_blocks 0 = 0" "data_blocks_of 3 = 1"
    by (simp_all add: total_blocks_def data_blocks_of_def div_ceil_def layout_consts)
  have max: "data_blocks_of (of_nat (0 + length [1 :: u8, 2, 3])) \<le> max_blocks"
    by (simp add: t max_blocks_def)
  have room: "card (bitmap_used (data_bitmap demo_fs) demo_store) +
        (total_blocks (of_nat (0 + length [1 :: u8, 2, 3])) - total_blocks (fsize (the_inode demo_file demo_store))) \<le>
        bitmap_maximum (data_bitmap demo_fs)"
    unfolding demo_empty(3) by (simp add: demo_size t demo_fs_def bitmap_new_def bitmap_maximum_eq)
  obtain s' where s': "file_wf demo_fs demo_file s'" "spliced 0 [1, 2, 3] (content demo_file demo_store) (content demo_file s')"
    using vfs_write_at_ok[OF demo_wf _ _ max room] by auto
  have "content demo_file s' = [1, 2, 3]"
    using s'(2) by (simp add: spliced_def demo_size slice_def) (metis order_refl take_all)
  then show ?thesis using s'(1) that by blast
qed

theorem read_all_returns_the_file_witness:
  "\<exists>s. read_all (file_handle_new True False demo_file) s = Inr [1, 2, 3]"
proof -
  obtain s where s: "file_wf demo_fs demo_file s" "content demo_file s = [1, 2, 3]" by (rule demo_written)
  have "fh_inode (file_handle_new True False demo_file) = Some demo_file" by (simp add: file_handle_new_def)
  from read_all_returns_the_file[OF s(1) this] s(2) show ?thesis by auto
qed

section \<open>Reading through a handle\<close>

lemma fh_read_loop_eq:
  assumes "file_wf fs vi s" "off + length (concat bs) < 2 ^ 64" "[] \<notin> set bs"
  defines "n \<equiv> min (length (concat bs)) (length (content vi s) - off)"
  shows "\<exists>bs'. fh_read_loop vi off tot acc bs s = Inr (tot + n, off + n, acc @ bs') \<and> map length bs' = map length bs \<and>
    concat bs' = take n (drop off (content vi s)) @ drop n (concat bs)"
  using assms(2,3) unfolding n_def
proof (induction bs arbitrary: off tot acc)
  case (Cons b bs)
  define k where "k = min (length b) (length (content vi s) - off)"
  define b' where "b' = take k (drop off (content vi s)) @ drop k b"
  have b: "off + length b < 2 ^ 64" "length b' = length b" "k \<le> length b" "b \<noteq> []"
    using Cons.prems by (auto simp: b'_def k_def)
  have rd: "vfs_read_at vi off b s = Inr (k, b')"
    unfolding b'_def k_def by (rule vfs_read_at_bytes[OF assms(1) b(1)])
  show ?case
  proof (cases "k = 0")
    case True
    then have "length (content vi s) - off = 0" using b(4) by (auto simp: k_def min_def split: if_splits)
    then show ?thesis using rd True by (intro exI[of _ "b # bs"]) (simp add: b'_def)
  next
    case False
    define m where "m = min (length (concat bs)) (length (content vi s) - (off + k))"
    have prem: "off + k + length (concat bs) < 2 ^ 64" "[] \<notin> set bs" using Cons.prems b(3) by simp_all
    obtain bs' where IH: "fh_read_loop vi (off + k) (tot + k) (acc @ [b']) bs s =
        Inr (tot + k + m, off + k + m, (acc @ [b']) @ bs')" "map length bs' = map length bs"
      "concat bs' = take m (drop (off + k) (content vi s)) @ drop m (concat bs)"
      using Cons.IH[OF prem, of "tot + k" "acc @ [b']"] unfolding m_def by blast
    have km: "min (length (concat (b # bs))) (length (content vi s) - off) = k + m" by (auto simp: k_def m_def)
    have "concat (b' # bs') = take (k + m) (drop off (content vi s)) @ drop (k + m) (concat (b # bs))"
    proof (cases "k = length b")
      case True
      then show ?thesis by (simp add: IH(3) b'_def take_add add.commute[of "length b" off])
    next
      case short: False
      then have "m = 0" by (auto simp: k_def m_def)
      then show ?thesis using b(3) by (simp add: IH(3) b'_def)
    qed
    then show ?thesis
      using False rd IH(1,2) b(2) unfolding km by (intro exI[of _ "b' # bs'"]) (simp add: add.assoc)
  qed
qed simp

text \<open>Reading through a handle fills the segments of a user buffer in order with the bytes of the file from
the handle's offset on, answers how many there were, moves the offset by as many and leaves the
rest of the buffer alone (for a buffer without empty segments, which end the loop early).\<close>

theorem handle_reads_from_its_offset:
  assumes "file_wf fs vi s" "fh_inode h = Some vi"
    and "fh_offset h + length (concat bufs) < 2 ^ 64" "[] \<notin> set bufs"
  shows "\<exists>n bufs'. n = min (length (concat bufs)) (length (content vi s) - fh_offset h) \<and>
    fh_read_file h bufs s = Inr (of_nat n, h\<lparr>fh_offset := fh_offset h + n\<rparr>, bufs') \<and>
    map length bufs' = map length bufs \<and>
    concat bufs' = take n (drop (fh_offset h) (content vi s)) @ drop n (concat bufs)"
  using fh_read_loop_eq[OF assms(1,3,4), of 0 "[]"] assms(2) by (auto simp: fh_read_file_def)

theorem handle_reads_from_its_offset_witness:
  "\<exists>s bufs'. fh_read_file (file_handle_new True False demo_file) [[7, 7], [8, 8]] s =
      Inr (3, (file_handle_new True False demo_file)\<lparr>fh_offset := 3\<rparr>, bufs') \<and> concat bufs' = [1, 2, 3, 8]"
proof -
  obtain s where s: "file_wf demo_fs demo_file s" "content demo_file s = [1, 2, 3]" by (rule demo_written)
  have h: "fh_inode (file_handle_new True False demo_file) = Some demo_file"
    "fh_offset (file_handle_new True False demo_file) = 0" by (simp_all add: file_handle_new_def)
  obtain n bufs' where n: "n = min (length (concat [[7, 7], [8, 8 :: u8]])) (length (content demo_file s) - 0)"
    and run: "fh_read_file (file_handle_new True False demo_file) [[7, 7], [8, 8]] s =
      Inr (of_nat n, (file_handle_new True False demo_file)\<lparr>fh_offset := 0 + n\<rparr>, bufs')"
      "concat bufs' = take n (drop 0 (content demo_file s)) @ drop n (concat [[7, 7], [8, 8]])"
    using handle_reads_from_its_offset[OF s(1) h(1), of "[[7, 7], [8, 8]]"] unfolding h(2) by auto
  have "n = 3" using n s(2) by simp
  then show ?thesis using run s(2) by (intro exI[of _ s] exI[of _ bufs']) simp
qed

end
