(* ===== verification/Space_Properties.thy ===== *)
theory Space_Properties
  imports Sample_Platform
begin

text \<open>
  Address spaces do what paging promises, for every page table and every allocator that behave
  as documented. \<open>table_laws\<close> says of the page-table crate that a walk finds what was last
  written for its page and nothing else changes; \<open>alloc_fresh\<close> says of the heap that two
  requests never overlap (nothing is ever given back).
\<close>

section \<open>What the page tables promise\<close>

definition table_laws :: "'pt platform \<Rightarrow> bool" where
  "table_laws pf \<longleftrightarrow>
     (\<forall>pt v pt1. make_tables pf pt v = Some pt1 \<longrightarrow>
        walk_to pf pt1 v \<noteq> None \<and> (\<forall>u. visit pf pt1 u = visit pf pt u)) \<and>
     (\<forall>pt v e u. walk_to pf pt v \<noteq> None \<longrightarrow>
        walk_to pf (put_entry pf pt v e) u = (if u = v then Some e else walk_to pf pt u)) \<and>
     (\<forall>u. visit pf (empty_table pf) u = None)"

lemma make_tables_law:
  "table_laws pf \<Longrightarrow> make_tables pf pt v = Some pt1 \<Longrightarrow> walk_to pf pt1 v \<noteq> None"
  "table_laws pf \<Longrightarrow> make_tables pf pt v = Some pt1 \<Longrightarrow> visit pf pt1 u = visit pf pt u"
  by (auto simp: table_laws_def)

lemma put_entry_law:
  "table_laws pf \<Longrightarrow> walk_to pf pt v \<noteq> None \<Longrightarrow>
     visit pf (put_entry pf pt v e) u = (if u = v then if pte_valid e then Some e else None else visit pf pt u)"
  by (auto simp: table_laws_def visit_def)

lemma map_page_visit:
  assumes "table_laws pf" "bit fl 0" "map_page pf v p fl pt = Inr pt'"
  shows "visit pf pt v = None" "visit pf pt' u = (if u = v then Some \<lparr>pte_ppn = p, pte_flags = fl\<rparr> else visit pf pt u)"
  using assms put_entry_law[OF assms(1) make_tables_law(1)[OF assms(1)]] make_tables_law(2)[OF assms(1)]
  by (auto simp: map_page_def bind_res_eq_Inr assert_res_def pte_valid_def split: option.splits if_splits)

lemma map_pages_visit:
  assumes "table_laws pf" "bit fl 0"
  shows "map_pages n pf v p fl pt = Inr pt' \<Longrightarrow>
    (\<forall>u. visit pf pt' u =
       (if v \<le> u \<and> u < v + n then Some \<lparr>pte_ppn = p + (u - v), pte_flags = fl\<rparr> else visit pf pt u)) \<and>
    (\<forall>u. v \<le> u \<longrightarrow> u < v + n \<longrightarrow> visit pf pt u = None)"
proof (induction n arbitrary: v p pt)
  case (Suc n)
  obtain pt1 where 1: "map_page pf v p fl pt = Inr pt1" "map_pages n pf (v + 1) (p + 1) fl pt1 = Inr pt'"
    using Suc.prems by (auto simp: bind_res_eq_Inr)
  note one = map_page_visit[OF assms 1(1)] and rest = Suc.IH[OF 1(2)]
  have at: "v + 1 \<le> u \<Longrightarrow> v \<noteq> u" "v + 1 \<le> u \<Longrightarrow> p + 1 + (u - (v + 1)) = p + (u - v)"
    "v \<le> u \<Longrightarrow> u < v + Suc n \<longleftrightarrow> u = v \<or> (v + 1 \<le> u \<and> u < v + 1 + n)" for u
    by auto
  show ?case
  proof (intro conjI allI impI)
    fix u
    show "visit pf pt' u =
       (if v \<le> u \<and> u < v + Suc n then Some \<lparr>pte_ppn = p + (u - v), pte_flags = fl\<rparr> else visit pf pt u)"
      using rest one(2)[of u] at[of u] by auto
    assume "v \<le> u" "u < v + Suc n"
    then show "visit pf pt u = None" using rest one(1) one(2)[of u] at[of u] by (cases "u = v") auto
  qed
qed auto

lemma sample_table_laws: "table_laws sample_platform"
  by (auto simp: table_laws_def sample_platform_def visit_def pte_valid_def)

section \<open>Well-formed spaces\<close>

definition apart :: "nat \<times> nat \<Rightarrow> nat \<times> nat \<Rightarrow> bool" where
  "apart r s \<longleftrightarrow> snd r \<le> fst s \<or> snd s \<le> fst r"

text \<open>An area is mapped to consecutive physical pages with the same flags.\<close>

definition area_mapped :: "'pt platform \<Rightarrow> 'pt \<Rightarrow> nat \<times> nat \<Rightarrow> bool" where
  "area_mapped pf pt rg \<longleftrightarrow> fst rg < snd rg \<and>
     (\<exists>p fl. bit fl 0 \<and>
        (\<forall>u. fst rg \<le> u \<longrightarrow> u < snd rg \<longrightarrow> visit pf pt u = Some \<lparr>pte_ppn = p + (u - fst rg), pte_flags = fl\<rparr>))"

definition space_ok :: "'pt platform \<Rightarrow> 'pt address_space \<Rightarrow> bool" where
  "space_ok pf as \<longleftrightarrow> (\<forall>rg \<in> set (areas as). area_mapped pf (page_table as) rg) \<and> sorted_wrt apart (areas as)"

lemma map_extern_visit:
  assumes "table_laws pf" "bit fl 0" "map_extern pf rg p fl as = Inr as'"
  shows "fst rg < snd rg" "areas as' = areas as @ [rg]" "root_ppn as' = root_ppn as"
    "visit pf (page_table as') u =
       (if fst rg \<le> u \<and> u < snd rg then Some \<lparr>pte_ppn = p + (u - fst rg), pte_flags = fl\<rparr> else visit pf (page_table as) u)"
    "fst rg \<le> u \<Longrightarrow> u < snd rg \<Longrightarrow> visit pf (page_table as) u = None"
proof -
  obtain pt where rg: "fst rg < snd rg" and pt: "map_pages (snd rg - fst rg) pf (fst rg) p fl (page_table as) = Inr pt"
    and as': "as' = as\<lparr>areas := areas as @ [rg], page_table := pt\<rparr>"
    using assms(3) by (auto simp: map_extern_def bind_res_eq_Inr Let_def split: if_splits)
  show "fst rg < snd rg" "areas as' = areas as @ [rg]" "root_ppn as' = root_ppn as" using rg as' by simp_all
  show "visit pf (page_table as') u =
       (if fst rg \<le> u \<and> u < snd rg then Some \<lparr>pte_ppn = p + (u - fst rg), pte_flags = fl\<rparr> else visit pf (page_table as) u)"
    "fst rg \<le> u \<Longrightarrow> u < snd rg \<Longrightarrow> visit pf (page_table as) u = None"
    using map_pages_visit[OF assms(1,2) pt] rg as' by auto
qed

lemma area_mapped_mono:
  "area_mapped pf pt rg \<Longrightarrow> (\<And>u. fst rg \<le> u \<Longrightarrow> u < snd rg \<Longrightarrow> visit pf pt' u = visit pf pt u) \<Longrightarrow> area_mapped pf pt' rg"
  by (auto simp: area_mapped_def)

lemma area_mapped_visit: "area_mapped pf pt rg \<Longrightarrow> fst rg \<le> u \<Longrightarrow> u < snd rg \<Longrightarrow> visit pf pt u \<noteq> None"
  by (auto simp: area_mapped_def)

text \<open>C20: Mapping keeps an address space well-formed: its areas are non-empty and do not overlap, and each is
mapped, with one set of flags, to consecutive physical pages. (What \<open>fork\<close> relies on.)\<close>

theorem mapping_keeps_spaces_well_formed:
  assumes "table_laws pf" "bit fl 0" "space_ok pf as" "map_extern pf rg p fl as = Inr as'"
  shows "space_ok pf as'"
proof -
  note new = map_extern_visit[OF assms(1,2,4)]
  have old: "area_mapped pf (page_table as) s" "apart s rg" if "s \<in> set (areas as)" for s
  proof -
    show m: "area_mapped pf (page_table as) s" using that assms(3) by (simp add: space_ok_def)
    show "apart s rg"
    proof (rule ccontr)
      assume "\<not> apart s rg"
      then have "fst s \<le> max (fst s) (fst rg)" "max (fst s) (fst rg) < snd s" "max (fst s) (fst rg) < snd rg"
        using m new(1) by (auto simp: apart_def area_mapped_def)
      then show False
        using area_mapped_visit[OF m, of "max (fst s) (fst rg)"] new(5)[of "max (fst s) (fst rg)"] by simp
    qed
  qed
  have "area_mapped pf (page_table as') s" if "s \<in> set (areas as)" for s
    using area_mapped_mono[OF old(1)[OF that]] new(4) old(2)[OF that] by (auto simp: apart_def)
  moreover have "area_mapped pf (page_table as') rg"
    using new(1,4) assms(2) by (auto simp: area_mapped_def)
  moreover have "sorted_wrt apart (areas as @ [rg])"
    using assms(3) old(2) by (simp add: space_ok_def sorted_wrt_append)
  ultimately show ?thesis by (auto simp: space_ok_def new(2))
qed

text \<open>A space with two pages mapped from page 5 on.\<close>

definition two_pages :: "(nat \<times> pte) list address_space" where
  "two_pages = \<lparr>areas = [(5, 7)], page_table = [(6, \<lparr>pte_ppn = 101, pte_flags = 7\<rparr>), (5, \<lparr>pte_ppn = 100, pte_flags = 7\<rparr>)],
                root_ppn = 1\<rparr>"

lemma map_two_pages:
  "map_extern sample_platform (5, 7) 100 7 \<lparr>areas = [], page_table = [], root_ppn = 1\<rparr> = Inr two_pages"
  by (simp add: map_extern_def sample_platform_def two_pages_def map_page_def visit_def pte_valid_def assert_res_def
      numeral_2_eq_2)

lemma empty_space_ok: "space_ok pf \<lparr>areas = [], page_table = pt, root_ppn = r\<rparr>"
  by (simp add: space_ok_def)

theorem mapping_keeps_spaces_well_formed_witness: "space_ok sample_platform two_pages"
  by (rule mapping_keeps_spaces_well_formed[OF sample_table_laws _ empty_space_ok map_two_pages]) simp

section \<open>Translation\<close>

lemma translate_eq:
  "translate pf as addr want =
     (case visit pf (page_table as) (addr_floor pf addr) of
        None \<Rightarrow> None
      | Some e \<Rightarrow> if flags_include (pte_flags e) want then Some (pte_ppn e * page_size + addr_offset pf addr) else None)"
  by (simp only: translate_def p_to_v_def)

text \<open>After \<open>map_extern\<close> an address of the range translates to the physical page mapped there, provided
the flags asked for were granted, and every other address translates as before.\<close>

theorem translate_after_map_extern:
  assumes "table_laws pf" "bit fl 0" "map_extern pf (a, b) p fl as = Inr as'"
  shows "translate pf as' addr want =
    (let v = addr_floor pf addr in
     if a \<le> v \<and> v < b then
       (if flags_include fl want then Some ((p + (v - a)) * page_size + addr_offset pf addr) else None)
     else translate pf as addr want)"
  using map_extern_visit(4)[OF assms] by (simp add: translate_eq Let_def)

theorem translate_after_map_extern_witness:
  "translate sample_platform two_pages 25000 3 = Some (101 * 4096 + 424)"
proof -
  have "flags_include 7 3" by (simp add: flags_include_def)
  then show ?thesis
    using translate_after_map_extern[OF sample_table_laws _ map_two_pages, of 25000 3]
    by (simp add: sample_platform_def)
qed

lemma clear_pages_visit:
  assumes "table_laws pf"
  shows "visit pf (clear_pages n pf v pt) u = (if v \<le> u \<and> u < v + n then None else visit pf pt u)"
proof (induction n arbitrary: v pt)
  case (Suc n)
  define pt1 where "pt1 = (case walk_to pf pt v of None \<Rightarrow> pt
      | Some _ \<Rightarrow> put_entry pf pt v \<lparr>pte_ppn = 0, pte_flags = 0\<rparr>)"
  have "visit pf pt1 u = (if u = v then None else visit pf pt u)"
  proof (cases "walk_to pf pt v")
    case None
    then have "visit pf pt v = None" by (simp add: visit_def)
    then show ?thesis by (simp add: pt1_def None)
  next
    case (Some e)
    then show ?thesis using put_entry_law[OF assms, of pt v] by (simp add: pt1_def pte_valid_def)
  qed
  then show ?case using Suc.IH[of "v + 1" pt1] by (auto simp: pt1_def[symmetric])
qed auto

text \<open>C21: \<open>unmap\<close> computes set subtraction: the pages its areas cover afterwards are those they covered
before without the range, whichever way the range cuts them.\<close>

theorem unmap_subtracts_the_range:
  assumes "fst rg < snd rg"
  shows "(\<Union>r \<in> set (areas (unmap pf rg as)). {fst r..<snd r}) =
         (\<Union>r \<in> set (areas as). {fst r..<snd r}) - {fst rg..<snd rg}"
proof -
  have "(\<Union>r \<in> set (unmap_areas rg rs). {fst r..<snd r}) = (\<Union>r \<in> set rs. {fst r..<snd r}) - {fst rg..<snd rg}" for rs
  proof (induction rs)
    case (Cons r rs)
    then show ?case using assms by (auto simp: UN_Un)
  qed simp
  then show ?thesis by (simp add: unmap_def)
qed

theorem unmap_subtracts_the_range_witness:
  "areas (unmap sample_platform (3, 5) (two_pages\<lparr>areas := [(1, 9), (4, 6), (7, 8)]\<rparr>)) = [(1, 3), (5, 9), (5, 6), (7, 8)] \<and>
   (\<Union>r \<in> set (areas (unmap sample_platform (3, 5) (two_pages\<lparr>areas := [(1, 9), (4, 6), (7, 8)]\<rparr>))). {fst r..<snd r}) =
     {1..<9} \<union> {4..<6} \<union> {7..<8} - {3..<5}"
  using unmap_subtracts_the_range[of "(3, 5)" sample_platform "two_pages\<lparr>areas := [(1, 9), (4, 6), (7, 8)]\<rparr>"]
  by (simp add: unmap_def Un_assoc)

text \<open>After \<open>unmap\<close> no address of the range translates any more; the others translate as before.\<close>

theorem translate_after_unmap:
  assumes "table_laws pf" "a \<le> b"
  shows "translate pf (unmap pf (a, b) as) addr want =
    (if a \<le> addr_floor pf addr \<and> addr_floor pf addr < b then None else translate pf as addr want)"
  using assms clear_pages_visit[OF assms(1), of "b - a" a] by (simp add: translate_eq unmap_def)

theorem translate_after_unmap_witness:
  "translate sample_platform (unmap sample_platform (6, 7) two_pages) 25000 3 = None \<and>
   translate sample_platform (unmap sample_platform (6, 7) two_pages) 21000 3 =
     translate sample_platform two_pages 21000 3"
  using translate_after_unmap[OF sample_table_laws, of 6 7 two_pages 25000 3]
    translate_after_unmap[OF sample_table_laws, of 6 7 two_pages 21000 3]
  by (simp add: sample_platform_def)

section \<open>Loading data\<close>

text \<open>\<open>map\<close> loads a segment: the pages of the range are new, hold the data from \<open>offset\<close> on with zeros
around it, and are mapped in order.\<close>

theorem space_map_loads_the_data:
  assumes "table_laws pf" "bit fl 0" "space_map pf (a, b) data offset fl as m = Inr (as', m')"
  shows "\<exists>p. page_alloc pf (requests m) (b - a) = Some p \<and>
    mem_read (p * page_size) ((b - a) * page_size) m' =
      replicate offset 0 @ data @ replicate ((b - a) * page_size - (offset + length data)) 0 \<and>
    (\<forall>u. visit pf (page_table as') u =
       (if a \<le> u \<and> u < b then Some \<lparr>pte_ppn = p + (u - a), pte_flags = fl OR owned\<rparr>
        else visit pf (page_table as) u))"
proof -
  obtain p as1 where p: "page_alloc pf (requests m) (b - a) = Some p" and rg: "a \<le> b"
    and fits: "length data + offset \<le> (b - a) * page_size"
    and mp: "map_extern pf (a, b) p (fl OR owned) as = Inr as'"
    and m': "m' = mem_zero (p * page_size + offset + length data) ((b - a) * page_size - (offset + length data))
      (mem_write (p * page_size + offset) data (mem_zero (p * page_size) offset
        (mem_zero (p * page_size) ((b - a) * page_size) (m\<lparr>requests := requests m + 1\<rparr>))))"
    using assms(3)
    by (auto simp: space_map_def bind_res_eq_Inr Let_def manager_allocate_def alloc_pages_def p_to_v_def v_to_p_def
        assert_res_def split: if_splits option.splits)
  have "bit (fl OR owned) 0" using assms(2) by (simp add: bit_or_iff)
  note pages = map_extern_visit(4)[OF assms(1) this mp]
  have "mem_read (p * page_size) ((b - a) * page_size) m' =
      replicate offset 0 @ data @ replicate ((b - a) * page_size - (offset + length data)) 0"
    using fits
    by (intro nth_equalityI) (auto simp: mem_read_def m' mem_zero_def mem_write_def nth_append)
  with p pages show ?thesis by auto
qed

theorem space_map_loads_the_data_witness:
  "\<exists>m'. mem_read (100 * 4096) 4096 m' = replicate 2 0 @ [11, 22, 33] @ replicate 4091 0"
proof -
  let ?m = "\<lparr>phys = (\<lambda>_. 9), requests = 0\<rparr>" and ?as = "\<lparr>areas = [], page_table = [], root_ppn = 1\<rparr>"
  obtain as' m' where run: "space_map sample_platform (5, 6) [11, 22, 33] 2 7 ?as ?m = Inr (as', m')"
    by (simp add: space_map_def sample_platform_def map_extern_def map_page_def visit_def pte_valid_def assert_res_def
        manager_allocate_def alloc_pages_def v_to_p_def p_to_v_def Let_def)
  show ?thesis
    using space_map_loads_the_data[OF sample_table_laws _ run] by (auto simp: sample_platform_def)
qed

section \<open>The deep copy of fork\<close>

definition alloc_fresh :: "'pt platform \<Rightarrow> bool" where
  "alloc_fresh pf \<longleftrightarrow>
     (\<forall>j k n m p q. j < k \<longrightarrow> page_alloc pf j n = Some p \<longrightarrow> page_alloc pf k m = Some q \<longrightarrow>
        p + n \<le> q \<or> q + m \<le> p)"

text \<open>A physical page that some earlier request has handed out.\<close>

definition in_use :: "'pt platform \<Rightarrow> memory \<Rightarrow> nat \<Rightarrow> bool" where
  "in_use pf m q \<longleftrightarrow> (\<exists>j < requests m. \<exists>n p. page_alloc pf j n = Some p \<and> p \<le> q \<and> q < p + n)"

abbreviation page_bytes :: "memory \<Rightarrow> nat \<Rightarrow> u8 list" where
  "page_bytes m q \<equiv> mem_read (q * page_size) page_size m"

lemma mem_read_part:
  "i + n \<le> k \<Longrightarrow> take n (drop i (mem_read p k m)) = mem_read (p + i) n m"
  by (intro nth_equalityI) (auto simp: mem_read_def add.assoc)

lemma page_of_block:
  assumes "i < n"
  shows "page_bytes (mem_write (p * page_size) bs m) (p + i) =
    (if length bs = n * page_size then take page_size (drop (i * page_size) bs)
     else page_bytes (mem_write (p * page_size) bs m) (p + i))"
proof (cases "length bs = n * page_size")
  case True
  have "i * page_size + page_size \<le> n * page_size" using assms by (simp add: mult_Suc[symmetric] del: mult_Suc)
  then show ?thesis
    using True by (auto simp: mem_read_def mem_write_def algebra_simps intro!: nth_equalityI)
qed simp

lemma outside_block:
  "q < p \<or> p + n \<le> q \<Longrightarrow> q * page_size + page_size \<le> p * page_size \<or> (p * page_size) + n * page_size \<le> q * page_size"
  for q p n :: nat
  by (metis (no_types) add.commute add_mult_distrib mult_Suc mult_le_mono1 not_less_eq_eq not_le)

lemma clone_area_copies:
  assumes laws: "table_laws pf" "alloc_fresh pf" and src: "area_mapped pf (page_table src) rg"
    and used: "\<forall>u e. fst rg \<le> u \<longrightarrow> u < snd rg \<longrightarrow> visit pf (page_table src) u = Some e \<longrightarrow> in_use pf m (pte_ppn e)"
    and run: "clone_area pf src rg as m = Inr (as', m')"
  shows "areas as' = areas as @ [rg]" "requests m' = requests m + 1"
    "in_use pf m q \<Longrightarrow> page_bytes m' q = page_bytes m q"
    "\<not> (fst rg \<le> u \<and> u < snd rg) \<Longrightarrow> visit pf (page_table as') u = visit pf (page_table as) u"
    "fst rg \<le> u \<Longrightarrow> u < snd rg \<Longrightarrow> \<exists>e e'. visit pf (page_table src) u = Some e \<and>
       visit pf (page_table as') u = Some e' \<and> pte_flags e' = pte_flags e OR owned \<and>
       page_bytes m' (pte_ppn e') = page_bytes m (pte_ppn e) \<and> \<not> in_use pf m (pte_ppn e') \<and> in_use pf m' (pte_ppn e')"
proof -
  let ?n = "snd rg - fst rg"
  obtain p0 fl where src': "fst rg < snd rg" "bit fl 0"
    "\<And>u. fst rg \<le> u \<Longrightarrow> u < snd rg \<Longrightarrow> visit pf (page_table src) u = Some \<lparr>pte_ppn = p0 + (u - fst rg), pte_flags = fl\<rparr>"
    using src by (auto simp: area_mapped_def)
  define m1 where "m1 p = mem_zero (p * page_size) (?n * page_size) (m\<lparr>requests := requests m + 1\<rparr>)" for p
  obtain p where p: "page_alloc pf (requests m) ?n = Some p"
    and mp: "map_extern pf rg p (fl OR owned) as = Inr as'"
    and m': "m' = mem_write (p * page_size) (mem_read (p0 * page_size) (?n * page_size) (m1 p)) (m1 p)"
    using run src'(1) src'(3)[of "fst rg"]
    by (auto simp: clone_area_def bind_res_eq_Inr Let_def manager_allocate_def alloc_pages_def p_to_v_def m1_def
        unwrap_def split: if_splits option.splits)
  have "bit (fl OR owned) 0" using src'(2) by (simp add: bit_or_iff)
  note new = map_extern_visit[OF laws(1) this mp]
  show "areas as' = areas as @ [rg]" by (rule new(2))
  show req: "requests m' = requests m + 1" by (simp add: m' m1_def mem_write_def mem_zero_def)
  have apart: "q < p \<or> p + ?n \<le> q" if "in_use pf m q" for q
    using that laws(2) p by (fastforce simp: in_use_def alloc_fresh_def)
  have keep1: "page_bytes (m1 p) q = page_bytes m q" if "in_use pf m q" for q
    using outside_block[OF apart[OF that]]
    by (auto simp: m1_def mem_read_def mem_zero_def)
  show "page_bytes m' q = page_bytes m q" if "in_use pf m q" for q
    unfolding m' using outside_block[OF apart[OF that]] keep1[OF that] by (subst mem_read_write_apart) simp_all
  show "visit pf (page_table as') u = visit pf (page_table as) u" if "\<not> (fst rg \<le> u \<and> u < snd rg)" for u
    unfolding new(4) using that by (rule if_not_P)
  show "\<exists>e e'. visit pf (page_table src) u = Some e \<and>
       visit pf (page_table as') u = Some e' \<and> pte_flags e' = pte_flags e OR owned \<and>
       page_bytes m' (pte_ppn e') = page_bytes m (pte_ppn e) \<and> \<not> in_use pf m (pte_ppn e') \<and> in_use pf m' (pte_ppn e')"
    if u: "fst rg \<le> u" "u < snd rg" for u
  proof -
    let ?i = "u - fst rg"
    have i: "?i < ?n" using u by simp
    have "?i * page_size + page_size \<le> ?n * page_size" using i by (simp add: mult_Suc[symmetric] del: mult_Suc)
    then have "page_bytes m' (p + ?i) = page_bytes (m1 p) (p0 + ?i)"
      unfolding m' using page_of_block[OF i, of p "mem_read (p0 * page_size) (?n * page_size) (m1 p)" "m1 p"]
      by (simp add: mem_read_part add_mult_distrib)
    also have "\<dots> = page_bytes m (p0 + ?i)"
    proof (rule keep1)
      show "in_use pf m (p0 + ?i)" using used u src'(3)[OF u] by fastforce
    qed
    finally have copy: "page_bytes m' (p + ?i) = page_bytes m (p0 + ?i)" .
    have fresh: "\<not> in_use pf m (p + ?i)" using apart[of "p + ?i"] i by auto
    have "in_use pf m' (p + ?i)" unfolding in_use_def req
      using p i by (intro exI[of _ "requests m"] conjI exI[of _ ?n] exI[of _ p]) simp_all
    with copy fresh new(4)[of u] src'(3)[OF u] u show ?thesis by simp
  qed
qed

text \<open>A page of the source, and its copy.\<close>

definition copied :: "'pt platform \<Rightarrow> 'pt address_space \<Rightarrow> memory \<Rightarrow> 'pt address_space \<Rightarrow> memory \<Rightarrow> nat \<Rightarrow> bool" where
  "copied pf src m as' m' u \<longleftrightarrow>
     (\<exists>e e'. visit pf (page_table src) u = Some e \<and> visit pf (page_table as') u = Some e' \<and>
        pte_flags e' = pte_flags e OR owned \<and> page_bytes m' (pte_ppn e') = page_bytes m (pte_ppn e) \<and>
        page_bytes m' (pte_ppn e) = page_bytes m (pte_ppn e) \<and>
        \<not> in_use pf m (pte_ppn e') \<and> in_use pf m' (pte_ppn e'))"

definition pages_in_use :: "'pt platform \<Rightarrow> 'pt address_space \<Rightarrow> memory \<Rightarrow> bool" where
  "pages_in_use pf as m \<longleftrightarrow>
     (\<forall>rg \<in> set (areas as). \<forall>u e. fst rg \<le> u \<longrightarrow> u < snd rg \<longrightarrow> visit pf (page_table as) u = Some e \<longrightarrow>
        in_use pf m (pte_ppn e))"

lemma in_use_mono: "in_use pf m q \<Longrightarrow> requests m \<le> requests m' \<Longrightarrow> in_use pf m' q"
  unfolding in_use_def by (meson order_less_le_trans)

lemma clone_areas_copies:
  assumes laws: "table_laws pf" "alloc_fresh pf"
    and src: "\<forall>rg \<in> set rest. area_mapped pf (page_table src) rg" "sorted_wrt apart rest"
    and used: "\<And>rg u e. rg \<in> set rest \<Longrightarrow> fst rg \<le> u \<Longrightarrow> u < snd rg \<Longrightarrow> visit pf (page_table src) u = Some e \<Longrightarrow>
       in_use pf m0 (pte_ppn e)"
    and run: "clone_areas pf src rest as m = Inr (as', m')"
    and since: "requests m0 \<le> requests m" "\<And>q. in_use pf m0 q \<Longrightarrow> page_bytes m q = page_bytes m0 q"
  shows "areas as' = areas as @ rest \<and> requests m \<le> requests m' \<and>
    (\<forall>q. in_use pf m q \<longrightarrow> page_bytes m' q = page_bytes m q) \<and>
    (\<forall>u. (\<forall>rg \<in> set rest. \<not> (fst rg \<le> u \<and> u < snd rg)) \<longrightarrow>
       visit pf (page_table as') u = visit pf (page_table as) u) \<and>
    (\<forall>rg \<in> set rest. \<forall>u. fst rg \<le> u \<longrightarrow> u < snd rg \<longrightarrow> copied pf src m0 as' m' u)"
  using src used run since
proof (induction rest arbitrary: as m)
  case (Cons rg rest)
  obtain as1 m1 where 1: "clone_area pf src rg as m = Inr (as1, m1)" and 2: "clone_areas pf src rest as1 m1 = Inr (as', m')"
    using Cons.prems(4) by (auto simp: bind_res_eq_Inr)
  have "\<forall>u e. fst rg \<le> u \<longrightarrow> u < snd rg \<longrightarrow> visit pf (page_table src) u = Some e \<longrightarrow> in_use pf m (pte_ppn e)"
    using in_use_mono[OF Cons.prems(3) Cons.prems(5)] by (meson list.set_intros(1))
  note one = clone_area_copies[OF laws bspec[OF Cons.prems(1) list.set_intros(1)] this 1]
  have kept: "page_bytes m1 q = page_bytes m0 q" if "in_use pf m0 q" for q
    using one(3)[OF in_use_mono[OF that Cons.prems(5)]] Cons.prems(6)[OF that] by simp
  have IH: "areas as' = areas as1 @ rest \<and> requests m1 \<le> requests m' \<and>
    (\<forall>q. in_use pf m1 q \<longrightarrow> page_bytes m' q = page_bytes m1 q) \<and>
    (\<forall>u. (\<forall>rg \<in> set rest. \<not> (fst rg \<le> u \<and> u < snd rg)) \<longrightarrow>
       visit pf (page_table as') u = visit pf (page_table as1) u) \<and>
    (\<forall>rg \<in> set rest. \<forall>u. fst rg \<le> u \<longrightarrow> u < snd rg \<longrightarrow> copied pf src m0 as' m' u)"
    using Cons.prems(1,2,5) one(2) Cons.prems(3) kept by (intro Cons.IH[OF _ _ _ 2]) auto
  have first: "copied pf src m0 as' m' u" if u: "fst rg \<le> u" "u < snd rg" for u
  proof -
    obtain e e' where e: "visit pf (page_table src) u = Some e" "visit pf (page_table as1) u = Some e'"
      "pte_flags e' = pte_flags e OR owned" "page_bytes m1 (pte_ppn e') = page_bytes m (pte_ppn e)"
      "\<not> in_use pf m (pte_ppn e')" "in_use pf m1 (pte_ppn e')"
      using one(5)[OF u] by blast
    have eu: "in_use pf m0 (pte_ppn e)" using Cons.prems(3)[of rg u e] u e(1) by simp
    have "\<forall>s \<in> set rest. \<not> (fst s \<le> u \<and> u < snd s)" using Cons.prems(2) u by (auto simp: apart_def)
    then have "visit pf (page_table as') u = Some e'" using IH e(2) by metis
    moreover have "page_bytes m' (pte_ppn e') = page_bytes m0 (pte_ppn e)"
      using IH e(4,6) Cons.prems(6)[OF eu] by simp
    moreover have "page_bytes m' (pte_ppn e) = page_bytes m0 (pte_ppn e)"
      using IH kept[OF eu] in_use_mono[OF eu, of m1] one(2) Cons.prems(5) by simp
    moreover have "\<not> in_use pf m0 (pte_ppn e')" using e(5) in_use_mono Cons.prems(5) by blast
    moreover have "in_use pf m' (pte_ppn e')" using in_use_mono[OF e(6)] IH by blast
    ultimately show ?thesis using e(1,3) unfolding copied_def by blast
  qed
  have "in_use pf m q \<Longrightarrow> page_bytes m' q = page_bytes m q" for q
    using IH one(3)[of q] in_use_mono[of pf m q m1] one(2) by simp
  then show ?case
    using IH first one(1,2,4) by auto
qed simp

text \<open>C10: \<open>fork\<close> copies deeply: the child's space has the areas of its parent's, every page of them has the
parent's contents on a physical page that was not in use before, so writes of one are not seen by
the other, and the parent's own pages are as they were.\<close>

theorem fork_copies_memory_deeply:
  assumes "table_laws pf" "alloc_fresh pf" "space_ok pf src" "pages_in_use pf src m"
    and "space_new pf m = Inr (fresh, m1)" "cloneself pf src fresh m1 = Inr (as', m')"
    and "rg \<in> set (areas src)" "fst rg \<le> u" "u < snd rg"
  shows "areas as' = areas src \<and> copied pf src m as' m' u"
proof -
  obtain r where r: "page_alloc pf (requests m) 1 = Some r" "fresh = \<lparr>areas = [], page_table = empty_table pf, root_ppn = r\<rparr>"
    "m1 = mem_zero (r * page_size) (1 * page_size) (m\<lparr>requests := requests m + 1\<rparr>)"
    using assms(5) by (auto simp: space_new_def alloc_pages_def bind_res_eq_Inr split: option.splits)
  have keep: "page_bytes m1 q = page_bytes m q" if "in_use pf m q" for q
  proof -
    have "q < r \<or> r + 1 \<le> q" using that assms(2) r(1) by (fastforce simp: in_use_def alloc_fresh_def)
    from outside_block[OF this] show ?thesis by (auto simp: r(3) mem_read_def mem_zero_def)
  qed
  have "requests m \<le> requests m1" by (simp add: r(3) mem_zero_def)
  from clone_areas_copies[OF assms(1,2) _ _ _ _ this keep, of "areas src" src fresh as' m']
  show ?thesis
    using assms(3,4,6-9) by (auto simp: space_ok_def pages_in_use_def cloneself_def r(2))
qed

lemma two_pages_ok: "space_ok sample_platform two_pages"
proof -
  have "visit sample_platform (page_table two_pages) u = Some \<lparr>pte_ppn = 100 + (u - 5), pte_flags = 7\<rparr>"
    if "5 \<le> u" "u < 7" for u
  proof -
    have "u = 5 \<or> u = 6" using that by auto
    then show ?thesis by (auto simp: sample_platform_def two_pages_def visit_def pte_valid_def)
  qed
  then show ?thesis
    by (auto simp: space_ok_def area_mapped_def two_pages_def intro!: exI[of _ "100 :: nat"] exI[of _ "7 :: u64"])
qed

lemma sample_alloc_fresh: "alloc_fresh sample_platform"
  by (auto simp: alloc_fresh_def sample_platform_def)

theorem fork_copies_memory_deeply_witness:
  "\<exists>as' m'. areas as' = [(5, 7)] \<and>
     copied sample_platform two_pages \<lparr>phys = (\<lambda>a. of_nat (a div 100)), requests = 1\<rparr> as' m' 6"
proof -
  let ?m = "\<lparr>phys = (\<lambda>a. of_nat (a div 100)), requests = 1\<rparr>"
  have used: "pages_in_use sample_platform two_pages ?m"
    by (auto simp: pages_in_use_def two_pages_def in_use_def sample_platform_def visit_def split: if_splits option.splits
        intro!: exI[of _ 2])
  obtain fresh m1 where 1: "space_new sample_platform ?m = Inr (fresh, m1)"
    and fresh: "fresh = \<lparr>areas = [], page_table = [], root_ppn = 116\<rparr>" "requests m1 = 2"
    by (simp add: space_new_def alloc_pages_def sample_platform_def mem_zero_def)
  obtain as' m' where 2: "cloneself sample_platform two_pages fresh m1 = Inr (as', m')"
    by (simp add: cloneself_def clone_area_def fresh two_pages_def sample_platform_def map_extern_def map_page_def visit_def
        pte_valid_def assert_res_def manager_allocate_def alloc_pages_def v_to_p_def p_to_v_def Let_def numeral_2_eq_2
        mem_zero_def owned_def bit_or_iff)
  show ?thesis
    using fork_copies_memory_deeply[OF sample_table_laws sample_alloc_fresh two_pages_ok used 1 2, of "(5, 7)" 6]
    by (auto simp: two_pages_def)
qed

end
