(* ===== verification/User_Calls.thy ===== *)
theory User_Calls
  imports Kernel_Example
begin

text \<open>
  The user side of the system calls: \<open>tg-rcore-tutorial-syscall/src/user.rs\<close>. A function puts
  the number of its call in \<open>a7\<close> and its arguments in \<open>a0\<close> to \<open>a5\<close>, executes \<open>ecall\<close>, and
  answers what comes back in \<open>a0\<close>.

  \<open>ecall\<close> is a parameter \<open>os\<close>: what happens from the trap on, given the registers at the trap
  (\<open>ctx\<close> holds the other registers of the thread). A slice is passed as its address and length
  and a reference as its address. \<open>'a\<close> is the type of the answer; \<open>kernel_os\<close> instantiates
  the parameter with the kernel of this development.
\<close>

type_synonym ('s, 'a) os = "local_context \<Rightarrow> ('s, 'a) kstep"

section \<open>The calling convention\<close>

primrec set_args :: "nat \<Rightarrow> usize list \<Rightarrow> local_context \<Rightarrow> local_context res" where
  "set_args n [] ctx = Inr ctx"
| "set_args n (v # vs) ctx = bind_res (ctx_set_a n v ctx) (set_args (n + 1) vs)"

definition ecall :: "('s, 'a) os \<Rightarrow> local_context \<Rightarrow> syscall_id \<Rightarrow> usize list \<Rightarrow> ('s, 'a) kstep" where
  "ecall os ctx i vs = k_bind (k_lift (bind_res (ctx_set_a 7 i ctx) (set_args 0 vs))) os"

definition syscall0 :: "('s, 'a) os \<Rightarrow> local_context \<Rightarrow> syscall_id \<Rightarrow> ('s, 'a) kstep" where
  "syscall0 os ctx i = ecall os ctx i []"

definition syscall1 :: "('s, 'a) os \<Rightarrow> local_context \<Rightarrow> syscall_id \<Rightarrow> usize \<Rightarrow> ('s, 'a) kstep" where
  "syscall1 os ctx i a0 = ecall os ctx i [a0]"

definition syscall2 :: "('s, 'a) os \<Rightarrow> local_context \<Rightarrow> syscall_id \<Rightarrow> usize \<Rightarrow> usize \<Rightarrow> ('s, 'a) kstep" where
  "syscall2 os ctx i a0 a1 = ecall os ctx i [a0, a1]"

definition syscall3 :: "('s, 'a) os \<Rightarrow> local_context \<Rightarrow> syscall_id \<Rightarrow> usize \<Rightarrow> usize \<Rightarrow> usize \<Rightarrow> ('s, 'a) kstep" where
  "syscall3 os ctx i a0 a1 a2 = ecall os ctx i [a0, a1, a2]"

definition syscall4 :: "('s, 'a) os \<Rightarrow> local_context \<Rightarrow> syscall_id \<Rightarrow> usize \<Rightarrow> usize \<Rightarrow> usize \<Rightarrow> usize \<Rightarrow> ('s, 'a) kstep" where
  "syscall4 os ctx i a0 a1 a2 a3 = ecall os ctx i [a0, a1, a2, a3]"

definition syscall5 :: "('s, 'a) os \<Rightarrow> local_context \<Rightarrow> syscall_id \<Rightarrow> usize \<Rightarrow> usize \<Rightarrow> usize \<Rightarrow> usize \<Rightarrow> usize \<Rightarrow> ('s, 'a) kstep" where
  "syscall5 os ctx i a0 a1 a2 a3 a4 = ecall os ctx i [a0, a1, a2, a3, a4]"

definition syscall6 :: "('s, 'a) os \<Rightarrow> local_context \<Rightarrow> syscall_id \<Rightarrow> usize \<Rightarrow> usize \<Rightarrow> usize \<Rightarrow> usize \<Rightarrow> usize \<Rightarrow> usize \<Rightarrow> ('s, 'a) kstep" where
  "syscall6 os ctx i a0 a1 a2 a3 a4 a5 = ecall os ctx i [a0, a1, a2, a3, a4, a5]"

lemmas syscall_defs = syscall0_def syscall1_def syscall2_def syscall3_def syscall4_def syscall5_def syscall6_def

section \<open>The functions\<close>

definition u_write :: "('s, 'a) os \<Rightarrow> local_context \<Rightarrow> usize \<Rightarrow> usize \<Rightarrow> usize \<Rightarrow> ('s, 'a) kstep" where
  "u_write os ctx fd buf n = syscall3 os ctx id_write fd buf n"

definition u_read :: "('s, 'a) os \<Rightarrow> local_context \<Rightarrow> usize \<Rightarrow> usize \<Rightarrow> usize \<Rightarrow> ('s, 'a) kstep" where
  "u_read os ctx fd buf n = syscall3 os ctx id_read fd buf n"

definition u_open :: "('s, 'a) os \<Rightarrow> local_context \<Rightarrow> usize \<Rightarrow> u32 \<Rightarrow> ('s, 'a) kstep" where
  "u_open os ctx path flags = syscall2 os ctx id_openat path (ucast flags)"

definition u_close :: "('s, 'a) os \<Rightarrow> local_context \<Rightarrow> usize \<Rightarrow> ('s, 'a) kstep" where
  "u_close os ctx fd = syscall1 os ctx id_close fd"

definition u_link :: "('s, 'a) os \<Rightarrow> local_context \<Rightarrow> usize \<Rightarrow> usize \<Rightarrow> ('s, 'a) kstep" where
  "u_link os ctx oldp newp = syscall5 os ctx id_linkat (- 100) oldp (- 100) newp 0"

definition u_unlink :: "('s, 'a) os \<Rightarrow> local_context \<Rightarrow> usize \<Rightarrow> ('s, 'a) kstep" where
  "u_unlink os ctx path = syscall3 os ctx id_unlinkat (- 100) path 0"

definition u_fstat :: "('s, 'a) os \<Rightarrow> local_context \<Rightarrow> usize \<Rightarrow> usize \<Rightarrow> ('s, 'a) kstep" where
  "u_fstat os ctx fd st = syscall2 os ctx id_fstat fd st"

definition u_exit :: "('s, 'a) os \<Rightarrow> local_context \<Rightarrow> i32 \<Rightarrow> ('s, 'a) kstep" where
  "u_exit os ctx exit_code = syscall1 os ctx id_exit (scast exit_code)"

definition u_sched_yield :: "('s, 'a) os \<Rightarrow> local_context \<Rightarrow> ('s, 'a) kstep" where
  "u_sched_yield os ctx = syscall0 os ctx id_sched_yield"

definition u_clock_gettime :: "('s, 'a) os \<Rightarrow> local_context \<Rightarrow> usize \<Rightarrow> usize \<Rightarrow> ('s, 'a) kstep" where
  "u_clock_gettime os ctx clockid tp = syscall2 os ctx id_clock_gettime clockid tp"

definition u_fork :: "('s, 'a) os \<Rightarrow> local_context \<Rightarrow> ('s, 'a) kstep" where
  "u_fork os ctx = syscall0 os ctx id_clone"

definition u_exec :: "('s, 'a) os \<Rightarrow> local_context \<Rightarrow> usize \<Rightarrow> usize \<Rightarrow> ('s, 'a) kstep" where
  "u_exec os ctx path n = syscall2 os ctx id_execve path n"

definition u_getpid :: "('s, 'a) os \<Rightarrow> local_context \<Rightarrow> ('s, 'a) kstep" where
  "u_getpid os ctx = syscall0 os ctx id_getpid"

definition u_spawn :: "('s, 'a) os \<Rightarrow> local_context \<Rightarrow> usize \<Rightarrow> usize \<Rightarrow> ('s, 'a) kstep" where
  "u_spawn os ctx path n = syscall2 os ctx id_spawn path n"

definition u_set_priority :: "('s, 'a) os \<Rightarrow> local_context \<Rightarrow> isize \<Rightarrow> ('s, 'a) kstep" where
  "u_set_priority os ctx prio = syscall1 os ctx id_setpriority prio"

definition u_kill :: "('s, 'a) os \<Rightarrow> local_context \<Rightarrow> isize \<Rightarrow> signal_no \<Rightarrow> ('s, 'a) kstep" where
  "u_kill os ctx target_pid signum = syscall2 os ctx id_kill target_pid (of_nat (signal_code signum))"

definition u_sbrk :: "('s, 'a) os \<Rightarrow> local_context \<Rightarrow> i32 \<Rightarrow> ('s, 'a) kstep" where
  "u_sbrk os ctx bytes = syscall1 os ctx id_brk (scast bytes)"

definition u_sigaction :: "('s, 'a) os \<Rightarrow> local_context \<Rightarrow> signal_no \<Rightarrow> usize \<Rightarrow> usize \<Rightarrow> ('s, 'a) kstep" where
  "u_sigaction os ctx signum action old_action =
     syscall3 os ctx id_rt_sigaction (of_nat (signal_code signum)) action old_action"

definition u_sigprocmask :: "('s, 'a) os \<Rightarrow> local_context \<Rightarrow> usize \<Rightarrow> ('s, 'a) kstep" where
  "u_sigprocmask os ctx m = syscall1 os ctx id_rt_sigprocmask m"

definition u_sigreturn :: "('s, 'a) os \<Rightarrow> local_context \<Rightarrow> ('s, 'a) kstep" where
  "u_sigreturn os ctx = syscall0 os ctx id_rt_sigreturn"

definition u_thread_create :: "('s, 'a) os \<Rightarrow> local_context \<Rightarrow> usize \<Rightarrow> usize \<Rightarrow> ('s, 'a) kstep" where
  "u_thread_create os ctx pc arg = syscall2 os ctx id_thread_create pc arg"

definition u_gettid :: "('s, 'a) os \<Rightarrow> local_context \<Rightarrow> ('s, 'a) kstep" where
  "u_gettid os ctx = syscall0 os ctx id_gettid"

definition u_semaphore_create :: "('s, 'a) os \<Rightarrow> local_context \<Rightarrow> usize \<Rightarrow> ('s, 'a) kstep" where
  "u_semaphore_create os ctx res_count = syscall1 os ctx id_semaphore_create res_count"

definition u_semaphore_up :: "('s, 'a) os \<Rightarrow> local_context \<Rightarrow> usize \<Rightarrow> ('s, 'a) kstep" where
  "u_semaphore_up os ctx sem_id = syscall1 os ctx id_semaphore_up sem_id"

definition u_semaphore_down :: "('s, 'a) os \<Rightarrow> local_context \<Rightarrow> usize \<Rightarrow> ('s, 'a) kstep" where
  "u_semaphore_down os ctx sem_id = syscall1 os ctx id_semaphore_down sem_id"

definition u_mutex_create :: "('s, 'a) os \<Rightarrow> local_context \<Rightarrow> bool \<Rightarrow> ('s, 'a) kstep" where
  "u_mutex_create os ctx blocking = syscall1 os ctx id_mutex_create (of_bool blocking)"

definition u_mutex_lock :: "('s, 'a) os \<Rightarrow> local_context \<Rightarrow> usize \<Rightarrow> ('s, 'a) kstep" where
  "u_mutex_lock os ctx mutex_id = syscall1 os ctx id_mutex_lock mutex_id"

definition u_mutex_unlock :: "('s, 'a) os \<Rightarrow> local_context \<Rightarrow> usize \<Rightarrow> ('s, 'a) kstep" where
  "u_mutex_unlock os ctx mutex_id = syscall1 os ctx id_mutex_unlock mutex_id"

definition u_condvar_create :: "('s, 'a) os \<Rightarrow> local_context \<Rightarrow> ('s, 'a) kstep" where
  "u_condvar_create os ctx = syscall1 os ctx id_condvar_create 0"

definition u_condvar_signal :: "('s, 'a) os \<Rightarrow> local_context \<Rightarrow> usize \<Rightarrow> ('s, 'a) kstep" where
  "u_condvar_signal os ctx condvar_id = syscall1 os ctx id_condvar_signal condvar_id"

definition u_condvar_wait :: "('s, 'a) os \<Rightarrow> local_context \<Rightarrow> usize \<Rightarrow> usize \<Rightarrow> ('s, 'a) kstep" where
  "u_condvar_wait os ctx condvar_id mutex_id = syscall2 os ctx id_condvar_wait condvar_id mutex_id"

definition u_enable_deadlock_detect :: "('s, 'a) os \<Rightarrow> local_context \<Rightarrow> bool \<Rightarrow> ('s, 'a) kstep" where
  "u_enable_deadlock_detect os ctx is_enable = syscall1 os ctx id_enable_deadlock_detect (of_bool is_enable)"

definition u_trace :: "('s, 'a) os \<Rightarrow> local_context \<Rightarrow> usize \<Rightarrow> usize \<Rightarrow> usize \<Rightarrow> ('s, 'a) kstep" where
  "u_trace os ctx request target val = syscall3 os ctx id_trace request target val"

definition u_mmap :: "('s, 'a) os \<Rightarrow> local_context \<Rightarrow> usize \<Rightarrow> usize \<Rightarrow> usize \<Rightarrow> ('s, 'a) kstep" where
  "u_mmap os ctx start n prot = syscall6 os ctx id_mmap start n prot 0 0 0"

definition u_munmap :: "('s, 'a) os \<Rightarrow> local_context \<Rightarrow> usize \<Rightarrow> usize \<Rightarrow> ('s, 'a) kstep" where
  "u_munmap os ctx start n = syscall2 os ctx id_munmap start n"

definition u_pipe :: "('s, 'a) os \<Rightarrow> local_context \<Rightarrow> usize \<Rightarrow> ('s, 'a) kstep" where
  "u_pipe os ctx pipe_fd = syscall1 os ctx id_pipe2 pipe_fd"

lemmas u_defs =
  u_write_def u_read_def u_open_def u_close_def u_link_def u_unlink_def u_fstat_def u_exit_def
  u_sched_yield_def u_clock_gettime_def u_fork_def u_exec_def u_getpid_def u_spawn_def
  u_set_priority_def u_kill_def u_sbrk_def u_sigaction_def u_sigprocmask_def u_sigreturn_def
  u_thread_create_def u_gettid_def u_semaphore_create_def u_semaphore_up_def
  u_semaphore_down_def u_mutex_create_def u_mutex_lock_def u_mutex_unlock_def
  u_condvar_create_def u_condvar_signal_def u_condvar_wait_def u_enable_deadlock_detect_def
  u_trace_def u_mmap_def u_munmap_def u_pipe_def

section \<open>Waiting\<close>

text \<open>
  The loops of \<open>wait\<close>, \<open>waitpid\<close> and \<open>waittid\<close>: as long as the call answers -2, yield and call
  again. They need not end; \<open>None\<close> is a loop that never returns.
\<close>

partial_function (option) retry_loop ::
  "('s, isize) kstep \<Rightarrow> ('s, isize) kstep \<Rightarrow> 's \<Rightarrow> (isize \<times> 's) res option" where
  "retry_loop call pause s =
     (case call s of
        Inl e \<Rightarrow> Some (Inl e)
      | Inr (r, s1) \<Rightarrow>
          if r = - 2 then
            (case pause s1 of Inl e \<Rightarrow> Some (Inl e) | Inr (y, s2) \<Rightarrow> retry_loop call pause s2)
          else Some (Inr (r, s1)))"

definition u_wait :: "('s, isize) os \<Rightarrow> local_context \<Rightarrow> usize \<Rightarrow> 's \<Rightarrow> (isize \<times> 's) res option" where
  "u_wait os ctx exit_code_ptr =
     retry_loop (syscall2 os ctx id_wait4 usize_max exit_code_ptr) (u_sched_yield os ctx)"

definition u_waitpid :: "('s, isize) os \<Rightarrow> local_context \<Rightarrow> isize \<Rightarrow> usize \<Rightarrow> 's \<Rightarrow> (isize \<times> 's) res option" where
  "u_waitpid os ctx p exit_code_ptr =
     retry_loop (syscall2 os ctx id_wait4 p exit_code_ptr) (u_sched_yield os ctx)"

definition u_waittid :: "('s, isize) os \<Rightarrow> local_context \<Rightarrow> usize \<Rightarrow> 's \<Rightarrow> (isize \<times> 's) res option" where
  "u_waittid os ctx t = retry_loop (syscall1 os ctx id_waitid t) (u_sched_yield os ctx)"

text \<open>The states in which the loop calls: after \<open>n\<close> refused calls and yields.\<close>

inductive refused :: "('s, isize) kstep \<Rightarrow> ('s, isize) kstep \<Rightarrow> 's \<Rightarrow> 's \<Rightarrow> bool"
  for call :: "('s, isize) kstep" and pause :: "('s, isize) kstep" where
  none: "refused call pause s s"
| again: "call s = Inr (- 2, s1) \<Longrightarrow> pause s1 = Inr (y, s2) \<Longrightarrow> refused call pause s2 s3 \<Longrightarrow> refused call pause s s3"

lemma retry_loop_answers:
  assumes "refused call pause s s'" "call s' = Inr (r, s'')" "r \<noteq> - 2"
  shows "retry_loop call pause s = Some (Inr (r, s''))"
  using assms by (induction rule: refused.induct) (subst retry_loop.simps; simp)+

lemma retry_loop_answer_cases:
  assumes "retry_loop call pause s = Some (Inr (r, s''))"
  shows "r \<noteq> - 2 \<and> (\<exists>s'. refused call pause s s' \<and> call s' = Inr (r, s''))"
proof -
  have "\<And>x r s''. retry_loop call pause s = Some x \<Longrightarrow> x = Inr (r, s'') \<Longrightarrow>
      r \<noteq> - 2 \<and> (\<exists>s'. refused call pause s s' \<and> call s' = Inr (r, s''))"
  proof (rule retry_loop.raw_induct
      [where P = "\<lambda>call pause s x. \<forall>r s''. x = Inr (r, s'') \<longrightarrow>
         r \<noteq> - 2 \<and> (\<exists>s'. refused call pause s s' \<and> call s' = Inr (r, s''))", rule_format], goal_cases)
    case (1 loop call pause s x r s'')
    then show ?case
      by (auto split: sum.splits prod.splits if_splits intro: refused.intros) (metis refused.intros)+
  qed auto
  then show ?thesis using assms by blast
qed

section \<open>Calls into the kernel\<close>

definition kernel_os :: "'pt platform \<Rightarrow> ('pt kernel, syscall_result) os" where
  "kernel_os pf ctx = k_bind (k_lift (call_args ctx)) (\<lambda>(i, a). handle pf i a)"

definition answered :: "('s, isize) kstep \<Rightarrow> ('s, syscall_result) kstep" where
  "answered f = k_bind f (\<lambda>r. k_ret (Done r))"

definition args_of :: "usize list \<Rightarrow> local_context \<Rightarrow> args" where
  "args_of vs ctx =
     (let r = \<lambda>n. if n < length vs then vs ! n else xs ctx ! (n + 9) in
      \<lparr>arg0 = r 0, arg1 = r 1, arg2 = r 2, arg3 = r 3, arg4 = r 4, arg5 = r 5\<rparr>)"

lemma set_args_eq:
  "ctx_ok ctx \<Longrightarrow> n + length vs \<le> 7 \<Longrightarrow>
   \<exists>c. set_args n vs ctx = Inr c \<and> ctx_ok c \<and>
     (\<forall>j < 31. xs c ! j = (if n + 9 \<le> j \<and> j < n + 9 + length vs then vs ! (j - (n + 9)) else xs ctx ! j))"
proof (induction vs arbitrary: n ctx)
  case (Cons v vs)
  define c1 where "c1 = ctx\<lparr>xs := (xs ctx)[n + 9 := v]\<rparr>"
  have ok: "ctx_ok c1" using Cons.prems(1) by (simp add: c1_def ctx_ok_def)
  obtain c where c: "set_args (n + 1) vs c1 = Inr c" "ctx_ok c" and regs:
    "\<forall>j < 31. xs c ! j = (if n + 1 + 9 \<le> j \<and> j < n + 1 + 9 + length vs then vs ! (j - (n + 1 + 9)) else xs c1 ! j)"
    using Cons.IH[OF ok, of "n + 1"] Cons.prems(2) by auto
  have "set_args n (v # vs) ctx = Inr c"
    using c(1) Cons.prems by (simp add: ctx_set_a_eq c1_def)
  moreover have "xs c ! j = (if n + 9 \<le> j \<and> j < n + 9 + length (v # vs) then (v # vs) ! (j - (n + 9)) else xs ctx ! j)"
    if "j < 31" for j
    using regs that Cons.prems by (auto simp: c1_def ctx_ok_def nth_list_update nth_Cons' Suc_diff_Suc split: if_splits)
  ultimately show ?case using c(2) by blast
qed auto

lemma kernel_ecall:
  assumes ok: "ctx_ok ctx" and n: "length vs \<le> 6"
  shows "ecall (kernel_os pf) ctx i vs = handle pf i (args_of vs ctx)"
proof -
  define c0 where "c0 = ctx\<lparr>xs := (xs ctx)[16 := i]\<rparr>"
  have ok0: "ctx_ok c0" using ok by (simp add: c0_def ctx_ok_def)
  obtain c where c: "set_args 0 vs c0 = Inr c" "ctx_ok c" and regs:
    "\<And>j. j < 31 \<Longrightarrow> xs c ! j = (if 9 \<le> j \<and> j < 9 + length vs then vs ! (j - 9) else xs c0 ! j)"
    using set_args_eq[OF ok0, of 0 vs] n by auto
  have "xs c ! 16 = i" using regs[of 16] n ok by (simp add: c0_def ctx_ok_def)
  then have "call_args c = Inr (i, args_of vs ctx)"
    using c(2) regs[of 9] regs[of 10] regs[of 11] regs[of 12] regs[of 13] regs[of 14]
    by (simp add: call_args_def ctx_a_eq args_of_def Let_def c0_def)
  moreover have "bind_res (ctx_set_a 7 i ctx) (set_args 0 vs) = Inr c"
    using c(1) ok by (simp add: ctx_set_a_eq c0_def)
  ultimately show ?thesis
    by (simp add: ecall_def kernel_os_def fun_eq_iff k_bind_def k_lift_def k_read_def)
qed

lemmas handle_defs =
  handle_def call_table_def io_calls_def process_calls_def signal_calls_def thread_calls_def sync_calls_def
  container_call_def initialised_def syscall_ids

lemma args_of_sel [simp]:
  "arg0 (args_of (a # vs) ctx) = a" "arg1 (args_of (a # b # vs) ctx) = b" "arg2 (args_of (a # b # c # vs) ctx) = c"
  by (simp_all add: args_of_def)

lemma ucast_of_nat_u8 [simp]: "(ucast (of_nat k :: usize) :: u8) = of_nat k"
  by (simp add: unsigned_of_nat word_of_nat_eq_iff take_bit_take_bit)

lemmas user_call_eval = kernel_ecall u_defs syscall_defs handle_defs answered_def

lemma user_io_calls:
  assumes "ctx_ok ctx"
  shows
    "u_write (kernel_os pf) ctx fd buf n = answered (sys_write pf fd buf n)"
    "u_read (kernel_os pf) ctx fd buf n = answered (sys_read pf fd buf n)"
    "u_open (kernel_os pf) ctx path flags = answered (sys_open pf path (ucast flags))"
    "u_close (kernel_os pf) ctx fd = answered (sys_close fd)"
    "u_pipe (kernel_os pf) ctx pipe_fd = answered (sys_pipe pf pipe_fd)"
  using assms by (simp_all add: user_call_eval)

lemma user_process_calls:
  assumes "ctx_ok ctx"
  shows
    "u_exit (kernel_os pf) ctx exit_code = answered (sys_exit (scast exit_code))"
    "u_fork (kernel_os pf) ctx = answered (sys_fork pf)"
    "u_exec (kernel_os pf) ctx path n = answered (sys_exec pf path n)"
    "u_getpid (kernel_os pf) ctx = answered sys_getpid"
    "u_sched_yield (kernel_os pf) ctx = answered sys_sched_yield"
    "u_clock_gettime (kernel_os pf) ctx clockid tp = answered (sys_clock_gettime pf clockid tp)"
  using assms by (simp_all add: user_call_eval)

lemma user_signal_calls:
  assumes "ctx_ok ctx"
  shows
    "u_kill (kernel_os pf) ctx target_pid signum = answered (sys_kill target_pid (of_nat (signal_code signum)))"
    "u_sigaction (kernel_os pf) ctx signum action old_action = answered (sys_sigaction pf (of_nat (signal_code signum)) action old_action)"
    "u_sigprocmask (kernel_os pf) ctx m = answered (sys_sigprocmask m)"
    "u_sigreturn (kernel_os pf) ctx = answered sys_sigreturn"
  using assms by (simp_all add: user_call_eval)

lemma user_thread_calls:
  assumes "ctx_ok ctx"
  shows
    "u_thread_create (kernel_os pf) ctx pc arg = answered (sys_thread_create pf pc arg)"
    "u_gettid (kernel_os pf) ctx = answered sys_gettid"
  using assms by (simp_all add: user_call_eval)

lemma user_sync_calls:
  assumes "ctx_ok ctx"
  shows
    "u_semaphore_create (kernel_os pf) ctx res_count = answered (sys_semaphore_create res_count)"
    "u_semaphore_up (kernel_os pf) ctx sem_id = answered (sys_semaphore_up sem_id)"
    "u_semaphore_down (kernel_os pf) ctx sem_id = answered (sys_semaphore_down sem_id)"
    "u_mutex_create (kernel_os pf) ctx blocking = answered (sys_mutex_create blocking)"
    "u_mutex_lock (kernel_os pf) ctx mutex_id = answered (sys_mutex_lock mutex_id)"
    "u_mutex_unlock (kernel_os pf) ctx mutex_id = answered (sys_mutex_unlock mutex_id)"
    "u_condvar_create (kernel_os pf) ctx = answered sys_condvar_create"
    "u_condvar_signal (kernel_os pf) ctx condvar_id = answered (sys_condvar_signal condvar_id)"
    "u_condvar_wait (kernel_os pf) ctx condvar_id mutex_id = answered (sys_condvar_wait condvar_id mutex_id)"
    "u_enable_deadlock_detect (kernel_os pf) ctx is_enable = answered (sys_enable_deadlock_detect (of_bool is_enable))"
  using assms by (simp_all add: user_call_eval)

text \<open>C28: The user functions and the kernel agree on the calling convention: with the registers of any thread,
each function runs exactly the kernel's implementation of its call, with the same arguments in the same places.\<close>

theorem user_calls_reach_the_kernel:
  assumes "ctx_ok ctx"
  shows "u_write (kernel_os pf) ctx fd buf n = answered (sys_write pf fd buf n) \<and>
    u_read (kernel_os pf) ctx fd buf n = answered (sys_read pf fd buf n) \<and>
    u_open (kernel_os pf) ctx path flags = answered (sys_open pf path (ucast flags)) \<and>
    u_close (kernel_os pf) ctx fd = answered (sys_close fd) \<and>
    u_pipe (kernel_os pf) ctx pipe_fd = answered (sys_pipe pf pipe_fd) \<and>
    u_exit (kernel_os pf) ctx exit_code = answered (sys_exit (scast exit_code)) \<and>
    u_fork (kernel_os pf) ctx = answered (sys_fork pf) \<and>
    u_exec (kernel_os pf) ctx path n = answered (sys_exec pf path n) \<and>
    u_getpid (kernel_os pf) ctx = answered sys_getpid \<and>
    u_sched_yield (kernel_os pf) ctx = answered sys_sched_yield \<and>
    u_clock_gettime (kernel_os pf) ctx clockid tp = answered (sys_clock_gettime pf clockid tp) \<and>
    u_kill (kernel_os pf) ctx target_pid signum = answered (sys_kill target_pid (of_nat (signal_code signum))) \<and>
    u_sigaction (kernel_os pf) ctx signum action old_action = answered (sys_sigaction pf (of_nat (signal_code signum)) action old_action) \<and>
    u_sigprocmask (kernel_os pf) ctx m = answered (sys_sigprocmask m) \<and>
    u_sigreturn (kernel_os pf) ctx = answered sys_sigreturn \<and>
    u_thread_create (kernel_os pf) ctx pc arg = answered (sys_thread_create pf pc arg) \<and>
    u_gettid (kernel_os pf) ctx = answered sys_gettid \<and>
    u_semaphore_create (kernel_os pf) ctx res_count = answered (sys_semaphore_create res_count) \<and>
    u_semaphore_up (kernel_os pf) ctx sem_id = answered (sys_semaphore_up sem_id) \<and>
    u_semaphore_down (kernel_os pf) ctx sem_id = answered (sys_semaphore_down sem_id) \<and>
    u_mutex_create (kernel_os pf) ctx blocking = answered (sys_mutex_create blocking) \<and>
    u_mutex_lock (kernel_os pf) ctx mutex_id = answered (sys_mutex_lock mutex_id) \<and>
    u_mutex_unlock (kernel_os pf) ctx mutex_id = answered (sys_mutex_unlock mutex_id) \<and>
    u_condvar_create (kernel_os pf) ctx = answered sys_condvar_create \<and>
    u_condvar_signal (kernel_os pf) ctx condvar_id = answered (sys_condvar_signal condvar_id) \<and>
    u_condvar_wait (kernel_os pf) ctx condvar_id mutex_id = answered (sys_condvar_wait condvar_id mutex_id) \<and>
    u_enable_deadlock_detect (kernel_os pf) ctx is_enable = answered (sys_enable_deadlock_detect (of_bool is_enable))"
  using assms by (simp add: user_io_calls user_process_calls user_signal_calls user_thread_calls user_sync_calls)

theorem user_calls_reach_the_kernel_witness:
  "u_sched_yield (kernel_os sample_platform) (ctx_user 4096) (sample_kernel sample_process [] :: (nat \<times> pte) list kernel) =
     Inr (Done 0, sample_kernel sample_process []) \<and>
   u_kill (kernel_os sample_platform) (ctx_user 4096) 7 SIGUSR1 = answered (sys_kill 7 10)"
  using user_calls_reach_the_kernel[of "ctx_user 4096" sample_platform]
  by (simp add: answered_def k_bind_def k_ret_def sys_sched_yield_def signal_codes)

text \<open>C29: \<open>waitpid\<close> returns exactly when one of its calls answers something else than -2, each call preceded by the
refused calls and yields before it; the answer is that of the first such call.\<close>

theorem waitpid_returns_first_answer:
  "u_waitpid os ctx p ptr s = Some (Inr (r, s'')) \<longleftrightarrow>
     r \<noteq> - 2 \<and>
     (\<exists>s'. refused (syscall2 os ctx id_wait4 p ptr) (u_sched_yield os ctx) s s' \<and>
        syscall2 os ctx id_wait4 p ptr s' = Inr (r, s''))"
  unfolding u_waitpid_def using retry_loop_answers retry_loop_answer_cases by metis

end
