(* ===== verification/User_Lib.thy ===== *)
theory User_Lib
  imports Pipe Syscalls
begin

text \<open>
  The library of the user programs, \<open>tg-rcore-tutorial-user/src/lib.rs\<close>: what it builds from
  system calls. \<open>user_os\<close> holds the calls it makes; a \<open>&mut\<close> argument is passed as its value,
  and its new value is part of the answer. Loops that may not end answer \<open>None\<close> then.

  Two locales state what the pipe loops need of the system: a pipe that takes or gives at least
  a byte unless it refuses, and only so many refusals in a row. They are interpreted on the
  kernel's pipe of 32 bytes with another process at its other end.
\<close>

record 's user_os =
  clock_call :: "clock_id \<Rightarrow> time_spec \<Rightarrow> ('s, isize \<times> time_spec) kstep"
  read_call :: "usize \<Rightarrow> u8 list \<Rightarrow> ('s, isize \<times> u8 list) kstep"
  write_call :: "usize \<Rightarrow> u8 list \<Rightarrow> ('s, isize) kstep"
  yield_call :: "('s, isize) kstep"
  trace_call :: "usize \<Rightarrow> usize \<Rightarrow> usize \<Rightarrow> ('s, isize) kstep"
  exit_call :: "i32 \<Rightarrow> ('s, isize) kstep"

section \<open>Start and console\<close>

text \<open>\<open>_start\<close>: \<open>init\<close> sets up console and heap; the program ends with \<open>exit\<close>, after which
nothing may come.\<close>

definition user_start :: "'s user_os \<Rightarrow> ('s, unit) kstep \<Rightarrow> ('s, i32) kstep \<Rightarrow> ('s, unit) kstep" where
  "user_start os init main =
     k_bind init (\<lambda>_. k_bind main (\<lambda>r. k_bind (exit_call os r) (\<lambda>_. k_lift (Inl Unreachable))))"

definition user_getchar :: "'s user_os \<Rightarrow> ('s, u8) kstep" where
  "user_getchar os = k_bind (read_call os stdin [0]) (\<lambda>(r, c). k_lift (nth_res c 0))"

definition put_char :: "'s user_os \<Rightarrow> u8 \<Rightarrow> ('s, unit) kstep" where
  "put_char os c = k_bind (write_call os stdout [c]) (\<lambda>_. k_ret ())"

definition put_str :: "'s user_os \<Rightarrow> u8 list \<Rightarrow> ('s, unit) kstep" where
  "put_str os s = k_bind (write_call os stdout s) (\<lambda>_. k_ret ())"

section \<open>Time\<close>

definition read_clock :: "'s user_os \<Rightarrow> ('s, time_spec) kstep" where
  "read_clock os = k_bind (clock_call os clock_monotonic time_zero) (\<lambda>(r, t). k_ret t)"

definition get_time :: "'s user_os \<Rightarrow> ('s, isize) kstep" where
  "get_time os =
     k_bind (read_clock os) (\<lambda>t.
       k_lift (bind_res (times_usize (tv_sec t) 1000) (\<lambda>ms. plus_usize ms (tv_nsec t div 1000000))))"

partial_function (option) sleep_loop :: "'s user_os \<Rightarrow> time_spec \<Rightarrow> 's \<Rightarrow> (unit \<times> 's) res option" where
  "sleep_loop os deadline s =
     (case read_clock os s of
        Inl e \<Rightarrow> Some (Inl e)
      | Inr (now, s1) \<Rightarrow>
          if time_less deadline now then Some (Inr ((), s1))
          else
            (case yield_call os s1 of
               Inl e \<Rightarrow> Some (Inl e)
             | Inr (y, s2) \<Rightarrow> sleep_loop os deadline s2))"

definition sleep :: "'s user_os \<Rightarrow> usize \<Rightarrow> 's \<Rightarrow> (unit \<times> 's) res option" where
  "sleep os period_ms s =
     (case read_clock os s of
        Inl e \<Rightarrow> Some (Inl e)
      | Inr (t, s1) \<Rightarrow>
          (case time_add t (from_millsecond period_ms) of
             Inl e \<Rightarrow> Some (Inl e)
           | Inr deadline \<Rightarrow> sleep_loop os deadline s1))"

section \<open>Tracing\<close>

definition trace_read :: "'s user_os \<Rightarrow> usize \<Rightarrow> ('s, u8 option) kstep" where
  "trace_read os ptr =
     k_bind (trace_call os 0 ptr 0) (\<lambda>ret.
       k_ret (if 0 \<le> sint ret \<and> sint ret \<le> 255 then Some (ucast ret) else None))"

definition trace_write :: "'s user_os \<Rightarrow> usize \<Rightarrow> u8 \<Rightarrow> ('s, isize) kstep" where
  "trace_write os ptr val = trace_call os 1 ptr (ucast val)"

definition count_syscall :: "'s user_os \<Rightarrow> usize \<Rightarrow> ('s, isize) kstep" where
  "count_syscall os syscall_no = trace_call os 2 syscall_no 0"

section \<open>Pipes\<close>

partial_function (option) read_loop ::
  "'s user_os \<Rightarrow> usize \<Rightarrow> nat \<Rightarrow> u8 list \<Rightarrow> 's \<Rightarrow> ((isize \<times> u8 list) \<times> 's) res option" where
  "read_loop os fd total_read buf s =
     (if length buf \<le> total_read then Some (Inr ((of_nat total_read, buf), s))
      else
        (case read_call os fd (drop total_read buf) s of
           Inl e \<Rightarrow> Some (Inl e)
         | Inr ((ret, part), s1) \<Rightarrow>
             let buf1 = take total_read buf @ part in
             if ret = - 2 then
               (case yield_call os s1 of
                  Inl e \<Rightarrow> Some (Inl e)
                | Inr (y, s2) \<Rightarrow> read_loop os fd total_read buf1 s2)
             else if ret = 0 then Some (Inr ((of_nat total_read, buf1), s1))
             else if sint ret < 0 then Some (Inr ((ret, buf1), s1))
             else if total_read + unat ret < 2 ^ 64 then read_loop os fd (total_read + unat ret) buf1 s1
             else Some (Inl ArithOverflow)))"

definition user_pipe_read :: "'s user_os \<Rightarrow> usize \<Rightarrow> u8 list \<Rightarrow> 's \<Rightarrow> ((isize \<times> u8 list) \<times> 's) res option" where
  "user_pipe_read os fd buf = read_loop os fd 0 buf"

partial_function (option) write_loop ::
  "'s user_os \<Rightarrow> usize \<Rightarrow> nat \<Rightarrow> u8 list \<Rightarrow> 's \<Rightarrow> (isize \<times> 's) res option" where
  "write_loop os fd total_write buf s =
     (if length buf \<le> total_write then Some (Inr (of_nat total_write, s))
      else
        (case write_call os fd (drop total_write buf) s of
           Inl e \<Rightarrow> Some (Inl e)
         | Inr (ret, s1) \<Rightarrow>
             if ret = - 2 then
               (case yield_call os s1 of
                  Inl e \<Rightarrow> Some (Inl e)
                | Inr (y, s2) \<Rightarrow> write_loop os fd total_write buf s2)
             else if sint ret < 0 then Some (Inr (ret, s1))
             else if total_write + unat ret < 2 ^ 64 then write_loop os fd (total_write + unat ret) buf s1
             else Some (Inl ArithOverflow)))"

definition user_pipe_write :: "'s user_os \<Rightarrow> usize \<Rightarrow> u8 list \<Rightarrow> 's \<Rightarrow> (isize \<times> 's) res option" where
  "user_pipe_write os fd buf = write_loop os fd 0 buf"

section \<open>What the loops need of the system\<close>

lemma small_answer: "0 < n \<Longrightarrow> n < 2 ^ 63 \<Longrightarrow> (of_nat n :: isize) \<noteq> - 2 \<and> (of_nat n :: isize) \<noteq> 0 \<and>
    0 \<le> sint (of_nat n :: isize) \<and> unat (of_nat n :: isize) = n"
proof (intro conjI)
  assume n: "0 < n" "n < 2 ^ 63"
  then show u: "unat (of_nat n :: isize) = n" by (simp add: unat_of_nat)
  show "(of_nat n :: isize) \<noteq> - 2" "(of_nat n :: isize) \<noteq> 0" using u n by auto
  show "0 \<le> sint (of_nat n :: isize)"
    using n by (simp add: signed_of_nat signed_take_bit_eq_if_positive bit_iff_odd)
qed

locale pipe_writes =
  fixes os :: "'s user_os" and fd :: usize
    and good :: "'s \<Rightarrow> bool" and sent :: "'s \<Rightarrow> u8 list" and patience :: "'s \<Rightarrow> nat"
  assumes write_some: "\<And>s bs. good s \<Longrightarrow> bs \<noteq> [] \<Longrightarrow> length bs < 2 ^ 63 \<Longrightarrow>
      \<exists>r s'. write_call os fd bs s = Inr (r, s') \<and> good s' \<and>
        (r = - 2 \<and> sent s' = sent s \<and> 0 < patience s' \<and> patience s' \<le> patience s \<or>
         (\<exists>n. 0 < n \<and> n \<le> length bs \<and> r = of_nat n \<and> sent s' = sent s @ take n bs))"
    and yield_waits: "\<And>s. good s \<Longrightarrow>
      \<exists>y s'. yield_call os s = Inr (y, s') \<and> good s' \<and> sent s' = sent s \<and>
        (0 < patience s \<longrightarrow> patience s' < patience s)"
begin

lemma write_loop_sends:
  assumes "good s" "total_write \<le> length buf" "length buf < 2 ^ 63"
  shows "\<exists>s'. write_loop os fd total_write buf s = Some (Inr (of_nat (length buf), s')) \<and> good s' \<and>
    sent s' = sent s @ drop total_write buf"
  using assms
proof (induction "(length buf - total_write, patience s)" arbitrary: total_write s
    rule: wf_induct_rule[OF wf_lex_prod[OF wf_less_than wf_less_than]])
  case 1
  note IH = 1(1) and good = 1(2) and le = 1(3) and len = 1(4)
  show ?case
  proof (cases "length buf \<le> total_write")
    case True
    then show ?thesis using good le by (subst write_loop.simps) simp
  next
    case False
    then have part: "drop total_write buf \<noteq> []" "length (drop total_write buf) < 2 ^ 63" using len by auto
    obtain r s1 where w: "write_call os fd (drop total_write buf) s = Inr (r, s1)" "good s1" and
      r: "r = - 2 \<and> sent s1 = sent s \<and> 0 < patience s1 \<and> patience s1 \<le> patience s \<or>
        (\<exists>n. 0 < n \<and> n \<le> length (drop total_write buf) \<and> r = of_nat n \<and> sent s1 = sent s @ take n (drop total_write buf))"
      using write_some[OF good part] by blast
    from r show ?thesis
    proof (elim disjE exE conjE)
      assume refused: "r = - 2" "sent s1 = sent s" "0 < patience s1" "patience s1 \<le> patience s"
      obtain y s2 where y: "yield_call os s1 = Inr (y, s2)" "good s2" "sent s2 = sent s1" "patience s2 < patience s1"
        using yield_waits[OF w(2)] refused(3) by blast
      then show ?thesis
        using IH[of total_write s2] le len False w(1) refused by (subst write_loop.simps) auto
    next
      fix n assume n: "0 < n" "n \<le> length (drop total_write buf)" "r = of_nat n"
        "sent s1 = sent s @ take n (drop total_write buf)"
      have less_63: "n < 2 ^ 63" using n(2) len by simp
      have small: "r \<noteq> - 2" "\<not> sint r < 0" "unat r = n" "total_write + n < 2 ^ 64"
        using small_answer[OF n(1) less_63] n(3) less_63 len le by simp_all
      have step: "length buf - (total_write + n) < length buf - total_write" "total_write + n \<le> length buf"
        using n(1,2) False by auto
      obtain s' where "write_loop os fd (total_write + n) buf s1 = Some (Inr (of_nat (length buf), s'))" "good s'"
        "sent s' = sent s1 @ drop (total_write + n) buf"
        using IH[of "total_write + n" s1] step w(2) len by auto
      moreover have "take n (drop total_write buf) @ drop (total_write + n) buf = drop total_write buf"
        by (metis append_take_drop_id drop_drop add.commute)
      ultimately show ?thesis
        using w(1) small n(4) False by (subst write_loop.simps) auto
    qed
  qed
qed

lemma user_pipe_write_sends:
  assumes "good s" "length buf < 2 ^ 63"
  shows "\<exists>s'. user_pipe_write os fd buf s = Some (Inr (of_nat (length buf), s')) \<and> good s' \<and>
    sent s' = sent s @ buf"
  using write_loop_sends[of s 0 buf] assms by (simp add: user_pipe_write_def)

end

locale pipe_reads =
  fixes os :: "'s user_os" and fd :: usize
    and good :: "'s \<Rightarrow> bool" and incoming :: "'s \<Rightarrow> u8 list" and patience :: "'s \<Rightarrow> nat"
  assumes read_some: "\<And>s buf. good s \<Longrightarrow> buf \<noteq> [] \<Longrightarrow> length buf < 2 ^ 63 \<Longrightarrow>
      \<exists>r part s'. read_call os fd buf s = Inr ((r, part), s') \<and> good s' \<and>
        (r = - 2 \<and> part = buf \<and> incoming s' = incoming s \<and> 0 < patience s' \<and> patience s' \<le> patience s \<or>
         r = 0 \<and> part = buf \<and> incoming s = [] \<and> incoming s' = [] \<or>
         (\<exists>n. 0 < n \<and> n \<le> length buf \<and> n \<le> length (incoming s) \<and> r = of_nat n \<and>
            part = take n (incoming s) @ drop n buf \<and> incoming s' = drop n (incoming s)))"
    and yield_waits: "\<And>s. good s \<Longrightarrow>
      \<exists>y s'. yield_call os s = Inr (y, s') \<and> good s' \<and> incoming s' = incoming s \<and>
        (0 < patience s \<longrightarrow> patience s' < patience s)"
begin

lemma read_loop_receives:
  assumes "good s" "total_read \<le> length buf" "length buf < 2 ^ 63"
  shows "\<exists>s'. read_loop os fd total_read buf s =
      Some (Inr ((of_nat (min (length buf) (total_read + length (incoming s))),
        take total_read buf @ take (length buf - total_read) (incoming s) @
          drop (total_read + length (incoming s)) buf), s')) \<and> good s' \<and>
    incoming s' = drop (length buf - total_read) (incoming s)"
  using assms
proof (induction "(length buf - total_read, patience s)" arbitrary: total_read s buf
    rule: wf_induct_rule[OF wf_lex_prod[OF wf_less_than wf_less_than]])
  case 1
  note IH = 1(1) and good = 1(2) and le = 1(3) and len = 1(4)
  show ?case
  proof (cases "length buf \<le> total_read")
    case True
    then show ?thesis using good le by (subst read_loop.simps) simp
  next
    case False
    let ?rest = "drop total_read buf"
    have part: "?rest \<noteq> []" "length ?rest < 2 ^ 63" using False len by auto
    obtain r got s1 where w: "read_call os fd ?rest s = Inr ((r, got), s1)" "good s1" and
      r: "r = - 2 \<and> got = ?rest \<and> incoming s1 = incoming s \<and> 0 < patience s1 \<and> patience s1 \<le> patience s \<or>
        r = 0 \<and> got = ?rest \<and> incoming s = [] \<and> incoming s1 = [] \<or>
        (\<exists>n. 0 < n \<and> n \<le> length ?rest \<and> n \<le> length (incoming s) \<and> r = of_nat n \<and>
          got = take n (incoming s) @ drop n ?rest \<and> incoming s1 = drop n (incoming s))"
      using read_some[OF good part] by blast
    from r show ?thesis
    proof (elim disjE exE conjE)
      assume refused: "r = - 2" "got = ?rest" "incoming s1 = incoming s" "0 < patience s1" "patience s1 \<le> patience s"
      obtain y s2 where y: "yield_call os s1 = Inr (y, s2)" "good s2" "incoming s2 = incoming s1" "patience s2 < patience s1"
        using yield_waits[OF w(2)] refused(4) by blast
      then show ?thesis
        using IH[of buf total_read s2] le len False w(1) refused by (subst read_loop.simps) (auto simp: Let_def)
    next
      assume "r = 0" "got = ?rest" "incoming s = []" "incoming s1 = []"
      then show ?thesis using w False by (subst read_loop.simps) (simp add: Let_def)
    next
      fix n assume n: "0 < n" "n \<le> length ?rest" "n \<le> length (incoming s)" "r = of_nat n"
        "got = take n (incoming s) @ drop n ?rest" "incoming s1 = drop n (incoming s)"
      let ?buf = "take total_read buf @ got"
      have lb: "length ?buf = length buf" using n False by simp
      have less_63: "n < 2 ^ 63" using n(2) len by simp
      have small: "r \<noteq> - 2" "r \<noteq> 0" "\<not> sint r < 0" "unat r = n" "total_read + n < 2 ^ 64"
        using small_answer[OF n(1) less_63] n(4) less_63 len False by simp_all
      have step: "length buf - (total_read + n) < length buf - total_read" "total_read + n \<le> length buf"
        using n(1,2) False by auto
      obtain s' where "read_loop os fd (total_read + n) ?buf s1 =
          Some (Inr ((of_nat (min (length buf) (total_read + n + length (incoming s1))),
            take (total_read + n) ?buf @ take (length buf - (total_read + n)) (incoming s1) @
              drop (total_read + n + length (incoming s1)) ?buf), s'))" "good s'"
          "incoming s' = drop (length buf - (total_read + n)) (incoming s1)"
        using IH[of ?buf "total_read + n" s1] step w(2) len unfolding lb by auto
      moreover have "total_read + n + length (incoming s1) = total_read + length (incoming s)"
        using n by simp
      moreover have "drop (length buf - (total_read + n)) (incoming s1) = drop (length buf - total_read) (incoming s)"
        using n by simp
      moreover have "take (total_read + n) ?buf @ take (length buf - (total_read + n)) (incoming s1) =
          take total_read buf @ take (length buf - total_read) (incoming s)"
      proof -
        have "take (total_read + n) ?buf = take total_read buf @ take n (incoming s)"
          using n False by simp
        moreover have "take n (incoming s) @ take (length buf - (total_read + n)) (drop n (incoming s)) =
            take (length buf - total_read) (incoming s)"
          unfolding take_add[symmetric] using step(2) by simp
        ultimately show ?thesis using n(6) by simp
      qed
      moreover have "drop (total_read + length (incoming s)) ?buf = drop (total_read + length (incoming s)) buf"
        using n False by (simp add: add.commute)
      ultimately show ?thesis
        using w(1) small False by (subst read_loop.simps) (auto simp: Let_def)
    qed
  qed
qed

lemma user_pipe_read_receives:
  assumes "good s" "length buf < 2 ^ 63"
  shows "\<exists>s'. user_pipe_read os fd buf s =
      Some (Inr ((of_nat (min (length buf) (length (incoming s))),
        take (length buf) (incoming s) @ drop (length (incoming s)) buf), s')) \<and> good s' \<and>
    incoming s' = drop (length buf) (incoming s)"
  using read_loop_receives[of s 0 buf] assms by (simp add: user_pipe_read_def)

end

section \<open>The kernel's pipe\<close>

text \<open>
  A writer meets the pipe of the kernel with another process at the other end: each time the
  writer yields, the reader's turn comes after \<open>delay\<close> yields, and it reads a buffer of \<open>chunk\<close>
  bytes. \<open>received\<close> is what it has read.
\<close>

record channel_end =
  chan :: pipe
  waits :: nat

record writer_side = channel_end +
  received :: "u8 list"

definition reader_turn :: "nat \<Rightarrow> nat \<Rightarrow> (writer_side, isize) kstep" where
  "reader_turn chunk delay w =
     (if waits w = 0 then
        bind_res (pipe_read [replicate chunk 0] (chan w)) (\<lambda>(n, bufs, p).
          Inr (0, w\<lparr>chan := p, waits := delay,
                    received := received w @ (if 0 \<le> sint n then take (unat n) (concat bufs) else [])\<rparr>))
      else Inr (0, w\<lparr>waits := waits w - 1\<rparr>))"

definition writer_os :: "nat \<Rightarrow> nat \<Rightarrow> writer_side user_os" where
  "writer_os chunk delay =
     \<lparr>clock_call = (\<lambda>_ _ _. Inl NotImplemented), read_call = (\<lambda>_ _ _. Inl NotImplemented),
      write_call = (\<lambda>_ bs w. bind_res (pipe_write [bs] (chan w)) (\<lambda>(n, p). Inr (n, w\<lparr>chan := p\<rparr>))),
      yield_call = reader_turn chunk delay, trace_call = (\<lambda>_ _ _ _. Inl NotImplemented),
      exit_call = (\<lambda>_ _. Inl NotImplemented)\<rparr>"

definition queued :: "pipe \<Rightarrow> u8 list" where
  "queued p = pipe_bytes (ring p)"

definition writer_good :: "nat \<Rightarrow> writer_side \<Rightarrow> bool" where
  "writer_good chunk w \<longleftrightarrow> 0 < chunk \<and> chunk < 2 ^ 63 \<and> ring_ok (ring (chan w)) \<and> write_end (ring (chan w))"

definition writer_sent :: "writer_side \<Rightarrow> u8 list" where
  "writer_sent w = received w @ queued (chan w)"

definition writer_patience :: "writer_side \<Rightarrow> nat" where
  "writer_patience w = (if length (queued (chan w)) = 32 then waits w + 1 else 0)"

lemma ub_ok_single [simp]: "ub_ok [bs] \<longleftrightarrow> bs \<noteq> []"
  by (auto simp: ub_ok_def)

lemma queued_bound: "ring_ok (ring p) \<Longrightarrow> length (queued p) \<le> 32"
  using available_bound by (simp add: queued_def)

interpretation kernel_writer: pipe_writes "writer_os chunk delay" fd "writer_good chunk" writer_sent writer_patience
  for chunk delay fd
proof
  fix w and bs :: "u8 list" assume good: "writer_good chunk w" and bs: "bs \<noteq> []" "length bs < 2 ^ 63"
  let ?q = "queued (chan w)"
  obtain r' where run: "pipe_write [bs] (chan w) =
      Inr (if length ?q = 32 then - 2 else of_nat (min (32 - length ?q) (length bs)), (chan w)\<lparr>ring := r'\<rparr>)"
    and r': "ring_ok r'" "write_end r'" "pipe_bytes r' = ?q @ take (32 - length ?q) bs"
    using pipe_write_eq[of "chan w" "[bs]"] good bs by (auto simp: queued_def writer_good_def)
  have q: "length ?q \<le> 32" using good queued_bound by (simp add: writer_good_def)
  let ?w = "w\<lparr>chan := (chan w)\<lparr>ring := r'\<rparr>\<rparr>"
  have ok: "writer_good chunk ?w" using good r' by (simp add: writer_good_def)
  have call: "write_call (writer_os chunk delay) fd bs w =
      Inr (if length ?q = 32 then - 2 else of_nat (min (32 - length ?q) (length bs)), ?w)"
    using run by (simp add: writer_os_def)
  show "\<exists>r s'. write_call (writer_os chunk delay) fd bs w = Inr (r, s') \<and> writer_good chunk s' \<and>
      (r = - 2 \<and> writer_sent s' = writer_sent w \<and> 0 < writer_patience s' \<and> writer_patience s' \<le> writer_patience w \<or>
       (\<exists>n. 0 < n \<and> n \<le> length bs \<and> r = of_nat n \<and> writer_sent s' = writer_sent w @ take n bs))"
  proof (cases "length ?q = 32")
    case True
    then show ?thesis using call ok r'(3) by (auto simp: writer_sent_def writer_patience_def queued_def simp del: length_pipe_bytes)
  next
    case False
    then have "0 < min (32 - length ?q) (length bs)" using q bs(1) by simp
    moreover have "take (32 - length ?q) bs = take (min (32 - length ?q) (length bs)) bs" by (simp add: min_def)
    ultimately show ?thesis
      using call ok r'(3) False
      by (intro exI[of _ "of_nat (min (32 - length ?q) (length bs))"] exI[of _ ?w] conjI disjI2
          exI[of _ "min (32 - length ?q) (length bs)"]) (simp_all add: writer_sent_def queued_def)
  qed
next
  fix w assume good: "writer_good chunk w"
  show "\<exists>y s'. yield_call (writer_os chunk delay) w = Inr (y, s') \<and> writer_good chunk s' \<and>
      writer_sent s' = writer_sent w \<and> (0 < writer_patience w \<longrightarrow> writer_patience s' < writer_patience w)"
  proof (cases "waits w = 0")
    case False
    then show ?thesis using good
      by (simp add: writer_os_def reader_turn_def writer_good_def writer_sent_def writer_patience_def)
  next
    case True
    let ?q = "queued (chan w)" and ?buf = "replicate chunk (0 :: u8)"
    have buf: "?buf \<noteq> []" using good by (auto simp: writer_good_def)
    obtain bufs r' where run: "pipe_read [?buf] (chan w) =
        Inr (if ?q = [] then if writers (chan w) = 0 then 0 else - 2 else of_nat (min (length ?q) chunk),
          bufs, (chan w)\<lparr>ring := r'\<rparr>)"
      and r': "ring_ok r'" "write_end r'" "concat bufs = take chunk ?q @ drop (length ?q) ?buf"
        "pipe_bytes r' = drop chunk ?q"
      using pipe_read_eq[of "chan w" "[?buf]"] good buf
      by (fastforce simp: queued_def writer_good_def simp del: length_pipe_bytes)
    have q: "length ?q \<le> 32" using good queued_bound by (simp add: writer_good_def)
    define got where "got = (let n = (if ?q = [] then if writers (chan w) = 0 then 0 else - 2
        else of_nat (min (length ?q) chunk) :: isize) in if 0 \<le> sint n then take (unat n) (concat bufs) else [])"
    have got: "got = take chunk ?q"
    proof (cases "?q = []")
      case False
      let ?n = "min (length ?q) chunk"
      have n: "0 < ?n" "?n < 2 ^ 63" using False q buf by auto
      have "take ?n (concat bufs) = take chunk ?q" by (simp add: r'(3) min_def)
      then show ?thesis using small_answer[OF n] False by (simp add: got_def Let_def)
    qed (simp add: got_def)
    let ?w = "w\<lparr>chan := (chan w)\<lparr>ring := r'\<rparr>, waits := delay, received := received w @ got\<rparr>"
    have "yield_call (writer_os chunk delay) w = Inr (0, ?w)"
      using run True by (simp add: writer_os_def reader_turn_def got_def Let_def)
    moreover have "writer_good chunk ?w" using good r' by (simp add: writer_good_def)
    moreover have "writer_sent ?w = writer_sent w"
      using r'(4) by (simp add: writer_sent_def queued_def got del: length_pipe_bytes)
    moreover have "0 < writer_patience w \<longrightarrow> writer_patience ?w < writer_patience w"
      using r'(4) good buf by (auto simp: writer_patience_def queued_def writer_good_def)
    ultimately show ?thesis by (intro exI conjI)
  qed
qed

text \<open>
  A reader meets the pipe with a writing process at the other end, which still has \<open>unsent\<close> to
  write, \<open>chunk\<close> bytes in a turn, and exits when that is done.
\<close>

record reader_side = channel_end +
  unsent :: "u8 list"

definition writer_turn :: "nat \<Rightarrow> nat \<Rightarrow> (reader_side, isize) kstep" where
  "writer_turn chunk delay r =
     (if waits r = 0 then
        if unsent r = [] then Inr (0, r\<lparr>chan := (chan r)\<lparr>writers := 0\<rparr>\<rparr>)
        else
          bind_res (pipe_write [take chunk (unsent r)] (chan r)) (\<lambda>(n, p).
            Inr (0, r\<lparr>chan := p, waits := delay,
                      unsent := if 0 \<le> sint n then drop (unat n) (unsent r) else unsent r\<rparr>))
      else Inr (0, r\<lparr>waits := waits r - 1\<rparr>))"

definition reader_os :: "nat \<Rightarrow> nat \<Rightarrow> reader_side user_os" where
  "reader_os chunk delay =
     \<lparr>clock_call = (\<lambda>_ _ _. Inl NotImplemented),
      read_call = (\<lambda>_ buf r. bind_res (pipe_read [buf] (chan r)) (\<lambda>(n, bufs, p). Inr ((n, concat bufs), r\<lparr>chan := p\<rparr>))),
      write_call = (\<lambda>_ _ _. Inl NotImplemented), yield_call = writer_turn chunk delay,
      trace_call = (\<lambda>_ _ _ _. Inl NotImplemented), exit_call = (\<lambda>_ _. Inl NotImplemented)\<rparr>"

definition reader_good :: "nat \<Rightarrow> reader_side \<Rightarrow> bool" where
  "reader_good chunk r \<longleftrightarrow> 0 < chunk \<and> chunk < 2 ^ 63 \<and> ring_ok (ring (chan r)) \<and> write_end (ring (chan r)) \<and>
     (writers (chan r) = 0 \<longrightarrow> unsent r = [])"

definition reader_incoming :: "reader_side \<Rightarrow> u8 list" where
  "reader_incoming r = queued (chan r) @ unsent r"

definition reader_patience :: "reader_side \<Rightarrow> nat" where
  "reader_patience r = (if queued (chan r) = [] \<and> 0 < writers (chan r) then waits r + 1 else 0)"

lemma writer_turn_eq:
  assumes good: "reader_good chunk r" and now: "waits r = 0" "unsent r \<noteq> []"
  shows "\<exists>r' n. writer_turn chunk delay r =
      Inr (0, r\<lparr>chan := (chan r)\<lparr>ring := r'\<rparr>, waits := delay, unsent := drop n (unsent r)\<rparr>) \<and>
    ring_ok r' \<and> write_end r' \<and> pipe_bytes r' = queued (chan r) @ take n (unsent r) \<and>
    (queued (chan r) = [] \<longrightarrow> 0 < n)"
proof -
  let ?q = "queued (chan r)" and ?bs = "take chunk (unsent r)"
  have bs: "?bs \<noteq> []" using good now by (auto simp: reader_good_def)
  obtain r' where run: "pipe_write [?bs] (chan r) =
      Inr (if length ?q = 32 then - 2 else of_nat (min (32 - length ?q) (length ?bs)), (chan r)\<lparr>ring := r'\<rparr>)"
    and r': "ring_ok r'" "write_end r'" "pipe_bytes r' = ?q @ take (32 - length ?q) ?bs"
    using pipe_write_eq[of "chan r" "[?bs]"] good bs by (auto simp: queued_def reader_good_def)
  have q: "length ?q \<le> 32" using good queued_bound by (simp add: reader_good_def)
  show ?thesis
  proof (cases "length ?q = 32")
    case True
    then show ?thesis using run r' now by (intro exI[of _ r'] exI[of _ 0]) (auto simp: writer_turn_def)
  next
    case False
    define n where "n = min (32 - length ?q) (length ?bs)"
    have n: "0 < n" "n < 2 ^ 63" using False q bs by (auto simp: n_def)
    have "take (32 - length ?q) ?bs = take n (unsent r)" by (simp add: n_def min_def)
    then show ?thesis
      using run r' now False n small_answer[OF n] n_def by (intro exI[of _ r'] exI[of _ n]) (simp add: writer_turn_def)
  qed
qed

interpretation kernel_reader: pipe_reads "reader_os chunk delay" fd "reader_good chunk" reader_incoming reader_patience
  for chunk delay fd
proof
  fix r and buf :: "u8 list" assume good: "reader_good chunk r" and buf: "buf \<noteq> []" "length buf < 2 ^ 63"
  let ?q = "queued (chan r)"
  obtain bufs r' where run: "pipe_read [buf] (chan r) =
      Inr (if ?q = [] then if writers (chan r) = 0 then 0 else - 2 else of_nat (min (length ?q) (length buf)),
        bufs, (chan r)\<lparr>ring := r'\<rparr>)"
    and r': "ring_ok r'" "write_end r'" "concat bufs = take (length buf) ?q @ drop (length ?q) buf"
      "pipe_bytes r' = drop (length buf) ?q"
    using pipe_read_eq[of "chan r" "[buf]"] good buf
    by (fastforce simp: queued_def reader_good_def simp del: length_pipe_bytes)
  let ?r = "r\<lparr>chan := (chan r)\<lparr>ring := r'\<rparr>\<rparr>"
  have call: "read_call (reader_os chunk delay) fd buf r =
      Inr ((if ?q = [] then if writers (chan r) = 0 then 0 else - 2 else of_nat (min (length ?q) (length buf)),
        take (length buf) ?q @ drop (length ?q) buf), ?r)"
    using run r'(3) by (simp add: reader_os_def)
  have ok: "reader_good chunk ?r" using good r' by (simp add: reader_good_def)
  show "\<exists>x part s'. read_call (reader_os chunk delay) fd buf r = Inr ((x, part), s') \<and> reader_good chunk s' \<and>
        (x = - 2 \<and> part = buf \<and> reader_incoming s' = reader_incoming r \<and> 0 < reader_patience s' \<and>
           reader_patience s' \<le> reader_patience r \<or>
         x = 0 \<and> part = buf \<and> reader_incoming r = [] \<and> reader_incoming s' = [] \<or>
         (\<exists>n. 0 < n \<and> n \<le> length buf \<and> n \<le> length (reader_incoming r) \<and> x = of_nat n \<and>
            part = take n (reader_incoming r) @ drop n buf \<and> reader_incoming s' = drop n (reader_incoming r)))"
  proof (cases "?q = []")
    case True
    then show ?thesis
      using call ok r'(4) good by (auto simp: reader_incoming_def reader_patience_def reader_good_def queued_def)
  next
    case False
    define n where "n = min (length ?q) (length buf)"
    have n: "0 < n" "n \<le> length buf" "n \<le> length ?q" using False buf by (auto simp: n_def)
    have "take (length buf) ?q @ drop (length ?q) buf = take n (reader_incoming r) @ drop n buf"
      by (simp add: n_def reader_incoming_def min_def)
    moreover have "reader_incoming ?r = drop n (reader_incoming r)"
      using r'(4) by (simp add: n_def reader_incoming_def queued_def min_def del: length_pipe_bytes)
    moreover have "n \<le> length (reader_incoming r)" using n by (simp add: reader_incoming_def)
    ultimately show ?thesis
      using call ok n False by (intro exI conjI disjI2) (assumption | simp add: n_def)+
  qed
next
  fix r assume good: "reader_good chunk r"
  show "\<exists>y s'. yield_call (reader_os chunk delay) r = Inr (y, s') \<and> reader_good chunk s' \<and>
      reader_incoming s' = reader_incoming r \<and> (0 < reader_patience r \<longrightarrow> reader_patience s' < reader_patience r)"
  proof (cases "waits r = 0 \<and> unsent r \<noteq> []")
    case True
    then obtain r' n where run: "writer_turn chunk delay r =
        Inr (0, r\<lparr>chan := (chan r)\<lparr>ring := r'\<rparr>, waits := delay, unsent := drop n (unsent r)\<rparr>)"
      and r': "ring_ok r'" "write_end r'" "pipe_bytes r' = queued (chan r) @ take n (unsent r)"
        "queued (chan r) = [] \<longrightarrow> 0 < n"
      using writer_turn_eq[OF good, of delay] by blast
    let ?r = "r\<lparr>chan := (chan r)\<lparr>ring := r'\<rparr>, waits := delay, unsent := drop n (unsent r)\<rparr>"
    have "reader_good chunk ?r" using good r' True by (simp add: reader_good_def)
    moreover have "reader_incoming ?r = reader_incoming r" using r'(3) by (simp add: reader_incoming_def queued_def)
    moreover have "0 < reader_patience r \<longrightarrow> reader_patience ?r < reader_patience r"
      using r'(3,4) True by (auto simp: reader_patience_def queued_def)
    ultimately show ?thesis using run by (simp add: reader_os_def)
  next
    case False
    then show ?thesis using good
      by (auto simp: reader_os_def writer_turn_def reader_good_def reader_incoming_def reader_patience_def queued_def)
  qed
qed

section \<open>Data through a pipe\<close>

text \<open>C30: A program that writes a buffer to a pipe with the library's \<open>pipe_write\<close> gets it through the kernel's pipe of
32 bytes whole and in order, however long it is and however slowly the other end reads: the call returns the
length, and what was read by then, followed by what is still in the pipe, is the buffer.\<close>

theorem user_pipe_write_delivers:
  assumes "ring_ok (ring (chan w))" "write_end (ring (chan w))" "0 < chunk" "chunk < 2 ^ 63" "length buf < 2 ^ 63"
  shows "\<exists>w'. user_pipe_write (writer_os chunk delay) fd buf w = Some (Inr (of_nat (length buf), w')) \<and>
    received w' @ queued (chan w') = received w @ queued (chan w) @ buf"
  using kernel_writer.user_pipe_write_sends[of chunk w buf delay fd] assms
  by (auto simp: writer_good_def writer_sent_def)

theorem user_pipe_write_delivers_witness:
  "\<exists>w'. user_pipe_write (writer_os 5 2) 4 (replicate 100 7) \<lparr>chan = make_pipe, waits = 3, received = []\<rparr> =
      Some (Inr (100, w')) \<and> received w' @ queued (chan w') = replicate 100 7"
  using user_pipe_write_delivers[of "\<lparr>chan = make_pipe, waits = 3, received = []\<rparr>" 5 "replicate 100 7" 2 4]
  by (simp add: make_pipe_ok queued_def)

text \<open>A program that reads from a pipe with the library's \<open>pipe_read\<close> gets exactly the bytes in the pipe and those the
other end still writes, up to the size of its buffer, and returns: at the end of the buffer, or at the end of file
once the writer has exited. The rest of the buffer stays as it was.\<close>

theorem user_pipe_read_collects:
  assumes "ring_ok (ring (chan r))" "write_end (ring (chan r))" "0 < chunk" "chunk < 2 ^ 63" "length buf < 2 ^ 63"
    and "writers (chan r) = 0 \<longrightarrow> unsent r = []"
  shows "\<exists>r'. let bs = queued (chan r) @ unsent r in
    user_pipe_read (reader_os chunk delay) fd buf r =
      Some (Inr ((of_nat (min (length buf) (length bs)), take (length buf) bs @ drop (length bs) buf), r')) \<and>
    queued (chan r') @ unsent r' = drop (length buf) bs"
  using kernel_reader.user_pipe_read_receives[of chunk r buf delay fd] assms
  by (auto simp: reader_good_def reader_incoming_def Let_def)

theorem user_pipe_read_collects_witness:
  "\<exists>r'. user_pipe_read (reader_os 7 2) 3 (replicate 70 0) \<lparr>chan = make_pipe, waits = 3, unsent = replicate 50 9\<rparr> =
      Some (Inr ((50, replicate 50 9 @ replicate 20 0), r'))"
  using user_pipe_read_collects[of "\<lparr>chan = make_pipe, waits = 3, unsent = replicate 50 9\<rparr>" 7 "replicate 70 0" 2 3]
  by (auto simp: make_pipe_ok queued_def Let_def)

section \<open>Sleeping\<close>

text \<open>
  A clock that \<open>clock_gettime\<close> reads in nanoseconds and that advances with every yield, good up
  to a horizon after which the kernel's multiplication overflows.
\<close>

locale advancing_clock =
  fixes os :: "'s user_os" and good :: "'s \<Rightarrow> bool" and now :: "'s \<Rightarrow> nat" and horizon :: nat
  assumes clock_reads: "\<And>s. good s \<Longrightarrow>
      \<exists>r t s'. clock_call os clock_monotonic time_zero s = Inr ((r, t), s') \<and> good s' \<and>
        normalised t \<and> nanos t = now s \<and> now s' = now s"
    and yield_advances: "\<And>s. good s \<Longrightarrow> now s \<le> horizon \<Longrightarrow>
      \<exists>y s'. yield_call os s = Inr (y, s') \<and> good s' \<and> now s < now s'"
    and horizon_fits: "horizon < 2 ^ 64"
begin

lemma read_clock_now:
  assumes "good s"
  shows "\<exists>t s'. read_clock os s = Inr (t, s') \<and> good s' \<and> normalised t \<and> nanos t = now s \<and> now s' = now s"
  using clock_reads[OF assms] by (fastforce simp: read_clock_def k_bind_def k_ret_def)

lemma sleep_loop_wakes:
  assumes "good s" "nanos d \<le> horizon" "unat (tv_nsec d) \<le> 10 ^ 9"
  shows "\<exists>s'. sleep_loop os d s = Some (Inr ((), s')) \<and> nanos d \<le> now s'"
  using assms(1)
proof (induction "horizon + 1 - now s" arbitrary: s rule: less_induct)
  case less
  obtain t s1 where t: "read_clock os s = Inr (t, s1)" "good s1" "normalised t" "nanos t = now s" "now s1 = now s"
    using read_clock_now[OF less.prems] by blast
  show ?case
  proof (cases "time_less d t")
    case True
    then show ?thesis using t time_less_nanos[OF True assms(3)] by (subst sleep_loop.simps) simp
  next
    case False
    then have early: "now s1 \<le> horizon" using not_time_less_nanos[OF False t(3)] t assms(2) by simp
    obtain y s2 where y: "yield_call os s1 = Inr (y, s2)" "good s2" "now s1 < now s2"
      using yield_advances[OF t(2) early] by blast
    then show ?thesis
      using less.hyps[of s2] early t False by (subst sleep_loop.simps) auto
  qed
qed

lemma sleep_wakes:
  assumes "good s" "now s + unat period_ms * 10 ^ 6 \<le> horizon"
  shows "\<exists>s'. sleep os period_ms s = Some (Inr ((), s')) \<and> now s + unat period_ms * 10 ^ 6 \<le> now s'"
proof -
  obtain t s1 where t: "read_clock os s = Inr (t, s1)" "good s1" "normalised t" "nanos t = now s" "now s1 = now s"
    using read_clock_now[OF assms(1)] by blast
  let ?p = "from_millsecond period_ms"
  have fits: "nanos t + nanos ?p < 2 ^ 64" using assms(2) horizon_fits t(4) by (simp add: nanos_from_millsecond(1))
  then have "unat (tv_sec t) + unat (tv_sec ?p) + 1 < 2 ^ 64" by (simp add: nanos_def)
  then obtain d where d: "time_add t ?p = Inr d"
    using time_add_defined[OF t(3) nanos_from_millsecond(2)] by blast
  note sum = time_add_result[OF t(3) nanos_from_millsecond(2) d]
  have n: "nanos d = now s + unat period_ms * 10 ^ 6"
    using sum t(4) by (simp add: nanos_from_millsecond(1))
  then show ?thesis
    using sleep_loop_wakes[OF t(2), of d] sum t assms(2) d by (simp add: sleep_def)
qed

end

text \<open>
  The clock of the kernel, without its dispatch: \<open>tick\<close> cycles pass with each yield. A cycle is 80 ns.
\<close>

definition cycle_os :: "nat \<Rightarrow> usize user_os" where
  "cycle_os tick =
     \<lparr>clock_call = (\<lambda>_ _ c. bind_res (clock_time c) (\<lambda>t. Inr ((0, t), c))),
      read_call = (\<lambda>_ _ _. Inl NotImplemented), write_call = (\<lambda>_ _ _. Inl NotImplemented),
      yield_call = (\<lambda>c. Inr (0, c + of_nat tick)), trace_call = (\<lambda>_ _ _ _. Inl NotImplemented),
      exit_call = (\<lambda>_ _. Inl NotImplemented)\<rparr>"

definition last_cycle :: nat where
  "last_cycle = (2 ^ 64 - 1) div 10000"

lemma clock_time_nanos:
  assumes "unat c \<le> last_cycle"
  shows "\<exists>t. clock_time c = Inr t \<and> normalised t \<and> nanos t = unat c * 80"
proof -
  have fits: "unat c * 10000 < 2 ^ 64" using assms by (simp add: last_cycle_def)
  then have "unat (c * 10000) = unat c * 10000" by (simp add: unat_mult_lem[THEN iffD1])
  then have t: "unat (c * 10000 div 125) = unat c * 80" by (simp add: unat_div)
  have "nanos \<lparr>tv_sec = c * 10000 div 125 div 1000000000, tv_nsec = c * 10000 div 125 mod 1000000000\<rparr> =
      unat (c * 10000 div 125) div 1000000000 * 1000000000 + unat (c * 10000 div 125) mod 1000000000"
    by (simp add: nanos_def unat_div unat_mod)
  also have "\<dots> = unat c * 80" by (simp only: div_mult_mod_eq t)
  finally show ?thesis
    using fits by (simp add: clock_time_def times_usize_def normalised_def unat_mod Let_def)
qed

definition cycle_good :: "nat \<Rightarrow> usize \<Rightarrow> bool" where
  "cycle_good tick c \<longleftrightarrow> 0 < tick \<and> tick \<le> last_cycle \<and> unat c \<le> last_cycle"

definition cycle_nanos :: "usize \<Rightarrow> nat" where
  "cycle_nanos c = unat c * 80"

interpretation kernel_clock: advancing_clock "cycle_os tick" "cycle_good tick" cycle_nanos
    "(last_cycle - tick) * 80" for tick
proof
  fix c assume good: "cycle_good tick c"
  then obtain t where "clock_time c = Inr t" "normalised t" "nanos t = unat c * 80"
    using clock_time_nanos by (auto simp: cycle_good_def)
  then show "\<exists>r t s'. clock_call (cycle_os tick) clock_monotonic time_zero c = Inr ((r, t), s') \<and>
      cycle_good tick s' \<and> normalised t \<and> nanos t = cycle_nanos c \<and> cycle_nanos s' = cycle_nanos c"
    using good by (simp add: cycle_os_def cycle_nanos_def)
next
  fix c assume good: "cycle_good tick c" and "cycle_nanos c \<le> (last_cycle - tick) * 80"
  then have le: "unat c + tick \<le> last_cycle" by (auto simp: cycle_nanos_def cycle_good_def)
  have "unat (c + of_nat tick) = unat c + tick"
    using le by (simp add: unat_word_ariths last_cycle_def unat_of_nat)
  then show "\<exists>y s'. yield_call (cycle_os tick) c = Inr (y, s') \<and> cycle_good tick s' \<and> cycle_nanos c < cycle_nanos s'"
    using good le by (simp add: cycle_os_def cycle_good_def cycle_nanos_def)
qed (simp add: last_cycle_def)

text \<open>C31: \<open>sleep\<close> returns, and not before the period has passed, as long as the deadline lies before the last time that
the kernel's clock can compute (4.7 years after the start at 80 ns a cycle).\<close>

theorem sleep_lasts_the_period:
  assumes "0 < tick" "tick \<le> last_cycle" "unat c * 80 + unat period_ms * 10 ^ 6 \<le> (last_cycle - tick) * 80"
  shows "\<exists>c'. sleep (cycle_os tick) period_ms c = Some (Inr ((), c')) \<and>
    unat c * 80 + unat period_ms * 10 ^ 6 \<le> unat c' * 80"
  using kernel_clock.sleep_wakes[of tick c period_ms] assms by (auto simp: cycle_good_def cycle_nanos_def)

theorem sleep_lasts_the_period_witness:
  "\<exists>c'. sleep (cycle_os 1000) 1500 123 = Some (Inr ((), c')) \<and> 1500 * 10 ^ 6 \<le> unat c' * 80"
  using sleep_lasts_the_period[of 1000 123 1500] by (auto simp: last_cycle_def)

end
