(* ===== verification/Machine.thy ===== *)
theory Machine
  imports Context
begin

text \<open>
  The supervisor-mode instructions that the assembly of the kernel is written in, on a hart with
  31 registers, the control and status registers it uses, and a memory of 64-bit words.

  A memory access goes through the address space that \<open>satp\<close> selects: \<open>tr\<close> maps the value of
  \<open>satp\<close> and an address to a physical address; it stands for the page tables. Accesses are of
  aligned 64-bit words, so distinct physical addresses do not overlap.
\<close>

datatype csr_name = SATP | SSTATUS | SEPC | STVEC | SSCRATCH

record machine =
  reg :: "nat \<Rightarrow> usize"
  csr :: "csr_name \<Rightarrow> usize"
  mem :: "usize \<Rightarrow> usize"
  pc :: usize
  user_mode :: bool

type_synonym mmu = "usize \<Rightarrow> usize \<Rightarrow> usize"

datatype instr =
    Sd nat usize nat      \<comment> \<open>source, offset, base\<close>
  | Ld nat usize nat      \<comment> \<open>destination, offset, base\<close>
  | Addi nat nat usize
  | Mv nat nat
  | La nat usize
  | Csrr nat csr_name
  | Csrw csr_name nat
  | Csrrw nat csr_name nat
  | Sfence_vma
  | Sret
  | Jr nat

abbreviation (input) ra :: nat where "ra \<equiv> 1"
abbreviation (input) sp :: nat where "sp \<equiv> 2"
abbreviation (input) t0 :: nat where "t0 \<equiv> 5"
abbreviation (input) a0 :: nat where "a0 \<equiv> 10"
abbreviation (input) a1 :: nat where "a1 \<equiv> 11"

text \<open>The bits of \<open>sstatus\<close>: SIE is 1, SPIE 5, SPP 8. \<open>sret\<close> goes to the mode SPP, sets SIE to SPIE,
SPIE to 1 and SPP to user.\<close>

definition set_reg :: "nat \<Rightarrow> usize \<Rightarrow> machine \<Rightarrow> machine" where
  "set_reg r v m = (if r = 0 then m else m\<lparr>reg := (reg m)(r := v)\<rparr>)"

definition sret_status :: "usize \<Rightarrow> usize" where
  "sret_status s = unset_bit 8 (set_bit 5 (if bit s 5 then set_bit 1 s else unset_bit 1 s))"

abbreviation phys_addr :: "mmu \<Rightarrow> machine \<Rightarrow> usize \<Rightarrow> usize" where
  "phys_addr tr m \<equiv> tr (csr m SATP)"

fun step :: "mmu \<Rightarrow> instr \<Rightarrow> machine \<Rightarrow> machine" where
  "step tr (Sd r off b) m = m\<lparr>mem := (mem m)(phys_addr tr m (reg m b + off) := reg m r)\<rparr>"
| "step tr (Ld r off b) m = set_reg r (mem m (phys_addr tr m (reg m b + off))) m"
| "step tr (Addi r s v) m = set_reg r (reg m s + v) m"
| "step tr (Mv r s) m = set_reg r (reg m s) m"
| "step tr (La r a) m = set_reg r a m"
| "step tr (Csrr r c) m = set_reg r (csr m c) m"
| "step tr (Csrw c s) m = m\<lparr>csr := (csr m)(c := reg m s)\<rparr>"
| "step tr (Csrrw r c s) m = set_reg r (csr m c) (m\<lparr>csr := (csr m)(c := reg m s)\<rparr>)"
| "step tr Sfence_vma m = m"
| "step tr Sret m =
     m\<lparr>pc := csr m SEPC, user_mode := \<not> bit (csr m SSTATUS) 8, csr := (csr m)(SSTATUS := sret_status (csr m SSTATUS))\<rparr>"
| "step tr (Jr s) m = m\<lparr>pc := reg m s\<rparr>"

primrec exec :: "mmu \<Rightarrow> instr list \<Rightarrow> machine \<Rightarrow> machine" where
  "exec tr [] m = m"
| "exec tr (i # is) m = exec tr is (step tr i m)"

lemma exec_append [simp]: "exec tr (is @ js) m = exec tr js (exec tr is m)"
  by (induction "is" arbitrary: m) simp_all

lemma set_reg_simps [simp]:
  "reg (set_reg r v m) = (if r = 0 then reg m else (reg m)(r := v))"
  "csr (set_reg r v m) = csr m" "mem (set_reg r v m) = mem m" "pc (set_reg r v m) = pc m"
  "user_mode (set_reg r v m) = user_mode m"
  by (simp_all add: set_reg_def)

section \<open>Blocks of words\<close>

definition slot :: "usize \<Rightarrow> nat \<Rightarrow> usize" where
  "slot base i = base + of_nat (8 * i)"

lemma slot_0 [simp]: "slot base 0 = base"
  by (simp add: slot_def)

definition stores :: "(usize \<Rightarrow> usize) \<Rightarrow> usize \<Rightarrow> nat list \<Rightarrow> (nat \<Rightarrow> usize) \<Rightarrow> (usize \<Rightarrow> usize) \<Rightarrow> usize \<Rightarrow> usize" where
  "stores f base ns vals \<mu> = fold (\<lambda>n \<mu>. \<mu>(f (slot base n) := vals n)) ns \<mu>"

lemma stores_other: "(\<And>n. n \<in> set ns \<Longrightarrow> a \<noteq> f (slot base n)) \<Longrightarrow> stores f base ns vals \<mu> a = \<mu> a"
  unfolding stores_def by (induction ns arbitrary: \<mu>) simp_all

lemma stores_at:
  "n \<in> set ns \<Longrightarrow> inj_on (\<lambda>n. f (slot base n)) (set ns) \<Longrightarrow> stores f base ns vals \<mu> (f (slot base n)) = vals n"
proof (induction ns arbitrary: \<mu>)
  case (Cons k ns)
  show ?case
  proof (cases "n \<in> set ns")
    case True
    then show ?thesis using Cons by (simp add: stores_def inj_on_insert)
  next
    case False
    then have "n = k" "\<And>j. j \<in> set ns \<Longrightarrow> f (slot base n) \<noteq> f (slot base j)"
      using Cons.prems by (auto simp: inj_on_def)
    then show ?thesis
      using stores_other[of ns "f (slot base n)" f base vals "\<mu>(f (slot base k) := vals k)"]
      by (simp add: stores_def)
  qed
qed simp

text \<open>Saving registers below a base register, and loading them back.\<close>

definition save_regs :: "nat list \<Rightarrow> nat \<Rightarrow> instr list" where
  "save_regs ns b = map (\<lambda>n. Sd n (of_nat (8 * n)) b) ns"

definition load_regs :: "nat list \<Rightarrow> nat \<Rightarrow> instr list" where
  "load_regs ns b = map (\<lambda>n. Ld n (of_nat (8 * n)) b) ns"

lemma exec_save_regs [simp]:
  "exec tr (save_regs ns b) m = m\<lparr>mem := stores (phys_addr tr m) (reg m b) ns (reg m) (mem m)\<rparr>"
proof (induction ns arbitrary: m)
  case (Cons n ns)
  show ?case
    using Cons[of "m\<lparr>mem := (mem m)(phys_addr tr m (reg m b + of_nat (8 * n)) := reg m n)\<rparr>"]
    by (simp add: save_regs_def stores_def slot_def fun_upd_def)
qed (simp add: save_regs_def stores_def)

lemma exec_load_regs [simp]:
  assumes "b \<notin> set ns" "0 \<notin> set ns"
  shows "exec tr (load_regs ns b) m =
    m\<lparr>reg := (\<lambda>r. if r \<in> set ns then mem m (phys_addr tr m (slot (reg m b) r)) else reg m r)\<rparr>"
  using assms
proof (induction ns arbitrary: m)
  case (Cons n ns)
  then show ?case
    using Cons.IH[of "set_reg n (mem m (phys_addr tr m (reg m b + of_nat (8 * n)))) m"]
    by (auto simp: load_regs_def slot_def set_reg_def fun_eq_iff)
qed (simp add: load_regs_def)

section \<open>Blocks that do not overlap\<close>

text \<open>Blocks are given by their base and their number of words.\<close>

definition words :: "(usize \<Rightarrow> usize) \<Rightarrow> usize \<times> nat \<Rightarrow> usize list" where
  "words f = (\<lambda>(base, n). map (\<lambda>i. f (slot base i)) [0..<n])"

definition separate :: "(usize \<Rightarrow> usize) \<Rightarrow> (usize \<times> nat) list \<Rightarrow> bool" where
  "separate f blocks \<longleftrightarrow> distinct (concat (map (words f) blocks))"

lemma words_set: "set (words f (base, n)) = (\<lambda>i. f (slot base i)) ` {0..<n}"
  by (simp add: words_def)

lemma separate_inj:
  assumes "separate f blocks" "(base, n) \<in> set blocks"
  shows "inj_on (\<lambda>i. f (slot base i)) {0..<n}"
  using assms unfolding separate_def
  by (induction blocks) (auto simp: words_def distinct_map)

lemma separate_same:
  "separate f blocks \<Longrightarrow> (base, n) \<in> set blocks \<Longrightarrow> i < n \<Longrightarrow> j < n \<Longrightarrow>
   f (slot base i) = f (slot base j) \<longleftrightarrow> i = j"
  using inj_onD[OF separate_inj, of f blocks base n i j] by auto

lemma separate_two:
  "separate f [(b1, n1), (b2, n2)] \<Longrightarrow> i < n1 \<Longrightarrow> j < n2 \<Longrightarrow> f (slot b1 i) \<noteq> f (slot b2 j)"
  by (force simp: separate_def words_def disjoint_iff)

lemma separate_pairs:
  assumes "separate f [p, q, r]"
  shows "separate f [p, q]" "separate f [p, r]" "separate f [q, r]"
  using assms by (auto simp: separate_def)

text \<open>Where virtual addresses are physical ones, blocks given in the order of their addresses are apart.\<close>

lemma unat_slot:
  assumes "unat base + 8 * i < 2 ^ 64"
  shows "unat (slot base i) = unat base + 8 * i"
proof -
  define w :: usize where "w = of_nat (8 * i)"
  have "unat w = 8 * i" using assms unfolding w_def by (simp only: unat_of_nat) simp
  then have "unat (base + w) = unat base + 8 * i" using assms by (simp add: unat_word_ariths)
  then show ?thesis by (simp only: slot_def w_def)
qed

lemma separate_in_order:
  assumes "\<forall>(b, n) \<in> set blocks. unat b + 8 * n < 2 ^ 64"
    and "sorted_wrt (\<lambda>(b1, n1) (b2, n2). unat b1 + 8 * n1 \<le> unat b2) blocks"
  shows "separate (\<lambda>a. a) blocks"
  using assms
proof (induction blocks)
  case (Cons p blocks)
  obtain b n where p: "p = (b, n)" by (cases p)
  have at: "unat (slot b i) = unat b + 8 * i" if "i < n" for i
    using Cons.prems(1) that by (intro unat_slot) (auto simp: p)
  have "inj_on (slot b) {0..<n}"
  proof (rule inj_onI)
    fix i j assume "i \<in> {0..<n}" "j \<in> {0..<n}" "slot b i = slot b j"
    then have "unat b + 8 * i = unat b + 8 * j" using at by (metis atLeastLessThan_iff)
    then show "i = j" by simp
  qed
  moreover have "slot b i \<noteq> slot b' j" if "i < n" "(b', k) \<in> set blocks" "j < k" for i j b' k
  proof -
    have "unat (slot b' j) = unat b' + 8 * j"
      using Cons.prems(1) that by (intro unat_slot) fastforce
    moreover have "unat b + 8 * n \<le> unat b'" using Cons.prems(2) that by (auto simp: p)
    ultimately show ?thesis using at[OF that(1)] that by auto
  qed
  ultimately have "set (words (\<lambda>a. a) p) \<inter> set (concat (map (words (\<lambda>a. a)) blocks)) = {}"
      "distinct (words (\<lambda>a. a) p)"
    by (auto simp: words_def p distinct_map)
  moreover have "separate (\<lambda>a. a) blocks" using Cons by simp
  ultimately show ?case by (simp add: separate_def)
qed (simp add: separate_def)

end
