(* ===== verification/Trap_Switch.thy ===== *)
theory Trap_Switch
  imports Machine
begin

text \<open>
  \<open>LocalContext::execute\<close> and its assembly \<open>execute_naked\<close>
  (\<open>tg-rcore-tutorial-kernel-context/src/lib.rs\<close>): the switch to a thread and back at its next
  trap, on the machine of the theory Machine.

  The context is a \<open>repr(C)\<close> structure in memory: word 0 is \<open>sctx\<close>, word \<open>n\<close> holds \<open>x_n\<close>, word
  32 \<open>sepc\<close>. What runs between \<open>sret\<close> and the trap is the parameter \<open>thread\<close>. The registers the
  compiler gives to the operands of the inline assembly, the address after the call, and the
  address of the trap label are those of \<open>layout\<close>.
\<close>

record layout =
  r_ctx :: nat
  r_old :: nat
  r_sepc :: nat
  r_status :: nat
  after_call :: usize
  trap_label :: usize

definition build_sstatus :: "bool \<Rightarrow> bool \<Rightarrow> usize \<Rightarrow> usize" where
  "build_sstatus super intr s =
     (let s1 = if super then s OR 256 else s AND NOT 256 in
      if intr then s1 OR 32 else s1 AND NOT 32)"

section \<open>The code\<close>

definition saved_regs :: "nat list" where
  "saved_regs = ra # [3..<32]"

definition naked_enter :: "usize \<Rightarrow> instr list" where
  "naked_enter label =
     [Addi sp sp (- 256)] @ save_regs saved_regs sp @
     [La t0 label, Csrw STVEC t0,
      Csrr t0 SSCRATCH, Sd sp 0 t0, Mv sp t0] @
     load_regs saved_regs sp @ [Ld sp 16 sp, Sret]"

definition naked_leave :: "instr list" where
  "naked_leave =
     [Csrrw sp SSCRATCH sp] @ save_regs saved_regs sp @
     [Csrrw t0 SSCRATCH sp, Sd t0 16 sp,
      Ld sp 0 sp] @
     load_regs saved_regs sp @ [Addi sp sp 256, Jr ra]"

definition execute_head :: "layout \<Rightarrow> instr list" where
  "execute_head ly =
     [Csrrw (r_old ly) SSCRATCH (r_ctx ly), Csrw SEPC (r_sepc ly), Csrw SSTATUS (r_status ly),
      Addi sp sp (- 8), Sd ra 0 sp, La ra (after_call ly)]"

definition execute_tail :: "layout \<Rightarrow> instr list" where
  "execute_tail ly =
     [Ld ra 0 sp, Addi sp sp 8, Csrw SSCRATCH (r_old ly), Csrr (r_sepc ly) SEPC, Csrr (r_status ly) SSTATUS]"

section \<open>Execution of a thread\<close>

definition ctx_word :: "local_context \<Rightarrow> nat \<Rightarrow> usize" where
  "ctx_word ctx n = (if n = 0 then sctx ctx else if n = 32 then sepc ctx else xs ctx ! (n - 1))"

text \<open>The machine when the inline assembly starts.\<close>

definition execute_start :: "mmu \<Rightarrow> layout \<Rightarrow> usize \<Rightarrow> local_context \<Rightarrow> machine \<Rightarrow> machine" where
  "execute_start tr ly c ctx m =
     set_reg (r_ctx ly) c (set_reg (r_sepc ly) (sepc ctx)
       (set_reg (r_status ly) (build_sstatus (supervisor ctx) (interrupt ctx) (csr m SSTATUS))
         (m\<lparr>mem := stores (tr (csr m SATP)) c [0..<33] (ctx_word ctx) (mem m)\<rparr>)))"

definition execute_enter :: "mmu \<Rightarrow> layout \<Rightarrow> usize \<Rightarrow> local_context \<Rightarrow> machine \<Rightarrow> machine" where
  "execute_enter tr ly c ctx m =
     exec tr (execute_head ly @ naked_enter (trap_label ly)) (execute_start tr ly c ctx m)"

definition execute_leave :: "mmu \<Rightarrow> layout \<Rightarrow> usize \<Rightarrow> local_context \<Rightarrow> machine \<Rightarrow> usize \<times> local_context \<times> machine" where
  "execute_leave tr ly c ctx m =
     (let m' = exec tr (naked_leave @ execute_tail ly) m;
          word = \<lambda>n. mem m' (tr (csr m' SATP) (slot c n)) in
      (reg m' (r_status ly), ctx\<lparr>sctx := word 0, xs := map word [1..<32], sepc := reg m' (r_sepc ly)\<rparr>, m'))"

definition local_execute ::
  "mmu \<Rightarrow> layout \<Rightarrow> (machine \<Rightarrow> machine) \<Rightarrow> usize \<Rightarrow> local_context \<Rightarrow> machine \<Rightarrow> usize \<times> local_context \<times> machine" where
  "local_execute tr ly thread c ctx m = execute_leave tr ly c ctx (thread (execute_enter tr ly c ctx m))"

section \<open>What it relies on\<close>

definition layout_ok :: "layout \<Rightarrow> bool" where
  "layout_ok ly \<longleftrightarrow> distinct [r_ctx ly, r_old ly, r_sepc ly, r_status ly] \<and>
     (\<forall>r \<in> {r_ctx ly, r_old ly, r_sepc ly, r_status ly}. r \<noteq> 0 \<and> r \<noteq> sp \<and> r < 32)"

text \<open>The words that the switch uses: the context, and the frame of 32 words below the saved \<open>ra\<close>.\<close>

definition frame_of :: "machine \<Rightarrow> usize" where
  "frame_of m = reg m sp - 264"

definition switch_blocks :: "usize \<Rightarrow> machine \<Rightarrow> (usize \<times> nat) list" where
  "switch_blocks c m = [(c, 33), (frame_of m, 33)]"

definition switch_words :: "(usize \<Rightarrow> usize) \<Rightarrow> usize \<Rightarrow> machine \<Rightarrow> usize set" where
  "switch_words f c m = set (concat (map (words f) (switch_blocks c m)))"

text \<open>A thread runs until a trap: control is at the trap entry in supervisor mode, the registers
of the kernel that unprivileged code cannot write are as they were, and so is its memory \<open>K\<close>.\<close>

definition traps :: "usize set \<Rightarrow> machine \<Rightarrow> machine \<Rightarrow> bool" where
  "traps K m m' \<longleftrightarrow> pc m' = csr m STVEC \<and> \<not> user_mode m' \<and> csr m' SATP = csr m SATP \<and>
     csr m' STVEC = csr m STVEC \<and> csr m' SSCRATCH = csr m SSCRATCH \<and> (\<forall>a \<in> K. mem m' a = mem m a)"

section \<open>Entering\<close>

lemma set_saved_regs: "n \<in> set saved_regs \<longleftrightarrow> 1 \<le> n \<and> n < 32 \<and> n \<noteq> 2"
  by (simp only: saved_regs_def list.set set_upt) auto

lemma saved_regs_bases [simp]: "0 \<notin> set saved_regs" "2 \<notin> set saved_regs"
  "Suc 0 \<in> set saved_regs" "5 \<in> set saved_regs"
  by (simp_all add: set_saved_regs)

lemma stores_block:
  assumes "separate f blocks" "(base, k) \<in> set blocks" "set ns \<subseteq> {0..<k}" "n \<in> set ns"
  shows "stores f base ns vals \<mu> (f (slot base n)) = vals n"
  using stores_at[OF assms(4)] inj_on_subset[OF separate_inj[OF assms(1,2)] assms(3)] by blast

lemma stores_cong: "(\<And>n. n \<in> set ns \<Longrightarrow> v n = w n) \<Longrightarrow> stores f base ns v \<mu> = stores f base ns w \<mu>"
  unfolding stores_def by (intro fold_cong refl) simp

lemma naked_enter_state:
  fixes h :: machine
  assumes f: "f = tr (csr h SATP)" and c: "c = csr h SSCRATCH" and frame: "frame = reg h sp - 256"
    and sep: "separate f [(c, 33), (frame, 33)]"
  shows "let m = exec tr (naked_enter label) h in
    (\<forall>n. 1 \<le> n \<and> n < 32 \<longrightarrow> reg m n = mem h (f (slot c n))) \<and>
    csr m = (csr h)(STVEC := label, SSTATUS := sret_status (csr h SSTATUS)) \<and>
    pc m = csr h SEPC \<and> user_mode m = (\<not> bit (csr h SSTATUS) 8) \<and>
    mem m = (stores f frame saved_regs (reg h) (mem h))(f c := frame)"
proof -
  define \<mu> where "\<mu> = (stores f frame saved_regs (reg h) (mem h))(f c := frame)"
  have keep: "\<mu> (f (slot c n)) = mem h (f (slot c n))" if "1 \<le> n" "n < 32" for n
  proof -
    have "f (slot c n) \<noteq> f (slot c 0)" using separate_same[OF sep, of c 33 n 0] that by simp
    moreover have "\<And>j. j \<in> set saved_regs \<Longrightarrow> f (slot c n) \<noteq> f (slot frame j)"
      using separate_two[OF sep, of n] that by (simp add: set_saved_regs)
    ultimately show ?thesis by (simp add: \<mu>_def stores_other)
  qed
  define m1 where "m1 = exec tr ([Addi sp sp (- 256)] @ save_regs saved_regs sp @
     [La t0 label, Csrw STVEC t0, Csrr t0 SSCRATCH, Sd sp 0 t0, Mv sp t0]) h"
  have "stores f frame saved_regs ((reg h)(sp := frame)) (mem h) = stores f frame saved_regs (reg h) (mem h)"
    by (rule stores_cong) (simp add: set_saved_regs)
  then have m1: "mem m1 = \<mu>" "csr m1 = (csr h)(STVEC := label)" "reg m1 sp = c"
    by (simp_all add: m1_def \<mu>_def f c frame)
  have run: "exec tr (naked_enter label) h = exec tr (load_regs saved_regs sp @ [Ld sp 16 sp, Sret]) m1"
    by (simp add: naked_enter_def m1_def)
  have "reg (exec tr (naked_enter label) h) n = mem h (f (slot c n))" if n: "1 \<le> n" "n < 32" for n
    using keep[OF n] keep[of 2] n m1 by (auto simp: run f[symmetric] set_saved_regs slot_def)
  then show ?thesis using m1 by (simp add: run Let_def \<mu>_def fun_upd_def fun_eq_iff)
qed

section \<open>Leaving\<close>

lemma naked_leave_state:
  fixes h :: machine
  assumes f: "f = tr (csr h SATP)" and c: "c = csr h SSCRATCH" and frame: "mem h (f c) = frame"
    and sep: "separate f [(c, 33), (frame, 33)]"
  shows "let m = exec tr naked_leave h in
    (\<forall>n. 1 \<le> n \<and> n < 32 \<longrightarrow> mem m (f (slot c n)) = reg h n) \<and> mem m (f c) = frame \<and>
    mem m (f (slot frame 32)) = mem h (f (slot frame 32)) \<and>
    reg m sp = frame + 256 \<and> (\<forall>n \<in> set saved_regs. reg m n = mem h (f (slot frame n))) \<and>
    csr m = csr h \<and> pc m = mem h (f (slot frame 1)) \<and>
    (\<forall>a. (\<forall>n < 33. a \<noteq> f (slot c n)) \<longrightarrow> mem m a = mem h a)"
proof -
  define \<mu> where "\<mu> = (stores f c saved_regs (reg h) (mem h))(f (slot c 2) := reg h sp)"
  have at_c: "\<mu> (f (slot c n)) = reg h n" if "1 \<le> n" "n < 32" for n
  proof (cases "n = 2")
    case False
    then have "f (slot c n) \<noteq> f (slot c 2)" using separate_same[OF sep, of c 33 n 2] that by simp
    moreover have "stores f c saved_regs (reg h) (mem h) (f (slot c n)) = reg h n"
      by (rule stores_block[OF sep, of c 33]) (use that False in \<open>auto simp: set_saved_regs\<close>)
    ultimately show ?thesis by (simp add: \<mu>_def)
  qed (simp add: \<mu>_def)
  have other: "\<mu> a = mem h a" if "\<And>n. 1 \<le> n \<Longrightarrow> n < 32 \<Longrightarrow> a \<noteq> f (slot c n)" for a
  proof -
    have "stores f c saved_regs (reg h) (mem h) a = mem h a"
      by (rule stores_other) (use that in \<open>simp add: set_saved_regs\<close>)
    then show ?thesis using that[of 2] by (simp add: \<mu>_def)
  qed
  have zero: "\<mu> (f c) = frame"
  proof -
    have "f (slot c 0) \<noteq> f (slot c n)" if "1 \<le> n" "n < 32" for n
      using separate_same[OF sep, of c 33 0 n] that by simp
    then show ?thesis using other[of "f c"] frame by simp
  qed
  have fr: "\<mu> (f (slot frame i)) = mem h (f (slot frame i))" if "i < 33" for i
  proof (rule other)
    fix n assume "1 \<le> n" "n < (32 :: nat)"
    then show "f (slot frame i) \<noteq> f (slot c n)" using separate_two[OF sep, of n i] that by auto
  qed
  define m0 where "m0 = exec tr ([Csrrw sp SSCRATCH sp] @ save_regs saved_regs sp @
     [Csrrw t0 SSCRATCH sp, Sd t0 16 sp]) h"
  have "stores f c saved_regs ((reg h)(sp := c)) (mem h) = stores f c saved_regs (reg h) (mem h)"
    by (rule stores_cong) (simp add: set_saved_regs)
  then have m0: "mem m0 = \<mu>" "csr m0 = csr h" "reg m0 sp = c"
    by (simp_all add: m0_def \<mu>_def f c slot_def fun_upd_def fun_eq_iff)
  define m1 where "m1 = step tr (Ld sp 0 sp) m0"
  have m1: "mem m1 = \<mu>" "csr m1 = csr h" "reg m1 sp = frame"
    using zero by (simp_all add: m1_def m0 f)
  have run: "exec tr naked_leave h = exec tr (load_regs saved_regs sp @ [Addi sp sp 256, Jr ra]) m1"
    by (simp add: naked_leave_def m1_def m0_def)
  show ?thesis
    using m1 at_c zero fr fr[of 1] other by (auto simp: run Let_def f[symmetric] set_saved_regs)
qed

section \<open>The switch\<close>

lemma separate_switch:
  "separate f (switch_blocks c m) \<Longrightarrow> separate f [(c, 33), (frame_of m, 33)]"
  by (simp add: switch_blocks_def)

lemma switch_words_iff:
  "a \<in> switch_words f c m \<longleftrightarrow> (\<exists>i < 33. a = f (slot c i)) \<or> (\<exists>i < 33. a = f (slot (frame_of m) i))"
  by (auto simp: switch_words_def switch_blocks_def words_def)

text \<open>The state after the head of the inline assembly.\<close>

lemma execute_head_state:
  assumes ly: "layout_ok ly" and f: "f = tr (csr m SATP)"
    and s_def: "s = execute_start tr ly c ctx m" and h_def: "h = exec tr (execute_head ly) s"
  shows "csr h = (csr m)(SSCRATCH := c, SEPC := sepc ctx,
      SSTATUS := build_sstatus (supervisor ctx) (interrupt ctx) (csr m SSTATUS))"
    and "reg h = (reg s)(r_old ly := csr m SSCRATCH, sp := reg m sp - 8, ra := after_call ly)"
    and "mem h = (stores f c [0..<33] (ctx_word ctx) (mem m))
      (f (slot (frame_of m) 32) := if r_old ly = ra then csr m SSCRATCH else reg s ra)"
proof -
  have top: "slot (frame_of m) 32 = reg m sp - 8" by (simp add: slot_def frame_of_def)
  have d: "r_ctx ly \<noteq> r_old ly" "r_ctx ly \<noteq> r_sepc ly" "r_ctx ly \<noteq> r_status ly" "r_old ly \<noteq> r_sepc ly"
    "r_old ly \<noteq> r_status ly" "r_sepc ly \<noteq> r_status ly" "r_ctx ly \<noteq> 0" "r_old ly \<noteq> 0" "r_sepc ly \<noteq> 0"
    "r_status ly \<noteq> 0" "r_ctx ly \<noteq> 2" "r_old ly \<noteq> 2" "r_sepc ly \<noteq> 2" "r_status ly \<noteq> 2"
    using ly by (auto simp: layout_ok_def)
  show "csr h = (csr m)(SSCRATCH := c, SEPC := sepc ctx,
      SSTATUS := build_sstatus (supervisor ctx) (interrupt ctx) (csr m SSTATUS))"
    using d by (auto simp: h_def s_def execute_head_def execute_start_def fun_eq_iff)
  show "reg h = (reg s)(r_old ly := csr m SSCRATCH, sp := reg m sp - 8, ra := after_call ly)"
    using d by (auto simp: h_def s_def execute_head_def execute_start_def fun_eq_iff)
  show "mem h = (stores f c [0..<33] (ctx_word ctx) (mem m))
      (f (slot (frame_of m) 32) := if r_old ly = ra then csr m SSCRATCH else reg s ra)"
    using d unfolding top by (auto simp: h_def s_def execute_head_def execute_start_def fun_eq_iff f)
qed

lemma ctx_words_kept:
  assumes "separate f (switch_blocks c m)" "n < 33"
  shows "((stores f c [0..<33] (ctx_word ctx) (mem m))(f (slot (frame_of m) 32) := v)) (f (slot c n)) = ctx_word ctx n"
  using separate_two[OF separate_switch[OF assms(1)], of n 32] assms(2)
    stores_block[OF separate_switch[OF assms(1)], of c 33 "[0..<33]" n] by simp

text \<open>Entering: the thread starts at its program counter with its registers and in its mode.\<close>

lemma execute_enter_state:
  assumes ly: "layout_ok ly" and f: "f = tr (csr m SATP)" and sep: "separate f (switch_blocks c m)"
    and m2: "m2 = execute_enter tr ly c ctx m"
  shows "(\<forall>n. 1 \<le> n \<and> n < 32 \<longrightarrow> reg m2 n = xs ctx ! (n - 1)) \<and>
    csr m2 = (csr m)(SSCRATCH := c, SEPC := sepc ctx, STVEC := trap_label ly,
      SSTATUS := sret_status (build_sstatus (supervisor ctx) (interrupt ctx) (csr m SSTATUS))) \<and>
    pc m2 = sepc ctx \<and> user_mode m2 = (\<not> bit (build_sstatus (supervisor ctx) (interrupt ctx) (csr m SSTATUS)) 8) \<and>
    mem m2 (f c) = frame_of m \<and>
    mem m2 (f (slot (frame_of m) 32)) = (if r_old ly = ra then csr m SSCRATCH else reg (execute_start tr ly c ctx m) ra) \<and>
    (\<forall>n \<in> set saved_regs. mem m2 (f (slot (frame_of m) n)) =
       ((reg (execute_start tr ly c ctx m))(r_old ly := csr m SSCRATCH, ra := after_call ly)) n) \<and>
    (\<forall>a. a \<notin> switch_words f c m \<longrightarrow> mem m2 a = mem m a)"
proof -
  define s where "s = execute_start tr ly c ctx m"
  define h where "h = exec tr (execute_head ly) s"
  note head = execute_head_state[OF ly f s_def h_def]
  note sep2 = separate_switch[OF sep]
  have frame: "reg h sp - 256 = frame_of m" by (simp add: head(2) frame_of_def)
  have fh: "f = tr (csr h SATP)" "c = csr h SSCRATCH" by (simp_all add: head(1) f)
  have run: "m2 = exec tr (naked_enter (trap_label ly)) h"
    by (simp add: m2 execute_enter_def h_def s_def)
  note enter = naked_enter_state[of f tr h c "frame_of m" "trap_label ly", OF fh frame[symmetric] sep2, folded run, unfolded Let_def]
  let ?\<mu> = "stores f (frame_of m) saved_regs (reg h) (mem h)"
  have "reg m2 n = xs ctx ! (n - 1)" if "1 \<le> n" "n < 32" for n
    using enter that ctx_words_kept[OF sep, of n] by (simp add: head(3) ctx_word_def)
  moreover have "f (slot (frame_of m) i) \<noteq> f c" if "i < 33" for i
    using separate_two[OF sep2, of 0 i] that by simp
  moreover have "?\<mu> (f (slot (frame_of m) n)) = reg h n" if "n \<in> set saved_regs" for n
    by (rule stores_block[OF sep2, of _ 33]) (use that in \<open>auto simp: set_saved_regs\<close>)
  moreover have "?\<mu> (f (slot (frame_of m) 32)) = mem h (f (slot (frame_of m) 32))"
    by (rule stores_other) (use separate_same[OF sep2, of "frame_of m" 33 32] in \<open>auto simp: set_saved_regs\<close>)
  moreover have "?\<mu> a = mem m a" if "a \<notin> switch_words f c m" for a
  proof -
    have a: "a \<noteq> f (slot c i)" "a \<noteq> f (slot (frame_of m) i)" if "i < 33" for i
      using \<open>a \<notin> switch_words f c m\<close> that by (auto simp: switch_words_iff)
    have "?\<mu> a = mem h a" by (rule stores_other) (simp add: a set_saved_regs)
    also have "\<dots> = stores f c [0..<33] (ctx_word ctx) (mem m) a" using a(2)[of 32] by (simp add: head(3))
    also have "\<dots> = mem m a" by (rule stores_other) (simp add: a)
    finally show ?thesis .
  qed
  moreover have "a \<noteq> f c" if "a \<notin> switch_words f c m" for a
    using that switch_words_iff[of a f c m] slot_0[of c] by (metis zero_less_numeral)
  ultimately show ?thesis
    using enter by (auto simp: head s_def set_saved_regs)
qed

lemma switch_words_slots:
  "i < 33 \<Longrightarrow> f (slot c i) \<in> switch_words f c m" "i < 33 \<Longrightarrow> f (slot (frame_of m) i) \<in> switch_words f c m"
  by (auto simp: switch_words_iff)

lemma execute_start_regs:
  "n \<notin> {r_ctx ly, r_sepc ly, r_status ly} \<Longrightarrow> reg (execute_start tr ly c ctx m) n = reg m n"
  by (simp add: execute_start_def)

text \<open>Leaving: the context holds the registers and the program counter of the thread at the trap; the registers
of the caller are as they were.\<close>

lemma local_execute_state:
  assumes ly: "layout_ok ly" and f: "f = tr (csr m SATP)" and sep: "separate f (switch_blocks c m)"
    and m2: "m2 = execute_enter tr ly c ctx m" and m3: "m3 = thread m2" and trap: "traps (switch_words f c m) m2 m3"
  shows "\<exists>m4. local_execute tr ly thread c ctx m =
      (csr m3 SSTATUS, ctx\<lparr>sctx := frame_of m, xs := map (reg m3) [1..<32], sepc := csr m3 SEPC\<rparr>, m4) \<and>
    (\<forall>n. 1 \<le> n \<and> n < 32 \<and> n \<notin> {r_ctx ly, r_old ly, r_sepc ly, r_status ly} \<longrightarrow> reg m4 n = reg m n) \<and>
    csr m4 = (csr m3)(SSCRATCH := csr m SSCRATCH) \<and> pc m4 = after_call ly \<and>
    (\<forall>a. a \<notin> switch_words f c m \<longrightarrow> mem m4 a = mem m3 a)"
proof -
  note enter = execute_enter_state[OF ly f sep m2]
  note sep2 = separate_switch[OF sep]
  have d: "r_old ly \<noteq> r_sepc ly" "r_old ly \<noteq> r_status ly" "r_sepc ly \<noteq> r_status ly" "r_old ly \<noteq> 0" "r_sepc ly \<noteq> 0"
    "r_status ly \<noteq> 0" "r_old ly \<noteq> 2" "r_sepc ly \<noteq> 2" "r_status ly \<noteq> 2" "r_old ly < 32"
    using ly by (auto simp: layout_ok_def)
  have csr3: "csr m3 SATP = csr m SATP" "csr m3 SSCRATCH = c"
    using trap enter by (simp_all add: traps_def)
  have kept: "mem m3 a = mem m2 a" if "a \<in> switch_words f c m" for a
    using trap that by (simp add: traps_def)
  have top: "mem m3 (f c) = frame_of m"
    using kept[of "f c"] switch_words_slots(1)[of 0 f c m] enter by simp
  have f3: "f = tr (csr m3 SATP)" "c = csr m3 SSCRATCH" by (simp_all add: csr3 f)
  define ml where "ml = exec tr naked_leave m3"
  note leave = naked_leave_state[of f tr m3 c "frame_of m", OF f3 top sep2, folded ml_def, unfolded Let_def]
  define v where "v = (if r_old ly = ra then csr m SSCRATCH else reg (execute_start tr ly c ctx m) ra)"
  have ra_word: "mem ml (f (slot (frame_of m) 32)) = v"
    using leave kept[OF switch_words_slots(2)[of 32]] enter by (simp add: v_def)
  have saved: "reg ml n = ((reg (execute_start tr ly c ctx m))(r_old ly := csr m SSCRATCH, ra := after_call ly)) n"
    if "n \<in> set saved_regs" for n
  proof -
    have "n < 33" using that by (simp add: set_saved_regs)
    then show ?thesis using leave kept[OF switch_words_slots(2)[of n]] enter that by simp
  qed
  have spl: "reg ml sp = slot (frame_of m) 32" using leave by (simp add: slot_def)
  have "csr ml = csr m3" "pc ml = after_call ly"
    using leave kept[OF switch_words_slots(2)[of 1]] enter by simp_all
  note ml = this
  have fl: "tr (csr m3 SATP) = f" by (simp add: f3)
  define m4 where "m4 = exec tr (execute_tail ly) ml"
  have old: "(if r_old ly = ra then v else reg ml (r_old ly)) = csr m SSCRATCH"
    using saved[of "r_old ly"] d by (simp add: v_def set_saved_regs)
  have reg4: "reg m4 = (reg ml)(ra := v, sp := reg m sp, r_sepc ly := csr m3 SEPC, r_status ly := csr m3 SSTATUS)"
    and csr4: "csr m4 = (csr m3)(SSCRATCH := csr m SSCRATCH)" and mem4: "mem m4 = mem ml" and pc4: "pc m4 = after_call ly"
    using d old[symmetric] ra_word ml spl
    by (auto simp: m4_def execute_tail_def fl fun_eq_iff slot_def frame_of_def)
  have words: "mem m4 (tr (csr m4 SATP) (slot c n)) = (if n = 0 then frame_of m else reg m3 n)" if "n < 32" for n
    using leave that by (simp add: mem4 csr4 fl)
  have restored: "reg m4 n = reg m n"
    if n: "1 \<le> n" "n < 32" "n \<notin> {r_ctx ly, r_old ly, r_sepc ly, r_status ly}" for n
    using n saved[of n] execute_start_regs[of n ly tr c ctx m] by (auto simp: reg4 v_def set_saved_regs)
  have "map (\<lambda>n. mem m4 (tr (csr m4 SATP) (slot c n))) [1..<32] = map (reg m3) [1..<32]"
    by (rule map_cong) (simp_all only: set_upt atLeastLessThan_iff words, auto)
  then have "local_execute tr ly thread c ctx m =
      (csr m3 SSTATUS, ctx\<lparr>sctx := frame_of m, xs := map (reg m3) [1..<32], sepc := csr m3 SEPC\<rparr>, m4)"
    using words[of 0] reg4 d
    by (simp add: local_execute_def execute_leave_def m2[symmetric] m3[symmetric] ml_def[symmetric] m4_def[symmetric] Let_def
        del: upt_rec_numeral)
  moreover have "mem m4 a = mem m3 a" if "a \<notin> switch_words f c m" for a
  proof -
    have "\<forall>n < 33. a \<noteq> f (slot c n)" using that by (auto simp: switch_words_iff)
    then show ?thesis using leave by (simp add: mem4)
  qed
  ultimately show ?thesis using csr4 pc4 restored by blast
qed

section \<open>Modes\<close>

lemma bit_build_sstatus:
  "bit (build_sstatus super intr s) 8 = super" "bit (build_sstatus super intr s) 5 = intr"
  "n \<noteq> 8 \<Longrightarrow> n \<noteq> 5 \<Longrightarrow> bit (build_sstatus super intr s) n = bit s n"
proof -
  have e: "(256 :: usize) = push_bit 8 1" "(32 :: usize) = push_bit 5 1" by simp_all
  show "bit (build_sstatus super intr s) 8 = super" "bit (build_sstatus super intr s) 5 = intr"
    unfolding build_sstatus_def e Let_def
    by (auto simp only: bit_or_iff bit_and_iff bit_not_iff bit_single split: if_splits) simp_all
  show "bit (build_sstatus super intr s) n = bit s n" if "n \<noteq> 8" "n \<noteq> 5"
    using that unfolding build_sstatus_def e Let_def
    by (cases "n < 64")
      (auto simp: bit_or_iff bit_and_iff bit_not_iff bit_single simp del: push_bit_of_1 dest: bit_imp_le_length)
qed

lemma bit_sret_status: "bit (sret_status s) 1 = bit s 5"
  by (simp add: sret_status_def bit_simps)

text \<open>\<open>execute\<close> switches to a thread and back. At the \<open>sret\<close> all 31 registers hold the values of the context, control is at
its program counter, in user mode unless the thread is a supervisor thread, with interrupts enabled as the context
says. After the next trap the context holds the 31 registers and the program counter of the thread, the result is
the trap's \<open>sstatus\<close>, and every register of the caller that is not an operand of the inline assembly, the stack
pointer included, \<open>sscratch\<close> and the address space are as before. It needs the context and the 33 words below the
stack pointer to be apart.\<close>

theorem thread_runs_and_returns:
  assumes "layout_ok ly" "separate (tr (csr m SATP)) (switch_blocks c m)" "m2 = execute_enter tr ly c ctx m"
    and "traps (switch_words (tr (csr m SATP)) c m) m2 (thread m2)"
  shows "(\<forall>n. 1 \<le> n \<and> n < 32 \<longrightarrow> reg m2 n = xs ctx ! (n - 1)) \<and> pc m2 = sepc ctx \<and>
      user_mode m2 = (\<not> supervisor ctx) \<and> bit (csr m2 SSTATUS) 1 = interrupt ctx \<and>
    (\<exists>m4. local_execute tr ly thread c ctx m =
        (csr (thread m2) SSTATUS,
         ctx\<lparr>sctx := frame_of m, xs := map (reg (thread m2)) [1..<32], sepc := csr (thread m2) SEPC\<rparr>, m4) \<and>
      (\<forall>n. 1 \<le> n \<and> n < 32 \<and> n \<notin> {r_ctx ly, r_old ly, r_sepc ly, r_status ly} \<longrightarrow> reg m4 n = reg m n) \<and>
      csr m4 SSCRATCH = csr m SSCRATCH \<and> csr m4 SATP = csr m SATP \<and> pc m4 = after_call ly)"
proof -
  note enter = execute_enter_state[OF assms(1) refl assms(2,3)]
  have satp: "csr (thread m2) SATP = csr m SATP" using assms(4) enter by (simp add: traps_def)
  obtain m4 where m4: "local_execute tr ly thread c ctx m =
        (csr (thread m2) SSTATUS,
         ctx\<lparr>sctx := frame_of m, xs := map (reg (thread m2)) [1..<32], sepc := csr (thread m2) SEPC\<rparr>, m4)"
      "\<forall>n. 1 \<le> n \<and> n < 32 \<and> n \<notin> {r_ctx ly, r_old ly, r_sepc ly, r_status ly} \<longrightarrow> reg m4 n = reg m n"
      "csr m4 = (csr (thread m2))(SSCRATCH := csr m SSCRATCH)" "pc m4 = after_call ly"
    using local_execute_state[OF assms(1) refl assms(2,3), of "thread m2" thread, OF refl assms(4)] by blast
  have "csr m4 SSCRATCH = csr m SSCRATCH" "csr m4 SATP = csr m SATP" by (simp_all add: m4(3) satp)
  then have "\<exists>m4. local_execute tr ly thread c ctx m =
        (csr (thread m2) SSTATUS,
         ctx\<lparr>sctx := frame_of m, xs := map (reg (thread m2)) [1..<32], sepc := csr (thread m2) SEPC\<rparr>, m4) \<and>
      (\<forall>n. 1 \<le> n \<and> n < 32 \<and> n \<notin> {r_ctx ly, r_old ly, r_sepc ly, r_status ly} \<longrightarrow> reg m4 n = reg m n) \<and>
      csr m4 SSCRATCH = csr m SSCRATCH \<and> csr m4 SATP = csr m SATP \<and> pc m4 = after_call ly"
    using m4 by blast
  then show ?thesis using enter by (simp add: bit_build_sstatus bit_sret_status[unfolded One_nat_def] del: upt_rec_numeral)
qed

theorem thread_runs_and_returns_witness:
  "\<exists>m4. local_execute (\<lambda>_ a. a) \<lparr>r_ctx = 10, r_old = 11, r_sepc = 12, r_status = 13, after_call = 64, trap_label = 128\<rparr>
      (\<lambda>m. m\<lparr>pc := csr m STVEC, user_mode := False, reg := (\<lambda>n. of_nat n), csr := (csr m)(SEPC := 8, SSTATUS := 32)\<rparr>)
      4096 (ctx_user 4) \<lparr>reg = (\<lambda>n. 8192 + of_nat n), csr = (\<lambda>_. 0), mem = (\<lambda>_. 0), pc = 0, user_mode = False\<rparr> =
        (32, (ctx_user 4)\<lparr>sctx := 7930, xs := map of_nat [1..<32], sepc := 8\<rparr>, m4) \<and>
      reg m4 2 = 8194 \<and> reg m4 20 = 8212 \<and> pc m4 = 64"
proof -
  let ?ly = "\<lparr>r_ctx = 10, r_old = 11, r_sepc = 12, r_status = 13, after_call = 64, trap_label = 128\<rparr>"
  let ?m = "\<lparr>reg = (\<lambda>n. 8192 + of_nat n), csr = (\<lambda>_. 0), mem = (\<lambda>_. 0), pc = 0, user_mode = False\<rparr>"
  let ?th = "\<lambda>m. m\<lparr>pc := csr m STVEC, user_mode := False, reg := (\<lambda>n. of_nat n), csr := (csr m)(SEPC := 8, SSTATUS := 32)\<rparr>"
  have ly: "layout_ok ?ly" by (simp add: layout_ok_def)
  have sep: "separate ((\<lambda>_ a. a) (csr ?m SATP)) (switch_blocks 4096 ?m)"
    by (rule separate_in_order) (simp_all add: switch_blocks_def frame_of_def)
  have trap: "traps K m (?th m)" for K m by (simp add: traps_def)
  obtain m4 where "local_execute (\<lambda>_ a. a) ?ly ?th 4096 (ctx_user 4) ?m =
        (32, (ctx_user 4)\<lparr>sctx := frame_of ?m, xs := map of_nat [1..<32], sepc := 8\<rparr>, m4)"
      "\<And>n. 1 \<le> n \<and> n < 32 \<and> n \<notin> {10, 11, 12, 13} \<Longrightarrow> reg m4 n = 8192 + of_nat n" "pc m4 = 64"
    using thread_runs_and_returns[of ?ly "\<lambda>_ a. a" ?m 4096 _ "ctx_user 4" ?th, OF ly sep refl trap]
    by (auto simp del: upt_rec_numeral)
  then show ?thesis by (intro exI[of _ m4]) (simp add: frame_of_def del: upt_rec_numeral)
qed

end
