(* ===== verification/Portal.thy ===== *)
theory Portal
  imports Trap_Switch
begin

text \<open>
  The portal into another address space: \<open>tg-rcore-tutorial-kernel-context/src/foreign/mod.rs\<close>
  and \<open>multislot_portal.rs\<close>. \<open>ForeignContext::execute\<close> runs a thread whose address space is
  not the kernel's: it executes, as a supervisor thread with interrupts off, the portal code
  \<open>foreign_execute\<close>, which is mapped in both address spaces, as is the cache it uses.

  Word 0 of a cache is \<open>a0\<close>, then \<open>a1\<close>, \<open>satp\<close>, \<open>sstatus\<close>, \<open>sepc\<close>, \<open>stvec\<close>, \<open>sscratch\<close>.
\<close>

record portal_cache =
  pc_a0 :: usize
  pc_a1 :: usize
  pc_satp :: usize
  pc_sstatus :: usize
  pc_sepc :: usize
  pc_stvec :: usize
  pc_sscratch :: usize

definition cache_word :: "portal_cache \<Rightarrow> nat \<Rightarrow> usize" where
  "cache_word q n = [pc_a0 q, pc_a1 q, pc_satp q, pc_sstatus q, pc_sepc q, pc_stvec q, pc_sscratch q] ! n"

definition cache_init :: "usize \<Rightarrow> usize \<Rightarrow> usize \<Rightarrow> bool \<Rightarrow> bool \<Rightarrow> usize \<Rightarrow> portal_cache \<Rightarrow> portal_cache" where
  "cache_init space start a super intr status q =
     q\<lparr>pc_satp := space, pc_sepc := start, pc_a0 := a, pc_sstatus := build_sstatus super intr status\<rparr>"

section \<open>The portal code\<close>

definition foreign_enter :: "usize \<Rightarrow> instr list" where
  "foreign_enter label =
     [Sd a1 8 a0,
      Ld a1 16 a0, Csrrw a1 SATP a1, Sfence_vma, Sd a1 16 a0,
      Ld a1 24 a0, Csrw SSTATUS a1,
      Ld a1 32 a0, Csrw SEPC a1,
      La a1 label, Csrrw a1 STVEC a1, Sd a1 40 a0,
      Csrrw a1 SSCRATCH a0, Sd a1 48 a0,
      Ld a1 8 a0, Ld a0 0 a0,
      Sret]"

definition foreign_leave :: "instr list" where
  "foreign_leave =
     [Csrrw a0 SSCRATCH a0,
      Sd a1 8 a0,
      Ld a1 48 a0, Csrrw a1 SSCRATCH a1, Sd a1 0 a0,
      Ld a1 16 a0, Csrrw a1 SATP a1, Sfence_vma, Sd a1 16 a0,
      Ld a1 8 a0,
      Ld a0 40 a0, Csrw STVEC a0,
      Jr a0]"

text \<open>What runs between the two \<open>sret\<close>s and traps of a portal trip: the portal code around the thread.\<close>

definition through_portal :: "mmu \<Rightarrow> usize \<Rightarrow> (machine \<Rightarrow> machine) \<Rightarrow> machine \<Rightarrow> machine" where
  "through_portal tr label thread m = exec tr foreign_leave (thread (exec tr (foreign_enter label) m))"

section \<open>Portals and their slots\<close>

text \<open>A portal lies at \<open>transit\<close>: two words, the code, then the caches of 7 words.\<close>

record multislot_portal =
  transit :: usize
  slot_count :: usize
  text_size :: usize

definition portal_text_offset :: "multislot_portal \<Rightarrow> usize" where
  "portal_text_offset p = 16"

definition cache_offset :: "multislot_portal \<Rightarrow> usize \<Rightarrow> usize res" where
  "cache_offset p key =
     bind_res (times_usize key 56) (\<lambda>k. bind_res (plus_usize 16 (text_size p)) (\<lambda>t. plus_usize t k))"

definition total_size :: "multislot_portal \<Rightarrow> usize res" where
  "total_size p = cache_offset p (slot_count p)"

definition transit_entry :: "multislot_portal \<Rightarrow> usize res" where
  "transit_entry p = plus_usize (transit p) (portal_text_offset p)"

definition transit_cache :: "multislot_portal \<Rightarrow> usize \<Rightarrow> usize res" where
  "transit_cache p key = bind_res (cache_offset p key) (plus_usize (transit p))"

text \<open>The code is a sequence of 16-bit halves.\<close>

definition aligned_size :: "usize \<Rightarrow> usize res" where
  "aligned_size halves =
     bind_res (times_usize halves 2) (\<lambda>n. bind_res (plus_usize n 7) (\<lambda>k. Inr (k AND NOT 7)))"

definition calculate_size :: "usize \<Rightarrow> usize \<Rightarrow> usize res" where
  "calculate_size halves slots =
     bind_res (aligned_size halves) (\<lambda>t. bind_res (plus_usize 16 t) (\<lambda>h.
       bind_res (times_usize slots 56) (\<lambda>k. plus_usize h k)))"

definition init_transit :: "usize \<Rightarrow> usize \<Rightarrow> usize \<Rightarrow> multislot_portal res" where
  "init_transit halves addr slots =
     bind_res (assert_res (trailing_zeros addr > 3)) (\<lambda>_.
     bind_res (aligned_size halves) (\<lambda>t. Inr \<lparr>transit = addr, slot_count = slots, text_size = t\<rparr>))"

datatype slot_key = UnitKey | IndexKey usize | TpKey

fun slot_index :: "usize \<Rightarrow> slot_key \<Rightarrow> usize" where
  "slot_index tp UnitKey = 0"
| "slot_index tp (IndexKey i) = i"
| "slot_index tp TpKey = tp"

section \<open>Execution in another address space\<close>

text \<open>
  \<open>entry\<close> and \<open>k\<close> are the addresses of the portal code and of the cache. The cache is written
  through the kernel's address space and read through it after the trip.
\<close>

definition foreign_start :: "mmu \<Rightarrow> usize \<Rightarrow> foreign_context \<Rightarrow> machine \<Rightarrow> machine" where
  "foreign_start tr k th m =
     (let f = tr (csr m SATP);
          q = cache_init (satp th) (sepc (local_ctx th)) (xs (local_ctx th) ! 9)
                (supervisor (local_ctx th)) (interrupt (local_ctx th)) (csr m SSTATUS)
                \<lparr>pc_a0 = mem m (f (slot k 0)), pc_a1 = mem m (f (slot k 1)), pc_satp = mem m (f (slot k 2)),
                 pc_sstatus = mem m (f (slot k 3)), pc_sepc = mem m (f (slot k 4)), pc_stvec = mem m (f (slot k 5)),
                 pc_sscratch = mem m (f (slot k 6))\<rparr>
      in m\<lparr>mem := stores f k [0..<7] (cache_word q) (mem m)\<rparr>)"

definition portal_context :: "usize \<Rightarrow> usize \<Rightarrow> local_context \<Rightarrow> local_context" where
  "portal_context entry k ctx =
     ctx\<lparr>supervisor := True, interrupt := False, sepc := entry, xs := (xs ctx)[9 := k]\<rparr>"

definition foreign_execute_context ::
  "mmu \<Rightarrow> layout \<Rightarrow> usize \<Rightarrow> (machine \<Rightarrow> machine) \<Rightarrow> usize \<Rightarrow> usize \<Rightarrow> usize \<Rightarrow> foreign_context \<Rightarrow> machine \<Rightarrow>
   usize \<times> foreign_context \<times> machine" where
  "foreign_execute_context tr ly label thread c entry k th m =
     (case local_execute tr ly (through_portal tr label thread) c (portal_context entry k (local_ctx th))
             (foreign_start tr k th m) of
        (status, ctx, m') \<Rightarrow>
          (status,
           th\<lparr>local_ctx := ctx\<lparr>supervisor := supervisor (local_ctx th), interrupt := interrupt (local_ctx th),
                                xs := (xs ctx)[9 := mem m' (tr (csr m' SATP) (slot k 0))]\<rparr>\<rparr>,
           m'))"

definition foreign_execute ::
  "mmu \<Rightarrow> layout \<Rightarrow> usize \<Rightarrow> (machine \<Rightarrow> machine) \<Rightarrow> usize \<Rightarrow> multislot_portal \<Rightarrow> usize \<Rightarrow> foreign_context \<Rightarrow>
   machine \<Rightarrow> (usize \<times> foreign_context \<times> machine) res" where
  "foreign_execute tr ly label thread c p key th m =
     bind_res (transit_entry p) (\<lambda>entry. bind_res (transit_cache p key) (\<lambda>k.
       Inr (foreign_execute_context tr ly label thread c entry k th m)))"

section \<open>Through the portal\<close>

lemma cache_slots: "slot k 0 = k" "slot k 1 = k + 8" "slot k 2 = k + 16" "slot k 3 = k + 24"
  "slot k 4 = k + 32" "slot k 5 = k + 40" "slot k 6 = k + 48"
  by (simp_all add: slot_def)

lemma less_7: "(\<forall>i < 7. P i) \<longleftrightarrow> P 0 \<and> P 1 \<and> P 2 \<and> P 3 \<and> P 4 \<and> P 5 \<and> P (6 :: nat)"
  by (simp add: numeral_eq_Suc All_less_Suc conj_ac)

lemma cache_distinct:
  assumes "separate f [(k, 7)]"
  shows "distinct [f k, f (k + 8), f (k + 16), f (k + 24), f (k + 32), f (k + 40), f (k + 48)]"
    and "distinct [f (k + 48), f (k + 40), f (k + 32), f (k + 24), f (k + 16), f (k + 8), f k]"
proof -
  have "[0..<7] = [0, 1, 2, 3, 4, 5, 6 :: nat]" by (simp add: upt_rec)
  then show d: "distinct [f k, f (k + 8), f (k + 16), f (k + 24), f (k + 32), f (k + 40), f (k + 48)]"
    using assms by (simp add: separate_def words_def slot_def)
  show "distinct [f (k + 48), f (k + 40), f (k + 32), f (k + 24), f (k + 16), f (k + 8), f k]"
    using d distinct_rev[of "[f k, f (k + 8), f (k + 16), f (k + 24), f (k + 32), f (k + 40), f (k + 48)]"]
    by (simp only: rev.simps append.simps)
qed

lemma foreign_enter_state:
  assumes k: "reg h a0 = k" and f: "tr (csr h SATP) = f" and g: "tr (mem h (f (k + 16))) = g"
    and common: "\<forall>i < 7. g (slot k i) = f (slot k i)" and sep: "separate f [(k, 7)]"
  shows "let m = exec tr (foreign_enter label) h in
    reg m = (reg h)(a0 := mem h (f k)) \<and>
    csr m = (csr h)(SATP := mem h (f (k + 16)), SSTATUS := sret_status (mem h (f (k + 24))),
      SEPC := mem h (f (k + 32)), STVEC := label, SSCRATCH := k) \<and>
    pc m = mem h (f (k + 32)) \<and> user_mode m = (\<not> bit (mem h (f (k + 24))) 8) \<and>
    mem m = (mem h)(f (k + 8) := reg h a1, f (k + 16) := csr h SATP, f (k + 40) := csr h STVEC,
      f (k + 48) := csr h SSCRATCH)"
proof -
  obtain \<rho> \<sigma> \<mu> p u where h: "h = \<lparr>reg = \<rho>, csr = \<sigma>, mem = \<mu>, pc = p, user_mode = u\<rparr>" by (cases h)
  have same: "g k = f k" "g (k + 8) = f (k + 8)" "g (k + 16) = f (k + 16)" "g (k + 24) = f (k + 24)"
    "g (k + 32) = f (k + 32)" "g (k + 40) = f (k + 40)" "g (k + 48) = f (k + 48)"
    using common by (simp_all add: less_7 slot_def)
  have run: "exec tr (foreign_enter label) h =
    \<lparr>reg = \<rho>(a0 := \<mu> (f k)),
     csr = \<sigma>(SATP := \<mu> (f (k + 16)), SSTATUS := \<mu> (f (k + 24)), SEPC := \<mu> (f (k + 32)), STVEC := label,
       SSCRATCH := k, SSTATUS := sret_status (\<mu> (f (k + 24)))),
     mem = \<mu>(f (k + 8) := \<rho> a1, f (k + 16) := \<sigma> SATP, f (k + 40) := \<sigma> STVEC, f (k + 48) := \<sigma> SSCRATCH),
     pc = \<mu> (f (k + 32)), user_mode = \<not> bit (\<mu> (f (k + 24))) 8\<rparr>"
    using cache_distinct[OF sep] k f g by (simp add: h same foreign_enter_def set_reg_def)
  show ?thesis unfolding run Let_def by (auto simp: h fun_eq_iff)
qed

lemma foreign_leave_state:
  assumes k: "csr h SSCRATCH = k" and g: "tr (csr h SATP) = g" and f: "tr (mem h (f (k + 16))) = f"
    and common: "\<forall>i < 7. g (slot k i) = f (slot k i)" and sep: "separate f [(k, 7)]"
  shows "let m = exec tr foreign_leave h in
    reg m = (reg h)(a0 := mem h (f (k + 40))) \<and>
    csr m = (csr h)(SSCRATCH := mem h (f (k + 48)), SATP := mem h (f (k + 16)), STVEC := mem h (f (k + 40))) \<and>
    pc m = mem h (f (k + 40)) \<and> user_mode m = user_mode h \<and>
    mem m = (mem h)(f (k + 8) := reg h a1, f k := reg h a0, f (k + 16) := csr h SATP)"
proof -
  obtain \<rho> \<sigma> \<mu> p u where h: "h = \<lparr>reg = \<rho>, csr = \<sigma>, mem = \<mu>, pc = p, user_mode = u\<rparr>" by (cases h)
  have same: "g k = f k" "g (k + 8) = f (k + 8)" "g (k + 16) = f (k + 16)" "g (k + 24) = f (k + 24)"
    "g (k + 32) = f (k + 32)" "g (k + 40) = f (k + 40)" "g (k + 48) = f (k + 48)"
    using common by (simp_all add: less_7 slot_def)
  have run: "exec tr foreign_leave h =
    \<lparr>reg = \<rho>(a0 := \<mu> (f (k + 40))),
     csr = \<sigma>(SSCRATCH := \<mu> (f (k + 48)), SATP := \<mu> (f (k + 16)), STVEC := \<mu> (f (k + 40))),
     mem = \<mu>(f (k + 8) := \<rho> a1, f k := \<rho> a0, f (k + 16) := \<sigma> SATP),
     pc = \<mu> (f (k + 40)), user_mode = u\<rparr>"
    using cache_distinct[OF sep] k f g by (simp add: h same foreign_leave_def set_reg_def)
  show ?thesis unfolding run Let_def by (auto simp: h fun_eq_iff)
qed

lemma foreign_start_state:
  assumes f: "f = tr (csr m SATP)" and sep: "separate f [(k, 7)]" and m': "m' = foreign_start tr k th m"
  shows "reg m' = reg m \<and> csr m' = csr m \<and>
    mem m' (f k) = xs (local_ctx th) ! 9 \<and> mem m' (f (k + 16)) = satp th \<and>
    mem m' (f (k + 24)) = build_sstatus (supervisor (local_ctx th)) (interrupt (local_ctx th)) (csr m SSTATUS) \<and>
    mem m' (f (k + 32)) = sepc (local_ctx th)"
proof -
  have "stores f k [0..<7] v \<mu> (f (slot k n)) = v n" if "n < 7" for v \<mu> n
    by (rule stores_block[OF sep, of k 7]) (use that in auto)
  note at = this[of 0] this[of 2] this[of 3] this[of 4]
  show ?thesis using at
    by (simp add: m' foreign_start_def Let_def f[symmetric] slot_def cache_word_def cache_init_def del: upt_rec_numeral)
qed

lemma portal_context_simps [simp]:
  "sepc (portal_context entry k ctx) = entry" "supervisor (portal_context entry k ctx)"
  "\<not> interrupt (portal_context entry k ctx)" "xs (portal_context entry k ctx) = (xs ctx)[9 := k]"
  by (simp_all add: portal_context_def)

definition cache_words :: "(usize \<Rightarrow> usize) \<Rightarrow> usize \<Rightarrow> usize set" where
  "cache_words f k = (\<lambda>i. f (slot k i)) ` {0..<7}"

lemma cache_words_apart:
  assumes "separate f [(c, 33), (frame_of m, 33), (k, 7)]"
  shows "a \<in> cache_words f k \<Longrightarrow> a \<notin> switch_words f c m"
proof -
  note pairs = separate_pairs[OF assms]
  assume "a \<in> cache_words f k"
  then obtain i where i: "i < 7" "a = f (slot k i)" by (auto simp: cache_words_def)
  show "a \<notin> switch_words f c m"
    using separate_two[OF pairs(2), of _ i] separate_two[OF pairs(3), of _ i] i
    by (fastforce simp: switch_words_iff)
qed

text \<open>The machine when the thread starts in its own address space.\<close>

definition foreign_entered :: "mmu \<Rightarrow> layout \<Rightarrow> usize \<Rightarrow> usize \<Rightarrow> usize \<Rightarrow> usize \<Rightarrow> foreign_context \<Rightarrow> machine \<Rightarrow> machine" where
  "foreign_entered tr ly label c entry k th m =
     exec tr (foreign_enter label)
       (execute_enter tr ly c (portal_context entry k (local_ctx th)) (foreign_start tr k th m))"

text \<open>What a trip relies on: the context, the stack and the cache are apart in the kernel's address space, and
the cache is at the same place in the other one.\<close>

definition portal_ready :: "mmu \<Rightarrow> layout \<Rightarrow> usize \<Rightarrow> usize \<Rightarrow> foreign_context \<Rightarrow> machine \<Rightarrow> bool" where
  "portal_ready tr ly c k th m \<longleftrightarrow>
     layout_ok ly \<and> separate (tr (csr m SATP)) [(c, 33), (frame_of m, 33), (k, 7)] \<and>
     (\<forall>i < 7. tr (satp th) (slot k i) = tr (csr m SATP) (slot k i)) \<and> length (xs (local_ctx th)) = 31"


lemma frame_start:
  assumes ready: "portal_ready tr ly c k th m" and f: "f = tr (csr m SATP)" and m0: "m0 = foreign_start tr k th m"
  shows "frame_of m0 = frame_of m" "switch_words f c m0 = switch_words f c m" "f = tr (csr m0 SATP)"
    "separate f (switch_blocks c m0)" "separate f [(k, 7)]"
proof -
  have ly: "layout_ok ly" and sep: "separate f [(c, 33), (frame_of m, 33), (k, 7)]"
    and common: "\<forall>i < 7. tr (satp th) (slot k i) = f (slot k i)" and regs: "length (xs (local_ctx th)) = 31"
    using ready f by (simp_all add: portal_ready_def)
  have s: "separate f [(k, 7)]" using sep by (simp add: separate_def)
  note start = foreign_start_state[OF f s m0]
  show "frame_of m0 = frame_of m" "f = tr (csr m0 SATP)" using start f by (simp_all add: frame_of_def)
  then show "switch_words f c m0 = switch_words f c m" "separate f (switch_blocks c m0)"
    using separate_pairs(1)[OF sep] by (simp_all add: switch_words_def switch_blocks_def)
  show "separate f [(k, 7)]" by (rule s)
qed

lemma portal_entered:
  assumes ready: "portal_ready tr ly c k th m" and f: "f = tr (csr m SATP)" and m0: "m0 = foreign_start tr k th m"
    and m2: "m2 = execute_enter tr ly c (portal_context entry k (local_ctx th)) m0"
  shows "reg m2 a0 = k" "csr m2 SATP = csr m SATP" "csr m2 SSCRATCH = c" "csr m2 STVEC = trap_label ly"
  "a \<in> cache_words f k \<Longrightarrow> mem m2 a = mem m0 a"
  "1 \<le> n \<Longrightarrow> n < 32 \<Longrightarrow> n \<noteq> a0 \<Longrightarrow> reg m2 n = xs (local_ctx th) ! (n - 1)"
proof -
  have ly: "layout_ok ly" and sep: "separate f [(c, 33), (frame_of m, 33), (k, 7)]"
    and common: "\<forall>i < 7. tr (satp th) (slot k i) = f (slot k i)" and regs: "length (xs (local_ctx th)) = 31"
    using ready f by (simp_all add: portal_ready_def)
  note fr = frame_start[OF ready f m0]
  note enter = execute_enter_state[OF ly fr(3,4) m2]
  note start = foreign_start_state[OF f fr(5) m0]
  show "reg m2 a0 = k" "csr m2 SATP = csr m SATP" "csr m2 SSCRATCH = c" "csr m2 STVEC = trap_label ly"
    using enter start regs by simp_all
  show "mem m2 a = mem m0 a" if "a \<in> cache_words f k"
    using enter cache_words_apart[OF sep that] fr(2) by simp
  show "reg m2 n = xs (local_ctx th) ! (n - 1)" if "1 \<le> n" "n < 32" "n \<noteq> a0"
  proof -
    have "n - 1 \<noteq> 9" using that by auto
    then show ?thesis using enter that regs by simp
  qed
qed

lemma cache_word_at: "i < 7 \<Longrightarrow> f (slot k i) \<in> cache_words f k"
  by (simp add: cache_words_def)

lemma thread_entered:
  assumes ready: "portal_ready tr ly c k th m" and f: "f = tr (csr m SATP)" and m0: "m0 = foreign_start tr k th m"
    and m2: "m2 = execute_enter tr ly c (portal_context entry k (local_ctx th)) m0"
    and mu: "mu = exec tr (foreign_enter label) m2"
  shows "(\<forall>n. 1 \<le> n \<and> n < 32 \<longrightarrow> reg mu n = xs (local_ctx th) ! (n - 1)) \<and>
   csr mu SATP = satp th \<and> csr mu STVEC = label \<and> csr mu SSCRATCH = k \<and> pc mu = sepc (local_ctx th) \<and>
   user_mode mu = (\<not> supervisor (local_ctx th)) \<and> bit (csr mu SSTATUS) 1 = interrupt (local_ctx th) \<and>
   mem mu (f (k + 16)) = csr m SATP \<and> mem mu (f (k + 40)) = trap_label ly \<and> mem mu (f (k + 48)) = c \<and>
   (\<forall>a. a \<notin> cache_words f k \<longrightarrow> mem mu a = mem m2 a)"
proof -
  have ly: "layout_ok ly" and sep: "separate f [(c, 33), (frame_of m, 33), (k, 7)]"
    and common: "\<forall>i < 7. tr (satp th) (slot k i) = f (slot k i)" and regs: "length (xs (local_ctx th)) = 31"
    using ready f by (simp_all add: portal_ready_def)
  note fr = frame_start[OF ready f m0]
  note pe = portal_entered[OF ready f m0 m2]
  note start = foreign_start_state[OF f fr(5) m0]
  have word: "mem m2 (f (slot k i)) = mem m0 (f (slot k i))" if "i < 7" for i
    using pe(5)[OF cache_word_at[OF that]] .
  note words = word[of 0] word[of 2] word[of 3] word[of 4]
  have cache: "mem m2 (f k) = xs (local_ctx th) ! 9" "mem m2 (f (k + 16)) = satp th" "mem m2 (f (k + 32)) = sepc (local_ctx th)"
    "mem m2 (f (k + 24)) = build_sstatus (supervisor (local_ctx th)) (interrupt (local_ctx th)) (csr m SSTATUS)"
    using words start by (simp_all add: slot_def)
  have gs: "tr (mem m2 (f (k + 16))) = tr (satp th)" "tr (csr m2 SATP) = f" using cache pe(2) f by simp_all
  note enter = foreign_enter_state[OF pe(1) gs(2,1) common fr(5), of label, folded mu, unfolded Let_def]
  have out: "a \<notin> cache_words f k \<Longrightarrow> a \<noteq> f (k + 8) \<and> a \<noteq> f (k + 16) \<and> a \<noteq> f (k + 40) \<and> a \<noteq> f (k + 48)" for a
    using cache_word_at[of 1] cache_word_at[of 2] cache_word_at[of 5] cache_word_at[of 6] by (auto simp: slot_def)
  have "reg mu n = xs (local_ctx th) ! (n - 1)" if "1 \<le> n" "n < 32" for n
    using enter pe(6)[OF that] cache by auto
  then show ?thesis
    using enter cache cache_distinct[OF fr(5)] pe(2,3,4) out
    by (simp add: bit_build_sstatus bit_sret_status[unfolded One_nat_def])
qed

lemma thread_left:
  assumes ready: "portal_ready tr ly c k th m" and f: "f = tr (csr m SATP)" and m0: "m0 = foreign_start tr k th m"
    and m2: "m2 = execute_enter tr ly c (portal_context entry k (local_ctx th)) m0"
    and mu: "mu = exec tr (foreign_enter label) m2"
    and trap: "traps (switch_words f c m \<union> cache_words f k) mu ml" and m3: "m3 = exec tr foreign_leave ml"
  shows "traps (switch_words f c m) m2 m3 \<and> reg m3 = (reg ml)(a0 := trap_label ly) \<and> mem m3 (f k) = reg ml a0 \<and>
    csr m3 SATP = csr m SATP \<and> csr m3 SSTATUS = csr ml SSTATUS \<and> csr m3 SEPC = csr ml SEPC"
proof -
  have sep: "separate f [(c, 33), (frame_of m, 33), (k, 7)]"
    and common: "\<forall>i < 7. tr (satp th) (slot k i) = f (slot k i)"
    using ready f by (simp_all add: portal_ready_def)
  note fr = frame_start[OF ready f m0]
  note pe = portal_entered[OF ready f m0 m2]
  note te = thread_entered[OF ready f m0 m2 mu]
  have kept: "mem ml a = mem mu a" if "a \<in> switch_words f c m \<union> cache_words f k" for a
    using trap that by (simp add: traps_def)
  have word: "mem ml (f (slot k i)) = mem mu (f (slot k i))" if "i < 7" for i
    using kept cache_word_at[OF that, of f k] by simp
  have words: "mem ml (f (k + 16)) = csr m SATP" "mem ml (f (k + 40)) = trap_label ly" "mem ml (f (k + 48)) = c"
    using word[of 2] word[of 5] word[of 6] te by (simp_all add: slot_def)
  have csrs: "csr ml SSCRATCH = k" "tr (csr ml SATP) = tr (satp th)" "tr (mem ml (f (k + 16))) = f"
    using trap te words(1) f by (simp_all add: traps_def)
  note leave = foreign_leave_state[OF csrs common fr(5), folded m3, unfolded Let_def]
  have out: "a \<noteq> f (k + 8) \<and> a \<noteq> f k \<and> a \<noteq> f (k + 16)" if "a \<in> switch_words f c m" for a
    using that cache_words_apart[OF sep] cache_word_at[of 0 f k] cache_word_at[of 1 f k] cache_word_at[of 2 f k]
    by (auto simp: slot_def)
  have "mem m3 a = mem m2 a" if "a \<in> switch_words f c m" for a
    using leave out[OF that] kept[of a] te that cache_words_apart[OF sep, of a] by auto
  moreover have "\<not> user_mode m3" using leave trap by (simp add: traps_def)
  ultimately show ?thesis
    using leave words pe(2,3,4) cache_distinct[OF fr(5)] by (simp add: traps_def)
qed

text \<open>C32: \<open>ForeignContext::execute\<close> runs a thread in its own address space. When the thread starts, \<open>satp\<close> selects its address
space, all 31 registers hold the values of its context, control is at its program counter, the mode and the
interrupt enable are those of the context, and traps go to the portal. When it has trapped the kernel's address
space, its \<open>sscratch\<close>, its stack pointer and the registers that are not operands of the inline assembly are as before,
and the context holds all 31 registers of the thread at the trap, its program counter, its mode and interrupt enable;
the result is the \<open>sstatus\<close> of the trap. It needs the context, the words below the stack pointer and the cache to be apart,
and the cache to be mapped at the same place in both address spaces.\<close>

theorem foreign_thread_runs_and_returns:
  assumes "portal_ready tr ly c k th m" "mu = foreign_entered tr ly label c entry k th m"
    and "traps (switch_words (tr (csr m SATP)) c m \<union> cache_words (tr (csr m SATP)) k) mu (thread mu)"
  shows "(\<forall>n. 1 \<le> n \<and> n < 32 \<longrightarrow> reg mu n = xs (local_ctx th) ! (n - 1)) \<and> csr mu SATP = satp th \<and>
      pc mu = sepc (local_ctx th) \<and> user_mode mu = (\<not> supervisor (local_ctx th)) \<and>
      bit (csr mu SSTATUS) 1 = interrupt (local_ctx th) \<and> csr mu STVEC = label \<and>
    (\<exists>m4. foreign_execute_context tr ly label thread c entry k th m =
        (csr (thread mu) SSTATUS,
         th\<lparr>local_ctx := (local_ctx th)\<lparr>sctx := frame_of m, xs := map (reg (thread mu)) [1..<32],
              sepc := csr (thread mu) SEPC\<rparr>\<rparr>, m4) \<and>
      (\<forall>n. 1 \<le> n \<and> n < 32 \<and> n \<notin> {r_ctx ly, r_old ly, r_sepc ly, r_status ly} \<longrightarrow> reg m4 n = reg m n) \<and>
      csr m4 SATP = csr m SATP \<and> csr m4 SSCRATCH = csr m SSCRATCH \<and> pc m4 = after_call ly)"
proof -
  define f where "f = tr (csr m SATP)"
  define m0 where "m0 = foreign_start tr k th m"
  define m2 where "m2 = execute_enter tr ly c (portal_context entry k (local_ctx th)) m0"
  have mu: "mu = exec tr (foreign_enter label) m2" using assms(2) by (simp add: foreign_entered_def m0_def m2_def)
  define m3 where "m3 = exec tr foreign_leave (thread mu)"
  have ly: "layout_ok ly" and sep: "separate f [(c, 33), (frame_of m, 33), (k, 7)]"
    using assms(1) by (simp_all add: portal_ready_def f_def)
  note fr = frame_start[OF assms(1) f_def m0_def]
  note te = thread_entered[OF assms(1) f_def m0_def m2_def mu]
  note tl = thread_left[OF assms(1) f_def m0_def m2_def mu assms(3)[folded f_def] m3_def]
  note start = foreign_start_state[OF f_def fr(5) m0_def]
  have m3: "m3 = through_portal tr label thread m2" by (simp add: m3_def through_portal_def mu)
  obtain m4 where m4: "local_execute tr ly (through_portal tr label thread) c (portal_context entry k (local_ctx th)) m0 =
      (csr m3 SSTATUS, (portal_context entry k (local_ctx th))\<lparr>sctx := frame_of m0, xs := map (reg m3) [1..<32],
         sepc := csr m3 SEPC\<rparr>, m4)"
    "\<forall>n. 1 \<le> n \<and> n < 32 \<and> n \<notin> {r_ctx ly, r_old ly, r_sepc ly, r_status ly} \<longrightarrow> reg m4 n = reg m0 n"
    "csr m4 = (csr m3)(SSCRATCH := csr m0 SSCRATCH)" "pc m4 = after_call ly"
    "\<forall>a. a \<notin> switch_words f c m0 \<longrightarrow> mem m4 a = mem m3 a"
    using local_execute_state[OF ly fr(3,4) m2_def, of m3 "through_portal tr label thread", OF m3] tl fr(2) by auto
  have "f k \<notin> switch_words f c m0"
    using cache_words_apart[OF sep] cache_word_at[of 0 f k] fr(2) by simp
  then have a0_back: "mem m4 (tr (csr m4 SATP) k) = reg (thread mu) a0"
    using m4(3,5) tl by (simp add: f_def)
  have "(map (reg m3) [1..<32])[9 := reg (thread mu) a0] = map (reg (thread mu)) [1..<32]"
    by (rule nth_equalityI) (use tl in \<open>auto simp: nth_list_update simp del: upt_rec_numeral\<close>)
  then have "foreign_execute_context tr ly label thread c entry k th m =
      (csr (thread mu) SSTATUS,
       th\<lparr>local_ctx := (local_ctx th)\<lparr>sctx := frame_of m, xs := map (reg (thread mu)) [1..<32],
            sepc := csr (thread mu) SEPC\<rparr>\<rparr>, m4)"
    using a0_back tl fr(1)
    by (simp add: foreign_execute_context_def m0_def[symmetric] m4(1)[unfolded portal_context_def] portal_context_def
        del: upt_rec_numeral)
  moreover have "csr m4 SATP = csr m SATP" "csr m4 SSCRATCH = csr m SSCRATCH" using m4(3) tl start by simp_all
  ultimately show ?thesis using te m4(2,4) start by (simp del: upt_rec_numeral)
qed

text \<open>Address spaces 0, the kernel's, and 1, which differ below the portal.\<close>

definition sample_mmu :: mmu where
  "sample_mmu space a = (if space = 1 \<and> a < 65536 then a + 2 ^ 20 else a)"

definition sample_layout :: layout where
  "sample_layout = \<lparr>r_ctx = 10, r_old = 11, r_sepc = 12, r_status = 13, after_call = 64, trap_label = 128\<rparr>"

definition sample_machine :: machine where
  "sample_machine = \<lparr>reg = (\<lambda>n. 8192 + of_nat n), csr = (\<lambda>_. 0), mem = (\<lambda>_. 0), pc = 0, user_mode = False\<rparr>"

theorem foreign_thread_runs_and_returns_witness:
  "\<exists>m4. foreign_execute_context sample_mmu sample_layout 65600
      (\<lambda>m. m\<lparr>pc := csr m STVEC, user_mode := False, reg := (\<lambda>n. of_nat n), csr := (csr m)(SEPC := 8, SSTATUS := 32)\<rparr>)
      4096 65536 65792 \<lparr>local_ctx = ctx_user 4, satp = 1\<rparr> sample_machine =
        (32, \<lparr>local_ctx = (ctx_user 4)\<lparr>sctx := 7930, xs := map of_nat [1..<32], sepc := 8\<rparr>, satp = 1\<rparr>, m4) \<and>
      csr m4 SATP = 0 \<and> reg m4 2 = 8194 \<and> pc m4 = 64"
proof -
  let ?th = "\<lambda>m. m\<lparr>pc := csr m STVEC, user_mode := False, reg := (\<lambda>n. of_nat n), csr := (csr m)(SEPC := 8, SSTATUS := 32)\<rparr>"
  let ?ft = "\<lparr>local_ctx = ctx_user 4, satp = 1\<rparr>"
  have id: "sample_mmu 0 = (\<lambda>a. a)" by (simp add: sample_mmu_def fun_eq_iff)
  have high: "\<not> slot 65792 i < 65536" if "i < 7" for i
  proof -
    have "unat (slot 65792 i) = 65792 + 8 * i" using that by (subst unat_slot) simp_all
    then show ?thesis by (simp add: word_less_nat_alt)
  qed
  have "separate (\<lambda>a. a) [(4096, 33), (frame_of sample_machine, 33), (65792, 7)]"
    by (rule separate_in_order) (simp_all add: frame_of_def sample_machine_def)
  then have ready: "portal_ready sample_mmu sample_layout 4096 65792 ?ft sample_machine"
    using high by (simp add: portal_ready_def sample_layout_def layout_ok_def id sample_machine_def ctx_user_def)
      (simp add: sample_mmu_def)
  have trap: "traps K m (?th m)" for K m by (simp add: traps_def)
  obtain m4 where "foreign_execute_context sample_mmu sample_layout 65600 ?th 4096 65536 65792 ?ft sample_machine =
        (32, \<lparr>local_ctx = (ctx_user 4)\<lparr>sctx := frame_of sample_machine, xs := map of_nat [1..<32], sepc := 8\<rparr>, satp = 1\<rparr>, m4)"
      "\<And>n. 1 \<le> n \<and> n < 32 \<and> n \<notin> {10, 11, 12, 13} \<Longrightarrow> reg m4 n = reg sample_machine n"
      "csr m4 SATP = csr sample_machine SATP" "pc m4 = 64"
    using foreign_thread_runs_and_returns[of sample_mmu sample_layout 4096 65792 ?ft sample_machine _ 65600 65536 ?th,
        OF ready refl trap]
    by (auto simp: sample_layout_def simp del: upt_rec_numeral)
  then show ?thesis by (intro exI[of _ m4]) (simp add: frame_of_def sample_machine_def del: upt_rec_numeral)
qed

section \<open>The layout of a portal\<close>

lemma unat_and_not_7: "unat (k AND NOT (7 :: usize)) = 8 * (unat k div 8)"
proof -
  have "k AND NOT 7 = k AND NOT (k AND 7)" by (rule bit_word_eqI) (auto simp: bit_simps)
  also have "\<dots> = k - (k AND 7)" by (rule disjunctive_diff_eq_and_not[symmetric]) (auto intro: bit_word_eqI simp: bit_simps)
  also have "k AND 7 = take_bit 3 k" by (simp add: take_bit_eq_mask mask_eq_exp_minus_1)
  finally have e: "k AND NOT 7 = k - take_bit 3 k" .
  have t: "unat (take_bit 3 k) = unat k mod 8" by (simp add: take_bit_eq_mod unat_mod)
  then have "take_bit 3 k \<le> k" by (simp add: word_le_nat_alt)
  then show ?thesis unfolding e unat_sub[OF \<open>take_bit 3 k \<le> k\<close>] t by (simp add: minus_mod_eq_mult_div)
qed

lemma aligned_size_eq:
  assumes "aligned_size halves = Inr t"
  shows "unat t = 8 * ((2 * unat halves + 7) div 8)"
proof -
  obtain n where n: "times_usize halves 2 = Inr n" "plus_usize n 7 = Inr (n + 7)" "t = (n + 7) AND NOT 7"
    using assms by (auto simp: aligned_size_def bind_res_eq_Inr plus_usize_eq_Inr)
  have "unat (n + 7) = 2 * unat halves + 7" using times_usize_unat[OF n(1)] plus_usize_unat[OF n(2)] by simp
  then show ?thesis unfolding n(3) unat_and_not_7 by simp
qed

lemma cache_offset_eq:
  "cache_offset p key = Inr v \<longleftrightarrow> 16 + unat (text_size p) + 56 * unat key < 2 ^ 64 \<and> unat v = 16 + unat (text_size p) + 56 * unat key"
proof -
  have "unat (key * 56) = unat key * 56" if "unat key * 56 < 2 ^ 64" using that by (simp add: unat_mult_lem[THEN iffD1])
  moreover have "unat (16 + text_size p) = 16 + unat (text_size p)" if "16 + unat (text_size p) < 2 ^ 64"
    using that by (subst unat_add_lem[THEN iffD1]) simp_all
  moreover have "unat (16 + text_size p + key * 56) = unat (16 + text_size p) + unat (key * 56)"
    if "unat (16 + text_size p) + unat (key * 56) < 2 ^ 64"
    using that by (subst unat_add_lem[THEN iffD1]) simp_all
  ultimately show ?thesis
    by (auto simp: cache_offset_def times_usize_def plus_usize_def bind_res_def word_unat_eq_iff split: if_splits)
qed

text \<open>In a portal of \<open>calculate_size\<close> bytes the code and the caches of all slots fit without overlap: the cache of a slot
starts at a multiple of 8 behind the code, ends within the size, and lies 56 bytes times the distance of the slots
from any other; the size that the initialised portal reports is the size that was calculated.\<close>

theorem portal_slots_fit:
  assumes "init_transit halves addr slots = Inr p" "calculate_size halves slots = Inr bytes" "key < slots"
  shows "total_size p = Inr bytes \<and>
    (\<exists>off. cache_offset p key = Inr off \<and> 16 + 2 * unat halves \<le> unat off \<and> unat off + 56 \<le> unat bytes \<and>
      8 dvd unat off \<and>
      (\<forall>key' off'. cache_offset p key' = Inr off' \<longrightarrow> unat off' + 56 * unat key = unat off + 56 * unat key'))"
proof -
  obtain t where t: "aligned_size halves = Inr t" and p: "p = \<lparr>transit = addr, slot_count = slots, text_size = t\<rparr>"
    using assms(1) by (auto simp: init_transit_def bind_res_eq_Inr)
  have total: "total_size p = Inr bytes"
    using assms(2) t
    by (auto simp: calculate_size_def total_size_def cache_offset_def p bind_res_def split: sum.splits)
  then have sz: "16 + unat t + 56 * unat slots < 2 ^ 64" "unat bytes = 16 + unat t + 56 * unat slots"
    using cache_offset_eq[of p slots bytes] by (simp_all add: total_size_def p)
  have key: "unat key + 1 \<le> unat slots" using assms(3) by (simp add: word_less_nat_alt)
  define off :: usize where "off = of_nat (16 + unat t + 56 * unat key)"
  have off: "unat off = 16 + unat t + 56 * unat key" using sz(1) key by (simp only: off_def unat_of_nat) simp
  then have "cache_offset p key = Inr off" using sz(1) key by (simp add: cache_offset_eq p)
  moreover have "2 * unat halves \<le> unat t" "8 dvd unat t" using aligned_size_eq[OF t] by simp_all
  moreover have "unat off' + 56 * unat key = unat off + 56 * unat key'" if "cache_offset p key' = Inr off'" for key' off'
    using that off by (simp add: cache_offset_eq p)
  ultimately show ?thesis using total off sz(2) key
    by (intro conjI exI[of _ off]) (auto intro!: dvd_add)
qed

theorem portal_slots_fit_witness:
  "total_size \<lparr>transit = 65536, slot_count = 3, text_size = 96\<rparr> = Inr 280"
proof -
  have "init_transit 47 65536 3 = Inr \<lparr>transit = 65536, slot_count = 3, text_size = 96\<rparr>"
    by (simp add: init_transit_def aligned_size_def times_usize_def plus_usize_def assert_res_def trailing_zeros_def
        upt_rec)
  moreover have "calculate_size 47 3 = Inr 280"
    by (simp add: calculate_size_def aligned_size_def times_usize_def plus_usize_def)
  ultimately show ?thesis using portal_slots_fit[of 47 65536 3 _ 280 1] by simp
qed

end
