(* ===== verification/Firmware.thy ===== *)
theory Firmware
  imports Prelude
begin

text \<open>
  The firmware interface of the kernel (\<open>tg-rcore-tutorial-sbi/src/lib.rs\<close>) and the firmware
  that is built into it with the feature \<open>nobios\<close> (\<open>src/msbi.rs\<close>).

  \<open>board\<close> is what the firmware drives of the machine: the UART, whose transmitter is busy for
  \<open>tx_busy\<close> more polls and after each byte for \<open>tx_delay\<close>, and whose receiver shows the next
  byte of \<open>rx_bytes\<close> after \<open>rx_wait\<close> polls; the timer and its pending bit; and the test device
  that ends the simulation when it is written to. A call may never return: the board is then
  left as it is.
\<close>

record board =
  tx_busy :: nat
  tx_delay :: nat
  tx_bytes :: "u8 list"
  rx_wait :: nat
  rx_bytes :: "u8 list"
  mtimecmp :: u64
  mip :: usize
  test_device :: "u32 list"

record sbi_ret =
  sbi_error :: isize
  sbi_value :: usize

datatype 'a outcome = Returns 'a board | Panics board | Stuck board

section \<open>The UART\<close>

text \<open>Reading the line status register is a poll.\<close>

definition is_tx_ready :: "board \<Rightarrow> bool \<times> board" where
  "is_tx_ready b = (tx_busy b = 0, b\<lparr>tx_busy := tx_busy b - 1\<rparr>)"

function await_tx :: "board \<Rightarrow> board" where
  "await_tx b = (case is_tx_ready b of (ready, b1) \<Rightarrow> if ready then b1 else await_tx b1)"
  by auto
termination by (relation "measure tx_busy") (auto simp: is_tx_ready_def)

declare await_tx.simps [simp del]

definition uart_putchar :: "u8 \<Rightarrow> board \<Rightarrow> board" where
  "uart_putchar c b = (let b1 = await_tx b in b1\<lparr>tx_bytes := tx_bytes b1 @ [c], tx_busy := tx_delay b1\<rparr>)"

definition uart_getchar :: "board \<Rightarrow> u8 option \<times> board" where
  "uart_getchar b =
     (if rx_wait b = 0 \<and> rx_bytes b \<noteq> [] then (Some (hd (rx_bytes b)), b\<lparr>rx_bytes := tl (rx_bytes b)\<rparr>)
      else (None, b\<lparr>rx_wait := rx_wait b - 1\<rparr>))"

section \<open>The handlers\<close>

definition eid_console_putchar :: usize where "eid_console_putchar = 0x01"
definition eid_console_getchar :: usize where "eid_console_getchar = 0x02"
definition eid_shutdown :: usize where "eid_shutdown = 0x08"
definition eid_base :: usize where "eid_base = 0x10"
definition eid_srst :: usize where "eid_srst = 0x53525354"
definition eid_timer :: usize where "eid_timer = 0x54494D45"

lemmas eids = eid_console_putchar_def eid_console_getchar_def eid_shutdown_def eid_base_def eid_srst_def eid_timer_def

definition fid_srst_shutdown :: usize where "fid_srst_shutdown = 0"

definition sbi_success :: "usize \<Rightarrow> sbi_ret" where
  "sbi_success v = \<lparr>sbi_error = 0, sbi_value = v\<rparr>"

definition sbi_not_supported :: sbi_ret where
  "sbi_not_supported = \<lparr>sbi_error = - 2, sbi_value = 0\<rparr>"

definition handle_console_putchar :: "usize \<Rightarrow> board \<Rightarrow> sbi_ret outcome" where
  "handle_console_putchar c b = Returns (sbi_success 0) (uart_putchar (ucast c) b)"

text \<open>The loop that waits for a byte.\<close>

partial_function (option) await_rx :: "board \<Rightarrow> (u8 \<times> board) option" where
  "await_rx b = (case uart_getchar b of (Some c, b1) \<Rightarrow> Some (c, b1) | (None, b1) \<Rightarrow> await_rx b1)"

definition handle_console_getchar :: "board \<Rightarrow> sbi_ret outcome" where
  "handle_console_getchar b =
     (case await_rx b of
        Some (c, b1) \<Rightarrow> Returns (sbi_success (ucast c)) b1
      | None \<Rightarrow> Stuck b)"

definition handle_timer :: "u64 \<Rightarrow> board \<Rightarrow> sbi_ret outcome" where
  "handle_timer time b = Returns (sbi_success 0) (b\<lparr>mtimecmp := time, mip := mip b AND NOT 32\<rparr>)"

definition exit_success :: u32 where "exit_success = 0x5555"
definition exit_reset :: u32 where "exit_reset = 0x3333"

definition handle_system_reset :: "usize \<Rightarrow> board \<Rightarrow> sbi_ret outcome" where
  "handle_system_reset f b =
     Stuck (b\<lparr>test_device := test_device b @ [if f = fid_srst_shutdown then exit_success else exit_reset]\<rparr>)"

definition handle_base :: "usize \<Rightarrow> board \<Rightarrow> sbi_ret outcome" where
  "handle_base f b =
     Returns (if f = 0 then sbi_success 0x01000000 else if f = 1 then sbi_success 0xFFFF
              else if f = 2 then sbi_success 1 else if f = 3 then sbi_success 1
              else if f = 4 then sbi_success 0 else if f = 5 then sbi_success 0
              else if f = 6 then sbi_success 0 else sbi_not_supported) b"

definition m_trap_handler :: "usize \<Rightarrow> usize \<Rightarrow> usize \<Rightarrow> usize \<Rightarrow> board \<Rightarrow> sbi_ret outcome" where
  "m_trap_handler mcause x f e b =
     (if mcause \<noteq> 9 then Returns sbi_not_supported b
      else if e = eid_console_putchar then handle_console_putchar x b
      else if e = eid_console_getchar then handle_console_getchar b
      else if e = eid_timer then handle_timer x b
      else if e = eid_shutdown then handle_system_reset fid_srst_shutdown b
      else if e = eid_base then handle_base f b
      else if e = eid_srst then handle_system_reset f b
      else Returns sbi_not_supported b)"

section \<open>Calls from the kernel\<close>

text \<open>An \<open>ecall\<close> from supervisor mode traps with cause 9.\<close>

definition sbi_call :: "usize \<Rightarrow> usize \<Rightarrow> usize \<Rightarrow> usize \<Rightarrow> usize \<Rightarrow> board \<Rightarrow> usize outcome" where
  "sbi_call e f x y z b =
     (case m_trap_handler 9 x f e b of
        Returns r b1 \<Rightarrow> if sint (sbi_error r) < 0 then Panics b1 else Returns (sbi_value r) b1
      | Panics b1 \<Rightarrow> Panics b1
      | Stuck b1 \<Rightarrow> Stuck b1)"

definition then_do :: "'a outcome \<Rightarrow> (board \<Rightarrow> 'b outcome) \<Rightarrow> 'b outcome" where
  "then_do r f = (case r of Returns a b \<Rightarrow> f b | Panics b \<Rightarrow> Panics b | Stuck b \<Rightarrow> Stuck b)"

definition set_timer :: "u64 \<Rightarrow> board \<Rightarrow> unit outcome" where
  "set_timer t b = then_do (sbi_call eid_timer 0 t 0 0 b) (Returns ())"

definition console_putchar :: "u8 \<Rightarrow> board \<Rightarrow> unit outcome" where
  "console_putchar c b = then_do (sbi_call eid_console_putchar 0 (ucast c) 0 0 b) (Returns ())"

definition console_getchar :: "board \<Rightarrow> usize outcome" where
  "console_getchar = sbi_call eid_console_getchar 0 0 0 0"

definition shutdown :: "bool \<Rightarrow> board \<Rightarrow> unit outcome" where
  "shutdown failure b =
     then_do (if failure then sbi_call eid_srst 0 1 0 0 b else sbi_call eid_srst 0 0 0 0 b) Panics"

section \<open>What the calls do\<close>

lemma await_tx_eq: "await_tx b = b\<lparr>tx_busy := 0\<rparr>"
  by (induction b rule: await_tx.induct) (subst await_tx.simps, auto simp: is_tx_ready_def)

lemma uart_putchar_eq: "uart_putchar c b = b\<lparr>tx_bytes := tx_bytes b @ [c], tx_busy := tx_delay b\<rparr>"
  by (simp add: uart_putchar_def await_tx_eq)

lemma await_rx_some:
  assumes "rx_bytes b = c # cs"
  shows "await_rx b = Some (c, b\<lparr>rx_wait := 0, rx_bytes := cs\<rparr>)"
  using assms
proof (induction "rx_wait b" arbitrary: b)
  case 0
  then show ?case by (subst await_rx.simps) (simp add: uart_getchar_def)
next
  case (Suc n)
  have "await_rx (b\<lparr>rx_wait := n\<rparr>) = Some (c, b\<lparr>rx_wait := 0, rx_bytes := cs\<rparr>)"
    using Suc.hyps(1)[of "b\<lparr>rx_wait := n\<rparr>"] Suc.prems by simp
  then show ?case using Suc.hyps(2)[symmetric] by (subst await_rx.simps) (simp add: uart_getchar_def)
qed

lemma await_rx_none: "rx_bytes b = [] \<Longrightarrow> await_rx b = None"
proof -
  have "\<And>x. await_rx b = Some x \<Longrightarrow> rx_bytes b \<noteq> []"
  proof (rule await_rx.raw_induct[where P = "\<lambda>b x. rx_bytes b \<noteq> []"], goal_cases)
    case (1 x f b y)
    show ?case
    proof (cases "rx_bytes b")
      case Nil
      then have "uart_getchar b = (None, b\<lparr>rx_wait := rx_wait b - 1\<rparr>)" by (simp add: uart_getchar_def)
      then have "f (b\<lparr>rx_wait := rx_wait b - 1\<rparr>) = Some y" using 1(3) by simp
      then show ?thesis using 1(2)[of "b\<lparr>rx_wait := rx_wait b - 1\<rparr>" y] by simp
    qed simp
  qed assumption
  then show "rx_bytes b = [] \<Longrightarrow> await_rx b = None" by (cases "await_rx b") auto
qed

lemma sbi_errors [simp]: "sbi_error (sbi_success v) = 0" "sbi_value (sbi_success v) = v"
  "sint (sbi_error sbi_not_supported) = - 2"
  by (simp_all add: sbi_success_def sbi_not_supported_def)

lemma ucast_byte [simp]: "(ucast (ucast (c :: u8) :: usize) :: u8) = c"
  by (rule bit_word_eqI) (simp add: bit_simps)

lemma console_putchar_eq:
  "console_putchar c b = Returns () (b\<lparr>tx_bytes := tx_bytes b @ [c], tx_busy := tx_delay b\<rparr>)"
  by (simp add: console_putchar_def sbi_call_def m_trap_handler_def eids handle_console_putchar_def then_do_def
      uart_putchar_eq)

text \<open>\<open>console_getchar\<close> with the built-in firmware answers the next byte of input, however long it takes to come in,
and does not return when none ever comes: it has no answer for "no input".\<close>

theorem console_getchar_waits:
  "console_getchar b =
     (case rx_bytes b of
        [] \<Rightarrow> Stuck b
      | c # cs \<Rightarrow> Returns (ucast c) (b\<lparr>rx_wait := 0, rx_bytes := cs\<rparr>))"
  by (cases "rx_bytes b")
    (simp_all add: console_getchar_def sbi_call_def m_trap_handler_def eids handle_console_getchar_def
      await_rx_none await_rx_some)

text \<open>With the built-in firmware \<open>shutdown\<close> ends the machine with the code of success whether or not it reports a
failure: the firmware looks at the function id, which is 0 in both cases, not at the argument.\<close>

theorem shutdown_hides_failure:
  "shutdown failure b = Stuck (b\<lparr>test_device := test_device b @ [exit_success]\<rparr>)"
  by (simp add: shutdown_def sbi_call_def m_trap_handler_def eids handle_system_reset_def fid_srst_shutdown_def
      then_do_def)

text \<open>A call of the kernel to the built-in firmware panics exactly when the extension is none of the six it knows, or
the base extension has no such function.\<close>

theorem sbi_call_panics_exactly:
  "(\<exists>b'. sbi_call e f x y z b = Panics b') \<longleftrightarrow>
     e \<notin> {eid_console_putchar, eid_console_getchar, eid_timer, eid_shutdown, eid_base, eid_srst} \<or>
     e = eid_base \<and> 6 < f"
proof (cases "e \<in> {eid_console_putchar, eid_console_getchar, eid_timer, eid_shutdown, eid_srst}")
  case True
  then show ?thesis
    by (auto simp: sbi_call_def m_trap_handler_def handle_console_putchar_def handle_console_getchar_def
        handle_timer_def handle_system_reset_def eids split: option.splits)
next
  case False
  have "f \<in> {0, 1, 2, 3, 4, 5, 6} \<longleftrightarrow> f \<le> 6"
  proof
    assume "f \<le> 6"
    then have "unat f \<in> {0, 1, 2, 3, 4, 5, 6}" by (auto simp: word_le_nat_alt)
    then show "f \<in> {0, 1, 2, 3, 4, 5, 6}" by (auto simp: word_unat_eq_iff)
  qed auto
  then show ?thesis using False
    by (auto simp: sbi_call_def m_trap_handler_def handle_base_def not_less[symmetric])
qed

end
