(* ===== verification/Console.thy ===== *)
theory Console
  imports Firmware
begin

text \<open>
  \<open>print!\<close> and the logger: \<open>tg-rcore-tutorial-console/src/lib.rs\<close>. What is printed goes through
  a buffer of 64 bytes to the console that \<open>init_console\<close> has set; the console is a parameter
  \<open>put_str\<close> on a state \<open>'s\<close>. The pieces into which \<open>core::fmt\<close> cuts the formatted text are the
  argument of \<open>print_pieces\<close>.
\<close>

type_synonym 's put_str = "u8 list \<Rightarrow> 's \<Rightarrow> 's res"

definition buffer_size :: nat where "buffer_size = 64"

record print_buffer =
  pb_buffer :: "u8 list"
  pb_pos :: nat

definition pb_new :: print_buffer where
  "pb_new = \<lparr>pb_buffer = replicate buffer_size 0, pb_pos = 0\<rparr>"

text \<open>\<open>console\<close> is \<open>None\<close> before \<open>init_console\<close>.\<close>

definition pb_flush :: "'s put_str option \<Rightarrow> print_buffer \<Rightarrow> 's \<Rightarrow> (print_buffer \<times> 's) res" where
  "pb_flush console pb s =
     (if pb_pos pb > 0 then
        bind_res (case console of
                    None \<Rightarrow> Inr s
                  | Some put \<Rightarrow> if pb_pos pb \<le> length (pb_buffer pb) then put (take (pb_pos pb) (pb_buffer pb)) s
                                else Inl IndexOutOfBounds)
          (\<lambda>s1. Inr (pb\<lparr>pb_pos := 0\<rparr>, s1))
      else Inr (pb, s))"

definition copy_into :: "nat \<Rightarrow> u8 list \<Rightarrow> u8 list \<Rightarrow> u8 list" where
  "copy_into p bs buf = take p buf @ bs @ drop (p + length bs) buf"

function pb_write_loop ::
  "'s put_str option \<Rightarrow> u8 list \<Rightarrow> nat \<Rightarrow> print_buffer \<Rightarrow> 's \<Rightarrow> (print_buffer \<times> 's) res" where
  "pb_write_loop console bytes offset pb s =
     (if offset < length bytes then
        if buffer_size < pb_pos pb then Inl ArithOverflow
        else
          let remaining_buffer = buffer_size - pb_pos pb;
              remaining_input = length bytes - offset;
              to_copy = min remaining_buffer remaining_input in
          if pb_pos pb + to_copy \<le> length (pb_buffer pb) then
            let pb1 = pb\<lparr>pb_buffer := copy_into (pb_pos pb) (take to_copy (drop offset bytes)) (pb_buffer pb),
                         pb_pos := pb_pos pb + to_copy\<rparr> in
            if pb_pos pb1 = buffer_size then
              (case pb_flush console pb1 s of
                 Inl e \<Rightarrow> Inl e
               | Inr (pb2, s1) \<Rightarrow> pb_write_loop console bytes (offset + to_copy) pb2 s1)
            else pb_write_loop console bytes (offset + to_copy) pb1 s
          else Inl IndexOutOfBounds
      else Inr (pb, s))"
  by auto
termination
  by (relation "measures [\<lambda>(console, bytes, offset, pb, s). length bytes - offset, \<lambda>(console, bytes, offset, pb, s). pb_pos pb]")
    (auto simp: buffer_size_def min_def pb_flush_def bind_res_eq_Inr split: if_splits)

declare pb_write_loop.simps [simp del]

definition pb_write :: "'s put_str option \<Rightarrow> u8 list \<Rightarrow> print_buffer \<Rightarrow> 's \<Rightarrow> (print_buffer \<times> 's) res" where
  "pb_write console bytes = pb_write_loop console bytes 0"

primrec pb_write_all :: "'s put_str option \<Rightarrow> u8 list list \<Rightarrow> print_buffer \<Rightarrow> 's \<Rightarrow> (print_buffer \<times> 's) res" where
  "pb_write_all console [] pb s = Inr (pb, s)"
| "pb_write_all console (p # ps) pb s =
     bind_res (pb_write console p pb s) (\<lambda>(pb1, s1). pb_write_all console ps pb1 s1)"

definition print_pieces :: "'s put_str option \<Rightarrow> u8 list list \<Rightarrow> 's \<Rightarrow> 's res" where
  "print_pieces console ps s =
     bind_res (pb_write_all console ps pb_new s) (\<lambda>(pb, s1).
     bind_res (pb_flush console pb s1) (\<lambda>(pb1, s2). Inr s2))"

definition println_pieces :: "'s put_str option \<Rightarrow> u8 list list \<Rightarrow> 's \<Rightarrow> 's res" where
  "println_pieces console ps s =
     bind_res (print_pieces console ps s) (print_pieces console [[10]])"

text \<open>A console that only has \<open>put_char\<close> puts a string one byte after the other.\<close>

primrec put_str_default :: "(u8 \<Rightarrow> 's \<Rightarrow> 's res) \<Rightarrow> 's put_str" where
  "put_str_default put [] s = Inr s"
| "put_str_default put (c # cs) s = bind_res (put c s) (put_str_default put cs)"

section \<open>The logger\<close>

datatype level = Error | Warn | Info | Debug | Trace

definition color_code :: "level \<Rightarrow> string" where
  "color_code l = (case l of Error \<Rightarrow> ''31'' | Warn \<Rightarrow> ''93'' | Info \<Rightarrow> ''34'' | Debug \<Rightarrow> ''32'' | Trace \<Rightarrow> ''90'')"

text \<open>\<open>{:>5}\<close> of the name of the level.\<close>

definition level_name :: "level \<Rightarrow> string" where
  "level_name l =
     (case l of Error \<Rightarrow> ''ERROR'' | Warn \<Rightarrow> '' WARN'' | Info \<Rightarrow> '' INFO'' | Debug \<Rightarrow> ''DEBUG'' | Trace \<Rightarrow> ''TRACE'')"

definition ascii_bytes :: "string \<Rightarrow> u8 list" where
  "ascii_bytes = map (\<lambda>c. of_nat (of_char c))"

definition log_pieces :: "level \<Rightarrow> u8 list list \<Rightarrow> u8 list list" where
  "log_pieces l args =
     [27 # ascii_bytes ''['', ascii_bytes (color_code l), ascii_bytes ''m['', ascii_bytes (level_name l),
      ascii_bytes ''] ''] @ args @ [27 # ascii_bytes ''[0m'']"

definition log_record :: "'s put_str option \<Rightarrow> level \<Rightarrow> u8 list list \<Rightarrow> 's \<Rightarrow> 's res" where
  "log_record console l args = println_pieces console (log_pieces l args)"

section \<open>The buffer as a list of bytes\<close>

definition pb_ok :: "print_buffer \<Rightarrow> bool" where
  "pb_ok pb \<longleftrightarrow> length (pb_buffer pb) = 64 \<and> pb_pos pb < 64"

definition held_bytes :: "print_buffer \<Rightarrow> u8 list" where
  "held_bytes pb = take (pb_pos pb) (pb_buffer pb)"

lemma pb_new_ok [simp]: "pb_ok pb_new" "held_bytes pb_new = []"
  by (simp_all add: pb_ok_def pb_new_def buffer_size_def held_bytes_def)

text \<open>What a console must do: take a string whole.\<close>

locale console =
  fixes put :: "'s put_str" and printed :: "'s \<Rightarrow> u8 list" and ready :: "'s \<Rightarrow> bool"
  assumes put_prints: "\<And>s bs. ready s \<Longrightarrow> \<exists>s'. put bs s = Inr s' \<and> ready s' \<and> printed s' = printed s @ bs"
begin

lemma flush_prints:
  assumes "ready s" "length (pb_buffer pb) = 64" "pb_pos pb \<le> 64"
  shows "\<exists>pb' s'. pb_flush (Some put) pb s = Inr (pb', s') \<and> pb_ok pb' \<and> held_bytes pb' = [] \<and> ready s' \<and>
    printed s' = printed s @ held_bytes pb"
  using assms put_prints[OF assms(1), of "held_bytes pb"]
  by (auto simp: pb_flush_def pb_ok_def held_bytes_def)

lemma write_loop_prints:
  assumes "ready s" "pb_ok pb"
  shows "\<exists>pb' s'. pb_write_loop (Some put) bytes offset pb s = Inr (pb', s') \<and> pb_ok pb' \<and> ready s' \<and>
    printed s' @ held_bytes pb' = printed s @ held_bytes pb @ drop offset bytes"
  using assms
proof (induction "length bytes - offset" arbitrary: offset pb s rule: less_induct)
  case less
  show ?case
  proof (cases "offset < length bytes")
    case False
    then show ?thesis using less.prems by (subst pb_write_loop.simps) auto
  next
    case True
    define n where "n = min (64 - pb_pos pb) (length bytes - offset)"
    define pb1 where "pb1 = pb\<lparr>pb_buffer := copy_into (pb_pos pb) (take n (drop offset bytes)) (pb_buffer pb),
        pb_pos := pb_pos pb + n\<rparr>"
    have n: "0 < n" "pb_pos pb + n \<le> 64" "n \<le> length bytes - offset"
      using True less.prems by (auto simp: n_def pb_ok_def)
    have buf: "length (pb_buffer pb1) = 64" "pb_pos pb1 = pb_pos pb + n"
      "held_bytes pb1 = held_bytes pb @ take n (drop offset bytes)"
      using n less.prems by (auto simp: pb1_def copy_into_def pb_ok_def held_bytes_def)
    have fewer: "length bytes - (offset + n) < length bytes - offset" using n(1) True by simp
    have split: "take n (drop offset bytes) @ drop (offset + n) bytes = drop offset bytes"
      by (metis append_take_drop_id drop_drop add.commute)
    have step: "pb_write_loop (Some put) bytes offset pb s =
        (if pb_pos pb1 = 64 then
           (case pb_flush (Some put) pb1 s of
              Inl e \<Rightarrow> Inl e
            | Inr (pb2, s1) \<Rightarrow> pb_write_loop (Some put) bytes (offset + n) pb2 s1)
         else pb_write_loop (Some put) bytes (offset + n) pb1 s)"
      using True n less.prems
      by (subst pb_write_loop.simps, simp only: Let_def buffer_size_def flip: n_def) (simp add: pb1_def pb_ok_def)
    show ?thesis
    proof (cases "pb_pos pb1 = 64")
      case True
      obtain pb2 s1 where fl: "pb_flush (Some put) pb1 s = Inr (pb2, s1)" "pb_ok pb2" "held_bytes pb2 = []" "ready s1"
        "printed s1 = printed s @ held_bytes pb1"
        using flush_prints[OF less.prems(1), of pb1] buf n by auto
      then show ?thesis
        using less.hyps[OF fewer fl(4,2)] step True buf(3) split by auto
    next
      case False
      then have "pb_ok pb1" using buf n by (simp add: pb_ok_def)
      then show ?thesis
        using less.hyps[OF fewer less.prems(1), of pb1] step False buf(3) split by auto
    qed
  qed
qed

lemma write_all_prints:
  "ready s \<Longrightarrow> pb_ok pb \<Longrightarrow>
   \<exists>pb' s'. pb_write_all (Some put) ps pb s = Inr (pb', s') \<and> pb_ok pb' \<and> ready s' \<and>
     printed s' @ held_bytes pb' = printed s @ held_bytes pb @ concat ps"
proof (induction ps arbitrary: pb s)
  case (Cons p ps)
  obtain pb1 s1 where w: "pb_write (Some put) p pb s = Inr (pb1, s1)" "pb_ok pb1" "ready s1"
    "printed s1 @ held_bytes pb1 = printed s @ held_bytes pb @ p"
    using write_loop_prints[OF Cons.prems, of p 0] by (auto simp: pb_write_def)
  obtain pb' s' where r: "pb_write_all (Some put) ps pb1 s1 = Inr (pb', s')" "pb_ok pb'" "ready s'"
    "printed s' @ held_bytes pb' = printed s1 @ held_bytes pb1 @ concat ps"
    using Cons.IH[OF w(3,2)] by blast
  have "printed s' @ held_bytes pb' = (printed s1 @ held_bytes pb1) @ concat ps" using r(4) by simp
  also have "\<dots> = printed s @ held_bytes pb @ concat (p # ps)" by (simp add: w(4))
  finally show ?case using w(1) r by simp
qed auto

lemma print_pieces_prints:
  assumes "ready s"
  shows "\<exists>s'. print_pieces (Some put) ps s = Inr s' \<and> ready s' \<and> printed s' = printed s @ concat ps"
proof -
  obtain pb s1 where w: "pb_write_all (Some put) ps pb_new s = Inr (pb, s1)" "pb_ok pb" "ready s1"
    "printed s1 @ held_bytes pb = printed s @ concat ps"
    using write_all_prints[OF assms, of pb_new ps] by auto
  then show ?thesis
    using flush_prints[OF w(3), of pb] by (auto simp: print_pieces_def pb_ok_def)
qed

lemma log_record_prints:
  assumes "ready s"
  shows "\<exists>s'. log_record (Some put) l args s = Inr s' \<and> ready s' \<and>
    printed s' = printed s @ concat (log_pieces l args) @ [10]"
  using print_pieces_prints[OF assms, of "log_pieces l args"] print_pieces_prints[of _ "[[10]]"]
  by (fastforce simp: log_record_def println_pieces_def)

end

section \<open>The console of the kernel\<close>

text \<open>\<open>put_char\<close> of the kernel's console is the firmware's. A call that does not return is \<open>Deadlock\<close>.\<close>

definition outcome_res :: "'a outcome \<Rightarrow> board res" where
  "outcome_res r = (case r of Returns a b \<Rightarrow> Inr b | Panics b \<Rightarrow> Inl AssertFailed | Stuck b \<Rightarrow> Inl Deadlock)"

definition kernel_put_char :: "u8 \<Rightarrow> board \<Rightarrow> board res" where
  "kernel_put_char c b = outcome_res (console_putchar c b)"

lemma put_str_default_kernel:
  "\<exists>b'. put_str_default kernel_put_char bs b = Inr b' \<and> tx_bytes b' = tx_bytes b @ bs \<and> rx_bytes b' = rx_bytes b"
  by (induction bs arbitrary: b) (fastforce simp: kernel_put_char_def outcome_res_def console_putchar_eq)+

interpretation kernel_console: console "put_str_default kernel_put_char" tx_bytes "\<lambda>_. True"
  using put_str_default_kernel by unfold_locales blast

text \<open>C33: What the kernel prints comes out of the UART whole and in order: the pieces of the formatted text go through
the buffer of 64 bytes, the console and the firmware, none of them panics, and the bytes transmitted are exactly
those of the pieces.\<close>

theorem kernel_prints_exactly:
  "\<exists>b'. print_pieces (Some (put_str_default kernel_put_char)) ps b = Inr b' \<and> tx_bytes b' = tx_bytes b @ concat ps"
  using kernel_console.print_pieces_prints[where s = b and ps = ps] by blast

section \<open>The pieces of the buffer\<close>

text \<open>A console that records the strings it is given.\<close>

definition record_str :: "u8 list \<Rightarrow> u8 list list \<Rightarrow> u8 list list res" where
  "record_str bs strs = Inr (strs @ [bs])"

interpretation recorder: console record_str concat "\<lambda>_. True"
  by unfold_locales (simp add: record_str_def)

text \<open>A character of two bytes that starts at the last byte of the buffer is cut in two: the console is given a string
that ends in its first byte and one that starts with its second, neither of them valid UTF-8, against what the
comment on \<open>from_utf8_unchecked\<close> claims.\<close>

theorem buffer_cuts_characters:
  "print_pieces (Some record_str) [replicate 63 97 @ [0xC3, 0xA9]] [] =
     Inr [replicate 63 97 @ [0xC3], [0xA9]]"
proof -
  define pb1 where "pb1 = \<lparr>pb_buffer = replicate 63 97 @ [0xC3 :: u8], pb_pos = 0\<rparr>"
  have first: "pb_write_loop (Some record_str) (replicate 63 97 @ [0xC3, 0xA9]) 0 pb_new [] =
      pb_write_loop (Some record_str) (replicate 63 97 @ [0xC3, 0xA9]) 64 pb1 [replicate 63 97 @ [0xC3]]"
    by (subst pb_write_loop.simps)
      (simp add: pb_new_def buffer_size_def copy_into_def pb_flush_def record_str_def Let_def pb1_def)
  have third: "pb_write_loop (Some record_str) (replicate 63 97 @ [0xC3, 0xA9]) 65 pb strs = Inr (pb, strs)" for pb strs
    by (subst pb_write_loop.simps) simp
  have second: "pb_write_loop (Some record_str) (replicate 63 97 @ [0xC3, 0xA9]) 64 pb1 strs =
      Inr (\<lparr>pb_buffer = copy_into 0 [0xA9] (pb_buffer pb1), pb_pos = 1\<rparr>, strs)" for strs
    by (subst pb_write_loop.simps) (simp add: third pb1_def buffer_size_def Let_def)
  show ?thesis
    by (simp add: print_pieces_def pb_write_def first second) (simp add: pb_flush_def copy_into_def record_str_def pb1_def)
qed

end
