(* ===== verification/Linker.thy ===== *)
theory Linker
  imports Address_Space
begin

text \<open>
  The memory image of the kernel as the linker lays it out
  (\<open>tg-rcore-tutorial-linker/src/lib.rs\<close>) and the applications linked into it
  (\<open>tg-rcore-tutorial-linker/src/app.rs\<close>). The addresses of the linker's symbols are parameters.
\<close>

section \<open>The layout\<close>

record kernel_layout =
  l_text :: usize
  l_rodata :: usize
  l_data :: usize
  l_sbss :: usize
  l_ebss :: usize
  l_boot :: usize
  l_end :: usize

definition layout_init :: kernel_layout where
  "layout_init = \<lparr>l_text = usize_max, l_rodata = usize_max, l_data = usize_max, l_sbss = usize_max,
     l_ebss = usize_max, l_boot = usize_max, l_end = usize_max\<rparr>"

definition layout_start :: "kernel_layout \<Rightarrow> usize" where
  "layout_start l = l_text l"

definition layout_end :: "kernel_layout \<Rightarrow> usize" where
  "layout_end l = l_end l"

definition layout_len :: "kernel_layout \<Rightarrow> usize res" where
  "layout_len l = minus_usize (l_end l) (l_text l)"

text \<open>The loop of \<open>zero_bss\<close>.\<close>

function zero_from :: "nat \<Rightarrow> nat \<Rightarrow> memory \<Rightarrow> memory" where
  "zero_from ptr e m = (if ptr < e then zero_from (ptr + 1) e (mem_write ptr [0] m) else m)"
  by auto
termination by (relation "measure (\<lambda>(ptr, e, m). e - ptr)") auto

declare zero_from.simps [simp del]

definition zero_bss :: "kernel_layout \<Rightarrow> memory \<Rightarrow> memory" where
  "zero_bss l = zero_from (unat (l_sbss l)) (unat (l_ebss l))"

datatype region_title = TextTitle | RodataTitle | DataTitle | BootTitle

record kernel_region =
  title :: region_title
  reg_start :: usize
  reg_end :: usize

record region_iterator =
  it_layout :: kernel_layout
  it_next :: "region_title option"

definition layout_iter :: "kernel_layout \<Rightarrow> region_iterator" where
  "layout_iter l = \<lparr>it_layout = l, it_next = Some TextTitle\<rparr>"

definition region_next :: "region_iterator \<Rightarrow> kernel_region option \<times> region_iterator" where
  "region_next it =
     (let l = it_layout it in
      case it_next it of
        None \<Rightarrow> (None, it)
      | Some TextTitle \<Rightarrow>
          (Some \<lparr>title = TextTitle, reg_start = l_text l, reg_end = l_rodata l\<rparr>, it\<lparr>it_next := Some RodataTitle\<rparr>)
      | Some RodataTitle \<Rightarrow>
          (Some \<lparr>title = RodataTitle, reg_start = l_rodata l, reg_end = l_data l\<rparr>, it\<lparr>it_next := Some DataTitle\<rparr>)
      | Some DataTitle \<Rightarrow>
          (Some \<lparr>title = DataTitle, reg_start = l_data l, reg_end = l_ebss l\<rparr>, it\<lparr>it_next := Some BootTitle\<rparr>)
      | Some BootTitle \<Rightarrow>
          (Some \<lparr>title = BootTitle, reg_start = l_boot l, reg_end = l_end l\<rparr>, it\<lparr>it_next := None\<rparr>))"

text \<open>A \<open>for\<close> loop over the iterator; the regions left decide how often it turns.\<close>

definition regions_left :: "region_title option \<Rightarrow> nat" where
  "regions_left t =
     (case t of None \<Rightarrow> 0 | Some TextTitle \<Rightarrow> 4 | Some RodataTitle \<Rightarrow> 3 | Some DataTitle \<Rightarrow> 2 | Some BootTitle \<Rightarrow> 1)"

function collect_regions :: "region_iterator \<Rightarrow> kernel_region list" where
  "collect_regions it =
     (case region_next it of (None, it1) \<Rightarrow> [] | (Some r, it1) \<Rightarrow> r # collect_regions it1)"
  by auto
termination
  by (relation "measure (\<lambda>it. regions_left (it_next it))")
    (auto simp: region_next_def regions_left_def Let_def split: option.splits region_title.splits)

declare collect_regions.simps [simp del]

definition kernel_regions :: "kernel_layout \<Rightarrow> kernel_region list" where
  "kernel_regions l = collect_regions (layout_iter l)"

section \<open>What they do\<close>

lemma zero_from_phys: "phys (zero_from p e m) a = (if p \<le> a \<and> a < e then 0 else phys m a)"
proof (induction p e m rule: zero_from.induct)
  case (1 p e m)
  show ?case
  proof (cases "p < e")
    case True
    then show ?thesis using 1[OF True]
      by (subst zero_from.simps) (auto simp: mem_write_def)
  qed (subst zero_from.simps, auto)
qed

lemma kernel_regions_eq:
  "kernel_regions l =
     [\<lparr>title = TextTitle, reg_start = l_text l, reg_end = l_rodata l\<rparr>,
      \<lparr>title = RodataTitle, reg_start = l_rodata l, reg_end = l_data l\<rparr>,
      \<lparr>title = DataTitle, reg_start = l_data l, reg_end = l_ebss l\<rparr>,
      \<lparr>title = BootTitle, reg_start = l_boot l, reg_end = l_end l\<rparr>]"
  by (simp add: kernel_regions_def layout_iter_def collect_regions.simps region_next_def Let_def)

text \<open>The order in which the linker script places the sections.\<close>

definition in_order :: "kernel_layout \<Rightarrow> bool" where
  "in_order l \<longleftrightarrow> sorted [l_text l, l_rodata l, l_data l, l_sbss l, l_ebss l, l_boot l, l_end l]"

definition in_region :: "usize \<Rightarrow> kernel_region \<Rightarrow> bool" where
  "in_region a r \<longleftrightarrow> reg_start r \<le> a \<and> a < reg_end r"

text \<open>The regions that the iterator gives, four and then no more, cut the image of the kernel into disjoint
parts: an address of the image lies in exactly one of them, unless it is between the end of \<open>.bss\<close> and \<open>.boot\<close>,
and an address outside the image lies in none.\<close>

theorem regions_partition_the_image:
  assumes "in_order l"
  shows "length (kernel_regions l) = 4 \<and>
    (\<forall>a. length (filter (in_region a) (kernel_regions l)) =
       (if layout_start l \<le> a \<and> a < layout_end l \<and> \<not> (l_ebss l \<le> a \<and> a < l_boot l) then 1 else 0))"
proof -
  have o: "unat (l_text l) \<le> unat (l_rodata l)" "unat (l_rodata l) \<le> unat (l_data l)"
    "unat (l_data l) \<le> unat (l_ebss l)" "unat (l_ebss l) \<le> unat (l_boot l)" "unat (l_boot l) \<le> unat (l_end l)"
    using assms by (auto simp: in_order_def word_le_nat_alt)
  have "length (filter (in_region a) (kernel_regions l)) =
       (if layout_start l \<le> a \<and> a < layout_end l \<and> \<not> (l_ebss l \<le> a \<and> a < l_boot l) then 1 else 0)" for a
    using o unfolding kernel_regions_eq
    by (simp add: in_region_def layout_start_def layout_end_def word_le_nat_alt word_less_nat_alt) linarith
  then show ?thesis by (simp add: kernel_regions_eq)
qed

theorem regions_partition_the_image_witness:
  "length (filter (in_region 0x80203000)
     (kernel_regions \<lparr>l_text = 0x80200000, l_rodata = 0x80201000, l_data = 0x80202000, l_sbss = 0x80202800,
        l_ebss = 0x80202900, l_boot = 0x80203000, l_end = 0x80223000\<rparr>)) = 1"
proof -
  let ?l = "\<lparr>l_text = 0x80200000, l_rodata = 0x80201000, l_data = 0x80202000, l_sbss = 0x80202800,
        l_ebss = 0x80202900, l_boot = 0x80203000, l_end = 0x80223000\<rparr>"
  have "in_order ?l" by (simp add: in_order_def)
  then show ?thesis
    using regions_partition_the_image[of ?l] by (simp add: layout_start_def layout_end_def)
qed

section \<open>Applications in the image\<close>

text \<open>\<open>positions\<close> are the words from \<open>first\<close> on: the start of each application and the end of the last.\<close>

record app_meta =
  app_base :: u64
  app_step :: u64
  app_count :: u64
  positions :: "usize list"

record app_iterator =
  app_meta_of :: app_meta
  app_i :: u64

definition app_iter :: "app_meta \<Rightarrow> app_iterator" where
  "app_iter a = \<lparr>app_meta_of = a, app_i = 0\<rparr>"

text \<open>The place of an application in memory is cleared up to 2 MiB. A slice is its address and length.\<close>

definition app_room :: nat where "app_room = 0x200000"

definition app_place :: "app_iterator \<Rightarrow> usize \<Rightarrow> usize \<Rightarrow> usize \<Rightarrow> memory \<Rightarrow>
    ((usize \<times> usize) option \<times> app_iterator \<times> memory) res" where
  "app_place it p len base m =
     (let it1 = it\<lparr>app_i := app_i it + 1\<rparr> in
      if base \<noteq> 0 then
        let m1 = mem_write (unat base) (mem_read (unat p) (unat len) m) m in
        if unat len \<le> app_room then
          Inr (Some (base, len), it1, mem_zero (unat base + unat len) (app_room - unat len) m1)
        else Inl IndexOutOfBounds
      else Inr (Some (p, len), it1, m))"

definition app_next :: "app_iterator \<Rightarrow> memory \<Rightarrow> ((usize \<times> usize) option \<times> app_iterator \<times> memory) res" where
  "app_next it m =
     (let meta = app_meta_of it; i = app_i it in
      if app_count meta \<le> i then Inr (None, it, m)
      else
        bind_res (plus_usize (app_count meta) 1) (\<lambda>n.
        bind_res (nth_res (take (unat n) (positions meta)) (unat i)) (\<lambda>p.
        bind_res (nth_res (take (unat n) (positions meta)) (unat i + 1)) (\<lambda>q.
        bind_res (minus_usize q p) (\<lambda>len.
        bind_res (times_usize i (app_step meta)) (\<lambda>off.
        bind_res (plus_usize (app_base meta) off) (\<lambda>base.
          app_place it p len base m)))))))"

lemma app_next_places:
  assumes "app_next it m = Inr r" "\<not> app_count (app_meta_of it) \<le> app_i it"
  obtains len off b where
    "minus_usize (positions (app_meta_of it) ! (unat (app_i it) + 1)) (positions (app_meta_of it) ! unat (app_i it)) = Inr len"
    "times_usize (app_i it) (app_step (app_meta_of it)) = Inr off"
    "plus_usize (app_base (app_meta_of it)) off = Inr b"
    "app_place it (positions (app_meta_of it) ! unat (app_i it)) len b m = Inr r"
  using assms by (auto simp: app_next_def Let_def bind_res_eq_Inr nth_res_eq_Inr)

lemma app_place_copies:
  assumes "app_place it p len b m = Inr (found, it', m')" and "b \<noteq> 0"
  shows "unat len \<le> app_room \<and> found = Some (b, len) \<and> it' = it\<lparr>app_i := app_i it + 1\<rparr> \<and>
    phys m' a = (if unat b \<le> a \<and> a < unat b + unat len then phys m (unat p + (a - unat b))
      else if unat b + unat len \<le> a \<and> a < unat b + app_room then 0 else phys m a)"
  using assms by (auto simp: app_place_def Let_def mem_zero_def mem_write_def nth_mem_read split: if_splits)

text \<open>The iterator over the applications answers the \<open>i\<close>-th one where it is to run: at \<open>base + i * step\<close>, as a copy of
its bytes in the image with zeros up to 2 MiB behind it and nothing else changed, or in place when that address
is 0; after the last application it answers nothing.\<close>

theorem app_iterator_loads_apps:
  assumes "app_next it m = Inr (found, it', m')"
    and "i = unat (app_i it)" "p = unat (positions (app_meta_of it) ! i)" "q = unat (positions (app_meta_of it) ! (i + 1))"
    and "base = unat (app_base (app_meta_of it)) + i * unat (app_step (app_meta_of it))"
  shows "if app_count (app_meta_of it) \<le> app_i it then found = None \<and> m' = m \<and> it' = it
    else p \<le> q \<and> it' = it\<lparr>app_i := app_i it + 1\<rparr> \<and>
      (\<exists>s n. found = Some (s, n) \<and> unat n = q - p \<and>
         (if base = 0 then unat s = p \<and> m' = m
          else unat s = base \<and> unat n \<le> 0x200000 \<and>
            (\<forall>a. phys m' a =
               (if base \<le> a \<and> a < base + (q - p) then phys m (p + (a - base))
                else if base + (q - p) \<le> a \<and> a < base + 0x200000 then 0 else phys m a))))"
proof (cases "app_count (app_meta_of it) \<le> app_i it")
  case True
  then show ?thesis using assms(1) by (simp add: app_next_def)
next
  case False
  obtain len off b where r:
      "minus_usize (positions (app_meta_of it) ! (i + 1)) (positions (app_meta_of it) ! i) = Inr len"
      "times_usize (app_i it) (app_step (app_meta_of it)) = Inr off" "plus_usize (app_base (app_meta_of it)) off = Inr b"
    and place: "app_place it (positions (app_meta_of it) ! i) len b m = Inr (found, it', m')"
    using app_next_places[OF assms(1) False] unfolding assms(2) by blast
  have len: "p \<le> q" "unat len = q - p" using minus_usize_unat[OF r(1)] assms(3,4) by simp_all
  have b: "unat b = base" using plus_usize_unat[OF r(3)] times_usize_unat[OF r(2)] assms(2,5) by simp
  show ?thesis
  proof (cases "b = 0")
    case True
    then show ?thesis using place len b False assms(3) by (auto simp: app_place_def)
  next
    case nz: False
    then have "base \<noteq> 0" using b by (simp add: unat_eq_zero[symmetric] flip: unat_gt_0)
    then show ?thesis
      using app_place_copies[OF place nz] len b False assms(3) by (simp add: app_room_def)
  qed
qed

theorem app_iterator_loads_apps_witness:
  "\<exists>m'. app_next (app_iter \<lparr>app_base = 0x80400000, app_step = 0x200000, app_count = 1, positions = [0x80210000, 0x80210010]\<rparr>)
      \<lparr>phys = (\<lambda>a. of_nat a), requests = 0\<rparr> =
      Inr (Some (0x80400000, 0x10), \<lparr>app_meta_of = \<lparr>app_base = 0x80400000, app_step = 0x200000, app_count = 1,
        positions = [0x80210000, 0x80210010]\<rparr>, app_i = 1\<rparr>, m') \<and>
    phys m' 0x80400003 = 3 \<and> phys m' 0x80400010 = 0 \<and> phys m' 0x80600001 = 1"
proof -
  let ?it = "app_iter \<lparr>app_base = 0x80400000, app_step = 0x200000, app_count = 1, positions = [0x80210000, 0x80210010]\<rparr>"
  let ?m = "\<lparr>phys = (\<lambda>a. of_nat a :: u8), requests = 0\<rparr>"
  let ?m1 = "mem_write 0x80400000 (mem_read 0x80210000 16 ?m) ?m"
  let ?m' = "mem_zero 0x80400010 0x1FFFF0 ?m1"
  have place: "app_place ?it 0x80210000 16 0x80400000 ?m = Inr (Some (0x80400000, 16), ?it\<lparr>app_i := 1\<rparr>, ?m')"
    unfolding app_place_def by (simp only: app_iter_def) (simp add: app_room_def)
  have n: "app_next ?it ?m = Inr (Some (0x80400000, 16), ?it\<lparr>app_i := 1\<rparr>, ?m')"
    using place by (simp add: app_next_def app_iter_def plus_usize_def minus_usize_def times_usize_def nth_res_def)
  show ?thesis
    using n app_iterator_loads_apps[OF n refl refl refl refl] by (intro exI[of _ ?m']) (simp add: app_iter_def)
qed

end
