(* ===== verification/Boot.thy ===== *)
theory Boot
  imports Kernel_Properties Space_Properties Linker Portal
begin

text \<open>
  The start of the kernel: \<open>kernel_space\<close> and the part of \<open>rust_main\<close> before the scheduling loop
  (\<open>tg-rcore-tutorial-ch8/src/main.rs\<close>). The layout of the image, the page that the heap
  gives for the portal and the number of the portal's virtual page (\<open>VPN::MAX\<close> of the page-table
  crate) are parameters.
\<close>

section \<open>The kernel's address space\<close>

definition memory_size :: usize where
  "memory_size = push_bit 20 48"

definition mmio :: "(usize \<times> usize) list" where
  "mmio = [(0x10001000, 0x1000)]"

definition region_flags :: "region_title \<Rightarrow> string" where
  "region_flags t =
     (case t of TextTitle \<Rightarrow> ''X_RV'' | RodataTitle \<Rightarrow> ''__RV'' | DataTitle \<Rightarrow> ''_WRV'' | BootTitle \<Rightarrow> ''_WRV'')"

text \<open>The pages from the one of \<open>s\<close> to the one before \<open>e\<close>, mapped to themselves.\<close>

definition map_identically ::
  "'pt platform \<Rightarrow> usize \<Rightarrow> usize \<Rightarrow> string \<Rightarrow> 'pt address_space \<Rightarrow> 'pt address_space res" where
  "map_identically pf s e fl as =
     map_extern pf (addr_floor pf s, addr_ceil pf e) (addr_floor pf s) (vm_flags pf fl) as"

primrec map_regions :: "'pt platform \<Rightarrow> kernel_region list \<Rightarrow> 'pt address_space \<Rightarrow> 'pt address_space res" where
  "map_regions pf [] as = Inr as"
| "map_regions pf (r # rs) as =
     bind_res (map_identically pf (reg_start r) (reg_end r) (region_flags (title r)) as) (map_regions pf rs)"

fun map_devices :: "'pt platform \<Rightarrow> (usize \<times> usize) list \<Rightarrow> 'pt address_space \<Rightarrow> 'pt address_space res" where
  "map_devices pf [] as = Inr as"
| "map_devices pf ((base, len) # ds) as =
     bind_res (plus_usize base len) (\<lambda>e.
     bind_res (map_identically pf base e ''_WRV'' as) (map_devices pf ds))"

definition kernel_space ::
  "'pt platform \<Rightarrow> nat \<Rightarrow> kernel_layout \<Rightarrow> usize \<Rightarrow> usize \<Rightarrow> memory \<Rightarrow> ('pt address_space \<times> memory) res" where
  "kernel_space pf transit_page l mem_size portal m =
     bind_res (space_new pf m) (\<lambda>(as, m1).
     bind_res (map_regions pf (kernel_regions l) as) (\<lambda>as1.
     bind_res (plus_usize (layout_start l) mem_size) (\<lambda>e.
     bind_res (map_identically pf (layout_end l) e ''_WRV'' as1) (\<lambda>as2.
     bind_res (map_extern pf (transit_page, transit_page + 1) (unat (drop_bit 12 portal)) (vm_flags pf ''__G_XWRV'') as2)
       (\<lambda>as3.
     bind_res (map_devices pf mmio as3) (\<lambda>as4. Inr (as4, m1)))))))"

section \<open>Up to the scheduling loop\<close>

text \<open>The range that is handed to the heap: its start and its length.\<close>

definition heap_range :: "kernel_layout \<Rightarrow> (usize \<times> usize) res" where
  "heap_range l = bind_res (layout_len l) (\<lambda>n. bind_res (minus_usize memory_size n) (\<lambda>free. Inr (layout_end l, free)))"

text \<open>
  \<open>halves\<close> is the length of the portal's code. The answer is the address space of the kernel.
  The console, the logger and the tables of system calls do not enter the state.
\<close>

definition rust_main_start ::
  "'pt platform \<Rightarrow> nat \<Rightarrow> usize \<Rightarrow> kernel_layout \<Rightarrow> usize \<Rightarrow> ('pt kernel, 'pt address_space) kstep" where
  "rust_main_start pf transit_page halves l portal k =
     (let m = zero_bss l (memory k) in
      bind_res (heap_range l) (\<lambda>_.
      bind_res (calculate_size halves 1) (\<lambda>portal_size.
      bind_res (assert_res (portal_size < 4096)) (\<lambda>_.
      bind_res (kernel_space pf transit_page l memory_size portal m) (\<lambda>(space, m1).
      bind_res (load_init pf (k\<lparr>memory := m1\<rparr>)) (\<lambda>(_, k1). Inr (space, k1)))))))"

section \<open>What the address space translates\<close>

text \<open>What the page-table crate documents of the parts of an address.\<close>

definition address_laws :: "'pt platform \<Rightarrow> bool" where
  "address_laws pf \<longleftrightarrow>
     (\<forall>a. addr_floor pf a * page_size + addr_offset pf a = unat a) \<and>
     (\<forall>a b. a \<le> b \<longrightarrow> addr_floor pf a \<le> addr_floor pf b) \<and>
     (\<forall>a b. a < b \<longrightarrow> addr_floor pf a < addr_ceil pf b)"

lemma sample_address_laws: "address_laws sample_platform"
proof -
  have "unat a div 4096 < (unat b + 4095) div 4096" if "a < b" for a b :: usize
  proof -
    have "unat a + 1 \<le> unat b" using that by (simp add: word_less_nat_alt)
    then have "(unat a + 4096) div 4096 \<le> (unat b + 4095) div 4096" by (intro div_le_mono) simp
    then show ?thesis by simp
  qed
  then show ?thesis
    by (simp add: address_laws_def sample_platform_def word_le_nat_alt div_le_mono)
qed

text \<open>An address space that agrees with another where that one maps something.\<close>

definition keeps_pages :: "'pt platform \<Rightarrow> 'pt address_space \<Rightarrow> 'pt address_space \<Rightarrow> bool" where
  "keeps_pages pf as as' \<longleftrightarrow> (\<forall>u e. visit pf (page_table as) u = Some e \<longrightarrow> visit pf (page_table as') u = Some e)"

lemma keeps_pages_refl [simp]: "keeps_pages pf as as"
  by (simp add: keeps_pages_def)

lemma keeps_pages_trans: "keeps_pages pf a b \<Longrightarrow> keeps_pages pf b c \<Longrightarrow> keeps_pages pf a c"
  by (simp add: keeps_pages_def)

lemma map_extern_keeps:
  assumes "table_laws pf" "bit fl 0" "map_extern pf rg p fl as = Inr as'"
  shows "keeps_pages pf as as'"
  unfolding keeps_pages_def using map_extern_visit(4,5)[OF assms] by (metis option.distinct(1))

text \<open>The pages of the addresses from \<open>s\<close> to below \<open>e\<close> are mapped to themselves with the flags \<open>f\<close>.\<close>

definition identical :: "'pt platform \<Rightarrow> usize \<Rightarrow> usize \<Rightarrow> u64 \<Rightarrow> 'pt address_space \<Rightarrow> bool" where
  "identical pf s e f as \<longleftrightarrow>
     (\<forall>a. s \<le> a \<longrightarrow> a < e \<longrightarrow>
        visit pf (page_table as) (addr_floor pf a) = Some \<lparr>pte_ppn = addr_floor pf a, pte_flags = f\<rparr>)"

lemma identical_keeps: "identical pf s e f as \<Longrightarrow> keeps_pages pf as as' \<Longrightarrow> identical pf s e f as'"
  by (simp add: identical_def keeps_pages_def)

lemma identical_translate:
  "address_laws pf \<Longrightarrow> identical pf s e f as \<Longrightarrow> s \<le> a \<Longrightarrow> a < e \<Longrightarrow>
   translate pf as a want = (if flags_include f want then Some (unat a) else None)"
  by (simp add: translate_eq address_laws_def identical_def)

definition kernel_flags_valid :: "'pt platform \<Rightarrow> bool" where
  "kernel_flags_valid pf \<longleftrightarrow> list_all (\<lambda>s. bit (vm_flags pf s) 0) [''X_RV'', ''__RV'', ''_WRV'', ''__G_XWRV'']"

lemma region_flags_valid: "kernel_flags_valid pf \<Longrightarrow> bit (vm_flags pf (region_flags t)) 0"
  by (cases t) (simp_all add: kernel_flags_valid_def region_flags_def)

lemma map_identically_visit:
  assumes "table_laws pf" "address_laws pf" "bit (vm_flags pf fl) 0" "map_identically pf s e fl as = Inr as'"
  shows "identical pf s e (vm_flags pf fl) as'" "keeps_pages pf as as'"
proof -
  note ext = assms(4)[unfolded map_identically_def]
  show "keeps_pages pf as as'" by (rule map_extern_keeps[OF assms(1,3) ext])
  show "identical pf s e (vm_flags pf fl) as'"
    unfolding identical_def using map_extern_visit(4)[OF assms(1,3) ext] assms(2) by (simp add: address_laws_def)
qed

lemma map_regions_visit:
  assumes "table_laws pf" "address_laws pf" "kernel_flags_valid pf"
  shows "map_regions pf rs as = Inr as' \<Longrightarrow> keeps_pages pf as as' \<and>
    (\<forall>r \<in> set rs. identical pf (reg_start r) (reg_end r) (vm_flags pf (region_flags (title r))) as')"
proof (induction rs arbitrary: as)
  case (Cons r rs)
  then obtain as1 where 1: "map_identically pf (reg_start r) (reg_end r) (region_flags (title r)) as = Inr as1"
    and 2: "map_regions pf rs as1 = Inr as'"
    by (auto simp: bind_res_eq_Inr)
  note one = map_identically_visit[OF assms(1,2) region_flags_valid[OF assms(3)] 1]
  show ?case using Cons.IH[OF 2] one identical_keeps[OF one(1)] keeps_pages_trans[OF one(2)] by auto
qed simp

lemma kernel_space_visit:
  assumes "table_laws pf" "address_laws pf" "kernel_flags_valid pf" "kernel_space pf v l n portal m = Inr (as, m')"
  shows "r \<in> set (kernel_regions l) \<Longrightarrow>
      identical pf (reg_start r) (reg_end r) (vm_flags pf (region_flags (title r))) as"
    "identical pf (layout_end l) (layout_start l + n) (vm_flags pf ''_WRV'') as"
    "identical pf 0x10001000 0x10002000 (vm_flags pf ''_WRV'') as"
    "visit pf (page_table as) v = Some \<lparr>pte_ppn = unat (drop_bit 12 portal), pte_flags = vm_flags pf ''__G_XWRV''\<rparr>"
proof -
  obtain as0 as1 e as2 as3 where
    regions: "map_regions pf (kernel_regions l) as0 = Inr as1" and e: "plus_usize (layout_start l) n = Inr e"
    and heap: "map_identically pf (layout_end l) e ''_WRV'' as1 = Inr as2"
    and portal: "map_extern pf (v, v + 1) (unat (drop_bit 12 portal)) (vm_flags pf ''__G_XWRV'') as2 = Inr as3"
    and device: "map_identically pf 0x10001000 0x10002000 ''_WRV'' as3 = Inr as"
    using assms(4) by (auto simp: kernel_space_def mmio_def bind_res_eq_Inr plus_usize_def split: if_splits)
  have fl: "bit (vm_flags pf ''_WRV'') 0" "bit (vm_flags pf ''__G_XWRV'') 0"
    using assms(3) by (simp_all add: kernel_flags_valid_def)
  note R = map_regions_visit[OF assms(1-3) regions] and H = map_identically_visit[OF assms(1,2) fl(1) heap]
    and P = map_extern_keeps[OF assms(1) fl(2) portal] and D = map_identically_visit[OF assms(1,2) fl(1) device]
  have PD: "keeps_pages pf as2 as" by (rule keeps_pages_trans[OF P D(2)])
  show "identical pf (reg_start r) (reg_end r) (vm_flags pf (region_flags (title r))) as"
    if "r \<in> set (kernel_regions l)"
    using R that identical_keeps keeps_pages_trans[OF H(2) PD] by blast
  have "e = layout_start l + n" using e by (simp add: plus_usize_def split: if_splits)
  then show "identical pf (layout_end l) (layout_start l + n) (vm_flags pf ''_WRV'') as"
    using identical_keeps[OF H(1) PD] by simp
  show "identical pf 0x10001000 0x10002000 (vm_flags pf ''_WRV'') as" by (rule D(1))
  show "visit pf (page_table as) v = Some \<lparr>pte_ppn = unat (drop_bit 12 portal), pte_flags = vm_flags pf ''__G_XWRV''\<rparr>"
    using map_extern_visit(4)[OF assms(1) fl(2) portal, of v] D(2) by (simp add: keeps_pages_def)
qed

text \<open>C34: In the address space that the kernel switches to, every address of its image, of the heap behind it and of the
devices translates to itself, with the rights of its section and no others: code cannot be written, constants
can neither be written nor executed, data and heap cannot be executed. The page of the portal is the frame that the
heap gave for it.\<close>

theorem kernel_space_is_the_identity:
  assumes "table_laws pf" "address_laws pf" "kernel_flags_valid pf" "kernel_space pf v l n portal m = Inr (as, m')"
  shows "(\<forall>r \<in> set (kernel_regions l). \<forall>a want. reg_start r \<le> a \<longrightarrow> a < reg_end r \<longrightarrow>
      translate pf as a want =
        (if flags_include (vm_flags pf (region_flags (title r))) want then Some (unat a) else None)) \<and>
    (\<forall>a want. layout_end l \<le> a \<and> a < layout_start l + n \<or> 0x10001000 \<le> a \<and> a < 0x10002000 \<longrightarrow>
      translate pf as a want = (if flags_include (vm_flags pf ''_WRV'') want then Some (unat a) else None)) \<and>
    (\<forall>a want. addr_floor pf a = v \<longrightarrow> translate pf as a want =
      (if flags_include (vm_flags pf ''__G_XWRV'') want
       then Some (unat (drop_bit 12 portal) * 4096 + addr_offset pf a) else None))"
proof -
  note V = kernel_space_visit[OF assms] and T = identical_translate[OF assms(2)]
  have "translate pf as a want = (if flags_include (vm_flags pf ''_WRV'') want then Some (unat a) else None)"
    if "layout_end l \<le> a \<and> a < layout_start l + n \<or> 0x10001000 \<le> a \<and> a < 0x10002000" for a want
    using that T[OF V(2), of a want] T[OF V(3), of a want] by blast
  moreover have "translate pf as a want =
      (if flags_include (vm_flags pf ''__G_XWRV'') want
       then Some (unat (drop_bit 12 portal) * 4096 + addr_offset pf a) else None)" if "addr_floor pf a = v" for a want
    using V(4) that by (simp add: translate_eq)
  ultimately show ?thesis using T[OF V(1)] by blast
qed

definition sample_layout :: kernel_layout where
  "sample_layout = \<lparr>l_text = 0x80200000, l_rodata = 0x80201000, l_data = 0x80202000, l_sbss = 0x80202800,
     l_ebss = 0x80202900, l_boot = 0x80203000, l_end = 0x80204000\<rparr>"

lemma sample_sel:
  "addr_floor sample_platform a = unat a div 4096" "addr_ceil sample_platform a = (unat a + 4095) div 4096"
  "vm_flags sample_platform = sample_vm_flags" "empty_table sample_platform = []"
  "visit sample_platform pt u = (case map_of pt u of None \<Rightarrow> None | Some e \<Rightarrow> if bit (pte_flags e) 0 then Some e else None)"
  by (simp_all add: sample_platform_def visit_def pte_valid_def split: option.split)

lemma map_one_page:
  assumes "w = v + 1" "visit sample_platform (page_table as) v = None"
  shows "map_extern sample_platform (v, w) p f as =
    Inr (as\<lparr>areas := areas as @ [(v, w)], page_table := (v, \<lparr>pte_ppn = p, pte_flags = f\<rparr>) # page_table as\<rparr>)"
proof -
  have "make_tables sample_platform pt v = Some pt" "put_entry sample_platform pt v e = (v, e) # pt" for pt e
    by (simp_all add: sample_platform_def)
  then show ?thesis using assms by (simp add: map_extern_def map_page_def assert_res_def)
qed

lemma sample_kernel_space:
  "\<exists>as m'. kernel_space sample_platform (2 ^ 27 - 1) sample_layout 0x5000 0x80204000 \<lparr>phys = (\<lambda>_. 0), requests = 0\<rparr> =
     Inr (as, m')"
proof -
  have new: "\<exists>m'. space_new sample_platform \<lparr>phys = (\<lambda>_. 0), requests = 0\<rparr> =
      Inr (\<lparr>areas = [], page_table = [], root_ppn = 100\<rparr>, m')"
    by (simp add: space_new_def alloc_pages_def sample_platform_def)
  then show ?thesis
    by (auto simp: kernel_space_def kernel_regions_eq sample_layout_def map_identically_def map_one_page sample_sel
        plus_usize_def layout_start_def layout_end_def mmio_def region_flags_def)
qed

theorem kernel_space_is_the_identity_witness:
  "\<exists>as m'. kernel_space sample_platform (2 ^ 27 - 1) sample_layout 0x5000 0x80204000 \<lparr>phys = (\<lambda>_. 0), requests = 0\<rparr> =
      Inr (as, m') \<and>
    translate sample_platform as 0x80200123 9 = Some 0x80200123 \<and> translate sample_platform as 0x80200123 5 = None \<and>
    translate sample_platform as 0x80204FFF 5 = Some 0x80204FFF"
proof -
  obtain as m' where run: "kernel_space sample_platform (2 ^ 27 - 1) sample_layout 0x5000 0x80204000
      \<lparr>phys = (\<lambda>_. 0), requests = 0\<rparr> = Inr (as, m')"
    using sample_kernel_space by blast
  have fl: "kernel_flags_valid sample_platform"
    by (simp add: kernel_flags_valid_def sample_platform_def sample_vm_flags_def)
  note id = kernel_space_is_the_identity[OF sample_table_laws sample_address_laws fl run]
  have inc: "flags_include (vm_flags sample_platform ''X_RV'') 9" "\<not> flags_include (vm_flags sample_platform ''X_RV'') 5"
    "flags_include (vm_flags sample_platform ''_WRV'') 5"
    by (simp_all add: flags_include_def sample_platform_def sample_vm_flags_def)
  have "translate sample_platform as 0x80200123 9 = Some 0x80200123" "translate sample_platform as 0x80200123 5 = None"
    using id[THEN conjunct1] inc by (simp_all add: kernel_regions_eq sample_layout_def region_flags_def)
  moreover have "translate sample_platform as 0x80204FFF 5 = Some 0x80204FFF"
    using id[THEN conjunct2, THEN conjunct1, rule_format, of "0x80204FFF" 5] inc
    by (simp add: sample_layout_def layout_start_def layout_end_def)
  ultimately show ?thesis using run by blast
qed

section \<open>What the start establishes\<close>

lemma heap_range_fills_memory:
  "heap_range l = Inr (s, free) \<Longrightarrow> s = layout_end l \<and> unat s + unat free = unat (layout_start l) + unat memory_size"
  by (auto simp: heap_range_def layout_len_def layout_start_def layout_end_def bind_res_eq_Inr dest!: minus_usize_unat)

text \<open>Whatever the first program is, the kernel is consistent when it enters the scheduling loop.\<close>

lemma rust_main_start_ok: "triple booting (rust_main_start pf v halves l portal) (\<lambda>_. kernel_ok)"
proof (rule tripleI)
  fix k space k' assume k: "booting k" and run: "rust_main_start pf v halves l portal k = Inr (space, k')"
  obtain m where init: "load_init pf (k\<lparr>memory := m\<rparr>) = Inr ((), k')"
    using run by (auto simp: rust_main_start_def Let_def bind_res_eq_Inr)
  have "booting (k\<lparr>memory := m\<rparr>)" using k by (simp add: booting_def)
  from tripleD[OF load_init_ok this init] show "kernel_ok k'" .
qed

end
