(* ===== verification/Fsck.thy ===== *)
theory Fsck
  imports Directory File_Properties
begin

text \<open>
  The file system as a whole: what a checker run over the device would accept. Every used
  inode is a well-formed file, no two files share a block, the data blocks in use are exactly
  the blocks of the files, and every inode but the root's is named by exactly one entry of the
  directory.

  \<open>fs_consistent\<close> is established by creating a file system. What \<open>vfs.rs\<close> does to it, creating a file,
  writing and clearing, keeps \<open>fs_sound\<close>, the same without the demand that the names of the directory
  can be read back; they can as long as no name of 28 bytes is created. On a sound file system a call
  that returns had the room it needed, so the invariant needs no hypothesis on free blocks.
\<close>

section \<open>The invariant\<close>

definition fs_consistent :: "efs \<Rightarrow> store \<Rightarrow> bool" where
  "fs_consistent fs s \<longleftrightarrow>
     efs_open s = Inr fs \<and> dir_wf fs (inode_pos fs 0) s \<and> 0 \<in> inode_used fs s \<and>
     (\<forall>j \<in> inode_used fs s. file_wf fs (inode_pos fs j) s) \<and>
     (\<forall>j \<in> inode_used fs s. \<forall>k \<in> inode_used fs s. j \<noteq> k \<longrightarrow>
        file_blocks (inode_pos fs j) s \<inter> file_blocks (inode_pos fs k) s = {}) \<and>
     data_used fs s = (\<Union>j \<in> inode_used fs s. file_blocks (inode_pos fs j) s) \<and>
     distinct (map snd (dir_list (inode_pos fs 0) s)) \<and>
     unat ` snd ` set (dir_list (inode_pos fs 0) s) = inode_used fs s - {0}"

text \<open>The part that does not need the names of the entries to be readable. A name of 28 bytes, which
\<open>open\<close> with \<open>CREATE\<close> accepts, breaks the reading but not this part.\<close>

definition fs_sound :: "efs \<Rightarrow> store \<Rightarrow> bool" where
  "fs_sound fs s \<longleftrightarrow>
     efs_open s = Inr fs \<and> dir_ok fs (inode_pos fs 0) s \<and> 0 \<in> inode_used fs s \<and>
     (\<forall>j \<in> inode_used fs s. file_wf fs (inode_pos fs j) s) \<and>
     (\<forall>j \<in> inode_used fs s. \<forall>k \<in> inode_used fs s. j \<noteq> k \<longrightarrow>
        file_blocks (inode_pos fs j) s \<inter> file_blocks (inode_pos fs k) s = {}) \<and>
     data_used fs s = (\<Union>j \<in> inode_used fs s. file_blocks (inode_pos fs j) s) \<and>
     distinct (map snd (dir_list (inode_pos fs 0) s)) \<and>
     unat ` snd ` set (dir_list (inode_pos fs 0) s) = inode_used fs s - {0}"

definition names_readable :: "efs \<Rightarrow> store \<Rightarrow> bool" where
  "names_readable fs s \<longleftrightarrow> (\<forall>e \<in> set (dirents (content (inode_pos fs 0) s)). dir_entry_name e = Inr (name_of e))"

lemma consistent_iff: "fs_consistent fs s \<longleftrightarrow> fs_sound fs s \<and> names_readable fs s"
  by (auto simp: fs_consistent_def fs_sound_def names_readable_def dir_wf_iff)

lemma soundD:
  assumes "fs_sound fs s"
  shows "dir_ok fs (inode_pos fs 0) s" "0 \<in> inode_used fs s"
    "j \<in> inode_used fs s \<Longrightarrow> file_wf fs (inode_pos fs j) s"
    "j \<in> inode_used fs s \<Longrightarrow> k \<in> inode_used fs s \<Longrightarrow> j \<noteq> k \<Longrightarrow>
       file_blocks (inode_pos fs j) s \<inter> file_blocks (inode_pos fs k) s = {}"
    "data_used fs s = (\<Union>j \<in> inode_used fs s. file_blocks (inode_pos fs j) s)"
    "distinct (map snd (dir_list (inode_pos fs 0) s))"
    "unat ` snd ` set (dir_list (inode_pos fs 0) s) = inode_used fs s - {0}" "efs_open s = Inr fs"
  using assms by (auto simp: fs_sound_def)

lemma sound_ok: "fs_sound fs s \<Longrightarrow> fs_ok fs s"
  using soundD(1) by (auto simp: dir_ok_def file_wf_def)

lemma sound_separate:
  assumes "fs_sound fs s" "j \<in> inode_used fs s" "k \<in> inode_used fs s" "j \<noteq> k"
  shows "separate (inode_pos fs j) (inode_pos fs k) s"
  using soundD(4)[OF assms] inode_pos_separate[OF assms(4)] by (simp add: separate_def)

lemma inode_used_bound: "j \<in> inode_used fs s \<Longrightarrow> j < bitmap_maximum (inode_bitmap fs)"
  using bma.used_bound[of "inode_bitmap fs" s] by (auto simp: inode_used_def)

lemma finite_data_used: "finite (data_used fs s)"
  by (simp add: data_used_def bma.finite_used)

lemma card_data_used: "card (data_used fs s) = card (bitmap_used (data_bitmap fs) s)"
  unfolding data_used_def by (rule card_image) simp

lemma card_file_blocks:
  assumes "file_wf fs vi s"
  shows "card (file_blocks vi s) = total_blocks (fsize (the_inode vi s))" "finite (file_blocks vi s)"
proof -
  let ?A = "all_blocks (the_inode vi s) (blocks s) (data_blocks (the_inode vi s))"
  have "inode_wf (the_inode vi s) (locked vi s)" using assms by (simp add: file_wf_def)
  note iw = inode_wfD[OF this, unfolded locked_simps]
  have "card (file_blocks vi s) = card (set ?A)"
    unfolding file_blocks_def by (rule card_image) (auto simp: inj_on_def word_unat_eq_iff)
  also have "\<dots> = length ?A" using iw(4) by (rule distinct_card)
  also have "\<dots> = total_blocks (fsize (the_inode vi s))"
    using length_all_blocks_upto[OF iw(1)] by (simp add: total_blocks_upto data_blocks_def)
  finally show "card (file_blocks vi s) = total_blocks (fsize (the_inode vi s))" .
  show "finite (file_blocks vi s)" by (simp add: file_blocks_def)
qed

text \<open>The inode bitmap lies below the inode area, which the operations on files leave alone below.\<close>

lemma inode_used_kept:
  assumes "fs_ok fs s" "\<And>i. i < unat (inode_area_start_block fs) \<Longrightarrow> blocks s' i = blocks s i"
  shows "inode_used fs s' = inode_used fs s"
proof -
  have "blocks s' i = blocks s i" if "i \<in> bitmap_region (inode_bitmap fs)" for i
    using that assms(1) by (intro assms(2)) (auto simp: fs_ok_def layout_ok_def bitmap_region_def)
  then show ?thesis using bitmap_used_frame[of "inode_bitmap fs" s' s] by (simp add: inode_used_def)
qed

lemma super_block_kept:
  "fs_ok fs s \<Longrightarrow> fs_ok fs s' \<Longrightarrow> blocks s' 0 = blocks s 0 \<Longrightarrow> efs_open s' = efs_open s"
  by (simp add: efs_open_def fs_ok_def)

lemma super_block_low:
  "fs_ok fs s \<Longrightarrow> (\<And>i. i < unat (inode_area_start_block fs) \<Longrightarrow> blocks s' i = blocks s i) \<Longrightarrow> blocks s' 0 = blocks s 0"
  by (simp add: fs_ok_def layout_ok_def)

lemma kept_dir:
  assumes "dir_ok fs vi s" "kept fs vi s s'"
  shows "dir_ok fs vi s'" "dir_list vi s' = dir_list vi s"
  using assms by (simp_all add: dir_ok_def kept_def dir_list_def)

text \<open>An operation on one file other than the directory.\<close>

lemma sound_change:
  assumes c: "fs_sound fs s" and j: "j \<in> inode_used fs s" "j \<noteq> 0"
    and wf: "file_wf fs (inode_pos fs j) s'"
    and others: "\<And>k. k \<in> inode_used fs s \<Longrightarrow> k \<noteq> j \<Longrightarrow> kept fs (inode_pos fs k) s s'"
    and iu: "inode_used fs s' = inode_used fs s"
    and du: "data_used fs s' = (data_used fs s - file_blocks (inode_pos fs j) s) \<union> file_blocks (inode_pos fs j) s'"
    and fresh: "file_blocks (inode_pos fs j) s' \<inter> data_used fs s \<subseteq> file_blocks (inode_pos fs j) s"
    and super: "blocks s' 0 = blocks s 0"
  shows "fs_sound fs s'" "dir_list (inode_pos fs 0) s' = dir_list (inode_pos fs 0) s"
proof -
  note d = soundD[OF c]
  note dir = kept_dir[OF d(1) others[OF d(2) j(2)[symmetric]]]
  show "dir_list (inode_pos fs 0) s' = dir_list (inode_pos fs 0) s" by (rule dir(2))
  have fb: "file_blocks (inode_pos fs k) s' = file_blocks (inode_pos fs k) s"
    if "k \<in> inode_used fs s" "k \<noteq> j" for k
    using others[OF that] by (simp add: kept_def)
  have disj: "file_blocks (inode_pos fs j) s' \<inter> file_blocks (inode_pos fs k) s = {}"
    if "k \<in> inode_used fs s" "k \<noteq> j" for k
    using fresh d(4)[OF j(1) that(1)] that d(5) by blast
  have files: "file_wf fs (inode_pos fs k) s'" if "k \<in> inode_used fs s" for k
    using that wf others by (cases "k = j") (auto simp: kept_def)
  have apart: "file_blocks (inode_pos fs i) s' \<inter> file_blocks (inode_pos fs k) s' = {}"
    if "i \<in> inode_used fs s" "k \<in> inode_used fs s" "i \<noteq> k" for i k
    using that d(4)[OF that] disj fb by (cases "i = j"; cases "k = j") auto
  have all: "data_used fs s' = (\<Union>k \<in> inode_used fs s. file_blocks (inode_pos fs k) s')"
  proof -
    have "data_used fs s - file_blocks (inode_pos fs j) s =
        (\<Union>k \<in> inode_used fs s - {j}. file_blocks (inode_pos fs k) s)"
      unfolding d(5) using d(4)[OF j(1)] by fastforce
    also have "\<dots> = (\<Union>k \<in> inode_used fs s - {j}. file_blocks (inode_pos fs k) s')" using fb by simp
    finally show ?thesis unfolding du using j(1) by blast
  qed
  show "fs_sound fs s'"
    unfolding fs_sound_def iu dir(2) using dir(1) d(2,6,7,8) files apart all
      super_block_kept[OF sound_ok[OF c] _ super] wf by (simp add: file_wf_def)
qed

section \<open>A call that returned had room\<close>

lemma alloc_data_many_room:
  "numbers_fit fs \<Longrightarrow> bitmap_wf (data_bitmap fs) s \<Longrightarrow> alloc_data_many n fs s = Inr (v, s') \<Longrightarrow>
     card (bitmap_used (data_bitmap fs) s) + n \<le> bitmap_maximum (data_bitmap fs)"
proof (induction n arbitrary: s v)
  case 0
  have "card (bitmap_used (data_bitmap fs) s) \<le> card {..<bitmap_maximum (data_bitmap fs)}"
    by (rule card_mono) (use bma.used_bound in auto)
  then show ?case by simp
next
  case (Suc n)
  let ?bm = "data_bitmap fs"
  have ne: "bitmap_used ?bm s \<noteq> {..<bitmap_maximum ?bm}"
  proof
    assume "bitmap_used ?bm s = {..<bitmap_maximum ?bm}"
    from bma.alloc_none[OF Suc.prems(2) this] Suc.prems(3) show False by (simp add: alloc_data_def unwrap_def)
  qed
  obtain e s1 where e: "alloc_data fs s = Inr (e, s1)" "bitmap_wf ?bm s1"
      "bitmap_used ?bm s1 = insert (LEAST i. i \<notin> bitmap_used ?bm s) (bitmap_used ?bm s)"
    using alloc_data_ok[OF Suc.prems(1,2) ne] by blast
  obtain w where "alloc_data_many n fs s1 = Inr (w, s')"
    using Suc.prems(3) e(1) by (auto simp: bind_res_eq_Inr)
  from Suc.IH[OF Suc.prems(1) e(2) this] show ?case
    using bma.least_free(2)[OF ne] bma.finite_used[of ?bm s] by (simp add: e(3))
qed

lemma increase_size_room:
  assumes wf: "file_wf fs vi s" and r: "vfs_increase_size fs sz (the_inode vi s) (locked vi s) = Inr x"
  shows "card (bitmap_used (data_bitmap fs) s) + (total_blocks sz - total_blocks (fsize (the_inode vi s))) \<le>
    bitmap_maximum (data_bitmap fs)"
proof -
  let ?bm = "data_bitmap fs"
  have lay: "layout_ok fs" "numbers_fit fs" "store_ok s" "in_inode_area fs vi"
    using wf by (simp_all add: file_wf_def fs_ok_def)
  have bwf: "bitmap_wf ?bm (locked vi s)"
    using lay by (intro wf_bitmap) (auto simp: store_ok_def)
  have us: "bitmap_used ?bm (locked vi s) = bitmap_used ?bm s"
    by (simp add: bitmap_used_def bitmap_bit_def cong: conj_cong)
  have le: "card (bitmap_used ?bm s) \<le> bitmap_maximum ?bm"
    using alloc_data_many_room[OF lay(2) bwf, of 0] us by simp
  show ?thesis
  proof (cases "sz < fsize (the_inode vi s)")
    case True
    then have "total_blocks sz \<le> total_blocks (fsize (the_inode vi s))" by (intro total_blocks_mono) simp
    then show ?thesis using le by simp
  next
    case False
    then have "total_blocks (fsize (the_inode vi s)) \<le> total_blocks sz" by (intro total_blocks_mono) simp
    then obtain v s1 where "alloc_data_many (total_blocks sz - total_blocks (fsize (the_inode vi s))) fs (locked vi s) =
        Inr (v, s1)"
      using r False by (auto simp: vfs_increase_size_def blocks_num_needed_def bind_res_eq_Inr)
    from alloc_data_many_room[OF lay(2) bwf this] show ?thesis unfolding us .
  qed
qed

lemma inode_under_lock:
  "decode_inode (block_offset vi) (blocks s (block_id vi)) = the_inode vi s"
  "held s = {} \<Longrightarrow> s\<lparr>held := insert (block_id vi) (held s)\<rparr> = locked vi s"
  by (simp_all add: the_inode_def locked_def)

lemma write_room:
  assumes wf: "file_wf fs vi s" and r: "vfs_write_at fs vi off buf s = Inr x"
  shows "card (bitmap_used (data_bitmap fs) s) +
      (total_blocks (of_nat (off + length buf)) - total_blocks (fsize (the_inode vi s))) \<le>
    bitmap_maximum (data_bitmap fs)"
proof -
  have h: "held s = {}" using wf by (simp add: file_wf_def fs_ok_def)
  from r obtain y where "vfs_increase_size fs (of_nat (off + length buf)) (the_inode vi s) (locked vi s) = Inr y"
    unfolding vfs_write_at_def modify_disk_inode_def
    by (auto simp: h with_block_free bind_res_eq_Inr usize_add_def inode_under_lock locked_def split: if_splits)
  from increase_size_room[OF wf this] show ?thesis .
qed

section \<open>Writing and clearing\<close>

lemma sound_write_room:
  assumes c: "fs_sound fs s" and j: "j \<in> inode_used fs s" "j \<noteq> 0"
    and buf: "buf \<noteq> []" "off + length buf < 2 ^ 32" "data_blocks_of (of_nat (off + length buf)) \<le> max_blocks"
    and room: "card (bitmap_used (data_bitmap fs) s) + (total_blocks (of_nat (off + length buf)) -
        total_blocks (fsize (the_inode (inode_pos fs j) s))) \<le> bitmap_maximum (data_bitmap fs)"
  shows "\<exists>s'. vfs_write_at fs (inode_pos fs j) off buf s = Inr (length buf, s') \<and> fs_sound fs s' \<and>
    inode_used fs s' = inode_used fs s \<and> dir_list (inode_pos fs 0) s' = dir_list (inode_pos fs 0) s \<and>
    spliced off buf (content (inode_pos fs j) s) (content (inode_pos fs j) s') \<and>
    (\<forall>k \<in> inode_used fs s. k \<noteq> j \<longrightarrow> kept fs (inode_pos fs k) s s') \<and>
    card (data_used fs s') + total_blocks (fsize (the_inode (inode_pos fs j) s)) =
      card (data_used fs s) + total_blocks (fsize (the_inode (inode_pos fs j) s'))"
proof -
  let ?vj = "inode_pos fs j"
  obtain s' where w: "vfs_write_at fs ?vj off buf s = Inr (length buf, s')" "file_wf fs ?vj s'"
      "spliced off buf (content ?vj s) (content ?vj s')"
      "\<And>vj. file_wf fs vj s \<Longrightarrow> separate ?vj vj s \<Longrightarrow> kept fs vj s s'"
      "data_used fs s' = data_used fs s \<union> file_blocks ?vj s'"
      "file_blocks ?vj s' \<inter> data_used fs s = file_blocks ?vj s"
      "\<And>i. i < unat (inode_area_start_block fs) \<Longrightarrow> blocks s' i = blocks s i"
    using vfs_write_at_ok[OF soundD(3)[OF c j(1)] buf room] by blast
  have iu: "inode_used fs s' = inode_used fs s" by (rule inode_used_kept[OF sound_ok[OF c] w(7)])
  have ot: "kept fs (inode_pos fs k) s s'" if "k \<in> inode_used fs s" "k \<noteq> j" for k
    using w(4)[OF soundD(3)[OF c that(1)] sound_separate[OF c j(1) that(1) that(2)[symmetric]]] .
  have du: "data_used fs s' = (data_used fs s - file_blocks ?vj s) \<union> file_blocks ?vj s'"
    using w(5,6) by blast
  have fr: "file_blocks ?vj s' \<inter> data_used fs s \<subseteq> file_blocks ?vj s" using w(6) by simp
  have "card (data_used fs s) + card (file_blocks ?vj s') = card (data_used fs s') + card (file_blocks ?vj s)"
    using card_Un_Int[OF finite_data_used card_file_blocks(2)[OF w(2)], of fs s]
    unfolding w(5)[symmetric] Int_commute[of "data_used fs s"] w(6) by simp
  then have card: "card (data_used fs s') + total_blocks (fsize (the_inode ?vj s)) =
      card (data_used fs s) + total_blocks (fsize (the_inode ?vj s'))"
    using card_file_blocks(1)[OF w(2)] card_file_blocks(1)[OF soundD(3)[OF c j(1)]] by simp
  show ?thesis
    using sound_change[OF c j w(2) ot iu du fr super_block_low[OF sound_ok[OF c] w(7)]] w(1,3) iu ot card by blast
qed

lemma sound_write:
  assumes c: "fs_sound fs s" and j: "j \<in> inode_used fs s" "j \<noteq> 0"
    and r: "vfs_write_at fs (inode_pos fs j) off buf s = Inr (length buf, s')"
  shows "fs_sound fs s' \<and> inode_used fs s' = inode_used fs s \<and> kept fs (inode_pos fs 0) s s'"
proof (cases "buf = []")
  case True
  let ?vj = "inode_pos fs j"
  note wf = soundD(3)[OF c j(1)]
  have r': "vfs_write_at fs ?vj off [] s = Inr (0, s')" using r True by simp
  have room: "card (bitmap_used (data_bitmap fs) s) +
      (total_blocks (of_nat off) - total_blocks (fsize (the_inode ?vj s))) \<le> bitmap_maximum (data_bitmap fs)"
    using write_room[OF wf r'] by simp
  note w = vfs_write_nothing[OF wf r' room]
  have low: "blocks s' i = blocks s i" if "i < unat (inode_area_start_block fs)" for i using w that by blast
  have iu: "inode_used fs s' = inode_used fs s" by (rule inode_used_kept[OF sound_ok[OF c] low])
  have ot: "kept fs (inode_pos fs k) s s'" if "k \<in> inode_used fs s" "k \<noteq> j" for k
    using w soundD(3)[OF c that(1)] sound_separate[OF c j(1) that(1) that(2)[symmetric]] by blast
  have fw: "file_wf fs ?vj s'" using w by blast
  have du: "data_used fs s' = (data_used fs s - file_blocks ?vj s) \<union> file_blocks ?vj s'" using w by blast
  have fr: "file_blocks ?vj s' \<inter> data_used fs s \<subseteq> file_blocks ?vj s" using w by blast
  show ?thesis
    using sound_change[OF c j fw ot iu du fr super_block_low[OF sound_ok[OF c] low]] iu ot[OF soundD(2)[OF c] j(2)[symmetric]]
    by blast
next
  case False
  note lim = vfs_write_at_limits[OF soundD(3)[OF c j(1)] r]
  show ?thesis
    using sound_write_room[OF c j False lim write_room[OF soundD(3)[OF c j(1)] r]] r soundD(2)[OF c] j(2) by force
qed

lemma sound_clear:
  assumes c: "fs_sound fs s" and j: "j \<in> inode_used fs s" "j \<noteq> 0"
  shows "\<exists>s'. vfs_clear fs (inode_pos fs j) s = Inr s' \<and> fs_sound fs s' \<and>
    inode_used fs s' = inode_used fs s \<and> dir_list (inode_pos fs 0) s' = dir_list (inode_pos fs 0) s \<and>
    content (inode_pos fs j) s' = [] \<and>
    (\<forall>k \<in> inode_used fs s. k \<noteq> j \<longrightarrow> kept fs (inode_pos fs k) s s')"
proof -
  let ?vj = "inode_pos fs j"
  obtain s' where w: "vfs_clear fs ?vj s = Inr s'" "file_wf fs ?vj s'" "content ?vj s' = []"
      "file_blocks ?vj s' = {}" "data_used fs s' = data_used fs s - file_blocks ?vj s"
      "\<And>vj. file_wf fs vj s \<Longrightarrow> separate ?vj vj s \<Longrightarrow> kept fs vj s s'"
      "\<And>i. i < unat (inode_area_start_block fs) \<Longrightarrow> blocks s' i = blocks s i"
    using vfs_clear_ok[OF soundD(3)[OF c j(1)]] by blast
  have iu: "inode_used fs s' = inode_used fs s" by (rule inode_used_kept[OF sound_ok[OF c] w(7)])
  have ot: "kept fs (inode_pos fs k) s s'" if "k \<in> inode_used fs s" "k \<noteq> j" for k
    using w(6)[OF soundD(3)[OF c that(1)] sound_separate[OF c j(1) that(1) that(2)[symmetric]]] .
  have du: "data_used fs s' = (data_used fs s - file_blocks ?vj s) \<union> file_blocks ?vj s'"
    using w(4,5) by simp
  have fr: "file_blocks ?vj s' \<inter> data_used fs s \<subseteq> file_blocks ?vj s" by (simp add: w(4))
  show ?thesis
    using sound_change[OF c j w(2) ot iu du fr super_block_low[OF sound_ok[OF c] w(7)]] w(1,3) iu ot by blast
qed

section \<open>Creating a file\<close>

text \<open>The directory, a file itself, can name every inode.\<close>

definition dir_fits :: "efs \<Rightarrow> bool" where
  "dir_fits fs \<longleftrightarrow> bitmap_maximum (inode_bitmap fs) \<le> 16 * max_blocks"

lemma dir_size:
  assumes c: "fs_sound fs s"
  shows "card (inode_used fs s) = length (dir_list (inode_pos fs 0) s) + 1"
    "length (content (inode_pos fs 0) s) + 32 = 32 * card (inode_used fs s)"
proof -
  note d = soundD[OF c]
  let ?l = "dir_list (inode_pos fs 0) s"
  have fin: "finite (inode_used fs s)" by (simp add: inode_used_def bma.finite_used)
  have "card (unat ` snd ` set ?l) = card (set (map snd ?l))"
    by (subst card_image) (auto simp: inj_on_def word_unat_eq_iff)
  also have "\<dots> = length ?l" using distinct_card[OF d(6)] by simp
  finally have "length ?l = card (inode_used fs s) - 1" using d(2,7) fin by simp
  moreover have "0 < card (inode_used fs s)" using d(2) fin by (auto simp: card_gt_0_iff)
  moreover have "length (content (inode_pos fs 0) s) = 32 * length ?l"
    using d(1) by (simp add: dir_ok_def dir_list_def dirents_def)
  ultimately show "card (inode_used fs s) = length (dir_list (inode_pos fs 0) s) + 1"
    "length (content (inode_pos fs 0) s) + 32 = 32 * card (inode_used fs s)" by simp_all
qed

lemma dir_growth:
  assumes c: "fs_sound fs s" and fits: "dir_fits fs"
    and free: "inode_used fs s \<noteq> {..<bitmap_maximum (inode_bitmap fs)}"
  shows "length (content (inode_pos fs 0) s) + 32 < 2 ^ 32"
    "data_blocks_of (of_nat (length (content (inode_pos fs 0) s) + 32)) \<le> max_blocks"
proof -
  let ?m = "bitmap_maximum (inode_bitmap fs)"
  have "inode_used fs s \<subset> {..<?m}" using free inode_used_bound by blast
  from psubset_card_mono[OF _ this] have "card (inode_used fs s) < ?m" by simp
  moreover have "?m \<le> 264640" using fits by (simp add: dir_fits_def max_blocks_def)
  ultimately have le: "length (content (inode_pos fs 0) s) + 32 \<le> 32 * 264640" unfolding dir_size(2)[OF c] by simp
  then show lt: "length (content (inode_pos fs 0) s) + 32 < 2 ^ 32" by simp
  have "div_ceil (length (content (inode_pos fs 0) s) + 32) 512 \<le> div_ceil (32 * 264640) 512"
    using le by (rule div_ceil_mono)
  then show "data_blocks_of (of_nat (length (content (inode_pos fs 0) s) + 32)) \<le> max_blocks"
    unfolding data_blocks_of_def unat_of_nat_u32[OF lt] by (simp add: div_ceil_def max_blocks_def)
qed

lemma sound_create_room:
  fixes fs s
  defines "root \<equiv> inode_pos fs 0" and "sz \<equiv> of_nat (length (content (inode_pos fs 0) s) + 32)"
  assumes c: "fs_sound fs s" and name: "length name \<le> 28" and fits: "dir_fits fs"
    and free: "inode_used fs s \<noteq> {..<bitmap_maximum (inode_bitmap fs)}"
    and room: "card (bitmap_used (data_bitmap fs) s) + (total_blocks sz - total_blocks (fsize (the_inode root s))) \<le>
      bitmap_maximum (data_bitmap fs)"
  shows "\<exists>k s' e. dir_entry_new name (of_nat k) = Inr e \<and>
    dirents (content root s') = dirents (content root s) @ [e] \<and> vfs_create fs root name s = Inr (Some (inode_pos fs k), s') \<and> fs_sound fs s' \<and>
    k \<notin> inode_used fs s \<and> inode_used fs s' = insert k (inode_used fs s) \<and>
    dir_list root s' = dir_list root s @ [(name_of e, of_nat k)] \<and> unat (of_nat k :: u32) = k \<and>
    content (inode_pos fs k) s' = [] \<and> the_inode (inode_pos fs k) s' = inode_initialize FileType \<and>
    (\<forall>j \<in> inode_used fs s. j \<noteq> 0 \<longrightarrow> kept fs (inode_pos fs j) s s') \<and>
    card (data_used fs s') = card (data_used fs s) + total_blocks sz - total_blocks (fsize (the_inode root s)) \<and>
    fsize (the_inode root s') = sz"
proof -
  note d = soundD[OF c]
  have max: "bitmap_maximum (inode_bitmap fs) < 2 ^ 32" using fits by (simp add: dir_fits_def max_blocks_def)
  obtain k s' e where en: "dir_entry_new name (of_nat k) = Inr e"
      "dirents (content root s') = dirents (content root s) @ [e]" "inode_number e = of_nat k"
      "unat (of_nat k :: u32) = k"
    and r: "vfs_create fs root name s = Inr (Some (inode_pos fs k), s')" "k \<notin> inode_used fs s"
      "inode_used fs s' = insert k (inode_used fs s)" "dir_ok fs root s'"
      "file_wf fs (inode_pos fs k) s'" "content (inode_pos fs k) s' = []"
      "\<And>j. j \<in> inode_used fs s \<Longrightarrow> j \<noteq> 0 \<Longrightarrow> file_wf fs (inode_pos fs j) s \<Longrightarrow>
         separate root (inode_pos fs j) s \<Longrightarrow> kept fs (inode_pos fs j) s s'"
      "file_blocks (inode_pos fs k) s' = {}" "k < bitmap_maximum (inode_bitmap fs)"
      "the_inode (inode_pos fs k) s' = inode_initialize FileType"
      "data_used fs s' = data_used fs s \<union> file_blocks root s'"
      "file_blocks root s' \<inter> data_used fs s = file_blocks root s" "blocks s' 0 = blocks s 0"
    using vfs_create_entry[OF d(1,2) name max dir_growth[OF c fits free] free room[unfolded root_def sz_def]]
    unfolding root_def by blast
  have dl: "dir_list root s' = dir_list root s @ [(name_of e, of_nat k)]"
    by (simp add: dir_list_def en(2,3))
  have uk: "unat (of_nat k :: u32) = k" by (rule en(4))
  have k0: "k \<noteq> 0" using d(2) r(2) by metis
  have ot: "kept fs (inode_pos fs j) s s'" if "j \<in> inode_used fs s" "j \<noteq> 0" for j
    using r(7)[OF that d(3)[OF that(1)]] sound_separate[OF c d(2) that(1) that(2)[symmetric]]
    by (simp add: root_def)
  then have fb: "file_blocks (inode_pos fs j) s' = file_blocks (inode_pos fs j) s"
    if "j \<in> inode_used fs s" "j \<noteq> 0" for j using that by (simp add: kept_def)
  have disj: "file_blocks root s' \<inter> file_blocks (inode_pos fs j) s = {}" if "j \<in> inode_used fs s" "j \<noteq> 0" for j
    using r(12) d(4)[OF d(2) that(1)] that d(5) unfolding root_def by blast
  have files: "file_wf fs (inode_pos fs j) s'" if "j \<in> insert k (inode_used fs s)" for j
    using that r(4,5) ot by (cases "j = 0"; cases "j = k") (auto simp: dir_ok_def root_def kept_def)
  have apart: "file_blocks (inode_pos fs i) s' \<inter> file_blocks (inode_pos fs j) s' = {}"
    if "i \<in> insert k (inode_used fs s)" "j \<in> insert k (inode_used fs s)" "i \<noteq> j" for i j
  proof -
    consider "i = k" | "j = k" | "i = 0" "j \<noteq> k" | "j = 0" "i \<noteq> k" | "i \<noteq> 0" "j \<noteq> 0" "i \<noteq> k" "j \<noteq> k" by blast
    then show ?thesis
      using that r(8) fb disj[of j] disj[of i] d(4)[of i j]
      by cases (simp_all add: root_def Int_commute[of _ "file_blocks (inode_pos fs 0) s'"])
  qed
  have du: "data_used fs s' = (\<Union>j \<in> insert k (inode_used fs s). file_blocks (inode_pos fs j) s')"
  proof -
    have "data_used fs s = file_blocks root s \<union> (\<Union>j \<in> inode_used fs s - {0}. file_blocks (inode_pos fs j) s)"
      unfolding d(5) using d(2) by (auto simp: root_def)
    moreover have "(\<Union>j \<in> inode_used fs s - {0}. file_blocks (inode_pos fs j) s) =
        (\<Union>j \<in> inode_used fs s - {0}. file_blocks (inode_pos fs j) s')" using fb by simp
    moreover have "file_blocks root s \<subseteq> file_blocks root s'" using r(12) by blast
    moreover have "insert k (inode_used fs s) = insert k (insert 0 (inode_used fs s - {0}))" using d(2) by blast
    ultimately show ?thesis unfolding r(11) by (auto simp: root_def r(8))
  qed
  have dist: "distinct (map snd (dir_list root s'))"
  proof -
    have "of_nat k \<notin> snd ` set (dir_list root s)"
    proof
      assume "of_nat k \<in> snd ` set (dir_list root s)"
      then have "k \<in> unat ` snd ` set (dir_list root s)" using uk by (metis image_eqI)
      then show False using d(7) r(2) by (simp add: root_def)
    qed
    then show ?thesis using d(6)[folded root_def] by (simp add: dl)
  qed
  have named: "unat ` snd ` set (dir_list root s') = insert k (inode_used fs s) - {0}"
    using d(7)[folded root_def] uk k0 by (auto simp: dl)
  have "fs_ok fs s'" using r(5) by (simp add: file_wf_def)
  then have super: "efs_open s' = Inr fs" using super_block_kept[OF sound_ok[OF c] _ r(13)] d(8) by simp
  have c': "fs_sound fs s'"
    unfolding fs_sound_def r(3) root_def[symmetric]
    by (intro conjI ballI impI super r(4) files apart du dist named) (use d(2) in simp_all)
  have fin: "finite (file_blocks root s')" "finite (data_used fs s)"
    using card_file_blocks(2)[of fs root s'] r(4) finite_data_used by (simp_all add: dir_ok_def)
  have size: "fsize (the_inode root s') = sz"
  proof -
    have i: "insert k (inode_used fs s) \<noteq> inode_used fs s" "finite (inode_used fs s)"
      using r(2) by (auto simp: inode_used_def bma.finite_used)
    have "length (content root s') = length (content root s) + 32"
      using dir_size(2)[OF c'] dir_size(2)[OF c] i r(2) by (simp add: r(3) root_def)
    then have "unat (fsize (the_inode root s')) = length (content root s) + 32" by (simp add: length_content)
    then have "of_nat (unat (fsize (the_inode root s'))) = sz" by (simp only: sz_def root_def)
    then show ?thesis by simp
  qed
  have card: "card (data_used fs s') = card (data_used fs s) + total_blocks sz - total_blocks (fsize (the_inode root s))"
  proof -
    have "card (data_used fs s') + card (file_blocks root s) = card (data_used fs s) + card (file_blocks root s')"
      using card_Un_Int[OF fin(2,1)] unfolding r(11)[symmetric] Int_commute[of "data_used fs s"] r(12) by simp
    moreover have "card (file_blocks root s') = total_blocks sz"
      using card_file_blocks(1)[of fs root s'] r(4) size by (simp add: dir_ok_def)
    moreover have "card (file_blocks root s) = total_blocks (fsize (the_inode root s))"
      using card_file_blocks(1)[OF d(3)[OF d(2)]] by (simp add: root_def)
    ultimately show ?thesis by simp
  qed
  show ?thesis using r(1,2,3,6,10) dl c' en(1,2) uk ot card size by blast
qed

lemma create_room:
  assumes c: "fs_sound fs s" and fits: "dir_fits fs"
    and r: "vfs_create fs (inode_pos fs 0) name s = Inr x"
  defines "sz \<equiv> of_nat (length (content (inode_pos fs 0) s) + 32)"
  shows "inode_used fs s \<noteq> {..<bitmap_maximum (inode_bitmap fs)}"
    "card (bitmap_used (data_bitmap fs) s) +
       (total_blocks sz - total_blocks (fsize (the_inode (inode_pos fs 0) s))) \<le> bitmap_maximum (data_bitmap fs)"
proof -
  let ?root = "inode_pos fs 0"
  note d = soundD[OF c]
  have ok: "fs_ok fs s" by (rule sound_ok[OF c])
  have max: "bitmap_maximum (inode_bitmap fs) < 2 ^ 32" using fits by (simp add: dir_fits_def max_blocks_def)
  show ne: "inode_used fs s \<noteq> {..<bitmap_maximum (inode_bitmap fs)}"
  proof
    assume full: "inode_used fs s = {..<bitmap_maximum (inode_bitmap fs)}"
    have "bitmap_wf (inode_bitmap fs) s" using ok by (simp add: bitmap_wf_def fs_ok_def)
    from bma.alloc_none[OF this full[unfolded inode_used_def]] r show False
      by (simp add: vfs_create_def alloc_inode_def unwrap_def)
  qed
  obtain k s1 s2 blk off where f: "alloc_inode fs s = Inr (of_nat k, s1)"
      "get_disk_inode_pos fs (of_nat k) = Inr (blk, off)"
      "modify_block (unat blk) (\<lambda>b. Inr ((), encode_inode off (inode_initialize FileType) b)) s1 = Inr ((), s2)"
      "k \<notin> inode_used fs s" "bitmap_used (data_bitmap fs) s2 = bitmap_used (data_bitmap fs) s"
      "\<And>j. j < bitmap_maximum (inode_bitmap fs) \<Longrightarrow> j \<noteq> k \<Longrightarrow> file_wf fs (inode_pos fs j) s \<Longrightarrow>
         file_wf fs (inode_pos fs j) s2 \<and> the_inode (inode_pos fs j) s2 = the_inode (inode_pos fs j) s"
    using fresh_inode[OF ok max ne] by blast
  have "0 \<noteq> k" using d(2) f(4) by metis
  then have v2: "file_wf fs ?root s2" "the_inode ?root s2 = the_inode ?root s"
    using f(6)[OF inode_used_bound[OF d(2)] _ d(3)[OF d(2)]] by simp_all
  have h2: "held s2 = {}" using v2(1) by (simp add: file_wf_def fs_ok_def)
  obtain s3 where "modify_disk_inode ?root (append_dirent fs name (of_nat k)) s2 = Inr ((), s3)"
    using r f(1-3) by (auto simp: vfs_create_def bind_res_eq_Inr)
  then obtain y where "vfs_increase_size fs (of_nat ((file_count (the_inode ?root s2) + 1) * dirent_sz))
      (the_inode ?root s2) (locked ?root s2) = Inr y"
    unfolding modify_disk_inode_def append_dirent_def Let_def
    by (auto simp: h2 with_block_free bind_res_eq_Inr inode_under_lock locked_def
        simp del: of_nat_mult of_nat_add of_nat_Suc)
  moreover have "(file_count (the_inode ?root s2) + 1) * dirent_sz = length (content ?root s) + 32"
    using d(1) by (auto simp: dir_ok_def file_count_def length_content v2(2) dirent_sz_def)
  ultimately have "vfs_increase_size fs sz (the_inode ?root s2) (locked ?root s2) = Inr y" by (simp only: sz_def)
  from increase_size_room[OF v2(1) this] show "card (bitmap_used (data_bitmap fs) s) +
      (total_blocks sz - total_blocks (fsize (the_inode ?root s))) \<le> bitmap_maximum (data_bitmap fs)"
    unfolding f(5) v2(2) .
qed

lemma create_name:
  assumes c: "fs_sound fs s" and fits: "dir_fits fs" and r: "vfs_create fs (inode_pos fs 0) name s = Inr x"
  shows "length name \<le> 28"
proof -
  obtain y n e where "dir_entry_new name n = Inr e"
    using r unfolding vfs_create_def modify_disk_inode_def append_dirent_def Let_def
    by (auto simp: bind_res_eq_Inr with_block_def split: if_splits)
  then show ?thesis by (simp add: dir_entry_new_eq split: if_splits)
qed

lemma sound_create:
  assumes c: "fs_sound fs s" and fits: "dir_fits fs" and r: "vfs_create fs (inode_pos fs 0) name s = Inr (x, s')"
  shows "\<exists>k e. x = Some (inode_pos fs k) \<and> fs_sound fs s' \<and> k \<noteq> 0 \<and> inode_used fs s' = insert k (inode_used fs s) \<and>
    dir_entry_new name (of_nat k) = Inr e \<and>
    dirents (content (inode_pos fs 0) s') = dirents (content (inode_pos fs 0) s) @ [e]"
proof -
  obtain k s1 e where "vfs_create fs (inode_pos fs 0) name s = Inr (Some (inode_pos fs k), s1)" "fs_sound fs s1"
      "k \<notin> inode_used fs s" "inode_used fs s1 = insert k (inode_used fs s)" "dir_entry_new name (of_nat k) = Inr e"
      "dirents (content (inode_pos fs 0) s1) = dirents (content (inode_pos fs 0) s) @ [e]"
    using sound_create_room[OF c create_name[OF c fits r] fits create_room[OF c fits r]] by blast
  moreover from this have "k \<noteq> 0" using soundD(2)[OF c] by metis
  ultimately show ?thesis using r by (intro exI[of _ k] exI[of _ e]) simp
qed

section \<open>Finding a file\<close>

lemma sound_find:
  assumes c: "fs_sound fs s" and r: "vfs_find fs (inode_pos fs 0) name s = Inr (Some vi)"
  shows "\<exists>j \<in> inode_used fs s - {0}. vi = inode_pos fs j"
proof -
  obtain k blk off where k: "k \<in> snd ` set (dir_list (inode_pos fs 0) s)" "get_disk_inode_pos fs k = Inr (blk, off)"
      "vi = vinode_new blk off"
    using find_number[OF soundD(1)[OF c] r] by blast
  then have u: "unat k \<in> inode_used fs s - {0}" using soundD(7)[OF c] by blast
  have "layout_ok fs" "numbers_fit fs" using sound_ok[OF c] by (simp_all add: fs_ok_def)
  from get_disk_inode_pos_eq[OF this, of k] u have "vi = inode_pos fs (unat k)"
    using k(2,3) inode_used_bound by auto
  then show ?thesis using u by blast
qed

lemma find_eq:
  assumes dir: "dir_wf fs (inode_pos fs 0) s"
    and bound: "\<And>k. k \<in> snd ` set (dir_list (inode_pos fs 0) s) \<Longrightarrow> unat k < bitmap_maximum (inode_bitmap fs)"
  shows "vfs_find fs (inode_pos fs 0) name s =
    Inr (map_option (\<lambda>k. inode_pos fs (unat k)) (map_of (dir_list (inode_pos fs 0) s) name))"
proof (cases "map_of (dir_list (inode_pos fs 0) s) name")
  case None
  then show ?thesis
    using find_inode_id_eq[OF dir] by (simp add: vfs_find_def read_disk_inode_free[OF dir_facts(1)[OF dir]])
next
  case (Some k)
  have "k \<in> snd ` set (dir_list (inode_pos fs 0) s)" using map_of_SomeD[OF Some] by force
  moreover have "layout_ok fs" "numbers_fit fs" using dir by (simp_all add: dir_wf_def file_wf_def fs_ok_def)
  ultimately show ?thesis
    using Some find_inode_id_eq[OF dir] get_disk_inode_pos_eq[of fs k] bound
    by (fastforce simp: vfs_find_def read_disk_inode_free[OF dir_facts(1)[OF dir]])
qed

section \<open>With readable names\<close>

lemma consistentD:
  assumes "fs_consistent fs s"
  shows "dir_wf fs (inode_pos fs 0) s" "0 \<in> inode_used fs s"
    "j \<in> inode_used fs s \<Longrightarrow> file_wf fs (inode_pos fs j) s"
    "j \<in> inode_used fs s \<Longrightarrow> k \<in> inode_used fs s \<Longrightarrow> j \<noteq> k \<Longrightarrow>
       file_blocks (inode_pos fs j) s \<inter> file_blocks (inode_pos fs k) s = {}"
    "data_used fs s = (\<Union>j \<in> inode_used fs s. file_blocks (inode_pos fs j) s)"
    "distinct (map snd (dir_list (inode_pos fs 0) s))"
    "unat ` snd ` set (dir_list (inode_pos fs 0) s) = inode_used fs s - {0}" "efs_open s = Inr fs"
    "fs_sound fs s" "names_readable fs s"
  using assms consistent_iff[of fs s] by (auto simp: fs_consistent_def)

lemma readable_kept: "names_readable fs s \<Longrightarrow> kept fs (inode_pos fs 0) s s' \<Longrightarrow> names_readable fs s'"
  by (simp add: names_readable_def kept_def)

lemma readable_append:
  assumes "names_readable fs s" "valid_name name" "dir_entry_new name n = Inr e"
    "dirents (content (inode_pos fs 0) s') = dirents (content (inode_pos fs 0) s) @ [e]"
  shows "names_readable fs s'" "name_of e = name"
  using assms valid_name_entry[OF assms(2), of n] by (auto simp: names_readable_def name_of_def)



lemma consistent_find:
  assumes c: "fs_consistent fs s"
  shows "vfs_find fs (inode_pos fs 0) name s =
    Inr (map_option (\<lambda>k. inode_pos fs (unat k)) (map_of (dir_list (inode_pos fs 0) s) name))"
    "map_of (dir_list (inode_pos fs 0) s) name = Some k \<Longrightarrow> unat k \<in> inode_used fs s \<and> unat k \<noteq> 0"
proof -
  note d = consistentD[OF c]
  have used: "unat k \<in> inode_used fs s - {0}" if "k \<in> snd ` set (dir_list (inode_pos fs 0) s)" for k
    using that d(7) by blast
  then show "vfs_find fs (inode_pos fs 0) name s =
    Inr (map_option (\<lambda>k. inode_pos fs (unat k)) (map_of (dir_list (inode_pos fs 0) s) name))"
    using inode_used_bound by (intro find_eq d(1)) blast
  show "unat k \<in> inode_used fs s \<and> unat k \<noteq> 0" if "map_of (dir_list (inode_pos fs 0) s) name = Some k"
    using used[of k] map_of_SomeD[OF that] by force
qed

lemma consistent_write_room:
  assumes c: "fs_consistent fs s" and j: "j \<in> inode_used fs s" "j \<noteq> 0"
    and buf: "buf \<noteq> []" "off + length buf < 2 ^ 32" "data_blocks_of (of_nat (off + length buf)) \<le> max_blocks"
    and room: "card (bitmap_used (data_bitmap fs) s) + (total_blocks (of_nat (off + length buf)) -
        total_blocks (fsize (the_inode (inode_pos fs j) s))) \<le> bitmap_maximum (data_bitmap fs)"
  shows "\<exists>s'. vfs_write_at fs (inode_pos fs j) off buf s = Inr (length buf, s') \<and> fs_consistent fs s' \<and>
    inode_used fs s' = inode_used fs s \<and> dir_list (inode_pos fs 0) s' = dir_list (inode_pos fs 0) s \<and>
    spliced off buf (content (inode_pos fs j) s) (content (inode_pos fs j) s') \<and>
    (\<forall>k \<in> inode_used fs s. k \<noteq> j \<longrightarrow> kept fs (inode_pos fs k) s s') \<and>
    card (data_used fs s') + total_blocks (fsize (the_inode (inode_pos fs j) s)) =
      card (data_used fs s) + total_blocks (fsize (the_inode (inode_pos fs j) s'))"
  using sound_write_room[OF consistentD(9)[OF c] j buf room] consistentD(2,10)[OF c] j(2)
    readable_kept[of fs s] unfolding consistent_iff by metis

lemma consistent_create_room:
  fixes fs s
  defines "root \<equiv> inode_pos fs 0" and "sz \<equiv> of_nat (length (content (inode_pos fs 0) s) + 32)"
  assumes c: "fs_consistent fs s" and name: "valid_name name" and fits: "dir_fits fs"
    and free: "inode_used fs s \<noteq> {..<bitmap_maximum (inode_bitmap fs)}"
    and room: "card (bitmap_used (data_bitmap fs) s) + (total_blocks sz - total_blocks (fsize (the_inode root s))) \<le>
      bitmap_maximum (data_bitmap fs)"
  shows "\<exists>k s'. vfs_create fs root name s = Inr (Some (inode_pos fs k), s') \<and> fs_consistent fs s' \<and>
    k \<notin> inode_used fs s \<and> inode_used fs s' = insert k (inode_used fs s) \<and>
    dir_list root s' = dir_list root s @ [(name, of_nat k)] \<and> unat (of_nat k :: u32) = k \<and>
    content (inode_pos fs k) s' = [] \<and> the_inode (inode_pos fs k) s' = inode_initialize FileType \<and>
    (\<forall>j \<in> inode_used fs s. j \<noteq> 0 \<longrightarrow> kept fs (inode_pos fs j) s s') \<and>
    card (data_used fs s') = card (data_used fs s) + total_blocks sz - total_blocks (fsize (the_inode root s)) \<and>
    fsize (the_inode root s') = sz"
proof -
  have len: "length name \<le> 28" using name by (simp add: valid_name_def)
  show ?thesis
    using sound_create_room[OF consistentD(9)[OF c] len fits free room[unfolded root_def sz_def]]
      readable_append[OF consistentD(10)[OF c] name] unfolding root_def sz_def consistent_iff by metis
qed

section \<open>A new file system\<close>

lemma consistent_created:
  assumes l: "efs_layout n ibm = Inr (fs, sb)" and ibm: "ibm \<noteq> 0" "unat ibm < 2 ^ 22"
    and s: "held s = {}" "store_ok s" and fit: "numbers_fit fs"
  shows "\<exists>s'. efs_create n ibm s = Inr (fs, s') \<and> efs_open s' = Inr fs \<and> fs_consistent fs s' \<and>
    inode_used fs s' = {0} \<and> data_used fs s' = {} \<and> dir_list (inode_pos fs 0) s' = []"
proof -
  let ?root = "inode_pos fs 0" and ?ini = "inode_initialize DirectoryType"
  note lay = efs_layout_ok(1)[OF l ibm]
  obtain s' blk off where e: "efs_create n ibm s = Inr (fs, s')" "efs_open s' = Inr fs" "held s' = {}" "store_ok s'"
      "get_disk_inode_pos fs 0 = Inr (blk, off)" "decode_inode off (blocks s' (unat blk)) = ?ini"
      "bitmap_used (inode_bitmap fs) s' = {0}" "bitmap_used (data_bitmap fs) s' = {}"
    using efs_create_ok[OF l ibm s] by (elim exE conjE) (rule that)
  have z: "unat (0 :: u32) < bitmap_maximum (inode_bitmap fs)"
    using inode_used_bound[of 0 fs s'] e(7) by (simp add: inode_used_def)
  have ino: "the_inode ?root s' = ?ini"
    using get_disk_inode_pos_eq[OF lay fit z] e(5,6) by (auto simp: the_inode_def)
  have content: "content ?root s' = []" by (simp add: content_def file_bytes_def ino inode_initialize_def)
  have fb: "file_blocks ?root s' = {}" by (simp add: file_blocks_def ino demo_empty(1,2))
  have "inode_ok ?ini" by (simp add: inode_ok_def inode_initialize_def inode_direct_count_def)
  moreover have "in_inode_area fs ?root" using z by (intro inode_pos_area[OF lay]) simp
  moreover have "store_ok (locked ?root s')" using e(4) by (simp add: store_ok_def)
  ultimately have "file_wf fs ?root s'"
    using lay fit e(3,4) by (simp add: file_wf_def fs_ok_def inode_wf_def ino demo_empty(1,2) fb)
  moreover have "is_dir ?ini" by (simp add: is_dir_def inode_initialize_def)
  ultimately have "dir_wf fs ?root s'" by (simp add: dir_wf_def ino content dirents_def)
  moreover have dl: "dir_list ?root s' = []" by (simp add: dir_list_def content dirents_def)
  moreover have du: "data_used fs s' = {}" "inode_used fs s' = {0}" using e(7,8) by (simp_all add: data_used_def inode_used_def)
  ultimately have "fs_consistent fs s'"
    using \<open>file_wf fs ?root s'\<close> e(2) by (simp add: fs_consistent_def fb)
  then show ?thesis using e(1,2) dl du by blast
qed

section \<open>The file system under the calls of the kernel\<close>

text \<open>An open handle stands for a used inode other than the directory's.\<close>

definition handle_ok :: "efs \<Rightarrow> store \<Rightarrow> file_handle \<Rightarrow> bool" where
  "handle_ok fs s h \<longleftrightarrow>
     (case fh_inode h of None \<Rightarrow> True | Some vi \<Rightarrow> \<exists>j \<in> inode_used fs s - {0}. vi = inode_pos fs j)"

abbreviation kernel_fs :: "efs \<Rightarrow> file_system" where
  "kernel_fs fs \<equiv> \<lparr>fs_efs = fs, fs_root = inode_pos fs 0\<rparr>"

text \<open>Opening any path with any flags, writing any segments and reading into any, in any order and through any
handle that was opened: every call that returns is a step. Every open and every use of a handle leaves one
more handle value; the old ones remain, as clones of it may. The parameter \<open>made\<close> restricts nothing but gives
a name to the paths that are opened with \<open>CREATE\<close>.\<close>

inductive file_step ::
  "efs \<Rightarrow> u8 list set \<Rightarrow> store \<times> file_handle list \<Rightarrow> store \<times> file_handle list \<Rightarrow> bool" for fs made where
  step_open: "(flags_contain flags CREATE \<Longrightarrow> path \<in> made) \<Longrightarrow> fs_open (kernel_fs fs) path flags s = Inr (r, s') \<Longrightarrow>
    file_step fs made (s, hs) (s', (case r of None \<Rightarrow> hs | Some h \<Rightarrow> h # hs))"
| step_write: "h \<in> set hs \<Longrightarrow> fh_write_file fs h bufs s = Inr (n, h', s') \<Longrightarrow>
    file_step fs made (s, hs) (s', h' # hs)"
| step_read: "h \<in> set hs \<Longrightarrow> fh_read_file h bufs s = Inr (n, h', bufs') \<Longrightarrow>
    file_step fs made (s, hs) (s, h' # hs)"

definition files_sound :: "efs \<Rightarrow> u8 list set \<Rightarrow> store \<times> file_handle list \<Rightarrow> bool" where
  "files_sound fs made x \<longleftrightarrow>
     fs_sound fs (fst x) \<and> (\<forall>h \<in> set (snd x). handle_ok fs (fst x) h) \<and>
     ((\<forall>p \<in> made. valid_name p) \<longrightarrow> names_readable fs (fst x))"

lemma handle_ok_mono: "handle_ok fs s h \<Longrightarrow> inode_used fs s \<subseteq> inode_used fs s' \<Longrightarrow> handle_ok fs s' h"
  by (auto simp: handle_ok_def split: option.splits)

lemma size_limit:
  assumes "n \<le> 512 * max_blocks"
  shows "n < 2 ^ 32" "data_blocks_of (of_nat n) \<le> max_blocks"
proof -
  show lt: "n < 2 ^ 32" using assms by (simp add: max_blocks_def)
  have "div_ceil n 512 \<le> div_ceil (512 * max_blocks) 512" using assms by (rule div_ceil_mono)
  then show "data_blocks_of (of_nat n) \<le> max_blocks"
    unfolding data_blocks_of_def unat_of_nat_u32[OF lt] by (simp add: div_ceil_def)
qed

lemma sound_open:
  assumes c: "fs_sound fs s" and fits: "dir_fits fs" and made: "flags_contain flags CREATE \<Longrightarrow> path \<in> made"
    and r: "fs_open (kernel_fs fs) path flags s = Inr (r, s')"
  shows "fs_sound fs s'" "inode_used fs s \<subseteq> inode_used fs s'" "r = Some h \<Longrightarrow> handle_ok fs s' h"
    "\<forall>p \<in> made. valid_name p \<Longrightarrow> names_readable fs s \<Longrightarrow> names_readable fs s'"
proof -
  let ?root = "inode_pos fs 0"
  have hnd: "handle_ok fs s' (file_handle_new a b (inode_pos fs j))" if "j \<in> inode_used fs s'" "j \<noteq> 0" for a b j
    using that by (auto simp: handle_ok_def file_handle_new_def)
  obtain found where fd: "vfs_find fs ?root path s = Inr found"
    using r by (cases "vfs_find fs ?root path s") (auto simp: fs_open_def fs_find_def split: prod.splits if_splits)
  have "fs_sound fs s' \<and> inode_used fs s \<subseteq> inode_used fs s' \<and> (r = Some h \<longrightarrow> handle_ok fs s' h) \<and>
      ((\<forall>p \<in> made. valid_name p) \<longrightarrow> names_readable fs s \<longrightarrow> names_readable fs s')"
  proof (cases found)
    case None
    show ?thesis
    proof (cases "flags_contain flags CREATE")
      case True
      then obtain x a b where x: "vfs_create fs ?root path s = Inr (x, s')" "r = map_option (file_handle_new a b) x"
        using r None fd by (auto simp: fs_open_def fs_find_def bind_res_eq_Inr split: prod.splits)
      obtain k e where k: "x = Some (inode_pos fs k)" "fs_sound fs s'" "k \<noteq> 0"
          "inode_used fs s' = insert k (inode_used fs s)" "dir_entry_new path (of_nat k) = Inr e"
          "dirents (content ?root s') = dirents (content ?root s) @ [e]"
        using sound_create[OF c fits x(1)] by blast
      have "names_readable fs s'" if "\<forall>p \<in> made. valid_name p" "names_readable fs s"
        using readable_append(1)[OF that(2) _ k(5,6)] that(1) made[OF True] by blast
      then show ?thesis using k(1-4) hnd[of k] x(2) by auto
    next
      case False
      then have "r = None" "s' = s"
        using r None fd by (auto simp: fs_open_def fs_find_def bind_res_eq_Inr split: prod.splits)
      then show ?thesis using c by simp
    qed
  next
    case (Some vi)
    obtain j where j: "j \<in> inode_used fs s" "j \<noteq> 0" "vi = inode_pos fs j" using sound_find[OF c] fd Some by blast
    obtain s1 where s1: "vfs_clear fs (inode_pos fs j) s = Inr s1" "fs_sound fs s1"
        "inode_used fs s1 = inode_used fs s" "kept fs ?root s s1"
      using sound_clear[OF c j(1,2)] soundD(2)[OF c] j(2) by metis
    have "s' = s1 \<or> s' = s" "\<exists>a b. r = Some (file_handle_new a b (inode_pos fs j))"
      using r Some s1(1) fd j(3)
      by (auto simp: fs_open_def fs_find_def bind_res_eq_Inr split: prod.splits if_splits)
    then show ?thesis using c s1(2,3) j(1,2) hnd[of j] readable_kept[OF _ s1(4)] by auto
  qed
  then show "fs_sound fs s'" "inode_used fs s \<subseteq> inode_used fs s'" "r = Some h \<Longrightarrow> handle_ok fs s' h"
    "\<forall>p \<in> made. valid_name p \<Longrightarrow> names_readable fs s \<Longrightarrow> names_readable fs s'" by blast+
qed

lemma sound_fh_write:
  assumes j: "j \<noteq> 0"
  shows "fs_sound fs s \<Longrightarrow> j \<in> inode_used fs s \<Longrightarrow>
    fh_write_loop fs (inode_pos fs j) off tot bufs s = Inr (n, off', s') \<Longrightarrow>
    fs_sound fs s' \<and> inode_used fs s' = inode_used fs s \<and> (names_readable fs s \<longrightarrow> names_readable fs s')"
proof (induction bufs arbitrary: off tot s)
  case (Cons b bs)
  obtain s1 where w: "vfs_write_at fs (inode_pos fs j) off b s = Inr (length b, s1)"
      "fh_write_loop fs (inode_pos fs j) (off + length b) (tot + length b) bs s1 = Inr (n, off', s')"
    using Cons.prems(3) by (auto simp: bind_res_eq_Inr assert_res_def split: if_splits)
  note sw = sound_write[OF Cons.prems(1,2) j w(1)]
  then have "fs_sound fs s1" "j \<in> inode_used fs s1" using Cons.prems(2) by simp_all
  from Cons.IH[OF this w(2)] show ?case using sw readable_kept by auto
qed simp

lemma file_step_sound:
  assumes "dir_fits fs" "file_step fs made x y" "files_sound fs made x"
  shows "files_sound fs made y"
  using assms(2)
proof cases
  case (step_open flags path s r s' hs)
  note o = sound_open[OF _ assms(1) step_open(3,4)]
  have c: "fs_sound fs s" "\<forall>h \<in> set hs. handle_ok fs s h" "(\<forall>p \<in> made. valid_name p) \<longrightarrow> names_readable fs s"
    using step_open(1) assms(3) by (simp_all add: files_sound_def)
  have "\<forall>h \<in> set (case r of None \<Rightarrow> hs | Some h \<Rightarrow> h # hs). handle_ok fs s' h"
    using o(2,3)[OF c(1)] c(2) handle_ok_mono by (auto split: option.splits)
  then show ?thesis using o(1,4)[OF c(1)] c(3) step_open(2) by (simp add: files_sound_def)
next
  case (step_write h hs bufs s n h' s')
  have c: "fs_sound fs s" "\<forall>h \<in> set hs. handle_ok fs s h" "(\<forall>p \<in> made. valid_name p) \<longrightarrow> names_readable fs s"
    using step_write(1) assms(3) by (simp_all add: files_sound_def)
  show ?thesis
  proof (cases "fh_inode h")
    case None
    then show ?thesis using step_write(2,3,4) c by (auto simp: fh_write_file_def files_sound_def)
  next
    case (Some vi)
    moreover have "handle_ok fs s h" using c(2) step_write(3) by blast
    ultimately obtain j where j: "j \<in> inode_used fs s" "j \<noteq> 0" "vi = inode_pos fs j"
      by (auto simp: handle_ok_def)
    obtain tot off where w: "fh_write_loop fs (inode_pos fs j) (fh_offset h) 0 bufs s = Inr (tot, off, s')"
        "h' = h\<lparr>fh_offset := off\<rparr>"
      using step_write(4) Some j(3) by (auto simp: fh_write_file_def bind_res_eq_Inr)
    note r = sound_fh_write[OF j(2) c(1) j(1) w(1)]
    have "handle_ok fs s' g" if "g \<in> set (h' # hs)" for g
    proof -
      have "handle_ok fs s h'" using c(2) step_write(3) by (simp add: handle_ok_def w(2))
      then have "handle_ok fs s g" using that c(2) by auto
      then show ?thesis using r by (simp add: handle_ok_mono[of fs s])
    qed
    then show ?thesis using r c(3) step_write(2) by (simp add: files_sound_def)
  qed
next
  case (step_read h hs bufs s n h' bufs')
  have "fh_inode h' = fh_inode h"
    using step_read(4) by (auto simp: fh_read_file_def bind_res_eq_Inr split: option.splits)
  moreover have "\<forall>h \<in> set hs. handle_ok fs s h" using step_read(1) assms(3) by (simp add: files_sound_def)
  ultimately have "handle_ok fs s g" if "g \<in> set (h' # hs)" for g
    using that step_read(3) by (auto simp: handle_ok_def)
  then show ?thesis using step_read(1,2) assms(3) by (simp add: files_sound_def)
qed

lemma file_steps_sound:
  assumes "(file_step fs made)\<^sup>*\<^sup>* x y" "dir_fits fs" "files_sound fs made x"
  shows "files_sound fs made y"
  using assms(1) by induction (use assms(3) file_step_sound[OF assms(2)] in blast)+

text \<open>A name of 28 bytes in the directory cannot be read back: every lookup of a name that is not there panics.\<close>

lemma lookup_needs_names:
  assumes "fs_sound fs s" "\<not> names_readable fs s"
    "\<forall>e \<in> set (dirents (content (inode_pos fs 0) s)). dir_entry_name e \<noteq> Inr path"
  shows "\<exists>x. vfs_find fs (inode_pos fs 0) path s = Inl x"
proof -
  obtain e where e: "e \<in> set (dirents (content (inode_pos fs 0) s))" "dir_entry_name e \<noteq> Inr (name_of e)"
    using assms(2) by (auto simp: names_readable_def)
  then obtain err where "dir_entry_name e = Inl err" by (cases "dir_entry_name e") (simp_all add: name_of_def)
  from find_panics[OF soundD(1)[OF assms(1)] e(1) this assms(3)] show ?thesis .
qed

section \<open>Adding a file\<close>

text \<open>Creating a file and writing its bytes, with room for both.\<close>

lemma spliced_empty: "spliced 0 buf [] new \<Longrightarrow> new = buf"
  by (auto simp: spliced_def slice_def)

lemma add_file:
  fixes fs s
  defines "root \<equiv> inode_pos fs 0" and "sz \<equiv> of_nat (length (content (inode_pos fs 0) s) + 32)"
  assumes c: "fs_consistent fs s" and name: "valid_name name" and fits: "dir_fits fs"
    and free: "inode_used fs s \<noteq> {..<bitmap_maximum (inode_bitmap fs)}"
    and data: "data \<noteq> []" "length data \<le> 512 * max_blocks"
    and room: "card (data_used fs s) + (total_blocks sz - total_blocks (fsize (the_inode root s))) +
      total_blocks (of_nat (length data)) \<le> bitmap_maximum (data_bitmap fs)"
  shows "\<exists>k s1 s2. vfs_create fs root name s = Inr (Some (inode_pos fs k), s1) \<and>
    vfs_write_at fs (inode_pos fs k) 0 data s1 = Inr (length data, s2) \<and> fs_consistent fs s2 \<and>
    k \<notin> inode_used fs s \<and> inode_used fs s2 = insert k (inode_used fs s) \<and>
    dir_list root s2 = dir_list root s @ [(name, of_nat k)] \<and> unat (of_nat k :: u32) = k \<and>
    content (inode_pos fs k) s2 = data \<and>
    (\<forall>j \<in> inode_used fs s. j \<noteq> 0 \<longrightarrow> content (inode_pos fs j) s2 = content (inode_pos fs j) s) \<and>
    card (data_used fs s2) = card (data_used fs s) + (total_blocks sz - total_blocks (fsize (the_inode root s))) +
      total_blocks (of_nat (length data)) \<and>
    fsize (the_inode root s2) = sz"
proof -
  have mono: "total_blocks (fsize (the_inode root s)) \<le> total_blocks sz"
  proof (rule total_blocks_mono)
    have "unat sz = length (content root s) + 32"
      using dir_growth(1)[OF consistentD(9)[OF c] fits free] by (simp only: sz_def root_def unat_of_nat_u32)
    then show "fsize (the_inode root s) \<le> sz" by (simp add: word_le_nat_alt length_content)
  qed
  have room1: "card (bitmap_used (data_bitmap fs) s) + (total_blocks sz - total_blocks (fsize (the_inode root s))) \<le>
      bitmap_maximum (data_bitmap fs)" using room by (simp add: card_data_used)
  obtain k s1 where k: "vfs_create fs root name s = Inr (Some (inode_pos fs k), s1)" "fs_consistent fs s1"
      "k \<notin> inode_used fs s" "inode_used fs s1 = insert k (inode_used fs s)"
      "dir_list root s1 = dir_list root s @ [(name, of_nat k)]" "unat (of_nat k :: u32) = k"
      "content (inode_pos fs k) s1 = []" "the_inode (inode_pos fs k) s1 = inode_initialize FileType"
      "\<And>j. j \<in> inode_used fs s \<Longrightarrow> j \<noteq> 0 \<Longrightarrow> kept fs (inode_pos fs j) s s1"
      "card (data_used fs s1) = card (data_used fs s) + total_blocks sz - total_blocks (fsize (the_inode root s))"
      "fsize (the_inode root s1) = sz"
    using consistent_create_room[OF c name fits free room1[unfolded sz_def root_def]]
    unfolding sz_def root_def by blast
  let ?vk = "inode_pos fs k"
  have k0: "k \<in> inode_used fs s1" "k \<noteq> 0" using k(3,4) consistentD(2)[OF c] by (simp, metis)
  have z: "total_blocks (fsize (the_inode ?vk s1)) = 0"
    by (simp add: k(8) inode_initialize_def total_blocks_def data_blocks_of_def div_ceil_def layout_consts)
  have "0 + length data \<le> 512 * max_blocks" using data(2) by simp
  note lim = size_limit[OF this]
  have room2: "card (bitmap_used (data_bitmap fs) s1) + (total_blocks (of_nat (0 + length data)) -
      total_blocks (fsize (the_inode ?vk s1))) \<le> bitmap_maximum (data_bitmap fs)"
    using room mono k(10) by (simp add: card_data_used[symmetric] z)
  obtain s2 where w: "vfs_write_at fs ?vk 0 data s1 = Inr (length data, s2)" "fs_consistent fs s2"
      "inode_used fs s2 = inode_used fs s1" "dir_list root s2 = dir_list root s1"
      "spliced 0 data (content ?vk s1) (content ?vk s2)"
      "\<And>j. j \<in> inode_used fs s1 \<Longrightarrow> j \<noteq> k \<Longrightarrow> kept fs (inode_pos fs j) s1 s2"
      "card (data_used fs s2) + total_blocks (fsize (the_inode ?vk s1)) =
        card (data_used fs s1) + total_blocks (fsize (the_inode ?vk s2))"
    using consistent_write_room[OF k(2) k0 data(1) lim room2] unfolding root_def by blast
  have ck: "content ?vk s2 = data" using w(5) unfolding k(7) by (rule spliced_empty)
  then have "of_nat (unat (fsize (the_inode ?vk s2))) = (of_nat (length data) :: u32)"
    by (metis length_content)
  then have fk: "fsize (the_inode ?vk s2) = of_nat (length data)" by simp
  have "content (inode_pos fs j) s2 = content (inode_pos fs j) s" if "j \<in> inode_used fs s" "j \<noteq> 0" for j
    using k(9)[OF that] w(6)[of j] that k(3,4) by (metis insertI2 kept_def)
  moreover have "fsize (the_inode root s2) = sz"
    using w(6)[of 0] k(4,11) k0(2) consistentD(2)[OF c] by (simp add: kept_def root_def)
  moreover have "card (data_used fs s2) = card (data_used fs s) + (total_blocks sz -
      total_blocks (fsize (the_inode root s))) + total_blocks (of_nat (length data))"
    using w(7) k(10) mono by (simp add: z fk)
  ultimately show ?thesis using k(1,3-6) w(1-4) ck by (intro exI[of _ k] exI[of _ s1] exI[of _ s2]) simp
qed

lemma open_creates:
  assumes "vfs_find (fs_efs sys) (fs_root sys) path s = Inr None"
    "vfs_create (fs_efs sys) (fs_root sys) path s = Inr (Some vi, s')"
  shows "fs_open sys path CREATE s = Inr (Some (file_handle_new True True vi), s')"
  using assms
  by (simp add: fs_open_def fs_find_def flags_read_write_def flags_contain_def CREATE_def WRONLY_def)

text \<open>C7: From a file system made by \<open>create\<close> on any device with room for its layout, through whatever sequence of
opens (of any path with any flags, so creating, truncating and finding), writes (of any segments, empty ones
included) and reads through open handles the kernel performs and that return: \<open>open\<close> reads the same file system
from the super block, every used inode is a well-formed file, no two files share a block, the data blocks marked as
used are exactly the blocks of the files, each used inode but the root is named by exactly one entry of the
directory, and every handle still stands for a used inode (\<open>fs_sound\<close>). If the paths opened with \<open>CREATE\<close> are
names of at most 27 bytes (UTF-8 without a zero byte, which \<open>path_is_text\<close> of \<open>Call_Properties\<close> shows of all paths
that the call \<open>open\<close> reads), every name in the directory can also be read back
(\<open>fs_consistent\<close>). Otherwise, once a name that cannot be read back is there, as one of 28 bytes, which \<open>create\<close>
accepts, every lookup of a path that is not in the directory panics.\<close>

theorem file_system_stays_consistent:
  assumes l: "efs_layout n ibm = Inr (fs, sb)" and ibm: "ibm \<noteq> 0" "unat ibm \<le> 64" and fit: "numbers_fit fs"
    and s: "held s = {}" "store_ok s" and made: "efs_create n ibm s = Inr (fs, s0)"
    and run: "(file_step fs created)\<^sup>*\<^sup>* (s0, []) (s', hs)"
  shows "fs_sound fs s' \<and> (\<forall>h \<in> set hs. handle_ok fs s' h) \<and>
    ((\<forall>p \<in> created. valid_name p) \<longrightarrow> fs_consistent fs s') \<and>
    (\<forall>path. \<not> names_readable fs s' \<and>
       (\<forall>e \<in> set (dirents (content (inode_pos fs 0) s')). dir_entry_name e \<noteq> Inr path) \<longrightarrow>
       (\<exists>err. vfs_find fs (inode_pos fs 0) path s' = Inl err))"
proof -
  have ib: "unat ibm < 2 ^ 22" using ibm(2) by simp
  have "fs_consistent fs s0" using consistent_created[OF l ibm(1) ib s fit] made by auto
  then have "files_sound fs created (s0, [])" by (simp add: files_sound_def consistent_iff)
  moreover have "dir_fits fs"
    using ibm(2) by (simp add: dir_fits_def efs_layout_ok(4)[OF l ibm(1) ib] bitmap_maximum_eq bitmap_new_def max_blocks_def)
  ultimately have "files_sound fs created (s', hs)" using file_steps_sound[OF run] by blast
  then show ?thesis using lookup_needs_names by (simp add: files_sound_def consistent_iff)
qed

text \<open>A new file system of 64000 blocks has room for a small file.\<close>

lemma small_device:
  "\<exists>fs sb s0. efs_layout 64000 1 = Inr (fs, sb) \<and> numbers_fit fs \<and> dir_fits fs \<and>
     efs_create 64000 1 \<lparr>blocks = \<lambda>_. replicate 512 0, held = {}\<rparr> = Inr (fs, s0) \<and> fs_consistent fs s0 \<and>
     inode_used fs s0 \<noteq> {..<bitmap_maximum (inode_bitmap fs)} \<and> dir_list (inode_pos fs 0) s0 = [] \<and>
     card (data_used fs s0) + (total_blocks (of_nat (length (content (inode_pos fs 0) s0) + 32)) -
       total_blocks (fsize (the_inode (inode_pos fs 0) s0))) + total_blocks 3 \<le> bitmap_maximum (data_bitmap fs)"
proof -
  let ?s = "\<lparr>blocks = \<lambda>_. replicate 512 0, held = {}\<rparr> :: store"
  obtain fs sb where l: "efs_layout 64000 1 = Inr (fs, sb)" "numbers_fit fs" "dir_fits fs"
      "bitmap_maximum (inode_bitmap fs) = 4096" "bitmap_maximum (data_bitmap fs) = 65536"
    by (simp add: efs_layout_def u32_add_def u32_sub_def bitmap_maximum_eq bitmap_new_def disk_inode_sz_def
        div_ceil_def Let_def numbers_fit_def dir_fits_def max_blocks_def)
  have s: "held ?s = {}" "store_ok ?s" by (simp_all add: store_ok_def)
  obtain s0 where s0: "efs_create 64000 1 ?s = Inr (fs, s0)" "fs_consistent fs s0" "inode_used fs s0 = {0}"
      "data_used fs s0 = {}" "dir_list (inode_pos fs 0) s0 = []"
    using consistent_created[OF l(1) _ _ s l(2)] by auto
  have len: "length (content (inode_pos fs 0) s0) = 0" using dir_size(2)[OF consistentD(9)[OF s0(2)]] by (simp add: s0(3))
  then have z: "fsize (the_inode (inode_pos fs 0) s0) = 0" by (simp add: length_content unat_eq_0)
  have t: "total_blocks 32 = 1" "total_blocks 0 = 0" "total_blocks 3 = 1"
    by (simp_all add: total_blocks_def data_blocks_of_def div_ceil_def layout_consts)
  have free: "inode_used fs s0 \<noteq> {..<bitmap_maximum (inode_bitmap fs)}"
  proof
    assume "inode_used fs s0 = {..<bitmap_maximum (inode_bitmap fs)}"
    from arg_cong[OF this, of card] show False by (simp add: s0(3) l(4))
  qed
  have "card (data_used fs s0) + (total_blocks (of_nat (length (content (inode_pos fs 0) s0) + 32)) -
       total_blocks (fsize (the_inode (inode_pos fs 0) s0))) + total_blocks 3 \<le> bitmap_maximum (data_bitmap fs)"
    unfolding len z by (simp add: s0(4) l(5) t)
  then show ?thesis using l(1-3) s0(1,2,5) free by blast
qed

theorem file_system_stays_consistent_witness:
  "\<exists>fs s0 s hs k s2 hs2 err. efs_create 64000 1 \<lparr>blocks = \<lambda>_. replicate 512 0, held = {}\<rparr> = Inr (fs, s0) \<and>
     (file_step fs {[0x61]})\<^sup>*\<^sup>* (s0, []) (s, hs) \<and> length hs = 2 \<and> fs_consistent fs s \<and>
     dir_list (inode_pos fs 0) s = [([0x61], k)] \<and> content (inode_pos fs (unat k)) s = [1, 2, 3] \<and>
     (file_step fs {replicate 28 0x61})\<^sup>*\<^sup>* (s0, []) (s2, hs2) \<and>
     vfs_find fs (inode_pos fs 0) [0x61] s2 = Inl err"
proof -
  let ?s = "\<lparr>blocks = \<lambda>_. replicate 512 0, held = {}\<rparr> :: store" and ?data = "[1, 2, 3] :: u8 list"
  let ?long = "replicate 28 0x61 :: u8 list"
  obtain fs sb s0 where l: "efs_layout 64000 1 = Inr (fs, sb)" "numbers_fit fs" "dir_fits fs"
    and s0: "efs_create 64000 1 ?s = Inr (fs, s0)" "fs_consistent fs s0"
      "inode_used fs s0 \<noteq> {..<bitmap_maximum (inode_bitmap fs)}" "dir_list (inode_pos fs 0) s0 = []"
    and room: "card (data_used fs s0) + (total_blocks (of_nat (length (content (inode_pos fs 0) s0) + 32)) -
       total_blocks (fsize (the_inode (inode_pos fs 0) s0))) + total_blocks 3 \<le> bitmap_maximum (data_bitmap fs)"
    using small_device by (elim exE conjE) (rule that)
  have s: "held ?s = {}" "store_ok ?s" by (simp_all add: store_ok_def)
  note keep = file_system_stays_consistent[OF l(1) _ _ l(2) s s0(1)]
  have name: "valid_name [0x61]" by (simp add: valid_name_def)
  have absent: "vfs_find fs (inode_pos fs 0) p s0 = Inr None" for p using consistent_find(1)[OF s0(2)] by (simp add: s0(4))
  obtain k s1 s2 where r: "vfs_create fs (inode_pos fs 0) [0x61] s0 = Inr (Some (inode_pos fs k), s1)"
      "vfs_write_at fs (inode_pos fs k) 0 ?data s1 = Inr (length ?data, s2)"
      "dir_list (inode_pos fs 0) s2 = dir_list (inode_pos fs 0) s0 @ [([0x61], of_nat k)]" "unat (of_nat k :: u32) = k"
      "content (inode_pos fs k) s2 = ?data"
    using add_file[OF s0(2) name l(3) s0(3), of ?data] room by (auto simp: max_blocks_def)
  let ?h = "file_handle_new True True (inode_pos fs k)"
  have op: "fs_open (kernel_fs fs) [0x61] CREATE s0 = Inr (Some ?h, s1)"
    using r(1) absent by (intro open_creates) simp_all
  have wr: "fh_write_file fs ?h [?data] s1 = Inr (3, ?h\<lparr>fh_offset := 3\<rparr>, s2)"
    using r(2) by (simp add: fh_write_file_def file_handle_new_def)
  have "file_step fs {[0x61]} (s0, []) (s1, [?h])" using step_open[OF _ op, of "{[0x61]}" "[]"] by simp
  moreover have "file_step fs {[0x61]} (s1, [?h]) (s2, [?h\<lparr>fh_offset := 3\<rparr>, ?h])" using wr by (intro step_write) simp
  ultimately have run: "(file_step fs {[0x61]})\<^sup>*\<^sup>* (s0, []) (s2, [?h\<lparr>fh_offset := 3\<rparr>, ?h])" by simp
  have "fs_consistent fs s2" using keep[OF _ _ run] name by simp
  moreover obtain j s3 e where c: "vfs_create fs (inode_pos fs 0) ?long s0 = Inr (Some (inode_pos fs j), s3)"
      "dir_entry_new ?long (of_nat j) = Inr e"
      "dirents (content (inode_pos fs 0) s3) = dirents (content (inode_pos fs 0) s0) @ [e]"
    using sound_create_room[OF consistentD(9)[OF s0(2)] _ l(3) s0(3), of ?long] room
    by (auto simp: card_data_used)
  have d: "dirents (content (inode_pos fs 0) s3) = [e]" using c(3) s0(4) by (simp add: dir_list_def)
  have v: "utf8_valid ?long" by (rule utf8_valid_ascii) simp
  have en: "dir_entry_name e = Inl IndexOutOfBounds"
    using dir_entry_name_eq[of ?long "of_nat j"] v c(2) by (auto simp: dir_entry_new_eq)
  have "fs_open (kernel_fs fs) ?long CREATE s0 = Inr (Some (file_handle_new True True (inode_pos fs j)), s3)"
    using c(1) absent by (intro open_creates) simp_all
  then have "file_step fs {?long} (s0, []) (s3, [file_handle_new True True (inode_pos fs j)])"
    using step_open[of CREATE ?long "{?long}" fs s0 _ s3 "[]"] by fastforce
  then have run3: "(file_step fs {?long})\<^sup>*\<^sup>* (s0, []) (s3, [file_handle_new True True (inode_pos fs j)])" by simp
  obtain err where "vfs_find fs (inode_pos fs 0) [0x61] s3 = Inl err"
    using keep[OF _ _ run3] d en by (auto simp: names_readable_def)
  ultimately show ?thesis
    using s0(1) r(3-5) run run3 unfolding s0(4) by (intro exI conjI) (assumption | simp)+
qed

end
