(* ===== verification/Image_Pack.thy ===== *)
theory Image_Pack
  imports Fsck
begin

text \<open>
  \<open>tg-rcore-tutorial-ch8/build.rs\<close>: building the user programs at their addresses and packing
  them into the file-system image the kernel boots from. Cargo is a parameter: for a program
  and an optional base address it answers the file it produces, or fails; the directory with
  the produced files is a map from names to bytes.
\<close>

section \<open>The programs\<close>

definition u64_add :: "u64 \<Rightarrow> u64 \<Rightarrow> u64 res" where
  "u64_add a b = (if unat a + unat b < 2 ^ 64 then Inr (a + b) else Inl ArithOverflow)"

definition u64_mul :: "u64 \<Rightarrow> u64 \<Rightarrow> u64 res" where
  "u64_mul a b = (if unat a * unat b < 2 ^ 64 then Inr (a * b) else Inl ArithOverflow)"

record cases =
  case_base :: "u64 option"
  case_step :: "u64 option"
  case_names :: "u8 list list option"

definition cases_default :: cases where
  "cases_default = \<lparr>case_base = None, case_step = None, case_names = None\<rparr>"

definition or_else :: "'a \<Rightarrow> 'a option \<Rightarrow> 'a" where
  "or_else d v = (case v of None \<Rightarrow> d | Some x \<Rightarrow> x)"

text \<open>What cargo makes of a program, given its base address.\<close>

type_synonym cargo = "u8 list \<Rightarrow> u64 option \<Rightarrow> u8 list option"
type_synonym host_dir = "u8 list \<rightharpoonup> u8 list"

definition build_user_app :: "cargo \<Rightarrow> u8 list \<Rightarrow> u64 \<Rightarrow> host_dir \<Rightarrow> host_dir res" where
  "build_user_app cargo name base_address dir =
     (case cargo name (if base_address \<noteq> 0 then Some base_address else None) of
        None \<Rightarrow> Inl ExplicitPanic
      | Some elf \<Rightarrow> Inr (dir(name \<mapsto> elf)))"

primrec build_user_apps :: "cargo \<Rightarrow> u64 \<Rightarrow> u64 \<Rightarrow> nat \<Rightarrow> u8 list list \<Rightarrow> host_dir \<Rightarrow> host_dir res" where
  "build_user_apps cargo base step i [] dir = Inr dir"
| "build_user_apps cargo base step i (name # names) dir =
     bind_res (u64_mul (of_nat i) step) (\<lambda>k.
     bind_res (u64_add base k) (\<lambda>base_address.
     bind_res (build_user_app cargo name base_address dir)
       (build_user_apps cargo base step (i + 1) names)))"

section \<open>Packing\<close>

primrec pack_cases :: "efs \<Rightarrow> vinode \<Rightarrow> host_dir \<Rightarrow> u8 list list \<Rightarrow> store \<Rightarrow> store res" where
  "pack_cases fs root dir [] s = Inr s"
| "pack_cases fs root dir (name # names) s =
     bind_res (case dir name of None \<Rightarrow> Inl UnwrapErr | Some d \<Rightarrow> Inr d) (\<lambda>all_data.
     bind_res (vfs_create fs root name s) (\<lambda>(made, s1).
     bind_res (unwrap made) (\<lambda>inode.
     bind_res (vfs_write_at fs inode 0 all_data s1) (\<lambda>(_, s2).
       pack_cases fs root dir names s2))))"

definition easy_fs_pack :: "u8 list list \<Rightarrow> host_dir \<Rightarrow> store \<Rightarrow> (efs \<times> store) res" where
  "easy_fs_pack names dir s =
     bind_res (efs_create (64 * 2048) 1 s) (\<lambda>(fs, s1).
     bind_res (root_inode fs) (\<lambda>root.
     bind_res (pack_cases fs root dir names s1) (\<lambda>s2. Inr (fs, s2))))"

text \<open>\<open>toml\<close> is the parsed \<open>cases.toml\<close>, \<open>exercise\<close> whether the feature is on.\<close>

definition build_apps_and_pack_fs ::
  "cargo \<Rightarrow> (string \<rightharpoonup> cases) \<Rightarrow> bool \<Rightarrow> host_dir \<Rightarrow> store \<Rightarrow> (host_dir \<times> efs \<times> store) res" where
  "build_apps_and_pack_fs cargo toml exercise dir s =
     (let case_key = (if exercise then ''ch8_exercise'' else ''ch8'');
          cs = or_else cases_default (toml case_key);
          base = or_else 0 (case_base cs);
          step = or_else 0 (case_step cs);
          names = or_else [] (case_names cs)
      in if names = [] then Inl ExplicitPanic
         else bind_res (build_user_apps cargo base step 0 names dir) (\<lambda>dir1.
              bind_res (easy_fs_pack names dir1 s) (\<lambda>(fs, s1). Inr (dir1, fs, s1))))"

section \<open>The layout of the image\<close>

definition image_fs :: efs where
  "image_fs = \<lparr>inode_bitmap = bitmap_new 1 1, data_bitmap = bitmap_new 1026 32,
               inode_area_start_block = 2, data_area_start_block = 1058\<rparr>"

lemma image_layout: "\<exists>sb. efs_layout (64 * 2048) 1 = Inr (image_fs, sb)"
  by (simp add: efs_layout_def u32_add_def u32_sub_def bitmap_maximum_eq bitmap_new_def disk_inode_sz_def
      div_ceil_def Let_def image_fs_def)

lemma image_facts:
  "numbers_fit image_fs" "dir_fits image_fs" "layout_ok image_fs"
  "bitmap_maximum (inode_bitmap image_fs) = 4096" "bitmap_maximum (data_bitmap image_fs) = 131072"
  "root_inode image_fs = Inr (inode_pos image_fs 0)"
  by (simp_all add: numbers_fit_def dir_fits_def layout_ok_def image_fs_def bitmap_new_def bitmap_maximum_eq
      max_blocks_def root_inode_def get_disk_inode_pos_def u32_add_def disk_inode_sz_def vinode_new_def
      inode_pos_def)

section \<open>What packing leaves on the image\<close>

definition blocks_of_file :: "host_dir \<Rightarrow> u8 list \<Rightarrow> nat" where
  "blocks_of_file dir name = total_blocks (of_nat (length (the (dir name))))"

definition dir_blocks :: "nat \<Rightarrow> nat" where
  "dir_blocks n = total_blocks (of_nat (32 * n))"

text \<open>After the programs \<open>ns\<close>: their names in order, their bytes, and the blocks they take.\<close>

definition packed :: "efs \<Rightarrow> host_dir \<Rightarrow> u8 list list \<Rightarrow> store \<Rightarrow> bool" where
  "packed fs dir ns s \<longleftrightarrow>
     fs_consistent fs s \<and> map fst (dir_list (inode_pos fs 0) s) = ns \<and>
     (\<forall>(n, k) \<in> set (dir_list (inode_pos fs 0) s). content (inode_pos fs (unat k)) s = the (dir n)) \<and>
     card (data_used fs s) = dir_blocks (length ns) + sum_list (map (blocks_of_file dir) ns) \<and>
     fsize (the_inode (inode_pos fs 0) s) = of_nat (32 * length ns)"

definition packable :: "host_dir \<Rightarrow> u8 list \<Rightarrow> bool" where
  "packable dir n \<longleftrightarrow> valid_name n \<and>
     (\<exists>d. dir n = Some d \<and> d \<noteq> [] \<and> length d \<le> 512 * max_blocks)"

lemma dir_blocks_mono:
  assumes "a \<le> b" "b \<le> bitmap_maximum (inode_bitmap fs)" "dir_fits fs"
  shows "dir_blocks a \<le> dir_blocks b"
proof -
  have "32 * b < 2 ^ 32" using assms(2,3) by (simp add: dir_fits_def max_blocks_def)
  then have "unat (of_nat (32 * a) :: u32) = 32 * a" "unat (of_nat (32 * b) :: u32) = 32 * b"
    using assms(1) by (intro unat_of_nat_u32; simp)+
  then show ?thesis unfolding dir_blocks_def using assms(1) by (intro total_blocks_mono) (simp only: word_le_nat_alt)
qed

lemma pack_one:
  assumes p: "packed fs dir ns s" and fits: "dir_fits fs" and n: "packable dir n"
    and free: "length ns + 1 < bitmap_maximum (inode_bitmap fs)"
    and room: "dir_blocks (length ns + 1) + sum_list (map (blocks_of_file dir) (ns @ [n])) \<le> bitmap_maximum (data_bitmap fs)"
  shows "\<exists>k s1 s2. vfs_create fs (inode_pos fs 0) n s = Inr (Some (inode_pos fs k), s1) \<and>
    vfs_write_at fs (inode_pos fs k) 0 (the (dir n)) s1 = Inr (length (the (dir n)), s2) \<and> packed fs dir (ns @ [n]) s2"
proof -
  let ?root = "inode_pos fs 0" and ?data = "the (dir n)"
  have c: "fs_consistent fs s" and names: "map fst (dir_list ?root s) = ns"
    and contents: "\<And>m k. (m, k) \<in> set (dir_list ?root s) \<Longrightarrow> content (inode_pos fs (unat k)) s = the (dir m)"
    and card: "card (data_used fs s) = dir_blocks (length ns) + sum_list (map (blocks_of_file dir) ns)"
    and size: "fsize (the_inode ?root s) = of_nat (32 * length ns)"
    using p by (auto simp: packed_def)
  have len: "length (dir_list ?root s) = length ns" using names by (metis length_map)
  note ds = dir_size[OF consistentD(9)[OF c], unfolded len]
  have sz: "length (content ?root s) + 32 = 32 * (length ns + 1)" using ds by simp
  have ne: "inode_used fs s \<noteq> {..<bitmap_maximum (inode_bitmap fs)}"
  proof
    assume "inode_used fs s = {..<bitmap_maximum (inode_bitmap fs)}"
    from arg_cong[OF this, of card] show False using ds(1) free by simp
  qed
  have data: "valid_name n" "?data \<noteq> []" "length ?data \<le> 512 * max_blocks" using n by (auto simp: packable_def)
  have mono: "dir_blocks (length ns) \<le> dir_blocks (length ns + 1)"
    using free fits by (intro dir_blocks_mono[of _ _ fs]) simp_all
  have rm: "card (data_used fs s) + (total_blocks (of_nat (length (content ?root s) + 32)) -
      total_blocks (fsize (the_inode ?root s))) + total_blocks (of_nat (length ?data)) \<le> bitmap_maximum (data_bitmap fs)"
    using room mono unfolding sz size card dir_blocks_def[symmetric] by (simp add: blocks_of_file_def)
  obtain k s1 s2 where r: "vfs_create fs ?root n s = Inr (Some (inode_pos fs k), s1)"
      "vfs_write_at fs (inode_pos fs k) 0 ?data s1 = Inr (length ?data, s2)" "fs_consistent fs s2"
      "k \<notin> inode_used fs s" "dir_list ?root s2 = dir_list ?root s @ [(n, of_nat k)]" "unat (of_nat k :: u32) = k"
      "content (inode_pos fs k) s2 = ?data"
      "\<And>j. j \<in> inode_used fs s \<Longrightarrow> j \<noteq> 0 \<Longrightarrow> content (inode_pos fs j) s2 = content (inode_pos fs j) s"
      "card (data_used fs s2) = card (data_used fs s) + (total_blocks (of_nat (length (content ?root s) + 32)) -
        total_blocks (fsize (the_inode ?root s))) + total_blocks (of_nat (length ?data))"
      "fsize (the_inode ?root s2) = of_nat (length (content ?root s) + 32)"
    using add_file[OF c data(1) fits ne data(2,3) rm] by (elim exE conjE) (rule that; (assumption | simp))
  have "content (inode_pos fs (unat j)) s2 = the (dir m)" if "(m, j) \<in> set (dir_list ?root s2)" for m j
  proof (cases "(m, j) \<in> set (dir_list ?root s)")
    case True
    then have "unat j \<in> inode_used fs s - {0}" using consistentD(7)[OF c] by force
    then show ?thesis using r(8)[of "unat j"] contents[OF True] by simp
  next
    case False
    then have "m = n" "j = of_nat k" using that by (auto simp: r(5))
    then show ?thesis using r(6,7) by simp
  qed
  moreover have "card (data_used fs s2) = dir_blocks (length (ns @ [n])) + sum_list (map (blocks_of_file dir) (ns @ [n]))"
    unfolding r(9) sz size card dir_blocks_def[symmetric] using mono by (simp add: blocks_of_file_def)
  ultimately have "packed fs dir (ns @ [n]) s2"
    using r(3) names unfolding packed_def r(10) sz by (auto simp: r(5))
  then show ?thesis using r(1,2) by blast
qed

lemma pack_cases_ok:
  assumes fits: "dir_fits fs"
  shows "packed fs dir ns s \<Longrightarrow> \<forall>n \<in> set names. packable dir n \<Longrightarrow>
    length (ns @ names) < bitmap_maximum (inode_bitmap fs) \<Longrightarrow>
    dir_blocks (length (ns @ names)) + sum_list (map (blocks_of_file dir) (ns @ names)) \<le> bitmap_maximum (data_bitmap fs) \<Longrightarrow>
    \<exists>s'. pack_cases fs (inode_pos fs 0) dir names s = Inr s' \<and> packed fs dir (ns @ names) s'"
proof (induction names arbitrary: ns s)
  case (Cons n names)
  have "dir_blocks (length ns + 1) \<le> dir_blocks (length (ns @ n # names))"
    using Cons.prems(3) fits by (intro dir_blocks_mono[of _ _ fs]) simp_all
  then have "dir_blocks (length ns + 1) + sum_list (map (blocks_of_file dir) (ns @ [n])) \<le> bitmap_maximum (data_bitmap fs)"
    using Cons.prems(4) by simp
  moreover have "packable dir n" "length ns + 1 < bitmap_maximum (inode_bitmap fs)" using Cons.prems(2,3) by simp_all
  ultimately obtain k s1 s2 where one: "vfs_create fs (inode_pos fs 0) n s = Inr (Some (inode_pos fs k), s1)"
      "vfs_write_at fs (inode_pos fs k) 0 (the (dir n)) s1 = Inr (length (the (dir n)), s2)" "packed fs dir (ns @ [n]) s2"
    using pack_one[OF Cons.prems(1) fits] by blast
  have "dir n = Some (the (dir n))" using \<open>packable dir n\<close> by (auto simp: packable_def)
  then have "pack_cases fs (inode_pos fs 0) dir (n # names) s = pack_cases fs (inode_pos fs 0) dir names s2"
    using one(1,2) by (cases "dir n") (simp_all add: unwrap_def)
  then show ?case using Cons.IH[OF one(3)] Cons.prems(2-4) by simp
qed simp

lemma consistent_lookup:
  assumes c: "fs_consistent fs s" and k: "map_of (dir_list (inode_pos fs 0) s) name = Some k"
  shows "\<exists>h. fs_open (kernel_fs fs) name RDONLY s = Inr (Some h, s) \<and> read_all h s = Inr (content (inode_pos fs (unat k)) s)"
proof -
  let ?vi = "inode_pos fs (unat k)"
  have "unat k \<in> inode_used fs s" using consistent_find(2)[OF c k] by simp
  then have wf: "file_wf fs ?vi s" by (rule consistentD(3)[OF c])
  have "fs_open (kernel_fs fs) name RDONLY s = Inr (Some (file_handle_new True False ?vi), s)"
    using consistent_find(1)[OF c, of name] k
    by (simp add: fs_open_def fs_find_def flags_read_write_def flags_contain_def CREATE_def TRUNC_def RDONLY_def)
  moreover have "read_all (file_handle_new True False ?vi) s = Inr (content ?vi s)"
    using read_all_loop_eq[OF wf, of "replicate block_sz 0" 0 "[]"] by (simp add: read_all_def file_handle_new_def)
  ultimately show ?thesis by blast
qed

lemma consistent_absent:
  assumes c: "fs_consistent fs s" and k: "map_of (dir_list (inode_pos fs 0) s) name = None"
  shows "fs_open (kernel_fs fs) name RDONLY s = Inr (None, s)"
  using consistent_find(1)[OF c, of name] k
  by (simp add: fs_open_def fs_find_def flags_read_write_def flags_contain_def CREATE_def TRUNC_def RDONLY_def)

text \<open>The image, for a host directory that holds every program.\<close>

lemma easy_fs_pack_ok:
  assumes names: "\<forall>n \<in> set names. packable dir n" "length names < 4096"
    and room: "dir_blocks (length names) + sum_list (map (blocks_of_file dir) names) \<le> 130014"
    and s: "held s = {}" "store_ok s"
  shows "\<exists>dev. easy_fs_pack names dir s = Inr (image_fs, dev) \<and> packed image_fs dir names dev"
proof -
  obtain sb where l: "efs_layout (64 * 2048) 1 = Inr (image_fs, sb)" using image_layout by blast
  obtain s1 where s1: "efs_create (64 * 2048) 1 s = Inr (image_fs, s1)" "fs_consistent image_fs s1"
      "inode_used image_fs s1 = {0}" "data_used image_fs s1 = {}" "dir_list (inode_pos image_fs 0) s1 = []"
    using consistent_created[OF l _ _ s image_facts(1)] by auto
  have "length (content (inode_pos image_fs 0) s1) = 0" using dir_size(2)[OF consistentD(9)[OF s1(2)]] by (simp add: s1(3))
  then have "fsize (the_inode (inode_pos image_fs 0) s1) = 0" by (simp add: length_content unat_eq_0)
  moreover have "dir_blocks 0 = 0"
    by (simp add: dir_blocks_def total_blocks_def data_blocks_of_def div_ceil_def layout_consts)
  ultimately have p: "packed image_fs dir [] s1" using s1 by (simp add: packed_def)
  have "length ([] @ names) < bitmap_maximum (inode_bitmap image_fs)" using names(2) by (simp add: image_facts(4))
  moreover have "dir_blocks (length ([] @ names)) + sum_list (map (blocks_of_file dir) ([] @ names)) \<le>
      bitmap_maximum (data_bitmap image_fs)" using room by (simp add: image_facts(5))
  ultimately show ?thesis
    using pack_cases_ok[OF image_facts(2) p names(1)] s1(1) image_facts(6) by (auto simp: easy_fs_pack_def)
qed

text \<open>C8: The image that the build script packs serves every program to the kernel: for program files that are there, not empty
and with names the directory can hold, fewer than 4096 of them and with as many blocks in all as the image has, packing
succeeds; the kernel of chapter 8 opens the file system from the packed device, \<open>readdir\<close> lists the programs in the
order of \<open>cases.toml\<close>, opening a program and reading it all gives back exactly the bytes that were packed, and any
other name is not found.\<close>

theorem packed_programs_load:
  assumes names: "\<forall>n \<in> set names. packable dir n" "length names < 4096"
    and room: "dir_blocks (length names) + sum_list (map (blocks_of_file dir) names) \<le> 130014"
    and s: "held s = {}" "store_ok s"
  shows "\<exists>dev. easy_fs_pack names dir s = Inr (image_fs, dev) \<and> fs_init dev = Inr (kernel_fs image_fs) \<and>
    fs_consistent image_fs dev \<and> fs_readdir (kernel_fs image_fs) dev = Inr (Some names) \<and>
    (\<forall>n. if n \<in> set names
         then \<exists>h. fs_open (kernel_fs image_fs) n RDONLY dev = Inr (Some h, dev) \<and> read_all h dev = Inr (the (dir n))
         else fs_open (kernel_fs image_fs) n RDONLY dev = Inr (None, dev))"
proof -
  obtain dev where dev: "easy_fs_pack names dir s = Inr (image_fs, dev)" "packed image_fs dir names dev"
    using easy_fs_pack_ok[OF assms] by blast
  let ?l = "dir_list (inode_pos image_fs 0) dev"
  have c: "fs_consistent image_fs dev" and l: "map fst ?l = names"
    and contents: "\<And>n k. (n, k) \<in> set ?l \<Longrightarrow> content (inode_pos image_fs (unat k)) dev = the (dir n)"
    using dev(2) by (auto simp: packed_def)
  have "fs_init dev = Inr (kernel_fs image_fs)" by (simp add: fs_init_def consistentD(8)[OF c] image_facts(6))
  moreover have "fs_readdir (kernel_fs image_fs) dev = Inr (Some names)"
    by (simp add: fs_readdir_def vfs_readdir_eq[OF consistentD(1)[OF c]] l)
  moreover have "if n \<in> set names
      then \<exists>h. fs_open (kernel_fs image_fs) n RDONLY dev = Inr (Some h, dev) \<and> read_all h dev = Inr (the (dir n))
      else fs_open (kernel_fs image_fs) n RDONLY dev = Inr (None, dev)" for n
  proof (cases "map_of ?l n")
    case None
    then have "n \<notin> set names" unfolding l[symmetric] by (simp add: map_of_eq_None_iff)
    then show ?thesis using consistent_absent[OF c None] by simp
  next
    case (Some k)
    then have "(n, k) \<in> set ?l" by (rule map_of_SomeD)
    moreover from this have "n \<in> set names" unfolding l[symmetric] by force
    ultimately show ?thesis using consistent_lookup[OF c Some] contents by simp
  qed
  ultimately show ?thesis using dev(1) c by blast
qed

theorem packed_programs_load_witness:
  "\<exists>dev h. easy_fs_pack [[0x61], [0x62]] [[0x61] \<mapsto> [1, 2], [0x62] \<mapsto> replicate 1000 7]
      \<lparr>blocks = \<lambda>_. replicate 512 9, held = {}\<rparr> = Inr (image_fs, dev) \<and>
    fs_open (kernel_fs image_fs) [0x62] RDONLY dev = Inr (Some h, dev) \<and> read_all h dev = Inr (replicate 1000 7) \<and>
    fs_open (kernel_fs image_fs) [0x63] RDONLY dev = Inr (None, dev)"
proof -
  let ?s = "\<lparr>blocks = \<lambda>_. replicate 512 9, held = {}\<rparr> :: store"
  let ?dir = "[[0x61] \<mapsto> [1, 2], [0x62] \<mapsto> replicate 1000 7] :: host_dir"
  have a: "\<forall>n \<in> set [[0x61], [0x62]]. packable ?dir n" by (simp add: packable_def valid_name_def max_blocks_def)
  have len: "length [[0x61 :: u8], [0x62]] < 4096" by simp
  have b: "dir_blocks (length [[0x61 :: u8], [0x62]]) + sum_list (map (blocks_of_file ?dir) [[0x61], [0x62]]) \<le> 130014"
    by (simp add: dir_blocks_def blocks_of_file_def total_blocks_def data_blocks_of_def div_ceil_def layout_consts)
  have s: "held ?s = {}" "store_ok ?s" by (simp_all add: store_ok_def)
  obtain dev where dev: "easy_fs_pack [[0x61], [0x62]] ?dir ?s = Inr (image_fs, dev)"
    and found: "\<And>n. if n \<in> set [[0x61], [0x62]]
         then \<exists>h. fs_open (kernel_fs image_fs) n RDONLY dev = Inr (Some h, dev) \<and> read_all h dev = Inr (the (?dir n))
         else fs_open (kernel_fs image_fs) n RDONLY dev = Inr (None, dev)"
    using packed_programs_load[OF a len b s] by (elim exE conjE) (rule that, assumption, erule spec)
  show ?thesis using dev found[of "[0x62]"] found[of "[0x63]"] by auto
qed

end
