(* ===== verification/Boot_Image.thy ===== *)
theory Boot_Image
  imports Boot Image_Pack
begin

text \<open>
  From the packed image to the scheduling loop: \<open>rust_main\<close> of the kernel (theory \<open>Boot\<close>) on a
  machine whose disk is the image of the build script (theory \<open>Image_Pack\<close>).
\<close>

lemma packed_finds_init:
  assumes names: "\<forall>n \<in> set names. packable dir n" "length names < 4096"
    and room: "dir_blocks (length names) + sum_list (map (blocks_of_file dir) names) \<le> 130014"
    and s: "held s = {}" "store_ok s"
    and pack: "easy_fs_pack names dir s = Inr (image_fs, dev)" and n: "n \<in> set names"
  shows "fs_init dev = Inr (kernel_fs image_fs)"
    "\<exists>h. fs_open (kernel_fs image_fs) n RDONLY dev = Inr (Some h, dev) \<and> read_all h dev = Inr (the (dir n))"
proof -
  have p: "packed image_fs dir names dev" using easy_fs_pack_ok[OF names room s] pack by auto
  let ?l = "dir_list (inode_pos image_fs 0) dev"
  have c: "fs_consistent image_fs dev" and l: "map fst ?l = names"
    and contents: "\<And>n k. (n, k) \<in> set ?l \<Longrightarrow> content (inode_pos image_fs (unat k)) dev = the (dir n)"
    using p by (auto simp: packed_def)
  show "fs_init dev = Inr (kernel_fs image_fs)" by (simp add: fs_init_def consistentD(8)[OF c] image_facts(6))
  obtain k where k: "map_of ?l n = Some k"
    using n unfolding l[symmetric] by (cases "map_of ?l n") (auto simp: map_of_eq_None_iff)
  then show "\<exists>h. fs_open (kernel_fs image_fs) n RDONLY dev = Inr (Some h, dev) \<and> read_all h dev = Inr (the (dir n))"
    using consistent_lookup[OF c k] contents[OF map_of_SomeD[OF k]] by simp
qed

lemma first_process_added:
  "\<exists>pr1 pr. pt_add_proc i p (ProcId usize_max) (pt_set_manager task_manager_new (pt_set_proc_manager proc_table_new pt_new)) =
      Inr pr1 \<and> pt_add t th i pr1 = Inr pr \<and> map_option procs (proc_manager pr) = Some [i \<mapsto> p] \<and>
    map_option tasks (manager pr) = Some [t \<mapsto> th] \<and> map_option ready_queue (manager pr) = Some [t]"
  by (simp add: pt_add_proc_def pt_add_def pt_set_manager_def pt_set_proc_manager_def pt_new_def unwrap_def
      insert_proc_def insert_task_def proc_table_new_def task_manager_new_def add_ready_def Let_def split: option.split)

lemma load_init_runs:
  assumes k: "booting k"
    and found: "fs_open (file_sys k) init_name RDONLY (disk k) = Inr (Some h, disk k)" "read_all h (disk k) = Inr bs"
    and elf: "parse_elf pf bs = Some elf" "from_elf pf elf (counters k) (memory k) = Inr (Some (p, th), c, m)"
  shows "\<exists>k'. load_init pf k = Inr ((), k') \<and> disk k' = disk k \<and> file_sys k' = file_sys k \<and>
    processes k' = [pid p \<mapsto> p] \<and> all_threads k' = [tid th \<mapsto> th] \<and>
    map_option ready_queue (manager (processor k')) = Some [tid th]"
proof -
  obtain pr1 pr where pr: "pt_add_proc (pid p) p (ProcId usize_max)
        (pt_set_manager task_manager_new (pt_set_proc_manager proc_table_new (processor k))) = Inr pr1"
      "pt_add (tid th) th (pid p) pr1 = Inr pr" "map_option procs (proc_manager pr) = Some [pid p \<mapsto> p]"
      "map_option tasks (manager pr) = Some [tid th \<mapsto> th]" "map_option ready_queue (manager pr) = Some [tid th]"
    using first_process_added k by (fastforce simp: booting_def)
  then have "processes (k\<lparr>counters := c, memory := m, processor := pr\<rparr>) = [pid p \<mapsto> p]"
    "all_threads (k\<lparr>counters := c, memory := m, processor := pr\<rparr>) = [tid th \<mapsto> th]"
    by (auto simp: processes_def all_threads_def)
  then show ?thesis
    using found elf pr
    by (intro exI[of _ "k\<lparr>counters := c, memory := m, processor := pr\<rparr>"])
      (simp add: load_init_def file_open_def k_bind_def k_lift_def k_read_def k_ret_def update_processor_def
        on_processor_def unwrap_def)
qed

section \<open>A machine on which it comes up\<close>

text \<open>The sample platform with a parser that takes any file for a program without segments.\<close>

definition boot_platform :: "(nat \<times> pte) list platform" where
  "boot_platform = sample_platform\<lparr>parse_elf := (\<lambda>bs. Some \<lparr>elf_executable = True, elf_entry = 0x10000,
     elf_segments = [], elf_input = bs\<rparr>)\<rparr>"

text \<open>All mapped pages lie in one of the ranges.\<close>

definition within :: "(nat \<times> nat) list \<Rightarrow> (nat \<times> pte) list \<Rightarrow> bool" where
  "within rs pt \<longleftrightarrow> (\<forall>u. (\<forall>(v, w) \<in> set rs. u < v \<or> w \<le> u) \<longrightarrow> map_of pt u = None)"

lemma boot_sel:
  "addr_floor boot_platform a = unat a div 4096" "addr_ceil boot_platform a = (unat a + 4095) div 4096"
  "empty_table boot_platform = []" "make_tables boot_platform pt v = Some pt" "put_entry boot_platform pt v e = (v, e) # pt"
  "page_alloc boot_platform q n = (if n \<le> 16 then Some (100 + 16 * q) else None)" "share_portal boot_platform pt = pt"
  "map_of pt u = None \<Longrightarrow> visit boot_platform pt u = None"
  by (simp_all add: boot_platform_def sample_platform_def visit_def pte_valid_def)

lemma boot_map_pages:
  "(\<And>u. v \<le> u \<Longrightarrow> u < v + n \<Longrightarrow> map_of pt u = None) \<Longrightarrow>
     \<exists>pt'. map_pages n boot_platform v p f pt = Inr pt' \<and> (\<forall>u. u < v \<or> v + n \<le> u \<longrightarrow> map_of pt' u = map_of pt u)"
proof (induction n arbitrary: v p pt)
  case (Suc n)
  let ?e = "\<lparr>pte_ppn = p, pte_flags = f\<rparr>"
  have "map_of pt v = None" using Suc.prems by simp
  then have one: "map_page boot_platform v p f pt = Inr ((v, ?e) # pt)" by (simp add: map_page_def boot_sel assert_res_def)
  have "map_of ((v, ?e) # pt) u = None" if "v + 1 \<le> u" "u < v + 1 + n" for u using Suc.prems[of u] that by simp
  from Suc.IH[of "v + 1" _ "p + 1", OF this] obtain pt' where pt': "map_pages n boot_platform (v + 1) (p + 1) f ((v, ?e) # pt) = Inr pt'"
      "\<And>u. u < v + 1 \<or> v + 1 + n \<le> u \<Longrightarrow> map_of pt' u = map_of ((v, ?e) # pt) u" by blast
  have "map_of pt' u = map_of pt u" if "u < v \<or> v + Suc n \<le> u" for u using pt'(2)[of u] that by auto
  then show ?case using one pt'(1) by auto
qed simp

lemma boot_map_extern:
  assumes old: "within rs (page_table as)" and new: "v < w" "\<forall>(a, b) \<in> set rs. w \<le> a \<or> b \<le> v"
  shows "\<exists>as'. map_extern boot_platform (v, w) p f as = Inr as' \<and> within ((v, w) # rs) (page_table as')"
proof -
  have "map_of (page_table as) u = None" if "v \<le> u" "u < v + (w - v)" for u
  proof -
    have "u < a \<or> b \<le> u" if "(a, b) \<in> set rs" for a b
      using bspec[OF new(2) that] \<open>v \<le> u\<close> \<open>u < v + (w - v)\<close> new(1) by auto
    then have "\<forall>(a, b) \<in> set rs. u < a \<or> b \<le> u" by blast
    then show ?thesis using old unfolding within_def by blast
  qed
  from boot_map_pages[OF this] obtain pt' where "map_pages (w - v) boot_platform v p f (page_table as) = Inr pt'"
      "\<And>u. u < v \<or> w \<le> u \<Longrightarrow> map_of pt' u = map_of (page_table as) u"
    using new(1) by fastforce
  then show ?thesis using new(1) old by (auto simp: map_extern_def within_def)
qed

lemma boot_kernel_space:
  "\<exists>as m'. kernel_space boot_platform (2 ^ 27 - 1) sample_layout memory_size 0x80204000 m = Inr (as, m') \<and> requests m' = requests m + 1"
proof -
  obtain as0 m' where new: "space_new boot_platform m = Inr (as0, m')" "requests m' = requests m + 1" "page_table as0 = []"
    by (simp add: space_new_def alloc_pages_def boot_sel mem_zero_def)
  have w0: "within [] (page_table as0)" by (simp add: new(3) within_def)
  obtain as1 where s1: "map_extern boot_platform (0x80200, 0x80201) 0x80200 (vm_flags boot_platform ''X_RV'') as0 = Inr as1"
      and w1: "within [(0x80200, 0x80201)] (page_table as1)"
    using boot_map_extern[OF w0, of "0x80200" "0x80201"] by auto
  obtain as2 where s2: "map_extern boot_platform (0x80201, 0x80202) 0x80201 (vm_flags boot_platform ''__RV'') as1 = Inr as2"
      and w2: "within [(0x80201, 0x80202), (0x80200, 0x80201)] (page_table as2)"
    using boot_map_extern[OF w1, of "0x80201" "0x80202"] by auto
  obtain as3 where s3: "map_extern boot_platform (0x80202, 0x80203) 0x80202 (vm_flags boot_platform ''_WRV'') as2 = Inr as3"
      and w3: "within [(0x80202, 0x80203), (0x80201, 0x80202), (0x80200, 0x80201)] (page_table as3)"
    using boot_map_extern[OF w2, of "0x80202" "0x80203"] by auto
  obtain as4 where s4: "map_extern boot_platform (0x80203, 0x80204) 0x80203 (vm_flags boot_platform ''_WRV'') as3 = Inr as4"
      and w4: "within [(0x80203, 0x80204), (0x80202, 0x80203), (0x80201, 0x80202), (0x80200, 0x80201)] (page_table as4)"
    using boot_map_extern[OF w3, of "0x80203" "0x80204"] by auto
  obtain as5 where s5: "map_extern boot_platform (0x80204, 0x83200) 0x80204 (vm_flags boot_platform ''_WRV'') as4 = Inr as5"
      and w5: "within [(0x80204, 0x83200), (0x80203, 0x80204), (0x80202, 0x80203), (0x80201, 0x80202), (0x80200, 0x80201)]
        (page_table as5)"
    using boot_map_extern[OF w4, of "0x80204" "0x83200"] by auto
  obtain as6 where s6: "map_extern boot_platform (0x7FFFFFF, 0x8000000) 0x80204 (vm_flags boot_platform ''__G_XWRV'') as5 = Inr as6"
      and w6: "within [(0x7FFFFFF, 0x8000000), (0x80204, 0x83200), (0x80203, 0x80204), (0x80202, 0x80203), (0x80201, 0x80202),
        (0x80200, 0x80201)] (page_table as6)"
    using boot_map_extern[OF w5, of "0x7FFFFFF" "0x8000000"] by auto
  obtain as7 where s7: "map_extern boot_platform (0x10001, 0x10002) 0x10001 (vm_flags boot_platform ''_WRV'') as6 = Inr as7"
    using boot_map_extern[OF w6, of "0x10001" "0x10002"] by auto
  show ?thesis
    using new s1 s2 s3 s4 s5 s6 s7
    by (simp add: kernel_space_def kernel_regions_eq sample_layout_def map_identically_def boot_sel memory_size_def
        plus_usize_def layout_start_def layout_end_def mmio_def region_flags_def)
qed

lemma requests_zero_bss: "requests (zero_bss l m) = requests m"
proof -
  have "requests (zero_from ptr e m) = requests m" for ptr e
    by (induction ptr e m rule: zero_from.induct) (subst zero_from.simps, simp add: mem_write_def)
  then show ?thesis by (simp add: zero_bss_def)
qed

text \<open>C9: The machine that the build produces comes up: on a machine at reset whose disk is the image packed from the programs,
with the file system mounted from it, when the first program of the kernel is among them and is an ELF file it can
load and there is memory for the address spaces, \<open>rust_main\<close> reaches the scheduling loop; the disk is as it was, the
only process and the only thread are those of that program, the thread is ready to run, and every state the loop
goes on to reach is consistent.\<close>

theorem packed_image_boots:
  assumes names: "\<forall>n \<in> set names. packable dir n" "length names < 4096" "init_name \<in> set names"
    and room: "dir_blocks (length names) + sum_list (map (blocks_of_file dir) names) \<le> 130014"
    and s: "held s = {}" "store_ok s" and pack: "easy_fs_pack names dir s = Inr (image_fs, disk k)"
    and k: "booting k" "fs_init (disk k) = Inr (file_sys k)"
    and size: "heap_range l = Inr r" "calculate_size halves 1 = Inr sz" "sz < 4096"
    and space: "kernel_space pf v l memory_size portal (zero_bss l (memory k)) = Inr (space, m1)"
    and elf: "parse_elf pf (the (dir init_name)) = Some elf" "from_elf pf elf (counters k) m1 = Inr (Some (p, th), c, m2)"
  shows "\<exists>k1. rust_main_start pf v halves l portal k = Inr (space, k1) \<and> disk k1 = disk k \<and>
    processes k1 = [pid p \<mapsto> p] \<and> all_threads k1 = [tid th \<mapsto> th] \<and>
    map_option ready_queue (manager (processor k1)) = Some [tid th] \<and> {k2. reaches pf k1 k2} \<subseteq> Collect kernel_ok"
proof -
  note found = packed_finds_init[OF names(1,2) room s pack names(3)]
  have fs: "file_sys k = kernel_fs image_fs" using found(1) k(2) by simp
  let ?k = "k\<lparr>memory := m1\<rparr>"
  have b: "booting ?k" using k(1) by (simp add: booting_def)
  obtain h where h: "fs_open (file_sys ?k) init_name RDONLY (disk ?k) = Inr (Some h, disk ?k)"
      "read_all h (disk ?k) = Inr (the (dir init_name))"
    using found(2) fs by auto
  have made: "from_elf pf elf (counters ?k) (memory ?k) = Inr (Some (p, th), c, m2)" using elf(2) by simp
  obtain k1 where k1: "load_init pf ?k = Inr ((), k1)" "disk k1 = disk k" "processes k1 = [pid p \<mapsto> p]"
      "all_threads k1 = [tid th \<mapsto> th]" "map_option ready_queue (manager (processor k1)) = Some [tid th]"
    using load_init_runs[OF b h elf(1) made] by auto
  have run: "rust_main_start pf v halves l portal k = Inr (space, k1)"
    using size space k1(1) by (simp add: rust_main_start_def Let_def assert_res_def)
  have "kernel_ok k1" by (rule tripleD[OF rust_main_start_ok k(1) run])
  then have "{k2. reaches pf k1 k2} \<subseteq> Collect kernel_ok" using reaches_ok by blast
  then show ?thesis using run k1(2-5) by blast
qed

lemma boot_from_elf:
  assumes "requests m = 1"
  shows "\<exists>p th c m'. from_elf boot_platform \<lparr>elf_executable = True, elf_entry = e, elf_segments = [], elf_input = bs\<rparr> c0 m =
    Inr (Some (p, th), c, m')"
proof -
  have w: "within [] []" by (simp add: within_def)
  obtain as where "map_extern boot_platform (0x3FFFFFE, 0x4000000) 132 (vm_flags boot_platform ''U_WRV'')
      \<lparr>areas = [], page_table = [], root_ppn = 116\<rparr> = Inr as"
    using boot_map_extern[of "[]" "\<lparr>areas = [], page_table = [], root_ppn = 116\<rparr>" "0x3FFFFFE" "0x4000000" 132] w by auto
  then show ?thesis
    using assms
    by (auto simp: from_elf_def space_new_def alloc_pages_def boot_sel mem_zero_def user_stack_top_def ctx_set_sp_def
        ctx_set_x_def ctx_user_def update_res_def Let_def split: prod.splits)
qed

theorem packed_image_boots_witness:
  "\<exists>dev (k :: (nat \<times> pte) list kernel) space k1.
     easy_fs_pack [init_name] [init_name \<mapsto> [1, 2]] \<lparr>blocks = \<lambda>_. replicate 512 0, held = {}\<rparr> = Inr (image_fs, dev) \<and>
     disk k = dev \<and> rust_main_start boot_platform (2 ^ 27 - 1) 300 sample_layout 0x80204000 k = Inr (space, k1) \<and>
     kernel_ok k1 \<and> card (dom (processes k1)) = 1"
proof -
  let ?s = "\<lparr>blocks = \<lambda>_. replicate 512 0, held = {}\<rparr> :: store"
  let ?dir = "[init_name \<mapsto> [1, 2]] :: host_dir"
  have a: "\<forall>n \<in> set [init_name]. packable ?dir n" by (simp add: packable_def valid_name_def max_blocks_def init_name_def)
  have len: "length [init_name] < 4096" by simp
  have b: "dir_blocks (length [init_name]) + sum_list (map (blocks_of_file ?dir) [init_name]) \<le> 130014"
    by (simp add: dir_blocks_def blocks_of_file_def total_blocks_def data_blocks_of_def div_ceil_def layout_consts)
  have s: "held ?s = {}" "store_ok ?s" by (simp_all add: store_ok_def)
  obtain dev where dev: "easy_fs_pack [init_name] ?dir ?s = Inr (image_fs, dev)"
    using easy_fs_pack_ok[OF a len b s] by blast
  have fs: "fs_init dev = Inr (kernel_fs image_fs)" using packed_finds_init(1)[OF a len b s dev] by simp
  let ?k = "\<lparr>processor = pt_new, counters = id_counters_init, hart_state = intr_masking_new True, memory = \<lparr>phys = \<lambda>_. 0, requests = 0\<rparr>,
    pipes = [], disk = dev, file_sys = kernel_fs image_fs, console_out = [], console_in = [], cycles = 0\<rparr>
      :: (nat \<times> pte) list kernel"
  have k: "booting ?k" "fs_init (disk ?k) = Inr (file_sys ?k)" "easy_fs_pack [init_name] ?dir ?s = Inr (image_fs, disk ?k)"
    using fs dev by (simp_all add: booting_def hart_idle_def hart_ok_def intr_masking_new_def)
  obtain as m1 where sp: "kernel_space boot_platform (2 ^ 27 - 1) sample_layout memory_size 0x80204000
      (zero_bss sample_layout (memory ?k)) = Inr (as, m1)" "requests m1 = 1"
    using boot_kernel_space[of "zero_bss sample_layout (memory ?k)"] by (auto simp: requests_zero_bss)
  let ?elf = "\<lparr>elf_executable = True, elf_entry = 0x10000, elf_segments = [], elf_input = [1, 2]\<rparr>"
  obtain p th c m' where elf: "from_elf boot_platform ?elf (counters ?k) m1 = Inr (Some (p, th), c, m')"
    using boot_from_elf[OF sp(2)] by blast
  have parse: "parse_elf boot_platform (the (?dir init_name)) = Some ?elf" by (simp add: boot_platform_def)
  have h: "heap_range sample_layout = Inr (0x80204000, memory_size - 0x4000)"
    by (simp add: heap_range_def layout_len_def minus_usize_def sample_layout_def layout_end_def memory_size_def)
  have z: "calculate_size 300 1 = Inr 672"
    by (simp add: calculate_size_def aligned_size_def times_usize_def plus_usize_def)
  have mem: "init_name \<in> set [init_name]" by simp
  have lt: "(672 :: usize) < 4096" by simp
  obtain k1 where k1: "rust_main_start boot_platform (2 ^ 27 - 1) 300 sample_layout 0x80204000 ?k = Inr (as, k1)"
      "processes k1 = [pid p \<mapsto> p]" "{k2. reaches boot_platform k1 k2} \<subseteq> Collect kernel_ok"
    using packed_image_boots[OF a len mem b s k(3,1,2) h z lt sp(1) parse elf] by blast
  have "kernel_ok k1" using k1(3) reaches_start[of boot_platform k1] by blast
  then show ?thesis using dev k1(1,2) by (intro exI[of _ dev] exI[of _ ?k] exI[of _ as] exI[of _ k1]) simp
qed

end
