(* ===== verification/Image_File.thy ===== *)
theory Image_File
  imports Block_Cache
begin

text \<open>
  Block devices (\<open>tg-rcore-tutorial-easy-fs/src/block_dev.rs\<close>): the locale \<open>block_device\<close> states what the cache
  relies on, and shows that a device that keeps it behaves as the function from block numbers to
  blocks that theory \<open>Block_Cache\<close> writes through to. The image file of the build script
  (\<open>BlockFile\<close> of \<open>tg-rcore-tutorial-ch8/build.rs\<close>) provides it, for the blocks it has.
\<close>

section \<open>The contract\<close>

locale block_device =
  fixes rd :: "nat \<Rightarrow> 'd \<Rightarrow> block res" and wr :: "nat \<Rightarrow> block \<Rightarrow> 'd \<Rightarrow> 'd res"
    and ok :: "'d \<Rightarrow> bool" and block_count :: nat
  assumes read_ok: "ok d \<Longrightarrow> i < block_count \<Longrightarrow> \<exists>b. rd i d = Inr b \<and> length b = block_sz"
    and write_ok: "ok d \<Longrightarrow> i < block_count \<Longrightarrow> length b = block_sz \<Longrightarrow>
      \<exists>d'. wr i b d = Inr d' \<and> ok d' \<and> (\<forall>j < block_count. rd j d' = (if j = i then Inr b else rd j d))"
begin

primrec write_all :: "(nat \<times> block) list \<Rightarrow> 'd \<Rightarrow> 'd res" where
  "write_all [] d = Inr d"
| "write_all (w # ws) d = bind_res (wr (fst w) (snd w) d) (write_all ws)"

text \<open>The device \<open>D\<close> of theory \<open>Block_Cache\<close> that \<open>d\<close> stands for.\<close>

definition stands_for :: "'d \<Rightarrow> device \<Rightarrow> bool" where
  "stands_for d D \<longleftrightarrow> ok d \<and> (\<forall>i < block_count. rd i d = Inr (D i))"

lemma write_stands:
  assumes "stands_for d D" "i < block_count" "length b = block_sz"
  shows "\<exists>d'. wr i b d = Inr d' \<and> stands_for d' (D(i := b))"
  using assms write_ok[of d i b] by (auto simp: stands_for_def)

lemma write_all_stands:
  "stands_for d D \<Longrightarrow> \<forall>(i, b) \<in> set ws. i < block_count \<and> length b = block_sz \<Longrightarrow>
     \<exists>d'. write_all ws d = Inr d' \<and> stands_for d' (fold (\<lambda>(i, b) D. D(i := b)) ws D)"
proof (induction ws arbitrary: d D)
  case (Cons w ws)
  obtain i b where w: "w = (i, b)" by (cases w)
  have "i < block_count" "length b = block_sz" using Cons.prems(2) w by simp_all
  from write_stands[OF Cons.prems(1) this] obtain d1 where d1: "wr i b d = Inr d1" "stands_for d1 (D(i := b))" by blast
  show ?case using Cons.IH[OF d1(2)] Cons.prems(2) d1(1) w by auto
qed simp

end

section \<open>The image file\<close>

text \<open>\<open>BlockFile\<close>: seeking and one \<open>read\<close> or \<open>write\<close>; a read past the end is short, a write
past the end fills the gap with zeros.\<close>

definition block_file_read :: "nat \<Rightarrow> u8 list \<Rightarrow> block res" where
  "block_file_read i file =
     (let got = slice (i * block_sz) (min block_sz (length file - i * block_sz)) file in
      bind_res (assert_res (length got = block_sz)) (\<lambda>_. Inr got))"

definition block_file_write :: "nat \<Rightarrow> block \<Rightarrow> u8 list \<Rightarrow> u8 list res" where
  "block_file_write i buf file =
     (let file1 = file @ replicate (i * block_sz + length buf - length file) 0 in
      bind_res (assert_res (length buf = block_sz)) (\<lambda>_. Inr (overwrite (i * block_sz) buf file1)))"

text \<open>\<open>set_len\<close> on the opened file.\<close>

definition set_len :: "nat \<Rightarrow> u8 list \<Rightarrow> u8 list" where
  "set_len n file = take n file @ replicate (n - length file) 0"

lemma length_set_len [simp]: "length (set_len n file) = n"
  by (simp add: set_len_def)

lemma block_file_read_eq:
  "i * block_sz + block_sz \<le> length file \<Longrightarrow> block_file_read i file = Inr (slice (i * block_sz) block_sz file)"
  by (simp add: block_file_read_def Let_def assert_res_def min_def)

lemma block_file_read_past:
  "length file < i * block_sz + block_sz \<Longrightarrow> block_file_read i file = Inl AssertFailed"
  by (auto simp: block_file_read_def Let_def assert_res_def slice_def)

interpretation image_file: block_device block_file_read block_file_write "\<lambda>file. length file = n * block_sz" n for n
proof (unfold_locales, goal_cases)
  case (1 d i)
  then have "i * block_sz + block_sz \<le> length d" by (simp add: mult.commute[of _ block_sz])
  then show ?case by (simp add: block_file_read_eq)
next
  case (2 d i b)
  then have fit: "j * block_sz + block_sz \<le> length d" if "j < n" for j using that by (simp add: mult.commute[of _ block_sz])
  let ?d = "overwrite (i * block_sz) b d"
  have len: "length ?d = length d" using fit[OF 2(2)] 2(3) by simp
  have w: "block_file_write i b d = Inr ?d"
    using fit[OF 2(2)] 2(3) by (simp add: block_file_write_def assert_res_def)
  have "block_file_read j ?d = (if j = i then Inr b else block_file_read j d)" if "j < n" for j
  proof -
    have f: "j * block_sz + block_sz \<le> length ?d" using fit[OF that] len by simp
    have "slice (j * block_sz) block_sz ?d = (if j = i then b else slice (j * block_sz) block_sz d)"
    proof (cases "j = i")
      case True
      then show ?thesis using slice_overwrite_same[of "i * block_sz" b d] fit[OF 2(2)] 2(3) by simp
    next
      case False
      then have "j * block_sz + block_sz \<le> i * block_sz \<or> i * block_sz + block_sz \<le> j * block_sz" by (auto simp: nat_neq_iff)
      then show ?thesis
        using False fit[OF that] fit[OF 2(2)] 2(3)
        by (intro nth_equalityI) (auto simp: slice_def nth_overwrite)
    qed
    then show ?thesis using f fit[OF that] by (simp add: block_file_read_eq)
  qed
  then show ?case using w len 2(1) by auto
qed

text \<open>Writing back the whole cache, as \<open>block_cache_sync_all\<close> does, on the image file.\<close>

lemma sync_writes:
  "fold (\<lambda>(k, c) dev. snd (cache_sync (cell c) dev)) q D =
     fold (\<lambda>(i, b) D. D(i := b)) (map (\<lambda>(k, c). (block_id (cell c), cache (cell c))) (filter (\<lambda>(k, c). modified (cell c)) q)) D"
  by (induction q arbitrary: D) (auto simp: cache_sync_def)

definition dirty_blocks :: "cache_manager \<Rightarrow> (nat \<times> block) list" where
  "dirty_blocks m =
     map (\<lambda>(k, c). (block_id (cell c), cache (cell c))) (filter (\<lambda>(k, c). modified (cell c)) (queue m))"

lemma sync_all_on_image_file:
  assumes ok: "cm_ok m" and sync: "block_cache_sync_all m = Inr m'" and dev: "image_file.stands_for n file (device m)"
    and ids: "\<forall>k \<in> fst ` set (queue m). k < n"
  shows "\<exists>file'. image_file.write_all (dirty_blocks m) file = Inr file' \<and> image_file.stands_for n file' (device m')"
proof -
  have "i < n \<and> length b = block_sz" if w: "(i, b) \<in> set (dirty_blocks m)" for i b
  proof -
    obtain k c where kc: "(k, c) \<in> set (queue m)" "i = block_id (cell c)" "b = cache (cell c)"
      using w by (auto simp: dirty_blocks_def)
    then have "cell_ok (device m) k c" using ok by (auto simp: cm_ok_def lookup_def)
    then show ?thesis using kc ids by (force simp: cell_ok_def)
  qed
  then have "\<forall>(i, b) \<in> set (dirty_blocks m). i < n \<and> length b = block_sz" by blast
  from image_file.write_all_stands[OF dev this] show ?thesis
    using sync by (auto simp: block_cache_sync_all_def sync_writes dirty_blocks_def split: if_splits)
qed

end
