(* ===== verification/Virtio.thy ===== *)
theory Virtio
  imports Boot Image_File
begin

text \<open>
  \<open>tg-rcore-tutorial-ch8/src/virtio_block.rs\<close>: the block device of the kernel. The driver of the
  \<open>virtio-drivers\<close> crate is a parameter (a read and a write that may fail); the kernel wraps it,
  and serves it with memory and with addresses.
\<close>

definition virtio_read_block :: "(nat \<Rightarrow> 'd \<Rightarrow> block option) \<Rightarrow> nat \<Rightarrow> 'd \<Rightarrow> block res" where
  "virtio_read_block rd i d = (case rd i d of None \<Rightarrow> Inl UnwrapErr | Some b \<Rightarrow> Inr b)"

definition virtio_write_block :: "(nat \<Rightarrow> block \<Rightarrow> 'd \<Rightarrow> 'd option) \<Rightarrow> nat \<Rightarrow> block \<Rightarrow> 'd \<Rightarrow> 'd res" where
  "virtio_write_block wr i b d = (case wr i b d of None \<Rightarrow> Inl UnwrapErr | Some d' \<Rightarrow> Inr d')"

text \<open>The size and the alignment of the block asked from the heap; \<open>heap_alloc\<close> and \<open>heap_dealloc\<close> are the allocator.\<close>

definition dma_layout :: "usize \<Rightarrow> usize \<times> usize" where
  "dma_layout pages = (push_bit 12 pages, push_bit 12 1)"

definition dma_alloc :: "(usize \<times> usize \<Rightarrow> 'h \<Rightarrow> usize \<times> 'h) \<Rightarrow> usize \<Rightarrow> 'h \<Rightarrow> usize \<times> 'h" where
  "dma_alloc heap_alloc pages h = heap_alloc (dma_layout pages) h"

definition dma_dealloc :: "(usize \<Rightarrow> usize \<times> usize \<Rightarrow> 'h \<Rightarrow> 'h) \<Rightarrow> usize \<Rightarrow> usize \<Rightarrow> 'h \<Rightarrow> i32 \<times> 'h" where
  "dma_dealloc heap_dealloc paddr pages h = (0, heap_dealloc paddr (dma_layout pages) h)"

definition phys_to_virt :: "usize \<Rightarrow> usize" where
  "phys_to_virt paddr = paddr"

definition virt_to_phys :: "'pt platform \<Rightarrow> 'pt address_space \<Rightarrow> usize \<Rightarrow> usize res" where
  "virt_to_phys pf kspace vaddr =
     bind_res (unwrap (translate pf kspace vaddr (vm_flags pf ''__V''))) (\<lambda>p. Inr (of_nat p))"

text \<open>What the driver documents: reads and writes of the blocks of the disk succeed, and a read gives what was last written.\<close>

definition driver_laws ::
  "(nat \<Rightarrow> 'd \<Rightarrow> block option) \<Rightarrow> (nat \<Rightarrow> block \<Rightarrow> 'd \<Rightarrow> 'd option) \<Rightarrow> ('d \<Rightarrow> bool) \<Rightarrow> nat \<Rightarrow> bool" where
  "driver_laws rd wr ok n \<longleftrightarrow>
     (\<forall>d i. ok d \<and> i < n \<longrightarrow> (\<exists>b. rd i d = Some b \<and> length b = block_sz)) \<and>
     (\<forall>d i b. ok d \<and> i < n \<and> length b = block_sz \<longrightarrow>
        (\<exists>d'. wr i b d = Some d' \<and> ok d' \<and> (\<forall>j < n. rd j d' = (if j = i then Some b else rd j d))))"

lemma virtio_is_a_block_device:
  assumes "driver_laws rd wr ok n"
  shows "block_device (virtio_read_block rd) (virtio_write_block wr) ok n"
proof
  fix d i assume "ok d" "i < n"
  then show "\<exists>b. virtio_read_block rd i d = Inr b \<and> length b = block_sz"
    using assms by (fastforce simp: driver_laws_def virtio_read_block_def)
next
  fix d i and b :: block assume a: "ok d" "i < n" "length b = block_sz"
  then obtain d' where "wr i b d = Some d'" "ok d'" "\<And>j. j < n \<Longrightarrow> rd j d' = (if j = i then Some b else rd j d)"
    using assms unfolding driver_laws_def by blast
  then show "\<exists>d'. virtio_write_block wr i b d = Inr d' \<and> ok d' \<and>
      (\<forall>j < n. virtio_read_block rd j d' = (if j = i then Inr b else virtio_read_block rd j d))"
    by (auto simp: virtio_read_block_def virtio_write_block_def)
qed

text \<open>On the heap, where the driver's rings and buffers are, and on the device's registers the addresses the driver
hands to the device are those it uses itself.\<close>

lemma virt_to_phys_identity:
  assumes "table_laws pf" "address_laws pf" "kernel_flags_valid pf" "kernel_space pf v l n portal m = Inr (as, m')"
    and sub: "flags_include (vm_flags pf ''_WRV'') (vm_flags pf ''__V'')"
    and a: "layout_end l \<le> a \<and> a < layout_start l + n \<or> 0x10001000 \<le> a \<and> a < 0x10002000"
  shows "virt_to_phys pf as a = Inr a" "phys_to_virt a = a"
proof -
  note V = kernel_space_visit[OF assms(1-4)] and T = identical_translate[OF assms(2)]
  have "translate pf as a (vm_flags pf ''__V'') = Some (unat a)"
    using a sub T[OF V(2), of a "vm_flags pf ''__V''"] T[OF V(3), of a "vm_flags pf ''__V''"] by auto
  then show "virt_to_phys pf as a = Inr a" by (simp add: virt_to_phys_def unwrap_def)
  show "phys_to_virt a = a" by (simp add: phys_to_virt_def)
qed

end
