(* ===== verification/Kernel_Heap.thy ===== *)
theory Kernel_Heap
  imports Boot
begin

text \<open>
  \<open>tg-rcore-tutorial-kernel-alloc/src/lib.rs\<close>: the global allocator of the kernel, a static cell around the
  allocator of the crate \<open>customizable-buddy\<close>, which is a parameter: the record \<open>buddy\<close> of its operations on its
  own state. A request that the allocator cannot serve ends in \<open>handle_alloc_error\<close>.
\<close>

text \<open>A size and an alignment.\<close>

type_synonym heap_layout = "usize \<times> usize"

record 'b buddy =
  buddy_init :: "nat \<Rightarrow> usize \<Rightarrow> 'b \<Rightarrow> 'b"
  buddy_transfer :: "usize \<Rightarrow> usize \<Rightarrow> 'b \<Rightarrow> 'b"
  buddy_allocate :: "heap_layout \<Rightarrow> 'b \<Rightarrow> (usize \<times> 'b) option"
  buddy_deallocate :: "usize \<Rightarrow> heap_layout \<Rightarrow> 'b \<Rightarrow> 'b"

definition non_null :: "usize \<Rightarrow> usize res" where
  "non_null p = (if p = 0 then Inl UnwrapNone else Inr p)"

text \<open>The smallest order is the number of trailing zeros of the size of a \<open>usize\<close>.\<close>

definition heap_init :: "'b buddy \<Rightarrow> usize \<Rightarrow> 'b \<Rightarrow> 'b res" where
  "heap_init bd base_address h = bind_res (non_null base_address) (\<lambda>p. Inr (buddy_init bd 3 p h))"

definition heap_transfer :: "'b buddy \<Rightarrow> usize \<Rightarrow> usize \<Rightarrow> 'b \<Rightarrow> 'b res" where
  "heap_transfer bd region len h = bind_res (non_null region) (\<lambda>p. Inr (buddy_transfer bd p len h))"

definition heap_alloc :: "'b buddy \<Rightarrow> heap_layout \<Rightarrow> 'b \<Rightarrow> (usize \<times> 'b) res" where
  "heap_alloc bd layout h = (case buddy_allocate bd layout h of None \<Rightarrow> Inl OutOfMemory | Some r \<Rightarrow> Inr r)"

definition heap_dealloc :: "'b buddy \<Rightarrow> usize \<Rightarrow> heap_layout \<Rightarrow> 'b \<Rightarrow> 'b res" where
  "heap_dealloc bd p layout h = bind_res (non_null p) (\<lambda>q. Inr (buddy_deallocate bd q layout h))"

text \<open>What \<open>rust_main\<close> does with the heap: it starts where the kernel starts and is given the memory behind the image.\<close>

definition start_heap :: "'b buddy \<Rightarrow> kernel_layout \<Rightarrow> 'b \<Rightarrow> 'b res" where
  "start_heap bd l h =
     bind_res (heap_init bd (layout_start l) h) (\<lambda>h1.
     bind_res (heap_range l) (\<lambda>(region, len). heap_transfer bd region len h1))"

lemma start_heap_ok:
  assumes "l_text l \<noteq> 0" "l_text l \<le> l_end l" "l_end l - l_text l \<le> memory_size"
  shows "start_heap bd l h =
    Inr (buddy_transfer bd (l_end l) (memory_size - (l_end l - l_text l)) (buddy_init bd 3 (l_text l) h))"
proof -
  have "l_end l \<noteq> 0" using assms(1,2) by auto
  then show ?thesis
    using assms by (simp add: start_heap_def heap_init_def heap_transfer_def non_null_def heap_range_def layout_start_def
        layout_end_def layout_len_def minus_usize_def)
qed

end
