(* ===== verification/Lock_Stats.thy ===== *)
theory Lock_Stats
  imports Prelude
begin

text \<open>
  Locks that keep statistics: \<open>tg-rcore-tutorial-ch8/src/instrumented_locks.rs\<close>. The inner locks
  are those of the crate \<open>spin\<close>; what the statistics see of them is how long an acquisition and a
  hold lasted, in nanoseconds, which are arguments here. The rates and variances computed from
  them in \<open>f64\<close> are in theory \<open>Stress_Test\<close>.
\<close>

section \<open>The counters\<close>

record thread_lock_stats =
  stat_tid :: usize
  stat_attempts :: u64
  stat_successes :: u64
  stat_wait :: u64
  stat_hold :: u64
  stat_max :: u64

record lock_stats =
  lock_attempts :: u64
  lock_success :: u64
  lock_failures :: u64
  total_wait_time :: u64
  total_hold_time :: u64
  max_wait_time :: u64
  max_hold_time :: u64
  sleep_count :: u64
  wakeup_count :: u64
  context_switches :: u64
  thread_stats :: "thread_lock_stats list"

definition lock_stats_new :: lock_stats where
  "lock_stats_new = \<lparr>lock_attempts = 0, lock_success = 0, lock_failures = 0, total_wait_time = 0, total_hold_time = 0,
     max_wait_time = 0, max_hold_time = 0, sleep_count = 0, wakeup_count = 0, context_switches = 0, thread_stats = []\<rparr>"

text \<open>An atomic compare-and-exchange: the value read, as \<open>Inr\<close> when it was the expected one, and the cell after.\<close>

definition compare_exchange :: "u64 \<Rightarrow> u64 \<Rightarrow> u64 \<Rightarrow> (u64 + u64) \<times> u64" where
  "compare_exchange old_value new_value cell = (if cell = old_value then (Inr cell, new_value) else (Inl cell, cell))"

function update_max_loop :: "u64 \<Rightarrow> u64 \<Rightarrow> u64 \<Rightarrow> u64" where
  "update_max_loop new_time cur cell =
     (if cur < new_time then
        (case compare_exchange cur new_time cell of
           (Inr _, cell1) \<Rightarrow> cell1
         | (Inl updated, cell1) \<Rightarrow> update_max_loop new_time updated cell1)
      else cell)"
  by auto
termination
  by (relation "measure (\<lambda>(new_time, cur, cell). if cur = cell then 0 else 1)")
    (auto simp: compare_exchange_def split: if_splits)

declare update_max_loop.simps [simp del]

definition update_max_time :: "u64 \<Rightarrow> u64 \<Rightarrow> u64" where
  "update_max_time new_time cell = update_max_loop new_time cell cell"

definition thread_stats_new :: "usize \<Rightarrow> thread_lock_stats" where
  "thread_stats_new t = \<lparr>stat_tid = t, stat_attempts = 0, stat_successes = 0, stat_wait = 0, stat_hold = 0, stat_max = 0\<rparr>"

text \<open>The first entry of the thread is updated, or a new one is added at the end.\<close>

primrec update_stats ::
  "usize \<Rightarrow> (thread_lock_stats \<Rightarrow> thread_lock_stats res) \<Rightarrow> thread_lock_stats list \<Rightarrow> thread_lock_stats list res" where
  "update_stats t f [] = bind_res (f (thread_stats_new t)) (\<lambda>s. Inr [s])"
| "update_stats t f (s # ss) =
     (if stat_tid s = t then bind_res (f s) (\<lambda>s1. Inr (s1 # ss))
      else bind_res (update_stats t f ss) (\<lambda>ss1. Inr (s # ss1)))"

definition update_thread_stats ::
  "usize \<Rightarrow> (thread_lock_stats \<Rightarrow> thread_lock_stats res) \<Rightarrow> lock_stats \<Rightarrow> lock_stats res" where
  "update_thread_stats t f st =
     bind_res (update_stats t f (thread_stats st)) (\<lambda>ss. Inr (st\<lparr>thread_stats := ss\<rparr>))"

text \<open>The atomic counters wrap around; \<open>+=\<close> on an entry is checked.\<close>

definition count_attempt :: "thread_lock_stats \<Rightarrow> thread_lock_stats res" where
  "count_attempt s = bind_res (plus_usize (stat_attempts s) 1) (\<lambda>n. Inr (s\<lparr>stat_attempts := n\<rparr>))"

definition count_success :: "u64 \<Rightarrow> u64 \<Rightarrow> thread_lock_stats \<Rightarrow> thread_lock_stats res" where
  "count_success wait hold s =
     bind_res (plus_usize (stat_successes s) 1) (\<lambda>n.
     bind_res (plus_usize (stat_wait s) wait) (\<lambda>w.
     bind_res (plus_usize (stat_hold s) hold) (\<lambda>h.
       Inr (s\<lparr>stat_successes := n, stat_wait := w, stat_hold := h,
              stat_max := if stat_max s < wait then wait else stat_max s\<rparr>))))"

definition record_attempt :: "usize \<Rightarrow> lock_stats \<Rightarrow> lock_stats res" where
  "record_attempt t st = update_thread_stats t count_attempt (st\<lparr>lock_attempts := lock_attempts st + 1\<rparr>)"

definition record_success :: "usize \<Rightarrow> u64 \<Rightarrow> u64 \<Rightarrow> lock_stats \<Rightarrow> lock_stats res" where
  "record_success t wait hold st =
     update_thread_stats t (count_success wait hold)
       (st\<lparr>lock_success := lock_success st + 1,
          total_wait_time := total_wait_time st + wait,
          total_hold_time := total_hold_time st + hold,
          max_wait_time := update_max_time wait (max_wait_time st),
          max_hold_time := update_max_time hold (max_hold_time st)\<rparr>)"

definition record_failure :: "usize \<Rightarrow> lock_stats \<Rightarrow> lock_stats" where
  "record_failure t st = st\<lparr>lock_failures := lock_failures st + 1\<rparr>"

definition record_sleep :: "lock_stats \<Rightarrow> lock_stats" where
  "record_sleep st = st\<lparr>sleep_count := sleep_count st + 1\<rparr>"

definition record_wakeup :: "lock_stats \<Rightarrow> lock_stats" where
  "record_wakeup st = st\<lparr>wakeup_count := wakeup_count st + 1\<rparr>"

definition record_context_switch :: "lock_stats \<Rightarrow> lock_stats" where
  "record_context_switch st = st\<lparr>context_switches := context_switches st + 1\<rparr>"

definition has_starvation :: "u64 \<Rightarrow> lock_stats \<Rightarrow> bool" where
  "has_starvation threshold st = list_ex (\<lambda>s. threshold < stat_max s) (thread_stats st)"

section \<open>The locks\<close>

record lock_guard =
  guard_tid :: usize
  guard_wait :: u64

text \<open>The guard of the spin lock does not keep the time waited, and its end reports 0.\<close>

definition spinlock_lock :: "usize \<Rightarrow> u64 \<Rightarrow> lock_stats \<Rightarrow> (usize \<times> lock_stats) res" where
  "spinlock_lock t wait st = bind_res (record_attempt t st) (\<lambda>st1. Inr (t, st1))"

definition spinlock_drop :: "usize \<Rightarrow> u64 \<Rightarrow> lock_stats \<Rightarrow> lock_stats res" where
  "spinlock_drop guard hold st = record_success guard 0 hold st"

definition mutex_guard_lock :: "usize \<Rightarrow> u64 \<Rightarrow> lock_stats \<Rightarrow> (lock_guard \<times> lock_stats) res" where
  "mutex_guard_lock t wait st =
     bind_res (record_attempt t st) (\<lambda>st1.
       Inr (\<lparr>guard_tid = t, guard_wait = wait\<rparr>, record_context_switch (record_wakeup (record_sleep st1))))"

definition rwlock_acquire :: "usize \<Rightarrow> u64 \<Rightarrow> lock_stats \<Rightarrow> (lock_guard \<times> lock_stats) res" where
  "rwlock_acquire t wait st =
     bind_res (record_attempt t st) (\<lambda>st1. Inr (\<lparr>guard_tid = t, guard_wait = wait\<rparr>, st1))"

definition guard_drop :: "lock_guard \<Rightarrow> u64 \<Rightarrow> lock_stats \<Rightarrow> lock_stats res" where
  "guard_drop g hold st = record_success (guard_tid g) (guard_wait g) hold st"

text \<open>One acquisition and its release.\<close>

datatype lock_kind = SpinlockKind | MutexKind | RwlockKind

definition lock_once :: "lock_kind \<Rightarrow> usize \<Rightarrow> u64 \<Rightarrow> u64 \<Rightarrow> lock_stats \<Rightarrow> lock_stats res" where
  "lock_once kind t wait hold st =
     (case kind of
        SpinlockKind \<Rightarrow> bind_res (spinlock_lock t wait st) (\<lambda>(g, st1). spinlock_drop g hold st1)
      | MutexKind \<Rightarrow> bind_res (mutex_guard_lock t wait st) (\<lambda>(g, st1). guard_drop g hold st1)
      | RwlockKind \<Rightarrow> bind_res (rwlock_acquire t wait st) (\<lambda>(g, st1). guard_drop g hold st1))"

text \<open>A run of operations one after another, as each thread of the stress test does them: a lock is released before
the next is taken, so no two holders overlap.\<close>

primrec lock_run :: "lock_kind \<Rightarrow> (usize \<times> u64 \<times> u64) list \<Rightarrow> lock_stats \<Rightarrow> lock_stats res" where
  "lock_run kind [] st = Inr st"
| "lock_run kind (e # es) st =
     (case e of (t, wait, hold) \<Rightarrow> bind_res (lock_once kind t wait hold st) (lock_run kind es))"

section \<open>What the statistics say\<close>

lemma update_max_time_eq: "update_max_time a c = max c a"
  unfolding update_max_time_def by (subst update_max_loop.simps) (auto simp: compare_exchange_def max_def)

definition keeps_tid :: "(thread_lock_stats \<Rightarrow> thread_lock_stats res) \<Rightarrow> bool" where
  "keeps_tid f \<longleftrightarrow> (\<forall>s s'. f s = Inr s' \<longrightarrow> stat_tid s' = stat_tid s)"

lemma counts_keep_tid: "keeps_tid count_attempt" "keeps_tid (count_success w h)"
  by (auto simp: keeps_tid_def count_attempt_def count_success_def bind_res_eq_Inr)

lemma update_stats_twice:
  "keeps_tid f \<Longrightarrow> update_stats t f ss = Inr ss1 \<Longrightarrow> update_stats t g ss1 = Inr ss2 \<Longrightarrow>
   update_stats t (\<lambda>s. bind_res (f s) g) ss = Inr ss2"
  by (induction ss arbitrary: ss1 ss2)
    (auto simp: bind_res_eq_Inr keeps_tid_def thread_stats_new_def split: if_splits)

lemma update_stats_tids:
  "keeps_tid f \<Longrightarrow> update_stats t f ss = Inr ss' \<Longrightarrow>
   map stat_tid ss' = map stat_tid ss @ (if t \<in> stat_tid ` set ss then [] else [t])"
  by (induction ss arbitrary: ss')
    (auto simp: bind_res_eq_Inr keeps_tid_def thread_stats_new_def split: if_splits)

lemma update_stats_entry:
  "update_stats t f ss = Inr ss' \<Longrightarrow> distinct (map stat_tid ss) \<Longrightarrow> s' \<in> set ss' \<Longrightarrow>
   s' \<in> set ss \<and> stat_tid s' \<noteq> t \<or>
   (\<exists>s. f s = Inr s' \<and> stat_tid s = t \<and> (s \<in> set ss \<or> s = thread_stats_new t \<and> t \<notin> stat_tid ` set ss))"
proof (induction ss arbitrary: ss')
  case (Cons a ss)
  show ?case
  proof (cases "stat_tid a = t")
    case True
    then obtain a' where "f a = Inr a'" "ss' = a' # ss" using Cons.prems(1) by (auto simp: bind_res_eq_Inr)
    moreover have "stat_tid s' \<noteq> t" if "s' \<in> set ss" using that Cons.prems(2) True by (auto simp: image_iff)
    ultimately show ?thesis using Cons.prems(3) True by auto
  next
    case False
    then obtain ss1 where ss1: "update_stats t f ss = Inr ss1" "ss' = a # ss1"
      using Cons.prems(1) by (auto simp: bind_res_eq_Inr)
    then consider "s' = a" | "s' \<in> set ss1" using Cons.prems(3) by auto
    then show ?thesis
    proof cases
      case 2
      then show ?thesis using Cons.IH[OF ss1(1) _ 2] Cons.prems(2) False by auto
    qed (use False in simp)
  qed
qed (auto simp: bind_res_eq_Inr thread_stats_new_def)

definition reported :: "lock_kind \<Rightarrow> u64 \<Rightarrow> u64" where
  "reported kind wait = (if kind = SpinlockKind then 0 else wait)"

definition of_thread :: "usize \<Rightarrow> (usize \<times> u64 \<times> u64) list \<Rightarrow> (usize \<times> u64 \<times> u64) list" where
  "of_thread t es = filter (\<lambda>(t', _). t' = t) es"

definition entry_tells :: "lock_kind \<Rightarrow> (usize \<times> u64 \<times> u64) list \<Rightarrow> thread_lock_stats \<Rightarrow> bool" where
  "entry_tells kind es s \<longleftrightarrow>
     (let mine = of_thread (stat_tid s) es in
      unat (stat_attempts s) = length mine \<and> unat (stat_successes s) = length mine \<and>
      unat (stat_wait s) = (\<Sum>(_, w, _) \<leftarrow> mine. unat (reported kind w)) \<and>
      unat (stat_hold s) = (\<Sum>(_, _, h) \<leftarrow> mine. unat h) \<and>
      (\<forall>bound. bound < stat_max s \<longleftrightarrow> (\<exists>(_, w, _) \<in> set mine. bound < reported kind w)))"

lemma entry_tells_step:
  assumes "entry_tells kind es s" "bind_res (count_attempt s) (count_success (reported kind w) h) = Inr s'"
  shows "entry_tells kind (es @ [(stat_tid s, w, h)]) s'"
proof -
  obtain n n' w' h' where n: "plus_usize (stat_attempts s) 1 = Inr n" "plus_usize (stat_successes s) 1 = Inr n'"
      "plus_usize (stat_wait s) (reported kind w) = Inr w'" "plus_usize (stat_hold s) h = Inr h'"
    and s': "s' = s\<lparr>stat_attempts := n, stat_successes := n', stat_wait := w', stat_hold := h',
      stat_max := if stat_max s < reported kind w then reported kind w else stat_max s\<rparr>"
    using assms(2) by (auto simp: count_attempt_def count_success_def bind_res_eq_Inr)
  have mine: "of_thread (stat_tid s) (es @ [(stat_tid s, w, h)]) = of_thread (stat_tid s) es @ [(stat_tid s, w, h)]"
    by (simp add: of_thread_def)
  have "(bound < stat_max s') = (bound < stat_max s \<or> bound < reported kind w)" for bound
    by (auto simp: s' not_less)
  then show ?thesis
    using assms(1) n[THEN plus_usize_unat] by (auto simp: entry_tells_def Let_def mine s')
qed

lemma entry_tells_other: "entry_tells kind es s \<Longrightarrow> stat_tid s \<noteq> t \<Longrightarrow> entry_tells kind (es @ [(t, w, h)]) s"
  by (simp add: entry_tells_def of_thread_def)

lemma entry_tells_new: "t \<notin> fst ` set es \<Longrightarrow> entry_tells kind es (thread_stats_new t)"
proof -
  assume "t \<notin> fst ` set es"
  then have "of_thread t es = []" by (force simp: of_thread_def filter_empty_conv)
  then show ?thesis by (simp add: entry_tells_def thread_stats_new_def)
qed

lemma lock_once_effect:
  assumes "lock_once kind t w h st = Inr st'"
  shows "update_stats t (\<lambda>s. bind_res (count_attempt s) (count_success (reported kind w) h)) (thread_stats st) =
      Inr (thread_stats st')"
    "lock_attempts st' = lock_attempts st + 1" "lock_success st' = lock_success st + 1" "lock_failures st' = lock_failures st"
proof -
  obtain ss1 where "update_stats t count_attempt (thread_stats st) = Inr ss1"
      "update_stats t (count_success (reported kind w) h) ss1 = Inr (thread_stats st')"
    and rest: "lock_attempts st' = lock_attempts st + 1 \<and> lock_success st' = lock_success st + 1 \<and>
      lock_failures st' = lock_failures st"
    using assms
    by (cases kind)
      (auto simp: lock_once_def spinlock_lock_def spinlock_drop_def mutex_guard_lock_def rwlock_acquire_def guard_drop_def
        record_attempt_def record_success_def record_context_switch_def record_wakeup_def record_sleep_def
        update_thread_stats_def reported_def bind_res_eq_Inr)
  then show "update_stats t (\<lambda>s. bind_res (count_attempt s) (count_success (reported kind w) h)) (thread_stats st) =
      Inr (thread_stats st')"
    using update_stats_twice[OF counts_keep_tid(1)] by blast
  show "lock_attempts st' = lock_attempts st + 1" "lock_success st' = lock_success st + 1" "lock_failures st' = lock_failures st"
    using rest by simp_all
qed

lemma lock_run_snoc: "lock_run kind (es @ [(t, w, h)]) st = bind_res (lock_run kind es st) (lock_once kind t w h)"
  by (induction es arbitrary: st) (auto simp: bind_res_def split: prod.splits sum.splits)

definition stats_tell :: "lock_kind \<Rightarrow> (usize \<times> u64 \<times> u64) list \<Rightarrow> lock_stats \<Rightarrow> bool" where
  "stats_tell kind es st \<longleftrightarrow>
     distinct (map stat_tid (thread_stats st)) \<and> stat_tid ` set (thread_stats st) = fst ` set es \<and>
     list_all (entry_tells kind es) (thread_stats st) \<and>
     lock_attempts st = of_nat (length es) \<and> lock_success st = of_nat (length es) \<and> lock_failures st = 0"

lemma lock_run_tells: "lock_run kind es lock_stats_new = Inr st \<Longrightarrow> stats_tell kind es st"
proof (induction es arbitrary: st rule: rev_induct)
  case (snoc e es)
  obtain t w h where e: "e = (t, w, h)" by (cases e)
  obtain st1 where "lock_run kind es lock_stats_new = Inr st1" and once: "lock_once kind t w h st1 = Inr st"
    using snoc.prems by (auto simp: e lock_run_snoc bind_res_eq_Inr)
  then have IH: "stats_tell kind es st1" using snoc.IH by blast
  note eff = lock_once_effect[OF once]
  have keep: "keeps_tid (\<lambda>s. bind_res (count_attempt s) (count_success (reported kind w) h))"
    using counts_keep_tid by (auto simp: keeps_tid_def bind_res_eq_Inr)
  note tids = update_stats_tids[OF keep eff(1)]
  have entries: "entry_tells kind (es @ [(t, w, h)]) s'" if s': "s' \<in> set (thread_stats st)" for s'
  proof -
    have "distinct (map stat_tid (thread_stats st1))" using IH by (simp add: stats_tell_def)
    then consider "s' \<in> set (thread_stats st1)" "stat_tid s' \<noteq> t"
      | s where "bind_res (count_attempt s) (count_success (reported kind w) h) = Inr s'" "stat_tid s = t"
          "s \<in> set (thread_stats st1) \<or> s = thread_stats_new t \<and> t \<notin> stat_tid ` set (thread_stats st1)"
      using update_stats_entry[OF eff(1) _ s'] by blast
    then show ?thesis
    proof cases
      case 1
      then show ?thesis using IH entry_tells_other by (auto simp: stats_tell_def list_all_iff)
    next
      case 2
      then have "entry_tells kind es s"
        using IH entry_tells_new[of t es kind] unfolding stats_tell_def list_all_iff by metis
      from entry_tells_step[OF this 2(1)] show ?thesis using 2(2) by simp
    qed
  qed
  have "distinct (map stat_tid (thread_stats st))" "stat_tid ` set (thread_stats st) = fst ` set (es @ [(t, w, h)])"
    using IH arg_cong[OF tids, of distinct] arg_cong[OF tids, of set] by (auto simp: stats_tell_def)
  then show ?case using entries eff IH by (simp add: stats_tell_def e list_all_iff add.commute)
qed (simp add: stats_tell_def lock_stats_new_def)

text \<open>C35: The statistics of an instrumented lock after any run of acquisitions are what the run did: one entry for each
thread that asked, with its acquisitions, the sums of its waits and holds and its longest wait; starvation is
reported exactly when some wait was above the threshold. Two things they do not see: no run ever counts a failure, so the
contention rate is always 0, and the guard of the spin lock reports every wait as 0, so no starvation is ever found there.\<close>

theorem lock_statistics_tell_the_run:
  assumes "lock_run kind es lock_stats_new = Inr st"
  shows "distinct (map stat_tid (thread_stats st)) \<and> stat_tid ` set (thread_stats st) = fst ` set es \<and>
    (\<forall>s \<in> set (thread_stats st). entry_tells kind es s) \<and>
    lock_attempts st = of_nat (length es) \<and> lock_success st = of_nat (length es) \<and> lock_failures st = 0 \<and>
    (has_starvation bound st \<longleftrightarrow> kind \<noteq> SpinlockKind \<and> (\<exists>(_, w, _) \<in> set es. bound < w))"
proof -
  note R = lock_run_tells[OF assms]
  have "has_starvation bound st \<longleftrightarrow> (\<exists>s \<in> set (thread_stats st). \<exists>(_, w, _) \<in> set (of_thread (stat_tid s) es). bound < reported kind w)"
    using R by (auto simp: stats_tell_def has_starvation_def list_ex_iff list_all_iff entry_tells_def Let_def)
  also have "\<dots> \<longleftrightarrow> (\<exists>(t, w, _) \<in> set es. t \<in> stat_tid ` set (thread_stats st) \<and> bound < reported kind w)"
    by (fastforce simp: of_thread_def)
  also have "\<dots> \<longleftrightarrow> kind \<noteq> SpinlockKind \<and> (\<exists>(_, w, _) \<in> set es. bound < w)"
    using R by (force simp: stats_tell_def reported_def)
  finally show ?thesis using R by (simp add: stats_tell_def list_all_iff)
qed

theorem lock_statistics_tell_the_run_witness:
  "\<exists>st. lock_run MutexKind [(7, 10, 3), (8, 2, 4), (7, 5, 6)] lock_stats_new = Inr st \<and> map stat_tid (thread_stats st) = [7, 8] \<and>
    has_starvation 9 st \<and> \<not> has_starvation 10 st"
proof -
  define es :: "(usize \<times> u64 \<times> u64) list" where "es = [(7, 10, 3), (8, 2, 4), (7, 5, 6)]"
  obtain st where st: "lock_run MutexKind es lock_stats_new = Inr st" "map stat_tid (thread_stats st) = [7, 8]"
    by (simp add: es_def lock_once_def mutex_guard_lock_def guard_drop_def record_attempt_def record_success_def
        record_context_switch_def record_wakeup_def record_sleep_def update_thread_stats_def count_attempt_def
        count_success_def thread_stats_new_def lock_stats_new_def plus_usize_def)
  then show ?thesis
    using lock_statistics_tell_the_run[OF st(1), of 9] lock_statistics_tell_the_run[OF st(1), of 10]
    by (auto simp: es_def)
qed

end
