(* ===== verification/Atomic_Max.thy ===== *)
theory Atomic_Max
  imports Lock_Stats
begin

text \<open>
  The lock-free maximum of the statistics (\<open>update_max_time\<close> of
  \<open>tg-rcore-tutorial-ch8/src/instrumented_locks.rs\<close>) when several threads run it at once.

  The accesses are \<open>Relaxed\<close>: a load, or an exchange that fails, may see any value that the cell
  has ever had; only an exchange that succeeds acts on its last value. The state is therefore
  the list of values of the cell, oldest first, and for each thread where it is in the loop.
\<close>

datatype max_pc = Start | Seen u64 | Finished

record max_state =
  cell_values :: "u64 list"
  workers :: "(max_pc \<times> u64) list"

definition max_start :: "u64 \<Rightarrow> u64 list \<Rightarrow> max_state" where
  "max_start c vs = \<lparr>cell_values = [c], workers = map (Pair Start) vs\<rparr>"

inductive max_step :: "max_state \<Rightarrow> max_state \<Rightarrow> bool" where
  load: "i < length (workers s) \<Longrightarrow> workers s ! i = (Start, v) \<Longrightarrow> c \<in> set (cell_values s) \<Longrightarrow>
    max_step s (s\<lparr>workers := (workers s)[i := (Seen c, v)]\<rparr>)"
| leave: "i < length (workers s) \<Longrightarrow> workers s ! i = (Seen c, v) \<Longrightarrow> \<not> c < v \<Longrightarrow>
    max_step s (s\<lparr>workers := (workers s)[i := (Finished, v)]\<rparr>)"
| exchange: "i < length (workers s) \<Longrightarrow> workers s ! i = (Seen c, v) \<Longrightarrow> c < v \<Longrightarrow>
    compare_exchange c v (last (cell_values s)) = (Inr c, d) \<Longrightarrow>
    max_step s (s\<lparr>cell_values := cell_values s @ [d], workers := (workers s)[i := (Finished, v)]\<rparr>)"
| retry: "i < length (workers s) \<Longrightarrow> workers s ! i = (Seen c, v) \<Longrightarrow> c < v \<Longrightarrow>
    d \<in> set (cell_values s) \<Longrightarrow> compare_exchange c v d = (Inl d, d) \<Longrightarrow>
    max_step s (s\<lparr>workers := (workers s)[i := (Seen d, v)]\<rparr>)"

inductive max_run :: "max_state \<Rightarrow> max_state \<Rightarrow> bool" where
  max_run_refl: "max_run s s"
| max_run_step: "max_run s t \<Longrightarrow> max_step t u \<Longrightarrow> max_run s u"

lemma exchange_succeeds: "compare_exchange c v l = (Inr c, d) \<longleftrightarrow> l = c \<and> d = v"
  by (auto simp: compare_exchange_def)

text \<open>The values of the cell only grow, each is the first one or that of a thread, and a thread that has finished has
seen its own value reached.\<close>

fun worker_ok :: "u64 list \<Rightarrow> max_pc \<times> u64 \<Rightarrow> bool" where
  "worker_ok h (Start, v) = True"
| "worker_ok h (Seen d, v) = (d \<in> set h)"
| "worker_ok h (Finished, v) = (v \<le> last h)"

definition max_inv :: "u64 \<Rightarrow> u64 list \<Rightarrow> max_state \<Rightarrow> bool" where
  "max_inv c vs s \<longleftrightarrow>
     map snd (workers s) = vs \<and> cell_values s \<noteq> [] \<and> sorted (cell_values s) \<and> c \<in> set (cell_values s) \<and>
     set (cell_values s) \<subseteq> insert c (set vs) \<and>
     list_all (worker_ok (cell_values s)) (workers s)"

lemma sorted_last: "sorted xs \<Longrightarrow> (x :: 'a :: linorder) \<in> set xs \<Longrightarrow> x \<le> last xs"
  by (induction xs) auto

lemma map_snd_update: "i < length ws \<Longrightarrow> ws ! i = (a, v) \<Longrightarrow> map snd (ws[i := (b, v)]) = map snd ws"
  by (simp add: map_update list_update_same_conv)

lemma list_all_update: "list_all P ws \<Longrightarrow> P w \<Longrightarrow> list_all P (ws[i := w])"
  using set_update_subset_insert[of ws i w] by (auto simp: list_all_iff)

lemma max_inv_workers:
  assumes "max_inv c vs s" "i < length (workers s)" "workers s ! i = (a, v)" "worker_ok (cell_values s) (b, v)"
  shows "max_inv c vs (s\<lparr>workers := (workers s)[i := (b, v)]\<rparr>)"
  using assms(1,4) map_snd_update[OF assms(2,3), of b] by (simp add: max_inv_def list_all_update)

lemma worker_ok_grows:
  assumes "worker_ok h w" "\<forall>x \<in> set h. x \<le> v" "h \<noteq> []"
  shows "worker_ok (h @ [v]) w"
  using assms by (cases "(h, w)" rule: worker_ok.cases) (auto intro: order_trans)

lemma worker_at:
  "max_inv c vs s \<Longrightarrow> i < length (workers s) \<Longrightarrow> workers s ! i = w \<Longrightarrow> worker_ok (cell_values s) w \<and> snd w \<in> set vs"
  by (auto simp: max_inv_def list_all_iff)

lemma max_step_inv: "max_step s s' \<Longrightarrow> max_inv c vs s \<Longrightarrow> max_inv c vs s'"
proof (induction rule: max_step.induct)
  case (leave i s d v)
  have "d \<in> set (cell_values s)" using worker_at[OF leave(4,1,2)] by simp
  then have "d \<le> last (cell_values s)" using leave(4) by (simp add: max_inv_def sorted_last)
  then show ?case using max_inv_workers[OF leave(4,1,2)] leave(3) by simp
next
  case (exchange i s d v e)
  then have l: "last (cell_values s) = d" "e = v" by (simp_all add: exchange_succeeds)
  have v: "v \<in> set vs" using worker_at[OF exchange(5,1,2)] by simp
  have grow: "\<forall>x \<in> set (cell_values s). x \<le> v"
    using exchange(3,5) sorted_last[of "cell_values s"] by (fastforce simp: max_inv_def l(1))
  have "list_all (worker_ok (cell_values s @ [v])) (workers s)"
    using exchange(5) worker_ok_grows[OF _ grow] by (auto simp: max_inv_def list_all_iff)
  then have "max_inv c vs (s\<lparr>cell_values := cell_values s @ [v]\<rparr>)"
    using exchange(5) v grow by (auto simp: max_inv_def sorted_append)
  from max_inv_workers[OF this, of i "Seen d" v Finished] show ?case using exchange(1,2) l by simp
next
  case (load i s v d)
  then show ?case using max_inv_workers[of c vs s i Start v "Seen d"] by simp
next
  case (retry i s d v e)
  then show ?case using max_inv_workers[of c vs s i "Seen d" v "Seen e"] by simp
qed

lemma max_run_inv: "max_run s t \<Longrightarrow> max_inv c vs s \<Longrightarrow> max_inv c vs t"
  by (induction rule: max_run.induct) (auto intro: max_step_inv)

lemma max_start_inv: "max_inv c vs (max_start c vs)"
  by (auto simp: max_inv_def max_start_def comp_def list_all_iff)

text \<open>C38: However the threads that update the longest wait interleave, and however stale the values are that their
relaxed loads see, once all of them have finished the cell holds exactly the maximum of its first value and of all
the waits: no update is lost.\<close>

theorem atomic_maximum_loses_nothing:
  assumes "max_run (max_start c vs) s" "list_all (\<lambda>(pc, _). pc = Finished) (workers s)"
  shows "last (cell_values s) = Max (set (c # vs))"
proof -
  have I: "max_inv c vs s" by (rule max_run_inv[OF assms(1) max_start_inv])
  then have vs: "vs = map snd (workers s)" and ne: "cell_values s \<noteq> []" by (simp_all add: max_inv_def)
  have "v \<le> last (cell_values s)" if "v \<in> set vs" for v
    proof -
    have "(Finished, v) \<in> set (workers s)" using that assms(2) unfolding vs by (auto simp: list_all_iff)
    then show ?thesis using I by (auto simp: max_inv_def list_all_iff)
  qed
  moreover have "c \<le> last (cell_values s)" using I sorted_last by (auto simp: max_inv_def)
  moreover have "last (cell_values s) \<in> set (c # vs)" using I last_in_set[OF ne] by (simp add: max_inv_def subset_iff)
  ultimately show ?thesis by (intro Max_eqI[symmetric]) auto
qed

text \<open>Two threads that both saw 0; the one with the smaller value comes first, the other has to retry.\<close>

theorem atomic_maximum_loses_nothing_witness:
  "\<exists>s. max_run (max_start 0 [5, 9]) s \<and> last (cell_values s) = 9"
proof -
  define st where "st h a b = \<lparr>cell_values = h, workers = [(a, 5), (b, 9)]\<rparr>" for h :: "u64 list" and a b :: max_pc
  have step: "max_step (st [0] Start Start) (st [0] (Seen 0) Start)" "max_step (st [0] (Seen 0) Start) (st [0] (Seen 0) (Seen 0))"
    "max_step (st [0] (Seen 0) (Seen 0)) (st [0, 5] Finished (Seen 0))"
    "max_step (st [0, 5] Finished (Seen 0)) (st [0, 5] Finished (Seen 5))"
    "max_step (st [0, 5] Finished (Seen 5)) (st [0, 5, 9] Finished Finished)"
    using load[of 0 "st [0] Start Start" 5 0] load[of 1 "st [0] (Seen 0) Start" 9 0]
      exchange[of 0 "st [0] (Seen 0) (Seen 0)" 0 5 5] retry[of 1 "st [0, 5] Finished (Seen 0)" 0 9 5]
      exchange[of 1 "st [0, 5] Finished (Seen 5)" 5 9 9]
    by (simp_all add: st_def compare_exchange_def)
  have "max_run (st [0] Start Start) (st [0, 5, 9] Finished Finished)"
    by (rule max_run_step[OF max_run_step[OF max_run_step[OF max_run_step[OF max_run_step[OF max_run_refl step(1)]
      step(2)] step(3)] step(4)] step(5)])
  then have run: "max_run (max_start 0 [5, 9]) (st [0, 5, 9] Finished Finished)" by (simp add: st_def max_start_def)
  have "last (cell_values (st [0, 5, 9] Finished Finished)) = Max (set [0, 5, 9])"
    by (rule atomic_maximum_loses_nothing[OF run]) (simp add: st_def)
  then show ?thesis using run by (intro exI[of _ "st [0, 5, 9] Finished Finished"]) simp
qed

end
