(* ===== verification/Classic_Problems.thy ===== *)
theory Classic_Problems
  imports Prelude
begin

text \<open>
  The classic problems of synchronisation in \<open>tg-rcore-tutorial-ch8/src/sync_tests.rs\<close>: the bounded buffer and the
  dining philosophers. A fork is a \<open>spin::Mutex\<close>: \<open>lock\<close> returns once the fork is free, and a guard that is dropped
  frees it.
\<close>

section \<open>The bounded buffer\<close>

text \<open>
  Both operations hold a mutex from their first to their last access, so a call is one step. The answer is the
  \<open>Result\<close> of the source; indices and counts stay at or below the capacity \<open>n\<close> and never wrap.
\<close>

record 'a bounded_buffer =
  slots :: "'a option list"
  front :: nat
  rear :: nat
  held_items :: nat

definition buffer_new :: "nat \<Rightarrow> 'a bounded_buffer" where
  "buffer_new n = \<lparr>slots = replicate n None, front = 0, rear = 0, held_items = 0\<rparr>"

definition produce_with_mutex :: "nat \<Rightarrow> 'a \<Rightarrow> 'a bounded_buffer \<Rightarrow> ((string + unit) \<times> 'a bounded_buffer) res" where
  "produce_with_mutex n item b =
     (if n \<le> held_items b then Inr (Inl ''Buffer full'', b)
      else
        bind_res (update_res (slots b) (rear b) (Some item)) (\<lambda>ss.
          Inr (Inr (), b\<lparr>slots := ss, rear := (rear b + 1) mod n, held_items := held_items b + 1\<rparr>)))"

definition consume_with_mutex :: "nat \<Rightarrow> 'a bounded_buffer \<Rightarrow> ((string + 'a) \<times> 'a bounded_buffer) res" where
  "consume_with_mutex n b =
     (if held_items b = 0 then Inr (Inl ''Buffer empty'', b)
      else
        bind_res (nth_res (slots b) (front b)) (\<lambda>slot.
        bind_res (unwrap slot) (\<lambda>item.
          Inr (Inr item, b\<lparr>slots := (slots b)[front b := None], front := (front b + 1) mod n,
                         held_items := held_items b - 1\<rparr>))))"

text \<open>The items in the buffer, oldest first.\<close>

definition buffer_ok :: "nat \<Rightarrow> 'a bounded_buffer \<Rightarrow> 'a list \<Rightarrow> bool" where
  "buffer_ok n b q \<longleftrightarrow>
     length (slots b) = n \<and> held_items b = length q \<and> length q \<le> n \<and> rear b = (front b + length q) mod n \<and>
     (n = 0 \<or> front b < n) \<and> (\<forall>j < length q. slots b ! ((front b + j) mod n) = Some (q ! j))"

lemma buffer_new_ok: "buffer_ok n (buffer_new n) []"
  by (auto simp: buffer_ok_def buffer_new_def)

lemma produce_ok:
  assumes "buffer_ok n b q"
  shows "\<exists>b'. produce_with_mutex n x b = Inr (if length q < n then Inr () else Inl ''Buffer full'', b') \<and>
    buffer_ok n b' (if length q < n then q @ [x] else q)"
proof (cases "length q < n")
  case True
  have rear: "rear b < length (slots b)" using assms True by (simp add: buffer_ok_def)
  define b' where "b' = b\<lparr>slots := (slots b)[rear b := Some x], rear := (rear b + 1) mod n, held_items := held_items b + 1\<rparr>"
  have "slots b' ! ((front b' + j) mod n) = Some ((q @ [x]) ! j)" if "j < length (q @ [x])" for j
  proof (cases "j = length q")
    case True
    then show ?thesis using assms rear by (simp add: b'_def buffer_ok_def)
  next
    case False
    then have j: "j < length q" using that by simp
    then have "(front b + j) mod n \<noteq> rear b"
      using assms True shifted_mod_inj[of "front b" j n "length q"] by (auto simp: buffer_ok_def)
    then show ?thesis using assms j by (simp add: b'_def buffer_ok_def nth_append)
  qed
  moreover have "(rear b + 1) mod n = (front b + length (q @ [x])) mod n"
    using assms by (simp add: buffer_ok_def mod_Suc_eq)
  ultimately have "buffer_ok n b' (q @ [x])" using assms True by (simp add: buffer_ok_def b'_def)
  then show ?thesis
    using True rear assms by (simp add: produce_with_mutex_def b'_def buffer_ok_def)
qed (use assms in \<open>auto simp: produce_with_mutex_def buffer_ok_def\<close>)

lemma consume_ok:
  assumes "buffer_ok n b q"
  shows "\<exists>b'. consume_with_mutex n b = Inr (case q of [] \<Rightarrow> Inl ''Buffer empty'' | y # _ \<Rightarrow> Inr y, b') \<and>
    buffer_ok n b' (tl q)"
proof (cases q)
  case (Cons y r)
  then have n: "0 < n" "front b < n" using assms by (auto simp: buffer_ok_def)
  have first: "slots b ! front b = Some y"
    using assms Cons n by (auto simp: buffer_ok_def dest!: spec[of _ 0])
  define b' where "b' = b\<lparr>slots := (slots b)[front b := None], front := (front b + 1) mod n, held_items := held_items b - 1\<rparr>"
  have "slots b' ! ((front b' + j) mod n) = Some (r ! j)" if j: "j < length r" for j
  proof -
    have s: "(front b' + j) mod n = (front b + Suc j) mod n" by (simp add: b'_def mod_simps)
    have "(front b + Suc j) mod n \<noteq> front b"
      using shifted_mod_inj[of "front b" "Suc j" n 0] j n assms Cons by (auto simp: buffer_ok_def)
    moreover have "slots b ! ((front b + Suc j) mod n) = Some (q ! Suc j)"
      using assms j Cons unfolding buffer_ok_def by (metis Suc_less_eq length_Cons)
    ultimately show ?thesis by (simp add: s) (simp add: b'_def Cons)
  qed
  moreover have "((front b + 1) mod n + length r) mod n = rear b"
    using assms Cons by (simp add: buffer_ok_def mod_simps)
  ultimately have "buffer_ok n b' r" using assms Cons n by (simp add: buffer_ok_def b'_def)
  then show ?thesis
    using first n assms Cons by (simp add: consume_with_mutex_def b'_def buffer_ok_def unwrap_def)
qed (use assms in \<open>auto simp: consume_with_mutex_def buffer_ok_def\<close>)

datatype 'a buffer_call = Produce 'a | Consume
datatype 'a buffer_reply = Refused string | Stored | Taken 'a

definition buffer_call :: "nat \<Rightarrow> 'a buffer_call \<Rightarrow> 'a bounded_buffer \<Rightarrow> ('a buffer_reply \<times> 'a bounded_buffer) res" where
  "buffer_call n c b =
     (case c of
        Produce x \<Rightarrow> bind_res (produce_with_mutex n x b) (\<lambda>(r, b1). Inr (case r of Inl e \<Rightarrow> Refused e | Inr _ \<Rightarrow> Stored, b1))
      | Consume \<Rightarrow> bind_res (consume_with_mutex n b) (\<lambda>(r, b1). Inr (case r of Inl e \<Rightarrow> Refused e | Inr x \<Rightarrow> Taken x, b1)))"

primrec buffer_run :: "nat \<Rightarrow> 'a buffer_call list \<Rightarrow> 'a bounded_buffer \<Rightarrow> 'a buffer_reply list res" where
  "buffer_run n [] b = Inr []"
| "buffer_run n (c # cs) b =
     bind_res (buffer_call n c b) (\<lambda>(r, b1). bind_res (buffer_run n cs b1) (\<lambda>rs. Inr (r # rs)))"

text \<open>The same calls on a queue of at most \<open>n\<close> items.\<close>

fun queue_run :: "nat \<Rightarrow> 'a buffer_call list \<Rightarrow> 'a list \<Rightarrow> 'a buffer_reply list" where
  "queue_run n [] q = []"
| "queue_run n (Produce x # cs) q =
     (if length q < n then Stored # queue_run n cs (q @ [x]) else Refused ''Buffer full'' # queue_run n cs q)"
| "queue_run n (Consume # cs) q =
     (case q of [] \<Rightarrow> Refused ''Buffer empty'' # queue_run n cs [] | y # r \<Rightarrow> Taken y # queue_run n cs r)"

lemma buffer_run_simulates: "buffer_ok n b q \<Longrightarrow> buffer_run n cs b = Inr (queue_run n cs q)"
proof (induction cs arbitrary: b q)
  case (Cons c cs)
  show ?case
  proof (cases c)
    case (Produce x)
    obtain b' where b': "produce_with_mutex n x b = Inr (if length q < n then Inr () else Inl ''Buffer full'', b')"
      "buffer_ok n b' (if length q < n then q @ [x] else q)"
      using produce_ok[OF Cons.prems] by blast
    then show ?thesis using Cons.IH[OF b'(2)] by (simp add: Produce buffer_call_def)
  next
    case Consume
    obtain b' where b': "consume_with_mutex n b = Inr (case q of [] \<Rightarrow> Inl ''Buffer empty'' | y # _ \<Rightarrow> Inr y, b')"
      "buffer_ok n b' (tl q)"
      using consume_ok[OF Cons.prems] by blast
    then show ?thesis using Cons.IH[OF b'(2)] by (cases q) (simp_all add: Consume buffer_call_def)
  qed
qed simp

text \<open>The bounded buffer is a first-in first-out queue of its capacity, 0 included: any run of its
operations gives the replies of that queue and never panics.\<close>

theorem bounded_buffer_is_a_queue:
  "buffer_run n cs (buffer_new n) = Inr (queue_run n cs [])"
  by (rule buffer_run_simulates[OF buffer_new_ok])

section \<open>The dining philosophers\<close>

text \<open>
  Philosopher \<open>i\<close> of \<open>n\<close> runs \<open>philosopher_eat\<close> once, in three steps: lock the first fork, lock the second, drop
  both guards at the end. \<open>left_first\<close> is the version of the source that is meant to deadlock.
\<close>

definition left_first :: "nat \<Rightarrow> nat \<Rightarrow> nat \<times> nat" where
  "left_first n i = (i, (i + 1) mod n)"

definition lower_first :: "nat \<Rightarrow> nat \<Rightarrow> nat \<times> nat" where
  "lower_first n i = (let l = i; r = (i + 1) mod n in if l < r then (l, r) else (r, l))"

datatype philosopher = Thinking | Has_first | Has_both | Fed

record dinner =
  forks :: "nat option list"
  philosophers :: "philosopher list"

definition dinner_start :: "nat \<Rightarrow> dinner" where
  "dinner_start n = \<lparr>forks = replicate n None, philosophers = replicate n Thinking\<rparr>"

inductive eat_step :: "(nat \<Rightarrow> nat \<times> nat) \<Rightarrow> dinner \<Rightarrow> dinner \<Rightarrow> bool" for order where
  lock_first: "i < length (philosophers d) \<Longrightarrow> philosophers d ! i = Thinking \<Longrightarrow> order i = (f, g) \<Longrightarrow> forks d ! f = None \<Longrightarrow>
    eat_step order d \<lparr>forks = (forks d)[f := Some i], philosophers = (philosophers d)[i := Has_first]\<rparr>"
| lock_second: "i < length (philosophers d) \<Longrightarrow> philosophers d ! i = Has_first \<Longrightarrow> order i = (f, g) \<Longrightarrow> forks d ! g = None \<Longrightarrow>
    eat_step order d \<lparr>forks = (forks d)[g := Some i], philosophers = (philosophers d)[i := Has_both]\<rparr>"
| finish: "i < length (philosophers d) \<Longrightarrow> philosophers d ! i = Has_both \<Longrightarrow> order i = (f, g) \<Longrightarrow>
    eat_step order d \<lparr>forks = (forks d)[g := None, f := None], philosophers = (philosophers d)[i := Fed]\<rparr>"

text \<open>Dinners that are reached in \<open>k\<close> steps.\<close>

inductive dining :: "(nat \<Rightarrow> nat \<times> nat) \<Rightarrow> nat \<Rightarrow> nat \<Rightarrow> dinner \<Rightarrow> bool" for order n where
  dining_start: "dining order n 0 (dinner_start n)"
| dining_step: "dining order n k d \<Longrightarrow> eat_step order d d' \<Longrightarrow> dining order n (Suc k) d'"

definition all_fed :: "dinner \<Rightarrow> bool" where
  "all_fed d \<longleftrightarrow> list_all (\<lambda>p. p = Fed) (philosophers d)"

text \<open>Which forks a philosopher holds.\<close>

fun holds :: "philosopher \<Rightarrow> nat \<times> nat \<Rightarrow> nat \<Rightarrow> bool" where
  "holds Thinking fg h = False"
| "holds Has_first fg h = (h = fst fg)"
| "holds Has_both fg h = (h = fst fg \<or> h = snd fg)"
| "holds Fed fg h = False"

definition dinner_ok :: "(nat \<Rightarrow> nat \<times> nat) \<Rightarrow> nat \<Rightarrow> dinner \<Rightarrow> bool" where
  "dinner_ok order n d \<longleftrightarrow> length (forks d) = n \<and> length (philosophers d) = n \<and>
     (\<forall>h < n. \<forall>i. forks d ! h = Some i \<longleftrightarrow> i < n \<and> holds (philosophers d ! i) (order i) h)"

definition order_ok :: "(nat \<Rightarrow> nat \<times> nat) \<Rightarrow> nat \<Rightarrow> bool" where
  "order_ok order n \<longleftrightarrow> (\<forall>i < n. fst (order i) < snd (order i) \<and> snd (order i) < n)"

lemma lower_first_ok: "2 \<le> n \<Longrightarrow> order_ok (lower_first n) n"
  by (auto simp: order_ok_def lower_first_def Let_def mod_if)

lemma holder: "dinner_ok order n d \<Longrightarrow> h < n \<Longrightarrow> j < n \<Longrightarrow> forks d ! h = Some j \<longleftrightarrow> holds (philosophers d ! j) (order j) h"
  by (simp add: dinner_ok_def)

lemma dinner_ok_step:
  assumes "eat_step order d d'" "dinner_ok order n d" "order_ok order n"
  shows "dinner_ok order n d'"
  using assms
proof (induction rule: eat_step.induct)
  case (lock_first i d f g)
  then have b: "i < n" "f < g" "g < n" by (auto simp: dinner_ok_def order_ok_def)
  have "\<not> holds (philosophers d ! j) (order j) f" if "j < n" for j
    using holder[OF lock_first(5) _ that, of f] lock_first(4) b by simp
  then show ?case using lock_first b by (auto simp: dinner_ok_def nth_list_update split: if_splits)
next
  case (lock_second i d f g)
  then have b: "i < n" "f < g" "g < n" by (auto simp: dinner_ok_def order_ok_def)
  have "\<not> holds (philosophers d ! j) (order j) g" if "j < n" for j
    using holder[OF lock_second(5) _ that, of g] lock_second(4) b by simp
  then show ?case using lock_second b by (auto simp: dinner_ok_def nth_list_update split: if_splits)
next
  case (finish i d f g)
  then have b: "i < n" "f < g" "g < n" by (auto simp: dinner_ok_def order_ok_def)
  have "\<not> holds (philosophers d ! j) (order j) h" if "j < n" "j \<noteq> i" "h = f \<or> h = g" for j h
    using holder[OF finish(4) _ that(1), of h] holder[OF finish(4) _ b(1), of h] finish(2,3) that b by auto
  then show ?case using finish b by (auto simp: dinner_ok_def nth_list_update split: if_splits)
qed

lemma dinner_start_ok: "dinner_ok order n (dinner_start n)"
  by (simp add: dinner_ok_def dinner_start_def)

lemma dining_ok: "dining order n k d \<Longrightarrow> order_ok order n \<Longrightarrow> dinner_ok order n d"
  by (induction rule: dining.induct) (auto intro: dinner_start_ok dinner_ok_step)

text \<open>Every step takes a philosopher one step on.\<close>

fun progress :: "philosopher \<Rightarrow> nat" where
  "progress Thinking = 0" | "progress Has_first = 1" | "progress Has_both = 2" | "progress Fed = 3"

lemma progress_update:
  "i < length ps \<Longrightarrow> progress q = Suc (progress (ps ! i)) \<Longrightarrow>
   sum_list (map progress (ps[i := q])) = Suc (sum_list (map progress ps))"
  by (induction ps arbitrary: i) (auto split: nat.splits)

lemma dining_progress: "dining order n k d \<Longrightarrow> k = sum_list (map progress (philosophers d)) \<and> length (philosophers d) = n"
proof (induction rule: dining.induct)
  case (dining_step k d d')
  from dining_step(2,3) show ?case by (induction rule: eat_step.induct) (simp_all add: progress_update)
qed (simp add: dinner_start_def sum_list_replicate)

lemma progress_bound: "sum_list (map progress ps) \<le> 3 * length ps"
proof (induction ps)
  case (Cons p ps)
  then show ?case by (cases p) auto
qed simp

text \<open>With ordered forks somebody can always go on: the waiting philosopher whose first fork is highest waits for a
fork that nobody can hold.\<close>

lemma ordered_dinner_goes_on:
  assumes ok: "dinner_ok order n d" "order_ok order n" and hungry: "i < n" "philosophers d ! i \<noteq> Fed"
  shows "\<exists>d'. eat_step order d d'"
proof (rule ccontr)
  assume stuck: "\<nexists>d'. eat_step order d d'"
  have len: "length (philosophers d) = n" using ok by (simp add: dinner_ok_def)
  have owner: "\<exists>j < n. philosophers d ! j = Has_first \<and> fst (order j) = h" if h: "h < n" "forks d ! h \<noteq> None" for h
  proof -
    obtain j where j: "j < n" "holds (philosophers d ! j) (order j) h" using h ok by (auto simp: dinner_ok_def)
    have "philosophers d ! j \<noteq> Has_both"
      using stuck finish[of j d order "fst (order j)" "snd (order j)"] j(1) len by auto
    then show ?thesis using j by (cases "philosophers d ! j") auto
  qed
  have fork: "fst (order j) < snd (order j)" "snd (order j) < n" "fst (order j) < n" if "j < n" for j
    using ok(2) that by (auto simp: order_ok_def intro: less_trans)
  define W where "W = {j. j < n \<and> philosophers d ! j = Has_first}"
  have "W \<noteq> {}"
  proof (cases "philosophers d ! i")
    case Thinking
    then have "forks d ! fst (order i) \<noteq> None"
      using stuck lock_first[of i d order "fst (order i)" "snd (order i)"] hungry(1) len by auto
    then show ?thesis using owner fork(3) hungry(1) by (auto simp: W_def)
  next
    case Has_both
    then show ?thesis using stuck finish[of i d order "fst (order i)" "snd (order i)"] hungry(1) len by auto
  qed (use hungry in \<open>auto simp: W_def\<close>)
  moreover have "finite W" by (simp add: W_def)
  ultimately obtain j where j: "j \<in> W" "\<forall>m \<in> W. fst (order m) \<le> fst (order j)"
    using Max_in[of "(\<lambda>m. fst (order m)) ` W"] Max_ge[of "(\<lambda>m. fst (order m)) ` W"] by fastforce
  then have "forks d ! snd (order j) \<noteq> None"
    using stuck lock_second[of j d order "fst (order j)" "snd (order j)"] len by (auto simp: W_def)
  then obtain m where "m \<in> W" "fst (order m) = snd (order j)"
    using owner[of "snd (order j)"] fork(2)[of j] j(1) by (auto simp: W_def)
  then show False using j fork(1)[of j] by (auto simp: W_def)
qed

text \<open>C39: With two or more philosophers who take the lower fork first there is no deadlock and no endless dinner, however
their steps interleave: a dinner has at most three steps for each philosopher, and it can go on exactly as long as
somebody has not eaten.\<close>

theorem ordered_philosophers_all_eat:
  assumes "2 \<le> n" "dining (lower_first n) n k d"
  shows "k \<le> 3 * n \<and> ((\<exists>d'. eat_step (lower_first n) d d') \<longleftrightarrow> \<not> all_fed d)"
proof -
  note P = dining_progress[OF assms(2)] and O = lower_first_ok[OF assms(1)]
  note ok = dining_ok[OF assms(2) O]
  have "\<not> eat_step (lower_first n) d d'" if "all_fed d" for d'
    using that by (auto elim!: eat_step.cases simp: all_fed_def list_all_length)
  moreover have "\<exists>d'. eat_step (lower_first n) d d'" if "\<not> all_fed d"
    using that ordered_dinner_goes_on[OF ok O] P by (auto simp: all_fed_def list_all_length)
  ultimately show ?thesis using progress_bound[of "philosophers d"] P by blast
qed

theorem ordered_philosophers_all_eat_witness:
  "\<exists>d'. eat_step (lower_first 5) (dinner_start 5) d'"
  using ordered_philosophers_all_eat[OF _ dining_start, of 5] by (simp add: all_fed_def dinner_start_def numeral_eq_Suc)

text \<open>The version that takes the left fork first deadlocks for any number of philosophers: after each has taken the left
fork, none can go on. So does the ordered version with a single philosopher, whose two forks are one.\<close>

definition all_left :: "nat \<Rightarrow> nat \<Rightarrow> dinner" where
  "all_left n k = \<lparr>forks = map Some [0..<k] @ replicate (n - k) None,
                   philosophers = replicate k Has_first @ replicate (n - k) Thinking\<rparr>"

lemma all_left_next:
  assumes "k < n"
  shows "eat_step (left_first n) (all_left n k) (all_left n (Suc k))"
proof -
  obtain m where "n = Suc (k + m)" using assms less_iff_Suc_add by auto
  then show ?thesis
    using lock_first[of k "all_left n k" "left_first n" k "(k + 1) mod n"]
    by (simp add: all_left_def left_first_def nth_append list_update_append replicate_app_Cons_same)
qed

lemma left_first_reaches: "k \<le> n \<Longrightarrow> dining (left_first n) n k (all_left n k)"
proof (induction k)
  case 0
  then show ?case using dining_start[of "left_first n" n] by (simp add: all_left_def dinner_start_def)
next
  case (Suc k)
  then show ?case using dining_step all_left_next by (metis Suc_le_eq less_imp_le)
qed

theorem left_first_philosophers_deadlock:
  "dining (left_first n) n n (all_left n n) \<and> (\<nexists>d'. eat_step (left_first n) (all_left n n) d') \<and>
   lower_first 1 0 = left_first 1 0"
proof -
  have "\<not> eat_step (left_first n) (all_left n n) d'" for d'
    by (auto elim!: eat_step.cases simp: all_left_def left_first_def)
  then show ?thesis using left_first_reaches[of n n] by (simp add: lower_first_def left_first_def)
qed

end
