(* ===== verification/Lab_Locks.thy ===== *)
theory Lab_Locks
  imports Lock_Stats
begin

text \<open>
  The experiment on locks that users run
  (\<open>tg-rcore-tutorial-ch8/tg-rcore-tutorial-user/src/bin/sync_experiment.rs\<close>): threads that share a counter and a lock
  made of one atomic word. A thread takes the lock, adds one and frees the lock, so many times, and exits. One atomic
  access of one thread is a step; the lock that sleeps between its attempts (\<open>SimpleMutex\<close>) differs in what it does between
  steps only. Times and the text that is printed are not modelled.
\<close>

section \<open>The threads\<close>

datatype worker_pc = Acquiring | Counting | Releasing | Exited

record lab_state =
  lab_lock :: usize
  shared_counter :: usize
  lab_workers :: "(worker_pc \<times> nat) list"

definition lock_free :: usize where "lock_free = 0"
definition lock_taken :: usize where "lock_taken = 1"

text \<open>\<open>n\<close> threads, each with \<open>ops\<close> operations to do.\<close>

definition next_operation :: "nat \<Rightarrow> worker_pc \<times> nat" where
  "next_operation k = (if k = 0 then Exited else Acquiring, k)"

definition lab_start :: "nat \<Rightarrow> nat \<Rightarrow> lab_state" where
  "lab_start n ops = \<lparr>lab_lock = lock_free, shared_counter = 0, lab_workers = replicate n (next_operation ops)\<rparr>"

inductive lab_step :: "lab_state \<Rightarrow> lab_state \<Rightarrow> bool" where
  acquire: "i < length (lab_workers s) \<Longrightarrow> lab_workers s ! i = (Acquiring, k) \<Longrightarrow>
    compare_exchange lock_free lock_taken (lab_lock s) = (Inr old, l) \<Longrightarrow>
    lab_step s (s\<lparr>lab_lock := l, lab_workers := (lab_workers s)[i := (Counting, k)]\<rparr>)"
| spin: "i < length (lab_workers s) \<Longrightarrow> lab_workers s ! i = (Acquiring, k) \<Longrightarrow>
    compare_exchange lock_free lock_taken (lab_lock s) = (Inl cur, l) \<Longrightarrow> lab_step s (s\<lparr>lab_lock := l\<rparr>)"
| count: "i < length (lab_workers s) \<Longrightarrow> lab_workers s ! i = (Counting, k) \<Longrightarrow>
    lab_step s (s\<lparr>shared_counter := shared_counter s + 1, lab_workers := (lab_workers s)[i := (Releasing, k)]\<rparr>)"
| release: "i < length (lab_workers s) \<Longrightarrow> lab_workers s ! i = (Releasing, Suc k) \<Longrightarrow>
    lab_step s (s\<lparr>lab_lock := lock_free, lab_workers := (lab_workers s)[i := next_operation k]\<rparr>)"

inductive lab_run :: "lab_state \<Rightarrow> lab_state \<Rightarrow> bool" where
  lab_run_refl: "lab_run s s"
| lab_run_step: "lab_run s t \<Longrightarrow> lab_step t u \<Longrightarrow> lab_run s u"

section \<open>Mutual exclusion and the count\<close>

fun in_section :: "worker_pc \<times> nat \<Rightarrow> nat" where
  "in_section (Counting, k) = 1" | "in_section (Releasing, k) = 1" | "in_section w = 0"

text \<open>The additions that a thread still has to do, and the steps.\<close>

fun additions_left :: "worker_pc \<times> nat \<Rightarrow> nat" where
  "additions_left (Releasing, k) = k - 1" | "additions_left (Exited, k) = 0" | "additions_left (pc, k) = k"

fun steps_left :: "worker_pc \<times> nat \<Rightarrow> nat" where
  "steps_left (Acquiring, k) = 3 * k" | "steps_left (Counting, k) = 3 * k - 1"
| "steps_left (Releasing, k) = 3 * k - 2" | "steps_left (Exited, k) = 0"

definition total :: "(worker_pc \<times> nat \<Rightarrow> nat) \<Rightarrow> lab_state \<Rightarrow> nat" where
  "total f s = (\<Sum>w \<leftarrow> lab_workers s. f w)"

lemma total_update:
  "i < length ws \<Longrightarrow> (\<Sum>w \<leftarrow> ws[i := w']. f w) + f (ws ! i) = (\<Sum>w \<leftarrow> ws. f w) + (f w' :: nat)"
  by (induction ws arbitrary: i) (auto split: nat.splits simp: nth_Cons)

definition worker_ok :: "worker_pc \<times> nat \<Rightarrow> bool" where
  "worker_ok w \<longleftrightarrow> (fst w = Exited \<longleftrightarrow> snd w = 0)"

definition lab_ok :: "nat \<Rightarrow> lab_state \<Rightarrow> bool" where
  "lab_ok all s \<longleftrightarrow> total in_section s \<le> 1 \<and> lab_lock s = of_nat (total in_section s) \<and> list_all worker_ok (lab_workers s) \<and>
     total additions_left s \<le> all \<and> shared_counter s = of_nat (all - total additions_left s)"

lemma worker_ok_update: "list_all worker_ok ws \<Longrightarrow> worker_ok w \<Longrightarrow> list_all worker_ok (ws[i := w])"
  using set_update_subset_insert[of ws i w] by (auto simp: list_all_iff)

lemma next_operation_ok: "worker_ok (next_operation k)" "in_section (next_operation k) = 0"
    "additions_left (next_operation k) = k" "steps_left (next_operation k) = 3 * k"
  by (auto simp: next_operation_def worker_ok_def)

lemma lab_step_ok:
  assumes "lab_step s s'" "lab_ok all s"
  shows "lab_ok all s'"
  using assms
proof (induction rule: lab_step.induct)
  case (acquire i s k old l)
  then have l: "lab_lock s = 0" "l = 1" by (auto simp: compare_exchange_def lock_free_def lock_taken_def split: if_splits)
  have k: "worker_ok (Acquiring, k)" using acquire by (auto simp: lab_ok_def list_all_length)
  have "total in_section s = 0" using acquire(4) l(1) by (cases "total in_section s") (auto simp: lab_ok_def)
  then show ?case
    using acquire total_update[OF acquire(1), of in_section "(Counting, k)"]
      total_update[OF acquire(1), of additions_left "(Counting, k)"] k
    by (simp add: lab_ok_def total_def l worker_ok_update worker_ok_def)
next
  case (count i s k)
  have k: "worker_ok (Counting, k)" using count by (auto simp: lab_ok_def list_all_length)
  then have "additions_left (Counting, k) = Suc (additions_left (Releasing, k))" by (simp add: worker_ok_def)
  then have left: "total additions_left s = Suc (\<Sum>w \<leftarrow> (lab_workers s)[i := (Releasing, k)]. additions_left w)"
    using total_update[OF count(1), of additions_left "(Releasing, k)"] count(2) by (simp add: total_def)
  then have "all - (total additions_left s - 1) = Suc (all - total additions_left s)"
    using count(3) by (auto simp: lab_ok_def)
  then have "(of_nat (all - (total additions_left s - 1)) :: usize) = of_nat (all - total additions_left s) + 1"
    by (simp only: of_nat_Suc add.commute)
  then show ?case
    using count total_update[OF count(1), of in_section "(Releasing, k)"] k left
    by (simp add: lab_ok_def total_def worker_ok_update worker_ok_def)
next
  case (release i s k)
  have "in_section (lab_workers s ! i) \<le> total in_section s"
    unfolding total_def using release(1) by (intro member_le_sum_list) (auto intro: imageI nth_mem)
  then have one: "total in_section s = 1" using release by (simp add: lab_ok_def)
  then show ?case
    using release total_update[OF release(1), of in_section "next_operation k"]
      total_update[OF release(1), of additions_left "next_operation k"]
    by (simp add: lab_ok_def total_def worker_ok_update next_operation_ok lock_free_def del: sum_list_eq_0_iff)
next
  case (spin i s k cur l)
  then have "l = lab_lock s" by (auto simp: compare_exchange_def split: if_splits)
  then show ?case using spin by simp
qed

lemma lab_start_ok: "lab_ok (n * ops) (lab_start n ops)"
  by (simp add: lab_ok_def lab_start_def total_def sum_list_replicate next_operation_ok lock_free_def list_all_length)

lemma lab_run_ok: "lab_run s t \<Longrightarrow> lab_ok all s \<Longrightarrow> lab_ok all t"
  by (induction rule: lab_run.induct) (auto intro: lab_step_ok)

text \<open>Whoever is in the section can go on, and when nobody is, whoever asks for the lock gets it.\<close>

lemma lab_goes_on:
  assumes ok: "lab_ok all s" and i: "i < length (lab_workers s)" "fst (lab_workers s ! i) \<noteq> Exited"
  shows "\<exists>s'. lab_step s s' \<and> total steps_left s' < total steps_left s"
proof -
  have left: "(\<Sum>w \<leftarrow> (lab_workers s)[j := w']. steps_left w) < total steps_left s"
    if "j < length (lab_workers s)" "steps_left w' < steps_left (lab_workers s ! j)" for j w'
    using total_update[OF that(1), of steps_left w'] that(2) by (simp add: total_def)
  have in_sec: ?thesis if j: "j < length (lab_workers s)" "in_section (lab_workers s ! j) \<noteq> 0" for j
  proof -
    obtain pc k where w: "lab_workers s ! j = (pc, k)" by (cases "lab_workers s ! j")
    have "worker_ok (pc, k)" using ok j(1) w by (auto simp: lab_ok_def list_all_length)
    moreover have "pc = Counting \<or> pc = Releasing" using j(2) w by (cases pc) auto
    ultimately obtain m where m: "k = Suc m" "pc = Counting \<or> pc = Releasing" by (cases k) (auto simp: worker_ok_def)
    then show ?thesis
      using count[OF j(1), of k] release[OF j(1), of m] left[OF j(1), of "(Releasing, k)"] left[OF j(1), of "next_operation m"] w
      by (fastforce simp: total_def next_operation_ok)
  qed
  show ?thesis
  proof (cases "total in_section s")
    case 0
    then have "in_section (lab_workers s ! i) = 0" using i(1) by (simp add: total_def)
    then obtain k where w: "lab_workers s ! i = (Acquiring, k)"
      using i(2) by (cases "lab_workers s ! i" rule: in_section.cases) auto
    then have "worker_ok (Acquiring, k)" using ok i(1) by (auto simp: lab_ok_def list_all_length)
    then have "0 < k" by (simp add: worker_ok_def)
    have "compare_exchange lock_free lock_taken (lab_lock s) = (Inr (lab_lock s), lock_taken)"
      using ok 0 by (simp add: lab_ok_def compare_exchange_def lock_free_def)
    from acquire[OF i(1) w this] show ?thesis
      using left[OF i(1), of "(Counting, k)"] w \<open>0 < k\<close> by (fastforce simp: total_def)
  next
    case (Suc m)
    then obtain w where "w \<in> set (lab_workers s)" "in_section w \<noteq> 0"
      unfolding total_def by (metis Zero_neq_Suc map_eq_conv sum_list_0)
    then show ?thesis using in_sec by (metis in_set_conv_nth)
  qed
qed

text \<open>C40: In the experiment with \<open>n\<close> threads of \<open>ops\<close> operations, however the threads interleave: at most one thread is between
taking and freeing the lock; until all have exited, some step brings the experiment closer to its end, so it cannot
deadlock; and once all have exited, the counter is \<open>n * ops\<close>, no addition lost.\<close>

theorem experiment_counts_every_operation:
  assumes "lab_run (lab_start n ops) s"
  shows "total in_section s \<le> 1 \<and>
    (if list_all (\<lambda>w. fst w = Exited) (lab_workers s) then shared_counter s = of_nat (n * ops)
     else \<exists>s'. lab_step s s' \<and> total steps_left s' < total steps_left s)"
proof -
  have ok: "lab_ok (n * ops) s" by (rule lab_run_ok[OF assms lab_start_ok])
  have "additions_left w = 0" if "fst w = Exited" for w using that by (cases w) simp
  then have "total additions_left s = 0" if "list_all (\<lambda>w. fst w = Exited) (lab_workers s)"
    using that by (simp add: total_def list_all_iff)
  then show ?thesis using ok lab_goes_on[OF ok] by (auto simp: lab_ok_def list_all_length)
qed

theorem experiment_counts_every_operation_witness:
  "\<exists>s'. lab_step (lab_start 2 1000) s' \<and> total steps_left s' < 6000"
proof -
  have "total steps_left (lab_start 2 1000) = 6000" "\<not> list_all (\<lambda>w. fst w = Exited) (lab_workers (lab_start 2 1000))"
    by (simp_all add: total_def lab_start_def sum_list_replicate next_operation_def numeral_2_eq_2)
  then show ?thesis
    using experiment_counts_every_operation[OF lab_run_refl, of 2 1000] by simp
qed

end
