(* ===== verification/Float64.thy ===== *)
theory Float64
  imports Complex_Main Prelude
begin

text \<open>
  The type \<open>f64\<close> of Rust, as far as the code uses it: the numbers of IEEE 754 binary64 with a sign, a significand
  below $2^{53}$ and an exponent, infinities and one NaN, and the operations rounded to nearest, ties to even. Every
  operation computes on natural numbers, so figures can be evaluated; the exact value of a number is a real and only
  occurs in proofs. The lemmas say that rounding is monotone and exact on what can be represented.
\<close>

section \<open>Rounding\<close>

text \<open>\<open>up k\<close> is $2^k$, and 1 for a negative \<open>k\<close>; so $2^k$ is \<open>up k / up (- k)\<close>.\<close>

definition up :: "int \<Rightarrow> nat" where "up k = 2 ^ nat k"

fun bits :: "nat \<Rightarrow> nat" where
  "bits n = (if n = 0 then 0 else Suc (bits (n div 2)))"

declare bits.simps [simp del]

text \<open>The exponent of the power of two at or below \<open>n / d\<close>.\<close>

definition log2_ratio :: "nat \<Rightarrow> nat \<Rightarrow> int" where
  "log2_ratio n d =
     (let k = int (bits n) - int (bits d) in if d * up k \<le> n * up (- k) then k else k - 1)"

definition half_even :: "nat \<Rightarrow> nat \<Rightarrow> nat" where
  "half_even a b =
     (let q = a div b; r = a mod b in if b < 2 * r \<or> b = 2 * r \<and> odd q then q + 1 else q)"

datatype f64 = Num bool nat int | Infty bool | NaN

text \<open>\<open>Num s m e\<close> is $m \cdot 2^e$, negative when \<open>s\<close>. \<open>round64 s n d e\<close> is the number nearest to $n / d \cdot 2^e$.\<close>

definition e_min :: int where "e_min = - 1074"
definition e_max :: int where "e_max = 971"

definition ulp_exponent :: "nat \<Rightarrow> nat \<Rightarrow> int \<Rightarrow> int" where
  "ulp_exponent n d e = max e_min (e + log2_ratio n d - 52)"

definition significand :: "nat \<Rightarrow> nat \<Rightarrow> int \<Rightarrow> nat" where
  "significand n d e = (let p = ulp_exponent n d e in half_even (n * up (e - p)) (d * up (p - e)))"

definition pack :: "bool \<Rightarrow> nat \<Rightarrow> int \<Rightarrow> f64" where
  "pack s m p =
     (let (m1, p1) = (if m = 2 ^ 53 then (2 ^ 52, p + 1) else (m, p)) in
      if e_max < p1 then Infty s else Num s m1 p1)"

definition round64 :: "bool \<Rightarrow> nat \<Rightarrow> nat \<Rightarrow> int \<Rightarrow> f64" where
  "round64 s n d e =
     (if n = 0 then Num s 0 e_min else pack s (significand n d e) (ulp_exponent n d e))"

section \<open>Operations\<close>

definition f64_of_nat :: "nat \<Rightarrow> f64" where "f64_of_nat n = round64 False n 1 0"

definition f64_of_u64 :: "u64 \<Rightarrow> f64" where "f64_of_u64 n = f64_of_nat (unat n)"

text \<open>The decimal literal with value \<open>n / d\<close>.\<close>

definition literal :: "nat \<Rightarrow> nat \<Rightarrow> f64" where "literal n d = round64 False n d 0"

definition f64_zero :: f64 where "f64_zero = literal 0 1"
definition f64_one :: f64 where "f64_one = literal 1 1"

definition signed_part :: "bool \<Rightarrow> nat \<Rightarrow> int" where "signed_part s m = (if s then - int m else int m)"

fun f64_neg :: "f64 \<Rightarrow> f64" where
  "f64_neg (Num s m e) = Num (\<not> s) m e"
| "f64_neg (Infty s) = Infty (\<not> s)"
| "f64_neg NaN = NaN"

fun f64_add :: "f64 \<Rightarrow> f64 \<Rightarrow> f64" where
  "f64_add (Num s m e) (Num t k f) =
     (let g = min e f; a = signed_part s m * 2 ^ nat (e - g) + signed_part t k * 2 ^ nat (f - g) in
      if a = 0 then Num (s \<and> t) 0 e_min else round64 (a < 0) (nat \<bar>a\<bar>) 1 g)"
| "f64_add (Infty s) (Infty t) = (if s = t then Infty s else NaN)"
| "f64_add (Infty s) (Num _ _ _) = Infty s"
| "f64_add (Num _ _ _) (Infty t) = Infty t"
| "f64_add NaN _ = NaN"
| "f64_add _ NaN = NaN"

definition f64_sub :: "f64 \<Rightarrow> f64 \<Rightarrow> f64" where "f64_sub x y = f64_add x (f64_neg y)"

fun f64_mul :: "f64 \<Rightarrow> f64 \<Rightarrow> f64" where
  "f64_mul (Num s m e) (Num t k f) = round64 (s \<noteq> t) (m * k) 1 (e + f)"
| "f64_mul (Infty s) (Infty t) = Infty (s \<noteq> t)"
| "f64_mul (Infty s) (Num t k _) = (if k = 0 then NaN else Infty (s \<noteq> t))"
| "f64_mul (Num s m _) (Infty t) = (if m = 0 then NaN else Infty (s \<noteq> t))"
| "f64_mul NaN _ = NaN"
| "f64_mul _ NaN = NaN"

fun f64_div :: "f64 \<Rightarrow> f64 \<Rightarrow> f64" where
  "f64_div (Num s m e) (Num t k f) =
     (if k = 0 then (if m = 0 then NaN else Infty (s \<noteq> t)) else round64 (s \<noteq> t) m k (e - f))"
| "f64_div (Infty _) (Infty _) = NaN"
| "f64_div (Infty s) (Num t _ _) = Infty (s \<noteq> t)"
| "f64_div (Num s _ _) (Infty t) = Num (s \<noteq> t) 0 e_min"
| "f64_div NaN _ = NaN"
| "f64_div _ NaN = NaN"

datatype ordering = Less | Equal | Greater

definition order_of :: "int \<Rightarrow> int \<Rightarrow> ordering" where
  "order_of a b = (if a < b then Less else if a = b then Equal else Greater)"

text \<open>\<open>partial_cmp\<close>: nothing for a NaN; the two zeros are equal.\<close>

fun partial_cmp :: "f64 \<Rightarrow> f64 \<Rightarrow> ordering option" where
  "partial_cmp (Num s m e) (Num t k f) =
     (let g = min e f in
      Some (order_of (signed_part s m * 2 ^ nat (e - g)) (signed_part t k * 2 ^ nat (f - g))))"
| "partial_cmp (Infty s) (Infty t) = Some (order_of (signed_part s 1) (signed_part t 1))"
| "partial_cmp (Infty s) (Num _ _ _) = Some (if s then Less else Greater)"
| "partial_cmp (Num _ _ _) (Infty t) = Some (if t then Greater else Less)"
| "partial_cmp NaN _ = None"
| "partial_cmp _ NaN = None"

definition f64_le :: "f64 \<Rightarrow> f64 \<Rightarrow> bool" where
  "f64_le x y \<longleftrightarrow> partial_cmp x y = Some Less \<or> partial_cmp x y = Some Equal"

definition f64_less :: "f64 \<Rightarrow> f64 \<Rightarrow> bool" where "f64_less x y \<longleftrightarrow> partial_cmp x y = Some Less"

definition f64_eq :: "f64 \<Rightarrow> f64 \<Rightarrow> bool" where "f64_eq x y \<longleftrightarrow> partial_cmp x y = Some Equal"

text \<open>\<open>min\<close> and \<open>max\<close> give the other argument for a NaN.\<close>

definition f64_min :: "f64 \<Rightarrow> f64 \<Rightarrow> f64" where
  "f64_min x y = (if x = NaN then y else if y = NaN \<or> f64_le x y then x else y)"

definition f64_max :: "f64 \<Rightarrow> f64 \<Rightarrow> f64" where
  "f64_max x y = (if x = NaN then y else if y = NaN \<or> f64_le y x then x else y)"

text \<open>\<open>sum\<close> adds from the left, starting with the neutral element \<open>-0.0\<close>; \<open>powi(2)\<close> is one multiplication.\<close>

definition f64_sum :: "f64 list \<Rightarrow> f64" where "f64_sum xs = foldl f64_add (Num True 0 e_min) xs"

definition f64_square :: "f64 \<Rightarrow> f64" where "f64_square x = f64_mul x x"

section \<open>Exact values\<close>

definition f64_value :: "f64 \<Rightarrow> real" where
  "f64_value x = (case x of Num s m e \<Rightarrow> of_int (signed_part s m) * 2 powi e | _ \<Rightarrow> 0)"

definition ratio :: "nat \<Rightarrow> nat \<Rightarrow> int \<Rightarrow> real" where "ratio n d e = real n / real d * 2 powi e"

lemma up_pos [simp]: "0 < up k" by (simp add: up_def)

lemma powi_up: "(2 :: real) powi k = real (up k) / real (up (- k))"
  by (cases "0 \<le> k") (auto simp: up_def power_int_def field_simps)

lemma bits_bounds: "0 < n \<Longrightarrow> 2 ^ bits n \<le> 2 * n \<and> n < 2 ^ bits n"
proof (induction n rule: bits.induct)
  case (1 n)
  show ?case
  proof (cases "n div 2 = 0")
    case True
    then have "n = 1" using 1 by simp
    then show ?thesis by (simp add: bits.simps)
  next
    case False
    then have "2 ^ bits (n div 2) \<le> 2 * (n div 2) \<and> n div 2 < 2 ^ bits (n div 2)" using 1 by simp
    then show ?thesis using 1(2) by (subst bits.simps, subst (2) bits.simps) (simp, linarith)
  qed
qed

lemma log2_ratio_bounds:
  assumes "0 < n" "0 < d"
  shows "2 powi log2_ratio n d \<le> real n / real d" "real n / real d < 2 powi (log2_ratio n d + 1)"
proof -
  define k where "k = int (bits n) - int (bits d)"
  have n: "2 ^ bits n \<le> 2 * real n" "real n < 2 ^ bits n"
    using bits_bounds[OF assms(1)] by (simp_all flip: of_nat_less_iff of_nat_le_iff[where ?'a = real])
  have d: "2 ^ bits d \<le> 2 * real d" "real d < 2 ^ bits d"
    using bits_bounds[OF assms(2)] by (simp_all flip: of_nat_less_iff of_nat_le_iff[where ?'a = real])
  have k: "(2 :: real) powi k = 2 ^ bits n / 2 ^ bits d" by (simp add: k_def power_int_diff)
  have le: "d * up k \<le> n * up (- k) \<longleftrightarrow> 2 powi k \<le> real n / real d"
    using assms by (simp add: powi_up[of k] field_simps flip: of_nat_mult)
  have "real n * 2 ^ bits d < 2 ^ bits n * (2 * real d)" "2 ^ bits n * real d \<le> 2 * real n * 2 ^ bits d"
    using less_le_trans[OF mult_strict_right_mono[OF n(2), of "2 ^ bits d"] mult_left_mono[OF d(1), of "2 ^ bits n"]]
      mult_mono[OF n(1), of "real d" "2 ^ bits d"] d(2) by simp_all
  then have "real n / real d < 2 powi (k + 1)" "2 powi (k - 1) \<le> real n / real d"
    using assms(2) by (simp_all add: power_int_add power_int_diff k field_simps)
  then show "2 powi log2_ratio n d \<le> real n / real d" "real n / real d < 2 powi (log2_ratio n d + 1)"
    using le by (auto simp: log2_ratio_def Let_def simp flip: k_def)
qed

lemma half_even_near:
  assumes "0 < b" "m = half_even a b"
  shows "2 * a \<le> (2 * m + 1) * b" "2 * m * b \<le> 2 * a + b"
    "2 * a = (2 * m + 1) * b \<Longrightarrow> even m" "2 * m * b = 2 * a + b \<Longrightarrow> even m"
proof -
  define q r where "q = a div b" and "r = a mod b"
  have a: "a = q * b + r" "r < b" using assms by (simp_all add: q_def r_def)
  have m: "m = (if b < 2 * r \<or> b = 2 * r \<and> odd q then q + 1 else q)"
    by (simp add: assms(2) half_even_def q_def r_def Let_def)
  show "2 * a \<le> (2 * m + 1) * b" "2 * m * b \<le> 2 * a + b"
    "2 * a = (2 * m + 1) * b \<Longrightarrow> even m" "2 * m * b = 2 * a + b \<Longrightarrow> even m"
    using a(2) unfolding a(1) m by (auto simp: algebra_simps split: if_splits)
qed

lemma half_even_mono:
  assumes "0 < b" "0 < b'" "real a / real b \<le> real a' / real b'"
  shows "half_even a b \<le> half_even a' b'"
proof (rule ccontr)
  define m m' where "m = half_even a b" and "m' = half_even a' b'"
  note near = half_even_near[OF assms(1) m_def] half_even_near[OF assms(2) m'_def]
  assume "\<not> half_even a b \<le> half_even a' b'"
  then have less: "m' + 1 \<le> m" by (simp add: m_def m'_def)
  have le: "a * b' \<le> a' * b" using assms by (simp add: field_simps flip: of_nat_mult)
  have up: "2 * m * (b * b') \<le> 2 * (a * b') + b * b'" "2 * (a' * b) \<le> (2 * m' + 1) * (b * b')"
    using mult_right_mono[OF near(2), of b'] mult_right_mono[OF near(5), of b] by (simp_all add: algebra_simps)
  moreover have "2 * (m' + 1) * (b * b') \<le> 2 * m * (b * b')" using less by (intro mult_right_mono) auto
  ultimately have eqs: "2 * (m' + 1) * (b * b') = 2 * m * (b * b')" "2 * m * (b * b') = 2 * (a * b') + b * b'"
      "2 * (a' * b) = (2 * m' + 1) * (b * b')"
    using le by (simp_all add: algebra_simps)
  have "b * b' * (2 * m) = b * b' * (2 * (m' + 1))" using eqs(1) by (simp add: algebra_simps)
  then have "2 * m = 2 * (m' + 1)" using assms(1,2) by (simp only: mult_cancel_left) simp
  then have m: "m = m' + 1" by simp
  have "b' * (2 * m * b) = b' * (2 * a + b)" "b * (2 * a') = b * ((2 * m' + 1) * b')"
    using eqs(2,3) by (simp_all add: algebra_simps)
  then have "2 * m * b = 2 * a + b" "2 * a' = (2 * m' + 1) * b'" using assms by simp_all
  then have "even m" "even m'" using near(4,7) by simp_all
  then show False using m by simp
qed

lemma half_even_whole [simp]: "half_even m (Suc 0) = m" by (simp add: half_even_def Let_def)

lemma half_even_multiple: "0 < b \<Longrightarrow> half_even (m * b) b = m" by (simp add: half_even_def Let_def)

text \<open>The exponent and the significand of a positive number.\<close>

lemma ratio_pos: "0 < n \<Longrightarrow> 0 < d \<Longrightarrow> 0 < ratio n d e" by (simp add: ratio_def)

lemma ratio_bounds:
  assumes "0 < n" "0 < d"
  shows "2 powi (e + log2_ratio n d) \<le> ratio n d e" "ratio n d e < 2 powi (e + log2_ratio n d + 1)"
  using mult_left_mono[OF log2_ratio_bounds(1)[OF assms], of "2 powi e"]
    mult_strict_left_mono[OF log2_ratio_bounds(2)[OF assms], of "2 powi e"]
  by (simp_all add: ratio_def power_int_add mult_ac)

lemma powi_less_iff [simp]: "(2 :: real) powi a < 2 powi b \<longleftrightarrow> a < b"
  using power_int_strict_increasing[of a b "2 :: real"] power_int_strict_increasing[of b a "2 :: real"]
  by (cases a b rule: linorder_cases) auto

lemma powi_le_iff [simp]: "(2 :: real) powi a \<le> 2 powi b \<longleftrightarrow> a \<le> b"
  by (simp flip: not_less)

lemma powi_not_le_zero [simp]: "\<not> (2 :: real) powi k \<le> 0" by (simp add: not_le)

lemma powi_Suc: "(2 :: real) powi (k + 1) = 2 * 2 powi k" by (simp add: power_int_add)

lemma ulp_exponent_mono:
  assumes "0 < n" "0 < d" "0 < n'" "0 < d'" "ratio n d e \<le> ratio n' d' e'"
  shows "ulp_exponent n d e \<le> ulp_exponent n' d' e'"
proof -
  have "(2 :: real) powi (e + log2_ratio n d) < 2 powi (e' + log2_ratio n' d' + 1)"
    using ratio_bounds[OF assms(1,2), of e] ratio_bounds[OF assms(3,4), of e'] assms(5) by linarith
  then have "e + log2_ratio n d \<le> e' + log2_ratio n' d'" by simp
  then show ?thesis by (simp add: ulp_exponent_def)
qed

lemma scaled: "real (n * up (e - p)) / real (d * up (p - e)) = ratio n d e / 2 powi p"
proof -
  have "real (n * up (e - p)) / real (d * up (p - e)) = real n / real d * (2 powi (e - p))"
    by (simp add: powi_up[of "e - p"])
  then show ?thesis by (simp add: ratio_def power_int_diff)
qed

lemma significand_mono:
  assumes "0 < d" "0 < d'" "ulp_exponent n d e = ulp_exponent n' d' e'" "ratio n d e \<le> ratio n' d' e'"
  shows "significand n d e \<le> significand n' d' e'"
  unfolding significand_def Let_def assms(3)
  by (rule half_even_mono) (use assms in \<open>simp_all only: scaled divide_right_mono power_int_eq_0_iff
      zero_less_mult_iff up_pos simp_thms zero_le_power_int zero_le_numeral nat_0_less_mult_iff\<close>)

lemma significand_upper:
  assumes "0 < n" "0 < d"
  shows "significand n d e \<le> 2 ^ 53"
proof -
  define p where "p = ulp_exponent n d e"
  have "ratio n d e < 2 powi (e + log2_ratio n d + 1)" using ratio_bounds[OF assms] by simp
  also have "\<dots> \<le> 2 powi (p + 53)" by (simp only: powi_le_iff) (simp add: p_def ulp_exponent_def)
  finally have "ratio n d e / 2 powi p \<le> real (2 ^ 53) / real (Suc 0)" by (simp add: power_int_add field_simps)
  then have "half_even (n * up (e - p)) (d * up (p - e)) \<le> half_even (2 ^ 53) (Suc 0)"
    using assms by (intro half_even_mono) (simp_all only: scaled, simp_all)
  then show ?thesis by (simp add: significand_def p_def[symmetric] Let_def)
qed

lemma significand_lower:
  assumes "0 < n" "0 < d" "e_min < ulp_exponent n d e"
  shows "2 ^ 52 \<le> significand n d e"
proof -
  define p where "p = ulp_exponent n d e"
  have p: "p + 52 = e + log2_ratio n d" using assms(3) by (simp add: p_def ulp_exponent_def max_def split: if_splits)
  have "2 powi (p + 52) \<le> ratio n d e" unfolding p using ratio_bounds[OF assms(1,2)] by simp
  then have "real (2 ^ 52) / real (Suc 0) \<le> ratio n d e / 2 powi p" by (simp add: power_int_add field_simps)
  then have "half_even (2 ^ 52) (Suc 0) \<le> half_even (n * up (e - p)) (d * up (p - e))"
    using assms by (intro half_even_mono) (simp_all only: scaled, simp_all)
  then show ?thesis by (simp add: significand_def p_def[symmetric] Let_def)
qed

text \<open>The significand is a nearest one: it is off by at most half a unit in the last place.\<close>

lemma significand_near:
  assumes "0 < d"
  shows "\<bar>ratio n d e - real (significand n d e) * 2 powi ulp_exponent n d e\<bar> \<le> 2 powi ulp_exponent n d e / 2"
proof -
  define p a b m where "p = ulp_exponent n d e" and "a = n * up (e - p)" and "b = d * up (p - e)"
    and "m = significand n d e"
  have b: "0 < b" and m: "m = half_even a b"
    using assms by (simp_all add: b_def m_def significand_def a_def p_def Let_def)
  have "real (2 * a) \<le> real ((2 * m + 1) * b)" "real (2 * m * b) \<le> real (2 * a + b)"
    using half_even_near(1,2)[OF b m] by (simp_all only: of_nat_le_iff)
  then have "real a / real b \<le> real m + 1 / 2" "real m \<le> real a / real b + 1 / 2"
    using b by (simp_all add: field_simps)
  then have "\<bar>real a / real b - real m\<bar> \<le> 1 / 2" by linarith
  then have near: "\<bar>real a / real b - real m\<bar> * 2 powi p \<le> 1 / 2 * 2 powi p" by (rule mult_right_mono) simp
  have "ratio n d e = real a / real b * 2 powi p" unfolding a_def b_def scaled by simp
  then have "ratio n d e - real m * 2 powi p = (real a / real b - real m) * 2 powi p" by (simp only: left_diff_distrib)
  then have "\<bar>ratio n d e - real m * 2 powi p\<bar> = \<bar>real a / real b - real m\<bar> * 2 powi p" by (simp only: abs_mult) simp
  then show ?thesis using near unfolding p_def[symmetric] m_def[symmetric] by linarith
qed

section \<open>Comparing\<close>

lemma f64_le_value: "f64_le (Num s m e) (Num t k f) \<longleftrightarrow> f64_value (Num s m e) \<le> f64_value (Num t k f)"
proof -
  define g a b where "g = min e f" and "a = signed_part s m * 2 ^ nat (e - g)" and "b = signed_part t k * 2 ^ nat (f - g)"
  have split: "(2 :: real) powi h = 2 ^ nat (h - g) * 2 powi g" if "g \<le> h" for h
  proof -
    have "(2 :: real) powi (int (nat (h - g)) + g) = 2 ^ nat (h - g) * 2 powi g"
      by (subst power_int_add) (simp_all only: power_int_of_nat, simp)
    then show ?thesis using that by simp
  qed
  have "(2 :: real) powi e = 2 ^ nat (e - g) * 2 powi g" "(2 :: real) powi f = 2 ^ nat (f - g) * 2 powi g"
    by (rule split, simp add: g_def)+
  then have "f64_value (Num s m e) = of_int a * 2 powi g" "f64_value (Num t k f) = of_int b * 2 powi g"
    by (simp_all add: f64_value_def a_def b_def)
  moreover have "f64_le (Num s m e) (Num t k f) \<longleftrightarrow> a \<le> b"
    by (auto simp: f64_le_def a_def b_def g_def order_of_def Let_def)
  ultimately show ?thesis by simp
qed

lemma f64_le_simps [simp]:
  "f64_le (Infty s) (Num t k f) = s" "f64_le (Num t k f) (Infty s) = (\<not> s)"
  "f64_le (Infty s) (Infty t) = (t \<longrightarrow> s)" "f64_le NaN x = False" "f64_le x NaN = False"
  by (auto simp: f64_le_def order_of_def signed_part_def) (cases x; simp)+

lemma f64_le_refl: "x \<noteq> NaN \<Longrightarrow> f64_le x x"
  by (cases x) (simp_all add: f64_le_value)

lemma f64_le_trans: "f64_le x y \<Longrightarrow> f64_le y z \<Longrightarrow> f64_le x z"
  by (cases x; cases y; cases z) (auto simp: f64_le_value)

lemma f64_le_total: "x \<noteq> NaN \<Longrightarrow> y \<noteq> NaN \<Longrightarrow> f64_le x y \<or> f64_le y x"
  by (cases x; cases y) (auto simp: f64_le_value)

lemma partial_cmp_some: "x \<noteq> NaN \<Longrightarrow> y \<noteq> NaN \<Longrightarrow> \<exists>c. partial_cmp x y = Some c \<and> (c = Greater \<longrightarrow> f64_less y x) \<and> (c \<noteq> Greater \<longrightarrow> f64_le x y)"
  by (cases x; cases y) (auto simp: f64_less_def f64_le_def order_of_def Let_def min.commute signed_part_def)

lemma f64_less_imp_le: "f64_less x y \<Longrightarrow> f64_le x y" by (simp add: f64_less_def f64_le_def)

text \<open>\<open>not_negative x\<close>: zero of either sign, a positive number or infinity; no NaN.\<close>

fun not_negative :: "f64 \<Rightarrow> bool" where
  "not_negative (Num s m e) \<longleftrightarrow> \<not> s \<or> m = 0"
| "not_negative (Infty s) \<longleftrightarrow> \<not> s"
| "not_negative NaN \<longleftrightarrow> False"

lemma not_negative_iff: "not_negative x \<longleftrightarrow> f64_le f64_zero x"
  by (cases x) (auto simp: f64_zero_def literal_def round64_def f64_le_value f64_value_def signed_part_def
      zero_le_mult_iff not_le)

section \<open>Rounding is monotone\<close>

lemma pack_mono:
  assumes "p < p' \<and> m \<le> 2 ^ 53 \<and> 2 ^ 52 \<le> m' \<or> p = p' \<and> m \<le> m'" "m' \<le> 2 ^ 53"
  shows "f64_le (pack False m p) (pack False m' p')"
proof -
  have *: "real m * 2 powi p \<le> real m' * 2 powi p'"
    using assms(1)
  proof
    assume A: "p < p' \<and> m \<le> 2 ^ 53 \<and> 2 ^ 52 \<le> m'"
    then have "real m * 2 powi p \<le> real (2 ^ 53) * 2 powi p" by (intro mult_right_mono) (simp_all only: of_nat_le_iff, simp_all)
    also have "\<dots> = real (2 ^ 52) * 2 powi (p + 1)" by (simp add: powi_Suc)
    also have "\<dots> \<le> real m' * 2 powi p'" using A by (intro mult_mono) (simp_all only: of_nat_le_iff powi_le_iff, simp_all)
    finally show ?thesis .
  qed simp
  show ?thesis
    using assms *
    by (auto simp: pack_def Let_def f64_le_value f64_value_def signed_part_def powi_Suc split: if_splits)
qed

lemma round64_mono:
  assumes "0 < d" "0 < d'" "ratio n d e \<le> ratio n' d' e'"
  shows "f64_le (round64 False n d e) (round64 False n' d' e')"
proof -
  consider "n = 0" | "0 < n" "n' = 0" | "0 < n" "0 < n'" by auto
  then show ?thesis
  proof cases
    case 1
    then show ?thesis
      by (auto simp: round64_def pack_def Let_def f64_le_value f64_value_def signed_part_def split: if_splits)
  next
    case 2
    then have "0 < ratio n d e" "ratio n' d' e' = 0" using assms ratio_pos[of n d e] by (simp_all add: ratio_def)
    then show ?thesis using assms(3) by simp
  next
    case 3
    note E = ulp_exponent_mono[OF 3(1) assms(1) 3(2) assms(2,3)]
    have "f64_le (pack False (significand n d e) (ulp_exponent n d e)) (pack False (significand n' d' e') (ulp_exponent n' d' e'))"
    proof (rule pack_mono)
      show "ulp_exponent n d e < ulp_exponent n' d' e' \<and> significand n d e \<le> 2 ^ 53 \<and> 2 ^ 52 \<le> significand n' d' e' \<or>
          ulp_exponent n d e = ulp_exponent n' d' e' \<and> significand n d e \<le> significand n' d' e'"
        using E significand_upper[OF 3(1) assms(1), of e] significand_lower[OF 3(2) assms(2), of e']
          significand_mono[OF assms(1,2) _ assms(3)]
        by (cases "ulp_exponent n d e = ulp_exponent n' d' e'") (auto simp: ulp_exponent_def)
      show "significand n' d' e' \<le> 2 ^ 53" by (rule significand_upper[OF 3(2) assms(2)])
    qed
    then show ?thesis using 3 by (simp add: round64_def)
  qed
qed

text \<open>The rounded number depends on the exact value only.\<close>

lemma round64_cong:
  assumes "0 < d" "0 < d'" "ratio n d e = ratio n' d' e'"
  shows "round64 s n d e = round64 s n' d' e'"
proof (cases "n = 0 \<or> n' = 0")
  case True
  then have "n = 0 \<and> n' = 0" using assms ratio_pos[of n d e] ratio_pos[of n' d' e'] by (auto simp: ratio_def)
  then show ?thesis by (simp add: round64_def)
next
  case False
  then have E: "ulp_exponent n d e = ulp_exponent n' d' e'"
    using assms ulp_exponent_mono[of n d n' d' e e'] ulp_exponent_mono[of n' d' n d e' e] by force
  then have "significand n d e = significand n' d' e'"
    using assms significand_mono[of d d' n e n' e'] significand_mono[of d' d n' e' n e] by force
  then show ?thesis using False E by (simp add: round64_def)
qed

text \<open>What the operations give are numbers of the format, and these are rounded to themselves.\<close>

fun representable :: "f64 \<Rightarrow> bool" where
  "representable (Num s m e) \<longleftrightarrow> m < 2 ^ 53 \<and> e_min \<le> e \<and> e \<le> e_max \<and> (2 ^ 52 \<le> m \<or> e = e_min)"
| "representable _ \<longleftrightarrow> True"

lemma pack_representable:
  "m \<le> 2 ^ 53 \<Longrightarrow> e_min \<le> p \<Longrightarrow> 2 ^ 52 \<le> m \<or> p = e_min \<Longrightarrow> representable (pack s m p)"
  by (auto simp: pack_def Let_def e_min_def e_max_def)

lemma round64_representable: "0 < d \<Longrightarrow> representable (round64 s n d e)"
  using significand_upper[of n d e] significand_lower[of n d e]
  by (auto simp: round64_def e_min_def e_max_def ulp_exponent_def intro!: pack_representable)

lemma log2_ratio_whole:
  assumes "0 < m"
  shows "m < 2 ^ k \<Longrightarrow> log2_ratio m 1 < int k" "2 ^ k \<le> m \<Longrightarrow> int k \<le> log2_ratio m 1"
proof -
  have log: "2 powi log2_ratio m 1 \<le> real m" "real m < 2 powi (log2_ratio m 1 + 1)"
    using log2_ratio_bounds[of m 1] assms by simp_all
  have k: "(2 :: real) powi int k = real (2 ^ k)" by simp
  show "log2_ratio m 1 < int k" if "m < 2 ^ k"
  proof -
    have "real m < real (2 ^ k)" using that by (simp only: of_nat_less_iff)
    then have "(2 :: real) powi log2_ratio m 1 < 2 powi int k" using log(1) k by linarith
    then show ?thesis by (simp only: powi_less_iff)
  qed
  show "int k \<le> log2_ratio m 1" if "2 ^ k \<le> m"
  proof -
    have "real (2 ^ k) \<le> real m" using that by (simp only: of_nat_le_iff)
    then have "(2 :: real) powi int k < 2 powi (log2_ratio m 1 + 1)" using log(2) k by linarith
    then show ?thesis by (simp only: powi_less_iff)
  qed
qed

lemma round64_exact:
  assumes "representable (Num s m e)"
  shows "round64 s m 1 e = Num s m e"
proof (cases "m = 0")
  case True
  then show ?thesis using assms by (auto simp: round64_def)
next
  case False
  have up: "log2_ratio m 1 \<le> 52" using assms log2_ratio_whole[of m 53] False by simp
  have low: "52 \<le> log2_ratio m 1" if "2 ^ 52 \<le> m" using that log2_ratio_whole[of m 52] False by simp
  have E: "ulp_exponent m 1 e = e"
    using assms up low by (auto simp: ulp_exponent_def max_def)
  then show ?thesis
    using assms False by (simp add: round64_def significand_def pack_def up_def Let_def)
qed

lemma round64_not_negative [simp]: "not_negative (round64 False n d e)"
  by (simp add: round64_def pack_def Let_def)

lemma round64_not_nan [simp]: "round64 s n d e \<noteq> NaN"
  by (simp add: round64_def pack_def Let_def)

lemma not_negative_not_nan: "not_negative x \<Longrightarrow> x \<noteq> NaN" by auto

section \<open>Integers and quotients\<close>

lemma f64_one_eq: "f64_one = Num False (2 ^ 52) (- 52)"
proof -
  have "f64_one = round64 False (2 ^ 52) 1 (- 52)"
    unfolding f64_one_def literal_def by (rule round64_cong) (simp_all add: ratio_def power_int_minus)
  then show ?thesis using round64_exact[of False "2 ^ 52" "- 52"] by (simp add: e_min_def e_max_def)
qed

lemma f64_zero_eq: "f64_zero = Num False 0 e_min" by (simp add: f64_zero_def literal_def round64_def)

lemma f64_zero_le_one: "f64_le f64_zero f64_one" by (simp add: f64_one_eq flip: not_negative_iff)

lemma f64_zero_not_nan [simp]: "f64_zero \<noteq> NaN" by (simp add: f64_zero_eq)

lemma f64_eq_zero: "f64_eq x f64_zero \<longleftrightarrow> (\<exists>s e. x = Num s 0 e)"
  by (cases x) (auto simp: f64_eq_def f64_zero_eq Let_def order_of_def signed_part_def split: if_splits)

lemma ratio_whole: "ratio n 1 0 = real n" by (simp add: ratio_def)

lemma f64_of_u64_mono: "a \<le> b \<Longrightarrow> f64_le (f64_of_u64 a) (f64_of_u64 b)"
  unfolding f64_of_u64_def f64_of_nat_def
  by (rule round64_mono) (simp_all only: ratio_whole of_nat_le_iff word_le_nat_alt zero_less_one)

lemma f64_of_u64_zero [simp]: "f64_of_u64 0 = Num False 0 e_min"
  by (simp add: f64_of_u64_def f64_of_nat_def round64_def)

lemma two_64: "round64 False (2 ^ 64) 1 0 = Num False (2 ^ 52) 12"
proof -
  have "round64 False (2 ^ 64) 1 0 = round64 False (2 ^ 52) 1 12"
    by (rule round64_cong) (simp_all add: ratio_def)
  then show ?thesis using round64_exact[of False "2 ^ 52" 12] by (simp add: e_min_def e_max_def)
qed

lemma f64_of_nat_num:
  assumes "n \<le> 2 ^ 64"
  obtains m e where "f64_of_nat n = Num False m e" "representable (Num False m e)" "real m * 2 powi e \<le> 2 ^ 64"
    "0 < n \<Longrightarrow> 0 < m \<and> 1 \<le> real m * 2 powi e"
proof -
  have "f64_le (f64_of_nat n) (round64 False (2 ^ 64) 1 0)"
    unfolding f64_of_nat_def using assms by (intro round64_mono) (simp_all only: ratio_whole of_nat_le_iff zero_less_one)
  then have le: "f64_le (f64_of_nat n) (Num False (2 ^ 52) 12)" by (simp only: two_64)
  have nn: "not_negative (f64_of_nat n)" by (simp add: f64_of_nat_def)
  obtain s m e where num: "f64_of_nat n = Num s m e" using le nn by (cases "f64_of_nat n") auto
  have rep: "representable (f64_of_nat n)" by (simp add: f64_of_nat_def round64_representable)
  have s: "\<not> s" using num by (auto simp: f64_of_nat_def round64_def pack_def Let_def split: if_splits)
  have upper: "real m * 2 powi e \<le> 2 ^ 64"
    using le s by (simp add: num f64_le_value f64_value_def signed_part_def)
  have lower: "0 < m \<and> 1 \<le> real m * 2 powi e" if "0 < n"
  proof -
    have "1 \<le> n" using that by simp
    then have "f64_le f64_one (f64_of_nat n)"
      unfolding f64_one_def literal_def f64_of_nat_def
      by (intro round64_mono) (simp_all only: ratio_whole of_nat_le_iff zero_less_one)
    then have "1 \<le> real m * 2 powi e"
      using s by (simp add: f64_one_eq num f64_le_value f64_value_def signed_part_def power_int_minus)
    then show ?thesis by (cases "m = 0") auto
  qed
  show thesis using that[of m e] num rep s upper lower by simp
qed

lemma f64_of_u64_num:
  obtains m e where "f64_of_u64 n = Num False m e" "representable (Num False m e)" "real m * 2 powi e \<le> 2 ^ 64"
    "n \<noteq> 0 \<Longrightarrow> 0 < m \<and> 1 \<le> real m * 2 powi e"
proof -
  have "unat n \<le> 2 ^ 64" using unsigned_less[of n, where ?'a = nat] by simp
  then show thesis using f64_of_nat_num[of "unat n"] that unfolding f64_of_u64_def by (metis unat_gt_0)
qed

lemma f64_div_nums: "0 < k \<Longrightarrow> f64_div (Num False m e) (Num False k f) = round64 False m k (e - f)"
  by simp

lemma ratio_quotient: "0 < k \<Longrightarrow> ratio m k (e - f) = (real m * 2 powi e) / (real k * 2 powi f)"
  by (simp add: ratio_def power_int_diff)

text \<open>A part divided by the whole is at most one, and the whole by itself is one.\<close>

lemma f64_div_le_one:
  assumes "f64_le (Num False m e) (Num False k f)" "0 < k"
  shows "f64_le (f64_div (Num False m e) (Num False k f)) f64_one"
  unfolding f64_div_nums[OF assms(2)] f64_one_def literal_def
  using assms by (intro round64_mono)
    (simp_all add: ratio_quotient divide_le_eq_1 f64_le_value f64_value_def signed_part_def ratio_def zero_less_mult_iff
      power_int_diff)

lemma f64_div_self: "0 < k \<Longrightarrow> f64_div (Num False k f) (Num False k f) = f64_one"
  unfolding f64_div_nums f64_one_def literal_def by (rule round64_cong) (simp_all add: ratio_def)

lemma f64_div_u64:
  assumes "b \<noteq> 0"
  obtains m e where "f64_div (f64_of_u64 a) (f64_of_u64 b) = Num False m e"
proof -
  obtain m e where a: "f64_of_u64 a = Num False m e" "real m * 2 powi e \<le> 2 ^ 64" by (rule f64_of_u64_num)
  obtain k f where b: "f64_of_u64 b = Num False k f" "0 < k" "1 \<le> real k * 2 powi f"
    using assms f64_of_u64_num[of b] by metis
  have "real m * 2 powi e / (real k * 2 powi f) \<le> 2 ^ 64"
    using mult_mono[OF a(2) b(3)] b(2,3) by (simp add: divide_le_eq)
  then have "f64_le (round64 False m k (e - f)) (round64 False (2 ^ 64) 1 0)"
    using b(2) by (intro round64_mono) (simp_all add: ratio_quotient, (simp add: ratio_def)?)
  then have "f64_le (f64_div (f64_of_u64 a) (f64_of_u64 b)) (Num False (2 ^ 52) 12)"
    unfolding a(1) b(1) f64_div_nums[OF b(2)] two_64 .
  moreover have "not_negative (f64_div (f64_of_u64 a) (f64_of_u64 b))" by (simp add: a(1) b(1) f64_div_nums[OF b(2)] b(2))
  ultimately obtain s m' e' where q: "f64_div (f64_of_u64 a) (f64_of_u64 b) = Num s m' e'"
    by (cases "f64_div (f64_of_u64 a) (f64_of_u64 b)") auto
  then have "\<not> s" using b(2)
    by (auto simp: a(1) b(1) round64_def pack_def Let_def split: if_splits)
  then show thesis using that q by simp
qed

section \<open>Sums without NaN\<close>

lemma f64_add_nums:
  fixes m e k f
  defines "g \<equiv> min e f"
  defines "a \<equiv> m * 2 ^ nat (e - g) + k * 2 ^ nat (f - g)"
  assumes "\<not> s \<or> m = 0" "\<not> t \<or> k = 0"
  shows "f64_add (Num s m e) (Num t k f) = (if a = 0 then Num (s \<and> t) 0 e_min else round64 False a 1 g)"
proof -
  have "signed_part s m * 2 ^ nat (e - g) + signed_part t k * 2 ^ nat (f - g) = int a"
    using assms(3,4) by (auto simp: signed_part_def a_def)
  then show ?thesis by (simp add: Let_def flip: g_def)
qed

lemma f64_add_not_negative: "not_negative x \<Longrightarrow> not_negative y \<Longrightarrow> not_negative (f64_add x y)"
  by (cases x; cases y) (simp_all add: f64_add_nums del: f64_add.simps(1) split: if_splits)

lemma f64_sum_not_negative:
  assumes "\<forall>x \<in> set xs. not_negative x"
  shows "not_negative (f64_sum xs)"
proof -
  have "not_negative x \<Longrightarrow> not_negative (foldl f64_add x xs)" for x
    using assms by (induction xs arbitrary: x) (simp_all add: f64_add_not_negative)
  then show ?thesis by (simp add: f64_sum_def)
qed

lemma f64_div_not_negative: "not_negative x \<Longrightarrow> 0 < k \<Longrightarrow> not_negative (f64_div x (Num False k f))"
  by (cases x) (auto simp: round64_def[of _ 0])

lemma f64_square_not_negative: "x \<noteq> NaN \<Longrightarrow> not_negative (f64_square x)"
  by (cases x) (simp_all add: f64_square_def)

lemma f64_sub_not_nan: "y \<noteq> NaN \<Longrightarrow> f64_sub (Num s m e) y \<noteq> NaN"
  by (cases y) (simp_all add: f64_sub_def Let_def)

text \<open>A sum is at least each of its parts.\<close>

lemma f64_add_upper:
  assumes "representable x" "not_negative x" "not_negative y"
  shows "f64_le x (f64_add x y)"
proof (cases "\<exists>m e t k f. x = Num False m e \<and> y = Num t k f")
  case False
  show ?thesis
  proof (cases x)
    case (Num s m e)
    show ?thesis
    proof (cases s)
      case True
      then have "f64_value x = 0" using assms(2) Num by (simp add: f64_value_def signed_part_def)
      moreover have "f64_le f64_zero (f64_add x y)"
        using f64_add_not_negative[OF assms(2,3)] by (simp add: not_negative_iff)
      ultimately show ?thesis
        by (cases "f64_add x y") (auto simp: Num f64_le_value f64_zero_def literal_def round64_def f64_value_def
            signed_part_def split: if_splits)
    next
      case False
      then show ?thesis using Num \<open>\<not> (\<exists>m e t k f. _)\<close> assms(3) by (cases y) auto
    qed
  next
    case (Infty s)
    then show ?thesis using assms by (cases y) auto
  qed (use assms in simp)
next
  case True
  then obtain m e t k f where xy: "x = Num False m e" "y = Num t k f" by blast
  define g where "g = min e f"
  define a where "a = m * 2 ^ nat (e - g) + k * 2 ^ nat (f - g)"
  have sum: "f64_add x y = (if a = 0 then Num False 0 e_min else round64 False a 1 g)"
    using f64_add_nums[of False m t k e f] assms(3) xy by (simp add: g_def a_def del: f64_add.simps)
  have "(2 :: real) powi (int (nat (e - g)) + g) = 2 ^ nat (e - g) * 2 powi g"
    by (subst power_int_add) (simp_all only: power_int_of_nat, simp)
  then have "2 powi e = (2 :: real) ^ nat (e - g) * 2 powi g" by (simp add: g_def)
  then have "ratio m 1 e \<le> ratio a 1 g" by (simp add: ratio_def a_def algebra_simps)
  then have "f64_le (round64 False m 1 e) (round64 False a 1 g)" by (rule round64_mono[rotated 2]) simp_all
  moreover have "round64 False m 1 e = x" using assms(1) xy round64_exact by simp
  ultimately show ?thesis
    unfolding sum by (auto simp: a_def xy f64_le_value f64_value_def signed_part_def)
qed

lemma f64_add_comm: "f64_add x y = f64_add y x"
  by (cases x; cases y) (auto simp: Let_def min.commute add.commute)

section \<open>Known numbers\<close>

text \<open>Decimal literals and their sums have the significands and exponents that the format gives them.\<close>

lemma f64_examples:
  "literal 1 10 = Num False 7205759403792794 (- 56)"
  "f64_add (literal 1 10) (literal 2 10) = Num False 5404319552844596 (- 54)"
  "f64_add (literal 1 10) (literal 2 10) \<noteq> literal 3 10"
  "f64_div (literal 1 1) (literal 3 1) = Num False 6004799503160661 (- 54)"
  "f64_of_u64 0xFFFFFFFFFFFFFFFF = Num False (2 ^ 52) 12"
  "f64_sub (literal 1 1) (literal 1 1) = f64_zero"
  "f64_div f64_zero f64_zero = NaN"
  "f64_mul (Num False (2 ^ 52) 971) (literal 2 1) = Infty False"
  by (simp_all add: literal_def f64_zero_def f64_of_u64_def f64_of_nat_def round64_def pack_def significand_def ulp_exponent_def
      half_even_def log2_ratio_def bits.simps up_def e_min_def e_max_def Let_def signed_part_def f64_sub_def)

end
