(* ===== verification/Sync_Metrics.thy ===== *)
theory Sync_Metrics
  imports Float64 Lock_Stats
begin

text \<open>
  The monitor of the synchronisation primitives: \<open>tg-rcore-tutorial-ch8/src/sync_metrics.rs\<close>. The counters of a
  primitive, the figures computed from them in \<open>f64\<close> and the report that compares three primitives.
\<close>

section \<open>Counters\<close>

record thread_wait_stats =
  tw_tid :: usize
  tw_count :: u64
  tw_total :: u64
  tw_max :: u64

record lock_metrics =
  acquire_attempts :: u64
  acquire_success :: u64
  acquire_failures :: u64
  lm_total_wait :: u64
  lm_max_wait :: u64
  thread_waits :: "thread_wait_stats list"

definition lock_metrics_new :: lock_metrics where
  "lock_metrics_new = \<lparr>acquire_attempts = 0, acquire_success = 0, acquire_failures = 0, lm_total_wait = 0,
     lm_max_wait = 0, thread_waits = []\<rparr>"

definition record_acquire_attempt :: "lock_metrics \<Rightarrow> lock_metrics" where
  "record_acquire_attempt m = m\<lparr>acquire_attempts := acquire_attempts m + 1\<rparr>"

definition record_acquire_success :: "u64 \<Rightarrow> lock_metrics \<Rightarrow> lock_metrics" where
  "record_acquire_success wait m =
     m\<lparr>acquire_success := acquire_success m + 1,
       lm_total_wait := lm_total_wait m + wait,
       lm_max_wait := update_max_time wait (lm_max_wait m)\<rparr>"

definition record_acquire_failure :: "lock_metrics \<Rightarrow> lock_metrics" where
  "record_acquire_failure m = m\<lparr>acquire_failures := acquire_failures m + 1\<rparr>"

text \<open>The first entry of the thread is updated, or one is added at the end. The additions are checked.\<close>

primrec note_wait :: "usize \<Rightarrow> u64 \<Rightarrow> thread_wait_stats list \<Rightarrow> thread_wait_stats list res" where
  "note_wait t wait [] = Inr [\<lparr>tw_tid = t, tw_count = 1, tw_total = wait, tw_max = wait\<rparr>]"
| "note_wait t wait (s # ss) =
     (if tw_tid s = t then
        bind_res (plus_usize (tw_count s) 1) (\<lambda>n.
        bind_res (plus_usize (tw_total s) wait) (\<lambda>w.
          Inr (s\<lparr>tw_count := n, tw_total := w, tw_max := if tw_max s < wait then wait else tw_max s\<rparr> # ss)))
      else bind_res (note_wait t wait ss) (\<lambda>ss1. Inr (s # ss1)))"

definition record_thread_wait :: "usize \<Rightarrow> u64 \<Rightarrow> lock_metrics \<Rightarrow> lock_metrics res" where
  "record_thread_wait t wait m =
     bind_res (note_wait t wait (thread_waits m)) (\<lambda>ss. Inr (m\<lparr>thread_waits := ss\<rparr>))"

section \<open>Figures\<close>

definition per :: "u64 \<Rightarrow> u64 \<Rightarrow> f64" where
  "per a b = (if b = 0 then f64_zero else f64_div (f64_of_u64 a) (f64_of_u64 b))"

definition metrics_contention_rate :: "lock_metrics \<Rightarrow> f64" where
  "metrics_contention_rate m = per (acquire_failures m) (acquire_attempts m)"

definition metrics_avg_wait_time :: "lock_metrics \<Rightarrow> f64" where
  "metrics_avg_wait_time m = per (lm_total_wait m) (acquire_success m)"

definition fairness_check :: "u64 \<Rightarrow> lock_metrics \<Rightarrow> bool" where
  "fairness_check max_allowed m \<longleftrightarrow> lm_max_wait m \<le> max_allowed"

definition starvation_check :: "u64 \<Rightarrow> lock_metrics \<Rightarrow> bool" where
  "starvation_check threshold m \<longleftrightarrow> list_ex (\<lambda>s. threshold < tw_max s) (thread_waits m)"

text \<open>The mean of the averages, and the mean of the squared distances from it.\<close>

definition variance :: "f64 list \<Rightarrow> nat \<Rightarrow> f64" where
  "variance averages n =
     (let mean = f64_div (f64_sum averages) (f64_of_nat n) in
      f64_div (f64_sum (map (\<lambda>a. f64_square (f64_sub a mean)) averages)) (f64_of_nat n))"

definition metrics_fairness_variance :: "lock_metrics \<Rightarrow> f64" where
  "metrics_fairness_variance m =
     (let ss = thread_waits m in
      if length ss < 2 then f64_zero
      else variance (map (\<lambda>s. f64_div (f64_of_u64 (tw_total s)) (f64_of_u64 (tw_count s))) ss) (length ss))"

record context_switch_metrics =
  spinlock_switches :: u64
  sleeplock_switches :: u64
  voluntary_switches :: u64

definition context_switch_metrics_new :: context_switch_metrics where
  "context_switch_metrics_new = \<lparr>spinlock_switches = 0, sleeplock_switches = 0, voluntary_switches = 0\<rparr>"

definition compare_overhead :: "context_switch_metrics \<Rightarrow> f64 \<times> f64" where
  "compare_overhead c =
     (let spin = f64_of_u64 (spinlock_switches c); sleep = f64_of_u64 (sleeplock_switches c);
          all = f64_add spin sleep in
      if f64_eq all f64_zero then (f64_zero, f64_zero) else (f64_div spin all, f64_div sleep all))"

section \<open>The report\<close>

record sync_monitor =
  spinlock_metrics :: lock_metrics
  mutex_metrics :: lock_metrics
  semaphore_metrics :: lock_metrics
  context_metrics :: context_switch_metrics

definition sync_monitor_new :: sync_monitor where
  "sync_monitor_new = \<lparr>spinlock_metrics = lock_metrics_new, mutex_metrics = lock_metrics_new,
     semaphore_metrics = lock_metrics_new, context_metrics = context_switch_metrics_new\<rparr>"

record sync_performance_report =
  spinlock_contention :: f64
  mutex_contention :: f64
  semaphore_contention :: f64
  spinlock_avg_wait :: f64
  mutex_avg_wait :: f64
  semaphore_avg_wait :: f64
  spinlock_fairness :: f64
  mutex_fairness :: f64
  semaphore_fairness :: f64
  context_switch_ratio :: "f64 \<times> f64"

definition generate_sync_report :: "sync_monitor \<Rightarrow> sync_performance_report" where
  "generate_sync_report mon =
     \<lparr>spinlock_contention = metrics_contention_rate (spinlock_metrics mon),
      mutex_contention = metrics_contention_rate (mutex_metrics mon),
      semaphore_contention = metrics_contention_rate (semaphore_metrics mon),
      spinlock_avg_wait = metrics_avg_wait_time (spinlock_metrics mon),
      mutex_avg_wait = metrics_avg_wait_time (mutex_metrics mon),
      semaphore_avg_wait = metrics_avg_wait_time (semaphore_metrics mon),
      spinlock_fairness = metrics_fairness_variance (spinlock_metrics mon),
      mutex_fairness = metrics_fairness_variance (mutex_metrics mon),
      semaphore_fairness = metrics_fairness_variance (semaphore_metrics mon),
      context_switch_ratio = compare_overhead (context_metrics mon)\<rparr>"

definition verify_fairness :: "f64 \<Rightarrow> sync_performance_report \<Rightarrow> bool" where
  "verify_fairness max_variance r \<longleftrightarrow>
     f64_le (spinlock_fairness r) max_variance \<and> f64_le (mutex_fairness r) max_variance \<and>
     f64_le (semaphore_fairness r) max_variance"

definition verify_performance_bounds :: "f64 \<Rightarrow> f64 \<Rightarrow> sync_performance_report \<Rightarrow> bool" where
  "verify_performance_bounds max_contention max_wait r \<longleftrightarrow>
     f64_le (spinlock_contention r) max_contention \<and> f64_le (mutex_contention r) max_contention \<and>
     f64_le (semaphore_contention r) max_contention \<and>
     f64_le (spinlock_avg_wait r) max_wait \<and> f64_le (mutex_avg_wait r) max_wait \<and> f64_le (semaphore_avg_wait r) max_wait"

section \<open>Figures are numbers\<close>

lemma per_bounds: "a \<le> b \<Longrightarrow> f64_le f64_zero (per a b) \<and> f64_le (per a b) f64_one"
proof (cases "b = 0")
  case True
  then show ?thesis by (simp add: per_def f64_zero_le_one f64_le_refl[of f64_zero])
next
  case False
  assume le: "a \<le> b"
  obtain m e where a: "f64_of_u64 a = Num False m e" by (rule f64_of_u64_num)
  obtain k f where b: "f64_of_u64 b = Num False k f" "0 < k" using False f64_of_u64_num[of b] by metis
  have "f64_le (Num False m e) (Num False k f)" using f64_of_u64_mono[OF le] by (simp add: a b)
  from f64_div_le_one[OF this b(2)] have "f64_le (per a b) f64_one" using False by (simp only: per_def a b if_False)
  moreover have "not_negative (per a b)" using False b(2) by (simp only: per_def a b if_False f64_div_nums round64_not_negative)
  ultimately show ?thesis by (simp add: not_negative_iff)
qed

lemma per_not_negative: "not_negative (per a b)"
proof (cases "b = 0")
  case False
  then obtain m e where "f64_div (f64_of_u64 a) (f64_of_u64 b) = Num False m e" by (rule f64_div_u64)
  then show ?thesis using False by (simp add: per_def)
qed (simp add: per_def f64_zero_eq)

lemma per_self: "b \<noteq> 0 \<Longrightarrow> per b b = f64_one"
  using f64_of_u64_num[of b] f64_div_self by (metis per_def)

lemma per_zero: "per 0 b = f64_zero"
proof (cases "b = 0")
  case False
  then obtain k f where b: "f64_of_u64 b = Num False k f" "0 < k" using f64_of_u64_num[of b] by metis
  then show ?thesis using False by (simp add: per_def f64_zero_eq round64_def)
qed (simp add: per_def)

text \<open>The variance of any averages is not negative and no NaN.\<close>

lemma variance_not_negative:
  assumes "\<forall>a \<in> set averages. \<exists>m e. a = Num False m e" "0 < n" "n \<le> 2 ^ 64"
  shows "not_negative (variance averages n)"
proof -
  obtain k f where n: "f64_of_nat n = Num False k f" "0 < k" using assms(2) f64_of_nat_num[OF assms(3)] by metis
  define mean where "mean = f64_div (f64_sum averages) (f64_of_nat n)"
  have "not_negative (f64_sum averages)" using assms(1) by (intro f64_sum_not_negative) auto
  then have "mean \<noteq> NaN" using f64_div_not_negative n by (auto simp: mean_def not_negative_not_nan)
  then have "not_negative (f64_sum (map (\<lambda>a. f64_square (f64_sub a mean)) averages))"
    using assms(1) by (intro f64_sum_not_negative) (auto intro!: f64_square_not_negative dest: f64_sub_not_nan)
  from f64_div_not_negative[OF this n(2), of f] show ?thesis by (simp add: variance_def mean_def n(1))
qed

lemma compare_overhead_fractions:
  "compare_overhead c = (x, y) \<Longrightarrow> f64_le f64_zero x \<and> f64_le x f64_one \<and> f64_le f64_zero y \<and> f64_le y f64_one"
proof -
  assume c: "compare_overhead c = (x, y)"
  define spin sleep all where "spin = f64_of_u64 (spinlock_switches c)" and "sleep = f64_of_u64 (sleeplock_switches c)"
    and "all = f64_add spin sleep"
  note parts = f64_of_u64_num[of "spinlock_switches c", folded spin_def] f64_of_u64_num[of "sleeplock_switches c", folded sleep_def]
  have nn: "not_negative spin" "not_negative sleep" "representable spin" "representable sleep"
    by (rule parts(1), simp, rule parts(2), simp, rule parts(1), simp, rule parts(2), simp)
  have le: "f64_le spin all" "f64_le sleep all"
    using f64_add_upper[OF nn(3,1,2)] f64_add_upper[OF nn(4,2,1)] by (simp_all add: all_def f64_add_comm)
  have part: "f64_le f64_zero (f64_div v all) \<and> f64_le (f64_div v all) f64_one"
    if v: "f64_le v all" "\<exists>m e. v = Num False m e" and all: "\<not> f64_eq all f64_zero" for v
  proof -
    obtain m e where m: "v = Num False m e" using v by blast
    have "not_negative all" using nn f64_add_not_negative by (simp add: all_def)
    then consider "all = Infty False" | k f where "all = Num False k f" "0 < k"
      using all by (cases all) (auto simp: f64_eq_zero)
    then show ?thesis
    proof cases
      case 1
      then show ?thesis
        by (simp add: m f64_zero_eq f64_one_eq f64_le_value f64_value_def signed_part_def)
    next
      case 2
      then have "f64_le (f64_div v all) f64_one" using f64_div_le_one v m by metis
      moreover have "not_negative (f64_div v all)" using 2 by (simp add: m)
      ultimately show ?thesis by (simp add: not_negative_iff)
    qed
  qed
  have "\<exists>m e. spin = Num False m e" "\<exists>m e. sleep = Num False m e"
    by (rule parts(1), blast, rule parts(2), blast)
  note part[OF le(1) this(1)] part[OF le(2) this(2)]
  moreover have "(x, y) = (if f64_eq all f64_zero then (f64_zero, f64_zero) else (f64_div spin all, f64_div sleep all))"
    using c unfolding compare_overhead_def Let_def spin_def[symmetric] sleep_def[symmetric] all_def[symmetric] by (rule sym)
  ultimately show ?thesis by (simp add: f64_zero_le_one f64_le_refl split: if_splits)
qed

section \<open>Runs of a primitive\<close>

datatype metric_event = Attempt | Success u64 | Failure | ThreadWait usize u64

definition metric_step :: "metric_event \<Rightarrow> lock_metrics \<Rightarrow> lock_metrics res" where
  "metric_step e m =
     (case e of
        Attempt \<Rightarrow> Inr (record_acquire_attempt m)
      | Success wait \<Rightarrow> Inr (record_acquire_success wait m)
      | Failure \<Rightarrow> Inr (record_acquire_failure m)
      | ThreadWait t wait \<Rightarrow> record_thread_wait t wait m)"

primrec metrics_run :: "metric_event list \<Rightarrow> lock_metrics \<Rightarrow> lock_metrics res" where
  "metrics_run [] m = Inr m"
| "metrics_run (e # es) m = bind_res (metric_step e m) (metrics_run es)"

lemma note_wait_entries:
  "note_wait t w ss = Inr ss' \<Longrightarrow>
   map tw_tid ss' = map tw_tid ss @ (if t \<in> tw_tid ` set ss then [] else [t]) \<and>
   (list_all (\<lambda>s. tw_count s \<noteq> 0) ss \<longrightarrow> list_all (\<lambda>s. tw_count s \<noteq> 0) ss') \<and>
   (list_ex (\<lambda>s. th < tw_max s) ss' \<longleftrightarrow> list_ex (\<lambda>s. th < tw_max s) ss \<or> th < w)"
proof (induction ss arbitrary: ss')
  case (Cons s ss)
  show ?case
  proof (cases "tw_tid s = t")
    case True
    then obtain n total where n: "plus_usize (tw_count s) 1 = Inr n" "plus_usize (tw_total s) w = Inr total"
        and ss': "ss' = s\<lparr>tw_count := n, tw_total := total, tw_max := if tw_max s < w then w else tw_max s\<rparr> # ss"
      using Cons.prems by (auto simp: bind_res_eq_Inr)
    have "unat n = unat (tw_count s) + 1" using plus_usize_unat[OF n(1)] by simp
    then have "n \<noteq> 0" by (metis Suc_eq_plus1 nat.distinct(1) unat_0)
    then show ?thesis using True by (auto simp: ss' not_less intro: less_le_trans)
  next
    case False
    then obtain ss1 where ss1: "note_wait t w ss = Inr ss1" "ss' = s # ss1"
      using Cons.prems by (auto simp: bind_res_eq_Inr)
    then show ?thesis using Cons.IH[OF ss1(1)] False by auto
  qed
qed auto

definition metrics_tell :: "metric_event list \<Rightarrow> lock_metrics \<Rightarrow> bool" where
  "metrics_tell es m \<longleftrightarrow>
     acquire_attempts m = of_nat (count_list es Attempt) \<and> acquire_failures m = of_nat (count_list es Failure) \<and>
     distinct (map tw_tid (thread_waits m)) \<and> list_all (\<lambda>s. tw_count s \<noteq> 0) (thread_waits m) \<and>
     (\<forall>th. starvation_check th m \<longleftrightarrow> (\<exists>t w. ThreadWait t w \<in> set es \<and> th < w)) \<and>
     (\<forall>th. fairness_check th m \<longleftrightarrow> (\<forall>w. Success w \<in> set es \<longrightarrow> w \<le> th))"

lemma metrics_run_snoc: "metrics_run (es @ [e]) m = bind_res (metrics_run es m) (metric_step e)"
  by (induction es arbitrary: m) (auto simp: bind_res_def split: sum.splits)

lemma metric_step_tells:
  assumes "metrics_tell es m" "metric_step e m = Inr m'"
  shows "metrics_tell (es @ [e]) m'"
proof (cases e)
  case (ThreadWait t w)
  then obtain ss where ss: "note_wait t w (thread_waits m) = Inr ss" and m': "m' = m\<lparr>thread_waits := ss\<rparr>"
    using assms(2) by (auto simp: metric_step_def record_thread_wait_def bind_res_eq_Inr)
  note N = note_wait_entries[OF ss]
  have "distinct (map tw_tid ss)" using assms(1) N by (auto simp: metrics_tell_def)
  then show ?thesis
    using assms(1) N ThreadWait by (auto simp: metrics_tell_def m' starvation_check_def fairness_check_def)
qed (use assms in \<open>auto simp: metrics_tell_def metric_step_def record_acquire_attempt_def record_acquire_success_def
    record_acquire_failure_def starvation_check_def fairness_check_def update_max_time_eq\<close>)

lemma metrics_run_tells: "metrics_run es lock_metrics_new = Inr m \<Longrightarrow> metrics_tell es m"
proof (induction es arbitrary: m rule: rev_induct)
  case (snoc e es)
  then show ?case using metric_step_tells by (auto simp: metrics_run_snoc bind_res_eq_Inr)
qed (auto simp: metrics_tell_def lock_metrics_new_def starvation_check_def fairness_check_def)

lemma distinct_usize_length: "distinct (xs :: usize list) \<Longrightarrow> length xs \<le> 2 ^ 64"
  using card_mono[of "UNIV :: usize set" "set xs"] by (simp add: distinct_card card_word)

lemma metrics_variance_not_negative:
  assumes "metrics_tell es m"
  shows "not_negative (metrics_fairness_variance m)"
proof (cases "length (thread_waits m) < 2")
  case False
  define averages where "averages = map (\<lambda>s. f64_div (f64_of_u64 (tw_total s)) (f64_of_u64 (tw_count s))) (thread_waits m)"
  have "length (thread_waits m) \<le> 2 ^ 64" using assms distinct_usize_length by (force simp: metrics_tell_def)
  moreover have "\<exists>m e. a = Num False m e" if a: "a \<in> set averages" for a
  proof -
    obtain s where "s \<in> set (thread_waits m)" "a = f64_div (f64_of_u64 (tw_total s)) (f64_of_u64 (tw_count s))"
      using a by (auto simp: averages_def)
    moreover from this have "tw_count s \<noteq> 0" using assms by (auto simp: metrics_tell_def list_all_iff)
    ultimately show ?thesis using f64_div_u64[of "tw_count s" "tw_total s"] by (elim meta_allE) blast
  qed
  ultimately have "not_negative (variance averages (length (thread_waits m)))"
    using False by (intro variance_not_negative) auto
  then show ?thesis using False by (simp add: metrics_fairness_variance_def averages_def Let_def)
qed (simp add: metrics_fairness_variance_def f64_zero_eq)

text \<open>C36: The figures of a monitored primitive after any run of recorded events. When no more failures than attempts
are recorded the contention rate is a number from 0 to 1, 0 exactly when nothing failed as often as 1 exactly when everything
did; the average wait and the variance between threads are never negative and never NaN; starvation is reported exactly when some
thread waited longer than the threshold, and the bound holds exactly when every successful acquisition kept to it.\<close>

theorem monitor_figures_are_sound:
  assumes "metrics_run es lock_metrics_new = Inr m"
    and "count_list es Failure \<le> count_list es Attempt" "count_list es Attempt < 2 ^ 64"
  shows "f64_le f64_zero (metrics_contention_rate m) \<and> f64_le (metrics_contention_rate m) f64_one \<and>
    (count_list es Failure = 0 \<longrightarrow> metrics_contention_rate m = f64_zero) \<and>
    (0 < count_list es Failure \<and> count_list es Failure = count_list es Attempt \<longrightarrow> metrics_contention_rate m = f64_one) \<and>
    f64_le f64_zero (metrics_avg_wait_time m) \<and> f64_le f64_zero (metrics_fairness_variance m) \<and>
    (starvation_check threshold m \<longleftrightarrow> (\<exists>t w. ThreadWait t w \<in> set es \<and> threshold < w)) \<and>
    (fairness_check allowed m \<longleftrightarrow> (\<forall>w. Success w \<in> set es \<longrightarrow> w \<le> allowed))"
proof -
  note T = metrics_run_tells[OF assms(1)]
  have unat: "unat (of_nat n :: u64) = n" if "n < 2 ^ 64" for n using that by (simp add: unat_of_nat)
  have "acquire_failures m \<le> acquire_attempts m"
    using T assms(2,3) by (simp add: metrics_tell_def word_le_nat_alt unat)
  moreover have "acquire_attempts m \<noteq> 0" if "0 < count_list es Attempt"
    using T that unat[OF assms(3)] by (metis metrics_tell_def less_numeral_extra(3) unat_0)
  ultimately show ?thesis
    using T per_bounds[of "acquire_failures m" "acquire_attempts m"] per_not_negative metrics_variance_not_negative[OF T]
    by (auto simp: metrics_contention_rate_def metrics_avg_wait_time_def metrics_tell_def per_self per_zero
        simp flip: not_negative_iff)
qed

theorem monitor_figures_are_sound_witness:
  "\<exists>m. metrics_run [Attempt, Failure, Attempt, Success 30, ThreadWait 7 30, Attempt, Success 5, ThreadWait 8 5]
      lock_metrics_new = Inr m \<and>
    f64_le f64_zero (metrics_contention_rate m) \<and> f64_le (metrics_contention_rate m) f64_one \<and>
    starvation_check 29 m \<and> \<not> starvation_check 30 m \<and> fairness_check 30 m \<and> \<not> fairness_check 29 m"
proof -
  define es where "es = [Attempt, Failure, Attempt, Success 30, ThreadWait 7 30, Attempt, Success 5, ThreadWait 8 5]"
  obtain m where m: "metrics_run es lock_metrics_new = Inr m"
    by (simp add: es_def metric_step_def record_thread_wait_def record_acquire_attempt_def record_acquire_success_def
        record_acquire_failure_def lock_metrics_new_def)
  have "count_list es Failure \<le> count_list es Attempt" "count_list es Attempt < 2 ^ 64" by (simp_all add: es_def)
  note figures = monitor_figures_are_sound[OF m this, of 29 30] monitor_figures_are_sound[OF m this, of 30 29]
  have "\<exists>t w. ThreadWait t w \<in> set es \<and> 29 < w" by (rule exI[of _ 7], rule exI[of _ 30]) (simp add: es_def)
  moreover have "\<not> (\<exists>t w. ThreadWait t w \<in> set es \<and> 30 < w)" by (auto simp: es_def)
  moreover have "\<forall>w. Success w \<in> set es \<longrightarrow> w \<le> 30" "\<not> (\<forall>w. Success w \<in> set es \<longrightarrow> w \<le> 29)"
    by (auto simp: es_def intro!: exI[of _ 30])
  ultimately show ?thesis using figures m unfolding es_def[symmetric] by blast
qed

end
