(* ===== verification/Stress_Test.thy ===== *)
theory Stress_Test
  imports Sync_Metrics
begin

text \<open>
  Stress tests and what is made of them: the figures of \<open>LockStats\<close> in
  \<open>tg-rcore-tutorial-ch8/src/instrumented_locks.rs\<close>, the runs and the comparison of \<open>stress_test.rs\<close>, and the numbers
  of \<open>data_analysis.rs\<close>. Readings of the clock are parameters; the text of tables and reports is not modelled.
\<close>

section \<open>Figures of a lock\<close>

definition lock_contention_rate :: "lock_stats \<Rightarrow> f64" where
  "lock_contention_rate st = per (lock_failures st) (lock_attempts st)"

definition lock_avg_wait_time :: "lock_stats \<Rightarrow> f64" where
  "lock_avg_wait_time st = per (total_wait_time st) (lock_success st)"

definition lock_avg_hold_time :: "lock_stats \<Rightarrow> f64" where
  "lock_avg_hold_time st = per (total_hold_time st) (lock_success st)"

text \<open>Threads without a success are left out of the sums but not of the number that these are divided by.\<close>

definition lock_fairness_variance :: "lock_stats \<Rightarrow> f64" where
  "lock_fairness_variance st =
     (let ss = thread_stats st in
      if length ss < 2 then f64_zero
      else variance (map (\<lambda>s. f64_div (f64_of_u64 (stat_wait s)) (f64_of_u64 (stat_successes s)))
             (filter (\<lambda>s. 0 < stat_successes s) ss)) (length ss))"

section \<open>Stress tests\<close>

record stress_config =
  thread_count :: usize
  operations_per_thread :: usize
  critical_section_time :: u64
  contention_level :: f64

definition stress_config_new :: "usize \<Rightarrow> usize \<Rightarrow> u64 \<Rightarrow> f64 \<Rightarrow> stress_config" where
  "stress_config_new threads operations cs_time contention =
     \<lparr>thread_count = threads, operations_per_thread = operations, critical_section_time = cs_time,
      contention_level = contention\<rparr>"

text \<open>What the clock says in a run: the wait and the hold of each operation of each thread, and the whole time.\<close>

record clock =
  wait_of :: "nat \<Rightarrow> nat \<Rightarrow> u64"
  hold_of :: "nat \<Rightarrow> nat \<Rightarrow> u64"
  elapsed :: u64

record stress_test_result =
  st_config :: stress_config
  st_total :: usize
  st_successful :: usize
  st_time :: u64
  st_throughput :: f64
  st_stats :: lock_stats

text \<open>
  For each thread number, so many acquisitions, one after the other. Reads and writes of the read-write lock record the
  same; the critical section only waits, which the hold times contain. The counters that the runs count up beside it
  (\<open>shared_counter\<close> and the value inside the read-write lock) are never read and left out.
\<close>

definition stress_operations :: "stress_config \<Rightarrow> clock \<Rightarrow> (usize \<times> u64 \<times> u64) list" where
  "stress_operations c k =
     concat (map (\<lambda>t. map (\<lambda>i. (of_nat t, wait_of k t i, hold_of k t i)) [0..<unat (operations_per_thread c)])
       [0..<unat (thread_count c)])"

definition stress_result_new :: "stress_config \<Rightarrow> lock_stats \<Rightarrow> u64 \<Rightarrow> stress_test_result res" where
  "stress_result_new c st time =
     bind_res (times_usize (thread_count c) (operations_per_thread c)) (\<lambda>n.
     let successful = lock_success st;
         throughput = (if 0 < time
           then f64_div (f64_mul (f64_of_u64 successful) (literal 1000000000 1)) (f64_of_u64 time) else f64_zero) in
       Inr \<lparr>st_config = c, st_total = n, st_successful = successful, st_time = time, st_throughput = throughput,
            st_stats = st\<rparr>)"

definition success_rate :: "stress_test_result \<Rightarrow> f64" where
  "success_rate r =
     (if st_total r = 0 then f64_one else f64_div (f64_of_u64 (st_successful r)) (f64_of_u64 (st_total r)))"

definition run_stress_test :: "lock_kind \<Rightarrow> stress_config \<Rightarrow> clock \<Rightarrow> stress_test_result res" where
  "run_stress_test kind c k =
     bind_res (lock_run kind (stress_operations c k) lock_stats_new) (\<lambda>st. stress_result_new c st (elapsed k))"

definition kind_of_name :: "string \<Rightarrow> lock_kind res" where
  "kind_of_name name =
     (if name = ''spinlock'' then Inr SpinlockKind
      else if name = ''mutex'' then Inr MutexKind
      else if name = ''rwlock'' then Inr RwlockKind
      else Inl ExplicitPanic)"

definition contention_levels :: "f64 list" where
  "contention_levels = map (\<lambda>n. literal n 10) [1, 3, 5, 7, 9]"

text \<open>One run for each level, which only goes into the configuration. The clock of the \<open>i\<close>-th run is \<open>clocks i\<close>.\<close>

primrec contention_runs :: "string \<Rightarrow> stress_config \<Rightarrow> (nat \<Rightarrow> clock) \<Rightarrow> nat \<Rightarrow> f64 list \<Rightarrow> stress_test_result list res" where
  "contention_runs name base clocks i [] = Inr []"
| "contention_runs name base clocks i (level # levels) =
     bind_res (kind_of_name name) (\<lambda>kind.
     bind_res (run_stress_test kind (base\<lparr>contention_level := level\<rparr>) (clocks i)) (\<lambda>r.
     bind_res (contention_runs name base clocks (Suc i) levels) (\<lambda>rs. Inr (r # rs))))"

definition run_contention_test :: "string \<Rightarrow> stress_config \<Rightarrow> (nat \<Rightarrow> clock) \<Rightarrow> stress_test_result list res" where
  "run_contention_test name base clocks = contention_runs name base clocks 0 contention_levels"

section \<open>Comparison\<close>

record comparison_report =
  spinlock_results :: stress_test_result
  mutex_results :: stress_test_result
  rwlock_results :: stress_test_result
  spinlock_levels :: "stress_test_result list"
  mutex_levels :: "stress_test_result list"
  rwlock_levels :: "stress_test_result list"

definition comparison_report_new :: "comparison_report res" where
  "comparison_report_new =
     (let empty = stress_result_new (stress_config_new 0 0 0 f64_zero) lock_stats_new 0 in
      bind_res empty (\<lambda>a. bind_res empty (\<lambda>b. bind_res empty (\<lambda>c.
        Inr \<lparr>spinlock_results = a, mutex_results = b, rwlock_results = c,
             spinlock_levels = [], mutex_levels = [], rwlock_levels = []\<rparr>))))"

text \<open>The clock of each run of each lock: number 0 for the base test, then the levels.\<close>

definition run_comparison_test :: "stress_config \<Rightarrow> (lock_kind \<Rightarrow> nat \<Rightarrow> clock) \<Rightarrow> comparison_report res" where
  "run_comparison_test base clocks =
     bind_res comparison_report_new (\<lambda>report.
     bind_res (run_stress_test SpinlockKind base (clocks SpinlockKind 0)) (\<lambda>s.
     bind_res (run_stress_test MutexKind base (clocks MutexKind 0)) (\<lambda>m.
     bind_res (run_stress_test RwlockKind base (clocks RwlockKind 0)) (\<lambda>r.
     bind_res (run_contention_test ''spinlock'' base (\<lambda>i. clocks SpinlockKind (Suc i))) (\<lambda>ss.
     bind_res (run_contention_test ''mutex'' base (\<lambda>i. clocks MutexKind (Suc i))) (\<lambda>ms.
     bind_res (run_contention_test ''rwlock'' base (\<lambda>i. clocks RwlockKind (Suc i))) (\<lambda>rs.
       Inr (report\<lparr>spinlock_results := s, mutex_results := m, rwlock_results := r,
                   spinlock_levels := ss, mutex_levels := ms, rwlock_levels := rs\<rparr>))))))))"

text \<open>
  \<open>max_by\<close> keeps the last of equal elements and \<open>min_by\<close> the first; the comparison unwraps \<open>partial_cmp\<close> and panics on
  a NaN.
\<close>

primrec max_by_from :: "string \<times> f64 \<Rightarrow> (string \<times> f64) list \<Rightarrow> (string \<times> f64) res" where
  "max_by_from x [] = Inr x"
| "max_by_from x (y # ys) =
     (case partial_cmp (snd x) (snd y) of
        None \<Rightarrow> Inl UnwrapNone
      | Some c \<Rightarrow> max_by_from (if c = Greater then x else y) ys)"

primrec min_by_from :: "string \<times> f64 \<Rightarrow> (string \<times> f64) list \<Rightarrow> (string \<times> f64) res" where
  "min_by_from x [] = Inr x"
| "min_by_from x (y # ys) =
     (case partial_cmp (snd x) (snd y) of
        None \<Rightarrow> Inl UnwrapNone
      | Some c \<Rightarrow> min_by_from (if c = Greater then y else x) ys)"

definition results_of :: "comparison_report \<Rightarrow> (string \<times> stress_test_result) list" where
  "results_of r =
     [(''spinlock'', spinlock_results r), (''mutex'', mutex_results r), (''rwlock'', rwlock_results r)]"

definition find_best_performer :: "comparison_report \<Rightarrow> string res" where
  "find_best_performer r =
     bind_res (max_by_from (''spinlock'', st_throughput (spinlock_results r))
         [(''mutex'', st_throughput (mutex_results r)), (''rwlock'', st_throughput (rwlock_results r))])
       (\<lambda>(name, _). Inr name)"

definition find_fairest_performer :: "comparison_report \<Rightarrow> string res" where
  "find_fairest_performer r =
     bind_res (min_by_from (''spinlock'', lock_fairness_variance (st_stats (spinlock_results r)))
         [(''mutex'', lock_fairness_variance (st_stats (mutex_results r))),
          (''rwlock'', lock_fairness_variance (st_stats (rwlock_results r)))])
       (\<lambda>(name, _). Inr name)"

section \<open>Scenarios\<close>

definition low_contention_scenario :: stress_config where
  "low_contention_scenario = stress_config_new 4 1000 1000 (literal 1 10)"

definition high_contention_scenario :: stress_config where
  "high_contention_scenario = stress_config_new 16 1000 5000 (literal 8 10)"

definition read_write_mix_scenario :: stress_config where
  "read_write_mix_scenario = stress_config_new 8 2000 2000 (literal 5 10)"

definition long_critical_section_scenario :: stress_config where
  "long_critical_section_scenario = stress_config_new 4 500 10000 (literal 3 10)"

section \<open>What a run reports\<close>

lemma length_stress_operations:
  "length (stress_operations c k) = unat (thread_count c) * unat (operations_per_thread c)"
  by (simp add: stress_operations_def length_concat comp_def sum_list_triv)

lemma run_stress_testE:
  assumes "run_stress_test kind c k = Inr r"
  obtains "lock_run kind (stress_operations c k) lock_stats_new = Inr (st_stats r)"
    "st_successful r = st_total r" "stats_tell kind (stress_operations c k) (st_stats r)"
    "st_throughput r = (if 0 < elapsed k
       then f64_div (f64_mul (f64_of_u64 (st_successful r)) (literal 1000000000 1)) (f64_of_u64 (elapsed k)) else f64_zero)"
    "st_config r = c" "st_time r = elapsed k"
proof -
  obtain st n where st: "lock_run kind (stress_operations c k) lock_stats_new = Inr st"
    and n: "times_usize (thread_count c) (operations_per_thread c) = Inr n"
    and r: "stress_result_new c st (elapsed k) = Inr r"
    using assms by (auto simp: run_stress_test_def stress_result_new_def bind_res_eq_Inr)
  have "lock_success st = of_nat (unat n)"
    using lock_run_tells[OF st] times_usize_unat[OF n] by (simp add: stats_tell_def length_stress_operations)
  then show thesis
    using that st r n lock_run_tells[OF st] by (auto simp: stress_result_new_def Let_def)
qed

text \<open>Every operation of a stress test succeeds: the success rate is one and the contention rate is zero.\<close>

lemma stress_test_rates:
  assumes "run_stress_test kind c k = Inr r"
  shows "success_rate r = f64_one \<and> lock_contention_rate (st_stats r) = f64_zero"
proof -
  from assms have eq: "st_successful r = st_total r" and tell: "stats_tell kind (stress_operations c k) (st_stats r)"
    by (auto elim: run_stress_testE)
  have "success_rate r = f64_one"
    using per_self[of "st_total r"] by (simp add: success_rate_def eq per_def split: if_splits)
  moreover have "lock_failures (st_stats r) = 0" using tell by (simp add: stats_tell_def)
  ultimately show ?thesis by (simp add: lock_contention_rate_def per_zero)
qed

lemma stress_test_throughput_not_negative:
  assumes "run_stress_test kind c k = Inr r"
  shows "not_negative (st_throughput r)"
proof (cases "elapsed k = 0")
  case False
  obtain m e where n: "f64_of_u64 (st_successful r) = Num False m e" by (rule f64_of_u64_num)
  obtain j f where t: "f64_of_u64 (elapsed k) = Num False j f" "0 < j" using False f64_of_u64_num[of "elapsed k"] by metis
  have "literal 1000000000 1 = f64_of_u64 1000000000" by (simp add: literal_def f64_of_u64_def f64_of_nat_def)
  then obtain l g where l: "literal 1000000000 1 = Num False l g" by (metis f64_of_u64_num)
  have "not_negative (f64_mul (Num False m e) (Num False l g))" by simp
  moreover from assms have "st_throughput r = (if 0 < elapsed k
      then f64_div (f64_mul (f64_of_u64 (st_successful r)) (literal 1000000000 1)) (f64_of_u64 (elapsed k)) else f64_zero)"
    by (rule run_stress_testE)
  then have "st_throughput r = f64_div (f64_mul (Num False m e) (Num False l g)) (Num False j f)"
    using False by (simp add: n t l word_gt_0 del: f64_mul.simps f64_div.simps One_nat_def)
  ultimately show ?thesis using f64_div_not_negative[OF _ t(2)] by simp
next
  case True
  with assms show ?thesis by (elim run_stress_testE) (simp add: f64_zero_eq)
qed

lemma lock_variance_not_negative:
  assumes "distinct (map stat_tid (thread_stats st))"
  shows "not_negative (lock_fairness_variance st)"
proof (cases "length (thread_stats st) < 2")
  case False
  define averages where "averages = map (\<lambda>s. f64_div (f64_of_u64 (stat_wait s)) (f64_of_u64 (stat_successes s)))
    (filter (\<lambda>s. 0 < stat_successes s) (thread_stats st))"
  have "length (thread_stats st) \<le> 2 ^ 64" using assms distinct_usize_length by force
  moreover have "\<exists>m e. a = Num False m e" if a: "a \<in> set averages" for a
  proof -
    obtain s where "s \<in> set (thread_stats st)" "0 < stat_successes s" "a = f64_div (f64_of_u64 (stat_wait s)) (f64_of_u64 (stat_successes s))"
      using a by (auto simp: averages_def)
    then have "stat_successes s \<noteq> 0" "a = f64_div (f64_of_u64 (stat_wait s)) (f64_of_u64 (stat_successes s))" by simp_all
    then show ?thesis using f64_div_u64[of "stat_successes s" "stat_wait s"] by (elim meta_allE) blast
  qed
  ultimately have "not_negative (variance averages (length (thread_stats st)))"
    using False by (intro variance_not_negative) auto
  then show ?thesis using False by (simp add: lock_fairness_variance_def averages_def Let_def)
qed (simp add: lock_fairness_variance_def f64_zero_eq)

lemma max_by_from_best:
  "\<forall>y \<in> set (x # ys). snd y \<noteq> NaN \<Longrightarrow>
   \<exists>b \<in> set (x # ys). max_by_from x ys = Inr b \<and> (\<forall>y \<in> set (x # ys). f64_le (snd y) (snd b))"
proof (induction ys arbitrary: x)
  case (Cons y ys)
  obtain c where c: "partial_cmp (snd x) (snd y) = Some c" "c = Greater \<longrightarrow> f64_less (snd y) (snd x)"
      "c \<noteq> Greater \<longrightarrow> f64_le (snd x) (snd y)"
    using Cons.prems partial_cmp_some[of "snd x" "snd y"] by auto
  define z where "z = (if c = Greater then x else y)"
  have z: "f64_le (snd x) (snd z)" "f64_le (snd y) (snd z)" "z \<in> {x, y}"
    using c Cons.prems by (auto simp: z_def f64_less_imp_le f64_le_refl)
  then have "\<forall>y \<in> set (z # ys). snd y \<noteq> NaN" using Cons.prems by auto
  from Cons.IH[OF this] obtain b
    where b: "b \<in> set (z # ys)" "max_by_from z ys = Inr b" "\<forall>y \<in> set (z # ys). f64_le (snd y) (snd b)" by blast
  then have "f64_le (snd x) (snd b)" "f64_le (snd y) (snd b)"
    using z(1,2) f64_le_trans[of _ "snd z" "snd b"] by simp_all
  then show ?case using b z(3) c(1) by (auto simp flip: z_def)
qed (simp add: f64_le_refl)

lemma min_by_from_best:
  "\<forall>y \<in> set (x # ys). snd y \<noteq> NaN \<Longrightarrow>
   \<exists>b \<in> set (x # ys). min_by_from x ys = Inr b \<and> (\<forall>y \<in> set (x # ys). f64_le (snd b) (snd y))"
proof (induction ys arbitrary: x)
  case (Cons y ys)
  obtain c where c: "partial_cmp (snd x) (snd y) = Some c" "c = Greater \<longrightarrow> f64_less (snd y) (snd x)"
      "c \<noteq> Greater \<longrightarrow> f64_le (snd x) (snd y)"
    using Cons.prems partial_cmp_some[of "snd x" "snd y"] by auto
  define z where "z = (if c = Greater then y else x)"
  have z: "f64_le (snd z) (snd x)" "f64_le (snd z) (snd y)" "z \<in> {x, y}"
    using c Cons.prems by (auto simp: z_def f64_less_imp_le f64_le_refl)
  then have "\<forall>y \<in> set (z # ys). snd y \<noteq> NaN" using Cons.prems by auto
  from Cons.IH[OF this] obtain b
    where b: "b \<in> set (z # ys)" "min_by_from z ys = Inr b" "\<forall>y \<in> set (z # ys). f64_le (snd b) (snd y)" by blast
  then have "f64_le (snd b) (snd x)" "f64_le (snd b) (snd y)"
    using z(1,2) f64_le_trans[of "snd b" "snd z"] by simp_all
  then show ?case using b z(3) c(1) by (auto simp flip: z_def)
qed (simp add: f64_le_refl)

lemma run_comparison_testE:
  assumes "run_comparison_test base clocks = Inr report"
  obtains "run_stress_test SpinlockKind base (clocks SpinlockKind 0) = Inr (spinlock_results report)"
    "run_stress_test MutexKind base (clocks MutexKind 0) = Inr (mutex_results report)"
    "run_stress_test RwlockKind base (clocks RwlockKind 0) = Inr (rwlock_results report)"
  using assms by (auto simp: run_comparison_test_def bind_res_eq_Inr)

text \<open>C37: A comparison of the three locks that runs to its end names its winners: neither search meets a NaN, so neither
panics, the lock named as the fastest has a throughput at least as large as every other, and the one named as the fairest a variance between threads at most
as large. Each of the three runs of the base configuration also reports a success rate of one and a contention rate of zero.\<close>

theorem comparison_names_the_best:
  assumes "run_comparison_test base clocks = Inr report"
  shows "\<exists>best fairest.
    find_best_performer report = Inr (fst best) \<and> best \<in> set (results_of report) \<and>
    (\<forall>other \<in> set (results_of report). f64_le (st_throughput (snd other)) (st_throughput (snd best))) \<and>
    find_fairest_performer report = Inr (fst fairest) \<and> fairest \<in> set (results_of report) \<and>
    (\<forall>other \<in> set (results_of report).
       f64_le (lock_fairness_variance (st_stats (snd fairest))) (lock_fairness_variance (st_stats (snd other)))) \<and>
    (\<forall>r \<in> set (results_of report).
       success_rate (snd r) = f64_one \<and> lock_contention_rate (st_stats (snd r)) = f64_zero)"
proof -
  have runs: "\<exists>kind k. run_stress_test kind base k = Inr (snd r)" if r: "r \<in> set (results_of report)" for r
  proof -
    from assms obtain "run_stress_test SpinlockKind base (clocks SpinlockKind 0) = Inr (spinlock_results report)"
      "run_stress_test MutexKind base (clocks MutexKind 0) = Inr (mutex_results report)"
      "run_stress_test RwlockKind base (clocks RwlockKind 0) = Inr (rwlock_results report)"
      by (rule run_comparison_testE)
    moreover have "snd r = spinlock_results report \<or> snd r = mutex_results report \<or> snd r = rwlock_results report"
      using r by (auto simp: results_of_def)
    ultimately show ?thesis by metis
  qed
  define speeds where "speeds = map (map_prod id st_throughput) (results_of report)"
  define spreads where "spreads = map (map_prod id (\<lambda>r. lock_fairness_variance (st_stats r))) (results_of report)"
  have "st_throughput (snd r) \<noteq> NaN" if r: "r \<in> set (results_of report)" for r
    using runs[OF r] stress_test_throughput_not_negative not_negative_not_nan by (elim exE) blast
  then have no_nan: "\<forall>y \<in> set speeds. snd y \<noteq> NaN" by (auto simp: speeds_def)
  have "hd speeds # tl speeds = speeds" by (simp add: speeds_def results_of_def)
  then obtain b where b: "b \<in> set speeds" "max_by_from (hd speeds) (tl speeds) = Inr b"
      "\<forall>y \<in> set speeds. f64_le (snd y) (snd b)"
    using max_by_from_best[of "hd speeds" "tl speeds"] no_nan by (simp only:) blast
  have "lock_fairness_variance (st_stats (snd r)) \<noteq> NaN" if r: "r \<in> set (results_of report)" for r
  proof -
    have "distinct (map stat_tid (thread_stats (st_stats (snd r))))"
      using runs[OF r] by (auto simp: stats_tell_def elim: run_stress_testE)
    then show ?thesis using lock_variance_not_negative not_negative_not_nan by blast
  qed
  then have no_nan: "\<forall>y \<in> set spreads. snd y \<noteq> NaN" by (auto simp: spreads_def)
  have "hd spreads # tl spreads = spreads" by (simp add: spreads_def results_of_def)
  then obtain f where f: "f \<in> set spreads" "min_by_from (hd spreads) (tl spreads) = Inr f"
      "\<forall>y \<in> set spreads. f64_le (snd f) (snd y)"
    using min_by_from_best[of "hd spreads" "tl spreads"] no_nan by (simp only:) blast
  obtain best where best: "best \<in> set (results_of report)" "b = map_prod id st_throughput best"
    using b(1) by (auto simp: speeds_def)
  obtain fairest where fairest: "fairest \<in> set (results_of report)"
      "f = map_prod id (\<lambda>r. lock_fairness_variance (st_stats r)) fairest"
    using f(1) by (auto simp: spreads_def)
  have "find_best_performer report = Inr (fst best)"
    using b(2) by (simp add: find_best_performer_def speeds_def results_of_def best(2) case_prod_beta)
  moreover have "find_fairest_performer report = Inr (fst fairest)"
    using f(2) by (simp add: find_fairest_performer_def spreads_def results_of_def fairest(2) case_prod_beta)
  moreover have "\<forall>r \<in> set (results_of report).
      success_rate (snd r) = f64_one \<and> lock_contention_rate (st_stats (snd r)) = f64_zero"
    using runs stress_test_rates by blast
  ultimately show ?thesis
    using best fairest b(3) f(3) by (intro exI[of _ best] exI[of _ fairest]) (auto simp: speeds_def spreads_def)
qed

lemma small_run_returns:
  "\<exists>r. run_stress_test kind (stress_config_new 2 1 0 l\<lparr>contention_level := l'\<rparr>)
     \<lparr>wait_of = \<lambda>t i. 10, hold_of = \<lambda>t i. 3, elapsed = time\<rparr> = Inr r"
  by (cases kind)
    (simp_all add: run_stress_test_def stress_operations_def stress_config_new_def stress_result_new_def lock_once_def
      spinlock_lock_def spinlock_drop_def mutex_guard_lock_def rwlock_acquire_def guard_drop_def record_attempt_def
      record_success_def record_context_switch_def record_wakeup_def record_sleep_def update_thread_stats_def
      count_attempt_def count_success_def thread_stats_new_def lock_stats_new_def plus_usize_def times_usize_def Let_def upt_conv_Cons)

theorem comparison_names_the_best_witness:
  "\<exists>report best fairest.
    run_comparison_test (stress_config_new 2 1 0 f64_one)
      (\<lambda>kind i. \<lparr>wait_of = \<lambda>t i. 10, hold_of = \<lambda>t i. 3, elapsed = of_nat (100 + i)\<rparr>) = Inr report \<and>
    find_best_performer report = Inr best \<and> find_fairest_performer report = Inr fairest"
proof -
  define base where "base = stress_config_new 2 1 0 f64_one"
  define clk where "clk = (\<lambda>(kind :: lock_kind) i. \<lparr>wait_of = \<lambda>t i. 10, hold_of = \<lambda>t i. 3, elapsed = of_nat (100 + i)\<rparr>)"
  have run: "\<exists>r. run_stress_test kind (base\<lparr>contention_level := l\<rparr>) (clk kind' i) = Inr r" for kind kind' l i
    unfolding base_def clk_def by (rule small_run_returns)
  have levels: "\<exists>rs. contention_runs name base (\<lambda>i. clk kind' (Suc i)) i ls = Inr rs"
    if "kind_of_name name = Inr kind" for name kind kind' i ls
  proof (induction ls arbitrary: i)
    case (Cons l ls)
    obtain r where "run_stress_test kind (base\<lparr>contention_level := l\<rparr>) (clk kind' (Suc i)) = Inr r" using run by blast
    moreover obtain rs where "contention_runs name base (\<lambda>i. clk kind' (Suc i)) (Suc i) ls = Inr rs" using Cons by blast
    ultimately show ?case using that by simp
  qed simp
  have base: "\<exists>r. run_stress_test kind base (clk kind' i) = Inr r" for kind kind' i
    using run[of kind f64_one] by (simp add: base_def stress_config_new_def)
  have new: "\<exists>r. comparison_report_new = Inr r"
    by (simp add: comparison_report_new_def stress_result_new_def stress_config_new_def times_usize_def Let_def)
  obtain r0 where r0: "comparison_report_new = Inr r0" using new by blast
  obtain s where s: "run_stress_test SpinlockKind base (clk SpinlockKind 0) = Inr s" using base by blast
  obtain m where m: "run_stress_test MutexKind base (clk MutexKind 0) = Inr m" using base by blast
  obtain r where r: "run_stress_test RwlockKind base (clk RwlockKind 0) = Inr r" using base by blast
  obtain ss where ss: "run_contention_test ''spinlock'' base (\<lambda>i. clk SpinlockKind (Suc i)) = Inr ss"
    using levels[of "''spinlock''" SpinlockKind SpinlockKind 0 contention_levels]
    by (auto simp: run_contention_test_def kind_of_name_def)
  obtain ms where ms: "run_contention_test ''mutex'' base (\<lambda>i. clk MutexKind (Suc i)) = Inr ms"
    using levels[of "''mutex''" MutexKind MutexKind 0 contention_levels]
    by (auto simp: run_contention_test_def kind_of_name_def)
  obtain rs where rs: "run_contention_test ''rwlock'' base (\<lambda>i. clk RwlockKind (Suc i)) = Inr rs"
    using levels[of "''rwlock''" RwlockKind RwlockKind 0 contention_levels]
    by (auto simp: run_contention_test_def kind_of_name_def)
  obtain report where report: "run_comparison_test base clk = Inr report"
    by (simp add: run_comparison_test_def r0 s m r ss ms rs)
  from comparison_names_the_best[OF this] report show ?thesis unfolding base_def clk_def by blast
qed

end
