(* ===== verification/Data_Analysis.thy ===== *)
theory Data_Analysis
  imports Stress_Test
begin

text \<open>
  The numbers of the analysis of a comparison: \<open>tg-rcore-tutorial-ch8/src/data_analysis.rs\<close>. The text of tables and
  reports is not modelled: the label of a lock is its kind, the rows of the table and the lines of the contention
  analysis are the numbers in them, and the starvation analysis is the list of locks that it names; the empty list stands for the
  sentence that no lock starves.
\<close>

section \<open>Metrics of a lock\<close>

record lock_performance_metrics =
  lp_lock_type :: lock_kind
  lp_throughput :: f64
  lp_contention_rate :: f64
  lp_avg_wait_time :: f64
  lp_avg_hold_time :: f64
  lp_context_switches :: u64
  lp_sleep_count :: u64
  lp_wakeup_count :: u64
  lp_fairness_variance :: f64
  lp_has_starvation :: bool
  lp_max_wait_time :: u64

definition from_test_result :: "lock_kind \<Rightarrow> stress_test_result \<Rightarrow> lock_performance_metrics" where
  "from_test_result kind r =
     (let st = st_stats r in
      \<lparr>lp_lock_type = kind,
       lp_throughput = st_throughput r,
       lp_contention_rate = lock_contention_rate st,
       lp_avg_wait_time = lock_avg_wait_time st,
       lp_avg_hold_time = lock_avg_hold_time st,
       lp_context_switches = context_switches st,
       lp_sleep_count = sleep_count st,
       lp_wakeup_count = wakeup_count st,
       lp_fairness_variance = lock_fairness_variance st,
       lp_has_starvation = has_starvation 1000000 st,
       lp_max_wait_time = max_wait_time st\<rparr>)"

text \<open>The rows of the table.\<close>

definition add_metrics :: "lock_performance_metrics \<Rightarrow> lock_performance_metrics list \<Rightarrow> lock_performance_metrics list" where
  "add_metrics m rows = rows @ [m]"

definition comparison_rows :: "comparison_report \<Rightarrow> lock_performance_metrics list" where
  "comparison_rows r =
     add_metrics (from_test_result RwlockKind (rwlock_results r))
       (add_metrics (from_test_result MutexKind (mutex_results r))
         (add_metrics (from_test_result SpinlockKind (spinlock_results r)) []))"

section \<open>Analysis\<close>

record performance_analysis =
  best_performer :: string
  fairest_performer :: string
  spinlock_vs_mutex_percent :: f64
  rwlock_vs_mutex_percent :: f64
  context_switch_reduction :: f64
  starvation_analysis :: "lock_kind list"
  fairness_improvement :: f64

definition hundred :: f64 where "hundred = literal 100 1"

definition calculate_context_switch_reduction ::
  "lock_performance_metrics \<Rightarrow> lock_performance_metrics \<Rightarrow> f64" where
  "calculate_context_switch_reduction spin mutex =
     (if 0 < lp_context_switches mutex
      then f64_mul
        (f64_div (f64_sub (f64_of_u64 (lp_context_switches mutex)) (f64_of_u64 (lp_context_switches spin)))
          (f64_of_u64 (lp_context_switches mutex))) hundred
      else f64_zero)"

definition analyze_starvation :: "lock_performance_metrics list \<Rightarrow> lock_kind list" where
  "analyze_starvation ms = map lp_lock_type (filter lp_has_starvation ms)"

definition calculate_fairness_improvement ::
  "lock_performance_metrics \<Rightarrow> lock_performance_metrics \<Rightarrow> lock_performance_metrics \<Rightarrow> f64" where
  "calculate_fairness_improvement spin mutex rw =
     (let v = lp_fairness_variance;
          smallest = f64_min (f64_min (v spin) (v mutex)) (v rw);
          largest = f64_max (f64_max (v spin) (v mutex)) (v rw) in
      if f64_less f64_zero largest then f64_mul (f64_div (f64_sub largest smallest) largest) hundred else f64_zero)"

definition percent_faster :: "f64 \<Rightarrow> f64 \<Rightarrow> f64" where
  "percent_faster x y = f64_mul (f64_div (f64_sub x y) y) hundred"

definition analyze_performance_difference :: "comparison_report \<Rightarrow> performance_analysis res" where
  "analyze_performance_difference r =
     (let spin = from_test_result SpinlockKind (spinlock_results r);
          mutex = from_test_result MutexKind (mutex_results r);
          rw = from_test_result RwlockKind (rwlock_results r) in
      bind_res (find_best_performer r) (\<lambda>best.
      bind_res (find_fairest_performer r) (\<lambda>fairest.
        Inr \<lparr>best_performer = best, fairest_performer = fairest,
             spinlock_vs_mutex_percent = percent_faster (lp_throughput spin) (lp_throughput mutex),
             rwlock_vs_mutex_percent = percent_faster (lp_throughput rw) (lp_throughput mutex),
             context_switch_reduction = calculate_context_switch_reduction spin mutex,
             starvation_analysis = analyze_starvation [spin, mutex, rw],
             fairness_improvement = calculate_fairness_improvement spin mutex rw\<rparr>)))"

text \<open>For each level its throughput and the average wait of the spin lock or the context switches of the mutex.\<close>

definition contention_lines :: "comparison_report \<Rightarrow> (f64 \<times> f64 \<times> f64) list \<times> (f64 \<times> f64 \<times> u64) list" where
  "contention_lines r =
     (map (\<lambda>t. let m = from_test_result SpinlockKind t in
        (contention_level (st_config t), lp_throughput m, lp_avg_wait_time m)) (spinlock_levels r),
      map (\<lambda>t. let m = from_test_result MutexKind t in
        (contention_level (st_config t), lp_throughput m, lp_context_switches m)) (mutex_levels r))"

text \<open>The full report: the table, the analysis and the contention analysis.\<close>

definition generate_full_report ::
  "comparison_report \<Rightarrow> (lock_performance_metrics list \<times> performance_analysis \<times>
     (f64 \<times> f64 \<times> f64) list \<times> (f64 \<times> f64 \<times> u64) list) res" where
  "generate_full_report r =
     bind_res (analyze_performance_difference r) (\<lambda>a. Inr (comparison_rows r, a, contention_lines r))"

record chart_data =
  chart_lock_types :: "lock_kind list"
  chart_throughput :: "f64 list"
  chart_avg_wait_times :: "f64 list"
  chart_context_switches :: "f64 list"

definition generate_chart_data :: "comparison_report \<Rightarrow> chart_data" where
  "generate_chart_data r =
     \<lparr>chart_lock_types = [SpinlockKind, MutexKind, RwlockKind],
      chart_throughput = [st_throughput (spinlock_results r), st_throughput (mutex_results r), st_throughput (rwlock_results r)],
      chart_avg_wait_times = [lock_avg_wait_time (st_stats (spinlock_results r)),
        lock_avg_wait_time (st_stats (mutex_results r)), lock_avg_wait_time (st_stats (rwlock_results r))],
      chart_context_switches = [f64_of_u64 (context_switches (st_stats (spinlock_results r))),
        f64_of_u64 (context_switches (st_stats (mutex_results r))),
        f64_of_u64 (context_switches (st_stats (rwlock_results r)))]\<rparr>"

section \<open>What the analysis can say\<close>

lemma lock_once_switches:
  assumes "lock_once kind t w h st = Inr st'"
  shows "context_switches st' = context_switches st + (if kind = MutexKind then 1 else 0)"
    "total_wait_time st' = total_wait_time st + reported kind w"
  using assms
  by (cases kind;
      auto simp: lock_once_def spinlock_lock_def spinlock_drop_def mutex_guard_lock_def rwlock_acquire_def guard_drop_def
        record_attempt_def record_success_def record_context_switch_def record_wakeup_def record_sleep_def
        update_thread_stats_def reported_def bind_res_eq_Inr)+

lemma lock_run_switches:
  "lock_run kind es st = Inr st' \<Longrightarrow>
   context_switches st' = context_switches st + (if kind = MutexKind then of_nat (length es) else 0) \<and>
   (kind = SpinlockKind \<longrightarrow> total_wait_time st' = total_wait_time st)"
proof (induction es arbitrary: st)
  case (Cons e es)
  obtain t w h where e: "e = (t, w, h)" by (cases e)
  obtain st1 where once: "lock_once kind t w h st = Inr st1" and run: "lock_run kind es st1 = Inr st'"
    using Cons.prems by (auto simp: e bind_res_eq_Inr)
  show ?case using Cons.IH[OF run] lock_once_switches[OF once] by (simp add: reported_def)
qed simp

lemma f64_sub_zero:
  assumes "representable (Num False m e)" "0 < m"
  shows "f64_sub (Num False m e) (Num False 0 e_min) = Num False m e"
proof -
  define g where "g = min e e_min"
  have "(2 :: real) powi (int (nat (e - g)) + g) = 2 ^ nat (e - g) * 2 powi g"
    by (subst power_int_add) (simp_all only: power_int_of_nat, simp)
  then have "2 powi e = (2 :: real) ^ nat (e - g) * 2 powi g" by (simp add: g_def)
  then have "ratio (m * 2 ^ nat (e - g)) 1 g = ratio m 1 e" by (simp add: ratio_def)
  then have "round64 False (m * 2 ^ nat (e - g)) 1 g = round64 False m 1 e" by (rule round64_cong[rotated 2]) simp_all
  then have "round64 False (m * 2 ^ nat (e - g)) 1 g = Num False m e" unfolding round64_exact[OF assms(1)] .
  moreover have "f64_sub (Num False m e) (Num False 0 e_min) = round64 False (m * 2 ^ nat (e - g)) 1 g"
    using f64_add_nums[of False m True 0 e e_min] assms(2)
    by (simp add: f64_sub_def g_def del: f64_add.simps One_nat_def)
  ultimately show ?thesis by simp
qed

lemma hundred_eq: "hundred = Num False (100 * 2 ^ 46) (- 46)"
proof -
  have "hundred = round64 False (100 * 2 ^ 46) 1 (- 46)"
    unfolding hundred_def literal_def by (rule round64_cong) (simp_all add: ratio_def power_int_minus)
  then show ?thesis using round64_exact[of False "100 * 2 ^ 46" "- 46"] by (simp add: e_min_def e_max_def)
qed

lemma one_times_hundred: "f64_mul f64_one hundred = hundred"
proof -
  have "round64 False (2 ^ 52 * (100 * 2 ^ 46)) 1 (- 52 + - 46) = round64 False (100 * 2 ^ 46) 1 (- 46)"
    by (rule round64_cong) (simp_all add: ratio_def power_int_minus)
  then show ?thesis
    using round64_exact[of False "100 * 2 ^ 46" "- 46"] by (simp add: hundred_eq f64_one_eq e_min_def e_max_def)
qed

text \<open>Two figures of the analysis say nothing of the locks: the spin lock counts no context switch and no wait, so the
reduction is always a hundred percent when the mutex counted one at all, its average wait is zero, and the spin lock is
never among the locks that starve.\<close>

theorem analysis_figures_are_fixed:
  assumes "run_comparison_test base clocks = Inr report" "analyze_performance_difference report = Inr a"
  shows "(context_switch_reduction a = hundred \<or> context_switch_reduction a = f64_zero) \<and>
    lock_avg_wait_time (st_stats (spinlock_results report)) = f64_zero \<and> SpinlockKind \<notin> set (starvation_analysis a)"
proof -
  from assms(1) obtain k where spin: "run_stress_test SpinlockKind base k = Inr (spinlock_results report)"
    by (blast elim: run_comparison_testE)
  define st where "st = st_stats (spinlock_results report)"
  have run: "lock_run SpinlockKind (stress_operations base k) lock_stats_new = Inr st"
    using spin by (auto simp: st_def elim: run_stress_testE)
  have zero: "context_switches st = 0" "total_wait_time st = 0"
    using lock_run_switches[OF run] by (simp_all add: lock_stats_new_def)
  have starve: "\<not> has_starvation b st" for b
  proof -
    have T: "stats_tell SpinlockKind (stress_operations base k) st" by (rule lock_run_tells[OF run])
    then show ?thesis
      by (auto simp: stats_tell_def has_starvation_def list_ex_iff list_all_iff entry_tells_def Let_def reported_def)
  qed
  define n where "n = context_switches (st_stats (mutex_results report))"
  have "f64_mul (f64_div (f64_sub (f64_of_u64 n) (f64_of_u64 0)) (f64_of_u64 n)) hundred = hundred" if n: "0 < n"
  proof -
    from n have "n \<noteq> 0" by auto
    then obtain m e where m: "f64_of_u64 n = Num False m e" "representable (Num False m e)" "0 < m"
      using f64_of_u64_num[of n] by metis
    show ?thesis
      by (simp only: m(1) f64_of_u64_zero f64_sub_zero[OF m(2,3)] f64_div_self[OF m(3)] one_times_hundred)
  qed
  then have "context_switch_reduction a = hundred \<or> context_switch_reduction a = f64_zero"
    using assms(2) zero
    by (auto simp: analyze_performance_difference_def Let_def bind_res_eq_Inr calculate_context_switch_reduction_def
        from_test_result_def n_def st_def)
  moreover have "SpinlockKind \<notin> set (analyze_starvation [from_test_result SpinlockKind (spinlock_results report),
      from_test_result MutexKind m, from_test_result RwlockKind r])" for m r
    using starve by (simp add: analyze_starvation_def from_test_result_def Let_def flip: st_def)
  then have "SpinlockKind \<notin> set (starvation_analysis a)"
    using assms(2) by (auto simp: analyze_performance_difference_def Let_def bind_res_eq_Inr)
  ultimately show ?thesis using zero by (simp add: lock_avg_wait_time_def per_zero flip: st_def)
qed

end
