(* ===== verification/Sync_Experiment.thy ===== *)
theory Sync_Experiment
  imports Prelude Float64
begin

text \<open>
  The suite of tests that are meant to fail (\<open>tg-rcore-tutorial-ch8/src/failure_control_tests.rs\<close>), the stress tests
  of \<open>sync_tests.rs\<close> and the correctness phase of \<open>sync_experiment.rs\<close>.

  The locks are those of the crate \<open>spin\<close>: \<open>lock\<close> polls until the lock is free. Every test body runs on the one thread
  that owns the locks and flags it uses, so nobody else changes them while it waits. A body that never returns
  is \<open>None\<close>.
\<close>

section \<open>Waiting\<close>

partial_function (option) spin_lock :: "bool \<Rightarrow> unit option" where
  "spin_lock locked = (if locked then spin_lock locked else Some ())"

partial_function (option) wait_for :: "bool \<Rightarrow> unit option" where
  "wait_for condition = (if \<not> condition then wait_for condition else Some ())"

definition and_then :: "'a option \<Rightarrow> ('a \<Rightarrow> 'b option) \<Rightarrow> 'b option" where
  "and_then m f = (case m of None \<Rightarrow> None | Some x \<Rightarrow> f x)"

section \<open>Results\<close>

record failure_test_result =
  test_name :: string
  should_fail :: bool
  actual_failed :: bool
  timeout_occurred :: bool
  deadlock_detected :: bool
  error_message :: "string option"
  execution_time :: u64

definition verify_expected_behavior :: "failure_test_result \<Rightarrow> bool" where
  "verify_expected_behavior r \<longleftrightarrow> should_fail r = actual_failed r"

definition status_description :: "failure_test_result \<Rightarrow> string" where
  "status_description r = (if verify_expected_behavior r then ''PASS'' else ''FAIL'')"

definition contains :: "string \<Rightarrow> string \<Rightarrow> bool" where
  "contains s sub = list_ex (\<lambda>i. take (length sub) (drop i s) = sub) [0..<Suc (length s)]"

definition current_time :: u64 where "current_time = 0"

definition run_with_timeout :: "(string + unit) option \<Rightarrow> (string + unit) option" where
  "run_with_timeout body = body"

text \<open>The result that each test builds from the outcome of its body.\<close>

definition conclude :: "string \<Rightarrow> (string + unit) \<Rightarrow> failure_test_result" where
  "conclude name r =
     (case r of
        Inr _ \<Rightarrow> \<lparr>test_name = name, should_fail = True, actual_failed = False, timeout_occurred = False,
                  deadlock_detected = False, error_message = None, execution_time = current_time - current_time\<rparr>
      | Inl e \<Rightarrow> \<lparr>test_name = name, should_fail = True, actual_failed = True, timeout_occurred = contains e ''timeout'',
                  deadlock_detected = contains e ''deadlock'', error_message = Some e,
                  execution_time = current_time - current_time\<rparr>)"

section \<open>The tests\<close>

text \<open>The lock is taken and then the flag awaited, which nobody sets.\<close>

definition test_missing_wakeup_deadlock :: "failure_test_result option" where
  "test_missing_wakeup_deadlock =
     and_then (run_with_timeout (and_then (spin_lock False) (\<lambda>_. and_then (wait_for False) (\<lambda>_. Some (Inr ())))))
       (\<lambda>r. Some (conclude ''missing_wakeup_deadlock'' r))"

text \<open>Both locks are taken, then both again in the other order; the first guards are still alive.\<close>

definition test_unlock_order_deadlock :: "failure_test_result option" where
  "test_unlock_order_deadlock =
     and_then (run_with_timeout
         (and_then (spin_lock False) (\<lambda>_. and_then (spin_lock False) (\<lambda>_.
          and_then (spin_lock True) (\<lambda>_. and_then (spin_lock True) (\<lambda>_. Some (Inr ())))))))
       (\<lambda>r. Some (conclude ''unlock_order_deadlock'' r))"

primrec add_times :: "nat \<Rightarrow> usize \<Rightarrow> usize" where
  "add_times 0 c = c"
| "add_times (Suc n) c = add_times n (c + 1)"

definition test_semaphore_overflow :: "failure_test_result option" where
  "test_semaphore_overflow =
     (let semaphore_count = add_times 1000 0 in
      and_then (run_with_timeout
          (Some (if 100 < semaphore_count then Inl ''Semaphore count overflow detected'' else Inr ())))
        (\<lambda>r. Some ((conclude ''semaphore_overflow'' r)\<lparr>deadlock_detected := False\<rparr>)))"

definition test_incorrect_condvar_usage :: "failure_test_result option" where
  "test_incorrect_condvar_usage =
     and_then (run_with_timeout (and_then (spin_lock False) (\<lambda>_. Some (Inr ()))))
       (\<lambda>r. Some (conclude ''incorrect_condvar_usage'' r))"

definition test_double_lock_deadlock :: "failure_test_result option" where
  "test_double_lock_deadlock =
     and_then (run_with_timeout (and_then (spin_lock False) (\<lambda>_. and_then (spin_lock True) (\<lambda>_. Some (Inr ())))))
       (\<lambda>r. Some (conclude ''double_lock_deadlock'' r))"

definition test_circular_wait_deadlock :: "failure_test_result option" where
  "test_circular_wait_deadlock =
     and_then (run_with_timeout
         (and_then (spin_lock False) (\<lambda>_. and_then (spin_lock False) (\<lambda>_. and_then (spin_lock False) (\<lambda>_.
          and_then (spin_lock True) (\<lambda>_. and_then (spin_lock True) (\<lambda>_. and_then (spin_lock True) (\<lambda>_.
            Some (Inr ())))))))))
       (\<lambda>r. Some (conclude ''circular_wait_deadlock'' r))"

primrec collect :: "'a option list \<Rightarrow> 'a list option" where
  "collect [] = Some []"
| "collect (t # ts) = and_then t (\<lambda>r. and_then (collect ts) (\<lambda>rs. Some (r # rs)))"

definition run_all_failure_tests :: "failure_test_result list option" where
  "run_all_failure_tests =
     collect [test_missing_wakeup_deadlock, test_unlock_order_deadlock, test_semaphore_overflow,
              test_incorrect_condvar_usage, test_double_lock_deadlock, test_circular_wait_deadlock]"

definition verify_all_tests :: "failure_test_result list \<Rightarrow> bool" where
  "verify_all_tests rs = list_all verify_expected_behavior rs"

section \<open>Stress tests\<close>

text \<open>The loops of the stress tests run one after the other on the same thread, and the guard is dropped at the end of
each turn.\<close>

primrec stress_inner :: "nat \<Rightarrow> usize \<Rightarrow> usize option" where
  "stress_inner 0 counter = Some counter"
| "stress_inner (Suc n) counter = and_then (spin_lock False) (\<lambda>_. stress_inner n (counter + 1))"

primrec stress_outer :: "nat \<Rightarrow> nat \<Rightarrow> usize \<Rightarrow> usize option" where
  "stress_outer 0 ops counter = Some counter"
| "stress_outer (Suc n) ops counter = and_then (stress_inner ops counter) (stress_outer n ops)"

record stress_tester =
  tester_threads :: usize
  tester_operations :: usize
  tester_contention :: f64

definition stress_tester_new :: "usize \<Rightarrow> usize \<Rightarrow> f64 \<Rightarrow> stress_tester" where
  "stress_tester_new threads operations contention =
     \<lparr>tester_threads = threads, tester_operations = operations, tester_contention = contention\<rparr>"

record stress_result =
  total_operations :: usize
  successful_operations :: usize
  contention_observed :: f64

definition stress_test :: "stress_tester \<Rightarrow> stress_result res option" where
  "stress_test t =
     and_then (stress_outer (unat (tester_threads t)) (unat (tester_operations t)) 0) (\<lambda>done.
       Some (bind_res (times_usize (tester_threads t) (tester_operations t)) (\<lambda>all.
         Inr \<lparr>total_operations = all, successful_operations = done, contention_observed = tester_contention t\<rparr>)))"

text \<open>The stress test of semaphores uses no semaphore.\<close>

definition stress_test_semaphore :: "stress_tester \<Rightarrow> stress_result res" where
  "stress_test_semaphore t =
     bind_res (times_usize (tester_threads t) (tester_operations t)) (\<lambda>all.
     bind_res (times_usize (tester_threads t) (tester_operations t)) (\<lambda>done.
       Inr \<lparr>total_operations = all, successful_operations = done, contention_observed = tester_contention t\<rparr>))"

definition verify_success :: "stress_result \<Rightarrow> bool" where
  "verify_success r \<longleftrightarrow> successful_operations r = total_operations r"

definition stress_success_rate :: "stress_result \<Rightarrow> f64" where
  "stress_success_rate r =
     (if total_operations r = 0 then f64_one
      else f64_div (f64_of_u64 (successful_operations r)) (f64_of_u64 (total_operations r)))"

section \<open>The correctness phase\<close>

text \<open>Ten times: lock the counter, add one, and count a success when the counter is 1.\<close>

primrec mutex_property_loop :: "nat \<Rightarrow> usize \<Rightarrow> usize \<Rightarrow> (usize \<times> usize) option" where
  "mutex_property_loop 0 counter success = Some (counter, success)"
| "mutex_property_loop (Suc n) counter success =
     and_then (spin_lock False) (\<lambda>_.
       let counter1 = counter + 1 in
       if counter1 = 1 then and_then (spin_lock False) (\<lambda>_. mutex_property_loop n counter1 (success + 1))
       else mutex_property_loop n counter1 success)"

definition test_mutex_property :: "bool option" where
  "test_mutex_property =
     and_then (mutex_property_loop 10 0 0) (\<lambda>(final_count, success).
     and_then (spin_lock False) (\<lambda>_. and_then (spin_lock False) (\<lambda>_.
       Some (final_count = 10 \<and> success = 10))))"

record correctness_results =
  mutex_property :: bool
  deadlock_detection :: bool
  wakeup_mechanism :: bool
  failure_tests :: "(string \<times> bool) list"

definition test_deadlock_detection :: bool where "test_deadlock_detection = True"
definition test_wakeup_mechanism :: bool where "test_wakeup_mechanism = True"

text \<open>The suite is run for its report, which is dropped, and each test once more for its verdict.\<close>

definition test_verdict :: "string \<Rightarrow> failure_test_result option \<Rightarrow> (string \<times> bool) option" where
  "test_verdict name t = and_then t (\<lambda>r. Some (name, verify_expected_behavior r))"

definition run_failure_tests :: "(string \<times> bool) list option" where
  "run_failure_tests =
     and_then run_all_failure_tests (\<lambda>_.
       collect [test_verdict ''missing_wakeup'' test_missing_wakeup_deadlock,
                test_verdict ''unlock_order'' test_unlock_order_deadlock,
                test_verdict ''semaphore_count'' test_semaphore_overflow,
                test_verdict ''condvar_usage'' test_incorrect_condvar_usage,
                test_verdict ''double_lock'' test_double_lock_deadlock,
                test_verdict ''circular_wait'' test_circular_wait_deadlock])"

definition test_correctness :: "correctness_results option" where
  "test_correctness =
     and_then test_mutex_property (\<lambda>m.
     and_then run_failure_tests (\<lambda>verdicts.
       Some \<lparr>mutex_property = m, deadlock_detection = test_deadlock_detection, wakeup_mechanism = test_wakeup_mechanism,
             failure_tests = verdicts\<rparr>))"

definition is_successful :: "correctness_results \<Rightarrow> bool" where
  "is_successful c \<longleftrightarrow> mutex_property c \<and> deadlock_detection c \<and> wakeup_mechanism c"

section \<open>What the suite can tell\<close>

lemma spin_lock_free [simp]: "spin_lock False = Some ()"
  by (subst spin_lock.simps) simp

lemma spin_lock_held [simp]: "spin_lock True = None"
proof -
  have "spin_lock b = Some u \<Longrightarrow> \<not> b" for b u
    by (rule spin_lock.raw_induct[where P = "\<lambda>b _. \<not> b"]) (auto split: if_splits)
  then show ?thesis by (cases "spin_lock True") auto
qed

lemma wait_for_unset [simp]: "wait_for False = None"
proof -
  have "wait_for b = Some u \<Longrightarrow> b" for b u
    by (rule wait_for.raw_induct[where P = "\<lambda>b _. b"]) (auto split: if_splits)
  from this[of False] show ?thesis by (cases "wait_for False") simp_all
qed

lemma and_then_simps [simp]: "and_then None f = None" "and_then (Some x) f = f x"
  by (simp_all add: and_then_def)

lemma add_times_eq: "add_times n c = c + of_nat n"
  by (induction n arbitrary: c) (simp_all add: algebra_simps)

lemma run_all_eq: "run_all_failure_tests = None"
  by (simp add: run_all_failure_tests_def test_missing_wakeup_deadlock_def run_with_timeout_def)

text \<open>The suite never reports: four of its tests wait for a lock that they hold themselves or for a flag that nobody sets,
and the wrapper that should time them out only calls them. Of the other two one
behaves as expected and one cannot fail as it should.\<close>

theorem failure_suite_never_reports:
  "run_all_failure_tests = None \<and> test_missing_wakeup_deadlock = None \<and> test_unlock_order_deadlock = None \<and>
   test_double_lock_deadlock = None \<and> test_circular_wait_deadlock = None \<and>
   map_option verify_expected_behavior test_semaphore_overflow = Some True \<and>
   map_option verify_expected_behavior test_incorrect_condvar_usage = Some False"
proof -
  have "test_missing_wakeup_deadlock = None" by (simp add: test_missing_wakeup_deadlock_def run_with_timeout_def)
  moreover have "map_option verify_expected_behavior test_semaphore_overflow = Some True"
    by (simp add: test_semaphore_overflow_def run_with_timeout_def add_times_eq verify_expected_behavior_def conclude_def)
  ultimately show ?thesis
    by (simp add: run_all_eq test_unlock_order_deadlock_def test_double_lock_deadlock_def
        test_circular_wait_deadlock_def test_incorrect_condvar_usage_def run_with_timeout_def
        verify_expected_behavior_def conclude_def)
qed

lemma mutex_property_loop_rest:
  "0 < k \<Longrightarrow> k + n < 2 ^ 64 \<Longrightarrow> mutex_property_loop n (of_nat k) s = Some (of_nat (k + n), s)"
proof (induction n arbitrary: k)
  case (Suc n)
  have "unat (of_nat (Suc k) :: usize) = Suc k" using Suc.prems by (simp only: unat_of_nat) simp
  then have "(of_nat (Suc k) :: usize) \<noteq> 1" using Suc.prems(1) by (metis Suc_inject less_irrefl One_nat_def unat_1)
  then show ?case using Suc.IH[of "Suc k"] Suc.prems by (simp add: Let_def add.commute)
qed simp

lemma test_mutex_property_eq: "test_mutex_property = Some False"
proof -
  have "mutex_property_loop 9 1 1 = Some (10, 1)"
    using mutex_property_loop_rest[of 1 9 1] by simp
  then have "mutex_property_loop (Suc 9) 0 0 = Some (10, 1)"
    by (simp only: mutex_property_loop.simps spin_lock_free and_then_simps Let_def) simp
  then show ?thesis by (simp add: test_mutex_property_def del: mutex_property_loop.simps)
qed

text \<open>The check of mutual exclusion rejects every correct lock: the counter is 1 after the first of ten additions only, so
one success is counted where ten are asked for. No result of the phase could be a success, and the phase does not return.\<close>

theorem mutex_property_rejects_correct_locks:
  "test_mutex_property = Some False \<and> (\<forall>c. Some (mutex_property c) = test_mutex_property \<longrightarrow> \<not> is_successful c) \<and>
   test_correctness = None"
  by (simp add: test_mutex_property_eq is_successful_def test_correctness_def run_failure_tests_def run_all_eq)

lemma stress_inner_eq: "stress_inner n c = Some (c + of_nat n)"
  by (induction n arbitrary: c) (simp_all add: algebra_simps)

lemma stress_outer_eq: "stress_outer n ops c = Some (c + of_nat (n * ops))"
  by (induction n arbitrary: c) (simp_all add: stress_inner_eq algebra_simps)

text \<open>A stress test returns, and unless the number of operations overflows it finds every operation done; its success
rate is one and the contention it says it observed is the one it was given.\<close>

theorem stress_tests_succeed:
  "\<exists>r. stress_test t = Some r \<and>
    (r = Inl ArithOverflow \<or>
     (\<exists>s. r = Inr s \<and> verify_success s \<and> stress_success_rate s = f64_one \<and> contention_observed s = tester_contention t))"
proof -
  have "stress_success_rate s = f64_one" if s: "successful_operations s = total_operations s" for s
    using f64_of_u64_num[of "total_operations s"] f64_div_self by (metis s stress_success_rate_def)
  then show ?thesis by (auto simp: stress_test_def stress_outer_eq times_usize_def verify_success_def bind_res_def)
qed

end
