(* ===== verification/Experiment_Report.thy ===== *)
theory Experiment_Report
  imports Sync_Experiment Stress_Test
begin

text \<open>
  The phases of the experiment on the locks and its verdict: \<open>tg-rcore-tutorial-ch8/src/sync_experiment.rs\<close> with the
  comparator of \<open>sync_tests.rs\<close>. Sentences are constructors, or the name that they are built around.
\<close>

section \<open>The comparator\<close>

record test_result =
  tr_execution_time :: u64
  tr_memory_usage :: usize
  tr_context_switches :: u64
  tr_lock_contention :: f64

record test_case =
  tc_name :: string
  tc_fn :: "unit \<Rightarrow> test_result"

type_synonym comparator = "test_case list"
type_synonym primitive_report = "(string \<times> test_result) list"

definition comparator_new :: comparator where "comparator_new = []"

definition add_test_case :: "string \<Rightarrow> (unit \<Rightarrow> test_result) \<Rightarrow> comparator \<Rightarrow> comparator" where
  "add_test_case name f c = c @ [\<lparr>tc_name = name, tc_fn = f\<rparr>]"

definition run_primitive_comparison :: "comparator \<Rightarrow> primitive_report" where
  "run_primitive_comparison c = map (\<lambda>t. (tc_name t, tc_fn t ())) c"

text \<open>\<open>min_by_key\<close> keeps the first of equal elements.\<close>

primrec min_time_from :: "string \<times> test_result \<Rightarrow> primitive_report \<Rightarrow> string \<times> test_result" where
  "min_time_from x [] = x"
| "min_time_from x (y # ys) =
     min_time_from (if tr_execution_time (snd y) < tr_execution_time (snd x) then y else x) ys"

definition best_primitive :: "primitive_report \<Rightarrow> string option" where
  "best_primitive r = (case r of [] \<Rightarrow> None | x # xs \<Rightarrow> Some (fst (min_time_from x xs)))"

definition fairest_primitive :: "primitive_report \<Rightarrow> string option res" where
  "fairest_primitive r =
     (case map (map_prod id tr_lock_contention) r of
        [] \<Rightarrow> Inr None
      | x # xs \<Rightarrow> bind_res (min_by_from x xs) (\<lambda>(name, _). Inr (Some name)))"

section \<open>Phases\<close>

definition benchmark_spinlock :: "unit \<Rightarrow> test_result" where
  "benchmark_spinlock u =
     \<lparr>tr_execution_time = 100, tr_memory_usage = 64, tr_context_switches = 5, tr_lock_contention = literal 3 10\<rparr>"

definition benchmark_mutex :: "unit \<Rightarrow> test_result" where
  "benchmark_mutex u =
     \<lparr>tr_execution_time = 150, tr_memory_usage = 128, tr_context_switches = 20, tr_lock_contention = literal 1 10\<rparr>"

definition benchmark_rwlock :: "unit \<Rightarrow> test_result" where
  "benchmark_rwlock u =
     \<lparr>tr_execution_time = 120, tr_memory_usage = 192, tr_context_switches = 15, tr_lock_contention = literal 2 10\<rparr>"

record performance_results =
  pr_best :: "string option"
  pr_fairest :: "string option"
  pr_full_report :: primitive_report

definition performance_results_new :: performance_results where
  "performance_results_new = \<lparr>pr_best = None, pr_fairest = None, pr_full_report = []\<rparr>"

definition test_performance :: "performance_results res" where
  "test_performance =
     (let r = run_primitive_comparison
        (add_test_case ''rwlock'' benchmark_rwlock
          (add_test_case ''mutex'' benchmark_mutex
            (add_test_case ''spinlock'' benchmark_spinlock comparator_new))) in
      bind_res (fairest_primitive r) (\<lambda>fairest.
        Inr \<lparr>pr_best = best_primitive r, pr_fairest = fairest, pr_full_report = r\<rparr>))"

record fairness_results =
  no_starvation :: bool
  bounded_wait_time :: bool
  fr_variance :: f64
  verified_fairness :: bool

definition fairness_results_new :: fairness_results where
  "fairness_results_new =
     \<lparr>no_starvation = False, bounded_wait_time = False, fr_variance = f64_zero, verified_fairness = False\<rparr>"

definition test_fairness :: "sync_monitor \<Rightarrow> fairness_results" where
  "test_fairness mon =
     (let r = generate_sync_report mon in
      \<lparr>no_starvation = (\<not> starvation_check 100000 (mutex_metrics mon)),
       bounded_wait_time = fairness_check 50000 (mutex_metrics mon),
       fr_variance = spinlock_fairness r,
       verified_fairness = verify_fairness (literal 1 10) r\<rparr>)"

definition fairness_successful :: "fairness_results \<Rightarrow> bool" where
  "fairness_successful f \<longleftrightarrow> no_starvation f \<and> bounded_wait_time f \<and> verified_fairness f"

record stress_results =
  spinlock_stress :: stress_result
  mutex_stress :: stress_result
  semaphore_stress :: stress_result

definition stress_results_new :: stress_results where
  "stress_results_new =
     (let none = \<lparr>total_operations = 0, successful_operations = 0, contention_observed = f64_zero\<rparr> in
      \<lparr>spinlock_stress = none, mutex_stress = none, semaphore_stress = none\<rparr>)"

definition test_stress :: "stress_results res option" where
  "test_stress =
     (let t = stress_tester_new 10 1000 (literal 8 10) in
      and_then (stress_test t) (\<lambda>spin.
      and_then (stress_test t) (\<lambda>mutex.
        Some (bind_res spin (\<lambda>s. bind_res mutex (\<lambda>m. bind_res (stress_test_semaphore t) (\<lambda>sem.
          Inr \<lparr>spinlock_stress = s, mutex_stress = m, semaphore_stress = sem\<rparr>)))))))"

definition stress_successful :: "stress_results \<Rightarrow> bool" where
  "stress_successful s \<longleftrightarrow>
     verify_success (spinlock_stress s) \<and> verify_success (mutex_stress s) \<and> verify_success (semaphore_stress s)"

section \<open>The experiment\<close>

definition correctness_results_new :: correctness_results where
  "correctness_results_new =
     \<lparr>mutex_property = False, deadlock_detection = False, wakeup_mechanism = False, failure_tests = []\<rparr>"

record experiment_report =
  correctness_part :: correctness_results
  performance_part :: performance_results
  fairness_part :: fairness_results
  stress_part :: stress_results

definition experiment_report_new :: experiment_report where
  "experiment_report_new =
     \<lparr>correctness_part = correctness_results_new, performance_part = performance_results_new,
      fairness_part = fairness_results_new, stress_part = stress_results_new\<rparr>"

definition run_full_experiment :: "sync_monitor \<Rightarrow> experiment_report res option" where
  "run_full_experiment mon =
     and_then test_correctness (\<lambda>correct.
       (case test_performance of
          Inl e \<Rightarrow> Some (Inl e)
        | Inr perf \<Rightarrow>
            and_then test_stress (\<lambda>stress.
              Some (bind_res stress (\<lambda>s.
                Inr (experiment_report_new\<lparr>correctness_part := correct, performance_part := perf,
                  fairness_part := test_fairness mon, stress_part := s\<rparr>))))))"

definition run_sync_experiment :: "experiment_report res option" where
  "run_sync_experiment = run_full_experiment sync_monitor_new"

definition experiment_successful :: "experiment_report \<Rightarrow> bool" where
  "experiment_successful r \<longleftrightarrow>
     is_successful (correctness_part r) \<and> fairness_successful (fairness_part r) \<and> stress_successful (stress_part r)"

datatype recommendation = FairLocks | ShorterWaits | Prefer string

record experiment_analysis =
  overall_success :: bool
  performance_insights :: "string option"
  fairness_insights :: bool
  recommendations :: "recommendation list"

definition analyze_performance :: "experiment_report \<Rightarrow> string option" where
  "analyze_performance r = pr_best (performance_part r)"

definition analyze_fairness :: "experiment_report \<Rightarrow> bool" where
  "analyze_fairness r \<longleftrightarrow> no_starvation (fairness_part r) \<and> bounded_wait_time (fairness_part r)"

definition generate_recommendations :: "experiment_report \<Rightarrow> recommendation list" where
  "generate_recommendations r =
     (if no_starvation (fairness_part r) then [] else [FairLocks]) @
     (if bounded_wait_time (fairness_part r) then [] else [ShorterWaits]) @
     (case pr_best (performance_part r) of None \<Rightarrow> [] | Some best \<Rightarrow> [Prefer best])"

definition generate_analysis :: "experiment_report \<Rightarrow> experiment_analysis" where
  "generate_analysis r =
     \<lparr>overall_success = experiment_successful r, performance_insights = analyze_performance r,
      fairness_insights = analyze_fairness r, recommendations = generate_recommendations r\<rparr>"

section \<open>What the experiment can find\<close>

text \<open>The phases that return find the same whatever the locks do: the benchmarks are constants, nobody records anything
in the monitor, and the stress tests run alone. The whole experiment does not return, and no report with the verdict of the
mutual exclusion test could be a success.\<close>

lemma test_performance_eq:
  "\<exists>p. test_performance = Inr p \<and> pr_best p = Some ''spinlock'' \<and> pr_fairest p = Some ''mutex''"
  by (simp add: test_performance_def run_primitive_comparison_def add_test_case_def comparator_new_def best_primitive_def
      fairest_primitive_def benchmark_spinlock_def benchmark_mutex_def benchmark_rwlock_def Let_def order_of_def
      literal_def round64_def pack_def significand_def ulp_exponent_def half_even_def log2_ratio_def bits.simps up_def
      e_min_def e_max_def signed_part_def)

lemma fresh_monitor_is_fair: "fairness_successful (test_fairness sync_monitor_new)"
proof -
  have "f64_le f64_zero (literal 1 10)" by (simp add: literal_def flip: not_negative_iff)
  then show ?thesis
    by (simp add: fairness_successful_def test_fairness_def generate_sync_report_def verify_fairness_def
        metrics_fairness_variance_def sync_monitor_new_def lock_metrics_new_def starvation_check_def fairness_check_def Let_def)
qed

lemma test_stress_succeeds: "\<exists>s. test_stress = Some (Inr s) \<and> stress_successful s"
  by (simp add: test_stress_def stress_test_def stress_test_semaphore_def stress_outer_eq stress_tester_new_def times_usize_def
      stress_successful_def verify_success_def Let_def)

theorem experiment_finds_the_same:
  "(\<exists>p. test_performance = Inr p \<and> pr_best p = Some ''spinlock'' \<and> pr_fairest p = Some ''mutex'') \<and>
   fairness_successful (test_fairness sync_monitor_new) \<and>
   (\<exists>s. test_stress = Some (Inr s) \<and> stress_successful s) \<and>
   run_sync_experiment = None \<and>
   (\<forall>r. Some (mutex_property (correctness_part r)) = test_mutex_property \<longrightarrow> \<not> overall_success (generate_analysis r))"
  using test_performance_eq fresh_monitor_is_fair test_stress_succeeds
  by (simp add: run_sync_experiment_def run_full_experiment_def test_correctness_def run_failure_tests_def run_all_eq
      test_mutex_property_eq generate_analysis_def experiment_successful_def is_successful_def)

end
