(* ===== verification/Checker.thy ===== *)
theory Checker
  imports Prelude
begin

text \<open>
  The checker of test outputs: \<open>tg-rcore-tutorial-checker/src\<close>. Regular expressions are those of the crate \<open>regex\<close>:
  \<open>regex p\<close> is what the pattern \<open>p\<close> matches, \<open>None\<close> when it is not a valid pattern. Printing is not modelled.
\<close>

section \<open>Test cases\<close>

record test_case =
  expected :: "string list"
  not_expected :: "string list"

text \<open>The pattern of a number.\<close>

definition digits :: string where
  "digits = ''('' @ CHR 0x5C # ''d+)''"

definition ch2_base :: test_case where
  "ch2_base =
     \<lparr>expected =
        [''Hello, world from user mode program!'', ''Test power_3 OK!'', ''Test power_5 OK!'',
         ''Test power_7 OK!''],
      not_expected = [''FAIL: T.T'']\<rparr>"

definition ch3_base :: test_case where
  "ch3_base =
     \<lparr>expected =
        [''Test write A OK!'', ''Test write B OK!'', ''Test write C OK!''],
      not_expected = [''FAIL: T.T'']\<rparr>"

definition ch3_exercise :: test_case where
  "ch3_exercise =
     \<lparr>expected =
        [''get_time OK! '' @ digits, ''Test sleep OK!'', ''current time_msec = '' @ digits,
         ''time_msec = '' @ digits @ '' after sleeping '' @ digits @ '' ticks, delta = '' @ digits @ ''ms!'',
         ''Test sleep1 passed!'', ''string from task trace test'', ''Test trace OK!''],
      not_expected = []\<rparr>"

definition ch4_base :: test_case where
  "ch4_base =
     \<lparr>expected =
        [''Test write A OK!'', ''Test write B OK!'', ''Test write C OK!'', ''Test sbrk almost OK!''],
      not_expected = [''FAIL: T.T'', ''Test sbrk failed!'']\<rparr>"

definition ch4_exercise :: test_case where
  "ch4_exercise =
     \<lparr>expected =
        [''get_time OK! '' @ digits, ''Test sleep OK!'', ''current time_msec = '' @ digits,
         ''time_msec = '' @ digits @ '' after sleeping '' @ digits @ '' ticks, delta = '' @ digits @ ''ms!'',
         ''Test sleep1 passed!'', ''string from task trace test'', ''Test trace OK!'', ''Test 04_1 OK!'',
         ''Test 04_4 test OK!'', ''Test 04_5 ummap OK!'', ''Test 04_6 ummap2 OK!'', ''Test trace_1 OK!''],
      not_expected = [''FAIL: T.T'', ''Test sbrk failed!'', ''Should cause error, Test 04_2 fail!'',
                       ''Should cause error, Test 04_3 fail!'']\<rparr>"

definition ch5_base :: test_case where
  "ch5_base =
     \<lparr>expected =
        [''Hello, world from user mode program!'', ''Test power_3 OK!'', ''Test power_5 OK!'',
         ''Test power_7 OK!'', ''Test write A OK!'', ''Test write B OK!'', ''Test write C OK!'',
         ''Test sbrk almost OK!'', ''exit pass.'', ''hello child process!'',
         ''child process pid = '' @ digits @ '', exit code = '' @ digits, ''forktest pass.''],
      not_expected = [''FAIL: T.T'', ''Test sbrk failed!'']\<rparr>"

definition ch5_exercise :: test_case where
  "ch5_exercise =
     \<lparr>expected =
        [''get_time OK! '' @ digits, ''Test sleep OK!'', ''current time_msec = '' @ digits,
         ''time_msec = '' @ digits @ '' after sleeping '' @ digits @ '' ticks, delta = '' @ digits @ ''ms!'',
         ''Test sleep1 passed!'', ''Test 04_1 OK!'', ''Test 04_4 test OK!'', ''Test 04_5 ummap OK!'',
         ''Test 04_6 ummap2 OK!'', ''Test spawn0 OK!'', ''Test wait OK!'', ''Test waitpid OK!'',
         ''Test set_priority OK!''],
      not_expected = [''FAIL: T.T'', ''Test sbrk failed!'', ''Should cause error, Test 04_2 fail!'',
                       ''Should cause error, Test 04_3 fail!'']\<rparr>"

definition ch6_base :: test_case where
  "ch6_base =
     \<lparr>expected =
        [''Hello, world from user mode program!'', ''Test power_3 OK!'', ''Test power_5 OK!'',
         ''Test power_7 OK!'', ''Test write A OK!'', ''Test write B OK!'', ''Test write C OK!'',
         ''Test sbrk almost OK!'', ''exit pass.'', ''hello child process!'',
         ''child process pid = '' @ digits @ '', exit code = '' @ digits, ''forktest pass.'',
         ''file_test passed!''],
      not_expected = [''FAIL: T.T'', ''Test sbrk failed!'']\<rparr>"

definition ch6_exercise :: test_case where
  "ch6_exercise =
     \<lparr>expected =
        [''get_time OK! '' @ digits, ''Test sleep OK!'', ''current time_msec = '' @ digits,
         ''time_msec = '' @ digits @ '' after sleeping '' @ digits @ '' ticks, delta = '' @ digits @ ''ms!'',
         ''Test sleep1 passed!'', ''Test 04_1 OK!'', ''Test 04_4 test OK!'', ''Test 04_5 ummap OK!'',
         ''Test 04_6 ummap2 OK!'', ''Test spawn0 OK!'', ''Test wait OK!'', ''Test waitpid OK!'',
         ''Hello, world from user mode program!'', ''Test power_3 OK!'', ''Test power_5 OK!'',
         ''Test power_7 OK!'', ''Test write A OK!'', ''Test write B OK!'', ''Test write C OK!'',
         ''Test sbrk almost OK!'', ''exit pass.'', ''hello child process!'',
         ''child process pid = '' @ digits @ '', exit code = '' @ digits, ''forktest pass.'',
         ''file_test passed!'', ''Test file0 OK!'', ''Test fstat OK!'', ''Test link OK!'',
         ''Test mass open/unlink OK!''],
      not_expected = [''FAIL: T.T'', ''Test sbrk failed!'', ''Should cause error, Test 04_2 fail!'',
                       ''Should cause error, Test 04_3 fail!'']\<rparr>"

definition ch7_base :: test_case where
  "ch7_base =
     \<lparr>expected =
        [''Hello, world from user mode program!'', ''Test power_3 OK!'', ''Test power_5 OK!'',
         ''Test power_7 OK!'', ''Test write A OK!'', ''Test write B OK!'', ''Test write C OK!'',
         ''Test sbrk almost OK!'', ''exit pass.'', ''hello child process!'',
         ''child process pid = '' @ digits @ '', exit code = '' @ digits, ''forktest pass.'',
         ''file_test passed!'', ''signal_simple: Done'', ''pipetest passed!'', ''pipe_large_test passed!''],
      not_expected = [''FAIL: T.T'', ''Test sbrk failed!'']\<rparr>"

definition ch8_base :: test_case where
  "ch8_base =
     \<lparr>expected =
        [''Hello, world from user mode program!'', ''Test power_3 OK!'', ''Test power_5 OK!'',
         ''Test power_7 OK!'', ''Test write A OK!'', ''Test write B OK!'', ''Test write C OK!'', ''exit pass.'',
         ''hello child process!'', ''child process pid = '' @ digits @ '', exit code = '' @ digits,
         ''forktest pass.'', ''file_test passed!'', ''pipetest passed!'', ''mpsc_sem passed!'',
         ''philosopher dining problem with mutex test passed!'', ''race adder using spin mutex test passed!'',
         ''sync_sem passed!'', ''test_condvar passed!'', ''threads with arg test passed!'',
         ''threads test passed!''],
      not_expected = [''FAIL: T.T'', ''Test sbrk failed!'']\<rparr>"

definition ch8_exercise :: test_case where
  "ch8_exercise =
     \<lparr>expected =
        [''Hello, world from user mode program!'', ''Test power_3 OK!'', ''Test power_5 OK!'',
         ''Test power_7 OK!'', ''Test write A OK!'', ''Test write B OK!'', ''Test write C OK!'', ''exit pass.'',
         ''hello child process!'', ''child process pid = '' @ digits @ '', exit code = '' @ digits,
         ''forktest pass.'', ''file_test passed!'', ''pipetest passed!'', ''mpsc_sem passed!'',
         ''philosopher dining problem with mutex test passed!'', ''race adder using spin mutex test passed!'',
         ''sync_sem passed!'', ''test_condvar passed!'', ''threads with arg test passed!'',
         ''threads test passed!'', ''deadlock test mutex 1 OK!'', ''deadlock test semaphore 1 OK!'',
         ''deadlock test semaphore 2 OK!''],
      not_expected = [''FAIL: T.T'', ''Test sbrk failed!'']\<rparr>"

definition get_test_case :: "u8 \<Rightarrow> bool \<Rightarrow> test_case option" where
  "get_test_case chapter exercise =
     (if chapter = 2 \<and> \<not> exercise then Some ch2_base
      else if chapter = 3 \<and> \<not> exercise then Some ch3_base
      else if chapter = 4 \<and> \<not> exercise then Some ch4_base
      else if chapter = 5 \<and> \<not> exercise then Some ch5_base
      else if chapter = 6 \<and> \<not> exercise then Some ch6_base
      else if chapter = 7 \<and> \<not> exercise then Some ch7_base
      else if chapter = 8 \<and> \<not> exercise then Some ch8_base
      else if chapter = 3 \<and> exercise then Some ch3_exercise
      else if chapter = 4 \<and> exercise then Some ch4_exercise
      else if chapter = 5 \<and> exercise then Some ch5_exercise
      else if chapter = 6 \<and> exercise then Some ch6_exercise
      else if chapter = 8 \<and> exercise then Some ch8_exercise
      else None)"

definition list_available_tests :: "(u8 \<times> bool \<times> string) list" where
  "list_available_tests =
     [(2, False, ''ch2 base test''), (3, False, ''ch3 base test''), (3, True, ''ch3 exercise test''),
      (4, False, ''ch4 base test''), (4, True, ''ch4 exercise test''), (5, False, ''ch5 base test''),
      (5, True, ''ch5 exercise test''), (6, False, ''ch6 base test''), (6, True, ''ch6 exercise test''),
      (7, False, ''ch7 base test''), (8, False, ''ch8 base test''), (8, True, ''ch8 exercise test'')]"

section \<open>The check\<close>

record check_detail =
  det_pattern :: string
  det_passed :: bool
  det_is_expected :: bool

record check_result =
  cr_passed :: nat
  cr_total :: nat
  details :: "check_detail list"

definition is_success :: "check_result \<Rightarrow> bool" where
  "is_success r \<longleftrightarrow> cr_passed r = cr_total r"

type_synonym regex = "string \<Rightarrow> (string \<Rightarrow> bool) option"

definition compile_pattern :: "regex \<Rightarrow> string \<Rightarrow> (string \<Rightarrow> bool) res" where
  "compile_pattern regex p = (case regex p of None \<Rightarrow> Inl UnwrapErr | Some f \<Rightarrow> Inr f)"

text \<open>The two loops, on the number of checks passed and the details so far.\<close>

primrec check_patterns ::
  "regex \<Rightarrow> string \<Rightarrow> bool \<Rightarrow> string list \<Rightarrow> nat \<times> check_detail list \<Rightarrow> (nat \<times> check_detail list) res" where
  "check_patterns regex out wanted [] acc = Inr acc"
| "check_patterns regex out wanted (p # ps) acc =
     bind_res (compile_pattern regex p) (\<lambda>is_match.
       let ok = (if wanted then is_match out else \<not> is_match out) in
       check_patterns regex out wanted ps
         (fst acc + (if ok then 1 else 0),
          snd acc @ [\<lparr>det_pattern = p, det_passed = ok, det_is_expected = wanted\<rparr>]))"

definition check_output :: "regex \<Rightarrow> string \<Rightarrow> test_case \<Rightarrow> check_result res" where
  "check_output regex out tc =
     bind_res (check_patterns regex out True (expected tc) (0, [])) (\<lambda>acc.
     bind_res (check_patterns regex out False (not_expected tc) acc) (\<lambda>(passed, ds).
       Inr \<lparr>cr_passed = passed, cr_total = length (expected tc) + length (not_expected tc), details = ds\<rparr>))"

section \<open>The program\<close>

record checker_args =
  arg_ch :: "u8 option"
  arg_exercise :: bool
  arg_list :: bool

datatype exit_code = ExitSuccess | ExitFailure

text \<open>\<open>stdin\<close> is \<open>None\<close> when it cannot be read.\<close>

definition checker_main :: "regex \<Rightarrow> checker_args \<Rightarrow> string option \<Rightarrow> exit_code res" where
  "checker_main regex args stdin =
     (if arg_list args then Inr ExitSuccess
      else
        case arg_ch args of
          None \<Rightarrow> Inr ExitFailure
        | Some chapter \<Rightarrow>
            (case get_test_case chapter (arg_exercise args) of
               None \<Rightarrow> Inr ExitFailure
             | Some tc \<Rightarrow>
                 (case stdin of
                    None \<Rightarrow> Inr ExitFailure
                  | Some out \<Rightarrow>
                      bind_res (check_output regex out tc) (\<lambda>r.
                        Inr (if is_success r then ExitSuccess else ExitFailure)))))"

section \<open>What a passing run says\<close>

definition matches :: "regex \<Rightarrow> string \<Rightarrow> string \<Rightarrow> bool" where
  "matches regex out p = (case regex p of None \<Rightarrow> False | Some f \<Rightarrow> f out)"

lemma check_patterns_eq:
  "list_all (\<lambda>p. regex p \<noteq> None) ps \<Longrightarrow>
   check_patterns regex out wanted ps acc =
     Inr (fst acc + length (filter (\<lambda>p. matches regex out p = wanted) ps),
          snd acc @ map (\<lambda>p. \<lparr>det_pattern = p, det_passed = (matches regex out p = wanted), det_is_expected = wanted\<rparr>) ps)"
  by (induction ps arbitrary: acc) (auto simp: compile_pattern_def matches_def Let_def)

lemma check_output_eq:
  assumes "list_all (\<lambda>p. regex p \<noteq> None) (expected tc @ not_expected tc)"
  shows "\<exists>r. check_output regex out tc = Inr r \<and> cr_passed r \<le> cr_total r \<and>
    cr_passed r = length (filter det_passed (details r)) \<and> cr_total r = length (details r) \<and>
    (is_success r \<longleftrightarrow> list_all (matches regex out) (expected tc) \<and> list_all (\<lambda>p. \<not> matches regex out p) (not_expected tc))"
proof -
  have all: "length (filter P xs) = length xs \<longleftrightarrow> list_all P xs" for P and xs :: "string list"
    by (induction xs) (auto simp: le_imp_less_Suc less_imp_neq[OF le_imp_less_Suc[OF length_filter_le]])
  have both: "a + b = c + d \<longleftrightarrow> a = c \<and> b = d" if "a \<le> c" "b \<le> d" for a b c d :: nat using that by auto
  show ?thesis
    using assms
    by (simp add: check_output_def check_patterns_eq is_success_def both all filter_map comp_def add_le_mono)
qed

text \<open>The checker accepts an output for a chapter exactly when the chapter has a test, every expected pattern matches and
no forbidden one does, provided the patterns are valid; and the tests it lists are exactly the ones it has.\<close>

theorem checker_accepts_exactly:
  assumes "\<And>c e tc. get_test_case c e = Some tc \<Longrightarrow> list_all (\<lambda>p. regex p \<noteq> None) (expected tc @ not_expected tc)"
    and "\<not> arg_list args"
  shows "(checker_main regex args stdin = Inr ExitSuccess \<longleftrightarrow>
      (\<exists>c tc out. arg_ch args = Some c \<and> get_test_case c (arg_exercise args) = Some tc \<and> stdin = Some out \<and>
         list_all (matches regex out) (expected tc) \<and> list_all (\<lambda>p. \<not> matches regex out p) (not_expected tc))) \<and>
    (\<forall>c e. (\<exists>d. (c, e, d) \<in> set list_available_tests) \<longleftrightarrow> get_test_case c e \<noteq> None)"
proof -
  have "(\<exists>d. (c, e, d) \<in> set list_available_tests) \<longleftrightarrow> get_test_case c e \<noteq> None" for c e
    by (auto simp: list_available_tests_def get_test_case_def)
  moreover have "bind_res (check_output regex out tc) (\<lambda>r. Inr (if is_success r then ExitSuccess else ExitFailure)) =
      Inr ExitSuccess \<longleftrightarrow> list_all (matches regex out) (expected tc) \<and> list_all (\<lambda>p. \<not> matches regex out p) (not_expected tc)"
    if "get_test_case c e = Some tc" for c e tc out
    using check_output_eq[OF assms(1)[OF that], of out] by auto
  ultimately show ?thesis
    using assms(2) by (auto simp: checker_main_def split: option.splits)
qed

text \<open>Patterns that match when they occur literally.\<close>

definition literal_regex :: regex where
  "literal_regex p = Some (\<lambda>out. list_ex (\<lambda>i. take (length p) (drop i out) = p) [0..<Suc (length out)])"

theorem checker_accepts_exactly_witness:
  "checker_main literal_regex \<lparr>arg_ch = Some 3, arg_exercise = False, arg_list = False\<rparr>
     (Some ''Test write A OK!Test write B OK!Test write C OK!'') = Inr ExitSuccess"
proof -
  have m: "list_all (matches literal_regex ''Test write A OK!Test write B OK!Test write C OK!'') (expected ch3_base) \<and>
      list_all (\<lambda>p. \<not> matches literal_regex ''Test write A OK!Test write B OK!Test write C OK!'' p) (not_expected ch3_base)"
    by code_simp
  show ?thesis
    using checker_accepts_exactly[of literal_regex "\<lparr>arg_ch = Some 3, arg_exercise = False, arg_list = False\<rparr>"
        "Some ''Test write A OK!Test write B OK!Test write C OK!''"] m
    by (simp add: literal_regex_def[abs_def] get_test_case_def list_all_iff)
qed

end
