(* ===== verification/Spec2Isabelle.thy ===== *)
theory Spec2Isabelle
  imports Proc_Manager Sync Signals Directory Block_Cache Kernel_Properties Killed_Waiter Call_Properties File_Properties Space_Properties
    Time_Spec User_Calls User_Lib Portal Console Linker Boot_Image Virtio Kernel_Heap Atomic_Max
    Classic_Problems Lab_Locks Data_Analysis Experiment_Report Checker
begin

text \<open>
  A verification library for the rCore tutorial kernel (chapter 8) and the crates it is built from.
  Paths are those of the repository; \<open>tg-rcore-tutorial-\<close> is left out of their first part.

  \<^bold>\<open>The program.\<close> The kernel runs one hart. \<open>rust_main\<close> (\<open>ch8/src/main.rs\<close>) builds its address space, loads the
  program \<open>ch8_usertest\<close> from the disk and then loops: it takes the next ready thread from the processor
  (\<open>task-manage\<close>), executes it through the portal into its address space (\<open>kernel-context\<close>), and when it traps with
  a system call dispatches the call (\<open>syscall/src/kernel/mod.rs\<close>) to its implementation (\<open>mod impls\<close> of
  \<open>main.rs\<close>), delivers a signal (\<open>signal-impl\<close>) and suspends, blocks or ends the thread. The implementations work on
  processes (\<open>ch8/src/process.rs\<close>), address spaces (\<open>kernel-vm\<close>), the file system and pipes (\<open>easy-fs\<close>) and the
  locks (\<open>sync\<close>). User programs reach the kernel through \<open>syscall/src/user.rs\<close> and \<open>user/src/lib.rs\<close>; the kernel
  reaches the machine through \<open>sbi\<close> and prints through \<open>console\<close>.

  \<^bold>\<open>State and errors.\<close> The state of the kernel is the record \<open>kernel\<close> of \<open>Process\<close>: what the source keeps in globals
  (processor, id counters, interrupt state, memory, pipes, disk, console, cycle counter). Operations pass it
  explicitly; \<open>kstep\<close> of \<open>Syscalls\<close> is the type of a step on it. A Rust panic is a value: \<open>'a res\<close> is \<open>panic + 'a\<close>
  (\<open>Prelude\<close>), and every index, \<open>unwrap\<close>, assertion and checked addition of the source is a branch. Integers have
  the width of the source (\<open>u8\<close> to \<open>usize\<close> are words) except where a comment says why natural numbers lose nothing.

  \<^bold>\<open>Parameters.\<close> What is not in the repository is an argument. The record \<open>platform\<close> (\<open>Address_Space\<close>) stands for the
  crates \<open>page-table\<close>, \<open>customizable-buddy\<close> (also \<open>buddy\<close> of \<open>Kernel_Heap\<close>) and \<open>xmas-elf\<close>; \<open>table_laws\<close>, \<open>alloc_fresh\<close> (\<open>Space_Properties\<close>) and
  \<open>address_laws\<close> (\<open>Boot\<close>) are what is relied on of them, and \<open>Sample_Platform\<close> has them. User code is a
  function of registers and memory (\<open>user_code\<close> of \<open>Kernel_Loop\<close>), the system behind a user program a record of
  calls (\<open>user_os\<close> of \<open>User_Calls\<close>), cargo a function (\<open>Image_Pack\<close>), the driver of the disk two (\<open>Virtio\<close>), the translation by the hardware a function (\<open>mmu\<close> of \<open>Machine\<close>), regular
  expressions a function (\<open>Checker\<close>).

  \<^bold>\<open>Theories.\<close>
  \<^item> \<open>Prelude\<close>: panics, words, lists, bytes, rings; the collections \<open>res_simps\<close> and \<open>wf_intros\<close>.
  \<^item> \<open>Task_Rel\<close>, \<open>Family\<close>, \<open>Task_Manager\<close>, \<open>Thread_Manager\<close>, \<open>Proc_Manager\<close>: ids, relations between processes and
    threads, the containers and ready queue of \<open>ch8/src/processor.rs\<close> (interfaces \<open>manage\<close>, \<open>schedule\<close> and
    \<open>reap_registry\<close>), and the two managers of \<open>task-manage\<close>: an invariant of all reached states (\<open>pt_ok\<close>, and
    \<open>queue_ok\<close> of the ready queue when only waiting live threads were re-enqueued), exit codes handed over once, threads joined once, every ready task run within a round, and exactly when an exit panics.
  \<^item> \<open>Intr_Cell\<close>, \<open>Sync\<close>: the interrupt-masking cell, mutex, semaphore and condition variable of \<open>sync\<close> (interface
    \<open>handoff_lock\<close>): mutual exclusion, order of service, counting law, the outcome of waiting.
  \<^item> \<open>Signal_Defs\<close>, \<open>Signals\<close>: signal numbers, sets and \<open>SignalImpl\<close>; any run refines a machine over sets.
  \<^item> \<open>Block_Store\<close>, \<open>Block_Cache\<close>: the disk as the file system sees it, and the cache of 16 blocks that provides
    it (interface \<open>block_provider\<close>). \<open>Disk_Layout\<close>, \<open>Disk_Codec\<close>, \<open>Bitmap\<close>, \<open>Efs\<close>, \<open>Vfs\<close>: \<open>layout.rs\<close>,
    \<open>bitmap.rs\<close> (interface \<open>allocator\<close>), \<open>efs.rs\<close>, \<open>vfs.rs\<close>. \<open>Inode_Blocks\<close>, \<open>Inode_Data\<close>, \<open>Vfs_Files\<close>,
    \<open>Directory\<close>: an inode as the list of its blocks, a file as its bytes, a directory as its entries; what is
    written is read back, cleared blocks are returned, created files are found. \<open>Fsck\<close>: the soundness of the whole
    file system (\<open>fs_sound\<close>), kept by any sequence of opens, reads and writes of the kernel (\<open>file_step\<close>); with readable
    names (\<open>fs_consistent\<close>) as long as no name of 28 bytes is created, after which lookups of absent paths panic.
  \<^item> \<open>Image_File\<close>, \<open>Virtio\<close>: block devices (interface \<open>block_device\<close>): the image file on the host, which meets it, and
    what \<open>ch8/src/virtio_block.rs\<close> adds to its driver. \<open>Image_Pack\<close>, \<open>Boot_Image\<close>: the programs built and packed by
    \<open>ch8/build.rs\<close>; the kernel finds them in the image, each with its bytes, and comes up from it.
  \<^item> \<open>File\<close>, \<open>Pipe\<close>, \<open>Kernel_Files\<close>: user buffers, handles, pipes as bounded queues for any
    buffers, with the panic on an empty segment, and the kernel's descriptors.
  \<^item> \<open>Address_Space\<close>, \<open>Sample_Platform\<close>, \<open>Space_Properties\<close>: mapping, unmapping, translation and the deep copy of
    \<open>fork\<close>. \<open>Context\<close>, \<open>Machine\<close>, \<open>Trap_Switch\<close>, \<open>Portal\<close>: the saved registers, the instructions of the assembly,
    and the switch to a thread in the same or in another address space and back.
  \<^item> \<open>Time_Spec\<close>, \<open>Process\<close>, \<open>Syscalls\<close>, \<open>Dispatch\<close>, \<open>Kernel_Loop\<close>: times, processes and threads, every
    system call, their dispatch, and the loop. \<open>Kernel_Invariant\<close>, \<open>Kernel_Calls\<close>, \<open>Kernel_Calls_Threads\<close>,
    \<open>Kernel_Calls_Files\<close>, \<open>Kernel_Safety\<close>: the invariant \<open>kernel_ok\<close>, one rule for each kind of step, every call
    and every turn. \<open>Kernel_Example\<close>, \<open>Kernel_Properties\<close>, \<open>Call_Properties\<close>, \<open>File_Properties\<close>: what follows for
    the kernel and for single calls. \<open>Killed_Waiter\<close>: how a thread killed in the queue of a semaphore stops the machine. \<open>Linker\<close>, \<open>Boot\<close>, \<open>Kernel_Heap\<close>: the layout of the image, the start of the kernel,
    which establishes the invariant, and its heap.
  \<^item> \<open>User_Calls\<close>, \<open>User_Lib\<close>: the user side of the calls, instantiated with the kernel, and the loops of the user
    library (interfaces \<open>pipe_writes\<close>, \<open>pipe_reads\<close>, \<open>advancing_clock\<close>, met by the pipe and the clock of the kernel).
  \<^item> \<open>Firmware\<close>, \<open>Console\<close>: the firmware calls with the firmware built in, printing and the logger (interface
    \<open>console\<close>). \<open>Checker\<close>: the checker of test outputs.
  \<^item> \<open>Lock_Stats\<close>, \<open>Atomic_Max\<close>, \<open>Classic_Problems\<close>, \<open>Sync_Experiment\<close>: the experiment on locks in \<open>ch8/src\<close>, which
    \<open>main.rs\<close> does not include: statistics, their lock-free maximum under any interleaving, the bounded buffer, the
    philosophers, and what the suite of failing tests can tell. \<open>Float64\<close>: IEEE binary64 as the code uses it, computed
    on natural numbers, with rounding proved nearest, monotone and exact on what can be represented. \<open>Sync_Metrics\<close>
    (\<open>sync_metrics.rs\<close>), \<open>Stress_Test\<close> (\<open>stress_test.rs\<close>), \<open>Data_Analysis\<close> (\<open>data_analysis.rs\<close>), \<open>Experiment_Report\<close>
    (\<open>sync_experiment.rs\<close>): the figures made of the statistics, that they are numbers in their range, the comparison that
    names the best lock, and the verdict of the experiment. \<open>Lab_Locks\<close>: the experiment that users run, with
    mutual exclusion and the count for any interleaving.

  \<^bold>\<open>Loops.\<close> A loop that ends is a \<open>fun\<close> or a \<open>function\<close> with its measure. One that may not end is a
  \<open>partial_function\<close> into options (\<open>sleep_loop\<close>, \<open>read_loop\<close>, \<open>write_loop\<close>, \<open>retry_loop\<close>, \<open>await_rx\<close>, \<open>spin_lock\<close>,
  \<open>wait_for\<close>), and that it returns is proved as such. \<open>main_loop\<close> consumes one run of user code per turn, so the
  list of runs is its fuel; the invariant is stated over \<open>reaches\<close>, any number of turns. A lock that its
  holder asks for again and a firmware call that never returns are the panic \<open>Deadlock\<close>.

  \<^bold>\<open>Not modelled.\<close> The test programs of users; the parts of the build scripts that run tools on the host, linker
  scripts; entry assembly; registration of the call tables at run time (\<open>initialised\<close> of \<open>Dispatch\<close>
  is its result); formatting of text, of tables and reports in particular, whose numbers and verdicts are
  modelled. Memory that user code shares with the kernel is a function from addresses
  to bytes, and a buffer is read at consecutive physical addresses as the source does. The source keeps a reference
  into the thread table during a turn; the model looks the thread up by its id.
\<close>

end
